(* ===== verification/Prelude.thy ===== *)
theory Prelude
  imports Main "HOL-Library.Word" "HOL-Library.Monad_Syntax"
begin

text \<open>
  Shared vocabulary of the development: the machine integer types of the C sources, byte
  buffers with bounds-checked reads, memory copies into a buffer, and the list facts that
  the component theories use.

  A read of a C buffer is modelled by \<open>rd\<close> and \<open>rd_bytes\<close>, which are \<open>None\<close> when the
  access leaves the buffer. A parser written over them returns \<open>None\<close> exactly when the C
  code would read out of bounds, so "the parser never returns \<open>None\<close>" is memory safety.
\<close>

unbundle bit_operations_syntax

type_synonym byte = "8 word"
type_synonym u16 = "16 word"
type_synonym u32 = "32 word"
type_synonym u64 = "64 word"
type_synonym bytes = "byte list"

named_theorems buf_simps \<open>simplification of buffer reads and writes\<close>
named_theorems ring_simps \<open>index arithmetic of ring buffers\<close>

section \<open>Bounds-checked reads\<close>

definition rd :: "bytes \<Rightarrow> nat \<Rightarrow> byte option" where
  "rd d i = (if i < length d then Some (d ! i) else None)"

definition rd_bytes :: "bytes \<Rightarrow> nat \<Rightarrow> nat \<Rightarrow> bytes option" where
  "rd_bytes d off n = (if off + n \<le> length d then Some (take n (drop off d)) else None)"

lemma rd_in [simp]: "i < length d \<Longrightarrow> rd d i = Some (d ! i)"
  by (simp add: rd_def)

lemma rd_bytes_in [simp]: "off + n \<le> length d \<Longrightarrow> rd_bytes d off n = Some (take n (drop off d))"
  by (simp add: rd_bytes_def)

lemma rd_Some_iff: "rd d i = Some b \<longleftrightarrow> i < length d \<and> b = d ! i"
  by (auto simp: rd_def)

lemma rd_bytes_Some_iff:
  "rd_bytes d off n = Some bs \<longleftrightarrow> off + n \<le> length d \<and> bs = take n (drop off d)"
  by (auto simp: rd_bytes_def)

lemma length_rd_bytes: "rd_bytes d off n = Some bs \<Longrightarrow> length bs = n"
  by (auto simp: rd_bytes_Some_iff)

section \<open>Copies into a buffer\<close>

text \<open>\<open>memcpy_at dst off src\<close> is \<open>memcpy(dst + off, src, len)\<close> with \<open>len\<close> the length of
  \<open>src\<close>; it stays inside \<open>dst\<close> when \<open>off + len \<le> length dst\<close>.\<close>

definition memcpy_at :: "'a list \<Rightarrow> nat \<Rightarrow> 'a list \<Rightarrow> 'a list" where
  "memcpy_at dst off src = take off dst @ src @ drop (off + length src) dst"

lemma length_memcpy_at [buf_simps]:
  "off + length src \<le> length dst \<Longrightarrow> length (memcpy_at dst off src) = length dst"
  by (simp add: memcpy_at_def)

lemma nth_memcpy_at [buf_simps]:
  assumes "off + length src \<le> length dst" "i < length dst"
  shows "memcpy_at dst off src ! i =
    (if off \<le> i \<and> i < off + length src then src ! (i - off) else dst ! i)"
  using assms by (auto simp: memcpy_at_def nth_append min_def)

lemma memcpy_at_Nil [simp]: "memcpy_at dst off [] = dst"
  by (simp add: memcpy_at_def)

lemma memcpy_at_append:
  assumes "off + length xs + length ys \<le> length dst" "n = off + length xs"
  shows "memcpy_at (memcpy_at dst off xs) n ys = memcpy_at dst off (xs @ ys)"
  using assms by (simp add: memcpy_at_def ac_simps)

text \<open>The \<open>i\<close>-th slot of a buffer of \<open>n\<close>-byte elements.\<close>

definition slot :: "nat \<Rightarrow> 'a list \<Rightarrow> nat \<Rightarrow> 'a list" where
  "slot n st i = take n (drop (i * n) st)"

lemma slot_bound:
  assumes "i < c" shows "i * n + n \<le> c * (n::nat)"
proof -
  from assms have "Suc i * n \<le> c * n" by (intro mult_le_mono1) simp
  then show ?thesis by simp
qed

lemma length_slot: "length st = c * n \<Longrightarrow> i < c \<Longrightarrow> length (slot n st i) = n"
  using slot_bound [of i c n] by (simp add: slot_def)

lemma slot_memcpy_same:
  assumes "length st = c * n" "i < c" "length el = n"
  shows "slot n (memcpy_at st (i * n) el) i = el"
  using assms slot_bound [of i c n] by (simp add: slot_def memcpy_at_def)

lemma slot_memcpy_other:
  assumes len: "length st = c * n" and ic: "i < c" and jc: "j < c" and el: "length el = n"
    and ne: "i \<noteq> j"
  shows "slot n (memcpy_at st (j * n) el) i = slot n st i"
proof (rule nth_equalityI)
  have jn: "j * n + length el \<le> length st" using slot_bound [OF jc, of n] len el by simp
  have lm: "length (memcpy_at st (j * n) el) = c * n" using length_memcpy_at [OF jn] len by simp
  show "length (slot n (memcpy_at st (j * n) el) i) = length (slot n st i)"
    using length_slot [OF lm ic] length_slot [OF len ic] by simp
  fix k assume "k < length (slot n (memcpy_at st (j * n) el) i)"
  then have k: "k < n" using length_slot [OF lm ic] by simp
  have out: "\<not> (j * n \<le> i * n + k \<and> i * n + k < j * n + length el)"
  proof (cases "i < j")
    case True
    then show ?thesis using slot_bound [of i j n] k by simp
  next
    case False
    then show ?thesis using ne slot_bound [of j i n] k el by simp
  qed
  have "slot n (memcpy_at st (j * n) el) i ! k = memcpy_at st (j * n) el ! (i * n + k)"
    using k lm ic slot_bound [OF ic, of n] by (simp add: slot_def nth_drop)
  also have "\<dots> = st ! (i * n + k)"
    using nth_memcpy_at [OF jn, of "i * n + k"] out k len slot_bound [OF ic, of n] by auto
  also have "\<dots> = slot n st i ! k"
    using k len ic slot_bound [OF ic, of n] by (simp add: slot_def nth_drop)
  finally show "slot n (memcpy_at st (j * n) el) i ! k = slot n st i ! k" .
qed

section \<open>Ring arithmetic\<close>

text \<open>The next index of a ring of \<open>c\<close> slots, \<open>(i + 1) % c\<close>.\<close>

definition ring_next :: "nat \<Rightarrow> nat \<Rightarrow> nat" where
  "ring_next c i = (i + 1) mod c"

text \<open>The number of steps from \<open>t\<close> forward to \<open>h\<close>.\<close>

definition ring_dist :: "nat \<Rightarrow> nat \<Rightarrow> nat \<Rightarrow> nat" where
  "ring_dist c t h = (if t \<le> h then h - t else c - (t - h))"

text \<open>The \<open>n\<close> indices from \<open>t\<close> on.\<close>

fun ring_indices :: "nat \<Rightarrow> nat \<Rightarrow> nat \<Rightarrow> nat list" where
  "ring_indices c t 0 = []"
| "ring_indices c t (Suc n) = t # ring_indices c (ring_next c t) n"

lemma ring_next_cases [ring_simps]:
  "i < c \<Longrightarrow> ring_next c i = (if Suc i = c then 0 else Suc i)"
  by (simp add: ring_next_def)

lemma ring_next_less [simp]: "0 < c \<Longrightarrow> ring_next c i < c"
  by (simp add: ring_next_def)

lemma ring_dist_less: "t < c \<Longrightarrow> h < c \<Longrightarrow> ring_dist c t h < c"
  by (auto simp: ring_dist_def)

lemma ring_dist_0 [simp]: "t < c \<Longrightarrow> ring_dist c t h = 0 \<longleftrightarrow> t = h"
  by (auto simp: ring_dist_def)

lemma ring_dist_head:
  "t < c \<Longrightarrow> h < c \<Longrightarrow> ring_next c h \<noteq> t \<Longrightarrow> ring_dist c t (ring_next c h) = Suc (ring_dist c t h)"
  by (auto simp: ring_dist_def ring_simps)

lemma ring_dist_full:
  "t < c \<Longrightarrow> h < c \<Longrightarrow> ring_next c h = t \<longleftrightarrow> ring_dist c t h = c - 1"
  by (auto simp: ring_dist_def ring_simps)

lemma ring_dist_tail:
  "t < c \<Longrightarrow> h < c \<Longrightarrow> t \<noteq> h \<Longrightarrow> ring_dist c t h = Suc (ring_dist c (ring_next c t) h)"
  by (auto simp: ring_dist_def ring_simps)

lemma length_ring_indices [simp]: "length (ring_indices c t n) = n"
  by (induction n arbitrary: t) auto

lemma ring_indices_less: "t < c \<Longrightarrow> i \<in> set (ring_indices c t n) \<Longrightarrow> i < c"
proof (induction n arbitrary: t)
  case 0
  then show ?case by simp
next
  case (Suc n)
  then have "i = t \<or> i \<in> set (ring_indices c (ring_next c t) n)" by auto
  then show ?case
  proof
    assume "i \<in> set (ring_indices c (ring_next c t) n)"
    then show ?thesis using Suc.prems by (intro Suc.IH [of "ring_next c t"]) auto
  qed (use Suc.prems in simp)
qed

lemma ring_indices_snoc:
  "t < c \<Longrightarrow> h < c \<Longrightarrow> n = ring_dist c t h \<Longrightarrow> ring_indices c t (Suc n) = ring_indices c t n @ [h]"
proof (induction n arbitrary: t)
  case 0
  then show ?case using ring_dist_0 [of t c h] by simp
next
  case (Suc n)
  then have "t \<noteq> h" by (auto simp: ring_dist_def split: if_splits)
  with Suc.prems have "n = ring_dist c (ring_next c t) h" using ring_dist_tail by simp
  then have "ring_indices c (ring_next c t) (Suc n) = ring_indices c (ring_next c t) n @ [h]"
    using Suc.prems by (intro Suc.IH) auto
  then show ?case by simp
qed

lemma head_notin_ring_indices:
  "t < c \<Longrightarrow> h < c \<Longrightarrow> n = ring_dist c t h \<Longrightarrow> h \<notin> set (ring_indices c t n)"
proof (induction n arbitrary: t)
  case 0
  then show ?case by simp
next
  case (Suc n)
  then have "t \<noteq> h" by (auto simp: ring_dist_def split: if_splits)
  moreover with Suc.prems have "n = ring_dist c (ring_next c t) h" using ring_dist_tail by simp
  then have "h \<notin> set (ring_indices c (ring_next c t) n)"
    using Suc.prems by (intro Suc.IH) auto
  ultimately show ?case by simp
qed

section \<open>Big-endian numbers\<close>

lemma be32_fold:
  fixes n :: nat
  assumes "n < 2 ^ 32"
  shows "((n div 2 ^ 24 mod 256 * 256 + n div 2 ^ 16 mod 256) * 256 + n div 2 ^ 8 mod 256) * 256
    + n mod 256 = n"
proof -
  have "n div 2 ^ 24 = n div 2 ^ 8 div 2 ^ 8 div 2 ^ 8" "n div 2 ^ 16 = n div 2 ^ 8 div 2 ^ 8"
    by (simp_all add: div_mult2_eq [symmetric])
  moreover have "n div 2 ^ 24 mod 256 = n div 2 ^ 24" using assms by simp
  moreover have "m div 2 ^ 8 * 256 + m mod 256 = m" for m :: nat by simp
  ultimately show ?thesis by metis
qed

section \<open>Hex digits\<close>

definition hex_digits :: "string" where
  "hex_digits = ''0123456789abcdef''"

definition hex_byte :: "byte \<Rightarrow> string" where
  "hex_byte b = [hex_digits ! unat (drop_bit 4 b), hex_digits ! unat (b AND 0x0f)]"

lemma length_hex_digits: "length hex_digits = 16"
  by (simp add: hex_digits_def)

lemma hex_byte_nibbles: "unat (drop_bit 4 (b::byte)) < 16" "unat (b AND 0x0f) < 16"
proof -
  show "unat (drop_bit 4 b) < 16"
    using unsigned_less [of b, where 'a = nat]
    by (simp add: unat_drop_bit_eq) (simp add: drop_bit_eq_div div_less_iff_less_mult)
  have "b AND 0x0f = take_bit 4 b" by (simp add: take_bit_eq_mask mask_eq_exp_minus_1)
  then show "unat (b AND 0x0f) < 16"
    using take_bit_nat_less_exp [of 4 "unat b"] by (simp add: unsigned_take_bit_eq)
qed

lemma hex_byte_digits:
  "length (hex_byte b) = 2" "set (hex_byte b) \<subseteq> set hex_digits"
  using hex_byte_nibbles by (simp_all add: hex_byte_def length_hex_digits)

section \<open>Lists and options\<close>

lemma bind_eq_Some_conv:
  "Option.bind x f = Some y \<longleftrightarrow> (\<exists>a. x = Some a \<and> f a = Some y)"
  by (cases x) auto

lemma list_all_nth_update:
  "list_all P xs \<Longrightarrow> P v \<Longrightarrow> list_all P (xs[i := v])"
  by (induction xs arbitrary: i) (auto split: nat.splits)

lemma take_Suc_drop: "i < length xs \<Longrightarrow> take (Suc n) (drop i xs) = xs ! i # take n (drop (Suc i) xs)"
  by (simp add: Cons_nth_drop_Suc [symmetric])

end
