(* ===== verification/Queue.thy ===== *)
theory Queue
  imports Prelude
begin

text \<open>
  The bounded single-producer/single-consumer ring buffer of
  \<^verbatim>\<open>libs/cloudflow-core/cf_queue.c\<close>, its sequential meaning as a bounded FIFO list, and the
  on-full policy of \<^verbatim>\<open>libs/cloudflow-capture/cf_queue_policy.c\<close>.

  The storage is the C byte array: an element is \<open>element_size\<close> bytes and slot \<open>i\<close> starts
  at byte \<open>i * element_size\<close>. Nullable pointers are options. The contract that the
  pipeline stages rely on is the locale \<open>bounded_fifo\<close>; the ring buffer interprets it.
\<close>

section \<open>State\<close>

record cf_queue =
  q_storage :: "bytes option"
  q_element_size :: nat
  q_capacity :: nat
  q_head :: nat
  q_tail :: nat

section \<open>Operations\<close>

text \<open>\<open>alloc_ok\<close> says whether \<open>calloc\<close> succeeds; a failed \<open>calloc\<close> leaves \<open>storage\<close> NULL.\<close>

definition cf_queue_init :: "bool \<Rightarrow> cf_queue option \<Rightarrow> nat \<Rightarrow> nat \<Rightarrow> int \<times> cf_queue option" where
  "cf_queue_init alloc_ok queue cap es =
    (case queue of
       None \<Rightarrow> (- 1, None)
     | Some q \<Rightarrow>
        if cap < 2 \<or> es = 0 then (- 1, Some q)
        else if \<not> alloc_ok then (- 1, Some (q\<lparr>q_storage := None\<rparr>))
        else (0, Some (q\<lparr>q_storage := Some (replicate (cap * es) 0), q_element_size := es,
                          q_capacity := cap, q_head := 0, q_tail := 0\<rparr>)))"

definition cf_queue_destroy :: "cf_queue option \<Rightarrow> cf_queue option" where
  "cf_queue_destroy queue =
    map_option (\<lambda>q. q\<lparr>q_storage := None, q_element_size := 0, q_capacity := 0,
                      q_head := 0, q_tail := 0\<rparr>) queue"

definition cf_queue_push :: "cf_queue option \<Rightarrow> bytes option \<Rightarrow> int \<times> cf_queue option" where
  "cf_queue_push queue element =
    (case queue of None \<Rightarrow> (- 1, None) | Some q \<Rightarrow>
     case q_storage q of None \<Rightarrow> (- 1, Some q) | Some st \<Rightarrow>
     case element of None \<Rightarrow> (- 1, Some q) | Some el \<Rightarrow>
      (let head = q_head q;
           nxt = (head + 1) mod q_capacity q;
           tail = q_tail q
       in if nxt = tail then (1, Some q)
          else (0, Some (q\<lparr>q_storage := Some (memcpy_at st (head * q_element_size q) el),
                           q_head := nxt\<rparr>))))"

text \<open>\<open>cf_queue_pop\<close> copies the oldest element out; \<open>want\<close> is whether the caller's
  \<open>element\<close> pointer is non-NULL.\<close>

definition cf_queue_pop :: "cf_queue option \<Rightarrow> bool \<Rightarrow> int \<times> bytes option \<times> cf_queue option" where
  "cf_queue_pop queue want =
    (case queue of None \<Rightarrow> (- 1, None, None) | Some q \<Rightarrow>
     case q_storage q of None \<Rightarrow> (- 1, None, Some q) | Some st \<Rightarrow>
     if \<not> want then (- 1, None, Some q)
     else
      (let tail = q_tail q; head = q_head q
       in if tail = head then (1, None, Some q)
          else (0, Some (slot (q_element_size q) st tail),
                Some (q\<lparr>q_tail := (tail + 1) mod q_capacity q\<rparr>))))"

definition cf_queue_drop :: "cf_queue option \<Rightarrow> int \<times> cf_queue option" where
  "cf_queue_drop queue =
    (case queue of None \<Rightarrow> (- 1, None) | Some q \<Rightarrow>
     case q_storage q of None \<Rightarrow> (- 1, Some q) | Some st \<Rightarrow>
      (let tail = q_tail q; head = q_head q
       in if tail = head then (1, Some q)
          else (0, Some (q\<lparr>q_tail := (tail + 1) mod q_capacity q\<rparr>))))"

definition cf_queue_length :: "cf_queue option \<Rightarrow> nat" where
  "cf_queue_length queue =
    (case queue of None \<Rightarrow> 0 | Some q \<Rightarrow>
      if q_storage q = None \<or> q_capacity q = 0 then 0
      else (let head = q_head q; tail = q_tail q
            in if head \<ge> tail then head - tail else q_capacity q - (tail - head)))"

definition cf_queue_capacity :: "cf_queue option \<Rightarrow> nat" where
  "cf_queue_capacity queue =
    (case queue of None \<Rightarrow> 0 | Some q \<Rightarrow> if q_capacity q = 0 then 0 else q_capacity q - 1)"

section \<open>Invariant and abstraction\<close>

definition q_inv :: "cf_queue \<Rightarrow> bool" where
  "q_inv q \<longleftrightarrow>
    (\<exists>st. q_storage q = Some st \<and> length st = q_capacity q * q_element_size q) \<and>
    0 < q_element_size q \<and> 2 \<le> q_capacity q \<and>
    q_head q < q_capacity q \<and> q_tail q < q_capacity q"

text \<open>The queued elements, oldest first.\<close>

definition q_list :: "cf_queue \<Rightarrow> bytes list" where
  "q_list q =
    (case q_storage q of None \<Rightarrow> [] | Some st \<Rightarrow>
      map (slot (q_element_size q) st)
        (ring_indices (q_capacity q) (q_tail q)
          (ring_dist (q_capacity q) (q_tail q) (q_head q))))"

definition q_elem :: "cf_queue \<Rightarrow> bytes \<Rightarrow> bool" where
  "q_elem q el \<longleftrightarrow> length el = q_element_size q"

lemma q_invE:
  assumes "q_inv q"
  obtains st where "q_storage q = Some st" "length st = q_capacity q * q_element_size q"
    "0 < q_element_size q" "2 \<le> q_capacity q" "q_head q < q_capacity q" "q_tail q < q_capacity q"
  using assms by (auto simp: q_inv_def)

lemma length_q_list:
  "q_inv q \<Longrightarrow> length (q_list q) = ring_dist (q_capacity q) (q_tail q) (q_head q)"
  by (auto simp: q_list_def q_inv_def)

lemma length_q_list_bound: "q_inv q \<Longrightarrow> length (q_list q) < q_capacity q"
  using ring_dist_less by (auto simp: length_q_list q_inv_def)

lemma q_list_elems: "q_inv q \<Longrightarrow> el \<in> set (q_list q) \<Longrightarrow> length el = q_element_size q"
proof -
  assume inv: "q_inv q" and el: "el \<in> set (q_list q)"
  from inv obtain st where st: "q_storage q = Some st"
    and len: "length st = q_capacity q * q_element_size q" and t: "q_tail q < q_capacity q"
    by (rule q_invE)
  from el st obtain i where "el = slot (q_element_size q) st i"
    "i \<in> set (ring_indices (q_capacity q) (q_tail q)
       (ring_dist (q_capacity q) (q_tail q) (q_head q)))"
    by (auto simp: q_list_def)
  with ring_indices_less [OF t] length_slot [OF len] show ?thesis by simp
qed

lemma cf_queue_length_eq: "q_inv q \<Longrightarrow> cf_queue_length (Some q) = length (q_list q)"
  by (auto simp: length_q_list cf_queue_length_def q_inv_def ring_dist_def Let_def)

lemma push_full_iff:
  assumes "q_inv q"
  shows "(q_head q + 1) mod q_capacity q = q_tail q \<longleftrightarrow> length (q_list q) = q_capacity q - 1"
  using assms ring_dist_full [of "q_tail q" "q_capacity q" "q_head q"]
  by (simp add: length_q_list q_inv_def ring_next_def)

lemma cf_queue_init_ok:
  assumes "2 \<le> cap" "0 < es"
  shows "\<exists>q'. cf_queue_init True (Some q) cap es = (0, Some q') \<and> q_inv q' \<and> q_list q' = [] \<and>
    q_capacity q' = cap \<and> q_element_size q' = es"
  using assms by (auto simp: cf_queue_init_def q_inv_def q_list_def ring_dist_def)

lemma cf_queue_push_room:
  assumes inv: "q_inv q" and room: "length (q_list q) < q_capacity q - 1" and el: "q_elem q el"
  shows "\<exists>q'. cf_queue_push (Some q) (Some el) = (0, Some q') \<and> q_inv q' \<and>
    q_list q' = q_list q @ [el] \<and> q_capacity q' = q_capacity q \<and>
    q_element_size q' = q_element_size q"
proof -
  from inv obtain st where st: "q_storage q = Some st"
    and len: "length st = q_capacity q * q_element_size q" and es: "0 < q_element_size q"
    and c2: "2 \<le> q_capacity q" and h: "q_head q < q_capacity q" and t: "q_tail q < q_capacity q"
    by (rule q_invE)
  let ?c = "q_capacity q" and ?n = "q_element_size q" and ?h = "q_head q" and ?t = "q_tail q"
  let ?st = "memcpy_at st (?h * ?n) el"
  let ?q = "q\<lparr>q_storage := Some ?st, q_head := ring_next ?c ?h\<rparr>"
  from el have eln: "length el = ?n" by (simp add: q_elem_def)
  from push_full_iff [OF inv] room have nf: "ring_next ?c ?h \<noteq> ?t" by (auto simp: ring_next_def)
  have push: "cf_queue_push (Some q) (Some el) = (0, Some ?q)"
    using st nf by (simp add: cf_queue_push_def ring_next_def Let_def)
  have lst: "length ?st = ?c * ?n"
    using length_memcpy_at [of "?h * ?n" el st] slot_bound [OF h, of ?n] len eln by simp
  have inv': "q_inv ?q" using lst es c2 h t by (simp add: q_inv_def)
  have dist: "ring_dist ?c ?t (ring_next ?c ?h) = Suc (ring_dist ?c ?t ?h)"
    using ring_dist_head [OF t h nf] .
  have same: "map (slot ?n ?st) (ring_indices ?c ?t (ring_dist ?c ?t ?h))
      = map (slot ?n st) (ring_indices ?c ?t (ring_dist ?c ?t ?h))"
  proof (rule map_cong [OF refl])
    fix i assume i: "i \<in> set (ring_indices ?c ?t (ring_dist ?c ?t ?h))"
    then have "i < ?c" "i \<noteq> ?h"
      using ring_indices_less [OF t] head_notin_ring_indices [OF t h refl] by auto
    then show "slot ?n ?st i = slot ?n st i" using slot_memcpy_other [OF len _ h eln] by simp
  qed
  have "q_list ?q = q_list q @ [el]"
    using st dist same ring_indices_snoc [OF t h refl] slot_memcpy_same [OF len h eln]
    by (simp add: q_list_def del: ring_indices.simps)
  with push inv' show ?thesis by simp
qed

lemma cf_queue_push_full:
  assumes "q_inv q" "length (q_list q) = q_capacity q - 1"
  shows "cf_queue_push (Some q) (Some el) = (1, Some q)"
  using assms push_full_iff [OF assms(1)] by (auto simp: cf_queue_push_def q_inv_def Let_def)

lemma q_list_tail:
  assumes inv: "q_inv q" and ne: "q_list q \<noteq> []"
  shows "q_tail q \<noteq> q_head q \<and>
    hd (q_list q) = slot (q_element_size q) (the (q_storage q)) (q_tail q) \<and>
    q_inv (q\<lparr>q_tail := ring_next (q_capacity q) (q_tail q)\<rparr>) \<and>
    q_list (q\<lparr>q_tail := ring_next (q_capacity q) (q_tail q)\<rparr>) = tl (q_list q)"
proof -
  from inv obtain st where st: "q_storage q = Some st"
    and len: "length st = q_capacity q * q_element_size q" and es: "0 < q_element_size q"
    and c2: "2 \<le> q_capacity q" and h: "q_head q < q_capacity q" and t: "q_tail q < q_capacity q"
    by (rule q_invE)
  from ne st t have th: "q_tail q \<noteq> q_head q" by (auto simp: q_list_def ring_dist_def)
  with ring_dist_tail [OF t h th] st len es c2 h t show ?thesis
    by (simp add: q_list_def q_inv_def)
qed

lemma cf_queue_pop_nonempty:
  assumes "q_inv q" "q_list q \<noteq> []"
  shows "\<exists>q'. cf_queue_pop (Some q) True = (0, Some (hd (q_list q)), Some q') \<and> q_inv q' \<and>
    q_list q' = tl (q_list q) \<and> q_capacity q' = q_capacity q \<and>
    q_element_size q' = q_element_size q"
proof -
  from assms(1) obtain st where "q_storage q = Some st" by (rule q_invE)
  with q_list_tail [OF assms] show ?thesis by (simp add: cf_queue_pop_def Let_def ring_next_def)
qed

lemma cf_queue_drop_nonempty:
  assumes "q_inv q" "q_list q \<noteq> []"
  shows "\<exists>q'. cf_queue_drop (Some q) = (0, Some q') \<and> q_inv q' \<and>
    q_list q' = tl (q_list q) \<and> q_capacity q' = q_capacity q \<and>
    q_element_size q' = q_element_size q"
proof -
  from assms(1) obtain st where "q_storage q = Some st" by (rule q_invE)
  with q_list_tail [OF assms] show ?thesis by (simp add: cf_queue_drop_def Let_def ring_next_def)
qed

lemma q_list_empty_iff: "q_inv q \<Longrightarrow> q_list q = [] \<longleftrightarrow> q_tail q = q_head q"
  using length_q_list [of q] ring_dist_0 [of "q_tail q" "q_capacity q" "q_head q"]
  by (auto simp: q_inv_def simp flip: length_0_conv)

lemma cf_queue_pop_empty:
  "q_inv q \<Longrightarrow> q_list q = [] \<Longrightarrow> cf_queue_pop (Some q) True = (1, None, Some q)"
  by (auto simp: q_list_empty_iff cf_queue_pop_def Let_def elim!: q_invE)

lemma cf_queue_drop_empty:
  "q_inv q \<Longrightarrow> q_list q = [] \<Longrightarrow> cf_queue_drop (Some q) = (1, Some q)"
  by (auto simp: q_list_empty_iff cf_queue_drop_def Let_def elim!: q_invE)

section \<open>The FIFO contract\<close>

text \<open>
  What a client of the queue may rely on: a push appends when there is room and reports 1
  otherwise, a pop or an eviction removes the oldest element and reports 1 on an empty
  queue, and no operation breaks the invariant or changes the bound.
\<close>

locale bounded_fifo =
  fixes push :: "'q \<Rightarrow> 'e \<Rightarrow> int \<times> 'q"
    and pop :: "'q \<Rightarrow> int \<times> 'e option \<times> 'q"
    and evict :: "'q \<Rightarrow> int \<times> 'q"
    and contents :: "'q \<Rightarrow> 'e list"
    and bound :: "'q \<Rightarrow> nat"
    and elem :: "'q \<Rightarrow> 'e \<Rightarrow> bool"
    and inv :: "'q \<Rightarrow> bool"
  assumes contents_bound: "inv q \<Longrightarrow> length (contents q) \<le> bound q"
    and bound_pos: "inv q \<Longrightarrow> 0 < bound q"
    and push_room: "inv q \<Longrightarrow> elem q e \<Longrightarrow> length (contents q) < bound q \<Longrightarrow>
      \<exists>q'. push q e = (0, q') \<and> inv q' \<and> contents q' = contents q @ [e] \<and>
        bound q' = bound q \<and> elem q' = elem q"
    and push_full: "inv q \<Longrightarrow> length (contents q) = bound q \<Longrightarrow> push q e = (1, q)"
    and pop_some: "inv q \<Longrightarrow> contents q \<noteq> [] \<Longrightarrow>
      \<exists>q'. pop q = (0, Some (hd (contents q)), q') \<and> inv q' \<and> contents q' = tl (contents q) \<and>
        bound q' = bound q \<and> elem q' = elem q"
    and pop_empty: "inv q \<Longrightarrow> contents q = [] \<Longrightarrow> pop q = (1, None, q)"
    and evict_some: "inv q \<Longrightarrow> contents q \<noteq> [] \<Longrightarrow>
      \<exists>q'. evict q = (0, q') \<and> inv q' \<and> contents q' = tl (contents q) \<and>
        bound q' = bound q \<and> elem q' = elem q"

text \<open>
  The consuming loop \<open>while (cf_queue_pop(in, &item) == 0) process(item);\<close> that the stages
  run at shutdown. Whether it ends depends on the queue, so not returning is \<open>None\<close>.
\<close>

partial_function (option) drain_loop ::
  "('q \<Rightarrow> int \<times> 'e option \<times> 'q) \<Rightarrow> ('e \<Rightarrow> 's \<Rightarrow> 's) \<Rightarrow> 'q \<Rightarrow> 's \<Rightarrow> ('q \<times> 's) option" where
  "drain_loop pop process q s =
    (case pop q of (rc, e, q') \<Rightarrow>
      if rc = 0 then drain_loop pop process q' (process (the e) s) else Some (q', s))"

context bounded_fifo
begin

lemma push_result:
  assumes "inv q" "elem q e"
  shows "\<exists>q'. push q e = ((if length (contents q) < bound q then 0 else 1), q') \<and> inv q' \<and>
    contents q' = (if length (contents q) < bound q then contents q @ [e] else contents q)"
  using push_room [OF assms] push_full [OF assms(1)] contents_bound [OF assms(1)] assms(1)
  by (cases "length (contents q) < bound q") auto

lemma evict_then_push:
  assumes "inv q" "elem q e" "length (contents q) = bound q"
  shows "\<exists>q1 q2. evict q = (0, q1) \<and> push q1 e = (0, q2) \<and> inv q2 \<and>
    contents q2 = tl (contents q) @ [e]"
proof -
  from assms bound_pos have ne: "contents q \<noteq> []" by fastforce
  from evict_some [OF assms(1) ne] obtain q1 where q1: "evict q = (0, q1)" "inv q1"
    "contents q1 = tl (contents q)" "bound q1 = bound q" "elem q1 = elem q" by blast
  moreover from q1 assms ne have "length (contents q1) < bound q1" "elem q1 e"
    by (auto simp: neq_Nil_conv)
  ultimately show ?thesis using push_room [of q1 e] by auto
qed

lemma drain_contents:
  "inv q \<Longrightarrow> \<exists>q'. drain_loop pop process q s = Some (q', fold process (contents q) s) \<and>
     inv q' \<and> contents q' = []"
proof (induction "contents q" arbitrary: q s)
  case Nil
  then show ?case using pop_empty [of q] by (simp add: drain_loop.simps)
next
  case (Cons e es)
  from Cons.hyps(2) have ne: "contents q \<noteq> []" by auto
  from pop_some [OF Cons.prems ne] obtain q1 where q1: "pop q = (0, Some (hd (contents q)), q1)"
    "inv q1" "contents q1 = tl (contents q)" by blast
  from q1(3) Cons.hyps(2) have es: "es = contents q1" by (metis list.sel(3))
  from Cons.hyps(2) have e: "hd (contents q) = e" by (metis list.sel(1))
  from Cons.hyps(1) [OF es q1(2), of "process e s"] obtain q' where
    "drain_loop pop process q1 (process e s) = Some (q', fold process es (process e s))"
    "inv q'" "contents q' = []" using es by auto
  then show ?case using q1(1) e Cons.hyps(2) [symmetric] by (simp add: drain_loop.simps [of _ _ q])
qed

lemma fill_contents:
  "inv q \<Longrightarrow> \<forall>e\<in>set es. elem q e \<Longrightarrow>
   inv (fold (\<lambda>e q. snd (push q e)) es q) \<and>
   contents (fold (\<lambda>e q. snd (push q e)) es q) = take (bound q) (contents q @ es)"
proof (induction es arbitrary: q)
  case Nil
  then show ?case using contents_bound by simp
next
  case (Cons e es)
  show ?case
  proof (cases "length (contents q) < bound q")
    case True
    with push_room [of q e] Cons.prems obtain q1 where q1: "push q e = (0, q1)" "inv q1"
      "contents q1 = contents q @ [e]" "bound q1 = bound q" "elem q1 = elem q" by auto
    then show ?thesis using Cons.IH [of q1] Cons.prems by simp
  next
    case False
    with contents_bound [OF Cons.prems(1)] have full: "length (contents q) = bound q" by simp
    then show ?thesis using Cons.IH [of q] Cons.prems push_full [OF Cons.prems(1) full] by simp
  qed
qed

end

text \<open>The ring buffer behind a (possibly NULL) pointer meets the contract.\<close>

definition qp_inv :: "cf_queue option \<Rightarrow> bool" where
  "qp_inv p \<longleftrightarrow> (case p of None \<Rightarrow> False | Some q \<Rightarrow> q_inv q)"

definition qp_list :: "cf_queue option \<Rightarrow> bytes list" where
  "qp_list p = (case p of None \<Rightarrow> [] | Some q \<Rightarrow> q_list q)"

definition qp_elem :: "cf_queue option \<Rightarrow> bytes \<Rightarrow> bool" where
  "qp_elem p el \<longleftrightarrow> (case p of None \<Rightarrow> False | Some q \<Rightarrow> q_elem q el)"

lemmas qp_defs = qp_inv_def qp_list_def qp_elem_def

lemma qp_elem_cong:
  "q_element_size q' = q_element_size q \<Longrightarrow> qp_elem (Some q') = qp_elem (Some q)"
  by (auto simp: qp_elem_def q_elem_def)

interpretation ringq: bounded_fifo
  "\<lambda>p e. cf_queue_push p (Some e)" "\<lambda>p. cf_queue_pop p True" cf_queue_drop
  qp_list cf_queue_capacity qp_elem qp_inv
proof (unfold_locales, goal_cases)
  case (1 p)
  then show ?case using length_q_list_bound
    by (fastforce simp: qp_defs cf_queue_capacity_def q_inv_def split: option.splits)
next
  case (2 p)
  then show ?case by (auto simp: qp_inv_def cf_queue_capacity_def q_inv_def split: option.splits)
next
  case (3 p e)
  then obtain q where p: "p = Some q" and inv: "q_inv q" by (auto simp: qp_inv_def split: option.splits)
  with 3 have "q_elem q e" "length (q_list q) < q_capacity q - 1"
    by (auto simp: qp_defs cf_queue_capacity_def q_inv_def split: if_splits)
  with cf_queue_push_room [OF inv] p show ?case
    by (fastforce simp: qp_inv_def qp_list_def cf_queue_capacity_def intro: qp_elem_cong)
next
  case (4 p e)
  then show ?case
    by (auto simp: qp_inv_def qp_list_def cf_queue_capacity_def q_inv_def
        intro!: cf_queue_push_full split: option.splits if_splits)
next
  case (5 p)
  then show ?case using cf_queue_pop_nonempty
    by (fastforce simp: qp_inv_def qp_list_def cf_queue_capacity_def split: option.splits
        intro: qp_elem_cong)
next
  case (6 p)
  then show ?case by (auto simp: qp_inv_def qp_list_def cf_queue_pop_empty split: option.splits)
next
  case (7 p)
  then show ?case using cf_queue_drop_nonempty
    by (fastforce simp: qp_inv_def qp_list_def cf_queue_capacity_def split: option.splits
        intro: qp_elem_cong)
qed

section \<open>Property\<close>

text \<open>The ring is a bounded first-in first-out queue: pushing any elements into a valid queue
  and then running the consuming loop hands over what was queued followed by the pushed elements
  in order, cut off at the capacity, and leaves the queue empty.\<close>

theorem queue_fill_drain:
  assumes "qp_inv queue" "\<forall>e\<in>set es. qp_elem queue e"
  shows "\<exists>queue'. drain_loop (\<lambda>p. cf_queue_pop p True) (\<lambda>e got. got @ [e])
      (fold (\<lambda>e p. snd (cf_queue_push p (Some e))) es queue) [] =
      Some (queue', take (cf_queue_capacity queue) (qp_list queue @ es)) \<and> qp_list queue' = []"
proof -
  have fold_app: "fold (\<lambda>e got. got @ [e]) xs acc = acc @ xs" for xs acc :: "bytes list"
    by (induction xs arbitrary: acc) auto
  show ?thesis
    using ringq.fill_contents [OF assms]
      ringq.drain_contents [of "fold (\<lambda>e p. snd (cf_queue_push p (Some e))) es queue" "\<lambda>e got. got @ [e]" "[]"]
    by (auto simp: fold_app)
qed

theorem queue_fill_drain_witness:
  "\<exists>queue'. drain_loop (\<lambda>p. cf_queue_pop p True) (\<lambda>e got. got @ [e])
      (fold (\<lambda>e p. snd (cf_queue_push p (Some e))) [[1, 2], [3, 4], [5, 6]]
        (Some \<lparr>q_storage = Some (replicate 6 0), q_element_size = 2, q_capacity = 3, q_head = 1, q_tail = 1\<rparr>)) [] =
      Some (queue', [[1, 2], [3, 4]]) \<and> qp_list queue' = []"
  using queue_fill_drain [of "Some \<lparr>q_storage = Some (replicate 6 0), q_element_size = 2, q_capacity = 3, q_head = 1, q_tail = 1\<rparr>"
      "[[1, 2], [3, 4], [5, 6]]"]
  by (simp add: qp_defs q_inv_def q_elem_def q_list_def ring_dist_def cf_queue_capacity_def)

end
