(* ===== verification/Queue_Policy.thy ===== *)
theory Queue_Policy
  imports Queue "HOL-Library.Sublist"
begin

text \<open>
  The on-full policy of \<^verbatim>\<open>libs/cloudflow-capture/cf_queue_policy.c\<close>: what happens to an
  element that is pushed into a full queue, and how every loss is counted.

  In block mode the call sleeps between attempts while the consumer runs. \<open>stop i\<close> is the
  answer of \<open>cf_stop_notified()\<close> before the \<open>i\<close>-th sleep and \<open>env i\<close> what the consumer does
  to the queue during it.
\<close>

datatype cf_queue_full_policy =
  CF_ONFULL_DROP_NEWEST | CF_ONFULL_DROP_OLDEST | CF_ONFULL_BLOCK

definition CF_QUEUE_POLICY_MAX_ELEMENT_SIZE :: nat where
  "CF_QUEUE_POLICY_MAX_ELEMENT_SIZE = 64 * 1024"

definition CF_QUEUE_POLICY_BLOCK_MAX_RETRIES :: nat where
  "CF_QUEUE_POLICY_BLOCK_MAX_RETRIES = 500"

definition cf_queue_full_policy_name :: "cf_queue_full_policy \<Rightarrow> string" where
  "cf_queue_full_policy_name policy =
    (case policy of CF_ONFULL_DROP_NEWEST \<Rightarrow> ''drop_newest''
     | CF_ONFULL_DROP_OLDEST \<Rightarrow> ''drop_oldest'' | CF_ONFULL_BLOCK \<Rightarrow> ''block'')"

text \<open>A drop counter that may be NULL.\<close>

definition count_drop :: "nat option \<Rightarrow> nat option" where
  "count_drop counter = map_option Suc counter"

text \<open>The retry loop of block mode, from attempt \<open>retries\<close> on.\<close>

function block_loop ::
  "(nat \<Rightarrow> bool) \<Rightarrow> (nat \<Rightarrow> cf_queue option \<Rightarrow> cf_queue option) \<Rightarrow> bytes \<Rightarrow> nat \<Rightarrow> cf_queue option
    \<Rightarrow> nat option \<Rightarrow> int \<times> cf_queue option \<times> nat option" where
  "block_loop stop env el retries queue counter =
    (if retries < CF_QUEUE_POLICY_BLOCK_MAX_RETRIES then
       if stop retries then (1, queue, count_drop counter)
       else (case cf_queue_push (env retries queue) (Some el) of (rc, queue') \<Rightarrow>
               if rc = 0 then (0, queue', counter)
               else if rc < 0 then (- 1, queue', counter)
               else block_loop stop env el (Suc retries) queue' counter)
     else (1, queue, count_drop counter))"
  by pat_completeness auto
termination
  by (relation "measure (\<lambda>(_, _, _, retries, _). CF_QUEUE_POLICY_BLOCK_MAX_RETRIES - retries)") auto

declare block_loop.simps [simp del]

definition cf_queue_push_policy ::
  "(nat \<Rightarrow> bool) \<Rightarrow> (nat \<Rightarrow> cf_queue option \<Rightarrow> cf_queue option) \<Rightarrow> cf_queue option \<Rightarrow> bytes option \<Rightarrow> nat
    \<Rightarrow> cf_queue_full_policy \<Rightarrow> nat option \<Rightarrow> int \<times> cf_queue option \<times> nat option" where
  "cf_queue_push_policy stop env queue element es policy counter =
    (case (queue, element) of
       (Some q, Some el) \<Rightarrow>
         if es = 0 \<or> es \<noteq> q_element_size q \<or> CF_QUEUE_POLICY_MAX_ELEMENT_SIZE < es
         then (- 1, queue, counter)
         else (case cf_queue_push queue element of (rc, queue1) \<Rightarrow>
           if rc = 0 then (0, queue1, counter)
           else if rc < 0 then (- 1, queue1, counter)
           else (case policy of
             CF_ONFULL_DROP_OLDEST \<Rightarrow>
               (case cf_queue_drop queue1 of (rcd, queue2) \<Rightarrow>
                 if rcd = 0 then
                   (let counter1 = count_drop counter in
                    case cf_queue_push queue2 element of (rc2, queue3) \<Rightarrow>
                      if rc2 = 0 then (0, queue3, counter1)
                      else (1, queue3, count_drop counter1))
                 else (1, queue2, count_drop counter))
           | CF_ONFULL_BLOCK \<Rightarrow> block_loop stop env el 0 queue1 counter
           | CF_ONFULL_DROP_NEWEST \<Rightarrow> (1, queue1, count_drop counter)))
     | _ \<Rightarrow> (- 1, queue, counter))"

section \<open>Behaviour of each policy\<close>

definition policy_args :: "cf_queue option \<Rightarrow> bytes \<Rightarrow> nat \<Rightarrow> bool" where
  "policy_args queue el es \<longleftrightarrow>
    qp_inv queue \<and> qp_elem queue el \<and> length el = es \<and> es \<le> CF_QUEUE_POLICY_MAX_ELEMENT_SIZE"

lemma policy_argsE:
  assumes "policy_args queue el es"
  obtains q where "queue = Some q" "q_inv q" "es = q_element_size q" "0 < es" "length el = es"
    "es \<le> CF_QUEUE_POLICY_MAX_ELEMENT_SIZE" "qp_inv queue" "qp_elem queue el"
  using assms by (auto simp: policy_args_def qp_inv_def qp_elem_def q_elem_def q_inv_def
      split: option.splits)

lemma policy_room:
  assumes "policy_args queue el es" "length (qp_list queue) < cf_queue_capacity queue"
  shows "\<exists>queue'. cf_queue_push_policy stop env queue (Some el) es policy counter
      = (0, queue', counter) \<and> qp_inv queue' \<and> qp_list queue' = qp_list queue @ [el] \<and>
        qp_elem queue' = qp_elem queue"
  using assms(1)
proof (rule policy_argsE)
  fix q assume q: "queue = Some q" "q_inv q" "es = q_element_size q" "0 < es" "length el = es"
    "es \<le> CF_QUEUE_POLICY_MAX_ELEMENT_SIZE" "qp_inv queue" "qp_elem queue el"
  from ringq.push_room [OF q(7,8) assms(2)] q show ?thesis
    by (auto simp: cf_queue_push_policy_def)
qed

lemma policy_full:
  assumes "policy_args queue el es" "length (qp_list queue) = cf_queue_capacity queue"
  shows "cf_queue_push_policy stop env queue (Some el) es policy counter =
    (case policy of
       CF_ONFULL_DROP_NEWEST \<Rightarrow> (1, queue, count_drop counter)
     | CF_ONFULL_DROP_OLDEST \<Rightarrow>
         (0, snd (cf_queue_push (snd (cf_queue_drop queue)) (Some el)), count_drop counter)
     | CF_ONFULL_BLOCK \<Rightarrow> block_loop stop env el 0 queue counter)"
  using assms(1)
proof (rule policy_argsE)
  fix q assume q: "queue = Some q" "q_inv q" "es = q_element_size q" "0 < es" "length el = es"
    "es \<le> CF_QUEUE_POLICY_MAX_ELEMENT_SIZE" "qp_inv queue" "qp_elem queue el"
  from ringq.push_full [OF q(7) assms(2)] ringq.evict_then_push [OF q(7,8) assms(2)] q
  show ?thesis by (auto simp: cf_queue_push_policy_def split: cf_queue_full_policy.splits)
qed

text \<open>
  \<open>cf_queue_push_policy\<close> under the two non-blocking policies, on every branch: with room
  the element is appended and nothing is counted; on a full queue drop_newest keeps the queue
  and counts one drop, drop_oldest evicts exactly the oldest element, appends the new one and
  counts one drop. The queue never exceeds its capacity and the invariant is kept.
\<close>

theorem push_policy_accounting:
  assumes args: "policy_args queue el es" and pol: "policy \<noteq> CF_ONFULL_BLOCK"
  shows "\<exists>rc queue'. cf_queue_push_policy stop env queue (Some el) es policy (Some n) =
      (rc, queue', Some (if length (qp_list queue) < cf_queue_capacity queue then n else Suc n)) \<and>
    qp_inv queue' \<and>
    (rc, qp_list queue') =
      (if length (qp_list queue) < cf_queue_capacity queue then (0, qp_list queue @ [el])
       else if policy = CF_ONFULL_DROP_OLDEST then (0, tl (qp_list queue) @ [el])
       else (1, qp_list queue))"
proof (cases "length (qp_list queue) < cf_queue_capacity queue")
  case True
  from policy_room [OF args True] True show ?thesis by fastforce
next
  case False
  from args have inv: "qp_inv queue" and elm: "qp_elem queue el" by (auto simp: policy_args_def)
  from False ringq.contents_bound [OF inv] have full: "length (qp_list queue) = cf_queue_capacity queue"
    by simp
  from ringq.evict_then_push [OF inv elm full] inv pol policy_full [OF args full] False show ?thesis
    by (cases policy) (auto simp: count_drop_def)
qed

theorem push_policy_accounting_witness:
  "\<exists>q. policy_args (Some q) [7] 1 \<and> q_list q = [[1], [2]] \<and>
     (\<exists>rc queue'. cf_queue_push_policy (\<lambda>_. False) (\<lambda>_ p. p) (Some q) (Some [7]) 1
         CF_ONFULL_DROP_OLDEST (Some 4) = (rc, queue', Some 5) \<and> rc = 0 \<and>
         qp_list queue' = [[2], [7]])"
proof -
  let ?q = "\<lparr>q_storage = Some [1, 2, 0], q_element_size = 1, q_capacity = 3, q_head = 2, q_tail = 0\<rparr>"
  have args: "policy_args (Some ?q) [7] 1"
    by (simp add: policy_args_def qp_defs q_inv_def q_elem_def CF_QUEUE_POLICY_MAX_ELEMENT_SIZE_def)
  have lst: "q_list ?q = [[1], [2]]"
    by (simp add: q_list_def ring_dist_def numeral_2_eq_2 ring_next_def slot_def)
  show ?thesis
    using push_policy_accounting [OF args, of CF_ONFULL_DROP_OLDEST "\<lambda>_. False" "\<lambda>_ p. p" 4] args lst
    by (intro exI [of _ ?q]) (auto simp: qp_list_def cf_queue_capacity_def)
qed

section \<open>Block mode\<close>

text \<open>The consumer, while the producer sleeps, only removes elements from the front.\<close>

definition only_pops :: "(nat \<Rightarrow> cf_queue option \<Rightarrow> cf_queue option) \<Rightarrow> bool" where
  "only_pops env \<longleftrightarrow>
    (\<forall>i p. qp_inv p \<longrightarrow> qp_inv (env i p) \<and> suffix (qp_list (env i p)) (qp_list p) \<and>
       cf_queue_capacity (env i p) = cf_queue_capacity p \<and> qp_elem (env i p) = qp_elem p)"

lemma only_popsD:
  assumes "only_pops env" "qp_inv p"
  shows "qp_inv (env i p)" "suffix (qp_list (env i p)) (qp_list p)"
    "cf_queue_capacity (env i p) = cf_queue_capacity p" "qp_elem (env i p) = qp_elem p"
  using assms by (auto simp: only_pops_def)

lemma block_loop_result:
  "only_pops env \<Longrightarrow> qp_inv queue \<Longrightarrow> qp_elem queue el \<Longrightarrow> \<exists>rc queue' counter' older.
     block_loop stop env el retries queue counter = (rc, queue', counter') \<and> qp_inv queue' \<and>
     qp_elem queue' = qp_elem queue \<and> suffix older (qp_list queue) \<and>
     (rc = 0 \<and> counter' = counter \<and> qp_list queue' = older @ [el] \<or>
      rc = 1 \<and> counter' = count_drop counter \<and> qp_list queue' = older)"
proof (induction stop env el retries queue counter rule: block_loop.induct [case_names step])
  case (step stop env el retries queue counter)
  note unf = block_loop.simps [of stop env el retries queue counter]
  show ?case
  proof (cases "retries < CF_QUEUE_POLICY_BLOCK_MAX_RETRIES \<and> \<not> stop retries")
    case False
    then show ?thesis using step.prems by (auto simp: unf intro!: exI [of _ "qp_list queue"])
  next
    case True
    note e = only_popsD [OF step.prems(1,2), of retries]
    let ?p = "env retries queue"
    have el: "qp_elem ?p el" using e(4) step.prems(3) by simp
    show ?thesis
    proof (cases "length (qp_list ?p) < cf_queue_capacity ?p")
      case room: True
      from ringq.push_room [OF e(1) el room] obtain p' where
        "cf_queue_push ?p (Some el) = (0, p')" "qp_inv p'" "qp_list p' = qp_list ?p @ [el]"
        "qp_elem p' = qp_elem ?p" by blast
      then show ?thesis using True e(2,4) by (auto simp: unf)
    next
      case False
      then have "cf_queue_push ?p (Some el) = (1, ?p)"
        using ringq.push_full [OF e(1)] ringq.contents_bound [OF e(1)] by simp
      then have unf': "block_loop stop env el retries queue counter
          = block_loop stop env el (Suc retries) ?p counter"
        using True by (simp add: unf)
      show ?thesis
        using step.IH [of 1 ?p] True e(1) el \<open>cf_queue_push ?p (Some el) = (1, ?p)\<close> step.prems(1)
          suffix_order.trans [OF _ e(2)] e(4) unfolding unf' by fastforce
    qed
  qed
qed

text \<open>
  Block mode against a concurrent consumer: the call returns 0 with the element queued
  behind what is left of the old contents and no drop counted, or 1 with exactly one drop
  counted; no other element is lost.
\<close>

theorem push_policy_block:
  assumes "policy_args queue el es" and "only_pops env"
  shows "\<exists>rc queue' counter' older.
     cf_queue_push_policy stop env queue (Some el) es CF_ONFULL_BLOCK counter = (rc, queue', counter') \<and>
     qp_inv queue' \<and> suffix older (qp_list queue) \<and>
     (rc = 0 \<and> counter' = counter \<and> qp_list queue' = older @ [el] \<or>
      rc = 1 \<and> counter' = count_drop counter \<and> qp_list queue' = older)"
proof (cases "length (qp_list queue) < cf_queue_capacity queue")
  case True
  from policy_room [OF assms(1) True] show ?thesis by fastforce
next
  case False
  from assms(1) have inv: "qp_inv queue" "qp_elem queue el" by (auto simp: policy_args_def)
  from False ringq.contents_bound [OF inv(1)] have "length (qp_list queue) = cf_queue_capacity queue"
    by simp
  from policy_full [OF assms(1) this] block_loop_result [OF assms(2) inv] show ?thesis by fastforce
qed

text \<open>A consumer that takes one element at every retry.\<close>

lemma only_pops_pop: "only_pops (\<lambda>_ p. snd (snd (cf_queue_pop p True)))"
  unfolding only_pops_def
proof (intro allI impI)
  fix i :: nat and p assume inv: "qp_inv p"
  let ?p = "snd (snd (cf_queue_pop p True))"
  show "qp_inv ?p \<and> suffix (qp_list ?p) (qp_list p) \<and> cf_queue_capacity ?p = cf_queue_capacity p \<and>
      qp_elem ?p = qp_elem p"
  proof (cases "qp_list p = []")
    case True
    with ringq.pop_empty [OF inv] inv show ?thesis by simp
  next
    case False
    with ringq.pop_some [OF inv] suffix_tl show ?thesis by fastforce
  qed
qed

theorem push_policy_block_witness:
  "\<exists>q rc queue' counter' older. policy_args (Some q) [7] 1 \<and> qp_list (Some q) = [[1], [2]] \<and>
     cf_queue_push_policy (\<lambda>_. False) (\<lambda>_ p. snd (snd (cf_queue_pop p True))) (Some q) (Some [7]) 1
       CF_ONFULL_BLOCK (Some 4) = (rc, queue', counter') \<and> suffix older [[1], [2]] \<and>
     (rc = 0 \<and> counter' = Some 4 \<and> qp_list queue' = older @ [[7]] \<or>
      rc = 1 \<and> counter' = count_drop (Some 4) \<and> qp_list queue' = older)"
proof -
  let ?q = "\<lparr>q_storage = Some [1, 2, 0], q_element_size = 1, q_capacity = 3, q_head = 2, q_tail = 0\<rparr>"
  have args: "policy_args (Some ?q) [7] 1"
    by (simp add: policy_args_def qp_defs q_inv_def q_elem_def CF_QUEUE_POLICY_MAX_ELEMENT_SIZE_def)
  have lst: "qp_list (Some ?q) = [[1], [2]]"
    by (simp add: qp_list_def q_list_def ring_dist_def numeral_2_eq_2 ring_next_def slot_def)
  show ?thesis
    using push_policy_block [OF args only_pops_pop, of "\<lambda>_. False" "Some 4"] args lst
    by (intro exI [of _ ?q]) auto
qed

text \<open>Liveness: a slot that the consumer frees within the retry budget is used.\<close>

lemma block_loop_delivers:
  assumes "only_pops env"
  shows "qp_inv queue \<Longrightarrow> qp_elem queue el \<Longrightarrow> length (qp_list queue) = cf_queue_capacity queue \<Longrightarrow>
    retries \<le> k \<Longrightarrow> k < CF_QUEUE_POLICY_BLOCK_MAX_RETRIES \<Longrightarrow> \<forall>i\<le>k. \<not> stop i \<Longrightarrow>
    \<forall>p. qp_inv p \<longrightarrow> qp_list (env k p) \<noteq> [] \<longrightarrow> length (qp_list (env k p)) < cf_queue_capacity p \<Longrightarrow>
    \<exists>queue'. block_loop stop env el retries queue counter = (0, queue', counter)"
proof (induction "k - retries" arbitrary: retries queue)
  case 0
  then have r: "retries = k" by simp
  note e = only_popsD [OF assms "0.prems"(1), of k]
  have "length (qp_list (env k queue)) < cf_queue_capacity (env k queue)"
    using "0.prems" e(3) ringq.bound_pos [OF "0.prems"(1)] by (cases "qp_list (env k queue) = []") auto
  from ringq.push_room [OF e(1) _ this, of el] "0.prems" e(4) r show ?case
    by (auto simp: block_loop.simps [of _ _ _ k])
next
  case (Suc n)
  note e = only_popsD [OF assms Suc.prems(1), of retries]
  let ?p = "env retries queue"
  from Suc have go: "retries < CF_QUEUE_POLICY_BLOCK_MAX_RETRIES" "\<not> stop retries" by auto
  show ?case
  proof (cases "length (qp_list ?p) < cf_queue_capacity ?p")
    case True
    from ringq.push_room [OF e(1) _ True, of el] Suc.prems(2) e(4) go show ?thesis
      by (auto simp: block_loop.simps [of _ _ _ retries])
  next
    case False
    then have full: "length (qp_list ?p) = cf_queue_capacity ?p"
      using ringq.contents_bound [OF e(1)] by simp
    with ringq.push_full [OF e(1) full] go have
      "block_loop stop env el retries queue counter = block_loop stop env el (Suc retries) ?p counter"
      by (simp add: block_loop.simps [of _ _ _ retries])
    then show ?thesis using Suc.hyps(1) [of "Suc retries" ?p] Suc.hyps(2) Suc.prems e full by auto
  qed
qed

section \<open>Every policy\<close>

text \<open>What all policies promise: the queue keeps the order of its elements, and an element that is
  missing afterwards was taken by the consumer or counted.\<close>

lemma push_policy_outcome:
  assumes args: "policy_args queue el es" and env: "only_pops env"
  shows "\<exists>rc queue' counter'. cf_queue_push_policy stop env queue (Some el) es policy counter = (rc, queue', counter') \<and>
    qp_inv queue' \<and> qp_elem queue' = qp_elem queue \<and> subseq (qp_list queue') (qp_list queue @ [el]) \<and>
    (counter' = counter \<and> suffix (qp_list queue') (qp_list queue @ [el]) \<or> counter' = count_drop counter)"
proof (cases "length (qp_list queue) < cf_queue_capacity queue")
  case True
  from policy_room [OF args True] show ?thesis by fastforce
next
  case False
  from args have inv: "qp_inv queue" "qp_elem queue el" by (auto simp: policy_args_def)
  with False ringq.contents_bound have full: "length (qp_list queue) = cf_queue_capacity queue"
    by (metis nat_less_le)
  note eq = policy_full [OF args full, of stop env policy counter]
  show ?thesis
  proof (cases policy)
    case CF_ONFULL_DROP_NEWEST
    then show ?thesis using inv eq by (simp add: subseq_rev_drop_many)
  next
    case CF_ONFULL_DROP_OLDEST
    from full ringq.bound_pos [OF inv(1)] have ne: "qp_list queue \<noteq> []" by auto
    from ringq.evict_some [OF inv(1) ne] obtain q1 where q1: "cf_queue_drop queue = (0, q1)" "qp_inv q1"
      "qp_list q1 = tl (qp_list queue)" "cf_queue_capacity q1 = cf_queue_capacity queue" "qp_elem q1 = qp_elem queue" by blast
    with inv ne full have "qp_elem q1 el" "length (qp_list q1) < cf_queue_capacity q1" by (auto simp: neq_Nil_conv)
    from ringq.push_room [OF q1(2) this] obtain q2 where "cf_queue_push q1 (Some el) = (0, q2)" "qp_inv q2"
      "qp_list q2 = tl (qp_list queue) @ [el]" "qp_elem q2 = qp_elem queue" by (auto simp: q1)
    moreover have "subseq (tl (qp_list queue)) (qp_list queue)" by (cases "qp_list queue") auto
    ultimately show ?thesis using q1(1) CF_ONFULL_DROP_OLDEST eq by simp
  next
    case CF_ONFULL_BLOCK
    from block_loop_result [OF env inv, of stop 0 counter] obtain rc queue' counter' older where
      "block_loop stop env el 0 queue counter = (rc, queue', counter')" "qp_inv queue'" "qp_elem queue' = qp_elem queue"
      "suffix older (qp_list queue)"
      "rc = 0 \<and> counter' = counter \<and> qp_list queue' = older @ [el] \<or>
       rc = 1 \<and> counter' = count_drop counter \<and> qp_list queue' = older" by blast
    then show ?thesis using CF_ONFULL_BLOCK eq suffix_imp_subseq 
      by (auto intro: subseq_order.trans subseq_rev_drop_many)
  qed
qed

end
