(* ===== verification/Queue_Spsc.thy ===== *)
theory Queue_Spsc
  imports Queue "HOL-Library.Sublist"
begin

text \<open>
  The ring buffer of \<^verbatim>\<open>libs/cloudflow-core/cf_queue.c\<close> under concurrency. \<open>cf_queue_push\<close>,
  \<open>cf_queue_pop\<close> and \<open>cf_queue_drop\<close> are cut into their atomic steps (load of the own index,
  load of the other index, copy, store of the own index) and the two threads interleave
  them freely. The release/acquire pairings documented in the source make the interleaving
  of these steps the right notion for the two indices and the slots they guard.

  \<open>spsc_step oldest\<close> is one producer that pushes through \<open>cf_queue_push_policy\<close> and one
  consumer that pops. With \<open>oldest = False\<close> (drop_newest) every element is received once, in
  order, and the two copies never touch the same slot. With \<open>oldest = True\<close> (drop_oldest) the
  producer calls \<open>cf_queue_drop\<close>, which also writes \<open>tail\<close>; the last section shows a run of
  that system that loses an element without counting it.
\<close>

section \<open>The step relation\<close>

text \<open>Where each thread is inside its call; the values are the C locals read so far.\<close>

datatype producer_pc =
    PIdle
  | PHead bytes nat          \<comment> \<open>\<open>head\<close> loaded\<close>
  | PWrite bytes nat nat     \<comment> \<open>not full: about to copy into slot \<open>head\<close>; \<open>next\<close>\<close>
  | PPublish bytes nat       \<comment> \<open>copied: about to store \<open>head := next\<close>\<close>
  | PFull bytes              \<comment> \<open>the push reported full under drop_oldest\<close>
  | PDrop bytes nat          \<comment> \<open>inside \<open>cf_queue_drop\<close>: \<open>tail\<close> loaded\<close>
  | PEvict bytes nat         \<comment> \<open>inside \<open>cf_queue_drop\<close>: not empty, about to store \<open>tail\<close>\<close>
  | PRepush bytes            \<comment> \<open>evicted: about to push again\<close>
  | PAgain bytes nat         \<comment> \<open>second push: \<open>head\<close> loaded\<close>

datatype consumer_pc =
    CIdle
  | CTail nat                \<comment> \<open>\<open>tail\<close> loaded\<close>
  | CRead nat                \<comment> \<open>not empty: about to copy slot \<open>tail\<close> out\<close>
  | CPublish nat bytes       \<comment> \<open>copied: about to store \<open>tail\<close>\<close>

text \<open>\<open>s_sent\<close>, \<open>s_recv\<close> and \<open>s_drops\<close> record the elements whose push returned 0, the
  elements returned by pop, and the evictions counted by the policy.\<close>

record spsc =
  s_q :: cf_queue
  s_p :: producer_pc
  s_c :: consumer_pc
  s_sent :: "bytes list"
  s_recv :: "bytes list"
  s_drops :: nat

definition q_slot :: "cf_queue \<Rightarrow> nat \<Rightarrow> bytes" where
  "q_slot q i = slot (q_element_size q) (the (q_storage q)) i"

definition q_write :: "cf_queue \<Rightarrow> nat \<Rightarrow> bytes \<Rightarrow> cf_queue" where
  "q_write q i el = q\<lparr>q_storage := Some (memcpy_at (the (q_storage q)) (i * q_element_size q) el)\<rparr>"

abbreviation q_nxt :: "cf_queue \<Rightarrow> nat \<Rightarrow> nat" where
  "q_nxt q i \<equiv> ring_next (q_capacity q) i"

inductive spsc_step :: "bool \<Rightarrow> spsc \<Rightarrow> spsc \<Rightarrow> bool" for oldest where
  push_load_head: "s_p s = PIdle \<Longrightarrow> length el = q_element_size (s_q s) \<Longrightarrow>
    spsc_step oldest s (s\<lparr>s_p := PHead el (q_head (s_q s))\<rparr>)"
| push_full_newest: "s_p s = PHead el h \<Longrightarrow> q_nxt (s_q s) h = q_tail (s_q s) \<Longrightarrow> \<not> oldest \<Longrightarrow>
    spsc_step oldest s (s\<lparr>s_p := PIdle, s_drops := Suc (s_drops s)\<rparr>)"
| push_full_oldest: "s_p s = PHead el h \<Longrightarrow> q_nxt (s_q s) h = q_tail (s_q s) \<Longrightarrow> oldest \<Longrightarrow>
    spsc_step oldest s (s\<lparr>s_p := PFull el\<rparr>)"
| drop_load_tail: "s_p s = PFull el \<Longrightarrow> spsc_step oldest s (s\<lparr>s_p := PDrop el (q_tail (s_q s))\<rparr>)"
| drop_empty: "s_p s = PDrop el t \<Longrightarrow> t = q_head (s_q s) \<Longrightarrow>
    spsc_step oldest s (s\<lparr>s_p := PIdle, s_drops := Suc (s_drops s)\<rparr>)"
| drop_some: "s_p s = PDrop el t \<Longrightarrow> t \<noteq> q_head (s_q s) \<Longrightarrow> spsc_step oldest s (s\<lparr>s_p := PEvict el t\<rparr>)"
| drop_store: "s_p s = PEvict el t \<Longrightarrow>
    spsc_step oldest s (s\<lparr>s_q := (s_q s)\<lparr>q_tail := q_nxt (s_q s) t\<rparr>, s_p := PRepush el,
                   s_drops := Suc (s_drops s)\<rparr>)"
| repush_load_head: "s_p s = PRepush el \<Longrightarrow> spsc_step oldest s (s\<lparr>s_p := PAgain el (q_head (s_q s))\<rparr>)"
| repush_full: "s_p s = PAgain el h \<Longrightarrow> q_nxt (s_q s) h = q_tail (s_q s) \<Longrightarrow>
    spsc_step oldest s (s\<lparr>s_p := PIdle, s_drops := Suc (s_drops s)\<rparr>)"
| repush_room: "s_p s = PAgain el h \<Longrightarrow> q_nxt (s_q s) h \<noteq> q_tail (s_q s) \<Longrightarrow>
    spsc_step oldest s (s\<lparr>s_p := PWrite el h (q_nxt (s_q s) h)\<rparr>)"
| push_room: "s_p s = PHead el h \<Longrightarrow> q_nxt (s_q s) h \<noteq> q_tail (s_q s) \<Longrightarrow>
    spsc_step oldest s (s\<lparr>s_p := PWrite el h (q_nxt (s_q s) h)\<rparr>)"
| push_copy: "s_p s = PWrite el h nxt \<Longrightarrow>
    spsc_step oldest s (s\<lparr>s_q := q_write (s_q s) h el, s_p := PPublish el nxt\<rparr>)"
| push_store: "s_p s = PPublish el nxt \<Longrightarrow>
    spsc_step oldest s (s\<lparr>s_q := (s_q s)\<lparr>q_head := nxt\<rparr>, s_p := PIdle, s_sent := s_sent s @ [el]\<rparr>)"
| pop_load_tail: "s_c s = CIdle \<Longrightarrow> spsc_step oldest s (s\<lparr>s_c := CTail (q_tail (s_q s))\<rparr>)"
| pop_empty: "s_c s = CTail t \<Longrightarrow> t = q_head (s_q s) \<Longrightarrow> spsc_step oldest s (s\<lparr>s_c := CIdle\<rparr>)"
| pop_some: "s_c s = CTail t \<Longrightarrow> t \<noteq> q_head (s_q s) \<Longrightarrow> spsc_step oldest s (s\<lparr>s_c := CRead t\<rparr>)"
| pop_copy: "s_c s = CRead t \<Longrightarrow> spsc_step oldest s (s\<lparr>s_c := CPublish t (q_slot (s_q s) t)\<rparr>)"
| pop_store: "s_c s = CPublish t el \<Longrightarrow>
    spsc_step oldest s (s\<lparr>s_q := (s_q s)\<lparr>q_tail := q_nxt (s_q s) t\<rparr>, s_c := CIdle,
                   s_recv := s_recv s @ [el]\<rparr>)"

text \<open>The start: a queue that \<open>cf_queue_init\<close> made, both threads idle.\<close>

definition spsc_init :: "nat \<Rightarrow> nat \<Rightarrow> spsc" where
  "spsc_init cap es =
    \<lparr>s_q = \<lparr>q_storage = Some (replicate (cap * es) 0), q_element_size = es, q_capacity = cap,
            q_head = 0, q_tail = 0\<rparr>,
     s_p = PIdle, s_c = CIdle, s_sent = [], s_recv = [], s_drops = 0\<rparr>"

inductive spsc_reach :: "bool \<Rightarrow> nat \<Rightarrow> nat \<Rightarrow> spsc \<Rightarrow> bool" for oldest cap es where
  init: "spsc_reach oldest cap es (spsc_init cap es)"
| step: "spsc_reach oldest cap es s \<Longrightarrow> spsc_step oldest s t \<Longrightarrow> spsc_reach oldest cap es t"

section \<open>The invariant\<close>

fun producer_inv :: "cf_queue \<Rightarrow> producer_pc \<Rightarrow> bool" where
  "producer_inv q PIdle \<longleftrightarrow> True"
| "producer_inv q (PHead el h) \<longleftrightarrow> h = q_head q \<and> q_elem q el"
| "producer_inv q (PWrite el h nxt) \<longleftrightarrow>
     h = q_head q \<and> nxt = q_nxt q h \<and> nxt \<noteq> q_tail q \<and> q_elem q el"
| "producer_inv q (PPublish el nxt) \<longleftrightarrow>
     nxt = q_nxt q (q_head q) \<and> nxt \<noteq> q_tail q \<and> q_slot q (q_head q) = el"
| "producer_inv q _ \<longleftrightarrow> False"

fun consumer_inv :: "cf_queue \<Rightarrow> consumer_pc \<Rightarrow> bool" where
  "consumer_inv q CIdle \<longleftrightarrow> True"
| "consumer_inv q (CTail t) \<longleftrightarrow> t = q_tail q"
| "consumer_inv q (CRead t) \<longleftrightarrow> t = q_tail q \<and> t \<noteq> q_head q"
| "consumer_inv q (CPublish t el) \<longleftrightarrow> t = q_tail q \<and> t \<noteq> q_head q \<and> el = q_slot q t"

definition spsc_inv :: "spsc \<Rightarrow> bool" where
  "spsc_inv s \<longleftrightarrow> q_inv (s_q s) \<and> producer_inv (s_q s) (s_p s) \<and> consumer_inv (s_q s) (s_c s) \<and>
    s_sent s = s_recv s @ q_list (s_q s)"

lemma q_write_fields [simp]:
  "q_head (q_write q i el) = q_head q" "q_tail (q_write q i el) = q_tail q"
  "q_capacity (q_write q i el) = q_capacity q" "q_element_size (q_write q i el) = q_element_size q"
  by (simp_all add: q_write_def)

lemma q_write_inv:
  assumes "q_inv q" "q_elem q el" "i < q_capacity q"
  shows "q_inv (q_write q i el)"
  using assms slot_bound [OF assms(3), of "q_element_size q"]
  by (auto simp: q_inv_def q_write_def q_elem_def length_memcpy_at)

lemma q_slot_write:
  assumes "q_inv q" "q_elem q el" "i < q_capacity q" "j < q_capacity q"
  shows "q_slot (q_write q i el) j = (if i = j then el else q_slot q j)"
  using assms slot_memcpy_same [of "the (q_storage q)" "q_capacity q" "q_element_size q" i el]
    slot_memcpy_other [of "the (q_storage q)" "q_capacity q" "q_element_size q" j i el]
  by (auto simp: q_slot_def q_write_def q_elem_def q_inv_def)

lemma q_list_slots:
  "q_inv q \<Longrightarrow> q_list q = map (q_slot q)
     (ring_indices (q_capacity q) (q_tail q) (ring_dist (q_capacity q) (q_tail q) (q_head q)))"
  by (auto simp: q_list_def q_slot_def q_inv_def fun_eq_iff)

lemma q_list_write_head:
  assumes "q_inv q" "q_elem q el"
  shows "q_list (q_write q (q_head q) el) = q_list q"
proof -
  from assms(1) have h: "q_head q < q_capacity q" and t: "q_tail q < q_capacity q"
    by (auto simp: q_inv_def)
  from q_write_inv [OF assms h] have inv': "q_inv (q_write q (q_head q) el)" .
  show ?thesis
    using q_slot_write [OF assms h] ring_indices_less [OF t] head_notin_ring_indices [OF t h refl]
    by (auto simp: q_list_slots [OF inv'] q_list_slots [OF assms(1)])
qed

lemma q_list_publish:
  assumes "q_inv q" "q_nxt q (q_head q) \<noteq> q_tail q"
  shows "q_inv (q\<lparr>q_head := q_nxt q (q_head q)\<rparr>) \<and>
    q_list (q\<lparr>q_head := q_nxt q (q_head q)\<rparr>) = q_list q @ [q_slot q (q_head q)]"
proof -
  from assms(1) have h: "q_head q < q_capacity q" and t: "q_tail q < q_capacity q"
    by (auto simp: q_inv_def)
  have inv': "q_inv (q\<lparr>q_head := q_nxt q (q_head q)\<rparr>)" using assms(1) by (auto simp: q_inv_def)
  then show ?thesis
    using ring_dist_head [OF t h assms(2)] ring_indices_snoc [OF t h refl] assms(1)
    by (simp add: q_list_slots q_slot_def fun_eq_iff del: ring_indices.simps)
qed

lemma q_list_consume:
  assumes "q_inv q" "q_tail q \<noteq> q_head q"
  shows "q_inv (q\<lparr>q_tail := q_nxt q (q_tail q)\<rparr>) \<and>
    q_list q = q_slot q (q_tail q) # q_list (q\<lparr>q_tail := q_nxt q (q_tail q)\<rparr>)"
proof -
  have ne: "q_list q \<noteq> []" using assms q_list_empty_iff by blast
  from q_list_tail [OF assms(1) ne] ne show ?thesis
    by (cases "q_list q") (auto simp: q_slot_def)
qed

lemma consumer_inv_write:
  assumes "q_inv q" "q_elem q el" "consumer_inv q pc"
  shows "consumer_inv (q_write q (q_head q) el) pc"
  using assms q_slot_write [OF assms(1,2), of "q_head q" "q_tail q"]
  by (cases pc) (auto simp: q_inv_def)

lemma consumer_inv_publish:
  assumes "q_inv q" "q_nxt q (q_head q) \<noteq> q_tail q" "consumer_inv q pc"
  shows "consumer_inv (q\<lparr>q_head := q_nxt q (q_head q)\<rparr>) pc"
  using assms by (cases pc) (auto simp: q_slot_def)

lemma producer_inv_consume:
  assumes "q_inv q" "q_tail q \<noteq> q_head q" "producer_inv q pc"
  shows "producer_inv (q\<lparr>q_tail := q_nxt q (q_tail q)\<rparr>) pc"
proof -
  have "q_nxt q (q_head q) \<noteq> q_nxt q (q_tail q)"
    using assms(1,2) by (auto simp: q_inv_def ring_next_cases split: if_splits)
  then show ?thesis using assms(3) by (cases pc) (auto simp: q_elem_def q_slot_def)
qed

lemma spsc_init_inv: "2 \<le> cap \<Longrightarrow> 0 < es \<Longrightarrow> spsc_inv (spsc_init cap es)"
  by (auto simp: spsc_inv_def spsc_init_def q_inv_def q_list_def ring_dist_def)

lemma spsc_step_inv: "spsc_step False s t \<Longrightarrow> spsc_inv s \<Longrightarrow> spsc_inv t"
proof (induction rule: spsc_step.induct)
  case (push_copy s el h nxt)
  then have q: "q_inv (s_q s)" "q_elem (s_q s) el" "h = q_head (s_q s)" "h < q_capacity (s_q s)"
    by (auto simp: spsc_inv_def q_inv_def)
  then show ?case
    using push_copy q_write_inv [OF q(1,2,4)] q_list_write_head [OF q(1,2)]
      consumer_inv_write [OF q(1,2)] q_slot_write [OF q(1,2,4,4)]
    by (auto simp: spsc_inv_def)
next
  case (push_store s el nxt)
  then show ?case
    using q_list_publish [of "s_q s"] consumer_inv_publish [of "s_q s" "s_c s"]
    by (auto simp: spsc_inv_def)
next
  case (pop_store s t el)
  then show ?case
    using q_list_consume [of "s_q s"] producer_inv_consume [of "s_q s" "s_p s"]
    by (auto simp: spsc_inv_def)
qed (auto simp: spsc_inv_def q_elem_def)

lemma spsc_reach_inv:
  assumes "spsc_reach False cap es s" "2 \<le> cap" "0 < es"
  shows "spsc_inv s"
  using assms by (induction rule: spsc_reach.induct) (auto intro: spsc_init_inv spsc_step_inv)

text \<open>
  C22. In every interleaving of a drop_newest producer and a popping consumer, the elements
  received so far followed by the elements still queued are exactly the elements whose push
  returned 0, in order: nothing is lost, duplicated, reordered or torn, and at most
  \<open>cap - 1\<close> elements are queued.
\<close>

theorem spsc_fifo:
  assumes "spsc_reach False cap es s" "2 \<le> cap" "0 < es"
  shows "s_sent s = s_recv s @ q_list (s_q s) \<and> length (q_list (s_q s)) \<le> q_capacity (s_q s) - 1"
  using spsc_reach_inv [OF assms] length_q_list_bound [of "s_q s"] by (auto simp: spsc_inv_def)

text \<open>
  The producer's copy into a slot and the consumer's copy out of a slot never overlap:
  whenever the producer is about to write slot \<open>h\<close>, the consumer is not reading slot \<open>h\<close>
  and \<open>h\<close> is not one of the queued slots. So the copies need not be atomic.
\<close>

theorem spsc_slot_exclusion:
  assumes "spsc_reach False cap es s" "2 \<le> cap" "0 < es" and "s_p s = PWrite el h nxt"
  shows "s_c s \<noteq> CRead h \<and>
    h \<notin> set (ring_indices (q_capacity (s_q s)) (q_tail (s_q s)) (length (q_list (s_q s))))"
proof -
  from spsc_reach_inv [OF assms(1-3)] assms(4) have inv: "q_inv (s_q s)" "h = q_head (s_q s)"
    "consumer_inv (s_q s) (s_c s)" by (auto simp: spsc_inv_def)
  then have "s_c s \<noteq> CRead h" by auto
  with inv head_notin_ring_indices [of "q_tail (s_q s)" "q_capacity (s_q s)" "q_head (s_q s)"]
  show ?thesis by (auto simp: length_q_list q_inv_def)
qed

section \<open>Runs\<close>

text \<open>A run of the system as a list of steps, for building concrete executions.\<close>

lemma reach_step:
  "spsc_reach oldest cap es s \<Longrightarrow> spsc_step oldest s t \<Longrightarrow> t = u \<Longrightarrow> spsc_reach oldest cap es u"
  by (auto intro: spsc_reach.step)

definition ring3 :: "bytes \<Rightarrow> nat \<Rightarrow> nat \<Rightarrow> cf_queue" where
  "ring3 st h t = \<lparr>q_storage = Some st, q_element_size = 1, q_capacity = 3, q_head = h, q_tail = t\<rparr>"

lemma ring3_fields [simp]:
  "q_head (ring3 st h t) = h" "q_tail (ring3 st h t) = t" "q_capacity (ring3 st h t) = 3"
  "q_element_size (ring3 st h t) = 1"
  "(ring3 st h t)\<lparr>q_head := h'\<rparr> = ring3 st h' t" "(ring3 st h t)\<lparr>q_tail := t'\<rparr> = ring3 st h t'"
  "q_write (ring3 st h t) i [b] = ring3 (memcpy_at st i [b]) h t"
  "q_slot (ring3 st h t) i = take 1 (drop i st)"
  by (simp_all add: ring3_def q_write_def q_slot_def slot_def)

lemma push_run:
  assumes r: "spsc_reach oldest 3 (Suc 0) \<lparr>s_q = ring3 st h t, s_p = PIdle, s_c = c, s_sent = sent,
      s_recv = recv, s_drops = d\<rparr>"
    and room: "ring_next 3 h \<noteq> t"
  shows "spsc_reach oldest 3 (Suc 0) \<lparr>s_q = ring3 (memcpy_at st h [b]) (ring_next 3 h) t, s_p = PIdle,
      s_c = c, s_sent = sent @ [[b]], s_recv = recv, s_drops = d\<rparr>"
proof -
  note r1 = reach_step [OF r spsc_step.push_load_head [of _ "[b]"] refl, simplified]
  note r2 = reach_step [OF r1 spsc_step.push_room [where el = "[b]" and h = h] refl, simplified, OF room]
  note r3 = reach_step [OF r2 spsc_step.push_copy [where el = "[b]" and h = h and nxt = "ring_next 3 h"] refl, simplified]
  show ?thesis by (rule reach_step [OF r3 spsc_step.push_store [where el = "[b]" and nxt = "ring_next 3 h"]]) simp_all
qed

lemma evict_run:
  assumes r: "spsc_reach True 3 (Suc 0) \<lparr>s_q = ring3 st h t, s_p = PIdle, s_c = c, s_sent = sent,
      s_recv = recv, s_drops = d\<rparr>"
    and full: "ring_next 3 h = t" and ne: "t \<noteq> h" and room: "ring_next 3 h \<noteq> ring_next 3 t"
  shows "spsc_reach True 3 (Suc 0) \<lparr>s_q = ring3 (memcpy_at st h [b]) (ring_next 3 h) (ring_next 3 t),
      s_p = PIdle, s_c = c, s_sent = sent @ [[b]], s_recv = recv, s_drops = Suc d\<rparr>"
proof -
  note r1 = reach_step [OF r spsc_step.push_load_head [of _ "[b]"] refl, simplified]
  note r2 = reach_step [OF r1 spsc_step.push_full_oldest [where el = "[b]" and h = h] refl, simplified, OF full]
  note r3 = reach_step [OF r2 spsc_step.drop_load_tail [where el = "[b]"] refl, simplified]
  note r4 = reach_step [OF r3 spsc_step.drop_some [where el = "[b]" and t = t] refl, simplified, OF ne]
  note r5 = reach_step [OF r4 spsc_step.drop_store [where el = "[b]" and t = t] refl, simplified]
  note r6 = reach_step [OF r5 spsc_step.repush_load_head [where el = "[b]"] refl, simplified]
  note r7 = reach_step [OF r6 spsc_step.repush_room [where el = "[b]" and h = h] refl, simplified, OF room]
  note r8 = reach_step [OF r7 spsc_step.push_copy [where el = "[b]" and h = h and nxt = "ring_next 3 h"] refl, simplified]
  show ?thesis by (rule reach_step [OF r8 spsc_step.push_store [where el = "[b]" and nxt = "ring_next 3 h"]]) simp_all
qed

lemma init_ring3:
  "spsc_init 3 (Suc 0) = \<lparr>s_q = ring3 [0, 0, 0] 0 0, s_p = PIdle, s_c = CIdle, s_sent = [],
     s_recv = [], s_drops = 0\<rparr>"
  by (simp add: spsc_init_def ring3_def numeral_3_eq_3)

lemma two_pushed:
  "spsc_reach oldest 3 (Suc 0) \<lparr>s_q = ring3 [1, 2, 0] 2 0, s_p = PIdle, s_c = CIdle,
     s_sent = [[1], [2]], s_recv = [], s_drops = 0\<rparr>"
proof -
  have "spsc_reach oldest 3 (Suc 0) (spsc_init 3 (Suc 0))" by (rule spsc_reach.init)
  then have "spsc_reach oldest 3 (Suc 0) \<lparr>s_q = ring3 [0, 0, 0] 0 0, s_p = PIdle, s_c = CIdle,
      s_sent = [], s_recv = [], s_drops = 0\<rparr>" by (simp only: init_ring3)
  note r1 = push_run [OF this, of 1]
  have "spsc_reach oldest 3 (Suc 0) \<lparr>s_q = ring3 [1, 0, 0] 1 0, s_p = PIdle, s_c = CIdle,
      s_sent = [[1]], s_recv = [], s_drops = 0\<rparr>"
    using r1 by (simp add: ring_next_def memcpy_at_def)
  from push_run [OF this, of 2] show ?thesis
    by (simp add: ring_next_def memcpy_at_def numeral_2_eq_2)
qed

text \<open>The producer about to write a slot while the consumer reads another one.\<close>

lemma write_while_reading:
  "spsc_reach False 3 (Suc 0) \<lparr>s_q = ring3 [1, 0, 0] 1 0, s_p = PWrite [2] 1 2, s_c = CRead 0,
     s_sent = [[1]], s_recv = [], s_drops = 0\<rparr>"
proof -
  have "spsc_reach False 3 (Suc 0) \<lparr>s_q = ring3 [0, 0, 0] 0 0, s_p = PIdle, s_c = CIdle,
      s_sent = [], s_recv = [], s_drops = 0\<rparr>" using spsc_reach.init [of False 3 "Suc 0"]
    by (simp only: init_ring3)
  from push_run [OF this, of 1] have r1: "spsc_reach False 3 (Suc 0) \<lparr>s_q = ring3 [1, 0, 0] 1 0,
      s_p = PIdle, s_c = CIdle, s_sent = [[1]], s_recv = [], s_drops = 0\<rparr>"
    by (simp add: ring_next_def memcpy_at_def)
  note c1 = reach_step [OF r1 spsc_step.pop_load_tail refl, simplified]
  note c2 = reach_step [OF c1 spsc_step.pop_some [where t = 0] refl, simplified]
  note p1 = reach_step [OF c2 spsc_step.push_load_head [where el = "[2]"] refl, simplified]
  note p2 = reach_step [OF p1 spsc_step.push_room [where el = "[2]" and h = 1] refl, simplified]
  from p2 show ?thesis by (simp add: ring_next_def numeral_2_eq_2)
qed

theorem spsc_slot_exclusion_witness:
  "\<exists>s el h nxt. spsc_reach False 3 1 s \<and> s_p s = PWrite el h nxt \<and> s_c s = CRead 0 \<and> h = 1 \<and>
     h \<notin> set (ring_indices 3 0 (length (q_list (s_q s))))"
  using spsc_slot_exclusion [OF write_while_reading] write_while_reading
  by (fastforce simp del: One_nat_def simp add: One_nat_def [symmetric])

theorem spsc_fifo_witness:
  "\<exists>s. spsc_reach False 3 1 s \<and> s_sent s = [[1], [2]] \<and> s_recv s = [] \<and>
     s_sent s = s_recv s @ q_list (s_q s) \<and> length (q_list (s_q s)) \<le> 2"
  using two_pushed [of False] spsc_fifo [OF two_pushed [of False]] by fastforce

text \<open>
  C34. Under drop_oldest the two threads both write \<open>tail\<close>. There is a run on a three-slot
  ring in which four elements are pushed successfully, the consumer receives only the newest
  of them, two evictions are counted and the queue ends empty: one element has vanished
  without being received, queued or counted.
\<close>

theorem drop_oldest_loses_uncounted:
  "\<exists>s. spsc_reach True 3 1 s \<and> s_p s = PIdle \<and> s_c s = CIdle \<and>
     s_sent s = [[1], [2], [3], [4]] \<and> s_recv s = [[4]] \<and> q_list (s_q s) = [] \<and> s_drops s = 2"
proof -
  note c1 = reach_step [OF two_pushed [of True] spsc_step.pop_load_tail refl, simplified]
  note c2 = reach_step [OF c1 spsc_step.pop_some [where t = 0] refl, simplified]
  have e1: "spsc_reach True 3 (Suc 0) \<lparr>s_q = ring3 [1, 2, 3] 0 1, s_p = PIdle, s_c = CRead 0,
      s_sent = [[1], [2], [3]], s_recv = [], s_drops = 1\<rparr>"
    using evict_run [OF c2, of 3] by (simp add: ring_next_def memcpy_at_def)
  have e2: "spsc_reach True 3 (Suc 0) \<lparr>s_q = ring3 [4, 2, 3] 1 2, s_p = PIdle, s_c = CRead 0,
      s_sent = [[1], [2], [3], [4]], s_recv = [], s_drops = 2\<rparr>"
    using evict_run [OF e1, of 4] by (simp add: ring_next_def memcpy_at_def numeral_2_eq_2)
  note c3 = reach_step [OF e2 spsc_step.pop_copy [where t = 0] refl, simplified]
  note c4 = reach_step [OF c3 spsc_step.pop_store [where t = 0 and el = "[4]"] refl, simplified]
  have "q_list (ring3 [4, 2, 3] 1 1) = []" by (simp add: ring3_def q_list_def ring_dist_def)
  with c4 show ?thesis by (fastforce simp: ring_next_def)
qed

end
