(* ===== verification/Sha256.thy ===== *)
theory Sha256
  imports Prelude
begin

text \<open>
  The SHA-256 implementation of \<^verbatim>\<open>libs/cloudflow-core/sha256.c\<close>: the streaming context
  (\<open>sha256_init\<close>, \<open>sha256_update\<close>, \<open>sha256_final\<close>) over the block transform, at the widths
  of the source. The digest is shown to be that of the padded message cut into 64-byte
  blocks, and independent of how the message is cut into updates.
\<close>

section \<open>The block transform\<close>

definition SHA256_K :: "u32 list" where
  "SHA256_K = concat [
    [0x428a2f98, 0x71374491, 0xb5c0fbcf, 0xe9b5dba5],
    [0x3956c25b, 0x59f111f1, 0x923f82a4, 0xab1c5ed5],
    [0xd807aa98, 0x12835b01, 0x243185be, 0x550c7dc3],
    [0x72be5d74, 0x80deb1fe, 0x9bdc06a7, 0xc19bf174],
    [0xe49b69c1, 0xefbe4786, 0x0fc19dc6, 0x240ca1cc],
    [0x2de92c6f, 0x4a7484aa, 0x5cb0a9dc, 0x76f988da],
    [0x983e5152, 0xa831c66d, 0xb00327c8, 0xbf597fc7],
    [0xc6e00bf3, 0xd5a79147, 0x06ca6351, 0x14292967],
    [0x27b70a85, 0x2e1b2138, 0x4d2c6dfc, 0x53380d13],
    [0x650a7354, 0x766a0abb, 0x81c2c92e, 0x92722c85],
    [0xa2bfe8a1, 0xa81a664b, 0xc24b8b70, 0xc76c51a3],
    [0xd192e819, 0xd6990624, 0xf40e3585, 0x106aa070],
    [0x19a4c116, 0x1e376c08, 0x2748774c, 0x34b0bcb5],
    [0x391c0cb3, 0x4ed8aa4a, 0x5b9cca4f, 0x682e6ff3],
    [0x748f82ee, 0x78a5636f, 0x84c87814, 0x8cc70208],
    [0x90befffa, 0xa4506ceb, 0xbef9a3f7, 0xc67178f2]]"

definition sha256_rotr :: "u32 \<Rightarrow> nat \<Rightarrow> u32" where
  "sha256_rotr x n = drop_bit n x OR push_bit (32 - n) x"

text \<open>The message schedule: 16 big-endian words of the block, then 48 derived words.\<close>

definition schedule_load :: "bytes \<Rightarrow> u32 list" where
  "schedule_load block =
    map (\<lambda>i. push_bit 24 (ucast (block ! (i * 4))) OR push_bit 16 (ucast (block ! (i * 4 + 1))) OR
             push_bit 8 (ucast (block ! (i * 4 + 2))) OR ucast (block ! (i * 4 + 3))) [0..<16]"

definition schedule_step :: "nat \<Rightarrow> u32 list \<Rightarrow> u32 list" where
  "schedule_step i w =
    (let s0 = sha256_rotr (w ! (i - 15)) 7 XOR sha256_rotr (w ! (i - 15)) 18 XOR drop_bit 3 (w ! (i - 15));
         s1 = sha256_rotr (w ! (i - 2)) 17 XOR sha256_rotr (w ! (i - 2)) 19 XOR drop_bit 10 (w ! (i - 2))
     in w @ [w ! (i - 16) + s0 + w ! (i - 7) + s1])"

definition sha256_schedule :: "bytes \<Rightarrow> u32 list" where
  "sha256_schedule block = fold schedule_step [16..<64] (schedule_load block)"

type_synonym sha_vars = "u32 \<times> u32 \<times> u32 \<times> u32 \<times> u32 \<times> u32 \<times> u32 \<times> u32"

fun sha256_round :: "u32 list \<Rightarrow> nat \<Rightarrow> sha_vars \<Rightarrow> sha_vars" where
  "sha256_round w i (a, b, c, d, e, f, g, h) =
    (let big_s1 = sha256_rotr e 6 XOR sha256_rotr e 11 XOR sha256_rotr e 25;
         ch = (e AND f) XOR (NOT e AND g);
         temp1 = h + big_s1 + ch + SHA256_K ! i + w ! i;
         big_s0 = sha256_rotr a 2 XOR sha256_rotr a 13 XOR sha256_rotr a 22;
         maj = (a AND b) XOR (a AND c) XOR (b AND c);
         temp2 = big_s0 + maj
     in (temp1 + temp2, a, b, c, d + temp1, e, f, g))"

definition sha256_compress :: "sha_vars \<Rightarrow> bytes \<Rightarrow> sha_vars" where
  "sha256_compress st block =
    (case st of (a0, b0, c0, d0, e0, f0, g0, h0) \<Rightarrow>
     case fold (sha256_round (sha256_schedule block)) [0..<64] st of (a, b, c, d, e, f, g, h) \<Rightarrow>
       (a0 + a, b0 + b, c0 + c, d0 + d, e0 + e, f0 + f, g0 + g, h0 + h))"

section \<open>The streaming context\<close>

record sha256_ctx =
  sha_state :: sha_vars
  sha_total_len :: u64
  sha_buffer :: bytes
  sha_buffer_len :: u64

definition sha256_transform :: "sha256_ctx \<Rightarrow> bytes \<Rightarrow> sha256_ctx" where
  "sha256_transform ctx block = ctx\<lparr>sha_state := sha256_compress (sha_state ctx) block\<rparr>"

definition sha256_H0 :: sha_vars where
  "sha256_H0 = (0x6a09e667, 0xbb67ae85, 0x3c6ef372, 0xa54ff53a,
                0x510e527f, 0x9b05688c, 0x1f83d9ab, 0x5be0cd19)"

text \<open>\<open>sha256_init\<close> leaves the buffer bytes as they are.\<close>

definition sha256_init :: "sha256_ctx \<Rightarrow> sha256_ctx" where
  "sha256_init ctx = ctx\<lparr>sha_state := sha256_H0, sha_total_len := 0, sha_buffer_len := 0\<rparr>"

text \<open>The copy loop of \<open>sha256_update\<close>; \<open>64 - buffer_len\<close> is a \<open>size_t\<close> subtraction.\<close>

function update_loop :: "sha256_ctx \<Rightarrow> bytes \<Rightarrow> sha256_ctx" where
  "update_loop ctx data =
    (if data = [] then ctx
     else
       (let n = min (unat (64 - sha_buffer_len ctx)) (length data);
            buf = memcpy_at (sha_buffer ctx) (unat (sha_buffer_len ctx)) (take n data);
            len = sha_buffer_len ctx + of_nat n;
            ctx1 = ctx\<lparr>sha_buffer := buf, sha_buffer_len := len\<rparr>;
            ctx2 = (if len = 64 then (sha256_transform ctx1 buf)\<lparr>sha_buffer_len := 0\<rparr> else ctx1)
        in update_loop ctx2 (drop n data)))"
  by pat_completeness auto
termination
proof (relation "measure (\<lambda>(ctx, data). 2 * length data + (if sha_buffer_len ctx = 64 then 1 else 0))",
    goal_cases)
  case (2 ctx data n buf len ctx1 ctx2)
  show ?case
  proof (cases "n = 0")
    case True
    with 2 have "sha_buffer_len ctx = 64" by (auto simp: min_def unat_eq_0 split: if_splits)
    with 2 True show ?thesis by (simp add: sha256_transform_def)
  next
    case False
    with 2 show ?thesis by (auto simp: sha256_transform_def)
  qed
qed simp

declare update_loop.simps [simp del]

definition sha256_update :: "sha256_ctx \<Rightarrow> bytes \<Rightarrow> sha256_ctx" where
  "sha256_update ctx data =
    update_loop (ctx\<lparr>sha_total_len := sha_total_len ctx + of_nat (length data)\<rparr>) data"

text \<open>The eight length bytes, most significant first.\<close>

definition be64_bytes :: "u64 \<Rightarrow> bytes" where
  "be64_bytes x = map (\<lambda>j. ucast (drop_bit (j * 8) x)) [7, 6, 5, 4, 3, 2, 1, 0]"

definition be32_bytes :: "u32 \<Rightarrow> bytes" where
  "be32_bytes x = [ucast (drop_bit 24 x), ucast (drop_bit 16 x), ucast (drop_bit 8 x), ucast x]"

fun digest_bytes :: "sha_vars \<Rightarrow> bytes" where
  "digest_bytes (a, b, c, d, e, f, g, h) = concat (map be32_bytes [a, b, c, d, e, f, g, h])"

definition sha256_final :: "sha256_ctx \<Rightarrow> bytes" where
  "sha256_final ctx =
    (let bit_len = sha_total_len ctx * 8;
         i = unat (sha_buffer_len ctx);
         buf = memcpy_at (sha_buffer ctx) i [0x80];
         i = i + 1;
         (ctx, buf, i) =
           (if 56 < i
            then (let buf = memcpy_at buf i (replicate (64 - i) 0)
                  in (sha256_transform ctx buf, buf, 0))
            else (ctx, buf, i));
         buf = memcpy_at buf i (replicate (56 - i) 0);
         buf = memcpy_at buf 56 (be64_bytes bit_len)
     in digest_bytes (sha_state (sha256_transform ctx buf)))"

section \<open>One byte at a time\<close>

definition sha_inv :: "sha256_ctx \<Rightarrow> bool" where
  "sha_inv ctx \<longleftrightarrow> unat (sha_buffer_len ctx) < 64 \<and> length (sha_buffer ctx) = 64"

text \<open>Closing a buffer: when the count reaches 64 the block is transformed.\<close>

definition settle :: "sha256_ctx \<Rightarrow> bytes \<Rightarrow> u64 \<Rightarrow> sha256_ctx" where
  "settle ctx buf len =
    (let ctx1 = ctx\<lparr>sha_buffer := buf, sha_buffer_len := len\<rparr>
     in if len = 64 then (sha256_transform ctx1 buf)\<lparr>sha_buffer_len := 0\<rparr> else ctx1)"

definition absorb :: "byte \<Rightarrow> sha256_ctx \<Rightarrow> sha256_ctx" where
  "absorb b ctx =
    settle ctx (memcpy_at (sha_buffer ctx) (unat (sha_buffer_len ctx)) [b]) (sha_buffer_len ctx + 1)"

lemma unat_len_add:
  assumes "unat (len :: u64) < 64" "unat len + n \<le> 64"
  shows "unat (len + of_nat n) = unat len + n"
  using assms by (simp add: unat_word_ariths unat_of_nat)

lemma len_add_eq_64:
  assumes "unat (len :: u64) < 64" "unat len + n \<le> 64"
  shows "len + of_nat n = 64 \<longleftrightarrow> unat len + n = 64"
proof -
  have "len + of_nat n = 64 \<longleftrightarrow> unat (len + of_nat n) = unat (64 :: u64)" by (simp only: word_unat_eq_iff)
  then show ?thesis using unat_len_add [OF assms] by simp
qed

lemma settle_inv:
  assumes "unat len \<le> 64" "length buf = 64"
  shows "sha_inv (settle ctx buf len)"
proof (cases "len = 64")
  case True
  with assms show ?thesis by (simp add: sha_inv_def settle_def sha256_transform_def)
next
  case False
  then have "unat len \<noteq> unat (64 :: u64)" by (simp only: word_unat_eq_iff not_False_eq_True)
  with assms False show ?thesis by (simp add: sha_inv_def settle_def)
qed

lemma absorb_inv: "sha_inv ctx \<Longrightarrow> sha_inv (absorb b ctx)"
  using unat_len_add [of "sha_buffer_len ctx" 1]
  unfolding absorb_def by (intro settle_inv) (auto simp: sha_inv_def length_memcpy_at)

lemma fold_absorb_inv: "sha_inv ctx \<Longrightarrow> sha_inv (fold absorb xs ctx)"
  by (induction xs arbitrary: ctx) (auto simp: absorb_inv)

lemma memcpy_at_Cons:
  assumes "off + Suc (length xs) \<le> length dst"
  shows "memcpy_at (memcpy_at dst off [b]) (Suc off) xs = memcpy_at dst off (b # xs)"
  using assms memcpy_at_append [of off "[b]" xs dst] by simp

lemma fold_absorb_chunk:
  "sha_inv ctx \<Longrightarrow> xs \<noteq> [] \<Longrightarrow> unat (sha_buffer_len ctx) + length xs \<le> 64 \<Longrightarrow>
   fold absorb xs ctx =
     settle ctx (memcpy_at (sha_buffer ctx) (unat (sha_buffer_len ctx)) xs)
       (sha_buffer_len ctx + of_nat (length xs))"
proof (induction xs arbitrary: ctx)
  case Nil
  then show ?case by simp
next
  case (Cons b xs)
  let ?len = "sha_buffer_len ctx" and ?buf = "sha_buffer ctx"
  show ?case
  proof (cases "xs = []")
    case True
    then show ?thesis by (simp add: absorb_def)
  next
    case False
    let ?c1 = "ctx\<lparr>sha_buffer := memcpy_at ?buf (unat ?len) [b], sha_buffer_len := ?len + 1\<rparr>"
    have l: "unat ?len < 64" "length ?buf = 64" using Cons.prems(1) by (auto simp: sha_inv_def)
    have xs: "0 < length xs" using False by simp
    have u1: "unat (?len + 1) = unat ?len + 1" "?len + 1 \<noteq> 64"
      using unat_len_add [OF l(1), of 1] len_add_eq_64 [OF l(1), of 1] Cons.prems(3) xs by auto
    have a: "absorb b ctx = ?c1" using u1(2) by (simp add: absorb_def settle_def)
    have inv1: "sha_inv ?c1" using absorb_inv [OF Cons.prems(1), of b] a by simp
    have "fold absorb xs ?c1 = settle ?c1 (memcpy_at (sha_buffer ?c1) (unat (sha_buffer_len ?c1)) xs)
        (sha_buffer_len ?c1 + of_nat (length xs))"
      using Cons.prems(3) False u1(1) by (intro Cons.IH [OF inv1]) auto
    also have "\<dots> = settle ctx (memcpy_at ?buf (unat ?len) (b # xs)) (?len + of_nat (length (b # xs)))"
      using memcpy_at_Cons [of "unat ?len" xs ?buf b] Cons.prems(3) l u1(1)
      by (simp add: settle_def sha256_transform_def algebra_simps)
    finally show ?thesis using a by simp
  qed
qed

lemma update_loop_fold: "sha_inv ctx \<Longrightarrow> update_loop ctx data = fold absorb data ctx"
proof (induction ctx data rule: update_loop.induct)
  case (1 ctx data)
  let ?len = "sha_buffer_len ctx"
  let ?n = "min (unat (64 - ?len)) (length data)"
  show ?case
  proof (cases "data = []")
    case True
    then show ?thesis by (simp add: update_loop.simps)
  next
    case False
    have l: "unat ?len < 64" using "1.prems" by (simp add: sha_inv_def)
    then have sub: "unat (64 - ?len) = 64 - unat ?len"
      by (simp add: unat_sub word_le_nat_alt)
    have n: "0 < ?n" "unat ?len + ?n \<le> 64" using False l sub by auto
    have chunk: "fold absorb (take ?n data) ctx =
        settle ctx (memcpy_at (sha_buffer ctx) (unat ?len) (take ?n data)) (?len + of_nat ?n)"
      using fold_absorb_chunk [OF "1.prems", of "take ?n data"] n False by (simp add: min_def)
    have "update_loop ctx data = update_loop (fold absorb (take ?n data) ctx) (drop ?n data)"
      unfolding chunk using False
      by (subst update_loop.simps) (simp add: settle_def Let_def)
    also have "\<dots> = fold absorb (drop ?n data) (fold absorb (take ?n data) ctx)"
    proof -
      have "sha_inv (fold absorb (take ?n data) ctx)" using fold_absorb_inv [OF "1.prems"] .
      then show ?thesis
        using "1.IH" [OF False refl refl refl refl refl] unfolding chunk settle_def Let_def by simp
    qed
    also have "\<dots> = fold absorb (take ?n data @ drop ?n data) ctx" by (simp only: fold_append o_apply)
    finally show ?thesis by simp
  qed
qed

lemma absorb_total_len [simp]: "sha_total_len (fold absorb xs ctx) = sha_total_len ctx"
  by (induction xs arbitrary: ctx) (auto simp: absorb_def settle_def sha256_transform_def Let_def)

lemma absorb_set_total:
  "absorb b (ctx\<lparr>sha_total_len := n\<rparr>) = (absorb b ctx)\<lparr>sha_total_len := n\<rparr>"
  by (simp add: absorb_def settle_def sha256_transform_def Let_def)

lemma fold_absorb_set_total:
  "fold absorb xs (ctx\<lparr>sha_total_len := n\<rparr>) = (fold absorb xs ctx)\<lparr>sha_total_len := n\<rparr>"
  by (induction xs arbitrary: ctx) (auto simp: absorb_set_total)

lemma sha256_update_fold:
  "sha_inv ctx \<Longrightarrow> sha256_update ctx data =
     (fold absorb data ctx)\<lparr>sha_total_len := sha_total_len ctx + of_nat (length data)\<rparr>"
  by (simp add: sha256_update_def update_loop_fold sha_inv_def fold_absorb_set_total)

lemma sha256_update_inv: "sha_inv ctx \<Longrightarrow> sha_inv (sha256_update ctx data)"
  using fold_absorb_inv [of ctx data] by (simp add: sha256_update_fold sha_inv_def)

lemma sha256_update_append:
  assumes "sha_inv ctx"
  shows "sha256_update (sha256_update ctx xs) ys = sha256_update ctx (xs @ ys)"
  using sha256_update_inv [OF assms, of xs] assms
  by (simp add: sha256_update_fold fold_absorb_set_total algebra_simps)

lemma sha256_update_Nil: "sha256_update ctx [] = ctx"
  by (simp add: sha256_update_def update_loop.simps)

section \<open>The digest of a padded message\<close>

text \<open>
  The reference: pad the message with \<open>0x80\<close>, zeros up to 56 modulo 64 and the 64-bit bit
  count, cut it into 64-byte blocks and fold the compression function over them.
\<close>

fun blocks64 :: "bytes \<Rightarrow> bytes list" where
  "blocks64 xs = (if xs = [] then [] else take 64 xs # blocks64 (drop 64 xs))"

declare blocks64.simps [simp del]

definition sha256_padding :: "nat \<Rightarrow> bytes" where
  "sha256_padding len = 0x80 # replicate ((119 - len mod 64) mod 64) 0 @ be64_bytes (of_nat len * 8)"

definition sha256_spec :: "bytes \<Rightarrow> bytes" where
  "sha256_spec msg =
    digest_bytes (foldl sha256_compress sha256_H0 (blocks64 (msg @ sha256_padding (length msg))))"

lemma length_be64_bytes [simp]: "length (be64_bytes x) = 8"
  by (simp add: be64_bytes_def)

lemma blocks64_Nil [simp]: "blocks64 [] = []"
  by (simp add: blocks64.simps)

lemma blocks64_snoc:
  "length blk = 64 \<Longrightarrow> length xs mod 64 = 0 \<Longrightarrow> blocks64 (xs @ blk) = blocks64 xs @ [blk]"
proof (induction xs rule: blocks64.induct)
  case (1 xs)
  show ?case
  proof (cases "xs = []")
    case True
    then show ?thesis using "1.prems"(1) by (auto simp: blocks64.simps)
  next
    case False
    with "1.prems"(2) have len: "64 \<le> length xs"
      by (metis length_0_conv linorder_not_le mod_less)
    then have "length (drop 64 xs) mod 64 = 0" using "1.prems"(2) by (simp add: mod_if)
    with "1.IH" [OF False "1.prems"(1)] have
      "blocks64 (drop 64 xs @ blk) = blocks64 (drop 64 xs) @ [blk]" by simp
    with False len show ?thesis
      by (simp add: blocks64.simps [of "xs @ blk"] blocks64.simps [of xs])
  qed
qed

text \<open>What the context holds after absorbing \<open>msg\<close>: the state of the full blocks and, in
  the buffer, the bytes of the last partial block.\<close>

definition holds :: "sha256_ctx \<Rightarrow> bytes \<Rightarrow> bool" where
  "holds ctx msg \<longleftrightarrow> sha_inv ctx \<and>
    (let q = 64 * (length msg div 64) in
      sha_state ctx = foldl sha256_compress sha256_H0 (blocks64 (take q msg)) \<and>
      unat (sha_buffer_len ctx) = length msg mod 64 \<and>
      take (length msg mod 64) (sha_buffer ctx) = drop q msg)"

lemma holds_init: "length (sha_buffer ctx) = 64 \<Longrightarrow> holds (sha256_init ctx) []"
  by (simp add: holds_def sha256_init_def sha_inv_def)

lemma take_memcpy_snoc:
  "take off dst = xs \<Longrightarrow> off < length dst \<Longrightarrow> take (Suc off) (memcpy_at dst off [b]) = xs @ [b]"
  by (auto simp: memcpy_at_def)

lemma holds_absorb:
  assumes h: "holds ctx msg"
  shows "holds (absorb b ctx) (msg @ [b])"
proof -
  let ?r = "length msg mod 64" and ?q = "64 * (length msg div 64)"
  let ?buf = "memcpy_at (sha_buffer ctx) ?r [b]"
  from h have inv: "sha_inv ctx" and len: "unat (sha_buffer_len ctx) = ?r"
    and st: "sha_state ctx = foldl sha256_compress sha256_H0 (blocks64 (take ?q msg))"
    and buf: "take ?r (sha_buffer ctx) = drop ?q msg" by (auto simp: holds_def Let_def)
  have r: "?r < 64" by simp
  have qr: "length msg = ?q + ?r" by simp
  have lbuf: "length (sha_buffer ctx) = 64" using inv by (simp add: sha_inv_def)
  have tb: "take (Suc ?r) ?buf = drop ?q msg @ [b]" using take_memcpy_snoc [OF buf] lbuf r by simp
  have lb: "length ?buf = 64" using lbuf r by (simp add: length_memcpy_at)
  have l1: "unat (sha_buffer_len ctx + 1) = Suc ?r" and l64: "sha_buffer_len ctx + 1 = 64 \<longleftrightarrow> Suc ?r = 64"
    using unat_len_add [of "sha_buffer_len ctx" 1] len_add_eq_64 [of "sha_buffer_len ctx" 1] r len by auto
  show ?thesis
  proof (cases "Suc ?r = 64")
    case True
    then have d: "length (msg @ [b]) mod 64 = 0" "64 * (length (msg @ [b]) div 64) = length (msg @ [b])"
      using mult_div_mod_eq [of 64 "length msg"] by (auto simp: mod_Suc div_Suc)
    have "?buf = drop ?q msg @ [b]" using tb lb True by simp
    moreover have "msg @ [b] = take ?q msg @ (drop ?q msg @ [b])" by simp
    moreover have "length (drop ?q msg @ [b]) = 64" using True qr by simp
    moreover have "length (take ?q msg) mod 64 = 0" by simp
    ultimately have "blocks64 (msg @ [b]) = blocks64 (take ?q msg) @ [?buf]"
      using blocks64_snoc [of "drop ?q msg @ [b]" "take ?q msg"] by metis
    then show ?thesis
      using absorb_inv [OF inv, of b] d l64 True len st
      by (simp add: holds_def absorb_def settle_def sha256_transform_def)
  next
    case False
    then have d: "length (msg @ [b]) mod 64 = Suc ?r" "length (msg @ [b]) div 64 = length msg div 64"
      by (auto simp: mod_Suc div_Suc)
    then show ?thesis
      using absorb_inv [OF inv, of b] l1 l64 False len st tb qr
      by (simp add: holds_def absorb_def settle_def del: length_append)
  qed
qed

lemma holds_fold: "holds ctx msg \<Longrightarrow> holds (fold absorb xs ctx) (msg @ xs)"
proof (induction xs arbitrary: ctx msg)
  case Nil
  then show ?case by simp
next
  case (Cons b xs)
  from Cons.IH [OF holds_absorb [OF Cons.prems, of b]] show ?case by simp
qed

lemma holds_total: "holds (ctx\<lparr>sha_total_len := n\<rparr>) msg = holds ctx msg"
  by (simp add: holds_def sha_inv_def)

lemma pad_count: "r < 64 \<Longrightarrow> (119 - r) mod 64 = (if r < 56 then 55 - r else 119 - (r::nat))"
proof (cases "r < 56")
  case True
  then have "119 - r = (55 - r) + 64" by simp
  with True show ?thesis by (simp only: mod_add_self2) simp
qed simp

text \<open>The padding written by \<open>sha256_final\<close> is what absorbing the padding bytes writes.\<close>

lemma sha256_final_absorbs:
  assumes inv: "sha_inv ctx" and len: "unat (sha_buffer_len ctx) = n mod 64"
    and tot: "sha_total_len ctx = of_nat n"
  shows "sha256_final ctx = digest_bytes (sha_state (fold absorb (sha256_padding n) ctx))"
proof -
  let ?r = "n mod 64" and ?bits = "be64_bytes (of_nat n * 8)"
  from inv have lb: "length (sha_buffer ctx) = 64" by (simp add: sha_inv_def)
  show ?thesis
  proof (cases "?r < 56")
    case True
    let ?pad = "0x80 # replicate (55 - ?r) 0 @ ?bits"
    have "(119 - ?r) mod 64 = 55 - ?r" using True pad_count [of ?r] by simp
    then have pad: "sha256_padding n = ?pad" by (simp add: sha256_padding_def)
    have "fold absorb ?pad ctx = settle ctx (memcpy_at (sha_buffer ctx) ?r ?pad)
        (sha_buffer_len ctx + of_nat (length ?pad))"
      using fold_absorb_chunk [OF inv, of ?pad] True len by simp
    moreover have "sha_buffer_len ctx + of_nat (length ?pad) = 64"
      using len_add_eq_64 [of "sha_buffer_len ctx" "length ?pad"] True len by simp
    moreover have "memcpy_at (memcpy_at (memcpy_at (sha_buffer ctx) ?r [0x80]) (Suc ?r)
        (replicate (55 - ?r) 0)) 56 ?bits = memcpy_at (sha_buffer ctx) ?r ?pad"
      using True lb memcpy_at_append [of ?r "[0x80]" "replicate (55 - ?r) 0" "sha_buffer ctx"]
        memcpy_at_append [of ?r "0x80 # replicate (55 - ?r) 0" ?bits "sha_buffer ctx"] by simp
    ultimately show ?thesis using True len tot unfolding pad
      by (simp add: sha256_final_def Let_def settle_def sha256_transform_def)
  next
    case False
    let ?p1 = "0x80 # replicate (63 - ?r) 0" and ?p2 = "replicate 56 (0 :: byte) @ ?bits"
    have r: "?r < 64" by simp
    have "(119 - ?r) mod 64 = (63 - ?r) + 56" using False r pad_count [of ?r] by simp
    then have pad: "sha256_padding n = ?p1 @ ?p2"
      by (simp only: sha256_padding_def replicate_add append_Cons append_assoc)
    let ?b1 = "memcpy_at (sha_buffer ctx) ?r ?p1"
    have lb1: "length ?b1 = 64" using False r lb by (simp add: length_memcpy_at)
    have "sha_buffer_len ctx + of_nat (length ?p1) = 64"
      using len_add_eq_64 [of "sha_buffer_len ctx" "length ?p1"] False r len by simp
    then have f1: "fold absorb ?p1 ctx =
        (sha256_transform (ctx\<lparr>sha_buffer := ?b1, sha_buffer_len := 64\<rparr>) ?b1)\<lparr>sha_buffer_len := 0\<rparr>"
      using fold_absorb_chunk [OF inv, of ?p1] False r len by (simp add: settle_def)
    let ?c1 = "(sha256_transform (ctx\<lparr>sha_buffer := ?b1, sha_buffer_len := 64\<rparr>) ?b1)\<lparr>sha_buffer_len := 0\<rparr>"
    have inv1: "sha_inv ?c1" using fold_absorb_inv [OF inv, of ?p1] f1 by simp
    have f2: "fold absorb ?p2 ?c1 = settle ?c1 (memcpy_at ?b1 0 ?p2) 64"
      using fold_absorb_chunk [OF inv1, of ?p2] by (simp add: sha256_transform_def)
    have m1: "memcpy_at (memcpy_at (sha_buffer ctx) ?r [0x80]) (Suc ?r) (replicate (64 - Suc ?r) 0) = ?b1"
      using memcpy_at_Cons [of ?r "replicate (63 - ?r) 0" "sha_buffer ctx" "0x80"] lb r by simp
    have m2: "memcpy_at (memcpy_at ?b1 0 (replicate 56 0)) 56 ?bits = memcpy_at ?b1 0 ?p2"
      by (rule memcpy_at_append) (simp_all add: lb1)
    have "56 < Suc ?r" using False by simp
    then have "sha256_final ctx = digest_bytes (sha_state (sha256_transform (sha256_transform ctx ?b1)
        (memcpy_at ?b1 0 ?p2)))"
      using len tot m1 m2 by (simp add: sha256_final_def Let_def)
    also have "\<dots> = digest_bytes (sha_state (fold absorb ?p2 (fold absorb ?p1 ctx)))"
      unfolding f1 f2 by (simp add: settle_def sha256_transform_def)
    finally show ?thesis unfolding pad by simp
  qed
qed

lemma length_padding: "(n + length (sha256_padding n)) mod 64 = 0"
proof -
  have "(n mod 64 + 9 + (119 - n mod 64) mod 64) mod 64 = 0"
    using pad_count [of "n mod 64"] by (cases "n mod 64 < 56") auto
  then have "(n + (9 + (119 - n mod 64) mod 64)) mod 64 = 0"
    by (metis (no_types, lifting) add.assoc mod_add_left_eq)
  then show ?thesis by (simp add: sha256_padding_def)
qed

lemma sha256_digest_init:
  assumes "length (sha_buffer ctx) = 64"
  shows "sha256_final (sha256_update (sha256_init ctx) msg) = sha256_spec msg"
proof -
  let ?ini = "sha256_init ctx" and ?n = "length msg"
  let ?c = "sha256_update ?ini msg" and ?pad = "sha256_padding ?n"
  have h0: "holds ?ini []" by (rule holds_init [OF assms])
  then have inv0: "sha_inv ?ini" by (simp add: holds_def)
  have c: "?c = (fold absorb msg ?ini)\<lparr>sha_total_len := of_nat ?n\<rparr>"
    using sha256_update_fold [OF inv0] by (simp add: sha256_init_def)
  have h: "holds ?c msg" using holds_fold [OF h0, of msg] by (simp add: c holds_total)
  have "sha256_final ?c = digest_bytes (sha_state (fold absorb ?pad ?c))"
    using sha256_final_absorbs [of ?c ?n] h c by (simp add: holds_def Let_def)
  moreover have "holds (fold absorb ?pad ?c) (msg @ ?pad)" by (rule holds_fold [OF h])
  moreover have "64 * (length (msg @ ?pad) div 64) = length (msg @ ?pad)"
    using length_padding [of ?n] by (metis add_0_right length_append mult_div_mod_eq)
  ultimately show ?thesis by (simp add: sha256_spec_def holds_def Let_def del: length_append take_append drop_append)
qed



section \<open>The streaming contract\<close>

text \<open>
  What a client of a streaming hash relies on: contexts that a fresh \<open>init\<close> made stay valid,
  updates compose, and the digest depends on the whole message only.
\<close>

locale stream_hash =
  fixes init :: "'c"
    and upd :: "'c \<Rightarrow> bytes \<Rightarrow> 'c"
    and fin :: "'c \<Rightarrow> bytes"
    and valid :: "'c \<Rightarrow> bool"
    and digest :: "bytes \<Rightarrow> bytes"
  assumes valid_init: "valid init"
    and valid_upd: "valid c \<Longrightarrow> valid (upd c xs)"
    and upd_upd: "valid c \<Longrightarrow> upd (upd c xs) ys = upd c (xs @ ys)"
    and upd_Nil: "valid c \<Longrightarrow> upd c [] = c"
    and fin_digest: "fin (upd init msg) = digest msg"
begin

lemma fold_upd: "valid c \<Longrightarrow> fold (\<lambda>xs c. upd c xs) xss c = upd c (concat xss)"
  by (induction xss arbitrary: c) (auto simp: upd_Nil upd_upd valid_upd)

lemma digest_fields: "fin (fold (\<lambda>xs c. upd c xs) xss init) = digest (concat xss)"
  by (simp add: fold_upd valid_init fin_digest)

end

text \<open>A zeroed context, as a C automatic variable may be after \<open>sha256_init\<close>.\<close>

definition sha256_start :: "bytes \<Rightarrow> sha256_ctx" where
  "sha256_start stale = sha256_init \<lparr>sha_state = sha256_H0, sha_total_len = 0,
     sha_buffer = take 64 (stale @ replicate 64 0), sha_buffer_len = 0\<rparr>"

interpretation sha: stream_hash "sha256_start stale" sha256_update sha256_final sha_inv sha256_spec
  for stale
proof unfold_locales
  have len: "length (sha_buffer (sha256_start stale)) = 64"
    by (simp add: sha256_start_def sha256_init_def)
  show "sha_inv (sha256_start stale)"
    by (simp add: sha_inv_def len) (simp add: sha256_start_def sha256_init_def)
  show "sha256_final (sha256_update (sha256_start stale) msg) = sha256_spec msg" for msg
    unfolding sha256_start_def by (intro sha256_digest_init) simp
qed (auto simp: sha256_update_inv sha256_update_append sha256_update_Nil)

end
