(* ===== verification/Event_Id.thy ===== *)
theory Event_Id
  imports Sha256
begin

text \<open>
  Deterministic event identity, \<^verbatim>\<open>libs/cloudflow-core/cf_event_id.c\<close>: a hex-encoded,
  truncated SHA-256 over the length-prefixed fields (source host, capture interface,
  observation time, frame). C strings are byte lists without NUL; a NULL string is \<open>None\<close>.
\<close>

section \<open>Definitions\<close>

definition len_bytes :: "nat \<Rightarrow> bytes" where
  "len_bytes n = map (\<lambda>j. ucast (drop_bit j (of_nat n :: u64))) [24, 16, 8, 0]"

definition cf_event_id_hash_field :: "sha256_ctx \<Rightarrow> bytes \<Rightarrow> sha256_ctx" where
  "cf_event_id_hash_field ctx data =
    (let ctx = sha256_update ctx (len_bytes (length data))
     in if 0 < length data then sha256_update ctx data else ctx)"

definition time_bytes :: "u64 \<Rightarrow> bytes" where
  "time_bytes t = map (\<lambda>i. ucast (drop_bit (8 * (7 - i)) t)) [0..<8]"

text \<open>\<open>stale\<close> is what the stack left in the context's buffer. The result is the 33-byte
  output array, the terminating NUL included.\<close>

definition cf_event_id ::
  "bytes \<Rightarrow> bytes option \<Rightarrow> bytes option \<Rightarrow> u64 \<Rightarrow> bytes \<Rightarrow> string" where
  "cf_event_id stale source_host capture_interface observed_time frame =
    (let source_host = (case source_host of None \<Rightarrow> [] | Some s \<Rightarrow> s);
         capture_interface = (case capture_interface of None \<Rightarrow> [] | Some s \<Rightarrow> s);
         ctx = sha256_start stale;
         ctx = cf_event_id_hash_field ctx source_host;
         ctx = cf_event_id_hash_field ctx capture_interface;
         ctx = cf_event_id_hash_field ctx (time_bytes observed_time);
         ctx = cf_event_id_hash_field ctx frame;
         digest = sha256_final ctx
     in concat (map (\<lambda>i. hex_byte (digest ! i)) [0..<16]) @ [CHR 0x00])"

section \<open>The hashed preimage\<close>

definition field_enc :: "bytes \<Rightarrow> bytes" where
  "field_enc data = len_bytes (length data) @ data"

definition event_id_preimage :: "bytes \<Rightarrow> bytes \<Rightarrow> u64 \<Rightarrow> bytes \<Rightarrow> bytes" where
  "event_id_preimage host iface t frame =
    field_enc host @ field_enc iface @ field_enc (time_bytes t) @ field_enc frame"

lemma length_len_bytes [simp]: "length (len_bytes n) = 4"
  by (simp add: len_bytes_def)

lemma length_time_bytes [simp]: "length (time_bytes t) = 8"
  by (simp add: time_bytes_def)

lemma hash_field_update:
  "sha_inv ctx \<Longrightarrow> cf_event_id_hash_field ctx data = sha256_update ctx (field_enc data)"
  by (auto simp: cf_event_id_hash_field_def field_enc_def sha256_update_append Let_def)

lemma event_id_digest:
  "cf_event_id stale host iface t frame =
     concat (map (\<lambda>i. hex_byte (sha256_spec (event_id_preimage
       (case host of None \<Rightarrow> [] | Some s \<Rightarrow> s) (case iface of None \<Rightarrow> [] | Some s \<Rightarrow> s) t frame) ! i))
       [0..<16]) @ [CHR 0x00]"
proof -
  have "sha_inv (sha256_start stale)" by (rule sha.valid_init)
  then show ?thesis
    by (simp add: cf_event_id_def hash_field_update sha256_update_inv sha256_update_append
        sha.fin_digest event_id_preimage_def Let_def)
qed

lemma len_bytes_value:
  assumes "n < 2 ^ 32"
  shows "foldl (\<lambda>acc b. acc * 256 + unat b) 0 (len_bytes n) = n"
proof -
  have u: "unat (of_nat n :: u64) = n"
    using assms by (simp add: unat_of_nat take_bit_nat_eq_self)
  have b: "unat (ucast (drop_bit k (of_nat n :: u64)) :: byte) = n div 2 ^ k mod 256" for k
    by (simp add: unsigned_ucast_eq unat_drop_bit_eq u take_bit_eq_mod) (simp add: drop_bit_eq_div)
  show ?thesis
    using be32_fold [OF assms] assms unfolding len_bytes_def list.map foldl.simps b by simp
qed

lemma len_bytes_inj: "m < 2 ^ 32 \<Longrightarrow> n < 2 ^ 32 \<Longrightarrow> len_bytes m = len_bytes n \<Longrightarrow> m = n"
  by (metis len_bytes_value)

lemma field_enc_inj:
  assumes "length x < 2 ^ 32" "length y < 2 ^ 32" "field_enc x @ r = field_enc y @ s"
  shows "x = y \<and> r = s"
proof -
  have l: "length (len_bytes (length x)) = length (len_bytes (length y))" by simp
  have "len_bytes (length x) @ (x @ r) = len_bytes (length y) @ (y @ s)"
    using assms(3) by (simp only: field_enc_def append_assoc)
  then have e: "len_bytes (length x) = len_bytes (length y)" and r: "x @ r = y @ s"
    by (simp_all only: append_eq_append_conv [OF disjI1, OF l])
  from len_bytes_inj [OF assms(1,2) e] have "length x = length y" .
  with r show ?thesis by simp
qed

lemma time_bytes_bit:
  assumes "n < 64" shows "bit (time_bytes t ! (7 - n div 8)) (n mod 8) = bit t n"
proof -
  have "[0..<8] ! (7 - n div 8) = 7 - n div 8" using assms by (subst nth_upt) auto
  then have "time_bytes t ! (7 - n div 8) = ucast (drop_bit (8 * (n div 8)) t)"
    using assms by (simp add: time_bytes_def)
  moreover have "8 * (n div 8) + n mod 8 = n" by simp
  ultimately show ?thesis by (simp add: bit_ucast_iff bit_drop_bit_eq)
qed

lemma time_bytes_inj:
  assumes "time_bytes s = time_bytes t" shows "s = t"
proof (rule bit_word_eqI)
  fix n assume "n < LENGTH(64)"
  then have "n < 64" by simp
  from time_bytes_bit [OF this, of s] time_bytes_bit [OF this, of t] assms
  show "bit s n = bit t n" by simp
qed

section \<open>Properties\<close>

text \<open>The event id is the hex encoding of the first 16 bytes of the SHA-256 digest of
  the concatenated length-prefixed fields, whatever the stack left in the hash context; a
  NULL host or interface counts as the empty string.\<close>

theorem event_id_is_truncated_sha256:
  "cf_event_id stale host iface t frame =
     concat (map (\<lambda>i. hex_byte (sha256_spec (event_id_preimage
       (case host of None \<Rightarrow> [] | Some s \<Rightarrow> s) (case iface of None \<Rightarrow> [] | Some s \<Rightarrow> s) t frame) ! i))
       [0..<16]) @ [CHR 0x00]"
  by (rule event_id_digest)

text \<open>The event id fills the 33-byte output exactly: 32 lower-case hex digits and the
  terminating NUL.\<close>

theorem event_id_shape:
  "length (cf_event_id stale host iface t frame) = 33 \<and>
   set (butlast (cf_event_id stale host iface t frame)) \<subseteq> set ''0123456789abcdef'' \<and>
   last (cf_event_id stale host iface t frame) = CHR 0x00"
proof -
  have "length (concat (map (\<lambda>i. hex_byte (d ! i)) [0..<16])) = 32" for d
    by (simp add: length_concat comp_def hex_byte_digits(1) upt_rec)
  moreover have "set (concat (map (\<lambda>i. hex_byte (d ! i)) [0..<16])) \<subseteq> set hex_digits" for d
    using hex_byte_digits(2) by auto
  ultimately show ?thesis
    unfolding event_id_digest hex_digits_def [symmetric] by simp
qed

text \<open>The hashed preimage determines its fields: two captures whose preimages agree have
  the same host, interface, time and frame (for fields shorter than \<open>2 ^ 32\<close> bytes, the
  range of the length prefix). Field boundaries cannot be shifted.\<close>

theorem event_id_preimage_injective:
  assumes "length host < 2 ^ 32" "length host' < 2 ^ 32"
    "length iface < 2 ^ 32" "length iface' < 2 ^ 32"
    "length frame < 2 ^ 32" "length frame' < 2 ^ 32"
    and eq: "event_id_preimage host iface t frame = event_id_preimage host' iface' t' frame'"
  shows "host = host' \<and> iface = iface' \<and> t = t' \<and> frame = frame'"
proof -
  from eq have h: "field_enc host @ (field_enc iface @ field_enc (time_bytes t) @ field_enc frame) =
    field_enc host' @ (field_enc iface' @ field_enc (time_bytes t') @ field_enc frame')"
    by (simp add: event_id_preimage_def)
  note 1 = field_enc_inj [OF assms(1,2) h]
  note 2 = field_enc_inj [OF assms(3,4) conjunct2 [OF 1]]
  have "length (time_bytes t) < 2 ^ 32" "length (time_bytes t') < 2 ^ 32" by simp_all
  note 3 = field_enc_inj [OF this conjunct2 [OF 2]]
  have "field_enc frame @ [] = field_enc frame' @ []" using 3 by simp
  note 4 = field_enc_inj [OF assms(5,6) this]
  from 1 2 3 4 time_bytes_inj show ?thesis by blast
qed

theorem event_id_preimage_injective_witness:
  "event_id_preimage [97] [98] 5 [1, 2] = event_id_preimage [97] [98] 5 [1, 2] \<and>
   ([97::byte] = [97] \<and> [98::byte] = [98] \<and> (5::u64) = 5 \<and> [1, 2::byte] = [1, 2])"
  using event_id_preimage_injective [of "[97]" "[97]" "[98]" "[98]" "[1, 2]" "[1, 2]" 5 5] by simp

end
