(* ===== verification/Parse_Util.thy ===== *)
theory Parse_Util
  imports Prelude
begin

text \<open>
  Protocol-neutral parser helpers, \<^verbatim>\<open>libs/cloudflow-packet/cf_parse_util.c\<close>, and the address
  formatting of \<^verbatim>\<open>libs/cloudflow-packet/cf_ipfmt.c\<close>.

  A \<open>const uint8_t *\<close> argument with its length is a buffer and an offset into it (\<open>None\<close> is
  NULL), so that every read is checked against the buffer: the outer \<open>option\<close> of a result
  is \<open>None\<close> exactly when the code would read out of bounds. A \<open>char *\<close> result is the
  \<^typ>\<open>string\<close> before the terminating NUL; the sentinel \<open>protobuf_c_empty_string\<close> is \<open>[]\<close>.
  Allocations succeed.
\<close>

type_synonym cptr = "(bytes \<times> nat) option"

section \<open>Byte readers\<close>

definition be16 :: "byte \<Rightarrow> byte \<Rightarrow> u16" where
  "be16 a b = push_bit 8 (ucast a) OR ucast b"

definition be32 :: "byte \<Rightarrow> byte \<Rightarrow> byte \<Rightarrow> byte \<Rightarrow> u32" where
  "be32 a b c d = push_bit 24 (ucast a) OR push_bit 16 (ucast b) OR push_bit 8 (ucast c) OR ucast d"

text \<open>The inner \<open>option\<close> is the C return value with the output parameter: \<open>None\<close> is 0 (the
  field runs past the end), \<open>Some v\<close> is 1 with \<open>*out = v\<close>.\<close>

definition cf_get_u8 :: "bytes \<Rightarrow> nat \<Rightarrow> byte option option" where
  "cf_get_u8 d off =
    (if off + 1 > length d then Some None else do { v \<leftarrow> rd d off; Some (Some v) })"

definition cf_get_be16 :: "bytes \<Rightarrow> nat \<Rightarrow> u16 option option" where
  "cf_get_be16 d off =
    (if off + 2 > length d then Some None
     else do { a \<leftarrow> rd d off; b \<leftarrow> rd d (off + 1); Some (Some (be16 a b)) })"

definition cf_get_be32 :: "bytes \<Rightarrow> nat \<Rightarrow> u32 option option" where
  "cf_get_be32 d off =
    (if off + 4 > length d then Some None
     else do { a \<leftarrow> rd d off; b \<leftarrow> rd d (off + 1); c \<leftarrow> rd d (off + 2); e \<leftarrow> rd d (off + 3);
               Some (Some (be32 a b c e)) })"

section \<open>Strings and bytes\<close>

definition chr_of_byte :: "byte \<Rightarrow> char" where
  "chr_of_byte b = char_of (unat b)"

text \<open>What a \<open>char\<close> array holds as a C string: the characters before the first NUL.\<close>

definition cstr :: "string \<Rightarrow> string" where
  "cstr s = takeWhile (\<lambda>c. c \<noteq> CHR 0x00) s"

definition cf_dup_str :: "string \<Rightarrow> string" where
  "cf_dup_str s = (if cstr s = [] then [] else cstr s)"

definition cf_dup_strn :: "cptr \<Rightarrow> nat \<Rightarrow> string option" where
  "cf_dup_strn p len =
    (case p of None \<Rightarrow> Some []
     | Some (buf, off) \<Rightarrow>
         if len = 0 then Some [] else do { bs \<leftarrow> rd_bytes buf off len; Some (map chr_of_byte bs) })"

fun printable_loop :: "bytes \<Rightarrow> nat \<Rightarrow> nat \<Rightarrow> bool option" where
  "printable_loop buf off 0 = Some True"
| "printable_loop buf off (Suc n) =
    do { b \<leftarrow> rd buf off;
         if b < 0x20 \<or> b > 0x7e then Some False else printable_loop buf (off + 1) n }"

definition cf_is_printable :: "bytes \<Rightarrow> nat \<Rightarrow> nat \<Rightarrow> bool option" where
  "cf_is_printable buf off len = (if len = 0 then Some False else printable_loop buf off len)"

definition cf_hex_encode :: "cptr \<Rightarrow> nat \<Rightarrow> string option" where
  "cf_hex_encode p len =
    (case p of None \<Rightarrow> Some []
     | Some (buf, off) \<Rightarrow>
         if len = 0 then Some []
         else do { bs \<leftarrow> rd_bytes buf off len; Some (concat (map hex_byte bs)) })"

definition cf_set_bytes :: "cptr \<Rightarrow> nat \<Rightarrow> bytes option" where
  "cf_set_bytes p len =
    (case p of None \<Rightarrow> Some []
     | Some (buf, off) \<Rightarrow> if len = 0 then Some [] else rd_bytes buf off len)"

text \<open>The \<open>%u\<close> and \<open>%zu\<close> conversions.\<close>

definition digit :: "nat \<Rightarrow> char" where
  "digit d = char_of (48 + d)"

fun dec_string :: "nat \<Rightarrow> string" where
  "dec_string n = (if n < 10 then [digit n] else dec_string (n div 10) @ [digit (n mod 10)])"

declare dec_string.simps [simp del]

text \<open>\<open>snprintf\<close> into an array of \<open>n\<close> characters keeps \<open>n - 1\<close> of them.\<close>

definition snprintf :: "nat \<Rightarrow> string \<Rightarrow> string" where
  "snprintf n s = take (n - 1) s"

section \<open>Address formatting\<close>

definition cf_format_mac :: "bytes \<Rightarrow> string" where
  "cf_format_mac mac =
    snprintf 18 (hex_byte (mac ! 0) @ '':'' @ hex_byte (mac ! 1) @ '':'' @ hex_byte (mac ! 2) @
      '':'' @ hex_byte (mac ! 3) @ '':'' @ hex_byte (mac ! 4) @ '':'' @ hex_byte (mac ! 5))"

text \<open>The C library's \<open>inet_ntop\<close>: dotted decimal for IPv4; for IPv6 the groups in hex
  without leading zeros, the first longest run of at least two zero groups as \<open>::\<close>, and the
  mixed notation for the IPv4-compatible and IPv4-mapped prefixes.\<close>

definition inet_ntop4 :: "bytes \<Rightarrow> string" where
  "inet_ntop4 ip = dec_string (unat (ip ! 0)) @ ''.'' @ dec_string (unat (ip ! 1)) @ ''.'' @
    dec_string (unat (ip ! 2)) @ ''.'' @ dec_string (unat (ip ! 3))"

definition hex_group :: "u16 \<Rightarrow> string" where
  "hex_group w = map (\<lambda>d. hex_digits ! d)
    (let n = unat w in
     if n < 16 then [n] else if n < 256 then [n div 16, n mod 16]
     else if n < 4096 then [n div 256, n div 16 mod 16, n mod 16]
     else [n div 4096, n div 256 mod 16, n div 16 mod 16, n mod 16])"

definition better_run :: "(nat \<times> nat) option \<Rightarrow> (nat \<times> nat) option \<Rightarrow> (nat \<times> nat) option" where
  "better_run best cur =
    (case cur of None \<Rightarrow> best
     | Some (b, l) \<Rightarrow> (case best of None \<Rightarrow> cur | Some (b', l') \<Rightarrow> if l > l' then cur else best))"

fun zero_run :: "u16 list \<Rightarrow> nat \<Rightarrow> (nat \<times> nat) option \<Rightarrow> (nat \<times> nat) option \<Rightarrow> (nat \<times> nat) option" where
  "zero_run [] i best cur = better_run best cur"
| "zero_run (w # ws) i best cur =
    (if w = 0 then zero_run ws (i + 1) best (case cur of None \<Rightarrow> Some (i, 1) | Some (b, l) \<Rightarrow> Some (b, l + 1))
     else zero_run ws (i + 1) (better_run best cur) None)"

fun ntop6_groups :: "bytes \<Rightarrow> u16 list \<Rightarrow> nat \<Rightarrow> nat \<times> nat \<Rightarrow> u16 list \<Rightarrow> string" where
  "ntop6_groups ip words i (b, l) [] = []"
| "ntop6_groups ip words i (b, l) (w # ws) =
    (if b \<le> i \<and> i < b + l
     then (if i = b then '':'' else []) @ ntop6_groups ip words (i + 1) (b, l) ws
     else (if i \<noteq> 0 then '':'' else []) @
       (if i = 6 \<and> b = 0 \<and> (l = 6 \<or> l = 5 \<and> words ! 5 = 0xffff) then inet_ntop4 (drop 12 ip)
        else hex_group w @ ntop6_groups ip words (i + 1) (b, l) ws))"

definition inet_ntop6 :: "bytes \<Rightarrow> string" where
  "inet_ntop6 ip =
    (let words = map (\<lambda>i. be16 (ip ! (2 * i)) (ip ! (2 * i + 1))) [0..<8];
         best = (case zero_run words 0 None None of
                   None \<Rightarrow> (8, 0) | Some (b, l) \<Rightarrow> if l < 2 then (8, 0) else (b, l))
     in ntop6_groups ip words 0 best words @
        (if snd best \<noteq> 0 \<and> fst best + snd best = 8 then '':'' else []))"

definition cf_format_ip :: "byte \<Rightarrow> bytes \<Rightarrow> string" where
  "cf_format_ip ipver ip =
    (if ipver = 4 then inet_ntop4 ip else if ipver = 6 then inet_ntop6 ip else [])"

section \<open>Warnings\<close>

record parser_warning =
  pw_code :: string
  pw_message :: string
  pw_field_path :: string
  pw_raw_context :: bytes

record cf_warn_list =
  wl_items :: "parser_warning list"
  wl_cap :: nat

definition cf_warn_list_init :: cf_warn_list where
  "cf_warn_list_init = \<lparr>wl_items = [], wl_cap = 0\<rparr>"

definition warn_list_grow :: "cf_warn_list \<Rightarrow> cf_warn_list" where
  "warn_list_grow l =
    (if length (wl_items l) < wl_cap l then l
     else l\<lparr>wl_cap := if wl_cap l = 0 then 4 else wl_cap l * 2\<rparr>)"

definition cf_warn ::
  "cf_warn_list \<Rightarrow> string \<Rightarrow> string \<Rightarrow> string \<Rightarrow> cptr \<Rightarrow> nat \<Rightarrow> cf_warn_list option" where
  "cf_warn l code message field_path ctx ctx_len =
    (let l = warn_list_grow l;
         ctx_len = (if ctx_len > 16 then 16 else ctx_len)
     in do { raw \<leftarrow> cf_set_bytes ctx ctx_len;
             Some (l\<lparr>wl_items := wl_items l @
               [\<lparr>pw_code = cf_dup_str code, pw_message = cf_dup_str message,
                 pw_field_path = cf_dup_str field_path, pw_raw_context = raw\<rparr>]\<rparr>) })"

definition cf_warn_list_take :: "cf_warn_list \<Rightarrow> parser_warning list \<times> cf_warn_list" where
  "cf_warn_list_take l = (wl_items l, \<lparr>wl_items = [], wl_cap = 0\<rparr>)"

section \<open>Lemmas\<close>

lemma cf_get_u8_eq [buf_simps]:
  "cf_get_u8 d off = Some (if off < length d then Some (d ! off) else None)"
  by (simp add: cf_get_u8_def)

lemma cf_get_be16_eq [buf_simps]:
  "cf_get_be16 d off =
    Some (if off + 2 \<le> length d then Some (be16 (d ! off) (d ! (off + 1))) else None)"
  by (simp add: cf_get_be16_def)

lemma cf_get_be32_eq [buf_simps]:
  "cf_get_be32 d off =
    Some (if off + 4 \<le> length d
          then Some (be32 (d ! off) (d ! (off + 1)) (d ! (off + 2)) (d ! (off + 3))) else None)"
  by (simp add: cf_get_be32_def)

lemma bit_ucast_byte [simp]: "bit (ucast (b::byte) :: 'a::len word) n \<longleftrightarrow> n < 8 \<and> bit b n \<and> n < LENGTH('a)"
  by (auto simp: bit_ucast_iff dest: bit_imp_le_length)

lemma bit_be16: "bit (be16 a b) n \<longleftrightarrow> (if n < 8 then bit b n else n < 16 \<and> bit a (n - 8))"
  by (auto simp: be16_def bit_simps dest: bit_imp_le_length)

lemma be16_inj: "be16 a b = be16 c d \<longleftrightarrow> a = c \<and> b = d"
proof
  assume eq: "be16 a b = be16 c d"
  have "a = c"
  proof (rule bit_word_eqI)
    fix n assume "n < LENGTH(8)"
    with arg_cong [OF eq, of "\<lambda>w. bit w (n + 8)"] show "bit a n = bit c n" by (simp add: bit_be16)
  qed
  moreover have "b = d"
  proof (rule bit_word_eqI)
    fix n assume "n < LENGTH(8)"
    with arg_cong [OF eq, of "\<lambda>w. bit w n"] show "bit b n = bit d n" by (simp add: bit_be16)
  qed
  ultimately show "a = c \<and> b = d" ..
qed simp

text \<open>The two octets of a 16-bit number on the wire.\<close>

definition wire16 :: "u16 \<Rightarrow> bytes" where
  "wire16 w = [ucast (drop_bit 8 w), ucast w]"

lemma be16_wire [simp]: "be16 (ucast (drop_bit 8 w)) (ucast w) = w"
  by (rule bit_word_eqI) (auto simp: bit_be16 bit_ucast_iff bit_drop_bit_eq)

lemma unat_be16: "unat (be16 a b) = unat a * 256 + unat b"
proof -
  have "be16 a b = push_bit 8 (ucast a) + ucast b"
    unfolding be16_def by (rule disjunctive_add [symmetric]) (auto simp: bit_simps)
  moreover have "unat a < 256" "unat b < 256"
    using unsigned_less [of a, where 'a = nat] unsigned_less [of b, where 'a = nat] by simp_all
  ultimately show ?thesis
    by (simp add: push_bit_eq_mult unat_add_lem [THEN iffD1] unat_word_ariths unsigned_ucast_eq
        take_bit_nat_eq_self)
qed

end
