(* ===== verification/Decap.thy ===== *)
theory Decap
  imports Parse_Util
begin

text \<open>
  Ethernet, VLAN, IPv4/IPv6 and UDP/TCP decapsulation, \<^verbatim>\<open>libs/cloudflow-packet/cf_decap.c\<close>.

  A frame is a byte list whose length is \<open>frame_len\<close>. Every access to the frame goes
  through \<open>rd\<close>, so a result \<open>None\<close> stands for a read outside the frame. Offsets are natural
  numbers: they are sums of at most a few 16-bit quantities. The payload view is an offset into the frame
  (\<open>None\<close> is the NULL left by \<open>memset\<close>).
\<close>

section \<open>Data\<close>

datatype cf_decap_result =
  CF_DECAP_OK | CF_DECAP_NOT_UDP | CF_DECAP_TRUNCATED | CF_DECAP_UNSUPPORTED | CF_DECAP_NOT_TCP

text \<open>The link and network block that the three C structures share.\<close>

record decap_l3 =
  src_mac :: bytes
  dst_mac :: bytes
  vlan_ids :: "u32 list"
  vlan_count :: nat
  ethertype :: u16
  ip_version :: byte
  src_ip :: bytes
  dst_ip :: bytes
  next_header :: byte
  ttl_or_hop_limit :: byte
  dscp :: byte
  ecn :: byte
  fragmented :: bool
  fragment_offset :: u16

record cf_decap_walk = decap_l3 +
  l4_offset :: nat
  ip_payload_end :: nat
  l4_present :: bool

record cf_decap_udp_t = decap_l3 +
  u_src_port :: u16
  u_dst_port :: u16
  udp_length :: u16
  udp_checksum_present :: bool
  u_payload :: "nat option"
  u_payload_len :: nat

record cf_decap_tcp_t = decap_l3 +
  t_src_port :: u16
  t_dst_port :: u16
  t_seq :: u32
  tcp_flags :: byte
  t_payload :: "nat option"
  t_payload_len :: nat

abbreviation ETHERTYPE_VLAN :: u16 where "ETHERTYPE_VLAN \<equiv> 0x8100"
abbreviation ETHERTYPE_QINQ :: u16 where "ETHERTYPE_QINQ \<equiv> 0x88A8"
abbreviation ETHERTYPE_IPV4 :: u16 where "ETHERTYPE_IPV4 \<equiv> 0x0800"
abbreviation ETHERTYPE_IPV6 :: u16 where "ETHERTYPE_IPV6 \<equiv> 0x86DD"
abbreviation IP_PROTO_TCP :: byte where "IP_PROTO_TCP \<equiv> 6"
abbreviation IP_PROTO_UDP :: byte where "IP_PROTO_UDP \<equiv> 17"
abbreviation IPV6_PROTO_HOPOPTS :: byte where "IPV6_PROTO_HOPOPTS \<equiv> 0"
abbreviation IPV6_PROTO_ROUTING :: byte where "IPV6_PROTO_ROUTING \<equiv> 43"
abbreviation IPV6_PROTO_FRAGMENT :: byte where "IPV6_PROTO_FRAGMENT \<equiv> 44"
abbreviation IPV6_PROTO_DSTOPTS :: byte where "IPV6_PROTO_DSTOPTS \<equiv> 60"

definition walk_zero :: cf_decap_walk where
  "walk_zero = \<lparr>src_mac = replicate 6 0, dst_mac = replicate 6 0, vlan_ids = [0, 0],
    vlan_count = 0, ethertype = 0, ip_version = 0, src_ip = replicate 16 0,
    dst_ip = replicate 16 0, next_header = 0, ttl_or_hop_limit = 0, dscp = 0, ecn = 0,
    fragmented = False, fragment_offset = 0, l4_offset = 0, ip_payload_end = 0,
    l4_present = False\<rparr>"

definition udp_zero :: cf_decap_udp_t where
  "udp_zero = \<lparr>src_mac = replicate 6 0, dst_mac = replicate 6 0, vlan_ids = [0, 0],
    vlan_count = 0, ethertype = 0, ip_version = 0, src_ip = replicate 16 0,
    dst_ip = replicate 16 0, next_header = 0, ttl_or_hop_limit = 0, dscp = 0, ecn = 0,
    fragmented = False, fragment_offset = 0, u_src_port = 0, u_dst_port = 0, udp_length = 0,
    udp_checksum_present = False, u_payload = None, u_payload_len = 0\<rparr>"

definition tcp_zero :: cf_decap_tcp_t where
  "tcp_zero = \<lparr>src_mac = replicate 6 0, dst_mac = replicate 6 0, vlan_ids = [0, 0],
    vlan_count = 0, ethertype = 0, ip_version = 0, src_ip = replicate 16 0,
    dst_ip = replicate 16 0, next_header = 0, ttl_or_hop_limit = 0, dscp = 0, ecn = 0,
    fragmented = False, fragment_offset = 0, t_src_port = 0, t_dst_port = 0, t_seq = 0,
    tcp_flags = 0, t_payload = None, t_payload_len = 0\<rparr>"

section \<open>Reads\<close>

definition remain :: "nat \<Rightarrow> nat \<Rightarrow> nat" where
  "remain len off = (if off > len then 0 else len - off)"

text \<open>\<open>memcpy\<close> into a local of a little-endian host, then the explicit byte swap.\<close>

definition read_u16 :: "bytes \<Rightarrow> nat \<Rightarrow> u16 option" where
  "read_u16 d p = do {
     b0 \<leftarrow> rd d p; b1 \<leftarrow> rd d (p + 1);
     let v = (ucast b0 OR push_bit 8 (ucast b1) :: u16)
     in Some (push_bit 8 v OR drop_bit 8 v) }"

definition read_u32 :: "bytes \<Rightarrow> nat \<Rightarrow> u32 option" where
  "read_u32 d p = do {
     b0 \<leftarrow> rd d p; b1 \<leftarrow> rd d (p + 1); b2 \<leftarrow> rd d (p + 2); b3 \<leftarrow> rd d (p + 3);
     let v = (ucast b0 OR push_bit 8 (ucast b1) OR push_bit 16 (ucast b2) OR push_bit 24 (ucast b3) :: u32)
     in Some (push_bit 24 (v AND 0x000000FF) OR push_bit 8 (v AND 0x0000FF00) OR
              drop_bit 8 (v AND 0x00FF0000) OR drop_bit 24 (v AND 0xFF000000)) }"

section \<open>Transport headers\<close>

definition parse_udp ::
  "bytes \<Rightarrow> nat \<Rightarrow> cf_decap_udp_t \<Rightarrow> (cf_decap_result \<times> cf_decap_udp_t) option" where
  "parse_udp frame offset out =
    (if remain (length frame) offset < 8 then Some (CF_DECAP_TRUNCATED, out) else do {
       sp \<leftarrow> read_u16 frame offset;
       dp \<leftarrow> read_u16 frame (offset + 2);
       udp_len \<leftarrow> read_u16 frame (offset + 4);
       checksum \<leftarrow> read_u16 frame (offset + 6);
       let out = out\<lparr>u_src_port := sp, u_dst_port := dp\<rparr>
       in if udp_len < 8 then Some (CF_DECAP_TRUNCATED, out)
       else if remain (length frame) (offset + 8) < unat udp_len - 8
       then Some (CF_DECAP_TRUNCATED, out)
       else Some (CF_DECAP_OK,
         out\<lparr>udp_length := udp_len, udp_checksum_present := checksum \<noteq> 0,
             u_payload := Some (offset + 8), u_payload_len := unat udp_len - 8\<rparr>) })"

definition parse_tcp ::
  "bytes \<Rightarrow> nat \<Rightarrow> nat \<Rightarrow> cf_decap_tcp_t \<Rightarrow> (cf_decap_result \<times> cf_decap_tcp_t) option" where
  "parse_tcp frame offset ip_end out =
    (if remain (length frame) offset < 20 then Some (CF_DECAP_TRUNCATED, out) else do {
       sp \<leftarrow> read_u16 frame offset;
       dp \<leftarrow> read_u16 frame (offset + 2);
       sq \<leftarrow> read_u32 frame (offset + 4);
       data_offset_byte \<leftarrow> rd frame (offset + 12);
       flags \<leftarrow> rd frame (offset + 13);
       let out = out\<lparr>t_src_port := sp, t_dst_port := dp, t_seq := sq\<rparr>;
           data_offset = unat (drop_bit 4 data_offset_byte) * 4
       in if data_offset < 20 then Some (CF_DECAP_TRUNCATED, out)
       else if remain (length frame) offset < data_offset then Some (CF_DECAP_TRUNCATED, out)
       else
         let out = out\<lparr>tcp_flags := flags\<rparr>;
             payload_start = offset + data_offset;
             payload_end = ip_end;
             payload_end = (if payload_end < payload_start then payload_start else payload_end);
             payload_end = (if payload_end > length frame then length frame else payload_end)
         in Some (CF_DECAP_OK,
              out\<lparr>t_payload := Some payload_start, t_payload_len := payload_end - payload_start\<rparr>) })"

section \<open>Network headers\<close>

text \<open>The end of the IP payload, from the total length and clamped to the frame.\<close>

definition ipv4_payload_end :: "nat \<Rightarrow> nat \<Rightarrow> u16 \<Rightarrow> nat \<Rightarrow> nat" where
  "ipv4_payload_end frame_len offset total_len ihl =
    (let e = offset + unat total_len
     in if unat total_len < ihl \<or> e > frame_len then frame_len else e)"

definition walk_ipv4 ::
  "bytes \<Rightarrow> nat \<Rightarrow> cf_decap_walk \<Rightarrow> (cf_decap_result \<times> cf_decap_walk) option" where
  "walk_ipv4 frame offset w =
    (if remain (length frame) offset < 20 then Some (CF_DECAP_TRUNCATED, w) else do {
       version_ihl \<leftarrow> rd frame offset;
       if drop_bit 4 version_ihl \<noteq> 4 then Some (CF_DECAP_UNSUPPORTED, w)
       else let ihl = unat (version_ihl AND 0x0F) * 4
       in if ihl < 20 \<or> remain (length frame) offset < ihl then Some (CF_DECAP_TRUNCATED, w)
       else do {
         tos \<leftarrow> rd frame (offset + 1);
         total_len \<leftarrow> read_u16 frame (offset + 2);
         flags_frag \<leftarrow> read_u16 frame (offset + 6);
         ttl \<leftarrow> rd frame (offset + 8);
         protocol \<leftarrow> rd frame (offset + 9);
         src \<leftarrow> rd_bytes frame (offset + 12) 4;
         dst \<leftarrow> rd_bytes frame (offset + 16) 4;
         let e = ipv4_payload_end (length frame) offset total_len ihl;
             frag_offset13 = flags_frag AND 0x1FFF;
             more_fragments = (flags_frag AND 0x2000) \<noteq> 0;
             w = w\<lparr>ip_version := 4, src_ip := memcpy_at (src_ip w) 0 src,
                   dst_ip := memcpy_at (dst_ip w) 0 dst, next_header := protocol,
                   ttl_or_hop_limit := ttl, dscp := drop_bit 2 tos, ecn := tos AND 0x3,
                   ip_payload_end := e, fragment_offset := frag_offset13\<rparr>
         in if frag_offset13 \<noteq> 0
            then Some (CF_DECAP_OK, w\<lparr>fragmented := True, l4_present := False\<rparr>)
            else Some (CF_DECAP_OK, w\<lparr>fragmented := more_fragments, l4_offset := offset + ihl,
                                        l4_present := True\<rparr>) } })"

text \<open>The extension-header loop; the first argument is the number of iterations left.\<close>

fun ipv6_ext_loop ::
  "nat \<Rightarrow> bytes \<Rightarrow> byte \<Rightarrow> nat \<Rightarrow> cf_decap_walk \<Rightarrow> (cf_decap_result \<times> cf_decap_walk) option" where
  "ipv6_ext_loop 0 frame nh cur w = Some (CF_DECAP_UNSUPPORTED, w)"
| "ipv6_ext_loop (Suc n) frame nh cur w =
    (if nh = IPV6_PROTO_FRAGMENT then
       if remain (length frame) cur < 8 then Some (CF_DECAP_TRUNCATED, w) else do {
         frag_next_header \<leftarrow> rd frame cur;
         off_res_m \<leftarrow> read_u16 frame (cur + 2);
         let frag_offset13 = drop_bit 3 off_res_m;
             w = w\<lparr>next_header := frag_next_header, fragment_offset := frag_offset13\<rparr>
         in if frag_offset13 \<noteq> 0
            then Some (CF_DECAP_OK, w\<lparr>fragmented := True, l4_present := False\<rparr>)
            else ipv6_ext_loop n frame frag_next_header (cur + 8) (w\<lparr>fragmented := True\<rparr>) }
     else if nh = IPV6_PROTO_HOPOPTS \<or> nh = IPV6_PROTO_ROUTING \<or> nh = IPV6_PROTO_DSTOPTS then
       if remain (length frame) cur < 2 then Some (CF_DECAP_TRUNCATED, w) else do {
         ext_next_header \<leftarrow> rd frame cur;
         hdr_ext_len \<leftarrow> rd frame (cur + 1);
         let ext_total_len = (unat hdr_ext_len + 1) * 8
         in if remain (length frame) cur < ext_total_len then Some (CF_DECAP_TRUNCATED, w)
            else ipv6_ext_loop n frame ext_next_header (cur + ext_total_len)
                   (w\<lparr>next_header := ext_next_header\<rparr>) }
     else Some (CF_DECAP_OK, w\<lparr>next_header := nh, l4_offset := cur, l4_present := True\<rparr>))"

definition walk_ipv6 ::
  "bytes \<Rightarrow> nat \<Rightarrow> cf_decap_walk \<Rightarrow> (cf_decap_result \<times> cf_decap_walk) option" where
  "walk_ipv6 frame offset w =
    (if remain (length frame) offset < 40 then Some (CF_DECAP_TRUNCATED, w) else do {
       word0 \<leftarrow> read_u32 frame offset;
       let version = (ucast (drop_bit 28 word0) :: byte);
           traffic_class = (ucast (drop_bit 20 word0 AND 0xFF) :: byte)
       in if version \<noteq> 6 then Some (CF_DECAP_UNSUPPORTED, w) else do {
         payload_len \<leftarrow> read_u16 frame (offset + 4);
         nh \<leftarrow> rd frame (offset + 6);
         hop_limit \<leftarrow> rd frame (offset + 7);
         src \<leftarrow> rd_bytes frame (offset + 8) 16;
         dst \<leftarrow> rd_bytes frame (offset + 24) 16;
         let e = offset + 40 + unat payload_len;
             e = (if e > length frame then length frame else e);
             w = w\<lparr>ip_version := 6, src_ip := src, dst_ip := dst, ttl_or_hop_limit := hop_limit,
                   dscp := drop_bit 2 traffic_class, ecn := traffic_class AND 0x3,
                   next_header := nh, ip_payload_end := e\<rparr>
         in ipv6_ext_loop 8 frame nh (offset + 40) w } })"

section \<open>Link header and entry points\<close>

definition is_vlan :: "u16 \<Rightarrow> bool" where
  "is_vlan t \<longleftrightarrow> t = ETHERTYPE_VLAN \<or> t = ETHERTYPE_QINQ"

text \<open>The VLAN loop: \<open>Inl\<close> is the early return, \<open>Inr\<close> the inner ethertype, the offset
  behind the tags and the walk.\<close>

fun vlan_loop ::
  "nat \<Rightarrow> bytes \<Rightarrow> u16 \<Rightarrow> nat \<Rightarrow> cf_decap_walk \<Rightarrow>
   (cf_decap_result \<times> cf_decap_walk + u16 \<times> nat \<times> cf_decap_walk) option" where
  "vlan_loop 0 frame et offset w = Some (Inr (et, offset, w))"
| "vlan_loop (Suc n) frame et offset w =
    (if et \<noteq> ETHERTYPE_VLAN \<and> et \<noteq> ETHERTYPE_QINQ then Some (Inr (et, offset, w))
     else if remain (length frame) offset < 4 then Some (Inl (CF_DECAP_TRUNCATED, w))
     else do {
       tci \<leftarrow> read_u16 frame offset;
       inner \<leftarrow> read_u16 frame (offset + 2);
       vlan_loop n frame inner (offset + 4)
         (w\<lparr>vlan_ids := (vlan_ids w)[vlan_count w := ucast (tci AND 0x0FFF)],
            vlan_count := vlan_count w + 1\<rparr>) })"

definition decap_walk :: "bytes \<Rightarrow> (cf_decap_result \<times> cf_decap_walk) option" where
  "decap_walk frame =
    (let w = walk_zero
     in if remain (length frame) 0 < 14 then Some (CF_DECAP_TRUNCATED, w) else do {
       dst \<leftarrow> rd_bytes frame 0 6;
       src \<leftarrow> rd_bytes frame 6 6;
       et \<leftarrow> read_u16 frame 12;
       r \<leftarrow> vlan_loop 2 frame et 14 (w\<lparr>dst_mac := dst, src_mac := src\<rparr>);
       (case r of
          Inl rw \<Rightarrow> Some rw
        | Inr (et, offset, w) \<Rightarrow>
            if et = ETHERTYPE_VLAN \<or> et = ETHERTYPE_QINQ then Some (CF_DECAP_UNSUPPORTED, w)
            else let w = w\<lparr>ethertype := et\<rparr>
            in if et = ETHERTYPE_IPV4 then walk_ipv4 frame offset w
            else if et = ETHERTYPE_IPV6 then walk_ipv6 frame offset w
            else Some (CF_DECAP_UNSUPPORTED, w)) })"

definition copy_l3_udp :: "cf_decap_udp_t \<Rightarrow> cf_decap_walk \<Rightarrow> cf_decap_udp_t" where
  "copy_l3_udp out w = out\<lparr>src_mac := src_mac w, dst_mac := dst_mac w, vlan_ids := vlan_ids w,
     vlan_count := vlan_count w, ethertype := ethertype w, ip_version := ip_version w,
     src_ip := src_ip w, dst_ip := dst_ip w, next_header := next_header w,
     ttl_or_hop_limit := ttl_or_hop_limit w, dscp := dscp w, ecn := ecn w,
     fragmented := fragmented w, fragment_offset := fragment_offset w\<rparr>"

definition copy_l3_tcp :: "cf_decap_tcp_t \<Rightarrow> cf_decap_walk \<Rightarrow> cf_decap_tcp_t" where
  "copy_l3_tcp out w = out\<lparr>src_mac := src_mac w, dst_mac := dst_mac w, vlan_ids := vlan_ids w,
     vlan_count := vlan_count w, ethertype := ethertype w, ip_version := ip_version w,
     src_ip := src_ip w, dst_ip := dst_ip w, next_header := next_header w,
     ttl_or_hop_limit := ttl_or_hop_limit w, dscp := dscp w, ecn := ecn w,
     fragmented := fragmented w, fragment_offset := fragment_offset w\<rparr>"

definition cf_decap_udp :: "bytes \<Rightarrow> (cf_decap_result \<times> cf_decap_udp_t) option" where
  "cf_decap_udp frame = do {
     (rc, w) \<leftarrow> decap_walk frame;
     let out = copy_l3_udp udp_zero w
     in if rc \<noteq> CF_DECAP_OK then Some (rc, out)
     else if \<not> l4_present w \<or> next_header w \<noteq> IP_PROTO_UDP then Some (CF_DECAP_NOT_UDP, out)
     else parse_udp frame (l4_offset w) out }"

definition cf_decap_tcp :: "bytes \<Rightarrow> (cf_decap_result \<times> cf_decap_tcp_t) option" where
  "cf_decap_tcp frame = do {
     (rc, w) \<leftarrow> decap_walk frame;
     let out = copy_l3_tcp tcp_zero w
     in if rc \<noteq> CF_DECAP_OK then Some (rc, out)
     else if \<not> l4_present w \<or> next_header w \<noteq> IP_PROTO_TCP then Some (CF_DECAP_NOT_TCP, out)
     else parse_tcp frame (l4_offset w) (ip_payload_end w) out }"

section \<open>Memory safety\<close>

lemma swap16: "push_bit 8 (ucast a OR push_bit 8 (ucast b) :: u16) OR
    drop_bit 8 (ucast a OR push_bit 8 (ucast b)) = be16 a b"
  by (rule bit_word_eqI) (auto simp: bit_be16 bit_simps split: if_splits dest: bit_imp_le_length)

lemma read_u16_be [buf_simps]: "p + 2 \<le> length d \<Longrightarrow> read_u16 d p = Some (be16 (d ! p) (d ! (p + 1)))"
  unfolding read_u16_def Let_def swap16 by simp

lemma bit_be32:
  "bit (be32 a b c d) n \<longleftrightarrow>
    (if n < 8 then bit d n else if n < 16 then bit c (n - 8) else if n < 24 then bit b (n - 16)
     else n < 32 \<and> bit a (n - 24))"
  by (auto simp: be32_def bit_simps dest: bit_imp_le_length)

lemma byte_masks32:
  "(0x000000FF :: u32) = mask 8" "(0x0000FF00 :: u32) = push_bit 8 (mask 8)"
  "(0x00FF0000 :: u32) = push_bit 16 (mask 8)" "(0xFF000000 :: u32) = push_bit 24 (mask 8)"
  by (simp_all add: mask_eq_exp_minus_1 push_bit_eq_mult)

lemma swap32:
  assumes v: "v = (ucast a OR push_bit 8 (ucast b) OR push_bit 16 (ucast c) OR push_bit 24 (ucast d) :: u32)"
  shows "push_bit 24 (v AND mask 8) OR push_bit 8 (v AND push_bit 8 (mask 8)) OR
    drop_bit 8 (v AND push_bit 16 (mask 8)) OR drop_bit 24 (v AND push_bit 24 (mask 8)) = be32 a b c d"
  unfolding v
  by (rule bit_word_eqI) (auto simp: bit_be32 bit_simps split: if_splits dest: bit_imp_le_length)

lemma read_u32_be [buf_simps]:
  "p + 4 \<le> length d \<Longrightarrow>
    read_u32 d p = Some (be32 (d ! p) (d ! (p + 1)) (d ! (p + 2)) (d ! (p + 3)))"
  unfolding read_u32_def Let_def byte_masks32 swap32 [OF refl] by simp

lemma remain_less [buf_simps]: "0 < n \<Longrightarrow> remain len off < n \<longleftrightarrow> len < off + n"
  by (auto simp: remain_def)

lemma vlan_loop_safe: "vlan_loop n frame et offset w \<noteq> None"
  by (induction n arbitrary: et offset w) (auto simp: buf_simps)

lemma ipv6_ext_loop_safe: "ipv6_ext_loop n frame nh cur w \<noteq> None"
  by (induction n arbitrary: nh cur w) (auto simp: buf_simps Let_def)

lemma walk_ipv4_safe: "walk_ipv4 frame offset w \<noteq> None"
  by (auto simp: walk_ipv4_def buf_simps Let_def)

lemma walk_ipv6_safe: "walk_ipv6 frame offset w \<noteq> None"
  using ipv6_ext_loop_safe by (auto simp: walk_ipv6_def buf_simps Let_def)

lemma decap_walk_safe: "decap_walk frame \<noteq> None"
proof (cases "length frame < 14")
  case False
  obtain r where "vlan_loop 2 frame (be16 (frame ! 12) (frame ! 13)) 14
      (walk_zero\<lparr>dst_mac := take 6 frame, src_mac := take 6 (drop 6 frame)\<rparr>) = Some r"
    using vlan_loop_safe by blast
  with False show ?thesis
    using walk_ipv4_safe walk_ipv6_safe
    by (cases r) (auto simp: decap_walk_def buf_simps Let_def)
qed (simp add: decap_walk_def buf_simps)

lemma parse_udp_safe: "parse_udp frame offset out \<noteq> None"
  by (auto simp: parse_udp_def buf_simps Let_def)

lemma parse_tcp_safe: "parse_tcp frame offset e out \<noteq> None"
  by (auto simp: parse_tcp_def buf_simps Let_def)

lemma decap_safe: "cf_decap_udp frame \<noteq> None \<and> cf_decap_tcp frame \<noteq> None"
proof -
  obtain rc w where "decap_walk frame = Some (rc, w)" using decap_walk_safe by force
  then show ?thesis
    by (simp add: cf_decap_udp_def cf_decap_tcp_def Let_def parse_udp_safe parse_tcp_safe
        del: not_None_eq)
qed

text \<open>C20. Decapsulation never reads outside the frame: on every byte sequence, whatever the
  headers claim, both entry points run to one of their results.\<close>

theorem decap_memory_safe: "cf_decap_udp frame \<noteq> None \<and> cf_decap_tcp frame \<noteq> None"
  by (rule decap_safe)

section \<open>What an accepted frame guarantees\<close>

lemma ipv6_ext_loop_ok:
  assumes "ipv6_ext_loop n frame nh cur w = Some (CF_DECAP_OK, w')" "fragment_offset w = 0"
    "\<not> l4_present w"
  shows "ip_version w' = ip_version w \<and> ethertype w' = ethertype w \<and> vlan_count w' = vlan_count w \<and>
    (l4_present w' \<longrightarrow> fragment_offset w' = 0 \<and> cur \<le> l4_offset w')"
  using assms
proof (induction n arbitrary: nh cur w)
  case (Suc n)
  consider (frag) "nh = IPV6_PROTO_FRAGMENT"
    | (ext) "nh = IPV6_PROTO_HOPOPTS \<or> nh = IPV6_PROTO_ROUTING \<or> nh = IPV6_PROTO_DSTOPTS"
    | (l4) "nh \<noteq> IPV6_PROTO_FRAGMENT" "nh \<noteq> IPV6_PROTO_HOPOPTS" "nh \<noteq> IPV6_PROTO_ROUTING"
        "nh \<noteq> IPV6_PROTO_DSTOPTS" by blast
  then show ?case
  proof cases
    case frag
    with Suc.prems show ?thesis
      by (auto simp: bind_eq_Some_conv Let_def split: if_splits dest!: Suc.IH)
  next
    case ext
    with Suc.prems have "cur + 2 \<le> length frame"
      by (auto simp: buf_simps not_less [symmetric] split: if_splits)
    with ext Suc.prems have "\<exists>nh' k. ipv6_ext_loop n frame nh' (cur + k) (w\<lparr>next_header := nh'\<rparr>) = Some (CF_DECAP_OK, w')"
      by (auto simp: buf_simps Let_def split: if_splits)
    then show ?thesis using Suc.prems by (auto dest!: Suc.IH)
  next
    case l4
    with Suc.prems show ?thesis by auto
  qed
qed simp

lemma walk_ipv4_ok:
  assumes "walk_ipv4 frame offset w = Some (CF_DECAP_OK, w')" "\<not> l4_present w"
  shows "ip_version w' = 4 \<and> ethertype w' = ethertype w \<and> vlan_count w' = vlan_count w \<and>
    (l4_present w' \<longrightarrow> fragment_offset w' = 0 \<and> offset + 20 \<le> l4_offset w')"
proof (cases "offset + 20 \<le> length frame")
  case True
  with assms show ?thesis
    by (auto simp: walk_ipv4_def buf_simps Let_def split: if_split_asm)
next
  case False
  with assms(1) show ?thesis by (simp add: walk_ipv4_def buf_simps)
qed

lemma walk_ipv6_ok:
  assumes "walk_ipv6 frame offset w = Some (CF_DECAP_OK, w')" "\<not> l4_present w" "fragment_offset w = 0"
  shows "ip_version w' = 6 \<and> ethertype w' = ethertype w \<and> vlan_count w' = vlan_count w \<and>
    (l4_present w' \<longrightarrow> fragment_offset w' = 0 \<and> offset + 40 \<le> l4_offset w')"
proof (cases "offset + 40 \<le> length frame")
  case True
  with assms obtain nh wa where "ipv6_ext_loop 8 frame nh (offset + 40) wa = Some (CF_DECAP_OK, w')"
    "\<not> l4_present wa" "fragment_offset wa = 0" "ip_version wa = 6" "ethertype wa = ethertype w"
    "vlan_count wa = vlan_count w"
    by (auto simp: walk_ipv6_def buf_simps Let_def simp del: ipv6_ext_loop.simps split: if_split_asm)
  from ipv6_ext_loop_ok [OF this(1,3,2)] this(4-6) show ?thesis by simp
next
  case False
  with assms(1) show ?thesis by (simp add: walk_ipv6_def buf_simps)
qed

lemma vlan_loop_ok:
  assumes "vlan_loop n frame et offset w = Some (Inr (et', offset', w'))"
  shows "vlan_count w' \<le> vlan_count w + n \<and> l4_present w' = l4_present w \<and>
    fragment_offset w' = fragment_offset w \<and> offset' = offset + 4 * (vlan_count w' - vlan_count w) \<and>
    vlan_count w \<le> vlan_count w'"
  using assms
proof (induction n arbitrary: et offset w)
  case (Suc n)
  show ?case
  proof (cases "is_vlan et")
    case True
    with Suc.prems have "offset + 4 \<le> length frame"
      by (auto simp: buf_simps is_vlan_def not_less [symmetric] split: if_splits)
    with True Suc.prems have "vlan_loop n frame (be16 (frame ! (offset + 2)) (frame ! (offset + 3))) (offset + 4)
         (w\<lparr>vlan_ids := (vlan_ids w)[vlan_count w := ucast (be16 (frame ! offset) (frame ! (offset + 1)) AND 0x0FFF)],
            vlan_count := vlan_count w + 1\<rparr>) = Some (Inr (et', offset', w'))"
      by (auto simp: is_vlan_def buf_simps numeral_3_eq_3 split: if_splits)
    from Suc.IH [OF this] show ?thesis by auto
  next
    case False
    with Suc.prems show ?thesis by (simp add: is_vlan_def)
  qed
qed simp

lemma vlan_loop_not_ok: "vlan_loop n frame et offset w \<noteq> Some (Inl (CF_DECAP_OK, w'))"
  by (induction n arbitrary: et offset w) (auto simp: buf_simps)

lemma decap_walk_ok:
  assumes "decap_walk frame = Some (CF_DECAP_OK, w)"
  shows "(ethertype w = ETHERTYPE_IPV4 \<and> ip_version w = 4 \<or>
          ethertype w = ETHERTYPE_IPV6 \<and> ip_version w = 6) \<and> vlan_count w \<le> 2 \<and>
    (l4_present w \<longrightarrow> fragment_offset w = 0 \<and> 34 \<le> l4_offset w)"
proof -
  have "\<not> length frame < 14" using assms by (auto simp: decap_walk_def buf_simps)
  then obtain et wa r where r: "vlan_loop 2 frame et 14 wa = Some r" "\<not> l4_present wa"
      "fragment_offset wa = 0" "vlan_count wa = 0"
    and case_r: "(case r of Inl rw \<Rightarrow> Some rw | Inr (et, offset, w) \<Rightarrow>
            if et = ETHERTYPE_VLAN \<or> et = ETHERTYPE_QINQ then Some (CF_DECAP_UNSUPPORTED, w)
            else let w = w\<lparr>ethertype := et\<rparr>
            in if et = ETHERTYPE_IPV4 then walk_ipv4 frame offset w
            else if et = ETHERTYPE_IPV6 then walk_ipv6 frame offset w
            else Some (CF_DECAP_UNSUPPORTED, w)) = Some (CF_DECAP_OK, w)"
    using assms by (auto simp: decap_walk_def buf_simps bind_eq_Some_conv walk_zero_def)
  from case_r r(1) vlan_loop_not_ok obtain et' off wb where "r = Inr (et', off, wb)"
    by (cases r) fastforce+
  with r have b: "vlan_count wb \<le> 2" "\<not> l4_present wb" "fragment_offset wb = 0" "14 \<le> off"
    using vlan_loop_ok [of 2 frame et 14 wa et' off wb] by auto
  have "et' = ETHERTYPE_IPV4 \<and> walk_ipv4 frame off (wb\<lparr>ethertype := et'\<rparr>) = Some (CF_DECAP_OK, w) \<or>
    et' = ETHERTYPE_IPV6 \<and> walk_ipv6 frame off (wb\<lparr>ethertype := et'\<rparr>) = Some (CF_DECAP_OK, w)"
    using case_r \<open>r = Inr (et', off, wb)\<close> by (auto simp: Let_def split: if_splits)
  then show ?thesis
  proof
    assume a: "et' = ETHERTYPE_IPV4 \<and> walk_ipv4 frame off (wb\<lparr>ethertype := et'\<rparr>) = Some (CF_DECAP_OK, w)"
    from walk_ipv4_ok [OF conjunct2 [OF a]] a b show ?thesis by auto
  next
    assume a: "et' = ETHERTYPE_IPV6 \<and> walk_ipv6 frame off (wb\<lparr>ethertype := et'\<rparr>) = Some (CF_DECAP_OK, w)"
    from walk_ipv6_ok [OF conjunct2 [OF a]] a b show ?thesis by auto
  qed
qed

lemma copy_l3_fields [simp]:
  "ethertype (copy_l3_udp u w) = ethertype w" "ip_version (copy_l3_udp u w) = ip_version w"
  "vlan_count (copy_l3_udp u w) = vlan_count w" "next_header (copy_l3_udp u w) = next_header w"
  "fragment_offset (copy_l3_udp u w) = fragment_offset w"
  "ethertype (copy_l3_tcp t w) = ethertype w" "ip_version (copy_l3_tcp t w) = ip_version w"
  "vlan_count (copy_l3_tcp t w) = vlan_count w" "next_header (copy_l3_tcp t w) = next_header w"
  "fragment_offset (copy_l3_tcp t w) = fragment_offset w"
  by (simp_all add: copy_l3_udp_def copy_l3_tcp_def)

text \<open>A frame that carries 24 bytes in an IPv4 packet of the given protocol; both a UDP and a
  TCP header can be read from them.\<close>

definition sample_frame :: "byte \<Rightarrow> bytes" where
  "sample_frame proto =
    [1,2,3,4,5,6, 7,8,9,10,11,12, 8,0, 0x45,0,0,44, 0,7,0,0, 64,proto,0,0, 10,0,0,1, 10,0,0,2] @
    [0,53,4,0, 0,24,0,0, 0,0,0,0, 0x50,0x18,0,0, 0,0,0,0, 1,2,3,4]"

lemma sample_udp:
  "map_option (\<lambda>(r, u). (r, u_payload u, u_payload_len u)) (cf_decap_udp (sample_frame IP_PROTO_UDP)) =
    Some (CF_DECAP_OK, Some 42, 16)"
  by code_simp

lemma sample_tcp:
  "map_option (\<lambda>(r, u). (r, t_payload u, t_payload_len u)) (cf_decap_tcp (sample_frame IP_PROTO_TCP)) =
    Some (CF_DECAP_OK, Some 54, 4)"
  by code_simp

text \<open>A view into the frame.\<close>

definition in_frame :: "bytes \<Rightarrow> nat option \<Rightarrow> nat \<Rightarrow> bool" where
  "in_frame frame p len = (case p of None \<Rightarrow> False | Some off \<Rightarrow> off + len \<le> length frame)"

lemma decap_udp_ok:
  assumes "cf_decap_udp frame = Some (CF_DECAP_OK, out)"
  shows "(ethertype out = ETHERTYPE_IPV4 \<and> ip_version out = 4 \<or>
          ethertype out = ETHERTYPE_IPV6 \<and> ip_version out = 6) \<and>
    vlan_count out \<le> 2 \<and> next_header out = IP_PROTO_UDP \<and> fragment_offset out = 0 \<and>
    in_frame frame (u_payload out) (u_payload_len out) \<and>
    u_payload_len out + 8 = unat (udp_length out)"
proof -
  obtain w where w: "decap_walk frame = Some (CF_DECAP_OK, w)" "l4_present w" "next_header w = IP_PROTO_UDP"
    and p: "parse_udp frame (l4_offset w) (copy_l3_udp udp_zero w) = Some (CF_DECAP_OK, out)"
    using assms by (auto simp: cf_decap_udp_def bind_eq_Some_conv Let_def split: if_splits)
  have len: "8 \<le> unat (u :: u16)" if "\<not> u < 8" for u using that by (simp add: word_less_nat_alt)
  from p have "ethertype out = ethertype w \<and> ip_version out = ip_version w \<and>
      vlan_count out = vlan_count w \<and> next_header out = next_header w \<and>
      fragment_offset out = fragment_offset w \<and> in_frame frame (u_payload out) (u_payload_len out) \<and>
      u_payload_len out + 8 = unat (udp_length out)"
    by (auto simp: parse_udp_def bind_eq_Some_conv Let_def in_frame_def remain_def not_less
        dest!: len [unfolded not_less] split: if_splits)
  with decap_walk_ok [OF w(1)] w show ?thesis by auto
qed

text \<open>A frame that \<open>cf_decap_udp\<close> accepts is an IPv4 or IPv6 packet behind at most two
  VLAN tags, carries UDP, is not a non-first fragment, and its payload view lies inside the
  captured frame and has exactly the length the UDP header declares less the header.\<close>

theorem decap_udp_accepts:
  assumes "cf_decap_udp frame = Some (CF_DECAP_OK, out)"
  shows "(ethertype out = ETHERTYPE_IPV4 \<and> ip_version out = 4 \<or>
          ethertype out = ETHERTYPE_IPV6 \<and> ip_version out = 6) \<and>
    vlan_count out \<le> 2 \<and> next_header out = IP_PROTO_UDP \<and> fragment_offset out = 0 \<and>
    in_frame frame (u_payload out) (u_payload_len out) \<and>
    u_payload_len out + 8 = unat (udp_length out)"
  by (rule decap_udp_ok [OF assms])

theorem decap_udp_accepts_witness:
  "\<exists>out. cf_decap_udp (sample_frame IP_PROTO_UDP) = Some (CF_DECAP_OK, out) \<and>
     u_payload out = Some 42 \<and> next_header out = IP_PROTO_UDP \<and> udp_length out = 24"
proof -
  obtain out where out: "cf_decap_udp (sample_frame IP_PROTO_UDP) = Some (CF_DECAP_OK, out)"
    "u_payload out = Some 42" "u_payload_len out = 16"
    using sample_udp by auto
  from decap_udp_accepts [OF out(1)] out(3) have "unat (udp_length out) = unat (24 :: u16)" by simp
  then have "udp_length out = 24" by (simp only: word_unat_eq_iff)
  with out decap_udp_accepts [OF out(1)] show ?thesis by blast
qed

lemma decap_tcp_ok:
  assumes "cf_decap_tcp frame = Some (CF_DECAP_OK, out)"
  shows "(ethertype out = ETHERTYPE_IPV4 \<and> ip_version out = 4 \<or>
          ethertype out = ETHERTYPE_IPV6 \<and> ip_version out = 6) \<and>
    vlan_count out \<le> 2 \<and> next_header out = IP_PROTO_TCP \<and> fragment_offset out = 0 \<and>
    in_frame frame (t_payload out) (t_payload_len out)"
proof -
  obtain w where w: "decap_walk frame = Some (CF_DECAP_OK, w)" "l4_present w" "next_header w = IP_PROTO_TCP"
    and p: "parse_tcp frame (l4_offset w) (ip_payload_end w) (copy_l3_tcp tcp_zero w) = Some (CF_DECAP_OK, out)"
    using assms by (auto simp: cf_decap_tcp_def bind_eq_Some_conv Let_def split: if_splits)
  from p have "ethertype out = ethertype w \<and> ip_version out = ip_version w \<and>
      vlan_count out = vlan_count w \<and> next_header out = next_header w \<and>
      fragment_offset out = fragment_offset w \<and> in_frame frame (t_payload out) (t_payload_len out)"
    by (auto simp: parse_tcp_def bind_eq_Some_conv Let_def in_frame_def remain_def not_less
        split: if_splits)
  with decap_walk_ok [OF w(1)] w show ?thesis by auto
qed

text \<open>A frame that \<open>cf_decap_tcp\<close> accepts carries TCP in an unfragmented packet or a first
  fragment, and its payload view lies inside the captured frame.\<close>

theorem decap_tcp_accepts:
  assumes "cf_decap_tcp frame = Some (CF_DECAP_OK, out)"
  shows "(ethertype out = ETHERTYPE_IPV4 \<and> ip_version out = 4 \<or>
          ethertype out = ETHERTYPE_IPV6 \<and> ip_version out = 6) \<and>
    vlan_count out \<le> 2 \<and> next_header out = IP_PROTO_TCP \<and> fragment_offset out = 0 \<and>
    in_frame frame (t_payload out) (t_payload_len out)"
  by (rule decap_tcp_ok [OF assms])

theorem decap_tcp_accepts_witness:
  "\<exists>out. cf_decap_tcp (sample_frame IP_PROTO_TCP) = Some (CF_DECAP_OK, out) \<and>
     t_payload out = Some 54 \<and> next_header out = IP_PROTO_TCP"
proof -
  obtain out where out: "cf_decap_tcp (sample_frame IP_PROTO_TCP) = Some (CF_DECAP_OK, out)"
    "t_payload out = Some 54"
    using sample_tcp by auto
  with decap_tcp_accepts [OF out(1)] show ?thesis by blast
qed

end
