(* ===== verification/Decap_Roundtrip.thy ===== *)
theory Decap_Roundtrip
  imports Decap
begin

text \<open>
  Encoders for Ethernet frames with VLAN tags, IPv4 headers with options, IPv6 headers with
  extension chains and UDP datagrams, written from the header layouts and not from the parser,
  and the proof that \<^verbatim>\<open>cf_decap_udp\<close> of \<^verbatim>\<open>libs/cloudflow-packet/cf_decap.c\<close> inverts them.
\<close>

section \<open>Encoders\<close>



lemma rd_at: "rd d (off + k) = rd (drop off d) k"
  by (auto simp: rd_def)

lemma read_u16_at: "read_u16 d (off + k) = read_u16 (drop off d) k"
  using rd_at [of d off k] rd_at [of d off "k + 1"] by (simp add: read_u16_def)

lemma read_u32_at: "read_u32 d (off + k) = read_u32 (drop off d) k"
  using rd_at [of d off k] rd_at [of d off "k + 1"] rd_at [of d off "k + 2"] rd_at [of d off "k + 3"]
  by (simp add: read_u32_def add.assoc)

lemma rd_bytes_at: "off \<le> length d \<Longrightarrow> rd_bytes d (off + k) n = rd_bytes (drop off d) k n"
  by (auto simp: rd_bytes_def ac_simps)

lemma remain_at: "remain (length d) off = length (drop off d)"
  by (simp add: remain_def)

lemma length_wire16 [simp]: "length (wire16 w) = 2"
  by (simp add: wire16_def)

lemma read_u16_wire [simp]: "read_u16 (wire16 w @ r) 0 = Some w"
  by (simp add: read_u16_be) (simp add: wire16_def)

text \<open>The ethertype field in front of the tags, and the tags themselves (TPID and TCI).\<close>

fun first_type :: "(u16 \<times> u16) list \<Rightarrow> u16 \<Rightarrow> u16" where
  "first_type [] et = et"
| "first_type ((tpid, tci) # ts) et = tpid"

fun vlan_bytes :: "(u16 \<times> u16) list \<Rightarrow> u16 \<Rightarrow> bytes" where
  "vlan_bytes [] et = []"
| "vlan_bytes ((tpid, tci) # ts) et = wire16 tci @ wire16 (first_type ts et) @ vlan_bytes ts et"

definition eth_frame :: "bytes \<Rightarrow> bytes \<Rightarrow> (u16 \<times> u16) list \<Rightarrow> u16 \<Rightarrow> bytes \<Rightarrow> bytes" where
  "eth_frame dst src tags et packet =
    dst @ src @ wire16 (first_type tags et) @ vlan_bytes tags et @ packet"

definition udp_bytes :: "u16 \<Rightarrow> u16 \<Rightarrow> u16 \<Rightarrow> bytes \<Rightarrow> bytes" where
  "udp_bytes sp dp ck payload =
    wire16 sp @ wire16 dp @ wire16 (of_nat (8 + length payload)) @ wire16 ck @ payload"

text \<open>An IPv4 header: type of service, total length, identification, flags and offset, TTL,
  protocol, checksum, addresses and options.\<close>

definition ipv4_bytes ::
  "byte \<Rightarrow> u16 \<Rightarrow> u16 \<Rightarrow> u16 \<Rightarrow> byte \<Rightarrow> byte \<Rightarrow> u16 \<Rightarrow> bytes \<Rightarrow> bytes \<Rightarrow> bytes \<Rightarrow> bytes" where
  "ipv4_bytes tos total_len ident flags_frag ttl proto ck sip dip options =
    [0x40 OR of_nat (5 + length options div 4), tos] @ wire16 total_len @ wire16 ident @
    wire16 flags_frag @ [ttl, proto] @ wire16 ck @ sip @ dip @ options"

lemma length_vlan_bytes [simp]: "length (vlan_bytes tags et) = 4 * length tags"
  by (induction tags et rule: vlan_bytes.induct) auto

definition tag_walk :: "cf_decap_walk \<Rightarrow> u16 \<times> u16 \<Rightarrow> cf_decap_walk" where
  "tag_walk w t = w\<lparr>vlan_ids := (vlan_ids w)[vlan_count w := ucast (snd t AND 0x0FFF)],
    vlan_count := vlan_count w + 1\<rparr>"

lemma vlan_loop_tags:
  assumes "drop off frame = vlan_bytes tags et @ rest" "off \<le> length frame" "length tags \<le> n"
    "\<forall>t \<in> set tags. is_vlan (fst t)" "\<not> is_vlan et"
  shows "vlan_loop n frame (first_type tags et) off w =
    Some (Inr (et, off + 4 * length tags, foldl tag_walk w tags))"
  using assms
proof (induction tags arbitrary: n off w)
  case Nil
  then show ?case by (cases n) (auto simp: is_vlan_def)
next
  case (Cons t ts)
  obtain tpid tci where t: "t = (tpid, tci)" by force
  obtain m where n: "n = Suc m" using Cons.prems(3) by (cases n) auto
  have d: "drop off frame = wire16 tci @ wire16 (first_type ts et) @ vlan_bytes ts et @ rest"
    using Cons.prems(1) by (simp add: t)
  have l: "off + 4 \<le> length frame" using arg_cong [OF d, of length] by simp
  have r1: "read_u16 frame off = Some tci"
    using read_u16_at [of frame off 0] by (simp add: d)
  have "drop (off + 2) frame = wire16 (first_type ts et) @ vlan_bytes ts et @ rest"
    using arg_cong [OF d, of "drop 2"] by (simp add: wire16_def add.commute)
  then have r2: "read_u16 frame (off + 2) = Some (first_type ts et)"
    using read_u16_at [of frame "off + 2" 0] by simp
  have "drop (off + 4) frame = vlan_bytes ts et @ rest"
    using arg_cong [OF d, of "drop 4"] by (simp add: wire16_def add.commute)
  from Cons.IH [OF this, of m "tag_walk w t"] show ?case
    using Cons.prems l r1 r2 by (simp add: t n is_vlan_def buf_simps tag_walk_def) 
qed

lemma decap_walk_eth:
  assumes "length dst = 6" "length src = 6" "length tags \<le> 2"
    "\<forall>t \<in> set tags. is_vlan (fst t)" "\<not> is_vlan et"
  shows "decap_walk (eth_frame dst src tags et packet) =
    (let w = (foldl tag_walk (walk_zero\<lparr>dst_mac := dst, src_mac := src\<rparr>) tags)\<lparr>ethertype := et\<rparr>;
         offset = 14 + 4 * length tags; frame = eth_frame dst src tags et packet
     in if et = ETHERTYPE_IPV4 then walk_ipv4 frame offset w
        else if et = ETHERTYPE_IPV6 then walk_ipv6 frame offset w
        else Some (CF_DECAP_UNSUPPORTED, w))"
proof -
  let ?f = "eth_frame dst src tags et packet"
  have l: "14 \<le> length ?f" using assms by (simp add: eth_frame_def)
  have t: "take 6 ?f = dst" "take 6 (drop 6 ?f) = src" using assms by (simp_all add: eth_frame_def)
  have d: "drop 12 ?f = wire16 (first_type tags et) @ vlan_bytes tags et @ packet"
    using assms by (simp add: eth_frame_def)
  have r: "read_u16 ?f 12 = Some (first_type tags et)"
    using read_u16_at [of ?f 12 0] by (simp add: d)
  have "drop 14 ?f = vlan_bytes tags et @ packet"
    using assms by (simp add: eth_frame_def wire16_def)
  note v = vlan_loop_tags [OF this l assms(3,4,5)]
  show ?thesis
    using assms(5) l by (simp add: decap_walk_def buf_simps t r v is_vlan_def Let_def)
qed

lemma ipv4_first_byte:
  assumes "k \<le> (15::nat)" 
  shows "drop_bit 4 (0x40 OR of_nat k :: byte) = 4" "unat ((0x40 OR of_nat k :: byte) AND 0x0F) = k"
proof -
  have "k \<in> set [0..<16]" using assms by simp
  then have "drop_bit 4 (0x40 OR of_nat k :: byte) = 4 \<and> unat ((0x40 OR of_nat k :: byte) AND 0x0F) = k"
    by (simp add: upt_rec) (elim disjE; simp)
  then show "drop_bit 4 (0x40 OR of_nat k :: byte) = 4" "unat ((0x40 OR of_nat k :: byte) AND 0x0F) = k"
    by auto
qed


lemma list4: "length xs = 4 \<Longrightarrow> \<exists>a b c d. xs = [a, b, c, d]"
  by (auto simp: length_Suc_conv eval_nat_numeral)

definition ipv4_walk :: "nat \<Rightarrow> nat \<Rightarrow> byte \<Rightarrow> u16 \<Rightarrow> u16 \<Rightarrow> byte \<Rightarrow> byte \<Rightarrow> bytes \<Rightarrow> bytes \<Rightarrow> nat \<Rightarrow>
    cf_decap_walk \<Rightarrow> cf_decap_walk" where
  "ipv4_walk flen offset tos total_len flags_frag ttl proto sip dip ihl w =
    w\<lparr>ip_version := 4, src_ip := memcpy_at (src_ip w) 0 sip, dst_ip := memcpy_at (dst_ip w) 0 dip,
      next_header := proto, ttl_or_hop_limit := ttl, dscp := drop_bit 2 tos, ecn := tos AND 0x3,
      ip_payload_end := ipv4_payload_end flen offset total_len ihl,
      fragment_offset := 0, fragmented := (flags_frag AND 0x2000) \<noteq> 0,
      l4_offset := offset + ihl, l4_present := True\<rparr>"

lemma walk_ipv4_bytes:
  assumes d: "drop off frame = ipv4_bytes tos total_len ident flags_frag ttl proto ck sip dip options @ rest"
    and l: "length sip = 4" "length dip = 4" and o: "4 dvd length options" "length options \<le> 40"
    and f: "flags_frag AND 0x1FFF = 0"
  shows "walk_ipv4 frame off w = Some (CF_DECAP_OK,
    ipv4_walk (length frame) off tos total_len flags_frag ttl proto sip dip (20 + length options) w)"
proof -
  obtain s0 s1 s2 s3 where s: "sip = [s0, s1, s2, s3]" using list4 [OF l(1)] by blast
  obtain d0 d1 d2 d3 where di: "dip = [d0, d1, d2, d3]" using list4 [OF l(2)] by blast
  have len: "length frame - off = 20 + length options + length rest"
    using arg_cong [OF d, of length] by (simp add: ipv4_bytes_def s di)
  then have lf: "off \<le> length frame" "off + 20 + length options \<le> length frame" by linarith+
  define k where "k = 5 + length options div 4"
  have k: "k \<le> 15" "k * 4 = 20 + length options" using o by (auto simp: k_def)
  have rem: "\<not> remain (length frame) off < 20" "\<not> remain (length frame) off < 20 + length options"
    unfolding remain_at d by (simp_all add: ipv4_bytes_def s di)
  note D = d [unfolded ipv4_bytes_def wire16_def s di, simplified]
  define vb :: byte where "vb = 0x40 OR of_nat k"
  have vb: "drop_bit 4 vb = 4" "unat (vb AND 0x0F) = k"
    using ipv4_first_byte [OF k(1)] by (simp_all only: vb_def)
  have r0: "rd frame off = Some vb"
    using rd_at [of frame off 0] unfolding D by (simp add: k_def vb_def)
  have r: "rd frame (off + 1) = Some tos" "rd frame (off + 8) = Some ttl" "rd frame (off + 9) = Some proto"
    "read_u16 frame (off + 2) = Some total_len" "read_u16 frame (off + 6) = Some flags_frag"
    unfolding rd_at read_u16_at D by (simp_all add: read_u16_be)
  have a: "rd_bytes frame (off + 12) 4 = Some sip" "rd_bytes frame (off + 16) 4 = Some dip"
    unfolding rd_bytes_at [OF lf(1)] D by (simp_all add: s di)
  show ?thesis
    unfolding walk_ipv4_def using rem
    by (simp add: r0 r a vb k(2) f Let_def ipv4_walk_def
        del: One_nat_def add_2_eq_Suc')
qed

lemma parse_udp_bytes:
  assumes d: "drop off frame = udp_bytes sp dp ck payload @ rest" and l: "length payload < 2 ^ 16 - 8"
  shows "parse_udp frame off out = Some (CF_DECAP_OK, out\<lparr>u_src_port := sp, u_dst_port := dp,
    udp_length := of_nat (8 + length payload), udp_checksum_present := ck \<noteq> 0,
    u_payload := Some (off + 8), u_payload_len := length payload\<rparr>)"
proof -
  note D = d [unfolded udp_bytes_def wire16_def, simplified]
  have u: "unat (of_nat (8 + length payload) :: u16) = 8 + length payload"
    using l by (simp add: unat_of_nat take_bit_nat_eq_self del: of_nat_add)
  then have u8: "\<not> (of_nat (8 + length payload) :: u16) < 8" by (simp add: word_less_nat_alt del: of_nat_add)
  have "drop (off + 8) frame = payload @ rest" using arg_cong [OF D, of "drop 8"] by (simp add: add.commute)
  then have rem: "\<not> remain (length frame) (off + 8) < length payload" by (simp add: remain_at)
  have rem8: "\<not> remain (length frame) off < 8" unfolding remain_at D by simp
  have r: "read_u16 frame off = Some sp" using read_u16_at [of frame off 0] unfolding D by (simp add: read_u16_be)
  have r': "read_u16 frame (off + 2) = Some dp"
    "read_u16 frame (off + 4) = Some (of_nat (8 + length payload))" "read_u16 frame (off + 6) = Some ck"
    unfolding read_u16_at D by (simp_all add: read_u16_be)
  show ?thesis
    unfolding parse_udp_def using rem8 u8 rem by (simp add: r r' u Let_def del: of_nat_add add_2_eq_Suc')
qed

section \<open>IPv6 extension headers\<close>

text \<open>An extension header that is walked over: hop-by-hop, routing or destination options
  with \<open>8 * u + 6\<close> bytes of body, or the fragment header of a first fragment (its reserved
  octet, the M flag with the reserved bits, and the identification).\<close>

datatype ext_hdr = Opts byte bytes | First_Frag byte u16 bytes

fun ext_type :: "ext_hdr \<Rightarrow> byte" where
  "ext_type (Opts t body) = t"
| "ext_type (First_Frag res m ident) = IPV6_PROTO_FRAGMENT"

fun ext_wf :: "ext_hdr \<Rightarrow> bool" where
  "ext_wf (Opts t body) =
    ((t = IPV6_PROTO_HOPOPTS \<or> t = IPV6_PROTO_ROUTING \<or> t = IPV6_PROTO_DSTOPTS) \<and>
     length body mod 8 = 6 \<and> length body < 2048)"
| "ext_wf (First_Frag res m ident) = (drop_bit 3 m = 0 \<and> length ident = 4)"

fun ext_bytes :: "byte \<Rightarrow> ext_hdr \<Rightarrow> bytes" where
  "ext_bytes nh (Opts t body) = [nh, of_nat (length body div 8)] @ body"
| "ext_bytes nh (First_Frag res m ident) = [nh, res] @ wire16 m @ ident"

fun chain_type :: "ext_hdr list \<Rightarrow> byte \<Rightarrow> byte" where
  "chain_type [] proto = proto"
| "chain_type (e # es) proto = ext_type e"

fun chain_bytes :: "ext_hdr list \<Rightarrow> byte \<Rightarrow> bytes" where
  "chain_bytes [] proto = []"
| "chain_bytes (e # es) proto = ext_bytes (chain_type es proto) e @ chain_bytes es proto"

definition is_ext :: "byte \<Rightarrow> bool" where
  "is_ext t \<longleftrightarrow> t = IPV6_PROTO_FRAGMENT \<or> t = IPV6_PROTO_HOPOPTS \<or> t = IPV6_PROTO_ROUTING \<or>
     t = IPV6_PROTO_DSTOPTS"

fun is_frag :: "ext_hdr \<Rightarrow> bool" where
  "is_frag (Opts t body) = False"
| "is_frag (First_Frag res m ident) = True"

definition step_walk :: "byte \<Rightarrow> ext_hdr \<Rightarrow> cf_decap_walk \<Rightarrow> cf_decap_walk" where
  "step_walk nh e w = (if is_frag e then w\<lparr>next_header := nh, fragment_offset := 0, fragmented := True\<rparr>
     else w\<lparr>next_header := nh\<rparr>)"

lemma ext_loop_step:
  assumes d: "drop cur frame = ext_bytes nh e @ rest" and wf: "ext_wf e"
  shows "ipv6_ext_loop (Suc n) frame (ext_type e) cur w =
    ipv6_ext_loop n frame nh (cur + length (ext_bytes nh e)) (step_walk nh e w)"
proof (cases e)
  case (Opts t body)
  note D = d [unfolded Opts, simplified]
  define u where "u = length body div 8"
  have "length body mod 8 = 6" "length body < 2048" using wf by (auto simp: Opts)
  then have u: "length body = 8 * u + 6" "u < 256"
    using div_mult_mod_eq [of "length body" 8] by (simp_all add: u_def)
  have un: "unat (of_nat u :: byte) = u" using u(2) by (simp add: unat_of_nat take_bit_nat_eq_self)
  have r: "rd frame cur = Some nh" using rd_at [of frame cur 0] unfolding D by simp
  have r1: "rd frame (cur + 1) = Some (of_nat u)" unfolding rd_at D by (simp add: u_def)
  have rem: "\<not> remain (length frame) cur < 2" "\<not> remain (length frame) cur < (u + 1) * 8"
    unfolding remain_at D by (simp_all add: u)
  show ?thesis using wf rem unfolding Opts
    by (auto simp: r r1 [simplified] un u Let_def step_walk_def mult.commute)
next
  case (First_Frag res m ident)
  note D = d [unfolded First_Frag wire16_def, simplified]
  have l: "length ident = 4" "drop_bit 3 m = 0" using wf by (simp_all add: First_Frag)
  have r: "rd frame cur = Some nh" using rd_at [of frame cur 0] unfolding D by simp
  have r1: "read_u16 frame (cur + 2) = Some m" unfolding read_u16_at D by (simp add: read_u16_be wire16_def)
  have rem: "\<not> remain (length frame) cur < 8" unfolding remain_at D by (simp add: l)
  show ?thesis using rem unfolding First_Frag
    by (simp add: r r1 l Let_def step_walk_def del: add_2_eq_Suc')
qed

lemma ext_loop_chain:
  assumes "drop cur frame = chain_bytes es proto @ rest" "\<forall>e \<in> set es. ext_wf e" "\<not> is_ext proto"
    "length es < n"
  shows "ipv6_ext_loop n frame (chain_type es proto) cur w = Some (CF_DECAP_OK,
     w\<lparr>fragment_offset := if list_ex is_frag es then 0 else fragment_offset w,
       fragmented := fragmented w \<or> list_ex is_frag es, next_header := proto,
       l4_offset := cur + length (chain_bytes es proto), l4_present := True\<rparr>)"
  using assms
proof (induction es arbitrary: n cur w)
  case Nil
  then show ?case by (cases n) (auto simp: is_ext_def)
next
  case (Cons e es)
  obtain m where n: "n = Suc m" using Cons.prems(4) by (cases n) auto
  let ?b = "ext_bytes (chain_type es proto) e"
  have d: "drop cur frame = ?b @ (chain_bytes es proto @ rest)" using Cons.prems(1) by simp
  have "drop (cur + length ?b) frame = chain_bytes es proto @ rest"
    using arg_cong [OF d, of "drop (length ?b)"] by (simp add: add.commute)
  from Cons.IH [OF this, of m "step_walk (chain_type es proto) e w"] Cons.prems n
    ext_loop_step [OF d, of m w]
  show ?case by (auto simp: step_walk_def add.assoc)
qed

lemma ext_loop_too_deep:
  assumes "drop cur frame = chain_bytes es proto @ rest" "\<forall>e \<in> set es. ext_wf e" "n \<le> length es"
  shows "\<exists>w'. ipv6_ext_loop n frame (chain_type es proto) cur w = Some (CF_DECAP_UNSUPPORTED, w')"
  using assms
proof (induction n arbitrary: es cur w)
  case (Suc n)
  then obtain e es' where es: "es = e # es'" by (cases es) auto
  let ?b = "ext_bytes (chain_type es' proto) e"
  have d: "drop cur frame = ?b @ (chain_bytes es' proto @ rest)" using Suc.prems(1) by (simp add: es)
  have "drop (cur + length ?b) frame = chain_bytes es' proto @ rest"
    using arg_cong [OF d, of "drop (length ?b)"] by (simp add: add.commute)
  from Suc.IH [OF this, of "step_walk (chain_type es' proto) e w"] Suc.prems
    ext_loop_step [OF d, of n w]
  show ?case by (auto simp: es)
qed simp

text \<open>An IPv6 fixed header in front of an extension chain.\<close>

definition ipv6_bytes :: "byte \<Rightarrow> bytes \<Rightarrow> u16 \<Rightarrow> byte \<Rightarrow> byte \<Rightarrow> bytes \<Rightarrow> bytes \<Rightarrow> bytes" where
  "ipv6_bytes tc flow payload_len nh hop sip dip =
    [0x60 OR drop_bit 4 tc, push_bit 4 tc OR (hd flow AND 0x0F)] @ tl flow @
    wire16 payload_len @ [nh, hop] @ sip @ dip"

lemma ipv6_word0:
  "ucast (drop_bit 28 (be32 (0x60 OR drop_bit 4 tc) b c d)) = (6 :: byte)"
  "ucast (drop_bit 20 (be32 (0x60 OR drop_bit 4 tc) (push_bit 4 tc OR (f AND 0x0F)) c d) AND 0xFF) = (tc :: byte)"
proof -
  have m: "(0x60 :: byte) = push_bit 5 (mask 2)" "(6 :: byte) = mask 3 XOR mask 1"
    "(0xFF :: u32) = mask 8" "(0x0F :: byte) = mask 4"
    by (simp_all add: mask_eq_exp_minus_1 push_bit_eq_mult)
  show "ucast (drop_bit 28 (be32 (0x60 OR drop_bit 4 tc) b c d)) = (6 :: byte)"
    unfolding m
    by (rule bit_word_eqI) (auto simp: bit_be32 bit_simps dest: bit_imp_le_length)
  show "ucast (drop_bit 20 (be32 (0x60 OR drop_bit 4 tc) (push_bit 4 tc OR (f AND 0x0F)) c d) AND 0xFF) = (tc :: byte)"
    unfolding m
    by (rule bit_word_eqI) (auto simp: bit_be32 bit_simps dest: bit_imp_le_length)
qed

lemma walk_ipv6_bytes:
  assumes d: "drop off frame = ipv6_bytes tc [f0, f1, f2] payload_len nh hop sip dip @ rest"
    and l: "length sip = 16" "length dip = 16"
  shows "walk_ipv6 frame off w = ipv6_ext_loop 8 frame nh (off + 40)
    (w\<lparr>ip_version := 6, src_ip := sip, dst_ip := dip, ttl_or_hop_limit := hop,
       dscp := drop_bit 2 tc, ecn := tc AND 0x3, next_header := nh,
       ip_payload_end := min (length frame) (off + 40 + unat payload_len)\<rparr>)"
proof -
  note D = d [unfolded ipv6_bytes_def wire16_def, simplified]
  have "length frame - off = 40 + length rest"
    using arg_cong [OF D, of length] l by simp
  then have lf: "off \<le> length frame" by linarith
  have rem: "\<not> remain (length frame) off < 40" unfolding remain_at D by (simp add: l)
  have r0: "read_u32 frame off = Some (be32 (0x60 OR drop_bit 4 tc) (push_bit 4 tc OR (f0 AND 0x0F)) f1 f2)"
    using read_u32_at [of frame off 0] unfolding D by (simp add: read_u32_be)
  have r: "read_u16 frame (off + 4) = Some payload_len" "rd frame (off + 6) = Some nh"
    "rd frame (off + 7) = Some hop"
    unfolding rd_at read_u16_at D by (simp_all add: read_u16_be)
  have a: "rd_bytes frame (off + 8) 16 = Some sip" "rd_bytes frame (off + 24) 16 = Some dip"
    unfolding rd_bytes_at [OF lf] D by (simp_all add: l)
  have m: "(if off + 40 + unat payload_len > length frame then length frame
     else off + 40 + unat payload_len) = min (length frame) (off + 40 + unat payload_len)"
    by (simp add: min_def)
  show ?thesis
    unfolding walk_ipv6_def using rem by (simp only: r0 r a Option.bind.simps Let_def ipv6_word0 m if_False simp_thms)
qed

definition tag_ids :: "(u16 \<times> u16) list \<Rightarrow> u32 list" where
  "tag_ids tags = take 2 (map (\<lambda>t. ucast (snd t AND 0x0FFF)) tags @ [0, 0])"

lemma tags_walk:
  assumes "length tags \<le> 2" "vlan_ids w = [0, 0]" "vlan_count w = 0"
  shows "foldl tag_walk w tags = w\<lparr>vlan_ids := tag_ids tags, vlan_count := length tags\<rparr>"
proof -
  consider "tags = []" | a where "tags = [a]" | a b where "tags = [a, b]"
    using assms(1) by (cases tags; cases "tl tags"; cases "tl (tl tags)") auto
  then show ?thesis using assms(2,3) by cases (simp_all add: tag_walk_def tag_ids_def)
qed

lemma drop_eth_frame:
  "length dst = 6 \<Longrightarrow> length src = 6 \<Longrightarrow>
   drop (14 + 4 * length tags) (eth_frame dst src tags et packet) = packet"
  by (simp add: eth_frame_def)

lemma decap_ipv4_udp_fields:
  assumes "length dst = 6" "length src = 6" "length tags \<le> 2" "\<forall>t \<in> set tags. is_vlan (fst t)"
    and l: "length sip = 4" "length dip = 4" and o: "4 dvd length options" "length options \<le> 40"
    and f: "flags_frag AND 0x1FFF = 0" and p: "length payload < 2 ^ 16 - 8"
    and frame: "frame = eth_frame dst src tags ETHERTYPE_IPV4
      (ipv4_bytes tos total_len ident flags_frag ttl IP_PROTO_UDP ck sip dip options @
       udp_bytes sp dp uck payload @ trailer)"
    and off: "off = 14 + 4 * length tags + (20 + length options) + 8"
  shows "cf_decap_udp frame = Some (CF_DECAP_OK,
      \<lparr>src_mac = src, dst_mac = dst, vlan_ids = tag_ids tags, vlan_count = length tags,
       ethertype = ETHERTYPE_IPV4, ip_version = 4, src_ip = sip @ replicate 12 0,
       dst_ip = dip @ replicate 12 0, next_header = IP_PROTO_UDP, ttl_or_hop_limit = ttl,
       dscp = drop_bit 2 tos, ecn = tos AND 0x3, fragmented = (flags_frag AND 0x2000) \<noteq> 0,
       fragment_offset = 0, u_src_port = sp, u_dst_port = dp,
       udp_length = of_nat (8 + length payload), udp_checksum_present = uck \<noteq> 0,
       u_payload = Some off, u_payload_len = length payload\<rparr>) \<and>
    take (length payload) (drop off frame) = payload"
proof -
  let ?o = "14 + 4 * length tags"
  let ?ip = "ipv4_bytes tos total_len ident flags_frag ttl IP_PROTO_UDP ck sip dip options"
  have d: "drop ?o frame = ?ip @ (udp_bytes sp dp uck payload @ trailer)"
    unfolding frame by (rule drop_eth_frame [OF assms(1,2)])
  have li: "length ?ip = 20 + length options" by (simp add: ipv4_bytes_def l)
  have du: "drop (?o + (20 + length options)) frame = udp_bytes sp dp uck payload @ trailer"
    using arg_cong [OF d, of "drop (length ?ip)"] by (simp add: li add.commute)
  have pay: "take (length payload) (drop off frame) = payload"
    using arg_cong [OF du, of "drop 8"] off by (simp add: udp_bytes_def wire16_def add.commute)
  have w: "decap_walk frame = walk_ipv4 frame ?o
      (walk_zero\<lparr>dst_mac := dst, src_mac := src, vlan_ids := tag_ids tags,
        vlan_count := length tags, ethertype := ETHERTYPE_IPV4\<rparr>)"
    using decap_walk_eth [OF assms(1-4), of ETHERTYPE_IPV4] unfolding frame
    by (simp add: is_vlan_def tags_walk [OF assms(3)] walk_zero_def Let_def)
  show ?thesis
    using pay unfolding cf_decap_udp_def w walk_ipv4_bytes [OF d l o f]
    by (simp add: ipv4_walk_def Let_def parse_udp_bytes [OF du p, simplified] copy_l3_udp_def udp_zero_def
        walk_zero_def memcpy_at_def l off)
qed

text \<open>Decapsulation inverts encapsulation for IPv4: a UDP datagram behind an IPv4 header
  with any options and up to two VLAN tags, unfragmented or a first fragment and followed by
  any trailer, comes back with the link, network and transport fields it was built from, and
  the payload view is exactly the payload.\<close>

theorem decap_ipv4_udp_roundtrip:
  assumes "length dst = 6" "length src = 6" "length tags \<le> 2" "\<forall>t \<in> set tags. is_vlan (fst t)"
    and l: "length sip = 4" "length dip = 4" and o: "4 dvd length options" "length options \<le> 40"
    and f: "flags_frag AND 0x1FFF = 0" and p: "length payload < 2 ^ 16 - 8"
    and frame: "frame = eth_frame dst src tags ETHERTYPE_IPV4
      (ipv4_bytes tos total_len ident flags_frag ttl IP_PROTO_UDP ck sip dip options @
       udp_bytes sp dp uck payload @ trailer)"
    and off: "off = 14 + 4 * length tags + (20 + length options) + 8"
  shows "cf_decap_udp frame = Some (CF_DECAP_OK,
      \<lparr>src_mac = src, dst_mac = dst, vlan_ids = tag_ids tags, vlan_count = length tags,
       ethertype = ETHERTYPE_IPV4, ip_version = 4, src_ip = sip @ replicate 12 0,
       dst_ip = dip @ replicate 12 0, next_header = IP_PROTO_UDP, ttl_or_hop_limit = ttl,
       dscp = drop_bit 2 tos, ecn = tos AND 0x3, fragmented = (flags_frag AND 0x2000) \<noteq> 0,
       fragment_offset = 0, u_src_port = sp, u_dst_port = dp,
       udp_length = of_nat (8 + length payload), udp_checksum_present = uck \<noteq> 0,
       u_payload = Some off, u_payload_len = length payload\<rparr>) \<and>
    take (length payload) (drop off frame) = payload"
  by (rule decap_ipv4_udp_fields [OF assms])

theorem decap_ipv4_udp_roundtrip_witness:
  "\<exists>out. cf_decap_udp (eth_frame [1,2,3,4,5,6] [7,8,9,10,11,12] [(ETHERTYPE_VLAN, 0x2064)] ETHERTYPE_IPV4
      (ipv4_bytes 0 31 7 0x4000 64 IP_PROTO_UDP 0 [10,0,0,1] [10,0,0,2] [] @
       udp_bytes 53 1024 0 [1,2,3] @ [])) = Some (CF_DECAP_OK, out) \<and>
     vlan_ids out = [100, 0] \<and> u_payload out = Some 46 \<and> u_payload_len out = 3"
  using decap_ipv4_udp_roundtrip [where dst = "[1,2,3,4,5,6]" and src = "[7,8,9,10,11,12]"
      and tags = "[(ETHERTYPE_VLAN, 0x2064)]" and sip = "[10,0,0,1]" and dip = "[10,0,0,2]"
      and options = "[]" and flags_frag = "0x4000" and payload = "[1,2,3]" and tos = 0 and off = 46
      and total_len = 31 and ident = 7 and ttl = 64 and ck = 0 and sp = 53 and dp = 1024 and uck = 0
      and trailer = "[]", OF _ _ _ _ _ _ _ _ _ _ refl]
  by (simp add: is_vlan_def tag_ids_def)

text \<open>C21. Decapsulation inverts encapsulation for IPv6 with up to seven extension headers
  (hop-by-hop, routing, destination options, or the fragment header of a first fragment, in
  any order).\<close>

theorem decap_ipv6_udp_roundtrip:
  assumes "length dst = 6" "length src = 6" "length tags \<le> 2" "\<forall>t \<in> set tags. is_vlan (fst t)"
    and l: "length sip = 16" "length dip = 16" and es: "\<forall>e \<in> set es. ext_wf e" "length es < 8"
    and p: "length payload < 2 ^ 16 - 8"
    and frame: "frame = eth_frame dst src tags ETHERTYPE_IPV6
      (ipv6_bytes tc [fa, fb, fc] payload_len (chain_type es IP_PROTO_UDP) hop sip dip @
       chain_bytes es IP_PROTO_UDP @ udp_bytes sp dp uck payload @ trailer)"
    and off: "off = 14 + 4 * length tags + 40 + length (chain_bytes es IP_PROTO_UDP) + 8"
  shows "cf_decap_udp frame = Some (CF_DECAP_OK,
      \<lparr>src_mac = src, dst_mac = dst, vlan_ids = tag_ids tags, vlan_count = length tags,
       ethertype = ETHERTYPE_IPV6, ip_version = 6, src_ip = sip, dst_ip = dip,
       next_header = IP_PROTO_UDP, ttl_or_hop_limit = hop, dscp = drop_bit 2 tc, ecn = tc AND 0x3,
       fragmented = list_ex is_frag es, fragment_offset = 0, u_src_port = sp, u_dst_port = dp,
       udp_length = of_nat (8 + length payload), udp_checksum_present = uck \<noteq> 0,
       u_payload = Some off, u_payload_len = length payload\<rparr>) \<and>
    take (length payload) (drop off frame) = payload"
proof -
  let ?o = "14 + 4 * length tags"
  let ?ip = "ipv6_bytes tc [fa, fb, fc] payload_len (chain_type es IP_PROTO_UDP) hop sip dip"
  let ?c = "chain_bytes es IP_PROTO_UDP"
  have d: "drop ?o frame = ?ip @ (?c @ udp_bytes sp dp uck payload @ trailer)"
    unfolding frame by (rule drop_eth_frame [OF assms(1,2)])
  have li: "length ?ip = 40" by (simp add: ipv6_bytes_def l)
  have dc: "drop (?o + 40) frame = ?c @ udp_bytes sp dp uck payload @ trailer"
    using arg_cong [OF d, of "drop 40"] by (simp add: li add.commute)
  have du: "drop (?o + 40 + length ?c) frame = udp_bytes sp dp uck payload @ trailer"
    using arg_cong [OF dc, of "drop (length ?c)"] by (simp add: add.commute)
  have pay: "take (length payload) (drop off frame) = payload"
    using arg_cong [OF du, of "drop 8"] off by (simp add: udp_bytes_def wire16_def add.commute)
  have w: "decap_walk frame = walk_ipv6 frame ?o
      (walk_zero\<lparr>dst_mac := dst, src_mac := src, vlan_ids := tag_ids tags,
        vlan_count := length tags, ethertype := ETHERTYPE_IPV6\<rparr>)"
    using decap_walk_eth [OF assms(1-4), of ETHERTYPE_IPV6] unfolding frame
    by (simp add: is_vlan_def tags_walk [OF assms(3)] walk_zero_def Let_def)
  have ne: "\<not> is_ext IP_PROTO_UDP" by (simp add: is_ext_def)
  show ?thesis
    using pay
    unfolding cf_decap_udp_def w walk_ipv6_bytes [OF d l] ext_loop_chain [OF dc es(1) ne es(2)]
    by (simp add: Let_def parse_udp_bytes [OF du p, simplified] copy_l3_udp_def udp_zero_def
        walk_zero_def off)
qed

theorem decap_ipv6_udp_roundtrip_witness:
  "\<exists>out. cf_decap_udp (eth_frame [1,2,3,4,5,6] [7,8,9,10,11,12] [] ETHERTYPE_IPV6
      (ipv6_bytes 0 [0, 0, 0] 27 (chain_type [Opts 0 [5,2,0,0,1,0], First_Frag 0 1 [0,0,0,9]] IP_PROTO_UDP)
         64 (replicate 16 1) (replicate 16 2) @
       chain_bytes [Opts 0 [5,2,0,0,1,0], First_Frag 0 1 [0,0,0,9]] IP_PROTO_UDP @
       udp_bytes 53 1024 0 [1,2,3] @ [])) = Some (CF_DECAP_OK, out) \<and>
     fragmented out \<and> u_payload out = Some 78 \<and> u_payload_len out = 3"
  using decap_ipv6_udp_roundtrip [where dst = "[1,2,3,4,5,6]" and src = "[7,8,9,10,11,12]"
      and tags = "[]" and sip = "replicate 16 1" and dip = "replicate 16 2"
      and es = "[Opts 0 [5,2,0,0,1,0], First_Frag 0 1 [0,0,0,9]]" and payload = "[1,2,3]" and tc = 0
      and fa = 0 and fb = 0 and fc = 0 and payload_len = 27 and hop = 64 and sp = 53 and dp = 1024
      and uck = 0 and trailer = "[]" and off = 78, OF _ _ _ _ _ _ _ _ _ refl]
  by (simp add: wire16_def)

text \<open>The extension loop looks at eight headers in all, the transport header included: a
  well-formed IPv6 packet with eight or more extension headers is reported as unsupported,
  whatever follows them.\<close>

theorem decap_ipv6_chain_too_deep:
  assumes "length dst = 6" "length src = 6" "length tags \<le> 2" "\<forall>t \<in> set tags. is_vlan (fst t)"
    and l: "length sip = 16" "length dip = 16" and es: "\<forall>e \<in> set es. ext_wf e" "8 \<le> length es"
  shows "\<exists>out. cf_decap_udp (eth_frame dst src tags ETHERTYPE_IPV6
      (ipv6_bytes tc [fa, fb, fc] payload_len (chain_type es proto) hop sip dip @
       chain_bytes es proto @ rest)) = Some (CF_DECAP_UNSUPPORTED, out)"
proof -
  let ?o = "14 + 4 * length tags"
  let ?ip = "ipv6_bytes tc [fa, fb, fc] payload_len (chain_type es proto) hop sip dip"
  define frame where "frame = eth_frame dst src tags ETHERTYPE_IPV6 (?ip @ chain_bytes es proto @ rest)"
  have d: "drop ?o frame = ?ip @ (chain_bytes es proto @ rest)"
    unfolding frame_def by (rule drop_eth_frame [OF assms(1,2)])
  have dc: "drop (?o + 40) frame = chain_bytes es proto @ rest"
    using arg_cong [OF d, of "drop 40"] by (simp add: ipv6_bytes_def l add.commute)
  have w: "decap_walk frame = walk_ipv6 frame ?o
      (walk_zero\<lparr>dst_mac := dst, src_mac := src, vlan_ids := tag_ids tags,
        vlan_count := length tags, ethertype := ETHERTYPE_IPV6\<rparr>)"
    using decap_walk_eth [OF assms(1-4), of ETHERTYPE_IPV6] unfolding frame_def
    by (simp add: is_vlan_def tags_walk [OF assms(3)] walk_zero_def Let_def)
  obtain w' where "decap_walk frame = Some (CF_DECAP_UNSUPPORTED, w')"
    unfolding w walk_ipv6_bytes [OF d l] using ext_loop_too_deep [OF dc es] by blast
  then show ?thesis by (simp add: cf_decap_udp_def frame_def [symmetric])
qed

theorem decap_ipv6_chain_too_deep_witness:
  "\<exists>out. cf_decap_udp (eth_frame [1,2,3,4,5,6] [7,8,9,10,11,12] [] ETHERTYPE_IPV6
      (ipv6_bytes 0 [0, 0, 0] 72 (chain_type (replicate 8 (Opts 0 [5,2,0,0,1,0])) IP_PROTO_UDP)
         64 (replicate 16 1) (replicate 16 2) @
       chain_bytes (replicate 8 (Opts 0 [5,2,0,0,1,0])) IP_PROTO_UDP @ udp_bytes 53 1024 0 [])) =
     Some (CF_DECAP_UNSUPPORTED, out)"
  by (rule decap_ipv6_chain_too_deep) simp_all


end
