(* ===== verification/Dns.thy ===== *)
theory Dns
  imports Parse_Util
begin

text \<open>
  The DNS message parser, \<^verbatim>\<open>libs/cloudflow-packet/cf_dns.c\<close>: name decompression, RDATA text,
  header, questions, resource records, EDNS and the entry point \<open>cf_dns_parse\<close>.

  A message is a byte list whose length is \<open>msg_len\<close>. Every access goes through the checked
  reads of the prelude: \<open>None\<close> is a read outside the message (or of an output parameter that
  a failed reader left unset). Allocations succeed. A \<open>char\<close> array written by the code is the
  string of the characters written so far.
\<close>

section \<open>Type names\<close>

definition dns_type_name :: "u32 \<Rightarrow> string" where
  "dns_type_name t =
    (if t = 1 then ''A'' else if t = 2 then ''NS'' else if t = 5 then ''CNAME''
     else if t = 6 then ''SOA'' else if t = 12 then ''PTR'' else if t = 13 then ''HINFO''
     else if t = 15 then ''MX'' else if t = 16 then ''TXT'' else if t = 17 then ''RP''
     else if t = 24 then ''SIG'' else if t = 25 then ''KEY'' else if t = 28 then ''AAAA''
     else if t = 29 then ''LOC'' else if t = 33 then ''SRV'' else if t = 35 then ''NAPTR''
     else if t = 39 then ''DNAME'' else if t = 41 then ''OPT'' else if t = 43 then ''DS''
     else if t = 46 then ''RRSIG'' else if t = 47 then ''NSEC'' else if t = 48 then ''DNSKEY''
     else if t = 50 then ''NSEC3'' else if t = 51 then ''NSEC3PARAM'' else if t = 52 then ''TLSA''
     else if t = 59 then ''CDS'' else if t = 60 then ''CDNSKEY'' else if t = 64 then ''SVCB''
     else if t = 65 then ''HTTPS'' else if t = 252 then ''AXFR'' else if t = 255 then ''ANY''
     else if t = 257 then ''CAA''
     else snprintf 16 (''TYPE'' @ dec_string (unat t)))"

section \<open>Name decompression\<close>

abbreviation DNS_MAX_NAME_OCTETS :: nat where "DNS_MAX_NAME_OCTETS \<equiv> 255"
abbreviation DNS_MAX_POINTER_JUMPS :: nat where "DNS_MAX_POINTER_JUMPS \<equiv> 128"
abbreviation DNS_NAME_BUF :: nat where "DNS_NAME_BUF \<equiv> 512"

definition lower :: "bool \<Rightarrow> byte \<Rightarrow> byte" where
  "lower lowercase c = (if lowercase \<and> c \<ge> 65 \<and> c \<le> 90 then c + 0x20 else c)"

text \<open>The copy of a label's bytes; it stops when only the NUL would still fit.\<close>

fun copy_label :: "bytes \<Rightarrow> nat \<Rightarrow> nat \<Rightarrow> bool \<Rightarrow> string \<Rightarrow> string option" where
  "copy_label msg off 0 lowercase out = Some out"
| "copy_label msg off (Suc n) lowercase out =
    (if length out + 1 < DNS_NAME_BUF then do {
       c \<leftarrow> rd msg off;
       copy_label msg (off + 1) n lowercase (out @ [chr_of_byte (lower lowercase c)]) }
     else Some out)"

text \<open>The common exit of a malformed name: the partial text, terminated inside the buffer.\<close>

definition name_fail :: "string \<Rightarrow> nat \<Rightarrow> (bool \<times> string \<times> nat) option" where
  "name_fail out consumed =
    Some (False, (if length out \<ge> DNS_NAME_BUF then take (DNS_NAME_BUF - 1) out else out), consumed)"

function decode_name_loop ::
  "bytes \<Rightarrow> nat \<Rightarrow> bool \<Rightarrow> nat \<Rightarrow> string \<Rightarrow> nat \<Rightarrow> nat \<Rightarrow> bool \<Rightarrow> bool \<Rightarrow> nat \<Rightarrow>
   (bool \<times> string \<times> nat) option" where
  "decode_name_loop msg start lowercase pos out name_octets jumps first_ptr_seen first_label consumed =
    (if pos \<ge> length msg then name_fail out consumed
     else case rd msg pos of None \<Rightarrow> None | Some label_len \<Rightarrow>
     if label_len AND 0xc0 = 0x00 then
       if label_len = 0 then
         Some (True, out, if first_ptr_seen then consumed else pos + 1 - start)
       else if pos + 1 + unat label_len > length msg then name_fail out consumed
       else if name_octets + unat label_len + 1 > DNS_MAX_NAME_OCTETS then name_fail out consumed
       else case copy_label msg (pos + 1) (unat label_len) lowercase
              (if \<not> first_label \<and> length out + 1 < DNS_NAME_BUF then out @ ''.'' else out) of
            None \<Rightarrow> None
          | Some out' \<Rightarrow>
              decode_name_loop msg start lowercase (pos + (1 + unat label_len)) out'
                (name_octets + unat label_len + 1) jumps first_ptr_seen False consumed
     else if label_len AND 0xc0 = 0xc0 then
       if pos + 2 > length msg then name_fail out consumed
       else case rd msg (pos + 1) of None \<Rightarrow> None | Some b \<Rightarrow>
         let target = unat (label_len AND 0x3f) * 256 + unat b;
             consumed = (if first_ptr_seen then consumed else pos + 2 - start)
         in if target \<ge> pos then name_fail out consumed
            else if jumps + 1 > DNS_MAX_POINTER_JUMPS then name_fail out consumed
            else decode_name_loop msg start lowercase target out name_octets (jumps + 1) True
                   first_label consumed
     else name_fail out consumed)"
  by pat_completeness auto
termination
  by (relation "measures [\<lambda>(msg, start, lowercase, pos, out, name_octets, jumps, f, l, c).
        DNS_MAX_POINTER_JUMPS - jumps,
      \<lambda>(msg, start, lowercase, pos, out, name_octets, jumps, f, l, c). length msg - pos]") auto

declare decode_name_loop.simps [simp del]

definition decode_name :: "bytes \<Rightarrow> nat \<Rightarrow> bool \<Rightarrow> (bool \<times> string \<times> nat) option" where
  "decode_name msg start lowercase =
    decode_name_loop msg start lowercase start [] 0 0 False True 0"

section \<open>RDATA text\<close>

text \<open>Each decoder takes the \<open>malformed\<close> flag and returns the text with the new flag.\<close>

definition rdata_name_text :: "bytes \<Rightarrow> nat \<Rightarrow> bool \<Rightarrow> (string \<times> bool) option" where
  "rdata_name_text msg off malformed = do {
     (ok, name, consumed) \<leftarrow> decode_name msg off True;
     Some (cf_dup_str name, malformed \<or> \<not> ok) }"

definition rdata_mx_text :: "bytes \<Rightarrow> nat \<Rightarrow> nat \<Rightarrow> bool \<Rightarrow> (string \<times> bool) option" where
  "rdata_mx_text msg off rdlen malformed =
    (if rdlen < 3 then Some ([], True) else do {
       p \<leftarrow> cf_get_be16 msg off;
       (case p of None \<Rightarrow> Some ([], True) | Some pref \<Rightarrow> do {
          (ok, name, consumed) \<leftarrow> decode_name msg (off + 2) True;
          Some (cf_dup_str (snprintf (DNS_NAME_BUF + 16) (dec_string (unat pref) @ '' '' @ cstr name)),
                malformed \<or> \<not> ok) }) })"

definition rdata_srv_text :: "bytes \<Rightarrow> nat \<Rightarrow> nat \<Rightarrow> bool \<Rightarrow> (string \<times> bool) option" where
  "rdata_srv_text msg off rdlen malformed =
    (if rdlen < 7 then Some ([], True) else do {
       a \<leftarrow> cf_get_be16 msg off;
       (case a of None \<Rightarrow> Some ([], True) | Some prio \<Rightarrow> do {
       b \<leftarrow> cf_get_be16 msg (off + 2);
       (case b of None \<Rightarrow> Some ([], True) | Some weight \<Rightarrow> do {
       c \<leftarrow> cf_get_be16 msg (off + 4);
       (case c of None \<Rightarrow> Some ([], True) | Some port \<Rightarrow> do {
          (ok, name, consumed) \<leftarrow> decode_name msg (off + 6) True;
          Some (cf_dup_str (snprintf (DNS_NAME_BUF + 32) (dec_string (unat prio) @ '' '' @
                  dec_string (unat weight) @ '' '' @ dec_string (unat port) @ '' '' @ cstr name)),
                malformed \<or> \<not> ok) }) }) }) })"

definition rdata_soa_text :: "bytes \<Rightarrow> nat \<Rightarrow> nat \<Rightarrow> bool \<Rightarrow> (string \<times> bool) option" where
  "rdata_soa_text msg off rdlen malformed = do {
     let rdata_end = off + rdlen;
     (ok, mname, consumed) \<leftarrow> decode_name msg off True;
     if \<not> ok then Some (cf_dup_str mname, True) else do {
     let p = off + consumed;
     (ok, rname, consumed) \<leftarrow> decode_name msg p True;
     if \<not> ok then Some (cf_dup_str rname, True) else do {
     let p = p + consumed;
     if p + 20 > rdata_end \<or> p + 20 > length msg then Some ([], True) else do {
     a \<leftarrow> cf_get_be32 msg p;
     b \<leftarrow> cf_get_be32 msg (p + 4);
     c \<leftarrow> cf_get_be32 msg (p + 8);
     d \<leftarrow> cf_get_be32 msg (p + 12);
     e \<leftarrow> cf_get_be32 msg (p + 16);
     (case (a, b, c, d, e) of
        (Some serial, Some refresh, Some retry, Some expire, Some minimum) \<Rightarrow>
          Some (cf_dup_str (snprintf (2 * DNS_NAME_BUF + 96)
            (cstr mname @ '' '' @ cstr rname @ '' '' @ dec_string (unat serial) @ '' '' @
             dec_string (unat refresh) @ '' '' @ dec_string (unat retry) @ '' '' @
             dec_string (unat expire) @ '' '' @ dec_string (unat minimum))), malformed)
      | _ \<Rightarrow> Some ([], True)) } } } }"

fun txt_copy :: "bytes \<Rightarrow> nat \<Rightarrow> nat \<Rightarrow> nat \<Rightarrow> string \<Rightarrow> string option" where
  "txt_copy msg p 0 rdlen buf = Some buf"
| "txt_copy msg p (Suc n) rdlen buf =
    (if length buf < rdlen then do {
       c \<leftarrow> rd msg p; txt_copy msg (p + 1) n rdlen (buf @ [chr_of_byte c]) }
     else Some buf)"

function txt_loop :: "bytes \<Rightarrow> nat \<Rightarrow> nat \<Rightarrow> nat \<Rightarrow> string \<Rightarrow> bool \<Rightarrow> bool \<Rightarrow> (string \<times> bool) option" where
  "txt_loop msg p e rdlen buf first malformed =
    (if p < e then
       case rd msg p of None \<Rightarrow> None | Some slen \<Rightarrow>
       let p = p + 1;
           overrun = p + unat slen > e;
           slen = (if overrun then e - p else unat slen);
           buf = (if \<not> first \<and> length buf < rdlen then buf @ '' '' else buf)
       in (case txt_copy msg p slen rdlen buf of None \<Rightarrow> None | Some buf \<Rightarrow>
             txt_loop msg (p + slen) e rdlen buf False (malformed \<or> overrun))
     else Some (buf, malformed))"
  by pat_completeness auto
termination by (relation "measure (\<lambda>(msg, p, e, rdlen, buf, first, malformed). e - p)") auto

declare txt_loop.simps [simp del]

definition rdata_txt_text :: "bytes \<Rightarrow> nat \<Rightarrow> nat \<Rightarrow> bool \<Rightarrow> (string \<times> bool) option" where
  "rdata_txt_text msg off rdlen malformed =
    (let e = off + rdlen;
         malformed = (malformed \<or> e > length msg);
         e = (if e > length msg then length msg else e)
     in if off \<ge> e then Some ([], malformed)
        else do { (buf, malformed) \<leftarrow> txt_loop msg off e rdlen [] True malformed;
                  Some (cstr buf, malformed) })"

definition rdata_text_for ::
  "bytes \<Rightarrow> u32 \<Rightarrow> nat \<Rightarrow> nat \<Rightarrow> bool \<Rightarrow> (string \<times> bool) option" where
  "rdata_text_for msg type off rdlen malformed =
    (if type = 1 then
       if rdlen \<noteq> 4 \<or> off + 4 > length msg then Some ([], True) else do {
         ip \<leftarrow> rd_bytes msg off 4;
         Some (cf_dup_str (cf_format_ip 4 (memcpy_at (replicate 16 0) 0 ip)), malformed) }
     else if type = 28 then
       if rdlen \<noteq> 16 \<or> off + 16 > length msg then Some ([], True) else do {
         ip \<leftarrow> rd_bytes msg off 16;
         Some (cf_dup_str (cf_format_ip 6 ip), malformed) }
     else if type = 2 \<or> type = 5 \<or> type = 12 then rdata_name_text msg off malformed
     else if type = 15 then rdata_mx_text msg off rdlen malformed
     else if type = 33 then rdata_srv_text msg off rdlen malformed
     else if type = 6 then rdata_soa_text msg off rdlen malformed
     else if type = 16 then rdata_txt_text msg off rdlen malformed
     else Some ([], malformed))"

section \<open>The message tree\<close>

record dns_header =
  h_id :: u32
  h_qr :: bool
  h_opcode :: u32
  h_aa :: bool
  h_tc :: bool
  h_rd :: bool
  h_ra :: bool
  h_ad :: bool
  h_cd :: bool
  h_rcode :: u32
  h_qdcount :: u32
  h_ancount :: u32
  h_nscount :: u32
  h_arcount :: u32

record dns_question =
  q_qname :: string
  q_qname_wire :: bytes
  q_qtype :: u32
  q_qtype_name :: string
  q_qclass :: u32

record dns_rr =
  r_name :: string
  r_type :: u32
  r_type_name :: string
  r_class :: u32
  r_ttl :: u32
  r_rdata_raw :: bytes
  r_rdata_text :: string
  r_malformed :: bool

record dns_edns_option =
  o_code :: u32
  o_name :: string
  o_length :: u32
  o_raw_value :: bytes
  o_decoded_text :: string

record dns_edns =
  e_udp_payload_size :: u32
  e_extended_rcode :: u32
  e_version :: u32
  e_do_bit :: bool
  e_options :: "dns_edns_option list"

record dns_message =
  m_header :: dns_header
  m_questions :: "dns_question list"
  m_answers :: "dns_rr list"
  m_authority :: "dns_rr list"
  m_additional :: "dns_rr list"
  m_edns :: "dns_edns option"

record rr_hdr =
  rh_name :: string
  rh_name_malformed :: bool
  rh_type :: u32
  rh_class :: u32
  rh_ttl :: u32
  rh_rdata_off :: nat
  rh_rdlength :: nat
  rh_rdata_overrun :: bool

section \<open>Header and questions\<close>

text \<open>The return values of the readers are ignored here: a failed read leaves its variable
  unset, which is \<open>None\<close>.\<close>

definition build_header :: "bytes \<Rightarrow> dns_header option" where
  "build_header msg = do {
     id \<leftarrow> cf_get_be16 msg 0; id \<leftarrow> id;
     flags1 \<leftarrow> rd msg 2;
     flags2 \<leftarrow> rd msg 3;
     qd \<leftarrow> cf_get_be16 msg 4; qd \<leftarrow> qd;
     an \<leftarrow> cf_get_be16 msg 6; an \<leftarrow> an;
     ns \<leftarrow> cf_get_be16 msg 8; ns \<leftarrow> ns;
     ar \<leftarrow> cf_get_be16 msg 10; ar \<leftarrow> ar;
     Some \<lparr>h_id = ucast id, h_qr = (flags1 AND 0x80) \<noteq> 0,
       h_opcode = ucast (drop_bit 3 flags1 AND 0x0f), h_aa = (flags1 AND 0x04) \<noteq> 0,
       h_tc = (flags1 AND 0x02) \<noteq> 0, h_rd = (flags1 AND 0x01) \<noteq> 0,
       h_ra = (flags2 AND 0x80) \<noteq> 0, h_ad = (flags2 AND 0x20) \<noteq> 0,
       h_cd = (flags2 AND 0x10) \<noteq> 0, h_rcode = ucast (flags2 AND 0x0f),
       h_qdcount = ucast qd, h_ancount = ucast an, h_nscount = ucast ns, h_arcount = ucast ar\<rparr> }"

definition ctx_len :: "bytes \<Rightarrow> nat \<Rightarrow> nat" where
  "ctx_len msg off = (if length msg - off < 16 then length msg - off else 16)"

definition path_index :: "string \<Rightarrow> nat \<Rightarrow> string \<Rightarrow> string" where
  "path_index section_name i suffix = section_name @ ''['' @ dec_string i @ '']'' @ suffix"

text \<open>The result is the question (\<open>None\<close> is NULL), the position and the warnings.\<close>

definition build_question ::
  "bytes \<Rightarrow> nat \<Rightarrow> nat \<Rightarrow> cf_warn_list \<Rightarrow> (dns_question option \<times> nat \<times> cf_warn_list) option" where
  "build_question msg pos index warnings = do {
     let name_start = pos;
     (name_ok, name, consumed) \<leftarrow> decode_name msg name_start True;
     if consumed = 0 then do {
       warnings \<leftarrow> cf_warn warnings ''dns_question_truncated''
         ''question name runs past end of message''
         (snprintf 48 (path_index ''questions'' index ''.qname'')) None 0;
       Some (None, pos, warnings) }
     else do {
       warnings \<leftarrow>
         (if \<not> name_ok then cf_warn warnings ''dns_name_malformed''
            ''malformed compression/label in question name''
            (snprintf 48 (path_index ''questions'' index ''.qname''))
            (Some (msg, name_start)) (ctx_len msg name_start)
          else Some warnings);
       a \<leftarrow> cf_get_be16 msg (name_start + consumed);
       b \<leftarrow> (if a = None then Some None else cf_get_be16 msg (name_start + consumed + 2));
       (case (a, b) of
          (Some qtype, Some qclass) \<Rightarrow> do {
            wire \<leftarrow> cf_set_bytes (Some (msg, name_start)) consumed;
            Some (Some \<lparr>q_qname = cf_dup_str name, q_qname_wire = wire, q_qtype = ucast qtype,
                    q_qtype_name = cf_dup_str (dns_type_name (ucast qtype)),
                    q_qclass = ucast qclass\<rparr>,
                  name_start + consumed + 4, warnings) }
        | _ \<Rightarrow> do {
            warnings \<leftarrow> cf_warn warnings ''dns_question_truncated''
              ''question type/class runs past end of message''
              (snprintf 48 (path_index ''questions'' index [])) None 0;
            Some (None, pos, warnings) }) } }"

section \<open>Resource records\<close>

definition parse_rr_header ::
  "bytes \<Rightarrow> nat \<Rightarrow> cf_warn_list \<Rightarrow> string \<Rightarrow> nat \<Rightarrow> (rr_hdr option \<times> nat \<times> cf_warn_list) option" where
  "parse_rr_header msg pos warnings section_name index = do {
     let name_start = pos;
     (ok, name, consumed) \<leftarrow> decode_name msg name_start True;
     if consumed = 0 then Some (None, pos, warnings) else do {
     a \<leftarrow> cf_get_be16 msg (name_start + consumed);
     b \<leftarrow> (if a = None then Some None else cf_get_be16 msg (name_start + consumed + 2));
     c \<leftarrow> (if b = None then Some None else cf_get_be32 msg (name_start + consumed + 4));
     d \<leftarrow> (if c = None then Some None else cf_get_be16 msg (name_start + consumed + 8));
     (case (a, b, c, d) of
        (Some type, Some rr_class, Some ttl, Some rdlength) \<Rightarrow>
          let h = \<lparr>rh_name = name, rh_name_malformed = \<not> ok, rh_type = ucast type,
                   rh_class = ucast rr_class, rh_ttl = ttl,
                   rh_rdata_off = name_start + consumed + 10, rh_rdlength = unat rdlength,
                   rh_rdata_overrun = False\<rparr>
          in if rh_rdata_off h + unat rdlength > length msg then do {
               warnings \<leftarrow> cf_warn warnings ''dns_rdata_overrun''
                 ''record rdlength exceeds remaining message bytes''
                 (snprintf 64 (path_index section_name index ''.rdata''))
                 (Some (msg, rh_rdata_off h)) (ctx_len msg (rh_rdata_off h));
               Some (Some (h\<lparr>rh_rdlength := length msg - rh_rdata_off h, rh_rdata_overrun := True\<rparr>),
                     length msg, warnings) }
             else do {
               warnings \<leftarrow>
                 (if rh_name_malformed h then cf_warn warnings ''dns_name_malformed''
                    ''malformed compression/label in record name''
                    (snprintf 64 (path_index section_name index ''.name''))
                    (Some (msg, name_start)) (ctx_len msg name_start)
                  else Some warnings);
               Some (Some h, rh_rdata_off h + unat rdlength, warnings) }
      | _ \<Rightarrow> do {
          warnings \<leftarrow> cf_warn warnings ''dns_rr_truncated''
            ''resource record header runs past end of message''
            (snprintf 64 (path_index section_name index [])) None 0;
          Some (None, pos, warnings) }) } }"

definition build_rr :: "bytes \<Rightarrow> rr_hdr \<Rightarrow> dns_rr option" where
  "build_rr msg h = do {
     raw \<leftarrow> cf_set_bytes (Some (msg, rh_rdata_off h)) (rh_rdlength h);
     (txt, malformed) \<leftarrow> rdata_text_for msg (rh_type h) (rh_rdata_off h) (rh_rdlength h)
       (rh_name_malformed h \<or> rh_rdata_overrun h);
     Some \<lparr>r_name = cf_dup_str (rh_name h), r_type = rh_type h,
       r_type_name = cf_dup_str (dns_type_name (rh_type h)), r_class = rh_class h,
       r_ttl = rh_ttl h, r_rdata_raw = raw, r_rdata_text = txt, r_malformed = malformed\<rparr> }"

definition append_rr :: "dns_rr list \<Rightarrow> dns_rr \<Rightarrow> dns_rr list" where
  "append_rr field rr = field @ [rr]"

section \<open>EDNS\<close>

function edns_options ::
  "bytes \<Rightarrow> nat \<Rightarrow> nat \<Rightarrow> dns_edns_option list \<Rightarrow> cf_warn_list \<Rightarrow>
   (dns_edns_option list \<times> cf_warn_list) option" where
  "edns_options msg p e opts warnings =
    (if p + 4 \<le> e then
       case Option.bind (cf_get_be16 msg p) id of None \<Rightarrow> None | Some code \<Rightarrow>
       case Option.bind (cf_get_be16 msg (p + 2)) id of None \<Rightarrow> None | Some olen \<Rightarrow>
       let p' = p + 4;
           overrun = p' + unat olen > e;
           olen = (if overrun then of_nat (e - p') else olen)
       in case (if overrun then cf_warn warnings ''dns_edns_option_overrun''
                  ''EDNS option length exceeds OPT rdata'' ''edns.options'' None 0
                else Some warnings) of None \<Rightarrow> None | Some warnings \<Rightarrow>
          case cf_set_bytes (Some (msg, p')) (unat olen) of None \<Rightarrow> None | Some raw \<Rightarrow>
          edns_options msg (p' + unat olen) e
            (opts @ [\<lparr>o_code = ucast code, o_name = cf_dup_str [], o_length = ucast olen,
                      o_raw_value = raw, o_decoded_text = cf_dup_str []\<rparr>]) warnings
     else Some (opts, warnings))"
  by pat_completeness auto
termination by (relation "measure (\<lambda>(msg, p, e, opts, warnings). e - p)") auto

declare edns_options.simps [simp del]

definition build_edns :: "bytes \<Rightarrow> rr_hdr \<Rightarrow> cf_warn_list \<Rightarrow> (dns_edns \<times> cf_warn_list) option" where
  "build_edns msg h warnings = do {
     let e = rh_rdata_off h + rh_rdlength h;
     let e = (if e > length msg then length msg else e);
     (opts, warnings) \<leftarrow> edns_options msg (rh_rdata_off h) e [] warnings;
     Some (\<lparr>e_udp_payload_size = rh_class h,
            e_extended_rcode = drop_bit 24 (rh_ttl h) AND 0xff,
            e_version = drop_bit 16 (rh_ttl h) AND 0xff,
            e_do_bit = (rh_ttl h AND 0x8000) \<noteq> 0, e_options = opts\<rparr>, warnings) }"

section \<open>Sections and the entry point\<close>

text \<open>The loops \<open>for (i = 0; i < count; i++)\<close>; the first argument is what is left of \<open>count\<close>.\<close>

fun parse_rr_loop ::
  "nat \<Rightarrow> nat \<Rightarrow> bytes \<Rightarrow> nat \<Rightarrow> string \<Rightarrow> dns_rr list \<Rightarrow> cf_warn_list \<Rightarrow>
   (nat \<times> dns_rr list \<times> cf_warn_list) option" where
  "parse_rr_loop 0 i msg pos section_name field warnings = Some (pos, field, warnings)"
| "parse_rr_loop (Suc n) i msg pos section_name field warnings =
    (if pos \<ge> length msg then do {
       warnings \<leftarrow> cf_warn warnings ''dns_section_truncated''
         ''record count exceeds available message bytes'' section_name None 0;
       Some (pos, field, warnings) }
     else do {
       (h, pos, warnings) \<leftarrow> parse_rr_header msg pos warnings section_name i;
       (case h of None \<Rightarrow> Some (pos, field, warnings)
        | Some h \<Rightarrow> do {
            rr \<leftarrow> build_rr msg h;
            let field = append_rr field rr;
            if rh_rdata_overrun h then Some (pos, field, warnings)
            else parse_rr_loop n (i + 1) msg pos section_name field warnings }) })"

definition parse_rr_section ::
  "bytes \<Rightarrow> nat \<Rightarrow> u16 \<Rightarrow> string \<Rightarrow> cf_warn_list \<Rightarrow> (nat \<times> dns_rr list \<times> cf_warn_list) option" where
  "parse_rr_section msg pos count section_name warnings =
    parse_rr_loop (unat count) 0 msg pos section_name [] warnings"

fun question_loop ::
  "nat \<Rightarrow> nat \<Rightarrow> bytes \<Rightarrow> nat \<Rightarrow> dns_question list \<Rightarrow> cf_warn_list \<Rightarrow>
   (nat \<times> dns_question list \<times> cf_warn_list) option" where
  "question_loop 0 i msg pos qs warnings = Some (pos, qs, warnings)"
| "question_loop (Suc n) i msg pos qs warnings =
    (if pos \<ge> length msg then do {
       warnings \<leftarrow> cf_warn warnings ''dns_section_truncated''
         ''qdcount exceeds available message bytes'' ''questions'' None 0;
       Some (pos, qs, warnings) }
     else do {
       (q, pos, warnings) \<leftarrow> build_question msg pos i warnings;
       (case q of None \<Rightarrow> Some (pos, qs, warnings)
        | Some q \<Rightarrow> question_loop n (i + 1) msg pos (qs @ [q]) warnings) })"

text \<open>One record of the additional section: the OPT pseudo-record goes to \<open>edns\<close>.\<close>

definition add_one :: "bytes \<Rightarrow> rr_hdr \<Rightarrow> dns_message \<Rightarrow> cf_warn_list \<Rightarrow> (dns_message \<times> cf_warn_list) option" where
  "add_one msg h m warnings =
    (if rh_type h = 41 then
       (case m_edns m of
          None \<Rightarrow> do {
            (e, warnings) \<leftarrow> build_edns msg h warnings;
            Some (m\<lparr>m_edns := Some e, m_header := (m_header m)\<lparr>h_rcode :=
              push_bit 4 (e_extended_rcode e) OR (h_rcode (m_header m) AND 0x0f)\<rparr>\<rparr>, warnings) }
        | Some _ \<Rightarrow> do {
            warnings \<leftarrow> cf_warn warnings ''dns_multiple_opt''
              ''more than one OPT pseudo-record in additional section'' ''additional'' None 0;
            Some (m, warnings) })
     else do {
       rr \<leftarrow> build_rr msg h;
       Some (m\<lparr>m_additional := append_rr (m_additional m) rr\<rparr>, warnings) })"

fun additional_loop ::
  "nat \<Rightarrow> nat \<Rightarrow> bytes \<Rightarrow> nat \<Rightarrow> dns_message \<Rightarrow> cf_warn_list \<Rightarrow>
   (nat \<times> dns_message \<times> cf_warn_list) option" where
  "additional_loop 0 i msg pos m warnings = Some (pos, m, warnings)"
| "additional_loop (Suc n) i msg pos m warnings =
    (if pos \<ge> length msg then do {
       warnings \<leftarrow> cf_warn warnings ''dns_section_truncated''
         ''arcount exceeds available message bytes'' ''additional'' None 0;
       Some (pos, m, warnings) }
     else do {
       (h, pos, warnings) \<leftarrow> parse_rr_header msg pos warnings ''additional'' i;
       (case h of None \<Rightarrow> Some (pos, m, warnings)
        | Some h \<Rightarrow> do {
            (m, warnings) \<leftarrow> add_one msg h m warnings;
            if rh_rdata_overrun h then Some (pos, m, warnings)
            else additional_loop n (i + 1) msg pos m warnings }) })"

text \<open>The inner \<open>option\<close> is the returned message; \<open>None\<close> is the return value 0. A NULL message
  pointer is \<open>None\<close>.\<close>

definition cf_dns_parse ::
  "bytes option \<Rightarrow> cf_warn_list \<Rightarrow> (dns_message option \<times> cf_warn_list) option" where
  "cf_dns_parse msgp warnings =
    (case msgp of None \<Rightarrow> Some (None, warnings)
     | Some msg \<Rightarrow>
       if length msg < 12 then Some (None, warnings) else do {
         h \<leftarrow> build_header msg;
         (pos, qs, warnings) \<leftarrow> question_loop (unat (h_qdcount h)) 0 msg 12 [] warnings;
         (pos, ans, warnings) \<leftarrow> parse_rr_section msg pos (ucast (h_ancount h)) ''answers'' warnings;
         (pos, auth, warnings) \<leftarrow> parse_rr_section msg pos (ucast (h_nscount h)) ''authority'' warnings;
         (pos, m, warnings) \<leftarrow> additional_loop (unat (h_arcount h)) 0 msg pos
           \<lparr>m_header = h, m_questions = qs, m_answers = ans, m_authority = auth,
            m_additional = [], m_edns = None\<rparr> warnings;
         Some (Some m, warnings) })"

end
