(* ===== verification/Dns_Names.thy ===== *)
theory Dns_Names
  imports Dns
begin

text \<open>
  Name decompression of \<^verbatim>\<open>libs/cloudflow-packet/cf_dns.c\<close> against the format of RFC 1035: an
  inductive specification of the names that start at an offset of a message, and the proof
  that \<open>decode_name\<close> accepts exactly these names within its limits and never leaves the
  message.
\<close>


section \<open>Names: the specification\<close>

text \<open>\<open>dns_name msg pos ls j k\<close>: at offset \<open>pos\<close> of the message starts a name with the labels
  \<open>ls\<close>, which takes \<open>j\<close> compression pointers, each pointing strictly backward, and \<open>k\<close> octets
  at \<open>pos\<close> itself (RFC 1035, 4.1.4).\<close>

inductive dns_name :: "bytes \<Rightarrow> nat \<Rightarrow> bytes list \<Rightarrow> nat \<Rightarrow> nat \<Rightarrow> bool" where
  root: "pos < length msg \<Longrightarrow> msg ! pos = 0 \<Longrightarrow> dns_name msg pos [] 0 1"
| label: "pos < length msg \<Longrightarrow> b = msg ! pos \<Longrightarrow> b AND 0xc0 = 0 \<Longrightarrow> b \<noteq> 0 \<Longrightarrow> n = unat b \<Longrightarrow>
    pos + 1 + n \<le> length msg \<Longrightarrow> dns_name msg (pos + 1 + n) ls j k \<Longrightarrow>
    dns_name msg pos (take n (drop (pos + 1) msg) # ls) j (1 + n + k)"
| pointer: "pos + 2 \<le> length msg \<Longrightarrow> b = msg ! pos \<Longrightarrow> b AND 0xc0 = 0xc0 \<Longrightarrow>
    target = unat (b AND 0x3f) * 256 + unat (msg ! (pos + 1)) \<Longrightarrow> target < pos \<Longrightarrow>
    dns_name msg target ls j k \<Longrightarrow> dns_name msg pos ls (j + 1) 2"

inductive_simps dns_name_at: "dns_name msg pos ls j k"

definition octets :: "bytes list \<Rightarrow> nat" where
  "octets ls = sum_list (map (\<lambda>l. length l + 1) ls)"

definition label_text :: "bool \<Rightarrow> bytes \<Rightarrow> string" where
  "label_text lowercase l = map (\<lambda>c. chr_of_byte (lower lowercase c)) l"

fun dotted :: "string list \<Rightarrow> string" where
  "dotted [] = []"
| "dotted [l] = l"
| "dotted (l # ls) = l @ ''.'' @ dotted ls"

text \<open>The text after the labels \<open>ls\<close> were appended to \<open>out\<close>.\<close>

fun add_labels :: "bool \<Rightarrow> string \<Rightarrow> string list \<Rightarrow> string" where
  "add_labels first out [] = out"
| "add_labels first out (l # ls) = add_labels False ((if first then out else out @ ''.'') @ l) ls"

lemma dotted_append: "dotted ((x @ y) # ls) = x @ dotted (y # ls)"
  by (cases ls) auto

lemma add_labels_dotted: "add_labels False l ls = dotted (l # ls)"
proof (induction ls arbitrary: l)
  case (Cons a ls)
  have "add_labels False l (a # ls) = dotted ((l @ ''.'' @ a) # ls)" using Cons.IH by simp
  also have "\<dots> = l @ dotted ((''.'' @ a) # ls)" by (rule dotted_append)
  also have "\<dots> = l @ ''.'' @ dotted (a # ls)" by (simp only: dotted_append)
  finally show ?case by simp
qed simp

lemma add_labels_first: "add_labels True [] ls = dotted ls"
  by (cases ls) (auto simp: add_labels_dotted)

lemma copy_label_eq:
  "off + n \<le> length msg \<Longrightarrow> length out + n < 512 \<Longrightarrow>
   copy_label msg off n lowercase out = Some (out @ label_text lowercase (take n (drop off msg)))"
proof (induction n arbitrary: off out)
  case (Suc n)
  then show ?case by (simp add: take_Suc_drop label_text_def)
qed (simp add: label_text_def)

definition name_inv :: "string \<Rightarrow> nat \<Rightarrow> bool \<Rightarrow> bool" where
  "name_inv out n first \<longleftrightarrow> n \<le> 255 \<and> (if first then out = [] \<and> n = 0 else length out + 1 = n)"

lemma unat_label: "b AND 0xc0 = 0 \<Longrightarrow> b \<noteq> (0::byte) \<Longrightarrow> 0 < unat b"
  by (simp add: unat_gt_0)

lemma not_label_ptr: "\<not> ((b::byte) AND 0xc0 = 0 \<and> b AND 0xc0 = 0xc0)"
  by auto

text \<open>The label step of the loop, when the invariant holds.\<close>

definition next_text :: "bytes \<Rightarrow> bool \<Rightarrow> nat \<Rightarrow> nat \<Rightarrow> string \<Rightarrow> bool \<Rightarrow> string" where
  "next_text msg lc pos n out first =
    (if first then out else out @ ''.'') @ label_text lc (take n (drop (pos + 1) msg))"

lemma copy_next:
  assumes "name_inv out n first" "pos + 1 + m \<le> length msg" "n + m + 1 \<le> 255"
  shows "copy_label msg (pos + 1) m lc
      (if \<not> first \<and> length out + 1 < DNS_NAME_BUF then out @ ''.'' else out) =
    Some (next_text msg lc pos m out first) \<and>
    name_inv (next_text msg lc pos m out first) (n + m + 1) False"
proof (cases first)
  case True
  with assms copy_label_eq [of "pos + 1" m msg out lc] show ?thesis
    by (simp add: name_inv_def next_text_def label_text_def)
next
  case False
  then have "length out + 1 < 512" using assms by (simp add: name_inv_def)
  with False assms copy_label_eq [of "pos + 1" m msg "out @ ''.''" lc] show ?thesis
    by (simp add: name_inv_def next_text_def label_text_def)
qed

lemma loop_label:
  assumes inv: "name_inv out n first" and pos: "pos < length msg"
    and b: "b = msg ! pos" "b AND 0xc0 = 0" "b \<noteq> 0"
    and l: "pos + 1 + unat b \<le> length msg" "n + unat b + 1 \<le> 255"
  shows "decode_name_loop msg start lc pos out n jumps fps first cons =
      decode_name_loop msg start lc (pos + (1 + unat b)) (next_text msg lc pos (unat b) out first)
        (n + unat b + 1) jumps fps False cons"
proof -
  have "\<not> length msg \<le> pos" "\<not> length msg < pos + 1 + unat b" "\<not> 255 < n + unat b + 1"
    "rd msg pos = Some b" using pos l b by simp_all
  then show ?thesis
    unfolding decode_name_loop.simps [of msg start lc pos out n jumps fps first cons]
    by (simp only: b(2,3) if_True if_False option.case conjunct1 [OF copy_next [OF inv l]] simp_thms)
qed

lemma loop_pointer:
  assumes "pos + 2 \<le> length msg" "b = msg ! pos" "b AND 0xc0 = 0xc0"
    "target = unat (b AND 0x3f) * 256 + unat (msg ! (pos + 1))" "target < pos" "jumps < 128"
  shows "decode_name_loop msg start lc pos out n jumps fps first cons =
    decode_name_loop msg start lc target out n (jumps + 1) True first
      (if fps then cons else pos + 2 - start)"
  using assms by (subst decode_name_loop.simps) (auto simp: Let_def)

lemma dns_name_root:
  "pos < length msg \<Longrightarrow> msg ! pos = 0 \<Longrightarrow> dns_name msg pos ls j k \<longleftrightarrow> ls = [] \<and> j = 0 \<and> k = 1"
  by (subst dns_name_at) auto

lemma dns_name_label:
  "pos < length msg \<Longrightarrow> b = msg ! pos \<Longrightarrow> b AND 0xc0 = 0 \<Longrightarrow> b \<noteq> 0 \<Longrightarrow>
   dns_name msg pos ls j k \<longleftrightarrow> pos + 1 + unat b \<le> length msg \<and>
     (\<exists>ls' k'. ls = take (unat b) (drop (pos + 1) msg) # ls' \<and> k = 1 + unat b + k' \<and>
       dns_name msg (pos + 1 + unat b) ls' j k')"
  by (subst dns_name_at) auto

lemma dns_name_pointer:
  "pos < length msg \<Longrightarrow> b = msg ! pos \<Longrightarrow> b AND 0xc0 = 0xc0 \<Longrightarrow>
   target = unat (b AND 0x3f) * 256 + unat (msg ! (pos + 1)) \<Longrightarrow>
   dns_name msg pos ls j k \<longleftrightarrow> pos + 2 \<le> length msg \<and> target < pos \<and> k = 2 \<and>
     (\<exists>j' k'. j = j' + 1 \<and> dns_name msg target ls j' k')"
  by (subst dns_name_at) auto

lemma dns_name_reserved:
  "pos < length msg \<Longrightarrow> msg ! pos AND 0xc0 \<noteq> 0 \<Longrightarrow> msg ! pos AND 0xc0 \<noteq> 0xc0 \<Longrightarrow> \<not> dns_name msg pos ls j k"
  by (subst dns_name_at) auto

lemma dns_name_outside: "length msg \<le> pos \<Longrightarrow> \<not> dns_name msg pos ls j k"
  by (subst dns_name_at) auto

lemma loop_fails:
  "length msg \<le> pos \<Longrightarrow> decode_name_loop msg start lc pos out n jumps fps first cons = name_fail out cons"
  "pos < length msg \<Longrightarrow> msg ! pos AND 0xc0 \<noteq> 0 \<Longrightarrow> msg ! pos AND 0xc0 \<noteq> 0xc0 \<Longrightarrow>
    decode_name_loop msg start lc pos out n jumps fps first cons = name_fail out cons"
  "pos < length msg \<Longrightarrow> msg ! pos AND 0xc0 = 0 \<Longrightarrow> msg ! pos \<noteq> 0 \<Longrightarrow>
    length msg < pos + 1 + unat (msg ! pos) \<or> 255 < n + unat (msg ! pos) + 1 \<Longrightarrow>
    decode_name_loop msg start lc pos out n jumps fps first cons = name_fail out cons"
  by (subst decode_name_loop.simps, auto)+

lemma loop_root:
  "pos < length msg \<Longrightarrow> msg ! pos = 0 \<Longrightarrow>
   decode_name_loop msg start lc pos out n jumps fps first cons =
     Some (True, out, if fps then cons else pos + 1 - start)"
  by (subst decode_name_loop.simps) auto

lemma loop_pointer_fails:
  assumes "pos < length msg" "b = msg ! pos" "b AND 0xc0 = 0xc0"
    "length msg < pos + 2 \<or> pos \<le> unat (b AND 0x3f) * 256 + unat (msg ! (pos + 1)) \<or> 128 \<le> jumps"
  shows "\<exists>c. decode_name_loop msg start lc pos out n jumps fps first cons = name_fail out c \<and>
    (c = cons \<or> \<not> fps \<and> pos + 2 \<le> length msg \<and> c = pos + 2 - start)"
  using assms by (subst decode_name_loop.simps) (auto simp: Let_def)

lemma name_fail_not [simp]: "name_fail out c \<noteq> Some (True, r)"
  by (cases r) (simp add: name_fail_def)

lemma octets_simps [simp]: "octets [] = 0" "octets (l # ls) = length l + 1 + octets ls"
  by (simp_all add: octets_def)

text \<open>The results the specification allows from a state of the loop.\<close>

definition accepts ::
  "bytes \<Rightarrow> nat \<Rightarrow> bool \<Rightarrow> nat \<Rightarrow> string \<Rightarrow> nat \<Rightarrow> nat \<Rightarrow> bool \<Rightarrow> bool \<Rightarrow> nat \<Rightarrow> string \<Rightarrow> nat \<Rightarrow> bool" where
  "accepts msg start lc pos out n jumps fps first cons out' cons' \<longleftrightarrow>
    (\<exists>ls j k. dns_name msg pos ls j k \<and> n + octets ls \<le> 255 \<and> jumps + j \<le> 128 \<and>
      out' = add_labels first out (map (label_text lc) ls) \<and>
      cons' = (if fps then cons else pos + k - start))"

lemma accepts_root:
  "pos < length msg \<Longrightarrow> msg ! pos = 0 \<Longrightarrow> name_inv out n first \<Longrightarrow> jumps \<le> 128 \<Longrightarrow>
   accepts msg start lc pos out n jumps fps first cons out' cons' \<longleftrightarrow>
     out' = out \<and> cons' = (if fps then cons else pos + 1 - start)"
  by (auto simp: accepts_def dns_name_root name_inv_def)

lemma accepts_none:
  "length msg \<le> pos \<Longrightarrow> \<not> accepts msg start lc pos out n jumps fps first cons out' cons'"
  "pos < length msg \<Longrightarrow> msg ! pos AND 0xc0 \<noteq> 0 \<Longrightarrow> msg ! pos AND 0xc0 \<noteq> 0xc0 \<Longrightarrow>
    \<not> accepts msg start lc pos out n jumps fps first cons out' cons'"
  by (simp_all add: accepts_def dns_name_outside dns_name_reserved)

lemma accepts_label:
  assumes pos: "pos < length msg" and b: "b = msg ! pos" "b AND 0xc0 = 0" "b \<noteq> 0"
    and l: "pos + 1 + unat b \<le> length msg"
  shows "accepts msg start lc pos out n jumps fps first cons out' cons' \<longleftrightarrow>
    accepts msg start lc (pos + (1 + unat b)) (next_text msg lc pos (unat b) out first)
      (n + unat b + 1) jumps fps False cons out' cons'"
    (is "?lhs \<longleftrightarrow> ?rhs")
proof -
  let ?l = "take (unat b) (drop (pos + 1) msg)"
  have oct: "octets (?l # ls) = unat b + 1 + octets ls" for ls using l by simp
  have tx: "add_labels first out (map (label_text lc) (?l # ls)) =
    add_labels False (next_text msg lc pos (unat b) out first) (map (label_text lc) ls)" for ls
    by (simp add: next_text_def)
  have dn: "dns_name msg pos ls j k \<longleftrightarrow> (\<exists>ls' k'. ls = ?l # ls' \<and> k = 1 + unat b + k' \<and>
      dns_name msg (pos + (1 + unat b)) ls' j k')" for ls j k
    using dns_name_label [OF pos b, of ls j k] l by (simp add: add.assoc)
  show ?thesis
  proof
    assume ?lhs
    then obtain ls j k ls' k' where "ls = ?l # ls'" "k = 1 + unat b + k'"
      "dns_name msg (pos + (1 + unat b)) ls' j k'" "n + octets ls \<le> 255" "jumps + j \<le> 128"
      "out' = add_labels first out (map (label_text lc) ls)"
      "cons' = (if fps then cons else pos + k - start)"
      unfolding accepts_def dn by blast
    then show ?rhs
      unfolding accepts_def
      by (intro exI [of _ ls'] exI [of _ j] exI [of _ k']) (simp only: oct tx, auto)
  next
    assume ?rhs
    then obtain ls j k where "dns_name msg (pos + (1 + unat b)) ls j k"
      "n + unat b + 1 + octets ls \<le> 255" "jumps + j \<le> 128"
      "out' = add_labels False (next_text msg lc pos (unat b) out first) (map (label_text lc) ls)"
      "cons' = (if fps then cons else pos + (1 + unat b) + k - start)"
      unfolding accepts_def by blast
    then show ?lhs
      unfolding accepts_def
      by (intro exI [of _ "?l # ls"] exI [of _ j] exI [of _ "1 + unat b + k"])
         (simp only: dn oct tx, auto)
  qed
qed

lemma accepts_label_not:
  assumes "pos < length msg" "b = msg ! pos" "b AND 0xc0 = 0" "b \<noteq> 0"
    "length msg < pos + 1 + unat b \<or> 255 < n + unat b + 1"
  shows "\<not> accepts msg start lc pos out n jumps fps first cons out' cons'"
  using assms by (auto simp: accepts_def dns_name_label [OF assms(1-4)])

lemma accepts_pointer:
  assumes "pos < length msg" "b = msg ! pos" "b AND 0xc0 = 0xc0"
    "target = unat (b AND 0x3f) * 256 + unat (msg ! (pos + 1))"
  shows "accepts msg start lc pos out n jumps fps first cons out' cons' \<longleftrightarrow>
    pos + 2 \<le> length msg \<and> target < pos \<and> accepts msg start lc target out n (jumps + 1) True first
      (if fps then cons else pos + 2 - start) out' cons'"
    (is "?lhs \<longleftrightarrow> ?rhs")
proof
  assume ?lhs
  then obtain ls j k where "pos + 2 \<le> length msg" "target < pos" "dns_name msg target ls j k"
    "n + octets ls \<le> 255" "jumps + 1 + j \<le> 128" "out' = add_labels first out (map (label_text lc) ls)"
    "cons' = (if fps then cons else pos + 2 - start)"
    unfolding accepts_def dns_name_pointer [OF assms] by auto
  then show ?rhs unfolding accepts_def by auto
next
  assume ?rhs
  then obtain ls j k where "pos + 2 \<le> length msg" "target < pos" "dns_name msg target ls j k"
    "n + octets ls \<le> 255" "jumps + 1 + j \<le> 128" "out' = add_labels first out (map (label_text lc) ls)"
    "cons' = (if fps then cons else pos + 2 - start)"
    unfolding accepts_def by auto
  then show ?lhs
    unfolding accepts_def dns_name_pointer [OF assms]
    by (intro exI [of _ ls] exI [of _ "j + 1"] exI [of _ 2]) auto
qed

lemma accepts_jumps: "accepts msg start lc pos out n jumps fps first cons out' cons' \<Longrightarrow> jumps \<le> 128"
  by (auto simp: accepts_def)

lemma decode_name_loop_spec:
  assumes "name_inv out n first" "jumps \<le> 128"
  shows "decode_name_loop msg start lc pos out n jumps fps first cons = Some (True, out', cons') \<longleftrightarrow>
    accepts msg start lc pos out n jumps fps first cons out' cons'"
  using assms
proof (induction msg start lc pos out n jumps fps first cons rule: decode_name_loop.induct)
  case (1 msg start lc pos out n jumps fps first cons)
  let ?b = "msg ! pos"
  consider (fail) "length msg \<le> pos \<or> pos < length msg \<and> ?b AND 0xc0 \<noteq> 0 \<and> ?b AND 0xc0 \<noteq> 0xc0"
    | (root) "pos < length msg" "?b = 0"
    | (label) "pos < length msg" "?b AND 0xc0 = 0" "?b \<noteq> 0"
    | (ptr) "pos < length msg" "?b AND 0xc0 = 0xc0" by force
  then show ?case
  proof cases
    case fail
    then show ?thesis by (auto simp: loop_fails accepts_none)
  next
    case root
    then show ?thesis using "1.prems" by (auto simp: loop_root accepts_root)
  next
    case label
    show ?thesis
    proof (cases "pos + 1 + unat ?b \<le> length msg \<and> n + unat ?b + 1 \<le> 255")
      case True
      note l = conjunct1 [OF True] conjunct2 [OF True]
      note cp = copy_next [OF "1.prems"(1) l, of lc]
      show ?thesis
        unfolding loop_label [OF "1.prems"(1) label(1) refl label(2,3) l]
          accepts_label [OF label(1) refl label(2,3) l(1)]
        using label l cp "1.prems"(2) by (intro "1.IH"(1)) (auto simp: not_le)
    next
      case False
      then show ?thesis
        using label loop_fails(3) [OF label] accepts_label_not [OF label(1) refl label(2,3)] by (auto simp: not_le)
    qed
  next
    case ptr
    let ?t = "unat (?b AND 0x3f) * 256 + unat (msg ! (pos + 1))"
    show ?thesis
    proof (cases "pos + 2 \<le> length msg \<and> ?t < pos \<and> jumps < 128")
      case True
      then show ?thesis
        using loop_pointer [of pos msg, OF _ refl ptr(2) refl, of jumps start lc out n fps first cons]
          ptr "1.prems" "1.IH"(2) [of ?b "msg ! (pos + 1)" ?t "if fps then cons else pos + 2 - start"]
        by (simp add: accepts_pointer [OF ptr(1) refl ptr(2) refl])
    next
      case False
      then obtain c where "decode_name_loop msg start lc pos out n jumps fps first cons = name_fail out c"
        using loop_pointer_fails [OF ptr(1) refl ptr(2)] by (metis not_le)
      moreover have "\<not> accepts msg start lc pos out n jumps fps first cons out' cons'"
        using False by (auto simp: accepts_pointer [OF ptr(1) refl ptr(2) refl] dest: accepts_jumps)
      ultimately show ?thesis by simp
    qed
  qed
qed

lemma decode_name_iff:
  "decode_name msg start lc = Some (True, out, consumed) \<longleftrightarrow>
    (\<exists>ls j. dns_name msg start ls j consumed \<and> octets ls \<le> 255 \<and> j \<le> 128 \<and>
      out = dotted (map (label_text lc) ls))"
  unfolding decode_name_def
  by (subst decode_name_loop_spec) (auto simp: name_inv_def accepts_def add_labels_first)


section \<open>Bounds on every exit\<close>

text \<open>A result of the loop: the text fits the presentation buffer with room for its NUL, and
  the advance stays inside the message.\<close>

definition name_result_ok :: "bytes \<Rightarrow> nat \<Rightarrow> (bool \<times> string \<times> nat) option \<Rightarrow> bool" where
  "name_result_ok msg start r \<longleftrightarrow>
    (case r of None \<Rightarrow> False
     | Some (ok, out, c) \<Rightarrow> length out \<le> 254 \<and> (c = 0 \<or> start + c \<le> length msg) \<and> (ok \<longrightarrow> 0 < c))"

definition adv_inv :: "bytes \<Rightarrow> nat \<Rightarrow> nat \<Rightarrow> bool \<Rightarrow> nat \<Rightarrow> bool" where
  "adv_inv msg start pos fps cons \<longleftrightarrow>
    (if fps then 0 < cons \<and> start + cons \<le> length msg else start \<le> pos \<and> cons = 0)"

lemma name_fail_ok:
  "name_inv out n first \<Longrightarrow> c = 0 \<or> start + c \<le> length msg \<Longrightarrow> name_result_ok msg start (name_fail out c)"
  by (auto simp: name_result_ok_def name_fail_def name_inv_def split: if_splits)

lemma decode_name_loop_bounds:
  assumes "name_inv out n first" "adv_inv msg start pos fps cons" 
  shows "name_result_ok msg start (decode_name_loop msg start lc pos out n jumps fps first cons)"
  using assms
proof (induction msg start lc pos out n jumps fps first cons rule: decode_name_loop.induct)
  case (1 msg start lc pos out n jumps fps first cons)
  let ?b = "msg ! pos"
  have fail: "name_result_ok msg start (name_fail out cons)"
    using "1.prems" by (auto intro!: name_fail_ok simp: adv_inv_def split: if_splits)
  consider (fail) "length msg \<le> pos \<or> pos < length msg \<and> ?b AND 0xc0 \<noteq> 0 \<and> ?b AND 0xc0 \<noteq> 0xc0"
    | (root) "pos < length msg" "?b = 0"
    | (label) "pos < length msg" "?b AND 0xc0 = 0" "?b \<noteq> 0"
    | (ptr) "pos < length msg" "?b AND 0xc0 = 0xc0" by force
  then show ?case
  proof cases
    case fail
    with \<open>name_result_ok msg start (name_fail out cons)\<close> show ?thesis by (auto simp: loop_fails)
  next
    case root
    then show ?thesis using "1.prems"
      by (auto simp: loop_root name_result_ok_def name_inv_def adv_inv_def split: if_splits)
  next
    case label
    show ?thesis
    proof (cases "pos + 1 + unat ?b \<le> length msg \<and> n + unat ?b + 1 \<le> 255")
      case True
      note l = conjunct1 [OF True] conjunct2 [OF True]
      note cp = copy_next [OF "1.prems"(1) l, of lc]
      show ?thesis
        unfolding loop_label [OF "1.prems"(1) label(1) refl label(2,3) l]
        using label l cp "1.prems"(2) by (intro "1.IH"(1)) (auto simp: not_le adv_inv_def)
    next
      case False
      then show ?thesis using fail loop_fails(3) [OF label] by (simp add: not_le)
    qed
  next
    case ptr
    let ?t = "unat (?b AND 0x3f) * 256 + unat (msg ! (pos + 1))"
    let ?c = "if fps then cons else pos + 2 - start"
    show ?thesis
    proof (cases "pos + 2 \<le> length msg \<and> ?t < pos \<and> jumps < 128")
      case True
      then have "adv_inv msg start ?t True ?c" using "1.prems"(2) by (auto simp: adv_inv_def)
      with True show ?thesis
        using loop_pointer [of pos msg, OF _ refl ptr(2) refl, of jumps start lc out n fps first cons]
          ptr "1.prems"(1) "1.IH"(2) [of ?b "msg ! (pos + 1)" ?t ?c]
        by simp
    next
      case False
      then obtain c where c: "decode_name_loop msg start lc pos out n jumps fps first cons = name_fail out c"
        "c = cons \<or> \<not> fps \<and> pos + 2 \<le> length msg \<and> c = pos + 2 - start"
        using loop_pointer_fails [OF ptr(1) refl ptr(2)] by (metis not_le)
      then have "c = 0 \<or> start + c \<le> length msg"
        using "1.prems"(2) by (auto simp: adv_inv_def split: if_splits)
      with c "1.prems"(1) show ?thesis by (simp add: name_fail_ok)
    qed
  qed
qed

lemma decode_name_bounds:
  obtains ok out c where "decode_name msg start lc = Some (ok, out, c)" "length out \<le> 254"
    "c = 0 \<or> start + c \<le> length msg" "ok \<Longrightarrow> 0 < c"
proof -
  have "name_result_ok msg start (decode_name msg start lc)"
    unfolding decode_name_def by (rule decode_name_loop_bounds) (simp_all add: name_inv_def adv_inv_def)
  with that show thesis by (auto simp: name_result_ok_def split: option.splits)
qed

section \<open>Uncompressed names\<close>

definition encode_labels :: "bytes list \<Rightarrow> bytes" where
  "encode_labels ls = concat (map (\<lambda>l. of_nat (length l) # l) ls)"

lemma encode_labels_simps [simp]:
  "encode_labels [] = []" "encode_labels (l # ls) = of_nat (length l) # l @ encode_labels ls"
  by (simp_all add: encode_labels_def)

lemma length_encode_labels: "length (encode_labels ls) = octets ls"
  by (induction ls) auto

lemma label_octet:
  assumes "0 < n" "n \<le> 63"
  shows "(of_nat n :: byte) AND 0xc0 = 0" "(of_nat n :: byte) \<noteq> 0" "unat (of_nat n :: byte) = n"
proof -
  show u: "unat (of_nat n :: byte) = n" using assms by (simp add: unat_of_nat take_bit_nat_eq_self)
  then show "(of_nat n :: byte) \<noteq> 0" using assms by (metis not_gr_zero unsigned_0)
  have "n \<in> set [1..<64]" using assms by simp
  then show "(of_nat n :: byte) AND 0xc0 = 0" by (simp add: upt_rec) (elim disjE; simp)
qed

lemma dns_name_encode:
  assumes "\<forall>l \<in> set ls. 0 < length l \<and> length l \<le> 63"
  shows "dns_name (pre @ encode_labels ls @ 0 # post) (length pre) ls 0 (octets ls + 1)"
  using assms
proof (induction ls arbitrary: pre)
  case Nil
  then show ?case using root [of "length pre" "pre @ 0 # post"] by simp
next
  case (Cons l ls)
  let ?b = "of_nat (length l) :: byte"
  let ?msg = "pre @ encode_labels (l # ls) @ 0 # post"
  have b: "?b AND 0xc0 = 0" "?b \<noteq> 0" "unat ?b = length l" using label_octet Cons.prems by auto
  have "dns_name ?msg (length pre + 1 + length l) ls 0 (octets ls + 1)"
    using Cons.IH [of "pre @ ?b # l"] Cons.prems by simp
  then have "dns_name ?msg (length pre) (take (length l) (drop (length pre + 1) ?msg) # ls) 0
      (1 + length l + (octets ls + 1))"
    using b by (intro label [OF _ refl]) auto
  then show ?case by simp
qed

section \<open>Properties\<close>

text \<open>C19. Name decompression is sound and complete: \<open>decode_name\<close> succeeds at an offset exactly
  when a well-formed name starts there (labels of at most 63 octets inside the message and
  strictly backward pointers, ending in the root label) with at most 255 label octets and 128 pointer jumps;
  it then returns the dotted labels, lowercased on request, and the octets the name occupies at
  the offset.\<close>

theorem decode_name_correct:
  "decode_name msg start lc = Some (True, out, consumed) \<longleftrightarrow>
    (\<exists>ls j. dns_name msg start ls j consumed \<and> octets ls \<le> 255 \<and> j \<le> 128 \<and>
      out = dotted (map (label_text lc) ls))"
  by (rule decode_name_iff)

text \<open>Name decompression ends on every message and offset without reading outside the
  message, its text never exceeds 254 characters (the buffer holds 512), and the advance it
  reports never leaves the message.\<close>

theorem decode_name_safe:
  "\<exists>ok out c. decode_name msg start lc = Some (ok, out, c) \<and> length out \<le> 254 \<and>
     (c = 0 \<or> start + c \<le> length msg) \<and> (\<not> ok \<or> 0 < c)"
  by (rule decode_name_bounds [of msg start lc]) blast

theorem decode_name_safe_witness:
  "\<exists>ok out c. decode_name [1, 97, 0xc0, 0] 0 True = Some (ok, out, c) \<and> length out \<le> 254 \<and>
     (c = 0 \<or> 0 + c \<le> length [1, 97, 0xc0, 0 :: byte]) \<and> (\<not> ok \<or> 0 < c)"
  by (rule decode_name_safe)

text \<open>Round trip: the wire encoding of a name with labels of 1 to 63 octets and at most 255
  label octets, anywhere in a message, decodes to its dotted labels and is consumed exactly.\<close>

theorem decode_encoded_name:
  assumes "\<forall>l \<in> set ls. 0 < length l \<and> length l \<le> 63" "octets ls \<le> 255"
  shows "decode_name (pre @ encode_labels ls @ 0 # post) (length pre) lc =
    Some (True, dotted (map (label_text lc) ls), length (encode_labels ls) + 1)"
  unfolding decode_name_iff length_encode_labels using dns_name_encode [OF assms(1)] assms(2) by blast

theorem decode_encoded_name_witness:
  "decode_name ([9, 9] @ encode_labels [[87, 119, 87], [97]] @ 0 # [1]) (length [9, 9 :: byte]) True =
    Some (True, ''www.a'', 7)"
  using decode_encoded_name [of "[[87, 119, 87], [97]]" "[9, 9]" "[1]" True]
  by (simp add: label_text_def lower_def chr_of_byte_def char_of_def bit_simps bit_0)

text \<open>The length limit counts the label octets but not the root label: a name that takes
  256 octets on the wire (labels of 63, 63, 63 and 62 octets, and the root) is accepted, where
  RFC 1035 and the comment in the source allow at most 255.\<close>

theorem name_of_256_octets_accepted:
  "\<exists>out. decode_name (encode_labels (map (\<lambda>n. replicate n 97) [63, 63, 63, 62]) @ [0]) 0 True =
     Some (True, out, 256)"
proof -
  let ?ls = "map (\<lambda>n. replicate n (97 :: byte)) [63, 63, 63, 62]"
  have "dns_name (encode_labels ?ls @ [0]) 0 ?ls 0 (octets ?ls + 1)"
    using dns_name_encode [of ?ls "[]" "[]"] by simp
  then show ?thesis
    unfolding decode_name_iff
    by (intro exI [of _ "dotted (map (label_text True) ?ls)"] exI [of _ ?ls] exI [of _ 0])
       (simp del: encode_labels_simps)
qed

end
