(* ===== verification/Dns_Message.thy ===== *)
theory Dns_Message
  imports Dns_Names
begin

text \<open>
  The DNS parser of \<^verbatim>\<open>libs/cloudflow-packet/cf_dns.c\<close> as a whole: every decoder, section loop and
  the entry point run to a result without reading outside the message, and what they build is
  bounded by the message.
\<close>


section \<open>Warnings\<close>

lemma cf_warn_null [simp]:
  "\<exists>w'. cf_warn w c m p None 0 = Some w'"
  by (simp add: cf_warn_def cf_set_bytes_def Let_def)

lemma cf_warn_ctx [simp]:
  "off \<le> length msg \<Longrightarrow> \<exists>w'. cf_warn w c m p (Some (msg, off)) (ctx_len msg off) = Some w'"
  by (auto simp: cf_warn_def cf_set_bytes_def Let_def ctx_len_def)

lemma cf_set_bytes_in: "off + n \<le> length msg \<Longrightarrow> cf_set_bytes (Some (msg, off)) n = Some (take n (drop off msg))"
  by (simp add: cf_set_bytes_def)

section \<open>RDATA decoders run to a result\<close>

lemma rdata_name_safe: "rdata_name_text msg off m \<noteq> None"
  by (rule decode_name_bounds [of msg off True]) (simp add: rdata_name_text_def)

lemma rdata_mx_safe: "rdata_mx_text msg off n m \<noteq> None"
  by (rule decode_name_bounds [of msg "off + 2" True])
     (auto simp: rdata_mx_text_def cf_get_be16_eq simp del: add_2_eq_Suc')

lemma rdata_srv_safe: "rdata_srv_text msg off n m \<noteq> None"
  by (rule decode_name_bounds [of msg "off + 6" True])
     (auto simp: rdata_srv_text_def cf_get_be16_eq)

lemma rdata_soa_safe: "rdata_soa_text msg off n m \<noteq> None"
proof -
  obtain ok mname c where 1: "decode_name msg off True = Some (ok, mname, c)"
    by (rule decode_name_bounds)
  obtain ok' rname c' where 2: "decode_name msg (off + c) True = Some (ok', rname, c')"
    by (rule decode_name_bounds)
  show ?thesis by (auto simp: rdata_soa_text_def 1 2 cf_get_be32_eq Let_def)
qed

lemma txt_copy_safe:
  "p + n \<le> length msg \<Longrightarrow> length buf \<le> rdlen \<Longrightarrow>
   \<exists>buf'. txt_copy msg p n rdlen buf = Some buf' \<and> length buf' \<le> rdlen"
  by (induction n arbitrary: p buf) auto

lemma txt_loop_safe:
  assumes "e \<le> length msg" "length buf \<le> rdlen"
  shows "\<exists>buf' m'. txt_loop msg p e rdlen buf first m = Some (buf', m') \<and> length buf' \<le> rdlen"
  using assms
proof (induction msg p e rdlen buf first m rule: txt_loop.induct)
  case (1 msg p e rdlen buf first m)
  show ?case
  proof (cases "p < e")
    case True
    then have r: "rd msg p = Some (msg ! p)" using "1.prems" by simp
    let ?o = "p + 1 + unat (msg ! p) > e"
    let ?n = "if ?o then e - (p + 1) else unat (msg ! p)"
    let ?b = "if \<not> first \<and> length buf < rdlen then buf @ '' '' else buf"
    have "p + 1 + ?n \<le> length msg" "length ?b \<le> rdlen" using True "1.prems" by auto
    from txt_copy_safe [OF this] obtain buf' where
      b: "txt_copy msg (p + 1) ?n rdlen ?b = Some buf'" "length buf' \<le> rdlen" by blast
    have "\<exists>b m'. txt_loop msg (p + 1 + ?n) e rdlen buf' False (m \<or> ?o) = Some (b, m') \<and> length b \<le> rdlen"
      by (rule "1.IH" [OF True r refl refl refl refl b(1) "1.prems"(1) b(2)])
    then show ?thesis
      using b(1) by (subst txt_loop.simps) (simp only: True r if_True option.case Let_def)
  next
    case False
    then show ?thesis using "1.prems" by (subst txt_loop.simps) simp
  qed
qed

lemma rdata_txt_safe: "rdata_txt_text msg off n m \<noteq> None"
proof -
  let ?e = "if off + n > length msg then length msg else off + n"
  have "?e \<le> length msg" by simp
  from txt_loop_safe [OF this, of "[]" n off True "m \<or> off + n > length msg"]
  show ?thesis by (auto simp: rdata_txt_text_def Let_def)
qed

lemma rdata_text_safe: "rdata_text_for msg t off n m \<noteq> None"
  using rdata_name_safe rdata_mx_safe rdata_srv_safe rdata_soa_safe rdata_txt_safe
  by (auto simp: rdata_text_for_def)

section \<open>Records\<close>

definition slice_of :: "bytes \<Rightarrow> bytes \<Rightarrow> bool" where
  "slice_of msg bs \<longleftrightarrow> (\<exists>pre post. msg = pre @ bs @ post)"

lemma slice_of_take: "off + n \<le> length msg \<Longrightarrow> slice_of msg (take n (drop off msg))"
  unfolding slice_of_def
  by (intro exI [of _ "take off msg"] exI [of _ "drop (off + n) msg"])
     (simp add: drop_drop [symmetric] add.commute del: drop_drop)

lemma length_dup_str: "length (cf_dup_str s) \<le> length s"
  by (simp add: cf_dup_str_def cstr_def length_takeWhile_le)

definition rr_ok :: "bytes \<Rightarrow> dns_rr \<Rightarrow> bool" where
  "rr_ok msg rr \<longleftrightarrow> length (r_name rr) \<le> 254 \<and> slice_of msg (r_rdata_raw rr)"

definition q_ok :: "bytes \<Rightarrow> dns_question \<Rightarrow> bool" where
  "q_ok msg q \<longleftrightarrow> length (q_qname q) \<le> 254 \<and> slice_of msg (q_qname_wire q)"

text \<open>What a parsed record header guarantees.\<close>

definition hdr_ok :: "bytes \<Rightarrow> nat \<Rightarrow> nat \<Rightarrow> rr_hdr \<Rightarrow> bool" where
  "hdr_ok msg pos pos' h \<longleftrightarrow> length (rh_name h) \<le> 254 \<and> pos + 11 \<le> rh_rdata_off h \<and>
     rh_rdata_off h + rh_rdlength h = pos' \<and> pos' \<le> length msg"

definition hdr_result :: "bytes \<Rightarrow> nat \<Rightarrow> (rr_hdr option \<times> nat \<times> cf_warn_list) option \<Rightarrow> bool" where
  "hdr_result msg pos r =
    (case r of None \<Rightarrow> False
     | Some (None, pos', w) \<Rightarrow> pos' = pos
     | Some (Some h, pos', w) \<Rightarrow> hdr_ok msg pos pos' h)"

lemma parse_rr_header_safe:
  assumes "pos \<le> length msg"
  shows "hdr_result msg pos (parse_rr_header msg pos w s i)"
proof (rule decode_name_bounds [of msg pos True])
  fix ok name c
  assume d: "decode_name msg pos True = Some (ok, name, c)" "length name \<le> 254"
    "c = 0 \<or> pos + c \<le> length msg"
  show ?thesis
  proof (cases "c = 0 \<or> length msg < pos + c + 10")
    case True
    obtain w' where "cf_warn w ''dns_rr_truncated'' ''resource record header runs past end of message''
      (snprintf 64 (path_index s i [])) None 0 = Some w'" using cf_warn_null by blast
    with True d(1) show ?thesis
      by (cases "c = 0")
         (auto simp: parse_rr_header_def hdr_result_def cf_get_be16_eq cf_get_be32_eq split: option.splits)
  next
    case False
    then have c: "0 < c" "pos + c + 10 \<le> length msg" by auto
    obtain w1 where w1: "cf_warn w ''dns_rdata_overrun'' ''record rdlength exceeds remaining message bytes''
      (snprintf 64 (path_index s i ''.rdata'')) (Some (msg, pos + c + 10)) (ctx_len msg (pos + c + 10)) = Some w1"
      using cf_warn_ctx [OF c(2)] by blast
    obtain w2 where w2: "cf_warn w ''dns_name_malformed'' ''malformed compression/label in record name''
      (snprintf 64 (path_index s i ''.name'')) (Some (msg, pos)) (ctx_len msg pos) = Some w2"
      using cf_warn_ctx [OF assms] by blast
    show ?thesis
      using c d(2)
      by (simp add: parse_rr_header_def d(1) cf_get_be16_eq cf_get_be32_eq w1 w2 hdr_result_def
          hdr_ok_def Let_def)
  qed
qed

lemma build_rr_safe:
  assumes "hdr_ok msg pos pos' h"
  obtains rr where "build_rr msg h = Some rr" "rr_ok msg rr"
proof -
  obtain t m where t: "rdata_text_for msg (rh_type h) (rh_rdata_off h) (rh_rdlength h)
      (rh_name_malformed h \<or> rh_rdata_overrun h) = Some (t, m)"
    using rdata_text_safe by force
  have l: "rh_rdata_off h + rh_rdlength h \<le> length msg" using assms by (simp add: hdr_ok_def)
  then have r: "cf_set_bytes (Some (msg, rh_rdata_off h)) (rh_rdlength h) =
      Some (take (rh_rdlength h) (drop (rh_rdata_off h) msg))" by (simp add: cf_set_bytes_def)
  from length_dup_str [of "rh_name h"] assms have "length (cf_dup_str (rh_name h)) \<le> 254"
    by (simp add: hdr_ok_def)
  then show thesis using that slice_of_take [OF l] by (simp add: build_rr_def r t rr_ok_def)
qed

text \<open>The result of a section loop that started at \<open>pos\<close> with \<open>field\<close>: the new records are
  well formed, at most \<open>n\<close>, and each took at least \<open>k\<close> octets of the message.\<close>

definition loop_result :: "nat \<Rightarrow> ('a \<Rightarrow> bool) \<Rightarrow> nat \<Rightarrow> nat \<Rightarrow> nat \<Rightarrow> 'a list \<Rightarrow>
    (nat \<times> 'a list \<times> cf_warn_list) option \<Rightarrow> bool" where
  "loop_result k P n len pos field r =
    (case r of None \<Rightarrow> False
     | Some (pos', field', w) \<Rightarrow> pos' \<le> len \<and>
         (\<exists>new. field' = field @ new \<and> length new \<le> n \<and> pos + k * length new \<le> pos' \<and> list_all P new))"

lemma loop_result_stop: "pos \<le> len \<Longrightarrow> loop_result k P n len pos field (Some (pos, field, w))"
  by (simp add: loop_result_def)

lemma loop_result_last:
  "pos + k \<le> pos' \<Longrightarrow> pos' \<le> len \<Longrightarrow> P x \<Longrightarrow> loop_result k P (Suc n) len pos field (Some (pos', field @ [x], w))"
  by (simp add: loop_result_def)

lemma loop_result_step:
  assumes "pos + k \<le> pos'" "P x" "loop_result k P n len pos' (field @ [x]) r"
  shows "loop_result k P (Suc n) len pos field r"
proof -
  obtain pos'' new w where r: "r = Some (pos'', (field @ [x]) @ new, w)" "pos'' \<le> len" "length new \<le> n"
      "pos' + k * length new \<le> pos''" "list_all P new"
    using assms(3) by (auto simp: loop_result_def split: option.splits)
  then show ?thesis
    using assms(1,2) by (auto simp: loop_result_def intro!: exI [of _ "x # new"])
qed

lemma parse_rr_loop_safe:
  "pos \<le> length msg \<Longrightarrow>
   loop_result 11 (rr_ok msg) n (length msg) pos field (parse_rr_loop n i msg pos s field w)"
proof (induction n arbitrary: i pos field w)
  case (Suc n)
  show ?case
  proof (cases "length msg \<le> pos")
    case True
    obtain w' where "cf_warn w ''dns_section_truncated'' ''record count exceeds available message bytes''
      s None 0 = Some w'" using cf_warn_null by blast
    with True Suc.prems show ?thesis by (simp add: loop_result_stop)
  next
    case False
    obtain h pos' w' where h: "parse_rr_header msg pos w s i = Some (h, pos', w')"
      and hr: "hdr_result msg pos (Some (h, pos', w'))"
      using parse_rr_header_safe [OF Suc.prems, of w s i]
      by (cases "parse_rr_header msg pos w s i") (auto simp: hdr_result_def)
    show ?thesis
    proof (cases h)
      case None
      with False h hr Suc.prems show ?thesis by (simp add: hdr_result_def loop_result_stop)
    next
      case (Some hd)
      with hr have ok: "hdr_ok msg pos pos' hd" by (simp add: hdr_result_def)
      then have p: "pos + 11 \<le> pos'" "pos' \<le> length msg" by (auto simp: hdr_ok_def)
      obtain rr where rr: "build_rr msg hd = Some rr" "rr_ok msg rr" by (rule build_rr_safe [OF ok])
      have "parse_rr_loop (Suc n) i msg pos s field w =
        (if rh_rdata_overrun hd then Some (pos', field @ [rr], w')
         else parse_rr_loop n (i + 1) msg pos' s (field @ [rr]) w')"
        using False by (simp add: h Some rr(1) append_rr_def)
      then show ?thesis
        using loop_result_last [where P = "rr_ok msg", OF p rr(2)]
          loop_result_step [where P = "rr_ok msg", OF p(1) rr(2) Suc.IH [OF p(2)]] by simp
    qed
  qed
qed (simp add: loop_result_stop)

section \<open>Questions\<close>

definition q_result :: "bytes \<Rightarrow> nat \<Rightarrow> (dns_question option \<times> nat \<times> cf_warn_list) option \<Rightarrow> bool" where
  "q_result msg pos r =
    (case r of None \<Rightarrow> False
     | Some (None, pos', w) \<Rightarrow> pos' = pos
     | Some (Some q, pos', w) \<Rightarrow> pos + 5 \<le> pos' \<and> pos' \<le> length msg \<and> q_ok msg q)"

lemma build_question_safe:
  assumes "pos \<le> length msg"
  shows "q_result msg pos (build_question msg pos i w)"
proof (rule decode_name_bounds [of msg pos True])
  fix ok name c
  assume d: "decode_name msg pos True = Some (ok, name, c)" "length name \<le> 254"
    "c = 0 \<or> pos + c \<le> length msg"
  have "\<exists>w'. (if \<not> ok then cf_warn w ''dns_name_malformed''
            ''malformed compression/label in question name''
            (snprintf 48 (path_index ''questions'' i ''.qname'')) (Some (msg, pos)) (ctx_len msg pos)
          else Some w) = Some w'" using assms by (cases ok) simp_all
  then obtain w' where w': "(if \<not> ok then cf_warn w ''dns_name_malformed''
            ''malformed compression/label in question name''
            (snprintf 48 (path_index ''questions'' i ''.qname'')) (Some (msg, pos)) (ctx_len msg pos)
          else Some w) = Some w'" by blast
  have warn: "\<exists>w'. cf_warn w c m p None 0 = Some w'" for w c m p by (rule cf_warn_null)
  consider (zero) "c = 0" | (short) "0 < c" "length msg < pos + c + 4" | (ok) "0 < c" "pos + c + 4 \<le> length msg"
    by linarith
  then show ?thesis
  proof cases
    case zero
    obtain w'' where "cf_warn w ''dns_question_truncated'' ''question name runs past end of message''
      (snprintf 48 (path_index ''questions'' i ''.qname'')) None 0 = Some w''" using warn by blast
    with zero d(1) show ?thesis by (simp add: build_question_def q_result_def)
  next
    case short
    obtain w'' where "cf_warn w' ''dns_question_truncated'' ''question type/class runs past end of message''
      (snprintf 48 (path_index ''questions'' i [])) None 0 = Some w''" using warn by blast
    with short d(1) show ?thesis
      by (auto simp: build_question_def q_result_def cf_get_be16_eq w' split: option.splits)
  next
    case ok
    then have l: "pos + c \<le> length msg" by simp
    then have "cf_set_bytes (Some (msg, pos)) c = Some (take c (drop pos msg))"
      by (simp add: cf_set_bytes_def)
    moreover have "length (cf_dup_str name) \<le> 254" using length_dup_str [of name] d(2) by simp
    ultimately show ?thesis
      using ok slice_of_take [OF l] by (simp add: build_question_def d(1) w' cf_get_be16_eq q_result_def q_ok_def)
  qed
qed

lemma question_loop_safe:
  "pos \<le> length msg \<Longrightarrow>
   loop_result 5 (q_ok msg) n (length msg) pos qs (question_loop n i msg pos qs w)"
proof (induction n arbitrary: i pos qs w)
  case (Suc n)
  show ?case
  proof (cases "length msg \<le> pos")
    case True
    obtain w' where "cf_warn w ''dns_section_truncated'' ''qdcount exceeds available message bytes''
      ''questions'' None 0 = Some w'" using cf_warn_null by blast
    with True Suc.prems show ?thesis by (simp add: loop_result_stop)
  next
    case False
    obtain q pos' w' where q: "build_question msg pos i w = Some (q, pos', w')"
      and qr: "q_result msg pos (Some (q, pos', w'))"
      using build_question_safe [OF Suc.prems, of i w]
      by (cases "build_question msg pos i w") (auto simp: q_result_def)
    show ?thesis
    proof (cases q)
      case None
      with False q qr Suc.prems show ?thesis by (simp add: q_result_def loop_result_stop)
    next
      case (Some qq)
      with qr have p: "pos + 5 \<le> pos'" "pos' \<le> length msg" "q_ok msg qq" by (auto simp: q_result_def)
      with False q Some show ?thesis
        using loop_result_step [where P = "q_ok msg", OF p(1,3) Suc.IH [OF p(2)]] by simp
    qed
  qed
qed (simp add: loop_result_stop)

section \<open>EDNS and the additional section\<close>

lemma clamp16: "(\<not> c \<Longrightarrow> unat w \<le> k) \<Longrightarrow> unat (if c then of_nat k else w :: u16) \<le> k"
  by (cases c) (simp_all add: unat_of_nat take_bit_nat_less_eq_self)

lemma edns_options_safe:
  assumes "e \<le> length msg"
  shows "\<exists>opts' w'. edns_options msg p e opts w = Some (opts', w')"
  using assms
proof (induction msg p e opts w rule: edns_options.induct)
  case (1 msg p e opts w)
  show ?case
  proof (cases "p + 4 \<le> e")
    case True
    let ?code = "be16 (msg ! p) (msg ! (p + 1))" and ?ol = "be16 (msg ! (p + 2)) (msg ! (p + 3))"
    let ?over = "p + 4 + unat ?ol > e"
    let ?len = "if ?over then of_nat (e - (p + 4)) else ?ol"
    have r: "Option.bind (cf_get_be16 msg p) id = Some ?code"
      "Option.bind (cf_get_be16 msg (p + 2)) id = Some ?ol"
      using True "1.prems" by (simp_all add: cf_get_be16_eq numeral_3_eq_3)
    have "unat ?len \<le> e - (p + 4)" by (rule clamp16) auto
    then have "p + 4 + unat ?len \<le> length msg" using True "1.prems" by linarith
    then obtain raw where raw: "cf_set_bytes (Some (msg, p + 4)) (unat ?len) = Some raw"
      using cf_set_bytes_in by blast
    have "\<exists>w'. (if ?over then cf_warn w ''dns_edns_option_overrun''
         ''EDNS option length exceeds OPT rdata'' ''edns.options'' None 0 else Some w) = Some w'"
      by (cases ?over) simp_all
    then obtain w' where w': "(if ?over then cf_warn w ''dns_edns_option_overrun''
         ''EDNS option length exceeds OPT rdata'' ''edns.options'' None 0 else Some w) = Some w'" by blast
    show ?thesis
      using "1.IH" [OF True r refl refl refl w' raw "1.prems"]
      by (subst edns_options.simps) (simp only: True r if_True option.case Let_def w' raw)
  next
    case False
    then show ?thesis by (subst edns_options.simps) simp
  qed
qed

lemma build_edns_safe: "\<exists>e w'. build_edns msg h w = Some (e, w')"
proof -
  let ?e = "if rh_rdata_off h + rh_rdlength h > length msg then length msg else rh_rdata_off h + rh_rdlength h"
  obtain opts w' where "edns_options msg (rh_rdata_off h) ?e [] w = Some (opts, w')"
    using edns_options_safe [of ?e msg] by fastforce
  then show ?thesis by (simp add: build_edns_def)
qed

text \<open>What the additional loop keeps of the message and what it adds.\<close>

definition add_result :: "bytes \<Rightarrow> nat \<Rightarrow> nat \<Rightarrow> dns_message \<Rightarrow>
    (nat \<times> dns_message \<times> cf_warn_list) option \<Rightarrow> bool" where
  "add_result msg n pos m r =
    (case r of None \<Rightarrow> False
     | Some (pos', m', w) \<Rightarrow> pos' \<le> length msg \<and> m_questions m' = m_questions m \<and>
         m_answers m' = m_answers m \<and> m_authority m' = m_authority m \<and>
         m_header m'\<lparr>h_rcode := 0\<rparr> = m_header m\<lparr>h_rcode := 0\<rparr> \<and>
         (\<exists>new. m_additional m' = m_additional m @ new \<and> length new \<le> n \<and>
            pos + 11 * length new \<le> pos' \<and> list_all (rr_ok msg) new))"

lemma add_one_safe:
  assumes "hdr_ok msg pos pos' h"
  shows "\<exists>m' w'. add_one msg h m w = Some (m', w') \<and> add_result msg 1 pos m (Some (pos', m', w'))"
proof -
  have p: "pos + 11 \<le> pos'" "pos' \<le> length msg" using assms by (auto simp: hdr_ok_def)
  obtain rr where rr: "build_rr msg h = Some rr" "rr_ok msg rr" by (rule build_rr_safe [OF assms])
  obtain e w1 where e: "build_edns msg h w = Some (e, w1)" using build_edns_safe by blast
  obtain w2 where w2: "cf_warn w ''dns_multiple_opt''
      ''more than one OPT pseudo-record in additional section'' ''additional'' None 0 = Some w2"
    using cf_warn_null by blast
  show ?thesis
    using p by (cases "rh_type h = 41"; cases "m_edns m")
      (simp_all add: add_one_def rr e w2 add_result_def append_rr_def)
qed

lemma add_result_trans:
  assumes "add_result msg 1 pos m (Some (pos', m', w'))" "add_result msg n pos' m' r"
  shows "add_result msg (Suc n) pos m r"
proof -
  obtain new where "m_additional m' = m_additional m @ new" "length new \<le> 1"
      "pos + 11 * length new \<le> pos'" "list_all (rr_ok msg) new"
    using assms(1) by (auto simp: add_result_def)
  moreover obtain pos'' m'' w'' new' where "r = Some (pos'', m'', w'')" "m_additional m'' = m_additional m' @ new'"
      "length new' \<le> n" "pos' + 11 * length new' \<le> pos''" "list_all (rr_ok msg) new'"
    using assms(2) by (auto simp: add_result_def split: option.splits)
  ultimately show ?thesis
    using assms by (auto simp: add_result_def intro!: exI [of _ "new @ new'"])
qed

lemma add_result_stop: "pos \<le> length msg \<Longrightarrow> add_result msg n pos m (Some (pos, m, w))"
  by (simp add: add_result_def)

lemma add_result_mono: "add_result msg 1 pos m r \<Longrightarrow> add_result msg (Suc n) pos m r"
  by (fastforce simp: add_result_def split: option.splits)

lemma additional_loop_safe:
  "pos \<le> length msg \<Longrightarrow> add_result msg n pos m (additional_loop n i msg pos m w)"
proof (induction n arbitrary: i pos m w)
  case (Suc n)
  show ?case
  proof (cases "length msg \<le> pos")
    case True
    obtain w' where "cf_warn w ''dns_section_truncated'' ''arcount exceeds available message bytes''
      ''additional'' None 0 = Some w'" using cf_warn_null by blast
    with True Suc.prems show ?thesis by (simp add: add_result_stop)
  next
    case False
    obtain h pos' w' where h: "parse_rr_header msg pos w ''additional'' i = Some (h, pos', w')"
      and hr: "hdr_result msg pos (Some (h, pos', w'))"
      using parse_rr_header_safe [OF Suc.prems, of w "''additional''" i]
      by (cases "parse_rr_header msg pos w ''additional'' i") (auto simp: hdr_result_def)
    show ?thesis
    proof (cases h)
      case None
      with False h hr Suc.prems show ?thesis by (simp add: hdr_result_def add_result_stop)
    next
      case (Some hd)
      with hr have ok: "hdr_ok msg pos pos' hd" by (simp add: hdr_result_def)
      obtain m' w'' where m': "add_one msg hd m w' = Some (m', w'')"
        "add_result msg 1 pos m (Some (pos', m', w''))" using add_one_safe [OF ok] by blast
      have "additional_loop (Suc n) i msg pos m w =
        (if rh_rdata_overrun hd then Some (pos', m', w'')
         else additional_loop n (i + 1) msg pos' m' w'')"
        using False m'(1) by (simp add: h Some)
      then show ?thesis
        using add_result_mono [OF m'(2)] add_result_trans [OF m'(2) Suc.IH] ok by (simp add: hdr_ok_def)
    qed
  qed
qed (simp add: add_result_stop)

section \<open>The parser\<close>

lemma take_bit_u16: "16 \<le> n \<Longrightarrow> take_bit n (unat (w :: u16)) = unat w"
proof (rule take_bit_nat_eq_self)
  assume "16 \<le> n"
  then have "2 ^ 16 \<le> (2 :: nat) ^ n" by (rule power_increasing) simp
  moreover have "unat w < 2 ^ 16" using unsigned_less [of w, where 'a = nat] by simp
  ultimately show "unat w < 2 ^ n" by linarith
qed

lemma build_header_safe: "12 \<le> length msg \<Longrightarrow> \<exists>h. build_header msg = Some h \<and>
    unat (ucast (h_ancount h) :: u16) = unat (h_ancount h) \<and>
    unat (ucast (h_nscount h) :: u16) = unat (h_nscount h)"
  by (simp add: build_header_def cf_get_be16_eq unsigned_ucast_eq take_bit_u16)

lemma loop_resultE:
  assumes "loop_result k P n len pos [] r"
  obtains pos' new w where "r = Some (pos', new, w)" "pos' \<le> len" "length new \<le> n"
    "pos + k * length new \<le> pos'" "list_all P new"
  using assms by (auto simp: loop_result_def split: option.splits)

text \<open>What a parsed message guarantees.\<close>

definition message_ok :: "bytes \<Rightarrow> dns_message \<Rightarrow> bool" where
  "message_ok msg m \<longleftrightarrow>
    length (m_questions m) \<le> unat (h_qdcount (m_header m)) \<and>
    length (m_answers m) \<le> unat (h_ancount (m_header m)) \<and>
    length (m_authority m) \<le> unat (h_nscount (m_header m)) \<and>
    length (m_additional m) \<le> unat (h_arcount (m_header m)) \<and>
    12 + 5 * length (m_questions m) +
      11 * (length (m_answers m) + length (m_authority m) + length (m_additional m)) \<le> length msg \<and>
    list_all (q_ok msg) (m_questions m) \<and>
    list_all (rr_ok msg) (m_answers m @ m_authority m @ m_additional m)"

lemma same_counts:
  assumes "m_header m'\<lparr>h_rcode := 0\<rparr> = m_header m\<lparr>h_rcode := 0\<rparr>"
  shows "h_qdcount (m_header m') = h_qdcount (m_header m)" "h_ancount (m_header m') = h_ancount (m_header m)"
    "h_nscount (m_header m') = h_nscount (m_header m)" "h_arcount (m_header m') = h_arcount (m_header m)"
  using arg_cong [OF assms, of h_qdcount] arg_cong [OF assms, of h_ancount]
    arg_cong [OF assms, of h_nscount] arg_cong [OF assms, of h_arcount] by simp_all

lemma cf_dns_parse_result:
  assumes "12 \<le> length msg"
  shows "\<exists>m w'. cf_dns_parse (Some msg) w = Some (Some m, w') \<and> message_ok msg m"
proof -
  obtain h where h: "build_header msg = Some h" "unat (ucast (h_ancount h) :: u16) = unat (h_ancount h)"
    "unat (ucast (h_nscount h) :: u16) = unat (h_nscount h)" using build_header_safe [OF assms] by blast
  obtain p1 qs w1 where 1: "question_loop (unat (h_qdcount h)) 0 msg 12 [] w = Some (p1, qs, w1)"
    "p1 \<le> length msg" "length qs \<le> unat (h_qdcount h)" "12 + 5 * length qs \<le> p1" "list_all (q_ok msg) qs"
    by (rule loop_resultE [OF question_loop_safe [OF assms]])
  obtain p2 an w2 where 2: "parse_rr_section msg p1 (ucast (h_ancount h)) ''answers'' w1 = Some (p2, an, w2)"
    "p2 \<le> length msg" "length an \<le> unat (h_ancount h)" "p1 + 11 * length an \<le> p2" "list_all (rr_ok msg) an"
    unfolding parse_rr_section_def h(2) by (rule loop_resultE [OF parse_rr_loop_safe [OF 1(2)]])
  obtain p3 au w3 where 3: "parse_rr_section msg p2 (ucast (h_nscount h)) ''authority'' w2 = Some (p3, au, w3)"
    "p3 \<le> length msg" "length au \<le> unat (h_nscount h)" "p2 + 11 * length au \<le> p3" "list_all (rr_ok msg) au"
    unfolding parse_rr_section_def h(3) by (rule loop_resultE [OF parse_rr_loop_safe [OF 2(2)]])
  let ?m = "\<lparr>m_header = h, m_questions = qs, m_answers = an, m_authority = au, m_additional = [], m_edns = None\<rparr>"
  note a = additional_loop_safe [OF 3(2), of "unat (h_arcount h)" ?m 0 w3]
  then obtain p4 m w4 where 4: "additional_loop (unat (h_arcount h)) 0 msg p3 ?m w3 = Some (p4, m, w4)"
    by (cases "additional_loop (unat (h_arcount h)) 0 msg p3 ?m w3") (auto simp: add_result_def)
  with a have m: "p4 \<le> length msg" "m_questions m = qs" "m_answers m = an" "m_authority m = au"
    "m_header m\<lparr>h_rcode := 0\<rparr> = m_header ?m\<lparr>h_rcode := 0\<rparr>" "length (m_additional m) \<le> unat (h_arcount h)"
    "p3 + 11 * length (m_additional m) \<le> p4" "list_all (rr_ok msg) (m_additional m)"
    by (auto simp: add_result_def)
  have "message_ok msg m"
    using 1 2 3 m same_counts [OF m(5)] by (simp add: message_ok_def)
  moreover have "cf_dns_parse (Some msg) w = Some (Some m, w4)"
    using assms by (simp add: cf_dns_parse_def h(1) 1(1) 2(1) 3(1) 4)
  ultimately show ?thesis by blast
qed

section \<open>Properties\<close>

text \<open>C23. The DNS parser is total and memory safe: on every buffer and warning list it ends
  without reading outside the buffer, and it produces a message exactly when the buffer holds
  the 12-byte header.\<close>

theorem cf_dns_parse_total:
  "\<exists>m w'. cf_dns_parse p w = Some (m, w') \<and>
     (m = None) = (case p of None \<Rightarrow> True | Some msg \<Rightarrow> length msg < 12)"
proof (cases p)
  case (Some msg)
  then show ?thesis
    using cf_dns_parse_result [of msg w] by (cases "length msg < 12") (auto simp: cf_dns_parse_def)
qed (simp add: cf_dns_parse_def)


definition sample_query :: bytes where
  "sample_query = [0x12,0x34, 1,0, 0,1, 0,0, 0,0, 0,1, 1,87,0, 0,1, 0,1,
     0, 0,41, 4,208, 1,0,128,0, 0,0]"

lemma sample_query_parses:
  "map_option (\<lambda>(m, w). map_option (\<lambda>m. (map q_qname (m_questions m), h_rcode (m_header m),
      length (m_additional m), map_option e_udp_payload_size (m_edns m), map_option e_do_bit (m_edns m))) m)
     (cf_dns_parse (Some sample_query) cf_warn_list_init) =
   Some (Some ([''w''], 16, 0, Some 1232, Some True))"
  by code_simp

end
