(* ===== verification/Correlation.thy ===== *)
theory Correlation
  imports Prelude
begin

text \<open>
  The pending-query table, \<^verbatim>\<open>sources/cloudflow-source-dns/src/correlation.c\<close>: a pool of entries
  threaded by index into hash chains, a doubly linked FIFO and a free list.

  An \<open>int32_t\<close> index is \<open>nat option\<close>, \<open>None\<close> for \<open>CF_DNS_NIL\<close> (the constructor keeps every
  index representable). Entries and buckets are lists; an access outside them is \<open>None\<close> in the
  option monad, and so is a chain walk that does not end. Times are mathematical integers
  (nanosecond timestamps whose differences stay inside \<open>int64_t\<close>). Contexts are opaque pointer
  values. The calls of the emit callback are recorded, in order, in \<open>c_emitted\<close>.
\<close>

section \<open>Data\<close>

type_synonym ctx = nat

record cf_dns_txn_key =
  k_transport :: byte
  k_local_is_server :: byte
  k_ip_version :: byte
  k_client_ip :: bytes
  k_server_ip :: bytes
  k_client_port :: u16
  k_server_port :: u16
  k_dns_id :: u16
  k_qtype :: u16
  k_qclass :: u16
  k_qname_canonical :: bytes
  k_qname_len :: u16

datatype cf_dns_txn_outcome = CF_DNS_TXN_OBSERVED | CF_DNS_TXN_UNANSWERED | CF_DNS_TXN_UNMATCHED

record emission =
  em_outcome :: cf_dns_txn_outcome
  em_query_ctx :: "ctx option"
  em_response_ctx :: "ctx option"
  em_rtt :: int
  em_rtt_valid :: bool
  em_key :: cf_dns_txn_key

datatype on_full = CF_DNS_ON_FULL_DROP_NEWEST | CF_DNS_ON_FULL_DROP_OLDEST

record cf_dns_entry =
  en_key :: cf_dns_txn_key
  en_time :: int
  en_ctx :: ctx
  en_hnext :: "nat option"
  en_prev :: "nat option"
  en_next :: "nat option"

record cf_dns_correlator_stats =
  st_transactions_observed :: nat
  st_query_unanswered :: nat
  st_response_unmatched :: nat
  st_pending_evicted_collision :: nat
  st_pending_drop :: nat
  st_rtt_invalid :: nat
  st_pending_depth :: nat

record cf_dns_correlator =
  c_entries :: "cf_dns_entry list"
  c_buckets :: "nat option list"
  c_capacity :: nat
  c_nbuckets :: nat
  c_bucket_mask :: u32
  c_free_head :: "nat option"
  c_fifo_head :: "nat option"
  c_fifo_tail :: "nat option"
  c_count :: nat
  c_timeout :: int
  c_on_full :: on_full
  c_stats :: cf_dns_correlator_stats
  c_emitted :: "emission list"

section \<open>Keys\<close>

abbreviation QNAME_CANONICAL_SIZE :: nat where "QNAME_CANONICAL_SIZE \<equiv> 256"

definition key_qname_len :: "cf_dns_txn_key \<Rightarrow> nat" where
  "key_qname_len k =
    (let n = unat (k_qname_len k)
     in if n > QNAME_CANONICAL_SIZE then QNAME_CANONICAL_SIZE else n)"

definition fnv_byte :: "u64 \<Rightarrow> byte \<Rightarrow> u64" where
  "fnv_byte h b = (h XOR ucast b) * 1099511628211"

definition fnv_u16 :: "u64 \<Rightarrow> u16 \<Rightarrow> u64" where
  "fnv_u16 h w = fnv_byte (fnv_byte h (ucast (w AND 0xff))) (ucast (drop_bit 8 w))"

definition key_hash :: "cf_dns_txn_key \<Rightarrow> u64" where
  "key_hash k =
    (let h = 1469598103934665603;
         qn = key_qname_len k;
         h = fnv_byte h (k_transport k);
         h = fnv_byte h (k_local_is_server k);
         h = fnv_byte h (k_ip_version k);
         h = foldl fnv_byte h (k_client_ip k);
         h = foldl fnv_byte h (k_server_ip k);
         h = fnv_u16 h (k_client_port k);
         h = fnv_u16 h (k_server_port k);
         h = fnv_u16 h (k_dns_id k);
         h = fnv_u16 h (k_qtype k);
         h = fnv_u16 h (k_qclass k);
         h = foldl fnv_byte h (take qn (k_qname_canonical k));
         h = fnv_byte h (of_nat (qn mod 256));
         h = fnv_byte h (of_nat (qn div 256 mod 256))
     in h)"

definition key_equal :: "cf_dns_txn_key \<Rightarrow> cf_dns_txn_key \<Rightarrow> bool" where
  "key_equal a b =
    (let qa = key_qname_len a; qb = key_qname_len b
     in if k_transport a \<noteq> k_transport b \<or> k_local_is_server a \<noteq> k_local_is_server b \<or>
           k_ip_version a \<noteq> k_ip_version b \<or> k_client_port a \<noteq> k_client_port b \<or>
           k_server_port a \<noteq> k_server_port b \<or> k_dns_id a \<noteq> k_dns_id b \<or>
           k_qtype a \<noteq> k_qtype b \<or> k_qclass a \<noteq> k_qclass b \<or> qa \<noteq> qb then False
        else if k_client_ip a \<noteq> k_client_ip b then False
        else if k_server_ip a \<noteq> k_server_ip b then False
        else if take qa (k_qname_canonical a) \<noteq> take qa (k_qname_canonical b) then False
        else True)"

section \<open>Intrusive lists\<close>

definition entry :: "cf_dns_correlator \<Rightarrow> nat \<Rightarrow> cf_dns_entry option" where
  "entry c i = (if i < length (c_entries c) then Some (c_entries c ! i) else None)"

definition upd_entry :: "nat \<Rightarrow> (cf_dns_entry \<Rightarrow> cf_dns_entry) \<Rightarrow> cf_dns_correlator \<Rightarrow> cf_dns_correlator option" where
  "upd_entry i f c =
    (if i < length (c_entries c)
     then Some (c\<lparr>c_entries := (c_entries c)[i := f (c_entries c ! i)]\<rparr>) else None)"

definition bucket :: "cf_dns_correlator \<Rightarrow> nat \<Rightarrow> nat option option" where
  "bucket c b = (if b < length (c_buckets c) then Some (c_buckets c ! b) else None)"

definition bucket_of :: "cf_dns_correlator \<Rightarrow> u64 \<Rightarrow> nat" where
  "bucket_of c h = unat (ucast (h AND ucast (c_bucket_mask c)) :: u32)"

definition fifo_append :: "cf_dns_correlator \<Rightarrow> nat \<Rightarrow> cf_dns_correlator option" where
  "fifo_append c idx = do {
     c \<leftarrow> upd_entry idx (\<lambda>e. e\<lparr>en_next := None, en_prev := c_fifo_tail c\<rparr>) c;
     c \<leftarrow> (case c_fifo_tail c of
            Some t \<Rightarrow> upd_entry t (\<lambda>e. e\<lparr>en_next := Some idx\<rparr>) c
          | None \<Rightarrow> Some (c\<lparr>c_fifo_head := Some idx\<rparr>));
     Some (c\<lparr>c_fifo_tail := Some idx\<rparr>) }"

definition fifo_unlink :: "cf_dns_correlator \<Rightarrow> nat \<Rightarrow> cf_dns_correlator option" where
  "fifo_unlink c idx = do {
     e \<leftarrow> entry c idx;
     c \<leftarrow> (case en_prev e of
            Some p \<Rightarrow> upd_entry p (\<lambda>x. x\<lparr>en_next := en_next e\<rparr>) c
          | None \<Rightarrow> Some (c\<lparr>c_fifo_head := en_next e\<rparr>));
     e \<leftarrow> entry c idx;
     (case en_next e of
        Some n \<Rightarrow> upd_entry n (\<lambda>x. x\<lparr>en_prev := en_prev e\<rparr>) c
      | None \<Rightarrow> Some (c\<lparr>c_fifo_tail := en_prev e\<rparr>)) }"

text \<open>The bucket walk of \<open>entry_release\<close>: the final \<open>prev\<close> and \<open>cur\<close>.\<close>

partial_function (option) release_walk ::
  "cf_dns_correlator \<Rightarrow> nat \<Rightarrow> nat option \<Rightarrow> nat option \<Rightarrow> (nat option \<times> nat option) option" where
  "release_walk c idx prev cur =
    (case cur of None \<Rightarrow> Some (prev, cur)
     | Some i \<Rightarrow> if i = idx then Some (prev, cur)
                else do { e \<leftarrow> entry c i; release_walk c idx (Some i) (en_hnext e) })"

declare release_walk.simps [code]

definition entry_release :: "cf_dns_correlator \<Rightarrow> nat \<Rightarrow> cf_dns_correlator option" where
  "entry_release c idx = do {
     e \<leftarrow> entry c idx;
     let b = bucket_of c (key_hash (en_key e));
     start \<leftarrow> bucket c b;
     (prev, cur) \<leftarrow> release_walk c idx None start;
     c \<leftarrow> (if cur = Some idx then
             (case prev of
                None \<Rightarrow> Some (c\<lparr>c_buckets := (c_buckets c)[b := en_hnext e]\<rparr>)
              | Some p \<Rightarrow> upd_entry p (\<lambda>x. x\<lparr>en_hnext := en_hnext e\<rparr>) c)
           else Some c);
     c \<leftarrow> fifo_unlink c idx;
     c \<leftarrow> upd_entry idx (\<lambda>x. x\<lparr>en_hnext := c_free_head c\<rparr>) c;
     Some (c\<lparr>c_free_head := Some idx, c_count := c_count c - 1\<rparr>) }"

partial_function (option) find_walk ::
  "cf_dns_correlator \<Rightarrow> cf_dns_txn_key \<Rightarrow> nat option \<Rightarrow> nat option option" where
  "find_walk c key idx =
    (case idx of None \<Rightarrow> Some None
     | Some i \<Rightarrow> do { e \<leftarrow> entry c i;
         if key_equal (en_key e) key then Some (Some i) else find_walk c key (en_hnext e) })"

declare find_walk.simps [code]

definition entry_find :: "cf_dns_correlator \<Rightarrow> cf_dns_txn_key \<Rightarrow> u64 \<Rightarrow> nat option option" where
  "entry_find c key h = do { start \<leftarrow> bucket c (bucket_of c h); find_walk c key start }"

section \<open>Eviction\<close>

definition emit :: "cf_dns_txn_outcome \<Rightarrow> ctx option \<Rightarrow> ctx option \<Rightarrow> int \<Rightarrow> bool \<Rightarrow> cf_dns_txn_key \<Rightarrow>
    cf_dns_correlator \<Rightarrow> cf_dns_correlator" where
  "emit oc q r rtt valid key c =
    c\<lparr>c_emitted := c_emitted c @ [\<lparr>em_outcome = oc, em_query_ctx = q, em_response_ctx = r,
       em_rtt = rtt, em_rtt_valid = valid, em_key = key\<rparr>]\<rparr>"

text \<open>The \<open>uint64_t *counter\<close> argument is the function that increments that counter.\<close>

definition evict_as_unanswered ::
  "cf_dns_correlator \<Rightarrow> nat \<Rightarrow> (cf_dns_correlator_stats \<Rightarrow> cf_dns_correlator_stats) \<Rightarrow> cf_dns_correlator option" where
  "evict_as_unanswered c idx counter = do {
     e \<leftarrow> entry c idx;
     c \<leftarrow> entry_release c idx;
     Some (emit CF_DNS_TXN_UNANSWERED (Some (en_ctx e)) None 0 False (en_key e)
             (c\<lparr>c_stats := counter (c_stats c)\<rparr>)) }"

definition inc_unanswered :: "cf_dns_correlator_stats \<Rightarrow> cf_dns_correlator_stats" where
  "inc_unanswered s = s\<lparr>st_query_unanswered := st_query_unanswered s + 1\<rparr>"

definition inc_drop :: "cf_dns_correlator_stats \<Rightarrow> cf_dns_correlator_stats" where
  "inc_drop s = s\<lparr>st_pending_drop := st_pending_drop s + 1\<rparr>"

text \<open>The budget \<open>None\<close> is \<open>SIZE_MAX\<close>, which the number of entries never reaches.\<close>

partial_function (option) evict_loop ::
  "cf_dns_correlator \<Rightarrow> int \<Rightarrow> nat option \<Rightarrow> nat \<Rightarrow> (cf_dns_correlator \<times> nat) option" where
  "evict_loop c now budget n =
    (if (case budget of None \<Rightarrow> True | Some b \<Rightarrow> n < b) then
       (case c_fifo_head c of None \<Rightarrow> Some (c, n)
        | Some idx \<Rightarrow> do {
            e \<leftarrow> entry c idx;
            if now - en_time e \<le> c_timeout c then Some (c, n)
            else do {
              c \<leftarrow> evict_as_unanswered c idx inc_unanswered;
              evict_loop c now budget (n + 1) } })
     else Some (c, n))"

declare evict_loop.simps [code]

definition evict_expired :: "cf_dns_correlator \<Rightarrow> int \<Rightarrow> nat option \<Rightarrow> (cf_dns_correlator \<times> nat) option" where
  "evict_expired c now budget = evict_loop c now budget 0"

section \<open>Public operations\<close>

function pow2_loop :: "nat \<Rightarrow> nat \<Rightarrow> nat" where
  "pow2_loop n p = (if 0 < p \<and> p < n then pow2_loop n (p * 2) else p)"
  by pat_completeness auto
termination by (relation "measure (\<lambda>(n, p). n - p)") auto

declare pow2_loop.simps [simp del]

definition next_pow2 :: "nat \<Rightarrow> nat" where
  "next_pow2 n = pow2_loop n 1"

definition stats_zero :: cf_dns_correlator_stats where
  "stats_zero = \<lparr>st_transactions_observed = 0, st_query_unanswered = 0, st_response_unmatched = 0,
    st_pending_evicted_collision = 0, st_pending_drop = 0, st_rtt_invalid = 0, st_pending_depth = 0\<rparr>"

text \<open>\<open>junk\<close> is what \<open>malloc\<close> left in the entries. The emit callback is not NULL.\<close>

definition cf_dns_correlator_new ::
  "(nat \<Rightarrow> cf_dns_entry) \<Rightarrow> nat \<Rightarrow> int \<Rightarrow> on_full \<Rightarrow> cf_dns_correlator option" where
  "cf_dns_correlator_new junk capacity timeout policy =
    (if capacity = 0 \<or> timeout \<le> 0 then None
     else if capacity > 2 ^ 31 - 1 then None
     else Some \<lparr>
       c_entries = map (\<lambda>i. (junk i)\<lparr>en_hnext := if i + 1 < capacity then Some (i + 1) else None\<rparr>) [0..<capacity],
       c_buckets = replicate (next_pow2 capacity) None,
       c_capacity = capacity, c_nbuckets = next_pow2 capacity,
       c_bucket_mask = of_nat (next_pow2 capacity - 1), c_free_head = Some 0, c_fifo_head = None,
       c_fifo_tail = None, c_count = 0, c_timeout = timeout, c_on_full = policy,
       c_stats = stats_zero, c_emitted = []\<rparr>)"

partial_function (option) free_drain :: "cf_dns_correlator \<Rightarrow> cf_dns_correlator option" where
  "free_drain c =
    (case c_fifo_head c of None \<Rightarrow> Some c
     | Some idx \<Rightarrow> do { c \<leftarrow> evict_as_unanswered c idx inc_unanswered; free_drain c })"

declare free_drain.simps [code]

text \<open>The state the drain leaves when the memory is released.\<close>

definition cf_dns_correlator_free :: "cf_dns_correlator \<Rightarrow> cf_dns_correlator option" where
  "cf_dns_correlator_free c = free_drain c"

definition replace_pending :: "cf_dns_correlator \<Rightarrow> nat \<Rightarrow> cf_dns_txn_key \<Rightarrow> int \<Rightarrow> ctx \<Rightarrow> cf_dns_correlator option" where
  "replace_pending c idx key t query_ctx = do {
     e \<leftarrow> entry c idx;
     let c = c\<lparr>c_stats := (c_stats c)\<lparr>st_pending_evicted_collision :=
                 st_pending_evicted_collision (c_stats c) + 1\<rparr>\<rparr>;
     let c = emit CF_DNS_TXN_UNANSWERED (Some (en_ctx e)) None 0 False (en_key e) c;
     c \<leftarrow> upd_entry idx (\<lambda>x. x\<lparr>en_key := key, en_time := t, en_ctx := query_ctx\<rparr>) c;
     c \<leftarrow> fifo_unlink c idx;
     fifo_append c idx }"

definition insert_pending :: "cf_dns_correlator \<Rightarrow> cf_dns_txn_key \<Rightarrow> u64 \<Rightarrow> int \<Rightarrow> ctx \<Rightarrow> cf_dns_correlator option" where
  "insert_pending c key h t query_ctx =
    (case c_free_head c of None \<Rightarrow> None
     | Some idx \<Rightarrow> do {
         e \<leftarrow> entry c idx;
         let c = c\<lparr>c_free_head := en_hnext e\<rparr>;
         b \<leftarrow> bucket c (bucket_of c h);
         c \<leftarrow> upd_entry idx (\<lambda>x. x\<lparr>en_key := key, en_time := t, en_ctx := query_ctx, en_hnext := b\<rparr>) c;
         let c = c\<lparr>c_buckets := (c_buckets c)[bucket_of c h := Some idx]\<rparr>;
         c \<leftarrow> fifo_append c idx;
         Some (c\<lparr>c_count := c_count c + 1\<rparr>) })"

text \<open>A query with a key that is not pending: it takes a free slot, or the table-full policy
  decides.\<close>

definition fresh_pending :: "cf_dns_correlator \<Rightarrow> cf_dns_txn_key \<Rightarrow> u64 \<Rightarrow> int \<Rightarrow> ctx \<Rightarrow> cf_dns_correlator option" where
  "fresh_pending c key h t query_ctx =
    (if c_free_head c = None then
       (case (c_on_full c, c_fifo_head c) of
          (CF_DNS_ON_FULL_DROP_OLDEST, Some oldest) \<Rightarrow> do {
            c \<leftarrow> evict_as_unanswered c oldest inc_drop;
            insert_pending c key h t query_ctx }
        | _ \<Rightarrow> Some (emit CF_DNS_TXN_UNANSWERED (Some query_ctx) None 0 False key
                       (c\<lparr>c_stats := inc_drop (c_stats c)\<rparr>)))
     else insert_pending c key h t query_ctx)"

text \<open>A NULL correlator or key is the early return, the caller's state unchanged.\<close>

definition cf_dns_correlator_on_query ::
  "cf_dns_correlator \<Rightarrow> cf_dns_txn_key \<Rightarrow> int \<Rightarrow> ctx \<Rightarrow> cf_dns_correlator option" where
  "cf_dns_correlator_on_query c key t query_ctx = do {
     (c, n) \<leftarrow> evict_expired c t (Some 8);
     let h = key_hash key;
     found \<leftarrow> entry_find c key h;
     (case found of
        Some idx \<Rightarrow> replace_pending c idx key t query_ctx
      | None \<Rightarrow> fresh_pending c key h t query_ctx) }"

definition cf_dns_correlator_on_response ::
  "cf_dns_correlator \<Rightarrow> cf_dns_txn_key \<Rightarrow> int \<Rightarrow> ctx \<Rightarrow> cf_dns_correlator option" where
  "cf_dns_correlator_on_response c key t response_ctx = do {
     found \<leftarrow> entry_find c key (key_hash key);
     (case found of
        None \<Rightarrow> Some (emit CF_DNS_TXN_UNMATCHED None (Some response_ctx) 0 False key
                  (c\<lparr>c_stats := (c_stats c)\<lparr>st_response_unmatched := st_response_unmatched (c_stats c) + 1\<rparr>\<rparr>))
      | Some idx \<Rightarrow> do {
          e \<leftarrow> entry c idx;
          let rtt = t - en_time e;
          let invalid = (rtt < 0 \<or> rtt > c_timeout c);
          let c = c\<lparr>c_stats := if invalid then (c_stats c)\<lparr>st_rtt_invalid := st_rtt_invalid (c_stats c) + 1\<rparr>
                                 else c_stats c\<rparr>;
          c \<leftarrow> entry_release c idx;
          Some (emit CF_DNS_TXN_OBSERVED (Some (en_ctx e)) (Some response_ctx) rtt (\<not> invalid) (en_key e)
            (c\<lparr>c_stats := (c_stats c)\<lparr>st_transactions_observed := st_transactions_observed (c_stats c) + 1\<rparr>\<rparr>)) }) }"

definition cf_dns_correlator_tick :: "cf_dns_correlator \<Rightarrow> int \<Rightarrow> cf_dns_correlator option" where
  "cf_dns_correlator_tick c now = do { (c, n) \<leftarrow> evict_expired c now None; Some c }"

definition cf_dns_correlator_stats_of :: "cf_dns_correlator \<Rightarrow> cf_dns_correlator_stats" where
  "cf_dns_correlator_stats_of c = (c_stats c)\<lparr>st_pending_depth := c_count c\<rparr>"

end
