(* ===== verification/Correlation_Rep.thy ===== *)
theory Correlation_Rep
  imports Correlation
begin

text \<open>
  The representation invariant of the pending table of
  \<^verbatim>\<open>sources/cloudflow-source-dns/src/correlation.c\<close> and its preservation: the linked lists are
  described over the index maps of the pool (as in pointer-program proofs), and each primitive
  (unlink, append, bucket walk, release, insert, replace) is shown to succeed and to change the
  lists as intended.
\<close>

section \<open>Keys\<close>

text \<open>The significant part of a key.\<close>

definition canon :: "cf_dns_txn_key \<Rightarrow>
    (byte \<times> byte \<times> byte \<times> bytes \<times> bytes) \<times> (u16 \<times> u16 \<times> u16 \<times> u16 \<times> u16) \<times> bytes \<times> nat" where
  "canon k = ((k_transport k, k_local_is_server k, k_ip_version k, k_client_ip k, k_server_ip k),
    (k_client_port k, k_server_port k, k_dns_id k, k_qtype k, k_qclass k),
    take (key_qname_len k) (k_qname_canonical k), key_qname_len k)"

lemma key_equal_canon: "key_equal a b \<longleftrightarrow> canon a = canon b"
  by (auto simp: key_equal_def canon_def Let_def)

lemma key_hash_canon: "canon a = canon b \<Longrightarrow> key_hash a = key_hash b"
  unfolding key_hash_def canon_def Let_def by clarsimp

section \<open>Linked lists over index maps\<close>

definition first :: "nat list \<Rightarrow> nat option \<Rightarrow> nat option" where
  "first xs n = (case xs of [] \<Rightarrow> n | x # _ \<Rightarrow> Some x)"

definition final :: "nat list \<Rightarrow> nat option \<Rightarrow> nat option" where
  "final xs p = (if xs = [] then p else Some (last xs))"

fun chain :: "(nat \<Rightarrow> nat option) \<Rightarrow> nat option \<Rightarrow> nat list \<Rightarrow> bool" where
  "chain nx a [] = (a = None)"
| "chain nx a (x # xs) = (a = Some x \<and> chain nx (nx x) xs)"

fun dll :: "(nat \<Rightarrow> nat option) \<Rightarrow> (nat \<Rightarrow> nat option) \<Rightarrow> nat option \<Rightarrow> nat list \<Rightarrow> nat option \<Rightarrow> bool" where
  "dll pr nx p [] n = True"
| "dll pr nx p (x # xs) n = (pr x = p \<and> nx x = first xs n \<and> dll pr nx (Some x) xs n)"

lemma first_simps [simp]: "first [] n = n" "first (x # xs) n = Some x" "first (xs @ ys) n = first xs (first ys n)"
  by (cases xs; simp add: first_def)+

lemma final_simps [simp]: "final [] p = p" "final (x # xs) p = final xs (Some x)"
  "final (xs @ ys) p = final ys (final xs p)"
  by (auto simp: final_def)

lemma chain_frame [simp]: "x \<notin> set xs \<Longrightarrow> chain (nx(x := v)) a xs = chain nx a xs"
  by (induction xs arbitrary: a) auto

lemma chain_None [simp]: "chain nx None xs \<longleftrightarrow> xs = []"
  by (cases xs) auto

lemma chain_unique: "chain nx a xs \<Longrightarrow> chain nx a ys \<Longrightarrow> xs = ys"
proof (induction xs arbitrary: a ys)
  case (Cons x xs)
  then show ?case by (cases ys) auto
qed simp

lemma chain_remove:
  assumes "chain nx a (xs @ p # i # ys)" "distinct (xs @ p # i # ys)"
  shows "chain (nx(p := nx i)) a (xs @ p # ys)"
  using assms by (induction xs arbitrary: a) auto

lemma dll_append: "dll pr nx p (xs @ ys) n \<longleftrightarrow> dll pr nx p xs (first ys n) \<and> dll pr nx (final xs p) ys n"
  by (induction xs arbitrary: p) auto

lemma dll_frame [simp]:
  "x \<notin> set xs \<Longrightarrow> dll (pr(x := v)) nx p xs n = dll pr nx p xs n"
  "x \<notin> set xs \<Longrightarrow> dll pr (nx(x := v)) p xs n = dll pr nx p xs n"
  by (induction xs arbitrary: p) auto

lemma dll_next_last:
  "dll pr nx p (xs @ [l]) n \<Longrightarrow> distinct (xs @ [l]) \<Longrightarrow> dll pr (nx(l := m)) p (xs @ [l]) m"
  by (simp add: dll_append)

lemma dll_prev_first:
  "dll pr nx p (y # ys) n \<Longrightarrow> distinct (y # ys) \<Longrightarrow> dll (pr(y := q)) nx q (y # ys) n"
  by simp

section \<open>Views of the entry pool\<close>

definition hnx :: "cf_dns_entry list \<Rightarrow> nat \<Rightarrow> nat option" where "hnx es i = en_hnext (es ! i)"
definition prv :: "cf_dns_entry list \<Rightarrow> nat \<Rightarrow> nat option" where "prv es i = en_prev (es ! i)"
definition nxt :: "cf_dns_entry list \<Rightarrow> nat \<Rightarrow> nat option" where "nxt es i = en_next (es ! i)"

lemma view_update:
  assumes "i < length es"
  shows "hnx (es[i := e]) = (hnx es)(i := en_hnext e)" "prv (es[i := e]) = (prv es)(i := en_prev e)"
    "nxt (es[i := e]) = (nxt es)(i := en_next e)"
  using assms by (auto simp: hnx_def prv_def nxt_def fun_eq_iff nth_list_update)

text \<open>What the FIFO operations leave alone.\<close>

definition core :: "cf_dns_entry \<Rightarrow> cf_dns_txn_key \<times> int \<times> ctx \<times> nat option" where
  "core e = (en_key e, en_time e, en_ctx e, en_hnext e)"

definition same_core :: "cf_dns_correlator \<Rightarrow> cf_dns_correlator \<Rightarrow> bool" where
  "same_core c c' \<longleftrightarrow> map core (c_entries c') = map core (c_entries c) \<and>
    c'\<lparr>c_entries := c_entries c, c_fifo_head := c_fifo_head c, c_fifo_tail := c_fifo_tail c\<rparr> = c"

definition fifo_is :: "cf_dns_correlator \<Rightarrow> nat list \<Rightarrow> bool" where
  "fifo_is c xs \<longleftrightarrow> dll (prv (c_entries c)) (nxt (c_entries c)) None xs None \<and>
    c_fifo_head c = first xs None \<and> c_fifo_tail c = final xs None"

lemma core_update: "i < length es \<Longrightarrow> core e = core (es ! i) \<Longrightarrow> map core (es[i := e]) = map core es"
  by (simp add: map_update list_update_same_conv)

lemma fifo_append_ok:
  assumes f: "fifo_is c xs" and d: "distinct xs" "i \<notin> set xs"
    and l: "\<forall>j \<in> set xs. j < length (c_entries c)" "i < length (c_entries c)"
  shows "\<exists>c'. fifo_append c i = Some c' \<and> fifo_is c' (xs @ [i]) \<and> same_core c c'"
proof (cases xs rule: rev_cases)
  case Nil
  with f l show ?thesis
    by (auto simp: fifo_append_def upd_entry_def fifo_is_def view_update same_core_def core_update core_def)
next
  case (snoc ys t)
  then have t: "t < length (c_entries c)" "t \<noteq> i" "c_fifo_tail c = Some t" "i \<notin> set ys" "t \<notin> set ys"
    using f l d by (auto simp: fifo_is_def)
  let ?e = "(c_entries c ! i)\<lparr>en_next := None, en_prev := c_fifo_tail c\<rparr>"
  let ?es = "(c_entries c)[i := ?e]"
  let ?es' = "?es[t := (?es ! t)\<lparr>en_next := Some i\<rparr>]"
  have r: "fifo_append c i = Some (c\<lparr>c_entries := ?es', c_fifo_tail := Some i\<rparr>)"
    using t l(2) by (simp add: fifo_append_def upd_entry_def)
  have cr: "map core ?es' = map core (c_entries c)"
    using t l(2) by (simp add: core_update core_def)
  have "en_prev (c_entries c ! t) = final ys None"
    using f snoc by (simp add: fifo_is_def dll_append prv_def)
  then have "dll (prv ?es') (nxt ?es') None (xs @ [i]) None"
    using f t l(2) snoc by (simp add: fifo_is_def view_update dll_append)
  then show ?thesis
    using f t cr snoc unfolding r by (auto simp: fifo_is_def same_core_def)
qed

lemma fifo_unlink_ok:
  assumes f: "fifo_is c (xs @ i # ys)" and d: "distinct (xs @ i # ys)"
    and l: "\<forall>j \<in> set (xs @ i # ys). j < length (c_entries c)"
  shows "\<exists>c'. fifo_unlink c i = Some c' \<and> fifo_is c' (xs @ ys) \<and> same_core c c'"
proof -
  let ?es = "c_entries c"
  have e: "entry c i = Some (?es ! i)" and il: "i < length ?es" using l by (simp_all add: entry_def)
  have links: "en_prev (?es ! i) = final xs None" "en_next (?es ! i) = first ys None"
    using f by (simp_all add: fifo_is_def dll_append prv_def nxt_def)
  define c1 where "c1 = (case final xs None of
      Some p \<Rightarrow> c\<lparr>c_entries := ?es[p := (?es ! p)\<lparr>en_next := first ys None\<rparr>]\<rparr>
    | None \<Rightarrow> c\<lparr>c_fifo_head := first ys None\<rparr>)"
  have s1: "(case en_prev (?es ! i) of Some p \<Rightarrow> upd_entry p (\<lambda>x. x\<lparr>en_next := en_next (?es ! i)\<rparr>) c
      | None \<Rightarrow> Some (c\<lparr>c_fifo_head := en_next (?es ! i)\<rparr>)) = Some c1"
    unfolding links c1_def using l by (cases xs rule: rev_cases) (auto simp: upd_entry_def)
  have len1: "length (c_entries c1) = length ?es"
    unfolding c1_def by (cases xs rule: rev_cases) auto
  have e1: "entry c1 i = Some (?es ! i)"
    unfolding c1_def using d il by (cases xs rule: rev_cases) (auto simp: entry_def)
  have sc1: "same_core c c1"
    unfolding c1_def using l by (cases xs rule: rev_cases) (auto simp: same_core_def core_update core_def)
  have d1: "dll (prv (c_entries c1)) (nxt (c_entries c1)) None xs (first ys None)"
    "dll (prv (c_entries c1)) (nxt (c_entries c1)) (Some i) ys None"
    "c_fifo_head c1 = first (xs @ ys) None" "c_fifo_tail c1 = final ys (Some i)"
    unfolding c1_def using f d l
    by (cases xs rule: rev_cases; auto simp: fifo_is_def dll_append view_update; simp add: prv_def)+
  define c2 where "c2 = (case first ys None of
      Some n \<Rightarrow> c1\<lparr>c_entries := (c_entries c1)[n := (c_entries c1 ! n)\<lparr>en_prev := final xs None\<rparr>]\<rparr>
    | None \<Rightarrow> c1\<lparr>c_fifo_tail := final xs None\<rparr>)"
  have s2: "(case en_next (?es ! i) of Some n \<Rightarrow> upd_entry n (\<lambda>x. x\<lparr>en_prev := en_prev (?es ! i)\<rparr>) c1
      | None \<Rightarrow> Some (c1\<lparr>c_fifo_tail := en_prev (?es ! i)\<rparr>)) = Some c2"
    unfolding links c2_def using l len1 by (cases ys) (auto simp: upd_entry_def)
  have "fifo_is c2 (xs @ ys)"
    unfolding c2_def fifo_is_def using d1 d l len1
    by (cases ys) (auto simp: dll_append view_update nxt_def prv_def)
  moreover have "same_core c c2"
    unfolding c2_def using sc1 l len1
    by (cases ys) (auto simp: same_core_def core_update core_def)
  moreover have "fifo_unlink c i = Some c2"
    unfolding fifo_unlink_def by (simp only: e e1 s1 s2 Option.bind.simps)
  ultimately show ?thesis by blast
qed

section \<open>The representation invariant\<close>

definition sane :: "cf_dns_correlator \<Rightarrow> bool" where
  "sane c \<longleftrightarrow> length (c_entries c) = c_capacity c \<and> length (c_buckets c) = c_nbuckets c \<and>
    unat (c_bucket_mask c) + 1 = c_nbuckets c"

definition home :: "cf_dns_correlator \<Rightarrow> nat \<Rightarrow> nat" where
  "home c i = bucket_of c (key_hash (en_key (c_entries c ! i)))"

text \<open>Every one of the \<open>n\<close> buckets chains exactly the entries of \<open>S\<close> whose home it is.\<close>

definition chains_ok :: "(nat \<Rightarrow> nat option) \<Rightarrow> nat option list \<Rightarrow> nat \<Rightarrow> nat set \<Rightarrow> (nat \<Rightarrow> nat) \<Rightarrow> bool" where
  "chains_ok f bks n S hm \<longleftrightarrow>
    (\<forall>b < n. \<exists>xs. chain f (bks ! b) xs \<and> distinct xs \<and> set xs = {i \<in> S. hm i = b})"

definition buckets_ok :: "cf_dns_correlator \<Rightarrow> nat list \<Rightarrow> bool" where
  "buckets_ok c fifo \<longleftrightarrow>
    chains_ok (hnx (c_entries c)) (c_buckets c) (c_nbuckets c) (set fifo) (home c)"

definition keys_ok :: "cf_dns_correlator \<Rightarrow> nat list \<Rightarrow> bool" where
  "keys_ok c fifo \<longleftrightarrow> inj_on (\<lambda>i. canon (en_key (c_entries c ! i))) (set fifo)"

text \<open>\<open>rep c fifo free\<close>: the FIFO holds the entries \<open>fifo\<close> from the oldest to the newest, the
  free list holds \<open>free\<close>, together they are the whole pool, every pending entry is on exactly
  the chain of its bucket, and no two pending entries have equal keys.\<close>

definition rep :: "cf_dns_correlator \<Rightarrow> nat list \<Rightarrow> nat list \<Rightarrow> bool" where
  "rep c fifo free \<longleftrightarrow> sane c \<and> distinct (fifo @ free) \<and> set (fifo @ free) = {..<c_capacity c} \<and>
    fifo_is c fifo \<and> chain (hnx (c_entries c)) (c_free_head c) free \<and> buckets_ok c fifo \<and>
    c_count c = length fifo \<and> keys_ok c fifo"

lemma bucket_of_less:
  assumes "sane c" shows "bucket_of c h < c_nbuckets c"
proof -
  have "unat (c_bucket_mask c) < 2 ^ 64" using unsigned_less [of "c_bucket_mask c", where 'a = nat] by simp
  then have m: "unat (ucast (c_bucket_mask c) :: u64) = unat (c_bucket_mask c)"
    by (simp add: unsigned_ucast_eq take_bit_nat_eq_self)
  have "bucket_of c h \<le> unat (h AND ucast (c_bucket_mask c))"
    by (simp add: bucket_of_def unsigned_ucast_eq take_bit_nat_less_eq_self)
  also have "\<dots> \<le> unat (ucast (c_bucket_mask c) :: u64)"
    using word_and_le1 [of h "ucast (c_bucket_mask c)"] by (simp only: word_le_nat_alt)
  finally show ?thesis using assms m by (simp add: sane_def)
qed

lemma home_less: "sane c \<Longrightarrow> home c i < c_nbuckets c"
  by (simp add: home_def bucket_of_less)

lemma find_walk_ok:
  "chain (hnx (c_entries c)) a xs \<Longrightarrow> \<forall>i \<in> set xs. i < length (c_entries c) \<Longrightarrow>
   find_walk c key a = Some (List.find (\<lambda>i. key_equal (en_key (c_entries c ! i)) key) xs)"
proof (induction xs arbitrary: a)
  case Nil
  then show ?case by (subst find_walk.simps) simp
next
  case (Cons x xs)
  then show ?case by (subst find_walk.simps) (auto simp: entry_def hnx_def)
qed

lemma release_walk_ok:
  "chain (hnx (c_entries c)) a (xs @ i # ys) \<Longrightarrow> \<forall>j \<in> set xs. j < length (c_entries c) \<Longrightarrow> i \<notin> set xs \<Longrightarrow>
   release_walk c i prev a = Some (final xs prev, Some i)"
proof (induction xs arbitrary: a prev)
  case Nil
  then show ?case by (subst release_walk.simps) simp
next
  case (Cons x xs)
  then show ?case by (subst release_walk.simps) (auto simp: entry_def hnx_def)
qed

text \<open>A lookup finds the pending entry with the key, if there is one.\<close>

lemma entry_find_ok:
  assumes r: "rep c fifo free"
  shows "\<exists>r. entry_find c key (key_hash key) = Some r \<and>
    (case r of
       None \<Rightarrow> \<forall>i \<in> set fifo. canon (en_key (c_entries c ! i)) \<noteq> canon key
     | Some i \<Rightarrow> i \<in> set fifo \<and> canon (en_key (c_entries c ! i)) = canon key)"
proof -
  let ?b = "bucket_of c (key_hash key)"
  have s: "sane c" using r by (simp add: rep_def)
  then have b: "?b < c_nbuckets c" "?b < length (c_buckets c)"
    using bucket_of_less by (auto simp: sane_def)
  then obtain xs where xs: "chain (hnx (c_entries c)) (c_buckets c ! ?b) xs"
    "set xs = {i \<in> set fifo. home c i = ?b}" using r by (auto simp: rep_def buckets_ok_def chains_ok_def)
  moreover have l: "i < length (c_entries c)" if "i \<in> set fifo" for i
    using r that by (auto simp: rep_def sane_def)
  ultimately have f: "entry_find c key (key_hash key) =
      Some (List.find (\<lambda>i. key_equal (en_key (c_entries c ! i)) key) xs)"
    using find_walk_ok [OF xs(1)] b by (simp add: entry_find_def bucket_def)
  have home: "home c i = ?b" if "canon (en_key (c_entries c ! i)) = canon key" for i
    using key_hash_canon [OF that] by (simp add: home_def)
  show ?thesis
  proof (cases "List.find (\<lambda>i. key_equal (en_key (c_entries c ! i)) key) xs")
    case None
    then have "\<forall>i \<in> set fifo. canon (en_key (c_entries c ! i)) \<noteq> canon key"
      using xs(2) home by (auto simp: find_None_iff key_equal_canon)
    with f None show ?thesis by simp
  next
    case (Some i)
    then have "i \<in> set xs" "key_equal (en_key (c_entries c ! i)) key"
      by (auto simp: find_Some_iff in_set_conv_nth)
    then have "i \<in> set fifo \<and> canon (en_key (c_entries c ! i)) = canon key"
      using xs(2) by (auto simp: key_equal_canon)
    with f Some show ?thesis by simp
  qed
qed

section \<open>Bucket chains\<close>

lemma chain_cong: "(\<And>x. x \<in> set xs \<Longrightarrow> f x = g x) \<Longrightarrow> chain f a xs = chain g a xs"
  by (induction xs arbitrary: a) auto

lemma chains_cong:
  assumes "\<And>i. i \<in> S \<Longrightarrow> f i = g i" "\<And>i. i \<in> S \<Longrightarrow> hm i = hm' i" "chains_ok f bks n S hm"
  shows "chains_ok g bks n S hm'"
  unfolding chains_ok_def
proof (intro allI impI)
  fix b assume "b < n"
  with assms(3) obtain xs where xs: "chain f (bks ! b) xs" "distinct xs" "set xs = {i \<in> S. hm i = b}"
    by (auto simp: chains_ok_def)
  moreover have "chain g (bks ! b) xs" using xs(1,3) assms(1) chain_cong [of xs f g] by auto
  moreover have "{i \<in> S. hm i = b} = {i \<in> S. hm' i = b}" using assms(2) by auto
  ultimately show "\<exists>xs. chain g (bks ! b) xs \<and> distinct xs \<and> set xs = {i \<in> S. hm' i = b}" by auto
qed

lemma chains_ok_at:
  assumes "chains_ok f bks n S hm" "i \<in> S" "hm i < n"
  obtains us vs where "chain f (bks ! hm i) (us @ i # vs)" "distinct (us @ i # vs)"
    "set (us @ i # vs) = {j \<in> S. hm j = hm i}"
proof -
  obtain xs where xs: "chain f (bks ! hm i) xs" "distinct xs" "set xs = {j \<in> S. hm j = hm i}"
    using assms by (auto simp: chains_ok_def)
  with assms(2) obtain us vs where "xs = us @ i # vs" using split_list [of i xs] by auto
  with xs that show thesis by blast
qed

lemma chains_remove:
  assumes ok: "chains_ok f bks n S hm" and b: "b < n" "hm i = b" "length bks = n"
    and c: "chain f (bks ! b) (us @ i # vs)" "distinct (us @ i # vs)" "set (us @ i # vs) = {j \<in> S. hm j = b}"
  shows "us = [] \<Longrightarrow> chains_ok f (bks[b := f i]) n (S - {i}) hm"
    and "us = us' @ [p] \<Longrightarrow> chains_ok (f(p := f i)) bks n (S - {i}) hm"
proof -
  have other: "{j \<in> S - {i}. hm j = b'} = {j \<in> S. hm j = b'}" if "b' \<noteq> b" for b' using that b by auto
  have this_b: "set (us @ vs) = {j \<in> S - {i}. hm j = b}" using c(2,3) by auto
  show "chains_ok f (bks[b := f i]) n (S - {i}) hm" if u: "us = []"
    unfolding chains_ok_def
  proof (intro allI impI)
    fix b' assume b': "b' < n"
    show "\<exists>xs. chain f (bks[b := f i] ! b') xs \<and> distinct xs \<and> set xs = {j \<in> S - {i}. hm j = b'}"
    proof (cases "b' = b")
      case True
      have "chain f (f i) vs" using c(1) u by simp
      with True this_b u c(2) b show ?thesis by (intro exI [of _ vs]) simp
    next
      case False
      with ok b' other [OF False] show ?thesis by (simp add: chains_ok_def)
    qed
  qed
  show "chains_ok (f(p := f i)) bks n (S - {i}) hm" if u: "us = us' @ [p]"
    unfolding chains_ok_def
  proof (intro allI impI)
    fix b' assume b': "b' < n"
    show "\<exists>xs. chain (f(p := f i)) (bks ! b') xs \<and> distinct xs \<and> set xs = {j \<in> S - {i}. hm j = b'}"
    proof (cases "b' = b")
      case True
      have "chain (f(p := f i)) (bks ! b) (us @ vs)" using chain_remove [of f "bks ! b" us' p i vs] c u by simp
      with True this_b c(2) show ?thesis by (intro exI [of _ "us @ vs"]) auto
    next
      case False
      obtain xs where xs: "chain f (bks ! b') xs" "distinct xs" "set xs = {j \<in> S. hm j = b'}"
        using ok b' by (auto simp: chains_ok_def)
      have "hm p = b" using c(3) u by auto
      then have "p \<notin> set xs" using xs(3) False by auto
      with xs(1,2) have "chain (f(p := f i)) (bks ! b') xs \<and> distinct xs" by simp
      with xs(3) other [OF False] show ?thesis by metis
    qed
  qed
qed

lemma chains_insert:
  assumes ok: "chains_ok f bks n S hm" and i: "i \<notin> S" "b < n" "length bks = n"
  shows "chains_ok (f(i := bks ! b)) (bks[b := Some i]) n (insert i S) (hm(i := b))"
  unfolding chains_ok_def
proof (intro allI impI)
  fix b' assume b': "b' < n"
  then obtain xs where xs: "chain f (bks ! b') xs" "distinct xs" "set xs = {j \<in> S. hm j = b'}"
    using ok by (auto simp: chains_ok_def)
  then have n: "i \<notin> set xs" using i by auto
  show "\<exists>xs. chain (f(i := bks ! b)) (bks[b := Some i] ! b') xs \<and> distinct xs \<and>
      set xs = {j \<in> insert i S. (hm(i := b)) j = b'}"
  proof (cases "b' = b")
    case True
    with xs n i show ?thesis by (intro exI [of _ "i # xs"]) auto
  next
    case False
    with xs n i show ?thesis by (intro exI [of _ xs]) auto
  qed
qed

section \<open>Releasing an entry\<close>

text \<open>What the table operations keep: the contents of the entries and the configuration.\<close>

definition pay :: "cf_dns_entry \<Rightarrow> cf_dns_txn_key \<times> int \<times> ctx" where
  "pay e = (en_key e, en_time e, en_ctx e)"

definition keep :: "cf_dns_correlator \<Rightarrow> cf_dns_correlator \<Rightarrow> bool" where
  "keep c c' \<longleftrightarrow> map pay (c_entries c') = map pay (c_entries c) \<and> c_capacity c' = c_capacity c \<and>
    c_nbuckets c' = c_nbuckets c \<and> c_bucket_mask c' = c_bucket_mask c \<and>
    c_timeout c' = c_timeout c \<and> c_on_full c' = c_on_full c \<and> c_stats c' = c_stats c \<and>
    c_emitted c' = c_emitted c"

lemma keep_refl: "keep c c" by (simp add: keep_def)

lemma keep_trans: "keep a b \<Longrightarrow> keep b c \<Longrightarrow> keep a c"
  by (simp add: keep_def)



lemma pay_nth:
  assumes "map pay es' = map pay es" "i < length es"
  shows "en_key (es' ! i) = en_key (es ! i)" "en_time (es' ! i) = en_time (es ! i)"
    "en_ctx (es' ! i) = en_ctx (es ! i)"
proof -
  have "length es' = length es" using assms(1) map_eq_imp_length_eq by blast
  then have "pay (es' ! i) = pay (es ! i)" using assms by (metis nth_map)
  then show "en_key (es' ! i) = en_key (es ! i)" "en_time (es' ! i) = en_time (es ! i)"
    "en_ctx (es' ! i) = en_ctx (es ! i)" by (simp_all add: pay_def)
qed

lemma pay_update: "i < length es \<Longrightarrow> pay e = pay (es ! i) \<Longrightarrow> map pay (es[i := e]) = map pay es"
  by (simp add: map_update list_update_same_conv)

lemma same_coreD:
  assumes "same_core c c'"
  shows "keep c c'" "length (c_entries c') = length (c_entries c)" "c_buckets c' = c_buckets c"
    "c_free_head c' = c_free_head c" "c_count c' = c_count c"
    "i < length (c_entries c) \<Longrightarrow> hnx (c_entries c') i = hnx (c_entries c) i"
proof -
  have m: "map core (c_entries c') = map core (c_entries c)"
    and eq: "c'\<lparr>c_entries := c_entries c, c_fifo_head := c_fifo_head c, c_fifo_tail := c_fifo_tail c\<rparr> = c"
    using assms by (auto simp: same_core_def)
  show l: "length (c_entries c') = length (c_entries c)" using m map_eq_imp_length_eq by blast
  have n: "core (c_entries c' ! i) = core (c_entries c ! i)" if "i < length (c_entries c)" for i
    using m l that by (metis nth_map)
  show "hnx (c_entries c') i = hnx (c_entries c) i" if "i < length (c_entries c)"
    using n [OF that] by (simp add: core_def hnx_def)
  have "map pay (c_entries c') = map pay (c_entries c)"
    using l n by (auto simp: list_eq_iff_nth_eq core_def pay_def)
  then show "keep c c'"
    using arg_cong [OF eq, of c_capacity] arg_cong [OF eq, of c_nbuckets]
      arg_cong [OF eq, of c_bucket_mask] arg_cong [OF eq, of c_timeout] arg_cong [OF eq, of c_on_full]
      arg_cong [OF eq, of c_stats] arg_cong [OF eq, of c_emitted] by (simp add: keep_def)
  show "c_buckets c' = c_buckets c" "c_free_head c' = c_free_head c" "c_count c' = c_count c"
    using arg_cong [OF eq, of c_buckets] arg_cong [OF eq, of c_free_head] arg_cong [OF eq, of c_count]
    by simp_all
qed

lemma keep_pay: "keep c c' \<Longrightarrow> map pay (c_entries c') = map pay (c_entries c)"
  by (simp add: keep_def)

lemma keep_home:
  assumes "keep c c'" "i < length (c_entries c)" shows "home c' i = home c i"
  using assms(1) pay_nth(1) [OF keep_pay [OF assms(1)] assms(2)]
  by (simp add: home_def bucket_of_def keep_def)

lemma keep_keys:
  assumes "keep c c'" "\<forall>i \<in> set xs. i < length (c_entries c)" "keys_ok c xs"
  shows "keys_ok c' xs"
proof -
  have "en_key (c_entries c' ! i) = en_key (c_entries c ! i)" if "i \<in> set xs" for i
    using pay_nth(1) [OF keep_pay [OF assms(1)]] assms(2) that by blast
  with assms(3) show ?thesis by (auto simp: keys_ok_def inj_on_def)
qed

lemma repD:
  assumes "rep c fifo free"
  shows "sane c" "distinct fifo" "distinct free" "set fifo \<inter> set free = {}" "fifo_is c fifo"
    "set fifo \<union> set free = {..<c_capacity c}"
    "chain (hnx (c_entries c)) (c_free_head c) free"
    "chains_ok (hnx (c_entries c)) (c_buckets c) (c_nbuckets c) (set fifo) (home c)"
    "c_count c = length fifo" "keys_ok c fifo" "length (c_entries c) = c_capacity c"
    "length (c_buckets c) = c_nbuckets c"
    "i \<in> set fifo \<Longrightarrow> i < length (c_entries c)" "i \<in> set free \<Longrightarrow> i < length (c_entries c)"
  using assms by (auto simp: rep_def buckets_ok_def sane_def)

text \<open>The first half of \<open>entry_release\<close>: the entry leaves its bucket chain.\<close>

lemma bucket_unlink_ok:
  assumes r: "rep c fifo free" and i: "i \<in> set fifo"
  obtains prev c1 where "release_walk c i None (c_buckets c ! home c i) = Some (prev, Some i)"
    "(case prev of
        None \<Rightarrow> Some (c\<lparr>c_buckets := (c_buckets c)[home c i := en_hnext (c_entries c ! i)]\<rparr>)
      | Some p \<Rightarrow> upd_entry p (\<lambda>x. x\<lparr>en_hnext := en_hnext (c_entries c ! i)\<rparr>) c) = Some c1"
    "keep c c1" "fifo_is c1 fifo" "sane c1" "c_count c1 = c_count c" "c_free_head c1 = c_free_head c"
    "chain (hnx (c_entries c1)) (c_free_head c) free"
    "chains_ok (hnx (c_entries c1)) (c_buckets c1) (c_nbuckets c) (set fifo - {i}) (home c)"
proof -
  note R = repD [OF r]
  obtain us vs where c: "chain (hnx (c_entries c)) (c_buckets c ! home c i) (us @ i # vs)"
    "distinct (us @ i # vs)" "set (us @ i # vs) = {j \<in> set fifo. home c j = home c i}"
    by (rule chains_ok_at [OF R(8) i home_less [OF R(1)]])
  have l: "j < length (c_entries c)" if "j \<in> set us" for j using c(3) that R(13) by auto
  have w: "release_walk c i None (c_buckets c ! home c i) = Some (final us None, Some i)"
    using release_walk_ok [OF c(1)] l c(2) by auto
  note cr = chains_remove [OF R(8) home_less [OF R(1)] refl R(12) c]
  show thesis
  proof (cases us rule: rev_cases)
    case Nil
    with w R cr(1) that [of None] show thesis by (auto simp: keep_def fifo_is_def sane_def hnx_def)
  next
    case (snoc us' p)
    then have p: "p < length (c_entries c)" "p \<in> set fifo" using l c(3) by auto
    then have pf: "p \<notin> set free" using R(4) by auto
    let ?es = "(c_entries c)[p := (c_entries c ! p)\<lparr>en_hnext := en_hnext (c_entries c ! i)\<rparr>]"
    have v: "hnx ?es = (hnx (c_entries c))(p := hnx (c_entries c) i)"
      "prv ?es = prv (c_entries c)" "nxt ?es = nxt (c_entries c)"
      using p by (simp_all add: view_update) (auto simp: hnx_def prv_def nxt_def)
    have "map pay ?es = map pay (c_entries c)" using p by (simp add: pay_update pay_def)
    with w R cr(2) [OF snoc] v pf p snoc show thesis
      by (intro that [of "Some p" "c\<lparr>c_entries := ?es\<rparr>"])
         (simp_all add: upd_entry_def keep_def fifo_is_def sane_def)
  qed
qed

lemma entry_release_ok:
  assumes r: "rep c (xs @ i # ys) free"
  shows "\<exists>c'. entry_release c i = Some c' \<and> rep c' (xs @ ys) (i # free) \<and> keep c c'"
proof -
  let ?fifo = "xs @ i # ys"
  note R = repD [OF r]
  have i: "i \<in> set ?fifo" by simp
  have il: "i < length (c_entries c)" using R(13) [OF i] .
  obtain prev c1 where w: "release_walk c i None (c_buckets c ! home c i) = Some (prev, Some i)"
    and s1: "(case prev of
        None \<Rightarrow> Some (c\<lparr>c_buckets := (c_buckets c)[home c i := en_hnext (c_entries c ! i)]\<rparr>)
      | Some p \<Rightarrow> upd_entry p (\<lambda>x. x\<lparr>en_hnext := en_hnext (c_entries c ! i)\<rparr>) c) = Some c1"
    and k1: "keep c c1" "fifo_is c1 ?fifo" "sane c1" "c_count c1 = c_count c" "c_free_head c1 = c_free_head c"
      "chain (hnx (c_entries c1)) (c_free_head c) free"
      "chains_ok (hnx (c_entries c1)) (c_buckets c1) (c_nbuckets c) (set ?fifo - {i}) (home c)"
    by (rule bucket_unlink_ok [OF r i])
  have l1: "length (c_entries c1) = length (c_entries c)" using k1(1) map_eq_imp_length_eq by (auto simp: keep_def)
  then have in1: "\<forall>j \<in> set ?fifo. j < length (c_entries c1)" using R(13) by simp
  obtain c2 where c2: "fifo_unlink c1 i = Some c2" "fifo_is c2 (xs @ ys)" "same_core c1 c2"
    using fifo_unlink_ok [OF k1(2) R(2) in1] by blast
  note S = same_coreD [OF c2(3)]
  let ?es = "(c_entries c2)[i := (c_entries c2 ! i)\<lparr>en_hnext := c_free_head c2\<rparr>]"
  let ?c' = "c2\<lparr>c_entries := ?es, c_free_head := Some i, c_count := c_count c2 - 1\<rparr>"
  have i2: "i < length (c_entries c2)" using il l1 S(2) by simp
  have v: "hnx ?es = (hnx (c_entries c2))(i := c_free_head c)" "prv ?es = prv (c_entries c2)"
    "nxt ?es = nxt (c_entries c2)"
    using i2 S(4) k1(5) by (simp_all add: view_update) (auto simp: prv_def nxt_def)
  have "keep c2 ?c'" using i2 by (simp add: keep_def pay_update pay_def)
  then have keep: "keep c ?c'" using keep_trans [OF k1(1) keep_trans [OF S(1)]] by blast
  have rest: "set ?fifo - {i} = set (xs @ ys)" using R(2) by auto
  have hn: "hnx ?es j = hnx (c_entries c1) j" if "j \<in> set free \<union> set (xs @ ys)" for j
  proof -
    have "j \<noteq> i" using that R(2,4) by auto
    moreover have "j < length (c_entries c1)" using that R(13,14) l1 by auto
    ultimately show ?thesis using S(6) by (simp add: v)
  qed
  have free: "chain (hnx ?es) (Some i) (i # free)"
    using k1(6) hn chain_cong [of free "hnx ?es" "hnx (c_entries c1)" "c_free_head c"] by (simp add: v)
  have "chains_ok (hnx ?es) (c_buckets c1) (c_nbuckets c) (set (xs @ ys)) (home ?c')"
    using k1(7) unfolding rest
    by (rule chains_cong [rotated 2]) (use hn keep_home [OF keep] R(13) in auto)
  moreover have "sane ?c'" using k1(3) S(2,3) S(1) by (simp add: sane_def keep_def)
  moreover have "keys_ok ?c' (xs @ ys)"
    using keep_keys [OF keep _ R(10)] R(13) by (auto simp: keys_ok_def intro: inj_on_subset)
  ultimately have "rep ?c' (xs @ ys) (i # free)"
    using R(2,3,4,6,9) c2(2) free S(1,3,5) k1(1,4)
    by (auto simp: rep_def buckets_ok_def fifo_is_def v keep_def)
  moreover have "entry_release c i = Some ?c'"
    using w [unfolded home_def] s1 [unfolded home_def] il i2 c2(1) home_less [OF R(1), of i] R(12)
    by (simp add: entry_release_def entry_def bucket_def home_def upd_entry_def)
  ultimately show ?thesis using keep by blast
qed


lemma insert_pending_ok:
  assumes r: "rep c fifo (i # free)" and new: "\<forall>j \<in> set fifo. canon (en_key (c_entries c ! j)) \<noteq> canon key"
  shows "\<exists>c'. insert_pending c key (key_hash key) t x = Some c' \<and> rep c' (fifo @ [i]) free \<and>
    map pay (c_entries c') = (map pay (c_entries c))[i := (key, t, x)] \<and>
    c_capacity c' = c_capacity c \<and> c_timeout c' = c_timeout c \<and> c_on_full c' = c_on_full c \<and>
    c_stats c' = c_stats c \<and> c_emitted c' = c_emitted c"
proof -
  note R = repD [OF r]
  let ?b = "bucket_of c (key_hash key)"
  have i: "i < length (c_entries c)" "i \<notin> set fifo" "i \<notin> set free" using R(14) [of i] R(3,4) by auto
  have b: "?b < c_nbuckets c" using bucket_of_less [OF R(1)] .
  have fh: "c_free_head c = Some i" "hnx (c_entries c) i = en_hnext (c_entries c ! i)"
    "chain (hnx (c_entries c)) (hnx (c_entries c) i) free" using R(7) by (auto simp: hnx_def)
  let ?e = "(c_entries c ! i)\<lparr>en_key := key, en_time := t, en_ctx := x, en_hnext := c_buckets c ! ?b\<rparr>"
  let ?es = "(c_entries c)[i := ?e]"
  let ?c1 = "c\<lparr>c_free_head := en_hnext (c_entries c ! i), c_entries := ?es, c_buckets := (c_buckets c)[?b := Some i]\<rparr>"
  have v: "hnx ?es = (hnx (c_entries c))(i := c_buckets c ! ?b)" "prv ?es = prv (c_entries c)"
    "nxt ?es = nxt (c_entries c)"
    using i by (simp_all add: view_update) (auto simp: prv_def nxt_def)
  have f1: "fifo_is ?c1 fifo" using R(5) by (simp add: fifo_is_def v)
  have in1: "\<forall>j \<in> set fifo. j < length (c_entries ?c1)" using R(13) by simp
  obtain c2 where c2: "fifo_append ?c1 i = Some c2" "fifo_is c2 (fifo @ [i])" "same_core ?c1 c2"
    using fifo_append_ok [OF f1 R(2) i(2) in1] i(1) by auto
  note S = same_coreD [OF c2(3)]
  let ?c' = "c2\<lparr>c_count := c_count c2 + 1\<rparr>"
  have es: "length (c_entries c2) = length (c_entries c)" using S(2) by simp
  have home: "home ?c' j = ((home c)(i := ?b)) j" if "j \<in> set (fifo @ [i])" for j
  proof -
    have "j < length (c_entries ?c1)" using that in1 i by auto
    from keep_home [OF S(1) this] have "home ?c' j = home ?c1 j" by (simp add: home_def bucket_of_def)
    also have "\<dots> = ((home c)(i := ?b)) j" using i by (auto simp: home_def bucket_of_def)
    finally show ?thesis .
  qed
  have hn: "hnx (c_entries c2) j = ((hnx (c_entries c))(i := c_buckets c ! ?b)) j" if "j \<in> set (fifo @ i # free)" for j
    using S(6) [of j] that R(13,14) i by (auto simp: v)
  have "chains_ok (hnx (c_entries ?c')) (c_buckets ?c') (c_nbuckets c) (set (fifo @ [i])) (home ?c')"
  proof (rule chains_cong)
    show "chains_ok ((hnx (c_entries c))(i := c_buckets c ! ?b)) (c_buckets ?c') (c_nbuckets c)
        (set (fifo @ [i])) ((home c)(i := ?b))"
      using chains_insert [OF R(8) i(2) b R(12)] S(3) by simp
  qed (use hn home in auto)
  moreover have "chain (hnx (c_entries ?c')) (c_free_head ?c') free"
  proof -
    have "hnx (c_entries c2) j = hnx (c_entries c) j" if "j \<in> set free" for j
      using hn [of j] that i(3) by auto
    from chain_cong [OF this] fh S(4) show ?thesis by simp
  qed
  moreover have "sane ?c'" using R(1) S(1,3) es by (simp add: sane_def keep_def)
  moreover have "keys_ok ?c' (fifo @ [i])"
  proof -
    have k: "en_key (c_entries c2 ! j) = (if j = i then key else en_key (c_entries c ! j))"
      if "j \<in> set (fifo @ [i])" for j
      using pay_nth(1) [OF keep_pay [OF S(1)], of j] that R(13) i by auto
    then show ?thesis using R(10) new i by (auto simp: keys_ok_def inj_on_def)
  qed
  ultimately have "rep ?c' (fifo @ [i]) free"
    using R(2,3,4,6,9) i c2(2) S(1,5) by (auto simp: rep_def buckets_ok_def fifo_is_def keep_def)
  moreover have "insert_pending c key (key_hash key) t x = Some ?c'"
    using fh(1) i b R(12) c2(1)
    by (simp add: insert_pending_def entry_def bucket_def upd_entry_def bucket_of_def)
  moreover have "map pay (c_entries ?c') = (map pay (c_entries c))[i := (key, t, x)]"
    using keep_pay [OF S(1)] by (simp add: map_update pay_def)
  ultimately show ?thesis using S(1) by (intro exI [of _ ?c']) (simp add: keep_def)
qed


lemma replace_pending_ok:
  assumes r: "rep c (xs @ i # ys) free" and k: "canon (en_key (c_entries c ! i)) = canon key"
  shows "\<exists>c'. replace_pending c i key t x = Some c' \<and> rep c' (xs @ ys @ [i]) free \<and>
    map pay (c_entries c') = (map pay (c_entries c))[i := (key, t, x)] \<and>
    c_capacity c' = c_capacity c \<and> c_timeout c' = c_timeout c \<and> c_on_full c' = c_on_full c \<and>
    c_stats c' = (c_stats c)\<lparr>st_pending_evicted_collision := st_pending_evicted_collision (c_stats c) + 1\<rparr> \<and>
    c_emitted c' = c_emitted c @ [\<lparr>em_outcome = CF_DNS_TXN_UNANSWERED,
      em_query_ctx = Some (en_ctx (c_entries c ! i)), em_response_ctx = None, em_rtt = 0,
      em_rtt_valid = False, em_key = en_key (c_entries c ! i)\<rparr>]"
proof -
  let ?fifo = "xs @ i # ys"
  note R = repD [OF r]
  have i: "i < length (c_entries c)" using R(13) [of i] by simp
  let ?es = "(c_entries c)[i := (c_entries c ! i)\<lparr>en_key := key, en_time := t, en_ctx := x\<rparr>]"
  let ?c1 = "(emit CF_DNS_TXN_UNANSWERED (Some (en_ctx (c_entries c ! i))) None 0 False (en_key (c_entries c ! i))
    (c\<lparr>c_stats := (c_stats c)\<lparr>st_pending_evicted_collision := st_pending_evicted_collision (c_stats c) + 1\<rparr>\<rparr>))\<lparr>c_entries := ?es\<rparr>"
  have v: "hnx ?es = hnx (c_entries c)" "prv ?es = prv (c_entries c)" "nxt ?es = nxt (c_entries c)"
    using i by (simp_all add: view_update) (auto simp: prv_def nxt_def hnx_def)
  have c1: "c_entries ?c1 = ?es" by simp
  have f1: "fifo_is ?c1 ?fifo" using R(5) by (simp add: fifo_is_def v emit_def)
  have in1: "\<forall>j \<in> set ?fifo. j < length (c_entries ?c1)" using R(13) by simp
  obtain c2 where c2: "fifo_unlink ?c1 i = Some c2" "fifo_is c2 (xs @ ys)" "same_core ?c1 c2"
    using fifo_unlink_ok [OF f1 R(2) in1] by blast
  note S = same_coreD [OF c2(3)]
  have in2: "\<forall>j \<in> set (xs @ ys). j < length (c_entries c2)" "i < length (c_entries c2)"
    using in1 S(2) by auto
  have d2: "distinct (xs @ ys)" "i \<notin> set (xs @ ys)" using R(2) by auto
  obtain c3 where c3: "fifo_append c2 i = Some c3" "fifo_is c3 ((xs @ ys) @ [i])" "same_core c2 c3"
    using fifo_append_ok [OF c2(2) d2 in2] by blast
  note S' = same_coreD [OF c3(3)]
  have K: "keep ?c1 c3" using keep_trans [OF S(1) S'(1)] .
  have es: "length (c_entries c3) = length (c_entries c)" using S(2) S'(2) by simp
  have set3: "set (xs @ ys @ [i]) = set ?fifo" by auto
  have hn: "hnx (c_entries c3) j = hnx (c_entries c) j" if "j < length (c_entries c)" for j
    using S(6) [of j] S'(6) [of j] S(2) that v by simp
  have home: "home c3 j = home c j" if "j \<in> set ?fifo" for j
  proof -
    have "home c3 j = home ?c1 j" using keep_home [OF K, of j] that in1 by blast
    also have "\<dots> = home c j"
      using key_hash_canon [OF k] i by (cases "j = i") (simp_all add: home_def bucket_of_def emit_def)
    finally show ?thesis .
  qed
  have "chains_ok (hnx (c_entries c3)) (c_buckets c) (c_nbuckets c) (set ?fifo) (home c3)"
    by (rule chains_cong [OF _ _ R(8)]) (use hn home R(13) in auto)
  moreover have "chain (hnx (c_entries c3)) (c_free_head c) free"
    using R(7) chain_cong [of free "hnx (c_entries c3)" "hnx (c_entries c)"] hn R(14) by auto
  moreover have "keys_ok c3 (xs @ ys @ [i])"
  proof -
    have "canon (en_key (c_entries c3 ! j)) = canon (en_key (c_entries c ! j))" if "j \<in> set ?fifo" for j
      using pay_nth(1) [OF keep_pay [OF K], of j] that in1 k i by (cases "j = i") auto
    then show ?thesis using R(10) set3 by (auto simp: keys_ok_def inj_on_def)
  qed
  ultimately have "rep c3 (xs @ ys @ [i]) free"
    using R(1-4,6,9) c3(2) K S(3-5) S'(3-5) es set3
    by (auto simp: rep_def buckets_ok_def fifo_is_def keep_def sane_def emit_def)
  moreover have "replace_pending c i key t x = Some c3"
    using i c2(1) c3(1) by (simp add: replace_pending_def entry_def upd_entry_def emit_def)
  moreover have "map pay (c_entries c3) = (map pay (c_entries c))[i := (key, t, x)]"
    using keep_pay [OF K] by (simp add: map_update pay_def)
  ultimately show ?thesis using K by (intro exI [of _ c3]) (simp add: keep_def emit_def)
qed

end
