(* ===== verification/Correlation_Refine.thy ===== *)
theory Correlation_Refine
  imports Correlation_Rep "HOL-Library.Multiset"
begin

text \<open>
  What the pending table promises: an abstract table (the list of pending queries in arrival
  order), the refinement of every public operation of
  \<^verbatim>\<open>sources/cloudflow-source-dns/src/correlation.c\<close> to it, the interface a client relies on as a
  locale, and the ownership, accounting, matching and timeout properties.
\<close>

section \<open>The abstract table\<close>

text \<open>What the table promises, without chains and links: the pending queries in the order of
  their arrival.\<close>

type_synonym pending = "cf_dns_txn_key \<times> int \<times> ctx"

record table =
  pt_pending :: "pending list"
  pt_capacity :: nat
  pt_timeout :: int
  pt_on_full :: on_full
  pt_stats :: cf_dns_correlator_stats
  pt_emitted :: "emission list"

definition unanswered :: "pending \<Rightarrow> emission" where
  "unanswered p = \<lparr>em_outcome = CF_DNS_TXN_UNANSWERED, em_query_ctx = Some (snd (snd p)),
    em_response_ctx = None, em_rtt = 0, em_rtt_valid = False, em_key = fst p\<rparr>"

definition same_key :: "cf_dns_txn_key \<Rightarrow> pending \<Rightarrow> bool" where
  "same_key key p \<longleftrightarrow> canon (fst p) = canon key"

definition pt_evict_head :: "(cf_dns_correlator_stats \<Rightarrow> cf_dns_correlator_stats) \<Rightarrow> table \<Rightarrow> table" where
  "pt_evict_head counter a =
    (case pt_pending a of [] \<Rightarrow> a
     | p # ps \<Rightarrow> a\<lparr>pt_pending := ps, pt_stats := counter (pt_stats a),
                   pt_emitted := pt_emitted a @ [unanswered p]\<rparr>)"

fun pt_evict :: "nat \<Rightarrow> int \<Rightarrow> table \<Rightarrow> table" where
  "pt_evict 0 now a = a"
| "pt_evict (Suc n) now a =
    (case pt_pending a of [] \<Rightarrow> a
     | p # ps \<Rightarrow> if now - fst (snd p) \<le> pt_timeout a then a
                else pt_evict n now (pt_evict_head inc_unanswered a))"

definition pt_append :: "pending \<Rightarrow> table \<Rightarrow> table" where
  "pt_append p a = a\<lparr>pt_pending := pt_pending a @ [p]\<rparr>"

definition pt_fresh :: "table \<Rightarrow> pending \<Rightarrow> table" where
  "pt_fresh a p =
    (if length (pt_pending a) < pt_capacity a then pt_append p a
     else if pt_on_full a = CF_DNS_ON_FULL_DROP_OLDEST then pt_append p (pt_evict_head inc_drop a)
     else a\<lparr>pt_stats := inc_drop (pt_stats a), pt_emitted := pt_emitted a @ [unanswered p]\<rparr>)"

definition pt_replace :: "table \<Rightarrow> pending \<Rightarrow> pending \<Rightarrow> table" where
  "pt_replace a old p =
    a\<lparr>pt_pending := filter (\<lambda>q. \<not> same_key (fst p) q) (pt_pending a) @ [p],
      pt_stats := (pt_stats a)\<lparr>st_pending_evicted_collision := st_pending_evicted_collision (pt_stats a) + 1\<rparr>,
      pt_emitted := pt_emitted a @ [unanswered old]\<rparr>"

definition pt_on_query :: "table \<Rightarrow> cf_dns_txn_key \<Rightarrow> int \<Rightarrow> ctx \<Rightarrow> table" where
  "pt_on_query a key t x =
    (let a = pt_evict 8 t a in
     case List.find (same_key key) (pt_pending a) of
       Some p \<Rightarrow> pt_replace a p (key, t, x)
     | None \<Rightarrow> pt_fresh a (key, t, x))"

definition pt_on_response :: "table \<Rightarrow> cf_dns_txn_key \<Rightarrow> int \<Rightarrow> ctx \<Rightarrow> table" where
  "pt_on_response a key t x =
    (case List.find (same_key key) (pt_pending a) of
       None \<Rightarrow> a\<lparr>pt_stats := (pt_stats a)\<lparr>st_response_unmatched := st_response_unmatched (pt_stats a) + 1\<rparr>,
         pt_emitted := pt_emitted a @ [\<lparr>em_outcome = CF_DNS_TXN_UNMATCHED, em_query_ctx = None,
           em_response_ctx = Some x, em_rtt = 0, em_rtt_valid = False, em_key = key\<rparr>]\<rparr>
     | Some (k, t0, q) \<Rightarrow>
         let valid = (0 \<le> t - t0 \<and> t - t0 \<le> pt_timeout a);
             s = pt_stats a;
             s = (if valid then s else s\<lparr>st_rtt_invalid := st_rtt_invalid s + 1\<rparr>)
         in a\<lparr>pt_pending := filter (\<lambda>q. \<not> same_key key q) (pt_pending a),
              pt_stats := s\<lparr>st_transactions_observed := st_transactions_observed s + 1\<rparr>,
              pt_emitted := pt_emitted a @ [\<lparr>em_outcome = CF_DNS_TXN_OBSERVED, em_query_ctx = Some q,
                em_response_ctx = Some x, em_rtt = t - t0, em_rtt_valid = valid, em_key = k\<rparr>]\<rparr>)"

definition pt_tick :: "table \<Rightarrow> int \<Rightarrow> table" where
  "pt_tick a now = pt_evict (length (pt_pending a)) now a"

fun pt_drain :: "nat \<Rightarrow> table \<Rightarrow> table" where
  "pt_drain 0 a = a"
| "pt_drain (Suc n) a = pt_drain n (pt_evict_head inc_unanswered a)"

definition pt_new :: "nat \<Rightarrow> int \<Rightarrow> on_full \<Rightarrow> table" where
  "pt_new capacity timeout policy = \<lparr>pt_pending = [], pt_capacity = capacity, pt_timeout = timeout,
    pt_on_full = policy, pt_stats = stats_zero, pt_emitted = []\<rparr>"

section \<open>Refinement\<close>

definition pend_of :: "cf_dns_correlator \<Rightarrow> nat list \<Rightarrow> pending list" where
  "pend_of c fifo = map (\<lambda>i. pay (c_entries c ! i)) fifo"

definition refines :: "cf_dns_correlator \<Rightarrow> table \<Rightarrow> bool" where
  "refines c a \<longleftrightarrow> (\<exists>fifo free. rep c fifo free \<and> pt_pending a = pend_of c fifo \<and>
    pt_capacity a = c_capacity c \<and> pt_timeout a = c_timeout c \<and> pt_on_full a = c_on_full c \<and>
    pt_stats a = c_stats c \<and> pt_emitted a = c_emitted c)"

lemma pend_keep:
  assumes "keep c c'" "\<forall>i \<in> set xs. i < length (c_entries c)"
  shows "pend_of c' xs = pend_of c xs"
  using pay_nth [OF keep_pay [OF assms(1)]] assms(2) by (simp add: pend_of_def pay_def)

lemma pend_update:
  assumes "map pay (c_entries c') = (map pay (c_entries c))[i := p]" "i < length (c_entries c)"
    "\<forall>j \<in> set xs. j < length (c_entries c)"
  shows "i \<notin> set xs \<Longrightarrow> pend_of c' xs = pend_of c xs" "pend_of c' [i] = [p]"
proof -
  have l: "length (c_entries c') = length (c_entries c)" using arg_cong [OF assms(1), of length] by simp
  have n: "pay (c_entries c' ! j) = (if j = i then p else pay (c_entries c ! j))" if "j < length (c_entries c)" for j
    using arg_cong [OF assms(1), of "\<lambda>xs. xs ! j"] that l by (auto simp: nth_list_update split: if_splits)
  then show "pend_of c' [i] = [p]" using assms(2) by (simp add: pend_of_def)
  show "pend_of c' xs = pend_of c xs" if "i \<notin> set xs"
    using n assms(3) that by (auto simp: pend_of_def)
qed

lemma rep_ghost [simp]:
  "rep (c\<lparr>c_stats := s\<rparr>) fifo free = rep c fifo free"
  "rep (c\<lparr>c_emitted := es\<rparr>) fifo free = rep c fifo free"
proof -
  have "home (c\<lparr>c_stats := s\<rparr>) = home c" "home (c\<lparr>c_emitted := es\<rparr>) = home c"
    by (simp_all add: fun_eq_iff home_def bucket_of_def)
  then show "rep (c\<lparr>c_stats := s\<rparr>) fifo free = rep c fifo free"
    "rep (c\<lparr>c_emitted := es\<rparr>) fifo free = rep c fifo free"
    by (simp_all add: rep_def sane_def fifo_is_def buckets_ok_def keys_ok_def)
qed

text \<open>The pending query with a key is unique: removing it is filtering it out.\<close>

lemma split_pending:
  assumes r: "rep c fifo free" and i: "i \<in> set fifo" "canon (en_key (c_entries c ! i)) = canon key"
  obtains xs ys where "fifo = xs @ i # ys"
    "filter (\<lambda>q. \<not> same_key key q) (pend_of c fifo) = pend_of c (xs @ ys)"
    "List.find (same_key key) (pend_of c fifo) = Some (pay (c_entries c ! i))"
proof -
  obtain xs ys where f: "fifo = xs @ i # ys" using split_list [OF i(1)] by blast
  have inj: "j = i" if "j \<in> set fifo" "canon (en_key (c_entries c ! j)) = canon key" for j
    using repD(10) [OF r] that i by (auto simp: keys_ok_def inj_on_def)
  have d: "i \<notin> set xs" "i \<notin> set ys" using repD(2) [OF r] f by auto
  have no: "\<not> same_key key (pay (c_entries c ! j))" if "j \<in> set (xs @ ys)" for j
    using inj [of j] that d f by (auto simp: same_key_def pay_def)
  have yes: "same_key key (pay (c_entries c ! i))" using i by (simp add: same_key_def pay_def)
  have flt: "filter (\<lambda>q. \<not> same_key key q) (pend_of c zs) = pend_of c zs" if "set zs \<subseteq> set (xs @ ys)" for zs
    using no that by (auto simp: pend_of_def filter_id_conv)
  have "filter (\<lambda>q. \<not> same_key key q) (pend_of c fifo) = pend_of c (xs @ ys)"
    using flt [of xs] flt [of ys] yes f by (simp add: pend_of_def)
  moreover have "List.find (same_key key) (map (\<lambda>j. pay (c_entries c ! j)) zs @ pay (c_entries c ! i) # w) =
      Some (pay (c_entries c ! i))" if "set zs \<subseteq> set (xs @ ys)" for zs w
    using that no yes by (induction zs) auto
  from this [of xs] have "List.find (same_key key) (pend_of c fifo) = Some (pay (c_entries c ! i))"
    by (simp add: pend_of_def f)
  ultimately show thesis using that f by blast
qed

lemma no_pending:
  assumes "\<forall>i \<in> set fifo. canon (en_key (c_entries c ! i)) \<noteq> canon key"
  shows "List.find (same_key key) (pend_of c fifo) = None"
  using assms by (auto simp: find_None_iff pend_of_def same_key_def pay_def)

lemma evict_head_ok:
  assumes r: "rep c (i # ys) free" and a: "pt_pending a = pend_of c (i # ys)"
    "pt_capacity a = c_capacity c" "pt_timeout a = c_timeout c" "pt_on_full a = c_on_full c"
    "pt_stats a = c_stats c" "pt_emitted a = c_emitted c"
  shows "\<exists>c'. evict_as_unanswered c i counter = Some c' \<and> rep c' ys (i # free) \<and>
    refines c' (pt_evict_head counter a) \<and> pt_pending (pt_evict_head counter a) = pend_of c' ys \<and>
    keep (c'\<lparr>c_stats := c_stats c, c_emitted := c_emitted c\<rparr>) c"
proof -
  obtain c1 where c1: "entry_release c i = Some c1" "rep c1 ys (i # free)" "keep c c1"
    using entry_release_ok [of c "[]" i ys free] r by auto
  have il: "i < length (c_entries c)" using repD(13) [OF r] by simp
  let ?c' = "emit CF_DNS_TXN_UNANSWERED (Some (en_ctx (c_entries c ! i))) None 0 False (en_key (c_entries c ! i))
    (c1\<lparr>c_stats := counter (c_stats c1)\<rparr>)"
  have "rep ?c' ys (i # free)"
    using c1(2) by (simp add: emit_def)
  moreover have p: "pend_of ?c' ys = pend_of c ys"
    using pend_keep [OF c1(3), of ys] repD(13) [OF r] by (simp add: pend_of_def emit_def)
  moreover have "refines ?c' (pt_evict_head counter a)"
    unfolding refines_def
  proof (intro exI conjI)
    show "rep ?c' ys (i # free)" by fact
  qed (use a p c1(3) in \<open>auto simp: pt_evict_head_def pend_of_def unanswered_def emit_def keep_def pay_def\<close>)
  moreover have "evict_as_unanswered c i counter = Some ?c'"
    using il c1(1) by (simp add: evict_as_unanswered_def entry_def)
  moreover have "keep (?c'\<lparr>c_stats := c_stats c, c_emitted := c_emitted c\<rparr>) c"
    using c1(3) by (simp add: keep_def emit_def)
  ultimately show ?thesis using a by (auto simp: pt_evict_head_def pend_of_def)
qed

lemma refinesE:
  assumes "refines c a"
  obtains fifo free where "rep c fifo free" "pt_pending a = pend_of c fifo" "pt_capacity a = c_capacity c"
    "pt_timeout a = c_timeout c" "pt_on_full a = c_on_full c" "pt_stats a = c_stats c"
    "pt_emitted a = c_emitted c"
  using assms by (auto simp: refines_def)

lemma fifo_head_first: "rep c fifo free \<Longrightarrow> c_fifo_head c = first fifo None"
  by (auto simp: rep_def fifo_is_def)

text \<open>One eviction at the head, in terms of the abstract table.\<close>

lemma evict_head_refines:
  assumes "refines c a" "pt_pending a = p # ps"
  obtains i c' where "c_fifo_head c = Some i" "entry c i = Some (c_entries c ! i)"
    "en_time (c_entries c ! i) = fst (snd p)"
    "evict_as_unanswered c i counter = Some c'" "refines c' (pt_evict_head counter a)"
proof -
  obtain fifo free where r: "rep c fifo free" "pt_pending a = pend_of c fifo" "pt_capacity a = c_capacity c"
    "pt_timeout a = c_timeout c" "pt_on_full a = c_on_full c" "pt_stats a = c_stats c"
    "pt_emitted a = c_emitted c" by (rule refinesE [OF assms(1)])
  then obtain i ys where f: "fifo = i # ys" using assms(2) by (cases fifo) (auto simp: pend_of_def)
  have "i < length (c_entries c)" "c_fifo_head c = Some i" "en_time (c_entries c ! i) = fst (snd p)"
    using r f assms(2) repD(13) [OF r(1)] fifo_head_first [OF r(1)] by (auto simp: pend_of_def pay_def)
  moreover obtain c' where "evict_as_unanswered c i counter = Some c'" "refines c' (pt_evict_head counter a)"
    using evict_head_ok [of c i ys free a counter] r f by blast
  ultimately show thesis using that by (simp add: entry_def)
qed

lemma no_head: "refines c a \<Longrightarrow> pt_pending a = [] \<Longrightarrow> c_fifo_head c = None"
  by (erule refinesE) (auto simp: fifo_head_first pend_of_def)

lemma refines_timeout: "refines c a \<Longrightarrow> pt_timeout a = c_timeout c"
  by (auto simp: refines_def)

lemma evict_loop_ok:
  assumes "refines c a" "m = (case budget of None \<Rightarrow> length (pt_pending a) | Some b \<Rightarrow> b - n)"
  shows "\<exists>c' n'. evict_loop c now budget n = Some (c', n') \<and> refines c' (pt_evict m now a)"
  using assms
proof (induction m arbitrary: c a n)
  case 0
  then show ?case
    by (subst evict_loop.simps) (auto simp: no_head split: option.splits)
next
  case (Suc m)
  show ?case
  proof (cases "pt_pending a")
    case Nil
    then have "pt_evict (Suc m) now a = a" by simp
    with Nil Suc.prems(1) show ?thesis
      by (subst evict_loop.simps) (auto simp: no_head simp del: pt_evict.simps split: option.splits)
  next
    case (Cons p ps)
    obtain i c' where h: "c_fifo_head c = Some i" "entry c i = Some (c_entries c ! i)"
      "en_time (c_entries c ! i) = fst (snd p)" "evict_as_unanswered c i inc_unanswered = Some c'"
      "refines c' (pt_evict_head inc_unanswered a)"
      by (rule evict_head_refines [OF Suc.prems(1) Cons])
    have bud: "(case budget of None \<Rightarrow> True | Some b \<Rightarrow> n < b)"
      using Suc.prems(2) by (auto split: option.splits)
    have m: "m = (case budget of None \<Rightarrow> length (pt_pending (pt_evict_head inc_unanswered a)) | Some b \<Rightarrow> b - (n + 1))"
      using Suc.prems(2) Cons by (auto simp: pt_evict_head_def split: option.splits)
    have step: "evict_loop c now budget n = (if now - fst (snd p) \<le> c_timeout c then Some (c, n)
        else evict_loop c' now budget (n + 1))"
      using bud h by (subst evict_loop.simps) simp
    show ?thesis
      using Suc.IH [OF h(5) m] Suc.prems(1) Cons refines_timeout [OF Suc.prems(1)] unfolding step by auto
  qed
qed

lemma pt_evict_config [simp]:
  "pt_capacity (pt_evict n now a) = pt_capacity a" "pt_timeout (pt_evict n now a) = pt_timeout a"
  "pt_on_full (pt_evict n now a) = pt_on_full a"
  by (induction n now a rule: pt_evict.induct) (auto simp: pt_evict_head_def split: list.splits)

lemma insert_refines:
  assumes r: "rep c fifo (i # free)" and a: "pt_pending a = pend_of c fifo"
    "pt_capacity a = c_capacity c" "pt_timeout a = c_timeout c" "pt_on_full a = c_on_full c"
    "pt_stats a = c_stats c" "pt_emitted a = c_emitted c"
    and new: "\<forall>j \<in> set fifo. canon (en_key (c_entries c ! j)) \<noteq> canon key"
  shows "\<exists>c'. insert_pending c key (key_hash key) t x = Some c' \<and> refines c' (pt_append (key, t, x) a)"
proof -
  obtain c' where c': "insert_pending c key (key_hash key) t x = Some c'" "rep c' (fifo @ [i]) free"
    "map pay (c_entries c') = (map pay (c_entries c))[i := (key, t, x)]"
    "c_capacity c' = c_capacity c" "c_timeout c' = c_timeout c" "c_on_full c' = c_on_full c"
    "c_stats c' = c_stats c" "c_emitted c' = c_emitted c" using insert_pending_ok [OF r new] by blast
  note R = repD [OF r]
  have "i < length (c_entries c)" "i \<notin> set fifo" using R(4) R(14) by auto
  then have "pend_of c' (fifo @ [i]) = pend_of c fifo @ [(key, t, x)]"
    using pend_update [OF c'(3), of fifo] R(13) by (simp add: pend_of_def)
  with c' a show ?thesis by (auto simp: refines_def pt_append_def)
qed


text \<open>The relation with its witnesses, for the operations that look inside.\<close>

definition refines_by :: "cf_dns_correlator \<Rightarrow> table \<Rightarrow> nat list \<Rightarrow> nat list \<Rightarrow> bool" where
  "refines_by c a fifo free \<longleftrightarrow> rep c fifo free \<and> pt_pending a = pend_of c fifo \<and>
    pt_capacity a = c_capacity c \<and> pt_timeout a = c_timeout c \<and> pt_on_full a = c_on_full c \<and>
    pt_stats a = c_stats c \<and> pt_emitted a = c_emitted c"

lemma refines_by: "refines c a \<longleftrightarrow> (\<exists>fifo free. refines_by c a fifo free)"
  by (simp add: refines_def refines_by_def)

lemma capacity_split:
  assumes "rep c fifo free" shows "length fifo + length free = c_capacity c"
proof -
  note R = repD [OF assms]
  have "length fifo + length free = card (set fifo \<union> set free)"
    using R(2,3,4) by (simp add: card_Un_disjoint distinct_card)
  then show ?thesis by (simp add: R(6))
qed

lemma replace_refines:
  assumes r: "refines_by c a fifo free" and i: "i \<in> set fifo" "canon (en_key (c_entries c ! i)) = canon key"
  shows "\<exists>c'. replace_pending c i key t x = Some c' \<and>
    refines c' (pt_replace a (pay (c_entries c ! i)) (key, t, x))"
proof -
  have r1: "rep c fifo free" using r by (simp add: refines_by_def)
  note R = repD [OF r1]
  obtain xs ys where s: "fifo = xs @ i # ys"
    "filter (\<lambda>q. \<not> same_key key q) (pend_of c fifo) = pend_of c (xs @ ys)"
    by (rule split_pending [OF r1 i])
  obtain c' where c': "replace_pending c i key t x = Some c'" "rep c' (xs @ ys @ [i]) free"
    "map pay (c_entries c') = (map pay (c_entries c))[i := (key, t, x)]"
    "c_capacity c' = c_capacity c" "c_timeout c' = c_timeout c" "c_on_full c' = c_on_full c"
    "c_stats c' = (c_stats c)\<lparr>st_pending_evicted_collision := st_pending_evicted_collision (c_stats c) + 1\<rparr>"
    "c_emitted c' = c_emitted c @ [unanswered (pay (c_entries c ! i))]"
    using replace_pending_ok [OF r1 [unfolded s(1)] i(2), of t x] by (auto simp: unanswered_def pay_def)
  have l: "i < length (c_entries c)" "i \<notin> set (xs @ ys)" using R(2,13) s(1) i by auto
  have "pend_of c' (xs @ ys @ [i]) = pend_of c (xs @ ys) @ [(key, t, x)]"
    using pend_update [OF c'(3) l(1), of "xs @ ys"] l(2) R(13) s(1) by (simp add: pend_of_def)
  then have "refines_by c' (pt_replace a (pay (c_entries c ! i)) (key, t, x)) (xs @ ys @ [i]) free"
    using c' r s by (simp add: refines_by_def pt_replace_def)
  with c'(1) refines_by show ?thesis by blast
qed

lemma fresh_refines:
  assumes r: "refines_by c a fifo free" and cap: "0 < c_capacity c"
    and new: "\<forall>j \<in> set fifo. canon (en_key (c_entries c ! j)) \<noteq> canon key"
  shows "\<exists>c'. fresh_pending c key (key_hash key) t x = Some c' \<and> refines c' (pt_fresh a (key, t, x))"
proof -
  have r1: "rep c fifo free" and a: "pt_pending a = pend_of c fifo"
    "pt_capacity a = c_capacity c" "pt_timeout a = c_timeout c" "pt_on_full a = c_on_full c"
    "pt_stats a = c_stats c" "pt_emitted a = c_emitted c" using r by (auto simp: refines_by_def)
  have len: "length (pt_pending a) + length free = c_capacity c"
    using capacity_split [OF r1] a(1) by (simp add: pend_of_def)
  note fh = repD(7) [OF r1]
  show ?thesis
  proof (cases free)
    case (Cons i fs)
    have "c_free_head c = Some i" using fh Cons by simp
    with insert_refines [OF r1 [unfolded Cons] a new, of t x] len Cons show ?thesis
      by (auto simp: fresh_pending_def pt_fresh_def a)
  next
    case Nil
    then obtain i ys where f: "fifo = i # ys" using len cap a(1) by (cases fifo) (auto simp: pend_of_def)
    have none: "c_free_head c = None" "c_fifo_head c = Some i"
      using fh Nil fifo_head_first [OF r1] f by simp_all
    have full: "\<not> length (pt_pending a) < pt_capacity a" using len Nil a by simp
    show ?thesis
    proof (cases "c_on_full c")
      case CF_DNS_ON_FULL_DROP_NEWEST
      let ?c' = "emit CF_DNS_TXN_UNANSWERED (Some x) None 0 False key (c\<lparr>c_stats := inc_drop (c_stats c)\<rparr>)"
      have "refines_by ?c' (pt_fresh a (key, t, x)) fifo free"
        using r full CF_DNS_ON_FULL_DROP_NEWEST
        by (simp add: refines_by_def pt_fresh_def emit_def unanswered_def pend_of_def)
      then show ?thesis
        using none CF_DNS_ON_FULL_DROP_NEWEST by (auto simp: fresh_pending_def refines_by)
    next
      case CF_DNS_ON_FULL_DROP_OLDEST
      obtain c' where c': "evict_as_unanswered c i inc_drop = Some c'" "rep c' ys (i # free)"
        "pt_pending (pt_evict_head inc_drop a) = pend_of c' ys"
        "keep (c'\<lparr>c_stats := c_stats c, c_emitted := c_emitted c\<rparr>) c"
        and ref: "refines c' (pt_evict_head inc_drop a)"
        using evict_head_ok [of c i ys free a inc_drop] r1 f a by blast
      have k: "en_key (c_entries c' ! j) = en_key (c_entries c ! j)" if "j \<in> set ys" for j
        using pay_nth(1) [OF keep_pay [OF c'(4)], of j] repD(13) [OF c'(2)] that by simp
      have "\<exists>c''. insert_pending c' key (key_hash key) t x = Some c'' \<and>
          refines c'' (pt_append (key, t, x) (pt_evict_head inc_drop a))"
        using ref by (intro insert_refines [OF c'(2,3)]) (use k new f in \<open>auto simp: refines_def\<close>)
      then show ?thesis
        using CF_DNS_ON_FULL_DROP_OLDEST none full c'(1) a by (simp add: fresh_pending_def pt_fresh_def)
    qed
  qed
qed

lemma on_query_refines:
  assumes "refines c a" "0 < pt_capacity a"
  shows "\<exists>c'. cf_dns_correlator_on_query c key t x = Some c' \<and> refines c' (pt_on_query a key t x)"
proof -
  obtain c1 n where e: "evict_expired c t (Some 8) = Some (c1, n)" "refines c1 (pt_evict 8 t a)"
    using evict_loop_ok [OF assms(1), where m = 8 and budget = "Some 8" and n = 0 and now = t] by (auto simp: evict_expired_def)
  define a1 where "a1 = pt_evict 8 t a"
  obtain fifo free where r: "refines_by c1 a1 fifo free" using e(2) by (auto simp: refines_by a1_def)
  then have r1: "rep c1 fifo free" "pt_pending a1 = pend_of c1 fifo" "0 < c_capacity c1"
    using assms(2) by (auto simp: refines_by_def a1_def)
  obtain found where f: "entry_find c1 key (key_hash key) = Some found"
    "case found of None \<Rightarrow> \<forall>i \<in> set fifo. canon (en_key (c_entries c1 ! i)) \<noteq> canon key
     | Some i \<Rightarrow> i \<in> set fifo \<and> canon (en_key (c_entries c1 ! i)) = canon key"
    using entry_find_ok [OF r1(1)] by blast
  show ?thesis
  proof (cases found)
    case (Some i)
    with f(2) have i: "i \<in> set fifo" "canon (en_key (c_entries c1 ! i)) = canon key" by auto
    have "List.find (same_key key) (pend_of c1 fifo) = Some (pay (c_entries c1 ! i))"
      by (rule split_pending [OF r1(1) i])
    with replace_refines [OF r i, of t x] e(1) f(1) Some r1(2) show ?thesis
      by (simp add: cf_dns_correlator_on_query_def pt_on_query_def a1_def [symmetric])
  next
    case None
    with f(2) have new: "\<forall>i \<in> set fifo. canon (en_key (c_entries c1 ! i)) \<noteq> canon key" by simp
    from fresh_refines [OF r r1(3) new, of t x] no_pending [OF new] e(1) f(1) None r1(2) show ?thesis
      by (simp add: cf_dns_correlator_on_query_def pt_on_query_def a1_def [symmetric])
  qed
qed

lemma release_refines:
  assumes r: "refines_by c a fifo free" and i: "i \<in> set fifo" "canon (en_key (c_entries c ! i)) = canon key"
  obtains c' fifo' where "entry_release c i = Some c'" "rep c' fifo' (i # free)" "keep c c'"
    "pend_of c' fifo' = filter (\<lambda>q. \<not> same_key key q) (pt_pending a)"
    "List.find (same_key key) (pt_pending a) = Some (pay (c_entries c ! i))"
proof -
  have r1: "rep c fifo free" "pt_pending a = pend_of c fifo" using r by (auto simp: refines_by_def)
  obtain xs ys where s: "fifo = xs @ i # ys"
    "filter (\<lambda>q. \<not> same_key key q) (pend_of c fifo) = pend_of c (xs @ ys)"
    "List.find (same_key key) (pend_of c fifo) = Some (pay (c_entries c ! i))"
    by (rule split_pending [OF r1(1) i])
  obtain c' where c': "entry_release c i = Some c'" "rep c' (xs @ ys) (i # free)" "keep c c'"
    using entry_release_ok [OF r1(1) [unfolded s(1)]] by blast
  have "pend_of c' (xs @ ys) = pend_of c (xs @ ys)"
    using pend_keep [OF c'(3), of "xs @ ys"] repD(13) [OF r1(1)] s(1) by auto
  with that [OF c'] s r1 show thesis by simp
qed

lemma on_response_refines:
  assumes "refines c a"
  shows "\<exists>c'. cf_dns_correlator_on_response c key t x = Some c' \<and> refines c' (pt_on_response a key t x)"
proof -
  obtain fifo free where r: "refines_by c a fifo free" using assms by (auto simp: refines_by)
  then have r1: "rep c fifo free" "pt_pending a = pend_of c fifo" by (auto simp: refines_by_def)
  obtain found where f: "entry_find c key (key_hash key) = Some found"
    "case found of None \<Rightarrow> \<forall>i \<in> set fifo. canon (en_key (c_entries c ! i)) \<noteq> canon key
     | Some i \<Rightarrow> i \<in> set fifo \<and> canon (en_key (c_entries c ! i)) = canon key"
    using entry_find_ok [OF r1(1)] by blast
  show ?thesis
  proof (cases found)
    case None
    with f(2) have "\<forall>i \<in> set fifo. canon (en_key (c_entries c ! i)) \<noteq> canon key" by simp
    from no_pending [OF this] r1(2) have nf: "List.find (same_key key) (pt_pending a) = None" by simp
    let ?c' = "emit CF_DNS_TXN_UNMATCHED None (Some x) 0 False key
      (c\<lparr>c_stats := (c_stats c)\<lparr>st_response_unmatched := st_response_unmatched (c_stats c) + 1\<rparr>\<rparr>)"
    have "refines_by ?c' (pt_on_response a key t x) fifo free"
      using r nf by (simp add: refines_by_def pt_on_response_def emit_def pend_of_def)
    with f(1) None show ?thesis by (auto simp: cf_dns_correlator_on_response_def refines_by)
  next
    case (Some i)
    with f(2) have i: "i \<in> set fifo" "canon (en_key (c_entries c ! i)) = canon key" by auto
    let ?e = "c_entries c ! i"
    let ?rtt = "t - en_time ?e"
    let ?bad = "?rtt < 0 \<or> ?rtt > c_timeout c"
    let ?s = "if ?bad then (c_stats c)\<lparr>st_rtt_invalid := st_rtt_invalid (c_stats c) + 1\<rparr> else c_stats c"
    have r0: "refines_by (c\<lparr>c_stats := ?s\<rparr>) (a\<lparr>pt_stats := ?s\<rparr>) fifo free"
      using r by (simp add: refines_by_def pend_of_def)
    obtain c' fifo' where c': "entry_release (c\<lparr>c_stats := ?s\<rparr>) i = Some c'" "rep c' fifo' (i # free)"
      "keep (c\<lparr>c_stats := ?s\<rparr>) c'"
      "pend_of c' fifo' = filter (\<lambda>q. \<not> same_key key q) (pt_pending a)"
      "List.find (same_key key) (pt_pending a) = Some (pay ?e)"
      using release_refines [OF r0 i(1)] i(2) by auto
    let ?c'' = "emit CF_DNS_TXN_OBSERVED (Some (en_ctx ?e)) (Some x) ?rtt (\<not> ?bad) (en_key ?e)
      (c'\<lparr>c_stats := (c_stats c')\<lparr>st_transactions_observed := st_transactions_observed (c_stats c') + 1\<rparr>\<rparr>)"
    have valid: "(\<not> ?bad) = (0 \<le> ?rtt \<and> ?rtt \<le> c_timeout c)" by auto
    have "refines_by ?c'' (pt_on_response a key t x) fifo' (i # free)"
      using r c' valid by (simp add: refines_by_def pt_on_response_def emit_def pay_def keep_def Let_def pend_of_def)
    moreover have "cf_dns_correlator_on_response c key t x = Some ?c''"
      using f(1) Some repD(13) [OF r1(1) i(1)] c'(1)
      by (simp add: cf_dns_correlator_on_response_def entry_def Let_def)
    ultimately show ?thesis by (auto simp: refines_by)
  qed
qed

lemma tick_refines:
  assumes "refines c a"
  shows "\<exists>c'. cf_dns_correlator_tick c now = Some c' \<and> refines c' (pt_tick a now)"
  using evict_loop_ok [OF assms, where m = "length (pt_pending a)" and budget = None and n = 0 and now = now]
  by (auto simp: cf_dns_correlator_tick_def evict_expired_def pt_tick_def)

lemma free_refines:
  assumes "refines c a" "n = length (pt_pending a)"
  shows "\<exists>c'. cf_dns_correlator_free c = Some c' \<and> refines c' (pt_drain n a)"
  using assms unfolding cf_dns_correlator_free_def
proof (induction n arbitrary: c a)
  case 0
  then show ?case by (subst free_drain.simps) (simp add: no_head)
next
  case (Suc n)
  then obtain p ps where p: "pt_pending a = p # ps" by (cases "pt_pending a") auto
  obtain i c' where h: "c_fifo_head c = Some i" "evict_as_unanswered c i inc_unanswered = Some c'"
    "refines c' (pt_evict_head inc_unanswered a)"
    by (rule evict_head_refines [OF Suc.prems(1) p])
  have "n = length (pt_pending (pt_evict_head inc_unanswered a))"
    using Suc.prems(2) p by (simp add: pt_evict_head_def)
  from Suc.IH [OF h(3) this] h(1,2) show ?case by (subst free_drain.simps) simp
qed

lemma pow2_loop_ge:
  "0 < p \<Longrightarrow> n \<le> pow2_loop n p \<and> 0 < pow2_loop n p \<and> (pow2_loop n p = p \<or> pow2_loop n p < 2 * n)"
proof (induction n p rule: pow2_loop.induct)
  case (1 n p)
  show ?case
  proof (cases "p < n")
    case True
    then have "pow2_loop n p = pow2_loop n (p * 2)" using 1 by (subst pow2_loop.simps) simp
    with 1 True show ?thesis by auto
  next
    case False
    then have "pow2_loop n p = p" by (subst pow2_loop.simps) simp
    with 1 False show ?thesis by simp
  qed
qed

lemma next_pow2_bounds: "0 < n \<Longrightarrow> n \<le> next_pow2 n \<and> 0 < next_pow2 n \<and> next_pow2 n < 2 * n"
  using pow2_loop_ge [of 1 n] by (auto simp: next_pow2_def)

lemma chain_upt:
  "\<forall>i. m \<le> i \<and> i < n \<longrightarrow> f i = (if i + 1 < n then Some (i + 1) else None) \<Longrightarrow> m < n \<Longrightarrow> chain f (Some m) [m..<n]"
proof (induction "n - m" arbitrary: m)
  case (Suc k)
  show ?case
  proof (cases "Suc m < n")
    case True
    with Suc.hyps(1) [of "Suc m"] Suc.hyps(2) Suc.prems show ?thesis by (simp add: upt_rec [of m n])
  next
    case False
    with Suc.prems have "n = Suc m" by simp
    with Suc.prems show ?thesis by simp
  qed
qed simp

lemma new_refines:
  assumes "cf_dns_correlator_new junk capacity timeout policy = Some c"
  shows "refines c (pt_new capacity timeout policy)" "0 < capacity" "0 < timeout"
proof -
  have cap: "0 < capacity" "capacity < 2 ^ 31" "0 < timeout"
    using assms by (auto simp: cf_dns_correlator_new_def split: if_splits)
  then show "0 < capacity" "0 < timeout" by simp_all
  let ?n = "next_pow2 capacity"
  have n: "capacity \<le> ?n" "0 < ?n" "?n < 2 ^ 32" using next_pow2_bounds [OF cap(1)] cap(2) by auto
  then have mask: "unat (of_nat (?n - 1) :: u32) = ?n - 1"
    by (simp add: unat_of_nat take_bit_nat_eq_self del: of_nat_diff)
  let ?es = "map (\<lambda>i. (junk i)\<lparr>en_hnext := if i + 1 < capacity then Some (i + 1) else None\<rparr>) [0..<capacity]"
  have c: "c = \<lparr>c_entries = ?es, c_buckets = replicate ?n None, c_capacity = capacity, c_nbuckets = ?n,
       c_bucket_mask = of_nat (?n - 1), c_free_head = Some 0, c_fifo_head = None,
       c_fifo_tail = None, c_count = 0, c_timeout = timeout, c_on_full = policy,
       c_stats = stats_zero, c_emitted = []\<rparr>"
    using assms cap by (simp add: cf_dns_correlator_new_def)
  have "chain (hnx ?es) (Some 0) [0..<capacity]"
    by (rule chain_upt) (auto simp: hnx_def cap)
  then have "rep c [] [0..<capacity]"
    using n mask by (auto simp: rep_def c sane_def fifo_is_def buckets_ok_def chains_ok_def keys_ok_def
        intro!: exI [of _ "[]"])
  then show "refines c (pt_new capacity timeout policy)"
    by (auto simp: refines_def c pt_new_def pend_of_def)
qed

section \<open>Sequences of calls\<close>

datatype txn_op = Query cf_dns_txn_key int ctx | Response cf_dns_txn_key int ctx | Tick int

fun pt_step :: "table \<Rightarrow> txn_op \<Rightarrow> table" where
  "pt_step a (Query k t x) = pt_on_query a k t x"
| "pt_step a (Response k t x) = pt_on_response a k t x"
| "pt_step a (Tick now) = pt_tick a now"

fun corr_step :: "cf_dns_correlator \<Rightarrow> txn_op \<Rightarrow> cf_dns_correlator option" where
  "corr_step c (Query k t x) = cf_dns_correlator_on_query c k t x"
| "corr_step c (Response k t x) = cf_dns_correlator_on_response c k t x"
| "corr_step c (Tick now) = cf_dns_correlator_tick c now"

fun run_ops :: "('c \<Rightarrow> txn_op \<Rightarrow> 'c option) \<Rightarrow> 'c \<Rightarrow> txn_op list \<Rightarrow> 'c option" where
  "run_ops step c [] = Some c"
| "run_ops step c (op # ops) = do { c \<leftarrow> step c op; run_ops step c ops }"

fun query_of :: "txn_op \<Rightarrow> ctx option" where
  "query_of (Query k t x) = Some x"
| "query_of op = None"

fun response_of :: "txn_op \<Rightarrow> ctx option" where
  "response_of (Response k t x) = Some x"
| "response_of op = None"

section \<open>The abstract table keeps its promises\<close>

definition emq :: "emission list \<Rightarrow> ctx list" where "emq es = List.map_filter em_query_ctx es"
definition emr :: "emission list \<Rightarrow> ctx list" where "emr es = List.map_filter em_response_ctx es"

lemma map_filter_append [simp]: "List.map_filter f (xs @ ys) = List.map_filter f xs @ List.map_filter f ys"
  by (simp add: map_filter_def)

lemma map_filter_Nil [simp]: "List.map_filter f [] = []"
  by (simp add: map_filter_def)

lemma map_filter_Cons [simp]:
  "List.map_filter f (x # xs) = (case f x of None \<Rightarrow> [] | Some y \<Rightarrow> [y]) @ List.map_filter f xs"
  by (simp add: map_filter_def split: option.splits)

text \<open>All query contexts the table has seen: still pending, or handed back.\<close>

definition owned :: "table \<Rightarrow> ctx multiset" where
  "owned a = mset (map (snd \<circ> snd) (pt_pending a)) + mset (emq (pt_emitted a))"

definition keys_distinct :: "table \<Rightarrow> bool" where
  "keys_distinct a \<longleftrightarrow> distinct (map (canon \<circ> fst) (pt_pending a))"

lemma evict_head_owned [simp]: "owned (pt_evict_head f a) = owned a"
  "emr (pt_emitted (pt_evict_head f a)) = emr (pt_emitted a)"
  by (auto simp: owned_def pt_evict_head_def emq_def emr_def unanswered_def split: list.splits)

lemma evict_head_distinct: "keys_distinct a \<Longrightarrow> keys_distinct (pt_evict_head f a)"
  by (auto simp: keys_distinct_def pt_evict_head_def split: list.splits)

lemma evict_owned [simp]: "owned (pt_evict n now a) = owned a"
  "emr (pt_emitted (pt_evict n now a)) = emr (pt_emitted a)"
  by (induction n now a rule: pt_evict.induct) (auto split: list.splits)

lemma evict_distinct: "keys_distinct a \<Longrightarrow> keys_distinct (pt_evict n now a)"
  by (induction n now a rule: pt_evict.induct) (auto simp: evict_head_distinct split: list.splits)

lemma evict_length: "length (pt_pending (pt_evict n now a)) \<le> length (pt_pending a)"
proof (induction n now a rule: pt_evict.induct)
  case (2 n now a)
  have "length (pt_pending (pt_evict_head inc_unanswered a)) \<le> length (pt_pending a)"
    by (auto simp: pt_evict_head_def split: list.splits)
  with 2 show ?case by (fastforce split: list.splits)
qed simp

lemma drain_owned [simp]: "owned (pt_drain n a) = owned a"
  "emr (pt_emitted (pt_drain n a)) = emr (pt_emitted a)"
  by (induction n arbitrary: a) auto

lemma drain_empty: "n = length (pt_pending a) \<Longrightarrow> pt_pending (pt_drain n a) = []"
proof (induction n arbitrary: a)
  case (Suc n)
  then have "n = length (pt_pending (pt_evict_head inc_unanswered a))"
    by (auto simp: pt_evict_head_def split: list.splits)
  from Suc.IH [OF this] show ?case by simp
qed simp

text \<open>With distinct keys, a found query is the only one its key filters out.\<close>

lemma filter_key:
  assumes "distinct (map (canon \<circ> fst) ps)" "List.find (same_key key) ps = Some p"
  shows "mset ps = add_mset p (mset (filter (\<lambda>q. \<not> same_key key q) ps))"
    "length ps = Suc (length (filter (\<lambda>q. \<not> same_key key q) ps))"
    "mset (map f ps) = add_mset (f p) (mset (map f (filter (\<lambda>q. \<not> same_key key q) ps)))"
proof -
  show m: "mset ps = add_mset p (mset (filter (\<lambda>q. \<not> same_key key q) ps))"
    using assms
  proof (induction ps)
    case (Cons q ps)
    show ?case
    proof (cases "same_key key q")
      case True
      then have "\<forall>r \<in> set ps. \<not> same_key key r"
        using Cons.prems(1) by (force simp: same_key_def)
      then have "filter (\<lambda>q. \<not> same_key key q) ps = ps" by (simp add: filter_id_conv)
      with True Cons.prems(2) show ?thesis by simp
    next
      case False
      with Cons show ?thesis by simp
    qed
  qed simp
  show "length ps = Suc (length (filter (\<lambda>q. \<not> same_key key q) ps))"
    using m by (metis size_mset size_add_mset)
  show "mset (map f ps) = add_mset (f p) (mset (map f (filter (\<lambda>q. \<not> same_key key q) ps)))"
    by (simp only: mset_map m image_mset_add_mset)
qed

text \<open>The invariant of the abstract table.\<close>

definition pt_inv :: "table \<Rightarrow> bool" where
  "pt_inv a \<longleftrightarrow> keys_distinct a \<and> length (pt_pending a) \<le> pt_capacity a \<and> 0 < pt_capacity a"

lemma evict_inv: "pt_inv a \<Longrightarrow> pt_inv (pt_evict n now a)"
  using evict_length [of n now a] by (auto simp: pt_inv_def evict_distinct)

lemma distinct_filter_keys: "keys_distinct a \<Longrightarrow> distinct (map (canon \<circ> fst) (filter P (pt_pending a)))"
  by (simp add: keys_distinct_def distinct_map_filter)

lemma fresh_inv:
  assumes "pt_inv b" "List.find (same_key (fst p)) (pt_pending b) = None"
  shows "pt_inv (pt_fresh b p)"
proof -
  have "canon (fst p) \<notin> (canon \<circ> fst) ` set (pt_pending b)"
    using assms(2) by (force simp: find_None_iff same_key_def)
  with assms(1) show ?thesis
    by (auto simp: pt_fresh_def pt_append_def pt_inv_def keys_distinct_def pt_evict_head_def
        split: list.splits)
qed

lemma replace_inv:
  assumes "pt_inv b" "List.find (same_key (fst p)) (pt_pending b) = Some q"
  shows "pt_inv (pt_replace b q p)"
proof -
  have "canon (fst p) \<notin> (canon \<circ> fst) ` set (filter (\<lambda>q. \<not> same_key (fst p) q) (pt_pending b))"
    by (auto simp: same_key_def)
  with assms(1) filter_key(2) [OF _ assms(2)] distinct_filter_keys [of b] show ?thesis
    by (auto simp: pt_replace_def pt_inv_def keys_distinct_def)
qed

lemma on_query_inv: "pt_inv a \<Longrightarrow> pt_inv (pt_on_query a k t x)"
  using fresh_inv [of "pt_evict 8 t a" "(k, t, x)"] replace_inv [of "pt_evict 8 t a" "(k, t, x)"]
    evict_inv [of a 8 t]
  by (cases "List.find (same_key k) (pt_pending (pt_evict 8 t a))") (simp_all add: pt_on_query_def)

lemma on_query_owned:
  assumes "pt_inv a" shows "owned (pt_on_query a k t x) = add_mset x (owned a)"
    "emr (pt_emitted (pt_on_query a k t x)) = emr (pt_emitted a)"
proof -
  define b where "b = pt_evict 8 t a"
  have i: "pt_inv b" using assms unfolding b_def by (rule evict_inv)
  have "owned (pt_on_query a k t x) = add_mset x (owned b) \<and>
    emr (pt_emitted (pt_on_query a k t x)) = emr (pt_emitted b)"
  proof (cases "List.find (same_key k) (pt_pending b)")
    case None
    have "owned (pt_append p b) = add_mset (snd (snd p)) (owned b)" "pt_emitted (pt_append p b) = pt_emitted b"
      for b p by (simp_all add: owned_def pt_append_def)
    moreover have "owned (b\<lparr>pt_stats := s, pt_emitted := pt_emitted b @ [unanswered (k, t, x)]\<rparr>) = add_mset x (owned b)"
      "emr (pt_emitted b @ [unanswered (k, t, x)]) = emr (pt_emitted b)" for s
      by (simp_all add: owned_def emq_def emr_def unanswered_def)
    ultimately show ?thesis
      using None by (simp add: pt_on_query_def pt_fresh_def b_def [symmetric])
  next
    case (Some p)
    have "mset (map (snd \<circ> snd) (pt_pending b)) =
        add_mset (snd (snd p)) (mset (map (snd \<circ> snd) (filter (\<lambda>q. \<not> same_key k q) (pt_pending b))))"
      using filter_key(3) [OF _ Some, of "snd \<circ> snd"] i by (simp add: pt_inv_def keys_distinct_def del: mset_map)
    with Some show ?thesis
      by (simp add: pt_on_query_def pt_replace_def b_def [symmetric] owned_def emq_def emr_def unanswered_def)
  qed
  then show "owned (pt_on_query a k t x) = add_mset x (owned a)"
    "emr (pt_emitted (pt_on_query a k t x)) = emr (pt_emitted a)" by (simp_all add: b_def)
qed

lemma on_response_inv: "pt_inv a \<Longrightarrow> pt_inv (pt_on_response a k t x)"
  using distinct_filter_keys [of a "\<lambda>q. \<not> same_key k q"]
  by (auto simp: pt_on_response_def pt_inv_def keys_distinct_def Let_def split: option.splits
      intro: order_trans [OF length_filter_le])

lemma on_response_owned:
  assumes "pt_inv a" shows "owned (pt_on_response a k t x) = owned a"
    "emr (pt_emitted (pt_on_response a k t x)) = emr (pt_emitted a) @ [x]"
proof -
  have "owned (pt_on_response a k t x) = owned a \<and>
    emr (pt_emitted (pt_on_response a k t x)) = emr (pt_emitted a) @ [x]"
  proof (cases "List.find (same_key k) (pt_pending a)")
    case None
    then show ?thesis by (simp add: pt_on_response_def owned_def emq_def emr_def)
  next
    case (Some p)
    have "mset (map (snd \<circ> snd) (pt_pending a)) =
        add_mset (snd (snd p)) (mset (map (snd \<circ> snd) (filter (\<lambda>q. \<not> same_key k q) (pt_pending a))))"
      using filter_key(3) [OF _ Some, of "snd \<circ> snd"] assms by (simp add: pt_inv_def keys_distinct_def del: mset_map)
    with Some show ?thesis
      by (cases p) (simp add: pt_on_response_def owned_def emq_def emr_def Let_def)
  qed
  then show "owned (pt_on_response a k t x) = owned a"
    "emr (pt_emitted (pt_on_response a k t x)) = emr (pt_emitted a) @ [x]" by simp_all
qed

lemma pt_step_keeps:
  assumes "pt_inv a"
  shows "pt_inv (pt_step a op)"
    "owned (pt_step a op) = (case query_of op of None \<Rightarrow> {#} | Some x \<Rightarrow> {#x#}) + owned a"
    "emr (pt_emitted (pt_step a op)) = emr (pt_emitted a) @ (case response_of op of None \<Rightarrow> [] | Some x \<Rightarrow> [x])"
  using assms on_query_owned on_response_owned
  by (cases op; simp add: on_query_inv on_response_inv pt_tick_def evict_inv)+

fun pt_run :: "table \<Rightarrow> txn_op list \<Rightarrow> table" where
  "pt_run a [] = a"
| "pt_run a (op # ops) = pt_run (pt_step a op) ops"

lemma pt_run_keeps:
  "pt_inv a \<Longrightarrow> pt_inv (pt_run a ops) \<and>
    owned (pt_run a ops) = mset (List.map_filter query_of ops) + owned a \<and>
    emr (pt_emitted (pt_run a ops)) = emr (pt_emitted a) @ List.map_filter response_of ops"
proof (induction ops arbitrary: a)
  case (Cons op ops)
  from Cons.IH [OF pt_step_keeps(1) [OF Cons.prems]] pt_step_keeps(2,3) [OF Cons.prems, of op]
  show ?case by (auto split: option.splits)
qed simp

lemma pt_step_config:
  "pt_capacity (pt_step a op) = pt_capacity a" "pt_timeout (pt_step a op) = pt_timeout a"
  by (cases op; auto simp: pt_on_query_def pt_on_response_def pt_tick_def pt_fresh_def pt_replace_def
      pt_append_def pt_evict_head_def Let_def split: option.splits list.splits)+

lemma pt_run_config:
  "pt_capacity (pt_run a ops) = pt_capacity a" "pt_timeout (pt_run a ops) = pt_timeout a"
  by (induction ops arbitrary: a) (simp_all add: pt_step_config)

lemma pt_new_inv: "0 < capacity \<Longrightarrow> pt_inv (pt_new capacity timeout policy)"
  "owned (pt_new capacity timeout policy) = {#}" "emr (pt_emitted (pt_new capacity timeout policy)) = []"
  by (simp_all add: pt_inv_def keys_distinct_def pt_new_def owned_def emq_def emr_def)

section \<open>Any table that simulates the abstract one\<close>

text \<open>The interface the pipeline relies on: a table whose calls simulate the abstract table
  and whose callback trace is the abstract one.\<close>

locale transaction_table =
  fixes sim :: "'c \<Rightarrow> table \<Rightarrow> bool"
    and step :: "'c \<Rightarrow> txn_op \<Rightarrow> 'c option"
    and close :: "'c \<Rightarrow> 'c option"
    and trace :: "'c \<Rightarrow> emission list"
    and depth :: "'c \<Rightarrow> nat"
  assumes step_sim: "sim c a \<Longrightarrow> 0 < pt_capacity a \<Longrightarrow> \<exists>c'. step c op = Some c' \<and> sim c' (pt_step a op)"
    and close_sim: "sim c a \<Longrightarrow> \<exists>c'. close c = Some c' \<and> sim c' (pt_drain (length (pt_pending a)) a)"
    and trace_sim: "sim c a \<Longrightarrow> trace c = pt_emitted a"
    and depth_sim: "sim c a \<Longrightarrow> depth c = length (pt_pending a)"
begin

lemma run_sim:
  "sim c a \<Longrightarrow> pt_inv a \<Longrightarrow> \<exists>c'. run_ops step c ops = Some c' \<and> sim c' (pt_run a ops)"
proof (induction ops arbitrary: c a)
  case (Cons op ops)
  have "0 < pt_capacity a" using Cons.prems(2) by (simp add: pt_inv_def)
  then obtain c' where "step c op = Some c'" "sim c' (pt_step a op)" using step_sim [OF Cons.prems(1)] by blast
  with Cons.IH [OF this(2) pt_step_keeps(1) [OF Cons.prems(2)]] show ?case by simp
qed simp

lemma exactly_once:
  assumes "sim c (pt_new capacity timeout policy)" "0 < capacity"
  shows "\<exists>c' c''. run_ops step c ops = Some c' \<and> close c' = Some c'' \<and>
    mset (emq (trace c'')) = mset (List.map_filter query_of ops) \<and>
    emr (trace c'') = List.map_filter response_of ops"
proof -
  let ?a = "pt_run (pt_new capacity timeout policy) ops"
  obtain c' where c': "run_ops step c ops = Some c'" "sim c' ?a"
    using run_sim [OF assms(1) pt_new_inv(1) [OF assms(2)]] by blast
  obtain c'' where c'': "close c' = Some c''" "sim c'' (pt_drain (length (pt_pending ?a)) ?a)"
    using close_sim [OF c'(2)] by blast
  let ?b = "pt_drain (length (pt_pending ?a)) ?a"
  have "owned ?b = mset (List.map_filter query_of ops)" "emr (pt_emitted ?b) = List.map_filter response_of ops"
    using pt_run_keeps [OF pt_new_inv(1) [OF assms(2), of timeout policy], of ops] pt_new_inv(2,3) by simp_all
  moreover have "pt_pending ?b = []" by (rule drain_empty) simp
  ultimately show ?thesis using c' c'' trace_sim [OF c''(2)] by (simp add: owned_def)
qed

lemma bounded:
  assumes "sim c (pt_new capacity timeout policy)" "0 < capacity"
  shows "\<exists>c'. run_ops step c ops = Some c' \<and> depth c' \<le> capacity"
proof -
  let ?a = "pt_run (pt_new capacity timeout policy) ops"
  obtain c' where c': "run_ops step c ops = Some c'" "sim c' ?a"
    using run_sim [OF assms(1) pt_new_inv(1) [OF assms(2)]] by blast
  moreover have "pt_inv ?a" using pt_run_keeps [OF pt_new_inv(1) [OF assms(2)]] by blast
  ultimately show ?thesis using depth_sim [OF c'(2)] by (auto simp: pt_inv_def pt_run_config pt_new_def)
qed

end

interpretation correlator: transaction_table refines corr_step cf_dns_correlator_free c_emitted c_count
proof unfold_locales
  show "\<exists>c'. corr_step c op = Some c' \<and> refines c' (pt_step a op)"
    if "refines c a" "0 < pt_capacity a" for c a op
    using that on_query_refines on_response_refines tick_refines by (cases op) simp_all
  show "\<exists>c'. cf_dns_correlator_free c = Some c' \<and> refines c' (pt_drain (length (pt_pending a)) a)"
    if "refines c a" for c a using free_refines [OF that] by simp
  show "c_emitted c = pt_emitted a" if "refines c a" for c a using that by (auto simp: refines_def)
  show "c_count c = length (pt_pending a)" if "refines c a" for c a
    using that repD(9) by (auto simp: refines_def pend_of_def)
qed

section \<open>Counters\<close>

definition outcomes :: "cf_dns_txn_outcome \<Rightarrow> emission list \<Rightarrow> nat" where
  "outcomes oc es = length (filter (\<lambda>e. em_outcome e = oc) es)"

lemma outcomes_append [simp]: "outcomes oc (es @ fs) = outcomes oc es + outcomes oc fs"
  by (simp add: outcomes_def)

definition accounted :: "cf_dns_correlator_stats \<Rightarrow> emission list \<Rightarrow> bool" where
  "accounted s es \<longleftrightarrow> st_transactions_observed s = outcomes CF_DNS_TXN_OBSERVED es \<and>
    st_response_unmatched s = outcomes CF_DNS_TXN_UNMATCHED es \<and>
    st_query_unanswered s + st_pending_evicted_collision s + st_pending_drop s =
      outcomes CF_DNS_TXN_UNANSWERED es"

lemma evict_head_accounted:
  assumes "accounted (pt_stats a) (pt_emitted a)" "f = inc_unanswered \<or> f = inc_drop"
  shows "accounted (pt_stats (pt_evict_head f a)) (pt_emitted (pt_evict_head f a))"
  using assms by (auto simp: pt_evict_head_def accounted_def outcomes_def unanswered_def
      inc_unanswered_def inc_drop_def split: list.splits)

lemma evict_accounted:
  "accounted (pt_stats a) (pt_emitted a) \<Longrightarrow>
   accounted (pt_stats (pt_evict n now a)) (pt_emitted (pt_evict n now a))"
  by (induction n now a rule: pt_evict.induct) (auto simp: evict_head_accounted split: list.splits)

lemma fresh_accounted:
  assumes "accounted (pt_stats b) (pt_emitted b)"
  shows "accounted (pt_stats (pt_fresh b p)) (pt_emitted (pt_fresh b p))"
  using evict_head_accounted [OF assms, of inc_drop] assms
  by (auto simp: pt_fresh_def pt_append_def) (simp add: accounted_def outcomes_def unanswered_def inc_drop_def)

lemma step_accounted:
  assumes "accounted (pt_stats a) (pt_emitted a)"
  shows "accounted (pt_stats (pt_step a op)) (pt_emitted (pt_step a op))"
proof (cases op)
  case (Query k t x)
  have e: "accounted (pt_stats (pt_evict 8 t a)) (pt_emitted (pt_evict 8 t a))"
    using assms by (rule evict_accounted)
  have r: "accounted (pt_stats (pt_replace b q p)) (pt_emitted (pt_replace b q p))"
    if "accounted (pt_stats b) (pt_emitted b)" for b q p
    using that by (simp add: pt_replace_def accounted_def outcomes_def unanswered_def)
  show ?thesis
    using Query fresh_accounted [OF e] r [OF e] by (auto simp: pt_on_query_def Let_def split: option.splits)
next
  case (Response k t x)
  then show ?thesis
    using assms by (auto simp: pt_on_response_def accounted_def outcomes_def Let_def split: option.splits)
next
  case (Tick now)
  then show ?thesis using evict_accounted [OF assms] by (simp add: pt_tick_def)
qed

lemma run_accounted:
  "accounted (pt_stats a) (pt_emitted a) \<Longrightarrow> accounted (pt_stats (pt_run a ops)) (pt_emitted (pt_run a ops))"
  by (induction ops arbitrary: a) (auto intro: step_accounted)

section \<open>Time order\<close>

fun query_time :: "txn_op \<Rightarrow> int option" where
  "query_time (Query k t x) = Some t"
| "query_time op = None"

text \<open>Pending times ascend and none is later than \<open>now\<close>.\<close>

definition timed :: "int \<Rightarrow> table \<Rightarrow> bool" where
  "timed now a \<longleftrightarrow> sorted (map (fst \<circ> snd) (pt_pending a)) \<and> (\<forall>p \<in> set (pt_pending a). fst (snd p) \<le> now)"

lemma timed_mono: "timed t a \<Longrightarrow> t \<le> t' \<Longrightarrow> timed t' a"
  by (force simp: timed_def)

lemma timed_evict_head: "timed t a \<Longrightarrow> timed t (pt_evict_head f a)"
  by (auto simp: timed_def pt_evict_head_def split: list.splits)

lemma timed_evict: "timed t a \<Longrightarrow> timed t (pt_evict n now a)"
  by (induction n now a rule: pt_evict.induct) (auto simp: timed_evict_head split: list.splits)

lemma timed_filter: "timed t a \<Longrightarrow> timed t (a\<lparr>pt_pending := filter P (pt_pending a)\<rparr>)"
  by (auto simp: timed_def sorted_filter)

lemma timed_append: "timed t a \<Longrightarrow> timed t (a\<lparr>pt_pending := pt_pending a @ [(k, t, x)]\<rparr>)"
  by (auto simp: timed_def sorted_append)

lemma timed_step:
  assumes "timed now a" "\<forall>t. query_time op = Some t \<longrightarrow> now \<le> t"
  shows "timed (case query_time op of None \<Rightarrow> now | Some t \<Rightarrow> t) (pt_step a op)"
proof (cases op)
  case (Query k t x)
  then have e: "timed t (pt_evict 8 t a)" using assms timed_mono timed_evict by (metis query_time.simps(1))
  have f: "timed t (pt_fresh b (k, t, x))" if "timed t b" for b
    using that timed_append [OF that] timed_append [OF timed_evict_head [OF that, of inc_drop]]
    by (auto simp: pt_fresh_def pt_append_def) (simp add: timed_def)
  have r: "timed t (pt_replace b q (k, t, x))" if "timed t b" for b q
    using timed_append [OF timed_filter [OF that, of "\<lambda>q. \<not> same_key k q"], of k x]
    by (simp add: pt_replace_def timed_def)
  show ?thesis using Query e f r by (auto simp: pt_on_query_def Let_def split: option.splits)
next
  case (Response k t x)
  then show ?thesis
    using assms(1) timed_filter [OF assms(1), of "\<lambda>q. \<not> same_key k q"]
    by (auto simp: pt_on_response_def timed_def Let_def split: option.splits)
next
  case (Tick t)
  then show ?thesis using assms(1) by (simp add: pt_tick_def timed_evict)
qed

lemma timed_run:
  "timed now a \<Longrightarrow> sorted (now # List.map_filter query_time ops) \<Longrightarrow> \<exists>t. timed t (pt_run a ops)"
proof (induction ops arbitrary: now a)
  case (Cons op ops)
  then have "\<forall>t. query_time op = Some t \<longrightarrow> now \<le> t" by (auto split: option.splits)
  from timed_step [OF Cons.prems(1) this] Cons.IH Cons.prems(2) show ?case
    by (cases "query_time op") (auto split: option.splits)
qed auto

text \<open>A full eviction of a time-ordered table leaves no expired query.\<close>

lemma evict_all_fresh:
  assumes "timed t a" "length (pt_pending a) \<le> n"
  shows "\<forall>p \<in> set (pt_pending (pt_evict n now a)). now - fst (snd p) \<le> pt_timeout a"
  using assms
proof (induction n now a rule: pt_evict.induct)
  case (2 n now a)
  show ?case
  proof (cases "pt_pending a")
    case (Cons p ps)
    show ?thesis
    proof (cases "now - fst (snd p) \<le> pt_timeout a")
      case True
      with Cons 2(2) show ?thesis by (auto simp: timed_def)
    next
      case False
      have "length (pt_pending (pt_evict_head inc_unanswered a)) \<le> n"
        "pt_timeout (pt_evict_head inc_unanswered a) = pt_timeout a"
        using 2(3) Cons by (auto simp: pt_evict_head_def)
      with 2(1) [OF Cons False timed_evict_head [OF 2(2)]] Cons False show ?thesis by simp
    qed
  qed simp
qed simp


section \<open>Matching\<close>

lemma find_last:
  assumes "List.find P xs = None" "P x"
  shows "List.find P (xs @ [x]) = Some x"
  using assms by (induction xs) (auto split: if_splits)

lemma query_then_response:
  assumes "pt_inv a" "length (pt_pending a) < pt_capacity a" "canon k' = canon k"
  shows "last (pt_emitted (pt_on_response (pt_on_query a k t x) k' t' y)) =
    \<lparr>em_outcome = CF_DNS_TXN_OBSERVED, em_query_ctx = Some x, em_response_ctx = Some y,
     em_rtt = t' - t, em_rtt_valid = (0 \<le> t' - t \<and> t' - t \<le> pt_timeout a), em_key = k\<rparr>"
proof -
  define b where "b = pt_evict 8 t a"
  have room: "length (pt_pending b) < pt_capacity b" "pt_timeout b = pt_timeout a"
    using assms(2) evict_length [of 8 t a] by (auto simp: b_def)
  have same: "same_key k' = same_key k" using assms(3) by (simp add: same_key_def fun_eq_iff)
  have f: "List.find (same_key k) (pt_pending (pt_on_query a k t x)) = Some (k, t, x) \<and>
    pt_timeout (pt_on_query a k t x) = pt_timeout a"
  proof (cases "List.find (same_key k) (pt_pending b)")
    case None
    then show ?thesis
      using room find_last [OF None] by (simp add: pt_on_query_def b_def [symmetric] pt_fresh_def pt_append_def same_key_def)
  next
    case (Some p)
    have "List.find (same_key k) (filter (\<lambda>q. \<not> same_key k q) (pt_pending b)) = None"
      by (auto simp: find_None_iff)
    from find_last [OF this, of "(k, t, x)"] show ?thesis
      using Some room by (simp add: pt_on_query_def b_def [symmetric] pt_replace_def) (simp add: same_key_def)
  qed
  then show ?thesis by (simp add: pt_on_response_def same Let_def)
qed

section \<open>Properties\<close>

text \<open>C2. The correlator implements the abstract pending table: from a fresh table, any sequence
  of queries, responses and ticks runs to a result (no access outside the pool or the buckets,
  no endless chain walk), and the table, its counters and its callback trace are those of the
  abstract table: an arrival-ordered list of pending queries.\<close>

theorem correlator_refines_table:
  assumes "cf_dns_correlator_new junk capacity timeout policy = Some c"
  shows "\<exists>c'. run_ops corr_step c ops = Some c' \<and> refines c' (pt_run (pt_new capacity timeout policy) ops)"
  using correlator.run_sim [OF new_refines(1) [OF assms] pt_new_inv(1)] new_refines(2) [OF assms] by blast

text \<open>C1. The ownership contract: every query context handed to the correlator comes back through
  exactly one emit call, by a match, an eviction, a drop or the drain of \<open>free\<close>, and every
  response context through exactly one, in order; nothing is lost, invented or returned twice,
  whatever the calls, the capacity and the policy.\<close>

theorem correlator_exactly_once:
  assumes "cf_dns_correlator_new junk capacity timeout policy = Some c"
  shows "\<exists>c' c''. run_ops corr_step c ops = Some c' \<and> cf_dns_correlator_free c' = Some c'' \<and>
    mset (emq (c_emitted c'')) = mset (List.map_filter query_of ops) \<and>
    emr (c_emitted c'') = List.map_filter response_of ops"
  by (rule correlator.exactly_once [OF new_refines(1,2) [OF assms]])

text \<open>The table is bounded: the pending depth never exceeds the configured capacity.\<close>

theorem correlator_bounded:
  assumes "cf_dns_correlator_new junk capacity timeout policy = Some c"
  shows "\<exists>c'. run_ops corr_step c ops = Some c' \<and>
    st_pending_depth (cf_dns_correlator_stats_of c') \<le> capacity"
  using correlator.bounded [OF new_refines(1,2) [OF assms], of ops]
  by (simp add: cf_dns_correlator_stats_of_def)

text \<open>Loss is visible: at any moment the counters account for every emit call, the
  transactions observed, the responses unmatched, and the unanswered queries as the sum of
  timeouts, key collisions and table-full drops.\<close>

theorem correlator_counters_account:
  assumes "cf_dns_correlator_new junk capacity timeout policy = Some c"
    "run_ops corr_step c ops = Some c'"
  shows "st_transactions_observed (c_stats c') = outcomes CF_DNS_TXN_OBSERVED (c_emitted c') \<and>
    st_response_unmatched (c_stats c') = outcomes CF_DNS_TXN_UNMATCHED (c_emitted c') \<and>
    st_query_unanswered (c_stats c') + st_pending_evicted_collision (c_stats c') +
      st_pending_drop (c_stats c') = outcomes CF_DNS_TXN_UNANSWERED (c_emitted c')"
proof -
  have "refines c' (pt_run (pt_new capacity timeout policy) ops)"
    using correlator.run_sim [OF new_refines(1) [OF assms(1)] pt_new_inv(1) [OF new_refines(2) [OF assms(1)]], of ops]
      assms(2) by auto
  moreover have "accounted (pt_stats (pt_new capacity timeout policy)) (pt_emitted (pt_new capacity timeout policy))"
    by (simp add: pt_new_def accounted_def outcomes_def stats_zero_def)
  then have "accounted (pt_stats (pt_run (pt_new capacity timeout policy) ops))
      (pt_emitted (pt_run (pt_new capacity timeout policy) ops))" by (rule run_accounted)
  ultimately show ?thesis unfolding refines_def accounted_def by auto
qed

text \<open>Matching: in any reachable state with room, a query followed by a response with the
  same key (also under a different qname buffer beyond the significant length) is reported as
  an observed transaction with both contexts, the exact round-trip time, and the time marked
  valid exactly when it is between zero and the query timeout.\<close>

theorem correlator_matches:
  assumes "cf_dns_correlator_new junk capacity timeout policy = Some c"
    "run_ops corr_step c ops = Some c'" "c_count c' < capacity" "key_equal k' k"
  shows "\<exists>d e. cf_dns_correlator_on_query c' k t x = Some d \<and>
    cf_dns_correlator_on_response d k' t' y = Some e \<and>
    last (c_emitted e) = \<lparr>em_outcome = CF_DNS_TXN_OBSERVED, em_query_ctx = Some x,
      em_response_ctx = Some y, em_rtt = t' - t,
      em_rtt_valid = (0 \<le> t' - t \<and> t' - t \<le> timeout), em_key = k\<rparr>"
proof -
  let ?a = "pt_run (pt_new capacity timeout policy) ops"
  have cap: "0 < capacity" using new_refines(2) [OF assms(1)] .
  have r: "refines c' ?a"
    using correlator.run_sim [OF new_refines(1) [OF assms(1)] pt_new_inv(1) [OF cap], of ops] assms(2) by auto
  have i: "pt_inv ?a" using pt_run_keeps [OF pt_new_inv(1) [OF cap]] by blast
  have cfg: "pt_capacity ?a = capacity" "pt_timeout ?a = timeout" by (simp_all add: pt_run_config pt_new_def)
  obtain d where d: "cf_dns_correlator_on_query c' k t x = Some d" "refines d (pt_on_query ?a k t x)"
    using on_query_refines [OF r] cfg(1) cap by metis
  obtain e where e: "cf_dns_correlator_on_response d k' t' y = Some e"
    "refines e (pt_on_response (pt_on_query ?a k t x) k' t' y)"
    using on_response_refines [OF d(2)] by blast
  have "c_emitted e = pt_emitted (pt_on_response (pt_on_query ?a k t x) k' t' y)"
    using e(2) by (auto simp: refines_def)
  moreover have "length (pt_pending ?a) < pt_capacity ?a"
    using correlator.depth_sim [OF r] assms(3) cfg by simp
  ultimately show ?thesis
    using query_then_response [OF i, of k' k t x t' y] assms(4) cfg d(1) e(1) by (simp add: key_equal_canon)
qed

text \<open>No pending query outlives its timeout: when queries arrive in time order, after a tick
  at \<open>now\<close> every pending query is at most \<open>timeout\<close> old.\<close>

theorem correlator_tick_drains:
  assumes "cf_dns_correlator_new junk capacity timeout policy = Some c"
    "sorted (List.map_filter query_time ops)"
  shows "\<exists>c' a. run_ops corr_step c (ops @ [Tick now]) = Some c' \<and> refines c' a \<and>
    (\<forall>p \<in> set (pt_pending a). now - fst (snd p) \<le> timeout)"
proof -
  let ?n = "pt_new capacity timeout policy"
  let ?a = "pt_run ?n ops"
  have cap: "0 < capacity" using new_refines(2) [OF assms(1)] .
  obtain c' where c': "run_ops corr_step c (ops @ [Tick now]) = Some c'" "refines c' (pt_run ?n (ops @ [Tick now]))"
    using correlator.run_sim [OF new_refines(1) [OF assms(1)] pt_new_inv(1) [OF cap]] by blast
  have run: "pt_run a (xs @ [Tick now]) = pt_tick (pt_run a xs) now" for a xs
    by (induction xs arbitrary: a) auto
  obtain t where t: "\<forall>u \<in> set (List.map_filter query_time ops). t \<le> u"
    by (cases "List.map_filter query_time ops") (use assms(2) in auto)
  have "timed t ?n" by (simp add: timed_def pt_new_def)
  then obtain t' where "timed t' ?a" using timed_run [of t ?n ops] assms(2) t by auto
  from evict_all_fresh [OF this order_refl, of now] c' show ?thesis
    by (auto simp: run pt_tick_def pt_run_config pt_new_def)
qed

section \<open>Witnesses\<close>

definition sample_key :: "u16 \<Rightarrow> cf_dns_txn_key" where
  "sample_key i = \<lparr>k_transport = 0, k_local_is_server = 0, k_ip_version = 4,
    k_client_ip = replicate 16 1, k_server_ip = replicate 16 2, k_client_port = 4000,
    k_server_port = 53, k_dns_id = i, k_qtype = 1, k_qclass = 1,
    k_qname_canonical = replicate 256 97, k_qname_len = 3\<rparr>"

definition sample_junk :: "nat \<Rightarrow> cf_dns_entry" where
  "sample_junk i = \<lparr>en_key = sample_key 0, en_time = 0, en_ctx = 0, en_hnext = None, en_prev = None,
    en_next = None\<rparr>"

definition sample_new :: "cf_dns_correlator" where
  "sample_new = the (cf_dns_correlator_new sample_junk 2 100 CF_DNS_ON_FULL_DROP_OLDEST)"

lemma sample_new_ok: "cf_dns_correlator_new sample_junk 2 100 CF_DNS_ON_FULL_DROP_OLDEST = Some sample_new"
  by (simp add: sample_new_def cf_dns_correlator_new_def)

definition sample_ops :: "txn_op list" where
  "sample_ops = [Query (sample_key 1) 10 101, Query (sample_key 2) 20 102, Query (sample_key 3) 30 103,
     Response (sample_key 2) 45 202, Query (sample_key 3) 50 104]"

theorem correlator_refines_table_witness:
  "\<exists>c'. run_ops corr_step sample_new sample_ops = Some c' \<and>
     refines c' (pt_run (pt_new 2 100 CF_DNS_ON_FULL_DROP_OLDEST) sample_ops)"
  by (rule correlator_refines_table [OF sample_new_ok])

theorem correlator_exactly_once_witness:
  "\<exists>c' c''. run_ops corr_step sample_new sample_ops = Some c' \<and> cf_dns_correlator_free c' = Some c'' \<and>
     mset (emq (c_emitted c'')) = {#101, 102, 103, 104#} \<and> emr (c_emitted c'') = [202]"
  using correlator_exactly_once [OF sample_new_ok, of sample_ops]
  by (simp add: sample_ops_def ac_simps)

theorem correlator_bounded_witness:
  "\<exists>c'. run_ops corr_step sample_new sample_ops = Some c' \<and>
     st_pending_depth (cf_dns_correlator_stats_of c') \<le> 2"
  by (rule correlator_bounded [OF sample_new_ok])

lemma sample_run: "\<exists>c'. run_ops corr_step sample_new sample_ops = Some c' \<and> c_emitted c' =
    pt_emitted (pt_run (pt_new 2 100 CF_DNS_ON_FULL_DROP_OLDEST) sample_ops)"
  using correlator.run_sim [OF new_refines(1) [OF sample_new_ok] pt_new_inv(1), of sample_ops]
  by (auto simp: refines_def)

lemma canon_sample: "canon (sample_key i) = canon (sample_key j) \<longleftrightarrow> i = j"
  by (auto simp: canon_def sample_key_def key_qname_len_def)

lemma eight: "(8 :: nat) = Suc (Suc (Suc (Suc (Suc (Suc (Suc (Suc 0)))))))"
  by simp

lemma sample_trace:
  "map em_outcome (pt_emitted (pt_run (pt_new 2 100 CF_DNS_ON_FULL_DROP_OLDEST) sample_ops)) =
    [CF_DNS_TXN_UNANSWERED, CF_DNS_TXN_OBSERVED, CF_DNS_TXN_UNANSWERED]"
  by (simp add: sample_ops_def pt_new_def pt_on_query_def pt_on_response_def pt_fresh_def pt_append_def
      pt_replace_def pt_evict_head_def same_key_def canon_sample unanswered_def eight Let_def del: One_nat_def)

theorem correlator_counters_account_witness:
  "\<exists>c'. run_ops corr_step sample_new sample_ops = Some c' \<and> st_transactions_observed (c_stats c') = 1 \<and>
     st_query_unanswered (c_stats c') + st_pending_evicted_collision (c_stats c') +
      st_pending_drop (c_stats c') = 2"
proof -
  obtain c' where c': "run_ops corr_step sample_new sample_ops = Some c'"
    "map em_outcome (c_emitted c') = [CF_DNS_TXN_UNANSWERED, CF_DNS_TXN_OBSERVED, CF_DNS_TXN_UNANSWERED]"
    using sample_run sample_trace by auto
  have "outcomes oc (c_emitted c') = length (filter (\<lambda>x. x = oc) (map em_outcome (c_emitted c')))" for oc
    by (simp add: outcomes_def filter_map comp_def)
  with correlator_counters_account [OF sample_new_ok c'(1)] c' show ?thesis by simp
qed

theorem correlator_matches_witness:
  "\<exists>d e. cf_dns_correlator_on_query sample_new (sample_key 7) 10 1 = Some d \<and>
    cf_dns_correlator_on_response d (sample_key 7) 25 2 = Some e \<and>
    last (c_emitted e) = \<lparr>em_outcome = CF_DNS_TXN_OBSERVED, em_query_ctx = Some 1,
      em_response_ctx = Some 2, em_rtt = 15, em_rtt_valid = True, em_key = sample_key 7\<rparr>"
proof -
  have "run_ops corr_step sample_new [] = Some sample_new" "c_count sample_new < 2"
    "key_equal (sample_key 7) (sample_key 7)"
    by (simp_all add: sample_new_def cf_dns_correlator_new_def key_equal_canon)
  from correlator_matches [OF sample_new_ok this, of 10 1 25 2] show ?thesis by simp
qed

theorem correlator_tick_drains_witness:
  "\<exists>c' a. run_ops corr_step sample_new (sample_ops @ [Tick 500]) = Some c' \<and> refines c' a \<and>
    (\<forall>p \<in> set (pt_pending a). 500 - fst (snd p) \<le> 100)"
  by (rule correlator_tick_drains [OF sample_new_ok]) (simp add: sample_ops_def)

end
