(* ===== verification/Leg_Classify.thy ===== *)
theory Leg_Classify
  imports Prelude
begin

text \<open>
  The DNS leg classifier, \<^verbatim>\<open>sources/cloudflow-source-dns/src/leg_classify.c\<close>: version-aware
  exact-match address sets, the address-to-label role map, and the classification of a packet
  by the side that owns port 53.

  A NULL pointer is \<open>None\<close>. The outcome of \<open>realloc\<close> and \<open>strdup\<close> is an argument of the
  operations that allocate. \<open>inet_pton\<close> is a parameter: its two calls return the parsed bytes
  or \<open>None\<close>.
\<close>

abbreviation CF_DNS_SERVER_PORT :: u16 where "CF_DNS_SERVER_PORT \<equiv> 53"

section \<open>Address sets\<close>

record cf_dns_addr_entry =
  ae_version :: byte
  ae_ip :: bytes

record cf_dns_addr_set =
  as_entries :: "cf_dns_addr_entry list"
  as_cap :: nat

definition cf_dns_addr_width :: "byte \<Rightarrow> nat" where
  "cf_dns_addr_width v = (if v = 4 then 4 else 16)"

definition cf_dns_addr_set_new :: "bool \<Rightarrow> cf_dns_addr_set option" where
  "cf_dns_addr_set_new alloc = (if alloc then Some \<lparr>as_entries = [], as_cap = 0\<rparr> else None)"

definition cf_dns_addr_set_reserve :: "bool \<Rightarrow> cf_dns_addr_set \<Rightarrow> bool \<times> cf_dns_addr_set" where
  "cf_dns_addr_set_reserve alloc s =
    (if length (as_entries s) < as_cap s then (True, s)
     else let new_cap = (if as_cap s \<noteq> 0 then as_cap s * 2 else 8)
     in if \<not> alloc then (False, s) else (True, s\<lparr>as_cap := new_cap\<rparr>))"

definition valid_version :: "byte \<Rightarrow> bool" where
  "valid_version v \<longleftrightarrow> \<not> (v \<noteq> 4 \<and> v \<noteq> 6)"

definition cf_dns_addr_set_add_ip ::
  "bool \<Rightarrow> cf_dns_addr_set option \<Rightarrow> byte \<Rightarrow> bytes \<Rightarrow> cf_dns_addr_set option" where
  "cf_dns_addr_set_add_ip alloc aset v ip =
    (case aset of None \<Rightarrow> None
     | Some s \<Rightarrow>
       if \<not> valid_version v then Some s
       else (case cf_dns_addr_set_reserve alloc s of (ok, s) \<Rightarrow>
         if \<not> ok then Some s
         else Some (s\<lparr>as_entries := as_entries s @
           [\<lparr>ae_version = v, ae_ip = memcpy_at (replicate 16 0) 0 (take (cf_dns_addr_width v) ip)\<rparr>]\<rparr>)))"

definition cf_dns_addr_set_add_str ::
  "(string \<Rightarrow> bytes option) \<Rightarrow> (string \<Rightarrow> bytes option) \<Rightarrow> bool \<Rightarrow> cf_dns_addr_set option \<Rightarrow> string option \<Rightarrow>
   bool \<times> cf_dns_addr_set option" where
  "cf_dns_addr_set_add_str pton4 pton6 alloc aset ip =
    (case (aset, ip) of
       (Some s, Some str) \<Rightarrow>
         (case pton4 str of
            Some buf \<Rightarrow> (True, cf_dns_addr_set_add_ip alloc aset 4 buf)
          | None \<Rightarrow>
              (case pton6 str of
                 Some buf \<Rightarrow> (True, cf_dns_addr_set_add_ip alloc aset 6 buf)
               | None \<Rightarrow> (False, aset)))
     | _ \<Rightarrow> (False, aset))"

fun contains_loop :: "cf_dns_addr_entry list \<Rightarrow> byte \<Rightarrow> bytes \<Rightarrow> nat \<Rightarrow> bool" where
  "contains_loop [] v ip width = False"
| "contains_loop (e # es) v ip width =
    (if ae_version e = v \<and> take width (ae_ip e) = take width ip then True
     else contains_loop es v ip width)"

definition cf_dns_addr_set_contains :: "cf_dns_addr_set option \<Rightarrow> byte \<Rightarrow> bytes \<Rightarrow> bool" where
  "cf_dns_addr_set_contains aset v ip =
    (case aset of None \<Rightarrow> False
     | Some s \<Rightarrow> if \<not> valid_version v then False
                else contains_loop (as_entries s) v ip (cf_dns_addr_width v))"

section \<open>Role maps\<close>

record cf_dns_role_entry = cf_dns_addr_entry +
  re_label :: string

record cf_dns_role_map =
  rm_entries :: "cf_dns_role_entry list"
  rm_cap :: nat

definition cf_dns_role_map_new :: "bool \<Rightarrow> cf_dns_role_map option" where
  "cf_dns_role_map_new alloc = (if alloc then Some \<lparr>rm_entries = [], rm_cap = 0\<rparr> else None)"

definition cf_dns_role_map_reserve :: "bool \<Rightarrow> cf_dns_role_map \<Rightarrow> bool \<times> cf_dns_role_map" where
  "cf_dns_role_map_reserve alloc m =
    (if length (rm_entries m) < rm_cap m then (True, m)
     else let new_cap = (if rm_cap m \<noteq> 0 then rm_cap m * 2 else 8)
     in if \<not> alloc then (False, m) else (True, m\<lparr>rm_cap := new_cap\<rparr>))"

text \<open>The second flag is the outcome of \<open>strdup\<close>.\<close>

definition cf_dns_role_map_add_ip ::
  "bool \<Rightarrow> bool \<Rightarrow> cf_dns_role_map option \<Rightarrow> byte \<Rightarrow> bytes \<Rightarrow> string option \<Rightarrow> cf_dns_role_map option" where
  "cf_dns_role_map_add_ip alloc dup rmap v ip label =
    (case (rmap, label) of
       (Some m, Some l) \<Rightarrow>
         if \<not> valid_version v \<or> l = [] then Some m
         else (case cf_dns_role_map_reserve alloc m of (ok, m) \<Rightarrow>
           if \<not> ok then Some m
           else if \<not> dup then Some m
           else Some (m\<lparr>rm_entries := rm_entries m @
             [\<lparr>ae_version = v, ae_ip = memcpy_at (replicate 16 0) 0 (take (cf_dns_addr_width v) ip),
               re_label = l\<rparr>]\<rparr>))
     | _ \<Rightarrow> rmap)"

definition role_count :: "cf_dns_role_map option \<Rightarrow> nat" where
  "role_count rmap = (case rmap of None \<Rightarrow> 0 | Some m \<Rightarrow> length (rm_entries m))"

definition cf_dns_role_map_add_str ::
  "(string \<Rightarrow> bytes option) \<Rightarrow> (string \<Rightarrow> bytes option) \<Rightarrow> bool \<Rightarrow> bool \<Rightarrow> cf_dns_role_map option \<Rightarrow>
   string option \<Rightarrow> string option \<Rightarrow> bool \<times> cf_dns_role_map option" where
  "cf_dns_role_map_add_str pton4 pton6 alloc dup rmap ip label =
    (case (rmap, ip, label) of
       (Some m, Some str, Some l) \<Rightarrow>
         if l = [] then (False, rmap)
         else (case pton4 str of
            Some buf \<Rightarrow>
              let m' = cf_dns_role_map_add_ip alloc dup rmap 4 buf label
              in (role_count m' > role_count rmap, m')
          | None \<Rightarrow>
              (case pton6 str of
                 Some buf \<Rightarrow>
                   let m' = cf_dns_role_map_add_ip alloc dup rmap 6 buf label
                   in (role_count m' > role_count rmap, m')
               | None \<Rightarrow> (False, rmap)))
     | _ \<Rightarrow> (False, rmap))"

fun lookup_loop :: "cf_dns_role_entry list \<Rightarrow> byte \<Rightarrow> bytes \<Rightarrow> nat \<Rightarrow> string option" where
  "lookup_loop [] v ip width = None"
| "lookup_loop (e # es) v ip width =
    (if ae_version e = v \<and> take width (ae_ip e) = take width ip then Some (re_label e)
     else lookup_loop es v ip width)"

definition cf_dns_role_lookup :: "cf_dns_role_map option \<Rightarrow> byte \<Rightarrow> bytes \<Rightarrow> string option" where
  "cf_dns_role_lookup rmap v ip =
    (case rmap of None \<Rightarrow> None
     | Some m \<Rightarrow> if \<not> valid_version v then None
                else lookup_loop (rm_entries m) v ip (cf_dns_addr_width v))"

section \<open>Classification\<close>

datatype dns_leg = DNS_LEG_UNKNOWN | DNS_LEG_CLIENT_FACING | DNS_LEG_BACKEND | DNS_LEG_RECURSION_UPSTREAM

datatype cf_dns_capture_dir = CF_DNS_DIR_UNKNOWN | CF_DNS_DIR_INGRESS | CF_DNS_DIR_EGRESS

record cf_dns_leg_config =
  lc_local :: "cf_dns_addr_set option"
  lc_backend :: "cf_dns_addr_set option"

text \<open>The role and the value stored to \<open>*local_is_server_out\<close>.\<close>

definition cf_dns_classify_leg ::
  "cf_dns_leg_config option \<Rightarrow> byte \<Rightarrow> bytes \<Rightarrow> u16 \<Rightarrow> bytes \<Rightarrow> u16 \<Rightarrow> cf_dns_capture_dir \<Rightarrow> dns_leg \<times> bool" where
  "cf_dns_classify_leg cfg v src_ip src_port dst_ip dst_port direction =
    (let locals = (case cfg of None \<Rightarrow> None | Some c \<Rightarrow> lc_local c);
         backend = (case cfg of None \<Rightarrow> None | Some c \<Rightarrow> lc_backend c);
         server_ip = (if dst_port = CF_DNS_SERVER_PORT \<and> src_port \<noteq> CF_DNS_SERVER_PORT then Some dst_ip
                      else if src_port = CF_DNS_SERVER_PORT \<and> dst_port \<noteq> CF_DNS_SERVER_PORT then Some src_ip
                      else None)
     in case server_ip of
          None \<Rightarrow> (DNS_LEG_UNKNOWN, False)
        | Some ip \<Rightarrow>
            if cf_dns_addr_set_contains locals v ip then (DNS_LEG_CLIENT_FACING, True)
            else if cf_dns_addr_set_contains backend v ip then (DNS_LEG_BACKEND, False)
            else (DNS_LEG_RECURSION_UPSTREAM, False))"

section \<open>Lemmas\<close>

text \<open>The significant part of an address.\<close>

definition addr_key :: "byte \<Rightarrow> bytes \<Rightarrow> byte \<times> bytes" where
  "addr_key v ip = (v, take (cf_dns_addr_width v) ip)"

definition entry_key :: "'a cf_dns_addr_entry_scheme \<Rightarrow> byte \<times> bytes" where
  "entry_key e = addr_key (ae_version e) (ae_ip e)"

lemma entry_match:
  "ae_version e = v \<and> take (cf_dns_addr_width v) (ae_ip e) = take (cf_dns_addr_width v) ip \<longleftrightarrow>
   entry_key e = addr_key v ip"
  by (auto simp: entry_key_def addr_key_def)

lemma contains_loop_iff:
  "contains_loop es v ip (cf_dns_addr_width v) \<longleftrightarrow> addr_key v ip \<in> entry_key ` set es"
  by (induction es) (auto simp: entry_match)

lemma contains_iff:
  "cf_dns_addr_set_contains (Some s) v ip \<longleftrightarrow> valid_version v \<and> addr_key v ip \<in> entry_key ` set (as_entries s)"
  by (simp add: cf_dns_addr_set_contains_def contains_loop_iff)

lemma stored_key:
  assumes "cf_dns_addr_width v \<le> length ip"
  shows "addr_key v (memcpy_at (replicate 16 0) 0 (take (cf_dns_addr_width v) ip)) = addr_key v ip"
  using assms by (simp add: addr_key_def memcpy_at_def)

lemma add_entries:
  assumes "cf_dns_addr_width v \<le> length ip" "valid_version v"
  obtains s' where "cf_dns_addr_set_add_ip True (Some s) v ip = Some s'"
    "entry_key ` set (as_entries s') = insert (addr_key v ip) (entry_key ` set (as_entries s))"
proof -
  have e: "entry_key \<lparr>ae_version = v, ae_ip = memcpy_at (replicate 16 0) 0 (take (cf_dns_addr_width v) ip)\<rparr> = addr_key v ip"
    using stored_key [OF assms(1)] by (simp add: entry_key_def)
  show thesis
    using assms(2) that
    by (cases "length (as_entries s) < as_cap s")
       (simp_all add: cf_dns_addr_set_add_ip_def cf_dns_addr_set_reserve_def Let_def e)
qed

lemma lookup_loop_find:
  "lookup_loop es v ip (cf_dns_addr_width v) =
    map_option re_label (List.find (\<lambda>e. entry_key e = addr_key v ip) es)"
  by (induction es) (auto simp: entry_match)

lemma find_append:
  "List.find P (xs @ ys) = (case List.find P xs of Some x \<Rightarrow> Some x | None \<Rightarrow> List.find P ys)"
  by (induction xs) auto

lemma role_add_entries:
  assumes "valid_version v" "label \<noteq> []"
  shows "\<exists>m'. cf_dns_role_map_add_ip True True (Some m) v ip (Some label) = Some m' \<and>
    rm_entries m' = rm_entries m @
      [\<lparr>ae_version = v, ae_ip = memcpy_at (replicate 16 0) 0 (take (cf_dns_addr_width v) ip), re_label = label\<rparr>]"
  using assms
  by (cases "length (rm_entries m) < rm_cap m")
     (simp_all add: cf_dns_role_map_add_ip_def cf_dns_role_map_reserve_def Let_def)

section \<open>Properties\<close>

text \<open>A transaction is classified the same from both of its packets: swapping source and
  destination (and seeing the packet in any capture direction) gives the same leg and the same
  \<open>local_is_server\<close>, so that a query and its response land on one correlation key.\<close>

theorem classify_leg_symmetric:
  "cf_dns_classify_leg cfg v a pa b pb d = cf_dns_classify_leg cfg v b pb a pa d'"
  by (auto simp: cf_dns_classify_leg_def Let_def)

text \<open>Address-set membership is exact and version aware: after adding an address, a lookup
  finds precisely the addresses that were there and every address equal to the new one in the
  4 (IPv4) or 16 (IPv6) significant bytes of the same family.\<close>

theorem addr_set_add_contains:
  assumes "cf_dns_addr_width v \<le> length ip" "valid_version v"
  shows "cf_dns_addr_set_contains (cf_dns_addr_set_add_ip True (Some s) v ip) v' ip' \<longleftrightarrow>
    cf_dns_addr_set_contains (Some s) v' ip' \<or>
    v' = v \<and> take (cf_dns_addr_width v) ip' = take (cf_dns_addr_width v) ip"
proof -
  obtain s' where "cf_dns_addr_set_add_ip True (Some s) v ip = Some s'"
    "entry_key ` set (as_entries s') = insert (addr_key v ip) (entry_key ` set (as_entries s))"
    by (rule add_entries [OF assms])
  then show ?thesis using assms(2) by (auto simp: contains_iff addr_key_def)
qed

theorem addr_set_add_contains_witness:
  "cf_dns_addr_set_contains (cf_dns_addr_set_add_ip True (cf_dns_addr_set_new True) 4
      ([10, 0, 0, 1] @ replicate 12 0)) 4 ([10, 0, 0, 1] @ replicate 12 9) \<and>
   \<not> cf_dns_addr_set_contains (cf_dns_addr_set_add_ip True (cf_dns_addr_set_new True) 4
      ([10, 0, 0, 1] @ replicate 12 0)) 6 ([10, 0, 0, 1] @ replicate 12 0)"
  using addr_set_add_contains [of 4 "[10, 0, 0, 1] @ replicate 12 0" "\<lparr>as_entries = [], as_cap = 0\<rparr>" 4 "[10, 0, 0, 1] @ replicate 12 9"]
    addr_set_add_contains [of 4 "[10, 0, 0, 1] @ replicate 12 0" "\<lparr>as_entries = [], as_cap = 0\<rparr>" 6 "[10, 0, 0, 1] @ replicate 12 0"]
  by (simp add: cf_dns_addr_width_def valid_version_def cf_dns_addr_set_contains_def cf_dns_addr_set_new_def)

text \<open>The role map answers with the label of the first entry, in insertion order, that has the
  address: a newly added label is visible exactly for the addresses that had none, and an
  existing label is never overridden. An empty label is refused.\<close>

theorem role_map_first_match_wins:
  assumes "cf_dns_addr_width v \<le> length ip" "valid_version v" "label \<noteq> []"
  shows "cf_dns_role_lookup (cf_dns_role_map_add_ip True True (Some m) v ip (Some label)) v' ip' =
    (case cf_dns_role_lookup (Some m) v' ip' of
       Some l \<Rightarrow> Some l
     | None \<Rightarrow> if v' = v \<and> take (cf_dns_addr_width v) ip' = take (cf_dns_addr_width v) ip
              then Some label else None)"
proof -
  obtain m' where m': "cf_dns_role_map_add_ip True True (Some m) v ip (Some label) = Some m'"
    and es: "rm_entries m' = rm_entries m @
      [\<lparr>ae_version = v, ae_ip = memcpy_at (replicate 16 0) 0 (take (cf_dns_addr_width v) ip), re_label = label\<rparr>]"
    using role_add_entries [OF assms(2,3)] by blast
  show ?thesis
    using stored_key [OF assms(1)] assms(2)
    by (auto simp: cf_dns_role_lookup_def m' es lookup_loop_find find_append entry_key_def addr_key_def
        split: option.splits)
qed

theorem role_map_first_match_wins_witness:
  "cf_dns_role_lookup (cf_dns_role_map_add_ip True True
      (cf_dns_role_map_add_ip True True (cf_dns_role_map_new True) 4 [10, 0, 0, 1] (Some ''resolver''))
      4 [10, 0, 0, 1] (Some ''other'')) 4 [10, 0, 0, 1] = Some ''resolver''"
  using role_map_first_match_wins [of 4 "[10, 0, 0, 1]" "''other''"
      "the (cf_dns_role_map_add_ip True True (cf_dns_role_map_new True) 4 [10, 0, 0, 1] (Some ''resolver''))"
      4 "[10, 0, 0, 1]"]
  by (simp add: cf_dns_addr_width_def valid_version_def cf_dns_role_lookup_def cf_dns_role_map_new_def
      cf_dns_role_map_add_ip_def cf_dns_role_map_reserve_def memcpy_at_def)

end
