(* ===== verification/Sampling.thy ===== *)
theory Sampling
  imports Prelude Correlation
begin

text \<open>
  The emit policy of the DNS source, \<^verbatim>\<open>sources/cloudflow-source-dns/src/sampling.c\<close>: anomalies are
  always emitted, routine transactions are kept by a deterministic mix-and-modulo of the
  transaction key. The mixer is \<open>splitmix64\<close> on 64-bit words with wrap-around.

  The lemmas show that the mixer is a bijection of the 64-bit keys, so that the sampled share
  is exact over the key space.
\<close>

unbundle bit_operations_syntax

abbreviation CF_DNS_QTYPE_A :: u32 where "CF_DNS_QTYPE_A \<equiv> 1"
abbreviation CF_DNS_QTYPE_AAAA :: u32 where "CF_DNS_QTYPE_AAAA \<equiv> 28"
abbreviation CF_DNS_RCODE_NOERROR :: u32 where "CF_DNS_RCODE_NOERROR \<equiv> 0"

datatype cf_dns_emit_mode = CF_DNS_EMIT_ALL | CF_DNS_EMIT_PREDICATE

record cf_dns_emit_policy =
  ep_mode :: cf_dns_emit_mode
  ep_sample_denominator :: u32

record cf_dns_emit_facts =
  ef_outcome :: cf_dns_txn_outcome
  ef_rcode :: u32
  ef_qtype :: u32
  ef_has_response :: bool
  ef_sample_key :: u64

definition cf_dns_splitmix64 :: "u64 \<Rightarrow> u64" where
  "cf_dns_splitmix64 x =
    (let x = x + 0x9e3779b97f4a7c15;
         x = (x XOR drop_bit 30 x) * 0xbf58476d1ce4e5b9;
         x = (x XOR drop_bit 27 x) * 0x94d049bb133111eb
     in x XOR drop_bit 31 x)"

definition cf_dns_qtype_is_routine :: "u32 \<Rightarrow> bool" where
  "cf_dns_qtype_is_routine qtype \<longleftrightarrow> qtype = CF_DNS_QTYPE_A \<or> qtype = CF_DNS_QTYPE_AAAA"

definition cf_dns_emit_decide :: "cf_dns_emit_policy option \<Rightarrow> cf_dns_emit_facts option \<Rightarrow> bool" where
  "cf_dns_emit_decide policy f =
    (case policy of None \<Rightarrow> True
     | Some p \<Rightarrow>
       if ep_mode p = CF_DNS_EMIT_ALL then True
       else (case f of None \<Rightarrow> False
         | Some f \<Rightarrow>
           if ef_outcome f = CF_DNS_TXN_UNANSWERED \<or> ef_outcome f = CF_DNS_TXN_UNMATCHED then True
           else if ef_rcode f \<noteq> CF_DNS_RCODE_NOERROR then True
           else if \<not> cf_dns_qtype_is_routine (ef_qtype f) then True
           else let denom = ep_sample_denominator p
           in if denom \<le> 1 then True
              else cf_dns_splitmix64 (ef_sample_key f) mod ucast denom = 0))"

section \<open>The mixer is a bijection\<close>

text \<open>A right xorshift can be undone: the top bits are unchanged and each lower bit is a xor with
  a higher one.\<close>

lemma xorshift_bit_eq:
  fixes x y :: u64
  assumes "x XOR drop_bit k x = y XOR drop_bit k y" "0 < k"
  shows "bit x n = bit y n"
proof (induction "64 - n" arbitrary: n rule: less_induct)
  case less
  show ?case
  proof (cases "n < 64")
    case True
    have "bit x (n + k) = bit y (n + k)"
      using less [of "n + k"] True assms(2) by auto
    moreover have "bit (x XOR drop_bit k x) n = bit (y XOR drop_bit k y) n"
      using assms(1) by simp
    ultimately show ?thesis by (auto simp: bit_simps ac_simps)
  next
    case False
    then show ?thesis using bit_imp_le_length [of x n] bit_imp_le_length [of y n] by auto
  qed
qed

lemma xorshift_inj: "0 < k \<Longrightarrow> inj (\<lambda>x :: u64. x XOR drop_bit k x)"
  by (rule injI, rule bit_word_eqI, rule xorshift_bit_eq)

text \<open>Multiplication by a word with an inverse is injective.\<close>

lemma mul_inj:
  fixes c d :: u64
  assumes "c * d = 1"
  shows "inj (\<lambda>x. x * c)"
proof (rule injI)
  fix x y :: u64 assume "x * c = y * c"
  then have "x * (c * d) = y * (c * d)" by (metis mult.assoc)
  then show "x = y" by (simp add: assms)
qed

lemma splitmix_comp:
  "cf_dns_splitmix64 =
    (\<lambda>x. x XOR drop_bit 31 x) \<circ> (\<lambda>x. x * 0x94d049bb133111eb) \<circ> (\<lambda>x. x XOR drop_bit 27 x) \<circ>
    (\<lambda>x. x * 0xbf58476d1ce4e5b9) \<circ> (\<lambda>x. x XOR drop_bit 30 x) \<circ> (\<lambda>x. x + 0x9e3779b97f4a7c15)"
  by (simp add: fun_eq_iff cf_dns_splitmix64_def Let_def)

lemma splitmix_inj: "inj cf_dns_splitmix64"
  unfolding splitmix_comp
  by (intro inj_compose xorshift_inj mul_inj [of _ "0x319642b2d24d8ec3"] mul_inj [of _ "0x96de1b173f119089"])
     (simp_all add: inj_def)

lemma splitmix_bij: "bij cf_dns_splitmix64"
  by (simp add: bij_def splitmix_inj finite_UNIV_inj_surj)

text \<open>The multiples of \<open>d\<close> among the 64-bit words.\<close>

lemma card_multiples:
  fixes d :: u64
  assumes "d \<noteq> 0"
  shows "card {y :: u64. y mod d = 0} = (2 ^ 64 - 1) div unat d + 1"
proof -
  let ?D = "unat d" and ?f = "\<lambda>k :: nat. of_nat (k * unat d) :: u64"
  have D: "0 < ?D" using assms by (simp add: unat_gt_0)
  have small: "k * ?D < 2 ^ 64" if "k \<le> (2 ^ 64 - 1) div ?D" for k
  proof -
    have "k * ?D \<le> (2 ^ 64 - 1) div ?D * ?D" using that by simp
    also have "\<dots> \<le> 2 ^ 64 - 1" by simp
    finally show ?thesis by simp
  qed
  have un: "unat (?f k) = k * ?D" if "k \<le> (2 ^ 64 - 1) div ?D" for k
    using small [OF that] by (simp add: unat_of_nat take_bit_nat_eq_self del: of_nat_mult)
  have "bij_betw ?f {..(2 ^ 64 - 1) div ?D} {y. y mod d = 0}"
  proof (rule bij_betwI')
    fix x y assume "x \<in> {..(2 ^ 64 - 1) div ?D}" "y \<in> {..(2 ^ 64 - 1) div ?D}"
    then show "(?f x = ?f y) = (x = y)" using un D by (metis atMost_iff mult_cancel2 not_gr0)
  next
    fix x assume "x \<in> {..(2 ^ 64 - 1) div ?D}"
    then have "unat (?f x mod d) = 0" by (simp add: unat_mod un del: of_nat_mult)
    then show "?f x \<in> {y. y mod d = 0}" by (simp add: unat_eq_0 del: of_nat_mult)
  next
    fix y :: u64 assume "y \<in> {y. y mod d = 0}"
    then have "unat y mod ?D = 0" by (simp flip: unat_mod)
    then have "unat y = unat y div ?D * ?D" by (metis add.right_neutral div_mult_mod_eq)
    then have "?f (unat y div ?D) = of_nat (unat y)" by metis
    then have "y = ?f (unat y div ?D)" by simp
    moreover have "unat y div ?D \<le> (2 ^ 64 - 1) div ?D"
      using unsigned_less [of y, where ?'a = nat] by (intro div_le_mono) simp
    ultimately show "\<exists>x \<in> {..(2 ^ 64 - 1) div ?D}. y = ?f x" by blast
  qed
  then show ?thesis using bij_betw_same_card by fastforce
qed

lemma card_sampled:
  assumes "d \<noteq> 0"
  shows "card {k. cf_dns_splitmix64 k mod d = 0} = (2 ^ 64 - 1) div unat d + 1"
proof -
  have "cf_dns_splitmix64 ` (cf_dns_splitmix64 -` {y. y mod d = 0}) = {y. y mod d = 0}"
    by (rule surj_image_vimage_eq [OF bij_is_surj [OF splitmix_bij]])
  then have "cf_dns_splitmix64 ` {k. cf_dns_splitmix64 k mod d = 0} = {y. y mod d = 0}"
    by (simp only: vimage_def mem_Collect_eq)
  then show ?thesis
    using card_multiples [OF assms] card_image [OF inj_on_subset [OF splitmix_inj subset_UNIV]] by metis
qed

lemma unat_denom: "unat (ucast (d :: u32) :: u64) = unat d"
  by (simp add: unsigned_ucast_eq take_bit_nat_eq_self order.strict_trans2 [OF unsigned_less])

lemma denom_gt_1: "d \<le> 1 \<longleftrightarrow> \<not> 2 \<le> unat (d :: u32)"
  by (auto simp: word_le_nat_alt)

lemma mixed_mod: "(x :: u64) mod ucast (d :: u32) = 0 \<longleftrightarrow> unat d dvd unat x"
proof -
  have "x mod ucast d = 0 \<longleftrightarrow> unat (x mod ucast d) = 0" by (simp add: unat_eq_0)
  then show ?thesis by (simp add: unat_mod unat_denom dvd_eq_mod_eq_0)
qed

section \<open>Properties\<close>

text \<open>The emit policy never samples out an anomaly: a transaction is dropped precisely when the
  policy is in predicate mode and either there are no facts, or the transaction is an answered
  (observed) A or AAAA query with rcode NOERROR, the denominator is at least 2, and its mixed key
  is not a multiple of the denominator.\<close>

theorem emit_decide_drops_only_routine:
  "\<not> cf_dns_emit_decide policy facts \<longleftrightarrow>
    (\<exists>p. policy = Some p \<and> ep_mode p = CF_DNS_EMIT_PREDICATE \<and>
      (facts = None \<or>
       (\<exists>f. facts = Some f \<and> ef_outcome f = CF_DNS_TXN_OBSERVED \<and> ef_rcode f = CF_DNS_RCODE_NOERROR \<and>
         ef_qtype f \<in> {CF_DNS_QTYPE_A, CF_DNS_QTYPE_AAAA} \<and> 2 \<le> unat (ep_sample_denominator p) \<and>
         \<not> unat (ep_sample_denominator p) dvd unat (cf_dns_splitmix64 (ef_sample_key f)))))"
proof -
  have o: "oc \<noteq> CF_DNS_TXN_UNANSWERED \<and> oc \<noteq> CF_DNS_TXN_UNMATCHED \<longleftrightarrow> oc = CF_DNS_TXN_OBSERVED" for oc
    by (cases oc) auto
  have m: "md \<noteq> CF_DNS_EMIT_ALL \<longleftrightarrow> md = CF_DNS_EMIT_PREDICATE" for md by (cases md) auto
  show ?thesis
    using o m by (auto simp: cf_dns_emit_decide_def Let_def cf_dns_qtype_is_routine_def denom_gt_1 mixed_mod
        split: option.splits)
qed

text \<open>C36. Sampling keeps exactly the share that the denominator asks for: over the whole space of
  64-bit transaction keys, a routine transaction is emitted for one key in \<open>d\<close>, rounded up,
  because the mixer permutes the keys.\<close>

theorem sampling_share_exact:
  assumes "ep_mode p = CF_DNS_EMIT_PREDICATE" "2 \<le> unat (ep_sample_denominator p)"
    "ef_outcome f = CF_DNS_TXN_OBSERVED" "ef_rcode f = CF_DNS_RCODE_NOERROR"
    "cf_dns_qtype_is_routine (ef_qtype f)"
  shows "card {k. cf_dns_emit_decide (Some p) (Some (f\<lparr>ef_sample_key := k\<rparr>))} =
    (2 ^ 64 - 1) div unat (ep_sample_denominator p) + 1"
proof -
  have "\<not> ep_sample_denominator p \<le> 1" using assms(2) by (simp add: word_le_nat_alt)
  then have "{k. cf_dns_emit_decide (Some p) (Some (f\<lparr>ef_sample_key := k\<rparr>))} =
      {k. cf_dns_splitmix64 k mod ucast (ep_sample_denominator p) = 0}"
    using assms by (simp add: cf_dns_emit_decide_def Let_def)
  moreover have u: "unat (ucast (ep_sample_denominator p) :: u64) = unat (ep_sample_denominator p)"
    by (rule unat_denom)
  moreover have "(ucast (ep_sample_denominator p) :: u64) \<noteq> 0"
    using u assms(2) by (metis not_numeral_le_zero unsigned_0)
  ultimately show ?thesis using card_sampled by metis
qed

theorem sampling_share_exact_witness:
  "card {k. cf_dns_emit_decide (Some \<lparr>ep_mode = CF_DNS_EMIT_PREDICATE, ep_sample_denominator = 10\<rparr>)
      (Some \<lparr>ef_outcome = CF_DNS_TXN_OBSERVED, ef_rcode = 0, ef_qtype = 28, ef_has_response = True,
         ef_sample_key = k\<rparr>)} = 1844674407370955162"
  using sampling_share_exact [of "\<lparr>ep_mode = CF_DNS_EMIT_PREDICATE, ep_sample_denominator = 10\<rparr>"
      "\<lparr>ef_outcome = CF_DNS_TXN_OBSERVED, ef_rcode = 0, ef_qtype = 28, ef_has_response = True,
         ef_sample_key = 0\<rparr>"]
  by (simp add: cf_dns_qtype_is_routine_def)

end
