(* ===== verification/Redis_Slot.thy ===== *)
theory Redis_Slot
  imports Prelude
begin

text \<open>
  Redis Cluster key slots, \<^verbatim>\<open>libs/cloudflow-redis/cf_redis_slot.c\<close>: the table-driven CRC16 and the
  slot of a key with its hash tag. Keys are byte lists; \<open>{\<close> is 0x7B and \<open>}\<close> is 0x7D.

  The reference for the checksum is the bit-serial definition the source names: polynomial
  0x1021, most significant bit first, zero initial value.
\<close>

unbundle bit_operations_syntax

definition crc16tab :: "u16 list" where
  "crc16tab = concat [
    [0x0, 0x1021, 0x2042, 0x3063, 0x4084, 0x50a5, 0x60c6, 0x70e7],
    [0x8108, 0x9129, 0xa14a, 0xb16b, 0xc18c, 0xd1ad, 0xe1ce, 0xf1ef],
    [0x1231, 0x210, 0x3273, 0x2252, 0x52b5, 0x4294, 0x72f7, 0x62d6],
    [0x9339, 0x8318, 0xb37b, 0xa35a, 0xd3bd, 0xc39c, 0xf3ff, 0xe3de],
    [0x2462, 0x3443, 0x420, 0x1401, 0x64e6, 0x74c7, 0x44a4, 0x5485],
    [0xa56a, 0xb54b, 0x8528, 0x9509, 0xe5ee, 0xf5cf, 0xc5ac, 0xd58d],
    [0x3653, 0x2672, 0x1611, 0x630, 0x76d7, 0x66f6, 0x5695, 0x46b4],
    [0xb75b, 0xa77a, 0x9719, 0x8738, 0xf7df, 0xe7fe, 0xd79d, 0xc7bc],
    [0x48c4, 0x58e5, 0x6886, 0x78a7, 0x840, 0x1861, 0x2802, 0x3823],
    [0xc9cc, 0xd9ed, 0xe98e, 0xf9af, 0x8948, 0x9969, 0xa90a, 0xb92b],
    [0x5af5, 0x4ad4, 0x7ab7, 0x6a96, 0x1a71, 0xa50, 0x3a33, 0x2a12],
    [0xdbfd, 0xcbdc, 0xfbbf, 0xeb9e, 0x9b79, 0x8b58, 0xbb3b, 0xab1a],
    [0x6ca6, 0x7c87, 0x4ce4, 0x5cc5, 0x2c22, 0x3c03, 0xc60, 0x1c41],
    [0xedae, 0xfd8f, 0xcdec, 0xddcd, 0xad2a, 0xbd0b, 0x8d68, 0x9d49],
    [0x7e97, 0x6eb6, 0x5ed5, 0x4ef4, 0x3e13, 0x2e32, 0x1e51, 0xe70],
    [0xff9f, 0xefbe, 0xdfdd, 0xcffc, 0xbf1b, 0xaf3a, 0x9f59, 0x8f78],
    [0x9188, 0x81a9, 0xb1ca, 0xa1eb, 0xd10c, 0xc12d, 0xf14e, 0xe16f],
    [0x1080, 0xa1, 0x30c2, 0x20e3, 0x5004, 0x4025, 0x7046, 0x6067],
    [0x83b9, 0x9398, 0xa3fb, 0xb3da, 0xc33d, 0xd31c, 0xe37f, 0xf35e],
    [0x2b1, 0x1290, 0x22f3, 0x32d2, 0x4235, 0x5214, 0x6277, 0x7256],
    [0xb5ea, 0xa5cb, 0x95a8, 0x8589, 0xf56e, 0xe54f, 0xd52c, 0xc50d],
    [0x34e2, 0x24c3, 0x14a0, 0x481, 0x7466, 0x6447, 0x5424, 0x4405],
    [0xa7db, 0xb7fa, 0x8799, 0x97b8, 0xe75f, 0xf77e, 0xc71d, 0xd73c],
    [0x26d3, 0x36f2, 0x691, 0x16b0, 0x6657, 0x7676, 0x4615, 0x5634],
    [0xd94c, 0xc96d, 0xf90e, 0xe92f, 0x99c8, 0x89e9, 0xb98a, 0xa9ab],
    [0x5844, 0x4865, 0x7806, 0x6827, 0x18c0, 0x8e1, 0x3882, 0x28a3],
    [0xcb7d, 0xdb5c, 0xeb3f, 0xfb1e, 0x8bf9, 0x9bd8, 0xabbb, 0xbb9a],
    [0x4a75, 0x5a54, 0x6a37, 0x7a16, 0xaf1, 0x1ad0, 0x2ab3, 0x3a92],
    [0xfd2e, 0xed0f, 0xdd6c, 0xcd4d, 0xbdaa, 0xad8b, 0x9de8, 0x8dc9],
    [0x7c26, 0x6c07, 0x5c64, 0x4c45, 0x3ca2, 0x2c83, 0x1ce0, 0xcc1],
    [0xef1f, 0xff3e, 0xcf5d, 0xdf7c, 0xaf9b, 0xbfba, 0x8fd9, 0x9ff8],
    [0x6e17, 0x7e36, 0x4e55, 0x5e74, 0x2e93, 0x3eb2, 0xed1, 0x1ef0]]"

fun crc16_loop :: "u16 \<Rightarrow> bytes \<Rightarrow> u16" where
  "crc16_loop crc [] = crc"
| "crc16_loop crc (b # bs) =
    crc16_loop (push_bit 8 crc XOR crc16tab ! unat ((drop_bit 8 crc XOR ucast b) AND 0x00FF)) bs"

definition cf_redis_crc16 :: "bytes \<Rightarrow> u16" where
  "cf_redis_crc16 buf = crc16_loop 0 buf"

abbreviation CF_REDIS_NUM_SLOTS :: u16 where "CF_REDIS_NUM_SLOTS \<equiv> 16384"

text \<open>The scan \<open>for (s = from; s < len; s++) if (key[s] == c) break;\<close>.\<close>

function scan :: "bytes \<Rightarrow> byte \<Rightarrow> nat \<Rightarrow> nat" where
  "scan key c s = (if s < length key then if key ! s = c then s else scan key c (s + 1) else s)"
  by pat_completeness auto
termination by (relation "measure (\<lambda>(key, c, s). length key - s)") auto

declare scan.simps [simp del]

definition cf_redis_key_slot :: "bytes \<Rightarrow> u16" where
  "cf_redis_key_slot key =
    (let s = scan key 0x7B 0
     in if s = length key then cf_redis_crc16 key mod CF_REDIS_NUM_SLOTS
     else let e = scan key 0x7D (s + 1)
     in if e = length key \<or> e = s + 1 then cf_redis_crc16 key mod CF_REDIS_NUM_SLOTS
     else cf_redis_crc16 (take (e - s - 1) (drop (s + 1) key)) mod CF_REDIS_NUM_SLOTS)"

section \<open>The bit-serial checksum\<close>

definition crc_bit :: "u16 \<Rightarrow> u16" where
  "crc_bit c = push_bit 1 c XOR (if bit c 15 then 0x1021 else 0)"

definition crc_byte :: "u16 \<Rightarrow> byte \<Rightarrow> u16" where
  "crc_byte c b = (crc_bit ^^ 8) (c XOR push_bit 8 (ucast b))"

definition crc16_spec :: "bytes \<Rightarrow> u16" where
  "crc16_spec bs = foldl crc_byte 0 bs"

text \<open>Shifting out a bit is linear over exclusive or.\<close>

lemma crc_bit_xor: "crc_bit (a XOR b) = crc_bit a XOR crc_bit b"
  by (rule bit_word_eqI) (auto simp: crc_bit_def bit_simps)

lemma crc_bits_xor: "(crc_bit ^^ n) (a XOR b) = (crc_bit ^^ n) a XOR (crc_bit ^^ n) b"
  by (induction n) (simp_all add: crc_bit_xor)

text \<open>A value whose upper bits are clear is only shifted.\<close>

lemma crc_bits_low:
  assumes "\<forall>i \<ge> 8. \<not> bit c i" "n \<le> 8"
  shows "(crc_bit ^^ n) c = push_bit n c"
  using assms(2)
proof (induction n)
  case (Suc n)
  then have "\<not> bit (push_bit n c) 15" using assms(1) by (auto simp: bit_simps)
  then have "crc_bit (push_bit n c) = push_bit (Suc n) c" by (simp add: crc_bit_def)
  then show ?case using Suc by simp
qed simp

text \<open>The table doubles: entry \<open>2 * i\<close> is entry \<open>i\<close> with one more bit shifted out, and entry
  \<open>2 * i + 1\<close> differs from it by the polynomial.\<close>

fun doubles :: "u16 list \<Rightarrow> u16 list \<Rightarrow> bool" where
  "doubles [] ys = True"
| "doubles (x # xs) (a # b # ys) = (a = crc_bit x \<and> b = a XOR 0x1021 \<and> doubles xs ys)"
| "doubles (x # xs) ys = False"

lemma crc_bit_numeral:
  "crc_bit c = (if c AND 0x8000 = 0 then c + c else (c + c) XOR 0x1021)"
proof -
  have "c AND 0x8000 = 0 \<longleftrightarrow> \<not> bit c 15" using and_exp_eq_0_iff_not_bit [of c 15] by simp
  then show ?thesis by (simp add: crc_bit_def mult.commute)
qed

lemma doubles_table: "doubles (take 128 crc16tab) crc16tab"
  by (simp add: crc16tab_def crc_bit_numeral)

lemma doubles_nth:
  "doubles xs ys \<Longrightarrow> i < length xs \<Longrightarrow>
   Suc (2 * i) < length ys \<and> ys ! (2 * i) = crc_bit (xs ! i) \<and> ys ! Suc (2 * i) = crc_bit (xs ! i) XOR 0x1021"
proof (induction xs ys arbitrary: i rule: doubles.induct)
  case (2 x xs a b ys)
  then show ?case by (cases i) auto
qed auto

lemma length_crc16tab: "length crc16tab = 256" by (simp add: crc16tab_def)

lemma crc16tab_0: "crc16tab ! 0 = 0" by (simp add: crc16tab_def)

text \<open>The bit-serial value of an index: doubling the index is one more step, and the lowest bit
  contributes the polynomial.\<close>

definition serial :: "nat \<Rightarrow> u16" where
  "serial i = (crc_bit ^^ 8) (push_bit 8 (of_nat i))"

lemma funpow_8: "(f ^^ 8) x = f (f (f (f (f (f (f (f x)))))))"
  by (simp add: eval_nat_numeral)

lemma serial_0: "serial 0 = 0"
  by (simp add: serial_def funpow_8 crc_bit_def)

lemma serial_1: "(crc_bit ^^ 8) 0x100 = 0x1021"
  by (simp only: funpow_8) (simp add: crc_bit_numeral)

lemma serial_even:
  assumes "i < 128"
  shows "serial (2 * i) = crc_bit (serial i)"
proof -
  have "\<not> bit i 7" using assms by (simp add: bit_iff_odd)
  then have "\<not> bit (push_bit 8 (of_nat i) :: u16) 15"
    by (simp add: bit_push_bit_iff bit_of_nat_iff)
  then have "crc_bit (push_bit 8 (of_nat i)) = push_bit 8 (of_nat (2 * i))"
    by (simp add: crc_bit_def push_bit_eq_mult)
  then show ?thesis unfolding serial_def by (metis funpow_swap1)
qed

lemma serial_odd: "serial (Suc (2 * i)) = serial (2 * i) XOR 0x1021"
proof -
  have "(of_nat (Suc (2 * i)) :: u16) = of_nat (2 * i) XOR 1"
    by (simp add: xor_one_eq)
  then have "push_bit 8 (of_nat (Suc (2 * i)) :: u16) = push_bit 8 (of_nat (2 * i)) XOR 0x100"
    by (simp only: push_bit_xor) simp
  then show ?thesis unfolding serial_def by (simp only: crc_bits_xor serial_1)
qed

lemma crc16tab_serial: "i < 256 \<Longrightarrow> crc16tab ! i = serial i"
proof (induction i rule: less_induct)
  case (less i)
  define j where "j = i div 2"
  have j: "j < 128" using less.prems by (simp add: j_def)
  show ?case
  proof (cases "i = 0")
    case False
    then have ih: "crc16tab ! j = serial j" using less j by (simp add: j_def)
    have d: "crc16tab ! (2 * j) = crc_bit (crc16tab ! j)" "crc16tab ! Suc (2 * j) = crc_bit (crc16tab ! j) XOR 0x1021"
      using doubles_nth [OF doubles_table, of j] j by (simp_all add: length_crc16tab)
    have "i = 2 * j \<or> i = Suc (2 * j)" by (auto simp: j_def)
    then show ?thesis using d ih by (metis serial_even [OF j] serial_odd)
  qed (simp add: serial_0 crc16tab_0)
qed

text \<open>One step of the table loop is eight bit steps.\<close>

lemma crc_byte_table:
  "crc_byte crc b = push_bit 8 crc XOR crc16tab ! unat ((drop_bit 8 crc XOR ucast b) AND 0x00FF)"
proof -
  let ?hi = "(drop_bit 8 crc XOR ucast b) AND 0x00FF :: u16"
  have mask: "(0x00FF :: u16) = mask 8" by (simp add: mask_eq_exp_minus_1)
  have split: "crc XOR push_bit 8 (ucast b) = push_bit 8 ?hi XOR (crc AND 0x00FF)"
    unfolding mask by (rule bit_word_eqI) (auto simp: bit_simps)
  have low: "(crc_bit ^^ 8) (crc AND 0x00FF) = push_bit 8 crc"
  proof -
    have "(crc_bit ^^ 8) (crc AND 0x00FF) = push_bit 8 (crc AND 0x00FF)"
      unfolding mask by (rule crc_bits_low) (auto simp: bit_simps)
    also have "\<dots> = push_bit 8 crc"
      unfolding mask by (rule bit_word_eqI) (auto simp: bit_simps)
    finally show ?thesis .
  qed
  have "unat ?hi < 256" using word_and_le1 [of "drop_bit 8 crc XOR ucast b" "0x00FF"]
    by (simp add: word_le_nat_alt and.commute)
  then have "crc16tab ! unat ?hi = (crc_bit ^^ 8) (push_bit 8 ?hi)"
    by (simp add: crc16tab_serial serial_def)
  then show ?thesis by (simp add: crc_byte_def split crc_bits_xor low xor.commute)
qed

lemma crc16_loop_foldl: "crc16_loop c bs = foldl crc_byte c bs"
  by (induction bs arbitrary: c) (simp_all add: crc_byte_table)

section \<open>Hash tags\<close>

lemma scan_append:
  "c \<notin> set xs \<Longrightarrow> scan (pre @ xs @ c # ys) c (length pre) = length pre + length xs"
proof (induction xs arbitrary: pre)
  case Nil
  then show ?case by (simp add: scan.simps)
next
  case (Cons x xs)
  have "scan (pre @ (x # xs) @ c # ys) c (length pre) = scan ((pre @ [x]) @ xs @ c # ys) c (length (pre @ [x]))"
    using Cons.prems by (subst scan.simps) (auto simp: nth_append)
  then show ?case using Cons.IH [of "pre @ [x]"] Cons.prems by simp
qed

lemma scan_none: "c \<notin> set (drop s key) \<Longrightarrow> s \<le> length key \<Longrightarrow> scan key c s = length key"
proof (induction "length key - s" arbitrary: s)
  case (Suc n)
  then have lt: "s < length key" by simp
  with Suc.prems have "key ! s \<noteq> c" "c \<notin> set (drop (s + 1) key)"
    by (auto simp: Cons_nth_drop_Suc [symmetric])
  then show ?case using Suc lt by (subst scan.simps) simp
qed (simp add: scan.simps)

section \<open>Properties\<close>

text \<open>C30. The table-driven checksum is the CRC-16 of its specification (polynomial 0x1021, most
  significant bit first, zero initial value) on every buffer; in particular all 256 table
  entries are right.\<close>

theorem crc16_is_bit_serial: "cf_redis_crc16 buf = crc16_spec buf"
  by (simp add: cf_redis_crc16_def crc16_spec_def crc16_loop_foldl)

text \<open>The slot of a key that holds a non-empty hash tag depends on the tag only: with the
  first opening brace before \<open>tag\<close> and the first closing brace after it, the slot is the checksum
  of the tag modulo 16384, so that all keys with one tag live on one node.\<close>

theorem key_slot_hash_tag:
  assumes "0x7B \<notin> set pre" "0x7D \<notin> set tag" "tag \<noteq> []"
  shows "cf_redis_key_slot (pre @ [0x7B] @ tag @ [0x7D] @ post) = crc16_spec tag mod CF_REDIS_NUM_SLOTS \<and>
    unat (cf_redis_key_slot (pre @ [0x7B] @ tag @ [0x7D] @ post)) < 16384"
proof -
  have s: "scan (pre @ 0x7B # tag @ 0x7D # post) 0x7B 0 = length pre"
    using scan_append [OF assms(1), of "[]"] by simp
  have e: "scan (pre @ 0x7B # tag @ 0x7D # post) 0x7D (Suc (length pre)) = Suc (length pre) + length tag"
    using scan_append [OF assms(2), of "pre @ [0x7B]" post] by simp
  have "cf_redis_key_slot (pre @ [0x7B] @ tag @ [0x7D] @ post) = crc16_spec tag mod CF_REDIS_NUM_SLOTS"
    using assms(3)
    by (simp add: cf_redis_key_slot_def s e cf_redis_crc16_def crc16_spec_def crc16_loop_foldl)
  then show ?thesis by (simp add: unat_mod)
qed

theorem key_slot_hash_tag_witness:
  "cf_redis_key_slot ([1, 2] @ [0x7B] @ [97] @ [0x7D] @ [9]) = crc16_spec [97] mod CF_REDIS_NUM_SLOTS \<and>
    unat (cf_redis_key_slot ([1, 2] @ [0x7B] @ [97] @ [0x7D] @ [9])) < 16384"
  by (rule key_slot_hash_tag) simp_all

end
