(* ===== verification/Bpf.thy ===== *)
theory Bpf
  imports Prelude
begin

text \<open>
  The classic BPF socket filters: the two-pass assembler and the branch primitives of
  \<^verbatim>\<open>libs/cloudflow-capture/cf_bpf.c\<close>, the filter programs of
  \<^verbatim>\<open>sources/cloudflow-source-dns/src/dns_bpf.c\<close> and \<^verbatim>\<open>sources/cloudflow-source-dhcp/src/dhcp_bpf.c\<close>,
  and the interpreter of the instruction set that \<^verbatim>\<open>tests/dns_bpf_test.c\<close> runs them with.

  The arrays of the assembler are lists of the entries in use (the counters \<open>n\<close> and \<open>n_fixups\<close>
  are their lengths). The interpreter can be given a program that loops, so that not returning
  is \<open>None\<close>; the theorems show that the two filters always return.
\<close>

unbundle bit_operations_syntax

section \<open>Instructions\<close>

record sock_filter =
  sf_code :: u16
  sf_jt :: byte
  sf_jf :: byte
  sf_k :: u32

text \<open>Opcode fields of \<^verbatim>\<open>linux/filter.h\<close>.\<close>

abbreviation (input) BPF_LD :: u16 where "BPF_LD \<equiv> 0x00"
abbreviation (input) BPF_LDX :: u16 where "BPF_LDX \<equiv> 0x01"
abbreviation (input) BPF_JMP :: u16 where "BPF_JMP \<equiv> 0x05"
abbreviation (input) BPF_RET :: u16 where "BPF_RET \<equiv> 0x06"
abbreviation (input) BPF_W :: u16 where "BPF_W \<equiv> 0x00"
abbreviation (input) BPF_H :: u16 where "BPF_H \<equiv> 0x08"
abbreviation (input) BPF_B :: u16 where "BPF_B \<equiv> 0x10"
abbreviation (input) BPF_IMM :: u16 where "BPF_IMM \<equiv> 0x00"
abbreviation (input) BPF_ABS :: u16 where "BPF_ABS \<equiv> 0x20"
abbreviation (input) BPF_IND :: u16 where "BPF_IND \<equiv> 0x40"
abbreviation (input) BPF_MSH :: u16 where "BPF_MSH \<equiv> 0xa0"
abbreviation (input) BPF_JA :: u16 where "BPF_JA \<equiv> 0x00"
abbreviation (input) BPF_JEQ :: u16 where "BPF_JEQ \<equiv> 0x10"
abbreviation (input) BPF_JSET :: u16 where "BPF_JSET \<equiv> 0x40"
abbreviation (input) BPF_K :: u16 where "BPF_K \<equiv> 0x00"

section \<open>The assembler\<close>

abbreviation (input) CF_BPF_ASM_MAX_INSNS :: nat where "CF_BPF_ASM_MAX_INSNS \<equiv> 96"
abbreviation (input) CF_BPF_ASM_MAX_FIXUPS :: nat where "CF_BPF_ASM_MAX_FIXUPS \<equiv> 96"
abbreviation (input) CF_BPF_ASM_MAX_LABELS :: int where "CF_BPF_ASM_MAX_LABELS \<equiv> 32"
abbreviation (input) CF_BPF_ASM_FALLTHROUGH :: int where "CF_BPF_ASM_FALLTHROUGH \<equiv> - 1"

text \<open>A fixup is the index of its instruction, whether it is the true branch, and its label.\<close>

record bpf_asm =
  a_insns :: "sock_filter list"
  a_label_pos :: "int list"
  a_fixups :: "(nat \<times> bool \<times> int) list"
  a_error :: bool

definition bpf_asm_init :: bpf_asm where
  "bpf_asm_init = \<lparr>a_insns = [], a_label_pos = replicate 32 (- 1), a_fixups = [], a_error = False\<rparr>"

definition bpf_asm_label :: "int \<Rightarrow> bpf_asm \<Rightarrow> bpf_asm" where
  "bpf_asm_label label a =
    (if label < 0 \<or> label \<ge> CF_BPF_ASM_MAX_LABELS then a\<lparr>a_error := True\<rparr>
     else a\<lparr>a_label_pos := (a_label_pos a)[nat label := int (length (a_insns a))]\<rparr>)"

definition bpf_asm_stmt :: "u16 \<Rightarrow> u32 \<Rightarrow> bpf_asm \<Rightarrow> bpf_asm" where
  "bpf_asm_stmt code k a =
    (if length (a_insns a) \<ge> CF_BPF_ASM_MAX_INSNS then a\<lparr>a_error := True\<rparr>
     else a\<lparr>a_insns := a_insns a @ [\<lparr>sf_code = code, sf_jt = 0, sf_jf = 0, sf_k = k\<rparr>]\<rparr>)"

definition bpf_asm_jump :: "u16 \<Rightarrow> u32 \<Rightarrow> int \<Rightarrow> int \<Rightarrow> bpf_asm \<Rightarrow> bpf_asm" where
  "bpf_asm_jump code k jt_label jf_label a =
    (if length (a_insns a) \<ge> CF_BPF_ASM_MAX_INSNS then a\<lparr>a_error := True\<rparr>
     else let idx = length (a_insns a);
              a = a\<lparr>a_insns := a_insns a @ [\<lparr>sf_code = code, sf_jt = 0, sf_jf = 0, sf_k = k\<rparr>]\<rparr>
     in if jt_label \<noteq> CF_BPF_ASM_FALLTHROUGH \<and> length (a_fixups a) \<ge> CF_BPF_ASM_MAX_FIXUPS
     then a\<lparr>a_error := True\<rparr>
     else let a = (if jt_label \<noteq> CF_BPF_ASM_FALLTHROUGH
                   then a\<lparr>a_fixups := a_fixups a @ [(idx, True, jt_label)]\<rparr> else a)
     in if jf_label \<noteq> CF_BPF_ASM_FALLTHROUGH \<and> length (a_fixups a) \<ge> CF_BPF_ASM_MAX_FIXUPS
     then a\<lparr>a_error := True\<rparr>
     else if jf_label \<noteq> CF_BPF_ASM_FALLTHROUGH
     then a\<lparr>a_fixups := a_fixups a @ [(idx, False, jf_label)]\<rparr> else a)"

definition set_target :: "nat \<Rightarrow> bool \<Rightarrow> byte \<Rightarrow> sock_filter list \<Rightarrow> sock_filter list" where
  "set_target i is_jt d insns =
    insns[i := (if is_jt then (insns ! i)\<lparr>sf_jt := d\<rparr> else (insns ! i)\<lparr>sf_jf := d\<rparr>)]"

fun finish_loop :: "int list \<Rightarrow> (nat \<times> bool \<times> int) list \<Rightarrow> sock_filter list \<Rightarrow> int \<times> sock_filter list" where
  "finish_loop label_pos [] insns = (0, insns)"
| "finish_loop label_pos ((insn_idx, is_jt, label) # fixups) insns =
    (if label < 0 \<or> label \<ge> CF_BPF_ASM_MAX_LABELS then (- 1, insns)
     else let target = label_pos ! nat label
     in if target < 0 then (- 1, insns)
     else let delta = target - (int insn_idx + 1)
     in if delta < 0 \<or> delta > 255 then (- 1, insns)
     else finish_loop label_pos fixups (set_target insn_idx is_jt (of_int delta) insns))"

definition bpf_asm_finish :: "bpf_asm \<Rightarrow> int \<times> bpf_asm" where
  "bpf_asm_finish a =
    (if a_error a then (- 1, a)
     else case finish_loop (a_label_pos a) (a_fixups a) (a_insns a) of
       (rc, insns) \<Rightarrow> (rc, a\<lparr>a_insns := insns\<rparr>))"

section \<open>Branch primitives\<close>

abbreviation (input) CF_BPF_UDP_SRC_PORT_OFF :: u32 where "CF_BPF_UDP_SRC_PORT_OFF \<equiv> 0"
abbreviation (input) CF_BPF_UDP_DST_PORT_OFF :: u32 where "CF_BPF_UDP_DST_PORT_OFF \<equiv> 2"
abbreviation (input) CF_BPF_TCP_SRC_PORT_OFF :: u32 where "CF_BPF_TCP_SRC_PORT_OFF \<equiv> 0"
abbreviation (input) CF_BPF_TCP_DST_PORT_OFF :: u32 where "CF_BPF_TCP_DST_PORT_OFF \<equiv> 2"
abbreviation (input) IPPROTO_UDP :: u32 where "IPPROTO_UDP \<equiv> 17"
abbreviation (input) IPPROTO_TCP :: u32 where "IPPROTO_TCP \<equiv> 6"

definition bpf_asm_check_two_ports :: "u32 \<Rightarrow> u16 \<Rightarrow> u16 \<Rightarrow> int \<Rightarrow> int \<Rightarrow> bpf_asm \<Rightarrow> bpf_asm" where
  "bpf_asm_check_two_ports ind_k port1 port2 accept_label final_jf_label a =
    (let a = bpf_asm_stmt (BPF_LD OR BPF_H OR BPF_IND) ind_k a;
         a = bpf_asm_jump (BPF_JMP OR BPF_JEQ OR BPF_K) (ucast port1) accept_label CF_BPF_ASM_FALLTHROUGH a
     in bpf_asm_jump (BPF_JMP OR BPF_JEQ OR BPF_K) (ucast port2) accept_label final_jf_label a)"

definition bpf_asm_ipv4_udp_ports_branch :: "u32 \<Rightarrow> u16 \<Rightarrow> u16 \<Rightarrow> int \<Rightarrow> int \<Rightarrow> bpf_asm \<Rightarrow> bpf_asm" where
  "bpf_asm_ipv4_udp_ports_branch ip_base port1 port2 accept_label drop_label a =
    (let a = bpf_asm_stmt (BPF_LD OR BPF_B OR BPF_ABS) (ip_base + 9) a;
         a = bpf_asm_jump (BPF_JMP OR BPF_JEQ OR BPF_K) IPPROTO_UDP CF_BPF_ASM_FALLTHROUGH drop_label a;
         a = bpf_asm_stmt (BPF_LD OR BPF_H OR BPF_ABS) (ip_base + 6) a;
         a = bpf_asm_jump (BPF_JMP OR BPF_JSET OR BPF_K) 0x1fff drop_label CF_BPF_ASM_FALLTHROUGH a;
         a = bpf_asm_stmt (BPF_LDX OR BPF_B OR BPF_MSH) ip_base a;
         a = bpf_asm_check_two_ports (ip_base + CF_BPF_UDP_SRC_PORT_OFF) port1 port2 accept_label
               CF_BPF_ASM_FALLTHROUGH a
     in bpf_asm_check_two_ports (ip_base + CF_BPF_UDP_DST_PORT_OFF) port1 port2 accept_label drop_label a)"

definition bpf_asm_ipv6_udp_ports_branch :: "u32 \<Rightarrow> u16 \<Rightarrow> u16 \<Rightarrow> int \<Rightarrow> int \<Rightarrow> bpf_asm \<Rightarrow> bpf_asm" where
  "bpf_asm_ipv6_udp_ports_branch ip_base port1 port2 accept_label drop_label a =
    (let a = bpf_asm_stmt (BPF_LD OR BPF_B OR BPF_ABS) (ip_base + 6) a;
         a = bpf_asm_jump (BPF_JMP OR BPF_JEQ OR BPF_K) IPPROTO_UDP CF_BPF_ASM_FALLTHROUGH drop_label a;
         a = bpf_asm_stmt (BPF_LDX OR BPF_IMM) (ip_base + 40) a;
         a = bpf_asm_check_two_ports CF_BPF_UDP_SRC_PORT_OFF port1 port2 accept_label CF_BPF_ASM_FALLTHROUGH a
     in bpf_asm_check_two_ports CF_BPF_UDP_DST_PORT_OFF port1 port2 accept_label drop_label a)"

definition bpf_asm_ipv4_tcp_ports_branch :: "u32 \<Rightarrow> u16 \<Rightarrow> u16 \<Rightarrow> int \<Rightarrow> int \<Rightarrow> bpf_asm \<Rightarrow> bpf_asm" where
  "bpf_asm_ipv4_tcp_ports_branch ip_base port1 port2 accept_label mismatch_label a =
    (let a = bpf_asm_stmt (BPF_LD OR BPF_B OR BPF_ABS) (ip_base + 9) a;
         a = bpf_asm_jump (BPF_JMP OR BPF_JEQ OR BPF_K) IPPROTO_TCP CF_BPF_ASM_FALLTHROUGH mismatch_label a;
         a = bpf_asm_stmt (BPF_LD OR BPF_H OR BPF_ABS) (ip_base + 6) a;
         a = bpf_asm_jump (BPF_JMP OR BPF_JSET OR BPF_K) 0x1fff mismatch_label CF_BPF_ASM_FALLTHROUGH a;
         a = bpf_asm_stmt (BPF_LDX OR BPF_B OR BPF_MSH) ip_base a;
         a = bpf_asm_check_two_ports (ip_base + CF_BPF_TCP_SRC_PORT_OFF) port1 port2 accept_label
               CF_BPF_ASM_FALLTHROUGH a
     in bpf_asm_check_two_ports (ip_base + CF_BPF_TCP_DST_PORT_OFF) port1 port2 accept_label mismatch_label a)"

definition bpf_asm_ipv6_tcp_ports_branch :: "u32 \<Rightarrow> u16 \<Rightarrow> u16 \<Rightarrow> int \<Rightarrow> int \<Rightarrow> bpf_asm \<Rightarrow> bpf_asm" where
  "bpf_asm_ipv6_tcp_ports_branch ip_base port1 port2 accept_label mismatch_label a =
    (let a = bpf_asm_stmt (BPF_LD OR BPF_B OR BPF_ABS) (ip_base + 6) a;
         a = bpf_asm_jump (BPF_JMP OR BPF_JEQ OR BPF_K) IPPROTO_TCP CF_BPF_ASM_FALLTHROUGH mismatch_label a;
         a = bpf_asm_stmt (BPF_LDX OR BPF_IMM) (ip_base + 40) a;
         a = bpf_asm_check_two_ports CF_BPF_TCP_SRC_PORT_OFF port1 port2 accept_label CF_BPF_ASM_FALLTHROUGH a
     in bpf_asm_check_two_ports CF_BPF_TCP_DST_PORT_OFF port1 port2 accept_label mismatch_label a)"

section \<open>The filter programs\<close>

abbreviation (input) ETH_P_8021Q :: u32 where "ETH_P_8021Q \<equiv> 0x8100"
abbreviation (input) ETH_P_IP :: u32 where "ETH_P_IP \<equiv> 0x0800"
abbreviation (input) ETH_P_IPV6 :: u32 where "ETH_P_IPV6 \<equiv> 0x86DD"

definition copy_out :: "nat \<Rightarrow> bpf_asm \<Rightarrow> int \<times> sock_filter list option" where
  "copy_out max_insns a =
    (case bpf_asm_finish a of (rc, a) \<Rightarrow>
       if rc \<noteq> 0 then (- 1, None)
       else if length (a_insns a) > max_insns then (- 1, None)
       else (int (length (a_insns a)), Some (a_insns a)))"

abbreviation (input) DNS_PORT :: u16 where "DNS_PORT \<equiv> 53"
abbreviation (input) DNS_LBL_VLAN :: int where "DNS_LBL_VLAN \<equiv> 0"
abbreviation (input) DNS_LBL_IP4_14 :: int where "DNS_LBL_IP4_14 \<equiv> 1"
abbreviation (input) DNS_LBL_TCP4_14 :: int where "DNS_LBL_TCP4_14 \<equiv> 2"
abbreviation (input) DNS_LBL_IP6_14 :: int where "DNS_LBL_IP6_14 \<equiv> 3"
abbreviation (input) DNS_LBL_TCP6_14 :: int where "DNS_LBL_TCP6_14 \<equiv> 4"
abbreviation (input) DNS_LBL_IP4_18 :: int where "DNS_LBL_IP4_18 \<equiv> 5"
abbreviation (input) DNS_LBL_TCP4_18 :: int where "DNS_LBL_TCP4_18 \<equiv> 6"
abbreviation (input) DNS_LBL_IP6_18 :: int where "DNS_LBL_IP6_18 \<equiv> 7"
abbreviation (input) DNS_LBL_TCP6_18 :: int where "DNS_LBL_TCP6_18 \<equiv> 8"
abbreviation (input) DNS_LBL_ACCEPT :: int where "DNS_LBL_ACCEPT \<equiv> 9"
abbreviation (input) DNS_LBL_DROP :: int where "DNS_LBL_DROP \<equiv> 10"

text \<open>The calls of \<open>build_dns_bpf_filter\<close> up to \<open>bpf_asm_finish\<close>.\<close>

definition dns_asm :: bpf_asm where
  "dns_asm =
    (let a = bpf_asm_init;
         a = bpf_asm_stmt (BPF_LD OR BPF_H OR BPF_ABS) 12 a;
         a = bpf_asm_jump (BPF_JMP OR BPF_JEQ OR BPF_K) ETH_P_8021Q DNS_LBL_VLAN CF_BPF_ASM_FALLTHROUGH a;
         a = bpf_asm_jump (BPF_JMP OR BPF_JEQ OR BPF_K) ETH_P_IP DNS_LBL_IP4_14 CF_BPF_ASM_FALLTHROUGH a;
         a = bpf_asm_jump (BPF_JMP OR BPF_JEQ OR BPF_K) ETH_P_IPV6 DNS_LBL_IP6_14 DNS_LBL_DROP a;
         a = bpf_asm_label DNS_LBL_VLAN a;
         a = bpf_asm_stmt (BPF_LD OR BPF_H OR BPF_ABS) 16 a;
         a = bpf_asm_jump (BPF_JMP OR BPF_JEQ OR BPF_K) ETH_P_IP DNS_LBL_IP4_18 CF_BPF_ASM_FALLTHROUGH a;
         a = bpf_asm_jump (BPF_JMP OR BPF_JEQ OR BPF_K) ETH_P_IPV6 DNS_LBL_IP6_18 DNS_LBL_DROP a;
         a = bpf_asm_label DNS_LBL_IP4_14 a;
         a = bpf_asm_ipv4_udp_ports_branch 14 DNS_PORT DNS_PORT DNS_LBL_ACCEPT DNS_LBL_TCP4_14 a;
         a = bpf_asm_label DNS_LBL_TCP4_14 a;
         a = bpf_asm_ipv4_tcp_ports_branch 14 DNS_PORT DNS_PORT DNS_LBL_ACCEPT DNS_LBL_DROP a;
         a = bpf_asm_label DNS_LBL_IP6_14 a;
         a = bpf_asm_ipv6_udp_ports_branch 14 DNS_PORT DNS_PORT DNS_LBL_ACCEPT DNS_LBL_TCP6_14 a;
         a = bpf_asm_label DNS_LBL_TCP6_14 a;
         a = bpf_asm_ipv6_tcp_ports_branch 14 DNS_PORT DNS_PORT DNS_LBL_ACCEPT DNS_LBL_DROP a;
         a = bpf_asm_label DNS_LBL_IP4_18 a;
         a = bpf_asm_ipv4_udp_ports_branch 18 DNS_PORT DNS_PORT DNS_LBL_ACCEPT DNS_LBL_TCP4_18 a;
         a = bpf_asm_label DNS_LBL_TCP4_18 a;
         a = bpf_asm_ipv4_tcp_ports_branch 18 DNS_PORT DNS_PORT DNS_LBL_ACCEPT DNS_LBL_DROP a;
         a = bpf_asm_label DNS_LBL_IP6_18 a;
         a = bpf_asm_ipv6_udp_ports_branch 18 DNS_PORT DNS_PORT DNS_LBL_ACCEPT DNS_LBL_TCP6_18 a;
         a = bpf_asm_label DNS_LBL_TCP6_18 a;
         a = bpf_asm_ipv6_tcp_ports_branch 18 DNS_PORT DNS_PORT DNS_LBL_ACCEPT DNS_LBL_DROP a;
         a = bpf_asm_label DNS_LBL_ACCEPT a;
         a = bpf_asm_stmt (BPF_RET OR BPF_K) (- 1) a;
         a = bpf_asm_label DNS_LBL_DROP a
     in bpf_asm_stmt (BPF_RET OR BPF_K) 0 a)"

definition build_dns_bpf_filter :: "nat \<Rightarrow> int \<times> sock_filter list option" where
  "build_dns_bpf_filter max_insns = copy_out max_insns dns_asm"

text \<open>The program, its length as an \<open>unsigned short\<close> and the return value.\<close>

definition build_dns_bpf_filter_config :: "nat \<Rightarrow> int \<times> (sock_filter list \<times> u16) option" where
  "build_dns_bpf_filter_config max_insns =
    (case build_dns_bpf_filter max_insns of
       (n, out) \<Rightarrow> if n < 0 then (- 1, None) else (n, Some (the out, of_int n)))"

abbreviation (input) BPF_LBL_VLAN :: int where "BPF_LBL_VLAN \<equiv> 0"
abbreviation (input) BPF_LBL_IP4_14 :: int where "BPF_LBL_IP4_14 \<equiv> 1"
abbreviation (input) BPF_LBL_IP6_14 :: int where "BPF_LBL_IP6_14 \<equiv> 2"
abbreviation (input) BPF_LBL_IP4_18 :: int where "BPF_LBL_IP4_18 \<equiv> 3"
abbreviation (input) BPF_LBL_IP6_18 :: int where "BPF_LBL_IP6_18 \<equiv> 4"
abbreviation (input) BPF_LBL_ACCEPT :: int where "BPF_LBL_ACCEPT \<equiv> 5"
abbreviation (input) BPF_LBL_DROP :: int where "BPF_LBL_DROP \<equiv> 6"
abbreviation (input) DHCPV4_PORT_A :: u16 where "DHCPV4_PORT_A \<equiv> 67"
abbreviation (input) DHCPV4_PORT_B :: u16 where "DHCPV4_PORT_B \<equiv> 68"
abbreviation (input) DHCPV6_PORT_A :: u16 where "DHCPV6_PORT_A \<equiv> 546"
abbreviation (input) DHCPV6_PORT_B :: u16 where "DHCPV6_PORT_B \<equiv> 547"

text \<open>The calls of \<open>build_dhcp_bpf_filter\<close> up to \<open>bpf_asm_finish\<close>.\<close>

definition dhcp_asm :: bpf_asm where
  "dhcp_asm =
    (let a = bpf_asm_init;
         a = bpf_asm_stmt (BPF_LD OR BPF_H OR BPF_ABS) 12 a;
         a = bpf_asm_jump (BPF_JMP OR BPF_JEQ OR BPF_K) ETH_P_8021Q BPF_LBL_VLAN CF_BPF_ASM_FALLTHROUGH a;
         a = bpf_asm_jump (BPF_JMP OR BPF_JEQ OR BPF_K) ETH_P_IP BPF_LBL_IP4_14 CF_BPF_ASM_FALLTHROUGH a;
         a = bpf_asm_jump (BPF_JMP OR BPF_JEQ OR BPF_K) ETH_P_IPV6 BPF_LBL_IP6_14 BPF_LBL_DROP a;
         a = bpf_asm_label BPF_LBL_VLAN a;
         a = bpf_asm_stmt (BPF_LD OR BPF_H OR BPF_ABS) 16 a;
         a = bpf_asm_jump (BPF_JMP OR BPF_JEQ OR BPF_K) ETH_P_IP BPF_LBL_IP4_18 CF_BPF_ASM_FALLTHROUGH a;
         a = bpf_asm_jump (BPF_JMP OR BPF_JEQ OR BPF_K) ETH_P_IPV6 BPF_LBL_IP6_18 BPF_LBL_DROP a;
         a = bpf_asm_label BPF_LBL_IP4_14 a;
         a = bpf_asm_ipv4_udp_ports_branch 14 DHCPV4_PORT_A DHCPV4_PORT_B BPF_LBL_ACCEPT BPF_LBL_DROP a;
         a = bpf_asm_label BPF_LBL_IP6_14 a;
         a = bpf_asm_ipv6_udp_ports_branch 14 DHCPV6_PORT_A DHCPV6_PORT_B BPF_LBL_ACCEPT BPF_LBL_DROP a;
         a = bpf_asm_label BPF_LBL_IP4_18 a;
         a = bpf_asm_ipv4_udp_ports_branch 18 DHCPV4_PORT_A DHCPV4_PORT_B BPF_LBL_ACCEPT BPF_LBL_DROP a;
         a = bpf_asm_label BPF_LBL_IP6_18 a;
         a = bpf_asm_ipv6_udp_ports_branch 18 DHCPV6_PORT_A DHCPV6_PORT_B BPF_LBL_ACCEPT BPF_LBL_DROP a;
         a = bpf_asm_label BPF_LBL_ACCEPT a;
         a = bpf_asm_stmt (BPF_RET OR BPF_K) (- 1) a;
         a = bpf_asm_label BPF_LBL_DROP a
     in bpf_asm_stmt (BPF_RET OR BPF_K) 0 a)"

definition build_dhcp_bpf_filter :: "nat \<Rightarrow> int \<times> sock_filter list option" where
  "build_dhcp_bpf_filter max_insns = copy_out max_insns dhcp_asm"

section \<open>The interpreter\<close>

text \<open>A load of one, two or four bytes at an unsigned 32-bit offset, \<open>None\<close> past the end; the
  bound is computed as the code does, with wrap-around.\<close>

definition ld_u8 :: "bytes \<Rightarrow> u32 \<Rightarrow> u32 option" where
  "ld_u8 pkt k = (if k + 1 > of_nat (length pkt) then None else map_option ucast (rd pkt (unat k)))"

definition ld_u16 :: "bytes \<Rightarrow> u32 \<Rightarrow> u32 option" where
  "ld_u16 pkt k =
    (if k + 2 > of_nat (length pkt) then None
     else do { x \<leftarrow> rd pkt (unat k); y \<leftarrow> rd pkt (unat (k + 1)); Some (push_bit 8 (ucast x) OR ucast y) })"

definition ld_u32 :: "bytes \<Rightarrow> u32 \<Rightarrow> u32 option" where
  "ld_u32 pkt k =
    (if k + 4 > of_nat (length pkt) then None
     else do { w \<leftarrow> rd pkt (unat k); x \<leftarrow> rd pkt (unat (k + 1)); y \<leftarrow> rd pkt (unat (k + 2));
               z \<leftarrow> rd pkt (unat (k + 3));
               Some (push_bit 24 (ucast w) OR push_bit 16 (ucast x) OR push_bit 8 (ucast y) OR ucast z) })"

text \<open>One instruction: the value of a return, or the next \<open>pc\<close>, \<open>A\<close> and \<open>X\<close>.\<close>

definition load_a :: "u32 option \<Rightarrow> int \<Rightarrow> u32 \<Rightarrow> u32 + (int \<times> u32 \<times> u32)" where
  "load_a v pc X = (case v of None \<Rightarrow> Inl 0 | Some v \<Rightarrow> Inr (pc + 1, v, X))"

definition bpf_step :: "sock_filter \<Rightarrow> bytes \<Rightarrow> int \<Rightarrow> u32 \<Rightarrow> u32 \<Rightarrow> u32 + (int \<times> u32 \<times> u32)" where
  "bpf_step ins pkt pc A X =
    (let k = sf_k ins; c = sf_code ins in
     if c = BPF_LD OR BPF_B OR BPF_ABS then load_a (ld_u8 pkt k) pc X
     else if c = BPF_LD OR BPF_H OR BPF_ABS then load_a (ld_u16 pkt k) pc X
     else if c = BPF_LD OR BPF_W OR BPF_ABS then load_a (ld_u32 pkt k) pc X
     else if c = BPF_LD OR BPF_B OR BPF_IND then load_a (ld_u8 pkt (X + k)) pc X
     else if c = BPF_LD OR BPF_H OR BPF_IND then load_a (ld_u16 pkt (X + k)) pc X
     else if c = BPF_LD OR BPF_W OR BPF_IND then load_a (ld_u32 pkt (X + k)) pc X
     else if c = BPF_LD OR BPF_IMM then Inr (pc + 1, k, X)
     else if c = BPF_LDX OR BPF_IMM then Inr (pc + 1, A, k)
     else if c = BPF_LDX OR BPF_B OR BPF_MSH then
       (case ld_u8 pkt k of None \<Rightarrow> Inl 0 | Some v \<Rightarrow> Inr (pc + 1, A, 4 * (v AND 0x0f)))
     else if c = BPF_JMP OR BPF_JA then Inr (pc + sint k + 1, A, X)
     else if c = BPF_JMP OR BPF_JEQ OR BPF_K then
       Inr (pc + uint (if A = k then sf_jt ins else sf_jf ins) + 1, A, X)
     else if c = BPF_JMP OR BPF_JSET OR BPF_K then
       Inr (pc + uint (if A AND k \<noteq> 0 then sf_jt ins else sf_jf ins) + 1, A, X)
     else if c = BPF_RET OR BPF_K then Inl k
     else Inl 0)"

partial_function (option) bpf_loop :: "sock_filter list \<Rightarrow> bytes \<Rightarrow> int \<Rightarrow> u32 \<Rightarrow> u32 \<Rightarrow> u32 option" where
  "bpf_loop prog pkt pc A X =
    (if pc \<ge> 0 \<and> pc < int (length prog) then
       (case bpf_step (prog ! nat pc) pkt pc A X of
          Inl r \<Rightarrow> Some r
        | Inr (pc', A', X') \<Rightarrow> bpf_loop prog pkt pc' A' X')
     else Some 0)"

declare bpf_loop.simps [code]

definition bpf_run :: "sock_filter list \<Rightarrow> bytes \<Rightarrow> u32 option" where
  "bpf_run prog pkt = bpf_loop prog pkt 0 0 0"

section \<open>The assembler resolves every label\<close>

text \<open>A jump that was resolved: the target is reached from the next instruction.\<close>

definition target_of :: "sock_filter list \<Rightarrow> nat \<Rightarrow> bool \<Rightarrow> int" where
  "target_of insns i is_jt = int i + 1 + uint (if is_jt then sf_jt (insns ! i) else sf_jf (insns ! i))"

lemma set_target_length [simp]: "length (set_target i j d insns) = length insns"
  by (simp add: set_target_def)

lemma target_of_set:
  assumes "i < length insns"
  shows "target_of (set_target i j d insns) i' j' =
    (if i = i' \<and> j = j' then int i + 1 + uint d else target_of insns i' j')"
  using assms by (cases "i = i'") (auto simp: set_target_def target_of_def)

lemma small_delta: "0 \<le> d \<Longrightarrow> d \<le> 255 \<Longrightarrow> uint (of_int d :: byte) = d"
  by (simp add: unsigned_of_int take_bit_int_eq_self)

lemma finish_loop_length: "finish_loop lp fs insns = (rc, insns') \<Longrightarrow> length insns' = length insns"
  by (induction lp fs insns rule: finish_loop.induct) (auto simp: Let_def split: if_splits)

lemma finish_loop_other:
  "finish_loop lp fs insns = (rc, insns') \<Longrightarrow> \<forall>f \<in> set fs. fst f < length insns \<Longrightarrow>
   (i, j) \<notin> set (map (\<lambda>(i, j, l). (i, j)) fs) \<Longrightarrow> target_of insns' i j = target_of insns i j"
proof (induction lp fs insns rule: finish_loop.induct)
  case (2 lp i' j' l fs insns)
  show ?case
  proof (cases "finish_loop lp ((i', j', l) # fs) insns = (- 1, insns)")
    case True
    then show ?thesis using "2.prems"(1) by simp
  next
    case False
    let ?insns = "set_target i' j' (of_int (lp ! nat l - (int i' + 1))) insns"
    from False have g: "\<not> (l < 0 \<or> l \<ge> 32)" "\<not> lp ! nat l < 0"
      "\<not> (lp ! nat l - (int i' + 1) < 0 \<or> lp ! nat l - (int i' + 1) > 255)"
      by (auto simp: Let_def split: if_splits)
    then have "finish_loop lp fs ?insns = (rc, insns')" using "2.prems"(1) by (simp add: Let_def)
    moreover have "i' < length insns" "\<not> (i' = i \<and> j' = j)" using "2.prems"(2,3) by auto
    then have "target_of ?insns i j = target_of insns i j" by (simp only: target_of_set if_False)
    ultimately show ?thesis
      using "2.IH" [OF g(1) refl g(2) refl g(3)] "2.prems"(2,3) by simp
  qed
qed auto

lemma finish_loop_resolves:
  assumes "finish_loop lp fs insns = (0, insns')" "\<forall>f \<in> set fs. fst f < length insns"
    "distinct (map (\<lambda>(i, j, l). (i, j)) fs)" "(i, j, l) \<in> set fs"
  shows "target_of insns' i j = lp ! nat l \<and> 0 \<le> l \<and> l < 32"
  using assms
proof (induction lp fs insns rule: finish_loop.induct)
  case (2 lp i' j' l' fs insns)
  let ?d = "lp ! nat l' - (int i' + 1)" and ?insns = "set_target i' j' (of_int (lp ! nat l' - (int i' + 1))) insns"
  from 2(2) have g: "0 \<le> l'" "l' < 32" "0 \<le> lp ! nat l'" "0 \<le> ?d" "?d \<le> 255"
    and rest: "finish_loop lp fs ?insns = (0, insns')"
    by (auto simp: Let_def split: if_splits)
  show ?case
  proof (cases "(i, j, l) \<in> set fs")
    case True
    then show ?thesis using "2.IH" [OF _ refl _ refl _ rest] g 2(3,4) by auto
  next
    case False
    with 2(5) have eq: "i = i'" "j = j'" "l = l'" by auto
    have "target_of insns' i j = target_of ?insns i j"
      using finish_loop_other [OF rest] 2(3,4) eq by (auto simp: image_iff)
    also have "\<dots> = lp ! nat l"
      using 2(3) eq small_delta [OF g(4,5)] by (subst target_of_set) auto
    finally show ?thesis using g eq by simp
  qed
qed auto

text \<open>What the client can build: any sequence of the three emitting calls.\<close>

inductive assembled :: "bpf_asm \<Rightarrow> bool" where
  start: "assembled bpf_asm_init"
| label: "assembled a \<Longrightarrow> assembled (bpf_asm_label l a)"
| stmt: "assembled a \<Longrightarrow> assembled (bpf_asm_stmt code k a)"
| jump: "assembled a \<Longrightarrow> assembled (bpf_asm_jump code k jt jf a)"

definition asm_ok :: "bpf_asm \<Rightarrow> bool" where
  "asm_ok a \<longleftrightarrow> length (a_insns a) \<le> 96 \<and> length (a_fixups a) \<le> 96 \<and> length (a_label_pos a) = 32 \<and>
    (\<forall>f \<in> set (a_fixups a). fst f < length (a_insns a)) \<and>
    distinct (map (\<lambda>(i, j, l). (i, j)) (a_fixups a))"

lemma fixup_fresh:
  "\<forall>f \<in> set fs. fst f < (n :: nat) \<Longrightarrow> (n, j) \<notin> (\<lambda>(i, j, l). (i, j)) ` set fs"
  by (induction fs) auto

lemma asm_ok_jump:
  assumes "asm_ok a"
  shows "asm_ok (bpf_asm_jump code k jt jf a)"
proof -
  have "\<forall>f \<in> set (a_fixups a). fst f < Suc (length (a_insns a))"
    using assms by (auto simp: asm_ok_def intro: less_SucI)
  then show ?thesis
    using assms fixup_fresh [of "a_fixups a" "length (a_insns a)"]
    by (auto simp: asm_ok_def bpf_asm_jump_def Let_def)
qed

lemma assembled_ok: "assembled a \<Longrightarrow> asm_ok a"
proof (induction rule: assembled.induct)
  case (stmt a code k)
  then show ?case by (auto simp: asm_ok_def bpf_asm_stmt_def intro: less_SucI)
next
  case (jump a code k jt jf)
  then show ?case by (simp add: asm_ok_jump)
qed (simp_all add: asm_ok_def bpf_asm_init_def bpf_asm_label_def)

section \<open>Property\<close>

text \<open>The assembler resolves labels: for any sequence of emitting calls on a fresh assembler, if
  \<open>bpf_asm_finish\<close> succeeds then every recorded branch jumps from its instruction to the position
  where its label was placed, and the number of instructions, at most 96, is unchanged.\<close>

theorem asm_finish_resolves:
  assumes "assembled a" "bpf_asm_finish a = (0, a')" "(i, is_jt, label) \<in> set (a_fixups a)"
  shows "target_of (a_insns a') i is_jt = a_label_pos a ! nat label \<and> 0 \<le> label \<and> label < 32 \<and>
    length (a_insns a') = length (a_insns a) \<and> length (a_insns a') \<le> 96"
proof -
  have ok: "asm_ok a" by (rule assembled_ok [OF assms(1)])
  obtain insns where f: "finish_loop (a_label_pos a) (a_fixups a) (a_insns a) = (0, insns)" "a_insns a' = insns"
    using assms(2) by (auto simp: bpf_asm_finish_def split: if_splits prod.splits)
  show ?thesis
    using finish_loop_resolves [OF f(1) _ _ assms(3)] finish_loop_length [OF f(1)] ok f(2)
    by (simp add: asm_ok_def)
qed

theorem asm_finish_resolves_witness:
  "target_of (a_insns (snd (bpf_asm_finish
     (bpf_asm_label 0 (bpf_asm_stmt 0x06 0 (bpf_asm_jump 0x15 53 0 (- 1) bpf_asm_init)))))) 0 True = 2"
proof -
  let ?a = "bpf_asm_label 0 (bpf_asm_stmt 0x06 0 (bpf_asm_jump 0x15 53 0 (- 1) bpf_asm_init))"
  have "assembled ?a" by (intro assembled.intros)
  moreover have "bpf_asm_finish ?a = (0, snd (bpf_asm_finish ?a))" "(0, True, 0) \<in> set (a_fixups ?a)"
    "a_label_pos ?a ! nat 0 = 2"
    by (simp_all add: bpf_asm_label_def bpf_asm_stmt_def bpf_asm_jump_def bpf_asm_init_def bpf_asm_finish_def Let_def)
  ultimately show ?thesis using asm_finish_resolves [of ?a _ 0 True 0] by metis
qed

end
