(* ===== verification/Bpf_Filters.thy ===== *)
theory Bpf_Filters
  imports Bpf
begin

text \<open>
  What the two filter programs accept: rules for running a block of instructions, the verdict of
  the branch primitives at any place of a program, and the verdict of the DNS and DHCP programs on
  every frame, stated over the bytes of the frame.
\<close>

unbundle bit_operations_syntax

section \<open>Running a block of instructions\<close>

abbreviation (input) ins :: "u16 \<Rightarrow> byte \<Rightarrow> byte \<Rightarrow> u32 \<Rightarrow> sock_filter" where
  "ins c t f k \<equiv> \<lparr>sf_code = c, sf_jt = t, sf_jf = f, sf_k = k\<rparr>"

definition code_at :: "sock_filter list \<Rightarrow> nat \<Rightarrow> sock_filter list \<Rightarrow> bool" where
  "code_at prog pc is \<longleftrightarrow> pc + length is \<le> length prog \<and> take (length is) (drop pc prog) = is"

lemma loop_at:
  assumes "code_at prog pc is" "i < length is"
  shows "bpf_loop prog pkt (int pc + int i) A X =
    (case bpf_step (is ! i) pkt (int pc + int i) A X of
       Inl r \<Rightarrow> Some r | Inr (pc', A', X') \<Rightarrow> bpf_loop prog pkt pc' A' X')"
proof -
  have "prog ! (pc + i) = is ! i" using assms by (metis code_at_def nth_drop nth_take add_leD1)
  moreover have "nat (int pc + int i) = pc + i" "pc + i < length prog" using assms by (auto simp: code_at_def)
  ultimately show ?thesis by (subst bpf_loop.simps) auto
qed

text \<open>One rule per instruction of the filters; \<open>j\<close> is the address, \<open>t\<close> and \<open>f\<close> the targets.\<close>

lemma at_jeq:
  assumes "code_at prog pc is" "i < length is" "is ! i = ins 0x15 jt jf k" "j = int pc + int i"
    "t = j + uint jt + 1" "f = j + uint jf + 1"
  shows "bpf_loop prog pkt j A X = (if A = k then bpf_loop prog pkt t A X else bpf_loop prog pkt f A X)"
  using loop_at [OF assms(1,2), of pkt A X] assms(3-) by (simp add: bpf_step_def)

lemma at_jset:
  assumes "code_at prog pc is" "i < length is" "is ! i = ins 0x45 jt jf k" "j = int pc + int i"
    "t = j + uint jt + 1" "f = j + uint jf + 1"
  shows "bpf_loop prog pkt j A X = (if A AND k \<noteq> 0 then bpf_loop prog pkt t A X else bpf_loop prog pkt f A X)"
  using loop_at [OF assms(1,2), of pkt A X] assms(3-) by (simp add: bpf_step_def)

lemma at_ldh_ind:
  assumes "code_at prog pc is" "i < length is" "is ! i = ins 0x48 jt jf k" "j = int pc + int i" "f = j + 1"
  shows "bpf_loop prog pkt j A X =
    (case ld_u16 pkt (X + k) of None \<Rightarrow> Some 0 | Some v \<Rightarrow> bpf_loop prog pkt f v X)"
  using loop_at [OF assms(1,2), of pkt A X] assms(3-) by (simp add: bpf_step_def load_a_def split: option.splits)

lemma at_ldh_abs:
  assumes "code_at prog pc is" "i < length is" "is ! i = ins 0x28 jt jf k" "j = int pc + int i" "f = j + 1"
  shows "bpf_loop prog pkt j A X =
    (case ld_u16 pkt k of None \<Rightarrow> Some 0 | Some v \<Rightarrow> bpf_loop prog pkt f v X)"
  using loop_at [OF assms(1,2), of pkt A X] assms(3-) by (simp add: bpf_step_def load_a_def split: option.splits)

lemma at_ldb_abs:
  assumes "code_at prog pc is" "i < length is" "is ! i = ins 0x30 jt jf k" "j = int pc + int i" "f = j + 1"
  shows "bpf_loop prog pkt j A X =
    (case ld_u8 pkt k of None \<Rightarrow> Some 0 | Some v \<Rightarrow> bpf_loop prog pkt f v X)"
  using loop_at [OF assms(1,2), of pkt A X] assms(3-) by (simp add: bpf_step_def load_a_def split: option.splits)

lemma at_msh:
  assumes "code_at prog pc is" "i < length is" "is ! i = ins 0xb1 jt jf k" "j = int pc + int i" "f = j + 1"
  shows "bpf_loop prog pkt j A X =
    (case ld_u8 pkt k of None \<Rightarrow> Some 0 | Some v \<Rightarrow> bpf_loop prog pkt f A (4 * (v AND 0x0f)))"
  using loop_at [OF assms(1,2), of pkt A X] assms(3-) by (simp add: bpf_step_def split: option.splits)

lemma at_ldx_imm:
  assumes "code_at prog pc is" "i < length is" "is ! i = ins 0x01 jt jf k" "j = int pc + int i" "f = j + 1"
  shows "bpf_loop prog pkt j A X = bpf_loop prog pkt f A k"
  using loop_at [OF assms(1,2), of pkt A X] assms(3-) by (simp add: bpf_step_def)

text \<open>Where a program returns a fixed value whatever the registers hold.\<close>

definition returns :: "sock_filter list \<Rightarrow> bytes \<Rightarrow> int \<Rightarrow> u32 \<Rightarrow> bool" where
  "returns prog pkt pc v \<longleftrightarrow> (\<forall>A X. bpf_loop prog pkt pc A X = Some v)"

lemma returns_ret: "code_at prog pc [ins (BPF_RET OR BPF_K) t f k] \<Longrightarrow> returns prog pkt (int pc) k"
  using loop_at [of prog pc "[ins (BPF_RET OR BPF_K) t f k]" 0] by (simp add: returns_def bpf_step_def)

section \<open>The verdict of a branch\<close>

text \<open>The two ports of a transport header at \<open>off\<close>; \<open>miss\<close> is what follows a mismatch.\<close>

definition ports_verdict :: "bytes \<Rightarrow> u32 \<Rightarrow> u32 \<Rightarrow> u32 \<Rightarrow> u32 \<Rightarrow> u32" where
  "ports_verdict pkt off p1 p2 miss =
    (case ld_u16 pkt off of None \<Rightarrow> 0 | Some s \<Rightarrow>
     if s = p1 \<or> s = p2 then - 1
     else case ld_u16 pkt (off + 2) of None \<Rightarrow> 0 | Some d \<Rightarrow> if d = p1 \<or> d = p2 then - 1 else miss)"

definition v4_verdict :: "bytes \<Rightarrow> u32 \<Rightarrow> u32 \<Rightarrow> u32 \<Rightarrow> u32 \<Rightarrow> u32 \<Rightarrow> u32" where
  "v4_verdict pkt base proto p1 p2 miss =
    (case ld_u8 pkt (base + 9) of None \<Rightarrow> 0 | Some p \<Rightarrow>
     if p \<noteq> proto then miss
     else case ld_u16 pkt (base + 6) of None \<Rightarrow> 0 | Some f \<Rightarrow>
     if f AND 0x1fff \<noteq> 0 then miss
     else case ld_u8 pkt base of None \<Rightarrow> 0 | Some b \<Rightarrow>
     ports_verdict pkt (4 * (b AND 0x0f) + base) p1 p2 miss)"

definition v6_verdict :: "bytes \<Rightarrow> u32 \<Rightarrow> u32 \<Rightarrow> u32 \<Rightarrow> u32 \<Rightarrow> u32 \<Rightarrow> u32" where
  "v6_verdict pkt base proto p1 p2 miss =
    (case ld_u8 pkt (base + 6) of None \<Rightarrow> 0 | Some p \<Rightarrow>
     if p \<noteq> proto then miss else ports_verdict pkt (base + 40) p1 p2 miss)"

text \<open>The six instructions of the two port checks, with register \<open>X\<close> holding \<open>x\<close>.\<close>

lemma run_ports:
  assumes code: "code_at prog pc [ins 0x48 0 0 k, ins 0x15 a1 0 p1, ins 0x15 a2 0 p2,
      ins 0x48 0 0 (k + 2), ins 0x15 a3 0 p1, ins 0x15 a4 d p2]"
    and acc: "returns prog pkt acc (- 1)" and mis: "returns prog pkt mis miss"
    and t: "acc = int pc + uint a1 + 2" "acc = int pc + uint a2 + 3" "acc = int pc + uint a3 + 5"
      "acc = int pc + uint a4 + 6" "mis = int pc + uint d + 6"
  shows "bpf_loop prog pkt (int pc) A x = Some (ports_verdict pkt (x + k) p1 p2 miss)"
proof -
  note jeq = at_jeq [OF code, where pkt = pkt and X = x] and ldh = at_ldh_ind [OF code, where pkt = pkt and X = x]
  have s0: "bpf_loop prog pkt (int pc) A x =
      (case ld_u16 pkt (x + k) of None \<Rightarrow> Some 0 | Some v \<Rightarrow> bpf_loop prog pkt (int pc + 1) v x)"
    by (rule ldh [of 0]) simp_all
  have s1: "bpf_loop prog pkt (int pc + 1) v x = (if v = p1 then Some (- 1) else bpf_loop prog pkt (int pc + 2) v x)" for v
    using jeq [of 1 a1 0 p1 "int pc + 1" acc "int pc + 2" v] acc t(1) by (simp add: returns_def)
  have s2: "bpf_loop prog pkt (int pc + 2) v x = (if v = p2 then Some (- 1) else bpf_loop prog pkt (int pc + 3) v x)" for v
    using jeq [of 2 a2 0 p2 "int pc + 2" acc "int pc + 3" v] acc t(2) by (simp add: returns_def)
  have s3: "bpf_loop prog pkt (int pc + 3) v x =
      (case ld_u16 pkt (x + (k + 2)) of None \<Rightarrow> Some 0 | Some v \<Rightarrow> bpf_loop prog pkt (int pc + 4) v x)" for v
    by (rule ldh [of 3]) simp_all
  have s4: "bpf_loop prog pkt (int pc + 4) v x = (if v = p1 then Some (- 1) else bpf_loop prog pkt (int pc + 5) v x)" for v
    using jeq [of 4 a3 0 p1 "int pc + 4" acc "int pc + 5" v] acc t(3) by (simp add: returns_def)
  have s5: "bpf_loop prog pkt (int pc + 5) v x = (if v = p2 then Some (- 1) else Some miss)" for v
    using jeq [of 5 a4 d p2 "int pc + 5" acc mis v] acc mis t(4,5) by (simp add: returns_def)
  show ?thesis
    by (simp add: s0 s1 s2 s3 s4 s5 ports_verdict_def add.assoc split: option.splits)
qed

lemma code_at_drop:
  assumes "code_at prog pc (is @ js)"
  shows "code_at prog pc is" "code_at prog (pc + length is) js"
proof -
  have "take (length is + length js) (drop pc prog) = is @ js" "pc + length is + length js \<le> length prog"
    using assms by (simp_all add: code_at_def)
  moreover from this have "take (length is) (drop pc prog) = is"
    by (metis append_eq_conv_conj le_add1 min.absorb1 take_take)
  ultimately show "code_at prog pc is" "code_at prog (pc + length is) js"
    by (auto simp: code_at_def take_add add.commute)
qed

text \<open>The branches of the two IP versions: where the code sits and where its jumps lead decide the
  verdict.\<close>

lemma run_v4:
  assumes code: "code_at prog pc ([ins 0x30 0 0 (base + 9), ins 0x15 0 d1 proto, ins 0x28 0 0 (base + 6),
      ins 0x45 d2 0 0x1fff, ins 0xb1 0 0 base] @ [ins 0x48 0 0 base, ins 0x15 a1 0 p1, ins 0x15 a2 0 p2,
      ins 0x48 0 0 (base + 2), ins 0x15 a3 0 p1, ins 0x15 a4 d p2])"
    and acc: "returns prog pkt acc (- 1)" and mis: "returns prog pkt mis miss"
    and t: "acc = int pc + uint a1 + 7" "acc = int pc + uint a2 + 8" "acc = int pc + uint a3 + 10"
      "acc = int pc + uint a4 + 11" "mis = int pc + uint d + 11" "mis = int pc + uint d1 + 2" "mis = int pc + uint d2 + 4"
  shows "returns prog pkt (int pc) (v4_verdict pkt base proto p1 p2 miss)"
proof -
  note c = code_at_drop [OF code]
  have ports: "bpf_loop prog pkt (int pc + 5) A x = Some (ports_verdict pkt (x + base) p1 p2 miss)" for A x
    using run_ports [OF c(2) acc mis, of A x] t by (simp add: add.commute)
  have s0: "bpf_loop prog pkt (int pc) A x =
      (case ld_u8 pkt (base + 9) of None \<Rightarrow> Some 0 | Some v \<Rightarrow> bpf_loop prog pkt (int pc + 1) v x)" for A x
    by (rule at_ldb_abs [OF c(1), of 0]) simp_all
  have s1: "bpf_loop prog pkt (int pc + 1) v x = (if v = proto then bpf_loop prog pkt (int pc + 2) v x else Some miss)" for v x
    using at_jeq [OF c(1), of 1 0 d1 proto "int pc + 1" "int pc + 2" mis pkt v x] mis t(6) by (simp add: returns_def)
  have s2: "bpf_loop prog pkt (int pc + 2) v x =
      (case ld_u16 pkt (base + 6) of None \<Rightarrow> Some 0 | Some v \<Rightarrow> bpf_loop prog pkt (int pc + 3) v x)" for v x
    by (rule at_ldh_abs [OF c(1), of 2]) simp_all
  have s3: "bpf_loop prog pkt (int pc + 3) v x = (if v AND 0x1fff \<noteq> 0 then Some miss else bpf_loop prog pkt (int pc + 4) v x)" for v x
    using at_jset [OF c(1), of 3 d2 0 "0x1fff" "int pc + 3" mis "int pc + 4" pkt v x] mis t(7) by (simp add: returns_def)
  have s4: "bpf_loop prog pkt (int pc + 4) v x =
      (case ld_u8 pkt base of None \<Rightarrow> Some 0 | Some b \<Rightarrow> bpf_loop prog pkt (int pc + 5) v (4 * (b AND 0x0f)))" for v x
    by (rule at_msh [OF c(1), of 4]) simp_all
  show ?thesis
    by (simp add: returns_def s0 s1 s2 s3 s4 ports v4_verdict_def split: option.splits)
qed

lemma run_v6:
  assumes code: "code_at prog pc ([ins 0x30 0 0 (base + 6), ins 0x15 0 d1 proto, ins 0x01 0 0 (base + 40)] @
      [ins 0x48 0 0 0, ins 0x15 a1 0 p1, ins 0x15 a2 0 p2,
      ins 0x48 0 0 (0 + 2), ins 0x15 a3 0 p1, ins 0x15 a4 d p2])"
    and acc: "returns prog pkt acc (- 1)" and mis: "returns prog pkt mis miss"
    and t: "acc = int pc + uint a1 + 5" "acc = int pc + uint a2 + 6" "acc = int pc + uint a3 + 8"
      "acc = int pc + uint a4 + 9" "mis = int pc + uint d + 9" "mis = int pc + uint d1 + 2"
  shows "returns prog pkt (int pc) (v6_verdict pkt base proto p1 p2 miss)"
proof -
  note c = code_at_drop [OF code]
  have ports: "bpf_loop prog pkt (int pc + 3) A x = Some (ports_verdict pkt x p1 p2 miss)" for A x
    using run_ports [OF c(2) acc mis, of A x] t by (simp add: add.commute)
  have s0: "bpf_loop prog pkt (int pc) A x =
      (case ld_u8 pkt (base + 6) of None \<Rightarrow> Some 0 | Some v \<Rightarrow> bpf_loop prog pkt (int pc + 1) v x)" for A x
    by (rule at_ldb_abs [OF c(1), of 0]) simp_all
  have s1: "bpf_loop prog pkt (int pc + 1) v x = (if v = proto then bpf_loop prog pkt (int pc + 2) v x else Some miss)" for v x
    using at_jeq [OF c(1), of 1 0 d1 proto "int pc + 1" "int pc + 2" mis pkt v x] mis t(6) by (simp add: returns_def)
  have s2: "bpf_loop prog pkt (int pc + 2) v x = bpf_loop prog pkt (int pc + 3) v (base + 40)" for v x
    by (rule at_ldx_imm [OF c(1), of 2]) simp_all
  show ?thesis
    by (simp add: returns_def s0 s1 s2 ports v6_verdict_def split: option.splits)
qed

section \<open>The two programs\<close>

lemma dns_finish: "map_prod id (\<lambda>a. length (a_insns a)) (bpf_asm_finish dns_asm) = (0, 89)" by code_simp

lemma dhcp_finish: "map_prod id (\<lambda>a. length (a_insns a)) (bpf_asm_finish dhcp_asm) = (0, 49)" by code_simp

definition dns_prog :: "sock_filter list" where
  "dns_prog = a_insns (snd (bpf_asm_finish dns_asm))"

definition dhcp_prog :: "sock_filter list" where
  "dhcp_prog = a_insns (snd (bpf_asm_finish dhcp_asm))"

lemma dns_udp4_14:
  "code_at dns_prog 7 ([ins 0x30 0 0 (14 + 9), ins 0x15 0 9 17, ins 0x28 0 0 (14 + 6),
      ins 0x45 7 0 0x1fff, ins 0xb1 0 0 14] @ [ins 0x48 0 0 14, ins 0x15 73 0 53, ins 0x15 72 0 53,
      ins 0x48 0 0 (14 + 2), ins 0x15 70 0 53, ins 0x15 69 0 53])"
  by code_simp

lemma dns_tcp4_14:
  "code_at dns_prog 18 ([ins 0x30 0 0 (14 + 9), ins 0x15 0 68 6, ins 0x28 0 0 (14 + 6),
      ins 0x45 66 0 0x1fff, ins 0xb1 0 0 14] @ [ins 0x48 0 0 14, ins 0x15 62 0 53, ins 0x15 61 0 53,
      ins 0x48 0 0 (14 + 2), ins 0x15 59 0 53, ins 0x15 58 59 53])"
  by code_simp

lemma dns_udp6_14:
  "code_at dns_prog 29 ([ins 0x30 0 0 (14 + 6), ins 0x15 0 7 17, ins 0x01 0 0 (14 + 40)] @
      [ins 0x48 0 0 0, ins 0x15 53 0 53, ins 0x15 52 0 53,
      ins 0x48 0 0 (0 + 2), ins 0x15 50 0 53, ins 0x15 49 0 53])"
  by code_simp

lemma dns_tcp6_14:
  "code_at dns_prog 38 ([ins 0x30 0 0 (14 + 6), ins 0x15 0 48 6, ins 0x01 0 0 (14 + 40)] @
      [ins 0x48 0 0 0, ins 0x15 44 0 53, ins 0x15 43 0 53,
      ins 0x48 0 0 (0 + 2), ins 0x15 41 0 53, ins 0x15 40 41 53])"
  by code_simp

lemma dns_udp4_18:
  "code_at dns_prog 47 ([ins 0x30 0 0 (18 + 9), ins 0x15 0 9 17, ins 0x28 0 0 (18 + 6),
      ins 0x45 7 0 0x1fff, ins 0xb1 0 0 18] @ [ins 0x48 0 0 18, ins 0x15 33 0 53, ins 0x15 32 0 53,
      ins 0x48 0 0 (18 + 2), ins 0x15 30 0 53, ins 0x15 29 0 53])"
  by code_simp

lemma dns_tcp4_18:
  "code_at dns_prog 58 ([ins 0x30 0 0 (18 + 9), ins 0x15 0 28 6, ins 0x28 0 0 (18 + 6),
      ins 0x45 26 0 0x1fff, ins 0xb1 0 0 18] @ [ins 0x48 0 0 18, ins 0x15 22 0 53, ins 0x15 21 0 53,
      ins 0x48 0 0 (18 + 2), ins 0x15 19 0 53, ins 0x15 18 19 53])"
  by code_simp

lemma dns_udp6_18:
  "code_at dns_prog 69 ([ins 0x30 0 0 (18 + 6), ins 0x15 0 7 17, ins 0x01 0 0 (18 + 40)] @
      [ins 0x48 0 0 0, ins 0x15 13 0 53, ins 0x15 12 0 53,
      ins 0x48 0 0 (0 + 2), ins 0x15 10 0 53, ins 0x15 9 0 53])"
  by code_simp

lemma dns_tcp6_18:
  "code_at dns_prog 78 ([ins 0x30 0 0 (18 + 6), ins 0x15 0 8 6, ins 0x01 0 0 (18 + 40)] @
      [ins 0x48 0 0 0, ins 0x15 4 0 53, ins 0x15 3 0 53,
      ins 0x48 0 0 (0 + 2), ins 0x15 1 0 53, ins 0x15 0 1 53])"
  by code_simp

lemma dns_head:
  "code_at dns_prog 0 [ins 0x28 0 0 12, ins 0x15 2 0 0x8100, ins 0x15 4 0 0x800, ins 0x15 25 84 0x86dd,
     ins 0x28 0 0 16, ins 0x15 41 0 0x800, ins 0x15 62 81 0x86dd]"
  "code_at dns_prog 87 [ins (BPF_RET OR BPF_K) 0 0 (- 1)]" "code_at dns_prog 88 [ins (BPF_RET OR BPF_K) 0 0 0]"
  by code_simp+

lemma dhcp_udp4_14:
  "code_at dhcp_prog 7 ([ins 0x30 0 0 (14 + 9), ins 0x15 0 39 17, ins 0x28 0 0 (14 + 6),
      ins 0x45 37 0 0x1fff, ins 0xb1 0 0 14] @ [ins 0x48 0 0 14, ins 0x15 33 0 67, ins 0x15 32 0 68,
      ins 0x48 0 0 (14 + 2), ins 0x15 30 0 67, ins 0x15 29 30 68])"
  by code_simp

lemma dhcp_udp6_14:
  "code_at dhcp_prog 18 ([ins 0x30 0 0 (14 + 6), ins 0x15 0 28 17, ins 0x01 0 0 (14 + 40)] @
      [ins 0x48 0 0 0, ins 0x15 24 0 546, ins 0x15 23 0 547,
      ins 0x48 0 0 (0 + 2), ins 0x15 21 0 546, ins 0x15 20 21 547])"
  by code_simp

lemma dhcp_udp4_18:
  "code_at dhcp_prog 27 ([ins 0x30 0 0 (18 + 9), ins 0x15 0 19 17, ins 0x28 0 0 (18 + 6),
      ins 0x45 17 0 0x1fff, ins 0xb1 0 0 18] @ [ins 0x48 0 0 18, ins 0x15 13 0 67, ins 0x15 12 0 68,
      ins 0x48 0 0 (18 + 2), ins 0x15 10 0 67, ins 0x15 9 10 68])"
  by code_simp

lemma dhcp_udp6_18:
  "code_at dhcp_prog 38 ([ins 0x30 0 0 (18 + 6), ins 0x15 0 8 17, ins 0x01 0 0 (18 + 40)] @
      [ins 0x48 0 0 0, ins 0x15 4 0 546, ins 0x15 3 0 547,
      ins 0x48 0 0 (0 + 2), ins 0x15 1 0 546, ins 0x15 0 1 547])"
  by code_simp

lemma dhcp_head:
  "code_at dhcp_prog 0 [ins 0x28 0 0 12, ins 0x15 2 0 0x8100, ins 0x15 4 0 0x800, ins 0x15 14 44 0x86dd,
     ins 0x28 0 0 16, ins 0x15 21 0 0x800, ins 0x15 31 41 0x86dd]"
  "code_at dhcp_prog 47 [ins (BPF_RET OR BPF_K) 0 0 (- 1)]" "code_at dhcp_prog 48 [ins (BPF_RET OR BPF_K) 0 0 0]"
  by code_simp+

text \<open>The dispatch on the EtherType, past one 802.1Q tag.\<close>

lemma run_head:
  assumes code: "code_at prog 0 [ins 0x28 0 0 12, ins 0x15 2 0 0x8100, ins 0x15 4 0 0x800, ins 0x15 e4 d4 0x86dd,
      ins 0x28 0 0 16, ins 0x15 e5 0 0x800, ins 0x15 e6 d6 0x86dd]"
    and v: "returns prog pkt 7 r4" "returns prog pkt (uint e4 + 4) r6" "returns prog pkt (uint e5 + 6) s4"
      "returns prog pkt (uint e6 + 7) s6" "returns prog pkt (uint d4 + 4) 0" "returns prog pkt (uint d6 + 7) 0"
  shows "bpf_run prog pkt = Some
    (case ld_u16 pkt 12 of None \<Rightarrow> 0 | Some t \<Rightarrow>
     if t = 0x8100 then (case ld_u16 pkt 16 of None \<Rightarrow> 0 | Some t \<Rightarrow>
       if t = 0x800 then s4 else if t = 0x86dd then s6 else 0)
     else if t = 0x800 then r4 else if t = 0x86dd then r6 else 0)"
proof -
  note jeq = at_jeq [OF code, where pkt = pkt] and ldh = at_ldh_abs [OF code, where pkt = pkt]
  have s0: "bpf_loop prog pkt 0 A x = (case ld_u16 pkt 12 of None \<Rightarrow> Some 0 | Some v \<Rightarrow> bpf_loop prog pkt 1 v x)" for A x
    by (rule ldh [of 0]) simp_all
  have s1: "bpf_loop prog pkt 1 t x = (if t = 0x8100 then bpf_loop prog pkt 4 t x else bpf_loop prog pkt 2 t x)" for t x
    by (rule jeq [of 1 2 0 "0x8100"]) simp_all
  have s2: "bpf_loop prog pkt 2 t x = (if t = 0x800 then Some r4 else bpf_loop prog pkt 3 t x)" for t x
    using jeq [of 2 4 0 "0x800" 2 7 3 t x] v(1) by (simp add: returns_def)
  have s3: "bpf_loop prog pkt 3 t x = (if t = 0x86dd then Some r6 else Some 0)" for t x
    using jeq [of 3 e4 d4 "0x86dd" 3 "uint e4 + 4" "uint d4 + 4" t x] v(2,5) by (simp add: returns_def)
  have s4: "bpf_loop prog pkt 4 A x = (case ld_u16 pkt 16 of None \<Rightarrow> Some 0 | Some v \<Rightarrow> bpf_loop prog pkt 5 v x)" for A x
    by (rule ldh [of 4]) simp_all
  have s5: "bpf_loop prog pkt 5 t x = (if t = 0x800 then Some s4 else bpf_loop prog pkt 6 t x)" for t x
    using v(3) by (subst jeq [of 5 e5 0 "0x800" 5 "uint e5 + 6" 6]) (auto simp: returns_def)
  have s6: "bpf_loop prog pkt 6 t x = (if t = 0x86dd then Some s6 else Some 0)" for t x
    using jeq [of 6 e6 d6 "0x86dd" 6 "uint e6 + 7" "uint d6 + 7" t x] v(4,6) by (simp add: returns_def)
  show ?thesis
    by (simp add: bpf_run_def s0 s1 s2 s3 s4 s5 s6 split: option.splits)
qed

section \<open>What the filters are to accept\<close>

text \<open>A 16-bit field of the frame in network order.\<close>

definition frame_u16 :: "bytes \<Rightarrow> nat \<Rightarrow> u32 option" where
  "frame_u16 pkt i = do { x \<leftarrow> rd pkt i; y \<leftarrow> rd pkt (i + 1); Some (push_bit 8 (ucast x) OR ucast y) }"

text \<open>One of the ports of the transport header at \<open>off\<close> is in \<open>P\<close>.\<close>

definition ports_in :: "bytes \<Rightarrow> nat \<Rightarrow> u32 set \<Rightarrow> bool" where
  "ports_in pkt off P \<longleftrightarrow>
    (case frame_u16 pkt off of None \<Rightarrow> False | Some s \<Rightarrow>
      s \<in> P \<or> (case frame_u16 pkt (off + 2) of None \<Rightarrow> False | Some d \<Rightarrow> d \<in> P))"

definition ipv4_ports :: "bytes \<Rightarrow> nat \<Rightarrow> byte \<Rightarrow> u32 set \<Rightarrow> bool" where
  "ipv4_ports pkt base proto P \<longleftrightarrow> rd pkt (base + 9) = Some proto \<and>
    (case frame_u16 pkt (base + 6) of None \<Rightarrow> False | Some f \<Rightarrow> f AND 0x1fff = 0) \<and>
    (case rd pkt base of None \<Rightarrow> False | Some b \<Rightarrow> ports_in pkt (base + 4 * unat (b AND 0x0f)) P)"

definition ipv6_ports :: "bytes \<Rightarrow> nat \<Rightarrow> byte \<Rightarrow> u32 set \<Rightarrow> bool" where
  "ipv6_ports pkt base proto P \<longleftrightarrow> rd pkt (base + 6) = Some proto \<and> ports_in pkt (base + 40) P"

text \<open>The EtherType and the start of the network header, past at most one 802.1Q tag.\<close>

definition network_at :: "bytes \<Rightarrow> (u32 \<times> nat) option" where
  "network_at pkt =
    (case frame_u16 pkt 12 of None \<Rightarrow> None | Some t \<Rightarrow>
     if t = 0x8100 then map_option (\<lambda>t. (t, 18)) (frame_u16 pkt 16) else Some (t, 14))"

definition dns_frame :: "bytes \<Rightarrow> bool" where
  "dns_frame pkt \<longleftrightarrow>
    (case network_at pkt of None \<Rightarrow> False | Some (t, base) \<Rightarrow>
      t = 0x0800 \<and> (ipv4_ports pkt base 17 {53} \<or> ipv4_ports pkt base 6 {53}) \<or>
      t = 0x86DD \<and> (ipv6_ports pkt base 17 {53} \<or> ipv6_ports pkt base 6 {53}))"

definition dhcp_frame :: "bytes \<Rightarrow> bool" where
  "dhcp_frame pkt \<longleftrightarrow>
    (case network_at pkt of None \<Rightarrow> False | Some (t, base) \<Rightarrow>
      t = 0x0800 \<and> ipv4_ports pkt base 17 {67, 68} \<or> t = 0x86DD \<and> ipv6_ports pkt base 17 {546, 547})"

lemma word_bound:
  fixes k c :: u32
  assumes "length pkt < 2 ^ 32" "unat k + unat c < 2 ^ 32"
  shows "k + c > of_nat (length pkt) \<longleftrightarrow> unat k + unat c > length pkt" "unat (k + c) = unat k + unat c"
proof -
  show u: "unat (k + c) = unat k + unat c" using assms(2) by (simp add: unat_word_ariths)
  have "unat (of_nat (length pkt) :: u32) = length pkt"
    using assms(1) by (simp add: unat_of_nat take_bit_nat_eq_self)
  then show "k + c > of_nat (length pkt) \<longleftrightarrow> unat k + unat c > length pkt"
    using u by (simp add: word_less_nat_alt)
qed

lemma ld_u8_frame:
  assumes "length pkt < 2 ^ 32" "unat k < 1000"
  shows "ld_u8 pkt k = map_option ucast (rd pkt (unat k))"
  using word_bound [OF assms(1), of k 1] assms(2) by (auto simp: ld_u8_def rd_def)

lemma ld_u16_frame:
  assumes "length pkt < 2 ^ 32" "unat k < 1000"
  shows "ld_u16 pkt k = frame_u16 pkt (unat k)"
  using word_bound [OF assms(1), of k 2] word_bound [OF assms(1), of k 1] assms(2)
  by (auto simp: ld_u16_def frame_u16_def rd_def)

text \<open>The option-valued loads of a verdict, read as a statement about the frame.\<close>

lemma ports_verdict_frame:
  assumes "length pkt < 2 ^ 32" "unat off < 900"
  shows "ports_verdict pkt off p1 p2 0 = (if ports_in pkt (unat off) {p1, p2} then - 1 else 0)"
proof -
  have "unat (off + 2) = unat off + 2" using assms(2) by (simp add: unat_word_ariths)
  then show ?thesis
    using assms ld_u16_frame [OF assms(1), of off] ld_u16_frame [OF assms(1), of "off + 2"]
    by (auto simp: ports_verdict_def ports_in_def split: option.splits)
qed

lemma ports_verdict_miss:
  "ports_verdict pkt off p1 p2 0 \<noteq> 0 \<Longrightarrow> ports_verdict pkt off p1 p2 miss = - 1"
  by (auto simp: ports_verdict_def split: option.splits if_splits)

lemma header_offset:
  fixes b :: byte and base :: u32
  assumes "unat base < 100"
  shows "unat (4 * (ucast b AND 0x0f) + base) = unat base + 4 * unat (b AND 0x0f)"
    "unat (4 * (ucast b AND 0x0f) + base) < 900"
proof -
  have c: "(ucast b AND 0x0f :: u32) = ucast (b AND 0x0f)"
    by (rule bit_word_eqI) (auto simp: bit_simps dest: bit_imp_le_length)
  have l: "unat (b AND 0x0f) \<le> 15"
    using word_and_le1 [of b "0x0f"] by (simp add: word_le_nat_alt and.commute)
  have u: "unat (ucast (b AND 0x0f) :: u32) = unat (b AND 0x0f)"
    using l by (simp add: unsigned_ucast_eq take_bit_nat_eq_self)
  show "unat (4 * (ucast b AND 0x0f) + base) = unat base + 4 * unat (b AND 0x0f)"
    using l u assms unfolding c by (simp add: unat_word_ariths)
  then show "unat (4 * (ucast b AND 0x0f) + base) < 900" using l assms by simp
qed

lemma unat_ucast_byte: "unat (ucast (x :: byte) :: u32) = unat x"
  using unsigned_less [of x, where ?'a = nat] by (simp add: unsigned_ucast_eq take_bit_nat_eq_self)

lemma ucast_byte_eq: "(ucast (x :: byte) :: u32) = ucast y \<longleftrightarrow> x = y"
  by (simp add: word_eq_iff_unsigned [where ?'a = nat] unat_ucast_byte)

lemma v4_verdict_frame:
  assumes len: "length pkt < 2 ^ 32" and base: "unat base < 100"
  shows "v4_verdict pkt base (ucast proto) p1 p2 0 = (if ipv4_ports pkt (unat base) proto {p1, p2} then - 1 else 0)"
proof -
  have u: "unat (base + 9) = unat base + 9" "unat (base + 6) = unat base + 6"
    using base by (simp_all add: unat_word_ariths)
  have l: "ld_u8 pkt (base + 9) = map_option ucast (rd pkt (unat base + 9))"
    "ld_u16 pkt (base + 6) = frame_u16 pkt (unat base + 6)" "ld_u8 pkt base = map_option ucast (rd pkt (unat base))"
    using ld_u8_frame [OF len] ld_u16_frame [OF len] base u by simp_all
  have p: "ports_verdict pkt (4 * (ucast b AND 0x0f) + base) p1 p2 0 =
      (if ports_in pkt (unat base + 4 * unat (b AND 0x0f)) {p1, p2} then - 1 else 0)" for b :: byte
    using ports_verdict_frame [OF len header_offset(2) [OF base, of b], of p1 p2]
    unfolding header_offset(1) [OF base] .
  show ?thesis
    unfolding v4_verdict_def ipv4_ports_def l
    by (auto simp: ucast_byte_eq p split: option.splits)
qed

lemma v6_verdict_frame:
  assumes len: "length pkt < 2 ^ 32" and base: "unat base < 100"
  shows "v6_verdict pkt base (ucast proto) p1 p2 0 = (if ipv6_ports pkt (unat base) proto {p1, p2} then - 1 else 0)"
proof -
  have u: "unat (base + 40) = unat base + 40" "unat (base + 6) = unat base + 6"
    using base by (simp_all add: unat_word_ariths)
  have l: "ld_u8 pkt (base + 6) = map_option ucast (rd pkt (unat base + 6))"
    using ld_u8_frame [OF len] base u by simp
  have p: "ports_verdict pkt (base + 40) p1 p2 0 = (if ports_in pkt (unat base + 40) {p1, p2} then - 1 else 0)"
    using ports_verdict_frame [OF len, of "base + 40"] u base by simp
  show ?thesis
    unfolding v6_verdict_def ipv6_ports_def l p
    by (auto simp: ucast_byte_eq split: option.splits)
qed

text \<open>Chaining a second transport behind a mismatch accepts either.\<close>

lemma v4_chain:
  assumes "proto \<noteq> proto'" "v4_verdict pkt base proto' p1 p2 0 \<in> {0, - 1}"
  shows "v4_verdict pkt base proto p1 p2 (v4_verdict pkt base proto' p1 p2 0) =
    (if v4_verdict pkt base proto p1 p2 0 \<noteq> 0 \<or> v4_verdict pkt base proto' p1 p2 0 \<noteq> 0 then - 1 else 0)"
  using assms by (auto simp: v4_verdict_def ports_verdict_def split: option.splits if_splits)

lemma v6_chain:
  assumes "proto \<noteq> proto'" "v6_verdict pkt base proto' p1 p2 0 \<in> {0, - 1}"
  shows "v6_verdict pkt base proto p1 p2 (v6_verdict pkt base proto' p1 p2 0) =
    (if v6_verdict pkt base proto p1 p2 0 \<noteq> 0 \<or> v6_verdict pkt base proto' p1 p2 0 \<noteq> 0 then - 1 else 0)"
  using assms by (auto simp: v6_verdict_def ports_verdict_def split: option.splits if_splits)

lemma v4_dns:
  assumes "length pkt < 2 ^ 32" "unat base < 100"
  shows "v4_verdict pkt base 17 p1 p2 (v4_verdict pkt base 6 p1 p2 0) =
    (if ipv4_ports pkt (unat base) 17 {p1, p2} \<or> ipv4_ports pkt (unat base) 6 {p1, p2} then - 1 else 0)"
  using v4_verdict_frame [OF assms, of 17 p1 p2] v4_verdict_frame [OF assms, of 6 p1 p2]
  by (subst v4_chain) auto

lemma v6_dns:
  assumes "length pkt < 2 ^ 32" "unat base < 100"
  shows "v6_verdict pkt base 17 p1 p2 (v6_verdict pkt base 6 p1 p2 0) =
    (if ipv6_ports pkt (unat base) 17 {p1, p2} \<or> ipv6_ports pkt (unat base) 6 {p1, p2} then - 1 else 0)"
  using v6_verdict_frame [OF assms, of 17 p1 p2] v6_verdict_frame [OF assms, of 6 p1 p2]
  by (subst v6_chain) auto

text \<open>The verdicts of the eight and four blocks, from the back of the programs to the front.\<close>

lemma dns_run:
  "bpf_run dns_prog pkt = Some
    (case ld_u16 pkt 12 of None \<Rightarrow> 0 | Some t \<Rightarrow>
     if t = 0x8100 then (case ld_u16 pkt 16 of None \<Rightarrow> 0 | Some t \<Rightarrow>
       if t = 0x800 then v4_verdict pkt 18 17 53 53 (v4_verdict pkt 18 6 53 53 0)
       else if t = 0x86dd then v6_verdict pkt 18 17 53 53 (v6_verdict pkt 18 6 53 53 0) else 0)
     else if t = 0x800 then v4_verdict pkt 14 17 53 53 (v4_verdict pkt 14 6 53 53 0)
     else if t = 0x86dd then v6_verdict pkt 14 17 53 53 (v6_verdict pkt 14 6 53 53 0) else 0)"
proof -
  note acc = returns_ret [OF dns_head(2), of pkt] and drop = returns_ret [OF dns_head(3), of pkt]
  have t18_6: "returns dns_prog pkt (int 78) (v6_verdict pkt 18 6 53 53 0)"
    by (rule run_v6 [OF dns_tcp6_18 acc drop]) simp_all
  have t18_4: "returns dns_prog pkt (int 58) (v4_verdict pkt 18 6 53 53 0)"
    by (rule run_v4 [OF dns_tcp4_18 acc drop]) simp_all
  have t14_6: "returns dns_prog pkt (int 38) (v6_verdict pkt 14 6 53 53 0)"
    by (rule run_v6 [OF dns_tcp6_14 acc drop]) simp_all
  have t14_4: "returns dns_prog pkt (int 18) (v4_verdict pkt 14 6 53 53 0)"
    by (rule run_v4 [OF dns_tcp4_14 acc drop]) simp_all
  have u18_6: "returns dns_prog pkt (int 69) (v6_verdict pkt 18 17 53 53 (v6_verdict pkt 18 6 53 53 0))"
    by (rule run_v6 [OF dns_udp6_18 acc t18_6]) simp_all
  have u18_4: "returns dns_prog pkt (int 47) (v4_verdict pkt 18 17 53 53 (v4_verdict pkt 18 6 53 53 0))"
    by (rule run_v4 [OF dns_udp4_18 acc t18_4]) simp_all
  have u14_6: "returns dns_prog pkt (int 29) (v6_verdict pkt 14 17 53 53 (v6_verdict pkt 14 6 53 53 0))"
    by (rule run_v6 [OF dns_udp6_14 acc t14_6]) simp_all
  have u14_4: "returns dns_prog pkt (int 7) (v4_verdict pkt 14 17 53 53 (v4_verdict pkt 14 6 53 53 0))"
    by (rule run_v4 [OF dns_udp4_14 acc t14_4]) simp_all
  show ?thesis
    by (rule run_head [OF dns_head(1)]) (use drop u14_4 u14_6 u18_4 u18_6 in simp_all)
qed

lemma dhcp_run:
  "bpf_run dhcp_prog pkt = Some
    (case ld_u16 pkt 12 of None \<Rightarrow> 0 | Some t \<Rightarrow>
     if t = 0x8100 then (case ld_u16 pkt 16 of None \<Rightarrow> 0 | Some t \<Rightarrow>
       if t = 0x800 then v4_verdict pkt 18 17 67 68 0
       else if t = 0x86dd then v6_verdict pkt 18 17 546 547 0 else 0)
     else if t = 0x800 then v4_verdict pkt 14 17 67 68 0
     else if t = 0x86dd then v6_verdict pkt 14 17 546 547 0 else 0)"
proof -
  note acc = returns_ret [OF dhcp_head(2), of pkt] and drop = returns_ret [OF dhcp_head(3), of pkt]
  have u18_6: "returns dhcp_prog pkt (int 38) (v6_verdict pkt 18 17 546 547 0)"
    by (rule run_v6 [OF dhcp_udp6_18 acc drop]) simp_all
  have u18_4: "returns dhcp_prog pkt (int 27) (v4_verdict pkt 18 17 67 68 0)"
    by (rule run_v4 [OF dhcp_udp4_18 acc drop]) simp_all
  have u14_6: "returns dhcp_prog pkt (int 18) (v6_verdict pkt 14 17 546 547 0)"
    by (rule run_v6 [OF dhcp_udp6_14 acc drop]) simp_all
  have u14_4: "returns dhcp_prog pkt (int 7) (v4_verdict pkt 14 17 67 68 0)"
    by (rule run_v4 [OF dhcp_udp4_14 acc drop]) simp_all
  show ?thesis
    by (rule run_head [OF dhcp_head(1)]) (use drop u14_4 u14_6 u18_4 u18_6 in simp_all)
qed

lemma build_dns_prog: "build_dns_bpf_filter 128 = (89, Some dns_prog)"
  using dns_finish by (auto simp: build_dns_bpf_filter_def copy_out_def dns_prog_def split: prod.splits)

lemma build_dhcp_prog: "build_dhcp_bpf_filter 96 = (49, Some dhcp_prog)"
  using dhcp_finish by (auto simp: build_dhcp_bpf_filter_def copy_out_def dhcp_prog_def split: prod.splits)

lemma network_cases:
  assumes "length pkt < 2 ^ 32"
  shows "ld_u16 pkt 12 = frame_u16 pkt 12" "ld_u16 pkt 16 = frame_u16 pkt 16"
  using ld_u16_frame [OF assms, of 12] ld_u16_frame [OF assms, of 16] by simp_all

text \<open>A query from port 40000 to port 53 in an untagged IPv4 UDP frame, cut after the ports.\<close>

definition dns_sample :: bytes where
  "dns_sample = [0xaa, 0xaa, 0xaa, 0xaa, 0xaa, 0xaa, 0xbb, 0xbb, 0xbb, 0xbb, 0xbb, 0xbb] @ [8, 0] @ [0x45, 0, 0, 32, 0, 1, 0x40, 0, 64, 17, 0, 0] @
    [198, 51, 100, 10, 198, 51, 100, 20] @ [0x9c, 0x40, 0, 53]"

section \<open>Properties\<close>

text \<open>C29. The DNS socket filter does what it is meant to: the assembler yields a program of 89
  instructions for the 128 that the caller provides, and the program returns on every frame,
  accepting (all ones) exactly the frames, untagged or behind one 802.1Q tag, that carry IPv4 (not
  a later fragment, any header length) or IPv6 with UDP or TCP directly inside and source or
  destination port 53.\<close>

theorem dns_filter_verdict:
  assumes "length pkt < 2 ^ 32"
  shows "\<exists>prog. build_dns_bpf_filter 128 = (89, Some prog) \<and>
    bpf_run prog pkt = Some (if dns_frame pkt then - 1 else 0)"
  using v4_dns [OF assms, of 14 53 53] v4_dns [OF assms, of 18 53 53]
    v6_dns [OF assms, of 14 53 53] v6_dns [OF assms, of 18 53 53]
  by (simp add: build_dns_prog dns_run network_cases [OF assms] dns_frame_def network_at_def split: option.splits)

theorem dns_filter_verdict_witness:
  "\<exists>prog. build_dns_bpf_filter 128 = (89, Some prog) \<and> bpf_run prog dns_sample = Some (- 1)"
proof -
  have "dns_frame dns_sample" "length dns_sample = 38" by code_simp+
  then show ?thesis using dns_filter_verdict [of dns_sample] by simp
qed

text \<open>The DHCP socket filter accepts exactly the frames, untagged or behind one 802.1Q tag, that
  carry IPv4 UDP with port 67 or 68 (not a later fragment) or IPv6 UDP with port 546 or 547.\<close>

theorem dhcp_filter_verdict:
  assumes "length pkt < 2 ^ 32"
  shows "\<exists>prog. build_dhcp_bpf_filter 96 = (49, Some prog) \<and>
    bpf_run prog pkt = Some (if dhcp_frame pkt then - 1 else 0)"
  using v4_verdict_frame [OF assms, of 14 17 67 68] v4_verdict_frame [OF assms, of 18 17 67 68]
    v6_verdict_frame [OF assms, of 14 17 546 547] v6_verdict_frame [OF assms, of 18 17 546 547]
  by (simp add: build_dhcp_prog dhcp_run network_cases [OF assms] dhcp_frame_def network_at_def split: option.splits)

theorem dhcp_filter_verdict_witness:
  "\<exists>prog. build_dhcp_bpf_filter 96 = (49, Some prog) \<and> bpf_run prog dns_sample = Some 0"
proof -
  have "\<not> dhcp_frame dns_sample" "length dns_sample = 38" by code_simp+
  then show ?thesis using dhcp_filter_verdict [of dns_sample] by simp
qed

end
