(* ===== verification/Dns_Stage.thy ===== *)
theory Dns_Stage
  imports Decap Dns Event_Id Queue_Policy Correlation Leg_Classify Sampling
begin

text \<open>
  The DNS event stage, \<^verbatim>\<open>sources/cloudflow-source-dns/src/dns_stage.c\<close>: one captured frame is
  decapsulated, parsed, classified and handed to the correlator; every decided transaction comes
  back through the emit callback, which samples, builds and queues an event. The name tables of
  \<^verbatim>\<open>libs/cloudflow-core/cloudflow.c\<close> are here too.

  The heap contexts passed through the correlator are objects of an explicit store: \<open>sg_heap\<close> maps
  the addresses in use to contexts, an access to or a release of any other address is \<open>None\<close>.
  The correlator records the calls of its callback; the stage runs the callback on the calls
  recorded by an operation as soon as the operation returns. (The callback reads nothing of the
  correlator but its counters, whose increments it publishes: the sum of what the callbacks of an
  operation publish is what the last one publishes here.)

  Every call has an environment: the protobuf encoder, the memory layout of a queue element, the
  clock, the other side of the queue as seen by the blocking policy, the outcome of each
  allocation and the stale bytes of the hash buffer. The counters are not NULL: the constructor
  refuses a configuration without them.
\<close>

unbundle bit_operations_syntax

section \<open>Names\<close>

datatype cf_protocol = CF_PROTO_UNKNOWN | CF_PROTO_DHCPV4 | CF_PROTO_DHCPV6 | CF_PROTO_DNS | CF_PROTO_SYSLOG

datatype cf_stream_id = CF_STREAM_NONE | CF_STREAM_DHCPV4 | CF_STREAM_DHCPV6 | CF_STREAM_DNS | CF_STREAM_SYSLOG

definition cf_protocol_name :: "cf_protocol \<Rightarrow> string" where
  "cf_protocol_name protocol =
    (case protocol of CF_PROTO_DHCPV4 \<Rightarrow> ''dhcpv4'' | CF_PROTO_DHCPV6 \<Rightarrow> ''dhcpv6''
     | CF_PROTO_DNS \<Rightarrow> ''dns'' | CF_PROTO_SYSLOG \<Rightarrow> ''syslog'' | CF_PROTO_UNKNOWN \<Rightarrow> ''unknown'')"

definition cf_stream_name :: "cf_stream_id \<Rightarrow> string option" where
  "cf_stream_name stream_id =
    (case stream_id of CF_STREAM_DHCPV4 \<Rightarrow> Some ''cloudflow:v1:wire:dhcpv4''
     | CF_STREAM_DHCPV6 \<Rightarrow> Some ''cloudflow:v1:wire:dhcpv6'' | CF_STREAM_DNS \<Rightarrow> Some ''cloudflow:v1:wire:dns''
     | CF_STREAM_SYSLOG \<Rightarrow> Some ''cloudflow:v1:wire:syslog'' | CF_STREAM_NONE \<Rightarrow> None)"

section \<open>Data\<close>

abbreviation CLOUDFLOW_EVENT_MAX_SIZE :: nat where "CLOUDFLOW_EVENT_MAX_SIZE \<equiv> 8192"
abbreviation CLOUDFLOW_EVENT_TYPE_MAX :: nat where "CLOUDFLOW_EVENT_TYPE_MAX \<equiv> 64"
abbreviation DNS_STAGE_TICK_EVERY :: nat where "DNS_STAGE_TICK_EVERY \<equiv> 64"

record cf_packet_item =
  pi_observed_time :: int
  pi_packet_len :: u32
  pi_captured_len :: u32
  pi_flags :: u32
  pi_data :: bytes

record cf_event_item =
  ei_observed_time :: int
  ei_stream_id :: cf_stream_id
  ei_protocol :: cf_protocol
  ei_event_type :: string
  ei_payload :: bytes

text \<open>The normalised view of a frame; \<open>d_dns\<close> is the offset of the message in the frame.\<close>

record dns_l2l4 = decap_l3 +
  d_transport :: byte
  d_src_port :: u16
  d_dst_port :: u16
  d_udp_length :: u16
  d_udp_checksum_present :: bool
  d_tcp_flags :: byte
  d_tcp_payload_len :: u32
  d_dns :: "nat option"
  d_dns_len :: nat

record dns_wire_message = dns_message +
  m_raw_dns_payload :: bytes
  m_raw_payload_truncated :: bool

datatype transport_details = Details_Udp u32 bool | Details_Tcp u32 u32

record transport_obs =
  to_src_port :: u32
  to_dst_port :: u32
  to_ip_protocol_number :: u32
  to_details :: transport_details

datatype network_protocol = NETWORK_PROTOCOL_UNSPECIFIED | NETWORK_PROTOCOL_IPV4 | NETWORK_PROTOCOL_IPV6

record network_obs =
  no_protocol :: network_protocol
  no_src_ip :: string
  no_dst_ip :: string
  no_next_header :: u32
  no_ttl_or_hop_limit :: u32
  no_dscp :: u32
  no_ecn :: u32
  no_fragmented :: bool
  no_fragment_offset :: u32

record link_obs =
  lo_src_mac :: string
  lo_dst_mac :: string
  lo_ethertype :: u32
  lo_vlan_ids :: "u32 list"

record packet_obs =
  po_observed_time :: int
  po_link :: link_obs
  po_network :: network_obs
  po_transport :: transport_obs
  po_packet_len :: u32
  po_captured_len :: u32
  po_truncated :: bool

record dns_ctx =
  cx_msg :: dns_wire_message
  cx_pobs :: packet_obs
  cx_warnings :: "parser_warning list"
  cx_role :: dns_leg
  cx_rcode :: u32
  cx_qtype :: u32
  cx_observed_time :: int
  cx_frame :: bytes

record dns_transaction_event =
  tx_query_packet :: "packet_obs option"
  tx_query :: "dns_wire_message option"
  tx_response_packet :: "packet_obs option"
  tx_response :: "dns_wire_message option"
  tx_parser_warnings :: "parser_warning list"
  tx_role :: dns_leg
  tx_rtt_nanos :: int
  tx_rtt_valid :: bool
  tx_transaction_key :: string
  tx_client_ip :: string
  tx_client_port :: u32
  tx_server_ip :: string
  tx_service_role :: string

datatype visibility_level =
    VISIBILITY_LEVEL_UNSPECIFIED | VISIBILITY_PACKET_METADATA | VISIBILITY_HANDSHAKE_METADATA
  | VISIBILITY_CLASSIFIED_FLOW | VISIBILITY_PACKET_PAYLOAD | VISIBILITY_DECRYPTED_PAYLOAD | VISIBILITY_ENDPOINT_OBSERVED

datatype observation_confidence =
    OBSERVATION_CONFIDENCE_UNSPECIFIED | OBSERVATION_CONFIDENCE_OBSERVED | OBSERVATION_CONFIDENCE_DERIVED
  | OBSERVATION_CONFIDENCE_INFERRED

record event_envelope =
  ev_event_id :: string
  ev_schema_version :: u32
  ev_source_type :: string
  ev_source_host :: string
  ev_source_instance :: string
  ev_capture_interface :: string
  ev_observation_method :: string
  ev_observed_time :: int
  ev_ingest_time :: int
  ev_event_type :: string
  ev_visibility :: visibility_level
  ev_confidence :: observation_confidence
  ev_payload_schema :: string
  ev_stream_name :: string

record cloud_flow_event =
  ce_envelope :: event_envelope
  ce_dns_transaction :: dns_transaction_event

record cf_dns_source_stats =
  packets_skipped_total :: nat
  decode_parse_failure_total :: nat
  dns_tcp_partial_total :: nat
  dns_queries_parsed_total :: nat
  dns_responses_parsed_total :: nat
  dns_transactions_emitted_total :: nat
  dns_transactions_emitted_client_facing_total :: nat
  dns_transactions_emitted_backend_total :: nat
  dns_transactions_emitted_recursion_upstream_total :: nat
  dns_transactions_emitted_unknown_total :: nat
  dns_query_unanswered_total :: nat
  dns_response_unmatched_total :: nat
  dns_pending_drop_total :: nat
  dns_pending_evicted_collision_total :: nat
  dns_rtt_invalid_total :: nat
  dns_pending_table_depth :: nat
  dns_sampled_out_total :: nat
  protobuf_encode_failure_total :: nat
  events_oversize_dropped_total :: nat
  formatter_queue_drop_total :: nat
  formatter_queue_depth :: nat

record dns_stage_config =
  cg_source_host :: "string option"
  cg_source_instance :: "string option"
  cg_capture_interface :: "string option"
  cg_observation_method :: "string option"
  cg_on_full :: cf_queue_full_policy
  cg_capacity :: nat
  cg_query_timeout :: int
  cg_on_table_full :: on_full
  cg_local_addrs :: "cf_dns_addr_set option"
  cg_backend_addrs :: "cf_dns_addr_set option"
  cg_role_map :: "cf_dns_role_map option"
  cg_emit_policy :: cf_dns_emit_policy

text \<open>The engine with the objects it borrows and changes: the counters and the output queue.\<close>

record dns_stage =
  sg_cfg :: dns_stage_config
  sg_leg :: cf_dns_leg_config
  sg_correlator :: cf_dns_correlator
  sg_processed :: nat
  sg_synced :: cf_dns_correlator_stats
  sg_stats :: cf_dns_source_stats
  sg_out :: "cf_queue option"
  sg_heap :: "ctx \<rightharpoonup> dns_ctx"
  sg_next :: ctx

datatype alloc_site =
    At_Transport | At_Network | At_Link | At_Pobs | At_Raw_Payload | At_Ctx
  | At_Txn | At_Warnings | At_Txn_Strings | At_Env | At_Env_Strings | At_Event

record stage_env =
  se_pack :: "cloud_flow_event \<Rightarrow> bytes"
  se_item_bytes :: "cf_event_item \<Rightarrow> bytes"
  se_item_size :: nat
  se_now :: int
  se_stop :: "nat \<Rightarrow> bool"
  se_consumer :: "nat \<Rightarrow> cf_queue option \<Rightarrow> cf_queue option"
  se_alloc :: "alloc_site \<Rightarrow> bool"
  se_stale :: bytes

definition upd_stats :: "(cf_dns_source_stats \<Rightarrow> cf_dns_source_stats) \<Rightarrow> dns_stage \<Rightarrow> dns_stage" where
  "upd_stats f s = s\<lparr>sg_stats := f (sg_stats s)\<rparr>"

definition dns_dup_str :: "string option \<Rightarrow> string" where
  "dns_dup_str s = (case s of None \<Rightarrow> [] | Some t \<Rightarrow> t)"

section \<open>Observations\<close>

definition dns_build_transport :: "(alloc_site \<Rightarrow> bool) \<Rightarrow> dns_l2l4 \<Rightarrow> transport_obs option" where
  "dns_build_transport alloc d =
    (if \<not> alloc At_Transport then None
     else if d_transport d = 1 then
       Some \<lparr>to_src_port = ucast (d_src_port d), to_dst_port = ucast (d_dst_port d),
         to_ip_protocol_number = ucast (next_header d),
         to_details = Details_Tcp (ucast (d_tcp_flags d)) (d_tcp_payload_len d)\<rparr>
     else
       Some \<lparr>to_src_port = ucast (d_src_port d), to_dst_port = ucast (d_dst_port d),
         to_ip_protocol_number = 17,
         to_details = Details_Udp (ucast (d_udp_length d)) (d_udp_checksum_present d)\<rparr>)"

definition dns_build_network :: "(alloc_site \<Rightarrow> bool) \<Rightarrow> dns_l2l4 \<Rightarrow> network_obs option" where
  "dns_build_network alloc d =
    (if \<not> alloc At_Network then None
     else Some \<lparr>no_protocol = (if ip_version d = 4 then NETWORK_PROTOCOL_IPV4
         else if ip_version d = 6 then NETWORK_PROTOCOL_IPV6 else NETWORK_PROTOCOL_UNSPECIFIED),
       no_src_ip = cf_format_ip (ip_version d) (src_ip d), no_dst_ip = cf_format_ip (ip_version d) (dst_ip d),
       no_next_header = ucast (next_header d), no_ttl_or_hop_limit = ucast (ttl_or_hop_limit d),
       no_dscp = ucast (dscp d), no_ecn = ucast (ecn d), no_fragmented = fragmented d,
       no_fragment_offset = ucast (fragment_offset d)\<rparr>)"

definition dns_build_link :: "(alloc_site \<Rightarrow> bool) \<Rightarrow> dns_l2l4 \<Rightarrow> link_obs option" where
  "dns_build_link alloc d =
    (if \<not> alloc At_Link then None
     else Some \<lparr>lo_src_mac = cf_format_mac (src_mac d), lo_dst_mac = cf_format_mac (dst_mac d),
       lo_ethertype = ucast (ethertype d), lo_vlan_ids = take (vlan_count d) (vlan_ids d)\<rparr>)"

definition dns_build_pobs :: "(alloc_site \<Rightarrow> bool) \<Rightarrow> cf_packet_item \<Rightarrow> dns_l2l4 \<Rightarrow> packet_obs option" where
  "dns_build_pobs alloc pkt d =
    (if \<not> alloc At_Pobs then None
     else case (dns_build_link alloc d, dns_build_network alloc d, dns_build_transport alloc d) of
       (Some l, Some n, Some t) \<Rightarrow>
         Some \<lparr>po_observed_time = pi_observed_time pkt, po_link = l, po_network = n, po_transport = t,
           po_packet_len = pi_packet_len pkt, po_captured_len = pi_captured_len pkt,
           po_truncated = (pi_flags pkt AND 0x1 \<noteq> 0)\<rparr>
     | _ \<Rightarrow> None)"

section \<open>Decoding a frame\<close>

definition l2l4_zero :: dns_l2l4 where
  "l2l4_zero = \<lparr>src_mac = replicate 6 0, dst_mac = replicate 6 0, vlan_ids = [0, 0],
    vlan_count = 0, ethertype = 0, ip_version = 0, src_ip = replicate 16 0,
    dst_ip = replicate 16 0, next_header = 0, ttl_or_hop_limit = 0, dscp = 0, ecn = 0,
    fragmented = False, fragment_offset = 0, d_transport = 0, d_src_port = 0, d_dst_port = 0,
    d_udp_length = 0, d_udp_checksum_present = False, d_tcp_flags = 0, d_tcp_payload_len = 0,
    d_dns = None, d_dns_len = 0\<rparr>"

text \<open>The copy of the link and network block into the view.\<close>

definition copy_l3 :: "dns_l2l4 \<Rightarrow> 'a decap_l3_scheme \<Rightarrow> dns_l2l4" where
  "copy_l3 out u = out\<lparr>src_mac := src_mac u, dst_mac := dst_mac u, vlan_ids := vlan_ids u,
     vlan_count := vlan_count u, ethertype := ethertype u, ip_version := ip_version u,
     src_ip := src_ip u, dst_ip := dst_ip u, next_header := next_header u,
     ttl_or_hop_limit := ttl_or_hop_limit u, dscp := dscp u, ecn := ecn u,
     fragmented := fragmented u, fragment_offset := fragment_offset u\<rparr>"

text \<open>The outcome of a frame: its view, or the counter it adds to.\<close>

datatype decode_result = Decoded dns_l2l4 | Skipped | Tcp_Partial

definition dns_decode_view :: "bytes \<Rightarrow> decode_result option" where
  "dns_decode_view frame = do {
     (ru, u) \<leftarrow> cf_decap_udp frame;
     if ru = CF_DECAP_OK then
       Some (Decoded ((copy_l3 l2l4_zero u)\<lparr>d_transport := 0, d_src_port := u_src_port u,
         d_dst_port := u_dst_port u, d_udp_length := udp_length u,
         d_udp_checksum_present := udp_checksum_present u, d_dns := u_payload u, d_dns_len := u_payload_len u\<rparr>))
     else if ru = CF_DECAP_NOT_UDP then do {
       (rt, t) \<leftarrow> cf_decap_tcp frame;
       if rt \<noteq> CF_DECAP_OK then Some Skipped
       else if t_payload_len t < 2 then Some Skipped
       else do {
         off \<leftarrow> t_payload t;
         hi \<leftarrow> rd frame off;
         lo \<leftarrow> rd frame (off + 1);
         let declared = unat (be16 hi lo);
         let avail = t_payload_len t - 2;
         if declared > avail then Some Tcp_Partial
         else Some (Decoded ((copy_l3 l2l4_zero t)\<lparr>d_transport := 1, d_src_port := t_src_port t,
           d_dst_port := t_dst_port t, d_tcp_flags := tcp_flags t,
           d_tcp_payload_len := of_nat (t_payload_len t), d_dns := Some (off + 2), d_dns_len := declared\<rparr>)) } }
     else Some Skipped }"

definition dns_decode_frame :: "dns_stage \<Rightarrow> bytes \<Rightarrow> (int \<times> dns_l2l4 \<times> dns_stage) option" where
  "dns_decode_frame s frame = do {
     r \<leftarrow> dns_decode_view frame;
     Some (case r of
       Decoded d \<Rightarrow> (0, d, s)
     | Skipped \<Rightarrow> (1, l2l4_zero, upd_stats (\<lambda>st. st\<lparr>packets_skipped_total := packets_skipped_total st + 1\<rparr>) s)
     | Tcp_Partial \<Rightarrow> (1, l2l4_zero, upd_stats (\<lambda>st. st\<lparr>dns_tcp_partial_total := dns_tcp_partial_total st + 1\<rparr>) s)) }"

section \<open>Keys\<close>

definition canonical_byte :: "char \<Rightarrow> byte" where
  "canonical_byte ch = (let c = of_char ch :: byte in if c \<ge> 65 \<and> c \<le> 90 then c + 32 else c)"

definition dns_build_key :: "dns_l2l4 \<Rightarrow> 'a dns_message_scheme \<Rightarrow> bool \<Rightarrow> cf_dns_txn_key" where
  "dns_build_key d msg local_is_server =
    (let (server_ip, server_port, client_ip, client_port) =
       (if d_dst_port d = 53 then (dst_ip d, d_dst_port d, src_ip d, d_src_port d)
        else if d_src_port d = 53 then (src_ip d, d_src_port d, dst_ip d, d_dst_port d)
        else (dst_ip d, d_dst_port d, src_ip d, d_src_port d));
       key = \<lparr>k_transport = d_transport d, k_local_is_server = (if local_is_server then 1 else 0),
         k_ip_version = ip_version d, k_client_ip = client_ip, k_server_ip = server_ip,
         k_client_port = client_port, k_server_port = server_port,
         k_dns_id = ucast (h_id (m_header msg)), k_qtype = 0, k_qclass = 0,
         k_qname_canonical = replicate 256 0, k_qname_len = 0\<rparr>
     in case m_questions msg of
          [] \<Rightarrow> key
        | q0 # _ \<Rightarrow>
            let qn = cstr (q_qname q0);
                n = (if length qn > 256 then 256 else length qn)
            in key\<lparr>k_qtype := ucast (q_qtype q0), k_qclass := ucast (q_qclass q0),
                   k_qname_canonical := memcpy_at (replicate 256 0) 0 (map canonical_byte (take n qn)),
                   k_qname_len := of_nat n\<rparr>)"

definition dns_key_sample_hash :: "cf_dns_txn_key \<Rightarrow> u64" where
  "dns_key_sample_hash k =
    (let h = 1469598103934665603;
         qn = unat (k_qname_len k);
         qn = (if qn > 256 then 256 else qn);
         h = fnv_byte h (k_transport k);
         h = fnv_byte h (k_local_is_server k);
         h = fnv_byte h (k_ip_version k);
         h = foldl fnv_byte h (k_client_ip k);
         h = foldl fnv_byte h (k_server_ip k);
         h = fnv_u16 h (k_client_port k);
         h = fnv_u16 h (k_server_port k);
         h = fnv_u16 h (k_dns_id k);
         h = fnv_u16 h (k_qtype k);
         h = fnv_u16 h (k_qclass k)
     in foldl fnv_byte h (take qn (k_qname_canonical k)))"

definition dns_format_txn_key :: "nat \<Rightarrow> cf_dns_txn_key \<Rightarrow> string" where
  "dns_format_txn_key out_len k =
    (let qn = unat (k_qname_len k);
         qn = (if qn > 256 then 256 else qn);
         qname = cstr (map chr_of_byte (take qn (k_qname_canonical k)))
     in snprintf out_len ((if k_transport k = 1 then ''tcp'' else ''udp'') @ '' '' @
          cf_format_ip (k_ip_version k) (k_client_ip k) @ '':'' @ dec_string (unat (k_client_port k)) @ ''->'' @
          cf_format_ip (k_ip_version k) (k_server_ip k) @ '':'' @ dec_string (unat (k_server_port k)) @
          '' id='' @ dec_string (unat (k_dns_id k)) @ '' '' @ qname @ ''/'' @ dec_string (unat (k_qtype k)) @
          ''/'' @ dec_string (unat (k_qclass k))))"

end
