(* ===== verification/Dns_Stage_Run.thy ===== *)
theory Dns_Stage_Run
  imports Dns_Stage
begin

text \<open>
  The running engine of \<^verbatim>\<open>sources/cloudflow-source-dns/src/dns_stage.c\<close>: the emit callback, the
  publication of the correlator's counters, the life cycle, the processing of one frame, the
  periodic tick and the shutdown drain.
\<close>

unbundle bit_operations_syntax

section \<open>The context store\<close>

text \<open>The object a context pointer refers to; a NULL pointer is \<open>None\<close> inside.\<close>

definition deref :: "dns_stage \<Rightarrow> ctx option \<Rightarrow> dns_ctx option option" where
  "deref s p = (case p of None \<Rightarrow> Some None | Some a \<Rightarrow> map_option Some (sg_heap s a))"

definition dns_ctx_free :: "ctx option \<Rightarrow> dns_stage \<Rightarrow> dns_stage option" where
  "dns_ctx_free p s =
    (case p of None \<Rightarrow> Some s
     | Some a \<Rightarrow> if a \<in> dom (sg_heap s) then Some (s\<lparr>sg_heap := (sg_heap s)(a := None)\<rparr>) else None)"

definition free_both :: "emission \<Rightarrow> dns_stage \<Rightarrow> dns_stage option" where
  "free_both em s = do { s \<leftarrow> dns_ctx_free (em_query_ctx em) s; dns_ctx_free (em_response_ctx em) s }"

section \<open>The emit callback\<close>

definition event_type_name :: "cf_dns_txn_outcome \<Rightarrow> string" where
  "event_type_name outcome =
    (case outcome of CF_DNS_TXN_OBSERVED \<Rightarrow> ''dns.transaction.observed''
     | CF_DNS_TXN_UNANSWERED \<Rightarrow> ''dns.query.unanswered'' | CF_DNS_TXN_UNMATCHED \<Rightarrow> ''dns.response.unmatched'')"

definition emit_facts :: "emission \<Rightarrow> dns_ctx option \<Rightarrow> dns_ctx option \<Rightarrow> cf_dns_emit_facts" where
  "emit_facts em q r =
    \<lparr>ef_outcome = em_outcome em,
     ef_rcode = (case r of Some c \<Rightarrow> cx_rcode c | None \<Rightarrow> (case q of Some c \<Rightarrow> cx_rcode c | None \<Rightarrow> 0)),
     ef_qtype = (case q of Some c \<Rightarrow> cx_qtype c | None \<Rightarrow> (case r of Some c \<Rightarrow> cx_qtype c | None \<Rightarrow> 0)),
     ef_has_response = (r \<noteq> None), ef_sample_key = dns_key_sample_hash (em_key em)\<rparr>"

definition ctx_warnings :: "dns_ctx option \<Rightarrow> parser_warning list" where
  "ctx_warnings c = (case c of None \<Rightarrow> [] | Some c \<Rightarrow> cx_warnings c)"

definition service_role_of :: "dns_stage_config \<Rightarrow> dns_leg \<Rightarrow> cf_dns_txn_key \<Rightarrow> string option" where
  "service_role_of cfg role key =
    (if role \<noteq> DNS_LEG_UNKNOWN \<and> cg_role_map cfg \<noteq> None
     then cf_dns_role_lookup (cg_role_map cfg) (k_ip_version key) (k_server_ip key) else None)"

definition build_txn ::
  "stage_env \<Rightarrow> dns_stage_config \<Rightarrow> dns_leg \<Rightarrow> emission \<Rightarrow> dns_ctx option \<Rightarrow> dns_ctx option \<Rightarrow> dns_transaction_event" where
  "build_txn env cfg role em q r =
    (let key = em_key em in
     \<lparr>tx_query_packet = map_option cx_pobs q, tx_query = map_option cx_msg q,
      tx_response_packet = map_option cx_pobs r, tx_response = map_option cx_msg r,
      tx_parser_warnings = (if se_alloc env At_Warnings then ctx_warnings q @ ctx_warnings r else []),
      tx_role = role, tx_rtt_nanos = em_rtt em, tx_rtt_valid = em_rtt_valid em,
      tx_transaction_key = dns_format_txn_key 400 key,
      tx_client_ip = cf_format_ip (k_ip_version key) (k_client_ip key),
      tx_client_port = ucast (k_client_port key),
      tx_server_ip = cf_format_ip (k_ip_version key) (k_server_ip key),
      tx_service_role = dns_dup_str (service_role_of cfg role key)\<rparr>)"

definition string_bytes :: "string \<Rightarrow> bytes" where
  "string_bytes s = map of_char s"

definition build_envelope :: "stage_env \<Rightarrow> dns_stage_config \<Rightarrow> dns_ctx \<Rightarrow> string \<Rightarrow> event_envelope" where
  "build_envelope env cfg primary event_type =
    \<lparr>ev_event_id = cstr (cf_event_id (se_stale env) (map_option string_bytes (cg_source_host cfg))
       (map_option string_bytes (cg_capture_interface cfg)) (of_int (cx_observed_time primary)) (cx_frame primary)),
     ev_schema_version = 1, ev_source_type = ''dns'', ev_source_host = dns_dup_str (cg_source_host cfg),
     ev_source_instance = dns_dup_str (cg_source_instance cfg),
     ev_capture_interface = dns_dup_str (cg_capture_interface cfg),
     ev_observation_method = dns_dup_str (cg_observation_method cfg),
     ev_observed_time = cx_observed_time primary, ev_ingest_time = se_now env, ev_event_type = event_type,
     ev_visibility = VISIBILITY_PACKET_PAYLOAD, ev_confidence = OBSERVATION_CONFIDENCE_OBSERVED,
     ev_payload_schema = ''cloudflow.v1.DnsTransactionEvent'',
     ev_stream_name = dns_dup_str (cf_stream_name CF_STREAM_DNS)\<rparr>"

definition dns_clear_raw_payload :: "dns_wire_message option \<Rightarrow> dns_wire_message option" where
  "dns_clear_raw_payload m = map_option (\<lambda>m. m\<lparr>m_raw_dns_payload := [], m_raw_payload_truncated := True\<rparr>) m"

definition fit_event :: "stage_env \<Rightarrow> cloud_flow_event \<Rightarrow> cloud_flow_event" where
  "fit_event env ev =
    (if length (se_pack env ev) > CLOUDFLOW_EVENT_MAX_SIZE
     then ev\<lparr>ce_dns_transaction := (ce_dns_transaction ev)\<lparr>
       tx_query := dns_clear_raw_payload (tx_query (ce_dns_transaction ev)),
       tx_response := dns_clear_raw_payload (tx_response (ce_dns_transaction ev))\<rparr>\<rparr>
     else ev)"

definition count_emitted :: "dns_leg \<Rightarrow> cf_dns_source_stats \<Rightarrow> cf_dns_source_stats" where
  "count_emitted role st =
    (let st = st\<lparr>dns_transactions_emitted_total := dns_transactions_emitted_total st + 1\<rparr> in
     case role of
       DNS_LEG_CLIENT_FACING \<Rightarrow> st\<lparr>dns_transactions_emitted_client_facing_total :=
         dns_transactions_emitted_client_facing_total st + 1\<rparr>
     | DNS_LEG_BACKEND \<Rightarrow> st\<lparr>dns_transactions_emitted_backend_total := dns_transactions_emitted_backend_total st + 1\<rparr>
     | DNS_LEG_RECURSION_UPSTREAM \<Rightarrow> st\<lparr>dns_transactions_emitted_recursion_upstream_total :=
         dns_transactions_emitted_recursion_upstream_total st + 1\<rparr>
     | DNS_LEG_UNKNOWN \<Rightarrow> st\<lparr>dns_transactions_emitted_unknown_total := dns_transactions_emitted_unknown_total st + 1\<rparr>)"

definition push_event :: "stage_env \<Rightarrow> dns_leg \<Rightarrow> cf_event_item \<Rightarrow> dns_stage \<Rightarrow> dns_stage" where
  "push_event env role item s =
    (case cf_queue_push_policy (se_stop env) (se_consumer env) (sg_out s) (Some (se_item_bytes env item))
            (se_item_size env) (cg_on_full (sg_cfg s)) (Some (formatter_queue_drop_total (sg_stats s))) of
       (rc, out, drops) \<Rightarrow>
         upd_stats (\<lambda>st. (count_emitted role (st\<lparr>formatter_queue_drop_total := the drops\<rparr>))
             \<lparr>formatter_queue_depth := cf_queue_length out\<rparr>) (s\<lparr>sg_out := out\<rparr>))"

definition emit_event :: "stage_env \<Rightarrow> emission \<Rightarrow> dns_ctx \<Rightarrow> cloud_flow_event \<Rightarrow> dns_stage \<Rightarrow> dns_stage" where
  "emit_event env em primary ev s =
    (let ev = fit_event env ev; payload = se_pack env ev; event_type = event_type_name (em_outcome em) in
     if length payload > CLOUDFLOW_EVENT_MAX_SIZE
     then upd_stats (\<lambda>st. st\<lparr>events_oversize_dropped_total := events_oversize_dropped_total st + 1\<rparr>) s
     else if payload = []
     then upd_stats (\<lambda>st. st\<lparr>protobuf_encode_failure_total := protobuf_encode_failure_total st + 1\<rparr>) s
     else push_event env (cx_role primary)
       \<lparr>ei_observed_time = cx_observed_time primary, ei_stream_id = CF_STREAM_DNS, ei_protocol = CF_PROTO_DNS,
        ei_event_type = take (CLOUDFLOW_EVENT_TYPE_MAX - 1) event_type, ei_payload = payload\<rparr> s)"

definition emit_allocs :: "(alloc_site \<Rightarrow> bool) \<Rightarrow> bool" where
  "emit_allocs alloc \<longleftrightarrow> alloc At_Txn \<and> alloc At_Txn_Strings \<and> alloc At_Env \<and> alloc At_Env_Strings \<and> alloc At_Event"

definition dns_stage_emit :: "stage_env \<Rightarrow> emission \<Rightarrow> dns_stage \<Rightarrow> dns_stage option" where
  "dns_stage_emit env em s = do {
     q \<leftarrow> deref s (em_query_ctx em);
     r \<leftarrow> deref s (em_response_ctx em);
     (case (case q of None \<Rightarrow> r | Some c \<Rightarrow> Some c) of
        None \<Rightarrow> Some s
      | Some primary \<Rightarrow>
          if \<not> cf_dns_emit_decide (Some (cg_emit_policy (sg_cfg s))) (Some (emit_facts em q r))
          then free_both em (upd_stats (\<lambda>st. st\<lparr>dns_sampled_out_total := dns_sampled_out_total st + 1\<rparr>) s)
          else if \<not> emit_allocs (se_alloc env) then free_both em s
          else let txn = build_txn env (sg_cfg s) (cx_role primary) em q r;
                   envelope = build_envelope env (sg_cfg s) primary (event_type_name (em_outcome em))
          in free_both em (emit_event env em primary \<lparr>ce_envelope = envelope, ce_dns_transaction = txn\<rparr> s)) }"

section \<open>The correlator's counters\<close>

definition dns_stage_sync_stats :: "dns_stage \<Rightarrow> dns_stage" where
  "dns_stage_sync_stats s =
    (let cs = cf_dns_correlator_stats_of (sg_correlator s); sy = sg_synced s in
     (upd_stats (\<lambda>st. st\<lparr>
        dns_query_unanswered_total := dns_query_unanswered_total st + (st_query_unanswered cs - st_query_unanswered sy),
        dns_response_unmatched_total := dns_response_unmatched_total st + (st_response_unmatched cs - st_response_unmatched sy),
        dns_pending_drop_total := dns_pending_drop_total st + (st_pending_drop cs - st_pending_drop sy),
        dns_pending_evicted_collision_total := dns_pending_evicted_collision_total st +
          (st_pending_evicted_collision cs - st_pending_evicted_collision sy),
        dns_rtt_invalid_total := dns_rtt_invalid_total st + (st_rtt_invalid cs - st_rtt_invalid sy),
        dns_pending_table_depth := st_pending_depth cs\<rparr>) s)\<lparr>sg_synced := cs\<rparr>)"

text \<open>The callbacks of the calls that an operation of the correlator made; \<open>env i\<close> is the
  environment of the \<open>i\<close>-th call since the start. Each callback ends by publishing the counters,
  the last one with the final values of the operation.\<close>

fun emit_all :: "(nat \<Rightarrow> stage_env) \<Rightarrow> nat \<Rightarrow> emission list \<Rightarrow> dns_stage \<Rightarrow> dns_stage option" where
  "emit_all env i [] s = Some s"
| "emit_all env i (em # ems) s = do { s \<leftarrow> dns_stage_emit (env i) em s; emit_all env (Suc i) ems s }"

definition correlator_returned :: "(nat \<Rightarrow> stage_env) \<Rightarrow> cf_dns_correlator \<Rightarrow> dns_stage \<Rightarrow> dns_stage option" where
  "correlator_returned env c s =
    (let n = length (c_emitted (sg_correlator s))
     in do { s' \<leftarrow> emit_all env n (drop n (c_emitted c)) (s\<lparr>sg_correlator := c\<rparr>);
             Some (if drop n (c_emitted c) = [] then s' else dns_stage_sync_stats s') })"

section \<open>Life cycle\<close>

definition dns_stage_new ::
  "(nat \<Rightarrow> cf_dns_entry) \<Rightarrow> bool \<Rightarrow> dns_stage_config option \<Rightarrow> cf_queue option \<Rightarrow> cf_dns_source_stats option \<Rightarrow> dns_stage option" where
  "dns_stage_new junk alloc cfg out stats =
    (case (cfg, out, stats) of
       (Some cfg, Some q, Some st) \<Rightarrow>
         if \<not> alloc then None
         else (case cf_dns_correlator_new junk (cg_capacity cfg) (cg_query_timeout cfg) (cg_on_table_full cfg) of
             None \<Rightarrow> None
           | Some c \<Rightarrow> Some \<lparr>sg_cfg = cfg,
               sg_leg = \<lparr>lc_local = cg_local_addrs cfg, lc_backend = cg_backend_addrs cfg\<rparr>,
               sg_correlator = c, sg_processed = 0, sg_synced = stats_zero, sg_stats = st, sg_out = Some q,
               sg_heap = Map.empty, sg_next = 0\<rparr>)
     | _ \<Rightarrow> None)"

definition dns_stage_free :: "(nat \<Rightarrow> stage_env) \<Rightarrow> dns_stage \<Rightarrow> dns_stage option" where
  "dns_stage_free env s = do {
     c \<leftarrow> cf_dns_correlator_free (sg_correlator s);
     correlator_returned env c s }"

definition dns_stage_tick :: "(nat \<Rightarrow> stage_env) \<Rightarrow> int \<Rightarrow> dns_stage \<Rightarrow> dns_stage option" where
  "dns_stage_tick env now s = do {
     c \<leftarrow> cf_dns_correlator_tick (sg_correlator s) now;
     s \<leftarrow> correlator_returned env c s;
     Some (dns_stage_sync_stats s) }"

section \<open>One frame\<close>

definition skip_packet :: "dns_stage \<Rightarrow> dns_stage" where
  "skip_packet s = upd_stats (\<lambda>st. st\<lparr>packets_skipped_total := packets_skipped_total st + 1\<rparr>) s"

text \<open>The new context at a fresh address.\<close>

definition new_ctx :: "dns_ctx \<Rightarrow> dns_stage \<Rightarrow> ctx \<times> dns_stage" where
  "new_ctx c s = (sg_next s, s\<lparr>sg_heap := (sg_heap s)(sg_next s \<mapsto> c), sg_next := sg_next s + 1\<rparr>)"

text \<open>The end of the handler: the correlator is fed, every 64th frame it is swept.\<close>

definition feed_correlator ::
  "(nat \<Rightarrow> stage_env) \<Rightarrow> bool \<Rightarrow> cf_dns_txn_key \<Rightarrow> int \<Rightarrow> ctx \<Rightarrow> dns_stage \<Rightarrow> dns_stage option" where
  "feed_correlator env is_response key t p s = do {
     s \<leftarrow> (if is_response then do {
             let s = upd_stats (\<lambda>st. st\<lparr>dns_responses_parsed_total := dns_responses_parsed_total st + 1\<rparr>) s;
             c \<leftarrow> cf_dns_correlator_on_response (sg_correlator s) key t p;
             correlator_returned env c s }
           else do {
             let s = upd_stats (\<lambda>st. st\<lparr>dns_queries_parsed_total := dns_queries_parsed_total st + 1\<rparr>) s;
             c \<leftarrow> cf_dns_correlator_on_query (sg_correlator s) key t p;
             correlator_returned env c s });
     let s = s\<lparr>sg_processed := sg_processed s + 1\<rparr>;
     s \<leftarrow> (if sg_processed s mod DNS_STAGE_TICK_EVERY = 0 then do {
             c \<leftarrow> cf_dns_correlator_tick (sg_correlator s) t;
             correlator_returned env c s }
           else Some s);
     Some (dns_stage_sync_stats s) }"

text \<open>The allocations of the frame itself are decided by \<open>alloc\<close>.\<close>

definition dns_stage_process_packet ::
  "(nat \<Rightarrow> stage_env) \<Rightarrow> (alloc_site \<Rightarrow> bool) \<Rightarrow> cf_packet_item \<Rightarrow> dns_stage \<Rightarrow> (int \<times> dns_stage) option" where
  "dns_stage_process_packet env alloc pkt s = do {
     frame \<leftarrow> rd_bytes (pi_data pkt) 0 (unat (pi_captured_len pkt));
     (rc, d, s) \<leftarrow> dns_decode_frame s frame;
     if rc \<noteq> 0 then Some (1, s)
     else do {
       dns \<leftarrow> (case d_dns d of None \<Rightarrow> Some None
              | Some off \<Rightarrow> map_option Some (rd_bytes frame off (d_dns_len d)));
       (m, warnings) \<leftarrow> cf_dns_parse dns cf_warn_list_init;
       (case m of
          None \<Rightarrow> Some (1, upd_stats (\<lambda>st. st\<lparr>decode_parse_failure_total := decode_parse_failure_total st + 1\<rparr>) s)
        | Some m \<Rightarrow> do {
            let raw = (if d_dns_len d > 0 \<and> alloc At_Raw_Payload then the dns else []);
            let msg = dns_message.extend m \<lparr>m_raw_dns_payload = raw, m_raw_payload_truncated = False\<rparr>;
            let (role, local_is_server) = cf_dns_classify_leg (Some (sg_leg s)) (ip_version d) (src_ip d)
              (d_src_port d) (dst_ip d) (d_dst_port d) CF_DNS_DIR_UNKNOWN;
            let key = dns_build_key d msg local_is_server;
            (case dns_build_pobs alloc pkt d of
               None \<Rightarrow> Some (1, skip_packet s)
             | Some pobs \<Rightarrow>
                 if \<not> alloc At_Ctx then Some (1, skip_packet s)
                 else do {
                   let (p, s) = new_ctx \<lparr>cx_msg = msg, cx_pobs = pobs, cx_warnings = fst (cf_warn_list_take warnings),
                     cx_role = role, cx_rcode = h_rcode (m_header msg), cx_qtype = ucast (k_qtype key),
                     cx_observed_time = pi_observed_time pkt, cx_frame = frame\<rparr> s;
                   s \<leftarrow> feed_correlator env (h_qr (m_header msg)) key (pi_observed_time pkt) p s;
                   Some (0, s) }) }) } }"

section \<open>The shutdown drain\<close>

text \<open>\<open>dns_stage_drain\<close> runs the consuming loop over the input queue; \<open>read_item\<close> is the layout of a
  packet element.\<close>

definition dns_stage_drain ::
  "(nat \<Rightarrow> stage_env) \<Rightarrow> (alloc_site \<Rightarrow> bool) \<Rightarrow> (bytes \<Rightarrow> cf_packet_item) \<Rightarrow> cf_queue option \<Rightarrow> dns_stage \<Rightarrow>
   (cf_queue option \<times> dns_stage option) option" where
  "dns_stage_drain env alloc read_item inq s =
    drain_loop (\<lambda>p. cf_queue_pop p True)
      (\<lambda>item s. do { s \<leftarrow> s; (rc, s) \<leftarrow> dns_stage_process_packet env alloc (read_item item) s; Some s }) inq (Some s)"

end
