(* ===== verification/Dns_Stage_Safe.thy ===== *)
theory Dns_Stage_Safe
  imports Dns_Stage_Run Dns_Message Correlation_Refine
begin

text \<open>
  Memory safety and accounting of the DNS stage: no context is leaked, freed twice or used after
  it was freed, whatever the frames, and every frame and every decided transaction is counted.
  The stage relies on the correlator only through the contract \<open>transaction_table\<close>.
\<close>

section \<open>What one call of the table hands back\<close>

definition pend_ctx :: "table \<Rightarrow> ctx list" where
  "pend_ctx a = map (snd \<circ> snd) (pt_pending a)"

text \<open>An emission carries the contexts its outcome says.\<close>

definition wf_emission :: "emission \<Rightarrow> bool" where
  "wf_emission em \<longleftrightarrow>
    (case em_outcome em of
       CF_DNS_TXN_OBSERVED \<Rightarrow> em_query_ctx em \<noteq> None \<and> em_response_ctx em \<noteq> None
     | CF_DNS_TXN_UNANSWERED \<Rightarrow> em_query_ctx em \<noteq> None \<and> em_response_ctx em = None
     | CF_DNS_TXN_UNMATCHED \<Rightarrow> em_query_ctx em = None \<and> em_response_ctx em \<noteq> None)"

text \<open>The table grew its trace by \<open>new\<close>.\<close>

definition emits :: "table \<Rightarrow> table \<Rightarrow> emission list \<Rightarrow> bool" where
  "emits a b new \<longleftrightarrow> pt_emitted b = pt_emitted a @ new \<and> list_all wf_emission new"

lemma emits_refl: "emits a a []"
  by (simp add: emits_def)

lemma emits_trans: "emits a b xs \<Longrightarrow> emits b c ys \<Longrightarrow> emits a c (xs @ ys)"
  by (simp add: emits_def)

lemma wf_unanswered [simp]: "wf_emission (unanswered p)"
  by (simp add: wf_emission_def unanswered_def)

lemma evict_head_emits: "\<exists>new. emits a (pt_evict_head f a) new"
  by (cases "pt_pending a") (auto simp: emits_def pt_evict_head_def)

lemma evict_emits: "\<exists>new. emits a (pt_evict n now a) new"
proof (induction n now a rule: pt_evict.induct)
  case (2 n now a)
  show ?case
  proof (cases "pt_pending a")
    case (Cons p ps)
    show ?thesis
    proof (cases "now - fst (snd p) \<le> pt_timeout a")
      case False
      obtain xs where "emits a (pt_evict_head inc_unanswered a) xs" using evict_head_emits by blast
      moreover obtain ys where "emits (pt_evict_head inc_unanswered a) (pt_evict n now (pt_evict_head inc_unanswered a)) ys"
        using 2 [OF Cons False] by blast
      ultimately show ?thesis using Cons False emits_trans by fastforce
    qed (use Cons emits_refl in auto)
  qed (use emits_refl in auto)
qed (use emits_refl in auto)

lemma drain_emits: "\<exists>new. emits a (pt_drain n a) new"
proof (induction n arbitrary: a)
  case (Suc n)
  obtain xs where "emits a (pt_evict_head inc_unanswered a) xs" using evict_head_emits by blast
  moreover obtain ys where "emits (pt_evict_head inc_unanswered a) (pt_drain n (pt_evict_head inc_unanswered a)) ys"
    using Suc by blast
  ultimately show ?case using emits_trans by fastforce
qed (use emits_refl in auto)

lemma fresh_emits: "\<exists>new. emits a (pt_fresh a p) new"
proof -
  obtain xs where "emits a (pt_evict_head inc_drop a) xs" using evict_head_emits by blast
  then show ?thesis by (auto simp: pt_fresh_def pt_append_def emits_def)
qed

lemma replace_emits: "\<exists>new. emits a (pt_replace a q p) new"
  by (auto simp: pt_replace_def emits_def)

lemma step_emits: "\<exists>new. emits a (pt_step a op) new"
proof (cases op)
  case (Query k t x)
  obtain xs where xs: "emits a (pt_evict 8 t a) xs" using evict_emits by blast
  have "\<exists>ys. emits (pt_evict 8 t a) (pt_on_query a k t x) ys"
    using fresh_emits replace_emits by (auto simp: pt_on_query_def Let_def split: option.splits)
  then show ?thesis using Query emits_trans [OF xs] by auto
next
  case (Response k t x)
  then show ?thesis
    by (auto simp: pt_on_response_def emits_def wf_emission_def Let_def split: option.splits)
next
  case (Tick now)
  then show ?thesis using evict_emits by (simp add: pt_tick_def)
qed

definition op_ctx :: "txn_op \<Rightarrow> ctx list" where
  "op_ctx op = (case op of Query k t x \<Rightarrow> [x] | Response k t x \<Rightarrow> [x] | Tick t \<Rightarrow> [])"

text \<open>The contexts a call hands back are the ones it was given or held and no longer holds.\<close>

lemma step_ctx:
  assumes "pt_inv a" "emits a (pt_step a op) new"
  shows "mset (emq new) + mset (emr new) + mset (pend_ctx (pt_step a op)) = mset (pend_ctx a) + mset (op_ctx op)"
proof -
  have "mset (emq new) + mset (pend_ctx (pt_step a op)) =
      mset (pend_ctx a) + (case query_of op of None \<Rightarrow> {#} | Some x \<Rightarrow> {#x#})"
    using pt_step_keeps(2) [OF assms(1), of op] assms(2)
    by (auto simp: owned_def pend_ctx_def emits_def emq_def ac_simps split: option.splits)
  moreover have "emr new = (case response_of op of None \<Rightarrow> [] | Some x \<Rightarrow> [x])"
    using pt_step_keeps(3) [OF assms(1), of op] assms(2)
    by (auto simp: emits_def emr_def split: option.splits)
  ultimately show ?thesis by (cases op) (auto simp: op_ctx_def ac_simps)
qed

section \<open>The emit callback\<close>

text \<open>The counters the callback leaves alone, and the four that say what became of a decided
  transaction.\<close>

definition kept_counters :: "cf_dns_source_stats \<Rightarrow> nat list" where
  "kept_counters st = [packets_skipped_total st, decode_parse_failure_total st, dns_tcp_partial_total st,
     dns_queries_parsed_total st, dns_responses_parsed_total st, dns_query_unanswered_total st,
     dns_response_unmatched_total st, dns_pending_drop_total st, dns_pending_evicted_collision_total st,
     dns_rtt_invalid_total st, dns_pending_table_depth st]"

definition settled :: "cf_dns_source_stats \<Rightarrow> nat" where
  "settled st = dns_transactions_emitted_total st + dns_sampled_out_total st +
     events_oversize_dropped_total st + protobuf_encode_failure_total st"

text \<open>What the callback keeps of the engine.\<close>

definition kept :: "dns_stage \<Rightarrow> dns_stage \<Rightarrow> bool" where
  "kept s s' \<longleftrightarrow> sg_cfg s' = sg_cfg s \<and> sg_leg s' = sg_leg s \<and> sg_correlator s' = sg_correlator s \<and>
    sg_processed s' = sg_processed s \<and> sg_synced s' = sg_synced s \<and> sg_next s' = sg_next s \<and>
    kept_counters (sg_stats s') = kept_counters (sg_stats s)"

lemma kept_refl: "kept s s"
  by (simp add: kept_def)

lemma kept_trans: "kept s t \<Longrightarrow> kept t u \<Longrightarrow> kept s u"
  by (simp add: kept_def)

lemma count_emitted_kept [simp]:
  "kept_counters (count_emitted role st) = kept_counters st" "settled (count_emitted role st) = Suc (settled st)"
  "kept_counters (count_emitted role st\<lparr>formatter_queue_depth := n\<rparr>) = kept_counters st"
  "settled (count_emitted role st\<lparr>formatter_queue_depth := n\<rparr>) = Suc (settled st)"
  by (cases role; simp add: count_emitted_def kept_counters_def settled_def)+

lemma queue_drop_kept [simp]:
  "kept_counters (st\<lparr>formatter_queue_drop_total := n\<rparr>) = kept_counters st"
  "settled (st\<lparr>formatter_queue_drop_total := n\<rparr>) = settled st"
  by (simp_all add: kept_counters_def settled_def)

lemma push_event_kept:
  "kept s (push_event env role item s) \<and> sg_heap (push_event env role item s) = sg_heap s \<and>
   settled (sg_stats (push_event env role item s)) = Suc (settled (sg_stats s))"
  by (simp add: push_event_def kept_def upd_stats_def split: prod.splits)

lemma emit_event_kept:
  "kept s (emit_event env em c ev s) \<and> sg_heap (emit_event env em c ev s) = sg_heap s \<and>
   settled (sg_stats (emit_event env em c ev s)) = Suc (settled (sg_stats s))"
  using push_event_kept
  by (simp add: emit_event_def Let_def) (simp add: kept_def upd_stats_def kept_counters_def settled_def)

definition em_ctx :: "emission \<Rightarrow> ctx list" where
  "em_ctx em = (case em_query_ctx em of None \<Rightarrow> [] | Some x \<Rightarrow> [x]) @ (case em_response_ctx em of None \<Rightarrow> [] | Some x \<Rightarrow> [x])"

lemma free_both_ok:
  assumes "distinct (em_ctx em)" "set (em_ctx em) \<subseteq> dom (sg_heap s)"
  shows "free_both em s = Some (s\<lparr>sg_heap := sg_heap s |` (- set (em_ctx em))\<rparr>)"
  using assms
  by (auto simp: free_both_def dns_ctx_free_def em_ctx_def restrict_map_def fun_eq_iff split: option.splits)

lemma deref_ok: "(\<And>x. p = Some x \<Longrightarrow> x \<in> dom (sg_heap s)) \<Longrightarrow> \<exists>c. deref s p = Some c \<and> (c = None \<longleftrightarrow> p = None)"
  by (cases p) (auto simp: deref_def)

lemma emit_ok:
  assumes "distinct (em_ctx em)" "set (em_ctx em) \<subseteq> dom (sg_heap s)" "wf_emission em"
  shows "\<exists>s'. dns_stage_emit env em s = Some s' \<and> kept s s' \<and> sg_heap s' = sg_heap s |` (- set (em_ctx em)) \<and>
    (emit_allocs (se_alloc env) \<longrightarrow> settled (sg_stats s') = Suc (settled (sg_stats s)))"
proof -
  obtain q r where qr: "deref s (em_query_ctx em) = Some q" "deref s (em_response_ctx em) = Some r"
    "q = None \<longleftrightarrow> em_query_ctx em = None" "r = None \<longleftrightarrow> em_response_ctx em = None"
  proof -
    have "\<exists>c. deref s (em_query_ctx em) = Some c \<and> (c = None \<longleftrightarrow> em_query_ctx em = None)"
      by (rule deref_ok) (use assms(2) in \<open>auto simp: em_ctx_def\<close>)
    moreover have "\<exists>c. deref s (em_response_ctx em) = Some c \<and> (c = None \<longleftrightarrow> em_response_ctx em = None)"
      by (rule deref_ok) (use assms(2) in \<open>auto simp: em_ctx_def\<close>)
    ultimately show thesis by (elim exE conjE) (rule that)
  qed
  from assms(3) have "em_query_ctx em \<noteq> None \<or> em_response_ctx em \<noteq> None"
    by (auto simp: wf_emission_def split: cf_dns_txn_outcome.splits)
  with qr obtain primary where pr: "(case q of None \<Rightarrow> r | Some c \<Rightarrow> Some c) = Some primary"
    by (cases q; cases r) auto
  have f: "free_both em t = Some (t\<lparr>sg_heap := sg_heap s |` (- set (em_ctx em))\<rparr>)" if "sg_heap t = sg_heap s" for t
    using free_both_ok [OF assms(1), of t] assms(2) that by simp
  let ?samp = "upd_stats (\<lambda>st. st\<lparr>dns_sampled_out_total := dns_sampled_out_total st + 1\<rparr>) s"
  have samp: "sg_heap ?samp = sg_heap s" "kept s ?samp" "settled (sg_stats ?samp) = Suc (settled (sg_stats s))"
    by (simp_all add: upd_stats_def kept_def kept_counters_def settled_def)
  show ?thesis
    using emit_event_kept [of s env em primary] samp
    by (auto simp: dns_stage_emit_def qr pr f Let_def kept_def settled_def)
qed

lemma emit_all_ok:
  assumes "distinct (concat (map em_ctx ems))" "set (concat (map em_ctx ems)) \<subseteq> dom (sg_heap s)" "list_all wf_emission ems"
  shows "\<exists>s'. emit_all env i ems s = Some s' \<and> kept s s' \<and>
    sg_heap s' = sg_heap s |` (- set (concat (map em_ctx ems))) \<and>
    ((\<forall>j. emit_allocs (se_alloc (env j))) \<longrightarrow> settled (sg_stats s') = settled (sg_stats s) + length ems)"
  using assms
proof (induction ems arbitrary: i s)
  case Nil
  then show ?case by (simp add: kept_refl)
next
  case (Cons em ems)
  then obtain s1 where s1: "dns_stage_emit (env i) em s = Some s1" "kept s s1"
    "sg_heap s1 = sg_heap s |` (- set (em_ctx em))"
    "emit_allocs (se_alloc (env i)) \<longrightarrow> settled (sg_stats s1) = Suc (settled (sg_stats s))"
    using emit_ok [of em s "env i"] by auto
  then have "set (concat (map em_ctx ems)) \<subseteq> dom (sg_heap s1)" using Cons.prems(1,2) by auto
  then obtain s' where "emit_all env (Suc i) ems s1 = Some s'" "kept s1 s'"
    "sg_heap s' = sg_heap s1 |` (- set (concat (map em_ctx ems)))"
    "(\<forall>j. emit_allocs (se_alloc (env j))) \<longrightarrow> settled (sg_stats s') = settled (sg_stats s1) + length ems"
    using Cons.IH [of s1 "Suc i"] Cons.prems(1,3) by auto
  then show ?case using s1 kept_trans by (auto simp: Int_commute)
qed

lemma em_ctx_mset: "mset (concat (map em_ctx ems)) = mset (emq ems) + mset (emr ems)"
  by (induction ems) (auto simp: em_ctx_def emq_def emr_def map_filter_simps split: option.splits)

lemma em_ctx_count:
  "list_all wf_emission ems \<Longrightarrow> length (emq ems) + length (emr ems) = length ems + outcomes CF_DNS_TXN_OBSERVED ems"
  by (induction ems)
     (auto simp: wf_emission_def emq_def emr_def map_filter_simps outcomes_def split: cf_dns_txn_outcome.splits option.splits)

section \<open>One call of the correlator\<close>

text \<open>The counters of frames, in the order of the decisions.\<close>

definition intake :: "cf_dns_source_stats \<Rightarrow> nat list" where
  "intake st = [packets_skipped_total st, dns_tcp_partial_total st, decode_parse_failure_total st,
     dns_queries_parsed_total st, dns_responses_parsed_total st]"

definition engine_inv :: "dns_stage \<Rightarrow> table \<Rightarrow> ctx list \<Rightarrow> bool" where
  "engine_inv s a extra \<longleftrightarrow> refines (sg_correlator s) a \<and> pt_inv a \<and> list_all wf_emission (pt_emitted a) \<and> distinct (pend_ctx a @ extra) \<and>
    dom (sg_heap s) = set (pend_ctx a @ extra) \<and> (\<forall>p \<in> dom (sg_heap s). p < sg_next s)"

text \<open>What a call of the correlator with its callbacks leaves of the rest of the engine.\<close>

definition same_engine :: "dns_stage \<Rightarrow> dns_stage \<Rightarrow> bool" where
  "same_engine s s' \<longleftrightarrow> sg_cfg s' = sg_cfg s \<and> sg_leg s' = sg_leg s \<and> sg_processed s' = sg_processed s \<and>
    sg_next s' = sg_next s \<and> intake (sg_stats s') = intake (sg_stats s)"

lemma same_engine_trans: "same_engine s t \<Longrightarrow> same_engine t u \<Longrightarrow> same_engine s u"
  by (simp add: same_engine_def)

lemma kept_same: "kept s s' \<Longrightarrow> same_engine s s'"
  by (auto simp: kept_def same_engine_def intake_def kept_counters_def)

lemma sync_same:
  "same_engine s (dns_stage_sync_stats s)" "sg_heap (dns_stage_sync_stats s) = sg_heap s"
  "sg_correlator (dns_stage_sync_stats s) = sg_correlator s"
  "settled (sg_stats (dns_stage_sync_stats s)) = settled (sg_stats s)"
  by (simp_all add: dns_stage_sync_stats_def same_engine_def intake_def upd_stats_def settled_def Let_def)

lemma sync_inv: "engine_inv s a extra \<Longrightarrow> engine_inv (dns_stage_sync_stats s) a extra"
  using sync_same [of s] by (simp add: engine_inv_def same_engine_def)

lemma returned_ok:
  assumes inv: "engine_inv s a extra" and c: "refines c b" "pt_inv b" and e: "emits a b new"
    and m: "mset (emq new) + mset (emr new) + mset (pend_ctx b) = mset (pend_ctx a) + mset extra"
  shows "\<exists>s'. correlator_returned env c s = Some s' \<and> engine_inv s' b [] \<and> same_engine s s' \<and>
    sg_correlator s' = c \<and>
    ((\<forall>j. emit_allocs (se_alloc (env j))) \<longrightarrow> settled (sg_stats s') = settled (sg_stats s) + length new)"
proof -
  let ?cs = "concat (map em_ctx new)" and ?s = "s\<lparr>sg_correlator := c\<rparr>"
  have mm: "mset (?cs @ pend_ctx b) = mset (pend_ctx a @ extra)" using m by (simp add: em_ctx_mset)
  have d: "distinct (?cs @ pend_ctx b)" using inv mset_eq_imp_distinct_iff [OF mm] by (simp add: engine_inv_def)
  have st: "set (?cs @ pend_ctx b) = dom (sg_heap s)" using inv mset_eq_setD [OF mm] by (simp add: engine_inv_def)
  have tr: "c_emitted (sg_correlator s) = pt_emitted a" "c_emitted c = pt_emitted b"
    using inv c(1) correlator.trace_sim by (auto simp: engine_inv_def)
  then have new: "drop (length (c_emitted (sg_correlator s))) (c_emitted c) = new" using e by (simp add: emits_def)
  obtain s1 where s1: "emit_all env (length (c_emitted (sg_correlator s))) new ?s = Some s1" "kept ?s s1"
    "sg_heap s1 = sg_heap s |` (- set ?cs)"
    "(\<forall>j. emit_allocs (se_alloc (env j))) \<longrightarrow> settled (sg_stats s1) = settled (sg_stats s) + length new"
  proof -
    have "set ?cs \<subseteq> dom (sg_heap ?s)" "distinct ?cs" "list_all wf_emission new"
      using st d e by (auto simp: emits_def)
    from emit_all_ok [OF this(2,1,3), of env "length (c_emitted (sg_correlator s))"] show thesis
      using that by auto
  qed
  have dom: "dom (sg_heap s1) = set (pend_ctx b)" using s1(3) st d by auto
  have "\<forall>p \<in> dom (sg_heap s1). p < sg_next s1"
    using inv s1(2,3) by (auto simp: engine_inv_def kept_def restrict_map_def split: if_splits)
  moreover have "list_all wf_emission (pt_emitted b)" using inv e by (simp add: engine_inv_def emits_def)
  ultimately have "engine_inv s1 b []"
    using c d dom s1(2) by (simp add: engine_inv_def kept_def)
  moreover have "same_engine s s1" using kept_same [OF s1(2)] by (simp add: same_engine_def)
  moreover have "sg_correlator s1 = c" using s1(2) by (simp add: kept_def)
  ultimately show ?thesis
    using s1 sync_inv sync_same [of s1] same_engine_trans
    by (simp add: correlator_returned_def new Let_def)
qed

lemma call_ok:
  assumes "engine_inv s a (op_ctx op)"
  shows "\<exists>c s'. corr_step (sg_correlator s) op = Some c \<and> correlator_returned env c s = Some s' \<and>
    engine_inv s' (pt_step a op) [] \<and> same_engine s s' \<and>
    ((\<forall>j. emit_allocs (se_alloc (env j))) \<longrightarrow>
      settled (sg_stats s') + length (pt_emitted a) = settled (sg_stats s) + length (pt_emitted (pt_step a op)))"
proof -
  have a: "refines (sg_correlator s) a" "pt_inv a" using assms by (auto simp: engine_inv_def)
  obtain c where c: "corr_step (sg_correlator s) op = Some c" "refines c (pt_step a op)"
    using correlator.step_sim [OF a(1)] a(2) by (auto simp: pt_inv_def)
  obtain new where new: "emits a (pt_step a op) new" using step_emits by blast
  have "length (pt_emitted (pt_step a op)) = length (pt_emitted a) + length new" using new by (simp add: emits_def)
  then show ?thesis
    using returned_ok [OF assms c(2) pt_step_keeps(1) [OF a(2)] new step_ctx [OF a(2) new], of env] c(1) by fastforce
qed

section \<open>Accounting\<close>

text \<open>Since the counters were \<open>st0\<close>, \<open>n\<close> frames were counted, each once; the parsed queries and
  responses are those the table has seen; and, when allocations succeed, every decided transaction
  was settled.\<close>

definition acct :: "cf_dns_source_stats \<Rightarrow> bool \<Rightarrow> nat \<Rightarrow> dns_stage \<Rightarrow> table \<Rightarrow> bool" where
  "acct st0 allocs n s a \<longleftrightarrow> sum_list (intake (sg_stats s)) = sum_list (intake st0) + n \<and>
    dns_queries_parsed_total (sg_stats s) = dns_queries_parsed_total st0 + size (owned a) \<and>
    dns_responses_parsed_total (sg_stats s) = dns_responses_parsed_total st0 + length (emr (pt_emitted a)) \<and>
    (allocs \<longrightarrow> settled (sg_stats s) = settled st0 + length (pt_emitted a))"

lemma intake_fields:
  assumes "intake st' = intake st"
  shows "dns_queries_parsed_total st' = dns_queries_parsed_total st"
    "dns_responses_parsed_total st' = dns_responses_parsed_total st"
  using assms by (simp_all add: intake_def)

abbreviation "all_alloc env \<equiv> (\<forall>j. emit_allocs (se_alloc (env j)))"

lemma tick_call:
  assumes "engine_inv s a []" "acct st0 (all_alloc env) n s a"
  shows "\<exists>c s' b. cf_dns_correlator_tick (sg_correlator s) now = Some c \<and> correlator_returned env c s = Some s' \<and>
    engine_inv s' b [] \<and> same_engine s s' \<and> acct st0 (all_alloc env) n s' b"
proof -
  obtain c s' where s': "corr_step (sg_correlator s) (Tick now) = Some c" "correlator_returned env c s = Some s'"
    "engine_inv s' (pt_step a (Tick now)) []" "same_engine s s'"
    "all_alloc env \<longrightarrow> settled (sg_stats s') + length (pt_emitted a) =
      settled (sg_stats s) + length (pt_emitted (pt_step a (Tick now)))"
    using call_ok [of s a "Tick now" env] assms(1) by (auto simp: op_ctx_def)
  have "pt_inv a" using assms(1) by (simp add: engine_inv_def)
  then have "acct st0 (all_alloc env) n s' (pt_step a (Tick now))"
    using assms(2) s'(4,5) pt_step_keeps(2,3) [of a "Tick now"] intake_fields [of "sg_stats s'" "sg_stats s"]
    by (auto simp: acct_def same_engine_def simp del: pt_step.simps)
  then show ?thesis using s' by auto
qed

lemma feed_call:
  assumes inv: "engine_inv s a [p]" and acc: "acct st0 (all_alloc env) n s a"
    and u: "s1 = upd_stats (\<lambda>st. if resp then st\<lparr>dns_responses_parsed_total := dns_responses_parsed_total st + 1\<rparr>
                else st\<lparr>dns_queries_parsed_total := dns_queries_parsed_total st + 1\<rparr>) s"
    and op: "op = (if resp then Response key t p else Query key t p)"
  shows "\<exists>c s'. corr_step (sg_correlator s1) op = Some c \<and> correlator_returned env c s1 = Some s' \<and>
    engine_inv s' (pt_step a op) [] \<and> sg_processed s' = sg_processed s \<and> sg_next s' = sg_next s \<and>
    acct st0 (all_alloc env) (Suc n) s' (pt_step a op)"
proof -
  have i1: "engine_inv s1 a (op_ctx op)" using inv by (simp add: engine_inv_def u op op_ctx_def upd_stats_def)
  obtain c s' where s': "corr_step (sg_correlator s1) op = Some c" "correlator_returned env c s1 = Some s'"
    "engine_inv s' (pt_step a op) []" "same_engine s1 s'"
    "all_alloc env \<longrightarrow> settled (sg_stats s') + length (pt_emitted a) =
      settled (sg_stats s1) + length (pt_emitted (pt_step a op))"
    using call_ok [OF i1, of env] by blast
  have "pt_inv a" using inv by (simp add: engine_inv_def)
  note k = pt_step_keeps(2,3) [OF this, of op]
  have i: "intake (sg_stats s') = intake (sg_stats s1)" using s'(4) by (simp add: same_engine_def)
  have st: "settled (sg_stats s1) = settled (sg_stats s)" by (simp add: u upd_stats_def settled_def)
  have "sum_list (intake (sg_stats s1)) = Suc (sum_list (intake (sg_stats s)))"
    by (simp add: u upd_stats_def intake_def)
  moreover have "dns_queries_parsed_total (sg_stats s1) = dns_queries_parsed_total (sg_stats s) + (if resp then 0 else 1)"
    "dns_responses_parsed_total (sg_stats s1) = dns_responses_parsed_total (sg_stats s) + (if resp then 1 else 0)"
    by (simp_all add: u upd_stats_def)
  ultimately have "acct st0 (all_alloc env) (Suc n) s' (pt_step a op)"
    using acc s'(5) st k intake_fields [OF i] i by (cases resp) (auto simp: acct_def op simp del: pt_step.simps)
  moreover have "sg_processed s' = sg_processed s" "sg_next s' = sg_next s"
    using s'(4) by (simp_all add: same_engine_def u upd_stats_def)
  ultimately show ?thesis using s' by blast
qed

lemma sync_acct: "acct st0 al n s a \<Longrightarrow> acct st0 al n (dns_stage_sync_stats s) a"
  using sync_same [of s] intake_fields [of "sg_stats (dns_stage_sync_stats s)" "sg_stats s"]
  by (simp add: acct_def same_engine_def)

lemma feed_ok:
  assumes "engine_inv s a [p]" "acct st0 (all_alloc env) n s a"
  shows "\<exists>s' b. feed_correlator env resp key t p s = Some s' \<and> engine_inv s' b [] \<and> acct st0 (all_alloc env) (Suc n) s' b"
proof -
  let ?op = "if resp then Response key t p else Query key t p"
  obtain c s1 where s1: "corr_step (sg_correlator s) ?op = Some c"
    "correlator_returned env c (upd_stats (\<lambda>st. if resp then st\<lparr>dns_responses_parsed_total := dns_responses_parsed_total st + 1\<rparr>
                else st\<lparr>dns_queries_parsed_total := dns_queries_parsed_total st + 1\<rparr>) s) = Some s1"
    "engine_inv s1 (pt_step a ?op) []" "acct st0 (all_alloc env) (Suc n) s1 (pt_step a ?op)"
    using feed_call [OF assms refl refl, of resp key t] by (auto simp: upd_stats_def)
  let ?s2 = "s1\<lparr>sg_processed := sg_processed s1 + 1\<rparr>"
  have s2: "engine_inv ?s2 (pt_step a ?op) []" "acct st0 (all_alloc env) (Suc n) ?s2 (pt_step a ?op)"
    using s1(3,4) by (simp_all add: engine_inv_def acct_def)
  obtain c3 s3 b3 where s3: "cf_dns_correlator_tick (sg_correlator ?s2) t = Some c3"
    "correlator_returned env c3 ?s2 = Some s3" "engine_inv s3 b3 []" "acct st0 (all_alloc env) (Suc n) s3 b3"
    using tick_call [OF s2, of t] by blast
  have f: "feed_correlator env resp key t p s =
      (if (sg_processed s1 + 1) mod 64 = 0 then Some (dns_stage_sync_stats s3) else Some (dns_stage_sync_stats ?s2))"
    using s1(1,2) s3(1,2) by (cases resp) (simp_all add: feed_correlator_def Let_def upd_stats_def)
  show ?thesis
    unfolding f using sync_inv [OF s3(3)] sync_acct [OF s3(4)] sync_inv [OF s2(1)] sync_acct [OF s2(2)] by auto
qed

end
