(* ===== verification/Dns_Stage_Flow.thy ===== *)
theory Dns_Stage_Flow
  imports Dns_Stage_Safe
begin

text \<open>
  Whole runs of the DNS stage: one frame, sequences of frames and sweeps, the thread that feeds the
  engine from its input queue, and the shutdown.
\<close>

section \<open>One frame\<close>

lemma view_udp:
  assumes "cf_decap_udp frame = Some (CF_DECAP_OK, u)"
  shows "\<exists>d off. dns_decode_view frame = Some (Decoded d) \<and> d_dns d = Some off \<and> off + d_dns_len d \<le> length frame"
  using decap_udp_ok [OF assms] assms
  by (auto simp: dns_decode_view_def in_frame_def split: option.splits)

lemma view_tcp:
  assumes "cf_decap_udp frame = Some (CF_DECAP_NOT_UDP, u)" "cf_decap_tcp frame = Some (CF_DECAP_OK, t)"
  shows "\<exists>r. dns_decode_view frame = Some r \<and>
    (\<forall>d. r = Decoded d \<longrightarrow> (\<exists>off. d_dns d = Some off \<and> off + d_dns_len d \<le> length frame))"
proof -
  obtain off where off: "t_payload t = Some off" "off + t_payload_len t \<le> length frame"
    using decap_tcp_ok [OF assms(2)] by (auto simp: in_frame_def split: option.splits)
  then show ?thesis using assms by (auto simp: dns_decode_view_def Let_def)
qed

text \<open>The decoder ends on every frame, and an accepted message lies inside it.\<close>

lemma view_safe:
  "\<exists>r. dns_decode_view frame = Some r \<and>
    (\<forall>d. r = Decoded d \<longrightarrow> (\<exists>off. d_dns d = Some off \<and> off + d_dns_len d \<le> length frame))"
proof -
  obtain ru u rt t where ut: "cf_decap_udp frame = Some (ru, u)" "cf_decap_tcp frame = Some (rt, t)"
    using decap_safe [of frame] by force
  consider "ru = CF_DECAP_OK" | "ru = CF_DECAP_NOT_UDP" "rt = CF_DECAP_OK"
    | "ru = CF_DECAP_NOT_UDP" "rt \<noteq> CF_DECAP_OK" | "ru \<noteq> CF_DECAP_OK" "ru \<noteq> CF_DECAP_NOT_UDP" by blast
  then show ?thesis
  proof cases
    case 1 then show ?thesis using view_udp ut by fastforce
  next
    case 2 then show ?thesis using view_tcp ut by blast
  qed (use ut in \<open>auto simp: dns_decode_view_def\<close>)
qed

lemma parse_ends: "\<exists>m w'. cf_dns_parse dns w = Some (m, w')"
proof (cases dns)
  case (Some msg)
  then show ?thesis using cf_dns_parse_result [of msg w] by (cases "length msg < 12") (auto simp: cf_dns_parse_def)
qed (simp add: cf_dns_parse_def)

definition packet_ok :: "cf_packet_item \<Rightarrow> bool" where
  "packet_ok pkt \<longleftrightarrow> unat (pi_captured_len pkt) \<le> length (pi_data pkt)"

text \<open>A frame that never reaches the correlator adds one to one of the three counters of frames
  without a message.\<close>

definition counted :: "dns_stage \<Rightarrow> dns_stage \<Rightarrow> bool" where
  "counted s s' \<longleftrightarrow> (\<exists>f. s' = upd_stats f s \<and> settled (f (sg_stats s)) = settled (sg_stats s) \<and>
    sum_list (intake (f (sg_stats s))) = Suc (sum_list (intake (sg_stats s))) \<and>
    dns_queries_parsed_total (f (sg_stats s)) = dns_queries_parsed_total (sg_stats s) \<and>
    dns_responses_parsed_total (f (sg_stats s)) = dns_responses_parsed_total (sg_stats s))"

lemma counted_ok:
  assumes "counted s s'" "engine_inv s a []" "acct st0 al n s a"
  shows "engine_inv s' a [] \<and> acct st0 al (Suc n) s' a"
  using assms by (elim exE conjE counted_def [THEN iffD1, elim_format]) (simp add: engine_inv_def acct_def upd_stats_def)

lemma counted_cases:
  "counted s (upd_stats (\<lambda>st. st\<lparr>packets_skipped_total := packets_skipped_total st + 1\<rparr>) s)"
  "counted s (upd_stats (\<lambda>st. st\<lparr>dns_tcp_partial_total := dns_tcp_partial_total st + 1\<rparr>) s)"
  "counted s (upd_stats (\<lambda>st. st\<lparr>decode_parse_failure_total := decode_parse_failure_total st + 1\<rparr>) s)"
  "counted s (skip_packet s)"
  unfolding counted_def skip_packet_def
  by (rule exI, rule conjI [OF refl], simp add: settled_def intake_def)+

lemma new_ctx_ok:
  assumes "engine_inv s a []" "acct st0 al n s a" "new_ctx c s = (p, s')"
  shows "engine_inv s' a [p] \<and> acct st0 al n s' a"
proof -
  have s': "p = sg_next s" "s' = s\<lparr>sg_heap := (sg_heap s)(sg_next s \<mapsto> c), sg_next := sg_next s + 1\<rparr>"
    using assms(3) by (auto simp: new_ctx_def)
  have "p \<notin> set (pend_ctx a)" using assms(1) s'(1) by (auto simp: engine_inv_def)
  then show ?thesis using assms(1,2) unfolding s'(2) by (auto simp: s'(1) engine_inv_def acct_def less_SucI simp del: domIff)
qed

lemma map_pair_bind: "Option.bind x (\<lambda>y. Some (c, y)) = map_option (Pair c) x"
  by (cases x) simp_all

text \<open>A frame either stops with the code 1 and is counted, or its context is fed to the correlator.\<close>

lemma packet_cases:
  assumes "packet_ok pkt"
  shows "(\<exists>s'. dns_stage_process_packet env alloc pkt s = Some (1, s') \<and> counted s s') \<or>
    (\<exists>resp key c p s1. new_ctx c s = (p, s1) \<and> dns_stage_process_packet env alloc pkt s =
      map_option (Pair 0) (feed_correlator env resp key (pi_observed_time pkt) p s1))"
proof -
  let ?frame = "take (unat (pi_captured_len pkt)) (pi_data pkt)"
  have fr: "rd_bytes (pi_data pkt) 0 (unat (pi_captured_len pkt)) = Some ?frame"
    using assms by (simp add: packet_ok_def)
  obtain r where r: "dns_decode_view ?frame = Some r"
    "\<forall>d. r = Decoded d \<longrightarrow> (\<exists>off. d_dns d = Some off \<and> off + d_dns_len d \<le> length ?frame)"
    using view_safe by blast
  show ?thesis
  proof (cases r)
    case (Decoded d)
    then obtain off where off: "d_dns d = Some off" "off + d_dns_len d \<le> length ?frame" using r(2) by blast
    obtain m w where m: "cf_dns_parse (Some (take (d_dns_len d) (drop off ?frame))) cf_warn_list_init = Some (m, w)"
      using parse_ends by blast
    have dec: "dns_decode_frame s ?frame = Some (0, d, s)" using r(1) Decoded by (simp add: dns_decode_frame_def)
    show ?thesis
    proof (cases m)
      case None
      then show ?thesis
        using counted_cases(3) [of s] m
        by (simp add: dns_stage_process_packet_def fr dec off rd_bytes_in [OF off(2)])
    next
      case (Some m')
      show ?thesis
      proof (cases "dns_build_pobs alloc pkt d = None \<or> \<not> alloc At_Ctx")
        case True
        then show ?thesis
          using counted_cases(4) [of s] m Some
          by (auto simp: dns_stage_process_packet_def fr dec off rd_bytes_in [OF off(2)] Let_def split: prod.splits option.splits)
      next
        case False
        then show ?thesis
          using m Some
          by (auto simp: dns_stage_process_packet_def fr dec off rd_bytes_in [OF off(2)] Let_def
              map_pair_bind split: prod.splits option.splits)
             (intro exI conjI, assumption, rule refl)+
      qed
    qed
  qed (use r(1) fr counted_cases(1,2) [of s] in \<open>auto simp: dns_stage_process_packet_def dns_decode_frame_def\<close>)
qed

lemma packet_step:
  assumes "packet_ok pkt" "engine_inv s a []" "acct st0 (all_alloc env) n s a"
  shows "\<exists>rc s' b. dns_stage_process_packet env alloc pkt s = Some (rc, s') \<and> engine_inv s' b [] \<and>
    acct st0 (all_alloc env) (Suc n) s' b"
  using packet_cases [OF assms(1), of env alloc s]
proof (elim disjE exE conjE)
  fix s' assume "dns_stage_process_packet env alloc pkt s = Some (1, s')" "counted s s'"
  then show ?thesis using counted_ok [OF _ assms(2,3)] by blast
next
  fix resp key c p s1
  assume n: "new_ctx c s = (p, s1)" and f: "dns_stage_process_packet env alloc pkt s =
      map_option (Pair 0) (feed_correlator env resp key (pi_observed_time pkt) p s1)"
  have "engine_inv s1 a [p]" "acct st0 (all_alloc env) n s1 a" using new_ctx_ok [OF assms(2,3) n] by simp_all
  from feed_ok [OF this, of resp key "pi_observed_time pkt"] show ?thesis using f by auto
qed

lemma tick_step:
  assumes "engine_inv s a []" "acct st0 (all_alloc env) n s a"
  shows "\<exists>s' b. dns_stage_tick env now s = Some s' \<and> engine_inv s' b [] \<and> acct st0 (all_alloc env) n s' b"
proof -
  obtain c s' b where t: "cf_dns_correlator_tick (sg_correlator s) now = Some c" "correlator_returned env c s = Some s'"
    "engine_inv s' b []" "acct st0 (all_alloc env) n s' b"
    using tick_call [OF assms, of now] by blast
  then show ?thesis using sync_inv [OF t(3)] sync_acct [OF t(4)] by (auto simp: dns_stage_tick_def)
qed

lemma drain_pt_inv: "pt_inv a \<Longrightarrow> pt_inv (pt_drain n a)"
proof (induction n arbitrary: a)
  case (Suc n)
  then have "pt_inv (pt_evict_head inc_unanswered a)"
    using evict_head_distinct by (auto simp: pt_inv_def pt_evict_head_def split: list.splits)
  then show ?case using Suc.IH by simp
qed simp

text \<open>The shutdown hands back every context still pending.\<close>

lemma free_step:
  assumes "engine_inv s a []" "acct st0 (all_alloc env) n s a"
  shows "\<exists>s' b. dns_stage_free env s = Some s' \<and> engine_inv s' b [] \<and> acct st0 (all_alloc env) n s' b \<and> pt_pending b = []"
proof -
  let ?b = "pt_drain (length (pt_pending a)) a"
  have a: "refines (sg_correlator s) a" "pt_inv a" using assms(1) by (auto simp: engine_inv_def)
  obtain c where c: "cf_dns_correlator_free (sg_correlator s) = Some c" "refines c ?b"
    using correlator.close_sim [OF a(1)] by blast
  obtain new where new: "emits a ?b new" using drain_emits by blast
  have e: "pt_pending ?b = []" by (rule drain_empty) simp
  have m: "mset (emq new) + mset (emr new) + mset (pend_ctx ?b) = mset (pend_ctx a) + mset []"
    using drain_owned [of "length (pt_pending a)" a] new e
    by (auto simp: owned_def pend_ctx_def emits_def emq_def emr_def)
  obtain s' where s': "correlator_returned env c s = Some s'" "engine_inv s' ?b []" "same_engine s s'"
    "all_alloc env \<longrightarrow> settled (sg_stats s') = settled (sg_stats s) + length new"
    using returned_ok [OF assms(1) c(2) drain_pt_inv [OF a(2)] new m, of env] by blast
  have "length (pt_emitted ?b) = length (pt_emitted a) + length new" using new by (simp add: emits_def)
  then have "acct st0 (all_alloc env) n s' ?b"
    using assms(2) s'(3,4) intake_fields [of "sg_stats s'" "sg_stats s"] by (auto simp: acct_def same_engine_def)
  then show ?thesis using s' c(1) e by (auto simp: dns_stage_free_def)
qed

section \<open>Sequences of frames and sweeps\<close>

datatype stage_op = Frame "alloc_site \<Rightarrow> bool" cf_packet_item | Sweep int

fun stage_step :: "(nat \<Rightarrow> stage_env) \<Rightarrow> stage_op \<Rightarrow> dns_stage \<Rightarrow> dns_stage option" where
  "stage_step env (Frame alloc pkt) s = map_option snd (dns_stage_process_packet env alloc pkt s)"
| "stage_step env (Sweep now) s = dns_stage_tick env now s"

fun run_stage :: "(nat \<Rightarrow> stage_env) \<Rightarrow> stage_op list \<Rightarrow> dns_stage \<Rightarrow> dns_stage option" where
  "run_stage env [] s = Some s"
| "run_stage env (op # ops) s = do { s \<leftarrow> stage_step env op s; run_stage env ops s }"

definition op_ok :: "stage_op \<Rightarrow> bool" where
  "op_ok op = (case op of Frame alloc pkt \<Rightarrow> packet_ok pkt | Sweep now \<Rightarrow> True)"

definition is_frame :: "stage_op \<Rightarrow> bool" where
  "is_frame op = (case op of Frame alloc pkt \<Rightarrow> True | Sweep now \<Rightarrow> False)"

lemma run_ok:
  assumes "list_all op_ok ops" "engine_inv s a []" "acct st0 (all_alloc env) n s a"
  shows "\<exists>s' b. run_stage env ops s = Some s' \<and> engine_inv s' b [] \<and>
    acct st0 (all_alloc env) (n + length (filter is_frame ops)) s' b"
  using assms
proof (induction ops arbitrary: n s a)
  case (Cons op ops)
  have "\<exists>s1 b. stage_step env op s = Some s1 \<and> engine_inv s1 b [] \<and>
      acct st0 (all_alloc env) (n + (if is_frame op then 1 else 0)) s1 b"
  proof (cases op)
    case (Frame alloc pkt)
    then show ?thesis
      using packet_step [OF _ Cons.prems(2,3), of pkt alloc] Cons.prems(1) by (fastforce simp: op_ok_def is_frame_def)
  next
    case (Sweep now)
    then show ?thesis using tick_step [OF Cons.prems(2,3), of now] by (simp add: is_frame_def)
  qed
  then obtain s1 b where "stage_step env op s = Some s1" "engine_inv s1 b []"
    "acct st0 (all_alloc env) (n + (if is_frame op then 1 else 0)) s1 b" by blast
  then show ?case using Cons.IH [of s1 b] Cons.prems(1) by (fastforce split: if_splits)
qed auto

lemma new_engine:
  assumes "dns_stage_new junk alloc cfg out stats = Some s"
  shows "\<exists>a st. stats = Some st \<and> sg_stats s = st \<and> engine_inv s a [] \<and> pt_pending a = [] \<and> pt_emitted a = []"
proof -
  obtain cfg' q st c where p: "cfg = Some cfg'" "out = Some q" "stats = Some st"
    "cf_dns_correlator_new junk (cg_capacity cfg') (cg_query_timeout cfg') (cg_on_table_full cfg') = Some c"
    and s: "sg_stats s = st" "sg_correlator s = c" "sg_heap s = Map.empty"
    using assms by (auto simp: dns_stage_new_def split: option.splits if_splits)
  let ?a = "pt_new (cg_capacity cfg') (cg_query_timeout cfg') (cg_on_table_full cfg')"
  have "engine_inv s ?a []"
    using new_refines [OF p(4)] pt_new_inv(1) s by (simp add: engine_inv_def pend_ctx_def pt_new_def)
  then show ?thesis using p(3) s(1) by (auto simp: pt_new_def)
qed

lemma life_ok:
  assumes "dns_stage_new junk alloc cfg out stats = Some s" "list_all op_ok ops"
  shows "\<exists>st s' s'' b. stats = Some st \<and> run_stage env ops s = Some s' \<and> dns_stage_free env s' = Some s'' \<and>
    engine_inv s'' b [] \<and> pt_pending b = [] \<and> acct st (all_alloc env) (length (filter is_frame ops)) s'' b"
proof -
  obtain a st where a: "stats = Some st" "sg_stats s = st" "engine_inv s a []" "pt_pending a = []" "pt_emitted a = []"
    using new_engine [OF assms(1)] by blast
  then have "acct st (all_alloc env) 0 s a" by (simp add: acct_def owned_def emq_def emr_def map_filter_simps)
  from run_ok [OF assms(2) a(3) this] obtain s' b where r: "run_stage env ops s = Some s'" "engine_inv s' b []"
    "acct st (all_alloc env) (length (filter is_frame ops)) s' b" by auto
  from free_step [OF r(2,3)] show ?thesis using a(1) r(1) by blast
qed

text \<open>C3. Memory safety of the DNS stage over its whole life: whatever the frames, the sweeps, the
  allocations that fail and the outcome of the queue, the engine runs through the sequence and its
  shutdown without reading outside a frame, without using or freeing a context that is not live,
  and at the end no context is left.\<close>

theorem stage_no_leak:
  assumes "dns_stage_new junk alloc cfg out stats = Some s" "list_all op_ok ops"
  shows "\<exists>s' s''. run_stage env ops s = Some s' \<and> dns_stage_free env s' = Some s'' \<and> sg_heap s'' = Map.empty"
  using life_ok [OF assms, of env] by (auto simp: engine_inv_def pend_ctx_def)


section \<open>The thread\<close>

text \<open>One iteration of the thread sees the input queue as its producer left it and the clock. The
  thread stops at the end of the list and then drains a queue nobody fills any more.\<close>

fun dns_stage_thread_main ::
  "(nat \<Rightarrow> stage_env) \<Rightarrow> (alloc_site \<Rightarrow> bool) \<Rightarrow> (bytes \<Rightarrow> cf_packet_item) \<Rightarrow>
   ((cf_queue option \<Rightarrow> cf_queue option) \<times> int) list \<Rightarrow> cf_queue option \<Rightarrow> dns_stage \<Rightarrow> (cf_queue option \<times> dns_stage) option" where
  "dns_stage_thread_main env alloc read_item [] inq s = do {
     (inq, s) \<leftarrow> dns_stage_drain env alloc read_item inq s;
     s \<leftarrow> s;
     Some (inq, s) }"
| "dns_stage_thread_main env alloc read_item ((producer, now) # its) inq s =
    (case cf_queue_pop (producer inq) True of (rc, item, inq) \<Rightarrow>
       if rc = 0 then do {
         item \<leftarrow> item;
         (r, s) \<leftarrow> dns_stage_process_packet env alloc (read_item item) s;
         dns_stage_thread_main env alloc read_item its inq s }
       else do {
         s \<leftarrow> dns_stage_tick env now s;
         dns_stage_thread_main env alloc read_item its inq s })"

record dns_stage_thread =
  th_engine :: "dns_stage option"
  th_started :: bool

definition dns_stage_start ::
  "(nat \<Rightarrow> stage_env) \<Rightarrow> (nat \<Rightarrow> cf_dns_entry) \<Rightarrow> bool \<Rightarrow> bool \<Rightarrow> dns_stage_config option \<Rightarrow> cf_queue option \<Rightarrow>
   cf_queue option \<Rightarrow> cf_dns_source_stats option \<Rightarrow> dns_stage_thread \<Rightarrow> (int \<times> dns_stage_thread) option" where
  "dns_stage_start env junk alloc thread_ok cfg inq out stats g =
    (if cfg = None \<or> inq = None \<or> out = None \<or> stats = None then Some (- 1, g)
     else if th_started g then Some (- 1, g)
     else case dns_stage_new junk alloc cfg out stats of
         None \<Rightarrow> Some (- 1, \<lparr>th_engine = None, th_started = False\<rparr>)
       | Some s \<Rightarrow>
           if \<not> thread_ok then do {
             s' \<leftarrow> dns_stage_free env s;
             Some (- 1, \<lparr>th_engine = None, th_started = False\<rparr>) }
           else Some (0, \<lparr>th_engine = Some s, th_started = True\<rparr>))"

text \<open>The join waits for the thread to run its iterations and its drain; the store the engine leaves
  behind is part of the result.\<close>

definition dns_stage_stop ::
  "(nat \<Rightarrow> stage_env) \<Rightarrow> (alloc_site \<Rightarrow> bool) \<Rightarrow> (bytes \<Rightarrow> cf_packet_item) \<Rightarrow>
   ((cf_queue option \<Rightarrow> cf_queue option) \<times> int) list \<Rightarrow> cf_queue option \<Rightarrow> dns_stage_thread \<Rightarrow>
   (cf_queue option \<times> dns_stage option \<times> dns_stage_thread) option" where
  "dns_stage_stop env alloc read_item its inq g =
    (if \<not> th_started g then Some (inq, None, g)
     else do {
       s \<leftarrow> th_engine g;
       (inq, s) \<leftarrow> dns_stage_thread_main env alloc read_item its inq s;
       s \<leftarrow> dns_stage_free env s;
       Some (inq, Some s, g\<lparr>th_engine := None, th_started := False\<rparr>) })"

text \<open>The queue holds well-formed packets.\<close>

definition feed_inv :: "(bytes \<Rightarrow> cf_packet_item) \<Rightarrow> cf_queue option \<Rightarrow> bool" where
  "feed_inv read_item q \<longleftrightarrow> qp_inv q \<and> (\<forall>e \<in> set (qp_list q). packet_ok (read_item e))"

lemma drain_fold:
  assumes "\<forall>e \<in> set es. packet_ok (read_item e)" "engine_inv s a []" "acct st0 (all_alloc env) n s a"
  shows "\<exists>s' b. fold (\<lambda>item s. do { s \<leftarrow> s; (rc, s) \<leftarrow> dns_stage_process_packet env alloc (read_item item) s; Some s })
      es (Some s) = Some s' \<and> engine_inv s' b [] \<and> acct st0 (all_alloc env) (n + length es) s' b"
  using assms
proof (induction es arbitrary: n s a)
  case (Cons e es)
  then obtain rc s1 b where "dns_stage_process_packet env alloc (read_item e) s = Some (rc, s1)" "engine_inv s1 b []"
    "acct st0 (all_alloc env) (Suc n) s1 b"
    using packet_step [OF _ Cons.prems(2,3), of "read_item e" alloc] by auto
  then show ?case using Cons.IH [of s1 b "Suc n"] Cons.prems(1) by simp
qed auto

lemma drain_ok:
  assumes "feed_inv read_item inq" "engine_inv s a []" "acct st0 (all_alloc env) n s a"
  shows "\<exists>q s' b. dns_stage_drain env alloc read_item inq s = Some (q, Some s') \<and> qp_list q = [] \<and>
    engine_inv s' b [] \<and> acct st0 (all_alloc env) (n + length (qp_list inq)) s' b"
proof -
  let ?P = "\<lambda>item s. do { s \<leftarrow> s; (rc, s) \<leftarrow> dns_stage_process_packet env alloc (read_item item) s; Some s }"
  have i: "\<forall>e \<in> set (qp_list inq). packet_ok (read_item e)" "qp_inv inq" using assms(1) by (auto simp: feed_inv_def)
  obtain s' b where s': "fold ?P (qp_list inq) (Some s) = Some s'" "engine_inv s' b []"
    "acct st0 (all_alloc env) (n + length (qp_list inq)) s' b"
    using drain_fold [OF i(1) assms(2,3), of alloc] by blast
  obtain q where "drain_loop (\<lambda>p. cf_queue_pop p True) ?P inq (Some s) = Some (q, fold ?P (qp_list inq) (Some s))"
    "qp_list q = []" using ringq.drain_contents [OF i(2), of ?P "Some s"] by blast
  then show ?thesis using s' by (auto simp: dns_stage_drain_def)
qed

lemma thread_ok:
  assumes "feed_inv read_item inq" "engine_inv s a []" "acct st0 (all_alloc env) n s a"
    "\<forall>(producer, now) \<in> set its. \<forall>q. feed_inv read_item q \<longrightarrow> feed_inv read_item (producer q)"
  shows "\<exists>q s' b m. dns_stage_thread_main env alloc read_item its inq s = Some (q, s') \<and> qp_list q = [] \<and>
    engine_inv s' b [] \<and> acct st0 (all_alloc env) m s' b"
  using assms
proof (induction its arbitrary: inq s a n)
  case Nil
  then show ?case using drain_ok [OF Nil.prems(1-3), of alloc] by fastforce
next
  case (Cons it its)
  obtain producer now where it: "it = (producer, now)" by force
  let ?q = "producer inq"
  have q: "qp_inv ?q" "\<forall>e \<in> set (qp_list ?q). packet_ok (read_item e)"
    using Cons.prems(1,4) it by (auto simp: feed_inv_def)
  show ?case
  proof (cases "qp_list ?q")
    case Nil
    then obtain q' where p: "cf_queue_pop ?q True = (1, None, q')" "feed_inv read_item q'"
      using ringq.pop_empty [OF q(1)] q by (auto simp: feed_inv_def)
    obtain s1 b where s1: "dns_stage_tick env now s = Some s1" "engine_inv s1 b []" "acct st0 (all_alloc env) n s1 b"
      using tick_step [OF Cons.prems(2,3), of now] by blast
    show ?thesis using Cons.IH [OF p(2) s1(2,3)] Cons.prems(4) p(1) s1(1) it by auto
  next
    case (Cons e es)
    then obtain q' where p: "cf_queue_pop ?q True = (0, Some e, q')" "feed_inv read_item q'"
      using ringq.pop_some [OF q(1)] q by (auto simp: feed_inv_def)
    obtain rc s1 b where s1: "dns_stage_process_packet env alloc (read_item e) s = Some (rc, s1)" "engine_inv s1 b []"
      "acct st0 (all_alloc env) (Suc n) s1 b"
      using packet_step [OF _ Cons.prems(2,3), of "read_item e" alloc] q(2) Cons by auto
    show ?thesis using Cons.IH [OF p(2) s1(2,3)] Cons.prems(4) p(1) s1(1) it by auto
  qed
qed


section \<open>Keys\<close>

text \<open>The message of the other direction: swapped ends, the same question up to ASCII case.\<close>

definition reply_of :: "dns_l2l4 \<Rightarrow> dns_l2l4 \<Rightarrow> bool" where
  "reply_of d r \<longleftrightarrow> d_transport r = d_transport d \<and> ip_version r = ip_version d \<and> src_ip r = dst_ip d \<and>
    dst_ip r = src_ip d \<and> d_src_port r = d_dst_port d \<and> d_dst_port r = d_src_port d"

definition same_question :: "'a dns_message_scheme \<Rightarrow> 'b dns_message_scheme \<Rightarrow> bool" where
  "same_question m n \<longleftrightarrow> h_id (m_header n) = h_id (m_header m) \<and>
    (case (m_questions m, m_questions n) of
       ([], []) \<Rightarrow> True
     | (p # ps, q # qs) \<Rightarrow> map canonical_byte (cstr (q_qname q)) = map canonical_byte (cstr (q_qname p)) \<and>
         q_qtype q = q_qtype p \<and> q_qclass q = q_qclass p
     | _ \<Rightarrow> False)"

text \<open>C32. A query and its response get the same correlation key: for swapped addresses and ports,
  with port 53 at exactly one end, and the same id and question up to the case of its letters, the
  keys agree, whatever else the two frames carry.\<close>

theorem build_key_symmetric:
  assumes "reply_of d r" "same_question m n" "(d_src_port d = 53) \<noteq> (d_dst_port d = 53)"
  shows "dns_build_key r n local_is_server = dns_build_key d m local_is_server"
proof -
  have ends: "(if d_dst_port r = 53 then (dst_ip r, d_dst_port r, src_ip r, d_src_port r)
      else if d_src_port r = 53 then (src_ip r, d_src_port r, dst_ip r, d_dst_port r)
      else (dst_ip r, d_dst_port r, src_ip r, d_src_port r)) =
    (if d_dst_port d = 53 then (dst_ip d, d_dst_port d, src_ip d, d_src_port d)
      else if d_src_port d = 53 then (src_ip d, d_src_port d, dst_ip d, d_dst_port d)
      else (dst_ip d, d_dst_port d, src_ip d, d_src_port d))"
    using assms(1,3) by (auto simp: reply_of_def)
  have same: "d_transport r = d_transport d" "ip_version r = ip_version d" "h_id (m_header n) = h_id (m_header m)"
    using assms(1,2) by (simp_all add: reply_of_def same_question_def)
  show ?thesis
  proof (cases "m_questions m")
    case Nil
    then have "m_questions n = []" using assms(2) by (auto simp: same_question_def split: list.splits)
    with Nil show ?thesis unfolding dns_build_key_def ends same by simp
  next
    case (Cons p ps)
    then obtain q qs where q: "m_questions n = q # qs" "q_qtype q = q_qtype p" "q_qclass q = q_qclass p"
      and c: "map canonical_byte (cstr (q_qname q)) = map canonical_byte (cstr (q_qname p))"
      using assms(2) by (auto simp: same_question_def split: list.splits)
    have l: "length (cstr (q_qname q)) = length (cstr (q_qname p))"
      "map canonical_byte (take i (cstr (q_qname q))) = map canonical_byte (take i (cstr (q_qname p)))" for i
      using arg_cong [OF c, of length] arg_cong [OF c, of "take i"] by (simp_all add: take_map)
    show ?thesis unfolding dns_build_key_def ends same Cons q(1) Let_def by (simp add: q(2,3) l)
  qed
qed

definition sample_view :: "bytes \<Rightarrow> u16 \<Rightarrow> bytes \<Rightarrow> u16 \<Rightarrow> dns_l2l4" where
  "sample_view sip sp dip dp = l2l4_zero\<lparr>ip_version := 4, src_ip := sip, d_src_port := sp, dst_ip := dip, d_dst_port := dp\<rparr>"

definition sample_message :: "string \<Rightarrow> bool \<Rightarrow> dns_message" where
  "sample_message name resp =
    \<lparr>m_header = \<lparr>h_id = 7, h_qr = resp, h_opcode = 0, h_aa = False, h_tc = False, h_rd = True, h_ra = False, h_ad = False,
       h_cd = False, h_rcode = 0, h_qdcount = 1, h_ancount = 0, h_nscount = 0, h_arcount = 0\<rparr>,
     m_questions = [\<lparr>q_qname = name, q_qname_wire = [], q_qtype = 1, q_qtype_name = ''A'', q_qclass = 1\<rparr>],
     m_answers = [], m_authority = [], m_additional = [], m_edns = None\<rparr>"

text \<open>Away from port 53 the two directions of a transaction get different keys: there are a
  query and its response, with swapped ends and the same question, whose keys differ.\<close>

theorem build_key_differs_off_port_53:
  "\<exists>d r (m :: dns_message) (n :: dns_message). reply_of d r \<and> same_question m n \<and> d_src_port d = 40000 \<and> d_dst_port d = 5300 \<and>
    dns_build_key r n True \<noteq> dns_build_key d m True"
proof -
  let ?a = "replicate 16 1 :: bytes" and ?b = "replicate 16 2 :: bytes"
  let ?d = "sample_view ?a 40000 ?b 5300" and ?r = "sample_view ?b 5300 ?a 40000"
  let ?m = "sample_message ''a'' False" and ?n = "sample_message ''a'' True"
  have "k_client_port (dns_build_key ?r ?n True) = 5300" "k_client_port (dns_build_key ?d ?m True) = 40000"
    by (simp_all add: dns_build_key_def sample_view_def sample_message_def Let_def)
  then have "dns_build_key ?r ?n True \<noteq> dns_build_key ?d ?m True" by auto
  moreover have "reply_of ?d ?r" "same_question ?m ?n" "d_src_port ?d = 40000" "d_dst_port ?d = 5300"
    by (simp_all add: reply_of_def same_question_def sample_view_def sample_message_def)
  ultimately show ?thesis by blast
qed

section \<open>Witnesses\<close>

theorem build_key_symmetric_witness:
  "dns_build_key (sample_view (replicate 16 2) 53 (replicate 16 1) 40000) (sample_message ''ExAmple.com'' True) True =
   dns_build_key (sample_view (replicate 16 1) 40000 (replicate 16 2) 53) (sample_message ''example.COM'' False) True"
proof (rule build_key_symmetric)
  show "same_question (sample_message ''example.COM'' False) (sample_message ''ExAmple.com'' True)" by code_simp
qed (simp_all add: reply_of_def sample_view_def)

definition source_stats_zero :: cf_dns_source_stats where
  "source_stats_zero = \<lparr>packets_skipped_total = 0, decode_parse_failure_total = 0, dns_tcp_partial_total = 0,
    dns_queries_parsed_total = 0, dns_responses_parsed_total = 0, dns_transactions_emitted_total = 0,
    dns_transactions_emitted_client_facing_total = 0, dns_transactions_emitted_backend_total = 0,
    dns_transactions_emitted_recursion_upstream_total = 0, dns_transactions_emitted_unknown_total = 0,
    dns_query_unanswered_total = 0, dns_response_unmatched_total = 0, dns_pending_drop_total = 0,
    dns_pending_evicted_collision_total = 0, dns_rtt_invalid_total = 0, dns_pending_table_depth = 0,
    dns_sampled_out_total = 0, protobuf_encode_failure_total = 0, events_oversize_dropped_total = 0,
    formatter_queue_drop_total = 0, formatter_queue_depth = 0\<rparr>"

definition sample_cfg :: dns_stage_config where
  "sample_cfg = \<lparr>cg_source_host = Some ''h'', cg_source_instance = None, cg_capture_interface = Some ''eth0'',
    cg_observation_method = None, cg_on_full = CF_ONFULL_DROP_NEWEST, cg_capacity = 2, cg_query_timeout = 100,
    cg_on_table_full = CF_DNS_ON_FULL_DROP_OLDEST, cg_local_addrs = None, cg_backend_addrs = None, cg_role_map = None,
    cg_emit_policy = \<lparr>ep_mode = CF_DNS_EMIT_ALL, ep_sample_denominator = 0\<rparr>\<rparr>"

definition sample_queue :: "cf_queue option" where
  "sample_queue = Some \<lparr>q_storage = Some (replicate 6 0), q_element_size = 2, q_capacity = 3, q_head = 1, q_tail = 1\<rparr>"

definition sample_input :: "cf_queue option" where
  "sample_input = Some \<lparr>q_storage = Some (replicate 6 0), q_element_size = 2, q_capacity = 3, q_head = 0, q_tail = 1\<rparr>"

definition sample_env :: stage_env where
  "sample_env = \<lparr>se_pack = (\<lambda>ev. [1, 2]), se_item_bytes = (\<lambda>item. take 2 (ei_payload item)), se_item_size = 2, se_now = 5,
    se_stop = (\<lambda>i. True), se_consumer = (\<lambda>i q. q), se_alloc = (\<lambda>site. True), se_stale = []\<rparr>"

text \<open>A query for the name \<open>W\<close> to port 53.\<close>

definition sample_packet :: cf_packet_item where
  "sample_packet = \<lparr>pi_observed_time = 10, pi_packet_len = 61, pi_captured_len = 61, pi_flags = 0,
    pi_data = [1,2,3,4,5,6, 7,8,9,10,11,12, 8,0, 0x45,0,0,47, 0,7,0,0, 64,17,0,0, 10,0,0,1, 10,0,0,2,
      156,64,0,53, 0,27,0,0] @ [0x12,0x34, 1,0, 0,1, 0,0, 0,0, 0,0, 1,87,0, 0,1, 0,1]\<rparr>"

definition sample_stage :: dns_stage where
  "sample_stage = the (dns_stage_new sample_junk True (Some sample_cfg) sample_queue (Some source_stats_zero))"

lemma sample_stage_ok:
  "dns_stage_new sample_junk True (Some sample_cfg) sample_queue (Some source_stats_zero) = Some sample_stage"
  using sample_new_ok by (simp add: sample_stage_def dns_stage_new_def sample_cfg_def sample_queue_def)

definition sample_stage_ops :: "stage_op list" where
  "sample_stage_ops = [Frame (\<lambda>site. True) sample_packet, Sweep 60, Frame (\<lambda>site. site \<noteq> At_Ctx) sample_packet]"

lemma sample_stage_ops_ok: "list_all op_ok sample_stage_ops"
  by (simp add: sample_stage_ops_def op_ok_def packet_ok_def sample_packet_def)

theorem stage_no_leak_witness:
  "\<exists>s' s''. run_stage (\<lambda>i. sample_env) sample_stage_ops sample_stage = Some s' \<and>
    dns_stage_free (\<lambda>i. sample_env) s' = Some s'' \<and> sg_heap s'' = Map.empty"
  by (rule stage_no_leak [OF sample_stage_ok sample_stage_ops_ok])



end
