(* ===== verification/Sink_World.thy ===== *)
theory Sink_World
  imports Parse_Util
begin

text \<open>
  What a sink sees of its surroundings: the counters of \<^verbatim>\<open>libs/cloudflow-sink-core/cf_sink_stats.c\<close>, the
  Redis replies and connections, the HTTP transfers, the clock, the stop flag and the allocator.

  Every question the code asks outside is answered by the environment as a function of its
  position in the run (\<open>w_tick\<close>), so that the environment is arbitrary and may change between any
  two questions. The history \<open>w_log\<close> records the commands, transfers, lines and connections in the
  order of their effects. A command on a NULL or released connection and a second release of a
  connection, which are undefined behaviour of the client library, set \<open>w_crashed\<close>.
\<close>

section \<open>Counters\<close>

record cf_stats =
  splunk_delivery_total :: nat
  splunk_delivery_errors_total :: nat
  splunk_retry_total :: nat
  deadletter_total :: nat
  protobuf_decode_errors_total :: nat
  splunk_batch_size_last :: nat
  splunk_delivery_latency_ms_last :: nat
  redis_stream_lag :: nat
  last_emit_mono_ns :: int

section \<open>Replies, commands, history\<close>

text \<open>A reply of the Redis client library; array elements may be NULL. Strings are counted.\<close>

datatype redisReply =
    Reply_String string
  | Reply_Array "redisReply option list"
  | Reply_Integer int
  | Reply_Nil
  | Reply_Status string
  | Reply_Error string

text \<open>The field \<open>str\<close> of a reply.\<close>

definition reply_str :: "redisReply \<Rightarrow> string option" where
  "reply_str r = (case r of Reply_String s \<Rightarrow> Some s | Reply_Status s \<Rightarrow> Some s | Reply_Error s \<Rightarrow> Some s | _ \<Rightarrow> None)"

type_synonym command = "string list"
type_synonym conn = nat

record cf_batch_item =
  it_stream :: string
  it_entry_id :: string
  it_line :: string
  it_payload :: string

text \<open>\<open>Seen\<close> marks the entry the consumer takes up; \<open>Slept\<close> is in nanoseconds.\<close>

datatype event =
    Command command "redisReply option"
  | Post string int
  | Print string
  | Connect string "conn option"
  | Free_Conn conn
  | Slept nat
  | Seen string string "redisReply option"

record sink_world =
  w_tick :: nat
  w_log :: "event list"
  w_stats :: cf_stats
  w_open :: "conn list"
  w_next :: conn
  w_crashed :: bool

text \<open>The answers of the surroundings. A transfer ends in an error text or in a status and the
  pieces of the body; a connection attempt returns NULL, a context in error, or a healthy one.\<close>

datatype connect_result = Connect_Null | Connect_Err | Connect_Ok

record sink_env =
  e_stop :: "nat \<Rightarrow> bool"
  e_now :: "nat \<Rightarrow> int"
  e_alloc :: "nat \<Rightarrow> bool"
  e_curl :: "nat \<Rightarrow> string \<Rightarrow> string + int \<times> string list"
  e_redis :: "nat \<Rightarrow> command \<Rightarrow> redisReply option"
  e_conn_err :: "nat \<Rightarrow> bool"
  e_connect :: "nat \<Rightarrow> string \<Rightarrow> int \<Rightarrow> connect_result"

definition ask :: "(nat \<Rightarrow> 'a) \<Rightarrow> sink_world \<Rightarrow> 'a \<times> sink_world" where
  "ask f w = (f (w_tick w), w\<lparr>w_tick := Suc (w_tick w)\<rparr>)"

definition note_event :: "event \<Rightarrow> sink_world \<Rightarrow> sink_world" where
  "note_event e w = w\<lparr>w_log := w_log w @ [e]\<rparr>"

definition tally :: "(cf_stats \<Rightarrow> cf_stats) \<Rightarrow> sink_world \<Rightarrow> sink_world" where
  "tally f w = w\<lparr>w_stats := f (w_stats w)\<rparr>"

text \<open>A decimal number with its sign, as \<open>%d\<close>, \<open>%ld\<close> and \<open>%lld\<close> print it.\<close>

definition int_string :: "int \<Rightarrow> string" where
  "int_string i = (if i < 0 then ''-'' @ dec_string (nat (- i)) else dec_string (nat i))"

section \<open>Connections\<close>

definition redisCommand :: "sink_env \<Rightarrow> conn option \<Rightarrow> command \<Rightarrow> sink_world \<Rightarrow> redisReply option \<times> sink_world" where
  "redisCommand env ctx cmd w =
    (case ctx of
       None \<Rightarrow> (None, w\<lparr>w_crashed := True\<rparr>)
     | Some k \<Rightarrow>
         if k \<notin> set (w_open w) then (None, w\<lparr>w_crashed := True\<rparr>)
         else case ask (\<lambda>i. e_redis env i cmd) w of (r, w) \<Rightarrow> (r, note_event (Command cmd r) w))"

definition redisFree :: "conn \<Rightarrow> sink_world \<Rightarrow> sink_world" where
  "redisFree k w =
    (if k \<in> set (w_open w) then note_event (Free_Conn k) (w\<lparr>w_open := filter (\<lambda>j. j \<noteq> k) (w_open w)\<rparr>)
     else (note_event (Free_Conn k) w)\<lparr>w_crashed := True\<rparr>)"

text \<open>A connection attempt that returns a context opens one; a context in error is open too.\<close>

definition redisConnect :: "sink_env \<Rightarrow> string \<Rightarrow> int \<Rightarrow> sink_world \<Rightarrow> (conn \<times> bool) option \<times> sink_world" where
  "redisConnect env host port w =
    (case ask (\<lambda>i. e_connect env i host port) w of
       (Connect_Null, w) \<Rightarrow> (None, note_event (Connect host None) w)
     | (r, w) \<Rightarrow> (Some (w_next w, r = Connect_Err),
         (note_event (Connect host (Some (w_next w))) w)\<lparr>w_open := w_next w # w_open w, w_next := w_next w + 1\<rparr>))"

section \<open>The growable buffer\<close>

text \<open>\<^verbatim>\<open>cf_sink_buf_t\<close>: its bytes (without the terminator) and its capacity; \<open>realloc\<close> may fail.\<close>

record cf_sink_buf =
  b_data :: string
  b_cap :: nat

function grow_cap :: "nat \<Rightarrow> nat \<Rightarrow> nat" where
  "grow_cap newcap need = (if newcap = 0 then 0 else if newcap < need then grow_cap (newcap * 2) need else newcap)"
  by auto
termination
  by (relation "measure (\<lambda>(newcap, need). need - newcap)") auto

declare grow_cap.simps [simp del]

definition cf_sink_buf_append :: "bool \<Rightarrow> cf_sink_buf \<Rightarrow> string \<Rightarrow> int \<times> cf_sink_buf" where
  "cf_sink_buf_append alloc b s =
    (let need = length (b_data b) + length s + 1 in
     if need > b_cap b then
       (if \<not> alloc then (- 1, b)
        else (0, b\<lparr>b_data := b_data b @ s, b_cap := grow_cap (if b_cap b = 0 then 256 else b_cap b * 2) need\<rparr>))
     else (0, b\<lparr>b_data := b_data b @ s\<rparr>))"

definition cf_sink_buf_reset :: "cf_sink_buf \<Rightarrow> cf_sink_buf" where
  "cf_sink_buf_reset b = b\<lparr>b_data := []\<rparr>"

definition cf_sink_buf_free :: "cf_sink_buf \<Rightarrow> cf_sink_buf" where
  "cf_sink_buf_free b = \<lparr>b_data = [], b_cap = 0\<rparr>"

definition buf_ok :: "cf_sink_buf \<Rightarrow> bool" where
  "buf_ok b \<longleftrightarrow> (if b_cap b = 0 then b_data b = [] else length (b_data b) < b_cap b)"

lemma grow_cap_enough: "0 < newcap \<Longrightarrow> need \<le> grow_cap newcap need"
proof (induction newcap need rule: grow_cap.induct)
  case (1 newcap need)
  then show ?case by (subst grow_cap.simps) auto
qed

text \<open>The accumulator always has room for its bytes and the terminator, and appending keeps what
  was there, whether or not the allocation succeeds.\<close>

lemma sink_buf_append_ok:
  assumes "buf_ok b" "cf_sink_buf_append alloc b s = (rc, b')"
  shows "buf_ok b' \<and> (rc = 0 \<and> b_data b' = b_data b @ s \<or> rc = - 1 \<and> b' = b)"
  using assms grow_cap_enough [of "if b_cap b = 0 then 256 else b_cap b * 2" "length (b_data b) + length s + 1"]
  by (auto simp: cf_sink_buf_append_def buf_ok_def Let_def split: if_splits)

section \<open>Statistics\<close>

definition cf_stats_init :: "sink_env \<Rightarrow> sink_world \<Rightarrow> sink_world" where
  "cf_stats_init env w =
    (case ask (e_now env) w of (t, w) \<Rightarrow>
       w\<lparr>w_stats := \<lparr>splunk_delivery_total = 0, splunk_delivery_errors_total = 0, splunk_retry_total = 0,
         deadletter_total = 0, protobuf_decode_errors_total = 0, splunk_batch_size_last = 0,
         splunk_delivery_latency_ms_last = 0, redis_stream_lag = 0, last_emit_mono_ns = t\<rparr>\<rparr>)"

text \<open>The log line itself is not modelled.\<close>

definition cf_stats_emit :: "sink_env \<Rightarrow> sink_world \<Rightarrow> sink_world" where
  "cf_stats_emit env w = (case ask (e_now env) w of (t, w) \<Rightarrow> tally (\<lambda>s. s\<lparr>last_emit_mono_ns := t\<rparr>) w)"

definition cf_stats_maybe_emit :: "sink_env \<Rightarrow> int \<Rightarrow> sink_world \<Rightarrow> sink_world" where
  "cf_stats_maybe_emit env interval_ms w =
    (case ask (e_now env) w of (t, w) \<Rightarrow>
       if t - last_emit_mono_ns (w_stats w) \<ge> interval_ms * 1000000 then cf_stats_emit env w else w)"

section \<open>What a step of the surroundings may change\<close>

text \<open>\<open>w'\<close> comes after \<open>w\<close>: the history grew by \<open>new\<close>, questions were only added.\<close>

definition later :: "sink_world \<Rightarrow> sink_world \<Rightarrow> event list \<Rightarrow> bool" where
  "later w w' new \<longleftrightarrow> w_log w' = w_log w @ new \<and> w_tick w \<le> w_tick w'"

lemma later_refl [simp]: "later w w []"
  by (simp add: later_def)

lemma later_trans: "later w w' xs \<Longrightarrow> later w' w'' ys \<Longrightarrow> later w w'' (xs @ ys)"
  by (auto simp: later_def)

lemma ask_simps [simp]:
  "w_log (snd (ask f w)) = w_log w" "w_tick (snd (ask f w)) = Suc (w_tick w)" "w_stats (snd (ask f w)) = w_stats w"
  "w_open (snd (ask f w)) = w_open w" "w_next (snd (ask f w)) = w_next w" "w_crashed (snd (ask f w)) = w_crashed w"
  "fst (ask f w) = f (w_tick w)"
  by (simp_all add: ask_def)

lemma note_simps [simp]:
  "w_log (note_event e w) = w_log w @ [e]" "w_tick (note_event e w) = w_tick w" "w_stats (note_event e w) = w_stats w"
  "w_open (note_event e w) = w_open w" "w_next (note_event e w) = w_next w" "w_crashed (note_event e w) = w_crashed w"
  by (simp_all add: note_event_def)

lemma tally_simps [simp]:
  "w_log (tally f w) = w_log w" "w_tick (tally f w) = w_tick w" "w_stats (tally f w) = f (w_stats w)"
  "w_open (tally f w) = w_open w" "w_next (tally f w) = w_next w" "w_crashed (tally f w) = w_crashed w"
  by (simp_all add: tally_def)

end
