(* ===== verification/Sink_Deliver.thy ===== *)
theory Sink_Deliver
  imports Sink_World
begin

text \<open>
  The batched HTTP delivery of \<^verbatim>\<open>libs/cloudflow-sink-core/cf_sink_httpdeliver.c\<close> and the HEC transfer of
  \<^verbatim>\<open>cf_sink_hec.c\<close>: retry with backoff, bisection of a rejected batch, stop on shutdown.

  Seconds are counted in hundredths (the backoff 1, 2, 4, 8, 16, 30 s and the slice 0.05 s are
  whole numbers of them); the rounding of the \<open>double\<close> subtraction is not modelled. The retry loop
  may run forever: it is a partial function whose value is \<open>None\<close> when it does not return.
\<close>

section \<open>One transfer\<close>

abbreviation CF_HEC_BODY_PREFIX_MAX :: nat where "CF_HEC_BODY_PREFIX_MAX \<equiv> 200"
abbreviation CF_DELIVER_BODY_PREFIX_MAX :: nat where "CF_DELIVER_BODY_PREFIX_MAX \<equiv> 200"

text \<open>\<open>write_cb\<close>: the bounded copy of the response.\<close>

definition write_cb :: "string \<Rightarrow> string \<Rightarrow> string" where
  "write_cb rb chunk =
    (let room = CF_HEC_BODY_PREFIX_MAX - length rb
     in if room > 0 then rb @ take (if length chunk < room then length chunk else room) chunk else rb)"

definition hec_post_once :: "sink_env \<Rightarrow> string \<Rightarrow> nat \<Rightarrow> sink_world \<Rightarrow> int \<times> string \<times> sink_world" where
  "hec_post_once env body errcap w =
    (case ask (\<lambda>i. e_curl env i body) w of
       (Inl err, w) \<Rightarrow> (- 1, snprintf errcap err, note_event (Post body (- 1)) w)
     | (Inr (status, chunks), w) \<Rightarrow>
         (status, snprintf errcap (cstr (foldl write_cb [] chunks)), note_event (Post body status) w))"

section \<open>The retry loop\<close>

abbreviation CF_DELIVER_BACKOFF_INITIAL :: nat where "CF_DELIVER_BACKOFF_INITIAL \<equiv> 100"
abbreviation CF_DELIVER_BACKOFF_MAX :: nat where "CF_DELIVER_BACKOFF_MAX \<equiv> 3000"
abbreviation CF_DELIVER_SLEEP_SLICE :: nat where "CF_DELIVER_SLEEP_SLICE \<equiv> 5"

fun join_lines :: "string list \<Rightarrow> string" where
  "join_lines [] = []"
| "join_lines [l] = l"
| "join_lines (l # m # ls) = l @ [CHR 0x0A] @ join_lines (m # ls)"

definition build_body :: "cf_batch_item list \<Rightarrow> nat \<Rightarrow> nat \<Rightarrow> string" where
  "build_body items lo cnt = join_lines (map (\<lambda>i. cstr (it_line (items ! (lo + i)))) [0..<cnt])"

function deliver_sleep :: "sink_env \<Rightarrow> nat \<Rightarrow> sink_world \<Rightarrow> sink_world" where
  "deliver_sleep env remaining w =
    (if remaining = 0 then w
     else case ask (e_stop env) w of (stop, w) \<Rightarrow>
       if stop then w
       else let chunk = (if remaining < CF_DELIVER_SLEEP_SLICE then remaining else CF_DELIVER_SLEEP_SLICE)
            in deliver_sleep env (remaining - chunk) (note_event (Slept (chunk * 10000000)) w))"
  by auto
termination
  by (relation "measure (\<lambda>(env, remaining, w). remaining)") auto

declare deliver_sleep.simps [simp del]

definition next_backoff :: "nat \<Rightarrow> nat" where
  "next_backoff backoff = (if backoff * 2 > CF_DELIVER_BACKOFF_MAX then CF_DELIVER_BACKOFF_MAX else backoff * 2)"

definition retryable :: "int \<Rightarrow> bool" where
  "retryable status \<longleftrightarrow> status \<le> 0 \<or> status = 429 \<or> status \<ge> 500"

definition success :: "int \<Rightarrow> bool" where
  "success status \<longleftrightarrow> status \<ge> 200 \<and> status < 300"

datatype post_result = Stopped | Accepted | Rejected int string

type_synonym post_fn = "string \<Rightarrow> nat \<Rightarrow> sink_world \<Rightarrow> int \<times> string \<times> sink_world"

definition accepted_stats :: "nat \<Rightarrow> int \<Rightarrow> cf_stats \<Rightarrow> cf_stats" where
  "accepted_stats cnt dt s = s\<lparr>splunk_delivery_latency_ms_last := nat (dt div 1000000),
     splunk_delivery_total := splunk_delivery_total s + cnt, splunk_batch_size_last := cnt\<rparr>"

definition inc_retry :: "cf_stats \<Rightarrow> cf_stats" where
  "inc_retry s = s\<lparr>splunk_retry_total := splunk_retry_total s + 1\<rparr>"

definition inc_errors :: "cf_stats \<Rightarrow> cf_stats" where
  "inc_errors s = s\<lparr>splunk_delivery_errors_total := splunk_delivery_errors_total s + 1\<rparr>"

text \<open>The transfer of one attempt, with the clock before and after it.\<close>

definition post_timed :: "sink_env \<Rightarrow> post_fn \<Rightarrow> string \<Rightarrow> sink_world \<Rightarrow> int \<times> string \<times> int \<times> sink_world" where
  "post_timed env post_once body w =
    (case ask (e_now env) w of (t0, w) \<Rightarrow>
     case post_once body (CF_DELIVER_BODY_PREFIX_MAX + 1) w of (status, prefix, w) \<Rightarrow>
     case ask (e_now env) w of (t1, w) \<Rightarrow> (status, prefix, t1 - t0, w))"

partial_function (option) retry_loop ::
  "sink_env \<Rightarrow> post_fn \<Rightarrow> string \<Rightarrow> nat \<Rightarrow> nat \<Rightarrow> sink_world \<Rightarrow> (post_result \<times> nat \<times> sink_world) option" where
  "retry_loop env post_once body cnt backoff w =
    (case ask (e_stop env) w of (stop, w) \<Rightarrow>
     if stop then Some (Stopped, backoff, w)
     else case ask (e_alloc env) w of (ok, w) \<Rightarrow>
     if \<not> ok then
       retry_loop env post_once body cnt (next_backoff backoff) (deliver_sleep env backoff (tally inc_retry w))
     else case post_timed env post_once body w of (status, prefix, dt, w) \<Rightarrow>
       if success status then Some (Accepted, backoff, tally (accepted_stats cnt dt) w)
       else if retryable status then
         retry_loop env post_once body cnt (next_backoff backoff)
           (deliver_sleep env backoff (tally inc_errors (tally inc_retry w)))
       else Some (Rejected status prefix, backoff, w))"

declare retry_loop.simps [code]

section \<open>Bisection\<close>

record marks =
  mk_delivered :: "bool list"
  mk_poison :: "bool list"
  mk_errs :: "string option list"

definition mark_delivered :: "nat \<Rightarrow> nat \<Rightarrow> marks \<Rightarrow> marks" where
  "mark_delivered lo cnt m = m\<lparr>mk_delivered := foldl (\<lambda>d i. d[lo + i := True]) (mk_delivered m) [0..<cnt]\<rparr>"

definition poison_message :: "int \<Rightarrow> string \<Rightarrow> string" where
  "poison_message status prefix = snprintf (64 + CF_DELIVER_BODY_PREFIX_MAX) (''HTTP '' @ int_string status @ '': '' @ prefix)"

definition mark_poison :: "nat \<Rightarrow> string option \<Rightarrow> marks \<Rightarrow> marks" where
  "mark_poison lo err m = m\<lparr>mk_poison := (mk_poison m)[lo := True], mk_errs := (mk_errs m)[lo := err]\<rparr>"

function send_range ::
  "sink_env \<Rightarrow> post_fn \<Rightarrow> cf_batch_item list \<Rightarrow> nat \<Rightarrow> nat \<Rightarrow> nat \<Rightarrow> marks \<Rightarrow> sink_world \<Rightarrow> (marks \<times> sink_world) option" where
  "send_range env post_once items lo cnt backoff m w =
    (if cnt = 0 then Some (m, w)
     else do {
       (r, backoff, w) \<leftarrow> retry_loop env post_once (build_body items lo cnt) cnt backoff w;
       (case r of
          Stopped \<Rightarrow> Some (m, w)
        | Accepted \<Rightarrow> Some (mark_delivered lo cnt m, w)
        | Rejected status prefix \<Rightarrow>
            let w = tally inc_errors w in
            if cnt = 1 then
              case ask (e_alloc env) w of (ok, w) \<Rightarrow>
                Some (mark_poison lo (if ok then Some (poison_message status prefix) else None) m, w)
            else do {
              (m, w) \<leftarrow> send_range env post_once items lo (cnt div 2) backoff m w;
              send_range env post_once items (lo + cnt div 2) (cnt - cnt div 2) backoff m w }) })"
  by auto
termination
  by (relation "measure (\<lambda>(env, post, items, lo, cnt, backoff, m, w). cnt)") auto

declare send_range.simps [simp del]

definition cf_sink_http_deliver_batched ::
  "sink_env \<Rightarrow> post_fn \<Rightarrow> cf_batch_item list \<Rightarrow> sink_world \<Rightarrow> (marks \<times> sink_world) option" where
  "cf_sink_http_deliver_batched env post_once items w =
    (let n = length items; m = \<lparr>mk_delivered = replicate n False, mk_poison = replicate n False, mk_errs = replicate n None\<rparr>
     in if n = 0 then Some (m, w) else send_range env post_once items 0 n CF_DELIVER_BACKOFF_INITIAL m w)"

definition cf_hec_client_send_batch :: "sink_env \<Rightarrow> cf_batch_item list \<Rightarrow> sink_world \<Rightarrow> (marks \<times> sink_world) option" where
  "cf_hec_client_send_batch env items w = cf_sink_http_deliver_batched env (hec_post_once env) items w"

section \<open>What a delivery may change\<close>

definition is_http :: "event \<Rightarrow> bool" where
  "is_http e = (case e of Post b st \<Rightarrow> True | Slept n \<Rightarrow> True | _ \<Rightarrow> False)"

definition only_http :: "sink_world \<Rightarrow> sink_world \<Rightarrow> event list \<Rightarrow> bool" where
  "only_http w w' new \<longleftrightarrow> later w w' new \<and> list_all is_http new \<and> w_open w' = w_open w \<and>
    w_next w' = w_next w \<and> w_crashed w' = w_crashed w"

lemma only_http_refl [simp]: "only_http w w []"
  by (simp add: only_http_def)

lemma only_http_trans: "only_http w w' xs \<Longrightarrow> only_http w' w'' ys \<Longrightarrow> only_http w w'' (xs @ ys)"
  by (auto simp: only_http_def intro: later_trans)

lemma only_http_tally [simp]: "only_http w (tally f w') new = only_http w w' new" "only_http (tally f w) w' new = only_http w w' new"
  by (simp_all add: only_http_def later_def)

lemma only_http_ask: "only_http (snd (ask f w)) w' new \<Longrightarrow> only_http w w' new"
  "only_http w w' new \<Longrightarrow> only_http w (snd (ask f w')) new"
  by (auto simp: only_http_def later_def)

lemma deliver_sleep_http: "\<exists>new. only_http w (deliver_sleep env remaining w) new"
proof (induction remaining arbitrary: w rule: less_induct)
  case (less remaining)
  let ?w = "snd (ask (e_stop env) w)" and ?c = "if remaining < CF_DELIVER_SLEEP_SLICE then remaining else CF_DELIVER_SLEEP_SLICE"
  show ?case
  proof (cases "remaining = 0 \<or> e_stop env (w_tick w)")
    case True
    have "only_http w ?w []" by (rule only_http_ask(2)) simp
    then show ?thesis
      using True only_http_refl [of w] by (subst deliver_sleep.simps) (auto simp: split_beta simp del: only_http_refl)
  next
    case False
    obtain new where "only_http (note_event (Slept (?c * 10000000)) ?w) (deliver_sleep env (remaining - ?c) (note_event (Slept (?c * 10000000)) ?w)) new"
      using less [of "remaining - ?c" "note_event (Slept (?c * 10000000)) ?w"] False by auto
    then have "only_http w (deliver_sleep env (remaining - ?c) (note_event (Slept (?c * 10000000)) ?w)) (Slept (?c * 10000000) # new)"
      by (auto simp: only_http_def later_def is_http_def)
    then show ?thesis using False by (subst deliver_sleep.simps) (auto simp: split_beta Let_def)
  qed
qed

text \<open>What the outcome of the retry loop says of the history.\<close>

definition loop_post :: "sink_env \<Rightarrow> string \<Rightarrow> sink_world \<Rightarrow> post_result \<times> nat \<times> sink_world \<Rightarrow> bool" where
  "loop_post env body w res \<longleftrightarrow> (case res of (r, backoff, w') \<Rightarrow>
    (\<exists>new. only_http w w' new \<and>
      (case r of
         Accepted \<Rightarrow> \<exists>st. Post body st \<in> set new \<and> success st
       | Rejected st p \<Rightarrow> Post body st \<in> set new \<and> \<not> success st \<and> \<not> retryable st
       | Stopped \<Rightarrow> \<exists>t. w_tick w \<le> t \<and> t < w_tick w' \<and> e_stop env t)))"

lemma loop_post_after:
  assumes "only_http w w1 xs" "loop_post env body w1 res"
  shows "loop_post env body w res"
proof -
  obtain r b w' where res: "res = (r, b, w')" by (metis prod_cases3)
  obtain new where new: "only_http w1 w' new" and r: "case r of
         Accepted \<Rightarrow> \<exists>st. Post body st \<in> set new \<and> success st
       | Rejected st p \<Rightarrow> Post body st \<in> set new \<and> \<not> success st \<and> \<not> retryable st
       | Stopped \<Rightarrow> \<exists>t. w_tick w1 \<le> t \<and> t < w_tick w' \<and> e_stop env t"
    using assms(2) by (auto simp: loop_post_def res)
  have "w_tick w \<le> w_tick w1" using assms(1) by (simp add: only_http_def later_def)
  then have "case r of
         Accepted \<Rightarrow> \<exists>st. Post body st \<in> set (xs @ new) \<and> success st
       | Rejected st p \<Rightarrow> Post body st \<in> set (xs @ new) \<and> \<not> success st \<and> \<not> retryable st
       | Stopped \<Rightarrow> \<exists>t. w_tick w \<le> t \<and> t < w_tick w' \<and> e_stop env t"
    using r by (cases r) (auto intro: order_trans)
  then show ?thesis using only_http_trans [OF assms(1) new] by (auto simp: loop_post_def res)
qed

lemma only_http_sleep:
  assumes "only_http w w1 xs"
  shows "\<exists>new. only_http w (deliver_sleep env b w1) new"
  using deliver_sleep_http [of w1 env b] only_http_trans [OF assms] by blast

text \<open>The interface of a transfer: it is recorded with its body and status, and touches nothing else.\<close>

locale http_post =
  fixes post_once :: post_fn
  assumes post_logged: "post_once body errcap w = (status, prefix, w') \<Longrightarrow> only_http w w' [Post body status]"
begin

lemma post_timed_logged:
  assumes "post_timed env post_once body w = (status, prefix, dt, w')"
  shows "only_http w w' [Post body status]" "w_tick w < w_tick w'"
proof -
  let ?w = "snd (ask (e_now env) w)"
  obtain st p w1 where e: "post_once body (CF_DELIVER_BODY_PREFIX_MAX + 1) ?w = (st, p, w1)" by (metis prod_cases3)
  have "post_timed env post_once body w = (st, p, e_now env (w_tick w1) - e_now env (w_tick w), snd (ask (e_now env) w1))"
    unfolding post_timed_def using e by (simp add: ask_def)
  with assms have "(status, prefix, dt, w') = (st, p, e_now env (w_tick w1) - e_now env (w_tick w), snd (ask (e_now env) w1))"
    by (rule trans [OF sym])
  then have st: "st = status" and p: "p = prefix" and w1: "w' = snd (ask (e_now env) w1)" by blast+
  have l: "only_http ?w w1 [Post body status]" by (rule post_logged [OF e [unfolded st p]])
  show "only_http w w' [Post body status]"
    unfolding w1 by (rule only_http_ask(2) [OF only_http_ask(1) [OF l]])
  show "w_tick w < w_tick w'" using l by (simp add: w1 only_http_def later_def)
qed

end

lemma retry_loop_result:
  assumes "retry_loop env post body cnt backoff w = Some res" "http_post post"
  shows "loop_post env body w res"
proof (rule retry_loop.raw_induct [where P = "\<lambda>env post body cnt backoff w res. http_post post \<longrightarrow> loop_post env body w res",
      OF _ assms(1), THEN mp, OF _ assms(2)], rule impI)
  fix loop env post body cnt backoff w res
  assume 1: "\<And>env post body cnt backoff w res. loop env post body cnt backoff w = Some res \<Longrightarrow>
        http_post post \<longrightarrow> loop_post env body w res"
    "(case ask (e_stop env) w of (stop, w) \<Rightarrow>
     if stop then Some (Stopped, backoff, w)
     else case ask (e_alloc env) w of (ok, w) \<Rightarrow>
     if \<not> ok then loop env post body cnt (next_backoff backoff) (deliver_sleep env backoff (tally inc_retry w))
     else case post_timed env post body w of (status, prefix, dt, w) \<Rightarrow>
       if success status then Some (Accepted, backoff, tally (accepted_stats cnt dt) w)
       else if retryable status then
         loop env post body cnt (next_backoff backoff) (deliver_sleep env backoff (tally inc_errors (tally inc_retry w)))
       else Some (Rejected status prefix, backoff, w)) = Some res"
    and post: "http_post post"
  let ?w1 = "snd (ask (e_stop env) w)"
  let ?w2 = "snd (ask (e_alloc env) ?w1)"
  have w2: "only_http w ?w1 []" "only_http w ?w2 []" by (simp_all add: only_http_ask)
  obtain status prefix dt w3 where p: "post_timed env post body ?w2 = (status, prefix, dt, w3)" by (metis prod_cases4)
  have w3: "only_http w w3 [Post body status]"
    using only_http_trans [OF w2(2) http_post.post_timed_logged(1) [OF post p]] by simp
  obtain xs ys where sl: "only_http w (deliver_sleep env backoff (tally inc_retry ?w2)) xs"
    "only_http w (deliver_sleep env backoff (tally inc_errors (tally inc_retry w3))) ys"
    using only_http_sleep [of w "tally inc_retry ?w2" "[]"] only_http_sleep [of w "tally inc_errors (tally inc_retry w3)"] w2(2) w3
    by (meson only_http_tally(1))
  consider "e_stop env (w_tick w)" | "\<not> e_stop env (w_tick w)" "\<not> e_alloc env (w_tick ?w1)"
    | "\<not> e_stop env (w_tick w)" "e_alloc env (w_tick ?w1)" "success status"
    | "\<not> e_stop env (w_tick w)" "e_alloc env (w_tick ?w1)" "\<not> success status" "retryable status"
    | "\<not> e_stop env (w_tick w)" "e_alloc env (w_tick ?w1)" "\<not> success status" "\<not> retryable status" by blast
  then show "loop_post env body w res"
  proof cases
    case a: 1
    then have "res = (Stopped, backoff, ?w1)" using 1(2) by (simp add: split_beta)
    then show ?thesis using w2(1) a by (auto simp: loop_post_def)
  next
    case a: 2
    then have "loop env post body cnt (next_backoff backoff) (deliver_sleep env backoff (tally inc_retry ?w2)) = Some res"
      using 1(2) by (simp add: split_beta)
    then show ?thesis using 1(1) post loop_post_after [OF sl(1)] by blast
  next
    case a: 3
    then have "res = (Accepted, backoff, tally (accepted_stats cnt dt) w3)" using 1(2) p by (simp add: split_beta)
    then show ?thesis using w3 a by (auto simp: loop_post_def)
  next
    case a: 4
    then have "loop env post body cnt (next_backoff backoff) (deliver_sleep env backoff (tally inc_errors (tally inc_retry w3))) = Some res"
      using 1(2) p by (simp add: split_beta)
    then show ?thesis using 1(1) post loop_post_after [OF sl(2)] by blast
  next
    case a: 5
    then have "res = (Rejected status prefix, backoff, w3)" using 1(2) p by (simp add: split_beta)
    then show ?thesis using w3 a by (auto simp: loop_post_def)
  qed
qed

text \<open>The retry loop ends when a stop is eventually requested, however the transfers go.\<close>

lemma retry_loop_ends:
  assumes "http_post post" "\<forall>t \<ge> N. e_stop env t"
  shows "\<exists>res. retry_loop env post body cnt backoff w = Some res"
proof (induction "N - w_tick w" arbitrary: backoff w rule: less_induct)
  case less
  let ?w1 = "snd (ask (e_stop env) w)"
  let ?w2 = "snd (ask (e_alloc env) ?w1)"
  obtain status prefix dt w3 where p: "post_timed env post body ?w2 = (status, prefix, dt, w3)" by (metis prod_cases4)
  have t3: "w_tick ?w2 < w_tick w3" by (rule http_post.post_timed_logged(2) [OF assms(1) p])
  have sl: "w_tick v \<le> w_tick (deliver_sleep env backoff v)" for v
    using deliver_sleep_http [of v env backoff] by (auto simp: only_http_def later_def)
  have ih: "\<exists>res. retry_loop env post body cnt b v = Some res" if "\<not> e_stop env (w_tick w)" "w_tick w < w_tick v" for b v
  proof -
    have "w_tick w < N" using that(1) assms(2) not_less by blast
    then show ?thesis using less that(2) by simp
  qed
  show ?case
  proof (cases "e_stop env (w_tick w)")
    case True
    then show ?thesis by (subst retry_loop.simps) (simp add: split_beta)
  next
    case False
    have "w_tick w < w_tick (deliver_sleep env backoff (tally inc_retry ?w2))"
      using sl [of "tally inc_retry ?w2"] by simp
    moreover have "w_tick w < w_tick (deliver_sleep env backoff (tally inc_errors (tally inc_retry w3)))"
      using sl [of "tally inc_errors (tally inc_retry w3)"] t3 by simp
    ultimately show ?thesis
      using ih [OF False] False p by (subst retry_loop.simps) (simp add: split_beta)
  qed
qed

section \<open>What happens to each item of a batch\<close>

definition accepted_in :: "event list \<Rightarrow> cf_batch_item \<Rightarrow> bool" where
  "accepted_in new it \<longleftrightarrow> (\<exists>its st. Post (join_lines (map (cstr \<circ> it_line) its)) st \<in> set new \<and> success st \<and> it \<in> set its)"

definition rejected_alone :: "event list \<Rightarrow> cf_batch_item \<Rightarrow> bool" where
  "rejected_alone new it \<longleftrightarrow> (\<exists>st. Post (cstr (it_line it)) st \<in> set new \<and> \<not> success st \<and> \<not> retryable st)"

definition stop_seen :: "sink_env \<Rightarrow> sink_world \<Rightarrow> sink_world \<Rightarrow> bool" where
  "stop_seen env w w' \<longleftrightarrow> (\<exists>t. w_tick w \<le> t \<and> t < w_tick w' \<and> e_stop env t)"

definition settled_item :: "bool \<Rightarrow> event list \<Rightarrow> marks \<Rightarrow> nat \<Rightarrow> cf_batch_item \<Rightarrow> bool" where
  "settled_item stopped new m i it \<longleftrightarrow>
    mk_delivered m ! i \<and> \<not> mk_poison m ! i \<and> accepted_in new it \<or>
    \<not> mk_delivered m ! i \<and> mk_poison m ! i \<and> rejected_alone new it \<or>
    \<not> mk_delivered m ! i \<and> \<not> mk_poison m ! i \<and> stopped"

lemma settled_item_mono:
  assumes "settled_item st new m i it" "set new \<subseteq> set new'" "st \<longrightarrow> st'"
    "mk_delivered m' ! i = mk_delivered m ! i" "mk_poison m' ! i = mk_poison m ! i"
  shows "settled_item st' new' m' i it"
  using assms by (auto simp: settled_item_def accepted_in_def rejected_alone_def)

definition marks_len :: "nat \<Rightarrow> marks \<Rightarrow> bool" where
  "marks_len n m \<longleftrightarrow> length (mk_delivered m) = n \<and> length (mk_poison m) = n \<and> length (mk_errs m) = n"

definition same_marks :: "marks \<Rightarrow> marks \<Rightarrow> nat \<Rightarrow> bool" where
  "same_marks m m' i \<longleftrightarrow> mk_delivered m' ! i = mk_delivered m ! i \<and> mk_poison m' ! i = mk_poison m ! i"

definition clear_marks :: "marks \<Rightarrow> nat \<Rightarrow> bool" where
  "clear_marks m i \<longleftrightarrow> \<not> mk_delivered m ! i \<and> \<not> mk_poison m ! i"

lemma mark_fold_length [simp]: "length (foldl (\<lambda>d i. d[lo + i := True]) d [0..<cnt]) = length d"
  by (induction cnt) auto

lemma mark_fold_nth:
  "k < length d \<Longrightarrow> foldl (\<lambda>d i. d[lo + i := True]) d [0..<cnt] ! k = (lo \<le> k \<and> k < lo + cnt \<or> d ! k)"
proof (induction cnt)
  case (Suc cnt)
  show ?case
    by (cases "k = lo + cnt") (use Suc in \<open>auto simp: nth_list_update\<close>)
qed auto

lemma build_body_join:
  assumes "lo + cnt \<le> length items"
  shows "build_body items lo cnt = join_lines (map (cstr \<circ> it_line) (take cnt (drop lo items)))"
  unfolding build_body_def
  by (rule arg_cong [where f = join_lines]) (use assms in \<open>auto intro!: nth_equalityI\<close>)

lemma body_accepts:
  assumes "lo + cnt \<le> length items" "Post (build_body items lo cnt) st \<in> set new" "success st" "lo \<le> i" "i < lo + cnt"
  shows "accepted_in new (items ! i)"
proof -
  have "items ! i = take cnt (drop lo items) ! (i - lo)" "i - lo < length (take cnt (drop lo items))" using assms by auto
  then have "items ! i \<in> set (take cnt (drop lo items))" by (metis nth_mem)
  then show ?thesis using assms(2,3) unfolding build_body_join [OF assms(1)] accepted_in_def by blast
qed

definition range_ok :: "sink_env \<Rightarrow> cf_batch_item list \<Rightarrow> nat \<Rightarrow> nat \<Rightarrow> marks \<Rightarrow> sink_world \<Rightarrow> marks \<Rightarrow> sink_world \<Rightarrow> bool" where
  "range_ok env items lo cnt m w m' w' \<longleftrightarrow> marks_len (length items) m' \<and>
    (\<forall>i < length items. i < lo \<or> lo + cnt \<le> i \<longrightarrow> same_marks m m' i) \<and>
    (\<exists>new. only_http w w' new \<and>
      (\<forall>i. lo \<le> i \<and> i < lo + cnt \<longrightarrow> settled_item (stop_seen env w w') new m' i (items ! i)))"

lemma range_halves:
  assumes a: "range_ok env items lo k m w m1 w1" and b: "range_ok env items (lo + k) j m1 w1 m2 w2"
    and n: "lo + k + j \<le> length items"
  shows "range_ok env items lo (k + j) m w m2 w2"
proof -
  obtain xs where xs: "only_http w w1 xs"
    and sx: "\<forall>i. lo \<le> i \<and> i < lo + k \<longrightarrow> settled_item (stop_seen env w w1) xs m1 i (items ! i)"
    using a by (auto simp: range_ok_def)
  obtain ys where ys: "only_http w1 w2 ys"
    and sy: "\<forall>i. lo + k \<le> i \<and> i < lo + k + j \<longrightarrow> settled_item (stop_seen env w1 w2) ys m2 i (items ! i)"
    using b by (auto simp: range_ok_def)
  have t: "w_tick w \<le> w_tick w1" "w_tick w1 \<le> w_tick w2" using xs ys by (auto simp: only_http_def later_def)
  then have st: "stop_seen env w w1 \<longrightarrow> stop_seen env w w2" "stop_seen env w1 w2 \<longrightarrow> stop_seen env w w2"
    by (auto simp: stop_seen_def intro: order_trans order_less_le_trans)
  have "settled_item (stop_seen env w w2) (xs @ ys) m2 i (items ! i)" if i: "lo \<le> i" "i < lo + (k + j)" for i
  proof (cases "i < lo + k")
    case True
    then have "same_marks m1 m2 i" using b n i by (auto simp: range_ok_def)
    then show ?thesis using settled_item_mono [OF sx [rule_format] _ st(1)] True i by (auto simp: same_marks_def)
  next
    case False
    then show ?thesis using settled_item_mono [OF sy [rule_format] _ st(2)] i by auto
  qed
  moreover have "same_marks m m2 i" if "i < length items" "i < lo \<or> lo + (k + j) \<le> i" for i
    using a b that by (auto simp: range_ok_def same_marks_def)
  ultimately show ?thesis
    using b only_http_trans [OF xs ys] unfolding range_ok_def by blast
qed

lemma range_before:
  assumes "only_http w w1 xs" "range_ok env items lo cnt m w1 m' w'"
  shows "range_ok env items lo cnt m w m' w'"
proof -
  obtain ys where ys: "only_http w1 w' ys"
    and sy: "\<forall>i. lo \<le> i \<and> i < lo + cnt \<longrightarrow> settled_item (stop_seen env w1 w') ys m' i (items ! i)"
    using assms(2) by (auto simp: range_ok_def)
  have "w_tick w \<le> w_tick w1" using assms(1) by (simp add: only_http_def later_def)
  then have st: "stop_seen env w1 w' \<longrightarrow> stop_seen env w w'" by (auto simp: stop_seen_def intro: order_trans)
  have "settled_item (stop_seen env w w') (xs @ ys) m' i (items ! i)" if "lo \<le> i \<and> i < lo + cnt" for i
    using settled_item_mono [OF sy [rule_format, OF that] _ st] by auto
  then show ?thesis using assms(2) only_http_trans [OF assms(1) ys] unfolding range_ok_def by blast
qed

lemma range_empty: "marks_len (length items) m \<Longrightarrow> only_http w w' new \<Longrightarrow> range_ok env items lo 0 m w m w'"
  by (auto simp: range_ok_def same_marks_def)

lemma range_one:
  assumes "marks_len (length items) m" "\<forall>i. lo \<le> i \<and> i < lo + cnt \<longrightarrow> clear_marks m i" "lo + cnt \<le> length items"
    "loop_post env (build_body items lo cnt) w (r, b, w')"
  shows "r = Stopped \<Longrightarrow> range_ok env items lo cnt m w m w'"
    "r = Accepted \<Longrightarrow> range_ok env items lo cnt m w (mark_delivered lo cnt m) w'"
    "r = Rejected st p \<Longrightarrow> cnt = 1 \<Longrightarrow> range_ok env items lo cnt m w (mark_poison lo e m) w'"
proof -
  obtain new where new: "only_http w w' new"
    and r: "case r of
         Accepted \<Rightarrow> \<exists>st. Post (build_body items lo cnt) st \<in> set new \<and> success st
       | Rejected st p \<Rightarrow> Post (build_body items lo cnt) st \<in> set new \<and> \<not> success st \<and> \<not> retryable st
       | Stopped \<Rightarrow> \<exists>t. w_tick w \<le> t \<and> t < w_tick w' \<and> e_stop env t"
    using assms(4) by (auto simp: loop_post_def)
  show "range_ok env items lo cnt m w m w'" if "r = Stopped"
    using assms(1,2) new r that by (auto simp: range_ok_def same_marks_def settled_item_def clear_marks_def stop_seen_def)
  show "range_ok env items lo cnt m w (mark_delivered lo cnt m) w'" if a: "r = Accepted"
  proof -
    have "accepted_in new (items ! i)" if "lo \<le> i" "i < lo + cnt" for i
      using body_accepts [OF assms(3) _ _ that] r a by auto
    then show ?thesis
      using assms(1-3) new
      by (auto simp: range_ok_def same_marks_def settled_item_def clear_marks_def marks_len_def mark_delivered_def mark_fold_nth)
  qed
  show "range_ok env items lo cnt m w (mark_poison lo e m) w'" if a: "r = Rejected st p" "cnt = 1"
  proof -
    have "rejected_alone new (items ! lo)" using r a by (auto simp: rejected_alone_def build_body_def)
    then show ?thesis
      using assms(1-3) new a(2)
      by (auto simp: range_ok_def same_marks_def settled_item_def clear_marks_def marks_len_def mark_poison_def le_less_Suc_eq)
  qed
qed

lemma send_range_result:
  assumes "http_post post"
  shows "marks_len (length items) m \<Longrightarrow> \<forall>i. lo \<le> i \<and> i < lo + cnt \<longrightarrow> clear_marks m i \<Longrightarrow> lo + cnt \<le> length items \<Longrightarrow>
    send_range env post items lo cnt backoff m w = Some (m', w') \<Longrightarrow> range_ok env items lo cnt m w m' w'"
proof (induction cnt arbitrary: lo backoff m w m' w' rule: less_induct)
  case (less cnt)
  show ?case
  proof (cases "cnt = 0")
    case True
    then have "m' = m" "w' = w" using less.prems(4) by (simp_all add: send_range.simps)
    then show ?thesis using less.prems(1) True range_empty [OF _ only_http_refl] by auto
  next
    case False
    obtain r b w1 where l: "retry_loop env post (build_body items lo cnt) cnt backoff w = Some (r, b, w1)"
      using less.prems(4) False by (subst (asm) send_range.simps) (auto simp: bind_eq_Some_conv)
    note post = retry_loop_result [OF l assms]
    note one = range_one [OF less.prems(1-3) post]
    obtain new where new: "only_http w w1 new" using post by (auto simp: loop_post_def)
    have step: "(case r of Stopped \<Rightarrow> Some (m, w1) | Accepted \<Rightarrow> Some (mark_delivered lo cnt m, w1)
        | Rejected status prefix \<Rightarrow> if cnt = 1 then Some (mark_poison lo
            (if e_alloc env (w_tick (tally inc_errors w1)) then Some (poison_message status prefix) else None) m,
            snd (ask (e_alloc env) (tally inc_errors w1)))
          else do { (m, w) \<leftarrow> send_range env post items lo (cnt div 2) b m (tally inc_errors w1);
              send_range env post items (lo + cnt div 2) (cnt - cnt div 2) b m w }) = Some (m', w')"
      using less.prems(4) False l
      by (subst (asm) send_range.simps) (simp add: split_beta Let_def split: post_result.splits if_splits)
    show ?thesis
    proof (cases r)
      case (Rejected status prefix)
      show ?thesis
      proof (cases "cnt = 1")
        case True
        obtain e where "m' = mark_poison lo e m" and w': "w' = snd (ask (e_alloc env) (tally inc_errors w1))"
          using step Rejected True by auto
        moreover have p: "range_ok env items lo cnt m w (mark_poison lo e m) w1" using one(3) [OF Rejected True] .
        moreover have q: "range_ok env items (lo + cnt) 0 (mark_poison lo e m) w1 (mark_poison lo e m) w'"
          by (rule range_empty [of _ _ _ _ "[]"]) (use p w' in \<open>auto simp: range_ok_def intro: only_http_ask(2)\<close>)
        ultimately show ?thesis using range_halves [OF p q] less.prems(3) by simp
      next
        case False
        obtain m1 w2 where h: "send_range env post items lo (cnt div 2) b m (tally inc_errors w1) = Some (m1, w2)"
          "send_range env post items (lo + cnt div 2) (cnt - cnt div 2) b m1 w2 = Some (m', w')"
          using step Rejected False by (auto simp: bind_eq_Some_conv)
        have c: "cnt div 2 < cnt" "cnt - cnt div 2 < cnt" using \<open>cnt \<noteq> 0\<close> False by auto
        have r1: "range_ok env items lo (cnt div 2) m (tally inc_errors w1) m1 w2"
          by (rule less.IH [OF c(1) less.prems(1) _ _ h(1)]) (use less.prems(2,3) in auto)
        then have m1: "marks_len (length items) m1" "\<forall>i. lo + cnt div 2 \<le> i \<and> i < lo + cnt \<longrightarrow> clear_marks m1 i"
          using less.prems(2,3) by (auto simp: range_ok_def same_marks_def clear_marks_def)
        have r2: "range_ok env items (lo + cnt div 2) (cnt - cnt div 2) m1 w2 m' w'"
          by (rule less.IH [OF c(2) m1(1) _ _ h(2)]) (use m1(2) less.prems(3) in auto)
        have "range_ok env items lo (cnt div 2 + (cnt - cnt div 2)) m (tally inc_errors w1) m' w'"
          by (rule range_halves [OF r1 r2]) (use less.prems(3) in auto)
        then show ?thesis using range_before [of w "tally inc_errors w1" new] new by simp
      qed
    qed (use step one(1,2) in auto)
  qed
qed

lemma send_range_ends:
  assumes "http_post post" "\<forall>t \<ge> N. e_stop env t"
  shows "\<exists>res. send_range env post items lo cnt backoff m w = Some res"
proof (induction cnt arbitrary: lo backoff m w rule: less_induct)
  case (less cnt)
  show ?case
  proof (cases "cnt = 0")
    case False
    obtain r b w1 where l: "retry_loop env post (build_body items lo cnt) cnt backoff w = Some (r, b, w1)"
      using retry_loop_ends [OF assms] by (metis prod_cases3)
    show ?thesis
    proof (cases "cnt = 1")
      case True
      then show ?thesis using l by (subst send_range.simps) (simp add: split_beta Let_def split: post_result.splits)
    next
      case c: False
      obtain m1 w2 where 1: "send_range env post items lo (cnt div 2) b m (tally inc_errors w1) = Some (m1, w2)"
        using less [of "cnt div 2"] False by (metis div_less_dividend gr0I one_less_numeral_iff prod.exhaust semiring_norm(76))
      have "cnt - cnt div 2 < cnt" using c False by simp
      then obtain res where "send_range env post items (lo + cnt div 2) (cnt - cnt div 2) b m1 w2 = Some res"
        using less by blast
      then show ?thesis using l 1 c False by (subst send_range.simps) (simp add: Let_def split: post_result.splits)
    qed
  qed (simp add: send_range.simps)
qed

lemma deliver_batched_result:
  assumes "http_post post" "cf_sink_http_deliver_batched env post items w = Some (m, w')"
  shows "range_ok env items 0 (length items) \<lparr>mk_delivered = replicate (length items) False,
    mk_poison = replicate (length items) False, mk_errs = replicate (length items) None\<rparr> w m w'"
proof (cases "items = []")
  case True
  then have "m = \<lparr>mk_delivered = [], mk_poison = [], mk_errs = []\<rparr>" "w' = w"
    using assms(2) by (simp_all add: cf_sink_http_deliver_batched_def)
  then show ?thesis using True by (auto simp: range_ok_def marks_len_def intro!: exI [of _ "[]"])
next
  case False
  show ?thesis
    by (rule send_range_result [OF assms(1)])
       (use assms(2) False in \<open>auto simp: cf_sink_http_deliver_batched_def marks_len_def clear_marks_def Let_def\<close>)
qed

section \<open>The delivery interface\<close>

text \<open>\<^verbatim>\<open>cf_sink_delivery_t\<close>: what the consumer relies on. Each item is marked delivered only if the
  destination accepted a body with its line, poisoned only if the destination refused its line
  alone, and never both; the history grows by transfers only.\<close>

locale delivery =
  fixes send :: "cf_batch_item list \<Rightarrow> sink_world \<Rightarrow> (marks \<times> sink_world) option"
  assumes send_settles: "send items w = Some (m, w') \<Longrightarrow> marks_len (length items) m \<and>
    (\<exists>new. only_http w w' new \<and> (\<forall>i < length items. settled_item True new m i (items ! i)))"

sublocale http_post \<subseteq> deliver: delivery "cf_sink_http_deliver_batched env post_once" for env
proof
  fix items w m w'
  assume "cf_sink_http_deliver_batched env post_once items w = Some (m, w')"
  note r = deliver_batched_result [OF http_post_axioms this]
  then obtain new where "only_http w w' new"
    "\<forall>i < length items. settled_item (stop_seen env w w') new m i (items ! i)" by (auto simp: range_ok_def)
  moreover from this(2) have "\<forall>i < length items. settled_item True new m i (items ! i)" by (auto simp: settled_item_def)
  ultimately show "marks_len (length items) m \<and>
      (\<exists>new. only_http w w' new \<and> (\<forall>i < length items. settled_item True new m i (items ! i)))"
    using r by (auto simp: range_ok_def)
qed

interpretation hec: http_post "hec_post_once env" for env
proof
  fix body errcap w status prefix w'
  assume "hec_post_once env body errcap w = (status, prefix, w')"
  then show "only_http w w' [Post body status]"
    by (auto simp: hec_post_once_def ask_def only_http_def later_def is_http_def note_event_def split: sum.splits)
qed

interpretation hec_batch: delivery "cf_hec_client_send_batch env" for env
  by unfold_locales (simp add: cf_hec_client_send_batch_def hec.deliver.send_settles)

lemma hec_ends: "\<forall>t \<ge> N. e_stop env t \<Longrightarrow> \<exists>res. cf_hec_client_send_batch env items w = Some res"
  using send_range_ends [OF hec.http_post_axioms]
  by (auto simp: cf_hec_client_send_batch_def cf_sink_http_deliver_batched_def Let_def)

section \<open>Properties\<close>

text \<open>C8. Delivery of a batch over HEC settles every item: it is marked delivered only when a
  transfer whose body holds its line got a 2xx status, marked poison only when a transfer of its
  line alone got a status that is neither 2xx nor retryable, never both, and left unmarked only if
  a stop was requested during the call; nothing but transfers and sleeps happens meanwhile.\<close>

theorem hec_delivery_settles:
  assumes "cf_hec_client_send_batch env items w = Some (m, w')"
  shows "\<exists>new. only_http w w' new \<and> (\<forall>i < length items. settled_item (stop_seen env w w') new m i (items ! i))"
  using deliver_batched_result [OF hec.http_post_axioms assms [unfolded cf_hec_client_send_batch_def]]
  by (auto simp: range_ok_def)

text \<open>Shutdown is never blocked by the retry loop: if from some moment on a stop is requested, the
  delivery of every batch returns, however the transfers, the allocations and the clock behave.\<close>

theorem hec_delivery_stops:
  assumes "\<forall>t \<ge> N. e_stop env t"
  shows "\<exists>m w'. cf_hec_client_send_batch env items w = Some (m, w')"
  using hec_ends [OF assms] by auto

section \<open>Witnesses\<close>

text \<open>A destination that refuses bodies with an exclamation mark, asks to retry once, and then accepts.\<close>

definition deliver_env :: sink_env where
  "deliver_env = \<lparr>e_stop = (\<lambda>t. t \<ge> 1000), e_now = (\<lambda>t. int t), e_alloc = (\<lambda>t. True),
    e_curl = (\<lambda>t body. if t < 4 then Inl ''timeout'' else if CHR 0x21 \<in> set body then Inr (400, [''bad'']) else Inr (200, [])),
    e_redis = (\<lambda>t cmd. None), e_conn_err = (\<lambda>t. False), e_connect = (\<lambda>t host port. Connect_Null)\<rparr>"

definition world_zero :: sink_world where
  "world_zero = \<lparr>w_tick = 0, w_log = [], w_stats = \<lparr>splunk_delivery_total = 0, splunk_delivery_errors_total = 0,
    splunk_retry_total = 0, deadletter_total = 0, protobuf_decode_errors_total = 0, splunk_batch_size_last = 0,
    splunk_delivery_latency_ms_last = 0, redis_stream_lag = 0, last_emit_mono_ns = 0\<rparr>, w_open = [], w_next = 0, w_crashed = False\<rparr>"

definition deliver_items :: "cf_batch_item list" where
  "deliver_items = map (\<lambda>l. \<lparr>it_stream = ''s'', it_entry_id = l, it_line = l, it_payload = l\<rparr>) [''a'', ''b!'', ''c'']"

theorem hec_delivery_stops_witness: "\<exists>m w'. cf_hec_client_send_batch deliver_env deliver_items world_zero = Some (m, w')"
  by (rule hec_delivery_stops [of 1000]) (simp add: deliver_env_def)

theorem hec_delivery_settles_witness:
  "\<exists>m w' new. cf_hec_client_send_batch deliver_env deliver_items world_zero = Some (m, w') \<and> only_http world_zero w' new \<and>
    settled_item (stop_seen deliver_env world_zero w') new m 1 (deliver_items ! 1)"
proof -
  have "\<exists>res. cf_hec_client_send_batch deliver_env deliver_items world_zero = Some res"
    by (rule hec_ends [of 1000]) (simp add: deliver_env_def)
  then obtain m w' where r: "cf_hec_client_send_batch deliver_env deliver_items world_zero = Some (m, w')" by auto
  have "1 < length deliver_items" by (simp add: deliver_items_def)
  then show ?thesis using r hec_delivery_settles [OF r] by blast
qed

end
