(* ===== verification/Sink_Consumer.thy ===== *)
theory Sink_Consumer
  imports Sink_Deliver "HOL-Library.Signed_Division"
begin

text \<open>
  The consumer of \<^verbatim>\<open>libs/cloudflow-sink-core/cf_sink_consumer.c\<close> with the dead letters of
  \<^verbatim>\<open>cf_sink_deadletter.c\<close>: entries of Redis streams are validated, unpacked, rendered, batched,
  delivered and acknowledged; dead connections are rebuilt.

  The event type, the unpacking of an entry, the renderer of the sink and the delivery client are
  parameters (\<open>sink_plug\<close>), as they are function pointers or generated code in the program. The
  functions return \<open>None\<close> exactly when the delivery of a batch or a loop does not return.
\<close>

section \<open>State\<close>

record cf_sink_config =
  sc_endpoints :: "string list"
  sc_streams :: "string list"
  sc_group :: string
  sc_consumer_name :: string
  sc_read_count :: int
  sc_block_ms :: int
  sc_deadletter_stream :: "string option"
  sc_batch_size :: int
  sc_flush_interval_ms :: int

record 'ev sink_plug =
  pl_unpack :: "string \<Rightarrow> 'ev option"
  pl_transform :: "('ev \<Rightarrow> string \<Rightarrow> int \<times> string) option"
  pl_send :: "cf_batch_item list \<Rightarrow> sink_world \<Rightarrow> (marks \<times> sink_world) option"

text \<open>A cursor is NULL when its copy could not be allocated.\<close>

record cf_consumer =
  cn_ctx :: "conn option"
  cn_cfg :: cf_sink_config
  cn_stdout_mode :: bool
  cn_min_idle_ms :: int
  cn_batch :: "cf_batch_item list"
  cn_batch_cap :: nat
  cn_last_flush :: int
  cn_last_lag :: int
  cn_cursors :: "string option list"
  cn_world :: sink_world

definition on_world :: "(sink_world \<Rightarrow> 'a \<times> sink_world) \<Rightarrow> cf_consumer \<Rightarrow> 'a \<times> cf_consumer" where
  "on_world f c = (case f (cn_world c) of (x, w) \<Rightarrow> (x, c\<lparr>cn_world := w\<rparr>))"

definition in_world :: "(sink_world \<Rightarrow> sink_world) \<Rightarrow> cf_consumer \<Rightarrow> cf_consumer" where
  "in_world f c = c\<lparr>cn_world := f (cn_world c)\<rparr>"

definition redis :: "sink_env \<Rightarrow> command \<Rightarrow> cf_consumer \<Rightarrow> redisReply option \<times> cf_consumer" where
  "redis env cmd c = on_world (redisCommand env (cn_ctx c) cmd) c"

text \<open>The initial cursors are allocated one by one; the first failure ends the initialisation.\<close>

fun init_cursors :: "sink_env \<Rightarrow> nat \<Rightarrow> cf_consumer \<Rightarrow> int \<times> cf_consumer" where
  "init_cursors env 0 c = (0, c)"
| "init_cursors env (Suc n) c =
    (case on_world (ask (e_alloc env)) c of (ok, c) \<Rightarrow>
       if \<not> ok then (- 1, c) else init_cursors env n (c\<lparr>cn_cursors := cn_cursors c @ [Some ''0-0'']\<rparr>))"

abbreviation CF_CONSUMER_DEFAULT_MIN_IDLE_MS :: int where "CF_CONSUMER_DEFAULT_MIN_IDLE_MS \<equiv> 60000"

definition cf_consumer_init :: "sink_env \<Rightarrow> conn option \<Rightarrow> cf_sink_config \<Rightarrow> sink_world \<Rightarrow> int \<times> cf_consumer" where
  "cf_consumer_init env ctx cfg w =
    (case ask (e_now env) w of (t, w) \<Rightarrow>
     let c = \<lparr>cn_ctx = ctx, cn_cfg = cfg, cn_stdout_mode = False, cn_min_idle_ms = CF_CONSUMER_DEFAULT_MIN_IDLE_MS,
       cn_batch = [], cn_batch_cap = 0, cn_last_flush = t, cn_last_lag = t, cn_cursors = [], cn_world = w\<rparr>
     in case on_world (ask (e_alloc env)) c of (ok, c) \<Rightarrow>
        if \<not> ok then (- 1, c) else init_cursors env (length (sc_streams cfg)) c)"

definition cf_consumer_set_stdout :: "cf_consumer \<Rightarrow> cf_consumer" where
  "cf_consumer_set_stdout c = c\<lparr>cn_stdout_mode := True\<rparr>"

definition cf_consumer_set_delivery :: "cf_consumer \<Rightarrow> cf_consumer" where
  "cf_consumer_set_delivery c = c\<lparr>cn_stdout_mode := False\<rparr>"

definition cf_consumer_set_min_idle_ms :: "int \<Rightarrow> cf_consumer \<Rightarrow> cf_consumer" where
  "cf_consumer_set_min_idle_ms ms c = c\<lparr>cn_min_idle_ms := ms\<rparr>"

section \<open>Batch buffer\<close>

definition batch_clear :: "cf_consumer \<Rightarrow> cf_consumer" where
  "batch_clear c = c\<lparr>cn_batch := []\<rparr>"

text \<open>The result says whether the line was released: a failed copy releases the whole item.\<close>

definition batch_append :: "sink_env \<Rightarrow> cf_batch_item \<Rightarrow> cf_consumer \<Rightarrow> int \<times> bool \<times> cf_consumer" where
  "batch_append env it c =
    (let full = (length (cn_batch c) = cn_batch_cap c) in
     case (if full then on_world (ask (e_alloc env)) c else (True, c)) of (grown, c) \<Rightarrow>
     if \<not> grown then (- 1, False, c)
     else let c = (if full then c\<lparr>cn_batch_cap := (if cn_batch_cap c = 0 then 128 else cn_batch_cap c * 2)\<rparr> else c) in
     case on_world (ask (e_alloc env)) c of (stream_ok, c) \<Rightarrow>
     case on_world (ask (e_alloc env)) c of (id_ok, c) \<Rightarrow>
     case on_world (ask (e_alloc env)) c of (payload_ok, c) \<Rightarrow>
     if \<not> stream_ok \<or> \<not> id_ok \<or> \<not> payload_ok then (- 1, True, c)
     else (0, False, c\<lparr>cn_batch := cn_batch c @ [it]\<rparr>))"

section \<open>Redis helpers\<close>

definition xack_cmd :: "cf_sink_config \<Rightarrow> string \<Rightarrow> string \<Rightarrow> command" where
  "xack_cmd cfg stream entry_id = [''XACK'', stream, sc_group cfg, entry_id]"

definition xack :: "sink_env \<Rightarrow> string \<Rightarrow> string \<Rightarrow> cf_consumer \<Rightarrow> cf_consumer" where
  "xack env stream entry_id c = snd (redis env (xack_cmd (cn_cfg c) stream entry_id) c)"

text \<open>The value of a key in a flat list of keys and values.\<close>

fun field_loop :: "redisReply option list \<Rightarrow> string \<Rightarrow> redisReply option" where
  "field_loop (k # v # rest) key =
    (case Option.bind k reply_str of
       Some s \<Rightarrow> if cstr s = key then v else field_loop rest key
     | None \<Rightarrow> field_loop rest key)"
| "field_loop _ key = None"

definition field_get :: "redisReply option \<Rightarrow> string \<Rightarrow> redisReply option" where
  "field_get flds key = (case flds of Some (Reply_Array es) \<Rightarrow> field_loop es key | _ \<Rightarrow> None)"

definition deadletter_cmd :: "string \<Rightarrow> string \<Rightarrow> string \<Rightarrow> string \<Rightarrow> string \<Rightarrow> string \<Rightarrow> command" where
  "deadletter_cmd dl reason stream entry_id err payload =
    [''XADD'', dl, ''MAXLEN'', ''~'', ''100000'', ''*'', ''reason'', reason, ''origin_stream'', stream, ''origin_id'', entry_id,
     ''error'', snprintf 2001 err, ''payload'', payload]"

definition is_error :: "redisReply \<Rightarrow> bool" where
  "is_error r = (case r of Reply_Error s \<Rightarrow> True | _ \<Rightarrow> False)"

definition cf_deadletter_write ::
  "sink_env \<Rightarrow> string \<Rightarrow> string \<Rightarrow> string \<Rightarrow> string \<Rightarrow> string \<Rightarrow> cf_consumer \<Rightarrow> int \<times> cf_consumer" where
  "cf_deadletter_write env reason stream entry_id err payload c =
    (case (cn_ctx c, sc_deadletter_stream (cn_cfg c)) of
       (Some k, Some dl) \<Rightarrow>
         (case redis env (deadletter_cmd dl reason stream entry_id err payload) c of
            (Some r, c) \<Rightarrow> if is_error r then (- 1, c)
              else (0, in_world (tally (\<lambda>s. s\<lparr>deadletter_total := deadletter_total s + 1\<rparr>)) c)
          | (None, c) \<Rightarrow> (- 1, c))
     | _ \<Rightarrow> (- 1, c))"

definition dead_letter_and_ack ::
  "sink_env \<Rightarrow> string \<Rightarrow> string \<Rightarrow> string \<Rightarrow> string \<Rightarrow> string \<Rightarrow> cf_consumer \<Rightarrow> cf_consumer" where
  "dead_letter_and_ack env reason stream entry_id err payload c =
    (case cf_deadletter_write env reason stream entry_id err payload c of (rc, c) \<Rightarrow>
       if rc = 0 then xack env stream entry_id c else c)"

section \<open>One entry\<close>

text \<open>What an entry comes to, before any effect: undecodable with the error and the payload to
  dead-letter, without output, or a line to deliver.\<close>

datatype entry_result = Undecodable string string | No_Output | Rendered string string

definition render_event :: "'ev sink_plug \<Rightarrow> string \<Rightarrow> string \<Rightarrow> entry_result" where
  "render_event plug stream p =
    (case pl_unpack plug p of
       None \<Rightarrow> Undecodable ''protobuf parse error'' p
     | Some ev \<Rightarrow>
         (case pl_transform plug of
            None \<Rightarrow> Undecodable ''transform error'' p
          | Some f \<Rightarrow> (case f ev stream of (rc, out) \<Rightarrow>
              if rc \<noteq> 0 then Undecodable ''transform error'' p
              else if out = [] then No_Output else Rendered out p)))"

definition decode_entry :: "'ev sink_plug \<Rightarrow> string \<Rightarrow> redisReply option \<Rightarrow> entry_result" where
  "decode_entry plug stream flds =
    (case (field_get flds ''encoding'', field_get flds ''schema'', field_get flds ''payload'') of
       (Some (Reply_String e), Some (Reply_String s), Some (Reply_String p)) \<Rightarrow>
         if cstr e \<noteq> ''protobuf'' \<or> cstr s \<noteq> ''cloudflow.v1.CloudFlowEvent''
         then Undecodable ''invalid entry fields: encoding/schema mismatch'' p
         else render_event plug stream p
     | (_, _, payload) \<Rightarrow> Undecodable ''invalid entry fields: encoding/schema mismatch''
         (case Option.bind payload reply_str of Some p \<Rightarrow> p | None \<Rightarrow> []))"

abbreviation CF_DEADLETTER_REASON_DECODE_ERROR :: string where "CF_DEADLETTER_REASON_DECODE_ERROR \<equiv> ''decode_error''"
abbreviation CF_DEADLETTER_REASON_HEC_REJECTED :: string where "CF_DEADLETTER_REASON_HEC_REJECTED \<equiv> ''hec_rejected''"

definition process_entry ::
  "sink_env \<Rightarrow> 'ev sink_plug \<Rightarrow> string \<Rightarrow> string \<Rightarrow> redisReply option \<Rightarrow> cf_consumer \<Rightarrow> cf_consumer" where
  "process_entry env plug stream entry_id flds c =
    (let c = in_world (note_event (Seen stream entry_id flds)) c in
     case decode_entry plug stream flds of
       Undecodable err p \<Rightarrow>
         dead_letter_and_ack env CF_DEADLETTER_REASON_DECODE_ERROR stream entry_id err p
           (in_world (tally (\<lambda>s. s\<lparr>protobuf_decode_errors_total := protobuf_decode_errors_total s + 1\<rparr>)) c)
     | No_Output \<Rightarrow> xack env stream entry_id c
     | Rendered line p \<Rightarrow>
         (case batch_append env \<lparr>it_stream = stream, it_entry_id = entry_id, it_line = line, it_payload = p\<rparr> c of
            (rc, line_freed, c) \<Rightarrow>
              if rc \<noteq> 0 \<and> line_freed then in_world (\<lambda>w. w\<lparr>w_crashed := True\<rparr>) c else c))"

section \<open>Flush\<close>

definition flush_stdout :: "sink_env \<Rightarrow> cf_consumer \<Rightarrow> cf_consumer" where
  "flush_stdout env c =
    (let n = length (cn_batch c);
         c = in_world (\<lambda>w. foldl (\<lambda>w it. note_event (Print (cstr (it_line it))) w) w (cn_batch c)) c;
         c = in_world (tally (\<lambda>s. s\<lparr>splunk_delivery_total := splunk_delivery_total s + n, splunk_batch_size_last := n\<rparr>)) c
     in foldl (\<lambda>c it. xack env (it_stream it) (it_entry_id it) c) c (cn_batch c))"

definition settle_one :: "sink_env \<Rightarrow> marks \<Rightarrow> cf_consumer \<Rightarrow> nat \<times> cf_batch_item \<Rightarrow> cf_consumer" where
  "settle_one env m c p = (case p of (i, it) \<Rightarrow>
    if mk_delivered m ! i then xack env (it_stream it) (it_entry_id it) c
    else if mk_poison m ! i then
      dead_letter_and_ack env CF_DEADLETTER_REASON_HEC_REJECTED (it_stream it) (it_entry_id it)
        (case mk_errs m ! i of Some e \<Rightarrow> e | None \<Rightarrow> ''HEC rejected'') (it_payload it) c
    else c)"

text \<open>The four arrays of the flush are all requested before the check.\<close>

definition flush_hec :: "sink_env \<Rightarrow> 'ev sink_plug \<Rightarrow> cf_consumer \<Rightarrow> cf_consumer option" where
  "flush_hec env plug c =
    (case on_world (ask (e_alloc env)) c of (a1, c) \<Rightarrow>
     case on_world (ask (e_alloc env)) c of (a2, c) \<Rightarrow>
     case on_world (ask (e_alloc env)) c of (a3, c) \<Rightarrow>
     case on_world (ask (e_alloc env)) c of (a4, c) \<Rightarrow>
     if \<not> a1 \<or> \<not> a2 \<or> \<not> a3 \<or> \<not> a4 then Some c
     else do {
       (m, w) \<leftarrow> pl_send plug (cn_batch c) (cn_world c);
       Some (foldl (settle_one env m) (c\<lparr>cn_world := w\<rparr>) (enumerate 0 (cn_batch c))) })"

definition flush_batch :: "sink_env \<Rightarrow> 'ev sink_plug \<Rightarrow> cf_consumer \<Rightarrow> cf_consumer option" where
  "flush_batch env plug c =
    (case on_world (ask (e_now env)) c of (t, c) \<Rightarrow>
     let c = c\<lparr>cn_last_flush := t\<rparr> in
     if cn_batch c = [] then Some c
     else do {
       c \<leftarrow> (if cn_stdout_mode c then Some (flush_stdout env c) else flush_hec env plug c);
       Some (batch_clear c) })"

definition should_flush :: "sink_env \<Rightarrow> cf_consumer \<Rightarrow> bool \<times> cf_consumer" where
  "should_flush env c =
    (if cn_batch c = [] then (False, c)
     else if int (length (cn_batch c)) \<ge> sc_batch_size (cn_cfg c) then (True, c)
     else case on_world (ask (e_now env)) c of (t, c) \<Rightarrow>
       ((t - cn_last_flush c) sdiv 1000000 \<ge> sc_flush_interval_ms (cn_cfg c), c))"

definition maybe_flush :: "sink_env \<Rightarrow> 'ev sink_plug \<Rightarrow> cf_consumer \<Rightarrow> cf_consumer option" where
  "maybe_flush env plug c =
    (case should_flush env c of (b, c) \<Rightarrow> if b then flush_batch env plug c else Some c)"

section \<open>Reading\<close>

text \<open>\<open>strstr\<close> as a test.\<close>

definition contains_str :: "string \<Rightarrow> string \<Rightarrow> bool" where
  "contains_str s pat = list_ex (\<lambda>i. take (length pat) (drop i s) = pat) [0..<Suc (length s)]"

fun ensure_groups_loop :: "sink_env \<Rightarrow> string list \<Rightarrow> cf_consumer \<Rightarrow> int \<times> cf_consumer" where
  "ensure_groups_loop env [] c = (0, c)"
| "ensure_groups_loop env (s # ss) c =
    (case redis env [''XGROUP'', ''CREATE'', s, sc_group (cn_cfg c), ''0'', ''MKSTREAM''] c of
       (Some (Reply_Error e), c) \<Rightarrow>
         if \<not> contains_str (cstr e) ''BUSYGROUP'' then (- 1, c) else ensure_groups_loop env ss c
     | (r, c) \<Rightarrow> ensure_groups_loop env ss c)"

definition cf_consumer_ensure_groups :: "sink_env \<Rightarrow> cf_consumer \<Rightarrow> int \<times> cf_consumer" where
  "cf_consumer_ensure_groups env c = ensure_groups_loop env (sc_streams (cn_cfg c)) c"

definition process_element :: "sink_env \<Rightarrow> 'ev sink_plug \<Rightarrow> string \<Rightarrow> cf_consumer \<Rightarrow> redisReply option \<Rightarrow> cf_consumer" where
  "process_element env plug stream c entry =
    (case entry of
       Some (Reply_Array (Some (Reply_String entry_id) # flds # rest)) \<Rightarrow>
         process_entry env plug stream (cstr entry_id) flds c
     | _ \<Rightarrow> c)"

definition process_entries_array :: "sink_env \<Rightarrow> 'ev sink_plug \<Rightarrow> string \<Rightarrow> redisReply option \<Rightarrow> cf_consumer \<Rightarrow> cf_consumer" where
  "process_entries_array env plug stream entries c =
    (case entries of Some (Reply_Array es) \<Rightarrow> foldl (process_element env plug stream) c es | _ \<Rightarrow> c)"

definition set_cursor :: "sink_env \<Rightarrow> nat \<Rightarrow> redisReply option \<Rightarrow> cf_consumer \<Rightarrow> cf_consumer" where
  "set_cursor env idx cursor c =
    (case cursor of
       Some (Reply_String s) \<Rightarrow>
         (case on_world (ask (e_alloc env)) c of (ok, c) \<Rightarrow>
            c\<lparr>cn_cursors := (cn_cursors c)[idx := (if ok then Some (cstr s) else None)]\<rparr>)
     | _ \<Rightarrow> c)"

text \<open>A NULL cursor is passed to the client library, which reads it as a string.\<close>

definition reclaim_stream :: "sink_env \<Rightarrow> 'ev sink_plug \<Rightarrow> nat \<Rightarrow> cf_consumer \<Rightarrow> cf_consumer" where
  "reclaim_stream env plug idx c =
    (let stream = sc_streams (cn_cfg c) ! idx in
     case cn_cursors c ! idx of
       None \<Rightarrow> in_world (\<lambda>w. w\<lparr>w_crashed := True\<rparr>) c
     | Some cursor \<Rightarrow>
         (case redis env [''XAUTOCLAIM'', stream, sc_group (cn_cfg c), sc_consumer_name (cn_cfg c), int_string (cn_min_idle_ms c),
             cursor, ''COUNT'', int_string (sc_read_count (cn_cfg c))] c of
            (Some (Reply_Array (cur # entries # rest)), c) \<Rightarrow>
              process_entries_array env plug stream entries (set_cursor env idx cur c)
          | (r, c) \<Rightarrow> c))"

definition reclaim_all :: "sink_env \<Rightarrow> 'ev sink_plug \<Rightarrow> cf_consumer \<Rightarrow> cf_consumer" where
  "reclaim_all env plug c = foldl (\<lambda>c i. reclaim_stream env plug i c) c [0..<length (sc_streams (cn_cfg c))]"

definition read_cmd :: "cf_sink_config \<Rightarrow> int \<Rightarrow> command" where
  "read_cmd cfg block_ms =
    [''XREADGROUP'', ''GROUP'', sc_group cfg, sc_consumer_name cfg, ''COUNT'', int_string (sc_read_count cfg)] @
    (if block_ms \<ge> 0 then [''BLOCK'', int_string block_ms] else []) @ [''STREAMS''] @ sc_streams cfg @
    map (\<lambda>s. ''>'') (sc_streams cfg)"

definition read_element :: "sink_env \<Rightarrow> 'ev sink_plug \<Rightarrow> nat \<times> cf_consumer \<Rightarrow> redisReply option \<Rightarrow> nat \<times> cf_consumer" where
  "read_element env plug nc sr =
    (case sr of
       Some (Reply_Array (Some (Reply_String sname) # entries # rest)) \<Rightarrow>
         (case nc of (n, c) \<Rightarrow>
           (n + (case entries of Some (Reply_Array es) \<Rightarrow> length es | _ \<Rightarrow> 0),
            process_entries_array env plug (cstr sname) entries c))
     | _ \<Rightarrow> nc)"

definition read_new :: "sink_env \<Rightarrow> 'ev sink_plug \<Rightarrow> int \<Rightarrow> cf_consumer \<Rightarrow> nat \<times> cf_consumer" where
  "read_new env plug block_ms c =
    (case on_world (ask (e_alloc env)) c of (ok, c) \<Rightarrow>
     if \<not> ok then (0, c)
     else case redis env (read_cmd (cn_cfg c) block_ms) c of
         (Some (Reply_Array es), c) \<Rightarrow> foldl (read_element env plug) (0, c) es
       | (r, c) \<Rightarrow> (0, c))"

section \<open>Reconnecting\<close>

definition connection_dead :: "sink_env \<Rightarrow> cf_consumer \<Rightarrow> bool \<times> cf_consumer" where
  "connection_dead env c = (case cn_ctx c of None \<Rightarrow> (True, c) | Some k \<Rightarrow> on_world (ask (e_conn_err env)) c)"

text \<open>\<open>atoi\<close>: blanks, a sign, digits; a value outside \<open>int\<close> is not defined by the library and is
  kept exact here.\<close>

fun atoi_digits :: "int \<Rightarrow> string \<Rightarrow> int" where
  "atoi_digits acc [] = acc"
| "atoi_digits acc (ch # s) =
    (let d = of_char ch :: int in if 48 \<le> d \<and> d \<le> 57 then atoi_digits (acc * 10 + (d - 48)) s else acc)"

definition is_blank :: "char \<Rightarrow> bool" where
  "is_blank ch \<longleftrightarrow> (of_char ch :: nat) = 32 \<or> (9 \<le> (of_char ch :: nat) \<and> (of_char ch :: nat) \<le> 13)"

definition atoi :: "string \<Rightarrow> int" where
  "atoi s =
    (case dropWhile is_blank s of
       [] \<Rightarrow> 0
     | ch # t \<Rightarrow> if ch = CHR ''-'' then - atoi_digits 0 t else if ch = CHR ''+'' then atoi_digits 0 t else atoi_digits 0 (ch # t))"

text \<open>\<open>host:port\<close>, split at the last colon.\<close>

definition split_endpoint :: "string \<Rightarrow> (string \<times> int) option" where
  "split_endpoint ep =
    (let tail = takeWhile (\<lambda>ch. ch \<noteq> CHR '':'') (rev ep);
         host = take (length ep - length tail - 1) ep;
         port = atoi (rev tail)
     in if CHR '':'' \<notin> set ep \<or> host = [] \<or> length host \<ge> 256 \<or> port \<le> 0 \<or> port > 65535 then None
        else Some (host, port))"

definition connect_endpoint :: "sink_env \<Rightarrow> string \<Rightarrow> sink_world \<Rightarrow> conn option \<times> sink_world" where
  "connect_endpoint env ep w =
    (case split_endpoint ep of
       None \<Rightarrow> (None, w)
     | Some (host, port) \<Rightarrow>
         (case redisConnect env host port w of
            (Some (k, err), w) \<Rightarrow> if \<not> err then (Some k, w) else (None, redisFree k w)
          | (None, w) \<Rightarrow> (None, w)))"

abbreviation CF_CONSUMER_RECONNECT_BACKOFF_INITIAL_NS :: nat where "CF_CONSUMER_RECONNECT_BACKOFF_INITIAL_NS \<equiv> 100000000"
abbreviation CF_CONSUMER_RECONNECT_BACKOFF_MAX_NS :: nat where "CF_CONSUMER_RECONNECT_BACKOFF_MAX_NS \<equiv> 5000000000"
abbreviation CF_CONSUMER_RECONNECT_SLEEP_CHUNK_NS :: nat where "CF_CONSUMER_RECONNECT_SLEEP_CHUNK_NS \<equiv> 50000000"

function reconnect_sleep :: "sink_env \<Rightarrow> nat \<Rightarrow> sink_world \<Rightarrow> sink_world" where
  "reconnect_sleep env remaining w =
    (if remaining = 0 then w
     else case ask (e_stop env) w of (stop, w) \<Rightarrow>
       if stop then w
       else let chunk = (if remaining < CF_CONSUMER_RECONNECT_SLEEP_CHUNK_NS then remaining else CF_CONSUMER_RECONNECT_SLEEP_CHUNK_NS)
            in reconnect_sleep env (remaining - chunk) (note_event (Slept chunk) w))"
  by auto
termination
  by (relation "measure (\<lambda>(env, remaining, w). remaining)") auto

declare reconnect_sleep.simps [simp del]

text \<open>One round over the endpoints; \<open>idx\<close> goes on from round to round.\<close>

fun endpoint_round :: "sink_env \<Rightarrow> nat \<Rightarrow> nat \<Rightarrow> cf_consumer \<Rightarrow> bool \<times> nat \<times> cf_consumer" where
  "endpoint_round env 0 idx c = (False, idx, c)"
| "endpoint_round env (Suc tries) idx c =
    (let eps = sc_endpoints (cn_cfg c) in
     case on_world (connect_endpoint env (eps ! (idx mod length eps))) c of
       (None, c) \<Rightarrow> endpoint_round env tries (idx + 1) c
     | (Some k, c) \<Rightarrow>
         (case cf_consumer_ensure_groups env (c\<lparr>cn_ctx := Some k\<rparr>) of (rc, c) \<Rightarrow>
            if rc \<noteq> 0 then endpoint_round env tries (idx + 1) ((in_world (redisFree k) c)\<lparr>cn_ctx := None\<rparr>)
            else (True, idx + 1, c)))"

definition next_reconnect_backoff :: "nat \<Rightarrow> nat" where
  "next_reconnect_backoff b =
    (if b * 2 > CF_CONSUMER_RECONNECT_BACKOFF_MAX_NS then CF_CONSUMER_RECONNECT_BACKOFF_MAX_NS else b * 2)"

partial_function (option) reconnect_loop :: "sink_env \<Rightarrow> nat \<Rightarrow> nat \<Rightarrow> cf_consumer \<Rightarrow> (int \<times> cf_consumer) option" where
  "reconnect_loop env backoff idx c =
    (case on_world (ask (e_stop env)) c of (stop, c) \<Rightarrow>
     if stop then Some (- 1, c)
     else case endpoint_round env (length (sc_endpoints (cn_cfg c))) idx c of (ok, idx, c) \<Rightarrow>
       if ok then Some (0, c)
       else reconnect_loop env (next_reconnect_backoff backoff) idx (in_world (reconnect_sleep env backoff) c))"

declare reconnect_loop.simps [code]

definition reconnect_redis :: "sink_env \<Rightarrow> cf_consumer \<Rightarrow> (int \<times> cf_consumer) option" where
  "reconnect_redis env c =
    reconnect_loop env CF_CONSUMER_RECONNECT_BACKOFF_INITIAL_NS 0
      (case cn_ctx c of None \<Rightarrow> c | Some k \<Rightarrow> (in_world (redisFree k) c)\<lparr>cn_ctx := None\<rparr>)"

section \<open>Stream lag\<close>

definition group_lag :: "cf_sink_config \<Rightarrow> nat option \<Rightarrow> redisReply option \<Rightarrow> nat option" where
  "group_lag cfg acc grp =
    (case field_get grp ''name'' of
       Some (Reply_String name) \<Rightarrow>
         if cstr name \<noteq> sc_group cfg then acc
         else (case field_get grp ''lag'' of
             Some (Reply_Integer l) \<Rightarrow> if l \<ge> 0 then Some ((case acc of None \<Rightarrow> 0 | Some t \<Rightarrow> t) + nat l) else acc
           | _ \<Rightarrow> acc)
     | _ \<Rightarrow> acc)"

text \<open>The sum over the streams; \<open>None\<close> as the first result is the early return.\<close>

fun lag_loop :: "sink_env \<Rightarrow> string list \<Rightarrow> nat option \<Rightarrow> cf_consumer \<Rightarrow> nat option option \<times> cf_consumer" where
  "lag_loop env [] acc c = (Some acc, c)"
| "lag_loop env (s # ss) acc c =
    (case redis env [''XINFO'', ''GROUPS'', s] c of
       (None, c) \<Rightarrow> (None, c)
     | (Some (Reply_Array gs), c) \<Rightarrow> lag_loop env ss (foldl (group_lag (cn_cfg c)) acc gs) c
     | (Some r, c) \<Rightarrow> lag_loop env ss acc c)"

definition sample_stream_lag :: "sink_env \<Rightarrow> cf_consumer \<Rightarrow> cf_consumer" where
  "sample_stream_lag env c =
    (case connection_dead env c of (dead, c) \<Rightarrow>
     if dead then c
     else case lag_loop env (sc_streams (cn_cfg c)) None c of
         (Some (Some acc), c) \<Rightarrow> in_world (tally (\<lambda>s. s\<lparr>redis_stream_lag := acc\<rparr>)) c
       | (r, c) \<Rightarrow> c)"

abbreviation CF_CONSUMER_LAG_SAMPLE_INTERVAL_NS :: int where "CF_CONSUMER_LAG_SAMPLE_INTERVAL_NS \<equiv> 10000000000"

definition maybe_sample_stream_lag :: "sink_env \<Rightarrow> cf_consumer \<Rightarrow> cf_consumer" where
  "maybe_sample_stream_lag env c =
    (case on_world (ask (e_now env)) c of (now, c) \<Rightarrow>
     if now - cn_last_lag c < CF_CONSUMER_LAG_SAMPLE_INTERVAL_NS then c
     else sample_stream_lag env (c\<lparr>cn_last_lag := now\<rparr>))"

section \<open>Running\<close>

partial_function (option) drain_new :: "sink_env \<Rightarrow> 'ev sink_plug \<Rightarrow> cf_consumer \<Rightarrow> cf_consumer option" where
  "drain_new env plug c =
    (case read_new env plug (- 1) c of (n, c) \<Rightarrow>
     do { c \<leftarrow> maybe_flush env plug c;
          if n = 0 then Some c else drain_new env plug c })"

declare drain_new.simps [code]

definition cf_consumer_run_once :: "sink_env \<Rightarrow> 'ev sink_plug \<Rightarrow> cf_consumer \<Rightarrow> (int \<times> cf_consumer) option" where
  "cf_consumer_run_once env plug c =
    (case cf_consumer_ensure_groups env c of (rc, c) \<Rightarrow>
     if rc \<noteq> 0 then Some (- 1, c)
     else do {
       c \<leftarrow> maybe_flush env plug (reclaim_all env plug c);
       c \<leftarrow> drain_new env plug c;
       c \<leftarrow> flush_batch env plug c;
       Some (0, c) })"

text \<open>One iteration of the endless loop; the flag says whether it goes on.\<close>

definition serve_step :: "sink_env \<Rightarrow> 'ev sink_plug \<Rightarrow> cf_consumer \<Rightarrow> (bool \<times> cf_consumer) option" where
  "serve_step env plug c = do {
     let (dead, c) = connection_dead env c;
     (rc, c) \<leftarrow> (if dead then reconnect_redis env c else Some (0, c));
     if rc \<noteq> 0 then Some (False, c)
     else do {
       c \<leftarrow> maybe_flush env plug (reclaim_all env plug c);
       let (stop, c) = on_world (ask (e_stop env)) c;
       if stop then Some (False, c)
       else do {
         let (n, c) = read_new env plug (sc_block_ms (cn_cfg c)) c;
         c \<leftarrow> maybe_flush env plug c;
         Some (True, in_world (cf_stats_maybe_emit env 10000) (maybe_sample_stream_lag env c)) } } }"

partial_function (option) serve :: "sink_env \<Rightarrow> 'ev sink_plug \<Rightarrow> cf_consumer \<Rightarrow> cf_consumer option" where
  "serve env plug c =
    (case on_world (ask (e_stop env)) c of (stop, c) \<Rightarrow>
     if stop then Some c
     else do {
       (go, c) \<leftarrow> serve_step env plug c;
       if go then serve env plug c else Some c })"

declare serve.simps [code]

definition cf_consumer_run_forever :: "sink_env \<Rightarrow> 'ev sink_plug \<Rightarrow> cf_consumer \<Rightarrow> (int \<times> cf_consumer) option" where
  "cf_consumer_run_forever env plug c =
    (case cf_consumer_ensure_groups env c of (rc, c) \<Rightarrow>
     if rc \<noteq> 0 then Some (- 1, c)
     else do {
       c \<leftarrow> serve env plug c;
       c \<leftarrow> flush_batch env plug c;
       Some (0, in_world (cf_stats_emit env) c) })"

definition cf_consumer_free :: "cf_consumer \<Rightarrow> cf_consumer" where
  "cf_consumer_free c = (batch_clear c)\<lparr>cn_batch_cap := 0, cn_cursors := []\<rparr>"

end
