(* ===== verification/Sink_Safe.thy ===== *)
theory Sink_Safe
  imports Sink_Consumer
begin

text \<open>
  At-least-once delivery: an entry is acknowledged only after its fate is settled outside the
  process. The consumer relies on its delivery client through the contract \<open>delivery\<close> only.
\<close>

section \<open>When an acknowledgement is justified\<close>

definition deadlettered :: "cf_sink_config \<Rightarrow> event list \<Rightarrow> string \<Rightarrow> string \<Rightarrow> string \<Rightarrow> string \<Rightarrow> bool" where
  "deadlettered cfg log reason stream entry_id payload \<longleftrightarrow>
    (\<exists>dl err r. sc_deadletter_stream cfg = Some dl \<and>
      Command (deadletter_cmd dl reason stream entry_id err payload) (Some r) \<in> set log \<and> \<not> is_error r)"

definition settled_line :: "cf_sink_config \<Rightarrow> event list \<Rightarrow> cf_batch_item \<Rightarrow> bool" where
  "settled_line cfg log it \<longleftrightarrow> accepted_in log it \<or> Print (cstr (it_line it)) \<in> set log \<or>
    rejected_alone log it \<and> deadlettered cfg log CF_DEADLETTER_REASON_HEC_REJECTED (it_stream it) (it_entry_id it) (it_payload it)"

definition justified :: "'ev sink_plug \<Rightarrow> cf_sink_config \<Rightarrow> event list \<Rightarrow> string \<Rightarrow> string \<Rightarrow> bool" where
  "justified plug cfg log stream entry_id \<longleftrightarrow> (\<exists>flds. Seen stream entry_id flds \<in> set log \<and>
    (case decode_entry plug stream flds of
       Undecodable err p \<Rightarrow> deadlettered cfg log CF_DEADLETTER_REASON_DECODE_ERROR stream entry_id p
     | No_Output \<Rightarrow> True
     | Rendered line p \<Rightarrow>
         settled_line cfg log \<lparr>it_stream = stream, it_entry_id = entry_id, it_line = line, it_payload = p\<rparr>))"

text \<open>Every acknowledgement in the history is justified by what came before it.\<close>

definition acks_ok :: "'ev sink_plug \<Rightarrow> cf_sink_config \<Rightarrow> event list \<Rightarrow> bool" where
  "acks_ok plug cfg log \<longleftrightarrow> (\<forall>k < length log. \<forall>s g i r. log ! k = Command [''XACK'', s, g, i] r \<longrightarrow>
    justified plug cfg (take k log) s i)"

lemma deadlettered_mono: "deadlettered cfg log reason s i p \<Longrightarrow> set log \<subseteq> set log' \<Longrightarrow> deadlettered cfg log' reason s i p"
  by (auto simp: deadlettered_def)

lemma settled_line_mono: "settled_line cfg log it \<Longrightarrow> set log \<subseteq> set log' \<Longrightarrow> settled_line cfg log' it"
  by (auto simp: settled_line_def accepted_in_def rejected_alone_def deadlettered_def)

lemma acks_ok_Nil [simp]: "acks_ok plug cfg []"
  by (simp add: acks_ok_def)

lemma acks_ok_snoc:
  "acks_ok plug cfg (log @ [e]) \<longleftrightarrow>
    acks_ok plug cfg log \<and> (\<forall>s g i r. e = Command [''XACK'', s, g, i] r \<longrightarrow> justified plug cfg log s i)"
  by (auto simp: acks_ok_def nth_append less_Suc_eq)

definition no_ack :: "event \<Rightarrow> bool" where
  "no_ack e \<longleftrightarrow> (\<forall>args r. e \<noteq> Command (''XACK'' # args) r)"

lemma acks_ok_append: "acks_ok plug cfg log \<Longrightarrow> list_all no_ack new \<Longrightarrow> acks_ok plug cfg (log @ new)"
proof (induction new rule: rev_induct)
  case (snoc e new)
  then have "acks_ok plug cfg ((log @ new) @ [e])" unfolding acks_ok_snoc by (auto simp: no_ack_def)
  then show ?case by simp
qed simp

section \<open>The invariant\<close>

definition pending_ok :: "'ev sink_plug \<Rightarrow> event list \<Rightarrow> cf_batch_item \<Rightarrow> bool" where
  "pending_ok plug log it \<longleftrightarrow> (\<exists>flds. Seen (it_stream it) (it_entry_id it) flds \<in> set log \<and>
    decode_entry plug (it_stream it) flds = Rendered (it_line it) (it_payload it))"

abbreviation c_log :: "cf_consumer \<Rightarrow> event list" where "c_log c \<equiv> w_log (cn_world c)"

definition cinv :: "'ev sink_plug \<Rightarrow> cf_consumer \<Rightarrow> bool" where
  "cinv plug c \<longleftrightarrow> acks_ok plug (cn_cfg c) (c_log c) \<and> list_all (pending_ok plug (c_log c)) (cn_batch c)"

text \<open>The history grew without an acknowledgement; batch and configuration stayed.\<close>

definition grows :: "cf_consumer \<Rightarrow> cf_consumer \<Rightarrow> bool" where
  "grows c c' \<longleftrightarrow> cn_cfg c' = cn_cfg c \<and> cn_batch c' = cn_batch c \<and>
    (\<exists>new. c_log c' = c_log c @ new \<and> list_all no_ack new)"

lemma grows_refl [simp]: "grows c c"
  by (simp add: grows_def)

lemma grows_trans [trans]: "grows c c' \<Longrightarrow> grows c' c'' \<Longrightarrow> grows c c''"
  by (fastforce simp: grows_def)

lemma grows_same: "cn_cfg c' = cn_cfg c \<Longrightarrow> cn_batch c' = cn_batch c \<Longrightarrow> c_log c' = c_log c \<Longrightarrow> grows c c'"
  by (simp add: grows_def)

lemma grows_set: "grows c c' \<Longrightarrow> set (c_log c) \<subseteq> set (c_log c')"
  by (auto simp: grows_def)

lemma pending_ok_mono: "pending_ok plug log it \<Longrightarrow> set log \<subseteq> set log' \<Longrightarrow> pending_ok plug log' it"
  by (auto simp: pending_ok_def)

lemma cinv_grows: "cinv plug c \<Longrightarrow> grows c c' \<Longrightarrow> cinv plug c'"
  using pending_ok_mono [OF _ grows_set, of plug c _ c']
  by (auto simp: cinv_def grows_def acks_ok_append list_all_iff)

lemma cinv_grows_cfg: "cinv plug c \<Longrightarrow> grows c c' \<Longrightarrow> cinv plug c' \<and> cn_cfg c' = cn_cfg c"
  using cinv_grows [of plug c c'] by (simp add: grows_def)

lemma on_world_ask: "on_world (ask f) c = (f (w_tick (cn_world c)), in_world (\<lambda>w. snd (ask f w)) c)"
  by (simp add: on_world_def in_world_def split_beta)

lemma in_world_simps [simp]:
  "cn_cfg (in_world f c) = cn_cfg c" "cn_batch (in_world f c) = cn_batch c" "cn_world (in_world f c) = f (cn_world c)"
  "cn_ctx (in_world f c) = cn_ctx c" "cn_stdout_mode (in_world f c) = cn_stdout_mode c" "cn_cursors (in_world f c) = cn_cursors c"
  by (simp_all add: in_world_def)

lemma grows_in_world: "w_log (f (cn_world c)) = w_log (cn_world c) @ new \<Longrightarrow> list_all no_ack new \<Longrightarrow> grows c (in_world f c)"
  by (auto simp: grows_def)

lemma grows_ask [simp]: "grows c (in_world (\<lambda>w. snd (ask f w)) c)" "grows c (in_world (tally g) c)"
  "grows c (in_world (\<lambda>w. w\<lparr>w_crashed := b\<rparr>) c)"
  by (rule grows_same; simp)+

lemma redis_log:
  assumes "redis env cmd c = (r, c')"
  shows "cn_cfg c' = cn_cfg c \<and> cn_batch c' = cn_batch c \<and> cn_ctx c' = cn_ctx c \<and> cn_stdout_mode c' = cn_stdout_mode c \<and>
    cn_cursors c' = cn_cursors c \<and> w_tick (cn_world c) \<le> w_tick (cn_world c') \<and>
    (c_log c' = c_log c @ [Command cmd r] \<or> c_log c' = c_log c \<and> r = None)"
  using assms by (auto simp: redis_def on_world_def redisCommand_def ask_def split: option.splits if_splits)

lemma grows_redis: "redis env cmd c = (r, c') \<Longrightarrow> cmd = a # args \<Longrightarrow> a \<noteq> ''XACK'' \<Longrightarrow> grows c c'"
  using redis_log [of env cmd c r c'] by (auto simp: grows_def no_ack_def)

lemma cinv_xack:
  assumes "cinv plug c" "justified plug (cn_cfg c) (c_log c) s i"
  shows "cinv plug (xack env s i c) \<and> cn_batch (xack env s i c) = cn_batch c \<and> cn_cfg (xack env s i c) = cn_cfg c \<and>
    set (c_log c) \<subseteq> set (c_log (xack env s i c))"
proof -
  obtain r c' where r: "redis env (xack_cmd (cn_cfg c) s i) c = (r, c')" by fastforce
  note l = redis_log [OF r]
  have "acks_ok plug (cn_cfg c) (c_log c')"
    using l assms by (auto simp: cinv_def acks_ok_snoc xack_cmd_def)
  moreover have sub: "set (c_log c) \<subseteq> set (c_log c')" using l by auto
  moreover have "list_all (pending_ok plug (c_log c')) (cn_batch c)"
    using assms(1) pending_ok_mono [OF _ sub] by (auto simp: cinv_def list_all_iff)
  ultimately show ?thesis using l by (simp add: xack_def r cinv_def)
qed

lemma deadletter_result:
  assumes "cf_deadletter_write env reason s i err p c = (rc, c')"
  shows "grows c c' \<and> (rc = 0 \<longrightarrow> deadlettered (cn_cfg c) (c_log c') reason s i p)"
proof (cases "cn_ctx c = None \<or> sc_deadletter_stream (cn_cfg c) = None")
  case True
  then have "rc = - 1" "c' = c" using assms by (auto simp: cf_deadletter_write_def split: option.splits)
  then show ?thesis by simp
next
  case False
  then obtain k dl where k: "cn_ctx c = Some k" "sc_deadletter_stream (cn_cfg c) = Some dl" by auto
  obtain r d where r: "redis env (deadletter_cmd dl reason s i err p) c = (r, d)" by fastforce
  have g: "grows c d" using grows_redis [OF r] by (simp add: deadletter_cmd_def)
  show ?thesis
  proof (cases "\<exists>r'. r = Some r' \<and> \<not> is_error r'")
    case True
    then have c': "c' = in_world (tally (\<lambda>s. s\<lparr>deadletter_total := deadletter_total s + 1\<rparr>)) d" and l: "c_log d = c_log c @ [Command (deadletter_cmd dl reason s i err p) r]"
      using assms k r redis_log [OF r] by (auto simp: cf_deadletter_write_def)
    then have "deadlettered (cn_cfg c) (c_log c') reason s i p" using True k(2) by (auto simp: deadlettered_def)
    then show ?thesis using grows_trans [OF g] c' by simp
  next
    case False
    then have "rc = - 1" "c' = d" using assms k r by (auto simp: cf_deadletter_write_def split: option.splits)
    then show ?thesis using g by simp
  qed
qed

lemma cinv_dead_letter:
  assumes "cinv plug c"
    and j: "\<And>c'. grows c c' \<Longrightarrow> deadlettered (cn_cfg c) (c_log c') reason s i p \<Longrightarrow> justified plug (cn_cfg c) (c_log c') s i"
  shows "cinv plug (dead_letter_and_ack env reason s i err p c) \<and>
    cn_batch (dead_letter_and_ack env reason s i err p c) = cn_batch c \<and>
    cn_cfg (dead_letter_and_ack env reason s i err p c) = cn_cfg c \<and>
    set (c_log c) \<subseteq> set (c_log (dead_letter_and_ack env reason s i err p c))"
proof -
  obtain rc c' where d: "cf_deadletter_write env reason s i err p c = (rc, c')" by fastforce
  note r = deadletter_result [OF d]
  have c': "cinv plug c'" "cn_cfg c' = cn_cfg c" "cn_batch c' = cn_batch c" "set (c_log c) \<subseteq> set (c_log c')"
    using cinv_grows [OF assms(1)] r grows_set by (auto simp: grows_def)
  show ?thesis
  proof (cases "rc = 0")
    case True
    then have "justified plug (cn_cfg c') (c_log c') s i" using j r c'(2) by auto
    from cinv_xack [OF c'(1) this, of env] show ?thesis using True c' by (auto simp: dead_letter_and_ack_def d)
  qed (use c' in \<open>simp add: dead_letter_and_ack_def d\<close>)
qed

section \<open>Entries\<close>

lemma batch_append_result:
  assumes "batch_append env it c = (rc, fr, c')"
  shows "cn_cfg c' = cn_cfg c \<and> c_log c' = c_log c \<and> cn_batch c' = cn_batch c @ (if rc = 0 then [it] else []) \<and>
    (rc = 0 \<longrightarrow> \<not> fr)"
  using assms by (auto simp: batch_append_def Let_def on_world_ask split: if_splits)

lemma cinv_process_entry:
  assumes "cinv plug c"
  shows "cinv plug (process_entry env plug stream i flds c) \<and> cn_cfg (process_entry env plug stream i flds c) = cn_cfg c"
proof -
  let ?c = "in_world (note_event (Seen stream i flds)) c"
  have g: "grows c ?c" by (rule grows_in_world [of _ _ "[Seen stream i flds]"]) (simp_all add: no_ack_def)
  have c: "cinv plug ?c" by (rule cinv_grows [OF assms g])
  have seen: "Seen stream i flds \<in> set (c_log ?c)" by simp
  show ?thesis
  proof (cases "decode_entry plug stream flds")
    case (Undecodable err p)
    let ?d = "in_world (tally (\<lambda>s. s\<lparr>protobuf_decode_errors_total := protobuf_decode_errors_total s + 1\<rparr>)) ?c"
    have "cinv plug ?d" by (rule cinv_grows [OF c]) simp
    from cinv_dead_letter [OF this, of CF_DEADLETTER_REASON_DECODE_ERROR stream i p env err]
    show ?thesis using seen grows_set Undecodable by (fastforce simp: process_entry_def Let_def justified_def)
  next
    case No_Output
    then have "justified plug (cn_cfg ?c) (c_log ?c) stream i" by (auto simp: justified_def)
    from cinv_xack [OF c this, of env] show ?thesis using No_Output by (simp add: process_entry_def Let_def)
  next
    case (Rendered line p)
    let ?it = "\<lparr>it_stream = stream, it_entry_id = i, it_line = line, it_payload = p\<rparr>"
    obtain rc fr d where b: "batch_append env ?it ?c = (rc, fr, d)" by (metis prod_cases3)
    have "pending_ok plug (c_log ?c) ?it" using Rendered by (auto simp: pending_ok_def)
    then have "cinv plug d" "cn_cfg d = cn_cfg c" using batch_append_result [OF b] c by (auto simp: cinv_def)
    then show ?thesis using Rendered b cinv_grows [of plug d] by (auto simp: process_entry_def Let_def)
  qed
qed

lemma foldl_keeps:
  assumes "P a" "\<And>a x. x \<in> set xs \<Longrightarrow> P a \<Longrightarrow> P (f a x)"
  shows "P (foldl f a xs)"
  using assms by (induction xs arbitrary: a) auto

lemma cinv_entries:
  assumes "cinv plug c"
  shows "cinv plug (process_entries_array env plug stream entries c) \<and>
    cn_cfg (process_entries_array env plug stream entries c) = cn_cfg c"
proof -
  have "cinv plug (process_element env plug stream d e) \<and> cn_cfg (process_element env plug stream d e) = cn_cfg c"
    if "cinv plug d \<and> cn_cfg d = cn_cfg c" for d e
    using that cinv_process_entry [of plug d]
    by (auto simp: process_element_def split: option.splits redisReply.splits list.splits)
  then have "cinv plug (foldl (process_element env plug stream) c es) \<and>
      cn_cfg (foldl (process_element env plug stream) c es) = cn_cfg c" for es
    using foldl_keeps [of "\<lambda>d. cinv plug d \<and> cn_cfg d = cn_cfg c" c es "process_element env plug stream"] assms by blast
  then show ?thesis using assms by (auto simp: process_entries_array_def split: option.splits redisReply.splits)
qed

lemma cinv_reclaim:
  assumes "cinv plug c"
  shows "cinv plug (reclaim_stream env plug idx c) \<and> cn_cfg (reclaim_stream env plug idx c) = cn_cfg c"
proof (cases "cn_cursors c ! idx")
  case None
  then show ?thesis using cinv_grows [OF assms] by (simp add: reclaim_stream_def Let_def)
next
  case (Some cursor)
  let ?cmd = "[''XAUTOCLAIM'', sc_streams (cn_cfg c) ! idx, sc_group (cn_cfg c), sc_consumer_name (cn_cfg c), int_string (cn_min_idle_ms c),
             cursor, ''COUNT'', int_string (sc_read_count (cn_cfg c))]"
  obtain r d where r: "redis env ?cmd c = (r, d)" by fastforce
  have d: "cinv plug d" "cn_cfg d = cn_cfg c" using cinv_grows [OF assms grows_redis [OF r]] redis_log [OF r] by auto
  have "cinv plug (set_cursor env idx cur d) \<and> cn_cfg (set_cursor env idx cur d) = cn_cfg c" for cur
    using d cinv_grows [OF d(1) grows_same]
    by (auto simp: set_cursor_def on_world_ask split: option.splits redisReply.splits)
  then show ?thesis
    using r Some d cinv_entries [of plug _ env "sc_streams (cn_cfg c) ! idx"]
    by (auto simp: reclaim_stream_def Let_def split: option.splits redisReply.splits list.splits)
qed

lemma cinv_reclaim_all:
  assumes "cinv plug c"
  shows "cinv plug (reclaim_all env plug c) \<and> cn_cfg (reclaim_all env plug c) = cn_cfg c"
  unfolding reclaim_all_def
  by (rule foldl_keeps [where P = "\<lambda>d. cinv plug d \<and> cn_cfg d = cn_cfg c"]) (use assms cinv_reclaim in auto)

lemma cinv_read_new:
  assumes "cinv plug c" "read_new env plug block_ms c = (n, c')"
  shows "cinv plug c' \<and> cn_cfg c' = cn_cfg c"
proof -
  let ?c = "in_world (\<lambda>w. snd (ask (e_alloc env) w)) c"
  have c: "cinv plug ?c" by (rule cinv_grows [OF assms(1)]) simp
  obtain r d where r: "redis env (read_cmd (cn_cfg ?c) block_ms) ?c = (r, d)" by fastforce
  have d: "cinv plug d" "cn_cfg d = cn_cfg c"
    using cinv_grows [OF c grows_redis [OF r]] redis_log [OF r] by (auto simp: read_cmd_def)
  have "cinv plug (snd (read_element env plug nd e)) \<and> cn_cfg (snd (read_element env plug nd e)) = cn_cfg c"
    if "cinv plug (snd nd) \<and> cn_cfg (snd nd) = cn_cfg c" for nd e
    using that cinv_entries [of plug "snd nd"]
    by (auto simp: read_element_def split: option.splits redisReply.splits list.splits prod.splits)
  then have "cinv plug (snd (foldl (read_element env plug) (0, d) es)) \<and>
      cn_cfg (snd (foldl (read_element env plug) (0, d) es)) = cn_cfg c" for es
    using foldl_keeps [of "\<lambda>nd. cinv plug (snd nd) \<and> cn_cfg (snd nd) = cn_cfg c" "(0, d)" es "read_element env plug"] d by auto
  then show ?thesis
    using assms(2) c d r
    by (auto simp: read_new_def on_world_ask split: if_splits option.splits redisReply.splits) (metis snd_conv)+
qed

section \<open>Connections and statistics\<close>

lemma grows_ensure: "ensure_groups_loop env ss c = (rc, c') \<Longrightarrow> grows c c'"
proof (induction ss arbitrary: c)
  case (Cons s ss)
  obtain r d where r: "redis env [''XGROUP'', ''CREATE'', s, sc_group (cn_cfg c), ''0'', ''MKSTREAM''] c = (r, d)" by fastforce
  have "grows c d" by (rule grows_redis [OF r refl]) simp
  then show ?case using Cons r grows_trans by (fastforce split: option.splits redisReply.splits if_splits)
qed simp

lemma world_free: "\<exists>new. w_log (redisFree k w) = w_log w @ new \<and> list_all no_ack new"
  by (simp add: redisFree_def no_ack_def)

lemma world_connect: "redisConnect env host port w = (r, w') \<Longrightarrow> \<exists>new. w_log w' = w_log w @ new \<and> list_all no_ack new"
  by (auto simp: redisConnect_def ask_def no_ack_def split: connect_result.splits)

lemma grows_endpoint:
  assumes "on_world (connect_endpoint env ep) c = (k, c')"
  shows "grows c c'"
proof -
  obtain w' where w': "connect_endpoint env ep (cn_world c) = (k, w')" "c' = c\<lparr>cn_world := w'\<rparr>"
    using assms by (auto simp: on_world_def split: prod.splits)
  have "\<exists>new. w_log w' = w_log (cn_world c) @ new \<and> list_all no_ack new"
  proof (cases "split_endpoint ep")
    case (Some hp)
    obtain r v where r: "redisConnect env (fst hp) (snd hp) (cn_world c) = (r, v)" by fastforce
    from world_connect [OF this] obtain xs where "w_log v = w_log (cn_world c) @ xs" "list_all no_ack xs" by blast
    then have "\<exists>new. w_log (redisFree j v) = w_log (cn_world c) @ new \<and> list_all no_ack new" for j
      using world_free [of j v] by (metis append.assoc list_all_append)
    then show ?thesis using w'(1) Some r \<open>w_log v = _\<close> \<open>list_all no_ack xs\<close>
      by (auto simp: connect_endpoint_def split_beta split: option.splits if_splits)
  qed (use w'(1) in \<open>simp add: connect_endpoint_def\<close>)
  then show ?thesis using w'(2) by (auto simp: grows_def)
qed

lemma grows_free: "grows c ((in_world (redisFree k) c)\<lparr>cn_ctx := x\<rparr>)"
  using world_free by (auto simp: grows_def)

lemma grows_ctx: "grows c d \<Longrightarrow> grows c (d\<lparr>cn_ctx := x\<rparr>)" "grows (c\<lparr>cn_ctx := x\<rparr>) d \<Longrightarrow> grows c d"
  by (auto simp: grows_def)

lemma grows_round: "endpoint_round env tries idx c = (ok, idx', c') \<Longrightarrow> grows c c'"
proof (induction tries arbitrary: idx c)
  case (Suc tries)
  let ?ep = "sc_endpoints (cn_cfg c) ! (idx mod length (sc_endpoints (cn_cfg c)))"
  obtain k d where k: "on_world (connect_endpoint env ?ep) c = (k, d)" by fastforce
  have d: "grows c d" by (rule grows_endpoint [OF k])
  show ?case
  proof (cases k)
    case None
    then show ?thesis using Suc k grows_trans [OF d] by (simp add: Let_def)
  next
    case (Some j)
    obtain rc e where e: "cf_consumer_ensure_groups env (d\<lparr>cn_ctx := Some j\<rparr>) = (rc, e)" by fastforce
    have ge: "grows c e"
      using grows_trans [OF d grows_ctx(2) [OF grows_ensure]] e by (simp add: cf_consumer_ensure_groups_def)
    show ?thesis
    proof (cases "rc = 0")
      case False
      then have "endpoint_round env tries (idx + 1) ((in_world (redisFree j) e)\<lparr>cn_ctx := None\<rparr>) = (ok, idx', c')"
        using Suc.prems k Some e by (simp add: Let_def)
      from Suc.IH [OF this] show ?thesis by (rule grows_trans [OF grows_trans [OF ge grows_free]])
    qed (use Suc.prems k Some e ge in \<open>simp add: Let_def\<close>)
  qed
qed simp

lemma world_reconnect_sleep: "\<exists>new. w_log (reconnect_sleep env b w) = w_log w @ new \<and> list_all no_ack new"
proof (induction b arbitrary: w rule: less_induct)
  case (less b)
  let ?w = "snd (ask (e_stop env) w)"
  let ?c = "if b < CF_CONSUMER_RECONNECT_SLEEP_CHUNK_NS then b else CF_CONSUMER_RECONNECT_SLEEP_CHUNK_NS"
  show ?case
  proof (cases "b = 0 \<or> e_stop env (w_tick w)")
    case True
    then show ?thesis by (subst reconnect_sleep.simps) (auto simp: split_beta)
  next
    case False
    obtain new where "w_log (reconnect_sleep env (b - ?c) (note_event (Slept ?c) ?w)) = w_log (note_event (Slept ?c) ?w) @ new"
      "list_all no_ack new" using less [of "b - ?c" "note_event (Slept ?c) ?w"] False by auto
    then show ?thesis
      using False by (subst reconnect_sleep.simps) (auto simp: split_beta Let_def no_ack_def)
  qed
qed

lemma grows_reconnect:
  assumes "reconnect_loop env b idx c = Some (rc, c')"
  shows "grows c c'"
proof -
  have "grows c (snd (rc, c'))"
  proof (rule reconnect_loop.raw_induct [where P = "\<lambda>env b idx c res. grows c (snd res)", OF _ assms])
    fix loop env b idx c and res :: "int \<times> cf_consumer"
    assume 1: "\<And>env b idx c res. loop env b idx c = Some res \<Longrightarrow> grows c (snd res)"
      "(case on_world (ask (e_stop env)) c of (stop, c) \<Rightarrow>
       if stop then Some (- 1, c)
       else case endpoint_round env (length (sc_endpoints (cn_cfg c))) idx c of (ok, idx, c) \<Rightarrow>
         if ok then Some (0, c)
         else loop env (next_reconnect_backoff b) idx (in_world (reconnect_sleep env b) c)) = Some res"
    let ?c = "in_world (\<lambda>w. snd (ask (e_stop env) w)) c"
    obtain ok idx' d where e: "endpoint_round env (length (sc_endpoints (cn_cfg ?c))) idx ?c = (ok, idx', d)"
      by (metis prod_cases3)
    have d: "grows c d" by (rule grows_trans [OF _ grows_round [OF e]]) simp
    have "grows d (in_world (reconnect_sleep env b) d)" using world_reconnect_sleep by (auto simp: grows_def)
    then show "grows c (snd res)"
      using 1 e d grows_trans by (auto simp: on_world_ask split: if_splits)
  qed
  then show ?thesis by simp
qed

lemma grows_reconnect_redis: "reconnect_redis env c = Some (rc, c') \<Longrightarrow> grows c c'"
  unfolding reconnect_redis_def
  by (drule grows_reconnect) (auto split: option.splits intro: grows_trans [OF grows_free])

lemma grows_lag: "lag_loop env ss acc c = (r, c') \<Longrightarrow> grows c c'"
proof (induction ss arbitrary: acc c)
  case (Cons s ss)
  obtain x d where x: "redis env [''XINFO'', ''GROUPS'', s] c = (x, d)" by fastforce
  have "grows c d" by (rule grows_redis [OF x refl]) simp
  then show ?case using Cons x grows_trans by (fastforce split: option.splits redisReply.splits)
qed simp

lemma grows_connection_dead: "connection_dead env c = (b, c') \<Longrightarrow> grows c c'"
  by (auto simp: connection_dead_def on_world_ask split: option.splits)

lemma grows_sample: "grows c (sample_stream_lag env c)"
proof -
  obtain b d where d: "connection_dead env c = (b, d)" by fastforce
  obtain r e where e: "lag_loop env (sc_streams (cn_cfg d)) None d = (r, e)" by fastforce
  have "grows c d" "grows c e" using grows_connection_dead [OF d] grows_trans grows_lag [OF e] by blast+
  moreover have "grows e (in_world (tally f) e)" for f by simp
  ultimately show ?thesis
    using d e grows_trans by (auto simp: sample_stream_lag_def split: option.splits)
qed

lemma grows_maybe_sample: "grows c (maybe_sample_stream_lag env c)"
proof -
  let ?c = "in_world (\<lambda>w. snd (ask (e_now env) w)) c"
  have "grows c (?c\<lparr>cn_last_lag := t\<rparr>)" for t by (rule grows_same) simp_all
  then show ?thesis
    using grows_trans [OF _ grows_sample] by (auto simp: maybe_sample_stream_lag_def on_world_ask)
qed

lemma grows_stats: "grows c (in_world (cf_stats_emit env) c)" "grows c (in_world (cf_stats_maybe_emit env i) c)"
  by (rule grows_same; simp add: cf_stats_emit_def cf_stats_maybe_emit_def split_beta)+

section \<open>Flushing\<close>

text \<open>What the steps of a flush keep: the batch, the configuration, and all that is known so far.\<close>

definition flushing :: "'ev sink_plug \<Rightarrow> cf_consumer \<Rightarrow> cf_consumer \<Rightarrow> bool" where
  "flushing plug c c' \<longleftrightarrow> cinv plug c' \<and> cn_batch c' = cn_batch c \<and> cn_cfg c' = cn_cfg c \<and> set (c_log c) \<subseteq> set (c_log c')"

lemma settled_justified:
  assumes "cinv plug c" "it \<in> set (cn_batch c)" "settled_line (cn_cfg c) (c_log c) it"
  shows "justified plug (cn_cfg c) (c_log c) (it_stream it) (it_entry_id it)"
proof -
  obtain flds where "Seen (it_stream it) (it_entry_id it) flds \<in> set (c_log c)"
    "decode_entry plug (it_stream it) flds = Rendered (it_line it) (it_payload it)"
    using assms(1,2) by (auto simp: cinv_def list_all_iff pending_ok_def)
  then show ?thesis using assms(3) unfolding justified_def by (intro exI [of _ flds]) (cases it, simp)
qed

lemma flush_xack:
  assumes "flushing plug c d" "it \<in> set (cn_batch c)" "settled_line (cn_cfg c) (c_log d) it"
  shows "flushing plug c (xack env (it_stream it) (it_entry_id it) d)"
  using cinv_xack [OF _ settled_justified [of plug d it]] assms by (auto simp: flushing_def)

lemma world_prints:
  "w_log (foldl (\<lambda>w it. note_event (Print (cstr (it_line it))) w) w its) = w_log w @ map (\<lambda>it. Print (cstr (it_line it))) its"
  by (induction its arbitrary: w) auto

lemma cinv_flush_stdout:
  assumes "cinv plug c"
  shows "flushing plug c (flush_stdout env c)"
proof -
  let ?p = "in_world (\<lambda>w. foldl (\<lambda>w it. note_event (Print (cstr (it_line it))) w) w (cn_batch c)) c"
  let ?f = "\<lambda>s. s\<lparr>splunk_delivery_total := splunk_delivery_total s + length (cn_batch c), splunk_batch_size_last := length (cn_batch c)\<rparr>"
  let ?d = "in_world (tally ?f) ?p"
  have "grows c ?p" by (rule grows_in_world [where new = "map (\<lambda>it. Print (cstr (it_line it))) (cn_batch c)"]) (auto simp: world_prints list_all_iff no_ack_def)
  then have "grows c ?d" by (rule grows_trans) simp
  then have d: "flushing plug c ?d" using cinv_grows [OF assms] grows_set by (auto simp: flushing_def grows_def)
  have pr: "Print (cstr (it_line it)) \<in> set (c_log ?d)" if "it \<in> set (cn_batch c)" for it
    using that by (simp add: world_prints)
  have "flushing plug c (foldl (\<lambda>c it. xack env (it_stream it) (it_entry_id it) c) ?d (cn_batch c)) \<and>
      set (c_log ?d) \<subseteq> set (c_log (foldl (\<lambda>c it. xack env (it_stream it) (it_entry_id it) c) ?d (cn_batch c)))"
  proof (rule foldl_keeps [where P = "\<lambda>e. flushing plug c e \<and> set (c_log ?d) \<subseteq> set (c_log e)"])
    fix e it assume it: "it \<in> set (cn_batch c)" and e: "flushing plug c e \<and> set (c_log ?d) \<subseteq> set (c_log e)"
    have s: "settled_line (cn_cfg c) (c_log e) it" using pr [OF it] e by (auto simp: settled_line_def)
    have e': "cinv plug e" "it \<in> set (cn_batch e)" "settled_line (cn_cfg e) (c_log e) it"
      using e it s by (auto simp: flushing_def)
    show "flushing plug c (xack env (it_stream it) (it_entry_id it) e) \<and>
        set (c_log ?d) \<subseteq> set (c_log (xack env (it_stream it) (it_entry_id it) e))"
      using flush_xack [OF _ it s] cinv_xack [OF e'(1) settled_justified [OF e'], of env] e by auto
  qed (use d in simp)
  then show ?thesis by (simp add: flush_stdout_def Let_def)
qed

lemma flush_dead_letter:
  assumes "flushing plug c d" "it \<in> set (cn_batch c)" "rejected_alone (c_log d) it"
  shows "flushing plug c (dead_letter_and_ack env CF_DEADLETTER_REASON_HEC_REJECTED (it_stream it) (it_entry_id it) err (it_payload it) d)"
proof -
  have d: "cinv plug d" "cn_cfg d = cn_cfg c" "it \<in> set (cn_batch d)" using assms(1,2) by (auto simp: flushing_def)
  have j: "justified plug (cn_cfg d) (c_log d') (it_stream it) (it_entry_id it)"
    if g: "grows d d'" "deadlettered (cn_cfg d) (c_log d') CF_DEADLETTER_REASON_HEC_REJECTED (it_stream it) (it_entry_id it) (it_payload it)" for d'
  proof -
    have "rejected_alone (c_log d') it" using assms(3) grows_set [OF g(1)] by (auto simp: rejected_alone_def)
    then have "settled_line (cn_cfg d') (c_log d') it" using g by (auto simp: settled_line_def grows_def)
    moreover have "it \<in> set (cn_batch d')" "cn_cfg d' = cn_cfg d" using g(1) d(3) by (auto simp: grows_def)
    ultimately show ?thesis using settled_justified [OF cinv_grows [OF d(1) g(1)]] by simp
  qed
  let ?d = "dead_letter_and_ack env CF_DEADLETTER_REASON_HEC_REJECTED (it_stream it) (it_entry_id it) err (it_payload it) d"
  have "cinv plug ?d \<and> cn_batch ?d = cn_batch d \<and> cn_cfg ?d = cn_cfg d \<and> set (c_log d) \<subseteq> set (c_log ?d)"
    by (rule cinv_dead_letter [OF d(1)]) (rule j)
  then show ?thesis using assms(1) unfolding flushing_def by auto
qed

text \<open>The rest of the consumer, for any delivery client that keeps its contract.\<close>

context delivery
begin

lemma cinv_flush_hec:
  assumes "pl_send plug = send" "cinv plug c" "flush_hec env plug c = Some c'"
  shows "flushing plug c c'"
proof -
  let ?a = "\<lambda>c. in_world (\<lambda>w. snd (ask (e_alloc env) w)) c"
  let ?d = "?a (?a (?a (?a c)))"
  have gd: "grows c ?d" by (rule grows_trans [OF grows_ask(1) grows_trans [OF grows_ask(1) grows_trans [OF grows_ask(1) grows_ask(1)]]])
  have d: "flushing plug c ?d" using cinv_grows [OF assms(2) gd] grows_set [OF gd] gd by (auto simp: flushing_def grows_def)
  show ?thesis
  proof (cases "c' = ?d")
    case False
    then obtain m w where s: "send (cn_batch ?d) (cn_world ?d) = Some (m, w)"
      and c': "c' = foldl (settle_one env m) (?d\<lparr>cn_world := w\<rparr>) (enumerate 0 (cn_batch ?d))"
      using assms(1,3) by (auto simp: flush_hec_def on_world_ask bind_eq_Some_conv split: if_splits)
    let ?e = "?d\<lparr>cn_world := w\<rparr>"
    obtain new where new: "only_http (cn_world ?d) w new"
      and st: "\<forall>i < length (cn_batch ?d). settled_item True new m i (cn_batch ?d ! i)"
      using send_settles [OF s] by blast
    have h: "list_all no_ack new" using new by (auto simp: only_http_def list_all_iff is_http_def no_ack_def split: event.splits)
    then have ge: "grows ?d ?e" using new by (auto simp: grows_def only_http_def later_def)
    have e: "flushing plug c ?e" using d cinv_grows [OF _ ge, of plug] grows_set [OF ge] by (auto simp: flushing_def)
    have sub: "set new \<subseteq> set (c_log ?e)" using new by (auto simp: only_http_def later_def)
    have "flushing plug c (foldl (settle_one env m) ?e (enumerate 0 (cn_batch ?d))) \<and>
        set new \<subseteq> set (c_log (foldl (settle_one env m) ?e (enumerate 0 (cn_batch ?d))))"
    proof (rule foldl_keeps [where P = "\<lambda>e. flushing plug c e \<and> set new \<subseteq> set (c_log e)"])
      fix f x assume x: "x \<in> set (enumerate 0 (cn_batch ?d))" and f: "flushing plug c f \<and> set new \<subseteq> set (c_log f)"
      obtain i it where xi: "x = (i, it)" by fastforce
      have i: "i < length (cn_batch c)" "it = cn_batch c ! i" using x xi by (auto simp: in_set_enumerate_eq)
      then have it: "it \<in> set (cn_batch c)" by simp
      have si: "settled_item True new m i it" using st i by simp
      have cf: "cinv plug f" "it \<in> set (cn_batch f)" "cn_cfg f = cn_cfg c" using f it by (auto simp: flushing_def)
      have 1: "settled_line (cn_cfg c) (c_log f) it" if "mk_delivered m ! i"
        using si that f by (auto simp: settled_item_def settled_line_def accepted_in_def)
      have 2: "rejected_alone (c_log f) it" if "\<not> mk_delivered m ! i" "mk_poison m ! i"
        using si that f by (auto simp: settled_item_def rejected_alone_def)
      have "flushing plug c (settle_one env m f x)"
        using flush_xack [OF _ it 1, where env = env and plug = plug] flush_dead_letter [OF _ it 2, where env = env and plug = plug] f
        by (auto simp: settle_one_def xi)
      moreover have "flushing plug f (settle_one env m f x)"
        using flush_xack [of plug f f it env] flush_dead_letter [of plug f f it, where env = env] 1 2 cf
        by (auto simp: settle_one_def xi flushing_def)
      ultimately show "flushing plug c (settle_one env m f x) \<and> set new \<subseteq> set (c_log (settle_one env m f x))"
        using f by (auto simp: flushing_def)
    qed (use e sub in simp)
    then show ?thesis using c' by simp
  qed (use d in simp)
qed

lemma cinv_flush:
  assumes "pl_send plug = send" "cinv plug c" "flush_batch env plug c = Some c'"
  shows "cinv plug c' \<and> cn_cfg c' = cn_cfg c"
proof -
  let ?c = "(in_world (\<lambda>w. snd (ask (e_now env) w)) c)\<lparr>cn_last_flush := e_now env (w_tick (cn_world c))\<rparr>"
  have c: "cinv plug ?c" "cn_cfg ?c = cn_cfg c" using cinv_grows [OF assms(2) grows_same] by simp_all
  have clear: "cinv plug (batch_clear d) \<and> cn_cfg (batch_clear d) = cn_cfg ?c" if "flushing plug ?c d" for d
    using that by (auto simp: flushing_def cinv_def batch_clear_def)
  show ?thesis
    using assms(3) c clear [OF cinv_flush_stdout [OF c(1)]] clear [OF cinv_flush_hec [OF assms(1) c(1)]]
    by (auto simp: flush_batch_def on_world_ask Let_def bind_eq_Some_conv split: if_splits)
qed

lemma cinv_maybe_flush:
  assumes "pl_send plug = send" "cinv plug c" "maybe_flush env plug c = Some c'"
  shows "cinv plug c' \<and> cn_cfg c' = cn_cfg c"
proof -
  obtain b d where d: "should_flush env c = (b, d)" by fastforce
  then have "grows c d" by (auto simp: should_flush_def on_world_ask split: if_splits)
  then have "cinv plug d" "cn_cfg d = cn_cfg c" using cinv_grows [OF assms(2)] by (auto simp: grows_def)
  then show ?thesis using assms(3) d cinv_flush [OF assms(1), of d] by (auto simp: maybe_flush_def split: if_splits)
qed

lemma cinv_drain:
  assumes "drain_new env plug c = Some c'" "pl_send plug = send" "cinv plug c"
  shows "cinv plug c' \<and> cn_cfg c' = cn_cfg c"
proof (rule drain_new.raw_induct [where P = "\<lambda>env plug c c'. pl_send plug = send \<and> cinv plug c \<longrightarrow> cinv plug c' \<and> cn_cfg c' = cn_cfg c",
      OF _ assms(1), THEN mp], rule impI)
  fix loop env and plug :: "'a sink_plug" and c c'
  assume 1: "\<And>env plug c c'. loop env plug c = Some c' \<Longrightarrow> pl_send (plug :: 'a sink_plug) = send \<and> cinv plug c \<longrightarrow> cinv plug c' \<and> cn_cfg c' = cn_cfg c"
    and body: "(case read_new env plug (- 1) c of (n, c) \<Rightarrow>
      do { c \<leftarrow> maybe_flush env plug c; if n = 0 then Some c else loop env plug c }) = Some c'"
    and inv: "pl_send plug = send \<and> cinv plug c"
  obtain n d where d: "read_new env plug (- 1) c = (n, d)" by fastforce
  have "cinv plug d \<and> cn_cfg d = cn_cfg c" using cinv_read_new [OF _ d] inv by blast
  moreover obtain e where e: "maybe_flush env plug d = Some e" "(if n = 0 then Some e else loop env plug e) = Some c'"
    using body d by (auto simp: bind_eq_Some_conv)
  ultimately have "cinv plug e \<and> cn_cfg e = cn_cfg c" using cinv_maybe_flush [OF _ _ e(1)] inv by auto
  then show "cinv plug c' \<and> cn_cfg c' = cn_cfg c" using e(2) 1 inv by (auto split: if_splits)
qed (use assms in simp)

lemma cinv_ensure: "cf_consumer_ensure_groups env c = (rc, c') \<Longrightarrow> cinv plug c \<Longrightarrow> cinv plug c' \<and> cn_cfg c' = cn_cfg c"
  unfolding cf_consumer_ensure_groups_def by (rule cinv_grows_cfg [OF _ grows_ensure])

lemma cinv_run_once:
  assumes "cf_consumer_run_once env plug c = Some (rc, c')" "pl_send plug = send" "cinv plug c"
  shows "cinv plug c' \<and> cn_cfg c' = cn_cfg c"
proof -
  obtain r d where d: "cf_consumer_ensure_groups env c = (r, d)" by fastforce
  have i: "cinv plug d \<and> cn_cfg d = cn_cfg c" by (rule cinv_ensure [OF d assms(3)])
  show ?thesis
  proof (cases "r = 0")
    case True
    then obtain e f g where e: "maybe_flush env plug (reclaim_all env plug d) = Some e" "drain_new env plug e = Some f"
      "flush_batch env plug f = Some g" "c' = g"
      using assms(1) d by (auto simp: cf_consumer_run_once_def bind_eq_Some_conv)
    have "cinv plug (reclaim_all env plug d) \<and> cn_cfg (reclaim_all env plug d) = cn_cfg c" using cinv_reclaim_all i by force
    then show ?thesis
      using e cinv_maybe_flush [OF assms(2) _ e(1)] cinv_drain [OF e(2) assms(2)] cinv_flush [OF assms(2) _ e(3)] by auto
  qed (use assms(1) d i in \<open>auto simp: cf_consumer_run_once_def\<close>)
qed

lemma cinv_serve_step:
  assumes "serve_step env plug c = Some (go, c')" "pl_send plug = send" "cinv plug c"
  shows "cinv plug c' \<and> cn_cfg c' = cn_cfg c"
proof -
  obtain dead d where d: "connection_dead env c = (dead, d)" by fastforce
  obtain rc e where e: "(if dead then reconnect_redis env d else Some (0, d)) = Some (rc, e)"
    using assms(1) d by (auto simp: serve_step_def bind_eq_Some_conv)
  have "grows d e" using e grows_reconnect_redis by (auto split: if_splits)
  then have "grows c e" by (rule grows_trans [OF grows_connection_dead [OF d]])
  then have ie: "cinv plug e \<and> cn_cfg e = cn_cfg c" using cinv_grows [OF assms(3)] by (auto simp: grows_def)
  show ?thesis
  proof (cases "rc = 0")
    case True
    then obtain f where f: "maybe_flush env plug (reclaim_all env plug e) = Some f"
      using assms(1) d e by (auto simp: serve_step_def bind_eq_Some_conv)
    let ?f = "in_world (\<lambda>w. snd (ask (e_stop env) w)) f"
    have fi: "cinv plug ?f \<and> cn_cfg ?f = cn_cfg c"
      using cinv_maybe_flush [OF assms(2) _ f] cinv_reclaim_all ie cinv_grows [OF _ grows_ask(1), of plug f] by auto
    show ?thesis
    proof (cases "e_stop env (w_tick (cn_world f))")
      case False
      obtain n g where g: "read_new env plug (sc_block_ms (cn_cfg ?f)) ?f = (n, g)" by fastforce
      then obtain h where h: "maybe_flush env plug g = Some h"
        "c' = in_world (cf_stats_maybe_emit env 10000) (maybe_sample_stream_lag env h)"
        using assms(1) d e f True False by (auto simp: serve_step_def bind_eq_Some_conv on_world_ask)
      have "cinv plug h \<and> cn_cfg h = cn_cfg c"
        using cinv_read_new [OF _ g] fi cinv_maybe_flush [OF assms(2) _ h(1)] by auto
      moreover have "grows h c'" unfolding h(2) by (rule grows_trans [OF grows_maybe_sample grows_stats(2)])
      ultimately show ?thesis using cinv_grows_cfg [of plug h c'] by simp
    qed (use assms(1) d e f fi True in \<open>auto simp: serve_step_def bind_eq_Some_conv on_world_ask\<close>)
  qed (use assms(1) d e ie in \<open>auto simp: serve_step_def bind_eq_Some_conv\<close>)
qed

lemma cinv_serve:
  assumes "serve env plug c = Some c'" "pl_send plug = send" "cinv plug c"
  shows "cinv plug c' \<and> cn_cfg c' = cn_cfg c"
proof (rule serve.raw_induct [where P = "\<lambda>env plug c c'. pl_send plug = send \<and> cinv plug c \<longrightarrow> cinv plug c' \<and> cn_cfg c' = cn_cfg c",
      OF _ assms(1), THEN mp], rule impI)
  fix loop env and plug :: "'a sink_plug" and c c'
  assume 1: "\<And>env plug c c'. loop env plug c = Some c' \<Longrightarrow> pl_send (plug :: 'a sink_plug) = send \<and> cinv plug c \<longrightarrow> cinv plug c' \<and> cn_cfg c' = cn_cfg c"
    and body: "(case on_world (ask (e_stop env)) c of (stop, c) \<Rightarrow>
      if stop then Some c
      else do { (go, c) \<leftarrow> serve_step env plug c; if go then loop env plug c else Some c }) = Some c'"
    and inv: "pl_send plug = send \<and> cinv plug c"
  let ?c = "in_world (\<lambda>w. snd (ask (e_stop env) w)) c"
  have i: "cinv plug ?c" using inv cinv_grows [OF _ grows_ask(1), of plug c] by simp
  show "cinv plug c' \<and> cn_cfg c' = cn_cfg c"
  proof (cases "e_stop env (w_tick (cn_world c))")
    case False
    then obtain go d where d: "serve_step env plug ?c = Some (go, d)" "(if go then loop env plug d else Some d) = Some c'"
      using body by (auto simp: on_world_ask bind_eq_Some_conv)
    have "cinv plug d \<and> cn_cfg d = cn_cfg c" using cinv_serve_step [OF d(1)] inv i by auto
    then show ?thesis using d(2) 1 inv by (auto split: if_splits)
  qed (use body i in \<open>auto simp: on_world_ask\<close>)
qed (use assms in simp)

lemma cinv_run_forever:
  assumes "cf_consumer_run_forever env plug c = Some (rc, c')" "pl_send plug = send" "cinv plug c"
  shows "cinv plug c' \<and> cn_cfg c' = cn_cfg c"
proof -
  obtain r d where d: "cf_consumer_ensure_groups env c = (r, d)" by fastforce
  have i: "cinv plug d \<and> cn_cfg d = cn_cfg c" by (rule cinv_ensure [OF d assms(3)])
  show ?thesis
  proof (cases "r = 0")
    case True
    then obtain e f where e: "serve env plug d = Some e" "flush_batch env plug e = Some f" "c' = in_world (cf_stats_emit env) f"
      using assms(1) d by (auto simp: cf_consumer_run_forever_def bind_eq_Some_conv)
    have "cinv plug f \<and> cn_cfg f = cn_cfg c"
      using cinv_serve [OF e(1) assms(2)] cinv_flush [OF assms(2) _ e(2)] i by auto
    then show ?thesis using e(3) cinv_grows [OF _ grows_stats(1), of plug f env] by simp
  qed (use assms(1) d i in \<open>auto simp: cf_consumer_run_forever_def\<close>)
qed

end

end
