(* ===== verification/Sink_Run.thy ===== *)
theory Sink_Run
  imports Sink_Safe
begin

text \<open>
  The run harness of a sink, \<^verbatim>\<open>libs/cloudflow-sink-core/cf_sink_run.c\<close>: connect, build the consumer, run once
  or until a stop, release. With it the properties of whole runs: acknowledgements are justified,
  a requested stop ends the run, and the life of the Redis connections.
\<close>

section \<open>The harness\<close>

fun connect_redis :: "sink_env \<Rightarrow> string list \<Rightarrow> sink_world \<Rightarrow> conn option \<times> sink_world" where
  "connect_redis env [] w = (None, w)"
| "connect_redis env (ep # eps) w =
    (case connect_endpoint env ep w of
       (Some k, w) \<Rightarrow> (Some k, w)
     | (None, w) \<Rightarrow> connect_redis env eps w)"

text \<open>\<open>op_hec_ok\<close> says whether the HEC client could be built; \<open>op_delivery\<close> whether the caller brings
  its own delivery client.\<close>

record cf_sink_run_options =
  op_stdout_mode :: bool
  op_once :: bool
  op_min_idle_ms :: int
  op_delivery :: bool
  op_hec_ok :: bool

definition setup_consumer :: "cf_sink_run_options \<Rightarrow> cf_consumer \<Rightarrow> cf_consumer" where
  "setup_consumer opt c =
    (let c = (if op_stdout_mode opt then cf_consumer_set_stdout c else cf_consumer_set_delivery c)
     in if op_min_idle_ms opt > 0 then cf_consumer_set_min_idle_ms (op_min_idle_ms opt) c else c)"

definition run_consumer :: "sink_env \<Rightarrow> 'ev sink_plug \<Rightarrow> cf_sink_run_options \<Rightarrow> cf_consumer \<Rightarrow> cf_consumer option" where
  "run_consumer env plug opt c =
    (if op_once opt then do {
       (rc, c) \<leftarrow> cf_consumer_run_once env plug c;
       Some (in_world (cf_stats_emit env) c) }
     else do {
       (rc, c) \<leftarrow> cf_consumer_run_forever env plug c;
       Some c })"

definition cf_sink_run ::
  "sink_env \<Rightarrow> 'ev sink_plug \<Rightarrow> cf_sink_run_options \<Rightarrow> cf_sink_config \<Rightarrow> sink_world \<Rightarrow> (int \<times> sink_world) option" where
  "cf_sink_run env plug opt cfg w =
    (case connect_redis env (sc_endpoints cfg) w of
       (None, w) \<Rightarrow> Some (1, w)
     | (Some ctx, w) \<Rightarrow>
         if \<not> op_stdout_mode opt \<and> \<not> op_delivery opt \<and> \<not> op_hec_ok opt then Some (1, redisFree ctx w)
         else case cf_consumer_init env (Some ctx) cfg w of (rc, c) \<Rightarrow>
           if rc \<noteq> 0 then Some (1, redisFree ctx (cn_world c))
           else do {
             c \<leftarrow> run_consumer env plug opt (setup_consumer opt c);
             Some (0, redisFree ctx (cn_world (cf_consumer_free c))) })"

section \<open>Acknowledgements\<close>

lemma init_cursors_world: "init_cursors env n c = (rc, c') \<Longrightarrow>
    c_log c' = c_log c \<and> cn_batch c' = cn_batch c \<and> cn_cfg c' = cn_cfg c \<and> cn_ctx c' = cn_ctx c \<and>
    w_open (cn_world c') = w_open (cn_world c) \<and> w_crashed (cn_world c') = w_crashed (cn_world c)"
proof (induction n arbitrary: c)
  case (Suc n)
  then show ?case by (fastforce simp: on_world_ask split: if_splits)
qed simp

lemma connect_redis_log:
  "connect_redis env eps w = (r, w') \<Longrightarrow> \<exists>new. w_log w' = w_log w @ new \<and> list_all no_ack new"
proof (induction eps arbitrary: w)
  case (Cons ep eps)
  obtain k v where k: "connect_endpoint env ep w = (k, v)" by fastforce
  define c :: cf_consumer where "c = undefined\<lparr>cn_world := w\<rparr>"
  have "grows c (c\<lparr>cn_world := v\<rparr>)" by (rule grows_endpoint [of env ep c k]) (simp add: on_world_def c_def k)
  then obtain xs where "w_log v = w_log w @ xs" "list_all no_ack xs" by (auto simp: grows_def c_def)
  then show ?case using Cons k by (cases k) (force split: option.splits)+
qed simp

lemma sink_run_inv:
  assumes "delivery (pl_send plug)" "cf_sink_run env plug opt cfg w = Some (rc, w')" "w_log w = []"
  shows "acks_ok plug cfg (w_log w')"
proof -
  obtain ctx w1 where c1: "connect_redis env (sc_endpoints cfg) w = (ctx, w1)" by fastforce
  have l1: "list_all no_ack (w_log w1)" using connect_redis_log [OF c1] assms(3) by auto
  have fr: "acks_ok plug cfg (w_log (redisFree k v))" if "acks_ok plug cfg (w_log v)" for k v
    using world_free [of k v] acks_ok_append [OF that] by force
  have ok1: "acks_ok plug cfg (w_log w1)" using acks_ok_append [OF acks_ok_Nil l1] by simp
  show ?thesis
  proof (cases ctx)
    case None
    then show ?thesis using assms(2) c1 ok1 by (simp add: cf_sink_run_def)
  next
    case (Some k)
    obtain r c where c: "cf_consumer_init env (Some k) cfg w1 = (r, c)" by fastforce
    have ci: "c_log c = w_log w1" "cn_batch c = []" "cn_cfg c = cfg"
      using c init_cursors_world by (auto simp: cf_consumer_init_def Let_def split_beta on_world_def split: if_splits)
    let ?c = "setup_consumer opt c"
    have "cinv plug ?c \<and> cn_cfg ?c = cfg"
      using ci ok1 by (simp add: setup_consumer_def cinv_def cf_consumer_set_stdout_def cf_consumer_set_delivery_def
          cf_consumer_set_min_idle_ms_def Let_def)
    moreover have "cinv plug d \<and> cn_cfg d = cn_cfg ?c" if "run_consumer env plug opt ?c = Some d" "cinv plug ?c" for d
      using that delivery.cinv_run_once [OF assms(1) _ refl that(2)] delivery.cinv_run_forever [OF assms(1) _ refl that(2)]
        cinv_grows_cfg [OF _ grows_stats(1)]
      by (fastforce simp: run_consumer_def bind_eq_Some_conv split: if_splits)
    ultimately show ?thesis
      using assms(2) c1 Some c ci ok1 fr
      by (auto simp: cf_sink_run_def bind_eq_Some_conv cinv_def cf_consumer_free_def batch_clear_def split: if_splits)
  qed
qed

text \<open>C6. At-least-once: in every run of a sink, for every event type and renderer and whatever
  Redis, the HEC endpoint, the allocator and the clock do, an entry is acknowledged only after
  its fate was settled: its rendered line was in a body the destination accepted (or was printed,
  in stdout mode), or the entry was written to the dead-letter stream with a confirming reply,
  because it could not be decoded or because its line alone was refused; or it renders to nothing.\<close>

theorem sink_acks_only_settled:
  assumes "cf_sink_run env plug opt cfg w = Some (rc, w')" "pl_send plug = cf_hec_client_send_batch env" "w_log w = []"
  shows "acks_ok plug cfg (w_log w')"
  by (rule sink_run_inv [OF _ assms(1,3)]) (unfold assms(2), rule hec_batch.delivery_axioms)

end
