(* ===== verification/Sink_Live.thy ===== *)
theory Sink_Live
  imports Sink_Run
begin

text \<open>
  The other half of the sink's contract: a requested stop ends the run, and as long as the
  connection stays up and allocations succeed the run neither crashes nor leaks its connection.
  One relation, \<open>calm\<close>, says what every operation but the rebuilding of a connection leaves alone.
\<close>

section \<open>What the operations leave alone\<close>

definition healthy :: "cf_consumer \<Rightarrow> bool" where
  "healthy c \<longleftrightarrow> \<not> w_crashed (cn_world c) \<and> (\<exists>k \<in> set (w_open (cn_world c)). cn_ctx c = Some k) \<and>
    length (cn_cursors c) = length (sc_streams (cn_cfg c)) \<and> None \<notin> set (cn_cursors c)"

definition calm :: "sink_env \<Rightarrow> cf_consumer \<Rightarrow> cf_consumer \<Rightarrow> bool" where
  "calm env c c' \<longleftrightarrow> cn_cfg c' = cn_cfg c \<and> cn_ctx c' = cn_ctx c \<and> w_tick (cn_world c) \<le> w_tick (cn_world c') \<and>
    w_open (cn_world c') = w_open (cn_world c) \<and> (healthy c \<and> (\<forall>t. e_alloc env t) \<longrightarrow> healthy c')"

lemma calm_refl [simp]: "calm env c c"
  by (simp add: calm_def)

lemma calm_trans [trans]: "calm env c c' \<Longrightarrow> calm env c' c'' \<Longrightarrow> calm env c c''"
  by (auto simp: calm_def)

lemma calm_foldl: "(\<And>d x. calm env d (f d x)) \<Longrightarrow> calm env c (foldl f c xs)"
  by (rule foldl_keeps [where P = "calm env c"]) (auto intro: calm_trans)

lemma calm_ask [simp]: "calm env c (in_world (\<lambda>w. snd (ask f w)) c)" "calm env c (in_world (tally g) c)"
  "calm env c (in_world (note_event e) c)"
  by (auto simp: calm_def healthy_def)

lemma calm_fields [simp]:
  "calm env c (d\<lparr>cn_batch := b\<rparr>) = calm env c d" "calm env c (d\<lparr>cn_batch_cap := n\<rparr>) = calm env c d"
  "calm env c (d\<lparr>cn_last_flush := t\<rparr>) = calm env c d" "calm env c (d\<lparr>cn_last_lag := t\<rparr>) = calm env c d"
  by (simp_all add: calm_def healthy_def)

lemma calm_redis: "redis env' cmd c = (r, c') \<Longrightarrow> calm env c c'"
  by (auto simp: redis_def on_world_def redisCommand_def ask_def calm_def healthy_def split: option.splits if_splits)

lemma calm_xack [simp]: "calm env c (xack env s i c)"
  unfolding xack_def by (rule calm_redis [OF prod.collapse [symmetric]])

lemma calm_dead_letter [simp]: "calm env c (dead_letter_and_ack env reason s i err p c)"
proof -
  obtain rc d where d: "cf_deadletter_write env reason s i err p c = (rc, d)" by fastforce
  have r: "calm env c e" "calm env c (in_world (tally g) e)" if "redis env cmd c = (x, e)" for cmd x e g
    using calm_redis [OF that] calm_trans [OF _ calm_ask(2)] by blast+
  have "calm env c d"
    using d by (auto simp: cf_deadletter_write_def split: option.splits if_splits prod.splits dest: r)
  then show ?thesis using calm_trans [OF _ calm_xack] by (auto simp: dead_letter_and_ack_def d)
qed

lemma calm_append:
  assumes "batch_append env it c = (rc, fr, d)"
  shows "calm env c d \<and> ((\<forall>t. e_alloc env t) \<longrightarrow> rc = 0)"
proof -
  let ?a = "\<lambda>c. in_world (\<lambda>w. snd (ask (e_alloc env) w)) c"
  have "calm env c (?a (?a (?a c')))" if "calm env c c'" for c'
    using that calm_trans calm_ask(1) by blast
  then show ?thesis
    using assms calm_trans [OF calm_ask(1) calm_ask(1)]
    by (auto simp: batch_append_def Let_def on_world_ask split: if_splits)
qed

lemma calm_entry [simp]: "calm env c (process_entry env plug stream i flds c)"
proof -
  let ?c = "in_world (note_event (Seen stream i flds)) c"
  show ?thesis
  proof (cases "decode_entry plug stream flds")
    case (Rendered line p)
    obtain rc fr d where b: "batch_append env \<lparr>it_stream = stream, it_entry_id = i, it_line = line, it_payload = p\<rparr> ?c = (rc, fr, d)"
      by (metis prod_cases3)
    have d: "calm env c d" using calm_append [OF b] calm_trans [OF calm_ask(3)] by blast
    then have "calm env c (in_world (\<lambda>w. w\<lparr>w_crashed := True\<rparr>) d)" if "rc \<noteq> 0"
      using calm_append [OF b] that by (auto simp: calm_def)
    then show ?thesis using Rendered b d by (auto simp: process_entry_def Let_def)
  next
    case (Undecodable err p)
    then show ?thesis
      using calm_trans [OF calm_ask(3) calm_trans [OF calm_ask(2) calm_dead_letter]] by (simp add: process_entry_def Let_def)
  next
    case No_Output
    then show ?thesis using calm_trans [OF calm_ask(3) calm_xack] by (simp add: process_entry_def Let_def)
  qed
qed

lemma calm_entries [simp]: "calm env c (process_entries_array env plug stream entries c)"
proof -
  have "calm env d (process_element env plug stream d e)" for d e
    by (auto simp: process_element_def split: option.splits redisReply.splits list.splits)
  then show ?thesis
    by (auto simp: process_entries_array_def intro!: calm_foldl split: option.splits redisReply.splits)
qed

lemma calm_cursor [simp]: "calm env c (set_cursor env idx cur c)"
proof -
  have "None \<notin> set (xs[i := Some y])" if "None \<notin> set xs" for xs :: "string option list" and i y
    using that set_update_subset_insert [of xs i "Some y"] by auto
  then show ?thesis
    by (auto simp: set_cursor_def on_world_ask calm_def healthy_def split: option.splits redisReply.splits)
qed

lemma calm_reclaim:
  assumes "idx < length (sc_streams (cn_cfg c))"
  shows "calm env c (reclaim_stream env plug idx c)"
proof (cases "cn_cursors c ! idx")
  case None
  then have "\<not> healthy c" using assms by (metis healthy_def nth_mem)
  then show ?thesis using None by (simp add: reclaim_stream_def Let_def calm_def)
next
  case (Some cursor)
  let ?cmd = "[''XAUTOCLAIM'', sc_streams (cn_cfg c) ! idx, sc_group (cn_cfg c), sc_consumer_name (cn_cfg c), int_string (cn_min_idle_ms c),
             cursor, ''COUNT'', int_string (sc_read_count (cn_cfg c))]"
  obtain r d where r: "redis env ?cmd c = (r, d)" by fastforce
  have d: "calm env c d" by (rule calm_redis [OF r])
  then show ?thesis
    using r Some calm_trans [OF d calm_trans [OF calm_cursor calm_entries]]
    by (auto simp: reclaim_stream_def Let_def split: option.splits redisReply.splits list.splits)
qed

lemma calm_reclaim_all [simp]: "calm env c (reclaim_all env plug c)"
  unfolding reclaim_all_def
proof (rule foldl_keeps [where P = "calm env c"])
  fix d i assume i: "i \<in> set [0..<length (sc_streams (cn_cfg c))]" and d: "calm env c d"
  then have "i < length (sc_streams (cn_cfg d))" by (simp add: calm_def)
  then show "calm env c (reclaim_stream env plug i d)" by (rule calm_trans [OF d calm_reclaim])
qed simp

lemma calm_read_new:
  assumes "read_new env plug block_ms c = (n, c')"
  shows "calm env c c'"
proof -
  let ?c = "in_world (\<lambda>w. snd (ask (e_alloc env) w)) c"
  obtain r d where r: "redis env (read_cmd (cn_cfg ?c) block_ms) ?c = (r, d)" by fastforce
  have d: "calm env c d" by (rule calm_trans [OF calm_ask(1) calm_redis [OF r]])
  have "calm env (snd nd) (snd (read_element env plug nd e))" for nd e
    by (auto simp: read_element_def split: option.splits redisReply.splits list.splits prod.splits)
  then have "calm env c (snd (foldl (read_element env plug) (0, d) es))" for es
    by (intro foldl_keeps [where P = "\<lambda>nd. calm env c (snd nd)"]) (auto intro: calm_trans d)
  then have f: "calm env c e" if "foldl (read_element env plug) (0, d) es = (m, e)" for es m e
    using that by (metis snd_conv)
  show ?thesis
    using assms r d f by (auto simp: read_new_def on_world_ask split: if_splits option.splits redisReply.splits)
qed

section \<open>Flushing\<close>

lemma calm_settle: "calm env c (settle_one env m c x)"
  by (auto simp: settle_one_def split: prod.splits)

lemma calm_flush_stdout: "calm env c (flush_stdout env c)"
proof -
  have w: "w_tick (foldl (\<lambda>w it. note_event (Print (cstr (it_line it))) w) w its) = w_tick w"
    "w_open (foldl (\<lambda>w it. note_event (Print (cstr (it_line it))) w) w its) = w_open w"
    "w_crashed (foldl (\<lambda>w it. note_event (Print (cstr (it_line it))) w) w its) = w_crashed w" for its w
    by (induction its arbitrary: w) auto
  have "calm env c (in_world (\<lambda>w. foldl (\<lambda>w it. note_event (Print (cstr (it_line it))) w) w its) c)" for its by (auto simp: calm_def healthy_def w)
  then show ?thesis
    unfolding flush_stdout_def Let_def
    by (intro calm_trans [OF calm_trans [OF _ calm_ask(2)] calm_foldl]) simp_all
qed

context delivery
begin

lemma calm_flush_hec:
  assumes "pl_send plug = send" "flush_hec env plug c = Some c'"
  shows "calm env c c'"
proof -
  let ?a = "\<lambda>c. in_world (\<lambda>w. snd (ask (e_alloc env) w)) c"
  let ?d = "?a (?a (?a (?a c)))"
  have d: "calm env c ?d"
    by (rule calm_trans [OF calm_ask(1) calm_trans [OF calm_ask(1) calm_trans [OF calm_ask(1) calm_ask(1)]]])
  show ?thesis
  proof (cases "c' = ?d")
    case False
    then obtain m w where s: "send (cn_batch ?d) (cn_world ?d) = Some (m, w)"
      and c': "c' = foldl (settle_one env m) (?d\<lparr>cn_world := w\<rparr>) (enumerate 0 (cn_batch ?d))"
      using assms by (auto simp: flush_hec_def on_world_ask bind_eq_Some_conv split: if_splits)
    obtain new where "only_http (cn_world ?d) w new" using send_settles [OF s] by blast
    then have "calm env ?d (?d\<lparr>cn_world := w\<rparr>)" by (auto simp: calm_def healthy_def only_http_def later_def)
    then have "calm env c (?d\<lparr>cn_world := w\<rparr>)" by (rule calm_trans [OF d])
    then show ?thesis unfolding c' by (rule calm_trans) (rule calm_foldl [OF calm_settle])
  qed (use d in simp)
qed

lemma calm_flush:
  assumes "pl_send plug = send" "flush_batch env plug c = Some c'"
  shows "calm env c c'"
proof -
  let ?c = "(in_world (\<lambda>w. snd (ask (e_now env) w)) c)\<lparr>cn_last_flush := e_now env (w_tick (cn_world c))\<rparr>"
  have c: "calm env c ?c" by simp
  show ?thesis
    using assms(2) c calm_trans [OF c calm_flush_stdout] calm_trans [OF c calm_flush_hec [OF assms(1)]]
    by (auto simp: flush_batch_def on_world_ask Let_def bind_eq_Some_conv batch_clear_def split: if_splits)
qed

lemma calm_maybe_flush:
  assumes "pl_send plug = send" "maybe_flush env plug c = Some c'"
  shows "calm env c c'"
proof -
  obtain b d where d: "should_flush env c = (b, d)" by fastforce
  then have "calm env c d" by (auto simp: should_flush_def on_world_ask split: if_splits)
  then show ?thesis using assms(2) d calm_trans calm_flush [OF assms(1)] by (auto simp: maybe_flush_def split: if_splits)
qed

end

section \<open>Groups, statistics, lag\<close>

lemma calm_ensure: "cf_consumer_ensure_groups env c = (rc, c') \<Longrightarrow> calm env c c'"
proof -
  have "ensure_groups_loop env ss c = (rc, c') \<Longrightarrow> calm env c c'" for ss
  proof (induction ss arbitrary: c)
    case (Cons s ss)
    obtain r d where r: "redis env [''XGROUP'', ''CREATE'', s, sc_group (cn_cfg c), ''0'', ''MKSTREAM''] c = (r, d)" by fastforce
    then show ?case
      using Cons calm_redis [OF r] calm_trans [of env c d c']
      by (auto split: option.splits redisReply.splits if_splits)
  qed simp
  then show "cf_consumer_ensure_groups env c = (rc, c') \<Longrightarrow> calm env c c'" by (simp add: cf_consumer_ensure_groups_def)
qed

lemma calm_stats: "calm env c (in_world (cf_stats_emit env) c)" "calm env c (in_world (cf_stats_maybe_emit env i) c)"
  by (auto simp: calm_def healthy_def cf_stats_emit_def cf_stats_maybe_emit_def split_beta)

lemma calm_dead: "connection_dead env c = (b, c') \<Longrightarrow> calm env c c'"
  by (auto simp: connection_dead_def on_world_ask split: option.splits)

lemma calm_lag: "lag_loop env ss acc c = (r, c') \<Longrightarrow> calm env c c'"
proof (induction ss arbitrary: acc c)
  case (Cons s ss)
  obtain x d where x: "redis env [''XINFO'', ''GROUPS'', s] c = (x, d)" by fastforce
  then show ?case
    using Cons calm_redis [OF x] calm_trans [of env c d c'] by (auto split: option.splits redisReply.splits)
qed simp

lemma calm_sample: "calm env c (maybe_sample_stream_lag env c)"
proof -
  have s: "calm env c (sample_stream_lag env c)" for c
  proof -
    obtain b d where d: "connection_dead env c = (b, d)" by fastforce
    obtain r e where e: "lag_loop env (sc_streams (cn_cfg d)) None d = (r, e)" by fastforce
    have "calm env c d" "calm env c e" "calm env c (in_world (tally f) e)" for f
      using calm_dead [OF d] calm_trans [OF calm_dead [OF d] calm_lag [OF e]] calm_trans [OF _ calm_ask(2)] by blast+
    then show ?thesis using d e by (auto simp: sample_stream_lag_def split: option.splits)
  qed
  let ?c = "in_world (\<lambda>w. snd (ask (e_now env) w)) c"
  have "calm env c (?c\<lparr>cn_last_lag := t\<rparr>)" for t by simp
  then show ?thesis
    using calm_trans [OF _ s] by (auto simp: maybe_sample_stream_lag_def on_world_ask)
qed

section \<open>Reconnecting\<close>

lemma tick_connect: "connect_endpoint env ep w = (k, w') \<Longrightarrow> w_tick w \<le> w_tick w'"
  by (auto simp: connect_endpoint_def redisConnect_def redisFree_def ask_def note_event_def
      split: option.splits connect_result.splits if_splits)

lemma tick_free [simp]: "w_tick (redisFree k w) = w_tick w"
  by (simp add: redisFree_def)

lemma tick_round: "endpoint_round env tries idx c = (ok, idx', c') \<Longrightarrow> w_tick (cn_world c) \<le> w_tick (cn_world c')"
proof (induction tries arbitrary: idx c)
  case (Suc tries)
  let ?ep = "sc_endpoints (cn_cfg c) ! (idx mod length (sc_endpoints (cn_cfg c)))"
  obtain k w where k: "connect_endpoint env ?ep (cn_world c) = (k, w)" by fastforce
  have w: "w_tick (cn_world c) \<le> w_tick w" by (rule tick_connect [OF k])
  obtain rc e where e: "cf_consumer_ensure_groups env (c\<lparr>cn_world := w, cn_ctx := k\<rparr>) = (rc, e)" by fastforce
  have we: "w_tick w \<le> w_tick (cn_world e)" using calm_ensure [OF e] by (simp add: calm_def)
  show ?case
    using Suc.prems Suc.IH [of "idx + 1" "c\<lparr>cn_world := w\<rparr>"]
      Suc.IH [of "idx + 1" "(in_world (redisFree (the k)) e)\<lparr>cn_ctx := None\<rparr>"] k e w we
    by (cases k) (auto simp: on_world_def Let_def split: if_splits)
qed simp

lemma tick_sleep: "w_tick w \<le> w_tick (reconnect_sleep env b w)"
proof (induction b arbitrary: w rule: less_induct)
  case (less b)
  let ?w = "snd (ask (e_stop env) w)"
  let ?c = "if b < CF_CONSUMER_RECONNECT_SLEEP_CHUNK_NS then b else CF_CONSUMER_RECONNECT_SLEEP_CHUNK_NS"
  show ?case
    using less [of "b - ?c" "note_event (Slept ?c) ?w"]
    by (subst reconnect_sleep.simps) (auto simp: split_beta Let_def)
qed

lemma reconnect_ends:
  assumes "\<forall>t \<ge> N. e_stop env t"
  shows "\<exists>rc c'. reconnect_loop env b idx c = Some (rc, c') \<and> w_tick (cn_world c) \<le> w_tick (cn_world c')"
proof (induction "N - w_tick (cn_world c)" arbitrary: b idx c rule: less_induct)
  case less
  let ?c = "in_world (\<lambda>w. snd (ask (e_stop env) w)) c"
  obtain ok idx' d where e: "endpoint_round env (length (sc_endpoints (cn_cfg ?c))) idx ?c = (ok, idx', d)" by (metis prod_cases3)
  have t: "w_tick (cn_world c) < w_tick (cn_world d)" using tick_round [OF e] by simp
  let ?d = "in_world (reconnect_sleep env b) d"
  have td: "w_tick (cn_world c) < w_tick (cn_world ?d)" using t tick_sleep [of "cn_world d" env b] by simp
  show ?case
  proof (cases "e_stop env (w_tick (cn_world c))")
    case False
    then have "w_tick (cn_world c) < N" using assms not_less by blast
    then have lt: "N - w_tick (cn_world ?d) < N - w_tick (cn_world c)" using td by simp
    obtain rc c' where "reconnect_loop env (next_reconnect_backoff b) idx' ?d = Some (rc, c')"
      "w_tick (cn_world ?d) \<le> w_tick (cn_world c')" using less [OF lt, of "next_reconnect_backoff b" idx'] by blast
    then show ?thesis using False e t td by (subst reconnect_loop.simps) (auto simp: on_world_ask)
  qed (subst reconnect_loop.simps, simp add: on_world_ask)
qed

lemma reconnect_redis_ends:
  assumes "\<forall>t \<ge> N. e_stop env t"
  shows "\<exists>rc c'. reconnect_redis env c = Some (rc, c') \<and> w_tick (cn_world c) \<le> w_tick (cn_world c')"
  using reconnect_ends [OF assms, of CF_CONSUMER_RECONNECT_BACKOFF_INITIAL_NS 0 c]
    reconnect_ends [OF assms, of CF_CONSUMER_RECONNECT_BACKOFF_INITIAL_NS 0 "(in_world (redisFree (the (cn_ctx c))) c)\<lparr>cn_ctx := None\<rparr>"]
  by (cases "cn_ctx c") (auto simp: reconnect_redis_def)

section \<open>Whole runs\<close>

context delivery
begin

lemma flush_ends:
  assumes "pl_send plug = send" "\<And>items w. \<exists>res. send items w = Some res"
  shows "\<exists>c'. flush_batch env plug c = Some c'" "\<exists>c'. maybe_flush env plug c = Some c'"
proof -
  have "\<exists>c'. flush_hec env plug c = Some c'" for c
  proof -
    let ?a = "\<lambda>c. in_world (\<lambda>w. snd (ask (e_alloc env) w)) c"
    let ?d = "?a (?a (?a (?a c)))"
    obtain m w where "send (cn_batch ?d) (cn_world ?d) = Some (m, w)" using assms(2) by (metis prod.exhaust)
    then show ?thesis using assms(1) by (simp add: flush_hec_def on_world_ask)
  qed
  then have f: "\<exists>c'. flush_batch env plug c = Some c'" for c
    by (auto simp: flush_batch_def on_world_ask Let_def bind_eq_Some_conv)
  show "\<exists>c'. flush_batch env plug c = Some c'" by (rule f)
  show "\<exists>c'. maybe_flush env plug c = Some c'" using f by (auto simp: maybe_flush_def split: prod.splits)
qed

lemma serve_step_ends:
  assumes "pl_send plug = send" "\<And>items w. \<exists>res. send items w = Some res" "\<forall>t \<ge> N. e_stop env t"
  shows "\<exists>go c'. serve_step env plug c = Some (go, c') \<and> w_tick (cn_world c) \<le> w_tick (cn_world c')"
proof -
  obtain dead d where d: "connection_dead env c = (dead, d)" by fastforce
  have td: "w_tick (cn_world c) \<le> w_tick (cn_world d)" using calm_dead [OF d] by (simp add: calm_def)
  obtain rc e where e: "(if dead then reconnect_redis env d else Some (0, d)) = Some (rc, e)"
    "w_tick (cn_world d) \<le> w_tick (cn_world e)"
    using reconnect_redis_ends [OF assms(3), of d] by (cases dead) auto
  obtain f where f: "maybe_flush env plug (reclaim_all env plug e) = Some f" using flush_ends [OF assms(1,2)] by blast
  have "calm env e f" by (rule calm_trans [OF calm_reclaim_all calm_maybe_flush [OF assms(1) f]])
  then have tf: "w_tick (cn_world e) \<le> w_tick (cn_world f)" by (simp add: calm_def)
  let ?f = "in_world (\<lambda>w. snd (ask (e_stop env) w)) f"
  obtain n g where g: "read_new env plug (sc_block_ms (cn_cfg ?f)) ?f = (n, g)" by fastforce
  obtain h where h: "maybe_flush env plug g = Some h" using flush_ends [OF assms(1,2)] by blast
  let ?h = "in_world (cf_stats_maybe_emit env 10000) (maybe_sample_stream_lag env h)"
  have "calm env f ?h"
    by (rule calm_trans [OF calm_trans [OF calm_trans [OF calm_trans [OF calm_ask(1) calm_read_new [OF g]]
          calm_maybe_flush [OF assms(1) h]] calm_sample] calm_stats(2)])
  then have th: "w_tick (cn_world f) \<le> w_tick (cn_world ?h)" by (simp add: calm_def)
  show ?thesis
  proof (cases "rc = 0 \<and> \<not> e_stop env (w_tick (cn_world f))")
    case True
    then have "serve_step env plug c = Some (True, ?h)"
      unfolding serve_step_def using d e(1) f g h by (simp add: on_world_ask)
    then show ?thesis using td e(2) tf th by auto
  next
    case False
    then have "serve_step env plug c = Some (False, if rc = 0 then ?f else e)"
      unfolding serve_step_def using d e(1) f by (auto simp: on_world_ask)
    then show ?thesis using td e(2) tf by auto
  qed
qed

lemma serve_ends:
  assumes "pl_send plug = send" "\<And>items w. \<exists>res. send items w = Some res" "\<forall>t \<ge> N. e_stop env t"
  shows "\<exists>c'. serve env plug c = Some c'"
proof (induction "N - w_tick (cn_world c)" arbitrary: c rule: less_induct)
  case less
  let ?c = "in_world (\<lambda>w. snd (ask (e_stop env) w)) c"
  obtain go d where d: "serve_step env plug ?c = Some (go, d)" "w_tick (cn_world ?c) \<le> w_tick (cn_world d)"
    using serve_step_ends [OF assms] by blast
  show ?case
  proof (cases "e_stop env (w_tick (cn_world c))")
    case False
    then have "w_tick (cn_world c) < N" using assms(3) not_less by blast
    then have "N - w_tick (cn_world d) < N - w_tick (cn_world c)" using d(2) by simp
    from less [OF this] obtain c' where "serve env plug d = Some c'" by blast
    then show ?thesis using False d(1) by (subst serve.simps) (simp add: on_world_ask)
  qed (subst serve.simps, simp add: on_world_ask)
qed

lemma run_forever_ends:
  assumes "pl_send plug = send" "\<And>items w. \<exists>res. send items w = Some res" "\<forall>t \<ge> N. e_stop env t"
  shows "\<exists>rc c'. cf_consumer_run_forever env plug c = Some (rc, c')"
proof -
  obtain r d where d: "cf_consumer_ensure_groups env c = (r, d)" by fastforce
  obtain e where e: "serve env plug d = Some e" using serve_ends [OF assms] by blast
  obtain f where "flush_batch env plug e = Some f" using flush_ends [OF assms(1,2)] by blast
  then show ?thesis using d e by (simp add: cf_consumer_run_forever_def)
qed

lemma calm_serve_step:
  assumes "pl_send plug = send" "\<forall>t. \<not> e_conn_err env t" "healthy c" "serve_step env plug c = Some (go, c')"
  shows "calm env c c'"
proof -
  let ?d = "in_world (\<lambda>w. snd (ask (e_conn_err env) w)) c"
  have d: "connection_dead env c = (False, ?d)"
    using assms(2,3) by (auto simp: connection_dead_def healthy_def on_world_ask)
  obtain f where f: "maybe_flush env plug (reclaim_all env plug ?d) = Some f"
    using assms(4) d by (auto simp: serve_step_def bind_eq_Some_conv)
  let ?f = "in_world (\<lambda>w. snd (ask (e_stop env) w)) f"
  have cf: "calm env c ?f"
    by (rule calm_trans [OF calm_trans [OF calm_trans [OF calm_ask(1) calm_reclaim_all] calm_maybe_flush [OF assms(1) f]] calm_ask(1)])
  obtain n g where g: "read_new env plug (sc_block_ms (cn_cfg ?f)) ?f = (n, g)" by fastforce
  show ?thesis
  proof (cases "e_stop env (w_tick (cn_world f))")
    case False
    then obtain h where h: "maybe_flush env plug g = Some h"
      "c' = in_world (cf_stats_maybe_emit env 10000) (maybe_sample_stream_lag env h)"
      using assms(4) d f g by (auto simp: serve_step_def bind_eq_Some_conv on_world_ask)
    show ?thesis
      unfolding h(2)
      by (rule calm_trans [OF calm_trans [OF calm_trans [OF calm_trans [OF cf calm_read_new [OF g]]
            calm_maybe_flush [OF assms(1) h(1)]] calm_sample] calm_stats(2)])
  qed (use assms(4) d f cf in \<open>auto simp: serve_step_def bind_eq_Some_conv on_world_ask\<close>)
qed

lemma calm_serve:
  assumes "serve env plug c = Some c'" "pl_send plug = send \<and> (\<forall>t. \<not> e_conn_err env t) \<and> (\<forall>t. e_alloc env t) \<and> healthy c"
  shows "calm env c c'"
proof (rule serve.raw_induct [where P = "\<lambda>env plug c c'. pl_send plug = send \<and> (\<forall>t. \<not> e_conn_err env t) \<and>
      (\<forall>t. e_alloc env t) \<and> healthy c \<longrightarrow> calm env c c'", OF _ assms(1), THEN mp], rule impI)
  fix loop env and plug :: "'a sink_plug" and c c'
  assume 1: "\<And>env plug c c'. loop env plug c = Some c' \<Longrightarrow> pl_send (plug :: 'a sink_plug) = send \<and> (\<forall>t. \<not> e_conn_err env t) \<and>
      (\<forall>t. e_alloc env t) \<and> healthy c \<longrightarrow> calm env c c'"
    and body: "(case on_world (ask (e_stop env)) c of (stop, c) \<Rightarrow>
      if stop then Some c
      else do { (go, c) \<leftarrow> serve_step env plug c; if go then loop env plug c else Some c }) = Some c'"
    and inv: "pl_send plug = send \<and> (\<forall>t. \<not> e_conn_err env t) \<and> (\<forall>t. e_alloc env t) \<and> healthy c"
  let ?c = "in_world (\<lambda>w. snd (ask (e_stop env) w)) c"
  have hc: "healthy ?c" using inv calm_ask(1) [of env c "e_stop env"] unfolding calm_def by blast
  show "calm env c c'"
  proof (cases "e_stop env (w_tick (cn_world c))")
    case False
    then obtain go d where d: "serve_step env plug ?c = Some (go, d)" "(if go then loop env plug d else Some d) = Some c'"
      using body by (auto simp: on_world_ask bind_eq_Some_conv)
    have cd: "calm env ?c d" by (rule calm_serve_step [OF _ _ hc d(1)]) (use inv in auto)
    then have "healthy d" using hc inv by (simp add: calm_def)
    then have "calm env d c'" using d(2) 1 inv by (auto split: if_splits)
    then show ?thesis using calm_trans [OF calm_trans [OF calm_ask(1) cd]] by blast
  qed (use body in \<open>auto simp: on_world_ask\<close>)
qed (use assms in simp)

lemma calm_drain:
  assumes "drain_new env plug c = Some c'" "pl_send plug = send"
  shows "calm env c c'"
proof (rule drain_new.raw_induct [where P = "\<lambda>env plug c c'. pl_send plug = send \<longrightarrow> calm env c c'", OF _ assms(1), THEN mp],
    rule impI)
  fix loop env and plug :: "'a sink_plug" and c c'
  assume 1: "\<And>env plug c c'. loop env plug c = Some c' \<Longrightarrow> pl_send (plug :: 'a sink_plug) = send \<longrightarrow> calm env c c'"
    and body: "(case read_new env plug (- 1) c of (n, c) \<Rightarrow>
      do { c \<leftarrow> maybe_flush env plug c; if n = 0 then Some c else loop env plug c }) = Some c'"
    and inv: "pl_send plug = send"
  obtain n d where d: "read_new env plug (- 1) c = (n, d)" by fastforce
  obtain e where e: "maybe_flush env plug d = Some e" "(if n = 0 then Some e else loop env plug e) = Some c'"
    using body d by (auto simp: bind_eq_Some_conv)
  have "calm env c e" by (rule calm_trans [OF calm_read_new [OF d] calm_maybe_flush [OF inv e(1)]])
  then show "calm env c c'" using e(2) 1 inv calm_trans by (auto split: if_splits)
qed (use assms in simp)

lemma calm_run:
  assumes "run_consumer env plug opt c = Some c'" "pl_send plug = send" "\<forall>t. \<not> e_conn_err env t" "\<forall>t. e_alloc env t" "healthy c"
  shows "calm env c c'"
proof -
  obtain r d where d: "cf_consumer_ensure_groups env c = (r, d)" by fastforce
  have cd: "calm env c d" by (rule calm_ensure [OF d])
  then have hd: "healthy d" using assms(4,5) by (simp add: calm_def)
  have st: "calm env c (in_world (cf_stats_emit env) e)" if "calm env c e" for e by (rule calm_trans [OF that calm_stats(1)])
  show ?thesis
  proof (cases "op_once opt")
    case True
    then obtain rc e where e: "cf_consumer_run_once env plug c = Some (rc, e)" "c' = in_world (cf_stats_emit env) e"
      using assms(1) by (auto simp: run_consumer_def bind_eq_Some_conv)
    have "calm env c e"
    proof (cases "r = 0")
      case True
      then obtain f g where f: "maybe_flush env plug (reclaim_all env plug d) = Some f" "drain_new env plug f = Some g"
        "flush_batch env plug g = Some e"
        using e(1) d by (auto simp: cf_consumer_run_once_def bind_eq_Some_conv)
      show ?thesis
        by (rule calm_trans [OF calm_trans [OF calm_trans [OF calm_trans [OF cd calm_reclaim_all] calm_maybe_flush [OF assms(2) f(1)]]
              calm_drain [OF f(2) assms(2)]] calm_flush [OF assms(2) f(3)]])
    qed (use e(1) d cd in \<open>auto simp: cf_consumer_run_once_def\<close>)
    then show ?thesis unfolding e(2) by (rule st)
  next
    case False
    then obtain rc where e: "cf_consumer_run_forever env plug c = Some (rc, c')"
      using assms(1) by (auto simp: run_consumer_def bind_eq_Some_conv)
    show ?thesis
    proof (cases "r = 0")
      case True
      then obtain f g where f: "serve env plug d = Some f" "flush_batch env plug f = Some g" "c' = in_world (cf_stats_emit env) g"
        using e d by (auto simp: cf_consumer_run_forever_def bind_eq_Some_conv)
      have "calm env d f" by (rule calm_serve [OF f(1)]) (use assms hd in auto)
      then show ?thesis unfolding f(3) by (intro st calm_trans [OF calm_trans [OF cd] calm_flush [OF assms(2) f(2)]])
    qed (use e d cd in \<open>auto simp: cf_consumer_run_forever_def\<close>)
  qed
qed

end

section \<open>The connection of a run\<close>

lemma connect_clean:
  assumes "connect_redis env eps w = (r, w')" "w_open w = []" "\<not> w_crashed w"
  shows "\<not> w_crashed w' \<and> (case r of None \<Rightarrow> w_open w' = [] | Some k \<Rightarrow> w_open w' = [k])"
  using assms
proof (induction eps arbitrary: w)
  case (Cons ep eps)
  obtain k v where k: "connect_endpoint env ep w = (k, v)" by fastforce
  have "\<not> w_crashed v \<and> (case k of None \<Rightarrow> w_open v = [] | Some j \<Rightarrow> w_open v = [j])"
    using k Cons.prems(2,3)
    by (auto simp: connect_endpoint_def redisConnect_def redisFree_def ask_def note_event_def
        split: option.splits connect_result.splits if_splits prod.splits)
  then show ?case using Cons k by (cases k) auto
qed auto

lemma init_healthy:
  assumes "cf_consumer_init env (Some k) cfg w = (rc, c)" "w_open w = [k]" "\<not> w_crashed w" "\<forall>t. e_alloc env t"
  shows "rc = 0 \<and> healthy c \<and> w_open (cn_world c) = [k] \<and> cn_ctx c = Some k"
proof -
  have "init_cursors env n c = (0, c') \<Longrightarrow> cn_cursors c' = cn_cursors c @ replicate n (Some ''0-0'')"
    "\<exists>c'. init_cursors env n c = (0, c')" for n c c'
    using assms(4) by (induction n arbitrary: c) (auto simp: on_world_ask)
  note ic = this
  let ?c = "\<lparr>cn_ctx = Some k, cn_cfg = cfg, cn_stdout_mode = False, cn_min_idle_ms = CF_CONSUMER_DEFAULT_MIN_IDLE_MS,
       cn_batch = [], cn_batch_cap = 0, cn_last_flush = e_now env (w_tick w), cn_last_lag = e_now env (w_tick w), cn_cursors = [],
       cn_world = snd (ask (e_now env) w)\<rparr>"
  let ?d = "in_world (\<lambda>w. snd (ask (e_alloc env) w)) ?c"
  obtain c' where c': "init_cursors env (length (sc_streams cfg)) ?d = (0, c')" using ic(2) by blast
  then have c: "rc = 0" "c = c'" using assms(1,4) by (simp_all add: cf_consumer_init_def split_beta Let_def on_world_ask)
  show ?thesis using c init_cursors_world [OF c'] ic(1) [OF c'] assms(2,3) by (auto simp: healthy_def)
qed

section \<open>Properties\<close>

lemma sink_run_ends:
  assumes "\<forall>t \<ge> N. e_stop env t" "pl_send plug = cf_hec_client_send_batch env" "\<not> op_once opt"
  shows "\<exists>rc w'. cf_sink_run env plug opt cfg w = Some (rc, w')"
proof -
  have "\<exists>c'. run_consumer env plug opt c = Some c'" for c
    using hec_batch.run_forever_ends [OF assms(2) hec_ends [OF assms(1)] assms(1), of c] assms(3) by (auto simp: run_consumer_def)
  then have "\<exists>rc w'. Option.bind (run_consumer env plug opt c) (\<lambda>c. Some (0, f c)) = Some (rc, w')" for c and f :: "cf_consumer \<Rightarrow> sink_world"
    by (metis bind.bind_lunit)
  then show ?thesis by (auto simp: cf_sink_run_def split: option.splits prod.splits)
qed


text \<open>The connection of a run: when it never reports an error and allocations succeed, a run
  that returns has used only open connections and released every one exactly once.\<close>

theorem sink_run_clean:
  assumes "cf_sink_run env plug opt cfg w = Some (rc, w')" "pl_send plug = cf_hec_client_send_batch env"
    "\<forall>t. \<not> e_conn_err env t" "\<forall>t. e_alloc env t" "w_open w = []" "\<not> w_crashed w"
  shows "\<not> w_crashed w' \<and> w_open w' = []"
proof -
  obtain r v where v: "connect_redis env (sc_endpoints cfg) w = (r, v)" by fastforce
  note cv = connect_clean [OF v assms(5,6)]
  have free: "\<not> w_crashed (redisFree k u) \<and> w_open (redisFree k u) = []" if "w_open u = [k]" "\<not> w_crashed u" for k u
    using that by (simp add: redisFree_def)
  show ?thesis
  proof (cases r)
    case (Some k)
    obtain ri c where c: "cf_consumer_init env (Some k) cfg v = (ri, c)" by fastforce
    have "w_open v = [k]" "\<not> w_crashed v" using cv Some by auto
    note hc = init_healthy [OF c this assms(4)]
    have hs: "healthy (setup_consumer opt c)" "w_open (cn_world (setup_consumer opt c)) = [k]"
      using hc by (auto simp: healthy_def setup_consumer_def cf_consumer_set_stdout_def cf_consumer_set_delivery_def
          cf_consumer_set_min_idle_ms_def Let_def)
    have run: "\<not> w_crashed (cn_world d) \<and> w_open (cn_world d) = [k]" if "run_consumer env plug opt (setup_consumer opt c) = Some d" for d
      using hec_batch.calm_run [OF that assms(2-4) hs(1)] hs assms(4) by (auto simp: calm_def healthy_def)
    show ?thesis
      using assms(1) v Some c hc cv free run
      by (auto simp: cf_sink_run_def bind_eq_Some_conv cf_consumer_free_def batch_clear_def split: if_splits)
  qed (use assms(1) v cv in \<open>auto simp: cf_sink_run_def\<close>)
qed

section \<open>Sample runs\<close>

text \<open>A server that hands out one entry and accepts every command and transfer; \<open>err\<close> says when the
  connection reports an error.\<close>

definition run_env :: "(nat \<Rightarrow> bool) \<Rightarrow> sink_env" where
  "run_env err = \<lparr>e_stop = (\<lambda>t. t \<ge> 12), e_now = (\<lambda>t. int t), e_alloc = (\<lambda>t. True),
    e_curl = (\<lambda>t body. Inr (200, [])),
    e_redis = (\<lambda>t cmd. if take 1 cmd = [''XREADGROUP''] then
      Some (Reply_Array [Some (Reply_Array [Some (Reply_String ''s''), Some (Reply_Array [Some (Reply_Array [Some (Reply_String ''7''),
        Some (Reply_Array (map (\<lambda>x. Some (Reply_String x)) [''encoding'', ''protobuf'', ''schema'', ''cloudflow.v1.CloudFlowEvent'', ''payload'', ''x'']))])])])])
      else Some (Reply_Status ''OK'')),
    e_conn_err = err, e_connect = (\<lambda>t host port. Connect_Ok)\<rparr>"

definition run_cfg :: cf_sink_config where
  "run_cfg = \<lparr>sc_endpoints = [''a:1''], sc_streams = [''s''], sc_group = ''g'', sc_consumer_name = ''c'', sc_read_count = 10,
    sc_block_ms = 100, sc_deadletter_stream = Some ''d'', sc_batch_size = 1, sc_flush_interval_ms = 1000\<rparr>"

definition run_plug :: "sink_env \<Rightarrow> string sink_plug" where
  "run_plug env = \<lparr>pl_unpack = (\<lambda>p. if p = [] then None else Some p), pl_transform = Some (\<lambda>ev stream. (0, ev)),
    pl_send = cf_hec_client_send_batch env\<rparr>"

definition run_opt :: cf_sink_run_options where
  "run_opt = \<lparr>op_stdout_mode = False, op_once = False, op_min_idle_ms = 0, op_delivery = False, op_hec_ok = True\<rparr>"

text \<open>A connection that always reports an error, and whose endpoint always accepts a new one.\<close>

definition lossy_env :: sink_env where
  "lossy_env = \<lparr>e_stop = (\<lambda>t. t \<ge> 10), e_now = (\<lambda>t. 0), e_alloc = (\<lambda>t. True),
    e_curl = (\<lambda>t body. Inr (200, [])), e_redis = (\<lambda>t cmd. Some (Reply_Status [])),
    e_conn_err = (\<lambda>t. True), e_connect = (\<lambda>t host port. Connect_Ok)\<rparr>"

lemma sample_endpoint: "split_endpoint ''a:1'' = Some (''a'', 1)"
  by code_simp

lemmas step_defs = on_world_def in_world_def ask_def note_event_def redis_def redisCommand_def redisFree_def tally_def

definition lossy_consumer :: "nat \<Rightarrow> event list \<Rightarrow> cf_consumer" where
  "lossy_consumer t log = \<lparr>cn_ctx = Some 0, cn_cfg = run_cfg, cn_stdout_mode = False,
    cn_min_idle_ms = CF_CONSUMER_DEFAULT_MIN_IDLE_MS, cn_batch = [], cn_batch_cap = 0, cn_last_flush = 0, cn_last_lag = 0,
    cn_cursors = [Some ''0-0''], cn_world = world_zero\<lparr>w_tick := t, w_log := log, w_open := [0], w_next := 1\<rparr>\<rparr>"

lemma lossy_connect:
  "connect_redis lossy_env (sc_endpoints run_cfg) world_zero =
    (Some 0, world_zero\<lparr>w_tick := 1, w_log := [Connect ''a'' (Some 0)], w_open := [0], w_next := 1\<rparr>)"
  by (simp add: run_cfg_def connect_endpoint_def sample_endpoint redisConnect_def lossy_env_def step_defs world_zero_def)

lemma lossy_init:
  "cf_consumer_init lossy_env (Some 0) run_cfg (world_zero\<lparr>w_tick := 1, w_log := [Connect ''a'' (Some 0)], w_open := [0], w_next := 1\<rparr>) =
    (0, lossy_consumer 4 [Connect ''a'' (Some 0)])"
  by (simp add: cf_consumer_init_def run_cfg_def lossy_env_def step_defs world_zero_def Let_def lossy_consumer_def)

lemma lossy_serve:
  "\<exists>c log'. serve lossy_env (run_plug lossy_env) (lossy_consumer 5 log) = Some c \<and> cn_batch c = [] \<and>
    w_open (cn_world c) = [1] \<and> c_log c = log @ Free_Conn 0 # log'"
proof -
  have r: "\<exists>c log'. reconnect_redis lossy_env (in_world (\<lambda>w. w\<lparr>w_tick := 7\<rparr>) (lossy_consumer 5 log)) = Some (0, c) \<and>
      cn_batch c = [] \<and> w_open (cn_world c) = [1] \<and> cn_ctx c = Some 1 \<and> w_tick (cn_world c) = 10 \<and> cn_cfg c = run_cfg \<and>
      cn_cursors c = [Some ''0-0''] \<and> c_log c = log @ Free_Conn 0 # log'"
    unfolding reconnect_redis_def
    by (subst reconnect_loop.simps)
       (simp add: step_defs lossy_env_def lossy_consumer_def run_cfg_def world_zero_def connect_endpoint_def redisConnect_def
         sample_endpoint cf_consumer_ensure_groups_def)
  then obtain c log' where c: "reconnect_redis lossy_env (in_world (\<lambda>w. w\<lparr>w_tick := 7\<rparr>) (lossy_consumer 5 log)) = Some (0, c)"
    "cn_batch c = []" "w_open (cn_world c) = [1]" "cn_ctx c = Some 1" "w_tick (cn_world c) = 10" "cn_cfg c = run_cfg"
    "cn_cursors c = [Some ''0-0'']" "c_log c = log @ Free_Conn 0 # log'" by blast
  have "connection_dead lossy_env (in_world (\<lambda>w. w\<lparr>w_tick := 6\<rparr>) (lossy_consumer 5 log)) =
      (True, in_world (\<lambda>w. w\<lparr>w_tick := 7\<rparr>) (lossy_consumer 5 log))"
    "on_world (ask (e_stop lossy_env)) (lossy_consumer 5 log) = (False, in_world (\<lambda>w. w\<lparr>w_tick := 6\<rparr>) (lossy_consumer 5 log))"
    by (simp_all add: connection_dead_def step_defs lossy_env_def lossy_consumer_def world_zero_def)
  then show ?thesis
    using c
    by (subst serve.simps)
       (simp add: serve_step_def reclaim_all_def reclaim_stream_def maybe_flush_def should_flush_def step_defs lossy_env_def run_cfg_def)
qed

text \<open>C37. Losing the connection once is fatal at shutdown: the harness releases the connection it
  opened first, although the consumer released it when it reconnected, and never releases the
  new one. The run below loses its connection, reconnects, is stopped, and ends with the first
  connection released twice and the second still open.\<close>

theorem sink_run_frees_twice:
  "\<exists>w' log log'. cf_sink_run lossy_env (run_plug lossy_env) run_opt run_cfg world_zero = Some (0, w') \<and>
    w_log w' = log @ [Free_Conn 0] @ log' @ [Free_Conn 0] \<and> w_crashed w' \<and> w_open w' = [1]"
proof -
  let ?log = "[Connect ''a'' (Some 0), Command [''XGROUP'', ''CREATE'', ''s'', ''g'', ''0'', ''MKSTREAM''] (Some (Reply_Status []))]"
  have e: "cf_consumer_ensure_groups lossy_env (lossy_consumer 4 [Connect ''a'' (Some 0)]) = (0, lossy_consumer 5 ?log)"
    by (simp add: cf_consumer_ensure_groups_def lossy_consumer_def run_cfg_def lossy_env_def step_defs world_zero_def)
  obtain c log' where c: "serve lossy_env (run_plug lossy_env) (lossy_consumer 5 ?log) = Some c" "cn_batch c = []"
    "w_open (cn_world c) = [1]" "c_log c = ?log @ Free_Conn 0 # log'" using lossy_serve by blast
  have s: "setup_consumer run_opt (lossy_consumer 4 [Connect ''a'' (Some 0)]) = lossy_consumer 4 [Connect ''a'' (Some 0)]"
    by (simp add: setup_consumer_def run_opt_def cf_consumer_set_delivery_def lossy_consumer_def)
  have o: "\<not> op_once run_opt" "\<not> op_stdout_mode run_opt" "op_hec_ok run_opt" by (simp_all add: run_opt_def)
  let ?d = "in_world (cf_stats_emit lossy_env) ((in_world (\<lambda>w. snd (ask (e_now lossy_env) w)) c)\<lparr>cn_last_flush := e_now lossy_env (w_tick (cn_world c))\<rparr>)"
  have "run_consumer lossy_env (run_plug lossy_env) run_opt (lossy_consumer 4 [Connect ''a'' (Some 0)]) = Some ?d"
    using c e o by (simp add: run_consumer_def cf_consumer_run_forever_def flush_batch_def on_world_ask)
  moreover have "c_log ?d = c_log c" "w_open (cn_world ?d) = [1]"
    using c(3) by (simp_all add: cf_stats_emit_def split_beta)
  ultimately have "cf_sink_run lossy_env (run_plug lossy_env) run_opt run_cfg world_zero = Some (0, redisFree 0 (cn_world (cf_consumer_free ?d)))"
    "w_log (redisFree 0 (cn_world (cf_consumer_free ?d))) = ?log @ [Free_Conn 0] @ log' @ [Free_Conn 0]"
    "w_crashed (redisFree 0 (cn_world (cf_consumer_free ?d)))" "w_open (redisFree 0 (cn_world (cf_consumer_free ?d))) = [1]"
    using c(4) s o by (simp_all add: cf_sink_run_def lossy_connect lossy_init cf_consumer_free_def batch_clear_def redisFree_def
        del: One_nat_def)
  then show ?thesis by blast
qed

definition good_fields :: "redisReply option" where
  "good_fields = Some (Reply_Array (map (\<lambda>x. Some (Reply_String x))
    [''encoding'', ''protobuf'', ''schema'', ''cloudflow.v1.CloudFlowEvent'', ''payload'', ''x'']))"

lemma good_fields_rendered: "decode_entry (run_plug env) stream good_fields = Rendered ''x'' ''x''"
  by (simp add: decode_entry_def good_fields_def field_get_def reply_str_def cstr_def render_event_def run_plug_def)


section \<open>Witnesses\<close>

lemma run_plug_send: "pl_send (run_plug env) = cf_hec_client_send_batch env"
  by (simp add: run_plug_def)

lemma run_env_stops: "\<forall>t \<ge> 12. e_stop (run_env err) t"
  by (simp add: run_env_def)

lemma run_opt_forever: "\<not> op_once run_opt"
  by (simp add: run_opt_def)


theorem sink_acks_only_settled_witness:
  "\<exists>rc w'. cf_sink_run (run_env (\<lambda>t. t < 9)) (run_plug (run_env (\<lambda>t. t < 9))) run_opt run_cfg world_zero = Some (rc, w') \<and>
    acks_ok (run_plug (run_env (\<lambda>t. t < 9))) run_cfg (w_log w')"
proof -
  obtain rc w' where "cf_sink_run (run_env (\<lambda>t. t < 9)) (run_plug (run_env (\<lambda>t. t < 9))) run_opt run_cfg world_zero = Some (rc, w')"
    using sink_run_ends [OF run_env_stops run_plug_send run_opt_forever] by blast
  moreover have "w_log world_zero = []" by (simp add: world_zero_def)
  ultimately show ?thesis using sink_acks_only_settled [OF _ run_plug_send] by blast
qed

theorem sink_run_clean_witness:
  "\<exists>rc w'. cf_sink_run (run_env (\<lambda>t. False)) (run_plug (run_env (\<lambda>t. False))) run_opt run_cfg world_zero = Some (rc, w') \<and>
    \<not> w_crashed w' \<and> w_open w' = []"
proof -
  obtain rc w' where r: "cf_sink_run (run_env (\<lambda>t. False)) (run_plug (run_env (\<lambda>t. False))) run_opt run_cfg world_zero = Some (rc, w')"
    using sink_run_ends [OF run_env_stops run_plug_send run_opt_forever] by blast
  moreover have "\<not> w_crashed w' \<and> w_open w' = []"
    by (rule sink_run_clean [OF r run_plug_send]) (simp_all add: run_env_def world_zero_def)
  ultimately show ?thesis by blast
qed

end
