(* ===== verification/Dhcp_Util.thy ===== *)
theory Dhcp_Util
  imports Parse_Util
begin

text \<open>
  Shared helpers of the two DHCP parsers: the byte readers, string builders and warning lists
  of \<^verbatim>\<open>libs/cloudflow-packet/cf_dhcpv4_util.c\<close> and \<^verbatim>\<open>cf_dhcpv6_util.c\<close>, which the sources keep as
  separate copies of \<^verbatim>\<open>cf_parse_util.c\<close>; the growable arrays both parsers fill; and the
  RFC 3396 map that concatenates the fragments of an option.

  The collection \<open>dhcp_mirror\<close> holds the equalities between the copies and \<open>cf_parse_util\<close>,
  so that one set of lemmas serves all three parsers.
\<close>

named_theorems dhcp_mirror \<open>the copied helpers are those of cf_parse_util\<close>

section \<open>Growable arrays\<close>

text \<open>An array with its \<open>count\<close> (the length of the list) and \<open>cap\<close>: full arrays double, empty
  ones get an initial capacity, and the write at index \<open>count\<close> is \<open>None\<close> outside the
  allocation.\<close>

record 'a vec =
  vec_items :: "'a list"
  vec_cap :: nat

definition vec_init :: "'a vec" where
  "vec_init = \<lparr>vec_items = [], vec_cap = 0\<rparr>"

definition vec_grow :: "nat \<Rightarrow> 'a vec \<Rightarrow> 'a vec" where
  "vec_grow c0 v =
    (if length (vec_items v) = vec_cap v
     then v\<lparr>vec_cap := if vec_cap v = 0 then c0 else vec_cap v * 2\<rparr> else v)"

definition vec_put :: "'a vec \<Rightarrow> 'a \<Rightarrow> 'a vec option" where
  "vec_put v x =
    (if length (vec_items v) < vec_cap v then Some (v\<lparr>vec_items := vec_items v @ [x]\<rparr>) else None)"

definition vec_push :: "nat \<Rightarrow> 'a vec \<Rightarrow> 'a \<Rightarrow> 'a vec option" where
  "vec_push c0 v x = vec_put (vec_grow c0 v) x"

definition vec_ok :: "'a vec \<Rightarrow> bool" where
  "vec_ok v \<longleftrightarrow> length (vec_items v) \<le> vec_cap v"

definition pushed :: "nat \<Rightarrow> 'a vec \<Rightarrow> 'a \<Rightarrow> 'a vec" where
  "pushed c0 v x = (vec_grow c0 v)\<lparr>vec_items := vec_items v @ [x]\<rparr>"

lemma vec_init_simps [simp]: "vec_items vec_init = []" "vec_ok vec_init"
  by (simp_all add: vec_init_def vec_ok_def)

lemma vec_push_pushed [simp]: "vec_ok v \<Longrightarrow> 0 < c0 \<Longrightarrow> vec_push c0 v x = Some (pushed c0 v x)"
  by (auto simp: vec_push_def vec_put_def vec_grow_def vec_ok_def pushed_def)

lemma pushed_simps [simp]:
  "vec_items (pushed c0 v x) = vec_items v @ [x]"
  "vec_ok v \<Longrightarrow> 0 < c0 \<Longrightarrow> vec_ok (pushed c0 v x)"
  by (auto simp: pushed_def vec_ok_def vec_grow_def)

section \<open>Copies of the helpers: cf\_dhcpv4\_util.c\<close>

definition cf_dhcpv4_get_u8 :: "bytes \<Rightarrow> nat \<Rightarrow> byte option option" where
  "cf_dhcpv4_get_u8 d off =
    (if off + 1 > length d then Some None else do { v \<leftarrow> rd d off; Some (Some v) })"

definition cf_dhcpv4_get_be16 :: "bytes \<Rightarrow> nat \<Rightarrow> u16 option option" where
  "cf_dhcpv4_get_be16 d off =
    (if off + 2 > length d then Some None
     else do { a \<leftarrow> rd d off; b \<leftarrow> rd d (off + 1); Some (Some (be16 a b)) })"

definition cf_dhcpv4_get_be32 :: "bytes \<Rightarrow> nat \<Rightarrow> u32 option option" where
  "cf_dhcpv4_get_be32 d off =
    (if off + 4 > length d then Some None
     else do { a \<leftarrow> rd d off; b \<leftarrow> rd d (off + 1); c \<leftarrow> rd d (off + 2); e \<leftarrow> rd d (off + 3);
               Some (Some (be32 a b c e)) })"

definition cf_dhcpv4_dup_str :: "string \<Rightarrow> string" where
  "cf_dhcpv4_dup_str s = (if cstr s = [] then [] else cstr s)"

definition cf_dhcpv4_dup_strn :: "cptr \<Rightarrow> nat \<Rightarrow> string option" where
  "cf_dhcpv4_dup_strn p len =
    (case p of None \<Rightarrow> Some []
     | Some (buf, off) \<Rightarrow>
         if len = 0 then Some [] else do { bs \<leftarrow> rd_bytes buf off len; Some (map chr_of_byte bs) })"

definition cf_dhcpv4_is_printable :: "bytes \<Rightarrow> nat \<Rightarrow> nat \<Rightarrow> bool option" where
  "cf_dhcpv4_is_printable buf off len = (if len = 0 then Some False else printable_loop buf off len)"

definition cf_dhcpv4_hex_encode :: "cptr \<Rightarrow> nat \<Rightarrow> string option" where
  "cf_dhcpv4_hex_encode p len =
    (case p of None \<Rightarrow> Some []
     | Some (buf, off) \<Rightarrow>
         if len = 0 then Some []
         else do { bs \<leftarrow> rd_bytes buf off len; Some (concat (map hex_byte bs)) })"

definition cf_dhcpv4_set_bytes :: "cptr \<Rightarrow> nat \<Rightarrow> bytes option" where
  "cf_dhcpv4_set_bytes p len =
    (case p of None \<Rightarrow> Some []
     | Some (buf, off) \<Rightarrow> if len = 0 then Some [] else rd_bytes buf off len)"

definition cf_dhcpv4_format_ipv4 :: "bytes \<Rightarrow> nat \<Rightarrow> string option" where
  "cf_dhcpv4_format_ipv4 buf off = do {
     ip \<leftarrow> rd_bytes buf off 4;
     Some (cf_dhcpv4_dup_str (cf_format_ip 4 (memcpy_at (replicate 16 0) 0 ip))) }"

definition cf_dhcpv4_warn_list_init :: cf_warn_list where
  "cf_dhcpv4_warn_list_init = \<lparr>wl_items = [], wl_cap = 0\<rparr>"

definition cf_dhcpv4_warn_list_grow :: "cf_warn_list \<Rightarrow> cf_warn_list" where
  "cf_dhcpv4_warn_list_grow l =
    (if length (wl_items l) < wl_cap l then l
     else l\<lparr>wl_cap := if wl_cap l = 0 then 4 else wl_cap l * 2\<rparr>)"

definition cf_dhcpv4_warn ::
  "cf_warn_list \<Rightarrow> string \<Rightarrow> string \<Rightarrow> string \<Rightarrow> cptr \<Rightarrow> nat \<Rightarrow> cf_warn_list option" where
  "cf_dhcpv4_warn l code message field_path ctx ctx_len =
    (let l = cf_dhcpv4_warn_list_grow l;
         ctx_len = (if ctx_len > 16 then 16 else ctx_len)
     in do { raw \<leftarrow> cf_dhcpv4_set_bytes ctx ctx_len;
             Some (l\<lparr>wl_items := wl_items l @
               [\<lparr>pw_code = cf_dhcpv4_dup_str code, pw_message = cf_dhcpv4_dup_str message,
                 pw_field_path = cf_dhcpv4_dup_str field_path, pw_raw_context = raw\<rparr>]\<rparr>) })"

definition cf_dhcpv4_warn_list_take :: "cf_warn_list \<Rightarrow> parser_warning list \<times> cf_warn_list" where
  "cf_dhcpv4_warn_list_take l = (wl_items l, \<lparr>wl_items = [], wl_cap = 0\<rparr>)"

section \<open>Copies of the helpers: cf\_dhcpv6\_util.c\<close>

definition be24 :: "byte \<Rightarrow> byte \<Rightarrow> byte \<Rightarrow> u32" where
  "be24 a b c = push_bit 16 (ucast a) OR push_bit 8 (ucast b) OR ucast c"

definition cf_dhcpv6_get_u8 :: "bytes \<Rightarrow> nat \<Rightarrow> byte option option" where
  "cf_dhcpv6_get_u8 d off =
    (if off + 1 > length d then Some None else do { v \<leftarrow> rd d off; Some (Some v) })"

definition cf_dhcpv6_get_be16 :: "bytes \<Rightarrow> nat \<Rightarrow> u16 option option" where
  "cf_dhcpv6_get_be16 d off =
    (if off + 2 > length d then Some None
     else do { a \<leftarrow> rd d off; b \<leftarrow> rd d (off + 1); Some (Some (be16 a b)) })"

definition cf_dhcpv6_get_be24 :: "bytes \<Rightarrow> nat \<Rightarrow> u32 option option" where
  "cf_dhcpv6_get_be24 d off =
    (if off + 3 > length d then Some None
     else do { a \<leftarrow> rd d off; b \<leftarrow> rd d (off + 1); c \<leftarrow> rd d (off + 2); Some (Some (be24 a b c)) })"

definition cf_dhcpv6_get_be32 :: "bytes \<Rightarrow> nat \<Rightarrow> u32 option option" where
  "cf_dhcpv6_get_be32 d off =
    (if off + 4 > length d then Some None
     else do { a \<leftarrow> rd d off; b \<leftarrow> rd d (off + 1); c \<leftarrow> rd d (off + 2); e \<leftarrow> rd d (off + 3);
               Some (Some (be32 a b c e)) })"

definition cf_dhcpv6_dup_str :: "string \<Rightarrow> string" where
  "cf_dhcpv6_dup_str s = (if cstr s = [] then [] else cstr s)"

definition cf_dhcpv6_dup_strn :: "cptr \<Rightarrow> nat \<Rightarrow> string option" where
  "cf_dhcpv6_dup_strn p len =
    (case p of None \<Rightarrow> Some []
     | Some (buf, off) \<Rightarrow>
         if len = 0 then Some [] else do { bs \<leftarrow> rd_bytes buf off len; Some (map chr_of_byte bs) })"

definition cf_dhcpv6_is_printable :: "bytes \<Rightarrow> nat \<Rightarrow> nat \<Rightarrow> bool option" where
  "cf_dhcpv6_is_printable buf off len = (if len = 0 then Some False else printable_loop buf off len)"

definition cf_dhcpv6_hex_encode :: "cptr \<Rightarrow> nat \<Rightarrow> string option" where
  "cf_dhcpv6_hex_encode p len =
    (case p of None \<Rightarrow> Some []
     | Some (buf, off) \<Rightarrow>
         if len = 0 then Some []
         else do { bs \<leftarrow> rd_bytes buf off len; Some (concat (map hex_byte bs)) })"

definition cf_dhcpv6_set_bytes :: "cptr \<Rightarrow> nat \<Rightarrow> bytes option" where
  "cf_dhcpv6_set_bytes p len =
    (case p of None \<Rightarrow> Some []
     | Some (buf, off) \<Rightarrow> if len = 0 then Some [] else rd_bytes buf off len)"

definition cf_dhcpv6_format_ipv6 :: "bytes \<Rightarrow> nat \<Rightarrow> string option" where
  "cf_dhcpv6_format_ipv6 buf off = do {
     ip \<leftarrow> rd_bytes buf off 16;
     Some (cf_dhcpv6_dup_str (cf_format_ip 6 ip)) }"

definition cf_dhcpv6_warn_list_init :: cf_warn_list where
  "cf_dhcpv6_warn_list_init = \<lparr>wl_items = [], wl_cap = 0\<rparr>"

definition cf_dhcpv6_warn_list_grow :: "cf_warn_list \<Rightarrow> cf_warn_list" where
  "cf_dhcpv6_warn_list_grow l =
    (if length (wl_items l) < wl_cap l then l
     else l\<lparr>wl_cap := if wl_cap l = 0 then 4 else wl_cap l * 2\<rparr>)"

definition cf_dhcpv6_warn ::
  "cf_warn_list \<Rightarrow> string \<Rightarrow> string \<Rightarrow> string \<Rightarrow> cptr \<Rightarrow> nat \<Rightarrow> cf_warn_list option" where
  "cf_dhcpv6_warn l code message field_path ctx ctx_len =
    (let l = cf_dhcpv6_warn_list_grow l;
         ctx_len = (if ctx_len > 16 then 16 else ctx_len)
     in do { raw \<leftarrow> cf_dhcpv6_set_bytes ctx ctx_len;
             Some (l\<lparr>wl_items := wl_items l @
               [\<lparr>pw_code = cf_dhcpv6_dup_str code, pw_message = cf_dhcpv6_dup_str message,
                 pw_field_path = cf_dhcpv6_dup_str field_path, pw_raw_context = raw\<rparr>]\<rparr>) })"

definition cf_dhcpv6_warn_list_take :: "cf_warn_list \<Rightarrow> parser_warning list \<times> cf_warn_list" where
  "cf_dhcpv6_warn_list_take l = (wl_items l, \<lparr>wl_items = [], wl_cap = 0\<rparr>)"

section \<open>The RFC 3396 concatenation map\<close>

record concat_entry =
  ct_code :: u32
  ct_data :: bytes

type_synonym concat_map = "concat_entry vec"

definition concat_map_init :: concat_map where
  "concat_map_init = vec_init"

fun find_code :: "concat_entry list \<Rightarrow> nat \<Rightarrow> u32 \<Rightarrow> nat option" where
  "find_code [] i code = None"
| "find_code (e # es) i code = (if ct_code e = code then Some i else find_code es (i + 1) code)"

text \<open>The entry is returned as its index, with the map.\<close>

definition concat_map_find_or_add :: "concat_map \<Rightarrow> u32 \<Rightarrow> (concat_map \<times> nat) option" where
  "concat_map_find_or_add m code =
    (case find_code (vec_items m) 0 code of
       Some i \<Rightarrow> Some (m, i)
     | None \<Rightarrow> do {
         m' \<leftarrow> vec_push 8 m \<lparr>ct_code = code, ct_data = []\<rparr>;
         Some (m', length (vec_items m)) })"

definition concat_map_append :: "concat_map \<Rightarrow> u32 \<Rightarrow> cptr \<Rightarrow> nat \<Rightarrow> concat_map option" where
  "concat_map_append m code data len = do {
     (m, i) \<leftarrow> concat_map_find_or_add m code;
     if len = 0 then Some m
     else do {
       (buf, off) \<leftarrow> data;
       bs \<leftarrow> rd_bytes buf off len;
       if i < length (vec_items m)
       then Some (m\<lparr>vec_items := (vec_items m)[i :=
              (vec_items m ! i)\<lparr>ct_data := ct_data (vec_items m ! i) @ bs\<rparr>]\<rparr>)
       else None } }"

fun get_loop :: "concat_entry list \<Rightarrow> u32 \<Rightarrow> bytes" where
  "get_loop [] code = []"
| "get_loop (e # es) code = (if ct_code e = code then ct_data e else get_loop es code)"

definition concat_map_get :: "concat_map \<Rightarrow> u32 \<Rightarrow> bytes" where
  "concat_map_get m code = get_loop (vec_items m) code"

fun has_loop :: "concat_entry list \<Rightarrow> u32 \<Rightarrow> bool" where
  "has_loop [] code = False"
| "has_loop (e # es) code = (if ct_code e = code then True else has_loop es code)"

definition concat_map_has :: "concat_map \<Rightarrow> u32 \<Rightarrow> bool" where
  "concat_map_has m code = has_loop (vec_items m) code"

definition concat_map_free :: "concat_map \<Rightarrow> concat_map" where
  "concat_map_free m = vec_init"


section \<open>The copies are cf\_parse\_util\<close>

lemma dhcpv4_mirror [dhcp_mirror]:
  "cf_dhcpv4_get_u8 = cf_get_u8" "cf_dhcpv4_get_be16 = cf_get_be16" "cf_dhcpv4_get_be32 = cf_get_be32"
  "cf_dhcpv4_dup_str = cf_dup_str" "cf_dhcpv4_dup_strn = cf_dup_strn"
  "cf_dhcpv4_is_printable = cf_is_printable" "cf_dhcpv4_hex_encode = cf_hex_encode"
  "cf_dhcpv4_set_bytes = cf_set_bytes" "cf_dhcpv4_warn_list_init = cf_warn_list_init"
  "cf_dhcpv4_warn_list_grow = warn_list_grow" "cf_dhcpv4_warn_list_take = cf_warn_list_take"
  by (simp_all only: fun_eq_iff cf_dhcpv4_get_u8_def cf_get_u8_def cf_dhcpv4_get_be16_def cf_get_be16_def
      cf_dhcpv4_get_be32_def cf_get_be32_def cf_dhcpv4_dup_str_def cf_dup_str_def
      cf_dhcpv4_dup_strn_def cf_dup_strn_def cf_dhcpv4_is_printable_def cf_is_printable_def
      cf_dhcpv4_hex_encode_def cf_hex_encode_def cf_dhcpv4_set_bytes_def cf_set_bytes_def
      cf_dhcpv4_warn_list_init_def cf_warn_list_init_def cf_dhcpv4_warn_list_grow_def
      warn_list_grow_def cf_dhcpv4_warn_list_take_def cf_warn_list_take_def simp_thms)

lemma dhcpv4_warn_mirror [dhcp_mirror]: "cf_dhcpv4_warn = cf_warn"
  by (simp only: fun_eq_iff cf_dhcpv4_warn_def cf_warn_def dhcpv4_mirror simp_thms)

lemma dhcpv6_mirror [dhcp_mirror]:
  "cf_dhcpv6_get_u8 = cf_get_u8" "cf_dhcpv6_get_be16 = cf_get_be16" "cf_dhcpv6_get_be32 = cf_get_be32"
  "cf_dhcpv6_dup_str = cf_dup_str" "cf_dhcpv6_dup_strn = cf_dup_strn"
  "cf_dhcpv6_is_printable = cf_is_printable" "cf_dhcpv6_hex_encode = cf_hex_encode"
  "cf_dhcpv6_set_bytes = cf_set_bytes" "cf_dhcpv6_warn_list_init = cf_warn_list_init"
  "cf_dhcpv6_warn_list_grow = warn_list_grow" "cf_dhcpv6_warn_list_take = cf_warn_list_take"
  by (simp_all only: fun_eq_iff cf_dhcpv6_get_u8_def cf_get_u8_def cf_dhcpv6_get_be16_def cf_get_be16_def
      cf_dhcpv6_get_be32_def cf_get_be32_def cf_dhcpv6_dup_str_def cf_dup_str_def
      cf_dhcpv6_dup_strn_def cf_dup_strn_def cf_dhcpv6_is_printable_def cf_is_printable_def
      cf_dhcpv6_hex_encode_def cf_hex_encode_def cf_dhcpv6_set_bytes_def cf_set_bytes_def
      cf_dhcpv6_warn_list_init_def cf_warn_list_init_def cf_dhcpv6_warn_list_grow_def
      warn_list_grow_def cf_dhcpv6_warn_list_take_def cf_warn_list_take_def simp_thms)

lemma dhcpv6_warn_mirror [dhcp_mirror]: "cf_dhcpv6_warn = cf_warn"
  by (simp only: fun_eq_iff cf_dhcpv6_warn_def cf_warn_def dhcpv6_mirror simp_thms)

section \<open>What the helpers return in bounds\<close>

definition warned :: "cf_warn_list \<Rightarrow> string \<Rightarrow> string \<Rightarrow> string \<Rightarrow> bytes \<Rightarrow> cf_warn_list" where
  "warned l c m p ctx = (warn_list_grow l)\<lparr>wl_items := wl_items l @
     [\<lparr>pw_code = cf_dup_str c, pw_message = cf_dup_str m, pw_field_path = cf_dup_str p,
       pw_raw_context = ctx\<rparr>]\<rparr>"

lemma warned_items [simp]:
  "wl_items (warned l c m p ctx) = wl_items l @
     [\<lparr>pw_code = cf_dup_str c, pw_message = cf_dup_str m, pw_field_path = cf_dup_str p,
       pw_raw_context = ctx\<rparr>]"
  by (simp add: warned_def)

lemma cf_set_bytes_Some [simp]:
  "off + n \<le> length buf \<Longrightarrow> cf_set_bytes (Some (buf, off)) n = Some (take n (drop off buf))"
  by (simp add: cf_set_bytes_def)

lemma cf_set_bytes_0 [simp]: "cf_set_bytes p 0 = Some []"
  by (auto simp: cf_set_bytes_def split: option.splits)

lemma cf_dup_strn_Some [simp]:
  "off + n \<le> length buf \<Longrightarrow>
   cf_dup_strn (Some (buf, off)) n = Some (map chr_of_byte (take n (drop off buf)))"
  by (simp add: cf_dup_strn_def)

lemma cf_hex_encode_Some [simp]:
  "off + n \<le> length buf \<Longrightarrow>
   cf_hex_encode (Some (buf, off)) n = Some (concat (map hex_byte (take n (drop off buf))))"
  by (simp add: cf_hex_encode_def)

definition printable :: "bytes \<Rightarrow> bool" where
  "printable bs \<longleftrightarrow> bs \<noteq> [] \<and> (\<forall>b \<in> set bs. 0x20 \<le> b \<and> b \<le> 0x7e)"

lemma printable_loop_Some:
  "off + n \<le> length buf \<Longrightarrow>
   printable_loop buf off n = Some (\<forall>b \<in> set (take n (drop off buf)). 0x20 \<le> b \<and> b \<le> 0x7e)"
  by (induction n arbitrary: off) (auto simp: take_Suc_drop not_less)

lemma cf_is_printable_Some [simp]:
  "off + n \<le> length buf \<Longrightarrow> cf_is_printable buf off n = Some (printable (take n (drop off buf)))"
  by (auto simp: cf_is_printable_def printable_loop_Some printable_def)

text \<open>The context of a warning is clipped to 16 bytes.\<close>

definition clip :: "bytes \<Rightarrow> bytes" where
  "clip bs = take 16 bs"

lemma length_clip [simp]: "length (clip bs) \<le> 16"
  by (simp add: clip_def)

lemma cf_warn_Some [simp]:
  "off + n \<le> length buf \<Longrightarrow>
   cf_warn l c m p (Some (buf, off)) n = Some (warned l c m p (clip (take n (drop off buf))))"
  by (auto simp: cf_warn_def warned_def warn_list_grow_def Let_def min_def clip_def)

lemma cf_warn_none [simp]: "cf_warn l c m p None 0 = Some (warned l c m p [])"
  by (simp add: cf_warn_def warned_def warn_list_grow_def Let_def)

lemma cf_dhcpv4_format_ipv4_Some [simp]:
  "off + 4 \<le> length buf \<Longrightarrow>
   cf_dhcpv4_format_ipv4 buf off =
     Some (cf_dup_str (cf_format_ip 4 (memcpy_at (replicate 16 0) 0 (take 4 (drop off buf)))))"
  by (simp add: cf_dhcpv4_format_ipv4_def dhcp_mirror)

lemma cf_dhcpv6_format_ipv6_Some [simp]:
  "off + 16 \<le> length buf \<Longrightarrow>
   cf_dhcpv6_format_ipv6 buf off = Some (cf_dup_str (cf_format_ip 6 (take 16 (drop off buf))))"
  by (simp add: cf_dhcpv6_format_ipv6_def dhcp_mirror)

section \<open>Warnings only grow\<close>

definition warnings_ok :: "parser_warning list \<Rightarrow> bool" where
  "warnings_ok ws \<longleftrightarrow> list_all (\<lambda>w. length (pw_raw_context w) \<le> 16) ws"

text \<open>Decoders only append warnings, each with a clipped context.\<close>

definition warn_grows :: "cf_warn_list \<Rightarrow> cf_warn_list \<Rightarrow> bool" where
  "warn_grows w w' \<longleftrightarrow> (\<exists>ws. wl_items w' = wl_items w @ ws \<and> warnings_ok ws)"

lemma warnings_ok_append [simp]: "warnings_ok (ws @ ws') \<longleftrightarrow> warnings_ok ws \<and> warnings_ok ws'"
  by (simp add: warnings_ok_def)

lemma warnings_ok_Cons [simp]:
  "warnings_ok (w # ws) \<longleftrightarrow> length (pw_raw_context w) \<le> 16 \<and> warnings_ok ws" "warnings_ok []"
  by (simp_all add: warnings_ok_def)

lemma warnings_ok_warned [simp]:
  "warnings_ok (wl_items (warned w c m p ctx)) \<longleftrightarrow> warnings_ok (wl_items w) \<and> length ctx \<le> 16"
  by simp

lemma ucast_byte_less [simp]: "(ucast (b::byte) :: u32) < 256"
proof -
  have "unat (ucast b :: u32) < unat (256 :: u32)"
    using unsigned_less [of b, where 'a = nat] by (simp add: unsigned_ucast_eq take_bit_nat_eq_self)
  then show ?thesis by (simp add: word_less_nat_alt)
qed

lemma unat_byte_u32 [simp]: "unat (ucast (b::byte) :: u32) = unat b"
  using unsigned_less [of b, where 'a = nat] by (simp add: unsigned_ucast_eq take_bit_nat_eq_self)

lemma unat_byte_less: "unat (b::byte) < 256"
  using unsigned_less [of b, where 'a = nat] by simp

lemma warn_grows_refl [simp]: "warn_grows w w"
  by (simp add: warn_grows_def)

lemma warn_grows_trans [trans]: "warn_grows w w' \<Longrightarrow> warn_grows w' w'' \<Longrightarrow> warn_grows w w''"
  by (auto simp: warn_grows_def)

lemma warn_grows_warned [simp]: "length ctx \<le> 16 \<Longrightarrow> warn_grows w (warned w c m p ctx)"
  by (simp add: warn_grows_def)

lemma ucast_u16_less [simp]: "(ucast (b::u16) :: u32) < 65536"
proof -
  have "unat (ucast b :: u32) < unat (65536 :: u32)"
    using unsigned_less [of b, where 'a = nat] by (simp add: unsigned_ucast_eq take_bit_nat_eq_self)
  then show ?thesis by (simp add: word_less_nat_alt)
qed

lemma rd0: "0 < length d \<Longrightarrow> rd d 0 = Some (d ! 0)"
  by (simp add: rd_def)

section \<open>Shared by the option walks\<close>

text \<open>How the reference parsers of both protocols classify what they find: an option that is
  there in full, one whose length exceeds what is left, and one whose header is cut off.\<close>

datatype option_status = Complete | Overrun | Truncated

text \<open>The text of a suboption's value.\<close>

definition sub_text :: "bytes \<Rightarrow> string" where
  "sub_text v = (if printable v then map chr_of_byte v else concat (map hex_byte v))"

section \<open>The contract of the concatenation map\<close>

text \<open>What a parser relies on: every code seen is known, and its data is the concatenation of
  its fragments in the order they were appended.\<close>

definition fragments :: "u32 \<Rightarrow> (u32 \<times> bytes) list \<Rightarrow> bytes" where
  "fragments code frs = concat (map snd (filter (\<lambda>f. fst f = code) frs))"

locale option_store =
  fixes init :: "'m"
    and append :: "'m \<Rightarrow> u32 \<Rightarrow> cptr \<Rightarrow> nat \<Rightarrow> 'm option"
    and get :: "'m \<Rightarrow> u32 \<Rightarrow> bytes"
    and has :: "'m \<Rightarrow> u32 \<Rightarrow> bool"
    and inv :: "'m \<Rightarrow> bool"
  assumes init_inv: "inv init"
    and init_get: "get init c = []"
    and init_has: "\<not> has init c"
    and append_empty: "inv m \<Longrightarrow> \<exists>m'. append m c p 0 = Some m' \<and> inv m' \<and>
        (\<forall>d. get m' d = get m d) \<and> (\<forall>d. has m' d \<longleftrightarrow> d = c \<or> has m d)"
    and append_data: "inv m \<Longrightarrow> off + n \<le> length buf \<Longrightarrow>
        \<exists>m'. append m c (Some (buf, off)) n = Some m' \<and> inv m' \<and>
        (\<forall>d. get m' d = (if d = c then get m d @ take n (drop off buf) else get m d)) \<and>
        (\<forall>d. has m' d \<longleftrightarrow> d = c \<or> has m d)"
begin

definition stored :: "'m \<Rightarrow> (u32 \<times> bytes) list \<Rightarrow> bool" where
  "stored m frs \<longleftrightarrow> inv m \<and> (\<forall>c. get m c = fragments c frs) \<and> (\<forall>c. has m c \<longleftrightarrow> c \<in> fst ` set frs)"

lemma stored_init: "stored init []"
  by (simp add: stored_def init_inv init_get init_has fragments_def)

lemma stored_append:
  assumes "stored m frs" "off + n \<le> length buf"
  shows "\<exists>m'. append m c (Some (buf, off)) n = Some m' \<and>
    stored m' (frs @ [(c, take n (drop off buf))])"
  using append_data [of m off n buf c] assms by (auto simp: stored_def fragments_def)

lemma stored_append_empty:
  assumes "stored m frs"
  shows "\<exists>m'. append m c p 0 = Some m' \<and> stored m' (frs @ [(c, [])])"
  using append_empty [of m c p] assms by (auto simp: stored_def fragments_def)

end

definition cm_ok :: "concat_map \<Rightarrow> bool" where
  "cm_ok m \<longleftrightarrow> vec_ok m \<and> distinct (map ct_code (vec_items m))"

lemma find_code_None: "find_code es i c = None \<longleftrightarrow> c \<notin> ct_code ` set es"
  by (induction es arbitrary: i) auto

lemma find_code_Some:
  "find_code es i c = Some k \<Longrightarrow> i \<le> k \<and> k - i < length es \<and> ct_code (es ! (k - i)) = c"
  by (induction es arbitrary: i) (fastforce split: if_splits simp: nth_Cons' Suc_diff_le)+

lemma has_loop_iff: "has_loop es c \<longleftrightarrow> c \<in> ct_code ` set es"
  by (induction es) auto

lemma get_loop_append:
  "get_loop (es @ fs) c = (if c \<in> ct_code ` set es then get_loop es c else get_loop fs c)"
  by (induction es) auto

lemma get_loop_None: "c \<notin> ct_code ` set es \<Longrightarrow> get_loop es c = []"
  by (induction es) auto

lemma get_loop_nth:
  "distinct (map ct_code es) \<Longrightarrow> i < length es \<Longrightarrow> get_loop es (ct_code (es ! i)) = ct_data (es ! i)"
  by (induction es arbitrary: i) (auto simp: nth_Cons' image_iff)

lemma codes_update:
  "i < length es \<Longrightarrow> map ct_code (es[i := (es ! i)\<lparr>ct_data := x\<rparr>]) = map ct_code es"
  by (simp add: map_update list_update_same_conv)

lemma get_loop_update:
  assumes "distinct (map ct_code es)" "i < length es"
  shows "get_loop (es[i := (es ! i)\<lparr>ct_data := x\<rparr>]) c =
    (if c = ct_code (es ! i) then x else get_loop es c)"
  using assms
proof (induction es arbitrary: i)
  case (Cons e es)
  then show ?case by (cases i) (auto simp: image_iff dest: bspec [OF _ nth_mem])
qed simp

lemma find_or_add_spec:
  assumes "cm_ok m"
  obtains m' i where "concat_map_find_or_add m c = Some (m', i)" "cm_ok m'"
    "i < length (vec_items m')" "ct_code (vec_items m' ! i) = c"
    "\<And>d. concat_map_get m' d = concat_map_get m d"
    "\<And>d. concat_map_has m' d \<longleftrightarrow> d = c \<or> concat_map_has m d"
proof (cases "find_code (vec_items m) 0 c")
  case None
  then have c: "c \<notin> ct_code ` set (vec_items m)" by (simp add: find_code_None)
  let ?m = "pushed 8 m \<lparr>ct_code = c, ct_data = []\<rparr>"
  show ?thesis
  proof (rule that [of ?m "length (vec_items m)"])
    show "concat_map_find_or_add m c = Some (?m, length (vec_items m))"
      using None assms by (simp add: concat_map_find_or_add_def cm_ok_def)
    show "cm_ok ?m" using assms c by (simp add: cm_ok_def)
  qed (use c in \<open>auto simp: concat_map_get_def concat_map_has_def get_loop_append get_loop_None has_loop_iff\<close>)
next
  case (Some i)
  then show ?thesis
    using assms find_code_Some [OF Some]
    by (intro that [of m i]) (auto simp: concat_map_find_or_add_def concat_map_has_def has_loop_iff)
qed

lemma concat_map_append_spec:
  assumes "cm_ok m" "off + n \<le> length buf"
  shows "\<exists>m'. concat_map_append m c (Some (buf, off)) n = Some m' \<and> cm_ok m' \<and>
    (\<forall>d. concat_map_get m' d = (if d = c then concat_map_get m d @ take n (drop off buf) else concat_map_get m d)) \<and>
    (\<forall>d. concat_map_has m' d \<longleftrightarrow> d = c \<or> concat_map_has m d)"
proof (rule find_or_add_spec [OF assms(1), of c])
  fix m' i
  assume f: "concat_map_find_or_add m c = Some (m', i)" "cm_ok m'" "i < length (vec_items m')"
    "ct_code (vec_items m' ! i) = c" "\<And>d. concat_map_get m' d = concat_map_get m d"
    "\<And>d. concat_map_has m' d \<longleftrightarrow> d = c \<or> concat_map_has m d"
  show ?thesis
  proof (cases "n = 0")
    case True
    then show ?thesis using f by (simp add: concat_map_append_def)
  next
    case False
    let ?e = "vec_items m' ! i"
    let ?m = "m'\<lparr>vec_items := (vec_items m')[i := ?e\<lparr>ct_data := ct_data ?e @ take n (drop off buf)\<rparr>]\<rparr>"
    have "concat_map_append m c (Some (buf, off)) n = Some ?m"
      using False f(1,3) assms(2) by (simp add: concat_map_append_def)
    moreover have "cm_ok ?m" using f(2,3) by (simp add: cm_ok_def vec_ok_def codes_update)
    moreover have "concat_map_get ?m d =
        (if d = c then concat_map_get m d @ take n (drop off buf) else concat_map_get m d)" for d
    proof -
      have "concat_map_get ?m d =
          (if d = c then ct_data ?e @ take n (drop off buf) else concat_map_get m' d)"
        using f(2-4) by (simp add: cm_ok_def concat_map_get_def get_loop_update)
      moreover have "ct_data ?e = concat_map_get m' c"
        using f(2-4) get_loop_nth [of "vec_items m'" i] by (simp add: cm_ok_def concat_map_get_def)
      ultimately show ?thesis using f(5) by simp
    qed
    moreover have "concat_map_has ?m d = concat_map_has m' d" for d
      using arg_cong [OF codes_update [OF f(3)], of set]
      by (simp add: concat_map_has_def has_loop_iff)
    ultimately show ?thesis using f(6) by blast
  qed
qed

interpretation cm: option_store concat_map_init concat_map_append concat_map_get concat_map_has cm_ok
proof unfold_locales
  fix m c p assume "cm_ok m"
  then show "\<exists>m'. concat_map_append m c p 0 = Some m' \<and> cm_ok m' \<and>
      (\<forall>d. concat_map_get m' d = concat_map_get m d) \<and>
      (\<forall>d. concat_map_has m' d \<longleftrightarrow> d = c \<or> concat_map_has m d)"
    by (rule find_or_add_spec [of m c]) (simp add: concat_map_append_def)
qed (simp_all add: concat_map_append_spec, simp_all add: concat_map_init_def cm_ok_def
       concat_map_get_def concat_map_has_def)

end
