(* ===== verification/Dhcpv4_Decode.thy ===== *)
theory Dhcpv4_Decode
  imports Dhcp_Util
begin

text \<open>
  The decoder of DHCPv4 options, \<^verbatim>\<open>libs/cloudflow-packet/cf_dhcpv4_decode.c\<close>: from the
  concatenated data of each option code to the \<open>DhcpV4DecodedOptions\<close> message, with the
  warnings it leaves.

  Option data is a byte list (a NULL pointer is the empty list, its length is 0 in both); each
  read goes through the checked readers, so \<open>None\<close> is a read outside the option's data.
  Allocations succeed.
\<close>

section \<open>The decoded message\<close>

datatype dhcpv4_message_type =
    M4_UNSPECIFIED | M4_DISCOVER | M4_OFFER | M4_REQUEST | M4_DECLINE | M4_ACK | M4_NAK | M4_RELEASE
  | M4_INFORM | M4_FORCERENEW | M4_LEASEQUERY | M4_LEASEUNASSIGNED | M4_LEASEUNKNOWN | M4_LEASEACTIVE

record dhcpv4_route =
  rt_destination_prefix_length :: u32
  rt_destination :: string
  rt_router :: string
  rt_raw_value :: bytes

record dhcpv4_vendor_suboption =
  vs_code :: u32
  vs_length :: u32
  vs_raw_value :: bytes
  vs_decoded_value :: string

record dhcpv4_vendor_info =
  vi_raw_value :: bytes
  vi_vendor_class_identifier :: string
  vi_suboptions :: "dhcpv4_vendor_suboption list"
  vi_decode_attempted :: bool
  vi_decode_success :: bool
  vi_parser_warnings :: "parser_warning list"

record dhcpv4_relay_suboption =
  rs_code :: u32
  rs_name :: string
  rs_length :: u32
  rs_raw_value :: bytes
  rs_decoded_value :: string
  rs_malformed :: bool

record dhcpv4_relay_info =
  ra_raw_value :: bytes
  ra_suboptions :: "dhcpv4_relay_suboption list"
  ra_circuit_id :: string
  ra_remote_id :: string
  ra_subscriber_id :: string

record dhcpv4_client_fqdn =
  fq_flags :: u32
  fq_rcode1 :: u32
  fq_rcode2 :: u32
  fq_domain_name :: string
  fq_raw_domain_name :: bytes

record dhcpv4_decoded =
  d4_message_type :: dhcpv4_message_type
  d4_message_type_name :: string
  d4_subnet_mask :: string
  d4_routers :: "string list"
  d4_domain_name_servers :: "string list"
  d4_host_name :: string
  d4_domain_name :: string
  d4_requested_ip_address :: string
  d4_ip_address_lease_time_seconds :: u32
  d4_option_overload :: u32
  d4_server_identifier :: string
  d4_parameter_request_list :: "u32 list"
  d4_message :: string
  d4_max_dhcp_message_size :: u32
  d4_renewal_time_t1_seconds :: u32
  d4_rebinding_time_t2_seconds :: u32
  d4_vendor_class_identifier :: string
  d4_client_identifier_raw :: bytes
  d4_client_identifier_text :: string
  d4_vendor_specific_information :: "dhcpv4_vendor_info option"
  d4_tftp_server_name :: string
  d4_bootfile_name :: string
  d4_client_fqdn :: "dhcpv4_client_fqdn option"
  d4_relay_agent_information :: "dhcpv4_relay_info option"
  d4_domain_search :: "string list"
  d4_classless_static_routes :: "dhcpv4_route list"
  d4_microsoft_classless_static_routes :: "dhcpv4_route list"
  d4_proxy_autodiscovery :: string

definition decoded_init :: dhcpv4_decoded where
  "decoded_init = \<lparr>d4_message_type = M4_UNSPECIFIED, d4_message_type_name = [],
     d4_subnet_mask = [], d4_routers = [], d4_domain_name_servers = [], d4_host_name = [],
     d4_domain_name = [], d4_requested_ip_address = [], d4_ip_address_lease_time_seconds = 0,
     d4_option_overload = 0, d4_server_identifier = [], d4_parameter_request_list = [],
     d4_message = [], d4_max_dhcp_message_size = 0, d4_renewal_time_t1_seconds = 0,
     d4_rebinding_time_t2_seconds = 0, d4_vendor_class_identifier = [],
     d4_client_identifier_raw = [], d4_client_identifier_text = [],
     d4_vendor_specific_information = None, d4_tftp_server_name = [], d4_bootfile_name = [],
     d4_client_fqdn = None, d4_relay_agent_information = None, d4_domain_search = [],
     d4_classless_static_routes = [], d4_microsoft_classless_static_routes = [],
     d4_proxy_autodiscovery = []\<rparr>"

section \<open>Scalars and lists\<close>

text \<open>The string is \<open>None\<close> where the code returns NULL.\<close>

definition decode_ipv4_scalar ::
  "bytes \<Rightarrow> string \<Rightarrow> cf_warn_list \<Rightarrow> (string option \<times> cf_warn_list) option" where
  "decode_ipv4_scalar data field_path warnings =
    (if length data < 4 then do {
       warnings \<leftarrow> cf_dhcpv4_warn warnings ''opt_len_short'' ''expected a 4-byte IPv4 address''
         field_path (Some (data, 0)) (length data);
       Some (None, warnings) }
     else do { s \<leftarrow> cf_dhcpv4_format_ipv4 data 0; Some (Some s, warnings) })"

fun ipv4_items :: "bytes \<Rightarrow> nat \<Rightarrow> nat \<Rightarrow> string list option" where
  "ipv4_items data i 0 = Some []"
| "ipv4_items data i (Suc n) = do {
     s \<leftarrow> cf_dhcpv4_format_ipv4 data (i * 4);
     ss \<leftarrow> ipv4_items data (i + 1) n;
     Some (s # ss) }"

definition decode_ipv4_list ::
  "bytes \<Rightarrow> string \<Rightarrow> cf_warn_list \<Rightarrow> (string list \<times> cf_warn_list) option" where
  "decode_ipv4_list data field_path warnings =
    (let len = length data; n = len div 4; rem = len mod 4 in do {
       warnings \<leftarrow>
         (if rem \<noteq> 0 then cf_dhcpv4_warn warnings ''opt_len_invalid''
            ''option length is not a multiple of 4 bytes'' field_path (Some (data, len - rem)) rem
          else Some warnings);
       arr \<leftarrow> ipv4_items data 0 n;
       Some (arr, warnings) })"

definition decode_u32 ::
  "bytes \<Rightarrow> string \<Rightarrow> cf_warn_list \<Rightarrow> (u32 option \<times> cf_warn_list) option" where
  "decode_u32 data field_path warnings =
    (if length data < 4 then do {
       warnings \<leftarrow> cf_dhcpv4_warn warnings ''opt_len_short'' ''expected a 4-byte integer''
         field_path (Some (data, 0)) (length data);
       Some (None, warnings) }
     else do {
       a \<leftarrow> rd data 0; b \<leftarrow> rd data 1; c \<leftarrow> rd data 2; d \<leftarrow> rd data 3;
       Some (Some (be32 a b c d), warnings) })"

definition decode_u16_as_u32 ::
  "bytes \<Rightarrow> string \<Rightarrow> cf_warn_list \<Rightarrow> (u32 option \<times> cf_warn_list) option" where
  "decode_u16_as_u32 data field_path warnings =
    (if length data < 2 then do {
       warnings \<leftarrow> cf_dhcpv4_warn warnings ''opt_len_short'' ''expected a 2-byte integer''
         field_path (Some (data, 0)) (length data);
       Some (None, warnings) }
     else do {
       a \<leftarrow> rd data 0; b \<leftarrow> rd data 1;
       Some (Some (push_bit 8 (ucast a) OR ucast b), warnings) })"

section \<open>Message type\<close>

definition message_type_name :: "byte \<Rightarrow> string" where
  "message_type_name v =
    (if v = 1 then ''DISCOVER'' else if v = 2 then ''OFFER'' else if v = 3 then ''REQUEST''
     else if v = 4 then ''DECLINE'' else if v = 5 then ''ACK'' else if v = 6 then ''NAK''
     else if v = 7 then ''RELEASE'' else if v = 8 then ''INFORM'' else if v = 9 then ''FORCERENEW''
     else if v = 10 then ''LEASEQUERY'' else if v = 11 then ''LEASEUNASSIGNED''
     else if v = 12 then ''LEASEUNKNOWN'' else if v = 13 then ''LEASEACTIVE'' else [])"

definition message_type_enum :: "byte \<Rightarrow> dhcpv4_message_type" where
  "message_type_enum v =
    (if v = 1 then M4_DISCOVER else if v = 2 then M4_OFFER else if v = 3 then M4_REQUEST
     else if v = 4 then M4_DECLINE else if v = 5 then M4_ACK else if v = 6 then M4_NAK
     else if v = 7 then M4_RELEASE else if v = 8 then M4_INFORM else if v = 9 then M4_FORCERENEW
     else if v = 10 then M4_LEASEQUERY else if v = 11 then M4_LEASEUNASSIGNED
     else if v = 12 then M4_LEASEUNKNOWN else if v = 13 then M4_LEASEACTIVE else M4_UNSPECIFIED)"

section \<open>Client identifier\<close>

definition decode_client_id :: "bytes \<Rightarrow> dhcpv4_decoded \<Rightarrow> dhcpv4_decoded option" where
  "decode_client_id data d = do {
     raw \<leftarrow> cf_dhcpv4_set_bytes (Some (data, 0)) (length data);
     let d = d\<lparr>d4_client_identifier_raw := raw\<rparr>;
     if length data = 0 then Some d
     else do {
       t \<leftarrow> rd data 0;
       text \<leftarrow> (if t = 0 \<and> length data > 1 then cf_dhcpv4_is_printable data 1 (length data - 1)
               else Some False);
       if text then do {
         s \<leftarrow> cf_dhcpv4_dup_strn (Some (data, 1)) (length data - 1);
         Some (d\<lparr>d4_client_identifier_text := s\<rparr>) }
       else if t = 1 \<and> length data = 7 then do {
         mac \<leftarrow> rd_bytes data 1 6;
         Some (d\<lparr>d4_client_identifier_text := cf_dhcpv4_dup_str (cf_format_mac mac)\<rparr>) }
       else Some d } }"

section \<open>Domain names\<close>

abbreviation (input) MAX_NAME_JUMPS :: nat where "MAX_NAME_JUMPS \<equiv> 64"

text \<open>One name, from \<open>cursor\<close>: the result is the \<open>error\<close> flag, the text and \<open>advance_pos\<close>. The
  names lie in the \<open>len\<close> bytes of \<open>data\<close> from \<open>base\<close> on.\<close>

function name_loop ::
  "bytes \<Rightarrow> nat \<Rightarrow> nat \<Rightarrow> nat \<Rightarrow> string \<Rightarrow> nat \<Rightarrow> bool \<Rightarrow> nat \<Rightarrow> (bool \<times> string \<times> nat) option" where
  "name_loop data base len cursor name jumps had_pointer advance_pos =
    (if cursor \<ge> len then Some (True, name, advance_pos)
     else case rd data (base + cursor) of None \<Rightarrow> None | Some b \<Rightarrow>
     if b = 0 then Some (False, name, if had_pointer then advance_pos else cursor + 1)
     else if b AND 0xc0 = 0xc0 then
       if cursor + 1 \<ge> len then Some (True, name, advance_pos)
       else case rd data (base + (cursor + 1)) of None \<Rightarrow> None | Some b2 \<Rightarrow>
         let target = unat (b AND 0x3f) * 256 + unat b2;
             advance_pos = (if had_pointer then advance_pos else cursor + 2)
         in if jumps + 1 > MAX_NAME_JUMPS \<or> target \<ge> len then Some (True, name, advance_pos)
            else name_loop data base len target name (jumps + 1) True advance_pos
     else if b AND 0xc0 \<noteq> 0 then Some (True, name, advance_pos)
     else if cursor + 1 + unat b > len then Some (True, name, advance_pos)
     else case rd_bytes data (base + (cursor + 1)) (unat b) of None \<Rightarrow> None | Some label \<Rightarrow>
       name_loop data base len (cursor + (1 + unat b))
         ((if name \<noteq> [] then name @ ''.'' else name) @ map chr_of_byte label)
         jumps had_pointer advance_pos)"
  by pat_completeness auto
termination
  by (relation "measures [\<lambda>(data, base, len, cursor, name, jumps, p, a). MAX_NAME_JUMPS - jumps,
      \<lambda>(data, base, len, cursor, name, jumps, p, a). len - cursor]") auto

declare name_loop.simps [simp del]

definition list_path :: "nat \<Rightarrow> string \<Rightarrow> nat \<Rightarrow> string" where
  "list_path sz prefix n = snprintf sz (prefix @ ''['' @ dec_string n @ '']'')"

function name_list_loop ::
  "bytes \<Rightarrow> nat \<Rightarrow> nat \<Rightarrow> string \<Rightarrow> nat \<Rightarrow> string vec \<Rightarrow> cf_warn_list \<Rightarrow>
   (string vec \<times> cf_warn_list) option" where
  "name_list_loop data base len field_path_prefix pos names warnings =
    (if pos < len then
       case rd data (base + pos) of None \<Rightarrow> None | Some b \<Rightarrow>
       if b = 0 then name_list_loop data base len field_path_prefix (pos + 1) names warnings
       else case name_loop data base len pos [] 0 False pos of
         None \<Rightarrow> None
       | Some (error, name, advance_pos) \<Rightarrow>
           if error then do {
             warnings \<leftarrow> cf_dhcpv4_warn warnings ''domain_name_bad_encoding''
               ''domain name has an invalid/out-of-range compression pointer or a truncated label''
               (list_path 64 field_path_prefix (length (vec_items names)))
               (Some (data, base + pos)) (len - pos);
             Some (names, warnings) }
           else case (if name \<noteq> [] then vec_push 4 names name else Some names) of
             None \<Rightarrow> None
           | Some names \<Rightarrow>
               if advance_pos \<le> pos then Some (names, warnings)
               else name_list_loop data base len field_path_prefix advance_pos names warnings
     else Some (names, warnings))"
  by pat_completeness auto
termination by (relation "measure (\<lambda>(data, base, len, p, pos, names, w). len - pos)") auto

declare name_list_loop.simps [simp del]

definition decode_domain_name_list ::
  "bytes \<Rightarrow> nat \<Rightarrow> nat \<Rightarrow> cf_warn_list \<Rightarrow> string \<Rightarrow> (string list \<times> cf_warn_list) option" where
  "decode_domain_name_list data base len warnings field_path_prefix = do {
     (names, warnings) \<leftarrow> name_list_loop data base len field_path_prefix 0 vec_init warnings;
     Some (vec_items names, warnings) }"

section \<open>Classless static routes\<close>

definition decode_route :: "bytes \<Rightarrow> nat \<Rightarrow> byte \<Rightarrow> nat \<Rightarrow> dhcpv4_route option" where
  "decode_route data pos prefix_len dest_bytes = do {
     dest \<leftarrow> rd_bytes data (pos + 1) dest_bytes;
     if length dest > 4 then None
     else do {
       let dest4 = memcpy_at (replicate 4 0) 0 dest;
       router4 \<leftarrow> rd_bytes data (pos + 1 + dest_bytes) 4;
       destination \<leftarrow> cf_dhcpv4_format_ipv4 dest4 0;
       router \<leftarrow> cf_dhcpv4_format_ipv4 router4 0;
       raw \<leftarrow> cf_dhcpv4_set_bytes (Some (data, pos)) (1 + dest_bytes + 4);
       Some \<lparr>rt_destination_prefix_length = ucast prefix_len, rt_destination = destination,
         rt_router = router, rt_raw_value = raw\<rparr> } }"

function route_loop ::
  "bytes \<Rightarrow> string \<Rightarrow> nat \<Rightarrow> dhcpv4_route vec \<Rightarrow> cf_warn_list \<Rightarrow>
   (dhcpv4_route vec \<times> cf_warn_list) option" where
  "route_loop data field_path_prefix pos arr warnings =
    (if pos < length data then
       case rd data pos of None \<Rightarrow> None | Some prefix_len \<Rightarrow>
       let dest_bytes = (unat prefix_len + 7) div 8;
           path = list_path 64 field_path_prefix (length (vec_items arr))
       in if prefix_len > 32 then do {
            warnings \<leftarrow> cf_dhcpv4_warn warnings ''csr_bad_prefix_length''
              ''classless static route prefix length > 32'' path
              (Some (data, pos)) (length data - pos);
            Some (arr, warnings) }
          else if pos + 1 + dest_bytes + 4 > length data then do {
            warnings \<leftarrow> cf_dhcpv4_warn warnings ''csr_len_overrun''
              ''classless static route entry exceeds remaining option bytes'' path
              (Some (data, pos)) (length data - pos);
            Some (arr, warnings) }
          else case decode_route data pos prefix_len dest_bytes of
            None \<Rightarrow> None
          | Some r \<Rightarrow> (case vec_push 4 arr r of
              None \<Rightarrow> None
            | Some arr \<Rightarrow>
                route_loop data field_path_prefix (pos + (1 + dest_bytes + 4)) arr warnings)
     else Some (arr, warnings))"
  by pat_completeness auto
termination by (relation "measure (\<lambda>(data, p, pos, arr, w). length data - pos)") auto

declare route_loop.simps [simp del]

definition decode_classless_routes ::
  "bytes \<Rightarrow> cf_warn_list \<Rightarrow> string \<Rightarrow> (dhcpv4_route list \<times> cf_warn_list) option" where
  "decode_classless_routes data warnings field_path_prefix = do {
     (arr, warnings) \<leftarrow> route_loop data field_path_prefix 0 vec_init warnings;
     Some (vec_items arr, warnings) }"

section \<open>Vendor-specific information\<close>

text \<open>The text of a suboption's value: itself when printable, its hex digits otherwise.\<close>

definition printable_or_hex :: "bytes \<Rightarrow> nat \<Rightarrow> nat \<Rightarrow> string option" where
  "printable_or_hex data off len = do {
     p \<leftarrow> cf_dhcpv4_is_printable data off len;
     if p then cf_dhcpv4_dup_strn (Some (data, off)) len
     else cf_dhcpv4_hex_encode (Some (data, off)) len }"

text \<open>The result is \<open>ok\<close>, the suboptions and the local warnings.\<close>

function vendor_loop ::
  "bytes \<Rightarrow> nat \<Rightarrow> dhcpv4_vendor_suboption vec \<Rightarrow> cf_warn_list \<Rightarrow>
   (bool \<times> dhcpv4_vendor_suboption vec \<times> cf_warn_list) option" where
  "vendor_loop data pos arr local =
    (if pos < length data then
       if pos + 2 > length data then do {
         local \<leftarrow> cf_dhcpv4_warn local ''vendor_subopt_truncated''
           ''vendor suboption truncated before its length byte''
           ''decoded.vendor_specific_information.suboptions'' (Some (data, pos)) (length data - pos);
         Some (False, arr, local) }
       else case rd data pos of None \<Rightarrow> None | Some code \<Rightarrow>
       case rd data (pos + 1) of None \<Rightarrow> None | Some sl \<Rightarrow>
       if pos + 2 + unat sl > length data then do {
         local \<leftarrow> cf_dhcpv4_warn local ''vendor_subopt_len_overrun''
           ''vendor suboption length exceeds remaining bytes''
           ''decoded.vendor_specific_information.suboptions'' (Some (data, pos)) (length data - pos);
         Some (False, arr, local) }
       else case cf_dhcpv4_set_bytes (Some (data, pos + 2)) (unat sl) of None \<Rightarrow> None | Some raw \<Rightarrow>
       case printable_or_hex data (pos + 2) (unat sl) of None \<Rightarrow> None | Some text \<Rightarrow>
       case vec_push 4 arr \<lparr>vs_code = ucast code, vs_length = ucast sl, vs_raw_value = raw,
              vs_decoded_value = text\<rparr> of
         None \<Rightarrow> None
       | Some arr \<Rightarrow> vendor_loop data (pos + (2 + unat sl)) arr local
     else Some (True, arr, local))"
  by pat_completeness auto
termination by (relation "measure (\<lambda>(data, pos, arr, l). length data - pos)") auto

declare vendor_loop.simps [simp del]

text \<open>The class identifier is \<open>None\<close> for a NULL pointer; its first character decides.\<close>

definition decode_vendor_specific ::
  "bytes \<Rightarrow> string option \<Rightarrow> dhcpv4_decoded \<Rightarrow> dhcpv4_decoded option" where
  "decode_vendor_specific data vendor_class_id d = do {
     raw \<leftarrow> cf_dhcpv4_set_bytes (Some (data, 0)) (length data);
     let vsi = \<lparr>vi_raw_value = raw, vi_vendor_class_identifier = [], vi_suboptions = [],
                vi_decode_attempted = False, vi_decode_success = False, vi_parser_warnings = []\<rparr>;
     (case vendor_class_id of
        Some s \<Rightarrow>
          if cstr s \<noteq> [] then do {
            (ok, arr, local) \<leftarrow> vendor_loop data 0 vec_init cf_dhcpv4_warn_list_init;
            Some (d\<lparr>d4_vendor_specific_information :=
              Some (vsi\<lparr>vi_vendor_class_identifier := cf_dhcpv4_dup_str s, vi_decode_attempted := True,
                vi_suboptions := vec_items arr, vi_decode_success := ok,
                vi_parser_warnings := fst (cf_dhcpv4_warn_list_take local)\<rparr>)\<rparr>) }
          else Some (d\<lparr>d4_vendor_specific_information := Some vsi\<rparr>)
      | None \<Rightarrow> Some (d\<lparr>d4_vendor_specific_information := Some vsi\<rparr>)) }"

section \<open>Relay agent information\<close>

definition relay_suboption_name :: "u32 \<Rightarrow> string" where
  "relay_suboption_name code =
    (if code = 1 then ''Agent Circuit ID'' else if code = 2 then ''Agent Remote ID''
     else if code = 5 then ''RSVP Reservation'' else if code = 6 then ''Subscriber ID''
     else if code = 9 then ''Vendor-Specific Relay Suboption''
     else if code = 11 then ''Relay Agent Identifier''
     else if code = 12 then ''Relay Agent Source Link Selection'' else [])"

definition relay_path :: "nat \<Rightarrow> string" where
  "relay_path n = list_path 72 ''decoded.relay_agent_information.suboptions'' n"

text \<open>The three identifiers a known suboption sets; a later suboption replaces an earlier one.\<close>

definition relay_ids :: "byte \<Rightarrow> string \<Rightarrow> dhcpv4_relay_info \<Rightarrow> dhcpv4_relay_info" where
  "relay_ids code text rai =
    (if code = 1 then rai\<lparr>ra_circuit_id := cf_dhcpv4_dup_str text\<rparr>
     else if code = 2 then rai\<lparr>ra_remote_id := cf_dhcpv4_dup_str text\<rparr>
     else if code = 6 then rai\<lparr>ra_subscriber_id := cf_dhcpv4_dup_str text\<rparr>
     else rai)"

function relay_loop ::
  "bytes \<Rightarrow> nat \<Rightarrow> dhcpv4_relay_suboption vec \<Rightarrow> dhcpv4_relay_info \<Rightarrow> cf_warn_list \<Rightarrow>
   (dhcpv4_relay_suboption vec \<times> dhcpv4_relay_info \<times> cf_warn_list) option" where
  "relay_loop data pos arr rai warnings =
    (if pos < length data then
       if pos + 2 > length data then do {
         warnings \<leftarrow> cf_dhcpv4_warn warnings ''relay_subopt_truncated''
           ''relay agent suboption truncated before its length byte''
           (relay_path (length (vec_items arr))) (Some (data, pos)) (length data - pos);
         code \<leftarrow> rd data pos;
         arr \<leftarrow> vec_push 4 arr \<lparr>rs_code = ucast code,
           rs_name = cf_dhcpv4_dup_str (relay_suboption_name (ucast code)), rs_length = 0,
           rs_raw_value = [], rs_decoded_value = [], rs_malformed = True\<rparr>;
         Some (arr, rai, warnings) }
       else case rd data pos of None \<Rightarrow> None | Some code \<Rightarrow>
       case rd data (pos + 1) of None \<Rightarrow> None | Some sl \<Rightarrow>
       let malformed = pos + 2 + unat sl > length data;
           use_len = (if malformed then length data - (pos + 2) else unat sl)
       in case cf_dhcpv4_set_bytes (Some (data, pos + 2)) use_len of None \<Rightarrow> None | Some raw \<Rightarrow>
       case printable_or_hex data (pos + 2) use_len of None \<Rightarrow> None | Some text \<Rightarrow>
       case (if malformed then cf_dhcpv4_warn warnings ''relay_subopt_len_overrun''
               ''relay agent suboption length exceeds remaining bytes''
               (relay_path (length (vec_items arr))) (Some (data, pos + 2)) use_len
             else Some warnings) of None \<Rightarrow> None | Some warnings \<Rightarrow>
       case vec_push 4 arr \<lparr>rs_code = ucast code,
              rs_name = cf_dhcpv4_dup_str (relay_suboption_name (ucast code)),
              rs_length = of_nat use_len, rs_raw_value = raw, rs_decoded_value = text,
              rs_malformed = malformed\<rparr> of
         None \<Rightarrow> None
       | Some arr \<Rightarrow>
           if malformed then Some (arr, relay_ids code text rai, warnings)
           else relay_loop data (pos + (2 + unat sl)) arr (relay_ids code text rai) warnings
     else Some (arr, rai, warnings))"
  by pat_completeness auto
termination by (relation "measure (\<lambda>(data, pos, arr, rai, w). length data - pos)") auto

declare relay_loop.simps [simp del]

definition decode_relay_agent_info ::
  "bytes \<Rightarrow> dhcpv4_decoded \<Rightarrow> cf_warn_list \<Rightarrow> (dhcpv4_decoded \<times> cf_warn_list) option" where
  "decode_relay_agent_info data d warnings = do {
     raw \<leftarrow> cf_dhcpv4_set_bytes (Some (data, 0)) (length data);
     (arr, rai, warnings) \<leftarrow> relay_loop data 0 vec_init
       \<lparr>ra_raw_value = raw, ra_suboptions = [], ra_circuit_id = [], ra_remote_id = [],
        ra_subscriber_id = []\<rparr> warnings;
     Some (d\<lparr>d4_relay_agent_information := Some (rai\<lparr>ra_suboptions := vec_items arr\<rparr>)\<rparr>, warnings) }"

section \<open>Client FQDN\<close>

definition decode_fqdn ::
  "bytes \<Rightarrow> dhcpv4_decoded \<Rightarrow> cf_warn_list \<Rightarrow> (dhcpv4_decoded \<times> cf_warn_list) option" where
  "decode_fqdn data d warnings =
    (if length data < 3 then do {
       warnings \<leftarrow> cf_dhcpv4_warn warnings ''opt_len_short''
         ''option 81 (FQDN) shorter than its flags/rcode1/rcode2 header''
         ''decoded.client_fqdn'' (Some (data, 0)) (length data);
       Some (d, warnings) }
     else do {
       flags \<leftarrow> rd data 0; rcode1 \<leftarrow> rd data 1; rcode2 \<leftarrow> rd data 2;
       let namelen = length data - 3;
       raw \<leftarrow> cf_dhcpv4_set_bytes (Some (data, 3)) namelen;
       let fq = \<lparr>fq_flags = ucast flags, fq_rcode1 = ucast rcode1, fq_rcode2 = ucast rcode2,
                 fq_domain_name = [], fq_raw_domain_name = raw\<rparr>;
       if namelen > 0 then
         if flags AND 0x04 \<noteq> 0 then do {
           (names, warnings) \<leftarrow> decode_domain_name_list data 3 namelen warnings
             ''decoded.client_fqdn.domain_name'';
           Some (d\<lparr>d4_client_fqdn :=
             Some (if names \<noteq> [] then fq\<lparr>fq_domain_name := hd names\<rparr> else fq)\<rparr>, warnings) }
         else do {
           s \<leftarrow> cf_dhcpv4_dup_strn (Some (data, 3)) namelen;
           Some (d\<lparr>d4_client_fqdn := Some (fq\<lparr>fq_domain_name := s\<rparr>)\<rparr>, warnings) }
       else Some (d\<lparr>d4_client_fqdn := Some fq\<rparr>, warnings) })"

section \<open>The decoded options\<close>

type_synonym decoding = "dhcpv4_decoded \<times> cf_warn_list"

text \<open>The block of one option code: run only when the code was seen, on its data.\<close>

definition on_option ::
  "concat_map \<Rightarrow> u32 \<Rightarrow> (bytes \<Rightarrow> decoding \<Rightarrow> decoding option) \<Rightarrow> decoding \<Rightarrow> decoding option" where
  "on_option cm code f s = (if concat_map_has cm code then f (concat_map_get cm code) s else Some s)"

definition opt_message_type :: "bytes \<Rightarrow> decoding \<Rightarrow> decoding option" where
  "opt_message_type data = (\<lambda>(d, warnings).
    if length data \<ge> 1 then do {
      v \<leftarrow> rd data 0;
      let nm = message_type_name v;
      let d = d\<lparr>d4_message_type := message_type_enum v\<rparr>;
      Some (if nm \<noteq> [] then d\<lparr>d4_message_type_name := cf_dhcpv4_dup_str nm\<rparr> else d, warnings) }
    else do {
      warnings \<leftarrow> cf_dhcpv4_warn warnings ''opt_len_short''
        ''option 53 (message type) present but empty'' ''decoded.message_type'' None 0;
      Some (d, warnings) })"

definition opt_overload :: "bytes \<Rightarrow> decoding \<Rightarrow> decoding option" where
  "opt_overload data = (\<lambda>(d, warnings).
    if length data \<ge> 1 then do {
      v \<leftarrow> rd data 0;
      Some (d\<lparr>d4_option_overload := ucast v\<rparr>, warnings) }
    else do {
      warnings \<leftarrow> cf_dhcpv4_warn warnings ''opt_len_short''
        ''option 52 (overload) present but empty'' ''decoded.option_overload'' None 0;
      Some (d, warnings) })"

definition opt_ipv4 ::
  "string \<Rightarrow> (string \<Rightarrow> dhcpv4_decoded \<Rightarrow> dhcpv4_decoded) \<Rightarrow> bytes \<Rightarrow> decoding \<Rightarrow> decoding option" where
  "opt_ipv4 path upd data = (\<lambda>(d, warnings). do {
     (s, warnings) \<leftarrow> decode_ipv4_scalar data path warnings;
     Some (case s of Some s \<Rightarrow> upd s d | None \<Rightarrow> d, warnings) })"

definition opt_ipv4_list ::
  "string \<Rightarrow> (string list \<Rightarrow> dhcpv4_decoded \<Rightarrow> dhcpv4_decoded) \<Rightarrow> bytes \<Rightarrow> decoding \<Rightarrow> decoding option" where
  "opt_ipv4_list path upd data = (\<lambda>(d, warnings). do {
     (arr, warnings) \<leftarrow> decode_ipv4_list data path warnings;
     Some (upd arr d, warnings) })"

definition opt_u32 ::
  "string \<Rightarrow> (u32 \<Rightarrow> dhcpv4_decoded \<Rightarrow> dhcpv4_decoded) \<Rightarrow> bytes \<Rightarrow> decoding \<Rightarrow> decoding option" where
  "opt_u32 path upd data = (\<lambda>(d, warnings). do {
     (v, warnings) \<leftarrow> decode_u32 data path warnings;
     Some (case v of Some v \<Rightarrow> upd v d | None \<Rightarrow> d, warnings) })"

definition opt_u16 ::
  "string \<Rightarrow> (u32 \<Rightarrow> dhcpv4_decoded \<Rightarrow> dhcpv4_decoded) \<Rightarrow> bytes \<Rightarrow> decoding \<Rightarrow> decoding option" where
  "opt_u16 path upd data = (\<lambda>(d, warnings). do {
     (v, warnings) \<leftarrow> decode_u16_as_u32 data path warnings;
     Some (case v of Some v \<Rightarrow> upd v d | None \<Rightarrow> d, warnings) })"

definition opt_string ::
  "(string \<Rightarrow> dhcpv4_decoded \<Rightarrow> dhcpv4_decoded) \<Rightarrow> bytes \<Rightarrow> decoding \<Rightarrow> decoding option" where
  "opt_string upd data = (\<lambda>(d, warnings).
    if length data > 0 then do {
      s \<leftarrow> cf_dhcpv4_dup_strn (Some (data, 0)) (length data);
      Some (upd s d, warnings) }
    else Some (d, warnings))"

definition opt_parameter_request_list :: "bytes \<Rightarrow> decoding \<Rightarrow> decoding option" where
  "opt_parameter_request_list data = (\<lambda>(d, warnings).
    if length data > 0 then do {
      arr \<leftarrow> rd_bytes data 0 (length data);
      Some (d\<lparr>d4_parameter_request_list := map ucast arr\<rparr>, warnings) }
    else Some (d, warnings))"

definition opt_client_id :: "bytes \<Rightarrow> decoding \<Rightarrow> decoding option" where
  "opt_client_id data = (\<lambda>(d, warnings). do { d \<leftarrow> decode_client_id data d; Some (d, warnings) })"

definition opt_vendor_specific :: "bytes \<Rightarrow> decoding \<Rightarrow> decoding option" where
  "opt_vendor_specific data = (\<lambda>(d, warnings). do {
     d \<leftarrow> decode_vendor_specific data
       (if cstr (d4_vendor_class_identifier d) \<noteq> [] then Some (d4_vendor_class_identifier d) else None) d;
     Some (d, warnings) })"

definition opt_domain_search :: "bytes \<Rightarrow> decoding \<Rightarrow> decoding option" where
  "opt_domain_search data = (\<lambda>(d, warnings). do {
     (names, warnings) \<leftarrow> decode_domain_name_list data 0 (length data) warnings ''decoded.domain_search'';
     Some (d\<lparr>d4_domain_search := names\<rparr>, warnings) })"

definition opt_routes ::
  "string \<Rightarrow> (dhcpv4_route list \<Rightarrow> dhcpv4_decoded \<Rightarrow> dhcpv4_decoded) \<Rightarrow> bytes \<Rightarrow> decoding \<Rightarrow> decoding option" where
  "opt_routes path upd data = (\<lambda>(d, warnings). do {
     (arr, warnings) \<leftarrow> decode_classless_routes data warnings path;
     Some (upd arr d, warnings) })"

definition cf_dhcpv4_build_decoded :: "concat_map \<Rightarrow> cf_warn_list \<Rightarrow> decoding option" where
  "cf_dhcpv4_build_decoded cm warnings = do {
     s \<leftarrow> on_option cm 53 opt_message_type (decoded_init, warnings);
     s \<leftarrow> on_option cm 1 (opt_ipv4 ''decoded.subnet_mask'' (\<lambda>v d. d\<lparr>d4_subnet_mask := v\<rparr>)) s;
     s \<leftarrow> on_option cm 3 (opt_ipv4_list ''decoded.routers'' (\<lambda>v d. d\<lparr>d4_routers := v\<rparr>)) s;
     s \<leftarrow> on_option cm 6 (opt_ipv4_list ''decoded.domain_name_servers''
            (\<lambda>v d. d\<lparr>d4_domain_name_servers := v\<rparr>)) s;
     s \<leftarrow> on_option cm 12 (opt_string (\<lambda>v d. d\<lparr>d4_host_name := v\<rparr>)) s;
     s \<leftarrow> on_option cm 15 (opt_string (\<lambda>v d. d\<lparr>d4_domain_name := v\<rparr>)) s;
     s \<leftarrow> on_option cm 50 (opt_ipv4 ''decoded.requested_ip_address''
            (\<lambda>v d. d\<lparr>d4_requested_ip_address := v\<rparr>)) s;
     s \<leftarrow> on_option cm 51 (opt_u32 ''decoded.ip_address_lease_time_seconds''
            (\<lambda>v d. d\<lparr>d4_ip_address_lease_time_seconds := v\<rparr>)) s;
     s \<leftarrow> on_option cm 52 opt_overload s;
     s \<leftarrow> on_option cm 54 (opt_ipv4 ''decoded.server_identifier''
            (\<lambda>v d. d\<lparr>d4_server_identifier := v\<rparr>)) s;
     s \<leftarrow> on_option cm 55 opt_parameter_request_list s;
     s \<leftarrow> on_option cm 56 (opt_string (\<lambda>v d. d\<lparr>d4_message := v\<rparr>)) s;
     s \<leftarrow> on_option cm 57 (opt_u16 ''decoded.max_dhcp_message_size''
            (\<lambda>v d. d\<lparr>d4_max_dhcp_message_size := v\<rparr>)) s;
     s \<leftarrow> on_option cm 58 (opt_u32 ''decoded.renewal_time_t1_seconds''
            (\<lambda>v d. d\<lparr>d4_renewal_time_t1_seconds := v\<rparr>)) s;
     s \<leftarrow> on_option cm 59 (opt_u32 ''decoded.rebinding_time_t2_seconds''
            (\<lambda>v d. d\<lparr>d4_rebinding_time_t2_seconds := v\<rparr>)) s;
     s \<leftarrow> on_option cm 60 (opt_string (\<lambda>v d. d\<lparr>d4_vendor_class_identifier := v\<rparr>)) s;
     s \<leftarrow> on_option cm 61 opt_client_id s;
     s \<leftarrow> on_option cm 43 opt_vendor_specific s;
     s \<leftarrow> on_option cm 66 (opt_string (\<lambda>v d. d\<lparr>d4_tftp_server_name := v\<rparr>)) s;
     s \<leftarrow> on_option cm 67 (opt_string (\<lambda>v d. d\<lparr>d4_bootfile_name := v\<rparr>)) s;
     s \<leftarrow> on_option cm 81 (\<lambda>data (d, w). decode_fqdn data d w) s;
     s \<leftarrow> on_option cm 82 (\<lambda>data (d, w). decode_relay_agent_info data d w) s;
     s \<leftarrow> on_option cm 119 opt_domain_search s;
     s \<leftarrow> on_option cm 121 (opt_routes ''decoded.classless_static_routes''
            (\<lambda>v d. d\<lparr>d4_classless_static_routes := v\<rparr>)) s;
     s \<leftarrow> on_option cm 249 (opt_routes ''decoded.microsoft_classless_static_routes''
            (\<lambda>v d. d\<lparr>d4_microsoft_classless_static_routes := v\<rparr>)) s;
     on_option cm 252 (opt_string (\<lambda>v d. d\<lparr>d4_proxy_autodiscovery := v\<rparr>)) s }"

end
