(* ===== verification/Dhcpv4.thy ===== *)
theory Dhcpv4
  imports Dhcpv4_Decode
begin

text \<open>
  The DHCPv4 parser, \<^verbatim>\<open>libs/cloudflow-packet/cf_dhcpv4.c\<close> with the option names of
  \<^verbatim>\<open>cf_dhcpv4_optnames.c\<close>: the fixed BOOTP header, the walk over the options in the options,
  file and sname fields, the interpretation, and the entry point \<open>cf_dhcpv4_parse\<close>.

  The payload is a byte list; a pointer into it is an offset. \<open>None\<close> is an access outside the
  payload, outside an array, or of a variable that a failed reader left unset.
\<close>

section \<open>Option names\<close>

definition dhcpv4_option_names :: "(nat \<times> string) list" where
  "dhcpv4_option_names = [
    (0, ''Pad''), (1, ''Subnet Mask''), (2, ''Time Offset''), (3, ''Router''),
    (4, ''Time Server''), (5, ''Name Server''), (6, ''Domain Server''), (7, ''Log Server''),
    (8, ''Quotes Server''), (9, ''LPR Server''), (10, ''Impress Server''), (11, ''RLP Server''),
    (12, ''Hostname''), (13, ''Boot File Size''), (14, ''Merit Dump File''),
    (15, ''Domain Name''), (16, ''Swap Server''), (17, ''Root Path''), (18, ''Extension File''),
    (19, ''Forward On/Off''), (20, ''SrcRte On/Off''), (21, ''Policy Filter''),
    (22, ''Max DG Assembly''), (23, ''Default IP TTL''), (24, ''MTU Timeout''),
    (25, ''MTU Plateau''), (26, ''MTU Interface''), (27, ''MTU Subnet''),
    (28, ''Broadcast Address''), (29, ''Mask Discovery''), (30, ''Mask Supplier''),
    (31, ''Router Discovery''), (32, ''Router Request''), (33, ''Static Route''),
    (34, ''Trailers''), (35, ''ARP Timeout''), (36, ''Ethernet''), (37, ''Default TCP TTL''),
    (38, ''Keepalive Time''), (39, ''Keepalive Data''), (40, ''NIS Domain''),
    (41, ''NIS Servers''), (42, ''NTP Servers''), (43, ''Vendor Specific Information''),
    (44, ''NETBIOS Name Srv''), (45, ''NETBIOS Dist Srv''), (46, ''NETBIOS Node Type''),
    (47, ''NETBIOS Scope''), (48, ''X Window Font''), (49, ''X Window Manager''),
    (50, ''Requested IP Address''), (51, ''IP Address Lease Time''), (52, ''Overload''),
    (53, ''DHCP Message Type''), (54, ''DHCP Server Identifier''),
    (55, ''Parameter Request List''), (56, ''Message''), (57, ''DHCP Max Message Size''),
    (58, ''Renewal Time Value''), (59, ''Rebinding Time Value''), (60, ''Class Identifier''),
    (61, ''Client Identifier''), (64, ''NIS+ Domain''), (65, ''NIS+ Server''),
    (66, ''TFTP Server Name''), (67, ''Bootfile Name''), (68, ''Mobile IP Home Agent''),
    (69, ''SMTP Server''), (70, ''POP3 Server''), (71, ''NNTP Server''), (72, ''WWW Server''),
    (73, ''Finger Server''), (74, ''IRC Server''), (75, ''StreetTalk Server''),
    (76, ''STDA Server''), (77, ''User Class''), (78, ''Directory Agent''),
    (79, ''Service Scope''), (80, ''Rapid Commit''), (81, ''FQDN, Fully Qualified Domain Name''),
    (82, ''Relay Agent Information''), (83, ''iSNS''), (85, ''NDS Servers''),
    (86, ''NDS Tree Name''), (87, ''NDS Context''), (88, ''BCMCS Controller Domain Name list''),
    (89, ''BCMCS Controller IPv4 address list''), (90, ''Authentication''),
    (91, ''client-last-transaction-time''), (92, ''associated-ip''),
    (93, ''Client System Architecture Type''), (94, ''Client Network Interface Identifier''),
    (95, ''LDAP''), (97, ''UUID/GUID-based Client Identifier''), (98, ''User-Auth''),
    (99, ''GEOCONF_CIVIC''), (100, ''PCode''), (101, ''TCode''), (112, ''Netinfo Address''),
    (113, ''Netinfo Tag''), (114, ''URL''), (116, ''Auto Config''),
    (117, ''Name Service Search''), (118, ''Subnet Selection Option''), (119, ''Domain Search''),
    (120, ''SIP Servers DHCP Option''), (121, ''Classless Static Route''),
    (122, ''CCC, CableLabs Client Configuration''), (123, ''GeoConf''),
    (124, ''V-I Vendor Class''), (125, ''V-I Vendor-Specific Information''),
    (136, ''PANA Agent''), (137, ''V4 Lost''), (138, ''CAPWAP Access Controller addresses''),
    (141, ''SIP UA Configuration Service Domains''), (145, ''Forcerenew Nonce Capable''),
    (146, ''RDNSS Selection''), (150, ''TFTP Server Address''), (159, ''V4 Portparams''),
    (175, ''Etherboot (Tentatively Assigned)''), (208, ''PXELINUX Magic (deprecated)''),
    (209, ''Configuration File''), (210, ''Path Prefix''), (211, ''Reboot Time''),
    (212, ''OPTION_6RD''), (213, ''OPTION_V4_ACCESS_DOMAIN''),
    (220, ''Subnet Allocation Option''), (221, ''Virtual Subnet Selection''),
    (249, ''Microsoft Classless Static Route''), (252, ''Proxy autodiscovery (WPAD)''),
    (255, ''End'')]"

definition cf_dhcpv4_option_name :: "u32 \<Rightarrow> string" where
  "cf_dhcpv4_option_name code =
    (case map_of dhcpv4_option_names (unat code) of Some s \<Rightarrow> s | None \<Rightarrow> [])"

section \<open>BOOTP layout\<close>

abbreviation (input) BOOTP_OP_OFF :: nat where "BOOTP_OP_OFF \<equiv> 0"
abbreviation (input) BOOTP_HTYPE_OFF :: nat where "BOOTP_HTYPE_OFF \<equiv> 1"
abbreviation (input) BOOTP_HLEN_OFF :: nat where "BOOTP_HLEN_OFF \<equiv> 2"
abbreviation (input) BOOTP_HOPS_OFF :: nat where "BOOTP_HOPS_OFF \<equiv> 3"
abbreviation (input) BOOTP_XID_OFF :: nat where "BOOTP_XID_OFF \<equiv> 4"
abbreviation (input) BOOTP_SECS_OFF :: nat where "BOOTP_SECS_OFF \<equiv> 8"
abbreviation (input) BOOTP_FLAGS_OFF :: nat where "BOOTP_FLAGS_OFF \<equiv> 10"
abbreviation (input) BOOTP_CIADDR_OFF :: nat where "BOOTP_CIADDR_OFF \<equiv> 12"
abbreviation (input) BOOTP_YIADDR_OFF :: nat where "BOOTP_YIADDR_OFF \<equiv> 16"
abbreviation (input) BOOTP_SIADDR_OFF :: nat where "BOOTP_SIADDR_OFF \<equiv> 20"
abbreviation (input) BOOTP_GIADDR_OFF :: nat where "BOOTP_GIADDR_OFF \<equiv> 24"
abbreviation (input) BOOTP_CHADDR_OFF :: nat where "BOOTP_CHADDR_OFF \<equiv> 28"
abbreviation (input) BOOTP_CHADDR_LEN :: nat where "BOOTP_CHADDR_LEN \<equiv> 16"
abbreviation (input) BOOTP_SNAME_OFF :: nat where "BOOTP_SNAME_OFF \<equiv> 44"
abbreviation (input) BOOTP_SNAME_LEN :: nat where "BOOTP_SNAME_LEN \<equiv> 64"
abbreviation (input) BOOTP_FILE_OFF :: nat where "BOOTP_FILE_OFF \<equiv> 108"
abbreviation (input) BOOTP_FILE_LEN :: nat where "BOOTP_FILE_LEN \<equiv> 128"
abbreviation (input) BOOTP_FIXED_LEN :: nat where "BOOTP_FIXED_LEN \<equiv> 236"
abbreviation (input) BOOTP_COOKIE_OFF :: nat where "BOOTP_COOKIE_OFF \<equiv> 236"
abbreviation (input) BOOTP_COOKIE_LEN :: nat where "BOOTP_COOKIE_LEN \<equiv> 4"
abbreviation (input) BOOTP_OPTIONS_OFF :: nat where "BOOTP_OPTIONS_OFF \<equiv> 240"

definition DHCP_MAGIC_COOKIE :: bytes where
  "DHCP_MAGIC_COOKIE = [99, 130, 83, 99]"

section \<open>The raw option walk\<close>

datatype source_field = SF_UNSPECIFIED | SF_OPTIONS | SF_SNAME | SF_FILE

record raw_item =
  ri_code :: u32
  ri_source_field :: source_field
  ri_ordinal :: u32
  ri_value :: bytes
  ri_malformed :: bool
  ri_long_option_fragment :: bool

definition raw_item_list_append ::
  "raw_item vec \<Rightarrow> u32 \<Rightarrow> source_field \<Rightarrow> u32 \<Rightarrow> cptr \<Rightarrow> nat \<Rightarrow> bool \<Rightarrow> raw_item vec option" where
  "raw_item_list_append list code sf ordinal value value_len malformed = do {
     bs \<leftarrow> (case value of
             Some (buf, off) \<Rightarrow> if value_len > 0 then rd_bytes buf off value_len else Some []
           | None \<Rightarrow> Some []);
     vec_push 8 list \<lparr>ri_code = code, ri_source_field = sf, ri_ordinal = ordinal, ri_value = bs,
       ri_malformed = malformed, ri_long_option_fragment = False\<rparr> }"

text \<open>What the walk updates: the list, the concatenation map, the warnings, and the overload
  value (\<open>None\<close> when \<open>overload_out\<close> is NULL).\<close>

record walk =
  wk_items :: "raw_item vec"
  wk_cm :: concat_map
  wk_warnings :: cf_warn_list
  wk_overload :: "byte option"

definition raw_path :: "nat \<Rightarrow> string" where
  "raw_path n = snprintf 40 (''raw_options['' @ dec_string n @ '']'')"

text \<open>The branch for a tag whose length byte is missing.\<close>

definition walk_missing_length :: "byte \<Rightarrow> source_field \<Rightarrow> u32 \<Rightarrow> walk \<Rightarrow> walk option" where
  "walk_missing_length code source_field ordinal st = do {
     warnings \<leftarrow> cf_dhcpv4_warn (wk_warnings st) ''opt_missing_length''
       ''option tag present but truncated before its length byte''
       (raw_path (length (vec_items (wk_items st)))) (Some ([code], 0)) 1;
     items \<leftarrow> raw_item_list_append (wk_items st) (ucast code) source_field ordinal None 0 True;
     cm \<leftarrow> concat_map_append (wk_cm st) (ucast code) None 0;
     Some (st\<lparr>wk_items := items, wk_cm := cm, wk_warnings := warnings\<rparr>) }"

text \<open>The branch for an option with its value at \<open>off\<close>.\<close>

definition walk_option ::
  "bytes \<Rightarrow> nat \<Rightarrow> byte \<Rightarrow> source_field \<Rightarrow> u32 \<Rightarrow> nat \<Rightarrow> bool \<Rightarrow> walk \<Rightarrow> walk option" where
  "walk_option buf off code source_field ordinal use_len malformed st = do {
     let path = raw_path (length (vec_items (wk_items st)));
     items \<leftarrow> raw_item_list_append (wk_items st) (ucast code) source_field ordinal
       (Some (buf, off)) use_len malformed;
     cm \<leftarrow> concat_map_append (wk_cm st) (ucast code) (Some (buf, off)) use_len;
     warnings \<leftarrow>
       (if malformed then cf_dhcpv4_warn (wk_warnings st) ''opt_len_overrun''
          ''option length exceeds remaining bytes in this field'' path (Some (buf, off)) use_len
        else Some (wk_warnings st));
     overload \<leftarrow>
       (if code = 52 \<and> wk_overload st \<noteq> None \<and> use_len \<ge> 1
        then do { v \<leftarrow> rd buf off; Some (Some v) } else Some (wk_overload st));
     Some (st\<lparr>wk_items := items, wk_cm := cm, wk_warnings := warnings, wk_overload := overload\<rparr>) }"

text \<open>The field is the \<open>field_len\<close> bytes of \<open>buf\<close> from \<open>base\<close> on.\<close>

function walk_loop ::
  "bytes \<Rightarrow> nat \<Rightarrow> nat \<Rightarrow> source_field \<Rightarrow> nat \<Rightarrow> u32 \<Rightarrow> walk \<Rightarrow> walk option" where
  "walk_loop buf base field_len source_field pos ordinal st =
    (if pos < field_len then
       case rd buf (base + pos) of None \<Rightarrow> None | Some code \<Rightarrow>
       if code = 0 then walk_loop buf base field_len source_field (pos + 1) ordinal st
       else if code = 255 then Some st
       else if pos + 2 > field_len then walk_missing_length code source_field ordinal st
       else case rd buf (base + (pos + 1)) of None \<Rightarrow> None | Some declared_len \<Rightarrow>
         let avail = field_len - (pos + 2);
             malformed = unat declared_len > avail;
             use_len = (if malformed then avail else unat declared_len)
         in case walk_option buf (base + (pos + 2)) code source_field ordinal use_len malformed st of
              None \<Rightarrow> None
            | Some st \<Rightarrow>
                if malformed then Some st
                else walk_loop buf base field_len source_field (pos + (2 + use_len)) (ordinal + 1) st
     else Some st)"
  by pat_completeness auto
termination by (relation "measure (\<lambda>(buf, base, field_len, sf, pos, ordinal, st). field_len - pos)") auto

declare walk_loop.simps [simp del]

definition walk_options_field ::
  "bytes \<Rightarrow> nat \<Rightarrow> nat \<Rightarrow> source_field \<Rightarrow> walk \<Rightarrow> walk option" where
  "walk_options_field buf base field_len source_field st =
    walk_loop buf base field_len source_field 0 0 st"

section \<open>The fixed header\<close>

record dhcpv4_header =
  h4_op :: u32
  h4_htype :: u32
  h4_hlen :: u32
  h4_hops :: u32
  h4_xid :: u32
  h4_secs :: u32
  h4_flags :: u32
  h4_ciaddr :: string
  h4_yiaddr :: string
  h4_siaddr :: string
  h4_giaddr :: string
  h4_chaddr_raw :: bytes
  h4_chaddr_mac :: string
  h4_sname_raw :: bytes
  h4_sname_text :: string
  h4_file_raw :: bytes
  h4_file_text :: string
  h4_magic_cookie_present :: bool

fun maybe_all_zero :: "bytes \<Rightarrow> nat \<Rightarrow> nat \<Rightarrow> bool option" where
  "maybe_all_zero buf off 0 = Some True"
| "maybe_all_zero buf off (Suc n) =
    do { b \<leftarrow> rd buf off; if b \<noteq> 0 then Some False else maybe_all_zero buf (off + 1) n }"

text \<open>The index of the first NUL among \<open>n\<close> bytes, counted from \<open>i\<close>; \<open>i + n\<close> when there is none.\<close>

fun find_nul :: "bytes \<Rightarrow> nat \<Rightarrow> nat \<Rightarrow> nat \<Rightarrow> nat option" where
  "find_nul buf off i 0 = Some i"
| "find_nul buf off i (Suc n) =
    do { b \<leftarrow> rd buf (off + i); if b = 0 then Some i else find_nul buf off (i + 1) n }"

text \<open>The inner option is \<open>None\<close> where the code returns NULL.\<close>

definition maybe_text_field :: "bytes \<Rightarrow> nat \<Rightarrow> nat \<Rightarrow> string option option" where
  "maybe_text_field buf off field_len = do {
     nul \<leftarrow> find_nul buf off 0 field_len;
     if nul = 0 then Some None
     else do {
       p \<leftarrow> cf_dhcpv4_is_printable buf off nul;
       if \<not> p then Some None
       else do {
         z \<leftarrow> (if nul < field_len then maybe_all_zero buf (off + nul) (field_len - nul) else Some True);
         if \<not> z then Some None
         else do { s \<leftarrow> cf_dhcpv4_dup_strn (Some (buf, off)) nul; Some (Some s) } } } }"

definition dhcpv4_build_header :: "bytes \<Rightarrow> dhcpv4_header option" where
  "dhcpv4_build_header payload = do {
     op \<leftarrow> cf_dhcpv4_get_u8 payload BOOTP_OP_OFF; op \<leftarrow> op;
     htype \<leftarrow> cf_dhcpv4_get_u8 payload BOOTP_HTYPE_OFF; htype \<leftarrow> htype;
     hlen \<leftarrow> cf_dhcpv4_get_u8 payload BOOTP_HLEN_OFF; hlen \<leftarrow> hlen;
     hops \<leftarrow> cf_dhcpv4_get_u8 payload BOOTP_HOPS_OFF; hops \<leftarrow> hops;
     xid \<leftarrow> cf_dhcpv4_get_be32 payload BOOTP_XID_OFF; xid \<leftarrow> xid;
     secs \<leftarrow> cf_dhcpv4_get_be16 payload BOOTP_SECS_OFF; secs \<leftarrow> secs;
     flags \<leftarrow> cf_dhcpv4_get_be16 payload BOOTP_FLAGS_OFF; flags \<leftarrow> flags;
     ciaddr \<leftarrow> cf_dhcpv4_format_ipv4 payload BOOTP_CIADDR_OFF;
     yiaddr \<leftarrow> cf_dhcpv4_format_ipv4 payload BOOTP_YIADDR_OFF;
     siaddr \<leftarrow> cf_dhcpv4_format_ipv4 payload BOOTP_SIADDR_OFF;
     giaddr \<leftarrow> cf_dhcpv4_format_ipv4 payload BOOTP_GIADDR_OFF;
     chaddr \<leftarrow> cf_dhcpv4_set_bytes (Some (payload, BOOTP_CHADDR_OFF)) BOOTP_CHADDR_LEN;
     mac \<leftarrow> (if htype = 1 \<and> hlen = 6 then do {
              m \<leftarrow> rd_bytes payload BOOTP_CHADDR_OFF 6;
              Some (cf_dhcpv4_dup_str (cf_format_mac m)) }
            else Some []);
     sname \<leftarrow> cf_dhcpv4_set_bytes (Some (payload, BOOTP_SNAME_OFF)) BOOTP_SNAME_LEN;
     sname_text \<leftarrow> maybe_text_field payload BOOTP_SNAME_OFF BOOTP_SNAME_LEN;
     file \<leftarrow> cf_dhcpv4_set_bytes (Some (payload, BOOTP_FILE_OFF)) BOOTP_FILE_LEN;
     file_text \<leftarrow> maybe_text_field payload BOOTP_FILE_OFF BOOTP_FILE_LEN;
     cookie \<leftarrow> (if length payload \<ge> BOOTP_OPTIONS_OFF then do {
                 c \<leftarrow> rd_bytes payload BOOTP_COOKIE_OFF BOOTP_COOKIE_LEN;
                 Some (c = DHCP_MAGIC_COOKIE) }
               else Some False);
     Some \<lparr>h4_op = ucast op, h4_htype = ucast htype, h4_hlen = ucast hlen, h4_hops = ucast hops,
       h4_xid = xid, h4_secs = ucast secs, h4_flags = ucast flags, h4_ciaddr = ciaddr,
       h4_yiaddr = yiaddr, h4_siaddr = siaddr, h4_giaddr = giaddr, h4_chaddr_raw = chaddr,
       h4_chaddr_mac = mac, h4_sname_raw = sname,
       h4_sname_text = (case sname_text of Some t \<Rightarrow> t | None \<Rightarrow> []), h4_file_raw = file,
       h4_file_text = (case file_text of Some t \<Rightarrow> t | None \<Rightarrow> []),
       h4_magic_cookie_present = cookie\<rparr> }"

section \<open>The interpretation\<close>

fun event_type_for_message_type :: "dhcpv4_message_type \<Rightarrow> string" where
  "event_type_for_message_type M4_DISCOVER = ''dhcpv4.discover.observed''"
| "event_type_for_message_type M4_OFFER = ''dhcpv4.offer.observed''"
| "event_type_for_message_type M4_REQUEST = ''dhcpv4.request.observed''"
| "event_type_for_message_type M4_DECLINE = ''dhcpv4.decline.observed''"
| "event_type_for_message_type M4_ACK = ''dhcpv4.ack.observed''"
| "event_type_for_message_type M4_NAK = ''dhcpv4.nak.observed''"
| "event_type_for_message_type M4_RELEASE = ''dhcpv4.release.observed''"
| "event_type_for_message_type M4_INFORM = ''dhcpv4.inform.observed''"
| "event_type_for_message_type M4_FORCERENEW = ''dhcpv4.forcerenew.observed''"
| "event_type_for_message_type M4_LEASEQUERY = ''dhcpv4.leasequery.observed''"
| "event_type_for_message_type M4_LEASEUNASSIGNED = ''dhcpv4.leaseunassigned.observed''"
| "event_type_for_message_type M4_LEASEUNKNOWN = ''dhcpv4.leaseunknown.observed''"
| "event_type_for_message_type M4_LEASEACTIVE = ''dhcpv4.leaseactive.observed''"
| "event_type_for_message_type M4_UNSPECIFIED = ''dhcpv4.packet.observed''"

record dhcpv4_interpretation =
  i4_event_type :: string
  i4_transaction_key :: string
  i4_normalized_client_key :: string
  i4_lease_address :: string
  i4_is_relayed :: bool
  i4_is_broadcast :: bool
  i4_is_renewal :: bool
  i4_is_rebind :: bool

text \<open>The \<open>%08x\<close> conversion of 32 bits.\<close>

definition hex_u32 :: "u32 \<Rightarrow> string" where
  "hex_u32 w = hex_byte (ucast (drop_bit 24 w)) @ hex_byte (ucast (drop_bit 16 w)) @
     hex_byte (ucast (drop_bit 8 w)) @ hex_byte (ucast w)"

definition build_interpretation ::
  "dhcpv4_header \<Rightarrow> dhcpv4_decoded \<Rightarrow> string \<Rightarrow> dhcpv4_interpretation option" where
  "build_interpretation hdr decoded event_type = do {
     let raw = d4_client_identifier_raw decoded;
     client_hex \<leftarrow> (if length raw > 0
       then do { s \<leftarrow> cf_dhcpv4_hex_encode (Some (raw, 0)) (length raw); Some (Some s) }
       else Some None);
     let has_mac = cstr (h4_chaddr_mac hdr) \<noteq> [];
     let client_key =
       (case client_hex of
          Some s \<Rightarrow> cf_dhcpv4_dup_str s
        | None \<Rightarrow> if has_mac then cf_dhcpv4_dup_str (h4_chaddr_mac hdr) else cf_dhcpv4_dup_str []);
     let xidhex = snprintf 9 (hex_u32 (h4_xid hdr));
     let suffix = (if has_mac then Some (cstr (h4_chaddr_mac hdr)) else client_hex);
     let txn_key =
       (case suffix of
          Some s \<Rightarrow> snprintf (length xidhex + 1 + length s + 1) (xidhex @ ''-'' @ s)
        | None \<Rightarrow> cf_dhcpv4_dup_str xidhex);
     let is_broadcast = h4_flags hdr AND 0x8000 \<noteq> 0;
     let unbound = (d4_message_type decoded = M4_REQUEST \<and>
       cstr (d4_server_identifier decoded) = [] \<and> cstr (d4_requested_ip_address decoded) = []);
     Some \<lparr>i4_event_type = cf_dhcpv4_dup_str event_type, i4_transaction_key = txn_key,
       i4_normalized_client_key = client_key,
       i4_lease_address =
         (if d4_message_type decoded = M4_OFFER \<or> d4_message_type decoded = M4_ACK
          then cf_dhcpv4_dup_str (h4_yiaddr hdr) else cf_dhcpv4_dup_str []),
       i4_is_relayed = (cstr (h4_giaddr hdr) \<noteq> ''0.0.0.0''), i4_is_broadcast = is_broadcast,
       i4_is_renewal = (unbound \<and> \<not> is_broadcast), i4_is_rebind = (unbound \<and> is_broadcast)\<rparr> }"

section \<open>The entry point\<close>

record dhcpv4_option =
  o4_code :: u32
  o4_name :: string
  o4_length :: u32
  o4_raw_value :: bytes
  o4_source_field :: source_field
  o4_ordinal :: u32
  o4_malformed :: bool
  o4_long_option_fragment :: bool

record dhcpv4_event =
  e4_header :: dhcpv4_header
  e4_raw_options :: "dhcpv4_option list"
  e4_decoded :: dhcpv4_decoded
  e4_interpretation :: dhcpv4_interpretation
  e4_parser_warnings :: "parser_warning list"
  e4_raw_dhcp_payload :: bytes
  e4_raw_payload_truncated :: bool

definition mark_fragments :: "raw_item list \<Rightarrow> raw_item list" where
  "mark_fragments items =
    map (\<lambda>it. if length (filter (\<lambda>j. ri_code j = ri_code it) items) > 1
             then it\<lparr>ri_long_option_fragment := True\<rparr> else it) items"

definition option_of_item :: "raw_item \<Rightarrow> dhcpv4_option option" where
  "option_of_item src = do {
     raw \<leftarrow> cf_dhcpv4_set_bytes (Some (ri_value src, 0)) (length (ri_value src));
     Some \<lparr>o4_code = ri_code src, o4_name = cf_dhcpv4_dup_str (cf_dhcpv4_option_name (ri_code src)),
       o4_length = of_nat (length (ri_value src)), o4_raw_value = raw,
       o4_source_field = ri_source_field src, o4_ordinal = ri_ordinal src,
       o4_malformed = ri_malformed src, o4_long_option_fragment = ri_long_option_fragment src\<rparr> }"

fun options_of_items :: "raw_item list \<Rightarrow> dhcpv4_option list option" where
  "options_of_items [] = Some []"
| "options_of_items (it # its) =
    do { opt \<leftarrow> option_of_item it; opts \<leftarrow> options_of_items its; Some (opt # opts) }"

definition walk_init :: walk where
  "walk_init = \<lparr>wk_items = vec_init, wk_cm = concat_map_init,
     wk_warnings = cf_dhcpv4_warn_list_init, wk_overload = Some 0\<rparr>"

text \<open>The three fields: the overload value is written by the walk over the options field and
  read after it; the other two walks get a NULL pointer.\<close>

definition walk_fields :: "bytes \<Rightarrow> bool \<Rightarrow> walk option" where
  "walk_fields payload cookie = do {
     st \<leftarrow> (if length payload > BOOTP_OPTIONS_OFF \<and> cookie
           then walk_options_field payload BOOTP_OPTIONS_OFF (length payload - BOOTP_OPTIONS_OFF)
                  SF_OPTIONS walk_init
           else Some walk_init);
     overload_value \<leftarrow> wk_overload st;
     let st = st\<lparr>wk_overload := None\<rparr>;
     st \<leftarrow> (if overload_value AND 0x1 \<noteq> 0
           then walk_options_field payload BOOTP_FILE_OFF BOOTP_FILE_LEN SF_FILE st else Some st);
     (if overload_value AND 0x2 \<noteq> 0
      then walk_options_field payload BOOTP_SNAME_OFF BOOTP_SNAME_LEN SF_SNAME st else Some st) }"

text \<open>The result is the event with its event type; the inner option is \<open>None\<close> where the code
  returns NULL.\<close>

definition cf_dhcpv4_parse :: "bytes option \<Rightarrow> (dhcpv4_event \<times> string) option option" where
  "cf_dhcpv4_parse p =
    (case p of None \<Rightarrow> Some None
     | Some payload \<Rightarrow>
       if length payload < BOOTP_FIXED_LEN then Some None
       else do {
         hdr \<leftarrow> dhcpv4_build_header payload;
         st \<leftarrow> walk_fields payload (h4_magic_cookie_present hdr);
         opts \<leftarrow> options_of_items (mark_fragments (vec_items (wk_items st)));
         (decoded, warnings) \<leftarrow> cf_dhcpv4_build_decoded (wk_cm st) (wk_warnings st);
         let event_type = event_type_for_message_type (d4_message_type decoded);
         interp \<leftarrow> build_interpretation hdr decoded event_type;
         raw \<leftarrow> cf_dhcpv4_set_bytes (Some (payload, 0)) (length payload);
         Some (Some (\<lparr>e4_header = hdr, e4_raw_options = opts, e4_decoded = decoded,
           e4_interpretation = interp,
           e4_parser_warnings = fst (cf_dhcpv4_warn_list_take warnings),
           e4_raw_dhcp_payload = raw, e4_raw_payload_truncated = False\<rparr>, event_type)) })"

end
