(* ===== verification/Dhcpv4_Walk.thy ===== *)
theory Dhcpv4_Walk
  imports Dhcpv4
begin

text \<open>
  The option walk of \<^verbatim>\<open>cf_dhcpv4.c\<close> against a reference parser that reads a field as a list
  of bytes. \<open>scan4\<close> says what a field holds; the walk, which works with positions, checked reads,
  growable arrays and the concatenation map, computes exactly that, and so never leaves the
  payload.
\<close>

section \<open>The reference parser\<close>

type_synonym wire_option = "byte \<times> bytes \<times> option_status"

fun scan4_tag :: "byte \<Rightarrow> bytes \<Rightarrow> wire_option \<times> bytes" where
  "scan4_tag c [] = ((c, [], Truncated), [])"
| "scan4_tag c (n # bs) =
    (if unat n > length bs then ((c, bs, Overrun), [])
     else ((c, take (unat n) bs, Complete), drop (unat n) bs))"

lemma length_scan_tag: "length (snd (scan4_tag c bs)) \<le> length bs"
  by (cases bs) auto

function scan4 :: "bytes \<Rightarrow> wire_option list" where
  "scan4 [] = []"
| "scan4 (c # bs) =
    (if c = 0 then scan4 bs else if c = 255 then []
     else let (opt, rest) = scan4_tag c bs in opt # scan4 rest)"
  by pat_completeness auto
termination
  by (relation "measure length") (use length_scan_tag in \<open>auto simp: less_Suc_eq_le, (metis snd_conv)?\<close>)

text \<open>What the walk makes of it: items with their ordinals, warnings with their paths, and the
  value of the last non-empty option 52.\<close>

fun items_of :: "source_field \<Rightarrow> u32 \<Rightarrow> wire_option list \<Rightarrow> raw_item list" where
  "items_of sf n [] = []"
| "items_of sf n ((c, v, s) # os) =
    \<lparr>ri_code = ucast c, ri_source_field = sf, ri_ordinal = n, ri_value = v,
     ri_malformed = (s \<noteq> Complete), ri_long_option_fragment = False\<rparr> # items_of sf (n + 1) os"

definition warning_of :: "nat \<Rightarrow> wire_option \<Rightarrow> parser_warning list" where
  "warning_of i = (\<lambda>(c, v, s). case s of
     Complete \<Rightarrow> []
   | Overrun \<Rightarrow> [\<lparr>pw_code = cf_dup_str ''opt_len_overrun'',
       pw_message = cf_dup_str ''option length exceeds remaining bytes in this field'',
       pw_field_path = cf_dup_str (raw_path i), pw_raw_context = clip v\<rparr>]
   | Truncated \<Rightarrow> [\<lparr>pw_code = cf_dup_str ''opt_missing_length'',
       pw_message = cf_dup_str ''option tag present but truncated before its length byte'',
       pw_field_path = cf_dup_str (raw_path i), pw_raw_context = [c]\<rparr>])"

fun warnings_of :: "nat \<Rightarrow> wire_option list \<Rightarrow> parser_warning list" where
  "warnings_of i [] = []"
| "warnings_of i (opt # os) = warning_of i opt @ warnings_of (i + 1) os"

fun overload_of :: "byte option \<Rightarrow> wire_option list \<Rightarrow> byte option" where
  "overload_of ov [] = ov"
| "overload_of ov ((c, v, s) # os) =
    overload_of (if c = 52 \<and> ov \<noteq> None \<and> v \<noteq> [] then Some (hd v) else ov) os"

definition frags_of :: "wire_option list \<Rightarrow> (u32 \<times> bytes) list" where
  "frags_of os = map (\<lambda>(c, v, s). (ucast c, v)) os"

lemma items_of_Cons: "items_of sf n (opt # os) = items_of sf n [opt] @ items_of sf (n + 1) os"
  by (cases opt) simp

lemma overload_of_Cons: "overload_of ov (opt # os) = overload_of (overload_of ov [opt]) os"
  by (cases opt) simp

lemma frags_of_Cons: "frags_of ((c, v, s) # os) = (ucast c, v) # frags_of os"
  by (simp add: frags_of_def)

lemma length_items_of [simp]: "length (items_of sf n os) = length os"
  by (induction sf n os rule: items_of.induct) auto

section \<open>The walk computes what the reference parser finds\<close>

text \<open>A walk state that has taken in the options with these items, fragments and warnings.\<close>

definition walked ::
  "walk \<Rightarrow> raw_item list \<Rightarrow> (u32 \<times> bytes) list \<Rightarrow> parser_warning list \<Rightarrow> byte option \<Rightarrow> bool" where
  "walked st its frs ws ov \<longleftrightarrow> vec_ok (wk_items st) \<and> vec_items (wk_items st) = its \<and>
     cm.stored (wk_cm st) frs \<and> wl_items (wk_warnings st) = ws \<and> wk_overload st = ov"

lemma walked_init: "walked walk_init [] [] [] (Some 0)"
  by (simp add: walked_def walk_init_def cm.stored_init dhcp_mirror cf_warn_list_init_def)

lemma walk_option_spec:
  assumes st: "walked st its frs ws ov" and len: "off + n \<le> length buf"
  shows "\<exists>st'. walk_option buf off c sf ord n m st = Some st' \<and>
    walked st'
      (its @ items_of sf ord [(c, take n (drop off buf), if m then Overrun else Complete)])
      (frs @ [(ucast c, take n (drop off buf))])
      (ws @ warning_of (length its) (c, take n (drop off buf), if m then Overrun else Complete))
      (overload_of ov [(c, take n (drop off buf), Complete)])"
proof -
  obtain cm' where cm': "concat_map_append (wk_cm st) (ucast c) (Some (buf, off)) n = Some cm'"
    "cm.stored cm' (frs @ [(ucast c, take n (drop off buf))])"
    using cm.stored_append [OF _ len, of "wk_cm st" frs "ucast c"] st by (auto simp: walked_def)
  have hd: "0 < n \<Longrightarrow> hd (take n (drop off buf)) = buf ! off" using len by (simp add: hd_drop_conv_nth)
  have ne: "take n (drop off buf) \<noteq> [] \<longleftrightarrow> 0 < n" using len by auto
  have v: "(if 0 < n then rd_bytes buf off n else Some []) = Some (take n (drop off buf))"
    using len by simp
  have off: "0 < n \<Longrightarrow> off < length buf" using len by simp
  show ?thesis
    using st len cm' v hd ne off
    by (auto simp: walk_option_def walked_def raw_item_list_append_def dhcp_mirror warning_of_def
        Let_def bind_eq_Some_conv Suc_le_eq)
qed

lemma walk_missing_spec:
  assumes st: "walked st its frs ws ov"
  shows "\<exists>st'. walk_missing_length c sf ord st = Some st' \<and>
    walked st' (its @ items_of sf ord [(c, [], Truncated)]) (frs @ [(ucast c, [])])
      (ws @ warning_of (length its) (c, [], Truncated)) ov"
proof -
  obtain cm' where cm': "concat_map_append (wk_cm st) (ucast c) None 0 = Some cm'"
    "cm.stored cm' (frs @ [(ucast c, [])])"
    using cm.stored_append_empty [of "wk_cm st" frs "ucast c" None] st by (auto simp: walked_def)
  then show ?thesis
    using st by (auto simp: walk_missing_length_def walked_def raw_item_list_append_def dhcp_mirror
        warning_of_def clip_def)
qed

lemma walk_loop_spec:
  assumes "walked st its frs ws ov" "base + flen \<le> length buf" "pos \<le> flen"
  shows "\<exists>st'. walk_loop buf base flen sf pos ord st = Some st' \<and>
    (let os = scan4 (take (flen - pos) (drop (base + pos) buf)) in
     walked st' (its @ items_of sf ord os) (frs @ frags_of os)
       (ws @ warnings_of (length its) os) (overload_of ov os))"
  using assms
proof (induction buf base flen sf pos ord st arbitrary: its frs ws ov rule: walk_loop.induct)
  case (1 buf base flen sf pos ord st)
  show ?case
  proof (cases "pos < flen")
    case False
    then show ?thesis using "1.prems" by (subst walk_loop.simps) (simp add: frags_of_def)
  next
    case pos: True
    let ?c = "buf ! (base + pos)"
    have r: "rd buf (base + pos) = Some ?c" using pos "1.prems" by simp
    have f: "take (flen - pos) (drop (base + pos) buf) = ?c # take (flen - (pos + 1)) (drop (base + (pos + 1)) buf)"
      using pos "1.prems" take_Suc_drop [of "base + pos" buf "flen - (pos + 1)"]
        Suc_diff_Suc [OF pos] by simp
    consider (pad) "?c = 0" | (fin) "?c = 255" | (missing) "?c \<noteq> 0" "?c \<noteq> 255" "pos + 1 = flen"
      | (opt) "?c \<noteq> 0" "?c \<noteq> 255" "pos + 2 \<le> flen" using pos by force
    then show ?thesis
    proof cases
      case pad
      have "\<exists>st'. walk_loop buf base flen sf (pos + 1) ord st = Some st' \<and>
        (let os = scan4 (take (flen - (pos + 1)) (drop (base + (pos + 1)) buf)) in
         walked st' (its @ items_of sf ord os) (frs @ frags_of os)
           (ws @ warnings_of (length its) os) (overload_of ov os))"
        by (rule "1.IH"(1) [OF pos r pad "1.prems"(1,2)]) (use pos in simp)
      then show ?thesis
        by (subst walk_loop.simps) (simp only: pos r f pad if_True option.case scan4.simps simp_thms)
    next
      case fin
      then show ?thesis using "1.prems"(1) pos r f by (subst walk_loop.simps) (simp add: frags_of_def)
    next
      case missing
      obtain st' where "walk_missing_length ?c sf ord st = Some st'"
        "walked st' (its @ items_of sf ord [(?c, [], Truncated)]) (frs @ [(ucast ?c, [])])
          (ws @ warning_of (length its) (?c, [], Truncated)) ov"
        using walk_missing_spec [OF "1.prems"(1)] by blast
      moreover have "flen - (pos + 1) = 0" using missing by simp
      ultimately show ?thesis
        using missing pos r f by (subst walk_loop.simps) (simp add: frags_of_def Let_def)
    next
      case opt
      let ?n = "buf ! (base + (pos + 1))" let ?a = "flen - (pos + 2)"
      let ?m = "unat ?n > ?a" let ?u = "if ?m then ?a else unat ?n"
      let ?v = "take ?u (drop (base + (pos + 2)) buf)"
      have r2: "rd buf (base + (pos + 1)) = Some ?n" using opt "1.prems" by simp
      have "base + (pos + 2) + ?u \<le> length buf" using opt "1.prems" by auto
      from walk_option_spec [OF "1.prems"(1) this, of ?c sf ord ?m]
      obtain st' where st': "walk_option buf (base + (pos + 2)) ?c sf ord ?u ?m st = Some st'"
        "walked st' (its @ items_of sf ord [(?c, ?v, if ?m then Overrun else Complete)])
          (frs @ [(ucast ?c, ?v)]) (ws @ warning_of (length its) (?c, ?v, if ?m then Overrun else Complete))
          (overload_of ov [(?c, ?v, Complete)])" by blast
      let ?bs = "take ?a (drop (base + (pos + 2)) buf)"
      have f2: "take (flen - (pos + 1)) (drop (base + (pos + 1)) buf) = ?n # ?bs"
        using opt "1.prems" take_Suc_drop [of "base + (pos + 1)" buf ?a] by (simp add: Suc_diff_Suc)
      have lbs: "length ?bs = ?a" using opt "1.prems" by simp
      have step: "walk_loop buf base flen sf pos ord st =
          (if ?m then Some st' else walk_loop buf base flen sf (pos + (2 + ?u)) (ord + 1) st')"
        using opt(1,2) st'(1) not_less [THEN iffD2, OF opt(3)]
        by (subst walk_loop.simps) (simp only: pos r r2 if_True if_False option.case Let_def)
      show ?thesis
      proof (cases ?m)
        case True
        then show ?thesis
          using step st'(2) opt f f2 lbs by (simp add: frags_of_def Let_def)
      next
        case False
        have sc: "scan4 (?c # ?n # ?bs) = (?c, take (unat ?n) ?bs, Complete) # scan4 (drop (unat ?n) ?bs)"
          using opt False lbs by simp
        have tv: "take (unat ?n) ?bs = ?v" using False by (simp add: min_absorb2)
        have dv: "drop (unat ?n) ?bs = take (flen - (pos + (2 + ?u))) (drop (base + (pos + (2 + ?u))) buf)"
          using False by (simp add: drop_take ac_simps)
        define os where "os = scan4 (take (flen - (pos + (2 + ?u))) (drop (base + (pos + (2 + ?u))) buf))"
        have sc': "scan4 (take (flen - pos) (drop (base + pos) buf)) = (?c, ?v, Complete) # os"
          unfolding f f2 sc tv dv os_def ..
        have "\<exists>st''. walk_loop buf base flen sf (pos + (2 + ?u)) (ord + 1) st' = Some st'' \<and>
          (let os = os in
           walked st'' ((its @ items_of sf ord [(?c, ?v, Complete)]) @ items_of sf (ord + 1) os)
             ((frs @ [(ucast ?c, ?v)]) @ frags_of os)
             ((ws @ warning_of (length its) (?c, ?v, Complete)) @
               warnings_of (length (its @ items_of sf ord [(?c, ?v, Complete)])) os)
             (overload_of (overload_of ov [(?c, ?v, Complete)]) os))"
          unfolding os_def using opt False "1.prems"(2) st'
          by (intro "1.IH"(2) [OF pos r _ _ _ r2 refl refl refl]) auto
        then show ?thesis
          unfolding step sc' Let_def items_of_Cons [of _ _ _ os] overload_of_Cons [of _ _ os]
            frags_of_Cons warnings_of.simps
          using False by (simp only: if_False append_assoc append.simps length_append length_items_of
              list.size One_nat_def add_0)
      qed
    qed
  qed
qed


lemma overload_of_None [simp]: "overload_of None os = None"
  by (induction os) auto

lemma overload_of_Some: "\<exists>v. overload_of (Some u) os = Some v"
proof (induction os arbitrary: u)
  case (Cons opt os)
  then show ?case by (cases opt) auto
qed simp

lemma warnings_of_append:
  "warnings_of i (xs @ ys) = warnings_of i xs @ warnings_of (i + length xs) ys"
  by (induction xs arbitrary: i) auto

lemma frags_of_append: "frags_of (xs @ ys) = frags_of xs @ frags_of ys"
  by (simp add: frags_of_def)

section \<open>The options of a packet\<close>

text \<open>The options of the three fields; the file and sname fields count only when the bits of
  option 52 say so.\<close>

definition packet_options ::
  "bytes \<Rightarrow> bool \<Rightarrow> wire_option list \<times> wire_option list \<times> wire_option list" where
  "packet_options payload cookie =
    (let os = (if cookie then scan4 (drop 240 payload) else []);
         ov = the (overload_of (Some 0) os)
     in (os, if ov AND 0x1 \<noteq> 0 then scan4 (take 128 (drop 108 payload)) else [],
         if ov AND 0x2 \<noteq> 0 then scan4 (take 64 (drop 44 payload)) else []))"

lemma walk_options_field_spec:
  assumes "walked st its frs ws ov" "base + flen \<le> length buf"
    "os = scan4 (take flen (drop base buf))"
  shows "\<exists>st'. walk_options_field buf base flen sf st = Some st' \<and>
    walked st' (its @ items_of sf 0 os) (frs @ frags_of os)
      (ws @ warnings_of (length its) os) (overload_of ov os)"
  using walk_loop_spec [OF assms(1,2), of 0 sf 0] assms(3) by (simp add: walk_options_field_def Let_def)

lemma walk_fields_spec:
  assumes len: "236 \<le> length payload" and cookie: "cookie \<Longrightarrow> 240 \<le> length payload"
    and po: "packet_options payload cookie = (os, fs, ss)"
  shows "\<exists>st. walk_fields payload cookie = Some st \<and>
    walked st (items_of SF_OPTIONS 0 os @ items_of SF_FILE 0 fs @ items_of SF_SNAME 0 ss)
      (frags_of (os @ fs @ ss)) (warnings_of 0 (os @ fs @ ss)) None"
proof -
  obtain v where v: "overload_of (Some 0) os = Some v" using overload_of_Some by blast
  have os: "os = (if cookie then scan4 (drop 240 payload) else [])"
    and fs: "fs = (if v AND 0x1 \<noteq> 0 then scan4 (take 128 (drop 108 payload)) else [])"
    and ss: "ss = (if v AND 0x2 \<noteq> 0 then scan4 (take 64 (drop 44 payload)) else [])"
    using po v unfolding packet_options_def Let_def by auto
  obtain st1 where st1: "(if length payload > 240 \<and> cookie
       then walk_options_field payload 240 (length payload - 240) SF_OPTIONS walk_init
       else Some walk_init) = Some st1"
    "walked st1 (items_of SF_OPTIONS 0 os) (frags_of os) (warnings_of 0 os) (Some v)"
  proof (cases "length payload > 240 \<and> cookie")
    case True
    then show thesis
      using walk_options_field_spec [OF walked_init, of 240 "length payload - 240" payload os SF_OPTIONS]
        os v that by auto
  next
    case False
    then have "os = []" using cookie os by (cases "length payload = 240") auto
    then show thesis using False v walked_init by (intro that [of walk_init]) (auto simp: frags_of_def)
  qed
  let ?st1 = "st1\<lparr>wk_overload := None\<rparr>"
  have w1: "walked ?st1 (items_of SF_OPTIONS 0 os) (frags_of os) (warnings_of 0 os) None"
    using st1(2) by (simp add: walked_def)
  obtain st2 where st2: "(if v AND 0x1 \<noteq> 0 then walk_options_field payload 108 128 SF_FILE ?st1
       else Some ?st1) = Some st2"
    "walked st2 (items_of SF_OPTIONS 0 os @ items_of SF_FILE 0 fs) (frags_of (os @ fs))
      (warnings_of 0 (os @ fs)) None"
    using walk_options_field_spec [OF w1, of 108 128 payload fs SF_FILE] w1 len fs
    by (cases "v AND 0x1 \<noteq> 0") (auto simp: warnings_of_append frags_of_append frags_of_def)
  obtain st3 where st3: "(if v AND 0x2 \<noteq> 0 then walk_options_field payload 44 64 SF_SNAME st2
       else Some st2) = Some st3"
    "walked st3 ((items_of SF_OPTIONS 0 os @ items_of SF_FILE 0 fs) @ items_of SF_SNAME 0 ss)
      (frags_of ((os @ fs) @ ss)) (warnings_of 0 ((os @ fs) @ ss)) None"
    using walk_options_field_spec [OF st2(2), of 44 64 payload ss SF_SNAME] st2(2) len ss
    by (cases "v AND 0x2 \<noteq> 0")
       (auto simp: warnings_of_append frags_of_append frags_of_def [of "[]"] add.assoc)
  have "wk_overload st1 = Some v" using st1(2) by (simp add: walked_def)
  then have "walk_fields payload cookie = Some st3"
    unfolding walk_fields_def st1(1) by (simp add: st2(1) st3(1))
  with st3(2) show ?thesis by simp
qed

end
