(* ===== verification/Dhcpv4_Safe.thy ===== *)
theory Dhcpv4_Safe
  imports Dhcpv4_Walk
begin

text \<open>
  Every decoder of \<^verbatim>\<open>cf_dhcpv4_decode.c\<close> returns on every option data without leaving it, and
  what it builds is well typed: \<open>decoded_wf\<close> collects the ranges and the agreement of lengths,
  flags and warnings that the consumers of the message rely on. The entry point inherits both.
\<close>

section \<open>Well-typed messages\<close>

definition route_wf :: "dhcpv4_route \<Rightarrow> bool" where
  "route_wf r \<longleftrightarrow> rt_destination_prefix_length r \<le> 32 \<and>
     length (rt_raw_value r) = 5 + (unat (rt_destination_prefix_length r) + 7) div 8"

definition vendor_sub_wf :: "dhcpv4_vendor_suboption \<Rightarrow> bool" where
  "vendor_sub_wf s \<longleftrightarrow> vs_code s < 256 \<and> unat (vs_length s) = length (vs_raw_value s) \<and>
     length (vs_raw_value s) < 256"

definition vendor_wf :: "dhcpv4_vendor_info \<Rightarrow> bool" where
  "vendor_wf v \<longleftrightarrow> list_all vendor_sub_wf (vi_suboptions v) \<and> warnings_ok (vi_parser_warnings v) \<and>
     (vi_parser_warnings v \<noteq> [] \<longleftrightarrow> vi_decode_attempted v \<and> \<not> vi_decode_success v) \<and>
     (vi_decode_success v \<longrightarrow> vi_decode_attempted v)"

definition relay_sub_wf :: "dhcpv4_relay_suboption \<Rightarrow> bool" where
  "relay_sub_wf s \<longleftrightarrow> rs_code s < 256 \<and> unat (rs_length s) = length (rs_raw_value s) \<and>
     length (rs_raw_value s) < 256"

definition relay_wf :: "dhcpv4_relay_suboption list \<Rightarrow> bool" where
  "relay_wf ss \<longleftrightarrow> list_all relay_sub_wf ss \<and> list_all (\<lambda>s. \<not> rs_malformed s) (butlast ss)"

definition fqdn_wf :: "dhcpv4_client_fqdn \<Rightarrow> bool" where
  "fqdn_wf f \<longleftrightarrow> fq_flags f < 256 \<and> fq_rcode1 f < 256 \<and> fq_rcode2 f < 256"

definition decoded_wf :: "dhcpv4_decoded \<Rightarrow> bool" where
  "decoded_wf d \<longleftrightarrow>
     (d4_message_type_name d = [] \<longleftrightarrow> d4_message_type d = M4_UNSPECIFIED) \<and>
     d4_option_overload d < 256 \<and> d4_max_dhcp_message_size d < 65536 \<and>
     list_all (\<lambda>c. c < 256) (d4_parameter_request_list d) \<and>
     list_all (\<lambda>n. n \<noteq> []) (d4_domain_search d) \<and>
     list_all route_wf (d4_classless_static_routes d) \<and>
     list_all route_wf (d4_microsoft_classless_static_routes d) \<and>
     pred_option vendor_wf (d4_vendor_specific_information d) \<and>
     pred_option (\<lambda>r. relay_wf (ra_suboptions r)) (d4_relay_agent_information d) \<and>
     pred_option fqdn_wf (d4_client_fqdn d)"

definition decoding_ok :: "(dhcpv4_decoded \<Rightarrow> bool) \<Rightarrow> cf_warn_list \<Rightarrow> decoding \<Rightarrow> bool" where
  "decoding_ok Q w0 = (\<lambda>(d, w). Q d \<and> warn_grows w0 w)"

section \<open>Steps that keep a predicate\<close>

text \<open>\<open>keeps P f\<close>: on a state that satisfies \<open>P\<close> the step \<open>f\<close> returns one that does.\<close>

definition keeps :: "('a \<Rightarrow> bool) \<Rightarrow> ('a \<Rightarrow> 'a option) \<Rightarrow> bool" where
  "keeps P f \<longleftrightarrow> (\<forall>s. P s \<longrightarrow> (\<exists>s'. f s = Some s' \<and> P s'))"

lemma keeps_bind: "keeps P f \<Longrightarrow> keeps P g \<Longrightarrow> keeps P (\<lambda>s. Option.bind (f s) g)"
  unfolding keeps_def by (metis Option.bind.simps(2))

lemma keeps_on_option: "(\<And>data. keeps P (f data)) \<Longrightarrow> keeps P (on_option cm code f)"
  by (auto simp: keeps_def on_option_def)

lemma keepsD: "keeps P f \<Longrightarrow> P s \<Longrightarrow> \<exists>s'. f s = Some s' \<and> P s'"
  by (simp add: keeps_def)

section \<open>Scalars, strings and addresses\<close>

lemma decode_ipv4_scalar_total:
  "\<exists>s w'. decode_ipv4_scalar data p w = Some (s, w') \<and> warn_grows w w'"
  by (auto simp: decode_ipv4_scalar_def dhcp_mirror)

lemma ipv4_items_total: "(i + n) * 4 \<le> length data \<Longrightarrow> \<exists>ss. ipv4_items data i n = Some ss \<and> length ss = n"
proof (induction n arbitrary: i)
  case (Suc n)
  from Suc.prems have "\<exists>ss. ipv4_items data (i + 1) n = Some ss \<and> length ss = n" by (intro Suc.IH) simp
  with Suc.prems show ?case by auto
qed simp

lemma decode_ipv4_list_total:
  "\<exists>ss w'. decode_ipv4_list data p w = Some (ss, w') \<and> length ss = length data div 4 \<and>
     warn_grows w w'"
proof -
  have "(0 + length data div 4) * 4 \<le> length data" by simp
  from ipv4_items_total [OF this] show ?thesis by (auto simp: decode_ipv4_list_def dhcp_mirror Let_def)
qed

lemma decode_u32_total:
  "\<exists>v w'. decode_u32 data p w = Some (v, w') \<and> warn_grows w w'"
  by (auto simp: decode_u32_def dhcp_mirror rd_def)

lemma u16_less: "(push_bit 8 (ucast (a::byte)) OR ucast (b::byte) :: u32) < 65536"
proof -
  have "take_bit 16 (push_bit 8 (ucast a) OR ucast b :: u32) = push_bit 8 (ucast a) OR ucast b"
    by (rule bit_word_eqI) (auto simp: bit_simps)
  moreover have "take_bit 16 w < (65536 :: u32)" for w :: u32
    using take_bit_nat_less_exp [of 16 "unat w"] by (simp add: word_less_nat_alt unsigned_take_bit_eq)
  ultimately show ?thesis by metis
qed

lemma decode_u16_total:
  "\<exists>v w'. decode_u16_as_u32 data p w = Some (v, w') \<and> pred_option (\<lambda>v. v < 65536) v \<and>
     warn_grows w w'"
  by (auto simp: decode_u16_as_u32_def dhcp_mirror u16_less rd_def)

lemma decode_client_id_total:
  assumes "\<And>d v. Q d \<Longrightarrow> Q (d\<lparr>d4_client_identifier_raw := v\<rparr>)"
    "\<And>d v. Q d \<Longrightarrow> Q (d\<lparr>d4_client_identifier_text := v\<rparr>)" "Q d"
  shows "\<exists>d'. decode_client_id data d = Some d' \<and> Q d'"
  using assms by (cases data) (simp_all add: decode_client_id_def dhcp_mirror Let_def)

section \<open>Domain names\<close>

lemma name_loop_total:
  assumes "base + len \<le> length data"
  shows "\<exists>e n' a'. name_loop data base len cursor n jumps hp a = Some (e, n', a')"
  using assms
proof (induction data base len cursor n jumps hp a rule: name_loop.induct)
  case (1 data base len cursor n jumps hp a)
  show ?case
  proof (cases "cursor < len")
    case True
    let ?b = "data ! (base + cursor)"
    have r: "rd data (base + cursor) = Some ?b" using True "1.prems" by simp
    note IH = "1.IH" [OF _ r, unfolded not_le not_less]
    show ?thesis
    proof (cases "?b AND 0xc0 = 0xc0")
      case ptr: True
      show ?thesis
      proof (cases "cursor + 1 < len")
        case c: True
        let ?b2 = "data ! (base + (cursor + 1))"
        have r2: "rd data (base + (cursor + 1)) = Some ?b2" using c "1.prems" by simp
        show ?thesis
          using True ptr c IH(1) [OF True _ ptr c r2 refl refl] "1.prems"
          by (subst name_loop.simps) (auto simp: r r2 Let_def)
      next
        case False
        then show ?thesis using True ptr by (subst name_loop.simps) (auto simp: r)
      qed
    next
      case lab: False
      show ?thesis
      proof (cases "cursor + 1 + unat ?b \<le> len")
        case c: True
        let ?l = "take (unat ?b) (drop (base + (cursor + 1)) data)"
        have r2: "rd_bytes data (base + (cursor + 1)) (unat ?b) = Some ?l"
          using c "1.prems" by simp
        show ?thesis
          using True lab c IH(2) [OF True _ lab _ c r2] "1.prems"
          by (subst name_loop.simps) (auto simp: r r2 simp del: add_Suc_right)
      next
        case False
        then show ?thesis using True lab by (subst name_loop.simps) (auto simp: r)
      qed
    qed
  next
    case False
    then show ?thesis by (subst name_loop.simps) auto
  qed
qed

lemma name_list_loop_total:
  assumes "base + len \<le> length data" "vec_ok names" "list_all (\<lambda>n. n \<noteq> []) (vec_items names)"
  shows "\<exists>ns w'. name_list_loop data base len p pos names w = Some (ns, w') \<and>
    list_all (\<lambda>n. n \<noteq> []) (vec_items ns) \<and> warn_grows w w'"
  using assms
proof (induction data base len p pos names w rule: name_list_loop.induct)
  case (1 data base len p pos names w)
  show ?case
  proof (cases "pos < len")
    case True
    let ?b = "data ! (base + pos)"
    have r: "rd data (base + pos) = Some ?b" using True "1.prems" by simp
    show ?thesis
    proof (cases "?b = 0")
      case z: True
      show ?thesis
        using True r z "1.IH"(1) [OF True r z "1.prems"] by (subst name_list_loop.simps) simp
    next
      case nz: False
      obtain e n a where nl: "name_loop data base len pos [] 0 False pos = Some (e, n, a)"
        using name_loop_total "1.prems" by blast
      have ctx: "base + pos + (len - pos) \<le> length data" using True "1.prems" by simp
      let ?names = "if n \<noteq> [] then pushed 4 names n else names"
      have push: "(if n \<noteq> [] then vec_push 4 names n else Some names) = Some ?names"
        using "1.prems" by simp
      have ok: "vec_ok ?names" "list_all (\<lambda>n. n \<noteq> []) (vec_items ?names)" using "1.prems" by auto
      show ?thesis
      proof (cases e)
        case True
        then show ?thesis
          using \<open>pos < len\<close> r nz nl ctx "1.prems"
          by (subst name_list_loop.simps) (simp add: dhcp_mirror)
      next
        case e: False
        show ?thesis
        proof (cases "a \<le> pos")
          case True
          then show ?thesis
            using \<open>pos < len\<close> r nz nl e push ok "1.prems"
            by (subst name_list_loop.simps) (simp only: if_True if_False option.case prod.case, simp)
        next
          case False
          have "\<exists>ns w'. name_list_loop data base len p a ?names w = Some (ns, w') \<and>
              list_all (\<lambda>n. n \<noteq> []) (vec_items ns) \<and> warn_grows w w'"
            by (rule "1.IH"(2) [OF True r nz nl refl refl e push False "1.prems"(1) ok])
          then show ?thesis
            using \<open>pos < len\<close> nz e False push
            by (subst name_list_loop.simps) (simp only: r nl if_True if_False option.case prod.case)
        qed
      qed
    qed
  next
    case False
    then show ?thesis using "1.prems" by (subst name_list_loop.simps) simp
  qed
qed

lemma decode_domain_name_list_total:
  assumes "base + len \<le> length data"
  shows "\<exists>ns w'. decode_domain_name_list data base len w p = Some (ns, w') \<and>
    list_all (\<lambda>n. n \<noteq> []) ns \<and> warn_grows w w'"
  using name_list_loop_total [OF assms vec_init_simps(2), of p 0 w]
  by (auto simp: decode_domain_name_list_def)


section \<open>Routes\<close>

lemma dest_bytes_le: "p \<le> (32::byte) \<Longrightarrow> (unat p + 7) div 8 \<le> 4"
  by (simp add: word_le_nat_alt)

lemma decode_route_total:
  assumes "p \<le> 32" "pos + 1 + (unat p + 7) div 8 + 4 \<le> length data"
  shows "\<exists>r. decode_route data pos p ((unat p + 7) div 8) = Some r \<and> route_wf r"
proof -
  have "(unat p + 7) div 8 \<le> 4" using assms(1) by (rule dest_bytes_le)
  then show ?thesis
    using assms by (auto simp: decode_route_def dhcp_mirror route_wf_def memcpy_at_def word_le_nat_alt)
qed

lemma route_loop_total:
  assumes "vec_ok arr" "list_all route_wf (vec_items arr)"
  shows "\<exists>a w'. route_loop data p pos arr w = Some (a, w') \<and> list_all route_wf (vec_items a) \<and>
    warn_grows w w'"
  using assms
proof (induction data p pos arr w rule: route_loop.induct)
  case (1 data p pos arr w)
  show ?case
  proof (cases "pos < length data")
    case pos: True
    let ?p = "data ! pos" let ?n = "(unat ?p + 7) div 8"
    have r: "rd data pos = Some ?p" using pos by simp
    show ?thesis
    proof (cases "?p > 32 \<or> pos + 1 + ?n + 4 > length data")
      case True
      then show ?thesis
        using pos "1.prems" by (subst route_loop.simps) (auto simp: r dhcp_mirror Let_def)
    next
      case False
      then have f: "\<not> ?p > 32" "\<not> pos + 1 + ?n + 4 > length data" by auto
      from decode_route_total [of ?p pos data] f obtain rt where
        rt: "decode_route data pos ?p ?n = Some rt" "route_wf rt" by (auto simp: not_less)
      have "\<exists>a w'. route_loop data p (pos + (1 + ?n + 4)) (pushed 4 arr rt) w = Some (a, w') \<and>
          list_all route_wf (vec_items a) \<and> warn_grows w w'"
        using "1.prems" rt(2) by (intro "1.IH" [OF pos r refl refl f rt(1)]) auto
      then show ?thesis
        using pos f "1.prems" rt(1)
        by (subst route_loop.simps)
           (simp only: r if_True if_False option.case Let_def vec_push_pushed zero_less_numeral)
    qed
  next
    case False
    then show ?thesis using "1.prems" by (subst route_loop.simps) simp
  qed
qed

lemma decode_classless_routes_total:
  "\<exists>rs w'. decode_classless_routes data w p = Some (rs, w') \<and> list_all route_wf rs \<and> warn_grows w w'"
  using route_loop_total [OF vec_init_simps(2), of data p 0 w]
  by (auto simp: decode_classless_routes_def)

section \<open>Vendor suboptions\<close>

lemma printable_or_hex_total:
  "off + n \<le> length data \<Longrightarrow> printable_or_hex data off n = Some (sub_text (take n (drop off data)))"
  by (simp add: printable_or_hex_def dhcp_mirror sub_text_def)

lemma vendor_loop_total:
  assumes "vec_ok arr" "list_all vendor_sub_wf (vec_items arr)" "wl_items w = []"
  shows "\<exists>ok a w'. vendor_loop data pos arr w = Some (ok, a, w') \<and>
    list_all vendor_sub_wf (vec_items a) \<and> warnings_ok (wl_items w') \<and> (wl_items w' = [] \<longleftrightarrow> ok)"
  using assms
proof (induction data pos arr w rule: vendor_loop.induct)
  case (1 data pos arr w)
  show ?case
  proof (cases "pos < length data")
    case pos: True
    show ?thesis
    proof (cases "pos + 2 > length data")
      case True
      then show ?thesis
        using pos "1.prems" by (subst vendor_loop.simps) (simp add: dhcp_mirror, blast)
    next
      case two: False
      let ?c = "data ! pos" let ?n = "data ! (pos + 1)"
      have r: "rd data pos = Some ?c" "rd data (pos + 1) = Some ?n" using two by simp_all
      show ?thesis
      proof (cases "pos + 2 + unat ?n > length data")
        case True
        then show ?thesis
          using pos two "1.prems"
          by (subst vendor_loop.simps) (simp add: r dhcp_mirror del: add_2_eq_Suc', blast)
      next
        case False
        let ?v = "take (unat ?n) (drop (pos + 2) data)"
        let ?s = "\<lparr>vs_code = ucast ?c, vs_length = ucast ?n, vs_raw_value = ?v,
                   vs_decoded_value = sub_text ?v\<rparr> :: dhcpv4_vendor_suboption"
        have v: "cf_dhcpv4_set_bytes (Some (data, pos + 2)) (unat ?n) = Some ?v"
          using False by (simp add: dhcp_mirror)
        have t: "printable_or_hex data (pos + 2) (unat ?n) = Some (sub_text ?v)"
          using False printable_or_hex_total [of "pos + 2" "unat ?n" data] by simp
        have push: "vec_push 4 arr ?s = Some (pushed 4 arr ?s)" using "1.prems" by simp
        have "vendor_sub_wf ?s" using False unat_byte_less [of ?n] by (simp add: vendor_sub_wf_def)
        then have "\<exists>ok a w'. vendor_loop data (pos + (2 + unat ?n)) (pushed 4 arr ?s) w = Some (ok, a, w') \<and>
            list_all vendor_sub_wf (vec_items a) \<and> warnings_ok (wl_items w') \<and> (wl_items w' = [] \<longleftrightarrow> ok)"
          using "1.prems" by (intro "1.IH" [OF pos two r False v t push]) auto
        then show ?thesis
          using pos two False
          by (subst vendor_loop.simps) (simp only: r v t push if_True if_False option.case)
      qed
    qed
  next
    case False
    then show ?thesis using "1.prems" by (subst vendor_loop.simps) auto
  qed
qed

lemma decode_vendor_specific_total:
  assumes "\<And>d v. Q d \<Longrightarrow> vendor_wf v \<Longrightarrow> Q (d\<lparr>d4_vendor_specific_information := Some v\<rparr>)" "Q d"
  shows "\<exists>d'. decode_vendor_specific data vc d = Some d' \<and> Q d'"
proof -
  obtain ok a w' where "vendor_loop data 0 vec_init cf_dhcpv4_warn_list_init = Some (ok, a, w')"
    "list_all vendor_sub_wf (vec_items a)" "warnings_ok (wl_items w')" "wl_items w' = [] \<longleftrightarrow> ok"
    using vendor_loop_total [OF vec_init_simps(2), of cf_dhcpv4_warn_list_init data 0]
    by (auto simp: dhcp_mirror cf_warn_list_init_def)
  then show ?thesis
    using assms
    by (simp add: decode_vendor_specific_def dhcp_mirror vendor_wf_def Let_def
        cf_warn_list_take_def split: option.split)
qed

section \<open>Relay agent suboptions\<close>

lemma relay_wf_snoc:
  "list_all relay_sub_wf ss \<Longrightarrow> list_all (\<lambda>s. \<not> rs_malformed s) ss \<Longrightarrow> relay_sub_wf s \<Longrightarrow> relay_wf (ss @ [s])"
  by (simp add: relay_wf_def)

lemma relay_wf_clean:
  "list_all relay_sub_wf ss \<Longrightarrow> list_all (\<lambda>s. \<not> rs_malformed s) ss \<Longrightarrow> relay_wf ss"
  unfolding relay_wf_def by (auto simp: list_all_iff dest: in_set_butlastD)

lemma relay_loop_total:
  assumes "vec_ok arr" "list_all relay_sub_wf (vec_items arr)"
    "list_all (\<lambda>s. \<not> rs_malformed s) (vec_items arr)"
  shows "\<exists>a r w'. relay_loop data pos arr rai w = Some (a, r, w') \<and> relay_wf (vec_items a) \<and>
    warn_grows w w'"
  using assms
proof (induction data pos arr rai w rule: relay_loop.induct)
  case (1 data pos arr rai w)
  show ?case
  proof (cases "pos < length data")
    case pos: True
    show ?thesis
    proof (cases "pos + 2 > length data")
      case True
      then show ?thesis
        using pos "1.prems" relay_wf_snoc [OF "1.prems"(2,3), of "\<lparr>rs_code = ucast (data ! pos),
          rs_name = cf_dhcpv4_dup_str (relay_suboption_name (ucast (data ! pos))), rs_length = 0,
          rs_raw_value = [], rs_decoded_value = [], rs_malformed = True\<rparr>"]
        by (subst relay_loop.simps) (auto simp: dhcp_mirror relay_sub_wf_def [of "dhcpv4_relay_suboption_ext _ _ _ _ _ _ _"])
    next
      case two: False
      let ?c = "data ! pos" let ?n = "data ! (pos + 1)"
      let ?m = "pos + 2 + unat ?n > length data"
      let ?u = "if ?m then length data - (pos + 2) else unat ?n"
      let ?v = "take ?u (drop (pos + 2) data)"
      let ?w = "if ?m then warned w ''relay_subopt_len_overrun''
        ''relay agent suboption length exceeds remaining bytes'' (relay_path (length (vec_items arr)))
        (clip (take ?u (drop (pos + 2) data))) else w"
      let ?s = "\<lparr>rs_code = ucast ?c, rs_name = cf_dhcpv4_dup_str (relay_suboption_name (ucast ?c)),
        rs_length = of_nat ?u, rs_raw_value = ?v, rs_decoded_value = sub_text ?v,
        rs_malformed = ?m\<rparr> :: dhcpv4_relay_suboption"
      have r: "rd data pos = Some ?c" "rd data (pos + 1) = Some ?n" using two by simp_all
      have u: "pos + 2 + ?u \<le> length data" "?u < 256" using two unat_byte_less [of ?n] by auto
      have v: "cf_dhcpv4_set_bytes (Some (data, pos + 2)) ?u = Some ?v"
        using u(1) by (simp add: dhcp_mirror del: add_2_eq_Suc')
      have t: "printable_or_hex data (pos + 2) ?u = Some (sub_text ?v)"
        using u(1) by (rule printable_or_hex_total)
      have wn: "(if ?m then cf_dhcpv4_warn w ''relay_subopt_len_overrun''
          ''relay agent suboption length exceeds remaining bytes'' (relay_path (length (vec_items arr)))
          (Some (data, pos + 2)) ?u else Some w) = Some ?w"
        using u(1) by (simp add: dhcp_mirror del: add_2_eq_Suc')
      have wok: "warn_grows w ?w" by simp
      have push: "vec_push 4 arr ?s = Some (pushed 4 arr ?s)" using "1.prems" by simp
      have s: "relay_sub_wf ?s" using u by (auto simp: relay_sub_wf_def unat_of_nat take_bit_nat_eq_self)
      have step: "relay_loop data pos arr rai w =
          (if ?m then Some (pushed 4 arr ?s, relay_ids ?c (sub_text ?v) rai, ?w)
           else relay_loop data (pos + (2 + unat ?n)) (pushed 4 arr ?s) (relay_ids ?c (sub_text ?v) rai) ?w)"
        using pos two by (subst relay_loop.simps) (simp only: r v t wn push if_True if_False option.case Let_def)
      show ?thesis
      proof (cases ?m)
        case True
        then show ?thesis unfolding step using "1.prems" s wok by (simp only: if_True) (simp add: relay_wf_snoc)
      next
        case False
        have "\<exists>a r w'. relay_loop data (pos + (2 + unat ?n)) (pushed 4 arr ?s)
              (relay_ids ?c (sub_text ?v) rai) ?w = Some (a, r, w') \<and> relay_wf (vec_items a) \<and>
            warn_grows ?w w'"
          using "1.prems" s False by (intro "1.IH" [OF pos two r refl refl v t wn push]) auto
        then show ?thesis
          unfolding step using False by (simp only: if_False)
      qed
    qed
  next
    case False
    then show ?thesis using "1.prems" by (subst relay_loop.simps) (simp add: relay_wf_clean)
  qed
qed

lemma decode_relay_total:
  assumes "\<And>d r. Q d \<Longrightarrow> relay_wf (ra_suboptions r) \<Longrightarrow> Q (d\<lparr>d4_relay_agent_information := Some r\<rparr>)" "Q d"
  shows "\<exists>d' w'. decode_relay_agent_info data d w = Some (d', w') \<and> Q d' \<and> warn_grows w w'"
proof -
  obtain a r w' where "relay_loop data 0 vec_init
      \<lparr>ra_raw_value = data, ra_suboptions = [], ra_circuit_id = [], ra_remote_id = [], ra_subscriber_id = []\<rparr> w
        = Some (a, r, w')" "relay_wf (vec_items a)" "warn_grows w w'"
    using relay_loop_total [OF vec_init_simps(2), of data 0 "\<lparr>ra_raw_value = data,
      ra_suboptions = [], ra_circuit_id = [], ra_remote_id = [], ra_subscriber_id = []\<rparr>" w] by auto
  then show ?thesis using assms by (simp add: decode_relay_agent_info_def dhcp_mirror)
qed

lemma decode_fqdn_total:
  assumes "\<And>d f. Q d \<Longrightarrow> fqdn_wf f \<Longrightarrow> Q (d\<lparr>d4_client_fqdn := Some f\<rparr>)" "Q d"
  shows "\<exists>d' w'. decode_fqdn data d w = Some (d', w') \<and> Q d' \<and> warn_grows w w'"
proof (cases "length data < 3")
  case True
  then show ?thesis using assms by (simp add: decode_fqdn_def dhcp_mirror)
next
  case False
  then obtain ns w' where n: "decode_domain_name_list data 3 (length data - 3) w
      ''decoded.client_fqdn.domain_name'' = Some (ns, w')" "warn_grows w w'"
    using decode_domain_name_list_total [of 3 "length data - 3" data w "''decoded.client_fqdn.domain_name''"]
    by (auto simp: not_less)
  have "rd data 0 = Some (data ! 0)" "rd data 1 = Some (data ! 1)" "rd data 2 = Some (data ! 2)"
    using False by (auto simp: rd_def)
  then show ?thesis
    using False n assms
    by (simp add: decode_fqdn_def dhcp_mirror fqdn_wf_def Let_def)
qed


section \<open>The decoded options\<close>

lemma keeps_bindI:
  "\<exists>s. x = Some s \<and> P s \<Longrightarrow> keeps P g \<Longrightarrow> \<exists>s. Option.bind x g = Some s \<and> P s"
  by (auto simp: keeps_def)

lemma keepsI:
  assumes "\<And>d w. Q d \<Longrightarrow> \<exists>d' w'. f (d, w) = Some (d', w') \<and> Q d' \<and> warn_grows w w'"
  shows "keeps (decoding_ok Q w0) f"
  unfolding keeps_def decoding_ok_def
proof (intro allI impI)
  fix s assume "case s of (d, w) \<Rightarrow> Q d \<and> warn_grows w0 w"
  then obtain d w where s: "s = (d, w)" "Q d" "warn_grows w0 w" by (cases s) auto
  with assms [of d w] warn_grows_trans [of w0 w]
  show "\<exists>s'. f s = Some s' \<and> (case s' of (d, w) \<Rightarrow> Q d \<and> warn_grows w0 w)" by auto
qed

lemma keeps_opt_ipv4:
  assumes "\<And>v d. Q d \<Longrightarrow> Q (upd v d)"
  shows "keeps (decoding_ok Q w0) (opt_ipv4 p upd data)"
proof (rule keepsI)
  fix d w assume "Q d"
  with assms decode_ipv4_scalar_total [of data p w]
  show "\<exists>d' w'. opt_ipv4 p upd data (d, w) = Some (d', w') \<and> Q d' \<and> warn_grows w w'"
    by (auto simp: opt_ipv4_def split: option.splits)
qed

lemma keeps_opt_ipv4_list:
  assumes "\<And>v d. Q d \<Longrightarrow> Q (upd v d)"
  shows "keeps (decoding_ok Q w0) (opt_ipv4_list p upd data)"
proof (rule keepsI)
  fix d w assume "Q d"
  with assms decode_ipv4_list_total [of data p w]
  show "\<exists>d' w'. opt_ipv4_list p upd data (d, w) = Some (d', w') \<and> Q d' \<and> warn_grows w w'"
    by (auto simp: opt_ipv4_list_def)
qed

lemma keeps_opt_u32:
  assumes "\<And>v d. Q d \<Longrightarrow> Q (upd v d)"
  shows "keeps (decoding_ok Q w0) (opt_u32 p upd data)"
proof (rule keepsI)
  fix d w assume "Q d"
  with assms decode_u32_total [of data p w]
  show "\<exists>d' w'. opt_u32 p upd data (d, w) = Some (d', w') \<and> Q d' \<and> warn_grows w w'"
    by (auto simp: opt_u32_def split: option.splits)
qed

lemma keeps_opt_u16:
  assumes "\<And>v d. Q d \<Longrightarrow> v < 65536 \<Longrightarrow> Q (upd v d)"
  shows "keeps (decoding_ok Q w0) (opt_u16 p upd data)"
proof (rule keepsI)
  fix d w assume "Q d"
  with assms decode_u16_total [of data p w]
  show "\<exists>d' w'. opt_u16 p upd data (d, w) = Some (d', w') \<and> Q d' \<and> warn_grows w w'"
    by (auto simp: opt_u16_def split: option.splits)
qed

lemma keeps_opt_string:
  assumes "\<And>v d. Q d \<Longrightarrow> Q (upd v d)"
  shows "keeps (decoding_ok Q w0) (opt_string upd data)"
  by (rule keepsI) (use assms in \<open>simp add: opt_string_def dhcp_mirror\<close>)

lemma keeps_opt_routes:
  assumes "\<And>v d. Q d \<Longrightarrow> list_all route_wf v \<Longrightarrow> Q (upd v d)"
  shows "keeps (decoding_ok Q w0) (opt_routes p upd data)"
proof (rule keepsI)
  fix d w assume "Q d"
  with assms decode_classless_routes_total [of data w p]
  show "\<exists>d' w'. opt_routes p upd data (d, w) = Some (d', w') \<and> Q d' \<and> warn_grows w w'"
    by (auto simp: opt_routes_def)
qed

text \<open>A predicate on the decoded message that every field but the message type may change
  under, as long as the new value is well typed.\<close>

locale decoded_invariant =
  fixes Q :: "dhcpv4_decoded \<Rightarrow> bool"
  assumes subnet_mask: "Q d \<Longrightarrow> Q (d\<lparr>d4_subnet_mask := v0\<rparr>)"
    and routers: "Q d \<Longrightarrow> Q (d\<lparr>d4_routers := v1\<rparr>)"
    and domain_name_servers: "Q d \<Longrightarrow> Q (d\<lparr>d4_domain_name_servers := v2\<rparr>)"
    and host_name: "Q d \<Longrightarrow> Q (d\<lparr>d4_host_name := v3\<rparr>)"
    and domain_name: "Q d \<Longrightarrow> Q (d\<lparr>d4_domain_name := v4\<rparr>)"
    and requested_ip_address: "Q d \<Longrightarrow> Q (d\<lparr>d4_requested_ip_address := v5\<rparr>)"
    and ip_address_lease_time_seconds: "Q d \<Longrightarrow> Q (d\<lparr>d4_ip_address_lease_time_seconds := v6\<rparr>)"
    and server_identifier: "Q d \<Longrightarrow> Q (d\<lparr>d4_server_identifier := v7\<rparr>)"
    and message: "Q d \<Longrightarrow> Q (d\<lparr>d4_message := v8\<rparr>)"
    and renewal_time_t1_seconds: "Q d \<Longrightarrow> Q (d\<lparr>d4_renewal_time_t1_seconds := v9\<rparr>)"
    and rebinding_time_t2_seconds: "Q d \<Longrightarrow> Q (d\<lparr>d4_rebinding_time_t2_seconds := v10\<rparr>)"
    and vendor_class_identifier: "Q d \<Longrightarrow> Q (d\<lparr>d4_vendor_class_identifier := v11\<rparr>)"
    and client_identifier_raw: "Q d \<Longrightarrow> Q (d\<lparr>d4_client_identifier_raw := v12\<rparr>)"
    and client_identifier_text: "Q d \<Longrightarrow> Q (d\<lparr>d4_client_identifier_text := v13\<rparr>)"
    and tftp_server_name: "Q d \<Longrightarrow> Q (d\<lparr>d4_tftp_server_name := v14\<rparr>)"
    and bootfile_name: "Q d \<Longrightarrow> Q (d\<lparr>d4_bootfile_name := v15\<rparr>)"
    and proxy_autodiscovery: "Q d \<Longrightarrow> Q (d\<lparr>d4_proxy_autodiscovery := v16\<rparr>)"
    and option_overload: "Q d \<Longrightarrow> ov < 256 \<Longrightarrow> Q (d\<lparr>d4_option_overload := ov\<rparr>)"
    and parameter_request_list: "Q d \<Longrightarrow> list_all (\<lambda>c. c < 256) prl \<Longrightarrow> Q (d\<lparr>d4_parameter_request_list := prl\<rparr>)"
    and max_dhcp_message_size: "Q d \<Longrightarrow> sz < 65536 \<Longrightarrow> Q (d\<lparr>d4_max_dhcp_message_size := sz\<rparr>)"
    and vendor_specific_information: "Q d \<Longrightarrow> vendor_wf vi \<Longrightarrow> Q (d\<lparr>d4_vendor_specific_information := Some vi\<rparr>)"
    and client_fqdn: "Q d \<Longrightarrow> fqdn_wf fq \<Longrightarrow> Q (d\<lparr>d4_client_fqdn := Some fq\<rparr>)"
    and relay_agent_information: "Q d \<Longrightarrow> relay_wf (ra_suboptions ra) \<Longrightarrow>
        Q (d\<lparr>d4_relay_agent_information := Some ra\<rparr>)"
    and domain_search: "Q d \<Longrightarrow> list_all (\<lambda>n. n \<noteq> []) ds \<Longrightarrow> Q (d\<lparr>d4_domain_search := ds\<rparr>)"
    and classless_static_routes: "Q d \<Longrightarrow> list_all route_wf cr \<Longrightarrow> Q (d\<lparr>d4_classless_static_routes := cr\<rparr>)"
    and microsoft_classless_static_routes: "Q d \<Longrightarrow> list_all route_wf mr \<Longrightarrow>
        Q (d\<lparr>d4_microsoft_classless_static_routes := mr\<rparr>)"
begin

lemma keeps_overload: "keeps (decoding_ok Q w0) (opt_overload data)"
  by (rule keepsI, cases data) (simp_all add: opt_overload_def dhcp_mirror option_overload)

lemma keeps_prl: "keeps (decoding_ok Q w0) (opt_parameter_request_list data)"
  by (rule keepsI) (simp add: opt_parameter_request_list_def parameter_request_list list_all_iff)

lemma keeps_client_id: "keeps (decoding_ok Q w0) (opt_client_id data)"
proof (rule keepsI)
  fix d w assume "Q d"
  from decode_client_id_total [OF client_identifier_raw client_identifier_text this, of data]
  show "\<exists>d' w'. opt_client_id data (d, w) = Some (d', w') \<and> Q d' \<and> warn_grows w w'"
    by (auto simp: opt_client_id_def)
qed

lemma keeps_vendor: "keeps (decoding_ok Q w0) (opt_vendor_specific data)"
proof (rule keepsI)
  fix d w assume "Q d"
  from decode_vendor_specific_total [OF vendor_specific_information this, of data
    "if cstr (d4_vendor_class_identifier d) \<noteq> [] then Some (d4_vendor_class_identifier d) else None"]
  show "\<exists>d' w'. opt_vendor_specific data (d, w) = Some (d', w') \<and> Q d' \<and> warn_grows w w'"
    by (auto simp: opt_vendor_specific_def)
qed

lemma keeps_fqdn: "keeps (decoding_ok Q w0) (\<lambda>(d, w). decode_fqdn data d w)"
proof (rule keepsI)
  fix d w assume "Q d"
  from decode_fqdn_total [OF client_fqdn this, of data w]
  show "\<exists>d' w'. (\<lambda>(d, w). decode_fqdn data d w) (d, w) = Some (d', w') \<and> Q d' \<and> warn_grows w w'"
    by auto
qed

lemma keeps_relay: "keeps (decoding_ok Q w0) (\<lambda>(d, w). decode_relay_agent_info data d w)"
proof (rule keepsI)
  fix d w assume "Q d"
  from decode_relay_total [OF relay_agent_information this, of data w]
  show "\<exists>d' w'. (\<lambda>(d, w). decode_relay_agent_info data d w) (d, w) = Some (d', w') \<and> Q d' \<and> warn_grows w w'"
    by auto
qed

lemma keeps_domain_search: "keeps (decoding_ok Q w0) (opt_domain_search data)"
proof (rule keepsI)
  fix d w assume "Q d"
  with domain_search decode_domain_name_list_total [of 0 "length data" data w "''decoded.domain_search''"]
  show "\<exists>d' w'. opt_domain_search data (d, w) = Some (d', w') \<and> Q d' \<and> warn_grows w w'"
    by (auto simp: opt_domain_search_def)
qed

lemmas keeps_steps = keeps_bind keeps_on_option keeps_opt_ipv4 keeps_opt_ipv4_list keeps_opt_string
  keeps_opt_u32 keeps_opt_u16 keeps_opt_routes keeps_overload keeps_prl keeps_client_id keeps_vendor
  keeps_fqdn keeps_relay keeps_domain_search

lemma build_decoded_inv:
  assumes "\<exists>s. on_option cm 53 opt_message_type (decoded_init, w) = Some s \<and> decoding_ok Q w s"
  shows "\<exists>s. cf_dhcpv4_build_decoded cm w = Some s \<and> decoding_ok Q w s"
  unfolding cf_dhcpv4_build_decoded_def
  by (intro keeps_bindI assms keeps_steps; rule subnet_mask routers domain_name_servers host_name domain_name requested_ip_address
      ip_address_lease_time_seconds server_identifier message renewal_time_t1_seconds rebinding_time_t2_seconds vendor_class_identifier
      client_identifier_raw client_identifier_text tftp_server_name bootfile_name proxy_autodiscovery max_dhcp_message_size classless_static_routes microsoft_classless_static_routes; assumption)

end

lemma message_type_name_iff: "message_type_name v = [] \<longleftrightarrow> message_type_enum v = M4_UNSPECIFIED"
  by (simp add: message_type_name_def message_type_enum_def)

lemma dup_message_type_name: "cf_dup_str (message_type_name v) = message_type_name v"
  by (simp add: message_type_name_def cf_dup_str_def cstr_def)

lemma decoded_wf_init: "decoded_wf decoded_init"
  by (simp add: decoded_wf_def decoded_init_def)

definition message_type_of :: "bytes \<Rightarrow> dhcpv4_message_type" where
  "message_type_of data = (case data of [] \<Rightarrow> M4_UNSPECIFIED | v # _ \<Rightarrow> message_type_enum v)"

lemma on_message_type:
  "\<exists>s. on_option cm 53 opt_message_type (decoded_init, w) = Some s \<and>
     decoding_ok (\<lambda>d. decoded_wf d \<and> d4_message_type d =
       (if concat_map_has cm 53 then message_type_of (concat_map_get cm 53) else M4_UNSPECIFIED)) w s"
proof (cases "concat_map_get cm 53")
  case Nil
  then show ?thesis
    using decoded_wf_init
    by (auto simp: on_option_def opt_message_type_def dhcp_mirror decoding_ok_def decoded_init_def
        message_type_of_def)
next
  case (Cons v vs)
  then show ?thesis
    using decoded_wf_init message_type_name_iff [of v]
    by (auto simp: on_option_def opt_message_type_def dhcp_mirror decoding_ok_def Let_def decoded_wf_def
        dup_message_type_name decoded_init_def message_type_of_def)
qed

interpretation typed: decoded_invariant "\<lambda>d. decoded_wf d \<and> d4_message_type d = mt" for mt
  by unfold_locales (simp_all add: decoded_wf_def)

lemma build_decoded_typed:
  "\<exists>d w'. cf_dhcpv4_build_decoded cm w = Some (d, w') \<and> decoded_wf d \<and> warn_grows w w' \<and>
     d4_message_type d =
       (if concat_map_has cm 53 then message_type_of (concat_map_get cm 53) else M4_UNSPECIFIED)"
  using typed.build_decoded_inv [OF on_message_type, of cm w] by (auto simp: decoding_ok_def)

section \<open>The header\<close>

lemma find_nul_total:
  "off + i + n \<le> length buf \<Longrightarrow> \<exists>k. find_nul buf off i n = Some k \<and> i \<le> k \<and> k \<le> i + n"
proof (induction n arbitrary: i)
  case (Suc n)
  have "\<exists>k. find_nul buf off (i + 1) n = Some k \<and> i + 1 \<le> k \<and> k \<le> i + 1 + n"
    using Suc.prems by (intro Suc.IH) simp
  with Suc.prems show ?case by auto
qed simp

lemma maybe_all_zero_total: "off + n \<le> length buf \<Longrightarrow> \<exists>z. maybe_all_zero buf off n = Some z"
  by (induction n arbitrary: off) auto

lemma maybe_text_field_total:
  assumes "off + n \<le> length buf"
  shows "\<exists>t. maybe_text_field buf off n = Some t"
proof -
  obtain k where k: "find_nul buf off 0 n = Some k" "k \<le> n"
    using find_nul_total [of off 0 n buf] assms by auto
  obtain z where "maybe_all_zero buf (off + k) (n - k) = Some z"
    using maybe_all_zero_total [of "off + k" "n - k" buf] k assms by auto
  with k assms show ?thesis by (simp add: maybe_text_field_def dhcp_mirror)
qed

definition header_wf :: "dhcpv4_header \<Rightarrow> bool" where
  "header_wf h \<longleftrightarrow> h4_op h < 256 \<and> h4_htype h < 256 \<and> h4_hlen h < 256 \<and> h4_hops h < 256 \<and>
     h4_secs h < 65536 \<and> h4_flags h < 65536 \<and> length (h4_chaddr_raw h) = 16 \<and>
     length (h4_sname_raw h) = 64 \<and> length (h4_file_raw h) = 128 \<and>
     (h4_chaddr_mac h \<noteq> [] \<longrightarrow> h4_htype h = 1 \<and> h4_hlen h = 6)"

lemma build_header_total:
  assumes len: "236 \<le> length payload"
  shows "\<exists>h. dhcpv4_build_header payload = Some h \<and> header_wf h \<and>
    (h4_magic_cookie_present h \<longleftrightarrow> 240 \<le> length payload \<and> take 4 (drop 236 payload) = DHCP_MAGIC_COOKIE)"
proof -
  obtain t1 where t1: "maybe_text_field payload 44 64 = Some t1"
    using maybe_text_field_total [of 44 64 payload] len by auto
  obtain t2 where t2: "maybe_text_field payload 108 128 = Some t2"
    using maybe_text_field_total [of 108 128 payload] len by auto
  have ne: "payload \<noteq> []" using len by auto
  show ?thesis
    using len ne by (auto simp: dhcpv4_build_header_def dhcp_mirror buf_simps t1 t2 header_wf_def)
qed

section \<open>The entry point\<close>

definition option_wf :: "dhcpv4_option \<Rightarrow> bool" where
  "option_wf opt \<longleftrightarrow> 0 < o4_code opt \<and> o4_code opt < 255 \<and>
     unat (o4_length opt) = length (o4_raw_value opt) \<and> length (o4_raw_value opt) < 256 \<and>
     o4_source_field opt \<noteq> SF_UNSPECIFIED"

definition event_wf :: "dhcpv4_event \<Rightarrow> bool" where
  "event_wf ev \<longleftrightarrow> header_wf (e4_header ev) \<and> list_all option_wf (e4_raw_options ev) \<and>
     decoded_wf (e4_decoded ev) \<and> warnings_ok (e4_parser_warnings ev) \<and>
     length (filter o4_malformed (e4_raw_options ev)) \<le> length (e4_parser_warnings ev) \<and>
     i4_event_type (e4_interpretation ev) =
       event_type_for_message_type (d4_message_type (e4_decoded ev)) \<and>
     \<not> (i4_is_renewal (e4_interpretation ev) \<and> i4_is_rebind (e4_interpretation ev))"

definition opt_msg :: "raw_item list \<Rightarrow> raw_item \<Rightarrow> dhcpv4_option" where
  "opt_msg its it = \<lparr>o4_code = ri_code it, o4_name = cf_dup_str (cf_dhcpv4_option_name (ri_code it)),
     o4_length = of_nat (length (ri_value it)), o4_raw_value = ri_value it,
     o4_source_field = ri_source_field it, o4_ordinal = ri_ordinal it,
     o4_malformed = ri_malformed it,
     o4_long_option_fragment = (length (filter (\<lambda>j. ri_code j = ri_code it) its) > 1)\<rparr>"

lemma option_of_item_eq:
  "option_of_item it = Some \<lparr>o4_code = ri_code it, o4_name = cf_dup_str (cf_dhcpv4_option_name (ri_code it)),
     o4_length = of_nat (length (ri_value it)), o4_raw_value = ri_value it,
     o4_source_field = ri_source_field it, o4_ordinal = ri_ordinal it,
     o4_malformed = ri_malformed it, o4_long_option_fragment = ri_long_option_fragment it\<rparr>"
  by (simp add: option_of_item_def dhcp_mirror)

lemma options_of_items_eq:
  "options_of_items its = Some (map (\<lambda>it. the (option_of_item it)) its)"
  by (induction its) (simp_all add: option_of_item_eq)

lemma options_of_marked:
  assumes "list_all (\<lambda>it. \<not> ri_long_option_fragment it) its"
  shows "options_of_items (mark_fragments its) = Some (map (opt_msg its) its)"
  using assms
  by (simp add: options_of_items_eq mark_fragments_def option_of_item_eq opt_msg_def list_all_iff)

lemma not_fragment_items_of: "list_all (\<lambda>it. \<not> ri_long_option_fragment it) (items_of sf n os)"
  by (induction sf n os rule: items_of.induct) auto

end
