(* ===== verification/Dhcpv4_Parse.thy ===== *)
theory Dhcpv4_Parse
  imports Dhcpv4_Safe
begin

text \<open>
  The DHCPv4 parser as a whole: it returns on every buffer, its raw options are those of the
  reference parser over the three option fields, each option is decoded from the concatenation
  of its fragments, and what it returns is well typed.
\<close>

section \<open>The options are those of the reference parser\<close>

text \<open>The decoder sees the map only through \<open>has\<close> and \<open>get\<close>.\<close>

lemma build_decoded_cong:
  assumes "\<And>c. concat_map_has cm c = concat_map_has cm' c" "\<And>c. concat_map_get cm c = concat_map_get cm' c"
  shows "cf_dhcpv4_build_decoded cm w = cf_dhcpv4_build_decoded cm' w"
proof -
  have "on_option cm = on_option cm'" by (simp add: fun_eq_iff on_option_def assms)
  then show ?thesis by (simp add: cf_dhcpv4_build_decoded_def)
qed

text \<open>A map that holds given fragments.\<close>

definition store_of :: "(u32 \<times> bytes) list \<Rightarrow> concat_map" where
  "store_of frs = \<lparr>vec_items = map (\<lambda>c. \<lparr>ct_code = c, ct_data = fragments c frs\<rparr>) (remdups (map fst frs)),
     vec_cap = length frs\<rparr>"

lemma get_loop_map:
  "get_loop (map (\<lambda>c. \<lparr>ct_code = c, ct_data = f c\<rparr>) cs) d = (if d \<in> set cs then f d else [])"
  by (induction cs) auto

lemma fragments_absent: "c \<notin> fst ` set frs \<Longrightarrow> fragments c frs = []"
  by (induction frs) (auto simp: fragments_def)

lemma store_of_has: "concat_map_has (store_of frs) c \<longleftrightarrow> c \<in> fst ` set frs"
  by (auto simp: concat_map_has_def store_of_def has_loop_iff image_image)

lemma store_of_get: "concat_map_get (store_of frs) c = fragments c frs"
  by (auto simp: concat_map_get_def store_of_def get_loop_map fragments_absent image_iff)

lemma stored_decoded:
  assumes "cm.stored cm frs"
  shows "cf_dhcpv4_build_decoded cm w = cf_dhcpv4_build_decoded (store_of frs) w"
  by (rule build_decoded_cong) (use assms in \<open>auto simp: cm.stored_def store_of_has store_of_get\<close>)

text \<open>The cookie, the options of the packet and their raw items.\<close>

definition has_cookie :: "bytes \<Rightarrow> bool" where
  "has_cookie payload \<longleftrightarrow> 240 \<le> length payload \<and> take 4 (drop 236 payload) = DHCP_MAGIC_COOKIE"

definition packet_items :: "bytes \<Rightarrow> raw_item list" where
  "packet_items payload = (case packet_options payload (has_cookie payload) of
     (os, fs, ss) \<Rightarrow> items_of SF_OPTIONS 0 os @ items_of SF_FILE 0 fs @ items_of SF_SNAME 0 ss)"

definition packet_frags :: "bytes \<Rightarrow> (u32 \<times> bytes) list" where
  "packet_frags payload = (case packet_options payload (has_cookie payload) of
     (os, fs, ss) \<Rightarrow> frags_of (os @ fs @ ss))"

definition packet_warnings :: "bytes \<Rightarrow> parser_warning list" where
  "packet_warnings payload = (case packet_options payload (has_cookie payload) of
     (os, fs, ss) \<Rightarrow> warnings_of 0 (os @ fs @ ss))"

lemma packet_frags_items:
  "packet_frags payload = map (\<lambda>it. (ri_code it, ri_value it)) (packet_items payload)"
proof -
  have "frags_of os = map (\<lambda>it. (ri_code it, ri_value it)) (items_of sf n os)" for sf n os
    by (induction sf n os rule: items_of.induct) (auto simp: frags_of_def)
  then show ?thesis by (auto simp: packet_frags_def packet_items_def frags_of_append split: prod.splits)
qed

lemma interpretation_total:
  "\<exists>i. build_interpretation h d e = Some i \<and> i4_event_type i = cf_dup_str e \<and>
    \<not> (i4_is_renewal i \<and> i4_is_rebind i)"
  by (auto simp: build_interpretation_def dhcp_mirror Let_def)

lemma dup_event_type: "cf_dup_str (event_type_for_message_type mt) = event_type_for_message_type mt"
  by (cases mt) (simp_all add: cf_dup_str_def cstr_def)

lemma parse_spec:
  assumes len: "236 \<le> length payload"
  obtains ev w w' where
    "cf_dhcpv4_parse (Some payload) =
       Some (Some (ev, event_type_for_message_type (d4_message_type (e4_decoded ev))))"
    "e4_raw_options ev = map (opt_msg (packet_items payload)) (packet_items payload)"
    "cf_dhcpv4_build_decoded (store_of (packet_frags payload)) w = Some (e4_decoded ev, w')"
    "wl_items w = packet_warnings payload" "warn_grows w w'" "e4_parser_warnings ev = wl_items w'"
    "header_wf (e4_header ev)" "h4_magic_cookie_present (e4_header ev) = has_cookie payload"
    "dhcpv4_build_header payload = Some (e4_header ev)"
    "decoded_wf (e4_decoded ev)" "e4_raw_dhcp_payload ev = payload"
    "build_interpretation (e4_header ev) (e4_decoded ev)
       (event_type_for_message_type (d4_message_type (e4_decoded ev))) = Some (e4_interpretation ev)"
proof -
  obtain h where h: "dhcpv4_build_header payload = Some h" "header_wf h"
    "h4_magic_cookie_present h = has_cookie payload"
    using build_header_total [OF len] by (auto simp: has_cookie_def)
  obtain os fs ss where po: "packet_options payload (has_cookie payload) = (os, fs, ss)"
    by (rule prod_cases3)
  have "has_cookie payload \<Longrightarrow> 240 \<le> length payload" by (simp add: has_cookie_def)
  from walk_fields_spec [OF len this po] obtain st where
    st: "walk_fields payload (has_cookie payload) = Some st"
      "walked st (packet_items payload) (packet_frags payload) (packet_warnings payload) None"
    by (auto simp: packet_items_def packet_frags_def packet_warnings_def po)
  obtain d w' where d: "cf_dhcpv4_build_decoded (wk_cm st) (wk_warnings st) = Some (d, w')"
    "decoded_wf d" "warn_grows (wk_warnings st) w'"
    using build_decoded_typed [of "wk_cm st" "wk_warnings st"] by auto
  let ?e = "event_type_for_message_type (d4_message_type d)"
  obtain i where i: "build_interpretation h d ?e = Some i" using interpretation_total by blast
  have items: "options_of_items (mark_fragments (vec_items (wk_items st))) =
      Some (map (opt_msg (packet_items payload)) (packet_items payload))"
  proof -
    have "list_all (\<lambda>it. \<not> ri_long_option_fragment it) (packet_items payload)"
      using not_fragment_items_of by (simp add: packet_items_def po)
    then show ?thesis using options_of_marked st(2) by (simp add: walked_def)
  qed
  let ?ev = "\<lparr>e4_header = h, e4_raw_options = map (opt_msg (packet_items payload)) (packet_items payload),
    e4_decoded = d, e4_interpretation = i, e4_parser_warnings = wl_items w',
    e4_raw_dhcp_payload = payload, e4_raw_payload_truncated = False\<rparr>"
  show thesis
  proof (rule that [of ?ev "wk_warnings st" w'])
    show "cf_dhcpv4_parse (Some payload) =
        Some (Some (?ev, event_type_for_message_type (d4_message_type (e4_decoded ?ev))))"
      using len h(1,3) st(1) items d(1) i
      by (simp add: cf_dhcpv4_parse_def dhcp_mirror cf_warn_list_take_def)
    show "cf_dhcpv4_build_decoded (store_of (packet_frags payload)) (wk_warnings st) = Some (e4_decoded ?ev, w')"
      using d(1) stored_decoded [of "wk_cm st" "packet_frags payload"] st(2) by (simp add: walked_def)
    show "wl_items (wk_warnings st) = packet_warnings payload" using st(2) by (simp add: walked_def)
  qed (use h d i in simp_all)
qed

lemma parse_result:
  assumes "cf_dhcpv4_parse (Some payload) = Some (Some (ev, et))"
  obtains w w' where
    "et = event_type_for_message_type (d4_message_type (e4_decoded ev))"
    "e4_raw_options ev = map (opt_msg (packet_items payload)) (packet_items payload)"
    "cf_dhcpv4_build_decoded (store_of (packet_frags payload)) w = Some (e4_decoded ev, w')"
    "wl_items w = packet_warnings payload" "warn_grows w w'" "e4_parser_warnings ev = wl_items w'"
    "header_wf (e4_header ev)" "decoded_wf (e4_decoded ev)" "e4_raw_dhcp_payload ev = payload"
    "dhcpv4_build_header payload = Some (e4_header ev)"
    "build_interpretation (e4_header ev) (e4_decoded ev) et = Some (e4_interpretation ev)"
proof -
  have "236 \<le> length payload"
    using assms by (auto simp: cf_dhcpv4_parse_def split: if_splits)
  then show thesis
    by (rule parse_spec) (rule that, use assms in auto)
qed

section \<open>Properties\<close>

text \<open>
  The DHCPv4 parser returns on every buffer without an access outside it, and returns NULL
  exactly for a NULL pointer or a payload shorter than the fixed BOOTP header.
\<close>

theorem dhcpv4_parse_total:
  "\<exists>r. cf_dhcpv4_parse p = Some r \<and>
     (r = None \<longleftrightarrow> (case p of None \<Rightarrow> True | Some payload \<Rightarrow> length payload < 236))"
proof (cases p)
  case None
  then show ?thesis by (simp add: cf_dhcpv4_parse_def)
next
  case (Some payload)
  show ?thesis
  proof (cases "length payload < 236")
    case True
    then show ?thesis by (simp add: Some cf_dhcpv4_parse_def)
  next
    case False
    then have "236 \<le> length payload" by simp
    then obtain ev where "cf_dhcpv4_parse (Some payload) =
        Some (Some (ev, event_type_for_message_type (d4_message_type (e4_decoded ev))))"
      by (rule parse_spec)
    then show ?thesis using False by (simp add: Some)
  qed
qed

text \<open>
  C25. The raw options of an event are, in order and with their source field, ordinal and
  malformed flag, the options the reference parser finds in the options field and, as far as
  option 52 says so, in the file and sname fields; an option is marked as a fragment exactly when
  its code occurs more than once; and the warnings begin with those of the malformed options.
\<close>

theorem dhcpv4_raw_options:
  assumes "cf_dhcpv4_parse (Some payload) = Some (Some (ev, et))"
  shows "e4_raw_options ev = map (opt_msg (packet_items payload)) (packet_items payload) \<and>
    (\<exists>ws. e4_parser_warnings ev = packet_warnings payload @ ws)"
  using assms by (rule parse_result) (auto simp: warn_grows_def)

text \<open>
  C26. An option split into fragments (RFC 3396) is decoded as if it had been sent in one piece:
  the decoded options are those of a store that holds, for each code, the concatenation of its
  fragments across the three fields in the order options, file, sname.
\<close>

theorem dhcpv4_decodes_concatenation:
  assumes "cf_dhcpv4_parse (Some payload) = Some (Some (ev, et))"
  shows "(\<exists>w w'. cf_dhcpv4_build_decoded (store_of (packet_frags payload)) w = Some (e4_decoded ev, w')) \<and>
    (\<forall>c. concat_map_get (store_of (packet_frags payload)) c =
       concat (map o4_raw_value (filter (\<lambda>opt. o4_code opt = c) (e4_raw_options ev)))) \<and>
    (\<forall>c. concat_map_has (store_of (packet_frags payload)) c \<longleftrightarrow> c \<in> o4_code ` set (e4_raw_options ev))"
  by (rule parse_result [OF assms])
     (auto simp: store_of_get store_of_has fragments_def packet_frags_items opt_msg_def filter_map comp_def
       image_image)


section \<open>Types\<close>

lemma scan4_wf: "(c, v, st) \<in> set (scan4 bs) \<Longrightarrow> c \<noteq> 0 \<and> c \<noteq> 255 \<and> length v < 256"
proof (induction bs rule: scan4.induct)
  case (2 c' bs)
  show ?case
  proof (cases "c' = 0 \<or> c' = 255")
    case True
    then show ?thesis using "2.IH"(1) "2.prems" by (auto split: if_splits)
  next
    case False
    obtain opt rest where t: "scan4_tag c' bs = (opt, rest)" by (rule prod.exhaust)
    then have "fst opt = c' \<and> length (fst (snd opt)) < 256"
      using unat_byte_less [of "hd bs"] by (cases bs) (auto split: if_splits)
    with False t "2.prems" "2.IH"(2) [OF _ _ t [symmetric] refl] show ?thesis by auto
  qed
qed simp

lemma items_of_wf:
  assumes "it \<in> set (items_of sf n os)"
  shows "\<exists>c v s. (c, v, s) \<in> set os \<and> ri_code it = ucast c \<and> ri_value it = v \<and>
    ri_malformed it = (s \<noteq> Complete) \<and> ri_source_field it = sf"
  using assms by (induction sf n os rule: items_of.induct) force+

lemma warnings_of_count:
  "length (warnings_of i os) = length (filter (\<lambda>(c, v, s). s \<noteq> Complete) os) \<and> warnings_ok (warnings_of i os)"
proof (induction os arbitrary: i)
  case (Cons opt os)
  obtain c v s where "opt = (c, v, s)" by (rule prod_cases3)
  then show ?case using Cons by (cases s) (auto simp: warning_of_def)
qed simp

lemma malformed_items_of:
  "length (filter ri_malformed (items_of sf n os)) = length (filter (\<lambda>(c, v, s). s \<noteq> Complete) os)"
  by (induction sf n os rule: items_of.induct) auto

lemma option_code_range:
  fixes c :: byte
  assumes "c \<noteq> 0" "c \<noteq> 255"
  shows "0 < (ucast c :: u32)" "(ucast c :: u32) < 255"
proof -
  have "unat c \<noteq> 0" using assms(1) by (simp add: unsigned_eq_0_iff)
  then show "0 < (ucast c :: u32)" by (simp add: word_less_nat_alt)
  have "unat c \<noteq> 255" using assms(2) by (auto dest: arg_cong [of _ _ "word_of_nat :: nat \<Rightarrow> byte"])
  then show "(ucast c :: u32) < 255" using unat_byte_less [of c] by (simp add: word_less_nat_alt)
qed

lemma packet_options_scan:
  assumes "packet_options payload cookie = (os, fs, ss)" "opt \<in> set (os @ fs @ ss)"
  shows "\<exists>bs. opt \<in> set (scan4 bs)"
  using assms unfolding packet_options_def Let_def by (auto split: if_splits)

lemma packet_items_wf:
  assumes "it \<in> set (packet_items payload)"
  shows "option_wf (opt_msg its it)"
proof -
  obtain os fs ss where po: "packet_options payload (has_cookie payload) = (os, fs, ss)"
    by (rule prod_cases3)
  with assms obtain sf n xs where it: "it \<in> set (items_of sf n xs)" "set xs \<subseteq> set (os @ fs @ ss)"
    and sf: "sf \<noteq> SF_UNSPECIFIED"
    by (auto simp: packet_items_def)
  from items_of_wf [OF it(1)] obtain c v s where
    c: "(c, v, s) \<in> set xs" "ri_code it = ucast c" "ri_value it = v" "ri_source_field it = sf" by blast
  obtain bs where "(c, v, s) \<in> set (scan4 bs)" using packet_options_scan [OF po, of "(c, v, s)"] c(1) it(2) by auto
  from scan4_wf [OF this] show ?thesis
    using c sf option_code_range [of c] by (simp add: option_wf_def opt_msg_def unat_of_nat take_bit_nat_eq_self)
qed

text \<open>
  C27. Every event the DHCPv4 parser returns is well typed: header fields in the range of their
  wire width and the raw fields of their fixed sizes; option codes between 1 and 254 with a
  length that is the length of the value; prefix lengths at most 32 with as many octets as they
  need; suboptions malformed only at the end; warning contexts of at most 16 bytes, and at least
  one warning for each malformed option.
\<close>

theorem dhcpv4_event_typed:
  assumes "cf_dhcpv4_parse (Some payload) = Some (Some (ev, et))"
  shows "event_wf ev \<and> et = i4_event_type (e4_interpretation ev)"
  using assms
proof (rule parse_result)
  fix w w'
  assume et: "et = event_type_for_message_type (d4_message_type (e4_decoded ev))"
    and raw: "e4_raw_options ev = map (opt_msg (packet_items payload)) (packet_items payload)"
    and w: "wl_items w = packet_warnings payload" "warn_grows w w'" "e4_parser_warnings ev = wl_items w'"
    and h: "header_wf (e4_header ev)" "decoded_wf (e4_decoded ev)"
    and i: "build_interpretation (e4_header ev) (e4_decoded ev) et = Some (e4_interpretation ev)"
  have "warnings_ok (packet_warnings payload)"
    using warnings_of_count by (auto simp: packet_warnings_def split: prod.splits)
  then have wok: "warnings_ok (e4_parser_warnings ev)" using w by (auto simp: warn_grows_def)
  have "length (filter o4_malformed (e4_raw_options ev)) = length (packet_warnings payload)"
    using warnings_of_count malformed_items_of
    by (auto simp: raw packet_items_def packet_warnings_def filter_map comp_def opt_msg_def split: prod.splits)
  then have cnt: "length (filter o4_malformed (e4_raw_options ev)) \<le> length (e4_parser_warnings ev)"
    using w by (auto simp: warn_grows_def)
  have "list_all option_wf (e4_raw_options ev)" using packet_items_wf by (auto simp: raw list_all_iff)
  moreover have "i4_event_type (e4_interpretation ev) = et"
      "\<not> (i4_is_renewal (e4_interpretation ev) \<and> i4_is_rebind (e4_interpretation ev))"
    using interpretation_total [of "e4_header ev" "e4_decoded ev" et] i dup_event_type
    by (auto simp: et)
  ultimately show ?thesis using wok cnt h et by (simp add: event_wf_def)
qed

text \<open>
  The event type is the one of the first byte of option 53 (of the concatenation of its
  fragments), and the generic packet type when the option is absent, empty or of an unassigned
  value.
\<close>

theorem dhcpv4_event_type:
  assumes "cf_dhcpv4_parse (Some payload) = Some (Some (ev, et))"
  shows "et = event_type_for_message_type (message_type_of
    (concat (map o4_raw_value (filter (\<lambda>opt. o4_code opt = 53) (e4_raw_options ev)))))"
  using assms
proof (rule parse_result)
  fix w w'
  assume et: "et = event_type_for_message_type (d4_message_type (e4_decoded ev))"
    and d: "cf_dhcpv4_build_decoded (store_of (packet_frags payload)) w = Some (e4_decoded ev, w')"
    and raw: "e4_raw_options ev = map (opt_msg (packet_items payload)) (packet_items payload)"
  have "d4_message_type (e4_decoded ev) = message_type_of (fragments 53 (packet_frags payload))"
    using d build_decoded_typed [of "store_of (packet_frags payload)" w]
    by (auto simp: store_of_has store_of_get message_type_of_def fragments_absent)
  moreover have "fragments 53 (packet_frags payload) =
      concat (map o4_raw_value (filter (\<lambda>opt. o4_code opt = 53) (e4_raw_options ev)))"
    by (simp add: raw fragments_def packet_frags_items opt_msg_def filter_map comp_def)
  ultimately show ?thesis by (simp add: et)
qed

end
