(* ===== verification/Ip_Text.thy ===== *)
theory Ip_Text
  imports Dhcp_Util
begin

text \<open>
  Decimal numbers and dotted addresses as the formatters of \<^verbatim>\<open>cf_ipfmt.c\<close> print them: what is
  printed can be read back, so two addresses have the same text only when they are equal.
\<close>

section \<open>Decimal numbers\<close>

definition num_of :: "string \<Rightarrow> nat" where
  "num_of s = foldl (\<lambda>a c. a * 10 + (of_char c - 48)) 0 s"

lemma num_of_snoc: "num_of (s @ [c]) = num_of s * 10 + (of_char c - 48)"
  by (simp add: num_of_def)

lemma of_char_digit: "d < 10 \<Longrightarrow> of_char (digit d) = 48 + d"
  by (simp add: digit_def)

lemma num_of_dec_string: "num_of (dec_string n) = n"
proof (induction n rule: dec_string.induct)
  case (1 n)
  show ?case
  proof (cases "n < 10")
    case True
    then show ?thesis by (subst dec_string.simps) (simp add: num_of_def of_char_digit)
  next
    case False
    then show ?thesis
      using 1 by (subst dec_string.simps) (simp add: num_of_snoc of_char_digit)
  qed
qed

lemma dec_string_inj: "dec_string m = dec_string n \<longleftrightarrow> m = n"
  by (metis num_of_dec_string)

lemma dec_string_chars: "c \<in> set (dec_string n) \<Longrightarrow> 48 \<le> (of_char c :: nat) \<and> (of_char c :: nat) < 58"
proof (induction n rule: dec_string.induct)
  case (1 n)
  show ?case
  proof (cases "n < 10")
    case True
    then show ?thesis using "1.prems" by (subst (asm) dec_string.simps) (simp add: of_char_digit)
  next
    case False
    then have "c \<in> set (dec_string (n div 10)) \<or> c = digit (n mod 10)"
      using "1.prems" by (subst (asm) dec_string.simps) auto
    then show ?thesis using "1.IH" [OF False] of_char_digit [of "n mod 10"] by auto
  qed
qed

lemma dec_string_no: "c \<in> set (dec_string n) \<Longrightarrow> c \<noteq> CHR ''.'' \<and> c \<noteq> CHR 0x00"
  by (drule dec_string_chars) auto

section \<open>Dotted addresses\<close>

lemma sep_inj:
  assumes "c \<notin> set a" "c \<notin> set b"
  shows "a @ c # x = b @ c # y \<longleftrightarrow> a = b \<and> x = y"
proof
  assume eq: "a @ c # x = b @ c # y"
  have "takeWhile (\<lambda>d. d \<noteq> c) (l @ c # z) = l" if "c \<notin> set l" for l z
    using that by (induction l) auto
  from this [OF assms(1), of x] this [OF assms(2), of y] eq have "a = b" by metis
  with eq show "a = b \<and> x = y" by simp
qed simp

lemma dot_notin: "CHR ''.'' \<notin> set (dec_string n)"
  using dec_string_no by blast

lemma inet_ntop4_iff:
  "inet_ntop4 a = inet_ntop4 b \<longleftrightarrow> a ! 0 = b ! 0 \<and> a ! 1 = b ! 1 \<and> a ! 2 = b ! 2 \<and> a ! 3 = b ! 3"
  by (simp add: inet_ntop4_def sep_inj dot_notin dec_string_inj word_unat_eq_iff)

lemma inet_ntop4_no_nul: "CHR 0x00 \<notin> set (inet_ntop4 ip)"
  by (auto simp: inet_ntop4_def dest: dec_string_no)

lemma cstr_no_nul: "CHR 0x00 \<notin> set s \<Longrightarrow> cstr s = s"
  unfolding cstr_def by (rule takeWhile_eq_all_conv [THEN iffD2]) auto

lemma dup_str_no_nul: "CHR 0x00 \<notin> set s \<Longrightarrow> cf_dup_str s = s"
  by (simp add: cf_dup_str_def cstr_no_nul)

lemma take4: "length xs = 4 \<Longrightarrow> xs = [xs ! 0, xs ! 1, xs ! 2, xs ! 3]"
  by (auto simp: list_eq_iff_nth_eq less_Suc_eq numeral_eq_Suc nth_Cons')

text \<open>The text of the four bytes at an offset, as the DHCPv4 parser prints it.\<close>

lemma format_ipv4_text:
  assumes "length ip = 4"
  shows "cf_dup_str (cf_format_ip 4 (memcpy_at (replicate 16 0) 0 ip)) = inet_ntop4 ip"
proof -
  have "inet_ntop4 (memcpy_at (replicate 16 0) 0 ip) = inet_ntop4 ip"
    using assms by (simp add: inet_ntop4_iff nth_memcpy_at)
  then show ?thesis by (simp add: cf_format_ip_def dup_str_no_nul inet_ntop4_no_nul)
qed

lemma format_ipv4_at [simp]:
  "off + 4 \<le> length buf \<Longrightarrow> cf_dhcpv4_format_ipv4 buf off = Some (inet_ntop4 (take 4 (drop off buf)))"
  using format_ipv4_text [of "take 4 (drop off buf)"] by simp

lemma zero_text: "''0.0.0.0'' = inet_ntop4 [0, 0, 0, 0]"
  by (simp add: inet_ntop4_def dec_string.simps digit_def char_of_def bit_0)

text \<open>
  The text of an IPv4 address determines it: two addresses print alike only when all four
  octets agree.
\<close>

theorem ipv4_text_unique:
  assumes "length a = 4" "length b = 4"
  shows "cf_format_ip 4 a = cf_format_ip 4 b \<longleftrightarrow> a = b"
  using take4 [OF assms(1)] take4 [OF assms(2)] by (auto simp: cf_format_ip_def inet_ntop4_iff)


theorem ipv4_text_unique_witness:
  "cf_format_ip 4 [192, 0, 2, 1] \<noteq> cf_format_ip 4 [192, 0, 21, 0]"
  using ipv4_text_unique [of "[192, 0, 2, 1]" "[192, 0, 21, 0]"] by simp

section \<open>Hex texts\<close>

lemma distinct_hex_digits: "distinct hex_digits"
  by (simp add: hex_digits_def)

lemma hex_byte_inj: "hex_byte a = hex_byte b \<longleftrightarrow> a = b"
proof
  assume "hex_byte a = hex_byte b"
  then have "unat (drop_bit 4 a) = unat (drop_bit 4 b)" "unat (a AND 0x0f) = unat (b AND 0x0f)"
    using hex_byte_nibbles [of a] hex_byte_nibbles [of b]
    by (auto simp: hex_byte_def nth_eq_iff_index_eq [OF distinct_hex_digits] length_hex_digits)
  then have "drop_bit 4 a = drop_bit 4 b" "take_bit 4 a = take_bit 4 b"
    by (simp_all add: word_unat_eq_iff [symmetric] take_bit_eq_mask mask_eq_exp_minus_1)
  then show "a = b" by (metis bits_ident)
qed simp

lemma hex_byte_no_nul: "CHR 0x00 \<notin> set (hex_byte b)"
proof -
  have "CHR 0x00 \<notin> set hex_digits" by (simp add: hex_digits_def)
  then show ?thesis using hex_byte_digits(2) [of b] by blast
qed

lemma hex_byte_append: "hex_byte a @ x = hex_byte b @ y \<longleftrightarrow> a = b \<and> x = y"
  using hex_byte_inj [of a b] by (simp add: hex_byte_digits(1))

lemma cf_format_mac_full:
  "cf_format_mac m = hex_byte (m ! 0) @ '':'' @ hex_byte (m ! 1) @ '':'' @ hex_byte (m ! 2) @ '':'' @
     hex_byte (m ! 3) @ '':'' @ hex_byte (m ! 4) @ '':'' @ hex_byte (m ! 5)"
  by (simp add: cf_format_mac_def snprintf_def hex_byte_digits(1))

lemma take6: "length xs = 6 \<Longrightarrow> xs = [xs ! 0, xs ! 1, xs ! 2, xs ! 3, xs ! 4, xs ! 5]"
  by (auto simp: list_eq_iff_nth_eq less_Suc_eq numeral_eq_Suc nth_Cons')

lemma format_mac_inj:
  assumes "length a = 6" "length b = 6"
  shows "cf_format_mac a = cf_format_mac b \<longleftrightarrow> a = b"
  using take6 [OF assms(1)] take6 [OF assms(2)]
  by (auto simp: cf_format_mac_full hex_byte_append hex_byte_inj)

lemma format_mac_no_nul: "CHR 0x00 \<notin> set (cf_format_mac m)"
  using hex_byte_no_nul by (auto simp: cf_format_mac_full)

end
