(* ===== verification/Dhcpv4_Wire.thy ===== *)
theory Dhcpv4_Wire
  imports Dhcpv4_Parse Ip_Text
begin

text \<open>
  What a client or server sends comes back from the DHCPv4 parser: encoders for options and
  classless static routes, the round trips through the parser, also when an option is split
  into fragments, and what the interpretation says of the sender.
\<close>

section \<open>Options\<close>

text \<open>An option with the pad bytes before it.\<close>

fun wire_option :: "nat \<times> byte \<times> bytes \<Rightarrow> bytes" where
  "wire_option (pads, c, v) = replicate pads 0 @ c # of_nat (length v) # v"

definition wire_options :: "(nat \<times> byte \<times> bytes) list \<Rightarrow> bytes" where
  "wire_options opts = concat (map wire_option opts)"

definition wire_ok :: "nat \<times> byte \<times> bytes \<Rightarrow> bool" where
  "wire_ok = (\<lambda>(pads, c, v). c \<noteq> 0 \<and> c \<noteq> 255 \<and> length v < 256)"

lemma scan4_pads [simp]: "scan4 (replicate n 0 @ bs) = scan4 bs"
  by (induction n) auto

lemma scan4_wire_option:
  assumes "wire_ok (n, c, v)"
  shows "scan4 (wire_option (n, c, v) @ rest) = (c, v, Complete) # scan4 rest"
proof -
  have "unat (of_nat (length v) :: byte) = length v"
    using assms by (simp add: wire_ok_def unat_of_nat take_bit_nat_eq_self)
  then show ?thesis using assms by (simp add: wire_ok_def)
qed

lemma scan4_wire_options:
  "list_all wire_ok opts \<Longrightarrow>
   scan4 (wire_options opts @ rest) = map (\<lambda>(n, c, v). (c, v, Complete)) opts @ scan4 rest"
proof (induction opts)
  case (Cons opt opts)
  then show ?case
    by (cases opt) (simp add: wire_options_def scan4_wire_option del: wire_option.simps)
qed (simp add: wire_options_def)

lemma overload_absent: "52 \<notin> fst ` set os \<Longrightarrow> overload_of ov os = ov"
  by (induction ov os rule: overload_of.induct) auto

lemma warnings_complete: "list_all (\<lambda>(c, v, s). s = Complete) os \<Longrightarrow> warnings_of i os = []"
  by (induction os arbitrary: i) (auto simp: warning_of_def)

text \<open>A packet with these options, an end option and anything after it.\<close>

definition wire_packet :: "bytes \<Rightarrow> (nat \<times> byte \<times> bytes) list \<Rightarrow> bytes \<Rightarrow> bytes" where
  "wire_packet hdr opts junk = hdr @ DHCP_MAGIC_COOKIE @ wire_options opts @ 255 # junk"

lemma wire_packet_options:
  assumes "length hdr = 236" "list_all wire_ok opts" "52 \<notin> (\<lambda>(n, c, v). c) ` set opts"
  shows "has_cookie (wire_packet hdr opts junk)"
    "packet_options (wire_packet hdr opts junk) True = (map (\<lambda>(n, c, v). (c, v, Complete)) opts, [], [])"
proof -
  show "has_cookie (wire_packet hdr opts junk)"
    using assms(1) by (simp add: has_cookie_def wire_packet_def DHCP_MAGIC_COOKIE_def)
  have "drop 240 (wire_packet hdr opts junk) = wire_options opts @ 255 # junk"
    using assms(1) by (simp add: wire_packet_def DHCP_MAGIC_COOKIE_def)
  then have "scan4 (drop 240 (wire_packet hdr opts junk)) = map (\<lambda>(n, c, v). (c, v, Complete)) opts"
    using assms(2) by (simp add: scan4_wire_options)
  moreover have "overload_of (Some 0) (map (\<lambda>(n, c, v). (c, v, Complete)) opts) = Some 0"
    using assms(3) by (intro overload_absent) force
  ultimately show "packet_options (wire_packet hdr opts junk) True =
      (map (\<lambda>(n, c, v). (c, v, Complete)) opts, [], [])"
    by (simp add: packet_options_def Let_def)
qed

lemma packet_frags_wire:
  assumes "length hdr = 236" "list_all wire_ok opts" "52 \<notin> (\<lambda>(n, c, v). c) ` set opts"
  shows "packet_frags (wire_packet hdr opts junk) = map (\<lambda>(n, c, v). (ucast c, v)) opts"
  using wire_packet_options [OF assms, of junk]
  by (simp add: packet_frags_def frags_of_def case_prod_unfold comp_def)

lemma items_of_ordinals:
  "map ri_ordinal (items_of sf n os) = map (\<lambda>i. n + of_nat i) [0..<length os]"
proof (induction sf n os rule: items_of.induct)
  case (2 sf n c v s os)
  have "map (\<lambda>i. n + of_nat i) [0..<Suc (length os)] = n # map (\<lambda>i. n + 1 + of_nat i) [0..<length os]"
    by (simp add: upt_conv_Cons map_Suc_upt [symmetric] add.assoc del: upt_Suc)
  with 2 show ?case by simp
qed simp

text \<open>
  A packet built from a header and any options (with pad bytes in between, an end option and
  anything after it) parses, with every option reported once, in order, with its code, value and
  position, none malformed and no warning of the option walk.
\<close>

theorem dhcpv4_options_roundtrip:
  assumes "length hdr = 236" "list_all wire_ok opts" "52 \<notin> (\<lambda>(n, c, v). c) ` set opts"
  shows "\<exists>ev et. cf_dhcpv4_parse (Some (wire_packet hdr opts junk)) = Some (Some (ev, et)) \<and>
    map (\<lambda>opt. (o4_code opt, o4_raw_value opt)) (e4_raw_options ev) = map (\<lambda>(n, c, v). (ucast c, v)) opts \<and>
    map o4_ordinal (e4_raw_options ev) = map of_nat [0..<length opts] \<and>
    (\<forall>opt \<in> set (e4_raw_options ev). \<not> o4_malformed opt \<and> o4_source_field opt = SF_OPTIONS) \<and>
    packet_warnings (wire_packet hdr opts junk) = []"
proof -
  let ?p = "wire_packet hdr opts junk" let ?os = "map (\<lambda>(n, c, v). (c, v, Complete)) opts"
  have len: "236 \<le> length ?p" using assms(1) by (simp add: wire_packet_def)
  note po = wire_packet_options [OF assms, of junk]
  have items: "packet_items ?p = items_of SF_OPTIONS 0 ?os" using po by (simp add: packet_items_def)
  have cv: "map (\<lambda>it. (ri_code it, ri_value it)) (packet_items ?p) = map (\<lambda>(n, c, v). (ucast c, v)) opts"
    using packet_frags_items [of ?p] packet_frags_wire [OF assms, of junk] by simp
  have fine: "\<not> ri_malformed it \<and> ri_source_field it = SF_OPTIONS" if "it \<in> set (packet_items ?p)" for it
    using items_of_wf [of it SF_OPTIONS 0 ?os] that items by force
  have pw: "packet_warnings ?p = []"
    using po by (auto simp: packet_warnings_def intro!: warnings_complete) (auto simp: list_all_iff)
  obtain ev et where p: "cf_dhcpv4_parse (Some ?p) = Some (Some (ev, et))"
    and raw: "e4_raw_options ev = map (opt_msg (packet_items ?p)) (packet_items ?p)"
    by (rule parse_spec [OF len])
  show ?thesis
  proof (intro exI conjI)
    show "map o4_ordinal (e4_raw_options ev) = map of_nat [0..<length opts]"
      using items_of_ordinals [of SF_OPTIONS 0 ?os] by (simp add: raw opt_msg_def comp_def items)
  qed (use p raw cv fine pw in \<open>auto simp: opt_msg_def comp_def\<close>)
qed

section \<open>Classless static routes\<close>

text \<open>A route as prefix length, destination and router, with the octets beyond the prefix zero.\<close>

type_synonym route = "byte \<times> bytes \<times> bytes"

definition sig_octets :: "byte \<Rightarrow> nat" where
  "sig_octets p = (unat p + 7) div 8"

definition route_ok :: "route \<Rightarrow> bool" where
  "route_ok = (\<lambda>(p, dest, router). p \<le> 32 \<and> length dest = 4 \<and> length router = 4 \<and>
     drop (sig_octets p) dest = replicate (4 - sig_octets p) 0)"

definition wire_route :: "route \<Rightarrow> bytes" where
  "wire_route = (\<lambda>(p, dest, router). p # take (sig_octets p) dest @ router)"

definition route_msg :: "route \<Rightarrow> dhcpv4_route" where
  "route_msg = (\<lambda>(p, dest, router). \<lparr>rt_destination_prefix_length = ucast p,
     rt_destination = inet_ntop4 dest, rt_router = inet_ntop4 router,
     rt_raw_value = wire_route (p, dest, router)\<rparr>)"

lemma decode_route_wire:
  assumes ok: "route_ok (p, dest, router)"
  shows "decode_route (pre @ wire_route (p, dest, router) @ post) (length pre) p (sig_octets p) =
    Some (route_msg (p, dest, router))"
proof -
  have n: "sig_octets p \<le> 4" using ok dest_bytes_le by (simp add: route_ok_def sig_octets_def)
  let ?d = "take (sig_octets p) dest"
  have len: "length dest = 4" "length router = 4" "length ?d = sig_octets p"
    using ok n by (auto simp: route_ok_def)
  have "memcpy_at (replicate 4 0) 0 ?d = ?d @ drop (sig_octets p) dest"
    using ok n len by (simp add: memcpy_at_def route_ok_def)
  then have d4: "memcpy_at (replicate 4 0) 0 ?d = dest" by simp
  let ?w = "wire_route (p, dest, router)" let ?data = "pre @ ?w @ post"
  have lw: "length ?w = 1 + sig_octets p + 4" using len by (simp add: wire_route_def)
  have raw: "cf_set_bytes (Some (?data, length pre)) (1 + sig_octets p + 4) = Some ?w"
    unfolding lw [symmetric] by simp
  have dest: "rd_bytes ?data (length pre + 1) (sig_octets p) = Some ?d"
    and router: "rd_bytes ?data (length pre + 1 + sig_octets p) 4 = Some router"
    using n len by (simp_all add: wire_route_def)
  show ?thesis
    unfolding decode_route_def dhcp_mirror raw dest router
    using n len by (simp add: d4 route_msg_def format_ipv4_text Let_def)
qed

lemma route_loop_wire:
  assumes "list_all route_ok rs" "vec_ok arr"
  shows "\<exists>a. route_loop (pre @ concat (map wire_route rs)) path (length pre) arr w = Some (a, w) \<and>
    vec_items a = vec_items arr @ map route_msg rs"
  using assms
proof (induction rs arbitrary: pre arr)
  case Nil
  then show ?case by (subst route_loop.simps) simp
next
  case (Cons r rs)
  obtain p dest router where r: "r = (p, dest, router)" by (rule prod_cases3)
  let ?post = "concat (map wire_route rs)" let ?data = "pre @ wire_route r @ ?post"
  have ok: "route_ok (p, dest, router)" using Cons.prems r by simp
  then have p32: "\<not> p > 32" and lw: "length (wire_route r) = 1 + sig_octets p + 4"
    using dest_bytes_le [of p] by (auto simp: route_ok_def wire_route_def r sig_octets_def)
  have rd: "rd ?data (length pre) = Some p" by (simp add: rd_def r wire_route_def nth_append)
  have dec: "decode_route ?data (length pre) p ((unat p + 7) div 8) = Some (route_msg r)"
    using decode_route_wire [OF ok, of pre ?post] by (simp add: r sig_octets_def)
  have pos: "length pre < length ?data" using lw by simp
  have fit: "\<not> length pre + 1 + (unat p + 7) div 8 + 4 > length ?data"
    using lw by (simp add: sig_octets_def)
  have "\<exists>a. route_loop ((pre @ wire_route r) @ ?post) path (length (pre @ wire_route r))
      (pushed 4 arr (route_msg r)) w = Some (a, w) \<and>
      vec_items a = vec_items (pushed 4 arr (route_msg r)) @ map route_msg rs"
    using Cons.prems by (intro Cons.IH) auto
  moreover have "length (pre @ wire_route r) = length pre + (1 + (unat p + 7) div 8 + 4)"
    using lw by (simp add: sig_octets_def)
  moreover have "route_loop ?data path (length pre) arr w =
      route_loop ?data path (length pre + (1 + (unat p + 7) div 8 + 4)) (pushed 4 arr (route_msg r)) w"
    using pos p32 fit Cons.prems(2)
    by (subst route_loop.simps)
       (simp only: rd dec if_True if_False option.case Let_def vec_push_pushed zero_less_numeral)
  ultimately show ?case by simp
qed

lemma decode_routes_wire:
  "list_all route_ok rs \<Longrightarrow>
   decode_classless_routes (concat (map wire_route rs)) w path = Some (map route_msg rs, w)"
  using route_loop_wire [of rs vec_init "[]" path w] by (auto simp: decode_classless_routes_def)

section \<open>From the packet to the routes\<close>

text \<open>The steps before option 121 return, and those after it leave its field alone.\<close>

interpretation any: decoded_invariant "\<lambda>d. True"
  by unfold_locales simp_all

lemma bind_reach:
  "\<exists>s. x = Some s \<Longrightarrow> (\<And>s. \<exists>s'. g s = K s') \<Longrightarrow> \<exists>s'. Option.bind x g = K s'"
  by auto

lemma on_option_returns:
  assumes "\<And>data w0. keeps (decoding_ok (\<lambda>d. True) w0) (f data)"
  shows "\<exists>s'. on_option cm c f s = Some s'"
proof -
  have "decoding_ok (\<lambda>d. True) (snd s) s" by (simp add: decoding_ok_def case_prod_unfold)
  from keepsD [OF assms this, of "concat_map_get cm c"] show ?thesis
    unfolding on_option_def by (cases "concat_map_has cm c") auto
qed

lemma keeps_message_type_any: "keeps (decoding_ok (\<lambda>d. True) w0) (opt_message_type data)"
  by (rule keepsI, cases data) (simp_all add: opt_message_type_def dhcp_mirror Let_def)

abbreviation (input) after_121 :: "concat_map \<Rightarrow> decoding \<Rightarrow> decoding option" where
  "after_121 cm s \<equiv> do {
     s \<leftarrow> on_option cm 249 (opt_routes ''decoded.microsoft_classless_static_routes''
            (\<lambda>v d. d\<lparr>d4_microsoft_classless_static_routes := v\<rparr>)) s;
     on_option cm 252 (opt_string (\<lambda>v d. d\<lparr>d4_proxy_autodiscovery := v\<rparr>)) s }"

lemma reach_routes:
  "\<exists>s. cf_dhcpv4_build_decoded cm w = (do {
     s \<leftarrow> on_option cm 121 (opt_routes ''decoded.classless_static_routes''
            (\<lambda>v d. d\<lparr>d4_classless_static_routes := v\<rparr>)) s;
     after_121 cm s })"
  unfolding cf_dhcpv4_build_decoded_def
  by ((rule exI, rule refl) | (rule bind_reach,
      (rule on_option_returns, intro keeps_message_type_any any.keeps_steps TrueI)))+

lemma decoded_routes:
  assumes "concat_map_has cm 121" "concat_map_get cm 121 = concat (map wire_route rs)" "list_all route_ok rs"
    and d: "cf_dhcpv4_build_decoded cm w = Some (d, w')"
  shows "d4_classless_static_routes d = map route_msg rs"
proof -
  obtain d1 w1 where "cf_dhcpv4_build_decoded cm w = (do {
     s \<leftarrow> on_option cm 121 (opt_routes ''decoded.classless_static_routes''
            (\<lambda>v d. d\<lparr>d4_classless_static_routes := v\<rparr>)) (d1, w1);
     after_121 cm s })" using reach_routes [of cm w] by auto
  also have "\<dots> = after_121 cm (d1\<lparr>d4_classless_static_routes := map route_msg rs\<rparr>, w1)"
    using assms by (simp add: on_option_def opt_routes_def decode_routes_wire)
  finally have "after_121 cm (d1\<lparr>d4_classless_static_routes := map route_msg rs\<rparr>, w1) = Some (d, w')"
    using d by simp
  moreover have "keeps (decoding_ok (\<lambda>d. d4_classless_static_routes d = map route_msg rs) w1) (\<lambda>s. after_121 cm s)"
    by (intro keeps_bind keeps_on_option keeps_opt_routes keeps_opt_string) simp_all
  ultimately show ?thesis
    by (auto simp: decoding_ok_def dest!: keepsD [where s = "(d1\<lparr>d4_classless_static_routes := map route_msg rs\<rparr>, w1)"])
qed

text \<open>
  Classless static routes survive the trip, however the sender splits them: when the values
  of the option 121 fragments concatenate to the encoding of a list of routes, the event carries
  exactly these routes, each with its prefix length and the text of its destination and router.
\<close>

theorem dhcpv4_routes_roundtrip:
  assumes "length hdr = 236" "list_all wire_ok opts" "52 \<notin> (\<lambda>(n, c, v). c) ` set opts"
    and "121 \<in> (\<lambda>(n, c, v). c) ` set opts"
    and "concat (map (\<lambda>(n, c, v). v) (filter (\<lambda>(n, c, v). c = 121) opts)) = concat (map wire_route rs)"
    and "list_all route_ok rs"
    and "cf_dhcpv4_parse (Some (wire_packet hdr opts junk)) = Some (Some (ev, et))"
  shows "d4_classless_static_routes (e4_decoded ev) = map route_msg rs"
  using assms(7)
proof (rule parse_result)
  fix w w'
  let ?frs = "map (\<lambda>(n, c, v). (ucast c :: u32, v)) opts"
  assume "cf_dhcpv4_build_decoded (store_of (packet_frags (wire_packet hdr opts junk))) w =
    Some (e4_decoded ev, w')"
  then have d: "cf_dhcpv4_build_decoded (store_of ?frs) w = Some (e4_decoded ev, w')"
    by (simp add: packet_frags_wire [OF assms(1-3)])
  have u: "(ucast c :: u32) = 121 \<longleftrightarrow> c = 121" for c :: byte
    using word_unat_eq_iff [of "ucast c :: u32" 121] word_unat_eq_iff [of c 121] by simp
  have "fragments 121 ?frs = concat (map wire_route rs)"
    using assms(5) by (simp add: fragments_def filter_map comp_def case_prod_unfold u)
  moreover have "121 \<in> fst ` set ?frs" using assms(4) by (force simp: u)
  ultimately show ?thesis
    using decoded_routes [OF _ _ assms(6) d] by (simp add: store_of_has store_of_get)
qed

end
