(* ===== verification/Dhcpv4_Interp.thy ===== *)
theory Dhcpv4_Interp
  imports Dhcpv4_Wire
begin

text \<open>
  What the interpretation of a DHCPv4 packet says about its bytes, and that the transaction key
  identifies a transaction.
\<close>

section \<open>The header fields\<close>

definition is_ethernet :: "bytes \<Rightarrow> bool" where
  "is_ethernet payload \<longleftrightarrow> payload ! 1 = 1 \<and> payload ! 2 = 6"

lemma header_fields:
  assumes "236 \<le> length payload" "dhcpv4_build_header payload = Some h"
  shows "h4_xid h = be32 (payload ! 4) (payload ! 5) (payload ! 6) (payload ! 7)"
    "h4_flags h = ucast (be16 (payload ! 10) (payload ! 11))"
    "h4_yiaddr h = inet_ntop4 (take 4 (drop 16 payload))"
    "h4_giaddr h = inet_ntop4 (take 4 (drop 24 payload))"
    "h4_chaddr_mac h = (if is_ethernet payload then cf_format_mac (take 6 (drop 28 payload)) else [])"
proof -
  have ne: "payload \<noteq> []" using assms(1) by auto
  obtain t1 where t1: "maybe_text_field payload 44 64 = Some t1"
    using maybe_text_field_total [of 44 64 payload] assms(1) by auto
  obtain t2 where t2: "maybe_text_field payload 108 128 = Some t2"
    using maybe_text_field_total [of 108 128 payload] assms(1) by auto
  note h = assms(2) [unfolded dhcpv4_build_header_def dhcp_mirror]
  show "h4_xid h = be32 (payload ! 4) (payload ! 5) (payload ! 6) (payload ! 7)"
    "h4_flags h = ucast (be16 (payload ! 10) (payload ! 11))"
    "h4_yiaddr h = inet_ntop4 (take 4 (drop 16 payload))"
    "h4_giaddr h = inet_ntop4 (take 4 (drop 24 payload))"
    using h assms(1) ne
    by (auto simp: t1 t2 buf_simps format_ipv4_text split: if_splits)
  show "h4_chaddr_mac h = (if is_ethernet payload then cf_format_mac (take 6 (drop 28 payload)) else [])"
    using h assms(1) ne format_mac_no_nul
    by (auto simp: t1 t2 buf_simps is_ethernet_def dup_str_no_nul split: if_splits)
qed

lemma parse_header:
  assumes "cf_dhcpv4_parse (Some payload) = Some (Some (ev, et))"
  shows "236 \<le> length payload" "dhcpv4_build_header payload = Some (e4_header ev)"
    "build_interpretation (e4_header ev) (e4_decoded ev) et = Some (e4_interpretation ev)"
  using assms by (auto simp: cf_dhcpv4_parse_def split: if_splits intro: parse_result [OF assms])

section \<open>Relay, broadcast and lease\<close>

lemma flags_broadcast: "(ucast (be16 a b) :: u32) AND 0x8000 = 0 \<longleftrightarrow> \<not> bit a 7"
proof -
  have m: "(0x8000 :: u32) = 2 ^ 15" by simp
  show ?thesis
    unfolding m and_exp_eq_0_iff_not_bit by (simp add: bit_ucast_iff bit_be16)
qed

lemma length_hex_u32: "length (hex_u32 w) = 8"
  by (simp add: hex_u32_def hex_byte_digits(1))

lemma interpretation_fields:
  assumes "build_interpretation h d e = Some i"
  shows "i4_is_relayed i \<longleftrightarrow> cstr (h4_giaddr h) \<noteq> ''0.0.0.0''"
    "i4_is_broadcast i \<longleftrightarrow> h4_flags h AND 0x8000 \<noteq> 0"
    "i4_lease_address i =
       (if d4_message_type d = M4_OFFER \<or> d4_message_type d = M4_ACK then cf_dup_str (h4_yiaddr h) else [])"
    "i4_is_renewal i \<longleftrightarrow> d4_message_type d = M4_REQUEST \<and> cstr (d4_server_identifier d) = [] \<and>
       cstr (d4_requested_ip_address d) = [] \<and> \<not> i4_is_broadcast i"
    "i4_is_rebind i \<longleftrightarrow> d4_message_type d = M4_REQUEST \<and> cstr (d4_server_identifier d) = [] \<and>
       cstr (d4_requested_ip_address d) = [] \<and> i4_is_broadcast i"
    "cstr (h4_chaddr_mac h) \<noteq> [] \<Longrightarrow>
       i4_transaction_key i = snprintf 9 (hex_u32 (h4_xid h)) @ ''-'' @ cstr (h4_chaddr_mac h)"
proof -
  define ch where "ch = (if d4_client_identifier_raw d = [] then None
    else Some (concat (map hex_byte (d4_client_identifier_raw d))))"
  have "(if length (d4_client_identifier_raw d) > 0 then do {
       s \<leftarrow> cf_dhcpv4_hex_encode (Some (d4_client_identifier_raw d, 0)) (length (d4_client_identifier_raw d));
       Some (Some s) } else Some None) = Some ch"
    by (simp add: ch_def dhcp_mirror)
  note i = assms [unfolded build_interpretation_def Let_def this [unfolded dhcp_mirror] Option.bind.bind_lunit dhcp_mirror option.inject,
      symmetric]
  show "i4_is_relayed i \<longleftrightarrow> cstr (h4_giaddr h) \<noteq> ''0.0.0.0''"
    "i4_is_broadcast i \<longleftrightarrow> h4_flags h AND 0x8000 \<noteq> 0"
    "i4_lease_address i =
       (if d4_message_type d = M4_OFFER \<or> d4_message_type d = M4_ACK then cf_dup_str (h4_yiaddr h) else [])"
    "i4_is_renewal i \<longleftrightarrow> d4_message_type d = M4_REQUEST \<and> cstr (d4_server_identifier d) = [] \<and>
       cstr (d4_requested_ip_address d) = [] \<and> \<not> i4_is_broadcast i"
    "i4_is_rebind i \<longleftrightarrow> d4_message_type d = M4_REQUEST \<and> cstr (d4_server_identifier d) = [] \<and>
       cstr (d4_requested_ip_address d) = [] \<and> i4_is_broadcast i"
    "cstr (h4_chaddr_mac h) \<noteq> [] \<Longrightarrow>
       i4_transaction_key i = snprintf 9 (hex_u32 (h4_xid h)) @ ''-'' @ cstr (h4_chaddr_mac h)"
    by (simp_all add: i cf_dup_str_def [of "[]"] cstr_def [of "[]"] snprintf_def length_hex_u32)
qed

text \<open>
  The interpretation reads the header as RFC 2131 has it: a packet counts as relayed exactly
  when giaddr is not 0.0.0.0, as broadcast exactly when the top bit of flags is set, and carries
  a lease address (yiaddr) exactly for OFFER and ACK; a REQUEST without server identifier and
  requested address is a renewal when unicast and a rebind when broadcast, and nothing else is.
\<close>

theorem dhcpv4_interpretation_derived:
  assumes "cf_dhcpv4_parse (Some payload) = Some (Some (ev, et))"
  shows "(i4_is_relayed (e4_interpretation ev) \<longleftrightarrow> take 4 (drop 24 payload) \<noteq> [0, 0, 0, 0]) \<and>
    (i4_is_broadcast (e4_interpretation ev) \<longleftrightarrow> bit (payload ! 10) 7) \<and>
    i4_lease_address (e4_interpretation ev) =
      (if d4_message_type (e4_decoded ev) \<in> {M4_OFFER, M4_ACK}
       then inet_ntop4 (take 4 (drop 16 payload)) else []) \<and>
    (i4_is_renewal (e4_interpretation ev) \<or> i4_is_rebind (e4_interpretation ev) \<longleftrightarrow>
       d4_message_type (e4_decoded ev) = M4_REQUEST \<and> cstr (d4_server_identifier (e4_decoded ev)) = [] \<and>
       cstr (d4_requested_ip_address (e4_decoded ev)) = []) \<and>
    (i4_is_rebind (e4_interpretation ev) \<longrightarrow> i4_is_broadcast (e4_interpretation ev)) \<and>
    (i4_is_renewal (e4_interpretation ev) \<longrightarrow> \<not> i4_is_broadcast (e4_interpretation ev))"
proof -
  note p = parse_header [OF assms] and h = header_fields [OF parse_header(1,2) [OF assms]]
  have "(inet_ntop4 (take 4 (drop 24 payload)) = ''0.0.0.0'') = (take 4 (drop 24 payload) = [0, 0, 0, 0])"
    using take4 [of "take 4 (drop 24 payload)"] p(1)
    by (auto simp: zero_text inet_ntop4_iff)
  then show ?thesis
    by (auto simp: interpretation_fields [OF p(3)] h flags_broadcast cstr_no_nul inet_ntop4_no_nul
        dup_str_no_nul)
qed

section \<open>The transaction key\<close>

lemma hex_u32_inj: "hex_u32 v = hex_u32 w \<longleftrightarrow> v = w"
proof
  assume "hex_u32 v = hex_u32 w"
  then have b: "(ucast (drop_bit 24 v) :: byte) = ucast (drop_bit 24 w)"
    "(ucast (drop_bit 16 v) :: byte) = ucast (drop_bit 16 w)"
    "(ucast (drop_bit 8 v) :: byte) = ucast (drop_bit 8 w)" "(ucast v :: byte) = ucast w"
    by (simp_all add: hex_u32_def hex_byte_append hex_byte_inj)
  show "v = w"
  proof (rule bit_word_eqI)
    fix n assume n: "n < LENGTH(32)"
    have k: "bit (ucast (drop_bit k v) :: byte) m = bit (ucast (drop_bit k w) :: byte) m \<Longrightarrow>
        m < 8 \<Longrightarrow> k + m = n \<Longrightarrow> bit v n = bit w n" for k m
      by (auto simp: bit_simps)
    consider "n < 8" | "8 \<le> n" "n < 16" | "16 \<le> n" "n < 24" | "24 \<le> n" "n < 32" using n by force
    then show "bit v n = bit w n"
    proof cases
      case 1
      then show ?thesis using arg_cong [OF b(4), of "\<lambda>x. bit x n"] by (simp add: bit_simps)
    qed (use k [of 8 "n - 8"] k [of 16 "n - 16"] k [of 24 "n - 24"] b in auto)
  qed
qed simp

lemma be32_inj: "be32 a b c d = be32 a' b' c' d' \<longleftrightarrow> a = a' \<and> b = b' \<and> c = c' \<and> d = d'"
proof
  assume eq: "be32 a b c d = be32 a' b' c' d'"
  have bits: "bit (be32 x y z u) n \<longleftrightarrow> (if n < 8 then bit u n else if n < 16 then bit z (n - 8)
      else if n < 24 then bit y (n - 16) else n < 32 \<and> bit x (n - 24))" for x y z u :: byte and n
    by (auto simp: be32_def bit_simps dest: bit_imp_le_length)
  have e: "bit (be32 a b c d) n = bit (be32 a' b' c' d') n" for n using eq by simp
  show "a = a' \<and> b = b' \<and> c = c' \<and> d = d'"
  proof (intro conjI bit_word_eqI)
    fix n assume "n < LENGTH(8)"
    then show "bit a n = bit a' n" "bit b n = bit b' n" "bit c n = bit c' n" "bit d n = bit d' n"
      using e [of "n + 24"] e [of "n + 16"] e [of "n + 8"] e [of n] by (simp_all add: bits)
  qed
qed simp

lemma transaction_key_eq:
  assumes "cf_dhcpv4_parse (Some payload) = Some (Some (ev, et))" "is_ethernet payload"
  shows "i4_transaction_key (e4_interpretation ev) =
    hex_u32 (be32 (payload ! 4) (payload ! 5) (payload ! 6) (payload ! 7)) @ ''-'' @
    cf_format_mac (take 6 (drop 28 payload))"
proof -
  note p = parse_header [OF assms(1)] and h = header_fields [OF parse_header(1,2) [OF assms(1)]]
  have "cf_format_mac (take 6 (drop 28 payload)) \<noteq> []" by (simp add: cf_format_mac_full)
  then show ?thesis
    using h assms(2)
    by (simp add: interpretation_fields(6) [OF p(3)] cstr_no_nul format_mac_no_nul snprintf_def
        length_hex_u32)
qed

text \<open>
  On Ethernet the transaction key identifies the exchange: two packets get the same key
  exactly when their transaction ids and hardware addresses agree.
\<close>

theorem dhcpv4_transaction_key:
  assumes "cf_dhcpv4_parse (Some p) = Some (Some (ev, et))" "is_ethernet p"
    and "cf_dhcpv4_parse (Some q) = Some (Some (ev', et'))" "is_ethernet q"
  shows "i4_transaction_key (e4_interpretation ev) = i4_transaction_key (e4_interpretation ev') \<longleftrightarrow>
    take 4 (drop 4 p) = take 4 (drop 4 q) \<and> take 6 (drop 28 p) = take 6 (drop 28 q)"
proof -
  have len: "236 \<le> length p" "236 \<le> length q" using parse_header(1) assms by blast+
  have t: "take 4 (drop 4 x) = [x ! 4, x ! 5, x ! 6, x ! 7]" if "236 \<le> length x" for x :: bytes
    using take4 [of "take 4 (drop 4 x)"] that by simp
  show ?thesis
    using len by (simp add: transaction_key_eq [OF assms(1,2)] transaction_key_eq [OF assms(3,4)]
        length_hex_u32 hex_u32_inj be32_inj format_mac_inj t)
qed


section \<open>A packet\<close>

text \<open>A DISCOVER of an Ethernet client with a route split over two fragments of option 121.\<close>

definition sample_header :: bytes where
  "sample_header = [1, 1, 6, 0, 0x39, 0x03, 0xf3, 0x26] @ replicate 228 0"

definition sample_options :: "(nat \<times> byte \<times> bytes) list" where
  "sample_options = [(0, 53, [1]), (1, 121, [24, 192, 0]), (0, 121, [2, 192, 0, 2, 1])]"

definition sample4_packet :: bytes where
  "sample4_packet = wire_packet sample_header sample_options [7]"

lemma sample_wire:
  "length sample_header = 236" "list_all wire_ok sample_options"
  "52 \<notin> (\<lambda>(n, c, v). c) ` set sample_options" "121 \<in> (\<lambda>(n, c, v). c) ` set sample_options"
  by (simp_all add: sample_header_def sample_options_def wire_ok_def)

lemma sample_length: "236 \<le> length sample4_packet"
  by (simp add: sample4_packet_def wire_packet_def sample_wire(1))

lemma sample_ethernet: "is_ethernet sample4_packet"
  by (simp add: is_ethernet_def sample4_packet_def wire_packet_def sample_header_def)

lemma sample_items:
  "packet_items sample4_packet =
    [\<lparr>ri_code = 53, ri_source_field = SF_OPTIONS, ri_ordinal = 0, ri_value = [1],
      ri_malformed = False, ri_long_option_fragment = False\<rparr>,
     \<lparr>ri_code = 121, ri_source_field = SF_OPTIONS, ri_ordinal = 1, ri_value = [24, 192, 0],
      ri_malformed = False, ri_long_option_fragment = False\<rparr>,
     \<lparr>ri_code = 121, ri_source_field = SF_OPTIONS, ri_ordinal = 2, ri_value = [2, 192, 0, 2, 1],
      ri_malformed = False, ri_long_option_fragment = False\<rparr>]"
  using wire_packet_options [OF sample_wire(1-3), of "[7]"]
  by (simp add: packet_items_def sample4_packet_def sample_options_def)

lemma sample_parses: obtains ev et where "cf_dhcpv4_parse (Some sample4_packet) = Some (Some (ev, et))"
  by (rule parse_spec [OF sample_length]) blast

theorem dhcpv4_raw_options_witness:
  "\<exists>ev et. cf_dhcpv4_parse (Some sample4_packet) = Some (Some (ev, et)) \<and>
     map (\<lambda>opt. (o4_code opt, o4_long_option_fragment opt)) (e4_raw_options ev) =
       [(53, False), (121, True), (121, True)]"
proof -
  obtain ev et where p: "cf_dhcpv4_parse (Some sample4_packet) = Some (Some (ev, et))" by (rule sample_parses)
  with dhcpv4_raw_options [OF p] show ?thesis by (simp add: sample_items opt_msg_def)
qed

theorem dhcpv4_decodes_concatenation_witness:
  "\<exists>ev et. cf_dhcpv4_parse (Some sample4_packet) = Some (Some (ev, et)) \<and>
     (\<exists>w w'. cf_dhcpv4_build_decoded (store_of (packet_frags sample4_packet)) w = Some (e4_decoded ev, w')) \<and>
     concat_map_get (store_of (packet_frags sample4_packet)) 121 = [24, 192, 0, 2, 192, 0, 2, 1]"
proof -
  obtain ev et where p: "cf_dhcpv4_parse (Some sample4_packet) = Some (Some (ev, et))" by (rule sample_parses)
  moreover have "concat_map_get (store_of (packet_frags sample4_packet)) 121 = [24, 192, 0, 2, 192, 0, 2, 1]"
    by (simp add: store_of_get fragments_def packet_frags_items sample_items)
  ultimately show ?thesis using dhcpv4_decodes_concatenation [OF p] by blast
qed

theorem dhcpv4_event_typed_witness:
  "\<exists>ev et. cf_dhcpv4_parse (Some sample4_packet) = Some (Some (ev, et)) \<and> event_wf ev \<and>
     et = i4_event_type (e4_interpretation ev)"
proof -
  obtain ev et where p: "cf_dhcpv4_parse (Some sample4_packet) = Some (Some (ev, et))" by (rule sample_parses)
  with dhcpv4_event_typed [OF p] show ?thesis by blast
qed

lemma sample_frags:
  "cf_dhcpv4_parse (Some sample4_packet) = Some (Some (ev, et)) \<Longrightarrow>
   concat (map o4_raw_value (filter (\<lambda>opt. o4_code opt = 53) (e4_raw_options ev))) = [1]"
  by (erule parse_result) (simp add: sample_items opt_msg_def)

theorem dhcpv4_event_type_witness:
  "\<exists>ev. cf_dhcpv4_parse (Some sample4_packet) = Some (Some (ev, ''dhcpv4.discover.observed''))"
proof -
  obtain ev et where p: "cf_dhcpv4_parse (Some sample4_packet) = Some (Some (ev, et))" by (rule sample_parses)
  from dhcpv4_event_type [OF p] have "et = ''dhcpv4.discover.observed''"
    by (simp add: sample_frags [OF p] message_type_of_def message_type_enum_def)
  with p show ?thesis by blast
qed

theorem dhcpv4_options_roundtrip_witness:
  "\<exists>ev et. cf_dhcpv4_parse (Some sample4_packet) = Some (Some (ev, et)) \<and>
     map (\<lambda>opt. (o4_code opt, o4_raw_value opt)) (e4_raw_options ev) =
       [(53, [1]), (121, [24, 192, 0]), (121, [2, 192, 0, 2, 1])]"
  using dhcpv4_options_roundtrip [OF sample_wire(1-3), of "[7]"]
  by (auto simp: sample4_packet_def sample_options_def)

theorem dhcpv4_routes_roundtrip_witness:
  "\<exists>ev et. cf_dhcpv4_parse (Some sample4_packet) = Some (Some (ev, et)) \<and>
     map (\<lambda>r. (rt_destination_prefix_length r, rt_router r)) (d4_classless_static_routes (e4_decoded ev)) =
       [(24, inet_ntop4 [192, 0, 2, 1])]"
proof -
  obtain ev et where p: "cf_dhcpv4_parse (Some sample4_packet) = Some (Some (ev, et))" by (rule sample_parses)
  have "concat (map (\<lambda>(n, c, v). v) (filter (\<lambda>(n, c, v). c = 121) sample_options)) =
      concat (map wire_route [(24, [192, 0, 2, 0], [192, 0, 2, 1])])"
    by (simp add: sample_options_def wire_route_def sig_octets_def)
  moreover have "list_all route_ok [(24, [192, 0, 2, 0], [192, 0, 2, 1])]"
    by (simp add: route_ok_def sig_octets_def)
  ultimately have "d4_classless_static_routes (e4_decoded ev) =
      map route_msg [(24, [192, 0, 2, 0], [192, 0, 2, 1])]"
    using p unfolding sample4_packet_def by (rule dhcpv4_routes_roundtrip [OF sample_wire])
  with p show ?thesis by (auto simp: route_msg_def)
qed

lemma sample_bytes:
  "take 4 (drop 24 sample4_packet) = [0, 0, 0, 0]" "sample4_packet ! 10 = 0"
  by (simp_all add: sample4_packet_def wire_packet_def sample_header_def nth_append) (simp add: numeral_eq_Suc)

theorem dhcpv4_interpretation_derived_witness:
  "\<exists>ev et. cf_dhcpv4_parse (Some sample4_packet) = Some (Some (ev, et)) \<and>
     \<not> i4_is_relayed (e4_interpretation ev) \<and> \<not> i4_is_broadcast (e4_interpretation ev)"
proof -
  obtain ev et where p: "cf_dhcpv4_parse (Some sample4_packet) = Some (Some (ev, et))" by (rule sample_parses)
  with dhcpv4_interpretation_derived [OF p] show ?thesis by (auto simp: sample_bytes)
qed

theorem dhcpv4_transaction_key_witness:
  "\<exists>ev et ev' et'. cf_dhcpv4_parse (Some sample4_packet) = Some (Some (ev, et)) \<and>
     cf_dhcpv4_parse (Some (sample4_packet @ [0])) = Some (Some (ev', et')) \<and>
     i4_transaction_key (e4_interpretation ev) = i4_transaction_key (e4_interpretation ev')"
proof -
  obtain ev et where p: "cf_dhcpv4_parse (Some sample4_packet) = Some (Some (ev, et))" by (rule sample_parses)
  have "236 \<le> length (sample4_packet @ [0])" using sample_length by simp
  then obtain ev' et' where q: "cf_dhcpv4_parse (Some (sample4_packet @ [0])) = Some (Some (ev', et'))"
    by (rule parse_spec) blast
  have e: "is_ethernet (sample4_packet @ [0])"
    using sample_ethernet sample_length by (simp add: is_ethernet_def nth_append)
  show ?thesis
    using p q dhcpv4_transaction_key [OF p sample_ethernet q e] sample_length by auto
qed

end
