(* ===== verification/Dhcpv6.thy ===== *)
theory Dhcpv6
  imports Dhcp_Util
begin

text \<open>
  The DHCPv6 parser, \<^verbatim>\<open>libs/cloudflow-packet/cf_dhcpv6.c\<close>, \<^verbatim>\<open>cf_dhcpv6_decode.c\<close> and
  \<^verbatim>\<open>cf_dhcpv6_optnames.c\<close>: the client/server and relay headers, the walk over the options, the
  decoded options with the addresses inside IA_NA and IA_TA, and the entry point.

  Conventions are those of the DHCPv4 model: \<open>None\<close> is an access outside a buffer or array, or
  of a variable that was left unset; an inner \<open>None\<close> is a NULL result. Allocations succeed.
\<close>

section \<open>Option names\<close>

definition dhcpv6_option_names :: "(nat \<times> string) list" where
  "dhcpv6_option_names = [
    (1, ''OPTION_CLIENTID''), (2, ''OPTION_SERVERID''), (3, ''OPTION_IA_NA''),
    (4, ''OPTION_IA_TA''), (5, ''OPTION_IAADDR''), (6, ''OPTION_ORO''),
    (7, ''OPTION_PREFERENCE''), (8, ''OPTION_ELAPSED_TIME''), (9, ''OPTION_RELAY_MSG''),
    (11, ''OPTION_AUTH''), (12, ''OPTION_UNICAST''), (13, ''OPTION_STATUS_CODE''),
    (14, ''OPTION_RAPID_COMMIT''), (15, ''OPTION_USER_CLASS''), (16, ''OPTION_VENDOR_CLASS''),
    (17, ''OPTION_VENDOR_OPTS''), (18, ''OPTION_INTERFACE_ID''), (19, ''OPTION_RECONF_MSG''),
    (20, ''OPTION_RECONF_ACCEPT''), (21, ''OPTION_SIP_SERVER_D''), (22, ''OPTION_SIP_SERVER_A''),
    (23, ''OPTION_DNS_SERVERS''), (24, ''OPTION_DOMAIN_LIST''), (25, ''OPTION_IA_PD''),
    (26, ''OPTION_IAPREFIX''), (27, ''OPTION_NIS_SERVERS''), (28, ''OPTION_NISP_SERVERS''),
    (29, ''OPTION_NIS_DOMAIN_NAME''), (30, ''OPTION_NISP_DOMAIN_NAME''),
    (31, ''OPTION_SNTP_SERVERS''), (32, ''OPTION_INFORMATION_REFRESH_TIME''),
    (33, ''OPTION_BCMCS_SERVER_D''), (34, ''OPTION_BCMCS_SERVER_A''),
    (36, ''OPTION_GEOCONF_CIVIC''), (37, ''OPTION_REMOTE_ID''), (38, ''OPTION_SUBSCRIBER_ID''),
    (39, ''OPTION_CLIENT_FQDN''), (40, ''OPTION_PANA_AGENT''),
    (41, ''OPTION_NEW_POSIX_TIMEZONE''), (42, ''OPTION_NEW_TZDB_TIMEZONE''),
    (43, ''OPTION_ERO''), (44, ''OPTION_LQ_QUERY''), (45, ''OPTION_CLIENT_DATA''),
    (46, ''OPTION_CLT_TIME''), (47, ''OPTION_LQ_RELAY_DATA''), (48, ''OPTION_LQ_CLIENT_LINK''),
    (49, ''OPTION_MIP6_HNIDF''), (50, ''OPTION_MIP6_VDINF''), (51, ''OPTION_V6_LOST''),
    (52, ''OPTION_CAPWAP_AC_V6''), (53, ''OPTION_RELAY_ID''), (54, ''OPTION-IPv6_Address-MoS''),
    (55, ''OPTION-IPv6_FQDN-MoS''), (56, ''OPTION_NTP_SERVER''),
    (57, ''OPTION_V6_ACCESS_DOMAIN''), (58, ''OPTION_SIP_UA_CS_LIST''),
    (59, ''OPT_BOOTFILE_URL''), (60, ''OPT_BOOTFILE_PARAM''), (61, ''OPTION_CLIENT_ARCH_TYPE''),
    (62, ''OPTION_NII''), (63, ''OPTION_GEOLOCATION''), (64, ''OPTION_AFTR_NAME''),
    (65, ''OPTION_ERP_LOCAL_DOMAIN_NAME''), (66, ''OPTION_DS_LITE_ADDRESS_ALTERNATE''),
    (67, ''OPTION_PD_EXCLUDE''), (68, ''OPTION_VSS''), (69, ''OPTION_MIP6_IDINF''),
    (70, ''OPTION_MIP6_UDINF''), (71, ''OPTION_MIP6_HNP''), (72, ''OPTION_MIP6_HAA''),
    (73, ''OPTION_MIP6_HAF''), (74, ''OPTION_RDNSS_SELECTION''),
    (79, ''OPTION_CLIENT_LINKLAYER_ADDR''), (80, ''OPTION_LINK_ADDRESS''),
    (81, ''OPTION_RADIUS''), (82, ''OPTION_SOL_MAX_RT''), (83, ''OPTION_INF_MAX_RT''),
    (84, ''OPTION_ADDRSEL''), (85, ''OPTION_ADDRSEL_TABLE''), (86, ''OPTION_V6_PCP_SERVER''),
    (87, ''OPTION_DHCPV4_MSG''), (88, ''OPTION_DHCP4_O_DHCP6_SERVER''),
    (89, ''OPTION_S46_RULE''), (90, ''OPTION_S46_BR''), (91, ''OPTION_S46_DMR''),
    (92, ''OPTION_S46_V4V6BIND''), (93, ''OPTION_S46_PORTPARAMS''),
    (94, ''OPTION_S46_CONT_MAPE''), (95, ''OPTION_S46_CONT_MAPT''), (96, ''OPTION_S46_CONT_LW''),
    (97, ''OPTION_4RD''), (98, ''OPTION_4RD_MAP_RULE''), (99, ''OPTION_4RD_NON_MAP_RULE''),
    (100, ''OPTION_LQ_BASE_TIME''), (101, ''OPTION_LQ_START_TIME''),
    (102, ''OPTION_LQ_END_TIME''), (103, ''OPTION_DHCP_STATE''), (104, ''OPTION_DATA_SOURCE''),
    (143, ''OPTION_IPV6_ADDRESS_ANDSF'')]"

definition cf_dhcpv6_option_name :: "u32 \<Rightarrow> string" where
  "cf_dhcpv6_option_name code =
    (case map_of dhcpv6_option_names (unat code) of Some s \<Rightarrow> s | None \<Rightarrow> [])"

section \<open>The header\<close>

abbreviation (input) DHCPV6_MSG_TYPE_OFF :: nat where "DHCPV6_MSG_TYPE_OFF \<equiv> 0"
abbreviation (input) DHCPV6_XID_OFF :: nat where "DHCPV6_XID_OFF \<equiv> 1"
abbreviation (input) DHCPV6_MIN_HEADER_LEN :: nat where "DHCPV6_MIN_HEADER_LEN \<equiv> 4"
abbreviation (input) DHCPV6_RELAY_HOPCOUNT_OFF :: nat where "DHCPV6_RELAY_HOPCOUNT_OFF \<equiv> 1"
abbreviation (input) DHCPV6_RELAY_LINKADDR_OFF :: nat where "DHCPV6_RELAY_LINKADDR_OFF \<equiv> 2"
abbreviation (input) DHCPV6_RELAY_PEERADDR_OFF :: nat where "DHCPV6_RELAY_PEERADDR_OFF \<equiv> 18"
abbreviation (input) DHCPV6_RELAY_FIXED_LEN :: nat where "DHCPV6_RELAY_FIXED_LEN \<equiv> 34"

datatype dhcpv6_message_type =
    M6_UNSPECIFIED | M6_SOLICIT | M6_ADVERTISE | M6_REQUEST | M6_CONFIRM | M6_RENEW | M6_REBIND
  | M6_REPLY | M6_RELEASE | M6_DECLINE | M6_RECONFIGURE | M6_INFORMATION_REQUEST | M6_RELAY_FORW
  | M6_RELAY_REPL | M6_LEASEQUERY | M6_LEASEQUERY_REPLY | M6_LEASEQUERY_DONE | M6_LEASEQUERY_DATA

text \<open>The enumerators in the order of their numbers, so that a cast is an index.\<close>

definition dhcpv6_message_types :: "dhcpv6_message_type list" where
  "dhcpv6_message_types =
    [M6_UNSPECIFIED, M6_SOLICIT, M6_ADVERTISE, M6_REQUEST, M6_CONFIRM, M6_RENEW, M6_REBIND, M6_REPLY,
     M6_RELEASE, M6_DECLINE, M6_RECONFIGURE, M6_INFORMATION_REQUEST, M6_RELAY_FORW, M6_RELAY_REPL,
     M6_LEASEQUERY, M6_LEASEQUERY_REPLY, M6_LEASEQUERY_DONE, M6_LEASEQUERY_DATA]"

definition is_relay_message_type :: "byte \<Rightarrow> bool" where
  "is_relay_message_type v \<longleftrightarrow> v = 12 \<or> v = 13"

definition dhcpv6_message_type_enum :: "byte \<Rightarrow> dhcpv6_message_type" where
  "dhcpv6_message_type_enum v =
    (if v \<ge> 1 \<and> v \<le> 17 then dhcpv6_message_types ! unat v else M6_UNSPECIFIED)"

record dhcpv6_header =
  h6_message_type :: dhcpv6_message_type
  h6_transaction_id :: u32
  h6_hop_count :: u32
  h6_link_address :: string
  h6_peer_address :: string

definition relay_address :: "bytes \<Rightarrow> nat \<Rightarrow> string option" where
  "relay_address payload off =
    (if length payload \<ge> off + 16 then do {
       ip \<leftarrow> rd_bytes payload off 16;
       Some (cf_dhcpv6_dup_str (cf_format_ip 6 ip)) }
     else Some [])"

text \<open>The header with the offset of the options.\<close>

definition dhcpv6_build_header :: "bytes \<Rightarrow> (dhcpv6_header \<times> nat) option" where
  "dhcpv6_build_header payload = do {
     msg_type_raw \<leftarrow> rd payload DHCPV6_MSG_TYPE_OFF;
     let hdr = \<lparr>h6_message_type = dhcpv6_message_type_enum msg_type_raw, h6_transaction_id = 0,
                h6_hop_count = 0, h6_link_address = [], h6_peer_address = []\<rparr>;
     if is_relay_message_type msg_type_raw then do {
       hop \<leftarrow> cf_dhcpv6_get_u8 payload DHCPV6_RELAY_HOPCOUNT_OFF;
       link \<leftarrow> relay_address payload DHCPV6_RELAY_LINKADDR_OFF;
       peer \<leftarrow> relay_address payload DHCPV6_RELAY_PEERADDR_OFF;
       Some (hdr\<lparr>h6_hop_count := (case hop of Some h \<Rightarrow> ucast h | None \<Rightarrow> 0),
               h6_link_address := link, h6_peer_address := peer\<rparr>, DHCPV6_RELAY_FIXED_LEN) }
     else do {
       xid \<leftarrow> cf_dhcpv6_get_be24 payload DHCPV6_XID_OFF;
       Some (hdr\<lparr>h6_transaction_id := (case xid of Some x \<Rightarrow> x | None \<Rightarrow> 0)\<rparr>, DHCPV6_MIN_HEADER_LEN) } }"

section \<open>The raw option walk\<close>

record raw_item6 =
  r6_code :: u32
  r6_ordinal :: u32
  r6_value :: bytes
  r6_malformed :: bool

definition cf_dhcpv6_raw_item_list_append ::
  "raw_item6 vec \<Rightarrow> u32 \<Rightarrow> u32 \<Rightarrow> cptr \<Rightarrow> nat \<Rightarrow> bool \<Rightarrow> raw_item6 vec option" where
  "cf_dhcpv6_raw_item_list_append list code ordinal value value_len malformed = do {
     bs \<leftarrow> (case value of
             Some (buf, off) \<Rightarrow> if value_len > 0 then rd_bytes buf off value_len else Some []
           | None \<Rightarrow> Some []);
     vec_push 8 list \<lparr>r6_code = code, r6_ordinal = ordinal, r6_value = bs, r6_malformed = malformed\<rparr> }"

definition raw_path6 :: "nat \<Rightarrow> string" where
  "raw_path6 n = snprintf 40 (''raw_options['' @ dec_string n @ '']'')"

text \<open>The branch for an option whose 4-byte header is cut off: the code is recovered when both
  of its bytes are there, and the bytes of the partial header become the value.\<close>

definition walk6_truncated ::
  "bytes \<Rightarrow> nat \<Rightarrow> nat \<Rightarrow> u32 \<Rightarrow> raw_item6 vec \<Rightarrow> cf_warn_list \<Rightarrow> (raw_item6 vec \<times> cf_warn_list) option" where
  "walk6_truncated buf off rest ordinal list warnings = do {
     code \<leftarrow> (if 2 \<le> rest then do { a \<leftarrow> rd buf off; b \<leftarrow> rd buf (off + 1); Some (be16 a b) } else Some 0);
     warnings \<leftarrow> cf_dhcpv6_warn warnings ''opt_missing_header''
       ''option present but truncated before its 4-byte code/length header''
       (raw_path6 (length (vec_items list))) (Some (buf, off)) rest;
     list \<leftarrow> cf_dhcpv6_raw_item_list_append list (ucast code) ordinal (Some (buf, off)) rest True;
     Some (list, warnings) }"

text \<open>The field is the \<open>field_len\<close> bytes of \<open>buf\<close> from \<open>base\<close> on.\<close>

function walk6_loop ::
  "bytes \<Rightarrow> nat \<Rightarrow> nat \<Rightarrow> nat \<Rightarrow> u32 \<Rightarrow> raw_item6 vec \<Rightarrow> cf_warn_list \<Rightarrow>
   (raw_item6 vec \<times> cf_warn_list) option" where
  "walk6_loop buf base field_len pos ordinal list warnings =
    (if pos < field_len then
       if pos + 4 > field_len then
         walk6_truncated buf (base + pos) (field_len - pos) ordinal list warnings
       else case rd buf (base + pos) of None \<Rightarrow> None | Some c1 \<Rightarrow>
       case rd buf (base + (pos + 1)) of None \<Rightarrow> None | Some c2 \<Rightarrow>
       case rd buf (base + (pos + 2)) of None \<Rightarrow> None | Some l1 \<Rightarrow>
       case rd buf (base + (pos + 3)) of None \<Rightarrow> None | Some l2 \<Rightarrow>
       let avail = field_len - (pos + 4);
           declared_len = unat (be16 l1 l2);
           malformed = declared_len > avail;
           use_len = (if malformed then avail else declared_len)
       in case cf_dhcpv6_raw_item_list_append list (ucast (be16 c1 c2)) ordinal
                 (Some (buf, base + (pos + 4))) use_len malformed of None \<Rightarrow> None | Some list' \<Rightarrow>
          case (if malformed then cf_dhcpv6_warn warnings ''opt_len_overrun''
                  ''option length exceeds remaining bytes in this field''
                  (raw_path6 (length (vec_items list))) (Some (buf, base + (pos + 4))) use_len
                else Some warnings) of None \<Rightarrow> None | Some warnings \<Rightarrow>
          if malformed then Some (list', warnings)
          else walk6_loop buf base field_len (pos + (4 + use_len)) (ordinal + 1) list' warnings
     else Some (list, warnings))"
  by pat_completeness auto
termination by (relation "measure (\<lambda>(buf, base, field_len, pos, ordinal, l, w). field_len - pos)") auto

declare walk6_loop.simps [simp del]

definition walk_options ::
  "bytes \<Rightarrow> nat \<Rightarrow> nat \<Rightarrow> raw_item6 vec \<Rightarrow> cf_warn_list \<Rightarrow> (raw_item6 vec \<times> cf_warn_list) option" where
  "walk_options buf base field_len list warnings = walk6_loop buf base field_len 0 0 list warnings"

section \<open>Decoded options\<close>

record dhcpv6_vendor_suboption =
  v6_code :: u32
  v6_length :: u32
  v6_raw_value :: bytes
  v6_decoded_value :: string

record dhcpv6_vendor_options =
  vo_enterprise_number :: u32
  vo_raw_value :: bytes
  vo_suboptions :: "dhcpv6_vendor_suboption list"

record dhcpv6_decoded =
  d6_client_duid :: bytes
  d6_server_duid :: bytes
  d6_assigned_addresses :: "string list"
  d6_option_request_option_codes :: "u32 list"
  d6_vendor_class :: string
  d6_vendor_options :: "dhcpv6_vendor_options option"

abbreviation (input) OPT_CLIENTID :: u32 where "OPT_CLIENTID \<equiv> 1"
abbreviation (input) OPT_SERVERID :: u32 where "OPT_SERVERID \<equiv> 2"
abbreviation (input) OPT_IA_NA :: u32 where "OPT_IA_NA \<equiv> 3"
abbreviation (input) OPT_IA_TA :: u32 where "OPT_IA_TA \<equiv> 4"
abbreviation (input) OPT_IAADDR :: u16 where "OPT_IAADDR \<equiv> 5"
abbreviation (input) OPT_ORO :: u32 where "OPT_ORO \<equiv> 6"
abbreviation (input) OPT_VENDOR_CLASS :: u32 where "OPT_VENDOR_CLASS \<equiv> 16"
abbreviation (input) OPT_VENDOR_OPTS :: u32 where "OPT_VENDOR_OPTS \<equiv> 17"

text \<open>The suboption at \<open>pos\<close> inside an IA, when it is an address.\<close>

definition collect_one ::
  "bytes \<Rightarrow> nat \<Rightarrow> u16 \<Rightarrow> nat \<Rightarrow> string vec \<Rightarrow> cf_warn_list \<Rightarrow> (string vec \<times> cf_warn_list) option" where
  "collect_one data pos code use_len addrs warnings =
    (if code = OPT_IAADDR then
       if use_len \<ge> 16 then do {
         addr \<leftarrow> cf_dhcpv6_format_ipv6 data (pos + 4);
         addrs \<leftarrow> vec_push 4 addrs addr;
         Some (addrs, warnings) }
       else do {
         warnings \<leftarrow> cf_dhcpv6_warn warnings ''iaaddr_len_short''
           ''IAADDR suboption shorter than its 24-byte address/lifetimes''
           ''decoded.assigned_addresses'' (Some (data, pos)) (length data - pos);
         Some (addrs, warnings) }
     else Some (addrs, warnings))"

function collect_loop ::
  "bytes \<Rightarrow> nat \<Rightarrow> string vec \<Rightarrow> cf_warn_list \<Rightarrow> (string vec \<times> cf_warn_list) option" where
  "collect_loop data pos addrs warnings =
    (if pos + 4 \<le> length data then
       case rd data pos of None \<Rightarrow> None | Some c1 \<Rightarrow>
       case rd data (pos + 1) of None \<Rightarrow> None | Some c2 \<Rightarrow>
       case rd data (pos + 2) of None \<Rightarrow> None | Some l1 \<Rightarrow>
       case rd data (pos + 3) of None \<Rightarrow> None | Some l2 \<Rightarrow>
       let avail = length data - (pos + 4);
           declared_len = unat (be16 l1 l2);
           malformed = declared_len > avail;
           use_len = (if malformed then avail else declared_len)
       in case collect_one data pos (be16 c1 c2) use_len addrs warnings of
            None \<Rightarrow> None
          | Some (addrs, warnings) \<Rightarrow>
              if malformed then do {
                warnings \<leftarrow> cf_dhcpv6_warn warnings ''opt_len_overrun''
                  ''IA suboption length exceeds remaining IA option bytes''
                  ''decoded.assigned_addresses'' (Some (data, pos)) (length data - pos);
                Some (addrs, warnings) }
              else collect_loop data (pos + (4 + use_len)) addrs warnings
     else Some (addrs, warnings))"
  by pat_completeness auto
termination by (relation "measure (\<lambda>(data, pos, a, w). length data - pos)") auto

declare collect_loop.simps [simp del]

definition collect_addresses_from_ia ::
  "bytes \<Rightarrow> bool \<Rightarrow> string vec \<Rightarrow> cf_warn_list \<Rightarrow> (string vec \<times> cf_warn_list) option" where
  "collect_addresses_from_ia data is_ia_na addrs warnings =
    (let hdr_len = (if is_ia_na then 12 else 4) in
     if length data < hdr_len then do {
       warnings \<leftarrow> cf_dhcpv6_warn warnings ''ia_len_short''
         (if is_ia_na then ''IA_NA option shorter than its 12-byte IAID/T1/T2 header''
          else ''IA_TA option shorter than its 4-byte IAID header'')
         ''decoded.assigned_addresses'' (Some (data, 0)) (length data);
       Some (addrs, warnings) }
     else collect_loop data hdr_len addrs warnings)"

definition printable_or_hex6 :: "bytes \<Rightarrow> nat \<Rightarrow> nat \<Rightarrow> string option" where
  "printable_or_hex6 data off len = do {
     p \<leftarrow> cf_dhcpv6_is_printable data off len;
     if p then cf_dhcpv6_dup_strn (Some (data, off)) len
     else cf_dhcpv6_hex_encode (Some (data, off)) len }"

definition decode_vendor_class ::
  "bytes \<Rightarrow> dhcpv6_decoded \<Rightarrow> cf_warn_list \<Rightarrow> (dhcpv6_decoded \<times> cf_warn_list) option" where
  "decode_vendor_class data d warnings =
    (let len = length data in
     if len < 4 then do {
       warnings \<leftarrow> cf_dhcpv6_warn warnings ''opt_len_short''
         ''option 16 (vendor class) shorter than its 4-byte enterprise number''
         ''decoded.vendor_class'' (Some (data, 0)) len;
       Some (d, warnings) }
     else if 4 + 2 > len then
       if 4 < len then do {
         warnings \<leftarrow> cf_dhcpv6_warn warnings ''opt_len_short''
           ''vendor-class-data present but truncated before its length''
           ''decoded.vendor_class'' (Some (data, 4)) (len - 4);
         Some (d, warnings) }
       else Some (d, warnings)
     else do {
       l1 \<leftarrow> rd data 4; l2 \<leftarrow> rd data 5;
       let avail = len - (4 + 2);
       let chunk_len = unat (be16 l1 l2);
       let use_len = (if chunk_len > avail then avail else chunk_len);
       warnings \<leftarrow>
         (if chunk_len > avail then cf_dhcpv6_warn warnings ''opt_len_overrun''
            ''vendor-class-data length exceeds remaining option bytes''
            ''decoded.vendor_class'' (Some (data, 4 + 2)) avail
          else Some warnings);
       if use_len > 0 then do {
         s \<leftarrow> printable_or_hex6 data (4 + 2) use_len;
         Some (d\<lparr>d6_vendor_class := s\<rparr>, warnings) }
       else Some (d, warnings) })"

function vendor6_loop ::
  "bytes \<Rightarrow> nat \<Rightarrow> dhcpv6_vendor_suboption vec \<Rightarrow> cf_warn_list \<Rightarrow>
   (dhcpv6_vendor_suboption vec \<times> cf_warn_list) option" where
  "vendor6_loop data pos arr warnings =
    (if pos + 4 \<le> length data then
       case rd data pos of None \<Rightarrow> None | Some c1 \<Rightarrow>
       case rd data (pos + 1) of None \<Rightarrow> None | Some c2 \<Rightarrow>
       case rd data (pos + 2) of None \<Rightarrow> None | Some l1 \<Rightarrow>
       case rd data (pos + 3) of None \<Rightarrow> None | Some l2 \<Rightarrow>
       let avail = length data - (pos + 4);
           declared_len = unat (be16 l1 l2);
           malformed = declared_len > avail;
           use_len = (if malformed then avail else declared_len)
       in case cf_dhcpv6_set_bytes (Some (data, pos + 4)) use_len of None \<Rightarrow> None | Some raw \<Rightarrow>
          case printable_or_hex6 data (pos + 4) use_len of None \<Rightarrow> None | Some text \<Rightarrow>
          case (if malformed then cf_dhcpv6_warn warnings ''opt_len_overrun''
                  ''vendor suboption length exceeds remaining option bytes''
                  ''decoded.vendor_options.suboptions'' (Some (data, pos + 4)) use_len
                else Some warnings) of None \<Rightarrow> None | Some warnings \<Rightarrow>
          case vec_push 4 arr \<lparr>v6_code = ucast (be16 c1 c2), v6_length = of_nat use_len,
                 v6_raw_value = raw, v6_decoded_value = text\<rparr> of
            None \<Rightarrow> None
          | Some arr \<Rightarrow>
              if malformed then Some (arr, warnings)
              else vendor6_loop data (pos + (4 + use_len)) arr warnings
     else Some (arr, warnings))"
  by pat_completeness auto
termination by (relation "measure (\<lambda>(data, pos, a, w). length data - pos)") auto

declare vendor6_loop.simps [simp del]

definition decode_vendor_options ::
  "bytes \<Rightarrow> dhcpv6_decoded \<Rightarrow> cf_warn_list \<Rightarrow> (dhcpv6_decoded \<times> cf_warn_list) option" where
  "decode_vendor_options data d warnings = do {
     raw \<leftarrow> cf_dhcpv6_set_bytes (Some (data, 0)) (length data);
     let vo = \<lparr>vo_enterprise_number = 0, vo_raw_value = raw, vo_suboptions = []\<rparr>;
     if length data < 4 then do {
       warnings \<leftarrow> cf_dhcpv6_warn warnings ''opt_len_short''
         ''option 17 (vendor-specific info) shorter than its 4-byte enterprise number''
         ''decoded.vendor_options'' (Some (data, 0)) (length data);
       Some (d\<lparr>d6_vendor_options := Some vo\<rparr>, warnings) }
     else do {
       a \<leftarrow> rd data 0; b \<leftarrow> rd data 1; c \<leftarrow> rd data 2; e \<leftarrow> rd data 3;
       (arr, warnings) \<leftarrow> vendor6_loop data 4 vec_init warnings;
       Some (d\<lparr>d6_vendor_options := Some (vo\<lparr>vo_enterprise_number := be32 a b c e,
               vo_suboptions := vec_items arr\<rparr>)\<rparr>, warnings) } }"

definition append_u32 :: "u32 vec \<Rightarrow> u32 \<Rightarrow> u32 vec option" where
  "append_u32 arr v = vec_push 8 arr v"

text \<open>The codes of an option request option, \<open>n\<close> of them from the \<open>j\<close>-th on.\<close>

fun oro_loop :: "bytes \<Rightarrow> nat \<Rightarrow> nat \<Rightarrow> u32 vec \<Rightarrow> u32 vec option" where
  "oro_loop value j 0 oro = Some oro"
| "oro_loop value j (Suc n) oro = do {
     a \<leftarrow> rd value (2 * j);
     b \<leftarrow> rd value (2 * j + 1);
     oro \<leftarrow> append_u32 oro (ucast (be16 a b));
     oro_loop value (j + 1) n oro }"

record dec6 =
  ds_d :: dhcpv6_decoded
  ds_addrs :: "string vec"
  ds_oro :: "u32 vec"
  ds_have_client_duid :: bool
  ds_have_server_duid :: bool
  ds_have_vendor_class :: bool
  ds_have_vendor_opts :: bool
  ds_warnings :: cf_warn_list

definition dec6_init :: "cf_warn_list \<Rightarrow> dec6" where
  "dec6_init warnings = \<lparr>ds_d = \<lparr>d6_client_duid = [], d6_server_duid = [], d6_assigned_addresses = [],
       d6_option_request_option_codes = [], d6_vendor_class = [], d6_vendor_options = None\<rparr>,
     ds_addrs = vec_init, ds_oro = vec_init, ds_have_client_duid = False,
     ds_have_server_duid = False, ds_have_vendor_class = False, ds_have_vendor_opts = False,
     ds_warnings = warnings\<rparr>"

definition dec6_ia :: "bool \<Rightarrow> bytes \<Rightarrow> dec6 \<Rightarrow> dec6 option" where
  "dec6_ia is_ia_na value s = do {
     (addrs, w) \<leftarrow> collect_addresses_from_ia value is_ia_na (ds_addrs s) (ds_warnings s);
     Some (s\<lparr>ds_addrs := addrs, ds_warnings := w\<rparr>) }"

definition dec6_oro :: "bytes \<Rightarrow> dec6 \<Rightarrow> dec6 option" where
  "dec6_oro value s = do {
     w \<leftarrow> (if length value mod 2 \<noteq> 0 then cf_dhcpv6_warn (ds_warnings s) ''opt_len_invalid''
            ''option request option length is not a multiple of 2 bytes''
            ''decoded.option_request_option_codes'' (Some (value, 0)) (length value)
          else Some (ds_warnings s));
     oro \<leftarrow> oro_loop value 0 (length value div 2) (ds_oro s);
     Some (s\<lparr>ds_oro := oro, ds_warnings := w\<rparr>) }"

text \<open>One iteration: the switch over the code of an item.\<close>

definition dec6_item :: "raw_item6 \<Rightarrow> dec6 \<Rightarrow> dec6 option" where
  "dec6_item it s =
    (let value = r6_value it; code = r6_code it in
     if code = OPT_CLIENTID then
       if \<not> ds_have_client_duid s then do {
         b \<leftarrow> cf_dhcpv6_set_bytes (Some (value, 0)) (length value);
         Some (s\<lparr>ds_d := (ds_d s)\<lparr>d6_client_duid := b\<rparr>, ds_have_client_duid := True\<rparr>) }
       else Some s
     else if code = OPT_SERVERID then
       if \<not> ds_have_server_duid s then do {
         b \<leftarrow> cf_dhcpv6_set_bytes (Some (value, 0)) (length value);
         Some (s\<lparr>ds_d := (ds_d s)\<lparr>d6_server_duid := b\<rparr>, ds_have_server_duid := True\<rparr>) }
       else Some s
     else if code = OPT_IA_NA then dec6_ia True value s
     else if code = OPT_IA_TA then dec6_ia False value s
     else if code = OPT_ORO then dec6_oro value s
     else if code = OPT_VENDOR_CLASS then
       if \<not> ds_have_vendor_class s then do {
         (d, w) \<leftarrow> decode_vendor_class value (ds_d s) (ds_warnings s);
         Some (s\<lparr>ds_d := d, ds_warnings := w, ds_have_vendor_class := True\<rparr>) }
       else Some s
     else if code = OPT_VENDOR_OPTS then
       if \<not> ds_have_vendor_opts s then do {
         (d, w) \<leftarrow> decode_vendor_options value (ds_d s) (ds_warnings s);
         Some (s\<lparr>ds_d := d, ds_warnings := w, ds_have_vendor_opts := True\<rparr>) }
       else Some s
     else Some s)"

fun dec6_items :: "raw_item6 list \<Rightarrow> dec6 \<Rightarrow> dec6 option" where
  "dec6_items [] s = Some s"
| "dec6_items (it # its) s = do { s \<leftarrow> dec6_item it s; dec6_items its s }"

definition cf_dhcpv6_build_decoded ::
  "raw_item6 list \<Rightarrow> cf_warn_list \<Rightarrow> (dhcpv6_decoded \<times> cf_warn_list) option" where
  "cf_dhcpv6_build_decoded items warnings = do {
     s \<leftarrow> dec6_items items (dec6_init warnings);
     Some ((ds_d s)\<lparr>d6_assigned_addresses := vec_items (ds_addrs s),
             d6_option_request_option_codes := vec_items (ds_oro s)\<rparr>, ds_warnings s) }"

section \<open>The entry point\<close>

definition dhcpv6_event_type :: "dhcpv6_message_type \<Rightarrow> string" where
  "dhcpv6_event_type mt = (case mt of
     M6_SOLICIT \<Rightarrow> ''dhcpv6.solicit.observed''
   | M6_ADVERTISE \<Rightarrow> ''dhcpv6.advertise.observed''
   | M6_REQUEST \<Rightarrow> ''dhcpv6.request.observed''
   | M6_CONFIRM \<Rightarrow> ''dhcpv6.confirm.observed''
   | M6_RENEW \<Rightarrow> ''dhcpv6.renew.observed''
   | M6_REBIND \<Rightarrow> ''dhcpv6.rebind.observed''
   | M6_REPLY \<Rightarrow> ''dhcpv6.reply.observed''
   | M6_RELEASE \<Rightarrow> ''dhcpv6.release.observed''
   | M6_DECLINE \<Rightarrow> ''dhcpv6.decline.observed''
   | M6_RECONFIGURE \<Rightarrow> ''dhcpv6.reconfigure.observed''
   | M6_INFORMATION_REQUEST \<Rightarrow> ''dhcpv6.information-request.observed''
   | M6_RELAY_FORW \<Rightarrow> ''dhcpv6.relay-forw.observed''
   | M6_RELAY_REPL \<Rightarrow> ''dhcpv6.relay-repl.observed''
   | _ \<Rightarrow> ''dhcpv6.packet.observed'')"

record dhcpv6_option =
  o6_code :: u32
  o6_name :: string
  o6_length :: u32
  o6_raw_value :: bytes
  o6_ordinal :: u32
  o6_malformed :: bool

record dhcpv6_event =
  e6_header :: dhcpv6_header
  e6_raw_options :: "dhcpv6_option list"
  e6_decoded :: dhcpv6_decoded
  e6_parser_warnings :: "parser_warning list"
  e6_raw_dhcp_payload :: bytes
  e6_raw_payload_truncated :: bool

definition option6_of_item :: "raw_item6 \<Rightarrow> dhcpv6_option option" where
  "option6_of_item src = do {
     raw \<leftarrow> cf_dhcpv6_set_bytes (Some (r6_value src, 0)) (length (r6_value src));
     Some \<lparr>o6_code = r6_code src, o6_name = cf_dhcpv6_dup_str (cf_dhcpv6_option_name (r6_code src)),
       o6_length = of_nat (length (r6_value src)), o6_raw_value = raw, o6_ordinal = r6_ordinal src,
       o6_malformed = r6_malformed src\<rparr> }"

fun options6_of_items :: "raw_item6 list \<Rightarrow> dhcpv6_option list option" where
  "options6_of_items [] = Some []"
| "options6_of_items (it # its) =
    do { opt \<leftarrow> option6_of_item it; opts \<leftarrow> options6_of_items its; Some (opt # opts) }"

definition cf_dhcpv6_parse :: "bytes option \<Rightarrow> (dhcpv6_event \<times> string) option option" where
  "cf_dhcpv6_parse p =
    (case p of None \<Rightarrow> Some None
     | Some payload \<Rightarrow>
       if length payload < DHCPV6_MIN_HEADER_LEN then Some None
       else do {
         (hdr, options_offset) \<leftarrow> dhcpv6_build_header payload;
         (items, warnings) \<leftarrow>
           (if length payload > options_offset
            then walk_options payload options_offset (length payload - options_offset) vec_init
                   cf_dhcpv6_warn_list_init
            else Some (vec_init, cf_dhcpv6_warn_list_init));
         (decoded, warnings) \<leftarrow> cf_dhcpv6_build_decoded (vec_items items) warnings;
         opts \<leftarrow> options6_of_items (vec_items items);
         raw \<leftarrow> cf_dhcpv6_set_bytes (Some (payload, 0)) (length payload);
         Some (Some (\<lparr>e6_header = hdr, e6_raw_options = opts, e6_decoded = decoded,
           e6_parser_warnings = fst (cf_dhcpv6_warn_list_take warnings),
           e6_raw_dhcp_payload = raw, e6_raw_payload_truncated = False\<rparr>,
           dhcpv6_event_type (h6_message_type hdr))) })"

end
