(* ===== verification/Dhcpv6_Parse.thy ===== *)
theory Dhcpv6_Parse
  imports Dhcpv6_Walk Ip_Text
begin

text \<open>
  The DHCPv6 parser as a whole: the decoders against what the reference parser finds in their
  data, and the entry point against both.
\<close>

section \<open>Addresses of an IA\<close>

definition ip6_text :: "bytes \<Rightarrow> string" where
  "ip6_text ip = cf_dup_str (cf_format_ip 6 ip)"

text \<open>The addresses among the suboptions: those of code 5 with at least 16 bytes.\<close>

definition addresses :: "wire_option6 list \<Rightarrow> string list" where
  "addresses os = map (\<lambda>(c, v, s). ip6_text (take 16 v)) (filter (\<lambda>(c, v, s). c = 5 \<and> 16 \<le> length v) os)"

lemma addresses_Cons:
  "addresses ((c, v, s) # os) =
    (if c = 5 \<and> 16 \<le> length v then [ip6_text (take 16 v)] else []) @ addresses os"
  by (simp add: addresses_def)

lemma collect_one_spec:
  assumes "vec_ok addrs" "pos + 4 + n \<le> length data"
  shows "\<exists>a w'. collect_one data pos c n addrs w = Some (a, w') \<and> vec_ok a \<and> warn_grows w w' \<and>
    vec_items a = vec_items addrs @ addresses [(c, take n (drop (pos + 4) data), s)]"
  using assms by (auto simp: collect_one_def dhcp_mirror addresses_def ip6_text_def min_def)

text \<open>The bytes of an option header at \<open>pos\<close>, and what the walks make of them.\<close>

abbreviation (input) hdr_code :: "bytes \<Rightarrow> nat \<Rightarrow> u16" where
  "hdr_code d pos \<equiv> be16 (d ! pos) (d ! (pos + 1))"

abbreviation (input) hdr_len :: "bytes \<Rightarrow> nat \<Rightarrow> nat" where
  "hdr_len d pos \<equiv> unat (be16 (d ! (pos + 2)) (d ! (pos + 3)))"

lemma hdr_reads:
  assumes "pos + 4 \<le> length d"
  shows "rd d pos = Some (d ! pos)" "rd d (pos + 1) = Some (d ! (pos + 1))"
    "rd d (pos + 2) = Some (d ! (pos + 2))" "rd d (pos + 3) = Some (d ! (pos + 3))"
  using assms by simp_all

lemma scan6_drop:
  assumes "pos + 4 \<le> length d"
  shows "scan6 (drop pos d) =
    (if hdr_len d pos > length d - (pos + 4) then [(hdr_code d pos, drop (pos + 4) d, Overrun)]
     else (hdr_code d pos, take (hdr_len d pos) (drop (pos + 4) d), Complete) #
       scan6 (drop (pos + (4 + hdr_len d pos)) d))"
  using assms scan6_option [of "length d - pos" pos d] by (simp add: Let_def add.assoc)

lemma scan6_drop_short:
  assumes "\<not> pos + 4 \<le> length d"
  shows "list_all (\<lambda>(c, v, s). s = Truncated \<and> length v < 4) (scan6 (drop pos d))"
  using assms by (subst scan6.simps) auto

lemma collect_loop_spec:
  assumes "vec_ok addrs"
  shows "\<exists>a w'. collect_loop data pos addrs w = Some (a, w') \<and> vec_ok a \<and> warn_grows w w' \<and>
    vec_items a = vec_items addrs @ addresses (scan6 (drop pos data))"
  using assms
proof (induction data pos addrs w rule: collect_loop.induct)
  case (1 data pos addrs w)
  show ?case
  proof (cases "pos + 4 \<le> length data")
    case False
    have "addresses (scan6 (drop pos data)) = []"
      using scan6_drop_short [OF False] by (auto simp: addresses_def filter_empty_conv list_all_iff)
    then show ?thesis using False "1.prems" by (subst collect_loop.simps) simp
  next
    case True
    let ?c = "hdr_code data pos" let ?k = "hdr_len data pos" let ?a = "length data - (pos + 4)"
    let ?m = "?k > ?a" let ?u = "if ?m then ?a else ?k"
    let ?o = "(?c, take ?u (drop (pos + 4) data), Complete)"
    note r = hdr_reads [OF True]
    have "pos + 4 + ?u \<le> length data" using True by auto
    from collect_one_spec [OF "1.prems" this, of ?c w Complete] obtain a w' where
      o: "collect_one data pos ?c ?u addrs w = Some (a, w')" "vec_ok a" "warn_grows w w'"
        "vec_items a = vec_items addrs @ addresses [?o]" by blast
    have step: "collect_loop data pos addrs w =
        (if ?m then do {
           w' \<leftarrow> cf_dhcpv6_warn w' ''opt_len_overrun''
             ''IA suboption length exceeds remaining IA option bytes''
             ''decoded.assigned_addresses'' (Some (data, pos)) (length data - pos);
           Some (a, w') }
         else collect_loop data (pos + (4 + ?u)) a w')"
      using True by (subst collect_loop.simps) (simp only: r o(1) if_True option.case prod.case Let_def)
    show ?thesis
    proof (cases ?m)
      case m: True
      have "warn_grows w (warned w' c m p (clip bs))" for c m p bs using o(3) warn_grows_trans by fastforce
      then show ?thesis
        unfolding step scan6_drop [OF True] using m True o(2,4)
        by (simp only: if_True) (simp add: dhcp_mirror addresses_Cons)
    next
      case m: False
      have "\<exists>a' w''. collect_loop data (pos + (4 + ?u)) a w' = Some (a', w'') \<and> vec_ok a' \<and> warn_grows w' w'' \<and>
          vec_items a' = vec_items a @ addresses (scan6 (drop (pos + (4 + ?u)) data))"
        by (rule "1.IH" [OF True r refl refl refl refl o(1) refl m o(2)])
      then show ?thesis
        unfolding step scan6_drop [OF True] addresses_Cons using m o(3,4) warn_grows_trans [of w w']
        by (simp only: if_False addresses_Cons) (auto simp: addresses_def)
    qed
  qed
qed

definition ia_addresses :: "bool \<Rightarrow> bytes \<Rightarrow> string list" where
  "ia_addresses is_ia_na data =
    (let n = (if is_ia_na then 12 else 4) in
     if length data < n then [] else addresses (scan6 (drop n data)))"

lemma collect_addresses_spec:
  assumes "vec_ok addrs"
  shows "\<exists>a w'. collect_addresses_from_ia data na addrs w = Some (a, w') \<and> vec_ok a \<and> warn_grows w w' \<and>
    vec_items a = vec_items addrs @ ia_addresses na data"
  using assms collect_loop_spec [OF assms, of data "if na then 12 else 4" w]
  by (auto simp: collect_addresses_from_ia_def ia_addresses_def Let_def dhcp_mirror)

section \<open>Vendor options\<close>

lemma printable_or_hex6_eq:
  "off + n \<le> length data \<Longrightarrow> printable_or_hex6 data off n = Some (sub_text (take n (drop off data)))"
  by (simp add: printable_or_hex6_def dhcp_mirror sub_text_def)

definition vendor_class_of :: "bytes \<Rightarrow> string" where
  "vendor_class_of data =
    (if length data < 6 then []
     else sub_text (take (unat (be16 (data ! 4) (data ! 5))) (drop 6 data)))"

lemma sub_text_Nil [simp]: "sub_text [] = []"
  by (simp add: sub_text_def printable_def)

lemma decode_vendor_class_spec:
  "\<exists>d' w'. decode_vendor_class data d w = Some (d', w') \<and> warn_grows w w' \<and>
     (d6_vendor_class d = [] \<longrightarrow> d' = d\<lparr>d6_vendor_class := vendor_class_of data\<rparr>)"
proof (cases "length data < 6")
  case True
  then show ?thesis
    by (cases "length data < 4") (auto simp: decode_vendor_class_def vendor_class_of_def dhcp_mirror Let_def)
next
  case False
  let ?k = "unat (be16 (data ! 4) (data ! 5))" let ?u = "min ?k (length data - 6)"
  have "6 + ?u \<le> length data" using False by simp
  from printable_or_hex6_eq [OF this]
  moreover have "take ?u (drop 6 data) = take ?k (drop 6 data)" by (simp add: min_def)
  ultimately have p: "printable_or_hex6 data 6 ?u = Some (sub_text (take ?k (drop 6 data)))" by simp
  have "?u = 0 \<Longrightarrow> take ?k (drop 6 data) = []" by auto
  with False p show ?thesis
    by (auto simp: decode_vendor_class_def vendor_class_of_def dhcp_mirror Let_def min_def not_less
        split: if_splits)
qed

definition vendor_sub :: "wire_option6 \<Rightarrow> dhcpv6_vendor_suboption" where
  "vendor_sub = (\<lambda>(c, v, s). \<lparr>v6_code = ucast c, v6_length = of_nat (length v), v6_raw_value = v,
     v6_decoded_value = sub_text v\<rparr>)"

definition vendor_subs :: "wire_option6 list \<Rightarrow> dhcpv6_vendor_suboption list" where
  "vendor_subs os = map vendor_sub (filter (\<lambda>(c, v, s). s \<noteq> Truncated) os)"

lemma vendor6_loop_spec:
  assumes "vec_ok arr"
  shows "\<exists>a w'. vendor6_loop data pos arr w = Some (a, w') \<and> warn_grows w w' \<and>
    vec_items a = vec_items arr @ vendor_subs (scan6 (drop pos data))"
  using assms
proof (induction data pos arr w rule: vendor6_loop.induct)
  case (1 data pos arr w)
  show ?case
  proof (cases "pos + 4 \<le> length data")
    case False
    have "vendor_subs (scan6 (drop pos data)) = []"
      using scan6_drop_short [OF False] by (auto simp: vendor_subs_def filter_empty_conv list_all_iff)
    then show ?thesis using False "1.prems" by (subst vendor6_loop.simps) simp
  next
    case True
    let ?c = "hdr_code data pos" let ?k = "hdr_len data pos" let ?a = "length data - (pos + 4)"
    let ?m = "?k > ?a" let ?u = "if ?m then ?a else ?k" let ?v = "take ?u (drop (pos + 4) data)"
    let ?s = "\<lparr>v6_code = ucast ?c, v6_length = of_nat ?u, v6_raw_value = ?v, v6_decoded_value = sub_text ?v\<rparr>"
    let ?w = "if ?m then warned w ''opt_len_overrun'' ''vendor suboption length exceeds remaining option bytes''
      ''decoded.vendor_options.suboptions'' (clip ?v) else w"
    note r = hdr_reads [OF True]
    have u: "pos + 4 + ?u \<le> length data" using True by auto
    have b: "cf_dhcpv6_set_bytes (Some (data, pos + 4)) ?u = Some ?v"
      by (simp only: dhcp_mirror cf_set_bytes_Some [OF u])
    have wn: "(if ?m then cf_dhcpv6_warn w ''opt_len_overrun''
        ''vendor suboption length exceeds remaining option bytes''
        ''decoded.vendor_options.suboptions'' (Some (data, pos + 4)) ?u else Some w) = Some ?w"
      by (simp only: dhcp_mirror cf_warn_Some [OF u] if_distrib [of Some])
    have push: "vec_push 4 arr ?s = Some (pushed 4 arr ?s)" using "1.prems" by simp
    have step: "vendor6_loop data pos arr w =
        (if ?m then Some (pushed 4 arr ?s, ?w) else vendor6_loop data (pos + (4 + ?u)) (pushed 4 arr ?s) ?w)"
      using True by (subst vendor6_loop.simps)
        (simp only: r b printable_or_hex6_eq [OF u] wn push if_True option.case Let_def)
    have lv: "length ?v = ?u" using u by simp
    then have s: "?s = vendor_sub (?c, ?v, st)" for st by (simp only: vendor_sub_def prod.case)
    show ?thesis
    proof (cases ?m)
      case m: True
      then show ?thesis
        unfolding step scan6_drop [OF True] s [of Overrun] using "1.prems"
        by (simp only: if_True) (simp add: vendor_subs_def)
    next
      case m: False
      have "\<exists>a w'. vendor6_loop data (pos + (4 + ?u)) (pushed 4 arr ?s) ?w = Some (a, w') \<and> warn_grows ?w w' \<and>
          vec_items a = vec_items (pushed 4 arr ?s) @ vendor_subs (scan6 (drop (pos + (4 + ?u)) data))"
        by (rule "1.IH" [OF True r refl refl refl refl b printable_or_hex6_eq [OF u] wn push m])
           (use "1.prems" in simp)
      then show ?thesis
        unfolding step scan6_drop [OF True] s [of Complete] using m
        by (simp only: if_False) (auto simp: vendor_subs_def)
    qed
  qed
qed

definition vendor_options_of :: "bytes \<Rightarrow> dhcpv6_vendor_options" where
  "vendor_options_of data =
    (if length data < 4 then \<lparr>vo_enterprise_number = 0, vo_raw_value = data, vo_suboptions = []\<rparr>
     else \<lparr>vo_enterprise_number = be32 (data ! 0) (data ! 1) (data ! 2) (data ! 3), vo_raw_value = data,
       vo_suboptions = vendor_subs (scan6 (drop 4 data))\<rparr>)"

lemma decode_vendor_options_spec:
  "\<exists>w'. decode_vendor_options data d w = Some (d\<lparr>d6_vendor_options := Some (vendor_options_of data)\<rparr>, w') \<and>
     warn_grows w w'"
proof (cases "length data < 4")
  case True
  then show ?thesis by (simp add: decode_vendor_options_def dhcp_mirror vendor_options_of_def)
next
  case False
  obtain a w' where "vendor6_loop data 4 vec_init w = Some (a, w')" "warn_grows w w'"
    "vec_items a = vendor_subs (scan6 (drop 4 data))"
    using vendor6_loop_spec [OF vec_init_simps(2), of data 4 w] by auto
  moreover have "rd data 0 = Some (data ! 0)" using False by (auto simp: rd_def)
  ultimately show ?thesis
    using False by (simp add: decode_vendor_options_def dhcp_mirror vendor_options_of_def Let_def)
qed

section \<open>Requested options\<close>

definition oro_codes :: "bytes \<Rightarrow> u32 list" where
  "oro_codes v = map (\<lambda>j. ucast (be16 (v ! (2 * j)) (v ! (2 * j + 1)))) [0..<length v div 2]"

lemma oro_loop_spec:
  assumes "vec_ok oro" "2 * (j + n) \<le> length v"
  shows "\<exists>o'. oro_loop v j n oro = Some o' \<and> vec_ok o' \<and>
    vec_items o' = vec_items oro @ map (\<lambda>j. ucast (be16 (v ! (2 * j)) (v ! (2 * j + 1)))) [j..<j + n]"
  using assms
proof (induction n arbitrary: j oro)
  case (Suc n)
  let ?x = "ucast (be16 (v ! (2 * j)) (v ! (2 * j + 1))) :: u32"
  have "\<exists>o'. oro_loop v (j + 1) n (pushed 8 oro ?x) = Some o' \<and> vec_ok o' \<and>
    vec_items o' = vec_items (pushed 8 oro ?x) @
      map (\<lambda>j. ucast (be16 (v ! (2 * j)) (v ! (2 * j + 1)))) [j + 1..<j + 1 + n]"
    using Suc.prems by (intro Suc.IH) auto
  then show ?case
    using Suc.prems by (auto simp: append_u32_def upt_conv_Cons simp del: upt_Suc)
qed simp


lemma dec6_oro_spec:
  assumes "vec_ok (ds_oro s)"
  shows "\<exists>oro w'. dec6_oro v s = Some (s\<lparr>ds_oro := oro, ds_warnings := w'\<rparr>) \<and> vec_ok oro \<and>
    vec_items oro = vec_items (ds_oro s) @ oro_codes v \<and> warn_grows (ds_warnings s) w'"
proof -
  obtain oro where oro: "oro_loop v 0 (length v div 2) (ds_oro s) = Some oro" "vec_ok oro"
    "vec_items oro = vec_items (ds_oro s) @ oro_codes v"
    using oro_loop_spec [OF assms, of 0 "length v div 2" v] by (auto simp: oro_codes_def)
  let ?w = "if length v mod 2 \<noteq> 0 then warned (ds_warnings s) ''opt_len_invalid''
      ''option request option length is not a multiple of 2 bytes''
      ''decoded.option_request_option_codes'' (clip v) else ds_warnings s"
  have "dec6_oro v s = Some (s\<lparr>ds_oro := oro, ds_warnings := ?w\<rparr>)"
    by (simp add: dec6_oro_def dhcp_mirror oro(1))
  moreover have "warn_grows (ds_warnings s) ?w" by simp
  ultimately show ?thesis using oro by blast
qed

section \<open>The decoded options\<close>

definition first_value :: "u32 \<Rightarrow> raw_item6 list \<Rightarrow> bytes option" where
  "first_value c its = (case filter (\<lambda>it. r6_code it = c) its of [] \<Rightarrow> None | it # _ \<Rightarrow> Some (r6_value it))"

lemma first_value_Nil [simp]: "first_value c [] = None"
  by (simp add: first_value_def)

lemma first_value_snoc:
  "first_value c (its @ [it]) =
    (case first_value c its of Some v \<Rightarrow> Some v | None \<Rightarrow> if r6_code it = c then Some (r6_value it) else None)"
  by (simp add: first_value_def split: list.splits)

definition item_addresses :: "raw_item6 \<Rightarrow> string list" where
  "item_addresses it =
    (if r6_code it = 3 then ia_addresses True (r6_value it)
     else if r6_code it = 4 then ia_addresses False (r6_value it) else [])"

definition item_oro :: "raw_item6 \<Rightarrow> u32 list" where
  "item_oro it = (if r6_code it = 6 then oro_codes (r6_value it) else [])"

text \<open>What the state of the decoder holds after the items \<open>its\<close>.\<close>

definition dec6_rel :: "raw_item6 list \<Rightarrow> dec6 \<Rightarrow> bool" where
  "dec6_rel its s \<longleftrightarrow>
     vec_ok (ds_addrs s) \<and> vec_items (ds_addrs s) = concat (map item_addresses its) \<and>
     vec_ok (ds_oro s) \<and> vec_items (ds_oro s) = concat (map item_oro its) \<and>
     (ds_have_client_duid s \<longleftrightarrow> first_value 1 its \<noteq> None) \<and>
     (ds_have_server_duid s \<longleftrightarrow> first_value 2 its \<noteq> None) \<and>
     (ds_have_vendor_class s \<longleftrightarrow> first_value 16 its \<noteq> None) \<and>
     (ds_have_vendor_opts s \<longleftrightarrow> first_value 17 its \<noteq> None) \<and>
     d6_client_duid (ds_d s) = (case first_value 1 its of None \<Rightarrow> [] | Some v \<Rightarrow> v) \<and>
     d6_server_duid (ds_d s) = (case first_value 2 its of None \<Rightarrow> [] | Some v \<Rightarrow> v) \<and>
     d6_vendor_class (ds_d s) = (case first_value 16 its of None \<Rightarrow> [] | Some v \<Rightarrow> vendor_class_of v) \<and>
     d6_vendor_options (ds_d s) = map_option vendor_options_of (first_value 17 its)"

lemma dec6_item_spec:
  assumes rel: "dec6_rel its s"
  shows "\<exists>s'. dec6_item it s = Some s' \<and> dec6_rel (its @ [it]) s' \<and> warn_grows (ds_warnings s) (ds_warnings s')"
proof -
  note rel' = rel [unfolded dec6_rel_def]
  let ?v = "r6_value it"
  consider "r6_code it = 1" | "r6_code it = 2" | "r6_code it = 3" | "r6_code it = 4" | "r6_code it = 6"
    | "r6_code it = 16" | "r6_code it = 17"
    | "r6_code it \<noteq> 1" "r6_code it \<noteq> 2" "r6_code it \<noteq> 3" "r6_code it \<noteq> 4" "r6_code it \<noteq> 6"
      "r6_code it \<noteq> 16" "r6_code it \<noteq> 17" by blast
  then show ?thesis
  proof cases
    case 3
    with rel' collect_addresses_spec [of "ds_addrs s" ?v True "ds_warnings s"] show ?thesis
      by (auto simp: dec6_item_def dec6_ia_def dec6_rel_def first_value_snoc item_addresses_def item_oro_def
          split: option.splits)
  next
    case 4
    with rel' collect_addresses_spec [of "ds_addrs s" ?v False "ds_warnings s"] show ?thesis
      by (auto simp: dec6_item_def dec6_ia_def dec6_rel_def first_value_snoc item_addresses_def item_oro_def
          split: option.splits)
  next
    case 5
    with rel' dec6_oro_spec [of s ?v] show ?thesis
      by (auto simp: dec6_item_def dec6_rel_def first_value_snoc item_addresses_def item_oro_def
          split: option.splits)
  next
    case 6
    obtain d' w' where "decode_vendor_class ?v (ds_d s) (ds_warnings s) = Some (d', w')"
      "warn_grows (ds_warnings s) w'"
      "d6_vendor_class (ds_d s) = [] \<longrightarrow> d' = (ds_d s)\<lparr>d6_vendor_class := vendor_class_of ?v\<rparr>"
      using decode_vendor_class_spec by blast
    with 6 rel' show ?thesis
      by (auto simp: dec6_item_def dec6_rel_def first_value_snoc item_addresses_def item_oro_def
          split: option.splits)
  next
    case 7
    obtain w' where "decode_vendor_options ?v (ds_d s) (ds_warnings s) =
        Some ((ds_d s)\<lparr>d6_vendor_options := Some (vendor_options_of ?v)\<rparr>, w')" "warn_grows (ds_warnings s) w'"
      using decode_vendor_options_spec by blast
    with 7 rel' show ?thesis
      by (auto simp: dec6_item_def dec6_rel_def first_value_snoc item_addresses_def item_oro_def
          split: option.splits)
  qed (use rel' in \<open>auto simp: dec6_item_def dec6_rel_def first_value_snoc item_addresses_def item_oro_def
      dhcp_mirror split: option.splits\<close>)
qed

lemma dec6_items_spec:
  "dec6_rel pre s \<Longrightarrow>
   \<exists>s'. dec6_items its s = Some s' \<and> dec6_rel (pre @ its) s' \<and> warn_grows (ds_warnings s) (ds_warnings s')"
proof (induction its arbitrary: pre s)
  case (Cons it its)
  obtain s1 where s1: "dec6_item it s = Some s1" "dec6_rel (pre @ [it]) s1" "warn_grows (ds_warnings s) (ds_warnings s1)"
    using dec6_item_spec [OF Cons.prems] by blast
  from Cons.IH [OF s1(2)] s1 show ?case by (auto intro: warn_grows_trans)
qed simp

text \<open>The decoded message of a list of items.\<close>

definition decoded6 :: "raw_item6 list \<Rightarrow> dhcpv6_decoded" where
  "decoded6 its = \<lparr>d6_client_duid = (case first_value 1 its of None \<Rightarrow> [] | Some v \<Rightarrow> v),
     d6_server_duid = (case first_value 2 its of None \<Rightarrow> [] | Some v \<Rightarrow> v),
     d6_assigned_addresses = concat (map item_addresses its),
     d6_option_request_option_codes = concat (map item_oro its),
     d6_vendor_class = (case first_value 16 its of None \<Rightarrow> [] | Some v \<Rightarrow> vendor_class_of v),
     d6_vendor_options = map_option vendor_options_of (first_value 17 its)\<rparr>"

lemma build_decoded6_spec:
  "\<exists>w'. cf_dhcpv6_build_decoded its w = Some (decoded6 its, w') \<and> warn_grows w w'"
proof -
  have "dec6_rel [] (dec6_init w)" by (simp add: dec6_rel_def dec6_init_def)
  from dec6_items_spec [OF this, of its] obtain s where
    s: "dec6_items its (dec6_init w) = Some s" "dec6_rel its s" "warn_grows w (ds_warnings s)"
    by (auto simp: dec6_init_def)
  have "(ds_d s)\<lparr>d6_assigned_addresses := vec_items (ds_addrs s),
      d6_option_request_option_codes := vec_items (ds_oro s)\<rparr> = decoded6 its"
    using s(2) by (simp add: dec6_rel_def decoded6_def)
  with s show ?thesis by (simp add: cf_dhcpv6_build_decoded_def)
qed

section \<open>The entry point\<close>

definition options_offset :: "bytes \<Rightarrow> nat" where
  "options_offset payload = (if is_relay_message_type (payload ! 0) then 34 else 4)"

definition packet6_items :: "bytes \<Rightarrow> raw_item6 list" where
  "packet6_items payload = items6_of 0 (scan6 (drop (options_offset payload) payload))"

definition opt6_msg :: "raw_item6 \<Rightarrow> dhcpv6_option" where
  "opt6_msg it = \<lparr>o6_code = r6_code it, o6_name = cf_dup_str (cf_dhcpv6_option_name (r6_code it)),
     o6_length = of_nat (length (r6_value it)), o6_raw_value = r6_value it,
     o6_ordinal = r6_ordinal it, o6_malformed = r6_malformed it\<rparr>"

lemma options6_of_items_eq: "options6_of_items its = Some (map opt6_msg its)"
  by (induction its) (simp_all add: option6_of_item_def dhcp_mirror opt6_msg_def)

lemma build_header6_total:
  assumes "4 \<le> length payload"
  shows "\<exists>h. dhcpv6_build_header payload = Some (h, options_offset payload) \<and>
    h6_message_type h = dhcpv6_message_type_enum (payload ! 0) \<and>
    h6_transaction_id h = (if is_relay_message_type (payload ! 0) then 0
      else be24 (payload ! 1) (payload ! 2) (payload ! 3)) \<and>
    h6_hop_count h = (if is_relay_message_type (payload ! 0) then ucast (payload ! 1) else 0) \<and>
    h6_link_address h = (if is_relay_message_type (payload ! 0) \<and> 18 \<le> length payload
      then ip6_text (take 16 (drop 2 payload)) else []) \<and>
    h6_peer_address h = (if is_relay_message_type (payload ! 0) \<and> 34 \<le> length payload
      then ip6_text (take 16 (drop 18 payload)) else [])"
proof -
  have "rd payload 0 = Some (payload ! 0)" using assms by (auto simp: rd_def)
  then show ?thesis
    using assms
    by (auto simp: dhcpv6_build_header_def options_offset_def dhcp_mirror buf_simps relay_address_def
        ip6_text_def cf_dhcpv6_get_be24_def Let_def numeral_eq_Suc)
qed

lemma parse6_spec:
  assumes len: "4 \<le> length payload"
  obtains ev w w' where
    "cf_dhcpv6_parse (Some payload) = Some (Some (ev, dhcpv6_event_type (h6_message_type (e6_header ev))))"
    "dhcpv6_build_header payload = Some (e6_header ev, options_offset payload)"
    "e6_raw_options ev = map opt6_msg (packet6_items payload)"
    "e6_decoded ev = decoded6 (packet6_items payload)"
    "e6_raw_dhcp_payload ev = payload" "\<not> e6_raw_payload_truncated ev"
    "e6_parser_warnings ev = wl_items w'" "warn_grows w w'" "warnings_ok (wl_items w)"
    "length (wl_items w) = length (filter (\<lambda>it. r6_malformed it) (packet6_items payload))"
proof -
  let ?off = "options_offset payload"
  obtain h where h: "dhcpv6_build_header payload = Some (h, ?off)"
    using build_header6_total [OF len] by blast
  have mal: "length (filter r6_malformed (items6_of n os)) = length (filter (\<lambda>(c, v, s). s \<noteq> Complete) os)"
    for n os by (induction n os rule: items6_of.induct) auto
  obtain l w where l: "(if length payload > ?off
       then walk_options payload ?off (length payload - ?off) vec_init cf_dhcpv6_warn_list_init
       else Some (vec_init, cf_dhcpv6_warn_list_init)) = Some (l, w)"
    "vec_items l = packet6_items payload" "warnings_ok (wl_items w)"
    "length (wl_items w) = length (filter (\<lambda>it. r6_malformed it) (packet6_items payload))"
  proof (cases "length payload > ?off")
    case True
    then have "?off + (length payload - ?off) \<le> length payload" by simp
    from walk6_loop_spec [OF vec_init_simps(2) this, of 0 0 cf_dhcpv6_warn_list_init] True
    show ?thesis
      by (auto simp: walk_options_def packet6_items_def Let_def warn_grows_def dhcp_mirror cf_warn_list_init_def mal
          intro: that)
  next
    case False
    then show ?thesis
      by (intro that [of vec_init cf_dhcpv6_warn_list_init])
         (auto simp: packet6_items_def dhcp_mirror cf_warn_list_init_def)
  qed
  obtain w' where d: "cf_dhcpv6_build_decoded (vec_items l) w = Some (decoded6 (packet6_items payload), w')"
    "warn_grows w w'" using build_decoded6_spec [of "vec_items l" w] l(2) by auto
  let ?ev = "\<lparr>e6_header = h, e6_raw_options = map opt6_msg (packet6_items payload),
    e6_decoded = decoded6 (packet6_items payload), e6_parser_warnings = wl_items w',
    e6_raw_dhcp_payload = payload, e6_raw_payload_truncated = False\<rparr>"
  show thesis
  proof (rule that [of ?ev w' w])
    show "cf_dhcpv6_parse (Some payload) = Some (Some (?ev, dhcpv6_event_type (h6_message_type (e6_header ?ev))))"
      using len h l(1,2) d(1)
      by (simp add: cf_dhcpv6_parse_def options6_of_items_eq dhcp_mirror cf_warn_list_take_def)
  qed (use h l(3,4) d in simp_all)
qed

end
