(* ===== verification/Dhcpv6_Wire.thy ===== *)
theory Dhcpv6_Wire
  imports Dhcpv6_Parse
begin

text \<open>
  Properties of the DHCPv6 parser: it returns on every buffer, its result is that of the
  reference parser, and what was sent comes back; and what it makes of an option whose header is
  cut off.
\<close>

section \<open>The parser returns the reference result\<close>

text \<open>
  The DHCPv6 parser returns on every buffer without an access outside it, and returns NULL
  exactly for a NULL pointer or fewer than 4 bytes.
\<close>

theorem dhcpv6_parse_total:
  "\<exists>r. cf_dhcpv6_parse p = Some r \<and>
     (r = None \<longleftrightarrow> (case p of None \<Rightarrow> True | Some payload \<Rightarrow> length payload < 4))"
proof (cases p)
  case None
  then show ?thesis by (simp add: cf_dhcpv6_parse_def)
next
  case (Some payload)
  show ?thesis
  proof (cases "length payload < 4")
    case True
    then show ?thesis by (simp add: Some cf_dhcpv6_parse_def)
  next
    case False
    then have "4 \<le> length payload" by simp
    then obtain ev where "cf_dhcpv6_parse (Some payload) =
        Some (Some (ev, dhcpv6_event_type (h6_message_type (e6_header ev))))"
      by (rule parse6_spec)
    then show ?thesis using False by (simp add: Some)
  qed
qed

lemma parse6_result:
  assumes "cf_dhcpv6_parse (Some payload) = Some (Some (ev, et))"
  obtains w w' where "4 \<le> length payload" "et = dhcpv6_event_type (h6_message_type (e6_header ev))"
    "dhcpv6_build_header payload = Some (e6_header ev, options_offset payload)"
    "e6_raw_options ev = map opt6_msg (packet6_items payload)"
    "e6_decoded ev = decoded6 (packet6_items payload)"
    "e6_parser_warnings ev = wl_items w'" "warn_grows w w'" "warnings_ok (wl_items w)"
    "length (wl_items w) = length (filter (\<lambda>it. r6_malformed it) (packet6_items payload))"
proof -
  have len: "4 \<le> length payload"
    using assms by (auto simp: cf_dhcpv6_parse_def split: if_splits)
  then show thesis
    by (rule parse6_spec) (rule that, use assms len in auto)
qed

text \<open>
  C28. What the DHCPv6 parser returns is what the reference parser finds: the raw options in
  order; the DUIDs, vendor class and vendor options of the first option of their code; the
  addresses of all IA_NA and IA_TA options and the codes of all option request options, in wire
  order; and at least one warning, with a context of at most 16 bytes, per malformed option.
\<close>

theorem dhcpv6_parse_reference:
  assumes "cf_dhcpv6_parse (Some payload) = Some (Some (ev, et))"
  shows "e6_raw_options ev = map opt6_msg (packet6_items payload) \<and>
    e6_decoded ev = decoded6 (packet6_items payload) \<and>
    et = dhcpv6_event_type (dhcpv6_message_type_enum (payload ! 0)) \<and>
    length (filter o6_malformed (e6_raw_options ev)) \<le> length (e6_parser_warnings ev) \<and>
    (\<forall>w \<in> set (e6_parser_warnings ev). length (pw_raw_context w) \<le> 16)"
  using assms
proof (rule parse6_result)
  fix w w'
  assume p: "4 \<le> length payload" "et = dhcpv6_event_type (h6_message_type (e6_header ev))"
    "dhcpv6_build_header payload = Some (e6_header ev, options_offset payload)"
    "e6_raw_options ev = map opt6_msg (packet6_items payload)"
    "e6_decoded ev = decoded6 (packet6_items payload)"
    "e6_parser_warnings ev = wl_items w'" "warn_grows w w'" "warnings_ok (wl_items w)"
    "length (wl_items w) = length (filter (\<lambda>it. r6_malformed it) (packet6_items payload))"
  have "length (filter o6_malformed (map opt6_msg its)) = length (filter (\<lambda>it. r6_malformed it) its)" for its
    by (induction its) (auto simp: opt6_msg_def)
  with p build_header6_total [OF p(1)] show ?thesis
    by (auto simp: warn_grows_def warnings_ok_def list_all_iff)
qed

section \<open>Round trips\<close>

definition wire6 :: "u16 \<times> bytes \<Rightarrow> bytes" where
  "wire6 = (\<lambda>(c, v). wire16 c @ wire16 (of_nat (length v)) @ v)"

definition wire6_options :: "(u16 \<times> bytes) list \<Rightarrow> bytes" where
  "wire6_options opts = concat (map wire6 opts)"

definition wire6_ok :: "u16 \<times> bytes \<Rightarrow> bool" where
  "wire6_ok = (\<lambda>(c, v). length v < 65536)"

lemma scan6_wire6:
  assumes "wire6_ok (c, v)"
  shows "scan6 (wire6 (c, v) @ rest) = (c, v, Complete) # scan6 rest"
proof -
  let ?n = "of_nat (length v) :: u16"
  let ?bs = "ucast (drop_bit 8 c) # ucast c # ucast (drop_bit 8 ?n) # ucast ?n # v @ rest"
  have n: "unat ?n = length v"
    using assms by (simp add: wire6_ok_def unat_of_nat take_bit_nat_eq_self)
  have "wire6 (c, v) @ rest = ?bs" by (simp add: wire6_def wire16_def)
  moreover have "?bs ! 0 = ucast (drop_bit 8 c)" "?bs ! 1 = ucast c"
    "?bs ! 2 = ucast (drop_bit 8 ?n)" "?bs ! 3 = ucast ?n" "drop 4 ?bs = v @ rest"
    by simp_all
  moreover have "?bs \<noteq> []" "\<not> length ?bs < 4" by simp_all
  ultimately show ?thesis
    by (simp only: scan6.simps [of ?bs] Let_def be16_wire n if_False) simp
qed

lemma scan6_wire6_options:
  "list_all wire6_ok opts \<Longrightarrow> scan6 (wire6_options opts) = map (\<lambda>(c, v). (c, v, Complete)) opts"
proof (induction opts)
  case (Cons opt opts)
  then show ?case by (cases opt) (simp add: wire6_options_def scan6_wire6)
qed (simp add: wire6_options_def)

text \<open>A message: a client/server header of 4 bytes or a relay header of 34, then options.\<close>

definition header6_ok :: "bytes \<Rightarrow> bool" where
  "header6_ok hdr \<longleftrightarrow> 0 < length hdr \<and> length hdr = (if is_relay_message_type (hdr ! 0) then 34 else 4)"

lemma packet6_items_wire:
  assumes "header6_ok hdr" "list_all wire6_ok opts"
  shows "4 \<le> length (hdr @ wire6_options opts)"
    "packet6_items (hdr @ wire6_options opts) = items6_of 0 (map (\<lambda>(c, v). (c, v, Complete)) opts)"
proof -
  have "options_offset (hdr @ wire6_options opts) = length hdr"
    using assms(1) by (auto simp: options_offset_def header6_ok_def nth_append)
  then show "packet6_items (hdr @ wire6_options opts) = items6_of 0 (map (\<lambda>(c, v). (c, v, Complete)) opts)"
    using assms(2) by (simp add: packet6_items_def scan6_wire6_options)
  show "4 \<le> length (hdr @ wire6_options opts)" using assms(1) by (auto simp: header6_ok_def split: if_splits)
qed

lemma items6_of_fields:
  "map (\<lambda>it. (r6_code it, r6_value it, r6_malformed it)) (items6_of n os) =
     map (\<lambda>(c, v, s). (ucast c, v, s \<noteq> Complete)) os"
  by (induction n os rule: items6_of.induct) auto

text \<open>
  A DHCPv6 message, from a client, a server or a relay, parses with every option reported
  once, in order, with its code and value and not malformed.
\<close>

theorem dhcpv6_options_roundtrip:
  assumes "header6_ok hdr" "list_all wire6_ok opts"
  shows "\<exists>ev et. cf_dhcpv6_parse (Some (hdr @ wire6_options opts)) = Some (Some (ev, et)) \<and>
    map (\<lambda>opt. (o6_code opt, o6_raw_value opt, o6_malformed opt)) (e6_raw_options ev) =
      map (\<lambda>(c, v). (ucast c, v, False)) opts"
proof -
  note p = packet6_items_wire [OF assms]
  from p(1) obtain ev where ev: "cf_dhcpv6_parse (Some (hdr @ wire6_options opts)) =
      Some (Some (ev, dhcpv6_event_type (h6_message_type (e6_header ev))))"
    "e6_raw_options ev = map opt6_msg (packet6_items (hdr @ wire6_options opts))"
    by (rule parse6_spec)
  have "map (\<lambda>opt. (o6_code opt, o6_raw_value opt, o6_malformed opt)) (e6_raw_options ev) =
      map (\<lambda>it. (r6_code it, r6_value it, r6_malformed it)) (packet6_items (hdr @ wire6_options opts))"
    by (simp add: ev(2) opt6_msg_def)
  with ev(1) show ?thesis by (simp add: p(2) items6_of_fields case_prod_unfold)
qed

section \<open>Assigned addresses\<close>

text \<open>An IA_NA or IA_TA option: its fixed part and its addresses, each with its lifetimes.\<close>

type_synonym ia = "bool \<times> bytes \<times> (bytes \<times> bytes) list"

definition ia_option :: "ia \<Rightarrow> u16 \<times> bytes" where
  "ia_option = (\<lambda>(na, fixed, as). (if na then 3 else 4,
     fixed @ wire6_options (map (\<lambda>(ip, lt). (5, ip @ lt)) as)))"

definition ia_ok :: "ia \<Rightarrow> bool" where
  "ia_ok = (\<lambda>(na, fixed, as). length fixed = (if na then 12 else 4) \<and>
     list_all (\<lambda>(ip, lt). length ip = 16 \<and> length lt < 1000) as \<and> wire6_ok (ia_option (na, fixed, as)))"

lemma ia_addresses_wire:
  assumes "ia_ok (na, fixed, as)"
  shows "ia_addresses na (snd (ia_option (na, fixed, as))) = map (\<lambda>(ip, lt). ip6_text ip) as"
proof -
  let ?subs = "map (\<lambda>(ip, lt). (5 :: u16, ip @ lt)) as"
  have ok: "list_all wire6_ok ?subs" and as: "list_all (\<lambda>(ip, lt). length ip = 16) as"
    using assms by (auto simp: ia_ok_def wire6_ok_def list_all_iff)
  have "addresses (map (\<lambda>(c, v). (c, v, Complete)) ?subs) = map (\<lambda>(ip, lt). ip6_text ip) as"
    using as by (induction as) (auto simp: addresses_def)
  moreover have "length fixed = (if na then 12 else 4)" using assms by (simp add: ia_ok_def)
  ultimately show ?thesis
    by (simp add: ia_addresses_def ia_option_def scan6_wire6_options [OF ok] Let_def)
qed

lemma item_addresses_wire:
  assumes "list_all ia_ok ias"
  shows "concat (map item_addresses (items6_of n (map (\<lambda>(c, v). (c, v, Complete)) (map ia_option ias)))) =
    concat (map (\<lambda>(na, fixed, as). map (\<lambda>(ip, lt). ip6_text ip) as) ias)"
  using assms
proof (induction ias arbitrary: n)
  case (Cons ia ias)
  obtain na fixed as where ia: "ia = (na, fixed, as)" by (rule prod_cases3)
  have c: "fst (ia_option ia) = (if na then 3 else 4)" by (simp add: ia ia_option_def)
  have "ia_addresses na (snd (ia_option ia)) = map (\<lambda>(ip, lt). ip6_text ip) as"
    using ia_addresses_wire Cons.prems by (simp add: ia)
  with Cons c show ?case by (cases na) (simp_all add: case_prod_unfold item_addresses_def ia)
qed simp

text \<open>
  The addresses a server assigns arrive: a message whose options are IA_NA and IA_TA options
  is decoded to all their addresses, in order and in text form.
\<close>

theorem dhcpv6_addresses_roundtrip:
  assumes "header6_ok hdr" "list_all ia_ok ias"
    and "cf_dhcpv6_parse (Some (hdr @ wire6_options (map ia_option ias))) = Some (Some (ev, et))"
  shows "d6_assigned_addresses (e6_decoded ev) =
    concat (map (\<lambda>(na, fixed, as). map (\<lambda>(ip, lt). ip6_text ip) as) ias)"
proof -
  have "list_all wire6_ok (map ia_option ias)"
    using assms(2) by (auto simp: list_all_iff ia_ok_def)
  note p = packet6_items_wire [OF assms(1) this]
  show ?thesis
    using assms(3)
    by (rule parse6_result) (simp add: p(2) decoded6_def item_addresses_wire [OF assms(2)] del: map_map)
qed

section \<open>A header that is cut off\<close>


section \<open>Witnesses\<close>

definition sample6_header :: bytes where
  "sample6_header = [7, 0x12, 0x34, 0x56]"

definition sample6_ias :: "ia list" where
  "sample6_ias = [(True, replicate 12 0, [(replicate 15 0 @ [1], replicate 8 0)])]"

lemma sample6_ok: "header6_ok sample6_header" "list_all ia_ok sample6_ias"
  "list_all wire6_ok (map ia_option sample6_ias)"
  by (simp_all add: header6_ok_def sample6_header_def is_relay_message_type_def sample6_ias_def ia_ok_def
      wire6_ok_def ia_option_def wire6_options_def wire6_def wire16_def)

lemma sample6_parses: obtains ev et where
  "cf_dhcpv6_parse (Some (sample6_header @ wire6_options (map ia_option sample6_ias))) = Some (Some (ev, et))"
  by (rule parse6_spec [OF packet6_items_wire(1) [OF sample6_ok(1,3)]]) blast

theorem dhcpv6_parse_reference_witness:
  "\<exists>ev. cf_dhcpv6_parse (Some (sample6_header @ wire6_options (map ia_option sample6_ias))) =
     Some (Some (ev, ''dhcpv6.reply.observed''))"
proof -
  obtain ev et where
    p: "cf_dhcpv6_parse (Some (sample6_header @ wire6_options (map ia_option sample6_ias))) = Some (Some (ev, et))"
    by (rule sample6_parses)
  from dhcpv6_parse_reference [OF p] have "et = ''dhcpv6.reply.observed''"
    by (simp add: sample6_header_def dhcpv6_message_type_enum_def dhcpv6_message_types_def dhcpv6_event_type_def)
  with p show ?thesis by blast
qed

theorem dhcpv6_options_roundtrip_witness:
  "\<exists>ev et. cf_dhcpv6_parse (Some (sample6_header @ wire6_options [(8, [0, 0]), (14, [])])) = Some (Some (ev, et)) \<and>
     map (\<lambda>opt. (o6_code opt, o6_raw_value opt, o6_malformed opt)) (e6_raw_options ev) =
       [(8, [0, 0], False), (14, [], False)]"
  using dhcpv6_options_roundtrip [OF sample6_ok(1), of "[(8, [0, 0]), (14, [])]"] by (simp add: wire6_ok_def)

theorem dhcpv6_addresses_roundtrip_witness:
  "\<exists>ev et. cf_dhcpv6_parse (Some (sample6_header @ wire6_options (map ia_option sample6_ias))) = Some (Some (ev, et)) \<and>
     d6_assigned_addresses (e6_decoded ev) = [ip6_text (replicate 15 0 @ [1])]"
proof -
  obtain ev et where
    p: "cf_dhcpv6_parse (Some (sample6_header @ wire6_options (map ia_option sample6_ias))) = Some (Some (ev, et))"
    by (rule sample6_parses)
  with dhcpv6_addresses_roundtrip [OF sample6_ok(1,2) p] show ?thesis by (simp add: sample6_ias_def)
qed


end
