(* ===== verification/Dhcp_Formatter.thy ===== *)
theory Dhcp_Formatter
  imports Dns_Stage Dhcpv4 Dhcpv6
begin

text \<open>
  The event formatter of the DHCP source, \<^verbatim>\<open>sources/cloudflow-source-dhcp/src/formatter.c\<close>: a captured
  frame is decapsulated, classified by its ports, parsed as DHCPv4 or DHCPv6, wrapped in an
  envelope with its event id, packed, and pushed to the event queue; the thread around it drains
  its input queue when it stops.

  The observations, envelope and queue elements are the records of the DNS stage, which builds the
  same messages. The environment holds the protobuf encoder, the layout of queue elements, the
  clock, the other side of the output queue (\<open>fe_taken n\<close> is what it did before the \<open>n\<close>-th push and
  \<open>fe_consumer i\<close> what it does in the \<open>i\<close>-th wait of a blocked push), the outcome of the allocations and the stale bytes of
  the hash buffer. A NULL \<open>stats\<close> pointer is \<open>None\<close>.
\<close>

unbundle bit_operations_syntax

section \<open>Data\<close>

record cf_source_stats =
  fs_events_formatted_total :: nat
  fs_events_formatted_dhcpv4_total :: nat
  fs_events_formatted_dhcpv6_total :: nat
  fs_packets_skipped_total :: nat
  fs_parse_warnings_total :: nat
  fs_events_oversize_dropped_total :: nat
  fs_formatter_queue_depth :: nat
  fs_formatter_queue_drop_total :: nat

record formatter_config =
  fc_source_host :: "string option"
  fc_source_instance :: "string option"
  fc_capture_interface :: "string option"
  fc_observation_method :: "string option"
  fc_on_full :: cf_queue_full_policy

datatype dhcp_payload = Dhcpv4_Packet dhcpv4_event packet_obs | Dhcpv6_Packet dhcpv6_event packet_obs

record dhcp_flow_event =
  de_envelope :: event_envelope
  de_payload :: dhcp_payload

datatype format_site =
    At_Udp_Obs | At_Transport_Obs | At_Network_Obs | At_Network_Strings | At_Link_Obs | At_Link_Strings | At_Vlan_Ids
  | At_Packet_Obs | At_Envelope | At_Envelope_Strings | At_Flow_Event

record format_env =
  fe_pack :: "dhcp_flow_event \<Rightarrow> bytes"
  fe_item_bytes :: "cf_event_item \<Rightarrow> bytes"
  fe_item_size :: nat
  fe_now :: int
  fe_stop :: "nat \<Rightarrow> bool"
  fe_consumer :: "nat \<Rightarrow> cf_queue option \<Rightarrow> cf_queue option"
  fe_taken :: "nat \<Rightarrow> cf_queue option \<Rightarrow> cf_queue option"
  fe_alloc :: "format_site \<Rightarrow> bool"
  fe_stale :: bytes

definition cfmt_dup_str :: "string option \<Rightarrow> string" where
  "cfmt_dup_str s = (case s of None \<Rightarrow> [] | Some t \<Rightarrow> cstr t)"

definition count_stat :: "(cf_source_stats \<Rightarrow> cf_source_stats) \<Rightarrow> cf_source_stats option \<Rightarrow> cf_source_stats option" where
  "count_stat f stats = map_option f stats"

section \<open>Observations\<close>

text \<open>The length and the checksum flag of the UDP observation.\<close>

definition build_udp_observation :: "(format_site \<Rightarrow> bool) \<Rightarrow> cf_decap_udp_t \<Rightarrow> transport_details option" where
  "build_udp_observation alloc d =
    (if \<not> alloc At_Udp_Obs then None else Some (Details_Udp (ucast (udp_length d)) (udp_checksum_present d)))"

definition build_transport :: "(format_site \<Rightarrow> bool) \<Rightarrow> cf_decap_udp_t \<Rightarrow> transport_obs option" where
  "build_transport alloc d =
    (if \<not> alloc At_Transport_Obs then None
     else case build_udp_observation alloc d of
         None \<Rightarrow> None
       | Some udp \<Rightarrow> Some \<lparr>to_src_port = ucast (u_src_port d), to_dst_port = ucast (u_dst_port d),
           to_ip_protocol_number = 17, to_details = udp\<rparr>)"

definition build_network :: "(format_site \<Rightarrow> bool) \<Rightarrow> cf_decap_udp_t \<Rightarrow> network_obs option" where
  "build_network alloc d =
    (if \<not> alloc At_Network_Obs then None
     else if \<not> alloc At_Network_Strings then None
     else Some \<lparr>no_protocol = (if ip_version d = 4 then NETWORK_PROTOCOL_IPV4
         else if ip_version d = 6 then NETWORK_PROTOCOL_IPV6 else NETWORK_PROTOCOL_UNSPECIFIED),
       no_src_ip = cfmt_dup_str (Some (cf_format_ip (ip_version d) (src_ip d))),
       no_dst_ip = cfmt_dup_str (Some (cf_format_ip (ip_version d) (dst_ip d))),
       no_next_header = ucast (next_header d), no_ttl_or_hop_limit = ucast (ttl_or_hop_limit d),
       no_dscp = ucast (dscp d), no_ecn = ucast (ecn d), no_fragmented = fragmented d,
       no_fragment_offset = ucast (fragment_offset d)\<rparr>)"

definition build_link :: "(format_site \<Rightarrow> bool) \<Rightarrow> cf_decap_udp_t \<Rightarrow> link_obs option" where
  "build_link alloc d =
    (if \<not> alloc At_Link_Obs then None
     else if \<not> alloc At_Link_Strings \<or> vlan_count d > 0 \<and> \<not> alloc At_Vlan_Ids then None
     else Some \<lparr>lo_src_mac = cfmt_dup_str (Some (cf_format_mac (src_mac d))),
       lo_dst_mac = cfmt_dup_str (Some (cf_format_mac (dst_mac d))), lo_ethertype = ucast (ethertype d),
       lo_vlan_ids = take (vlan_count d) (vlan_ids d)\<rparr>)"

definition build_packet_observation ::
  "(format_site \<Rightarrow> bool) \<Rightarrow> cf_packet_item \<Rightarrow> cf_decap_udp_t \<Rightarrow> packet_obs option" where
  "build_packet_observation alloc pkt d =
    (if \<not> alloc At_Packet_Obs then None
     else case (build_link alloc d, build_network alloc d, build_transport alloc d) of
       (Some l, Some n, Some t) \<Rightarrow>
         Some \<lparr>po_observed_time = pi_observed_time pkt, po_link = l, po_network = n, po_transport = t,
           po_packet_len = pi_packet_len pkt, po_captured_len = pi_captured_len pkt,
           po_truncated = (pi_flags pkt AND 0x1 \<noteq> 0)\<rparr>
     | _ \<Rightarrow> None)"

section \<open>The envelope\<close>

definition dhcp_build_envelope ::
  "format_env \<Rightarrow> formatter_config \<Rightarrow> cf_packet_item \<Rightarrow> bytes \<Rightarrow> cf_protocol \<Rightarrow> string \<Rightarrow> cf_stream_id \<Rightarrow> event_envelope option" where
  "dhcp_build_envelope env cfg pkt frame protocol event_type stream_id =
    (if \<not> fe_alloc env At_Envelope then None
     else if \<not> fe_alloc env At_Envelope_Strings then None
     else Some \<lparr>ev_event_id = cstr (cf_event_id (fe_stale env)
         (map_option (\<lambda>s. map of_char (cstr s)) (fc_source_host cfg))
         (map_option (\<lambda>s. map of_char (cstr s)) (fc_capture_interface cfg))
         (of_int (pi_observed_time pkt)) frame),
       ev_schema_version = 1,
       ev_source_type = (if protocol = CF_PROTO_DHCPV4 then ''dhcpv4'' else ''dhcpv6''),
       ev_source_host = cfmt_dup_str (fc_source_host cfg),
       ev_source_instance = cfmt_dup_str (fc_source_instance cfg),
       ev_capture_interface = cfmt_dup_str (fc_capture_interface cfg),
       ev_observation_method = cfmt_dup_str (fc_observation_method cfg),
       ev_observed_time = pi_observed_time pkt, ev_ingest_time = fe_now env, ev_event_type = cfmt_dup_str (Some event_type),
       ev_visibility = VISIBILITY_PACKET_PAYLOAD, ev_confidence = OBSERVATION_CONFIDENCE_OBSERVED,
       ev_payload_schema = (if protocol = CF_PROTO_DHCPV4 then ''cloudflow.v1.DhcpV4PacketEvent''
         else ''cloudflow.v1.DhcpV6PacketEvent''),
       ev_stream_name = cfmt_dup_str (cf_stream_name stream_id)\<rparr>)"

text \<open>The raw payload of the event is dropped, and the event says so.\<close>

definition clear_raw_payload :: "dhcp_payload \<Rightarrow> dhcp_payload" where
  "clear_raw_payload p = (case p of
     Dhcpv4_Packet ev obs \<Rightarrow> Dhcpv4_Packet (ev\<lparr>e4_raw_dhcp_payload := [], e4_raw_payload_truncated := True\<rparr>) obs
   | Dhcpv6_Packet ev obs \<Rightarrow> Dhcpv6_Packet (ev\<lparr>e6_raw_dhcp_payload := [], e6_raw_payload_truncated := True\<rparr>) obs)"

section \<open>One packet\<close>

abbreviation (input) CF_FORMAT_SKIP :: int where "CF_FORMAT_SKIP \<equiv> 1"

text \<open>The protocol and stream of a packet, by its ports.\<close>

definition classify_ports :: "cf_decap_udp_t \<Rightarrow> (cf_protocol \<times> cf_stream_id) option" where
  "classify_ports d =
    (if u_src_port d = 67 \<or> u_src_port d = 68 \<or> u_dst_port d = 67 \<or> u_dst_port d = 68
     then Some (CF_PROTO_DHCPV4, CF_STREAM_DHCPV4)
     else if u_src_port d = 546 \<or> u_src_port d = 547 \<or> u_dst_port d = 546 \<or> u_dst_port d = 547
     then Some (CF_PROTO_DHCPV6, CF_STREAM_DHCPV6)
     else None)"

text \<open>The parsed message without its packet observation, its event type and its number of warnings.\<close>

definition parse_payload ::
  "cf_protocol \<Rightarrow> bytes option \<Rightarrow> ((packet_obs \<Rightarrow> dhcp_payload) \<times> string \<times> nat) option option" where
  "parse_payload protocol payload =
    (if protocol = CF_PROTO_DHCPV4
     then do {
       r \<leftarrow> cf_dhcpv4_parse payload;
       Some (map_option (\<lambda>(ev, et). (Dhcpv4_Packet ev, et, length (e4_parser_warnings ev))) r) }
     else do {
       r \<leftarrow> cf_dhcpv6_parse payload;
       Some (map_option (\<lambda>(ev, et). (Dhcpv6_Packet ev, et, length (e6_parser_warnings ev))) r) })"

definition skip_stat :: "cf_source_stats option \<Rightarrow> cf_source_stats option" where
  "skip_stat stats = count_stat (\<lambda>s. s\<lparr>fs_packets_skipped_total := fs_packets_skipped_total s + 1\<rparr>) stats"

definition formatted_stat :: "cf_protocol \<Rightarrow> nat \<Rightarrow> cf_source_stats option \<Rightarrow> cf_source_stats option" where
  "formatted_stat protocol n_warnings stats = count_stat (\<lambda>s.
     let s = s\<lparr>fs_events_formatted_total := fs_events_formatted_total s + 1\<rparr>;
         s = (if protocol = CF_PROTO_DHCPV4
              then s\<lparr>fs_events_formatted_dhcpv4_total := fs_events_formatted_dhcpv4_total s + 1\<rparr>
              else s\<lparr>fs_events_formatted_dhcpv6_total := fs_events_formatted_dhcpv6_total s + 1\<rparr>)
     in s\<lparr>fs_parse_warnings_total := fs_parse_warnings_total s + n_warnings\<rparr>) stats"

text \<open>The packed event: without the raw payload when it would be too large with it.\<close>

definition fit_dhcp_event :: "format_env \<Rightarrow> dhcp_flow_event \<Rightarrow> dhcp_flow_event" where
  "fit_dhcp_event env ev =
    (if length (fe_pack env ev) > CLOUDFLOW_EVENT_MAX_SIZE
     then ev\<lparr>de_payload := clear_raw_payload (de_payload ev)\<rparr> else ev)"

definition pack_event ::
  "format_env \<Rightarrow> cf_packet_item \<Rightarrow> dhcp_flow_event \<Rightarrow> cf_protocol \<Rightarrow> cf_stream_id \<Rightarrow> string \<Rightarrow> nat \<Rightarrow>
   cf_source_stats option \<Rightarrow> int \<times> cf_event_item option \<times> cf_source_stats option" where
  "pack_event env pkt ev protocol stream_id event_type n_warnings stats =
    (let packed = fe_pack env (fit_dhcp_event env ev)
     in if length packed > CLOUDFLOW_EVENT_MAX_SIZE
        then (CF_FORMAT_SKIP, None,
          count_stat (\<lambda>s. s\<lparr>fs_events_oversize_dropped_total := fs_events_oversize_dropped_total s + 1\<rparr>) stats)
        else (0, Some \<lparr>ei_observed_time = pi_observed_time pkt, ei_stream_id = stream_id, ei_protocol = protocol,
             ei_event_type = take (CLOUDFLOW_EVENT_TYPE_MAX - 1) (cstr event_type), ei_payload = packed\<rparr>,
           formatted_stat protocol n_warnings stats))"

text \<open>The return code, the item when it was filled in, and the counters.\<close>

definition cf_format_packet ::
  "format_env \<Rightarrow> formatter_config \<Rightarrow> cf_packet_item \<Rightarrow> cf_source_stats option \<Rightarrow>
   (int \<times> cf_event_item option \<times> cf_source_stats option) option" where
  "cf_format_packet env cfg pkt stats = do {
     frame \<leftarrow> rd_bytes (pi_data pkt) 0 (unat (pi_captured_len pkt));
     (rc, decap) \<leftarrow> cf_decap_udp frame;
     if rc \<noteq> CF_DECAP_OK then Some (CF_FORMAT_SKIP, None, skip_stat stats)
     else (case classify_ports decap of
         None \<Rightarrow> Some (CF_FORMAT_SKIP, None, skip_stat stats)
       | Some (protocol, stream_id) \<Rightarrow> do {
           payload \<leftarrow> (case u_payload decap of None \<Rightarrow> Some None
             | Some off \<Rightarrow> map_option Some (rd_bytes frame off (u_payload_len decap)));
           parsed \<leftarrow> parse_payload protocol payload;
           Some (case parsed of
             None \<Rightarrow> (CF_FORMAT_SKIP, None, skip_stat stats)
           | Some (message, event_type, n_warnings) \<Rightarrow>
               (case build_packet_observation (fe_alloc env) pkt decap of
                  None \<Rightarrow> (- 1, None, stats)
                | Some pobs \<Rightarrow>
                    (case dhcp_build_envelope env cfg pkt frame protocol event_type stream_id of
                       None \<Rightarrow> (- 1, None, stats)
                     | Some envelope \<Rightarrow>
                         if \<not> fe_alloc env At_Flow_Event then (- 1, None, stats)
                         else pack_event env pkt \<lparr>de_envelope = envelope, de_payload = message pobs\<rparr>
                                protocol stream_id event_type n_warnings stats))) }) }"

section \<open>The thread\<close>

text \<open>\<open>fm_tick\<close> counts the pushes.\<close>

record formatter =
  fm_stats :: "cf_source_stats option"
  fm_out :: "cf_queue option"
  fm_tick :: nat

definition formatter_push :: "format_env \<Rightarrow> formatter_config \<Rightarrow> cf_event_item \<Rightarrow> formatter \<Rightarrow> formatter" where
  "formatter_push env cfg item s =
    (case cf_queue_push_policy (fe_stop env) (fe_consumer env) (fe_taken env (fm_tick s) (fm_out s))
            (Some (fe_item_bytes env item)) (fe_item_size env) (fc_on_full cfg)
            (map_option fs_formatter_queue_drop_total (fm_stats s)) of
       (rc, out, drops) \<Rightarrow>
         s\<lparr>fm_out := out, fm_tick := fm_tick s + 1, fm_stats := count_stat (\<lambda>st. st\<lparr>fs_formatter_queue_drop_total := the drops\<rparr>) (fm_stats s)\<rparr>)"

definition formatter_process_one ::
  "format_env \<Rightarrow> formatter_config \<Rightarrow> cf_packet_item \<Rightarrow> formatter \<Rightarrow> formatter option" where
  "formatter_process_one env cfg pkt s = do {
     (rc, item, stats) \<leftarrow> cf_format_packet env cfg pkt (fm_stats s);
     let s = s\<lparr>fm_stats := stats\<rparr>;
     let s = (if rc = 0 then formatter_push env cfg (the item) s else s);
     Some (s\<lparr>fm_stats := count_stat (\<lambda>st. st\<lparr>fs_formatter_queue_depth := cf_queue_length (fm_out s)\<rparr>) (fm_stats s)\<rparr>) }"

text \<open>\<open>read_item\<close> is the layout of a packet element.\<close>

definition formatter_drain ::
  "format_env \<Rightarrow> formatter_config \<Rightarrow> (bytes \<Rightarrow> cf_packet_item) \<Rightarrow> cf_queue option \<Rightarrow> formatter \<Rightarrow>
   (cf_queue option \<times> formatter option) option" where
  "formatter_drain env cfg read_item inq s =
    drain_loop (\<lambda>p. cf_queue_pop p True)
      (\<lambda>e s. do { s \<leftarrow> s; formatter_process_one env cfg (read_item e) s }) inq (Some s)"

text \<open>One iteration of the thread sees the input queue as its producer left it. The thread stops at
  the end of the list and then drains a queue nobody fills any more.\<close>

fun formatter_thread_main ::
  "format_env \<Rightarrow> formatter_config \<Rightarrow> (bytes \<Rightarrow> cf_packet_item) \<Rightarrow> (cf_queue option \<Rightarrow> cf_queue option) list \<Rightarrow>
   cf_queue option \<Rightarrow> formatter \<Rightarrow> (cf_queue option \<times> formatter) option" where
  "formatter_thread_main env cfg read_item [] inq s = do {
     (inq, s) \<leftarrow> formatter_drain env cfg read_item inq s;
     s \<leftarrow> s;
     Some (inq, s) }"
| "formatter_thread_main env cfg read_item (producer # its) inq s =
    (case cf_queue_pop (producer inq) True of (rc, e, inq) \<Rightarrow>
       if rc = 0 then do {
         e \<leftarrow> e;
         s \<leftarrow> formatter_process_one env cfg (read_item e) s;
         formatter_thread_main env cfg read_item its inq s }
       else formatter_thread_main env cfg read_item its inq s)"

record formatter_thread =
  ft_started :: bool
  ft_cfg :: formatter_config
  ft_state :: formatter

definition formatter_start ::
  "bool \<Rightarrow> formatter_config option \<Rightarrow> cf_queue option \<Rightarrow> cf_queue option \<Rightarrow> cf_source_stats option \<Rightarrow>
   formatter_thread \<Rightarrow> int \<times> formatter_thread" where
  "formatter_start thread_ok cfg inq out stats g =
    (case cfg of None \<Rightarrow> (- 1, g)
     | Some cfg \<Rightarrow>
         if inq = None \<or> out = None \<or> stats = None then (- 1, g)
         else if ft_started g then (- 1, g)
         else let g = \<lparr>ft_started = False, ft_cfg = cfg, ft_state = \<lparr>fm_stats = stats, fm_out = out, fm_tick = 0\<rparr>\<rparr>
              in if \<not> thread_ok then (- 1, g) else (0, g\<lparr>ft_started := True\<rparr>))"

definition formatter_stop ::
  "format_env \<Rightarrow> (bytes \<Rightarrow> cf_packet_item) \<Rightarrow> (cf_queue option \<Rightarrow> cf_queue option) list \<Rightarrow> cf_queue option \<Rightarrow>
   formatter_thread \<Rightarrow> (cf_queue option \<times> formatter_thread) option" where
  "formatter_stop env read_item its inq g =
    (if \<not> ft_started g then Some (inq, g)
     else do {
       (inq, s) \<leftarrow> formatter_thread_main env (ft_cfg g) read_item its inq (ft_state g);
       Some (inq, g\<lparr>ft_state := s, ft_started := False\<rparr>) })"

end
