(* ===== verification/Dhcp_Formatter_Safe.thy ===== *)
theory Dhcp_Formatter_Safe
  imports Dhcp_Formatter Dhcpv4_Parse Dhcpv6_Wire Dns_Stage_Flow
begin

text \<open>
  What the DHCP formatter does to a packet and to a run: it returns on every captured packet,
  every packet is counted once, and every event it formats reaches the event queue in order or is
  counted as dropped.
\<close>

section \<open>One packet\<close>

text \<open>The DHCP message of a frame: the protocol by its ports and the bytes of the UDP payload, when the
  frame decapsulates, a port is a DHCP port and the payload holds the fixed header.\<close>

definition min_message :: "cf_protocol \<Rightarrow> nat" where
  "min_message protocol = (if protocol = CF_PROTO_DHCPV4 then 236 else 4)"

definition frame_message :: "bytes \<Rightarrow> (cf_protocol \<times> bytes) option" where
  "frame_message frame = (case cf_decap_udp frame of
     Some (CF_DECAP_OK, d) \<Rightarrow>
       (case classify_ports d of
          Some (protocol, _) \<Rightarrow>
            let payload = take (u_payload_len d) (drop (the (u_payload d)) frame)
            in if length payload < min_message protocol then None else Some (protocol, payload)
        | None \<Rightarrow> None)
   | _ \<Rightarrow> None)"

lemma parse_payload_returns:
  assumes "min_message protocol \<le> length payload"
  obtains message et n where "parse_payload protocol (Some payload) = Some (Some (message, et, n))"
proof (cases "protocol = CF_PROTO_DHCPV4")
  case True
  with assms have "236 \<le> length payload" by (simp add: min_message_def)
  then obtain ev where "cf_dhcpv4_parse (Some payload) =
      Some (Some (ev, event_type_for_message_type (d4_message_type (e4_decoded ev))))" by (rule parse_spec)
  then show thesis using True that by (simp add: parse_payload_def)
next
  case False
  with assms have "4 \<le> length payload" by (simp add: min_message_def)
  then obtain ev where "cf_dhcpv6_parse (Some payload) =
      Some (Some (ev, dhcpv6_event_type (h6_message_type (e6_header ev))))" by (rule parse6_spec)
  then show thesis using False that by (simp add: parse_payload_def)
qed

lemma parse_payload_short:
  "length payload < min_message protocol \<Longrightarrow> parse_payload protocol (Some payload) = Some None"
  by (auto simp: parse_payload_def min_message_def cf_dhcpv4_parse_def cf_dhcpv6_parse_def split: if_splits)

text \<open>The steps after parsing, as one function of the allocator.\<close>

definition observe ::
  "format_env \<Rightarrow> formatter_config \<Rightarrow> cf_packet_item \<Rightarrow> bytes \<Rightarrow> cf_decap_udp_t \<Rightarrow> cf_protocol \<Rightarrow> cf_stream_id \<Rightarrow>
   (packet_obs \<Rightarrow> dhcp_payload) \<Rightarrow> string \<Rightarrow> dhcp_flow_event option" where
  "observe env cfg pkt frame d protocol stream_id message et = do {
     pobs \<leftarrow> build_packet_observation (fe_alloc env) pkt d;
     envelope \<leftarrow> dhcp_build_envelope env cfg pkt frame protocol et stream_id;
     if fe_alloc env At_Flow_Event then Some \<lparr>de_envelope = envelope, de_payload = message pobs\<rparr> else None }"

lemma observe_allocated:
  "\<forall>site. fe_alloc env site \<Longrightarrow> observe env cfg pkt frame d protocol stream_id message et \<noteq> None"
  by (simp add: observe_def build_packet_observation_def build_link_def build_network_def build_transport_def
      build_udp_observation_def dhcp_build_envelope_def)

definition packet_ready :: "cf_packet_item \<Rightarrow> bytes \<Rightarrow> bool" where
  "packet_ready pkt frame \<longleftrightarrow> unat (pi_captured_len pkt) \<le> length (pi_data pkt) \<and>
     frame = take (unat (pi_captured_len pkt)) (pi_data pkt)"

lemma format_packet_skips:
  assumes "packet_ready pkt frame" "frame_message frame = None"
  shows "cf_format_packet env cfg pkt stats = Some (1, None, skip_stat stats)"
proof -
  obtain rc d where d: "cf_decap_udp frame = Some (rc, d)" using decap_safe [of frame] by auto
  show ?thesis
  proof (cases "rc = CF_DECAP_OK")
    case False
    then show ?thesis using assms(1) d by (simp add: cf_format_packet_def packet_ready_def rd_bytes_def)
  next
    case True
    from decap_udp_ok [OF d [unfolded True]] obtain off where off: "u_payload d = Some off" "off + u_payload_len d \<le> length frame"
      by (auto simp: in_frame_def split: option.splits)
    show ?thesis
      using assms d True off
      by (auto simp: cf_format_packet_def packet_ready_def rd_bytes_def frame_message_def Let_def parse_payload_short
          split: option.splits if_splits)
  qed
qed

lemma format_packet_message:
  assumes "packet_ready pkt frame" "frame_message frame = Some (protocol, payload)"
  obtains d stream_id message et n where "cf_decap_udp frame = Some (CF_DECAP_OK, d)"
    "classify_ports d = Some (protocol, stream_id)" "parse_payload protocol (Some payload) = Some (Some (message, et, n))"
    "\<And>stats. cf_format_packet env cfg pkt stats = Some (case observe env cfg pkt frame d protocol stream_id message et of
       None \<Rightarrow> (- 1, None, stats)
     | Some ev \<Rightarrow> pack_event env pkt ev protocol stream_id et n stats)"
proof -
  from assms(2) obtain d stream_id where d: "cf_decap_udp frame = Some (CF_DECAP_OK, d)"
    "classify_ports d = Some (protocol, stream_id)" "min_message protocol \<le> length payload"
    "payload = take (u_payload_len d) (drop (the (u_payload d)) frame)"
    by (auto simp: frame_message_def Let_def not_less split: option.splits prod.splits cf_decap_result.splits if_splits)
  from decap_udp_ok [OF d(1)] obtain off where off: "u_payload d = Some off" "off + u_payload_len d \<le> length frame"
    by (auto simp: in_frame_def split: option.splits)
  from d(3) obtain message et n where p: "parse_payload protocol (Some payload) = Some (Some (message, et, n))"
    by (rule parse_payload_returns)
  show thesis
    using d(1,2) p
    by (rule that)
      (use assms(1) d p off in \<open>auto simp: cf_format_packet_def packet_ready_def rd_bytes_def observe_def split: option.splits\<close>)
qed

text \<open>Every packet is counted exactly once, unless an allocation fails.\<close>

definition packets_counted :: "cf_source_stats \<Rightarrow> nat" where
  "packets_counted st = fs_events_formatted_total st + fs_packets_skipped_total st + fs_events_oversize_dropped_total st"

definition split_ok :: "cf_source_stats \<Rightarrow> cf_source_stats \<Rightarrow> bool" where
  "split_ok st0 st \<longleftrightarrow>
     fs_events_formatted_total st + fs_events_formatted_dhcpv4_total st0 + fs_events_formatted_dhcpv6_total st0 =
     fs_events_formatted_total st0 + fs_events_formatted_dhcpv4_total st + fs_events_formatted_dhcpv6_total st"

definition item_ok :: "cf_event_item \<Rightarrow> bool" where
  "item_ok item \<longleftrightarrow> length (ei_payload item) \<le> CLOUDFLOW_EVENT_MAX_SIZE \<and>
     length (ei_event_type item) < CLOUDFLOW_EVENT_TYPE_MAX"

text \<open>The event of a packet does not depend on the counters.\<close>

definition packet_event :: "format_env \<Rightarrow> formatter_config \<Rightarrow> cf_packet_item \<Rightarrow> cf_event_item option" where
  "packet_event env cfg pkt = (case cf_format_packet env cfg pkt None of Some (rc, item, stats) \<Rightarrow> item | None \<Rightarrow> None)"

lemma pack_event_result:
  obtains rc item where "rc = (if item = None then 1 else 0)" "\<And>i. item = Some i \<Longrightarrow> item_ok i"
    "pack_event env pkt ev protocol stream_id et n None = (rc, item, None)"
    "\<And>st. \<exists>st'. pack_event env pkt ev protocol stream_id et n (Some st) = (rc, item, Some st') \<and> packets_counted st' = packets_counted st + 1 \<and>
       split_ok st st' \<and> fs_formatter_queue_drop_total st' = fs_formatter_queue_drop_total st \<and>
       fs_events_formatted_total st' = fs_events_formatted_total st + (if item = None then 0 else 1)"
  by (rule that [of "fst (pack_event env pkt ev protocol stream_id et n None)" "fst (snd (pack_event env pkt ev protocol stream_id et n None))"])
    (auto simp: pack_event_def Let_def count_stat_def formatted_stat_def item_ok_def packets_counted_def split_ok_def min_less_iff_disj
      split: if_splits)

lemma format_packet_counts:
  assumes "packet_ready pkt frame"
  obtains rc st' where "cf_format_packet env cfg pkt (Some st) = Some (rc, packet_event env cfg pkt, Some st')"
    "rc = 0 \<longleftrightarrow> packet_event env cfg pkt \<noteq> None" "\<And>i. packet_event env cfg pkt = Some i \<Longrightarrow> item_ok i"
    "\<forall>site. fe_alloc env site \<Longrightarrow> rc \<noteq> - 1" "packets_counted st' = packets_counted st + (if rc = - 1 then 0 else 1)"
    "split_ok st st'" "fs_formatter_queue_drop_total st' = fs_formatter_queue_drop_total st"
    "fs_events_formatted_total st' = fs_events_formatted_total st + (if rc = 0 then 1 else 0)"
proof (cases "frame_message frame")
  case None
  note eq = format_packet_skips [OF assms None]
  show thesis
    by (rule that [of 1 "st\<lparr>fs_packets_skipped_total := fs_packets_skipped_total st + 1\<rparr>"])
      (auto simp: eq packet_event_def skip_stat_def count_stat_def packets_counted_def split_ok_def)
next
  case (Some m)
  then obtain protocol payload where m: "frame_message frame = Some (protocol, payload)" by (cases m) auto
  from assms m obtain d stream_id message et n where
    eq: "\<And>stats. cf_format_packet env cfg pkt stats = Some (case observe env cfg pkt frame d protocol stream_id message et of
       None \<Rightarrow> (- 1, None, stats)
     | Some ev \<Rightarrow> pack_event env pkt ev protocol stream_id et n stats)"
    by (rule format_packet_message [where env = env and cfg = cfg]) blast
  show thesis
  proof (cases "observe env cfg pkt frame d protocol stream_id message et")
    case None
    then have "\<not> (\<forall>site. fe_alloc env site)" using observe_allocated by fastforce
    then show ?thesis by (intro that [of "- 1" st]) (auto simp: eq None packet_event_def split_ok_def)
  next
    case (Some ev)
    obtain rc item where p: "rc = (if item = None then 1 else 0)" "\<And>i. item = Some i \<Longrightarrow> item_ok i"
      "pack_event env pkt ev protocol stream_id et n None = (rc, item, None)"
      "\<And>st. \<exists>st'. pack_event env pkt ev protocol stream_id et n (Some st) = (rc, item, Some st') \<and> packets_counted st' = packets_counted st + 1 \<and>
         split_ok st st' \<and> fs_formatter_queue_drop_total st' = fs_formatter_queue_drop_total st \<and>
         fs_events_formatted_total st' = fs_events_formatted_total st + (if item = None then 0 else 1)"
      by (rule pack_event_result [of env pkt ev protocol stream_id et n]) blast
    from p(4) [of st] obtain st' where st': "pack_event env pkt ev protocol stream_id et n (Some st) = (rc, item, Some st')"
      "packets_counted st' = packets_counted st + 1" "split_ok st st'" "fs_formatter_queue_drop_total st' = fs_formatter_queue_drop_total st"
      "fs_events_formatted_total st' = fs_events_formatted_total st + (if item = None then 0 else 1)" by blast
    have "packet_event env cfg pkt = item" by (simp add: packet_event_def eq Some p(3))
    then show ?thesis using p(1,2) st' by (intro that [of rc st']) (auto simp: eq Some)
  qed
qed

section \<open>Whole runs\<close>

text \<open>The packets a run takes from its input queue, in order.\<close>

fun taken :: "(cf_queue option \<Rightarrow> cf_queue option) list \<Rightarrow> cf_queue option \<Rightarrow> bytes list" where
  "taken [] inq = qp_list inq"
| "taken (producer # its) inq =
    (case cf_queue_pop (producer inq) True of (rc, e, inq) \<Rightarrow> if rc = 0 then the e # taken its inq else taken its inq)"

text \<open>The layout of the elements fits the output queue, and its consumer only consumes.\<close>

definition output_ok :: "format_env \<Rightarrow> cf_queue option \<Rightarrow> bool" where
  "output_ok env out \<longleftrightarrow> qp_inv out \<and> (\<forall>item. policy_args out (fe_item_bytes env item) (fe_item_size env)) \<and>
     only_pops (fe_consumer env) \<and> only_pops (fe_taken env)"

definition events :: "format_env \<Rightarrow> formatter_config \<Rightarrow> (bytes \<Rightarrow> cf_packet_item) \<Rightarrow> bytes list \<Rightarrow> bytes list" where
  "events env cfg read_item es = map (fe_item_bytes env) (List.map_filter (\<lambda>e. packet_event env cfg (read_item e)) es)"

lemma events_simps [simp]:
  "events env cfg read_item [] = []"
  "events env cfg read_item (e # es) =
    (case packet_event env cfg (read_item e) of None \<Rightarrow> [] | Some i \<Rightarrow> [fe_item_bytes env i]) @ events env cfg read_item es"
  by (simp_all add: events_def map_filter_simps split: option.splits)

text \<open>What a run has done since it began with counters \<open>st0\<close> and output queue \<open>out0\<close>, when it took \<open>es\<close>.\<close>

definition run_acct ::
  "format_env \<Rightarrow> formatter_config \<Rightarrow> (bytes \<Rightarrow> cf_packet_item) \<Rightarrow> cf_source_stats \<Rightarrow> cf_queue option \<Rightarrow> bytes list \<Rightarrow> formatter \<Rightarrow> bool" where
  "run_acct env cfg read_item st0 out0 es s \<longleftrightarrow> (\<exists>st. fm_stats s = Some st \<and> output_ok env (fm_out s) \<and>
     ((\<forall>site. fe_alloc env site) \<longrightarrow> packets_counted st = packets_counted st0 + length es) \<and> split_ok st0 st \<and>
     fs_events_formatted_total st = fs_events_formatted_total st0 + length (events env cfg read_item es) \<and>
     subseq (qp_list (fm_out s)) (qp_list out0 @ events env cfg read_item es) \<and>
     fs_formatter_queue_drop_total st0 \<le> fs_formatter_queue_drop_total st \<and>
     fs_formatter_queue_drop_total st \<le> fs_formatter_queue_drop_total st0 + length (events env cfg read_item es) \<and>
     (fs_formatter_queue_drop_total st = fs_formatter_queue_drop_total st0 \<longrightarrow>
        suffix (qp_list (fm_out s)) (qp_list out0 @ events env cfg read_item es)))"

lemma push_acct:
  assumes out: "output_ok env (fm_out s)" and st: "fm_stats s = Some st"
  obtains out' n where "formatter_push env cfg item s = s\<lparr>fm_out := out', fm_tick := fm_tick s + 1,
      fm_stats := Some (st\<lparr>fs_formatter_queue_drop_total := n\<rparr>)\<rparr>"
    "output_ok env out'" "subseq (qp_list out') (qp_list (fm_out s) @ [fe_item_bytes env item])"
    "n = fs_formatter_queue_drop_total st \<and>
       suffix (qp_list out') (qp_list (fm_out s) @ [fe_item_bytes env item]) \<or>
     n = fs_formatter_queue_drop_total st + 1"
proof -
  let ?el = "fe_item_bytes env item" and ?q = "fe_taken env (fm_tick s) (fm_out s)"
  from out have o: "qp_inv (fm_out s)" "\<And>i. policy_args (fm_out s) (fe_item_bytes env i) (fe_item_size env)"
    "only_pops (fe_consumer env)" "only_pops (fe_taken env)" by (auto simp: output_ok_def)
  note q = only_popsD [OF o(4,1), of "fm_tick s"]
  have args: "policy_args ?q (fe_item_bytes env i) (fe_item_size env)" for i
    using o(2) [of i] q by (simp add: policy_args_def)
  from push_policy_outcome [OF args o(3), of "fe_stop env" item "fc_on_full cfg" "Some (fs_formatter_queue_drop_total st)"]
  obtain rc out' c where p: "cf_queue_push_policy (fe_stop env) (fe_consumer env) ?q (Some ?el) (fe_item_size env) (fc_on_full cfg)
      (Some (fs_formatter_queue_drop_total st)) = (rc, out', c)" "qp_inv out'" "qp_elem out' = qp_elem ?q"
    "subseq (qp_list out') (qp_list ?q @ [?el])"
    "c = Some (fs_formatter_queue_drop_total st) \<and> suffix (qp_list out') (qp_list ?q @ [?el]) \<or>
     c = count_drop (Some (fs_formatter_queue_drop_total st))" by blast
  have "suffix (qp_list ?q @ [?el]) (qp_list (fm_out s) @ [?el])" using q(2) by simp
  note up = this suffix_imp_subseq [OF this]
  show thesis
  proof (rule that)
    show "formatter_push env cfg item s = s\<lparr>fm_out := out', fm_tick := fm_tick s + 1,
        fm_stats := Some (st\<lparr>fs_formatter_queue_drop_total := the c\<rparr>)\<rparr>"
      by (simp add: formatter_push_def st p(1) count_stat_def)
    show "output_ok env out'" using args o p(2,3) by (simp add: output_ok_def policy_args_def)
    show "subseq (qp_list out') (qp_list (fm_out s) @ [?el])" using p(4) up(2) by (rule subseq_order.trans)
    show "the c = fs_formatter_queue_drop_total st \<and> suffix (qp_list out') (qp_list (fm_out s) @ [?el]) \<or>
        the c = fs_formatter_queue_drop_total st + 1"
      using p(5) suffix_order.trans [OF _ up(1)] by (auto simp: count_drop_def simp del: suffix_snoc)
  qed
qed

lemma events_append [simp]:
  "events env cfg read_item (es @ fs) = events env cfg read_item es @ events env cfg read_item fs"
  by (induction es) simp_all

lemma suffix_append_mono: "suffix xs ys \<Longrightarrow> suffix zs (xs @ as) \<Longrightarrow> suffix zs (ys @ as)"
  by (meson suffix_order.trans same_suffix_suffix)

lemma process_one_acct:
  assumes acct: "run_acct env cfg read_item st0 out0 es s" and ok: "packet_ok (read_item e)"
  shows "\<exists>s'. formatter_process_one env cfg (read_item e) s = Some s' \<and> run_acct env cfg read_item st0 out0 (es @ [e]) s'"
proof -
  from acct obtain st where a: "fm_stats s = Some st" "output_ok env (fm_out s)"
    "(\<forall>site. fe_alloc env site) \<longrightarrow> packets_counted st = packets_counted st0 + length es" "split_ok st0 st"
    "fs_events_formatted_total st = fs_events_formatted_total st0 + length (events env cfg read_item es)"
    "subseq (qp_list (fm_out s)) (qp_list out0 @ events env cfg read_item es)"
    "fs_formatter_queue_drop_total st0 \<le> fs_formatter_queue_drop_total st"
    "fs_formatter_queue_drop_total st \<le> fs_formatter_queue_drop_total st0 + length (events env cfg read_item es)"
    "fs_formatter_queue_drop_total st = fs_formatter_queue_drop_total st0 \<longrightarrow>
       suffix (qp_list (fm_out s)) (qp_list out0 @ events env cfg read_item es)"
    by (auto simp: run_acct_def)
  have "packet_ready (read_item e) (take (unat (pi_captured_len (read_item e))) (pi_data (read_item e)))"
    using ok by (simp add: packet_ready_def packet_ok_def)
  then obtain rc st' where f: "cf_format_packet env cfg (read_item e) (Some st) = Some (rc, packet_event env cfg (read_item e), Some st')"
    "rc = 0 \<longleftrightarrow> packet_event env cfg (read_item e) \<noteq> None" "\<forall>site. fe_alloc env site \<Longrightarrow> rc \<noteq> - 1"
    "packets_counted st' = packets_counted st + (if rc = - 1 then 0 else 1)" "split_ok st st'"
    "fs_formatter_queue_drop_total st' = fs_formatter_queue_drop_total st"
    "fs_events_formatted_total st' = fs_events_formatted_total st + (if rc = 0 then 1 else 0)"
    by (rule format_packet_counts [where env = env and cfg = cfg and st = st]) blast
  have sp: "split_ok st0 st'" using a(4) f(5) by (simp add: split_ok_def)
  show ?thesis
  proof (cases "packet_event env cfg (read_item e)")
    case None
    then show ?thesis
      using a f sp
      by (auto simp: formatter_process_one_def run_acct_def count_stat_def packets_counted_def split_ok_def)
  next
    case (Some item)
    let ?s = "s\<lparr>fm_stats := Some st'\<rparr>"
    have s: "output_ok env (fm_out ?s)" "fm_stats ?s = Some st'" using a(2) by simp_all
    obtain out' n where p: "formatter_push env cfg item ?s = ?s\<lparr>fm_out := out', fm_tick := fm_tick ?s + 1,
        fm_stats := Some (st'\<lparr>fs_formatter_queue_drop_total := n\<rparr>)\<rparr>"
      "output_ok env out'" "subseq (qp_list out') (qp_list (fm_out ?s) @ [fe_item_bytes env item])"
      "n = fs_formatter_queue_drop_total st' \<and> suffix (qp_list out') (qp_list (fm_out ?s) @ [fe_item_bytes env item]) \<or>
       n = fs_formatter_queue_drop_total st' + 1"
      by (rule push_acct [OF s])
    have "subseq (qp_list out') ((qp_list out0 @ events env cfg read_item es) @ [fe_item_bytes env item])"
      by (rule subseq_order.trans [OF p(3)]) (use a(6) in \<open>simp del: append_assoc\<close>)
    moreover have "n = fs_formatter_queue_drop_total st0 \<longrightarrow>
        suffix (qp_list out') ((qp_list out0 @ events env cfg read_item es) @ [fe_item_bytes env item])"
      using p(4) a(7,9) f(6) by (auto simp del: suffix_snoc append_assoc intro: suffix_append_mono)
    ultimately show ?thesis
      using a f sp p(1,2,4) Some
      by (auto simp: formatter_process_one_def run_acct_def count_stat_def packets_counted_def split_ok_def simp del: suffix_snoc)
  qed
qed

lemma drain_acct:
  assumes "run_acct env cfg read_item st0 out0 es s" "feed_inv read_item inq"
  shows "\<exists>q s'. formatter_drain env cfg read_item inq s = Some (q, Some s') \<and> qp_list q = [] \<and>
    run_acct env cfg read_item st0 out0 (es @ qp_list inq) s'"
proof -
  let ?P = "\<lambda>e s. do { s \<leftarrow> s; formatter_process_one env cfg (read_item e) s }"
  have fold: "\<forall>e \<in> set fs. packet_ok (read_item e) \<Longrightarrow> run_acct env cfg read_item st0 out0 es s \<Longrightarrow>
      \<exists>s'. fold ?P fs (Some s) = Some s' \<and> run_acct env cfg read_item st0 out0 (es @ fs) s'" for fs es s
  proof (induction fs arbitrary: es s)
    case (Cons f fs)
    from process_one_acct [OF Cons.prems(2), of f] Cons.prems(1) obtain s1 where
      "formatter_process_one env cfg (read_item f) s = Some s1" "run_acct env cfg read_item st0 out0 (es @ [f]) s1" by auto
    then show ?case using Cons.IH [of "es @ [f]" s1] Cons.prems(1) by simp
  qed simp
  have i: "\<forall>e \<in> set (qp_list inq). packet_ok (read_item e)" "qp_inv inq" using assms(2) by (auto simp: feed_inv_def)
  from fold [OF i(1) assms(1)] obtain s' where
    "fold ?P (qp_list inq) (Some s) = Some s'" "run_acct env cfg read_item st0 out0 (es @ qp_list inq) s'" by blast
  then show ?thesis using ringq.drain_contents [OF i(2), of ?P "Some s"] by (auto simp: formatter_drain_def)
qed

lemma formatter_thread_acct:
  assumes "run_acct env cfg read_item st0 out0 es s" "feed_inv read_item inq"
    "\<forall>producer \<in> set its. \<forall>q. feed_inv read_item q \<longrightarrow> feed_inv read_item (producer q)"
  shows "\<exists>q s'. formatter_thread_main env cfg read_item its inq s = Some (q, s') \<and> qp_list q = [] \<and>
    run_acct env cfg read_item st0 out0 (es @ taken its inq) s'"
  using assms
proof (induction its arbitrary: inq s es)
  case Nil
  then show ?case using drain_acct [OF Nil.prems(1,2)] by auto
next
  case (Cons producer its)
  let ?q = "producer inq"
  have q: "qp_inv ?q" "\<forall>e \<in> set (qp_list ?q). packet_ok (read_item e)"
    using Cons.prems(2,3) by (auto simp: feed_inv_def)
  show ?case
  proof (cases "qp_list ?q")
    case Nil
    then obtain q' where p: "cf_queue_pop ?q True = (1, None, q')" "feed_inv read_item q'"
      using ringq.pop_empty [OF q(1)] q by (auto simp: feed_inv_def)
    show ?thesis using Cons.IH [OF Cons.prems(1) p(2)] Cons.prems(3) p(1) by auto
  next
    case (Cons e fs)
    then obtain q' where p: "cf_queue_pop ?q True = (0, Some e, q')" "feed_inv read_item q'"
      using ringq.pop_some [OF q(1)] q by (auto simp: feed_inv_def)
    from process_one_acct [OF Cons.prems(1), of e] q(2) Cons obtain s1 where
      "formatter_process_one env cfg (read_item e) s = Some s1" "run_acct env cfg read_item st0 out0 (es @ [e]) s1" by auto
    then show ?thesis using Cons.IH [of "es @ [e]" s1 q'] p Cons.prems(3) by auto
  qed
qed

section \<open>Properties\<close>

text \<open>
  C12. The formatter returns on every captured packet without reading outside it. A packet that is no
  DHCP message is skipped and counted; every other packet becomes an event of at most 8192 bytes
  with a terminated event type, or is counted as oversized, or an allocation failed.
\<close>

theorem format_packet_total:
  assumes "packet_ready pkt frame"
  shows "\<exists>rc item st'. cf_format_packet env cfg pkt (Some st) = Some (rc, item, Some st') \<and>
    (frame_message frame = None \<longrightarrow> rc = 1 \<and> fs_packets_skipped_total st' = fs_packets_skipped_total st + 1) \<and>
    (rc = 0 \<longleftrightarrow> item \<noteq> None) \<and> (\<forall>i. item = Some i \<longrightarrow> item_ok i) \<and>
    ((\<forall>site. fe_alloc env site) \<longrightarrow> rc \<noteq> - 1) \<and> packets_counted st' = packets_counted st + (if rc = - 1 then 0 else 1)"
proof -
  from assms obtain rc st' where f: "cf_format_packet env cfg pkt (Some st) = Some (rc, packet_event env cfg pkt, Some st')"
    "rc = 0 \<longleftrightarrow> packet_event env cfg pkt \<noteq> None" "\<And>i. packet_event env cfg pkt = Some i \<Longrightarrow> item_ok i"
    "\<forall>site. fe_alloc env site \<Longrightarrow> rc \<noteq> - 1" "packets_counted st' = packets_counted st + (if rc = - 1 then 0 else 1)"
    by (rule format_packet_counts [where env = env and cfg = cfg and st = st]) blast
  have "frame_message frame = None \<longrightarrow> rc = 1 \<and> fs_packets_skipped_total st' = fs_packets_skipped_total st + 1"
    using format_packet_skips [OF assms, of env cfg "Some st"] f(1) by (auto simp: skip_stat_def count_stat_def)
  then show ?thesis
    using f by (intro exI [of _ rc] exI [of _ "packet_event env cfg pkt"] exI [of _ st']) simp
qed


end
