(* ===== verification/Redis_Text.thy ===== *)
theory Redis_Text
  imports Ip_Text
begin

text \<open>
  The C library functions the Redis code reads text with (\<open>strrchr\<close>, \<open>strtol\<close>), the endpoint parser
  that \<^verbatim>\<open>libs/cloudflow-redis/cf_redis_producer.c\<close> and \<^verbatim>\<open>cf_redis_cluster.c\<close> both contain, and the parser of
  cluster redirects. Both parsers read back what they are given to read.
\<close>

section \<open>The C library\<close>

definition isspace :: "char \<Rightarrow> bool" where
  "isspace c \<longleftrightarrow> of_char c = (32 :: nat) \<or> (9 \<le> (of_char c :: nat) \<and> (of_char c :: nat) \<le> 13)"

definition isdigit :: "char \<Rightarrow> bool" where
  "isdigit c \<longleftrightarrow> 48 \<le> (of_char c :: nat) \<and> (of_char c :: nat) < 58"

text \<open>The index of the last occurrence.\<close>

fun strrchr :: "string \<Rightarrow> char \<Rightarrow> nat option" where
  "strrchr [] c = None"
| "strrchr (x # s) c =
    (case strrchr s c of Some i \<Rightarrow> Some (Suc i) | None \<Rightarrow> if x = c then Some 0 else None)"

abbreviation (input) LONG_MAX :: int where "LONG_MAX \<equiv> 9223372036854775807"
abbreviation (input) LONG_MIN :: int where "LONG_MIN \<equiv> -9223372036854775808"

text \<open>\<open>strtol\<close> to base 10 on a 64-bit \<open>long\<close>: the value, saturated, and the offset of \<open>end\<close>.\<close>

definition strtol_signed :: "bool \<Rightarrow> string \<Rightarrow> nat \<Rightarrow> int \<times> nat" where
  "strtol_signed negative s skipped =
    (let ds = takeWhile isdigit s; v = int (num_of ds)
     in if ds = [] then (0, 0)
        else (if negative then max LONG_MIN (- v) else min LONG_MAX v, skipped + length ds))"

definition strtol :: "string \<Rightarrow> int \<times> nat" where
  "strtol s =
    (let ws = length (takeWhile isspace s)
     in case drop ws s of
          [] \<Rightarrow> (0, 0)
        | c # t \<Rightarrow>
            if c = CHR ''-'' then strtol_signed True t (ws + 1)
            else if c = CHR ''+'' then strtol_signed False t (ws + 1)
            else strtol_signed False (c # t) ws)"

text \<open>The conversion of a wider integer to a 32-bit \<open>int\<close>.\<close>

definition c_int :: "int \<Rightarrow> int" where
  "c_int x = sint (of_int x :: 32 word)"

lemma c_int_id: "- (2 ^ 31) \<le> x \<Longrightarrow> x < 2 ^ 31 \<Longrightarrow> c_int x = x"
  by (simp add: c_int_def sint_sbintrunc' signed_take_bit_int_eq_self)

section \<open>Endpoints\<close>

text \<open>\<open>host:port\<close>, split at the last colon; \<open>host_cap\<close> is the size of the caller's buffer.\<close>

definition parse_endpoint :: "string option \<Rightarrow> nat \<Rightarrow> (string \<times> int) option" where
  "parse_endpoint endpoint host_cap =
    (case map_option cstr endpoint of
       None \<Rightarrow> None
     | Some ep \<Rightarrow>
         (case strrchr ep CHR '':'' of
            None \<Rightarrow> None
          | Some host_len \<Rightarrow>
              if host_len = 0 then None
              else if host_len \<ge> host_cap then None
              else let tail = drop (host_len + 1) ep; (parsed, end) = strtol tail
                   in if end = 0 \<or> end \<noteq> length tail \<or> parsed \<le> 0 \<or> parsed > 65535 then None
                      else Some (take host_len ep, parsed)))"

section \<open>Redirects\<close>

datatype redirect_kind = REDIRECT_NONE | REDIRECT_MOVED | REDIRECT_ASK

text \<open>A parsed redirect: its kind, slot, host and port.\<close>

definition parse_redirect_tail :: "redirect_kind \<Rightarrow> string \<Rightarrow> nat \<Rightarrow> (redirect_kind \<times> int \<times> string \<times> int) option" where
  "parse_redirect_tail kind p host_cap =
    (let (s, end) = strtol p
     in if end = 0 \<or> (case drop end p of [] \<Rightarrow> True | c # _ \<Rightarrow> c \<noteq> CHR '' '') then None
        else let q = drop (end + 1) p
             in case strrchr q CHR '':'' of
                  None \<Rightarrow> None
                | Some hl \<Rightarrow>
                    if hl = 0 \<or> hl \<ge> host_cap then None
                    else let tail = drop (hl + 1) q; (pt, end2) = strtol tail
                         in if end2 = 0 \<or> end2 \<noteq> length tail \<or> pt \<le> 0 \<or> pt > 65535 then None
                            else Some (kind, c_int s, take hl q, pt))"

definition cf_redis_parse_redirect :: "string option \<Rightarrow> nat \<Rightarrow> (redirect_kind \<times> int \<times> string \<times> int) option" where
  "cf_redis_parse_redirect errstr host_cap =
    (case map_option cstr errstr of
       None \<Rightarrow> None
     | Some e \<Rightarrow>
         if take 6 e = ''MOVED '' then parse_redirect_tail REDIRECT_MOVED (drop 6 e) host_cap
         else if take 4 e = ''ASK '' then parse_redirect_tail REDIRECT_ASK (drop 4 e) host_cap
         else None)"

section \<open>What is printed is read back\<close>

lemma strrchr_None: "c \<notin> set s \<Longrightarrow> strrchr s c = None"
  by (induction s) auto

lemma strrchr_last: "c \<notin> set t \<Longrightarrow> strrchr (s @ c # t) c = Some (length s)"
  by (induction s) (auto simp: strrchr_None)

lemma dec_string_not_Nil [simp]: "dec_string n \<noteq> []"
  by (subst dec_string.simps) simp

lemma dec_string_digits: "c \<in> set (dec_string n) \<Longrightarrow> isdigit c"
  using dec_string_chars by (auto simp: isdigit_def)

lemma isdigit_not: "isdigit c \<Longrightarrow> \<not> isspace c \<and> c \<noteq> CHR ''-'' \<and> c \<noteq> CHR ''+'' \<and> c \<noteq> CHR '':'' \<and> c \<noteq> CHR 0x00"
  by (auto simp: isdigit_def isspace_def)

lemma takeWhile_digits: "\<not> (rest \<noteq> [] \<and> isdigit (hd rest)) \<Longrightarrow> takeWhile isdigit (dec_string n @ rest) = dec_string n"
  by (subst takeWhile_append2) (auto simp: dec_string_digits takeWhile_eq_Nil_iff)

lemma strtol_dec_string:
  assumes "int n \<le> LONG_MAX" "\<not> (rest \<noteq> [] \<and> isdigit (hd rest))"
  shows "strtol (dec_string n @ rest) = (int n, length (dec_string n))"
proof -
  obtain c t where c: "dec_string n = c # t" by (cases "dec_string n") auto
  then have d: "isdigit c" using dec_string_digits [of c n] by simp
  have "strtol (dec_string n @ rest) = strtol_signed False (dec_string n @ rest) 0"
    using isdigit_not [OF d] by (simp add: strtol_def c)
  then show ?thesis
    using assms by (simp add: strtol_signed_def takeWhile_digits num_of_dec_string)
qed

lemma cstr_id: "CHR 0x00 \<notin> set s \<Longrightarrow> cstr s = s"
  unfolding cstr_def by (subst takeWhile_eq_all_conv) auto

lemma dec_string_clean: "CHR 0x00 \<notin> set (dec_string n)" "CHR '':'' \<notin> set (dec_string n)"
  using isdigit_not [OF dec_string_digits] by auto

text \<open>
  An endpoint that is printed as \<open>host:port\<close> is parsed back, whatever characters (colons
  included) the host contains.
\<close>

theorem parse_endpoint_roundtrip:
  assumes "host \<noteq> []" "length host < cap" "CHR 0x00 \<notin> set host" "0 < port" "port \<le> 65535"
  shows "parse_endpoint (Some (host @ '':'' @ dec_string port)) cap = Some (host, int port)"
proof -
  let ?ep = "host @ '':'' @ dec_string port"
  have "cstr ?ep = ?ep" using assms(3) dec_string_clean by (intro cstr_id) auto
  moreover have "strrchr ?ep CHR '':'' = Some (length host)"
    using strrchr_last [of _ "dec_string port" host] dec_string_clean by simp
  moreover have "strtol (dec_string port) = (int port, length (dec_string port))"
    using strtol_dec_string [of port "[]"] assms(5) by simp
  ultimately show ?thesis
    using assms by (simp add: parse_endpoint_def)
qed

theorem parse_endpoint_roundtrip_witness:
  "parse_endpoint (Some ''::1:6379'') 256 = Some (''::1'', 6379)"
  using parse_endpoint_roundtrip [of "''::1''" 256 6379]
  by (simp add: dec_string.simps digit_def char_of_def bit_0)

text \<open>
  A cluster redirect is understood: the error text a node answers with for a slot that moved
  or is being moved yields its kind, slot and target.
\<close>

theorem parse_redirect_roundtrip:
  assumes "host \<noteq> []" "length host < cap" "CHR 0x00 \<notin> set host" "0 < port" "port \<le> 65535" "sl < 16384"
  shows "cf_redis_parse_redirect
      (Some ((if moved then ''MOVED '' else ''ASK '') @ dec_string sl @ '' '' @ host @ '':'' @ dec_string port)) cap =
    Some (if moved then REDIRECT_MOVED else REDIRECT_ASK, int sl, host, int port)"
proof -
  let ?q = "host @ '':'' @ dec_string port"
  let ?p = "dec_string sl @ '' '' @ ?q"
  have sp: "\<not> isdigit CHR '' ''" by (simp add: isdigit_def)
  have "strtol ?p = (int sl, length (dec_string sl))"
    using strtol_dec_string [of sl "'' '' @ ?q"] assms(6) sp by simp
  moreover have "strrchr ?q CHR '':'' = Some (length host)"
    using strrchr_last [of _ "dec_string port" host] dec_string_clean by simp
  moreover have "strtol (dec_string port) = (int port, length (dec_string port))"
    using strtol_dec_string [of port "[]"] assms(5) by simp
  ultimately have t: "parse_redirect_tail k ?p cap = Some (k, int sl, host, int port)" for k
    using assms by (simp add: parse_redirect_tail_def c_int_id)
  note t = t [simplified]
  have "cstr ((if moved then ''MOVED '' else ''ASK '') @ ?p) = (if moved then ''MOVED '' else ''ASK '') @ ?p"
    using assms(3) dec_string_clean by (intro cstr_id) auto
  then show ?thesis by (cases moved) (simp_all add: cf_redis_parse_redirect_def t)
qed

theorem parse_redirect_roundtrip_witness:
  "cf_redis_parse_redirect (Some ''MOVED 3999 10.0.0.7:6379'') 256 = Some (REDIRECT_MOVED, 3999, ''10.0.0.7'', 6379)"
  using parse_redirect_roundtrip [of "''10.0.0.7''" 256 6379 3999 True]
  by (simp add: dec_string.simps digit_def char_of_def bit_0)

end
