(* ===== verification/Redis_Producer.thy ===== *)
theory Redis_Producer
  imports Dns_Stage Sink_World Redis_Text
begin

text \<open>
  The Redis producer, \<^verbatim>\<open>libs/cloudflow-redis/cf_redis_producer.c\<close>: one thread pops events from the
  event queue, appends an XADD for each to the pipeline of its connection and collects the replies
  in batches; a batch whose connection breaks is sent once more on a new one.

  As for the sinks, every question the thread asks outside is answered by the environment as a
  function of the position in the run (\<open>pw_tick\<close>): clock, stop flags, connection attempts, the client
  library, allocations, and what the other side of the queue pushed since the last access. The
  history \<open>pw_log\<close> records the effects in order. A connection is open while \<open>pw_pipes\<close> has it, with
  the commands that were appended and not answered yet. A use of a connection that is not open, a
  request for a reply with no command outstanding (the client library would block) and a loop that
  does not end are all \<open>None\<close>.
\<close>

section \<open>Data\<close>

abbreviation (input) CF_REDIS_BACKOFF_INITIAL_NS :: int where "CF_REDIS_BACKOFF_INITIAL_NS \<equiv> 100000000"
abbreviation (input) CF_REDIS_BACKOFF_MAX_NS :: int where "CF_REDIS_BACKOFF_MAX_NS \<equiv> 5000000000"
abbreviation (input) CF_REDIS_SHUTDOWN_DEADLINE_NS :: int where "CF_REDIS_SHUTDOWN_DEADLINE_NS \<equiv> 5000000000"
abbreviation (input) CF_REDIS_IDLE_SLEEP_NS :: int where "CF_REDIS_IDLE_SLEEP_NS \<equiv> 5000000"
abbreviation (input) CF_REDIS_LOG_RATE_LIMIT_NS :: int where "CF_REDIS_LOG_RATE_LIMIT_NS \<equiv> 1000000000"
abbreviation (input) CF_REDIS_BACKOFF_SLEEP_CHUNK_NS :: int where "CF_REDIS_BACKOFF_SLEEP_CHUNK_NS \<equiv> 50000000"
abbreviation (input) INT64_MAX :: int where "INT64_MAX \<equiv> 9223372036854775807"

record cf_redis_stats =
  xadd_total :: nat
  xadd_errors_total :: nat
  xadd_latency_ns_total :: u64
  redis_reconnects_total :: nat
  events_lost_total :: nat

text \<open>The endpoints are C strings; the input queue is part of the producer's state below.\<close>

record cf_redis_producer_config =
  pc_endpoints :: "string option list"
  pc_maxlen_approx :: int
  pc_pipeline_max :: nat
  pc_flush_interval_ms :: nat

text \<open>The five rate-limited log lines.\<close>

datatype log_site = Log_Connect_Fail | Log_Invalid_Stream | Log_Append_Error | Log_Xadd_Error | Log_Retry_Fail

datatype reply_result = No_Reply | Error_Reply | Other_Reply

datatype producer_event =
    Pushed cf_event_item
  | Popped cf_event_item
  | Opened conn
  | Closed conn
  | Appended conn command
  | Answered conn command bool
  | Sleeps int
  | Logged log_site int

record producer =
  pw_tick :: nat
  pw_log :: "producer_event list"
  pw_stats :: cf_redis_stats
  pw_in :: "cf_queue option"
  pw_pipes :: "conn \<rightharpoonup> command list"
  pw_next :: conn
  pw_endpoint_idx :: nat
  pw_backoff_ns :: int
  pw_last_log :: "log_site \<Rightarrow> int"

text \<open>\<open>pe_read_item\<close> is the memory layout of a queue element.\<close>

record producer_env =
  pe_stop_notified :: "nat \<Rightarrow> bool"
  pe_stop_local :: "nat \<Rightarrow> bool"
  pe_now :: "nat \<Rightarrow> int"
  pe_connect :: "nat \<Rightarrow> string \<Rightarrow> int \<Rightarrow> connect_result"
  pe_append :: "nat \<Rightarrow> bool"
  pe_reply :: "nat \<Rightarrow> reply_result"
  pe_alloc :: "nat \<Rightarrow> bool"
  pe_arrive :: "nat \<Rightarrow> bytes list"
  pe_read_item :: "bytes \<Rightarrow> cf_event_item"

definition p_ask :: "(nat \<Rightarrow> 'a) \<Rightarrow> producer \<Rightarrow> 'a \<times> producer" where
  "p_ask f w = (f (pw_tick w), w\<lparr>pw_tick := Suc (pw_tick w)\<rparr>)"

definition p_note :: "producer_event \<Rightarrow> producer \<Rightarrow> producer" where
  "p_note e w = w\<lparr>pw_log := pw_log w @ [e]\<rparr>"

definition p_count :: "(cf_redis_stats \<Rightarrow> cf_redis_stats) \<Rightarrow> producer \<Rightarrow> producer" where
  "p_count f w = w\<lparr>pw_stats := f (pw_stats w)\<rparr>"

definition lose :: "nat \<Rightarrow> producer \<Rightarrow> producer" where
  "lose n w = p_count (\<lambda>s. s\<lparr>events_lost_total := events_lost_total s + n\<rparr>) w"

definition producer_should_stop :: "producer_env \<Rightarrow> producer \<Rightarrow> bool \<times> producer" where
  "producer_should_stop env w = p_ask (\<lambda>t. pe_stop_notified env t \<or> pe_stop_local env t) w"

definition log_rate_limited_kv :: "producer_env \<Rightarrow> log_site \<Rightarrow> producer \<Rightarrow> producer" where
  "log_rate_limited_kv env site w =
    (case p_ask (pe_now env) w of (now, w) \<Rightarrow>
       if pw_last_log w site \<noteq> 0 \<and> now - pw_last_log w site < CF_REDIS_LOG_RATE_LIMIT_NS then w
       else p_note (Logged site now) (w\<lparr>pw_last_log := (pw_last_log w)(site := now)\<rparr>))"

section \<open>The client library\<close>

definition p_open :: "producer \<Rightarrow> conn \<times> producer" where
  "p_open w = (pw_next w, p_note (Opened (pw_next w))
     (w\<lparr>pw_pipes := (pw_pipes w)(pw_next w \<mapsto> []), pw_next := pw_next w + 1\<rparr>))"

definition p_free :: "conn \<Rightarrow> producer \<Rightarrow> producer option" where
  "p_free k w = (if pw_pipes w k = None then None
     else Some (p_note (Closed k) (w\<lparr>pw_pipes := (pw_pipes w)(k := None)\<rparr>)))"

text \<open>\<open>redisAppendCommand\<close>; the result says whether it returned \<open>REDIS_OK\<close>.\<close>

definition p_append_command :: "producer_env \<Rightarrow> conn \<Rightarrow> command \<Rightarrow> producer \<Rightarrow> (bool \<times> producer) option" where
  "p_append_command env k cmd w = do {
     pipe \<leftarrow> pw_pipes w k;
     Some (case p_ask (pe_append env) w of (ok, w) \<Rightarrow>
       if ok then (True, p_note (Appended k cmd) (w\<lparr>pw_pipes := (pw_pipes w)(k \<mapsto> pipe @ [cmd])\<rparr>))
       else (False, w)) }"

text \<open>\<open>redisGetReply\<close>: replies come in the order of the commands.\<close>

definition p_get_reply :: "producer_env \<Rightarrow> conn \<Rightarrow> producer \<Rightarrow> (reply_result \<times> producer) option" where
  "p_get_reply env k w = do {
     pipe \<leftarrow> pw_pipes w k;
     (case pipe of
        [] \<Rightarrow> None
      | cmd # rest \<Rightarrow>
          (case p_ask (pe_reply env) w of (r, w) \<Rightarrow>
             Some (r, if r = No_Reply then w
                      else p_note (Answered k cmd (r = Other_Reply)) (w\<lparr>pw_pipes := (pw_pipes w)(k \<mapsto> rest)\<rparr>)))) }"

section \<open>The input queue\<close>

text \<open>The other thread pushes what it has; an element that finds the queue full stays with it.\<close>

fun p_arrivals :: "producer_env \<Rightarrow> bytes list \<Rightarrow> producer \<Rightarrow> producer" where
  "p_arrivals env [] w = w"
| "p_arrivals env (e # es) w =
    (case cf_queue_push (pw_in w) (Some e) of (rc, q) \<Rightarrow>
       p_arrivals env es
         ((if rc = 0 then p_note (Pushed (pe_read_item env e)) w else w)\<lparr>pw_in := q\<rparr>))"

definition p_queue_sync :: "producer_env \<Rightarrow> producer \<Rightarrow> producer" where
  "p_queue_sync env w = (case p_ask (pe_arrive env) w of (es, w) \<Rightarrow> p_arrivals env es w)"

definition p_queue_length :: "producer_env \<Rightarrow> producer \<Rightarrow> nat \<times> producer" where
  "p_queue_length env w = (let w = p_queue_sync env w in (cf_queue_length (pw_in w), w))"

definition p_queue_pop :: "producer_env \<Rightarrow> producer \<Rightarrow> cf_event_item option \<times> producer" where
  "p_queue_pop env w =
    (let w = p_queue_sync env w
     in case cf_queue_pop (pw_in w) True of (rc, e, q) \<Rightarrow>
          if rc = 0 then let item = pe_read_item env (the e) in (Some item, p_note (Popped item) (w\<lparr>pw_in := q\<rparr>))
          else (None, w\<lparr>pw_in := q\<rparr>))"

section \<open>Connecting\<close>

definition try_connect_one :: "producer_env \<Rightarrow> string option \<Rightarrow> producer \<Rightarrow> (conn option \<times> producer) option" where
  "try_connect_one env endpoint w =
    (case parse_endpoint endpoint 256 of
       None \<Rightarrow> Some (None, log_rate_limited_kv env Log_Connect_Fail w)
     | Some (host, port) \<Rightarrow>
         (case p_ask (\<lambda>t. pe_connect env t host port) w of (r, w) \<Rightarrow>
            (case r of
               Connect_Null \<Rightarrow> Some (None, w)
             | Connect_Err \<Rightarrow> (case p_open w of (k, w) \<Rightarrow> do { w \<leftarrow> p_free k w; Some (None, w) })
             | Connect_Ok \<Rightarrow> (case p_open w of (k, w) \<Rightarrow> Some (Some k, w)))))"

text \<open>The two tests that end a wait: the deadline, and a stop when \<open>bail_on_stop\<close> is set.\<close>

definition must_bail :: "producer_env \<Rightarrow> int \<Rightarrow> bool \<Rightarrow> producer \<Rightarrow> bool \<times> producer" where
  "must_bail env deadline_mono bail_on_stop w =
    (case p_ask (pe_now env) w of (now, w) \<Rightarrow>
       if now \<ge> deadline_mono then (True, w)
       else if bail_on_stop then producer_should_stop env w else (False, w))"

function sleep_backoff :: "producer_env \<Rightarrow> int \<Rightarrow> int \<Rightarrow> bool \<Rightarrow> producer \<Rightarrow> producer" where
  "sleep_backoff env remaining deadline_mono bail_on_stop w =
    (if remaining > 0 then
       (case must_bail env deadline_mono bail_on_stop w of (bail, w) \<Rightarrow>
          if bail then w
          else let chunk = (if remaining < CF_REDIS_BACKOFF_SLEEP_CHUNK_NS then remaining
                            else CF_REDIS_BACKOFF_SLEEP_CHUNK_NS)
               in sleep_backoff env (remaining - chunk) deadline_mono bail_on_stop (p_note (Sleeps chunk) w))
     else w)"
  by pat_completeness auto
termination by (relation "measure (\<lambda>(env, remaining, d, b, w). nat remaining)") (auto simp: Let_def)

declare sleep_backoff.simps [simp del]

text \<open>One cycle over the endpoints.\<close>

datatype cycle_result = Got conn | Gave_Up | All_Failed

fun connect_cycle ::
  "producer_env \<Rightarrow> cf_redis_producer_config \<Rightarrow> bool \<Rightarrow> int \<Rightarrow> bool \<Rightarrow> nat \<Rightarrow> producer \<Rightarrow>
   (cycle_result \<times> producer) option" where
  "connect_cycle env cfg count_as_reconnect deadline_mono bail_on_stop 0 w = Some (All_Failed, w)"
| "connect_cycle env cfg count_as_reconnect deadline_mono bail_on_stop (Suc tries) w =
    (case must_bail env deadline_mono bail_on_stop w of (bail, w) \<Rightarrow>
       if bail then Some (Gave_Up, w)
       else let ep = pc_endpoints cfg ! (pw_endpoint_idx w mod length (pc_endpoints cfg))
            in do {
              (ctx, w) \<leftarrow> try_connect_one env ep (w\<lparr>pw_endpoint_idx := pw_endpoint_idx w + 1\<rparr>);
              (case ctx of
                 Some k \<Rightarrow>
                   let w = (if count_as_reconnect
                            then p_count (\<lambda>s. s\<lparr>redis_reconnects_total := redis_reconnects_total s + 1\<rparr>) w else w)
                   in Some (Got k, w\<lparr>pw_backoff_ns := CF_REDIS_BACKOFF_INITIAL_NS\<rparr>)
               | None \<Rightarrow> connect_cycle env cfg count_as_reconnect deadline_mono bail_on_stop tries w) })"

definition double_backoff :: "producer \<Rightarrow> producer" where
  "double_backoff w =
    (let b = pw_backoff_ns w * 2
     in w\<lparr>pw_backoff_ns := if b > CF_REDIS_BACKOFF_MAX_NS then CF_REDIS_BACKOFF_MAX_NS else b\<rparr>)"

partial_function (option) connect_with_backoff ::
  "producer_env \<Rightarrow> cf_redis_producer_config \<Rightarrow> bool \<Rightarrow> int \<Rightarrow> bool \<Rightarrow> producer \<Rightarrow> (conn option \<times> producer) option" where
  "connect_with_backoff env cfg count_as_reconnect deadline_mono bail_on_stop w = do {
     (r, w) \<leftarrow> connect_cycle env cfg count_as_reconnect deadline_mono bail_on_stop (length (pc_endpoints cfg)) w;
     (case r of
        Got k \<Rightarrow> Some (Some k, w)
      | Gave_Up \<Rightarrow> Some (None, w)
      | All_Failed \<Rightarrow>
          (case must_bail env deadline_mono bail_on_stop w of (bail, w) \<Rightarrow>
             if bail then Some (None, w)
             else let w = log_rate_limited_kv env Log_Connect_Fail w;
                      w = sleep_backoff env (pw_backoff_ns w) deadline_mono bail_on_stop w
                  in connect_with_backoff env cfg count_as_reconnect deadline_mono bail_on_stop (double_backoff w))) }"

section \<open>The pipeline\<close>

text \<open>The XADD as the server receives it. \<open>event_type\<close> ends at its first NUL or after its 64 bytes.\<close>

definition xadd_command :: "cf_redis_producer_config \<Rightarrow> string \<Rightarrow> cf_event_item \<Rightarrow> command" where
  "xadd_command cfg stream item =
    [''XADD'', stream] @
    (if pc_maxlen_approx cfg > 0 then [''MAXLEN'', ''~'', int_string (pc_maxlen_approx cfg)] else []) @
    [''*'', ''schema'', ''cloudflow.v1.CloudFlowEvent'', ''version'', ''1'', ''encoding'', ''protobuf'',
     ''event_type'', take 64 (cstr (ei_event_type item)), ''payload'', map chr_of_byte (ei_payload item)]"

text \<open>The result is whether the command was appended.\<close>

definition append_xadd ::
  "producer_env \<Rightarrow> conn option \<Rightarrow> cf_redis_producer_config \<Rightarrow> cf_event_item \<Rightarrow> producer \<Rightarrow> (bool \<times> producer) option" where
  "append_xadd env ctx cfg item w =
    (case ctx of
       None \<Rightarrow> Some (False, w)
     | Some k \<Rightarrow>
         (case cf_stream_name (ei_stream_id item) of
            None \<Rightarrow> Some (False, w)
          | Some stream \<Rightarrow> p_append_command env k (xadd_command cfg stream item) w))"

text \<open>\<open>n\<close> replies from the \<open>i\<close>-th on; the result is the number of replies and the error flag.\<close>

fun flush_loop :: "producer_env \<Rightarrow> conn \<Rightarrow> nat \<Rightarrow> nat \<Rightarrow> int \<Rightarrow> producer \<Rightarrow> (nat \<times> bool \<times> producer) option" where
  "flush_loop env k i 0 t_prev w = Some (i, False, w)"
| "flush_loop env k i (Suc n) t_prev w = do {
     (r, w) \<leftarrow> p_get_reply env k w;
     if r = No_Reply then Some (i, True, w)
     else (case p_ask (pe_now env) w of (now, w) \<Rightarrow>
       let w = p_count (\<lambda>s. s\<lparr>xadd_latency_ns_total := xadd_latency_ns_total s + of_int (now - t_prev)\<rparr>) w;
           w = (if r = Error_Reply
                then log_rate_limited_kv env Log_Xadd_Error
                       (p_count (\<lambda>s. s\<lparr>xadd_errors_total := xadd_errors_total s + 1\<rparr>) w)
                else p_count (\<lambda>s. s\<lparr>xadd_total := xadd_total s + 1\<rparr>) w)
       in flush_loop env k (i + 1) n now w) }"

definition flush_pipeline :: "producer_env \<Rightarrow> conn option \<Rightarrow> nat \<Rightarrow> producer \<Rightarrow> (nat \<times> bool \<times> producer) option" where
  "flush_pipeline env ctx n w = do {
     k \<leftarrow> ctx;
     (case p_ask (pe_now env) w of (t_prev, w) \<Rightarrow> flush_loop env k 0 n t_prev w) }"

text \<open>The unacknowledged events again on the new connection, until an append fails.\<close>

fun reappend ::
  "producer_env \<Rightarrow> conn \<Rightarrow> cf_redis_producer_config \<Rightarrow> cf_event_item list \<Rightarrow> nat \<Rightarrow> producer \<Rightarrow> (nat \<times> producer) option" where
  "reappend env k cfg [] appended w = Some (appended, w)"
| "reappend env k cfg (item # items) appended w = do {
     (ok, w) \<leftarrow> append_xadd env (Some k) cfg item w;
     if ok then reappend env k cfg items (appended + 1) w else Some (appended, w) }"

text \<open>The second attempt: what it loses is counted.\<close>

definition retry_unacked ::
  "producer_env \<Rightarrow> conn \<Rightarrow> cf_redis_producer_config \<Rightarrow> cf_event_item list \<Rightarrow> producer \<Rightarrow> (conn option \<times> producer) option" where
  "retry_unacked env k cfg unacked w = do {
     (appended, w) \<leftarrow> reappend env k cfg unacked 0 w;
     let lost = length unacked - appended;
     (drained2, io_error2, w) \<leftarrow>
       (if appended > 0 then flush_pipeline env (Some k) appended w else Some (0, False, w));
     w \<leftarrow> (if io_error2 then p_free k w else Some w);
     let ctx = (if io_error2 then None else Some k);
     let lost = (if io_error2 then lost + (appended - drained2) else lost);
     Some (ctx, if lost > 0 then log_rate_limited_kv env Log_Retry_Fail (lose lost w) else w) }"

text \<open>\<open>do_flush\<close> leaves no event in flight; the result is the connection.\<close>

definition do_flush ::
  "producer_env \<Rightarrow> conn option \<Rightarrow> cf_redis_producer_config \<Rightarrow> cf_event_item list \<Rightarrow> bool \<Rightarrow> int \<Rightarrow> producer \<Rightarrow>
   (conn option \<times> producer) option" where
  "do_flush env ctx cfg inflight stopping shutdown_deadline_mono w = do {
     (drained, io_error, w) \<leftarrow> flush_pipeline env ctx (length inflight) w;
     if \<not> io_error then Some (ctx, w)
     else do {
       k \<leftarrow> ctx;
       w \<leftarrow> p_free k w;
       let unacked = drop drained inflight;
       if unacked = [] then Some (None, w)
       else do {
         (ctx, w) \<leftarrow> connect_with_backoff env cfg True (if stopping then shutdown_deadline_mono else INT64_MAX)
           (\<not> stopping) w;
         (case ctx of
            None \<Rightarrow> Some (None, log_rate_limited_kv env Log_Retry_Fail (lose (length unacked) w))
          | Some k \<Rightarrow> retry_unacked env k cfg unacked w) } } }"

section \<open>The thread\<close>

text \<open>What the loop carries from one iteration to the next.\<close>

record producer_loop =
  pl_ctx :: "conn option"
  pl_inflight :: "cf_event_item list"
  pl_batch_start :: int
  pl_shutdown_deadline :: int

text \<open>Past the deadline what is left is dropped: the queue is emptied, the number of events lost is
  the length read before.\<close>

partial_function (option) discard_queue :: "producer_env \<Rightarrow> producer \<Rightarrow> producer option" where
  "discard_queue env w =
    (case p_queue_pop env w of (item, w) \<Rightarrow> if item = None then Some w else discard_queue env w)"

definition abandon :: "producer_env \<Rightarrow> producer_loop \<Rightarrow> producer \<Rightarrow> (producer_loop \<times> producer) option" where
  "abandon env l w =
    (case p_queue_length env w of (remaining, w) \<Rightarrow> do {
       w \<leftarrow> (if remaining > 0 then do { w \<leftarrow> discard_queue env w; Some (lose remaining w) } else Some w);
       Some (if pl_inflight l \<noteq> [] then (l\<lparr>pl_inflight := []\<rparr>, lose (length (pl_inflight l)) w) else (l, w)) })"

text \<open>One event from the queue into the pipeline.\<close>

definition take_event ::
  "producer_env \<Rightarrow> cf_redis_producer_config \<Rightarrow> bool \<Rightarrow> producer_loop \<Rightarrow> producer \<Rightarrow> (producer_loop \<times> producer) option" where
  "take_event env cfg stopping l w =
    (if length (pl_inflight l) < pc_pipeline_max cfg then
       (case p_queue_pop env w of (item, w) \<Rightarrow>
          (case item of
             Some item \<Rightarrow> do {
               (ok, w) \<leftarrow> append_xadd env (pl_ctx l) cfg item w;
               Some (if ok then
                       (case (if pl_inflight l = [] then p_ask (pe_now env) w else (pl_batch_start l, w)) of (t, w) \<Rightarrow>
                          (l\<lparr>pl_inflight := pl_inflight l @ [item], pl_batch_start := t\<rparr>, w))
                     else if cf_stream_name (ei_stream_id item) = None
                       then (l, log_rate_limited_kv env Log_Invalid_Stream (lose 1 w))
                     else (l, log_rate_limited_kv env Log_Append_Error (lose 1 w))) }
           | None \<Rightarrow> Some (l, if stopping then w else p_note (Sleeps CF_REDIS_IDLE_SLEEP_NS) w)))
     else Some (l, w))"

definition producer_should_flush ::
  "producer_env \<Rightarrow> cf_redis_producer_config \<Rightarrow> bool \<Rightarrow> producer_loop \<Rightarrow> producer \<Rightarrow> bool \<times> producer" where
  "producer_should_flush env cfg stopping l w =
    (if length (pl_inflight l) \<ge> pc_pipeline_max cfg then (True, w)
     else if pl_inflight l \<noteq> [] \<and> stopping then (True, w)
     else if pl_inflight l \<noteq> [] then
       (case p_ask (pe_now env) w of (now, w) \<Rightarrow>
          (now - pl_batch_start l \<ge> int (pc_flush_interval_ms cfg) * 1000000, w))
     else (False, w))"

text \<open>The rest of an iteration once there is a connection.\<close>

definition pump ::
  "producer_env \<Rightarrow> cf_redis_producer_config \<Rightarrow> bool \<Rightarrow> producer_loop \<Rightarrow> producer \<Rightarrow> (producer_loop \<times> producer) option" where
  "pump env cfg stopping l w = do {
     (l, w) \<leftarrow> take_event env cfg stopping l w;
     (case producer_should_flush env cfg stopping l w of (flush, w) \<Rightarrow>
        if flush then do {
          (ctx, w) \<leftarrow> do_flush env (pl_ctx l) cfg (pl_inflight l) stopping (pl_shutdown_deadline l) w;
          Some (l\<lparr>pl_ctx := ctx, pl_inflight := []\<rparr>, w) }
        else Some (l, w)) }"

text \<open>The part of an iteration from the connection on; without a connection it goes back to the top.\<close>

definition producer_serve ::
  "producer_env \<Rightarrow> cf_redis_producer_config \<Rightarrow> bool \<Rightarrow> producer_loop \<Rightarrow> producer \<Rightarrow> (producer_loop \<times> producer) option" where
  "producer_serve env cfg stopping l w = do {
     (ctx, w) \<leftarrow> (case pl_ctx l of
        Some k \<Rightarrow> Some (Some k, w)
      | None \<Rightarrow> connect_with_backoff env cfg True (if stopping then pl_shutdown_deadline l else INT64_MAX)
          (\<not> stopping) w);
     let l = l\<lparr>pl_ctx := ctx\<rparr>;
     (if ctx = None then Some (l, w) else pump env cfg stopping l w) }"

text \<open>One iteration: \<open>Inl\<close> goes on, \<open>Inr\<close> is a \<open>break\<close>.\<close>

definition producer_iter ::
  "producer_env \<Rightarrow> cf_redis_producer_config \<Rightarrow> producer_loop \<Rightarrow> producer \<Rightarrow>
   ((producer_loop \<times> producer) + (producer_loop \<times> producer)) option" where
  "producer_iter env cfg l w =
    (case producer_should_stop env w of (stopping, w) \<Rightarrow>
     case (if stopping \<and> pl_shutdown_deadline l < 0
           then (case p_ask (pe_now env) w of (now, w) \<Rightarrow>
                   (l\<lparr>pl_shutdown_deadline := now + CF_REDIS_SHUTDOWN_DEADLINE_NS\<rparr>, w))
           else (l, w)) of (l, w) \<Rightarrow>
     case (if stopping \<and> pl_inflight l = []
           then (case p_queue_length env w of (n, w) \<Rightarrow> (n = 0, w)) else (False, w)) of (idle, w) \<Rightarrow>
     if idle then Some (Inr (l, w))
     else case (if stopping then p_ask (pe_now env) w else (0, w)) of (now, w) \<Rightarrow>
       if stopping \<and> now \<ge> pl_shutdown_deadline l then do {
         r \<leftarrow> abandon env l w;
         Some (Inr r) }
       else do { r \<leftarrow> producer_serve env cfg stopping l w; Some (Inl r) })"

partial_function (option) producer_run ::
  "producer_env \<Rightarrow> cf_redis_producer_config \<Rightarrow> producer_loop \<Rightarrow> producer \<Rightarrow> (producer_loop \<times> producer) option" where
  "producer_run env cfg l w = do {
     r \<leftarrow> producer_iter env cfg l w;
     (case r of Inl (l, w) \<Rightarrow> producer_run env cfg l w | Inr x \<Rightarrow> Some x) }"

definition cf_redis_producer_thread_main ::
  "producer_env \<Rightarrow> cf_redis_producer_config \<Rightarrow> producer \<Rightarrow> producer option" where
  "cf_redis_producer_thread_main env cfg w =
    (case p_ask (pe_alloc env) (w\<lparr>pw_endpoint_idx := 0, pw_backoff_ns := CF_REDIS_BACKOFF_INITIAL_NS\<rparr>) of (ok, w) \<Rightarrow>
       if \<not> ok then Some w
       else do {
         (ctx, w) \<leftarrow> connect_with_backoff env cfg False INT64_MAX True w;
         (l, w) \<leftarrow> producer_run env cfg \<lparr>pl_ctx = ctx, pl_inflight = [], pl_batch_start = 0, pl_shutdown_deadline = - 1\<rparr> w;
         (case pl_ctx l of None \<Rightarrow> Some w | Some k \<Rightarrow> p_free k w) })"

section \<open>Start and stop\<close>

abbreviation (input) CF_REDIS_PRODUCER_PIPELINE_MAX_CAP :: nat where "CF_REDIS_PRODUCER_PIPELINE_MAX_CAP \<equiv> 4096"
abbreviation (input) CF_REDIS_PRODUCER_DEFAULT_PIPELINE_MAX :: nat where "CF_REDIS_PRODUCER_DEFAULT_PIPELINE_MAX \<equiv> 512"
abbreviation (input) CF_REDIS_PRODUCER_DEFAULT_FLUSH_INTERVAL_MS :: nat where "CF_REDIS_PRODUCER_DEFAULT_FLUSH_INTERVAL_MS \<equiv> 100"

definition producer_local_config :: "cf_redis_producer_config \<Rightarrow> cf_redis_producer_config" where
  "producer_local_config cfg =
    (let cfg = (if pc_pipeline_max cfg = 0 then cfg\<lparr>pc_pipeline_max := CF_REDIS_PRODUCER_DEFAULT_PIPELINE_MAX\<rparr> else cfg);
         cfg = (if pc_pipeline_max cfg > CF_REDIS_PRODUCER_PIPELINE_MAX_CAP
                then cfg\<lparr>pc_pipeline_max := CF_REDIS_PRODUCER_PIPELINE_MAX_CAP\<rparr> else cfg)
     in if pc_flush_interval_ms cfg = 0 then cfg\<lparr>pc_flush_interval_ms := CF_REDIS_PRODUCER_DEFAULT_FLUSH_INTERVAL_MS\<rparr>
        else cfg)"

text \<open>The process-wide producer: its private configuration while it runs.\<close>

record producer_thread =
  pt_running :: bool
  pt_cfg :: cf_redis_producer_config

text \<open>\<open>thread_ok\<close> is whether \<open>pthread_create\<close> succeeds.\<close>

definition cf_redis_producer_start ::
  "bool \<Rightarrow> cf_redis_producer_config option \<Rightarrow> cf_queue option \<Rightarrow> cf_redis_stats option \<Rightarrow> producer_thread \<Rightarrow>
   producer \<Rightarrow> int \<times> producer_thread \<times> producer" where
  "cf_redis_producer_start thread_ok cfg inq stats g w =
    (case (cfg, inq, stats) of
       (Some cfg, Some q, Some st) \<Rightarrow>
         if pc_endpoints cfg = [] then (- 1, g, w)
         else if pt_running g then (- 1, g, w)
         else let g = g\<lparr>pt_cfg := producer_local_config cfg\<rparr>;
                  w = w\<lparr>pw_in := Some q, pw_stats := st, pw_last_log := (\<lambda>_. 0)\<rparr>
              in if \<not> thread_ok then (- 1, g, w) else (0, g\<lparr>pt_running := True\<rparr>, w)
     | _ \<Rightarrow> (- 1, g, w))"

text \<open>The stop request is part of the environment (\<open>pe_stop_local\<close>); the join waits for the thread.\<close>

definition cf_redis_producer_stop :: "producer_env \<Rightarrow> producer_thread \<Rightarrow> producer \<Rightarrow> (producer_thread \<times> producer) option" where
  "cf_redis_producer_stop env g w =
    (if \<not> pt_running g then Some (g, w)
     else do {
       w \<leftarrow> cf_redis_producer_thread_main env (pt_cfg g) w;
       Some (g\<lparr>pt_running := False\<rparr>, w) })"

end
