(* ===== verification/Total.thy ===== *)
theory Total
  imports Prelude "HOL-Library.Sublist"
begin

text \<open>
  Total correctness of programs that return an option: \<open>ends m Q\<close> says that \<open>m\<close> returns and its
  result satisfies \<open>Q\<close>. The rules follow the program text, so that a specification of a composed
  operation is computed from those of its parts.
\<close>

definition ends :: "'a option \<Rightarrow> ('a \<Rightarrow> bool) \<Rightarrow> bool" where
  "ends m Q \<longleftrightarrow> (\<exists>x. m = Some x \<and> Q x)"

lemma ends_simps [simp]:
  "ends None Q \<longleftrightarrow> False"
  "ends (Some x) Q \<longleftrightarrow> Q x"
  "ends (Option.bind m f) Q \<longleftrightarrow> ends m (\<lambda>x. ends (f x) Q)"
  by (auto simp: ends_def bind_eq_Some_conv)

lemma endsI: "m = Some x \<Longrightarrow> Q x \<Longrightarrow> ends m Q"
  by (simp add: ends_def)

lemma endsE:
  assumes "ends m Q"
  obtains x where "m = Some x" "Q x"
  using assms by (auto simp: ends_def)

lemma ends_mono: "ends m P \<Longrightarrow> (\<And>x. P x \<Longrightarrow> Q x) \<Longrightarrow> ends m Q"
  by (auto simp: ends_def)

text \<open>A loop ends when each round either ends or goes on in a state of smaller measure.\<close>

lemma ends_measure:
  fixes f :: "'s \<Rightarrow> nat"
  assumes "\<And>s. I s \<Longrightarrow> (\<And>s'. I s' \<Longrightarrow> f s' < f s \<Longrightarrow> ends (loop s') Q) \<Longrightarrow> ends (loop s) Q" and "I s"
  shows "ends (loop s) Q"
  using assms(2) by (induction s rule: measure_induct_rule [where f = f]) (rule assms(1))

lemma subseq_extend: "subseq xs ys \<Longrightarrow> subseq (xs @ [a]) (ys @ [a])"
  by (simp add: list_emb_append_mono)

lemma subseq_snoc: "subseq xs ys \<Longrightarrow> subseq xs (ys @ [a])"
  by (simp add: subseq_rev_drop_many)

lemma subseq_shorter: "subseq (xs @ ys) zs \<Longrightarrow> subseq (xs @ take n ys) zs"
  by (metis append_take_drop_id append_assoc subseq_order.order_trans subseq_drop_many subseq_rev_drop_many subseq_order.order_refl)

end
