(* ===== verification/Redis_Producer_Safe.thy ===== *)
theory Redis_Producer_Safe
  imports Redis_Producer Total
begin

text \<open>
  What the operations of the producer do to what matters: the events taken from the queue, the
  commands answered, the counters and the connections. Each specification is a total one
  (\<open>ends\<close>): the operation returns, whatever the surroundings answer.
\<close>

section \<open>The history\<close>

definition answers :: "producer \<Rightarrow> command list" where
  "answers w = concat (map (\<lambda>e. case e of Answered k c ok \<Rightarrow> [c] | _ \<Rightarrow> []) (pw_log w))"

definition popped :: "producer \<Rightarrow> cf_event_item list" where
  "popped w = concat (map (\<lambda>e. case e of Popped i \<Rightarrow> [i] | _ \<Rightarrow> []) (pw_log w))"

definition handed_over :: "producer \<Rightarrow> cf_event_item list" where
  "handed_over w = concat (map (\<lambda>e. case e of Pushed i \<Rightarrow> [i] | _ \<Rightarrow> []) (pw_log w))"

definition replied :: "producer \<Rightarrow> nat" where
  "replied w = xadd_total (pw_stats w) + xadd_errors_total (pw_stats w)"

definition dropped :: "producer \<Rightarrow> nat" where
  "dropped w = events_lost_total (pw_stats w)"

lemmas history_defs = answers_def popped_def handed_over_def replied_def dropped_def

text \<open>\<open>w'\<close> is later than \<open>w\<close>, and nothing that matters happened in between.\<close>

definition aside :: "producer \<Rightarrow> producer \<Rightarrow> bool" where
  "aside w w' \<longleftrightarrow> answers w' = answers w \<and> popped w' = popped w \<and> handed_over w' = handed_over w \<and>
     replied w' = replied w \<and> dropped w' = dropped w \<and> pw_in w' = pw_in w \<and> pw_tick w \<le> pw_tick w'"

text \<open>The same, and the connections are untouched too.\<close>

definition idle_step :: "producer \<Rightarrow> producer \<Rightarrow> bool" where
  "idle_step w w' \<longleftrightarrow> aside w w' \<and> pw_pipes w' = pw_pipes w \<and> pw_next w' = pw_next w"

lemma aside_refl [simp]: "aside w w"
  by (simp add: aside_def)

lemma aside_trans [trans]: "aside w w' \<Longrightarrow> aside w' w'' \<Longrightarrow> aside w w''"
  by (auto simp: aside_def)

lemma idle_refl [simp]: "idle_step w w"
  by (simp add: idle_step_def)

lemma idle_trans [trans]: "idle_step w w' \<Longrightarrow> idle_step w' w'' \<Longrightarrow> idle_step w w''"
  by (auto simp: idle_step_def dest: aside_trans)

lemma idle_aside: "idle_step w w' \<Longrightarrow> aside w w'"
  by (simp add: idle_step_def)

lemma idle_tick [simp]: "pw_tick w \<le> n \<Longrightarrow> idle_step w (w\<lparr>pw_tick := n\<rparr>)"
  by (simp add: idle_step_def aside_def history_defs)

lemma idle_note [simp]: "idle_step w (p_note (Sleeps n) w)" "idle_step w (p_note (Logged s t) w)"
  by (simp_all add: idle_step_def aside_def history_defs p_note_def)

lemma idle_fields [simp]:
  "idle_step w (w\<lparr>pw_endpoint_idx := n\<rparr>)" "idle_step w (w\<lparr>pw_backoff_ns := b\<rparr>)" "idle_step w (w\<lparr>pw_last_log := f\<rparr>)"
  by (simp_all add: idle_step_def aside_def history_defs)

lemma idle_count:
  "(\<And>s. xadd_total (f s) = xadd_total s \<and> xadd_errors_total (f s) = xadd_errors_total s \<and>
     events_lost_total (f s) = events_lost_total s) \<Longrightarrow> idle_step w (p_count f w)"
  by (simp add: idle_step_def aside_def history_defs p_count_def)

lemma idle_log [simp]: "idle_step w (log_rate_limited_kv env site w)"
proof -
  let ?w = "w\<lparr>pw_tick := Suc (pw_tick w)\<rparr>"
  have "idle_step w ?w" by simp
  also have "idle_step ?w (p_note (Logged site t) (?w\<lparr>pw_last_log := f\<rparr>))" for t f
    by (rule idle_trans [OF idle_fields(3) idle_note(2)])
  finally show ?thesis by (simp add: log_rate_limited_kv_def p_ask_def)
qed

lemma tick_log: "pw_tick w < pw_tick (log_rate_limited_kv env site w)"
  by (simp add: log_rate_limited_kv_def p_ask_def p_note_def)

section \<open>Waiting\<close>

definition stopped :: "producer_env \<Rightarrow> nat \<Rightarrow> bool" where
  "stopped env t \<longleftrightarrow> pe_stop_notified env t \<or> pe_stop_local env t"

text \<open>From \<open>n\<close> on every wait with this deadline and this stop policy is cut short.\<close>

definition cut_off :: "producer_env \<Rightarrow> int \<Rightarrow> bool \<Rightarrow> nat \<Rightarrow> bool" where
  "cut_off env deadline bail_on_stop n \<longleftrightarrow>
     (\<forall>t \<ge> n. deadline \<le> pe_now env t) \<or> bail_on_stop \<and> (\<forall>t \<ge> n. stopped env t)"

lemma must_bail_step:
  assumes "must_bail env d b w = (r, w')"
  shows "idle_step w w' \<and> pw_tick w < pw_tick w' \<and> (cut_off env d b (pw_tick w) \<longrightarrow> r)"
proof -
  have "idle_step w (w\<lparr>pw_tick := Suc (pw_tick w)\<rparr>)" "idle_step w (w\<lparr>pw_tick := Suc (Suc (pw_tick w))\<rparr>)" by simp_all
  then show ?thesis
    using assms unfolding must_bail_def p_ask_def producer_should_stop_def cut_off_def stopped_def
    by (auto split: if_splits dest: spec [of _ "Suc (pw_tick w)"])
qed

lemma idle_sleep: "idle_step w (sleep_backoff env r d b w)"
proof (induction env r d b w rule: sleep_backoff.induct)
  case (1 env r d b w)
  show ?case
  proof (cases "r > 0")
    case True
    obtain x w' where m: "must_bail env d b w = (x, w')" by fastforce
    show ?thesis
    proof (cases x)
      case True
      then show ?thesis using \<open>r > 0\<close> m must_bail_step [OF m] by (subst sleep_backoff.simps) simp
    next
      case False
      then show ?thesis
        using 1 [OF \<open>r > 0\<close> m [symmetric] False refl] \<open>r > 0\<close> m must_bail_step [OF m]
        by (subst sleep_backoff.simps) (auto intro: idle_trans [OF _ idle_trans [OF idle_note(1)]] simp: Let_def)
    qed
  qed (subst sleep_backoff.simps, simp)
qed

lemma idle_double [simp]: "idle_step w (double_backoff w)"
  by (simp add: double_backoff_def Let_def)

section \<open>Connections\<close>

text \<open>The producer holds at most one connection, with the given commands outstanding.\<close>

definition holds_conn :: "conn option \<Rightarrow> command list \<Rightarrow> producer \<Rightarrow> bool" where
  "holds_conn ctx cs w \<longleftrightarrow> pw_pipes w = (case ctx of None \<Rightarrow> Map.empty | Some k \<Rightarrow> [k \<mapsto> cs]) \<and> (ctx = None \<longrightarrow> cs = [])"

lemma holds_idle: "holds_conn ctx cs w \<Longrightarrow> idle_step w w' \<Longrightarrow> holds_conn ctx cs w'"
  by (simp add: holds_conn_def idle_step_def)

lemma try_connect_ends:
  assumes "holds_conn None [] w"
  shows "ends (try_connect_one env ep w) (\<lambda>(ctx, w'). holds_conn ctx [] w' \<and> aside w w')"
proof -
  have o: "aside w (p_note (Opened k) (w\<lparr>pw_tick := Suc (pw_tick w), pw_pipes := p, pw_next := n\<rparr>))"
    "aside w (p_note (Closed k') (p_note (Opened k) (w\<lparr>pw_tick := Suc (pw_tick w), pw_pipes := p, pw_next := n\<rparr>)
       \<lparr>pw_pipes := p'\<rparr>))" for k k' p p' n
    by (simp_all add: aside_def history_defs p_note_def)
  show ?thesis
  proof (cases "parse_endpoint ep 256")
    case None
    then show ?thesis
      using assms holds_idle [OF assms idle_log] idle_aside [OF idle_log] by (simp add: try_connect_one_def)
  next
    case (Some hp)
    obtain host port where hp: "hp = (host, port)" by fastforce
    show ?thesis
      using assms o idle_aside [OF idle_tick [of w "Suc (pw_tick w)"]]
      by (cases "pe_connect env (pw_tick w) host port")
        (auto simp: try_connect_one_def Some hp p_ask_def p_open_def p_free_def holds_conn_def p_note_def)
  qed
qed

lemma connect_cycle_ends:
  assumes "holds_conn None [] w"
  shows "ends (connect_cycle env cfg c d b n w) (\<lambda>(r, w').
    holds_conn (case r of Got k \<Rightarrow> Some k | _ \<Rightarrow> None) [] w' \<and> aside w w')"
  using assms
proof (induction n arbitrary: w)
  case (Suc n)
  obtain x w' where m: "must_bail env d b w = (x, w')" by fastforce
  note step = must_bail_step [OF m]
  show ?case
  proof (cases x)
    case True
    then show ?thesis using m step holds_idle [OF Suc.prems, of w'] idle_aside [of w w'] by simp
  next
    case False
    let ?w = "w'\<lparr>pw_endpoint_idx := pw_endpoint_idx w' + 1\<rparr>"
    let ?ep = "pc_endpoints cfg ! (pw_endpoint_idx w' mod length (pc_endpoints cfg))"
    have i: "idle_step w ?w" using step idle_fields(1) idle_trans by blast
    obtain ctx w2 where t: "try_connect_one env ?ep ?w = Some (ctx, w2)" "holds_conn ctx [] w2" "aside ?w w2"
      using try_connect_ends [OF holds_idle [OF Suc.prems i], of env ?ep] by (auto elim: endsE)
    have a: "aside w w2" using idle_aside [OF i] t(3) by (rule aside_trans)
    show ?thesis
    proof (cases ctx)
      case None
      then have "ends (connect_cycle env cfg c d b n w2) (\<lambda>(r, w'). holds_conn (case r of Got k \<Rightarrow> Some k | _ \<Rightarrow> None) [] w' \<and> aside w2 w')"
        using Suc.IH t(2) by simp
      then show ?thesis using False m t(1) None a by (auto intro: aside_trans elim!: ends_mono)
    next
      case (Some k)
      have r: "idle_step w2 ((if c then p_count (\<lambda>s. s\<lparr>redis_reconnects_total := redis_reconnects_total s + 1\<rparr>) w2
          else w2)\<lparr>pw_backoff_ns := CF_REDIS_BACKOFF_INITIAL_NS\<rparr>)"
        by (rule idle_trans [OF _ idle_fields(2)]) (auto intro: idle_count)
      then show ?thesis
        using False m t(1,2) Some a holds_idle [OF t(2) r] idle_aside [OF r] by (auto simp: Let_def intro: aside_trans)
    qed
  qed
qed simp

text \<open>The connection loop ends once its waits are cut off, which some \<open>n\<close> guarantees.\<close>

lemma connect_ends:
  assumes "cut_off env d b n" "holds_conn None [] w"
  shows "ends (connect_with_backoff env cfg c d b w) (\<lambda>(ctx, w'). holds_conn ctx [] w' \<and> aside w w')"
proof (rule ends_measure [where I = "\<lambda>v. holds_conn None [] v \<and> aside w v" and f = "\<lambda>v. n - pw_tick v"])
  fix v
  assume v: "holds_conn None [] v \<and> aside w v"
    and IH: "\<And>u. holds_conn None [] u \<and> aside w u \<Longrightarrow> n - pw_tick u < n - pw_tick v \<Longrightarrow>
      ends (connect_with_backoff env cfg c d b u) (\<lambda>(ctx, w'). holds_conn ctx [] w' \<and> aside w w')"
  obtain r v1 where c1: "connect_cycle env cfg c d b (length (pc_endpoints cfg)) v = Some (r, v1)"
    "holds_conn (case r of Got k \<Rightarrow> Some k | _ \<Rightarrow> None) [] v1" "aside v v1"
    using connect_cycle_ends [of v env cfg c d b "length (pc_endpoints cfg)"] v by (auto elim: endsE)
  have a1: "aside w v1" using v c1(3) aside_trans by blast
  show "ends (connect_with_backoff env cfg c d b v) (\<lambda>(ctx, w'). holds_conn ctx [] w' \<and> aside w w')"
  proof (cases r)
    case All_Failed
    obtain x v2 where m: "must_bail env d b v1 = (x, v2)" by fastforce
    note step = must_bail_step [OF m]
    have h1: "holds_conn None [] v1" using c1(2) All_Failed by simp
    show ?thesis
    proof (cases x)
      case True
      then show ?thesis
        using c1(1) All_Failed m step holds_idle [OF h1] a1 by (subst connect_with_backoff.simps) (auto intro: aside_trans idle_aside)
    next
      case False
      let ?v3 = "log_rate_limited_kv env Log_Connect_Fail v2"
      let ?v4 = "double_backoff (sleep_backoff env (pw_backoff_ns ?v3) d b ?v3)"
      have i: "idle_step v1 ?v4" using step idle_log idle_sleep idle_double idle_trans by meson
      have "\<not> cut_off env d b (pw_tick v1)" using step False by simp
      then have "pw_tick v1 < n" using assms(1) unfolding cut_off_def by (metis le_trans not_le)
      moreover have "pw_tick v1 < pw_tick ?v4"
      proof -
        have "idle_step v2 ?v4" by (rule idle_trans [OF idle_log idle_trans [OF idle_sleep idle_double]])
        then show ?thesis using step by (simp add: idle_step_def aside_def)
      qed
      moreover have "pw_tick v \<le> pw_tick v1" using c1(3) by (simp add: aside_def)
      ultimately have "n - pw_tick ?v4 < n - pw_tick v" by linarith
      moreover have "holds_conn None [] ?v4 \<and> aside w ?v4" using holds_idle [OF h1 i] a1 idle_aside [OF i] aside_trans by blast
      ultimately show ?thesis
        using IH [of ?v4] c1(1) All_Failed m False by (subst connect_with_backoff.simps) (simp add: Let_def)
    qed
  qed (use c1 a1 in \<open>subst connect_with_backoff.simps, simp\<close>)+
qed (use assms(2) in simp)

section \<open>The pipeline\<close>

definition valid_item :: "cf_event_item \<Rightarrow> bool" where
  "valid_item item \<longleftrightarrow> cf_stream_name (ei_stream_id item) \<noteq> None"

definition item_command :: "cf_redis_producer_config \<Rightarrow> cf_event_item \<Rightarrow> command" where
  "item_command cfg item = xadd_command cfg (the (cf_stream_name (ei_stream_id item))) item"

text \<open>What answering the commands \<open>cs\<close> changes; nothing else that matters happened.\<close>

definition answering :: "command list \<Rightarrow> producer \<Rightarrow> producer \<Rightarrow> bool" where
  "answering cs w w' \<longleftrightarrow> answers w' = answers w @ cs \<and> replied w' = replied w + length cs \<and> dropped w' = dropped w \<and>
     popped w' = popped w \<and> handed_over w' = handed_over w \<and> pw_in w' = pw_in w \<and> pw_tick w \<le> pw_tick w'"

lemma answering_Nil: "answering [] w w' \<longleftrightarrow> aside w w'"
  by (auto simp: answering_def aside_def)

lemma answering_trans: "answering xs w w' \<Longrightarrow> answering ys w' w'' \<Longrightarrow> answering (xs @ ys) w w''"
  by (auto simp: answering_def)

lemma get_reply_ends:
  assumes "holds_conn (Some k) (c # cs) w"
  shows "ends (p_get_reply env k w) (\<lambda>(r, w').
    if r = No_Reply then idle_step w w'
    else holds_conn (Some k) cs w' \<and> answers w' = answers w @ [c] \<and> popped w' = popped w \<and>
      handed_over w' = handed_over w \<and> pw_in w' = pw_in w \<and> pw_stats w' = pw_stats w \<and> pw_tick w \<le> pw_tick w')"
  using assms by (auto simp: p_get_reply_def holds_conn_def p_ask_def p_note_def history_defs)

lemma flush_loop_ends:
  assumes "holds_conn (Some k) cs w"
  shows "ends (flush_loop env k i (length cs) t w) (\<lambda>(m, err, w'). \<exists>d \<le> length cs. m = i + d \<and> (\<not> err \<longrightarrow> d = length cs) \<and>
    holds_conn (Some k) (drop d cs) w' \<and> answering (take d cs) w w')"
  using assms
proof (induction cs arbitrary: w i t)
  case Nil
  then show ?case by (simp add: answering_Nil)
next
  case (Cons c cs)
  obtain r w1 where g: "p_get_reply env k w = Some (r, w1)"
    "if r = No_Reply then idle_step w w1
     else holds_conn (Some k) cs w1 \<and> answers w1 = answers w @ [c] \<and> popped w1 = popped w \<and>
      handed_over w1 = handed_over w \<and> pw_in w1 = pw_in w \<and> pw_stats w1 = pw_stats w \<and> pw_tick w \<le> pw_tick w1"
    using get_reply_ends [OF Cons.prems, of env] by (auto elim: endsE)
  show ?case
  proof (cases "r = No_Reply")
    case True
    then show ?thesis
      using g holds_idle [OF Cons.prems] by (auto intro!: exI [of _ 0] simp: answering_Nil idle_aside)
  next
    case False
    let ?n = "pe_now env (pw_tick w1)"
    let ?w1 = "w1\<lparr>pw_tick := Suc (pw_tick w1)\<rparr>"
    let ?w2 = "p_count (\<lambda>s. s\<lparr>xadd_latency_ns_total := xadd_latency_ns_total s + of_int (?n - t)\<rparr>) ?w1"
    let ?w3 = "if r = Error_Reply then log_rate_limited_kv env Log_Xadd_Error
        (p_count (\<lambda>s. s\<lparr>xadd_errors_total := xadd_errors_total s + 1\<rparr>) ?w2)
      else p_count (\<lambda>s. s\<lparr>xadd_total := xadd_total s + 1\<rparr>) ?w2"
    have s1: "answering [c] w (p_count (\<lambda>s. s\<lparr>xadd_errors_total := xadd_errors_total s + 1\<rparr>) ?w2)"
      "answering [c] w (p_count (\<lambda>s. s\<lparr>xadd_total := xadd_total s + 1\<rparr>) ?w2)"
      using g(2) False by (simp_all add: answering_def p_count_def history_defs)
    then have a: "answering [c] w ?w3"
      using answering_trans [OF s1(1), of "[]"] idle_aside [OF idle_log] by (auto simp: answering_Nil)
    have h: "holds_conn (Some k) cs (p_count f (p_count f' ?w1))" for f f'
      using g(2) False by (simp add: holds_conn_def p_count_def)
    then have "holds_conn (Some k) cs ?w3" using holds_idle [OF _ idle_log] by simp
    from Cons.IH [OF this, of "i + 1" ?n] obtain m err w' d where
      r: "flush_loop env k (i + 1) (length cs) ?n ?w3 = Some (m, err, w')" "d \<le> length cs" "m = i + 1 + d"
      "\<not> err \<longrightarrow> d = length cs" "holds_conn (Some k) (drop d cs) w'" "answering (take d cs) ?w3 w'"
      by (auto elim!: endsE)
    have "answering (take (Suc d) (c # cs)) w w'" using answering_trans [OF a r(6)] by simp
    then show ?thesis
      using g(1) False r by (auto simp: p_ask_def Let_def intro!: exI [of _ "Suc d"])
  qed
qed

lemma pipeline_flush_ends:
  assumes "holds_conn (Some k) cs w"
  shows "ends (flush_pipeline env (Some k) (length cs) w) (\<lambda>(d, err, w'). d \<le> length cs \<and> (\<not> err \<longrightarrow> d = length cs) \<and>
    holds_conn (Some k) (drop d cs) w' \<and> answering (take d cs) w w')"
proof -
  let ?w = "w\<lparr>pw_tick := Suc (pw_tick w)\<rparr>"
  have i: "idle_step w ?w" by simp
  have "answering xs ?w w' \<Longrightarrow> answering xs w w'" for xs w'
    using answering_trans [of "[]" w ?w xs w'] idle_aside [OF i] by (simp add: answering_Nil)
  then show ?thesis
    using flush_loop_ends [OF holds_idle [OF assms i], of env 0 "pe_now env (pw_tick w)"]
    by (auto simp: flush_pipeline_def p_ask_def elim!: ends_mono)
qed

lemma append_ends:
  assumes "holds_conn (Some k) cs w"
  shows "ends (append_xadd env (Some k) cfg item w) (\<lambda>(ok, w').
    (ok \<longrightarrow> valid_item item) \<and> holds_conn (Some k) (if ok then cs @ [item_command cfg item] else cs) w' \<and> aside w w')"
  using assms
  by (auto simp: append_xadd_def p_append_command_def p_ask_def p_note_def holds_conn_def valid_item_def item_command_def
      aside_def history_defs split: option.splits)

lemma reappend_ends:
  assumes "holds_conn (Some k) cs w"
  shows "ends (reappend env k cfg items n w) (\<lambda>(m, w'). \<exists>j \<le> length items. m = n + j \<and>
    holds_conn (Some k) (cs @ map (item_command cfg) (take j items)) w' \<and> aside w w')"
  using assms
proof (induction items arbitrary: cs n w)
  case (Cons item items)
  obtain ok w1 where a: "append_xadd env (Some k) cfg item w = Some (ok, w1)"
    "holds_conn (Some k) (if ok then cs @ [item_command cfg item] else cs) w1" "aside w w1"
    using append_ends [OF Cons.prems, of env cfg item] by (auto elim!: endsE)
  show ?case
  proof (cases ok)
    case False
    then show ?thesis using a by (auto intro!: exI [of _ 0])
  next
    case True
    then have "holds_conn (Some k) (cs @ [item_command cfg item]) w1" using a(2) by simp
    from Cons.IH [OF this, of "n + 1"] obtain m w' j where
      r: "reappend env k cfg items (n + 1) w1 = Some (m, w')" "j \<le> length items" "m = n + 1 + j"
      "holds_conn (Some k) ((cs @ [item_command cfg item]) @ map (item_command cfg) (take j items)) w'" "aside w1 w'"
      by (auto elim!: endsE)
    then show ?thesis using a True aside_trans [OF a(3) r(5)] by (auto intro!: exI [of _ "Suc j"])
  qed
qed auto

text \<open>What sending a batch changes: a prefix is answered, the rest is counted as lost.\<close>

definition settling :: "cf_redis_producer_config \<Rightarrow> cf_event_item list \<Rightarrow> producer \<Rightarrow> producer \<Rightarrow> bool" where
  "settling cfg items w w' \<longleftrightarrow> (\<exists>m \<le> length items. answers w' = answers w @ map (item_command cfg) (take m items) \<and>
     replied w' = replied w + m \<and> dropped w' = dropped w + (length items - m)) \<and>
     popped w' = popped w \<and> handed_over w' = handed_over w \<and> pw_in w' = pw_in w \<and> pw_tick w \<le> pw_tick w'"

lemma settling_aside: "settling cfg items w w' \<Longrightarrow> aside w' w'' \<Longrightarrow> settling cfg items w w''"
  by (auto simp: settling_def aside_def)

lemma aside_settling: "aside w w' \<Longrightarrow> settling cfg items w' w'' \<Longrightarrow> settling cfg items w w''"
  by (auto simp: settling_def aside_def)

lemma answering_settling:
  assumes "answering (take d (map (item_command cfg) items)) w w'" "d \<le> length items" "settling cfg (drop d items) w' w''"
  shows "settling cfg items w w''"
proof -
  from assms(3) obtain m where m: "m \<le> length items - d" "answers w'' = answers w' @ map (item_command cfg) (take m (drop d items))"
    "replied w'' = replied w' + m" "dropped w'' = dropped w' + (length items - d - m)"
    by (auto simp: settling_def)
  have "take (d + m) items = take d items @ take m (drop d items)" by (simp add: take_add)
  then have "answers w'' = answers w @ map (item_command cfg) (take (d + m) items)"
    using m(2) assms(1) by (simp add: answering_def take_map)
  moreover have "d + m \<le> length items" "replied w'' = replied w + (d + m)" "dropped w'' = dropped w + (length items - (d + m))"
    using m assms(1,2) by (simp_all add: answering_def)
  ultimately show ?thesis using assms(1,3) by (auto simp: settling_def answering_def intro!: exI [of _ "d + m"])
qed

lemma lose_settling: "settling cfg items w (lose (length items) w)"
  by (auto simp: settling_def lose_def p_count_def history_defs intro!: exI [of _ 0])

lemma lose_conn [simp]: "holds_conn ctx cs (lose n w) = holds_conn ctx cs w"
  by (simp add: holds_conn_def lose_def p_count_def)

lemma free_ends:
  assumes "holds_conn (Some k) cs w"
  shows "ends (p_free k w) (\<lambda>w'. holds_conn None [] w' \<and> aside w w')"
  using assms by (simp add: p_free_def holds_conn_def aside_def history_defs p_note_def)

end
