(* ===== verification/Redis_Producer_Run.thy ===== *)
theory Redis_Producer_Run
  imports Redis_Producer_Safe
begin

text \<open>
  The run of the producer thread: batches, the queue, one iteration, the loop and its end. The
  invariant ties the events taken from the queue to the commands answered, in flight and lost.
\<close>

section \<open>A batch\<close>

lemma retry_ends:
  assumes "holds_conn (Some k) [] w"
  shows "ends (retry_unacked env k cfg items w) (\<lambda>(ctx, w'). holds_conn ctx [] w' \<and> settling cfg items w w')"
proof -
  obtain n w1 where r: "reappend env k cfg items 0 w = Some (n, w1)" "n \<le> length items"
    "holds_conn (Some k) (map (item_command cfg) (take n items)) w1" "aside w w1"
    using reappend_ends [OF assms, of env cfg items 0] by (auto elim!: endsE)
  let ?cs = "map (item_command cfg) (take n items)"
  have "ends (if n > 0 then flush_pipeline env (Some k) n w1 else Some (0, False, w1))
      (\<lambda>(d, err, w2). d \<le> n \<and> (\<not> err \<longrightarrow> d = n) \<and> holds_conn (Some k) (drop d ?cs) w2 \<and> answering (take d ?cs) w1 w2)"
    using pipeline_flush_ends [OF r(3), of env] r(2,3) by (auto simp: answering_Nil)
  then obtain d err w2 where f: "(if n > 0 then flush_pipeline env (Some k) n w1 else Some (0, False, w1)) = Some (d, err, w2)"
    "d \<le> n" "\<not> err \<longrightarrow> d = n" "holds_conn (Some k) (drop d ?cs) w2" "answering (take d ?cs) w1 w2"
    by (auto elim!: endsE)
  have "take d ?cs = take d (map (item_command cfg) items)" using f(2) by (simp add: take_map min_def)
  with f(5) have a: "answering (take d (map (item_command cfg) items)) w1 w2" by simp
  obtain w3 where w3: "(if err then p_free k w2 else Some w2) = Some w3"
    "holds_conn (if err then None else Some k) [] w3" "aside w2 w3"
    using free_ends [OF f(4)] f(3,4) by (cases err) (auto elim!: endsE)
  let ?lost = "length items - d"
  let ?w4 = "if ?lost > 0 then log_rate_limited_kv env Log_Retry_Fail (lose ?lost w3) else w3"
  have "settling cfg (drop d items) w3 ?w4"
    using settling_aside [OF lose_settling [of cfg "drop d items" w3] idle_aside [OF idle_log]] lose_settling [of cfg "[]" w3]
    by (auto simp: lose_def p_count_def)
  then have "settling cfg (drop d items) w2 ?w4" by (rule aside_settling [OF w3(3)])
  then have "settling cfg items w1 ?w4" using answering_settling [OF a] f(2) r(2) by simp
  then have s: "settling cfg items w ?w4" by (rule aside_settling [OF r(4)])
  have h: "holds_conn (if err then None else Some k) [] ?w4"
    using w3(2) holds_idle [OF _ idle_log] by simp
  have l: "(if err then length items - n + (n - d) else length items - n) = ?lost" using f(2,3) r(2) by auto
  show ?thesis
    using s h by (simp add: retry_unacked_def r(1) f(1) w3(1) Let_def l split del: if_split cong: if_cong)
qed

lemma flush_batch_ends:
  assumes "holds_conn (Some k) (map (item_command cfg) items) w"
    and "\<exists>n. cut_off env (if stopping then sd else INT64_MAX) (\<not> stopping) n"
  shows "ends (do_flush env (Some k) cfg items stopping sd w) (\<lambda>(ctx, w'). holds_conn ctx [] w' \<and> settling cfg items w w')"
proof -
  obtain d err w1 where f: "flush_pipeline env (Some k) (length items) w = Some (d, err, w1)" "d \<le> length items"
    "\<not> err \<longrightarrow> d = length items" "holds_conn (Some k) (drop d (map (item_command cfg) items)) w1"
    "answering (take d (map (item_command cfg) items)) w w1"
    using pipeline_flush_ends [OF assms(1), of env] by (auto elim!: endsE)
  note settled = answering_settling [OF f(5,2)]
  show ?thesis
  proof (cases err)
    case False
    then have d: "d = length items" using f(3) by simp
    have "settling cfg [] w1 w1" using lose_settling [of cfg "[]" w1] by (simp add: lose_def p_count_def)
    then show ?thesis using settled f(1,4) False by (simp add: do_flush_def d)
  next
    case True
    obtain w2 where w2: "p_free k w1 = Some w2" "holds_conn None [] w2" "aside w1 w2"
      using free_ends [OF f(4)] by (auto elim!: endsE)
    have s: "settling cfg (drop d items) w2 w' \<Longrightarrow> settling cfg items w w'" for w'
      using settled aside_settling [OF w2(3)] by blast
    show ?thesis
    proof (cases "drop d items = []")
      case True
      then have "settling cfg (drop d items) w2 w2" using lose_settling [of cfg "[]" w2] by (simp add: lose_def p_count_def)
      then show ?thesis using s \<open>err\<close> True f(1) w2(1,2) by (simp add: do_flush_def Let_def)
    next
      case False
      obtain n where n: "cut_off env (if stopping then sd else INT64_MAX) (\<not> stopping) n" using assms(2) by blast
      obtain ctx w3 where c: "connect_with_backoff env cfg True (if stopping then sd else INT64_MAX) (\<not> stopping) w2 = Some (ctx, w3)"
        "holds_conn ctx [] w3" "aside w2 w3"
        using connect_ends [OF n w2(2), of cfg True] by (auto elim!: endsE)
      have "ends (case ctx of None \<Rightarrow> Some (None, log_rate_limited_kv env Log_Retry_Fail (lose (length (drop d items)) w3))
          | Some k \<Rightarrow> retry_unacked env k cfg (drop d items) w3)
          (\<lambda>(ctx, w'). holds_conn ctx [] w' \<and> settling cfg (drop d items) w2 w')"
      proof (cases ctx)
        case None
        let ?w4 = "lose (length (drop d items)) w3"
        have "settling cfg (drop d items) w2 (log_rate_limited_kv env Log_Retry_Fail ?w4)"
          using aside_settling [OF c(3) settling_aside [OF lose_settling idle_aside [OF idle_log]]] .
        moreover have "holds_conn None [] (log_rate_limited_kv env Log_Retry_Fail ?w4)"
          using holds_idle [OF _ idle_log] c(2) None by simp
        ultimately show ?thesis using None by simp
      next
        case (Some k')
        then show ?thesis
          using retry_ends [of k' w3 env cfg "drop d items"] c(2) aside_settling [OF c(3)] by (auto elim!: ends_mono)
      qed
      then show ?thesis
        using s \<open>err\<close> False f(1) w2(1) c(1) by (auto simp: do_flush_def Let_def elim!: ends_mono)
    qed
  qed
qed

section \<open>The queue\<close>

definition queue_inv :: "producer_env \<Rightarrow> cf_queue option \<Rightarrow> producer \<Rightarrow> bool" where
  "queue_inv env q0 w \<longleftrightarrow> qp_inv (pw_in w) \<and> (\<forall>t. \<forall>e \<in> set (pe_arrive env t). qp_elem (pw_in w) e) \<and>
     map (pe_read_item env) (qp_list q0) @ handed_over w = popped w @ map (pe_read_item env) (qp_list (pw_in w))"

text \<open>Only the queue was accessed: the events \<open>is\<close> were taken from it.\<close>

definition taking :: "cf_event_item list \<Rightarrow> producer \<Rightarrow> producer \<Rightarrow> bool" where
  "taking is w w' \<longleftrightarrow> answers w' = answers w \<and> popped w' = popped w @ is \<and> replied w' = replied w \<and>
     dropped w' = dropped w \<and> pw_pipes w' = pw_pipes w \<and> pw_tick w \<le> pw_tick w'"

lemma taking_refl [simp]: "taking [] w w"
  by (simp add: taking_def)

lemma taking_trans: "taking xs w w' \<Longrightarrow> taking ys w' w'' \<Longrightarrow> taking (xs @ ys) w w''"
  by (simp add: taking_def)

lemma taking_holds: "taking is w w' \<Longrightarrow> holds_conn ctx cs w' = holds_conn ctx cs w"
  by (simp add: taking_def holds_conn_def)

lemma arrivals_ok:
  assumes "queue_inv env q0 w" "\<forall>e \<in> set es. qp_elem (pw_in w) e"
  shows "queue_inv env q0 (p_arrivals env es w) \<and> taking [] w (p_arrivals env es w) \<and>
    pw_tick (p_arrivals env es w) = pw_tick w"
  using assms
proof (induction es arbitrary: w)
  case (Cons e es)
  obtain rc q where p: "cf_queue_push (pw_in w) (Some e) = (rc, q)" by fastforce
  let ?w = "(if rc = 0 then p_note (Pushed (pe_read_item env e)) w else w)\<lparr>pw_in := q\<rparr>"
  have el: "qp_inv (pw_in w)" "qp_elem (pw_in w) e" using Cons.prems by (auto simp: queue_inv_def)
  have r: "rc = 0 \<and> qp_inv q \<and> qp_list q = qp_list (pw_in w) @ [e] \<and> qp_elem q = qp_elem (pw_in w) \<or> rc = 1 \<and> q = pw_in w"
  proof (cases "length (qp_list (pw_in w)) < cf_queue_capacity (pw_in w)")
    case True
    then show ?thesis using ringq.push_room [OF el True] p by auto
  next
    case False
    then have "length (qp_list (pw_in w)) = cf_queue_capacity (pw_in w)" using ringq.contents_bound [OF el(1)] by simp
    then show ?thesis using ringq.push_full [OF el(1)] p by simp
  qed
  then have q: "queue_inv env q0 ?w" "taking [] w ?w" "qp_elem (pw_in ?w) = qp_elem (pw_in w)" "pw_tick ?w = pw_tick w"
    using Cons.prems(1) by (auto simp: queue_inv_def taking_def history_defs p_note_def)
  have "\<forall>e \<in> set es. qp_elem (pw_in ?w) e" using Cons.prems(2) q(3) by simp
  from Cons.IH [OF q(1) this] show ?case using taking_trans [OF q(2), of "[]"] q(4) p by simp
qed simp

lemma sync_ok:
  assumes "queue_inv env q0 w"
  shows "queue_inv env q0 (p_queue_sync env w) \<and> taking [] w (p_queue_sync env w) \<and>
    pw_tick (p_queue_sync env w) = Suc (pw_tick w) \<and>
    (pe_arrive env (pw_tick w) = [] \<longrightarrow> pw_in (p_queue_sync env w) = pw_in w)"
proof -
  let ?w = "w\<lparr>pw_tick := Suc (pw_tick w)\<rparr>"
  have "queue_inv env q0 ?w" "taking [] w ?w" using assms by (simp_all add: queue_inv_def taking_def history_defs)
  then show ?thesis
    using arrivals_ok [of env q0 ?w "pe_arrive env (pw_tick w)"] taking_trans [of "[]" w ?w "[]"] assms
    by (auto simp: p_queue_sync_def p_ask_def queue_inv_def)
qed

lemma pop_ok:
  assumes "queue_inv env q0 w" "p_queue_pop env w = (item, w')"
  shows "queue_inv env q0 w' \<and> taking (case item of None \<Rightarrow> [] | Some i \<Rightarrow> [i]) w w' \<and> pw_tick w < pw_tick w' \<and>
    (pe_arrive env (pw_tick w) = [] \<longrightarrow> qp_list (pw_in w') = tl (qp_list (pw_in w)) \<and> (item = None \<longleftrightarrow> qp_list (pw_in w) = []))"
proof -
  let ?w = "p_queue_sync env w"
  note s = sync_ok [OF assms(1)]
  then have i: "qp_inv (pw_in ?w)" "queue_inv env q0 ?w" by (auto simp: queue_inv_def)
  show ?thesis
  proof (cases "qp_list (pw_in ?w)")
    case Nil
    then show ?thesis
      using assms(2) ringq.pop_empty [OF i(1) Nil] s i by (auto simp: p_queue_pop_def Let_def)
  next
    case (Cons e es)
    then obtain q where q: "cf_queue_pop (pw_in ?w) True = (0, Some e, q)" "qp_inv q" "qp_list q = es"
      "qp_elem q = qp_elem (pw_in ?w)"
      using ringq.pop_some [OF i(1)] by auto
    let ?i = "pe_read_item env e"
    have w': "item = Some ?i" "w' = p_note (Popped ?i) (?w\<lparr>pw_in := q\<rparr>)"
      using assms(2) q(1) by (simp_all add: p_queue_pop_def Let_def)
    have "taking [?i] ?w w'" "queue_inv env q0 w'"
      using i q Cons by (auto simp: w' taking_def queue_inv_def history_defs p_note_def)
    then show ?thesis using taking_trans [of "[]" w ?w "[?i]" w'] s q(3) Cons by (auto simp: w' p_note_def)
  qed
qed

section \<open>The invariant\<close>

text \<open>\<open>r0\<close> and \<open>d0\<close> are the counters at the start of the run.\<close>

definition run_inv ::
  "producer_env \<Rightarrow> cf_redis_producer_config \<Rightarrow> cf_queue option \<Rightarrow> nat \<Rightarrow> nat \<Rightarrow> producer_loop \<Rightarrow> producer \<Rightarrow> bool" where
  "run_inv env cfg q0 r0 d0 l w \<longleftrightarrow>
     holds_conn (pl_ctx l) (map (item_command cfg) (pl_inflight l)) w \<and> queue_inv env q0 w \<and>
     replied w = r0 + length (answers w) \<and>
     dropped w + length (answers w) + length (pl_inflight l) = d0 + length (popped w) \<and>
     subseq (answers w @ map (item_command cfg) (pl_inflight l)) (map (item_command cfg) (popped w)) \<and>
     length (pl_inflight l) \<le> pc_pipeline_max cfg"

lemma run_inv_aside:
  assumes "run_inv env cfg q0 r0 d0 l w" "aside w w'" "holds_conn (pl_ctx l') (map (item_command cfg) (pl_inflight l')) w'"
    "pl_inflight l' = pl_inflight l"
  shows "run_inv env cfg q0 r0 d0 l' w'"
  using assms by (auto simp: run_inv_def aside_def queue_inv_def)

lemma run_inv_idle:
  "run_inv env cfg q0 r0 d0 l w \<Longrightarrow> idle_step w w' \<Longrightarrow> run_inv env cfg q0 r0 d0 l w'"
  using run_inv_aside [OF _ idle_aside, of env cfg q0 r0 d0 l w w' l] holds_idle [of "pl_ctx l" _ w w']
  by (auto simp: run_inv_def)

lemma run_inv_fields [simp]:
  "run_inv env cfg q0 r0 d0 (l\<lparr>pl_shutdown_deadline := d\<rparr>) w = run_inv env cfg q0 r0 d0 l w"
  "run_inv env cfg q0 r0 d0 (l\<lparr>pl_batch_start := t\<rparr>) w = run_inv env cfg q0 r0 d0 l w"
  by (simp_all add: run_inv_def)

text \<open>A batch that was settled.\<close>

lemma run_inv_settled:
  assumes "run_inv env cfg q0 r0 d0 l w" "settling cfg (pl_inflight l) w w'" "holds_conn ctx [] w'"
  shows "run_inv env cfg q0 r0 d0 (l\<lparr>pl_ctx := ctx, pl_inflight := []\<rparr>) w'"
proof -
  from assms(2) obtain m where m: "m \<le> length (pl_inflight l)" "answers w' = answers w @ map (item_command cfg) (take m (pl_inflight l))"
    "replied w' = replied w + m" "dropped w' = dropped w + (length (pl_inflight l) - m)" "popped w' = popped w"
    "handed_over w' = handed_over w" "pw_in w' = pw_in w"
    by (auto simp: settling_def)
  have "subseq (answers w') (map (item_command cfg) (popped w'))"
    using assms(1) subseq_shorter [of "answers w" "map (item_command cfg) (pl_inflight l)" _ m]
    by (simp add: run_inv_def m take_map)
  then show ?thesis using assms m by (auto simp: run_inv_def queue_inv_def)
qed

text \<open>An event that was taken: it goes into the pipeline, or is counted as lost.\<close>

lemma run_inv_taken:
  assumes "run_inv env cfg q0 r0 d0 l w" "taking [item] w w1" "queue_inv env q0 w1" "aside w1 w2"
    "holds_conn (pl_ctx l) (map (item_command cfg) (pl_inflight l @ [item])) w2" "length (pl_inflight l) < pc_pipeline_max cfg"
  shows "run_inv env cfg q0 r0 d0 (l\<lparr>pl_inflight := pl_inflight l @ [item]\<rparr>) w2"
  using assms subseq_extend [of "answers w @ map (item_command cfg) (pl_inflight l)" _ "item_command cfg item"]
  by (auto simp: run_inv_def taking_def aside_def queue_inv_def)

lemma run_inv_lost:
  assumes "run_inv env cfg q0 r0 d0 l w" "taking [item] w w1" "queue_inv env q0 w1" "aside w1 w2"
    "holds_conn (pl_ctx l) (map (item_command cfg) (pl_inflight l)) w2"
  shows "run_inv env cfg q0 r0 d0 l (lose 1 w2)"
proof -
  have "answers (lose 1 w2) = answers w2" "popped (lose 1 w2) = popped w2" "replied (lose 1 w2) = replied w2"
    "handed_over (lose 1 w2) = handed_over w2" "dropped (lose 1 w2) = dropped w2 + 1" "pw_in (lose 1 w2) = pw_in w2"
    by (simp_all add: lose_def p_count_def history_defs)
  then show ?thesis
    using assms subseq_snoc [of "answers w @ map (item_command cfg) (pl_inflight l)" _ "item_command cfg item"]
    by (auto simp: run_inv_def taking_def aside_def queue_inv_def)
qed

lemma run_inv_looked: "run_inv env cfg q0 r0 d0 l w \<Longrightarrow> taking [] w w' \<Longrightarrow> queue_inv env q0 w' \<Longrightarrow> run_inv env cfg q0 r0 d0 l w'"
  by (auto simp: run_inv_def taking_def holds_conn_def)

section \<open>One iteration\<close>

text \<open>The loop state of the next round: same deadline, later in time.\<close>

definition onward :: "producer_loop \<Rightarrow> producer \<Rightarrow> producer_loop \<Rightarrow> producer \<Rightarrow> bool" where
  "onward l w l' w' \<longleftrightarrow> pl_shutdown_deadline l' = pl_shutdown_deadline l \<and> pw_tick w \<le> pw_tick w'"

lemma take_event_ends:
  assumes inv: "run_inv env cfg q0 r0 d0 l w" and k: "pl_ctx l = Some k"
  shows "ends (take_event env cfg stopping l w) (\<lambda>(l', w'). run_inv env cfg q0 r0 d0 l' w' \<and> pl_ctx l' = Some k \<and> onward l w l' w')"
proof (cases "length (pl_inflight l) < pc_pipeline_max cfg")
  case False
  then show ?thesis using assms by (simp add: take_event_def onward_def)
next
  case room: True
  obtain item w1 where p: "p_queue_pop env w = (item, w1)" by fastforce
  have q: "queue_inv env q0 w" using inv by (simp add: run_inv_def)
  note t = pop_ok [OF q p]
  show ?thesis
  proof (cases item)
    case None
    then have r: "run_inv env cfg q0 r0 d0 l w1" using run_inv_looked [OF inv] t by simp
    then have "run_inv env cfg q0 r0 d0 l (p_note (Sleeps n) w1)" for n using run_inv_idle idle_note(1) by blast
    then show ?thesis using None room p t r k by (simp add: take_event_def onward_def p_note_def)
  next
    case (Some i)
    have t1: "taking [i] w w1" "queue_inv env q0 w1" "pw_tick w \<le> pw_tick w1" using t Some by auto
    have h1: "holds_conn (Some k) (map (item_command cfg) (pl_inflight l)) w1"
      using inv k taking_holds [OF t1(1)] by (simp add: run_inv_def)
    obtain ok w2 where a: "append_xadd env (Some k) cfg i w1 = Some (ok, w2)" "aside w1 w2"
      "holds_conn (Some k) (map (item_command cfg) (if ok then pl_inflight l @ [i] else pl_inflight l)) w2"
      using append_ends [OF h1, of env cfg i] by (auto elim!: endsE split: if_splits)
    have tick: "pw_tick w \<le> pw_tick w2" using a(2) t1(3) by (simp add: aside_def)
    show ?thesis
    proof (cases ok)
      case True
      then have r: "run_inv env cfg q0 r0 d0 (l\<lparr>pl_inflight := pl_inflight l @ [i]\<rparr>) w2"
        using run_inv_taken [OF inv t1(1,2) a(2)] a(3) room k by simp
      have "run_inv env cfg q0 r0 d0 (l\<lparr>pl_inflight := pl_inflight l @ [i], pl_batch_start := b\<rparr>) (w2\<lparr>pw_tick := Suc (pw_tick w2)\<rparr>)"
        "run_inv env cfg q0 r0 d0 (l\<lparr>pl_inflight := pl_inflight l @ [i], pl_batch_start := b\<rparr>) w2" for b
        using r run_inv_idle [OF r, of "w2\<lparr>pw_tick := Suc (pw_tick w2)\<rparr>"] by (simp_all add: run_inv_def)
      then show ?thesis using Some room p a(1) True k tick by (auto simp: take_event_def p_ask_def onward_def)
    next
      case False
      then have "run_inv env cfg q0 r0 d0 l (lose 1 w2)" using run_inv_lost [OF inv t1(1,2) a(2)] a(3) k by simp
      then have "run_inv env cfg q0 r0 d0 l (log_rate_limited_kv env site (lose 1 w2))" for site
        using run_inv_idle [OF _ idle_log] by blast
      moreover have "pw_tick w \<le> pw_tick (log_rate_limited_kv env site (lose 1 w2))" for site
        using tick tick_log [of "lose 1 w2" env site] by (simp add: lose_def p_count_def)
      ultimately show ?thesis using Some room p a(1) False k by (simp add: take_event_def onward_def)
    qed
  qed
qed

text \<open>The waits of a round are cut off: by the stop while none was seen, by the deadline after.\<close>

definition waits_end :: "producer_env \<Rightarrow> bool \<Rightarrow> producer_loop \<Rightarrow> bool" where
  "waits_end env stopping l \<longleftrightarrow>
     (\<exists>n. cut_off env (if stopping then pl_shutdown_deadline l else INT64_MAX) (\<not> stopping) n)"

lemma pump_ends:
  assumes "run_inv env cfg q0 r0 d0 l w" "pl_ctx l = Some k" "waits_end env stopping l"
  shows "ends (pump env cfg stopping l w) (\<lambda>(l', w'). run_inv env cfg q0 r0 d0 l' w' \<and> onward l w l' w')"
proof -
  obtain l1 w1 where t: "take_event env cfg stopping l w = Some (l1, w1)" "run_inv env cfg q0 r0 d0 l1 w1" "pl_ctx l1 = Some k"
    "onward l w l1 w1"
    using take_event_ends [OF assms(1,2), of stopping] by (auto elim!: endsE)
  obtain flush w2 where s: "producer_should_flush env cfg stopping l1 w1 = (flush, w2)" by fastforce
  then have i: "idle_step w1 w2" by (auto simp: producer_should_flush_def p_ask_def split: if_splits)
  have inv2: "run_inv env cfg q0 r0 d0 l1 w2" using t(2) i by (rule run_inv_idle)
  have o2: "onward l w l1 w2" using t(4) idle_aside [OF i] by (auto simp: onward_def aside_def)
  show ?thesis
  proof (cases flush)
    case False
    then show ?thesis using t(1) s inv2 o2 by (simp add: pump_def)
  next
    case True
    have h: "holds_conn (Some k) (map (item_command cfg) (pl_inflight l1)) w2" using inv2 t(3) by (simp add: run_inv_def)
    have c: "\<exists>n. cut_off env (if stopping then pl_shutdown_deadline l1 else INT64_MAX) (\<not> stopping) n"
      using assms(3) t(4) by (cases stopping) (simp_all add: waits_end_def onward_def)
    obtain ctx w3 where f: "do_flush env (Some k) cfg (pl_inflight l1) stopping (pl_shutdown_deadline l1) w2 = Some (ctx, w3)"
      "holds_conn ctx [] w3" "settling cfg (pl_inflight l1) w2 w3"
      using flush_batch_ends [OF h c] by (auto elim!: endsE)
    have "run_inv env cfg q0 r0 d0 (l1\<lparr>pl_ctx := ctx, pl_inflight := []\<rparr>) w3" using run_inv_settled [OF inv2 f(3,2)] .
    then show ?thesis using t(1,3) s True f(1,3) o2 by (auto simp: pump_def onward_def settling_def)
  qed
qed

section \<open>The end of the run\<close>

text \<open>Everything handed over was taken; each event was answered, in order, or counted as lost.\<close>

definition finished ::
  "producer_env \<Rightarrow> cf_redis_producer_config \<Rightarrow> cf_queue option \<Rightarrow> nat \<Rightarrow> nat \<Rightarrow> producer \<Rightarrow> bool" where
  "finished env cfg q0 r0 d0 w \<longleftrightarrow>
     popped w = map (pe_read_item env) (qp_list q0) @ handed_over w \<and> qp_list (pw_in w) = [] \<and>
     subseq (answers w) (map (item_command cfg) (popped w)) \<and> replied w = r0 + length (answers w) \<and>
     dropped w = d0 + (length (popped w) - length (answers w))"

lemma discard_ends:
  assumes "queue_inv env q0 w" "\<forall>t \<ge> pw_tick w. pe_arrive env t = []"
  shows "ends (discard_queue env w) (\<lambda>w'. queue_inv env q0 w' \<and> qp_list (pw_in w') = [] \<and>
    (\<exists>is. length is = length (qp_list (pw_in w)) \<and> taking is w w'))"
proof (rule ends_measure [where I = "\<lambda>v. queue_inv env q0 v \<and>
      (\<exists>is. length is + length (qp_list (pw_in v)) = length (qp_list (pw_in w)) \<and> taking is w v)" and
      f = "\<lambda>v. length (qp_list (pw_in v))"])
  fix v
  assume v: "queue_inv env q0 v \<and> (\<exists>is. length is + length (qp_list (pw_in v)) = length (qp_list (pw_in w)) \<and> taking is w v)"
    and IH: "\<And>u. queue_inv env q0 u \<and> (\<exists>is. length is + length (qp_list (pw_in u)) = length (qp_list (pw_in w)) \<and> taking is w u) \<Longrightarrow>
      length (qp_list (pw_in u)) < length (qp_list (pw_in v)) \<Longrightarrow>
      ends (discard_queue env u) (\<lambda>w'. queue_inv env q0 w' \<and> qp_list (pw_in w') = [] \<and>
        (\<exists>is. length is = length (qp_list (pw_in w)) \<and> taking is w w'))"
  then obtain xs where xs: "length xs + length (qp_list (pw_in v)) = length (qp_list (pw_in w))" "taking xs w v"
    "queue_inv env q0 v" by blast
  have quiet: "pe_arrive env (pw_tick v) = []" using assms(2) xs(2) by (simp add: taking_def)
  obtain item u where p: "p_queue_pop env v = (item, u)" by fastforce
  note t = pop_ok [OF xs(3) p] and d = discard_queue.simps [of env v]
  show "ends (discard_queue env v) (\<lambda>w'. queue_inv env q0 w' \<and> qp_list (pw_in w') = [] \<and>
        (\<exists>is. length is = length (qp_list (pw_in w)) \<and> taking is w w'))"
  proof (cases item)
    case None
    then show ?thesis using t quiet xs taking_trans [OF xs(2), of "[]" u] by (auto simp: d p)
  next
    case (Some i)
    then have "length (xs @ [i]) + length (qp_list (pw_in u)) = length (qp_list (pw_in w)) \<and> taking (xs @ [i]) w u"
      "length (qp_list (pw_in u)) < length (qp_list (pw_in v))"
      using t quiet xs taking_trans [OF xs(2), of "[i]" u] by (cases "qp_list (pw_in v)"; auto)+
    then have "ends (discard_queue env u) (\<lambda>w'. queue_inv env q0 w' \<and> qp_list (pw_in w') = [] \<and>
        (\<exists>is. length is = length (qp_list (pw_in w)) \<and> taking is w w'))"
      using IH [of u] t by blast
    then show ?thesis using Some by (simp add: d p)
  qed
qed (use assms(1) in \<open>auto intro: exI [of _ "[]"]\<close>)

lemma abandoned:
  assumes "run_inv env cfg q0 r0 d0 l w" "taking is w w1" "queue_inv env q0 w1" "qp_list (pw_in w1) = []"
  shows "finished env cfg q0 r0 d0 (lose (length is + length (pl_inflight l)) w1)"
proof -
  let ?w = "lose (length is + length (pl_inflight l)) w1"
  have e: "answers ?w = answers w1" "popped ?w = popped w1" "replied ?w = replied w1" "handed_over ?w = handed_over w1"
    "dropped ?w = dropped w1 + (length is + length (pl_inflight l))" "pw_in ?w = pw_in w1"
    by (simp_all add: lose_def p_count_def history_defs)
  have "subseq (answers w) (map (item_command cfg) (popped w))"
    using assms(1) subseq_shorter [of "answers w" "map (item_command cfg) (pl_inflight l)" _ 0] by (simp add: run_inv_def)
  then have s: "subseq (answers w) (map (item_command cfg) (popped w @ is))" by (simp add: subseq_rev_drop_many)
  then show ?thesis
    using assms list_emb_length [OF s] by (auto simp: finished_def e run_inv_def taking_def queue_inv_def)
qed

lemma lose_lose: "lose m (lose n w) = lose (n + m) w"
  by (simp add: lose_def p_count_def add.assoc)

lemma lose_0 [simp]: "lose 0 w = w"
  by (simp add: lose_def p_count_def)

lemma abandon_ends:
  assumes inv: "run_inv env cfg q0 r0 d0 l w" and quiet: "\<forall>t \<ge> pw_tick w. pe_arrive env t = []"
  shows "ends (abandon env l w) (\<lambda>(l', w'). finished env cfg q0 r0 d0 w' \<and> (\<exists>cs. holds_conn (pl_ctx l') cs w'))"
proof -
  let ?w1 = "p_queue_sync env w"
  have q: "queue_inv env q0 w" using inv by (simp add: run_inv_def)
  note s = sync_ok [OF q]
  have inv1: "run_inv env cfg q0 r0 d0 l ?w1" using run_inv_looked [OF inv] s by simp
  have len: "p_queue_length env w = (length (qp_list (pw_in ?w1)), ?w1)"
    using s by (auto simp: p_queue_length_def Let_def queue_inv_def qp_inv_def qp_list_def cf_queue_length_eq split: option.splits)
  let ?n = "length (qp_list (pw_in ?w1))"
  obtain w2 "is" where w2: "(if ?n > 0 then do { w \<leftarrow> discard_queue env ?w1; Some (lose ?n w) } else Some ?w1) = Some (lose ?n w2)"
    "queue_inv env q0 w2" "qp_list (pw_in w2) = []" "length is = ?n" "taking is ?w1 w2"
  proof (cases "?n > 0")
    case True
    have "\<forall>t \<ge> pw_tick ?w1. pe_arrive env t = []" using quiet s by simp
    then obtain w2 "is" where "discard_queue env ?w1 = Some w2" "queue_inv env q0 w2" "qp_list (pw_in w2) = []"
      "length is = ?n" "taking is ?w1 w2"
      using discard_ends [of env q0 ?w1] s by (auto elim!: endsE)
    then show ?thesis using that True by simp
  next
    case False
    then show ?thesis using that [of ?w1 "[]"] s by simp
  qed
  have f: "finished env cfg q0 r0 d0 (lose (length (pl_inflight l)) (lose ?n w2))"
    using abandoned [OF inv1 w2(5,2,3)] w2(4) by (simp add: lose_lose)
  have "holds_conn (pl_ctx l) (map (item_command cfg) (pl_inflight l)) w2"
    using inv1 taking_holds [OF w2(5)] by (simp add: run_inv_def)
  then show ?thesis using f unfolding abandon_def len prod.case w2(1) by auto
qed

section \<open>The loop\<close>

text \<open>What the thread may rely on: a stop is requested some time and stays requested, the clock goes
  on, and nobody pushes events any more once a stop was requested.\<close>

definition stop_comes :: "producer_env \<Rightarrow> bool" where
  "stop_comes env \<longleftrightarrow> (\<exists>n. \<forall>t \<ge> n. stopped env t)"

definition clock_runs :: "producer_env \<Rightarrow> bool" where
  "clock_runs env \<longleftrightarrow> (\<forall>t. 0 \<le> pe_now env t) \<and>
     (\<forall>t. \<exists>n. \<forall>u \<ge> n. pe_now env t + CF_REDIS_SHUTDOWN_DEADLINE_NS \<le> pe_now env u)"

definition upstream_stops_first :: "producer_env \<Rightarrow> bool" where
  "upstream_stops_first env \<longleftrightarrow> (\<forall>t u. stopped env t \<and> t \<le> u \<longrightarrow> pe_arrive env u = [])"

definition deadline_ok :: "producer_env \<Rightarrow> producer_loop \<Rightarrow> bool" where
  "deadline_ok env l \<longleftrightarrow> pl_shutdown_deadline l = - 1 \<or>
     (\<exists>t. pl_shutdown_deadline l = pe_now env t + CF_REDIS_SHUTDOWN_DEADLINE_NS)"

lemma deadline_passes:
  assumes "clock_runs env" "deadline_ok env l" "\<not> pl_shutdown_deadline l < 0"
  shows "\<exists>n. \<forall>u \<ge> n. pl_shutdown_deadline l \<le> pe_now env u"
  using assms by (auto simp: clock_runs_def deadline_ok_def)

lemma waits_end_ok:
  assumes "stop_comes env" "clock_runs env" "deadline_ok env l" "stopping \<longrightarrow> \<not> pl_shutdown_deadline l < 0"
  shows "waits_end env stopping l"
  using assms deadline_passes [OF assms(2,3)] by (auto simp: waits_end_def cut_off_def stop_comes_def)

text \<open>How a round ends: the loop is over, or it goes on with the deadline set once a stop was seen,
  and not past it.\<close>

definition round_ok ::
  "producer_env \<Rightarrow> cf_redis_producer_config \<Rightarrow> cf_queue option \<Rightarrow> nat \<Rightarrow> nat \<Rightarrow> producer_loop \<Rightarrow> producer \<Rightarrow>
   (producer_loop \<times> producer) + (producer_loop \<times> producer) \<Rightarrow> bool" where
  "round_ok env cfg q0 r0 d0 l w r = (case r of
     Inr (l', w') \<Rightarrow> finished env cfg q0 r0 d0 w' \<and> (\<exists>cs. holds_conn (pl_ctx l') cs w')
   | Inl (l', w') \<Rightarrow> run_inv env cfg q0 r0 d0 l' w' \<and> deadline_ok env l' \<and> pw_tick w < pw_tick w' \<and>
       (stopped env (pw_tick w) \<longrightarrow> \<not> pl_shutdown_deadline l' < 0) \<and>
       (\<not> pl_shutdown_deadline l < 0 \<longrightarrow> pl_shutdown_deadline l' = pl_shutdown_deadline l) \<and>
       \<not> (stopped env (pw_tick w) \<and> (\<forall>t \<ge> pw_tick w. pl_shutdown_deadline l' \<le> pe_now env t)))"

lemma producer_serve_ends:
  assumes inv: "run_inv env cfg q0 r0 d0 l w" and wait: "waits_end env stopping l"
  shows "ends (producer_serve env cfg stopping l w) (\<lambda>(l', w'). run_inv env cfg q0 r0 d0 l' w' \<and> onward l w l' w')"
proof -
  have "ends (case pl_ctx l of Some k \<Rightarrow> Some (Some k, w)
      | None \<Rightarrow> connect_with_backoff env cfg True (if stopping then pl_shutdown_deadline l else INT64_MAX) (\<not> stopping) w)
      (\<lambda>(ctx, w1). run_inv env cfg q0 r0 d0 (l\<lparr>pl_ctx := ctx\<rparr>) w1 \<and> aside w w1)"
  proof (cases "pl_ctx l")
    case None
    then have h: "holds_conn None [] w" "pl_inflight l = []" using inv by (auto simp: run_inv_def holds_conn_def)
    obtain n where "cut_off env (if stopping then pl_shutdown_deadline l else INT64_MAX) (\<not> stopping) n"
      using wait by (auto simp: waits_end_def)
    from connect_ends [OF this h(1), of cfg True] show ?thesis
      using None h(2) run_inv_aside [OF inv, of _ "l\<lparr>pl_ctx := ctx\<rparr>" for ctx] by (auto elim!: ends_mono)
  next
    case (Some k)
    then show ?thesis using inv by (simp add: run_inv_def)
  qed
  then obtain ctx w1 where c: "(case pl_ctx l of Some k \<Rightarrow> Some (Some k, w)
      | None \<Rightarrow> connect_with_backoff env cfg True (if stopping then pl_shutdown_deadline l else INT64_MAX) (\<not> stopping) w) =
      Some (ctx, w1)" "run_inv env cfg q0 r0 d0 (l\<lparr>pl_ctx := ctx\<rparr>) w1" "aside w w1"
    by (auto elim!: endsE)
  show ?thesis
  proof (cases ctx)
    case None
    then show ?thesis using c by (simp add: producer_serve_def onward_def aside_def)
  next
    case (Some k)
    have "waits_end env stopping (l\<lparr>pl_ctx := ctx\<rparr>)" using wait by (cases stopping) (simp_all add: waits_end_def)
    from pump_ends [OF c(2) _ this, of k] Some obtain l' w' where
      p: "pump env cfg stopping (l\<lparr>pl_ctx := Some k\<rparr>) w1 = Some (l', w')" "run_inv env cfg q0 r0 d0 l' w'" "onward (l\<lparr>pl_ctx := Some k\<rparr>) w1 l' w'"
      by (auto elim!: endsE)
    then show ?thesis using c Some by (auto simp: producer_serve_def onward_def aside_def)
  qed
qed

lemma iter_ends:
  assumes inv: "run_inv env cfg q0 r0 d0 l w" and dl: "deadline_ok env l"
    and env: "stop_comes env" "clock_runs env" "upstream_stops_first env"
  shows "ends (producer_iter env cfg l w) (round_ok env cfg q0 r0 d0 l w)"
proof -
  let ?t = "pw_tick w" and ?st = "stopped env (pw_tick w)"
  let ?w1 = "w\<lparr>pw_tick := Suc ?t\<rparr>"
  have stop: "producer_should_stop env w = (?st, ?w1)"
    by (simp add: producer_should_stop_def p_ask_def stopped_def)
  have i1: "idle_step w ?w1" by simp
  show ?thesis
  proof (cases ?st)
    case False
    have "waits_end env False l" using waits_end_ok [OF env(1,2) dl] by simp
    note serve = producer_serve_ends [OF run_inv_idle [OF inv i1] this]
    have "run_inv env cfg q0 r0 d0 l' w' \<and> onward l ?w1 l' w' \<Longrightarrow> round_ok env cfg q0 r0 d0 l w (Inl (l', w'))" for l' w'
      using False dl by (auto simp: round_ok_def onward_def deadline_ok_def)
    then show ?thesis using serve False by (auto simp: producer_iter_def stop elim!: ends_mono)
  next
    case True
    obtain l2 w2 where lw2: "(l2, w2) = (if pl_shutdown_deadline l < 0
      then (l\<lparr>pl_shutdown_deadline := pe_now env (Suc ?t) + CF_REDIS_SHUTDOWN_DEADLINE_NS\<rparr>, ?w1\<lparr>pw_tick := Suc (Suc ?t)\<rparr>) else (l, ?w1))"
      by (metis surj_pair)
    have l2: "pl_inflight l2 = pl_inflight l" "pl_ctx l2 = pl_ctx l" "\<not> pl_shutdown_deadline l2 < 0" "deadline_ok env l2"
      "\<not> pl_shutdown_deadline l < 0 \<longrightarrow> pl_shutdown_deadline l2 = pl_shutdown_deadline l"
      using lw2 dl env(2) by (auto simp: deadline_ok_def clock_runs_def not_less split: if_splits)
    have inv2: "run_inv env cfg q0 r0 d0 l2 w2" "?t < pw_tick w2"
      using lw2 run_inv_idle [OF inv i1] run_inv_idle [OF inv, of "w\<lparr>pw_tick := Suc (Suc ?t)\<rparr>"] by (auto split: if_splits)
    have quiet: "\<forall>u \<ge> ?t. pe_arrive env u = []" using env(3) True by (auto simp: upstream_stops_first_def)
    obtain idle w3 where iw3: "(idle, w3) = (if pl_inflight l2 = []
      then (case p_queue_length env w2 of (n, w) \<Rightarrow> (n = 0, w)) else (False, w2))"
      by (metis surj_pair)
    have q2: "queue_inv env q0 w2" using inv2 by (simp add: run_inv_def)
    note s2 = sync_ok [OF q2]
    have len: "p_queue_length env w2 = (length (qp_list (pw_in (p_queue_sync env w2))), p_queue_sync env w2)"
      using s2 by (auto simp: p_queue_length_def Let_def queue_inv_def qp_inv_def qp_list_def cf_queue_length_eq split: option.splits)
    have inv3: "run_inv env cfg q0 r0 d0 l2 w3" "?t < pw_tick w3" "idle \<longrightarrow> pl_inflight l2 = [] \<and> qp_list (pw_in w3) = []"
      using iw3 inv2 s2 run_inv_looked [OF inv2(1)] by (auto simp: len split: if_splits)
    let ?w4 = "w3\<lparr>pw_tick := Suc (pw_tick w3)\<rparr>"
    have inv4: "run_inv env cfg q0 r0 d0 l2 ?w4" using run_inv_idle [OF inv3(1)] by simp
    show ?thesis
    proof (cases idle)
      case idle: True
      then have "finished env cfg q0 r0 d0 w3"
        using abandoned [OF inv3(1) taking_refl] inv3 by (simp add: run_inv_def)
      moreover have "producer_iter env cfg l w = Some (Inr (l2, w3))"
        using True idle lw2 iw3 by (simp add: producer_iter_def stop p_ask_def split: prod.splits if_splits)
      moreover have "\<exists>cs. holds_conn (pl_ctx l2) cs w3" using inv3(1) by (auto simp: run_inv_def)
      ultimately show ?thesis by (simp add: round_ok_def)
    next
      case busy: False
      have iter: "producer_iter env cfg l w = (if pe_now env (pw_tick w3) \<ge> pl_shutdown_deadline l2
        then do { r \<leftarrow> abandon env l2 ?w4; Some (Inr r) }
        else do { r \<leftarrow> producer_serve env cfg True l2 ?w4; Some (Inl r) })"
        using True busy lw2 iw3 by (simp add: producer_iter_def stop p_ask_def split: prod.splits if_splits)
      show ?thesis
      proof (cases "pe_now env (pw_tick w3) \<ge> pl_shutdown_deadline l2")
        case True
        then show ?thesis
          using abandon_ends [OF inv4] quiet inv3(2) by (auto simp: iter round_ok_def elim!: ends_mono)
      next
        case False
        have "waits_end env True l2" using waits_end_ok [OF env(1,2) l2(4)] l2(3) by simp
        note serve = producer_serve_ends [OF inv4 this]
        have "\<not> (\<forall>t \<ge> ?t. pl_shutdown_deadline l2 \<le> pe_now env t)" using False inv3(2) by (auto intro!: exI [of _ "pw_tick w3"])
        then have "run_inv env cfg q0 r0 d0 l' w' \<and> onward l2 ?w4 l' w' \<Longrightarrow> round_ok env cfg q0 r0 d0 l w (Inl (l', w'))" for l' w'
          using l2 inv3(2) \<open>?st\<close> by (auto simp: round_ok_def onward_def deadline_ok_def)
        then show ?thesis using serve False by (auto simp: iter elim!: ends_mono)
      qed
    qed
  qed
qed

lemma run_late_ends:
  assumes env: "stop_comes env" "clock_runs env" "upstream_stops_first env"
    and inv: "run_inv env cfg q0 r0 d0 l w" "deadline_ok env l" "\<not> pl_shutdown_deadline l < 0"
  shows "ends (producer_run env cfg l w) (\<lambda>(l', w'). finished env cfg q0 r0 d0 w' \<and> (\<exists>cs. holds_conn (pl_ctx l') cs w'))"
proof -
  let ?d = "pl_shutdown_deadline l"
  let ?Q = "\<lambda>(l', w'). finished env cfg q0 r0 d0 w' \<and> (\<exists>cs. holds_conn (pl_ctx l') cs w')"
  obtain n1 n2 where n: "\<forall>t \<ge> n1. stopped env t" "\<forall>t \<ge> n2. ?d \<le> pe_now env t"
    using env(1) deadline_passes [OF env(2) inv(2,3)] by (auto simp: stop_comes_def)
  have "ends (producer_run env cfg (fst s) (snd s)) ?Q"
    if "run_inv env cfg q0 r0 d0 (fst s) (snd s) \<and> deadline_ok env (fst s) \<and> pl_shutdown_deadline (fst s) = ?d" for s
  proof (rule ends_measure [where I = "\<lambda>s. run_inv env cfg q0 r0 d0 (fst s) (snd s) \<and> deadline_ok env (fst s) \<and>
        pl_shutdown_deadline (fst s) = ?d" and f = "\<lambda>s. max n1 n2 - pw_tick (snd s)"])
    fix s
    assume s: "run_inv env cfg q0 r0 d0 (fst s) (snd s) \<and> deadline_ok env (fst s) \<and> pl_shutdown_deadline (fst s) = ?d"
      and IH: "\<And>s'. run_inv env cfg q0 r0 d0 (fst s') (snd s') \<and> deadline_ok env (fst s') \<and> pl_shutdown_deadline (fst s') = ?d \<Longrightarrow>
        max n1 n2 - pw_tick (snd s') < max n1 n2 - pw_tick (snd s) \<Longrightarrow> ends (producer_run env cfg (fst s') (snd s')) ?Q"
    obtain r where r: "producer_iter env cfg (fst s) (snd s) = Some r" "round_ok env cfg q0 r0 d0 (fst s) (snd s) r"
      using iter_ends [of env cfg q0 r0 d0 "fst s" "snd s"] s env by (auto elim!: endsE)
    show "ends (producer_run env cfg (fst s) (snd s)) ?Q"
    proof (cases r)
      case (Inl x)
      obtain l' w' where x: "x = (l', w')" by fastforce
      then have go: "run_inv env cfg q0 r0 d0 l' w'" "deadline_ok env l'" "pw_tick (snd s) < pw_tick w'" "pl_shutdown_deadline l' = ?d"
        "\<not> (stopped env (pw_tick (snd s)) \<and> (\<forall>t \<ge> pw_tick (snd s). ?d \<le> pe_now env t))"
        using r(2) Inl s inv(3) by (auto simp: round_ok_def)
      have "pw_tick (snd s) < max n1 n2" using go(5) n by (metis le_trans not_le max.cobounded1 max.cobounded2)
      then have "max n1 n2 - pw_tick w' < max n1 n2 - pw_tick (snd s)" using go(3) by linarith
      then show ?thesis using IH [of "(l', w')"] go r(1) Inl x by (subst producer_run.simps) simp
    next
      case (Inr x)
      then show ?thesis using r by (subst producer_run.simps) (auto simp: round_ok_def)
    qed
  qed (use that in simp)
  from this [of "(l, w)"] show ?thesis using inv by simp
qed

lemma run_ends:
  assumes env: "stop_comes env" "clock_runs env" "upstream_stops_first env"
    and inv: "run_inv env cfg q0 r0 d0 l w" "deadline_ok env l"
  shows "ends (producer_run env cfg l w) (\<lambda>(l', w'). finished env cfg q0 r0 d0 w' \<and> (\<exists>cs. holds_conn (pl_ctx l') cs w'))"
proof -
  let ?Q = "\<lambda>(l', w'). finished env cfg q0 r0 d0 w' \<and> (\<exists>cs. holds_conn (pl_ctx l') cs w')"
  obtain n where n: "\<forall>t \<ge> n. stopped env t" using env(1) by (auto simp: stop_comes_def)
  have "ends (producer_run env cfg (fst s) (snd s)) ?Q"
    if "run_inv env cfg q0 r0 d0 (fst s) (snd s) \<and> deadline_ok env (fst s)" for s
  proof (rule ends_measure [where I = "\<lambda>s. run_inv env cfg q0 r0 d0 (fst s) (snd s) \<and> deadline_ok env (fst s)"
        and f = "\<lambda>s. n - pw_tick (snd s)"])
    fix s
    assume s: "run_inv env cfg q0 r0 d0 (fst s) (snd s) \<and> deadline_ok env (fst s)"
      and IH: "\<And>s'. run_inv env cfg q0 r0 d0 (fst s') (snd s') \<and> deadline_ok env (fst s') \<Longrightarrow>
        n - pw_tick (snd s') < n - pw_tick (snd s) \<Longrightarrow> ends (producer_run env cfg (fst s') (snd s')) ?Q"
    obtain r where r: "producer_iter env cfg (fst s) (snd s) = Some r" "round_ok env cfg q0 r0 d0 (fst s) (snd s) r"
      using iter_ends [of env cfg q0 r0 d0 "fst s" "snd s"] s env by (auto elim!: endsE)
    show "ends (producer_run env cfg (fst s) (snd s)) ?Q"
    proof (cases r)
      case (Inl x)
      obtain l' w' where x: "x = (l', w')" by fastforce
      then have go: "run_inv env cfg q0 r0 d0 l' w'" "deadline_ok env l'" "pw_tick (snd s) < pw_tick w'"
        "stopped env (pw_tick (snd s)) \<longrightarrow> \<not> pl_shutdown_deadline l' < 0"
        using r(2) Inl by (auto simp: round_ok_def)
      have "ends (producer_run env cfg l' w') ?Q"
      proof (cases "n \<le> pw_tick (snd s)")
        case True
        then show ?thesis using run_late_ends [OF env go(1,2)] go(4) n by simp
      next
        case False
        then show ?thesis using IH [of "(l', w')"] go by simp
      qed
      then show ?thesis using r(1) Inl x by (subst producer_run.simps) simp
    next
      case (Inr x)
      then show ?thesis using r by (subst producer_run.simps) (auto simp: round_ok_def)
    qed
  qed (use that in simp)
  from this [of "(l, w)"] show ?thesis using inv by simp
qed

section \<open>The thread\<close>

text \<open>A fresh run: no history, no connection, an input queue in order.\<close>

definition fresh_run :: "producer_env \<Rightarrow> producer \<Rightarrow> bool" where
  "fresh_run env w \<longleftrightarrow> pw_log w = [] \<and> pw_pipes w = Map.empty \<and> qp_inv (pw_in w) \<and>
     (\<forall>t. \<forall>e \<in> set (pe_arrive env t). qp_elem (pw_in w) e) \<and> pe_alloc env (pw_tick w)"

lemma thread_ends:
  assumes env: "stop_comes env" "clock_runs env" "upstream_stops_first env" and fresh: "fresh_run env w"
  shows "ends (cf_redis_producer_thread_main env cfg w) (\<lambda>w'.
    finished env cfg (pw_in w) (replied w) (dropped w) w' \<and> pw_pipes w' = Map.empty)"
proof -
  let ?w = "w\<lparr>pw_endpoint_idx := 0, pw_backoff_ns := CF_REDIS_BACKOFF_INITIAL_NS, pw_tick := Suc (pw_tick w)\<rparr>"
  have h: "holds_conn None [] ?w" using fresh by (simp add: holds_conn_def fresh_run_def)
  obtain n where n: "cut_off env INT64_MAX True n" using env(1) by (auto simp: stop_comes_def cut_off_def)
  obtain ctx w1 where c: "connect_with_backoff env cfg False INT64_MAX True ?w = Some (ctx, w1)" "holds_conn ctx [] w1" "aside ?w w1"
    using connect_ends [OF n h, of cfg False] by (auto elim!: endsE)
  let ?l = "\<lparr>pl_ctx = ctx, pl_inflight = [], pl_batch_start = 0, pl_shutdown_deadline = - 1\<rparr>"
  have "answers ?w = [] \<and> popped ?w = [] \<and> handed_over ?w = [] \<and> replied ?w = replied w \<and> dropped ?w = dropped w"
    using fresh by (simp add: history_defs fresh_run_def)
  then have "run_inv env cfg (pw_in w) (replied w) (dropped w) ?l w1"
    using c(2,3) fresh by (auto simp: run_inv_def aside_def queue_inv_def fresh_run_def)
  from run_ends [OF env this] obtain l' w' cs where
    r: "producer_run env cfg ?l w1 = Some (l', w')" "finished env cfg (pw_in w) (replied w) (dropped w) w'" "holds_conn (pl_ctx l') cs w'"
    by (auto simp: deadline_ok_def elim!: endsE)
  have "ends (case pl_ctx l' of None \<Rightarrow> Some w' | Some k \<Rightarrow> p_free k w') (\<lambda>w''.
      finished env cfg (pw_in w) (replied w) (dropped w) w'' \<and> pw_pipes w'' = Map.empty)"
  proof (cases "pl_ctx l'")
    case None
    then show ?thesis using r by (simp add: holds_conn_def)
  next
    case (Some k)
    then obtain w'' where "p_free k w' = Some w''" "holds_conn None [] w''" "aside w' w''"
      using free_ends [of k cs w'] r(3) by (auto elim!: endsE)
    then show ?thesis using Some r(2) by (auto simp: finished_def aside_def holds_conn_def)
  qed
  then show ?thesis using fresh c(1) r(1) by (simp add: cf_redis_producer_thread_main_def p_ask_def fresh_run_def)
qed

end
