(* ===== verification/Redis_Producer_Thm.thy ===== *)
theory Redis_Producer_Thm
  imports Redis_Producer_Run
begin

text \<open>The contract of the Redis producer, from start to stop.\<close>


text \<open>A run with one queued event, unreachable servers for a while and a stop.\<close>

definition sample_event :: cf_event_item where
  "sample_event = \<lparr>ei_observed_time = 0, ei_stream_id = CF_STREAM_DHCPV4, ei_protocol = CF_PROTO_DHCPV4,
     ei_event_type = ''dhcpv4.ack.observed'', ei_payload = [1, 2, 3]\<rparr>"

definition sample_event_queue :: cf_queue where
  "sample_event_queue = \<lparr>q_storage = Some [1, 1, 0, 0, 0, 0], q_element_size = 2, q_capacity = 3, q_head = 1, q_tail = 0\<rparr>"

definition sample_producer_env :: producer_env where
  "sample_producer_env = \<lparr>pe_stop_notified = (\<lambda>t. t \<ge> 20), pe_stop_local = (\<lambda>t. False), pe_now = (\<lambda>t. 1000000000 * int t),
     pe_connect = (\<lambda>t host port. if t < 10 then Connect_Null else Connect_Ok), pe_append = (\<lambda>t. True),
     pe_reply = (\<lambda>t. Other_Reply), pe_alloc = (\<lambda>t. True), pe_arrive = (\<lambda>t. []), pe_read_item = (\<lambda>e. sample_event)\<rparr>"

definition sample_producer_config :: cf_redis_producer_config where
  "sample_producer_config = \<lparr>pc_endpoints = [Some ''redis:6379''], pc_maxlen_approx = 0, pc_pipeline_max = 0, pc_flush_interval_ms = 0\<rparr>"

definition sample_redis_stats :: cf_redis_stats where
  "sample_redis_stats = \<lparr>xadd_total = 0, xadd_errors_total = 0, xadd_latency_ns_total = 0, redis_reconnects_total = 0, events_lost_total = 0\<rparr>"

definition sample_producer :: producer where
  "sample_producer = \<lparr>pw_tick = 0, pw_log = [], pw_stats = sample_redis_stats, pw_in = Some sample_event_queue,
     pw_pipes = Map.empty, pw_next = 0, pw_endpoint_idx = 0, pw_backoff_ns = 0, pw_last_log = (\<lambda>_. 0)\<rparr>"

definition idle_producer :: producer_thread where
  "idle_producer = \<lparr>pt_running = False, pt_cfg = sample_producer_config\<rparr>"

lemma sample_env_orderly:
  "stop_comes sample_producer_env" "clock_runs sample_producer_env" "upstream_stops_first sample_producer_env"
  "fresh_run sample_producer_env sample_producer"
proof -
  show "stop_comes sample_producer_env"
    by (auto simp: stop_comes_def stopped_def sample_producer_env_def)
  show "clock_runs sample_producer_env"
    unfolding clock_runs_def
  proof (intro conjI allI)
    show "\<exists>n. \<forall>u \<ge> n. pe_now sample_producer_env t + CF_REDIS_SHUTDOWN_DEADLINE_NS \<le> pe_now sample_producer_env u" for t
      by (rule exI [of _ "t + 5"]) (simp add: sample_producer_env_def)
  qed (simp add: sample_producer_env_def)
  show "upstream_stops_first sample_producer_env" "fresh_run sample_producer_env sample_producer"
    by (simp_all add: upstream_stops_first_def sample_producer_env_def fresh_run_def sample_producer_def qp_inv_def q_inv_def
        sample_event_queue_def)
qed


end
