(* ===== verification/Dhcp_Formatter_Thm.thy ===== *)
theory Dhcp_Formatter_Thm
  imports Dhcp_Formatter_Safe Dhcpv4_Interp Decap_Roundtrip Redis_Producer_Thm
begin

text \<open>
  The DHCP formatter together with the components around it: from the frame on the wire, through
  decapsulation and the DHCPv4 parser, to the packed event; and from the formatter, through the event
  queue, to the Redis producer at shutdown.
\<close>

section \<open>From the wire to the event\<close>

text \<open>A UDP datagram over IPv4, behind up to two VLAN tags and followed by a trailer.\<close>

record udp4_frame =
  w_dst :: bytes
  w_src :: bytes
  w_tags :: "(u16 \<times> u16) list"
  w_sip :: bytes
  w_dip :: bytes
  w_ttl :: byte
  w_sp :: u16
  w_dp :: u16
  w_trailer :: bytes

definition wire_ok4 :: "udp4_frame \<Rightarrow> bool" where
  "wire_ok4 f \<longleftrightarrow> length (w_dst f) = 6 \<and> length (w_src f) = 6 \<and> length (w_tags f) \<le> 2 \<and>
     list_all (\<lambda>t. is_vlan (fst t)) (w_tags f) \<and> length (w_sip f) = 4 \<and> length (w_dip f) = 4"

definition wire4 :: "udp4_frame \<Rightarrow> bytes \<Rightarrow> bytes" where
  "wire4 f payload = eth_frame (w_dst f) (w_src f) (w_tags f) ETHERTYPE_IPV4
     (ipv4_bytes 0 (of_nat (28 + length payload)) 0 0 (w_ttl f) IP_PROTO_UDP 0 (w_sip f) (w_dip f) [] @
      udp_bytes (w_sp f) (w_dp f) 0 payload @ w_trailer f)"

definition dhcpv4_ports :: "udp4_frame \<Rightarrow> bool" where
  "dhcpv4_ports f \<longleftrightarrow> w_sp f \<in> {67, 68} \<or> w_dp f \<in> {67, 68}"

lemma wire4_message:
  assumes "wire_ok4 f" "dhcpv4_ports f" "236 \<le> length payload" "length payload < 2 ^ 16 - 8"
  obtains d where "cf_decap_udp (wire4 f payload) = Some (CF_DECAP_OK, d)"
    "frame_message (wire4 f payload) = Some (CF_PROTO_DHCPV4, payload)" "classify_ports d = Some (CF_PROTO_DHCPV4, CF_STREAM_DHCPV4)"
    "ip_version d = 4" "src_ip d = w_sip f @ replicate 12 0" "dst_ip d = w_dip f @ replicate 12 0"
    "u_src_port d = w_sp f" "u_dst_port d = w_dp f" "vlan_ids d = tag_ids (w_tags f)" "vlan_count d = length (w_tags f)"
    "src_mac d = w_src f" "dst_mac d = w_dst f"
proof -
  let ?off = "14 + 4 * length (w_tags f) + (20 + length ([] :: bytes)) + 8"
  have w: "length (w_dst f) = 6" "length (w_src f) = 6" "length (w_tags f) \<le> 2" "\<forall>t \<in> set (w_tags f). is_vlan (fst t)"
    "length (w_sip f) = 4" "length (w_dip f) = 4" using assms(1) by (auto simp: wire_ok4_def list_all_iff)
  have z: "4 dvd length ([] :: bytes)" "length ([] :: bytes) \<le> 40" "(0 :: u16) AND 0x1FFF = 0" by simp_all
  note d = decap_ipv4_udp_fields [OF w z assms(4) refl refl, of 0 "of_nat (28 + length payload)" 0 "w_ttl f" 0
      "w_sp f" "w_dp f" 0 "w_trailer f", folded wire4_def]
  show thesis
    by (rule that [OF conjunct1 [OF d]])
      (use conjunct1 [OF d] conjunct2 [OF d] assms(2,3) in
        \<open>simp_all add: frame_message_def classify_ports_def dhcpv4_ports_def min_message_def Let_def\<close>)
qed

text \<open>
  C10. From the wire to the event: a well-formed DHCPv4 message in a UDP datagram over IPv4, with a DHCP
  port at either end, becomes an event on the DHCPv4 stream whose payload is the encoding of a
  message with exactly the options that were sent, in order, and of the addresses, ports, hardware
  addresses and VLAN ids of the frame; the envelope identifies the frame by its hash.
\<close>

theorem dhcpv4_frame_to_event:
  assumes "wire_ok4 f" "dhcpv4_ports f" "length hdr = 236" "list_all wire_ok opts" "52 \<notin> (\<lambda>(n, c, v). c) ` set opts"
    and "length (wire_packet hdr opts junk) < 2 ^ 16 - 8" "packet_ready pkt (wire4 f (wire_packet hdr opts junk))"
    and alloc: "\<forall>site. fe_alloc env site"
  shows "\<exists>ev msg obs. de_payload ev = Dhcpv4_Packet msg obs \<and>
    map (\<lambda>opt. (o4_code opt, o4_raw_value opt)) (e4_raw_options msg) = map (\<lambda>(n, c, v). (ucast c, v)) opts \<and>
    e4_raw_dhcp_payload msg = wire_packet hdr opts junk \<and>
    no_src_ip (po_network obs) = cstr (inet_ntop4 (w_sip f @ replicate 12 0)) \<and>
    no_dst_ip (po_network obs) = cstr (inet_ntop4 (w_dip f @ replicate 12 0)) \<and>
    to_src_port (po_transport obs) = ucast (w_sp f) \<and> to_dst_port (po_transport obs) = ucast (w_dp f) \<and>
    lo_src_mac (po_link obs) = cstr (cf_format_mac (w_src f)) \<and>
    lo_vlan_ids (po_link obs) = map (\<lambda>t. ucast (snd t AND 0x0FFF)) (w_tags f) \<and>
    ev_event_id (de_envelope ev) = cstr (cf_event_id (fe_stale env)
      (map_option (\<lambda>s. map of_char (cstr s)) (fc_source_host cfg)) (map_option (\<lambda>s. map of_char (cstr s)) (fc_capture_interface cfg))
      (of_int (pi_observed_time pkt)) (wire4 f (wire_packet hdr opts junk))) \<and>
    (length (fe_pack env ev) \<le> CLOUDFLOW_EVENT_MAX_SIZE \<longrightarrow>
      (\<exists>item st'. cf_format_packet env cfg pkt st = Some (0, Some item, st') \<and> ei_payload item = fe_pack env ev \<and>
         ei_stream_id item = CF_STREAM_DHCPV4 \<and> ei_protocol item = CF_PROTO_DHCPV4))"
proof -
  let ?p = "wire_packet hdr opts junk"
  have len: "236 \<le> length ?p" using assms(3) by (simp add: wire_packet_def)
  obtain d where d: "cf_decap_udp (wire4 f ?p) = Some (CF_DECAP_OK, d)"
    "frame_message (wire4 f ?p) = Some (CF_PROTO_DHCPV4, ?p)" "classify_ports d = Some (CF_PROTO_DHCPV4, CF_STREAM_DHCPV4)"
    "ip_version d = 4" "src_ip d = w_sip f @ replicate 12 0" "dst_ip d = w_dip f @ replicate 12 0"
    "u_src_port d = w_sp f" "u_dst_port d = w_dp f" "vlan_ids d = tag_ids (w_tags f)" "vlan_count d = length (w_tags f)"
    "src_mac d = w_src f" by (rule wire4_message [OF assms(1,2) len assms(6)]) blast
  obtain d' stream_id message et n where m: "cf_decap_udp (wire4 f ?p) = Some (CF_DECAP_OK, d')"
    "classify_ports d' = Some (CF_PROTO_DHCPV4, stream_id)" "parse_payload CF_PROTO_DHCPV4 (Some ?p) = Some (Some (message, et, n))"
    "\<And>stats. cf_format_packet env cfg pkt stats =
       Some (case observe env cfg pkt (wire4 f ?p) d' CF_PROTO_DHCPV4 stream_id message et of
         None \<Rightarrow> (- 1, None, stats) | Some ev \<Rightarrow> pack_event env pkt ev CF_PROTO_DHCPV4 stream_id et n stats)"
    by (rule format_packet_message [OF assms(7) d(2), where env = env and cfg = cfg]) blast
  have dd: "d' = d" "stream_id = CF_STREAM_DHCPV4" using m(1,2) d(1,3) by auto
  obtain msg et' where msg: "cf_dhcpv4_parse (Some ?p) = Some (Some (msg, et'))"
    "map (\<lambda>opt. (o4_code opt, o4_raw_value opt)) (e4_raw_options msg) = map (\<lambda>(n, c, v). (ucast c, v)) opts"
    using dhcpv4_options_roundtrip [OF assms(3-5), of junk] by blast
  have raw: "e4_raw_dhcp_payload msg = ?p" using parse_result [OF msg(1)] by blast
  from m(3) msg(1) have me: "message = Dhcpv4_Packet msg" by (simp add: parse_payload_def)
  obtain ev where ev: "observe env cfg pkt (wire4 f ?p) d CF_PROTO_DHCPV4 CF_STREAM_DHCPV4 message et = Some ev"
    using observe_allocated [OF alloc] by fastforce
  then obtain obs where obs: "build_packet_observation (fe_alloc env) pkt d = Some obs" "de_payload ev = Dhcpv4_Packet msg obs"
    "dhcp_build_envelope env cfg pkt (wire4 f ?p) CF_PROTO_DHCPV4 et CF_STREAM_DHCPV4 = Some (de_envelope ev)"
    using alloc by (auto simp: observe_def me bind_eq_Some_conv)
  have tags: "take (length (w_tags f)) (tag_ids (w_tags f)) = map (\<lambda>t. ucast (snd t AND 0x0FFF)) (w_tags f)"
    using assms(1) by (simp add: wire_ok4_def tag_ids_def min_def)
  note envelope = arg_cong [OF obs(3), of "\<lambda>e. ev_event_id (the e)", symmetric]
  show ?thesis
  proof (intro exI conjI)
    show "length (fe_pack env ev) \<le> CLOUDFLOW_EVENT_MAX_SIZE \<longrightarrow>
        (\<exists>item st'. cf_format_packet env cfg pkt st = Some (0, Some item, st') \<and> ei_payload item = fe_pack env ev \<and>
         ei_stream_id item = CF_STREAM_DHCPV4 \<and> ei_protocol item = CF_PROTO_DHCPV4)"
      using ev by (simp add: m(4) dd pack_event_def fit_dhcp_event_def Let_def)
  qed (use obs(1,2) envelope msg(2) raw alloc d(4-11) tags in
      \<open>auto simp: build_packet_observation_def build_link_def build_network_def build_transport_def
        build_udp_observation_def cfmt_dup_str_def cf_format_ip_def dhcp_build_envelope_def\<close>)
qed

section \<open>Shutdown across the event queue\<close>

text \<open>A producer that sees the stop before the queue holds anything returns at once.\<close>

lemma producer_returns_early:
  assumes stop: "\<forall>t. pe_stop_notified env t" and arr: "\<forall>t. pe_arrive env t = []"
    and q: "qp_inv (pw_in w)" "qp_list (pw_in w) = []"
  shows "\<exists>w'. cf_redis_producer_thread_main env cfg w = Some w' \<and> pw_in w' = pw_in w \<and> pw_stats w' = pw_stats w \<and>
    pw_log w' = pw_log w \<and> pw_pipes w' = pw_pipes w"
proof -
  have bail: "\<exists>w'. must_bail env dl True v = (True, w') \<and> pw_in w' = pw_in v \<and> pw_stats w' = pw_stats v \<and>
      pw_log w' = pw_log v \<and> pw_pipes w' = pw_pipes v" for dl v
    using stop by (auto simp: must_bail_def p_ask_def producer_should_stop_def)
  have conn: "\<exists>w'. connect_with_backoff env cfg False dl True v = Some (None, w') \<and> pw_in w' = pw_in v \<and> pw_stats w' = pw_stats v \<and>
      pw_log w' = pw_log v \<and> pw_pipes w' = pw_pipes v" for dl v
  proof (cases "length (pc_endpoints cfg)")
    case 0
    then show ?thesis using bail [of dl v] by (subst connect_with_backoff.simps) auto
  next
    case (Suc n)
    then show ?thesis using bail [of dl v] by (subst connect_with_backoff.simps) auto
  qed
  have empty: "cf_queue_length (pw_in w) = 0"
    using q by (auto simp: qp_inv_def qp_list_def cf_queue_length_eq split: option.splits)
  have run: "\<exists>l' w'. producer_run env cfg l v = Some (l', w') \<and> pl_ctx l' = pl_ctx l \<and>
      pw_in w' = pw_in v \<and> pw_stats w' = pw_stats v \<and> pw_log w' = pw_log v \<and> pw_pipes w' = pw_pipes v"
    if "pw_in v = pw_in w" "pl_inflight l = []" for l v
    using that stop arr empty
    by (subst producer_run.simps)
      (auto simp: producer_iter_def producer_should_stop_def p_ask_def p_queue_length_def p_queue_sync_def Let_def)
  let ?v = "w\<lparr>pw_endpoint_idx := 0, pw_backoff_ns := CF_REDIS_BACKOFF_INITIAL_NS, pw_tick := Suc (pw_tick w)\<rparr>"
  let ?l = "\<lparr>pl_ctx = None, pl_inflight = [], pl_batch_start = 0, pl_shutdown_deadline = - 1\<rparr>"
  obtain w1 where w1: "connect_with_backoff env cfg False INT64_MAX True ?v = Some (None, w1)"
    "pw_in w1 = pw_in w" "pw_stats w1 = pw_stats w" "pw_log w1 = pw_log w" "pw_pipes w1 = pw_pipes w"
    using conn [of INT64_MAX ?v] by auto
  obtain l' w2 where "producer_run env cfg ?l w1 = Some (l', w2)" "pl_ctx l' = None"
    "pw_in w2 = pw_in w" "pw_stats w2 = pw_stats w" "pw_log w2 = pw_log w" "pw_pipes w2 = pw_pipes w"
    using run [of w1 ?l] w1(2-5) by auto
  then show ?thesis using w1(1) by (simp add: cf_redis_producer_thread_main_def p_ask_def)
qed

text \<open>
  C35. A process-wide stop strands events between the formatter and the producer. Every thread sees the
  same stop flag, so the producer may find its queue empty and return while the formatter still has
  a packet to drain. The formatter then pushes the event of that packet into a queue nobody reads:
  the event is counted as formatted and neither as dropped nor as lost nor as delivered.
\<close>

theorem stop_strands_events:
  assumes "\<forall>t. pe_stop_notified penv t" "\<forall>t. pe_arrive penv t = []" "qp_list (pw_in w) = []"
    and g: "ft_started g" "ft_state g = \<lparr>fm_stats = Some st, fm_out = pw_in w, fm_tick = 0\<rparr>"
    and inq: "qp_inv inq" "qp_list inq = [e]" "packet_ok (read_item e)"
    and "packet_event fenv (ft_cfg g) (read_item e) = Some item"
    and "output_ok fenv (pw_in w)" "fe_taken fenv = (\<lambda>n p. p)"
  shows "\<exists>w' q h st'. cf_redis_producer_thread_main penv pcfg w = Some w' \<and> pw_in w' = pw_in w \<and>
    pw_stats w' = pw_stats w \<and> pw_log w' = pw_log w \<and>
    formatter_stop fenv read_item [] inq g = Some (q, h) \<and> fm_stats (ft_state h) = Some st' \<and>
    qp_list (fm_out (ft_state h)) = [fe_item_bytes fenv item] \<and>
    fs_events_formatted_total st' = fs_events_formatted_total st + 1 \<and>
    fs_formatter_queue_drop_total st' = fs_formatter_queue_drop_total st"
proof -
  have out: "qp_inv (pw_in w)" "policy_args (pw_in w) (fe_item_bytes fenv item) (fe_item_size fenv)"
    using assms(10) by (auto simp: output_ok_def)
  have "packet_ready (read_item e) (take (unat (pi_captured_len (read_item e))) (pi_data (read_item e)))"
    using inq(3) by (simp add: packet_ready_def packet_ok_def)
  then obtain rc st1 where f: "cf_format_packet fenv (ft_cfg g) (read_item e) (Some st) =
      Some (rc, packet_event fenv (ft_cfg g) (read_item e), Some st1)" "rc = 0 \<longleftrightarrow> packet_event fenv (ft_cfg g) (read_item e) \<noteq> None"
    "fs_formatter_queue_drop_total st1 = fs_formatter_queue_drop_total st"
    "fs_events_formatted_total st1 = fs_events_formatted_total st + (if rc = 0 then 1 else 0)"
    by (rule format_packet_counts [where env = fenv and cfg = "ft_cfg g" and st = st]) blast
  have "length (qp_list (pw_in w)) < cf_queue_capacity (pw_in w)"
    using assms(3) ringq.bound_pos [OF out(1)] by simp
  from policy_room [OF out(2) this, of "fe_stop fenv" "fe_consumer fenv" "fc_on_full (ft_cfg g)"
      "Some (fs_formatter_queue_drop_total st1)"] obtain out' where
    p: "cf_queue_push_policy (fe_stop fenv) (fe_consumer fenv) (pw_in w) (Some (fe_item_bytes fenv item)) (fe_item_size fenv)
       (fc_on_full (ft_cfg g)) (Some (fs_formatter_queue_drop_total st1)) = (0, out', Some (fs_formatter_queue_drop_total st1))"
      "qp_list out' = [fe_item_bytes fenv item]"
    by (auto simp: assms(3))
  let ?P = "\<lambda>e s. do { s \<leftarrow> s; formatter_process_one fenv (ft_cfg g) (read_item e) s }"
  obtain q where "drain_loop (\<lambda>p. cf_queue_pop p True) ?P inq (Some (ft_state g)) = Some (q, ?P e (Some (ft_state g)))"
    using ringq.drain_contents [OF inq(1), of ?P "Some (ft_state g)"] by (auto simp: inq(2))
  then have "\<exists>h st'. formatter_stop fenv read_item [] inq g = Some (q, h) \<and> fm_stats (ft_state h) = Some st' \<and>
      qp_list (fm_out (ft_state h)) = [fe_item_bytes fenv item] \<and>
      fs_events_formatted_total st' = fs_events_formatted_total st + 1 \<and>
      fs_formatter_queue_drop_total st' = fs_formatter_queue_drop_total st"
    using f p assms(9,11)
    by (simp add: formatter_stop_def formatter_drain_def formatter_process_one_def formatter_push_def g count_stat_def)
  moreover obtain w' where "cf_redis_producer_thread_main penv pcfg w = Some w'" "pw_in w' = pw_in w" "pw_stats w' = pw_stats w"
    "pw_log w' = pw_log w" using producer_returns_early [OF assms(1,2) out(1) assms(3)] by blast
  ultimately show ?thesis by blast
qed

section \<open>A frame\<close>

text \<open>The DISCOVER of the parser's sample in a frame with one VLAN tag, and a formatter for it.\<close>

definition sample_udp4 :: udp4_frame where
  "sample_udp4 = \<lparr>w_dst = replicate 6 255, w_src = [2, 0, 0, 0, 0, 1], w_tags = [(ETHERTYPE_VLAN, 100)],
     w_sip = [0, 0, 0, 0], w_dip = [255, 255, 255, 255], w_ttl = 64, w_sp = 68, w_dp = 67, w_trailer = []\<rparr>"

definition sample_dhcp_packet :: cf_packet_item where
  "sample_dhcp_packet = (let frame = wire4 sample_udp4 sample4_packet in
     \<lparr>pi_observed_time = 5, pi_packet_len = of_nat (length frame), pi_captured_len = of_nat (length frame),
      pi_flags = 0, pi_data = frame\<rparr>)"

definition sample_format_env :: format_env where
  "sample_format_env = \<lparr>fe_pack = (\<lambda>ev. [1, 2, 3]), fe_item_bytes = (\<lambda>item. [1, 1]), fe_item_size = 2, fe_now = 7,
     fe_stop = (\<lambda>i. False), fe_consumer = (\<lambda>i p. p), fe_taken = (\<lambda>n p. p), fe_alloc = (\<lambda>site. True), fe_stale = []\<rparr>"

definition sample_formatter_config :: formatter_config where
  "sample_formatter_config = \<lparr>fc_source_host = Some ''host'', fc_source_instance = None, fc_capture_interface = Some ''eth0'',
     fc_observation_method = Some ''af_packet'', fc_on_full = CF_ONFULL_DROP_NEWEST\<rparr>"

definition sample_source_stats :: cf_source_stats where
  "sample_source_stats = \<lparr>fs_events_formatted_total = 0, fs_events_formatted_dhcpv4_total = 0, fs_events_formatted_dhcpv6_total = 0,
     fs_packets_skipped_total = 0, fs_parse_warnings_total = 0, fs_events_oversize_dropped_total = 0,
     fs_formatter_queue_depth = 0, fs_formatter_queue_drop_total = 0\<rparr>"

definition sample_empty_queue :: cf_queue where
  "sample_empty_queue = sample_event_queue\<lparr>q_head := 0\<rparr>"

lemma length_wire4: "wire_ok4 f \<Longrightarrow> length (wire4 f p) = 42 + 4 * length (w_tags f) + length p + length (w_trailer f)"
  by (simp add: wire4_def wire_ok4_def eth_frame_def ipv4_bytes_def udp_bytes_def)

lemma sample_frame_ok:
  "wire_ok4 sample_udp4" "dhcpv4_ports sample_udp4" "length sample4_packet = 258"
  "packet_ready sample_dhcp_packet (wire4 sample_udp4 sample4_packet)" "packet_ok sample_dhcp_packet"
  "\<forall>site. fe_alloc sample_format_env site"
proof -
  show w: "wire_ok4 sample_udp4" "dhcpv4_ports sample_udp4"
    by (simp_all add: sample_udp4_def wire_ok4_def dhcpv4_ports_def is_vlan_def)
  show l: "length sample4_packet = 258"
    by (simp add: sample4_packet_def wire_packet_def sample_wire(1) DHCP_MAGIC_COOKIE_def wire_options_def sample_options_def)
  have "length (wire4 sample_udp4 sample4_packet) = 304"
    using length_wire4 [OF w(1), of sample4_packet] by (simp add: l sample_udp4_def)
  then show "packet_ready sample_dhcp_packet (wire4 sample_udp4 sample4_packet)" "packet_ok sample_dhcp_packet"
    by (simp_all add: packet_ready_def packet_ok_def sample_dhcp_packet_def)
  show "\<forall>site. fe_alloc sample_format_env site" by (simp add: sample_format_env_def)
qed

lemma sample_queues:
  "qp_inv (Some sample_event_queue)" "qp_list (Some sample_event_queue) = [[1, 1]]"
  "qp_inv (Some sample_empty_queue)" "qp_list (Some sample_empty_queue) = []"
  "output_ok sample_format_env (Some sample_empty_queue)"
  by (simp_all add: qp_inv_def q_inv_def sample_event_queue_def sample_empty_queue_def qp_list_def q_list_def ring_dist_def slot_def
      output_ok_def policy_args_def qp_elem_def q_elem_def sample_format_env_def only_pops_def CF_QUEUE_POLICY_MAX_ELEMENT_SIZE_def)

theorem dhcpv4_frame_to_event_witness:
  "\<exists>(msg :: dhcpv4_event) (obs :: packet_obs) item st'. map (\<lambda>opt. (o4_code opt, o4_raw_value opt)) (e4_raw_options msg) = [(53, [1]), (121, [24, 192, 0]), (121, [2, 192, 0, 2, 1])] \<and>
     to_dst_port (po_transport obs) = 67 \<and> lo_vlan_ids (po_link obs) = [100] \<and>
     cf_format_packet sample_format_env sample_formatter_config sample_dhcp_packet None = Some (0, Some item, st') \<and>
     ei_stream_id item = CF_STREAM_DHCPV4"
proof -
  have l: "length sample4_packet < 2 ^ 16 - 8" by (simp add: sample_frame_ok(3))
  have e: "length (fe_pack sample_format_env ev) \<le> CLOUDFLOW_EVENT_MAX_SIZE" for ev by (simp add: sample_format_env_def)
  have o: "map (\<lambda>(n, c, v). (ucast c, v)) sample_options = [(53 :: u32, [1]), (121, [24, 192, 0]), (121, [2, 192, 0, 2, 1])]"
    "map (\<lambda>t. ucast (snd t AND 0x0FFF)) (w_tags sample_udp4) = [100 :: u32]" "ucast (w_dp sample_udp4) = (67 :: u32)"
    by (simp_all add: sample_options_def sample_udp4_def)
  from dhcpv4_frame_to_event [OF sample_frame_ok(1,2) sample_wire(1-3) l [unfolded sample4_packet_def]
        sample_frame_ok(4) [unfolded sample4_packet_def] sample_frame_ok(6), of sample_formatter_config None]
  obtain ev and msg :: dhcpv4_event and obs :: packet_obs where w: "map (\<lambda>opt. (o4_code opt, o4_raw_value opt)) (e4_raw_options msg) = map (\<lambda>(n, c, v). (ucast c, v)) sample_options"
    "to_dst_port (po_transport obs) = ucast (w_dp sample_udp4)"
    "lo_vlan_ids (po_link obs) = map (\<lambda>t. ucast (snd t AND 0x0FFF)) (w_tags sample_udp4)"
    "length (fe_pack sample_format_env ev) \<le> CLOUDFLOW_EVENT_MAX_SIZE \<longrightarrow>
      (\<exists>item st'. cf_format_packet sample_format_env sample_formatter_config sample_dhcp_packet None = Some (0, Some item, st') \<and>
         ei_payload item = fe_pack sample_format_env ev \<and> ei_stream_id item = CF_STREAM_DHCPV4 \<and> ei_protocol item = CF_PROTO_DHCPV4)"
    by blast
  from w(4) e obtain item st' where
    "cf_format_packet sample_format_env sample_formatter_config sample_dhcp_packet None = Some (0, Some item, st')"
    "ei_stream_id item = CF_STREAM_DHCPV4" by blast
  with w(1-3) show ?thesis unfolding o by (intro exI conjI)
qed

lemma sample_formats:
  obtains item where "packet_event sample_format_env sample_formatter_config sample_dhcp_packet = Some item"
proof -
  have l: "236 \<le> length sample4_packet" "length sample4_packet < 2 ^ 16 - 8" by (simp_all add: sample_frame_ok(3))
  have m: "frame_message (wire4 sample_udp4 sample4_packet) = Some (CF_PROTO_DHCPV4, sample4_packet)"
    by (rule wire4_message [OF sample_frame_ok(1,2) l])
  obtain d stream_id message et n where
    eq: "cf_format_packet sample_format_env sample_formatter_config sample_dhcp_packet None =
      Some (case observe sample_format_env sample_formatter_config sample_dhcp_packet (wire4 sample_udp4 sample4_packet) d
          CF_PROTO_DHCPV4 stream_id message et of
        None \<Rightarrow> (- 1, None, None) | Some ev \<Rightarrow> pack_event sample_format_env sample_dhcp_packet ev CF_PROTO_DHCPV4 stream_id et n None)"
    by (rule format_packet_message [OF sample_frame_ok(4) m, where env = sample_format_env and cfg = sample_formatter_config]) blast
  obtain ev where "observe sample_format_env sample_formatter_config sample_dhcp_packet (wire4 sample_udp4 sample4_packet) d
      CF_PROTO_DHCPV4 stream_id message et = Some ev" using observe_allocated [OF sample_frame_ok(6)] by fastforce
  then show thesis
    using that by (simp add: packet_event_def eq pack_event_def fit_dhcp_event_def Let_def) (simp add: sample_format_env_def)
qed

theorem format_packet_total_witness:
  "\<exists>rc item st'. cf_format_packet sample_format_env sample_formatter_config sample_dhcp_packet (Some sample_source_stats) =
     Some (rc, item, Some st') \<and> rc \<noteq> - 1 \<and> packets_counted st' = 1"
  using format_packet_total [OF sample_frame_ok(4), of sample_format_env sample_formatter_config sample_source_stats] sample_frame_ok(6)
  by (auto simp: packets_counted_def sample_source_stats_def)


theorem stop_strands_events_witness:
  "\<exists>w' q h. cf_redis_producer_thread_main (sample_producer_env\<lparr>pe_stop_notified := \<lambda>t. True\<rparr>) sample_producer_config
      (sample_producer\<lparr>pw_in := Some sample_empty_queue\<rparr>) = Some w' \<and> pw_stats w' = sample_redis_stats \<and>
    formatter_stop sample_format_env (\<lambda>e. sample_dhcp_packet) [] (Some sample_event_queue)
      \<lparr>ft_started = True, ft_cfg = sample_formatter_config,
       ft_state = \<lparr>fm_stats = Some sample_source_stats, fm_out = Some sample_empty_queue, fm_tick = 0\<rparr>\<rparr> = Some (q, h) \<and>
    qp_list (fm_out (ft_state h)) = [[1, 1]]"
proof -
  obtain item where "packet_event sample_format_env sample_formatter_config sample_dhcp_packet = Some item" by (rule sample_formats)
  then show ?thesis
    using stop_strands_events [of "sample_producer_env\<lparr>pe_stop_notified := \<lambda>t. True\<rparr>" "sample_producer\<lparr>pw_in := Some sample_empty_queue\<rparr>"
        "\<lparr>ft_started = True, ft_cfg = sample_formatter_config,
       ft_state = \<lparr>fm_stats = Some sample_source_stats, fm_out = Some sample_empty_queue, fm_tick = 0\<rparr>\<rparr>" sample_source_stats
        "Some sample_event_queue" "[1, 1]" "\<lambda>e. sample_dhcp_packet" sample_format_env item sample_producer_config]
      sample_queues sample_frame_ok(5)
    by (auto simp: sample_producer_env_def sample_format_env_def sample_producer_def)
qed

end
