(* ===== verification/Redis_Cluster.thy ===== *)
theory Redis_Cluster
  imports Redis_Text Redis_Slot Sink_World
begin

text \<open>
  The routing layer over Redis endpoints, \<^verbatim>\<open>libs/cloudflow-redis/cf_redis_cluster.c\<close>: a table of nodes
  with their connections, the map from hash slots to nodes, the detection of the topology, the
  reload of the map, and commands that follow redirects.

  The client library is the environment: the outcome of a connection attempt, the reply to a command
  and the error flag of a connection are functions of the position in the run (\<open>cw_tick\<close>). The history
  \<open>cw_log\<close> records what was sent to whom. A use or a release of a connection that is not open is \<open>None\<close>,
  and so is the access to an array element that is NULL where the code does not test it.
\<close>

section \<open>The client library\<close>

datatype cluster_event =
    Dialled string int "conn option"
  | Sent conn command "redisReply option"
  | Hung_Up conn

record cluster_world =
  cw_tick :: nat
  cw_log :: "cluster_event list"
  cw_open :: "conn list"
  cw_next :: conn

record cluster_env =
  ce_connect :: "nat \<Rightarrow> string \<Rightarrow> int \<Rightarrow> connect_result"
  ce_command :: "nat \<Rightarrow> conn \<Rightarrow> command \<Rightarrow> redisReply option"
  ce_err :: "nat \<Rightarrow> conn \<Rightarrow> bool"

definition c_ask :: "(nat \<Rightarrow> 'a) \<Rightarrow> cluster_world \<Rightarrow> 'a \<times> cluster_world" where
  "c_ask f w = (f (cw_tick w), w\<lparr>cw_tick := Suc (cw_tick w)\<rparr>)"

definition c_note :: "cluster_event \<Rightarrow> cluster_world \<Rightarrow> cluster_world" where
  "c_note e w = w\<lparr>cw_log := cw_log w @ [e]\<rparr>"

definition c_free :: "conn \<Rightarrow> cluster_world \<Rightarrow> cluster_world option" where
  "c_free k w =
    (if k \<in> set (cw_open w) then Some (c_note (Hung_Up k) (w\<lparr>cw_open := removeAll k (cw_open w)\<rparr>)) else None)"

definition c_command :: "cluster_env \<Rightarrow> conn \<Rightarrow> command \<Rightarrow> cluster_world \<Rightarrow> (redisReply option \<times> cluster_world) option" where
  "c_command env k cmd w =
    (if k \<in> set (cw_open w)
     then case c_ask (\<lambda>t. ce_command env t k cmd) w of (r, w) \<Rightarrow> Some (r, c_note (Sent k cmd r) w)
     else None)"

text \<open>The field \<open>err\<close> of a context.\<close>

definition c_err :: "cluster_env \<Rightarrow> conn \<Rightarrow> cluster_world \<Rightarrow> (bool \<times> cluster_world) option" where
  "c_err env k w = (if k \<in> set (cw_open w) then Some (c_ask (\<lambda>t. ce_err env t k) w) else None)"

definition c_open :: "cluster_world \<Rightarrow> conn \<times> cluster_world" where
  "c_open w = (cw_next w, w\<lparr>cw_open := cw_next w # cw_open w, cw_next := Suc (cw_next w)\<rparr>)"

section \<open>Data\<close>

abbreviation (input) CF_CLUSTER_MAX_NODES :: nat where "CF_CLUSTER_MAX_NODES \<equiv> 256"
abbreviation (input) CF_CLUSTER_MAX_REDIRECTS :: nat where "CF_CLUSTER_MAX_REDIRECTS \<equiv> 5"
abbreviation (input) CF_CLUSTER_HOST_MAX :: nat where "CF_CLUSTER_HOST_MAX \<equiv> 256"
abbreviation (input) NUM_SLOTS :: nat where "NUM_SLOTS \<equiv> 16384"

record cf_cluster_node =
  cn_host :: string
  cn_port :: int
  cn_ctx :: "conn option"

text \<open>\<open>cl_nodes\<close> are the first \<open>node_count\<close> entries of the array; the code overwrites an entry when it
  counts it in again.\<close>

record cf_redis_cluster =
  cl_seeds :: "string list"
  cl_seed_idx :: nat
  cl_timeout_sec :: int
  cl_connected :: bool
  cl_is_cluster :: bool
  cl_nodes :: "cf_cluster_node list"
  cl_slot_node :: "nat \<Rightarrow> int"

section \<open>The node pool\<close>

definition connect_hostport :: "cluster_env \<Rightarrow> string \<Rightarrow> int \<Rightarrow> cluster_world \<Rightarrow> (conn option \<times> cluster_world) option" where
  "connect_hostport env host port w =
    (case c_ask (\<lambda>t. ce_connect env t host port) w of (r, w) \<Rightarrow>
       (case r of
          Connect_Null \<Rightarrow> Some (None, c_note (Dialled host port None) w)
        | Connect_Err \<Rightarrow> (case c_open w of (k, w) \<Rightarrow> do {
            w \<leftarrow> c_free k (c_note (Dialled host port (Some k)) w);
            Some (None, w) })
        | Connect_Ok \<Rightarrow> (case c_open w of (k, w) \<Rightarrow> Some (Some k, c_note (Dialled host port (Some k)) w))))"

text \<open>The index of the first node with that host and port.\<close>

fun node_find :: "cf_cluster_node list \<Rightarrow> nat \<Rightarrow> string \<Rightarrow> int \<Rightarrow> int" where
  "node_find [] i host port = - 1"
| "node_find (n # ns) i host port =
    (if cn_port n = port \<and> cn_host n = host then int i else node_find ns (Suc i) host port)"

definition node_find_or_add :: "string \<Rightarrow> int \<Rightarrow> cf_redis_cluster \<Rightarrow> int \<times> cf_redis_cluster" where
  "node_find_or_add host port c =
    (let i = node_find (cl_nodes c) 0 host port
     in if i \<ge> 0 then (i, c)
        else if length (cl_nodes c) \<ge> CF_CLUSTER_MAX_NODES then (- 1, c)
        else if length host \<ge> CF_CLUSTER_HOST_MAX then (- 1, c)
        else (int (length (cl_nodes c)),
              c\<lparr>cl_nodes := cl_nodes c @ [\<lparr>cn_host = host, cn_port = port, cn_ctx = None\<rparr>]\<rparr>))"

definition set_ctx :: "nat \<Rightarrow> conn option \<Rightarrow> cf_redis_cluster \<Rightarrow> cf_redis_cluster" where
  "set_ctx i ctx c = c\<lparr>cl_nodes := (cl_nodes c)[i := (cl_nodes c ! i)\<lparr>cn_ctx := ctx\<rparr>]\<rparr>"

text \<open>A new connection for a node.\<close>

definition node_dial ::
  "cluster_env \<Rightarrow> nat \<Rightarrow> cf_redis_cluster \<Rightarrow> cluster_world \<Rightarrow> (conn option \<times> cf_redis_cluster \<times> cluster_world) option" where
  "node_dial env i c w = do {
     (ctx, w) \<leftarrow> connect_hostport env (cn_host (cl_nodes c ! i)) (cn_port (cl_nodes c ! i)) w;
     Some (ctx, set_ctx i ctx c, w) }"

definition node_connect ::
  "cluster_env \<Rightarrow> int \<Rightarrow> cf_redis_cluster \<Rightarrow> cluster_world \<Rightarrow> (conn option \<times> cf_redis_cluster \<times> cluster_world) option" where
  "node_connect env idx c w =
    (if idx < 0 \<or> idx \<ge> int (length (cl_nodes c)) then Some (None, c, w)
     else let i = nat idx
          in case cn_ctx (cl_nodes c ! i) of
               None \<Rightarrow> node_dial env i c w
             | Some k \<Rightarrow> do {
                 (err, w) \<leftarrow> c_err env k w;
                 if \<not> err then Some (Some k, c, w)
                 else do { w \<leftarrow> c_free k w; node_dial env i (set_ctx i None c) w } })"

fun free_ctxs :: "cf_cluster_node list \<Rightarrow> cluster_world \<Rightarrow> (cf_cluster_node list \<times> cluster_world) option" where
  "free_ctxs [] w = Some ([], w)"
| "free_ctxs (n # ns) w = do {
     w \<leftarrow> (case cn_ctx n of None \<Rightarrow> Some w | Some k \<Rightarrow> c_free k w);
     (ns, w) \<leftarrow> free_ctxs ns w;
     Some (n\<lparr>cn_ctx := None\<rparr> # ns, w) }"

definition free_all_ctx :: "cf_redis_cluster \<Rightarrow> cluster_world \<Rightarrow> (cf_redis_cluster \<times> cluster_world) option" where
  "free_all_ctx c w = do {
     (ns, w) \<leftarrow> free_ctxs (cl_nodes c) w;
     Some (c\<lparr>cl_nodes := ns\<rparr>, w) }"

section \<open>Topology\<close>

definition clear_slot_map :: "cf_redis_cluster \<Rightarrow> cf_redis_cluster" where
  "clear_slot_map c = c\<lparr>cl_slot_node := \<lambda>_. - 1\<rparr>"

text \<open>One element of the reply to \<open>CLUSTER SLOTS\<close>: its first and last slot and the address of its
  master, when it is one the code uses. The first two elements are read without a test for NULL.\<close>

definition slot_range :: "redisReply option \<Rightarrow> (nat \<times> nat \<times> string \<times> int) option option" where
  "slot_range r =
    (case r of
       Some (Reply_Array (e0 # e1 # master # _)) \<Rightarrow> do {
         e0 \<leftarrow> e0;
         (case e0 of
            Reply_Integer start \<Rightarrow> do {
              e1 \<leftarrow> e1;
              Some (case (e1, master) of
                (Reply_Integer end, Some (Reply_Array (Some (Reply_String ip) # Some (Reply_Integer port) # _))) \<Rightarrow>
                  if start < 0 \<or> end \<ge> int NUM_SLOTS \<or> start > end then None
                  else Some (nat start, nat end, cstr ip, c_int port)
              | _ \<Rightarrow> None) }
          | _ \<Rightarrow> Some None) }
     | _ \<Rightarrow> Some None)"

text \<open>\<open>for (s = start; s <= end; s++) slot_node[s] = idx;\<close> with the 16-bit conversion of the index.\<close>

definition assign_slots :: "nat \<Rightarrow> nat \<Rightarrow> int \<Rightarrow> cf_redis_cluster \<Rightarrow> cf_redis_cluster" where
  "assign_slots start end idx c =
    c\<lparr>cl_slot_node := fold (\<lambda>s f. f(s := sint (of_int idx :: 16 word))) [start..<Suc end] (cl_slot_node c)\<rparr>"

fun load_ranges :: "redisReply option list \<Rightarrow> cf_redis_cluster \<Rightarrow> cf_redis_cluster option" where
  "load_ranges [] c = Some c"
| "load_ranges (e # ranges) c = do {
     r \<leftarrow> slot_range e;
     (case r of
        None \<Rightarrow> load_ranges ranges c
      | Some (start, end, host, port) \<Rightarrow>
          (case node_find_or_add host port c of (idx, c) \<Rightarrow>
             if idx < 0 then load_ranges ranges c
             else load_ranges ranges (assign_slots start end idx c))) }"

definition parse_cluster_slots :: "redisReply option \<Rightarrow> cf_redis_cluster \<Rightarrow> (int \<times> cf_redis_cluster) option" where
  "parse_cluster_slots reply c =
    (case reply of
       Some (Reply_Array elements) \<Rightarrow> do {
         c \<leftarrow> load_ranges elements (clear_slot_map (c\<lparr>cl_nodes := []\<rparr>));
         Some (0, c) }
     | _ \<Rightarrow> Some (- 1, c))"

abbreviation CLUSTER_SLOTS :: command where "CLUSTER_SLOTS \<equiv> [''CLUSTER'', ''SLOTS'']"

text \<open>A non-empty array.\<close>

definition slots_reply :: "redisReply option \<Rightarrow> bool" where
  "slots_reply r = (case r of Some (Reply_Array (_ # _)) \<Rightarrow> True | _ \<Rightarrow> False)"

definition bootstrap_from ::
  "cluster_env \<Rightarrow> conn \<Rightarrow> string \<Rightarrow> int \<Rightarrow> cf_redis_cluster \<Rightarrow> cluster_world \<Rightarrow> (int \<times> cf_redis_cluster \<times> cluster_world) option" where
  "bootstrap_from env ctx host port c w = do {
     (reply, w) \<leftarrow> c_command env ctx CLUSTER_SLOTS w;
     if reply = None then do { w \<leftarrow> c_free ctx w; Some (- 1, c, w) }
     else if slots_reply reply then do {
       (rc, c) \<leftarrow> parse_cluster_slots reply c;
       w \<leftarrow> c_free ctx w;
       Some (0, c\<lparr>cl_is_cluster := True, cl_connected := True\<rparr>, w) }
     else (case node_find_or_add host port (clear_slot_map (c\<lparr>cl_nodes := []\<rparr>)) of (idx, c) \<Rightarrow>
       if idx \<noteq> 0 then do { w \<leftarrow> c_free ctx w; Some (- 1, c, w) }
       else Some (0, (set_ctx 0 (Some ctx) c)\<lparr>cl_is_cluster := False, cl_connected := True\<rparr>, w)) }"

section \<open>The interface\<close>

text \<open>\<open>alloc\<close> is whether the allocations succeed; a NULL endpoint is \<open>None\<close>.\<close>

definition cf_redis_cluster_new :: "bool \<Rightarrow> string option list \<Rightarrow> int \<Rightarrow> cf_redis_cluster option" where
  "cf_redis_cluster_new alloc endpoints timeout_sec =
    (if endpoints = [] then None
     else if \<not> alloc then None
     else if None \<in> set endpoints then None
     else Some (clear_slot_map \<lparr>cl_seeds = map (\<lambda>e. cstr (the e)) endpoints, cl_seed_idx = 0,
       cl_timeout_sec = (if timeout_sec > 0 then timeout_sec else 3), cl_connected = False, cl_is_cluster = False,
       cl_nodes = [], cl_slot_node = (\<lambda>_. 0)\<rparr>))"

definition cf_redis_cluster_free :: "cf_redis_cluster option \<Rightarrow> cluster_world \<Rightarrow> cluster_world option" where
  "cf_redis_cluster_free c w = (case c of None \<Rightarrow> Some w | Some c \<Rightarrow> map_option snd (free_all_ctx c w))"

text \<open>The attempts from \<open>attempt\<close> on, \<open>n\<close> of them.\<close>

fun connect_seeds ::
  "cluster_env \<Rightarrow> nat \<Rightarrow> nat \<Rightarrow> cf_redis_cluster \<Rightarrow> cluster_world \<Rightarrow> (int \<times> cf_redis_cluster \<times> cluster_world) option" where
  "connect_seeds env 0 attempt c w = Some (- 1, c, w)"
| "connect_seeds env (Suc n) attempt c w =
    (let i = (cl_seed_idx c + attempt) mod length (cl_seeds c)
     in case parse_endpoint (Some (cl_seeds c ! i)) CF_CLUSTER_HOST_MAX of
          None \<Rightarrow> connect_seeds env n (Suc attempt) c w
        | Some (host, port) \<Rightarrow> do {
            (ctx, w) \<leftarrow> connect_hostport env host port w;
            (case ctx of
               None \<Rightarrow> connect_seeds env n (Suc attempt) c w
             | Some k \<Rightarrow> do {
                 (rc, c, w) \<leftarrow> bootstrap_from env k host port c w;
                 if rc = 0 then Some (0, c\<lparr>cl_seed_idx := i\<rparr>, w)
                 else connect_seeds env n (Suc attempt) c w }) })"

definition cluster_connect ::
  "cluster_env \<Rightarrow> cf_redis_cluster \<Rightarrow> cluster_world \<Rightarrow> (int \<times> cf_redis_cluster \<times> cluster_world) option" where
  "cluster_connect env c w = do {
     (c, w) \<leftarrow> free_all_ctx c w;
     connect_seeds env (length (cl_seeds c)) 0 (c\<lparr>cl_connected := False\<rparr>) w }"

text \<open>\<open>False\<close> when no node answered with the map.\<close>

fun refresh_nodes ::
  "cluster_env \<Rightarrow> nat \<Rightarrow> nat \<Rightarrow> cf_redis_cluster \<Rightarrow> cluster_world \<Rightarrow> (bool \<times> cf_redis_cluster \<times> cluster_world) option" where
  "refresh_nodes env 0 i c w = Some (False, c, w)"
| "refresh_nodes env (Suc n) i c w = do {
     (ctx, c, w) \<leftarrow> node_connect env (int i) c w;
     (case ctx of
        None \<Rightarrow> refresh_nodes env n (Suc i) c w
      | Some k \<Rightarrow> do {
          (reply, w) \<leftarrow> c_command env k CLUSTER_SLOTS w;
          if slots_reply reply then do {
            (c, w) \<leftarrow> free_all_ctx c w;
            (rc, c) \<leftarrow> parse_cluster_slots reply c;
            Some (True, c, w) }
          else refresh_nodes env n (Suc i) c w }) }"

definition cluster_refresh ::
  "cluster_env \<Rightarrow> cf_redis_cluster \<Rightarrow> cluster_world \<Rightarrow> (int \<times> cf_redis_cluster \<times> cluster_world) option" where
  "cluster_refresh env c w =
    (if \<not> cl_is_cluster c then Some (if cl_connected c then 0 else - 1, c, w)
     else do {
       (found, c, w) \<leftarrow> refresh_nodes env (length (cl_nodes c)) 0 c w;
       if found then Some (0, c, w) else cluster_connect env c w })"

definition cluster_conn ::
  "cluster_env \<Rightarrow> bytes \<Rightarrow> cf_redis_cluster \<Rightarrow> cluster_world \<Rightarrow> (conn option \<times> cf_redis_cluster \<times> cluster_world) option" where
  "cluster_conn env key c w =
    (if \<not> cl_connected c then Some (None, c, w)
     else if \<not> cl_is_cluster c then do {
       (ctx, c, w) \<leftarrow> node_connect env 0 c w;
       if ctx \<noteq> None then Some (ctx, c, w)
       else do {
         (rc, c, w) \<leftarrow> cluster_connect env c w;
         if rc = 0 then node_connect env 0 c w else Some (None, c, w) } }
     else let sl = unat (cf_redis_key_slot key); idx = cl_slot_node c sl
          in if idx < 0 then do {
               (rc, c, w) \<leftarrow> cluster_refresh env c w;
               if rc \<noteq> 0 then Some (None, c, w)
               else let idx = cl_slot_node c sl
                    in if idx < 0 then Some (None, c, w) else node_connect env idx c w }
             else node_connect env idx c w)"

text \<open>One redirect: the node is found or added, connected, and asked again; the result is the new
  reply, NULL when there is none.\<close>

definition redirect_hop ::
  "cluster_env \<Rightarrow> command \<Rightarrow> redirect_kind \<Rightarrow> int \<Rightarrow> string \<Rightarrow> int \<Rightarrow> cf_redis_cluster \<Rightarrow> cluster_world \<Rightarrow>
   (redisReply option \<times> cf_redis_cluster \<times> cluster_world) option" where
  "redirect_hop env argv kind sl host port c w =
    (case node_find_or_add host port c of (idx, c) \<Rightarrow>
       if idx < 0 then Some (None, c, w)
       else let c = (if kind = REDIRECT_MOVED \<and> 0 \<le> sl \<and> sl < int NUM_SLOTS
                     then assign_slots (nat sl) (nat sl) idx c else c)
            in do {
              (ctx, c, w) \<leftarrow> node_connect env idx c w;
              (case ctx of
                 None \<Rightarrow> Some (None, c, w)
               | Some k \<Rightarrow> do {
                   w \<leftarrow> (if kind = REDIRECT_ASK
                         then do { (ask, w) \<leftarrow> c_command env k [''ASKING''] w; Some w } else Some w);
                   (reply, w) \<leftarrow> c_command env k argv w;
                   Some (reply, c, w) }) })"

text \<open>The redirects that may still be followed, and the last reply.\<close>

fun follow_redirects ::
  "cluster_env \<Rightarrow> command \<Rightarrow> nat \<Rightarrow> redisReply \<Rightarrow> cf_redis_cluster \<Rightarrow> cluster_world \<Rightarrow>
   (redisReply option \<times> cf_redis_cluster \<times> cluster_world) option" where
  "follow_redirects env argv 0 reply c w = Some (Some reply, c, w)"
| "follow_redirects env argv (Suc hops) reply c w =
    (case reply of
       Reply_Error str \<Rightarrow>
         (case cf_redis_parse_redirect (Some str) CF_CLUSTER_HOST_MAX of
            None \<Rightarrow> Some (Some reply, c, w)
          | Some (kind, sl, host, port) \<Rightarrow> do {
              (reply, c, w) \<leftarrow> redirect_hop env argv kind sl host port c w;
              (case reply of
                 None \<Rightarrow> Some (None, c, w)
               | Some reply \<Rightarrow> follow_redirects env argv hops reply c w) })
     | _ \<Rightarrow> Some (Some reply, c, w))"

definition cluster_command ::
  "cluster_env \<Rightarrow> bytes \<Rightarrow> command \<Rightarrow> cf_redis_cluster \<Rightarrow> cluster_world \<Rightarrow>
   (redisReply option \<times> cf_redis_cluster \<times> cluster_world) option" where
  "cluster_command env key argv c w =
    (if \<not> cl_connected c then Some (None, c, w)
     else do {
       (ctx, c, w) \<leftarrow> cluster_conn env key c w;
       (case ctx of
          None \<Rightarrow> Some (None, c, w)
        | Some k \<Rightarrow> do {
            (reply, w) \<leftarrow> c_command env k argv w;
            (case reply of
               None \<Rightarrow> Some (None, c, w)
             | Some reply \<Rightarrow> follow_redirects env argv CF_CLUSTER_MAX_REDIRECTS reply c w) }) })"

text \<open>The functions of the header on a handle that may be NULL.\<close>

definition on_handle ::
  "'a \<Rightarrow> (cf_redis_cluster \<Rightarrow> cluster_world \<Rightarrow> ('a \<times> cf_redis_cluster \<times> cluster_world) option) \<Rightarrow>
   cf_redis_cluster option \<Rightarrow> cluster_world \<Rightarrow> ('a \<times> cf_redis_cluster option \<times> cluster_world) option" where
  "on_handle null f c w =
    (case c of
       None \<Rightarrow> Some (null, None, w)
     | Some c \<Rightarrow> do { (r, c, w) \<leftarrow> f c w; Some (r, Some c, w) })"

definition cf_redis_cluster_connect where
  "cf_redis_cluster_connect env = on_handle (- 1) (cluster_connect env)"

definition cf_redis_cluster_refresh where
  "cf_redis_cluster_refresh env = on_handle (- 1) (cluster_refresh env)"

definition cf_redis_cluster_conn where
  "cf_redis_cluster_conn env key = on_handle None (cluster_conn env key)"

definition cf_redis_cluster_command_argv where
  "cf_redis_cluster_command_argv env key argv = on_handle None (cluster_command env key argv)"

definition cf_redis_cluster_is_cluster :: "cf_redis_cluster option \<Rightarrow> bool" where
  "cf_redis_cluster_is_cluster c = (case c of None \<Rightarrow> False | Some c \<Rightarrow> cl_is_cluster c)"

definition cf_redis_cluster_reset where
  "cf_redis_cluster_reset = on_handle () (\<lambda>c w. do { (c, w) \<leftarrow> free_all_ctx c w; Some ((), c, w) })"

end
