(* ===== verification/Redis_Cluster_Safe.thy ===== *)
theory Redis_Cluster_Safe
  imports Redis_Cluster Total "HOL-Library.Multiset"
begin

text \<open>
  The routing layer keeps its tables sound and owns its connections: each open connection belongs to
  exactly one node of the table. Over any sequence of calls nothing is leaked, used after its release
  or released twice.
\<close>

section \<open>Invariants\<close>

fun ctx_list :: "conn option \<Rightarrow> conn list" where
  "ctx_list None = []"
| "ctx_list (Some k) = [k]"

definition ctxs :: "cf_redis_cluster \<Rightarrow> conn list" where
  "ctxs c = concat (map (\<lambda>n. ctx_list (cn_ctx n)) (cl_nodes c))"

text \<open>The open connections are those of the table and \<open>ex\<close>, which the code holds at the moment.\<close>

definition owns :: "cf_redis_cluster \<Rightarrow> conn list \<Rightarrow> cluster_world \<Rightarrow> bool" where
  "owns c ex w \<longleftrightarrow> mset (ctxs c) + mset ex = mset (cw_open w) \<and> distinct (cw_open w) \<and>
     (\<forall>k \<in> set (cw_open w). k < cw_next w)"

definition address :: "cf_cluster_node \<Rightarrow> string \<times> int" where
  "address n = (cn_host n, cn_port n)"

text \<open>At most 256 nodes, their addresses distinct and their names within the buffer; every slot is unknown
  or has a node of the table.\<close>

definition table_ok :: "cf_redis_cluster \<Rightarrow> bool" where
  "table_ok c \<longleftrightarrow> length (cl_nodes c) \<le> CF_CLUSTER_MAX_NODES \<and> distinct (map address (cl_nodes c)) \<and>
     list_all (\<lambda>n. length (cn_host n) < CF_CLUSTER_HOST_MAX) (cl_nodes c) \<and>
     (\<forall>s. - 1 \<le> cl_slot_node c s \<and> cl_slot_node c s < int (length (cl_nodes c)))"

text \<open>What the client library promises of its replies: the first two elements of a range are there.\<close>

definition solid_range :: "redisReply option \<Rightarrow> bool" where
  "solid_range e = (case e of Some (Reply_Array (e0 # e1 # _)) \<Rightarrow> e0 \<noteq> None \<and> e1 \<noteq> None | _ \<Rightarrow> True)"

definition solid_replies :: "cluster_env \<Rightarrow> bool" where
  "solid_replies env \<longleftrightarrow> (\<forall>t k cmd els. ce_command env t k cmd = Some (Reply_Array els) \<longrightarrow> list_all solid_range els)"

section \<open>The world\<close>

lemma owns_open: "owns c ex w \<Longrightarrow> k \<in> set (ctxs c) \<or> k \<in> set ex \<Longrightarrow> k \<in> set (cw_open w)"
  by (metis owns_def set_mset_mset set_mset_union Un_iff)

lemma owns_cong:
  "owns c ex w \<Longrightarrow> mset (ctxs c') + mset ex' = mset (ctxs c) + mset ex \<Longrightarrow> cw_open w' = cw_open w \<Longrightarrow>
   cw_next w' = cw_next w \<Longrightarrow> owns c' ex' w'"
  by (simp add: owns_def)

lemma c_free_ends:
  assumes "owns c (k # ex) w"
  shows "ends (c_free k w) (\<lambda>w'. owns c ex w')"
proof -
  have o: "mset (ctxs c) + mset ex + {#k#} = mset (cw_open w)" "distinct (cw_open w)" "\<forall>j \<in> set (cw_open w). j < cw_next w"
    using assms by (auto simp: owns_def)
  then have "k \<in># mset (cw_open w)" by (simp flip: o(1))
  then have k: "k \<in> set (cw_open w)" by simp
  have "mset (removeAll k (cw_open w)) = mset (cw_open w) - {#k#}"
    using o(2) by (metis distinct_remove1_removeAll mset_remove1)
  moreover have "mset (ctxs c) + mset ex = mset (cw_open w) - {#k#}" by (simp flip: o(1))
  ultimately show ?thesis using o(2,3) k by (simp add: c_free_def c_note_def owns_def distinct_removeAll)
qed

lemma c_command_ends:
  assumes "owns c ex w" "k \<in> set (ctxs c) \<or> k \<in> set ex"
  shows "ends (c_command env k cmd w) (\<lambda>(r, w'). owns c ex w' \<and> (\<exists>t. r = ce_command env t k cmd))"
  using owns_open [OF assms] assms(1) by (auto simp: c_command_def c_ask_def c_note_def owns_def)

lemma c_err_ends:
  assumes "owns c ex w" "k \<in> set (ctxs c) \<or> k \<in> set ex"
  shows "ends (c_err env k w) (\<lambda>(r, w'). owns c ex w')"
  using owns_open [OF assms] assms(1) by (auto simp: c_err_def c_ask_def owns_def)

lemma c_open_owns:
  assumes "owns c ex w" "c_open w = (k, w')"
  shows "owns c (k # ex) w'"
  using assms by (auto simp: c_open_def owns_def less_SucI)

lemma connect_hostport_ends:
  assumes "owns c ex w"
  shows "ends (connect_hostport env host port w) (\<lambda>(ctx, w'). owns c (case ctx of None \<Rightarrow> ex | Some k \<Rightarrow> k # ex) w')"
proof -
  obtain r v where v: "c_ask (\<lambda>t. ce_connect env t host port) w = (r, v)" by fastforce
  then have o: "owns c ex v" using assms by (auto simp: c_ask_def owns_def)
  obtain k u where u: "c_open v = (k, u)" by fastforce
  let ?u = "c_note (Dialled host port (Some k)) u"
  have ou: "owns c (k # ex) ?u" using c_open_owns [OF o u] by (simp add: c_note_def owns_def)
  show ?thesis
  proof (cases r)
    case Connect_Null
    then show ?thesis using v o by (simp add: connect_hostport_def c_note_def owns_def)
  next
    case Connect_Err
    then show ?thesis using v u c_free_ends [OF ou] by (auto simp: connect_hostport_def elim!: ends_mono)
  next
    case Connect_Ok
    then show ?thesis using v u ou by (simp add: connect_hostport_def)
  qed
qed

section \<open>Nodes\<close>

lemma ctxs_split:
  assumes "i < length (cl_nodes c)"
  shows "mset (ctxs (set_ctx i ctx c)) + mset (ctx_list (cn_ctx (cl_nodes c ! i))) = mset (ctxs c) + mset (ctx_list ctx)"
proof -
  have a: "cl_nodes c = take i (cl_nodes c) @ cl_nodes c ! i # drop (Suc i) (cl_nodes c)" by (rule id_take_nth_drop [OF assms])
  have b: "ctxs (set_ctx i ctx c) = concat (map (\<lambda>n. ctx_list (cn_ctx n)) (take i (cl_nodes c))) @ ctx_list ctx @
      concat (map (\<lambda>n. ctx_list (cn_ctx n)) (drop (Suc i) (cl_nodes c)))"
    using assms by (simp add: ctxs_def set_ctx_def upd_conv_take_nth_drop)
  have "ctxs c = concat (map (\<lambda>n. ctx_list (cn_ctx n)) (take i (cl_nodes c))) @ ctx_list (cn_ctx (cl_nodes c ! i)) @
      concat (map (\<lambda>n. ctx_list (cn_ctx n)) (drop (Suc i) (cl_nodes c)))"
    unfolding ctxs_def by (rule trans [OF arg_cong [OF a, of "\<lambda>ns. concat (map (\<lambda>n. ctx_list (cn_ctx n)) ns)"]]) simp
  then show ?thesis unfolding b by (simp add: ac_simps)
qed

lemma nth_ctxs: "i < length (cl_nodes c) \<Longrightarrow> cn_ctx (cl_nodes c ! i) = Some k \<Longrightarrow> k \<in> set (ctxs c)"
  by (force simp: ctxs_def in_set_conv_nth intro: bexI [of _ "cl_nodes c ! i"])

text \<open>A table with the same addresses, slots and settings.\<close>

definition same_map :: "cf_redis_cluster \<Rightarrow> cf_redis_cluster \<Rightarrow> bool" where
  "same_map c c' \<longleftrightarrow> map address (cl_nodes c') = map address (cl_nodes c) \<and> cl_slot_node c' = cl_slot_node c \<and>
     cl_seeds c' = cl_seeds c \<and> cl_seed_idx c' = cl_seed_idx c \<and> cl_connected c' = cl_connected c \<and> cl_is_cluster c' = cl_is_cluster c"

lemma same_map_refl [simp]: "same_map c c" by (simp add: same_map_def)

lemma same_map_trans: "same_map a b \<Longrightarrow> same_map b c \<Longrightarrow> same_map a c" by (simp add: same_map_def)

lemma same_map_length: "same_map c c' \<Longrightarrow> length (cl_nodes c') = length (cl_nodes c)"
  by (metis same_map_def length_map)

lemma same_map_table:
  assumes "same_map c c'" "table_ok c"
  shows "table_ok c'"
proof -
  have a: "map address (cl_nodes c') = map address (cl_nodes c)" using assms(1) by (simp add: same_map_def)
  have "\<forall>n \<in> set (cl_nodes c'). length (cn_host n) < CF_CLUSTER_HOST_MAX"
    using arg_cong [OF a, of "list_all (\<lambda>a. length (fst a) < CF_CLUSTER_HOST_MAX)"] assms(2)
    by (simp add: table_ok_def list_all_iff address_def)
  then show ?thesis using assms a same_map_length [OF assms(1)]
    by (simp add: table_ok_def same_map_def list_all_iff)
qed

lemma same_map_set_ctx:
  assumes "i < length (cl_nodes c)"
  shows "same_map c (set_ctx i ctx c)"
proof -
  have "address ((cl_nodes c ! i)\<lparr>cn_ctx := ctx\<rparr>) = map address (cl_nodes c) ! i" using assms by (simp add: address_def)
  then show ?thesis by (simp add: same_map_def set_ctx_def map_update)
qed

lemma node_dial_ends:
  assumes "i < length (cl_nodes c)" "cn_ctx (cl_nodes c ! i) = None" "owns c ex w"
  shows "ends (node_dial env i c w) (\<lambda>(ctx, c', w'). same_map c c' \<and> owns c' ex w' \<and> (\<forall>k. ctx = Some k \<longrightarrow> k \<in> set (ctxs c')))"
proof -
  have o: "owns (set_ctx i ctx c) ex w'" if "owns c (case ctx of None \<Rightarrow> ex | Some k \<Rightarrow> k # ex) w'" for ctx w'
    using that by (rule owns_cong) (use ctxs_split [OF assms(1), of ctx] assms(2) in \<open>simp_all split: option.splits\<close>)
  have k: "k \<in> set (ctxs (set_ctx i (Some k) c))" for k
    using assms(1) by (intro nth_ctxs [of i]) (simp_all add: set_ctx_def)
  show ?thesis
    unfolding node_dial_def
    using connect_hostport_ends [OF assms(3), of env "cn_host (cl_nodes c ! i)" "cn_port (cl_nodes c ! i)"]
    by (auto elim!: ends_mono simp: o k same_map_set_ctx [OF assms(1)])
qed

lemma node_connect_ends:
  assumes "owns c ex w"
  shows "ends (node_connect env idx c w) (\<lambda>(ctx, c', w'). same_map c c' \<and> owns c' ex w' \<and> (\<forall>k. ctx = Some k \<longrightarrow> k \<in> set (ctxs c')))"
proof (cases "idx < 0 \<or> idx \<ge> int (length (cl_nodes c))")
  case True
  then show ?thesis using assms by (simp add: node_connect_def)
next
  case False
  let ?i = "nat idx"
  have i: "?i < length (cl_nodes c)" using False by linarith
  show ?thesis
  proof (cases "cn_ctx (cl_nodes c ! ?i)")
    case None
    then show ?thesis using False node_dial_ends [OF i None assms, of env] by (simp add: node_connect_def)
  next
    case (Some k)
    have k: "k \<in> set (ctxs c)" by (rule nth_ctxs [OF i Some])
    let ?c = "set_ctx ?i None c"
    have i': "?i < length (cl_nodes ?c)" "cn_ctx (cl_nodes ?c ! ?i) = None" using i by (simp_all add: set_ctx_def)
    let ?Q = "\<lambda>(ctx, c', w'). same_map c c' \<and> owns c' ex w' \<and> (\<forall>k. ctx = Some k \<longrightarrow> k \<in> set (ctxs c'))"
    have dial: "ends (c_free k v) (\<lambda>u. ends (node_dial env ?i ?c u) ?Q)" if "owns c ex v" for v
    proof -
      have "owns ?c (k # ex) v"
        using that by (rule owns_cong) (use ctxs_split [OF i, of None] Some in simp_all)
      from c_free_ends [OF this] show ?thesis
      proof (rule ends_mono)
        fix u assume "owns ?c ex u"
        from node_dial_ends [OF i' this, of env] show "ends (node_dial env ?i ?c u) ?Q"
          by (rule ends_mono) (use same_map_trans [OF same_map_set_ctx [OF i]] in auto)
      qed
    qed
    have "ends (c_err env k w) (\<lambda>(r, w'). owns c ex w')" using c_err_ends assms k by blast
    then show ?thesis using False Some k dial by (auto simp: node_connect_def Let_def elim!: ends_mono)
  qed
qed

lemma address_ctx [simp]: "address (n\<lparr>cn_ctx := ctx\<rparr>) = address n"
  by (simp add: address_def)

lemma free_ctxs_ends:
  assumes "mset (concat (map (\<lambda>n. ctx_list (cn_ctx n)) ns)) + mset ex = mset (cw_open w)"
    "distinct (cw_open w)" "\<forall>k \<in> set (cw_open w). k < cw_next w"
  shows "ends (free_ctxs ns w) (\<lambda>(ns', w'). map address ns' = map address ns \<and> (\<forall>n \<in> set ns'. cn_ctx n = None) \<and>
    mset ex = mset (cw_open w') \<and> distinct (cw_open w') \<and> (\<forall>k \<in> set (cw_open w'). k < cw_next w'))"
  using assms
proof (induction ns arbitrary: w)
  case (Cons n ns)
  let ?c = "\<lparr>cl_seeds = [], cl_seed_idx = 0, cl_timeout_sec = 0, cl_connected = False, cl_is_cluster = False,
    cl_nodes = ns, cl_slot_node = \<lambda>_. 0\<rparr>"
  have step: "ends (case cn_ctx n of None \<Rightarrow> Some w | Some k \<Rightarrow> c_free k w) (owns ?c ex)"
  proof (cases "cn_ctx n")
    case None
    then show ?thesis using Cons.prems by (simp add: owns_def ctxs_def)
  next
    case (Some k)
    then have "owns ?c (k # ex) w" using Cons.prems by (simp add: owns_def ctxs_def)
    then show ?thesis using c_free_ends Some by auto
  qed
  have rest: "ends (free_ctxs ns v) (\<lambda>(ns', w'). map address (n\<lparr>cn_ctx := None\<rparr> # ns') = map address (n # ns) \<and>
      (\<forall>m \<in> set (n\<lparr>cn_ctx := None\<rparr> # ns'). cn_ctx m = None) \<and>
      mset ex = mset (cw_open w') \<and> distinct (cw_open w') \<and> (\<forall>k \<in> set (cw_open w'). k < cw_next w'))" if "owns ?c ex v" for v
    using Cons.IH [of v] that by (auto simp: owns_def ctxs_def elim!: ends_mono)
  show ?case
    unfolding free_ctxs.simps ends_simps by (rule ends_mono [OF step], drule rest, erule ends_mono) auto
qed simp

text \<open>A table whose connections are all released.\<close>

definition released :: "cf_redis_cluster \<Rightarrow> bool" where
  "released c \<longleftrightarrow> ctxs c = []"

lemma free_all_ctx_ends:
  assumes "owns c ex w"
  shows "ends (free_all_ctx c w) (\<lambda>(c', w'). same_map c c' \<and> released c' \<and> owns c' ex w')"
proof -
  have "ends (free_ctxs (cl_nodes c) w) (\<lambda>(ns', w'). map address ns' = map address (cl_nodes c) \<and> (\<forall>n \<in> set ns'. cn_ctx n = None) \<and>
      mset ex = mset (cw_open w') \<and> distinct (cw_open w') \<and> (\<forall>k \<in> set (cw_open w'). k < cw_next w'))"
    using assms by (intro free_ctxs_ends) (auto simp: owns_def ctxs_def)
  then show ?thesis
    unfolding free_all_ctx_def by (auto simp: same_map_def released_def owns_def ctxs_def elim!: ends_mono)
qed

section \<open>The table\<close>

lemma node_find_range: "- 1 \<le> node_find ns i host port \<and> node_find ns i host port < int (i + length ns)"
proof (induction ns arbitrary: i)
  case (Cons n ns)
  then show ?case using Cons.IH [of "Suc i"] by auto
qed simp

lemma node_find_ge: "node_find ns i host port = - 1 \<or> int i \<le> node_find ns i host port"
proof (induction ns arbitrary: i)
  case (Cons n ns)
  then show ?case using Cons.IH [of "Suc i"] by auto
qed simp

lemma node_find_hit:
  "node_find ns i host port = int i + int j \<Longrightarrow> j < length ns \<and> address (ns ! j) = (host, port)"
proof (induction ns arbitrary: i j)
  case (Cons n ns)
  show ?case
  proof (cases "cn_port n = port \<and> cn_host n = host")
    case True
    then show ?thesis using Cons.prems by (simp add: address_def)
  next
    case False
    then obtain m where m: "j = Suc m" using node_find_ge [of ns "Suc i" host port] Cons.prems by (cases j) auto
    then show ?thesis using False Cons.IH [of "Suc i" m] Cons.prems by auto
  qed
qed simp

lemma node_find_miss: "node_find ns i host port < 0 \<Longrightarrow> (host, port) \<notin> set (map address ns)"
  by (induction ns arbitrary: i) (auto simp: address_def split: if_splits)

text \<open>The settings of the handle.\<close>

definition same_settings :: "cf_redis_cluster \<Rightarrow> cf_redis_cluster \<Rightarrow> bool" where
  "same_settings c c' \<longleftrightarrow> cl_seeds c' = cl_seeds c \<and> cl_seed_idx c' = cl_seed_idx c \<and> cl_connected c' = cl_connected c \<and>
     cl_is_cluster c' = cl_is_cluster c"

lemma same_map_settings: "same_map c c' \<Longrightarrow> same_settings c c'"
  by (simp add: same_map_def same_settings_def)

lemma find_or_add_ok:
  assumes "node_find_or_add host port c = (idx, c')" "table_ok c"
  shows "table_ok c'" "ctxs c' = ctxs c" "- 1 \<le> idx" "idx < int (length (cl_nodes c'))" "same_settings c c'"
    "0 \<le> idx \<Longrightarrow> address (cl_nodes c' ! nat idx) = (host, port)" "cl_slot_node c' = cl_slot_node c"
    "\<exists>ns. cl_nodes c' = cl_nodes c @ ns"
proof -
  let ?i = "node_find (cl_nodes c) 0 host port"
  have r: "- 1 \<le> ?i" "?i < int (length (cl_nodes c))" using node_find_range [of "cl_nodes c" 0 host port] by simp_all
  note ok = assms(2) [unfolded table_ok_def]
  have up: "cl_slot_node c s < 1 + int (length (cl_nodes c))" for s
  proof -
    from ok have "cl_slot_node c s < int (length (cl_nodes c))" by blast
    then show ?thesis by linarith
  qed
  have "table_ok c' \<and> ctxs c' = ctxs c \<and> - 1 \<le> idx \<and> idx < int (length (cl_nodes c')) \<and> same_settings c c' \<and>
      (0 \<le> idx \<longrightarrow> address (cl_nodes c' ! nat idx) = (host, port)) \<and> cl_slot_node c' = cl_slot_node c \<and> (\<exists>ns. cl_nodes c' = cl_nodes c @ ns)"
  proof (cases "?i \<ge> 0")
    case True
    then show ?thesis using assms r node_find_hit [of "cl_nodes c" 0 host port "nat ?i"]
      by (auto simp: node_find_or_add_def same_settings_def)
  next
    case False
    have "(host, port) \<notin> set (map address (cl_nodes c))" by (rule node_find_miss [of _ 0]) (use False in auto)
    then show ?thesis
      using assms(1) ok False up
      by (auto simp: node_find_or_add_def table_ok_def ctxs_def same_settings_def address_def list_all_iff image_iff
          split: if_splits)
  qed
  then show "table_ok c'" "ctxs c' = ctxs c" "- 1 \<le> idx" "idx < int (length (cl_nodes c'))" "same_settings c c'"
    "0 \<le> idx \<Longrightarrow> address (cl_nodes c' ! nat idx) = (host, port)" "cl_slot_node c' = cl_slot_node c"
    "\<exists>ns. cl_nodes c' = cl_nodes c @ ns" by auto
qed

lemma fold_slot_upd: "fold (\<lambda>s f. f(s := v)) xs f x = (if x \<in> set xs then v else f x)"
  by (induction xs arbitrary: f) auto

lemma assign_slots_lookup:
  assumes "0 \<le> idx" "idx < 2 ^ 15"
  shows "cl_slot_node (assign_slots a b idx c) s = (if a \<le> s \<and> s \<le> b then idx else cl_slot_node c s)"
proof -
  have "sint (of_int idx :: 16 word) = idx" using assms by (simp add: sint_sbintrunc' signed_take_bit_int_eq_self)
  then show ?thesis by (auto simp: assign_slots_def fold_slot_upd)
qed

lemma assign_slots_ok:
  assumes "table_ok c" "0 \<le> idx" "idx < int (length (cl_nodes c))"
  shows "table_ok (assign_slots a b idx c)" "ctxs (assign_slots a b idx c) = ctxs c" "same_settings c (assign_slots a b idx c)"
    "cl_nodes (assign_slots a b idx c) = cl_nodes c"
proof -
  have small: "idx < 2 ^ 15" using assms by (simp add: table_ok_def)
  show n: "cl_nodes (assign_slots a b idx c) = cl_nodes c" by (simp add: assign_slots_def)
  show "ctxs (assign_slots a b idx c) = ctxs c" by (simp add: ctxs_def n)
  show "same_settings c (assign_slots a b idx c)" by (simp add: same_settings_def assign_slots_def)
  show "table_ok (assign_slots a b idx c)"
    using assms by (auto simp: table_ok_def n assign_slots_lookup [OF assms(2) small])
qed

lemma slot_range_returns: "solid_range e \<Longrightarrow> \<exists>r. slot_range e = Some r"
  by (auto simp: solid_range_def slot_range_def split: option.splits redisReply.splits list.splits)

lemma load_ranges_ends:
  "list_all solid_range rs \<Longrightarrow> table_ok c \<Longrightarrow>
   ends (load_ranges rs c) (\<lambda>c'. table_ok c' \<and> ctxs c' = ctxs c \<and> same_settings c c')"
proof (induction rs arbitrary: c)
  case Nil
  then show ?case by (simp add: same_settings_def)
next
  case (Cons e rs)
  have keep: "ends (load_ranges rs d) (\<lambda>c'. table_ok c' \<and> ctxs c' = ctxs c \<and> same_settings c c')"
    if "table_ok d" "ctxs d = ctxs c" "same_settings c d" for d
    using Cons.IH [of d] Cons.prems(1) that by (auto simp: same_settings_def elim!: ends_mono)
  from Cons.prems(1) slot_range_returns obtain r where r: "slot_range e = Some r" by auto
  show ?case
  proof (cases r)
    case None
    then show ?thesis using r keep Cons.prems(2) by (simp add: same_settings_def)
  next
    case (Some x)
    obtain a b host port where x: "x = (a, b, host, port)" by (cases x)
    obtain idx d where d: "node_find_or_add host port c = (idx, d)" by fastforce
    note f = find_or_add_ok [OF d Cons.prems(2)]
    show ?thesis
    proof (cases "idx < 0")
      case True
      then show ?thesis using r Some x d keep f by simp
    next
      case False
      then have i: "0 \<le> idx" by simp
      note g = assign_slots_ok [OF f(1) i f(4), of a b]
      have "same_settings c (assign_slots a b idx d)" using f(5) g(3) by (simp add: same_settings_def)
      then show ?thesis using r Some x d keep f g False by simp
    qed
  qed
qed

lemma cleared_ok: "table_ok (clear_slot_map (c\<lparr>cl_nodes := []\<rparr>))" "ctxs (clear_slot_map (c\<lparr>cl_nodes := []\<rparr>)) = []"
  "same_settings c (clear_slot_map (c\<lparr>cl_nodes := []\<rparr>))"
  by (simp_all add: table_ok_def clear_slot_map_def ctxs_def same_settings_def)

lemma parse_slots_ends:
  assumes "list_all solid_range els"
  shows "ends (parse_cluster_slots (Some (Reply_Array els)) c)
    (\<lambda>(rc, c'). rc = 0 \<and> table_ok c' \<and> released c' \<and> same_settings c c')"
  unfolding parse_cluster_slots_def
  using load_ranges_ends [OF assms cleared_ok(1), of c] cleared_ok(2,3) [of c]
  by (auto simp: released_def same_settings_def elim!: ends_mono)

section \<open>The operations\<close>

text \<open>The invariant between calls.\<close>

definition cluster_inv :: "cf_redis_cluster \<Rightarrow> cluster_world \<Rightarrow> bool" where
  "cluster_inv c w \<longleftrightarrow> table_ok c \<and> owns c [] w"

lemma settings_fields [simp]:
  "table_ok (c\<lparr>cl_seed_idx := i\<rparr>) = table_ok c" "table_ok (c\<lparr>cl_connected := b\<rparr>) = table_ok c"
  "table_ok (c\<lparr>cl_is_cluster := b'\<rparr>) = table_ok c" "ctxs (c\<lparr>cl_seed_idx := i\<rparr>) = ctxs c"
  "ctxs (c\<lparr>cl_connected := b\<rparr>) = ctxs c" "ctxs (c\<lparr>cl_is_cluster := b'\<rparr>) = ctxs c"
  by (simp_all add: table_ok_def ctxs_def)

lemma settings_owns [simp]:
  "owns (c\<lparr>cl_seed_idx := i\<rparr>) ex w = owns c ex w" "owns (c\<lparr>cl_connected := b\<rparr>) ex w = owns c ex w"
  "owns (c\<lparr>cl_is_cluster := b'\<rparr>) ex w = owns c ex w" "released (c\<lparr>cl_connected := b\<rparr>) = released c"
  by (simp_all add: owns_def released_def)

lemma slots_reply_solid:
  assumes "solid_replies env" "slots_reply (ce_command env t k cmd)"
  obtains els where "ce_command env t k cmd = Some (Reply_Array els)" "list_all solid_range els"
  using assms by (auto simp: solid_replies_def slots_reply_def split: option.splits redisReply.splits list.splits)

lemma owns_released: "owns c ex w \<Longrightarrow> released c \<Longrightarrow> released c' \<Longrightarrow> owns c' ex w"
  by (simp add: owns_def released_def)

lemma bootstrap_ends:
  assumes env: "solid_replies env" and c: "table_ok c" "released c" "owns c [k] w"
  shows "ends (bootstrap_from env k host port c w)
    (\<lambda>(rc, c', w'). cluster_inv c' w' \<and> (rc \<noteq> 0 \<longrightarrow> released c') \<and> (cl_connected c \<longrightarrow> cl_connected c') \<and> (rc = 0 \<longrightarrow> cl_connected c'))"
    (is "ends _ ?Q")
proof -
  have free: "ends (c_free k v) (\<lambda>u. owns d [] u)" if "owns c [k] v" "released d" for d v
    using owns_released [OF that(1) c(2) that(2)] by (rule c_free_ends)
  have after: "ends (if r = None then do { w \<leftarrow> c_free k v; Some (- 1, c, w) }
     else if slots_reply r then do {
       (rc, c) \<leftarrow> parse_cluster_slots r c;
       w \<leftarrow> c_free k v;
       Some (0, c\<lparr>cl_is_cluster := True, cl_connected := True\<rparr>, w) }
     else (case node_find_or_add host port (clear_slot_map (c\<lparr>cl_nodes := []\<rparr>)) of (idx, c) \<Rightarrow>
       if idx \<noteq> 0 then do { w \<leftarrow> c_free k v; Some (- 1, c, w) }
       else Some (0, (set_ctx 0 (Some k) c)\<lparr>cl_is_cluster := False, cl_connected := True\<rparr>, v))) ?Q"
    if v: "owns c [k] v" and r: "r = ce_command env t k CLUSTER_SLOTS" for r v t
  proof (cases "r = None \<or> slots_reply r")
    case True
    show ?thesis
    proof (cases "r = None")
      case True
      then show ?thesis using free [OF v c(2)] c by (auto simp: cluster_inv_def elim!: ends_mono)
    next
      case False
      with True have sr: "slots_reply r" by simp
      from slots_reply_solid [OF env sr [unfolded r]] obtain els where els: "r = Some (Reply_Array els)" "list_all solid_range els"
        unfolding r by blast
      show ?thesis
        using sr parse_slots_ends [OF els(2), of c] free [OF v]
        by (auto simp: els(1) cluster_inv_def elim!: ends_mono)
    qed
  next
    case False
    then obtain y where y: "r = Some y" "\<not> slots_reply (Some y)" by auto
    let ?z = "clear_slot_map (c\<lparr>cl_nodes := []\<rparr>)"
    obtain idx d where d: "node_find_or_add host port ?z = (idx, d)" by fastforce
    note f = find_or_add_ok [OF d cleared_ok(1)]
    have rel: "released d" using f(2) cleared_ok(2) by (simp add: released_def)
    show ?thesis
    proof (cases "idx = 0")
      case True
      then have i: "0 < length (cl_nodes d)" using f(4) by simp
      have none: "cn_ctx (cl_nodes d ! 0) = None"
        using rel i by (cases "cl_nodes d"; cases "cn_ctx (cl_nodes d ! 0)") (auto simp: released_def ctxs_def)
      have "owns (set_ctx 0 (Some k) d) [] v"
        using owns_released [OF v c(2) rel] by (rule owns_cong) (use ctxs_split [OF i, of "Some k"] none in simp_all)
      moreover have "table_ok (set_ctx 0 (Some k) d)" using same_map_table [OF same_map_set_ctx [OF i] f(1)] .
      ultimately show ?thesis using y True d by (simp add: cluster_inv_def)
    next
      case False
      then show ?thesis using y d free [OF v rel] f(1,5) rel cleared_ok(3) [of c]
        by (auto simp: cluster_inv_def same_settings_def elim!: ends_mono)
    qed
  qed
  have "ends (c_command env k CLUSTER_SLOTS w) (\<lambda>(r, w'). owns c [k] w' \<and> (\<exists>t. r = ce_command env t k CLUSTER_SLOTS))"
    by (rule c_command_ends [OF c(3)]) simp
  then show ?thesis unfolding bootstrap_from_def ends_simps by (rule ends_mono) (use after in auto)
qed

lemma connect_seeds_ends:
  assumes "solid_replies env" "table_ok c" "released c" "owns c [] w"
  shows "ends (connect_seeds env n attempt c w) (\<lambda>(rc, c', w'). cluster_inv c' w' \<and> (rc = 0 \<longrightarrow> cl_connected c'))"
  using assms(2-4)
proof (induction n arbitrary: attempt c w)
  case 0
  then show ?case by (simp add: cluster_inv_def)
next
  case (Suc n)
  let ?i = "(cl_seed_idx c + attempt) mod length (cl_seeds c)"
  show ?case
  proof (cases "parse_endpoint (Some (cl_seeds c ! ?i)) CF_CLUSTER_HOST_MAX")
    case None
    then show ?thesis using Suc by (simp add: Let_def)
  next
    case (Some hp)
    obtain host port where hp: "hp = (host, port)" by (cases hp)
    have boot: "ends (bootstrap_from env k host port c v) (\<lambda>x. ends (case x of (rc, c, w) \<Rightarrow>
        if rc = 0 then Some (0, c\<lparr>cl_seed_idx := ?i\<rparr>, w) else connect_seeds env n (Suc attempt) c w)
        (\<lambda>(rc, c', w'). cluster_inv c' w' \<and> (rc = 0 \<longrightarrow> cl_connected c')))" if "owns c [k] v" for k v
      by (rule ends_mono [OF bootstrap_ends [OF assms(1) Suc.prems(1,2) that]])
        (auto simp: cluster_inv_def intro!: Suc.IH [unfolded cluster_inv_def conj_assoc])
    show ?thesis
      by (simp add: Let_def Some hp, rule ends_mono [OF connect_hostport_ends [OF Suc.prems(3)]])
        (use boot Suc.IH [OF Suc.prems(1,2)] in \<open>auto split: option.splits\<close>)
  qed
qed

lemma cluster_connect_ends:
  assumes "solid_replies env" "cluster_inv c w"
  shows "ends (cluster_connect env c w) (\<lambda>(rc, c', w'). cluster_inv c' w' \<and> (rc = 0 \<longrightarrow> cl_connected c'))"
proof -
  have c: "table_ok c" "owns c [] w" using assms(2) by (auto simp: cluster_inv_def)
  show ?thesis
    unfolding cluster_connect_def ends_simps
    by (rule ends_mono [OF free_all_ctx_ends [OF c(2)]])
      (use connect_seeds_ends [OF assms(1)] same_map_table [OF _ c(1)] in \<open>auto simp: split_def\<close>)
qed

lemma refresh_nodes_ends:
  assumes "solid_replies env" "cluster_inv c w"
  shows "ends (refresh_nodes env n i c w) (\<lambda>(found, c', w'). cluster_inv c' w' \<and> same_settings c c')"
  using assms(2)
proof (induction n arbitrary: i c w)
  case 0
  then show ?case by (simp add: same_settings_def)
next
  case (Suc n)
  let ?Q = "\<lambda>(found, c', w'). cluster_inv c' w' \<and> same_settings c c'"
  have c: "table_ok c" "owns c [] w" using Suc.prems by (auto simp: cluster_inv_def)
  have rec: "ends (refresh_nodes env n (Suc i) d v) ?Q" if "same_map c d" "owns d [] v" for d v
    by (rule ends_mono [OF Suc.IH])
      (use that same_map_table [OF that(1) c(1)] same_map_settings [OF that(1)] in \<open>auto simp: cluster_inv_def same_settings_def\<close>)
  have load: "ends (free_all_ctx d v) (\<lambda>x. ends (case x of (c, w) \<Rightarrow> do { (rc, c) \<leftarrow> parse_cluster_slots r c; Some (True, c, w) }) ?Q)"
    if d: "same_map c d" "owns d [] v" and r: "r = ce_command env t k CLUSTER_SLOTS" "slots_reply r" for d v r t k
  proof -
    from slots_reply_solid [OF assms(1) r(2) [unfolded r(1)]] obtain els where els: "r = Some (Reply_Array els)" "list_all solid_range els"
      unfolding r(1) by blast
    show ?thesis
    proof (rule ends_mono [OF free_all_ctx_ends [OF d(2)]])
      fix x assume "case x of (c', w') \<Rightarrow> same_map d c' \<and> released c' \<and> owns c' [] w'"
      then obtain d' u where x: "x = (d', u)" "same_map d d'" "released d'" "owns d' [] u" by auto
      have "same_settings c d'" using same_map_settings [OF same_map_trans [OF d(1) x(2)]] .
      then show "ends (case x of (c, w) \<Rightarrow> do { (rc, c) \<leftarrow> parse_cluster_slots r c; Some (True, c, w) }) ?Q"
        using parse_slots_ends [OF els(2), of d'] owns_released [OF x(4,3)]
        by (auto simp: x(1) els(1) cluster_inv_def same_settings_def elim!: ends_mono)
    qed
  qed
  have node: "ends (c_command env k CLUSTER_SLOTS v) (\<lambda>x. ends (case x of (reply, w) \<Rightarrow>
      if slots_reply reply then do { (c, w) \<leftarrow> free_all_ctx d w; (rc, c) \<leftarrow> parse_cluster_slots reply c; Some (True, c, w) }
      else refresh_nodes env n (Suc i) d w) ?Q)" if d: "same_map c d" "owns d [] v" "k \<in> set (ctxs d)" for d v k
  proof -
    have "ends (c_command env k CLUSTER_SLOTS v) (\<lambda>(r, w'). owns d [] w' \<and> (\<exists>t. r = ce_command env t k CLUSTER_SLOTS))"
      by (rule c_command_ends [OF d(2)]) (simp add: d(3))
    then show ?thesis by (rule ends_mono) (use load [OF d(1)] rec [OF d(1)] in auto)
  qed
  show ?case
    unfolding refresh_nodes.simps ends_simps
    by (rule ends_mono [OF node_connect_ends [OF c(2), of env "int i"]])
      (use rec node in \<open>auto split: option.splits\<close>)
qed

lemma cluster_refresh_ends:
  assumes "solid_replies env" "cluster_inv c w"
  shows "ends (cluster_refresh env c w) (\<lambda>(rc, c', w'). cluster_inv c' w')"
proof -
  have conn: "ends (cluster_connect env d v) (\<lambda>(rc, c', w'). cluster_inv c' w')" if "cluster_inv d v" for d v
    by (rule ends_mono [OF cluster_connect_ends [OF assms(1) that]]) auto
  show ?thesis
  proof (cases "cl_is_cluster c")
    case True
    then show ?thesis
      by (simp add: cluster_refresh_def, intro ends_mono [OF refresh_nodes_ends [OF assms]]) (use conn in auto)
  qed (use assms(2) in \<open>simp add: cluster_refresh_def\<close>)
qed

text \<open>The connection a call hands out belongs to a node.\<close>

lemma cluster_conn_ends:
  assumes "solid_replies env" "cluster_inv c w"
  shows "ends (cluster_conn env key c w) (\<lambda>(ctx, c', w'). cluster_inv c' w' \<and> (\<forall>k. ctx = Some k \<longrightarrow> k \<in> set (ctxs c')))"
    (is "ends _ ?Q")
proof -
  have node: "ends (node_connect env idx d v) ?Q" if "cluster_inv d v" for idx d v
    by (rule ends_mono [OF node_connect_ends])
      (use that same_map_table in \<open>auto simp: cluster_inv_def\<close>)
  have conn: "ends (cluster_connect env d v) (\<lambda>x. ends (case x of (rc, c, w) \<Rightarrow>
      if rc = 0 then node_connect env 0 c w else Some (None, c, w)) ?Q)" if "cluster_inv d v" for d v
    by (rule ends_mono [OF cluster_connect_ends [OF assms(1) that]]) (use node in auto)
  have ref: "ends (cluster_refresh env c w) (\<lambda>x. ends (case x of (rc, c, w) \<Rightarrow>
      if rc \<noteq> 0 then Some (None, c, w)
      else let idx = cl_slot_node c sl in if idx < 0 then Some (None, c, w) else node_connect env idx c w) ?Q)" for sl
    by (rule ends_mono [OF cluster_refresh_ends [OF assms]]) (use node in \<open>auto simp: Let_def\<close>)
  have first: "ends (node_connect env 0 c w) (\<lambda>x. ends (case x of (ctx, c, w) \<Rightarrow>
      if ctx \<noteq> None then Some (ctx, c, w)
      else do { (rc, c, w) \<leftarrow> cluster_connect env c w;
        if rc = 0 then node_connect env 0 c w else Some (None, c, w) }) ?Q)"
    by (rule ends_mono [OF node [OF assms(2)]]) (use conn in auto)
  show ?thesis
    using assms(2) first ref node by (auto simp: cluster_conn_def Let_def)
qed

end
