(* ===== verification/Redis_Cluster_Thm.thy ===== *)
theory Redis_Cluster_Thm
  imports Redis_Cluster_Safe
begin

text \<open>
  What the routing layer promises: the slot map is the one the cluster announced, commands follow
  redirects a bounded number of times and learn from them, and no sequence of calls leaks or misuses
  a connection.
\<close>

section \<open>What was sent\<close>

text \<open>The replies to a command, in order.\<close>

definition replies_to :: "command \<Rightarrow> cluster_world \<Rightarrow> redisReply option list" where
  "replies_to a w = concat (map (\<lambda>e. case e of Sent k cmd r \<Rightarrow> if cmd = a then [r] else [] | _ \<Rightarrow> []) (cw_log w))"

text \<open>Everything but a command leaves them alone. The rules below compute, for a program that returns, a
  condition on its result from one on the replies: \<open>may m Q\<close> says that \<open>Q\<close> holds if \<open>m\<close> returns.\<close>

definition may :: "'a option \<Rightarrow> ('a \<Rightarrow> bool) \<Rightarrow> bool" where
  "may m Q \<longleftrightarrow> (\<forall>x. m = Some x \<longrightarrow> Q x)"

lemma may_simps [simp]:
  "may None Q" "may (Some x) Q \<longleftrightarrow> Q x" "may (Option.bind m f) Q \<longleftrightarrow> may m (\<lambda>x. may (f x) Q)"
  by (auto simp: may_def bind_eq_Some_conv)

lemma mayD: "may m Q \<Longrightarrow> m = Some x \<Longrightarrow> Q x"
  by (simp add: may_def)

lemma ends_may: "ends m P \<Longrightarrow> may m Q \<Longrightarrow> ends m (\<lambda>x. P x \<and> Q x)"
  by (auto simp: ends_def may_def)

named_theorems quiet

lemma free_quiet [quiet]: "(\<And>w'. replies_to a w' = replies_to a w \<Longrightarrow> Q w') \<Longrightarrow> may (c_free k w) Q"
  by (auto simp: may_def c_free_def c_note_def replies_to_def split: if_splits)

lemma err_quiet [quiet]: "(\<And>b w'. replies_to a w' = replies_to a w \<Longrightarrow> Q (b, w')) \<Longrightarrow> may (c_err env k w) Q"
  by (auto simp: may_def c_err_def c_ask_def replies_to_def split: if_splits)

lemma command_quiet [quiet]:
  "cmd \<noteq> a \<Longrightarrow> (\<And>r w'. replies_to a w' = replies_to a w \<Longrightarrow> Q (r, w')) \<Longrightarrow> may (c_command env k cmd w) Q"
  by (auto simp: may_def c_command_def c_ask_def c_note_def replies_to_def split: if_splits)

lemma command_replies:
  "c_command env k a w = Some (r, w') \<Longrightarrow> replies_to a w' = replies_to a w @ [r]"
  by (auto simp: c_command_def c_ask_def c_note_def replies_to_def split: if_splits)

lemma connect_quiet [quiet]:
  "(\<And>ctx w'. replies_to a w' = replies_to a w \<Longrightarrow> Q (ctx, w')) \<Longrightarrow> may (connect_hostport env host port w) Q"
  by (auto simp: connect_hostport_def c_ask_def c_open_def c_note_def replies_to_def c_free_def split: connect_result.splits)

lemma dial_quiet [quiet]:
  "(\<And>ctx c' w'. replies_to a w' = replies_to a w \<Longrightarrow> Q (ctx, c', w')) \<Longrightarrow> may (node_dial env i c w) Q"
  by (auto simp: node_dial_def intro!: quiet [where a = a])

lemma node_quiet [quiet]:
  "(\<And>ctx c' w'. replies_to a w' = replies_to a w \<Longrightarrow> Q (ctx, c', w')) \<Longrightarrow> may (node_connect env idx c w) Q"
  by (auto simp: node_connect_def Let_def intro!: quiet [where a = a] split: option.splits)

lemma free_ctxs_quiet [quiet]:
  "(\<And>ns' w'. replies_to a w' = replies_to a w \<Longrightarrow> Q (ns', w')) \<Longrightarrow> may (free_ctxs ns w) Q"
proof (induction ns arbitrary: w Q)
  case (Cons n ns)
  show ?case by (auto intro!: quiet [where a = a] Cons.IH Cons.prems split: option.splits)
qed simp

lemma free_all_quiet [quiet]:
  "(\<And>c' w'. replies_to a w' = replies_to a w \<Longrightarrow> Q (c', w')) \<Longrightarrow> may (free_all_ctx c w) Q"
  by (auto simp: free_all_ctx_def intro!: quiet [where a = a])

lemma may_weaken: "may m P \<Longrightarrow> (\<And>x. P x \<Longrightarrow> Q x) \<Longrightarrow> may m Q"
  by (auto simp: may_def)

lemma may_any: "(\<And>x. Q x) \<Longrightarrow> may m Q"
  by (simp add: may_def)

lemma bootstrap_quiet [quiet]:
  assumes "a \<noteq> CLUSTER_SLOTS" "\<And>rc c' w'. replies_to a w' = replies_to a w \<Longrightarrow> Q (rc, c', w')"
  shows "may (bootstrap_from env k host port c w) Q"
  using assms(1)
  by (auto simp: bootstrap_from_def intro!: quiet [where a = a] assms(2) may_any [of _ "parse_cluster_slots _ _"] split: prod.splits)

lemma seeds_quiet [quiet]:
  assumes "a \<noteq> CLUSTER_SLOTS"
  shows "(\<And>rc c' w'. replies_to a w' = replies_to a w \<Longrightarrow> Q (rc, c', w')) \<Longrightarrow> may (connect_seeds env n attempt c w) Q"
proof (induction n arbitrary: attempt c w)
  case (Suc n)
  show ?case
    by (auto simp: Let_def intro!: quiet [where a = a] assms Suc.IH Suc.prems split: option.splits)
qed simp

lemma cluster_connect_quiet [quiet]:
  "a \<noteq> CLUSTER_SLOTS \<Longrightarrow> (\<And>rc c' w'. replies_to a w' = replies_to a w \<Longrightarrow> Q (rc, c', w')) \<Longrightarrow> may (cluster_connect env c w) Q"
  by (auto simp: cluster_connect_def intro!: quiet [where a = a])

lemma refresh_nodes_quiet [quiet]:
  assumes "a \<noteq> CLUSTER_SLOTS"
  shows "(\<And>found c' w'. replies_to a w' = replies_to a w \<Longrightarrow> Q (found, c', w')) \<Longrightarrow> may (refresh_nodes env n i c w) Q"
proof (induction n arbitrary: i c w)
  case (Suc n)
  show ?case
    by (auto intro!: quiet [where a = a] assms [symmetric] Suc.IH Suc.prems may_any [of _ "parse_cluster_slots _ _"] split: option.splits)
qed simp

lemma refresh_quiet [quiet]:
  "a \<noteq> CLUSTER_SLOTS \<Longrightarrow> (\<And>rc c' w'. replies_to a w' = replies_to a w \<Longrightarrow> Q (rc, c', w')) \<Longrightarrow> may (cluster_refresh env c w) Q"
  by (auto simp: cluster_refresh_def intro!: quiet [where a = a])

lemma conn_quiet [quiet]:
  "a \<noteq> CLUSTER_SLOTS \<Longrightarrow> (\<And>ctx c' w'. replies_to a w' = replies_to a w \<Longrightarrow> Q (ctx, c', w')) \<Longrightarrow> may (cluster_conn env key c w) Q"
  by (auto simp: cluster_conn_def Let_def intro!: quiet [where a = a])

section \<open>Redirects\<close>

definition redirect_of :: "redisReply \<Rightarrow> (redirect_kind \<times> int \<times> string \<times> int) option" where
  "redirect_of r = (case r of Reply_Error str \<Rightarrow> cf_redis_parse_redirect (Some str) CF_CLUSTER_HOST_MAX | _ \<Rightarrow> None)"

text \<open>The replies \<open>rs\<close> to the repeated command, after the first reply \<open>r0\<close>, and the result \<open>r\<close>.\<close>

definition redirected :: "nat \<Rightarrow> redisReply \<Rightarrow> redisReply option list \<Rightarrow> redisReply option \<Rightarrow> bool" where
  "redirected hops r0 rs r \<longleftrightarrow> length rs \<le> hops \<and>
     (\<forall>q \<in> set (butlast (Some r0 # rs)). \<exists>y. q = Some y \<and> redirect_of y \<noteq> None) \<and>
     (\<forall>x. r = Some x \<longrightarrow> last (Some r0 # rs) = Some x \<and> (redirect_of x \<noteq> None \<longrightarrow> length rs = hops))"

text \<open>The node that owns a slot.\<close>

definition routes_to :: "cf_redis_cluster \<Rightarrow> nat \<Rightarrow> string \<times> int \<Rightarrow> bool" where
  "routes_to c s a \<longleftrightarrow> 0 \<le> cl_slot_node c s \<and> cl_slot_node c s < int (length (cl_nodes c)) \<and>
     address (cl_nodes c ! nat (cl_slot_node c s)) = a"

text \<open>A single redirect to a moved slot is remembered.\<close>

definition remembers :: "redisReply \<Rightarrow> redisReply option list \<Rightarrow> redisReply option \<Rightarrow> cf_redis_cluster \<Rightarrow> bool" where
  "remembers r0 rs r c \<longleftrightarrow> (\<forall>sl host port. redirect_of r0 = Some (REDIRECT_MOVED, int sl, host, port) \<longrightarrow> sl < NUM_SLOTS \<longrightarrow>
     length rs = 1 \<longrightarrow> r \<noteq> None \<longrightarrow> routes_to c sl (host, port))"

lemma same_map_routes: "same_map c d \<Longrightarrow> routes_to c s a \<Longrightarrow> routes_to d s a"
  using same_map_length [of c d] unfolding routes_to_def same_map_def by (metis nat_less_iff nth_map)

lemma follow_redirects_hop:
  "follow_redirects env argv (Suc hops) r0 c w =
    (case redirect_of r0 of
       None \<Rightarrow> Some (Some r0, c, w)
     | Some (kind, sl, host, port) \<Rightarrow> do {
         (reply, c, w) \<leftarrow> redirect_hop env argv kind sl host port c w;
         (case reply of None \<Rightarrow> Some (None, c, w) | Some r \<Rightarrow> follow_redirects env argv hops r c w) })"
  by (cases r0) (auto simp: redirect_of_def split: option.splits)

definition hopped ::
  "command \<Rightarrow> cluster_world \<Rightarrow> redirect_kind \<Rightarrow> int \<Rightarrow> string \<times> int \<Rightarrow> redisReply option \<times> cf_redis_cluster \<times> cluster_world \<Rightarrow> bool" where
  "hopped argv w kind sl a = (\<lambda>(r, c', w'). cluster_inv c' w' \<and>
    (\<exists>rs. replies_to argv w' = replies_to argv w @ rs \<and> (rs = [] \<and> r = None \<or> rs = [r])) \<and>
    (kind = REDIRECT_MOVED \<and> 0 \<le> sl \<and> sl < int NUM_SLOTS \<and> r \<noteq> None \<longrightarrow> routes_to c' (nat sl) a))"

lemma hop_ends:
  assumes inv: "cluster_inv c w" and a: "argv \<noteq> [''ASKING'']"
  shows "ends (redirect_hop env argv kind sl host port c w) (hopped argv w kind sl (host, port))"
    (is "ends _ ?Q")
proof -
  obtain idx d where d: "node_find_or_add host port c = (idx, d)" by fastforce
  have c: "table_ok c" "owns c [] w" using inv by (auto simp: cluster_inv_def)
  note f = find_or_add_ok [OF d c(1)]
  have od: "owns d [] w" using c(2) f(2) by (simp add: owns_def)
  show ?thesis
  proof (cases "idx < 0")
    case True
    then show ?thesis using d f(1) od by (simp add: redirect_hop_def hopped_def cluster_inv_def)
  next
    case False
    then have i: "0 \<le> idx" by simp
    let ?moved = "kind = REDIRECT_MOVED \<and> 0 \<le> sl \<and> sl < int NUM_SLOTS"
    define z where "z = (if ?moved then assign_slots (nat sl) (nat sl) idx d else d)"
    note g = assign_slots_ok [OF f(1) i f(4), of "nat sl" "nat sl"]
    have e: "table_ok z" "owns z [] w" using f(1) g(1,2) od by (auto simp: owns_def z_def)
    have small: "idx < 2 ^ 15" using f(1,4) by (simp add: table_ok_def)
    have route: "?moved \<Longrightarrow> routes_to z (nat sl) (host, port)"
      using i f(4,6) g(4) by (simp add: z_def routes_to_def assign_slots_lookup [OF i small])
    have ask: "ends (if kind = REDIRECT_ASK then do { (ask, w) \<leftarrow> c_command env k [''ASKING''] v; Some w } else Some v)
        (\<lambda>u. owns b [] u \<and> replies_to argv u = replies_to argv v)" if "owns b [] v" "k \<in> set (ctxs b)" for b k v
    proof -
      have "ends (c_command env k [''ASKING''] v) (\<lambda>x. (\<lambda>(r, w'). owns b [] w' \<and> (\<exists>t. r = ce_command env t k [''ASKING''])) x \<and>
          replies_to argv (snd x) = replies_to argv v)"
        using that a by (intro ends_may c_command_ends command_quiet [where a = argv]) auto
      then show ?thesis using that(1) by (auto elim!: ends_mono)
    qed
    have send: "ends (do {
          w \<leftarrow> (if kind = REDIRECT_ASK then do { (ask, w) \<leftarrow> c_command env k [''ASKING''] v; Some w } else Some v);
          (reply, w) \<leftarrow> c_command env k argv w;
          Some (reply, b, w) }) ?Q"
      if b: "same_map z b" "owns b [] v" "k \<in> set (ctxs b)" and v: "replies_to argv v = replies_to argv w" for b k v
    proof -
      have ok: "table_ok b" using same_map_table [OF b(1) e(1)] .
      have cmd: "ends (c_command env k argv u) (\<lambda>x. (\<lambda>(r, w'). owns b [] w' \<and> (\<exists>t. r = ce_command env t k argv)) x \<and>
          replies_to argv (snd x) = replies_to argv u @ [fst x])" if "owns b [] u" for u
        using that b(3) command_replies by (intro ends_may c_command_ends) (fastforce simp: may_def)+
      have "ends (c_command env k argv u) (\<lambda>x. ends (case x of (reply, w) \<Rightarrow> Some (reply, b, w)) ?Q)"
        if u: "owns b [] u" "replies_to argv u = replies_to argv v" for u
        by (rule ends_mono [OF cmd [OF u(1)]]) (use u(2) ok v same_map_routes [OF b(1) route] in \<open>auto simp: hopped_def cluster_inv_def\<close>)
      then show ?thesis unfolding ends_simps by (intro ends_mono [OF ask [OF b(2,3)]]) auto
    qed
    have node: "ends (node_connect env idx z w) (\<lambda>x. (\<lambda>(ctx, c', w'). same_map z c' \<and> owns c' [] w' \<and>
        (\<forall>k. ctx = Some k \<longrightarrow> k \<in> set (ctxs c'))) x \<and> replies_to argv (snd (snd x)) = replies_to argv w)"
      by (intro ends_may node_connect_ends [OF e(2)] node_quiet [where a = argv]) auto
    have eq: "redirect_hop env argv kind sl host port c w = do {
        (ctx, c, w) \<leftarrow> node_connect env idx z w;
        (case ctx of
           None \<Rightarrow> Some (None, c, w)
         | Some k \<Rightarrow> do {
             w \<leftarrow> (if kind = REDIRECT_ASK then do { (ask, w) \<leftarrow> c_command env k [''ASKING''] w; Some w } else Some w);
             (reply, w) \<leftarrow> c_command env k argv w;
             Some (reply, c, w) }) }"
      unfolding redirect_hop_def d using False by (simp add: Let_def z_def)
    show ?thesis
      unfolding eq ends_simps
    proof (rule ends_mono [OF node])
      fix x assume x: "(\<lambda>(ctx, c', w'). same_map z c' \<and> owns c' [] w' \<and> (\<forall>k. ctx = Some k \<longrightarrow> k \<in> set (ctxs c'))) x \<and>
        replies_to argv (snd (snd x)) = replies_to argv w"
      obtain ctx b v where xs: "x = (ctx, b, v)" by (cases x)
      from x have b: "same_map z b" "owns b [] v" "\<forall>k. ctx = Some k \<longrightarrow> k \<in> set (ctxs b)" "replies_to argv v = replies_to argv w"
        by (auto simp: xs)
      show "ends (case x of (ctx, c, w) \<Rightarrow> (case ctx of
           None \<Rightarrow> Some (None, c, w)
         | Some k \<Rightarrow> do {
             w \<leftarrow> (if kind = REDIRECT_ASK then do { (ask, w) \<leftarrow> c_command env k [''ASKING''] w; Some w } else Some w);
             (reply, w) \<leftarrow> c_command env k argv w;
             Some (reply, c, w) })) ?Q"
      proof (cases ctx)
        case None
        then show ?thesis using b same_map_table [OF b(1) e(1)] by (simp add: xs hopped_def cluster_inv_def)
      next
        case (Some k)
        then have "k \<in> set (ctxs b)" using b(3) by simp
        from send [OF b(1,2) this b(4)] show ?thesis unfolding xs Some prod.case option.case .
      qed
    qed
  qed
qed

lemma follow_redirects_ends:
  assumes "argv \<noteq> [''ASKING'']" "cluster_inv c w"
  shows "ends (follow_redirects env argv hops r0 c w) (\<lambda>(r, c', w'). cluster_inv c' w' \<and>
    (\<exists>rs. replies_to argv w' = replies_to argv w @ rs \<and> redirected hops r0 rs r \<and> remembers r0 rs r c'))"
  using assms(2)
proof (induction hops arbitrary: r0 c w)
  case 0
  then show ?case by (auto simp: redirected_def remembers_def intro!: exI [of _ "[]"])
next
  case (Suc hops)
  let ?Q = "\<lambda>(r, c', w'). cluster_inv c' w' \<and>
    (\<exists>rs. replies_to argv w' = replies_to argv w @ rs \<and> redirected (Suc hops) r0 rs r \<and> remembers r0 rs r c')"
  show ?case
  proof (cases "redirect_of r0")
    case None
    then show ?thesis using Suc.prems
      unfolding follow_redirects_hop by (auto simp: redirected_def remembers_def intro!: exI [of _ "[]"])
  next
    case (Some red)
    obtain kind sl host port where red: "red = (kind, sl, host, port)" by (cases red)
    have more: "ends (follow_redirects env argv hops r d v) ?Q"
      if d: "cluster_inv d v" "replies_to argv v = replies_to argv w @ [Some r]"
        "kind = REDIRECT_MOVED \<and> 0 \<le> sl \<and> sl < int NUM_SLOTS \<longrightarrow> routes_to d (nat sl) (host, port)" for r d v
    proof (cases "redirect_of r = None \<or> hops = 0")
      case True
      then have "follow_redirects env argv hops r d v = Some (Some r, d, v)"
        by (cases hops) (auto simp: follow_redirects_hop simp del: follow_redirects.simps(2))
      then show ?thesis using d True Some red
        by (auto simp: redirected_def remembers_def intro!: exI [of _ "[Some r]"])
    next
      case False
      show ?thesis
      proof (rule ends_mono [OF Suc.IH [OF d(1), of r]])
        fix x assume "case x of (q, c', w') \<Rightarrow> cluster_inv c' w' \<and>
          (\<exists>rs. replies_to argv w' = replies_to argv v @ rs \<and> redirected hops r rs q \<and> remembers r rs q c')"
        then obtain q c' w' rs where x: "x = (q, c', w')" "cluster_inv c' w'" "replies_to argv w' = replies_to argv v @ rs"
          "redirected hops r rs q" by auto
        have "rs \<noteq> [] \<or> q = None" using x(4) False by (cases q) (auto simp: redirected_def)
        then have "redirected (Suc hops) r0 (Some r # rs) q" "remembers r0 (Some r # rs) q c'"
          using x(4) Some red by (auto simp: redirected_def remembers_def split: if_splits)
        then show "?Q x" using x(1-3) d(2) by auto
      qed
    qed
    have stop: "redirected (Suc hops) r0 rs None" "remembers r0 rs None d" if "rs = [] \<or> rs = [None]" for rs d
      using that Some red by (auto simp: redirected_def remembers_def)
    show ?thesis
      unfolding follow_redirects_hop Some red option.case prod.case ends_simps
    proof (rule ends_mono [OF hop_ends [OF Suc.prems assms(1)]])
      fix x assume x: "hopped argv w kind sl (host, port) x"
      obtain r d v where xs: "x = (r, d, v)" by (cases x)
      show "ends (case x of (reply, c, w) \<Rightarrow>
          (case reply of None \<Rightarrow> Some (None, c, w) | Some r \<Rightarrow> follow_redirects env argv hops r c w)) ?Q"
      proof (cases r)
        case None
        then show ?thesis using x stop by (auto simp: xs hopped_def)
      next
        case (Some r1)
        then show ?thesis using x more [of d v r1] by (simp add: xs hopped_def)
      qed
    qed
  qed
qed

section \<open>Properties\<close>

text \<open>The outcome of a routed command.\<close>

definition command_outcome ::
  "command \<Rightarrow> cluster_world \<Rightarrow> redisReply option \<times> cf_redis_cluster \<times> cluster_world \<Rightarrow> bool" where
  "command_outcome argv w = (\<lambda>(r, c', w'). \<exists>rs. cluster_inv c' w' \<and> replies_to argv w' = replies_to argv w @ rs \<and> length rs \<le> 6 \<and>
    (\<forall>q \<in> set (butlast rs). \<exists>y. q = Some y \<and> redirect_of y \<noteq> None) \<and>
    (\<forall>x. r = Some x \<longrightarrow> rs \<noteq> [] \<and> last rs = Some x \<and> (redirect_of x \<noteq> None \<longrightarrow> length rs = 6)) \<and>
    (\<forall>r0 x sl host port. rs = [Some r0, Some x] \<longrightarrow> r = Some x \<longrightarrow> redirect_of r0 = Some (REDIRECT_MOVED, int sl, host, port) \<longrightarrow>
       sl < NUM_SLOTS \<longrightarrow> routes_to c' sl (host, port)))"

lemma cluster_command_ends:
  assumes "solid_replies env" "cluster_inv c w" "argv \<noteq> CLUSTER_SLOTS" "argv \<noteq> [''ASKING'']"
  shows "ends (cluster_command env key argv c w) (command_outcome argv w)"
proof -
  have conn: "ends (cluster_conn env key c w) (\<lambda>x. (\<lambda>(ctx, c', w'). cluster_inv c' w' \<and> (\<forall>k. ctx = Some k \<longrightarrow> k \<in> set (ctxs c'))) x \<and>
      replies_to argv (snd (snd x)) = replies_to argv w)"
    using assms by (intro ends_may cluster_conn_ends conn_quiet [where a = argv]) auto
  have send: "ends (c_command env k argv v) (\<lambda>x. ends (case x of (reply, w) \<Rightarrow> (case reply of
      None \<Rightarrow> Some (None, d, w) | Some reply \<Rightarrow> follow_redirects env argv CF_CLUSTER_MAX_REDIRECTS reply d w)) (command_outcome argv w))"
    if d: "cluster_inv d v" "k \<in> set (ctxs d)" "replies_to argv v = replies_to argv w" for d v k
  proof -
    have follow: "ends (follow_redirects env argv CF_CLUSTER_MAX_REDIRECTS r0 d u) (command_outcome argv w)"
      if u: "cluster_inv d u" "replies_to argv u = replies_to argv w @ [Some r0]" for r0 u
      by (rule ends_mono [OF follow_redirects_ends [OF assms(4) u(1)]])
        (use u(2) in \<open>fastforce simp: command_outcome_def redirected_def remembers_def\<close>)
    have "ends (c_command env k argv v) (\<lambda>x. (\<lambda>(r, w'). owns d [] w' \<and> (\<exists>t. r = ce_command env t k argv)) x \<and>
        replies_to argv (snd x) = replies_to argv v @ [fst x])"
      using d command_replies by (intro ends_may c_command_ends) (fastforce simp: may_def cluster_inv_def)+
    then show ?thesis
      by (rule ends_mono) (use d follow in \<open>auto simp: command_outcome_def cluster_inv_def split: option.splits intro!: exI [of _ "[None]"]\<close>)
  qed
  show ?thesis
  proof (cases "cl_connected c")
    case True
    show ?thesis
      by (simp add: cluster_command_def True, rule ends_mono [OF conn]) (use send in \<open>auto simp: command_outcome_def split: option.splits intro!: exI [of _ "[]"]\<close>)
  next
    case False
    then show ?thesis using assms(2) by (auto simp: cluster_command_def command_outcome_def intro!: exI [of _ "[]"])
  qed
qed


text \<open>
  C17. A routed command returns after at most six attempts. Each reply but the last is a redirect; what the
  caller gets is the last reply, and it is a redirect only when the limit is reached. When one redirect
  said that the slot moved, the map sends the slot to its new owner from then on. The tables stay
  sound and every open connection belongs to one node.
\<close>

theorem command_follows_redirects:
  assumes "solid_replies env" "cluster_inv c w" "argv \<noteq> CLUSTER_SLOTS" "argv \<noteq> [''ASKING'']"
  shows "\<exists>r c' w' rs. cluster_command env key argv c w = Some (r, c', w') \<and> cluster_inv c' w' \<and>
    replies_to argv w' = replies_to argv w @ rs \<and> length rs \<le> 6 \<and>
    (\<forall>q \<in> set (butlast rs). \<exists>y. q = Some y \<and> redirect_of y \<noteq> None) \<and>
    (\<forall>x. r = Some x \<longrightarrow> rs \<noteq> [] \<and> last rs = Some x \<and> (redirect_of x \<noteq> None \<longrightarrow> length rs = 6)) \<and>
    (\<forall>r0 x sl host port. rs = [Some r0, Some x] \<longrightarrow> r = Some x \<longrightarrow> redirect_of r0 = Some (REDIRECT_MOVED, int sl, host, port) \<longrightarrow>
       sl < NUM_SLOTS \<longrightarrow> routes_to c' sl (host, port))"
  using cluster_command_ends [OF assms, of key] by (auto simp: ends_def command_outcome_def)

text \<open>The owner of a slot in a reply to \<open>CLUSTER SLOTS\<close>: the master of the last range that holds it.\<close>

fun owner :: "redisReply option list \<Rightarrow> nat \<Rightarrow> (string \<times> int) option" where
  "owner [] s = None"
| "owner (e # es) s =
    (case owner es s of
       Some a \<Rightarrow> Some a
     | None \<Rightarrow>
         (case slot_range e of
            Some (Some (start, end, host, port)) \<Rightarrow> if start \<le> s \<and> s \<le> end then Some (host, port) else None
          | _ \<Rightarrow> None))"

definition short_host :: "redisReply option \<Rightarrow> bool" where
  "short_host e = (case slot_range e of Some (Some (start, end, host, port)) \<Rightarrow> length host < CF_CLUSTER_HOST_MAX | _ \<Rightarrow> True)"

lemma routes_to_append:
  "routes_to c s a \<Longrightarrow> cl_nodes d = cl_nodes c @ ns \<Longrightarrow> cl_slot_node d s = cl_slot_node c s \<Longrightarrow> routes_to d s a"
  by (auto simp: routes_to_def nth_append)

lemma load_ranges_owner:
  assumes "list_all solid_range es" "list_all short_host es" "table_ok c" "length (cl_nodes c) + length es \<le> CF_CLUSTER_MAX_NODES"
    "load_ranges es c = Some c'"
  shows "(case owner es s of Some a \<Rightarrow> routes_to c' s a
      | None \<Rightarrow> cl_slot_node c' s = cl_slot_node c s \<and> (\<forall>a. routes_to c s a \<longrightarrow> routes_to c' s a))"
  using assms
proof (induction es arbitrary: c)
  case (Cons e es)
  from Cons.prems(1) slot_range_returns obtain r where r: "slot_range e = Some r" by auto
  show ?case
  proof (cases r)
    case None
    then show ?thesis using Cons.IH [of c] Cons.prems r by (auto split: option.splits)
  next
    case (Some x)
    obtain a b host port where x: "x = (a, b, host, port)" by (cases x)
    obtain idx d where d: "node_find_or_add host port c = (idx, d)" by fastforce
    note f = find_or_add_ok [OF d Cons.prems(3)]
    have short: "length host < CF_CLUSTER_HOST_MAX" using Cons.prems(2) r Some x by (simp add: short_host_def)
    have i: "0 \<le> idx" using d short Cons.prems(4) by (auto simp: node_find_or_add_def Let_def split: if_splits)
    have len: "length (cl_nodes d) \<le> Suc (length (cl_nodes c))" using d by (auto simp: node_find_or_add_def Let_def split: if_splits)
    let ?z = "assign_slots a b idx d"
    note g = assign_slots_ok [OF f(1) i f(4), of a b]
    have small: "idx < 2 ^ 15" using f(1,4) by (simp add: table_ok_def)
    note look = assign_slots_lookup [OF i small, of a b d]
    have load: "load_ranges es ?z = Some c'" using Cons.prems(5) r Some x d i by simp
    have hit: "routes_to ?z s (host, port)" if "a \<le> s" "s \<le> b"
      using that i f(4,6) g(4) by (simp add: routes_to_def look)
    have miss: "routes_to ?z s q" if "\<not> (a \<le> s \<and> s \<le> b)" "routes_to c s q" for q
    proof -
      obtain ns where ns: "cl_nodes d = cl_nodes c @ ns" using f(8) by blast
      show ?thesis by (rule routes_to_append [OF that(2)]) (use ns g(4) look that(1) f(7) in auto)
    qed
    have "case owner es s of Some a \<Rightarrow> routes_to c' s a
      | None \<Rightarrow> cl_slot_node c' s = cl_slot_node ?z s \<and> (\<forall>a. routes_to ?z s a \<longrightarrow> routes_to c' s a)"
      using Cons.IH [of ?z] Cons.prems(1,2,4) load g(1,4) len by simp
    then show ?thesis using hit miss look f(7) r Some x by (auto split: option.splits)
  qed
qed simp

text \<open>
  C18. The slot map is the one the cluster announced: after the reply to \<open>CLUSTER SLOTS\<close> is loaded, each of
  the 16384 slots is routed to the master of the last range that holds it, and is unknown when no
  range does.
\<close>

theorem slot_map_is_announced:
  assumes "list_all solid_range es" "list_all short_host es" "length es \<le> CF_CLUSTER_MAX_NODES"
  shows "\<exists>c'. parse_cluster_slots (Some (Reply_Array es)) c = Some (0, c') \<and> table_ok c' \<and>
    (\<forall>s. case owner es s of Some a \<Rightarrow> routes_to c' s a | None \<Rightarrow> cl_slot_node c' s = - 1)"
proof -
  let ?z = "clear_slot_map (c\<lparr>cl_nodes := []\<rparr>)"
  obtain c' where c': "load_ranges es ?z = Some c'" "table_ok c'"
    using load_ranges_ends [OF assms(1) cleared_ok(1), of c] by (auto simp: ends_def)
  have z: "length (cl_nodes ?z) + length es \<le> CF_CLUSTER_MAX_NODES" "cl_slot_node ?z s = - 1" for s
    using assms(3) by (simp_all add: clear_slot_map_def)
  have "case owner es s of Some a \<Rightarrow> routes_to c' s a | None \<Rightarrow> cl_slot_node c' s = - 1" for s
    using load_ranges_owner [OF assms(1,2) cleared_ok(1) z(1) c'(1), of s] z(2) [of s] by (auto split: option.splits)
  then show ?thesis using c' by (simp add: parse_cluster_slots_def)
qed

section \<open>Sequences of calls\<close>

datatype cluster_call = Call_Connect | Call_Refresh | Call_Reset | Call_Conn bytes | Call_Command bytes command

definition run_call :: "cluster_env \<Rightarrow> cluster_call \<Rightarrow> cf_redis_cluster option \<times> cluster_world \<Rightarrow>
    (cf_redis_cluster option \<times> cluster_world) option" where
  "run_call env call = (\<lambda>(c, w). case call of
     Call_Connect \<Rightarrow> map_option snd (cf_redis_cluster_connect env c w)
   | Call_Refresh \<Rightarrow> map_option snd (cf_redis_cluster_refresh env c w)
   | Call_Reset \<Rightarrow> map_option snd (cf_redis_cluster_reset c w)
   | Call_Conn key \<Rightarrow> map_option snd (cf_redis_cluster_conn env key c w)
   | Call_Command key argv \<Rightarrow> map_option snd (cf_redis_cluster_command_argv env key argv c w))"

fun run_calls :: "cluster_env \<Rightarrow> cluster_call list \<Rightarrow> cf_redis_cluster option \<times> cluster_world \<Rightarrow>
    (cf_redis_cluster option \<times> cluster_world) option" where
  "run_calls env [] s = Some s"
| "run_calls env (call # calls) s = do { s \<leftarrow> run_call env call s; run_calls env calls s }"

text \<open>A call that routes a command of its own.\<close>

definition plain_call :: "cluster_call \<Rightarrow> bool" where
  "plain_call call = (case call of Call_Command key argv \<Rightarrow> argv \<noteq> CLUSTER_SLOTS \<and> argv \<noteq> [''ASKING''] | _ \<Rightarrow> True)"

lemma handle_ends:
  assumes "ends (f c w) (\<lambda>(r, c', w'). cluster_inv c' w')"
  shows "ends (map_option snd (on_handle null f (Some c) w)) (\<lambda>(c', w'). \<exists>d. c' = Some d \<and> cluster_inv d w')"
  using assms by (auto simp: on_handle_def ends_def)

lemma run_call_ends:
  assumes "solid_replies env" "cluster_inv c w" "plain_call call"
  shows "ends (run_call env call (Some c, w)) (\<lambda>(c', w'). \<exists>d. c' = Some d \<and> cluster_inv d w')"
proof (cases call)
  case Call_Connect
  then show ?thesis
    using ends_mono [OF cluster_connect_ends [OF assms(1,2)]]
    by (auto simp: run_call_def cf_redis_cluster_connect_def intro!: handle_ends)
next
  case Call_Refresh
  then show ?thesis
    using cluster_refresh_ends [OF assms(1,2)] by (auto simp: run_call_def cf_redis_cluster_refresh_def intro!: handle_ends)
next
  case Call_Reset
  have "owns c [] w" "table_ok c" using assms(2) by (auto simp: cluster_inv_def)
  then have "ends (free_all_ctx c w) (\<lambda>(c', w'). cluster_inv c' w')"
    by (intro ends_mono [OF free_all_ctx_ends]) (auto simp: cluster_inv_def intro: same_map_table)
  then show ?thesis using Call_Reset
    by (auto simp: run_call_def cf_redis_cluster_reset_def intro!: handle_ends elim!: ends_mono)
next
  case (Call_Conn key)
  then show ?thesis
    using ends_mono [OF cluster_conn_ends [OF assms(1,2)]]
    by (auto simp: run_call_def cf_redis_cluster_conn_def intro!: handle_ends)
next
  case (Call_Command key argv)
  then have "argv \<noteq> CLUSTER_SLOTS" "argv \<noteq> [''ASKING'']" using assms(3) by (auto simp: plain_call_def)
  from cluster_command_ends [OF assms(1,2) this, of key] Call_Command show ?thesis
    by (auto simp: run_call_def cf_redis_cluster_command_argv_def command_outcome_def intro!: handle_ends elim!: ends_mono)
qed

lemma run_calls_ends:
  "solid_replies env \<Longrightarrow> cluster_inv c w \<Longrightarrow> list_all plain_call calls \<Longrightarrow>
   ends (run_calls env calls (Some c, w)) (\<lambda>(c', w'). \<exists>d. c' = Some d \<and> cluster_inv d w')"
proof (induction calls arbitrary: c w)
  case (Cons call calls)
  show ?case
    unfolding run_calls.simps ends_simps
    by (rule ends_mono [OF run_call_ends [OF Cons.prems(1,2)]]) (use Cons in auto)
qed simp

text \<open>
  C16. No sequence of calls leaks or misuses a connection: whatever the servers do, every call returns,
  no connection is used or released after its release, at every moment the open connections are
  exactly those of the node table, and freeing the handle closes them all.
\<close>

theorem cluster_no_leak:
  assumes "solid_replies env" "cf_redis_cluster_new alloc endpoints timeout = Some c" "cw_open w = []"
    and "list_all plain_call calls"
  shows "\<exists>c' w' w''. run_calls env calls (Some c, w) = Some (Some c', w') \<and> table_ok c' \<and>
    mset (cw_open w') = mset (ctxs c') \<and> distinct (cw_open w') \<and>
    cf_redis_cluster_free (Some c') w' = Some w'' \<and> cw_open w'' = []"
proof -
  have "cluster_inv c w"
    using assms(2,3) by (auto simp: cf_redis_cluster_new_def clear_slot_map_def cluster_inv_def table_ok_def owns_def ctxs_def split: if_splits)
  from run_calls_ends [OF assms(1) this assms(4)] obtain c' w' where
    r: "run_calls env calls (Some c, w) = Some (Some c', w')" "cluster_inv c' w'" by (auto simp: ends_def)
  then have o: "table_ok c'" "owns c' [] w'" by (auto simp: cluster_inv_def)
  from free_all_ctx_ends [OF o(2)] obtain d w'' where "free_all_ctx c' w' = Some (d, w'')" "released d" "owns d [] w''"
    by (auto simp: ends_def)
  then show ?thesis using r(1) o by (auto simp: cf_redis_cluster_free_def owns_def released_def)
qed

section \<open>After an outage\<close>

text \<open>No server accepts a connection and the established ones are broken.\<close>

definition outage :: "cluster_env \<Rightarrow> bool" where
  "outage env \<longleftrightarrow> (\<forall>t host port. ce_connect env t host port \<noteq> Connect_Ok) \<and> (\<forall>t k. ce_err env t k)"

lemma outage_connect:
  assumes "outage env" "owns c ex w"
  shows "ends (connect_hostport env host port w) (\<lambda>(ctx, w'). ctx = None \<and> owns c ex w')"
proof -
  have "may (connect_hostport env host port w) (\<lambda>x. fst x = None)"
    using assms(1) by (auto simp: outage_def connect_hostport_def c_ask_def c_open_def may_def bind_eq_Some_conv split: connect_result.splits)
  with connect_hostport_ends [OF assms(2), of env host port] show ?thesis by (auto simp: ends_def may_def)
qed

lemma outage_seeds:
  assumes "outage env" "owns c ex w"
  shows "ends (connect_seeds env n attempt c w) (\<lambda>(rc, c', w'). rc = - 1 \<and> c' = c \<and> owns c ex w')"
  using assms(2)
proof (induction n arbitrary: attempt w)
  case (Suc n)
  let ?i = "(cl_seed_idx c + attempt) mod length (cl_seeds c)"
  show ?case
  proof (cases "parse_endpoint (Some (cl_seeds c ! ?i)) CF_CLUSTER_HOST_MAX")
    case None
    then show ?thesis using Suc by (simp add: Let_def)
  next
    case (Some hp)
    obtain host port where hp: "hp = (host, port)" by (cases hp)
    show ?thesis
      by (simp add: Let_def Some hp, rule ends_mono [OF outage_connect [OF assms(1) Suc.prems]]) (use Suc.IH in auto)
  qed
qed simp

lemma outage_node:
  assumes "outage env" "owns c ex w"
  shows "ends (node_connect env idx c w) (\<lambda>(ctx, c', w'). ctx = None \<and> same_map c c' \<and> owns c' ex w')"
proof -
  have dial: "a = None" if "node_dial env i d v = Some (a, b)" for i d v a b
    using assms(1) that by (auto simp: node_dial_def outage_def connect_hostport_def c_ask_def c_open_def bind_eq_Some_conv
        split: connect_result.splits)
  have "may (node_connect env idx c w) (\<lambda>x. fst x = None)"
    using assms(1) by (auto simp: node_connect_def Let_def outage_def c_err_def c_ask_def may_def bind_eq_Some_conv
        split: option.splits if_splits dest: dial)
  with node_connect_ends [OF assms(2), of env idx] show ?thesis by (auto simp: ends_def may_def)
qed

text \<open>
  C39. A standalone client does not recover from an outage by itself. When a call finds no reachable seed
  it marks the handle as disconnected; resetting the handle and asking again, as the header advises,
  then fails for ever, even when all servers are back, because no call but an explicit connect leaves
  that state.
\<close>

theorem reset_does_not_recover:
  assumes "outage env" "cluster_inv c w" "cl_connected c" "\<not> cl_is_cluster c"
  shows "\<exists>c' w'. cf_redis_cluster_conn env key (Some c) w = Some (None, Some c', w') \<and>
    (\<forall>env' key'. \<exists>d v. cf_redis_cluster_reset (Some c') w' = Some ((), Some d, v) \<and>
       cf_redis_cluster_conn env' key' (Some d) v = Some (None, Some d, v))"
proof -
  have o: "owns c [] w" using assms(2) by (simp add: cluster_inv_def)
  have conn: "ends (cluster_connect env d v) (\<lambda>(rc, c', w'). rc = - 1 \<and> \<not> cl_connected c' \<and> owns c' [] w')" if "owns d [] v" for d v
  proof -
    have seeds: "ends (connect_seeds env n 0 (b\<lparr>cl_connected := False\<rparr>) u) (\<lambda>(rc, c', w'). rc = - 1 \<and> \<not> cl_connected c' \<and> owns c' [] w')"
      if "owns b [] u" for b u n
      by (rule ends_mono [OF outage_seeds [OF assms(1), of _ "[]"]]) (use that in auto)
    show ?thesis
      unfolding cluster_connect_def ends_simps by (rule ends_mono [OF free_all_ctx_ends [OF that]]) (use seeds in auto)
  qed
  have "ends (cluster_conn env key c w) (\<lambda>(ctx, c', w'). ctx = None \<and> \<not> cl_connected c' \<and> owns c' [] w')"
    by (simp add: cluster_conn_def assms(3,4), rule ends_mono [OF outage_node [OF assms(1) o]])
      (auto intro!: ends_mono [OF conn])
  then obtain c' w' where c': "cluster_conn env key c w = Some (None, c', w')" "\<not> cl_connected c'" "owns c' [] w'"
    by (auto simp: ends_def)
  from free_all_ctx_ends [OF c'(3)] obtain d v where d: "free_all_ctx c' w' = Some (d, v)" "same_map c' d" by (auto simp: ends_def)
  then have "\<not> cl_connected d" using c'(2) by (simp add: same_map_def)
  then show ?thesis
    using c' d by (auto simp: cf_redis_cluster_conn_def cf_redis_cluster_reset_def on_handle_def cluster_conn_def)
qed

section \<open>A cluster\<close>

definition sample_slots :: "redisReply option list" where
  "sample_slots = [Some (Reply_Array [Some (Reply_Integer 0), Some (Reply_Integer 5460),
     Some (Reply_Array [Some (Reply_String ''10.0.0.7''), Some (Reply_Integer 6379)])])]"

definition sample_cluster_env :: cluster_env where
  "sample_cluster_env = \<lparr>ce_connect = (\<lambda>t host port. Connect_Ok),
     ce_command = (\<lambda>t k cmd. if cmd = CLUSTER_SLOTS then Some (Reply_Array sample_slots)
       else if k = 0 then Some (Reply_Error ''MOVED 3999 10.0.0.7:6379'') else Some (Reply_Status ''OK'')),
     ce_err = (\<lambda>t k. False)\<rparr>"

definition sample_cluster :: cf_redis_cluster where
  "sample_cluster = \<lparr>cl_seeds = [''redis:6379''], cl_seed_idx = 0, cl_timeout_sec = 3, cl_connected = True, cl_is_cluster = False,
     cl_nodes = [\<lparr>cn_host = ''redis'', cn_port = 6379, cn_ctx = Some 0\<rparr>], cl_slot_node = (\<lambda>_. - 1)\<rparr>"

definition sample_cluster_world :: cluster_world where
  "sample_cluster_world = \<lparr>cw_tick = 0, cw_log = [], cw_open = [0], cw_next = 1\<rparr>"

lemma sample_cluster_ok: "solid_replies sample_cluster_env" "cluster_inv sample_cluster sample_cluster_world"
  by (auto simp: solid_replies_def sample_cluster_env_def sample_slots_def solid_range_def cluster_inv_def table_ok_def owns_def
      ctxs_def sample_cluster_def sample_cluster_world_def split: if_splits)

theorem command_follows_redirects_witness:
  "\<exists>r c' w' rs. cluster_command sample_cluster_env [107] [''XACK'', ''k''] sample_cluster sample_cluster_world = Some (r, c', w') \<and>
     cluster_inv c' w' \<and> replies_to [''XACK'', ''k''] w' = rs \<and> length rs \<le> 6"
  using command_follows_redirects [OF sample_cluster_ok, of "[''XACK'', ''k'']" "[107]"]
  by (auto simp: replies_to_def sample_cluster_world_def)

theorem slot_map_is_announced_witness:
  "\<exists>c'. parse_cluster_slots (Some (Reply_Array sample_slots)) sample_cluster = Some (0, c') \<and>
     routes_to c' 3999 (''10.0.0.7'', 6379) \<and> cl_slot_node c' 6000 = - 1"
proof -
  have c: "cstr ''10.0.0.7'' = ''10.0.0.7''" by (rule cstr_id) simp
  have "slot_range (hd sample_slots) = Some (Some (0, 5460, ''10.0.0.7'', 6379))"
    by (simp add: sample_slots_def slot_range_def c c_int_id)
  then have o: "owner sample_slots 3999 = Some (''10.0.0.7'', 6379)" "owner sample_slots 6000 = None" "list_all short_host sample_slots"
    "list_all solid_range sample_slots" "length sample_slots \<le> CF_CLUSTER_MAX_NODES"
    by (simp_all add: sample_slots_def short_host_def solid_range_def)
  from slot_map_is_announced [OF o(4,3,5), of sample_cluster] obtain c' where
    p: "parse_cluster_slots (Some (Reply_Array sample_slots)) sample_cluster = Some (0, c')"
      "\<forall>s. case owner sample_slots s of Some a \<Rightarrow> routes_to c' s a | None \<Rightarrow> cl_slot_node c' s = - 1" by blast
  from spec [OF p(2), of 3999] spec [OF p(2), of 6000] o(1,2) p(1) show ?thesis by simp
qed

theorem cluster_no_leak_witness:
  "\<exists>c c' w' w''. cf_redis_cluster_new True [Some ''redis:6379''] 0 = Some c \<and>
     run_calls sample_cluster_env [Call_Connect, Call_Conn [107], Call_Command [107] [''XACK'', ''k''], Call_Reset, Call_Refresh]
       (Some c, sample_cluster_world\<lparr>cw_open := []\<rparr>) = Some (Some c', w') \<and>
     cf_redis_cluster_free (Some c') w' = Some w'' \<and> cw_open w'' = []"
proof -
  obtain c where c: "cf_redis_cluster_new True [Some ''redis:6379''] 0 = Some c" by (simp add: cf_redis_cluster_new_def)
  show ?thesis
    using cluster_no_leak [OF sample_cluster_ok(1) c, of "sample_cluster_world\<lparr>cw_open := []\<rparr>"
        "[Call_Connect, Call_Conn [107], Call_Command [107] [''XACK'', ''k''], Call_Reset, Call_Refresh]"] c
    by (auto simp: plain_call_def)
qed

theorem reset_does_not_recover_witness:
  "\<exists>c' w'. cf_redis_cluster_conn (sample_cluster_env\<lparr>ce_connect := \<lambda>t host port. Connect_Null, ce_err := \<lambda>t k. True\<rparr>) [107]
      (Some sample_cluster) sample_cluster_world = Some (None, Some c', w') \<and>
    (\<exists>d v. cf_redis_cluster_reset (Some c') w' = Some ((), Some d, v) \<and>
       cf_redis_cluster_conn sample_cluster_env [107] (Some d) v = Some (None, Some d, v))"
  using reset_does_not_recover [of "sample_cluster_env\<lparr>ce_connect := \<lambda>t host port. Connect_Null, ce_err := \<lambda>t k. True\<rparr>"
      sample_cluster sample_cluster_world "[107]"] sample_cluster_ok(2)
  by (auto simp: outage_def sample_cluster_def)

end
