(* ===== verification/Capture.thy ===== *)
theory Capture
  imports Dhcp_Formatter_Safe Total
begin

text \<open>
  The two readers that fill the packet queue, \<^verbatim>\<open>libs/cloudflow-capture\<close>: their shared counters and
  the push of a packet element (here), and the reader of classic pcap files \<^verbatim>\<open>cf_pcap_replay.c\<close>.

  The layout of a packet element, the other side of the queue and the stop flag are parameters.
  A file is its bytes and a read position; \<open>seekable\<close> says whether a relative seek works on it
  (on a regular file a seek past the end does, on a pipe none does). Integers of the file are
  loaded by a little-endian host, which is what the names of the magic numbers presuppose.
\<close>

abbreviation CLOUDFLOW_PACKET_MAX_SIZE :: u32 where "CLOUDFLOW_PACKET_MAX_SIZE \<equiv> 2048"
abbreviation CF_PACKET_FLAG_TRUNCATED :: u32 where "CF_PACKET_FLAG_TRUNCATED \<equiv> 1"
abbreviation CF_PACKET_FLAG_SNAP_TRUNCATED :: u32 where "CF_PACKET_FLAG_SNAP_TRUNCATED \<equiv> 2"

record cf_rx_stats =
  rs_packets_received_total :: nat
  rs_packets_dropped_total :: nat
  rs_rx_queue_drop_total :: nat
  rs_rx_queue_depth :: nat
  rs_packets_truncated_total :: nat
  rs_packets_snap_truncated_total :: nat
  rs_rx_bytes_copied_total :: nat

record capture_env =
  ce_item_bytes :: "cf_packet_item \<Rightarrow> bytes"
  ce_item_size :: nat
  ce_stop :: "nat \<Rightarrow> bool"
  ce_consumer :: "nat \<Rightarrow> cf_queue option \<Rightarrow> cf_queue option"
  ce_taken :: "nat \<Rightarrow> cf_queue option \<Rightarrow> cf_queue option"

text \<open>The output side of a reader; \<open>cp_tick\<close> counts the pushes.\<close>

record capture =
  cp_out :: "cf_queue option"
  cp_stats :: "cf_rx_stats option"
  cp_tick :: nat

definition rx_count :: "(cf_rx_stats \<Rightarrow> cf_rx_stats) \<Rightarrow> capture \<Rightarrow> capture" where
  "rx_count f s = s\<lparr>cp_stats := map_option f (cp_stats s)\<rparr>"

text \<open>\<open>(void)cf_queue_push_policy(out, &item, sizeof(item), on_full, &stats->rx_queue_drop_total)\<close>.\<close>

definition capture_push :: "capture_env \<Rightarrow> cf_queue_full_policy \<Rightarrow> cf_packet_item \<Rightarrow> capture \<Rightarrow> capture" where
  "capture_push env on_full item s =
    (case cf_queue_push_policy (ce_stop env) (ce_consumer env) (ce_taken env (cp_tick s) (cp_out s))
            (Some (ce_item_bytes env item)) (ce_item_size env) on_full
            (map_option rs_rx_queue_drop_total (cp_stats s)) of
       (rc, out, drops) \<Rightarrow>
         rx_count (\<lambda>st. st\<lparr>rs_rx_queue_drop_total := the drops\<rparr>) (s\<lparr>cp_out := out, cp_tick := cp_tick s + 1\<rparr>))"

section \<open>Classic pcap files\<close>

definition PCAP_MAGIC_USEC_LE :: u32 where "PCAP_MAGIC_USEC_LE = 0xa1b2c3d4"
definition PCAP_MAGIC_USEC_BE :: u32 where "PCAP_MAGIC_USEC_BE = 0xd4c3b2a1"
definition PCAP_MAGIC_NSEC_LE :: u32 where "PCAP_MAGIC_NSEC_LE = 0xa1b23c4d"
definition PCAP_MAGIC_NSEC_BE :: u32 where "PCAP_MAGIC_NSEC_BE = 0x4d3cb2a1"
definition PCAP_MAGIC_NSEC_ALT :: u32 where "PCAP_MAGIC_NSEC_ALT = 0xa3b4c3d4"
definition PCAPNG_MAGIC :: u32 where "PCAPNG_MAGIC = 0x0a0d0d0a"
definition DLT_EN10MB :: u32 where "DLT_EN10MB = 1"
definition PCAP_REPLAY_MAX_INCL_LEN :: u32 where "PCAP_REPLAY_MAX_INCL_LEN = 16 * 1024 * 1024"

lemmas pcap_consts = PCAP_MAGIC_USEC_LE_def PCAP_MAGIC_USEC_BE_def PCAP_MAGIC_NSEC_LE_def
  PCAP_MAGIC_NSEC_BE_def PCAP_MAGIC_NSEC_ALT_def PCAPNG_MAGIC_def DLT_EN10MB_def PCAP_REPLAY_MAX_INCL_LEN_def

text \<open>The fields the reader uses: of the 24-byte file header the magic and the link type, of the
  16-byte record header all four.\<close>

record pcap_file_hdr =
  fh_magic :: u32
  fh_network :: u32

record pcap_rec_hdr =
  rh_ts_sec :: u32
  rh_ts_frac :: u32
  rh_incl_len :: u32
  rh_orig_len :: u32

definition bswap32 :: "u32 \<Rightarrow> u32" where
  "bswap32 x = drop_bit 24 x OR (drop_bit 8 x AND 0xff00) OR (push_bit 8 x AND 0xff0000) OR push_bit 24 x"

definition host32 :: "bytes \<Rightarrow> nat \<Rightarrow> u32" where
  "host32 d i = be32 (d ! (i + 3)) (d ! (i + 2)) (d ! (i + 1)) (d ! i)"

definition read_file_hdr :: "bytes \<Rightarrow> pcap_file_hdr" where
  "read_file_hdr d = \<lparr>fh_magic = host32 d 0, fh_network = host32 d 20\<rparr>"

definition read_rec_hdr :: "bytes \<Rightarrow> pcap_rec_hdr" where
  "read_rec_hdr d = \<lparr>rh_ts_sec = host32 d 0, rh_ts_frac = host32 d 4, rh_incl_len = host32 d 8, rh_orig_len = host32 d 12\<rparr>"

text \<open>\<open>fread\<close> and \<open>fseek\<close> of the C library on an open file.\<close>

record cfile =
  f_data :: bytes
  f_pos :: nat

definition fread :: "nat \<Rightarrow> cfile \<Rightarrow> bytes \<times> cfile" where
  "fread n f = (let chunk = take n (drop (f_pos f) (f_data f)) in (chunk, f\<lparr>f_pos := f_pos f + length chunk\<rparr>))"

definition fseek_cur :: "bool \<Rightarrow> nat \<Rightarrow> cfile \<Rightarrow> cfile option" where
  "fseek_cur seekable n f = (if seekable then Some (f\<lparr>f_pos := f_pos f + n\<rparr>) else None)"

text \<open>The byte order and the unit of the fractions.\<close>

definition pcap_variant :: "u32 \<Rightarrow> (bool \<times> bool) option" where
  "pcap_variant magic =
    (if magic = PCAP_MAGIC_USEC_LE then Some (False, False)
     else if magic = PCAP_MAGIC_USEC_BE then Some (True, False)
     else if magic = PCAP_MAGIC_NSEC_LE then Some (False, True)
     else if magic = PCAP_MAGIC_NSEC_BE then Some (True, True)
     else if magic = PCAP_MAGIC_NSEC_ALT then Some (False, True)
     else None)"

definition swapped :: "bool \<Rightarrow> u32 \<Rightarrow> u32" where
  "swapped swap x = (if swap then bswap32 x else x)"

text \<open>The element of a record whose \<open>copy_len\<close> first bytes are \<open>data\<close>.\<close>

definition replay_item :: "bool \<Rightarrow> bool \<Rightarrow> pcap_rec_hdr \<Rightarrow> bytes \<Rightarrow> cf_packet_item" where
  "replay_item swap nsec rh data =
    \<lparr>pi_observed_time = uint (swapped swap (rh_ts_sec rh)) * 1000000000 +
        uint (swapped swap (rh_ts_frac rh)) * (if nsec then 1 else 1000),
     pi_packet_len = swapped swap (rh_orig_len rh),
     pi_captured_len = (if CLOUDFLOW_PACKET_MAX_SIZE < swapped swap (rh_incl_len rh)
        then CLOUDFLOW_PACKET_MAX_SIZE else swapped swap (rh_incl_len rh)),
     pi_flags = (if CLOUDFLOW_PACKET_MAX_SIZE < swapped swap (rh_incl_len rh) then CF_PACKET_FLAG_TRUNCATED else 0),
     pi_data = memcpy_at (replicate (unat CLOUDFLOW_PACKET_MAX_SIZE) 0) 0 data\<rparr>"

text \<open>Counting a frame and pushing it.\<close>

definition replay_frame :: "capture_env \<Rightarrow> cf_queue_full_policy \<Rightarrow> cf_packet_item \<Rightarrow> capture \<Rightarrow> capture" where
  "replay_frame env on_full item s =
    capture_push env on_full item
     (rx_count (\<lambda>st. st\<lparr>rs_packets_received_total := rs_packets_received_total st + 1,
        rs_rx_bytes_copied_total := rs_rx_bytes_copied_total st + unat (pi_captured_len item),
        rs_packets_truncated_total := rs_packets_truncated_total st +
          (if pi_flags item AND CF_PACKET_FLAG_TRUNCATED \<noteq> 0 then 1 else 0)\<rparr>) s)"

lemma fread_pos: "fread n f = (d, f') \<Longrightarrow> f_data f' = f_data f \<and> f_pos f' = f_pos f + length d \<and>
    d = take n (drop (f_pos f) (f_data f))"
  by (auto simp: fread_def Let_def)

lemma fseek_pos: "fseek_cur seekable n f = Some f' \<Longrightarrow> f_data f' = f_data f \<and> f_pos f' = f_pos f + n"
  by (auto simp: fseek_cur_def split: if_splits)

lemma record_consumes:
  assumes "(hdr, f1) = fread 16 f" "(data, f2) = fread n f1" "length hdr = 16"
    "(if b then fseek_cur seekable k f2 else Some f2) = Some f3"
  shows "length (f_data f3) - f_pos f3 < length (f_data f) - f_pos f"
proof -
  have "f_data f3 = f_data f" "f_pos f + 16 \<le> f_pos f3" "f_pos f + 16 \<le> length (f_data f)"
    using assms fread_pos [of 16 f hdr f1] fread_pos [of n f1 data f2] fseek_pos [of seekable k f2 f3]
    by (auto split: if_splits)
  then show ?thesis by simp
qed

text \<open>The loop over the records.\<close>

function replay_records ::
  "capture_env \<Rightarrow> cf_queue_full_policy \<Rightarrow> bool \<Rightarrow> bool \<Rightarrow> bool \<Rightarrow> cfile \<Rightarrow> nat \<Rightarrow> capture \<Rightarrow> int \<times> capture" where
  "replay_records env on_full seekable swap nsec f frame_count s =
    (let (hdr, f1) = fread 16 f; rh = read_rec_hdr hdr; incl_len = swapped swap (rh_incl_len rh);
         copy_len = (if CLOUDFLOW_PACKET_MAX_SIZE < incl_len then CLOUDFLOW_PACKET_MAX_SIZE else incl_len);
         (data, f2) = fread (unat copy_len) f1 in
     if length hdr \<noteq> 16 then (int frame_count, s)
     else if PCAP_REPLAY_MAX_INCL_LEN < incl_len then (- 1, s)
     else if length data \<noteq> unat copy_len then (- 1, s)
     else (case (if copy_len < incl_len then fseek_cur seekable (unat (incl_len - copy_len)) f2 else Some f2) of
         None \<Rightarrow> (- 1, s)
       | Some f3 \<Rightarrow> replay_records env on_full seekable swap nsec f3 (frame_count + 1)
           (replay_frame env on_full (replay_item swap nsec rh data) s)))"
  by pat_completeness auto

termination
  by (relation "measure (\<lambda>(_, _, _, _, _, f, _, _). length (f_data f) - f_pos f)")
    (simp_all add: record_consumes)

declare replay_records.simps [simp del]

text \<open>\<open>fs\<close> is what \<open>fopen\<close> finds under a path.\<close>

definition pcap_replay_file ::
  "capture_env \<Rightarrow> bool \<Rightarrow> (string \<Rightarrow> bytes option) \<Rightarrow> string option \<Rightarrow> cf_queue_full_policy \<Rightarrow> capture \<Rightarrow> int \<times> capture" where
  "pcap_replay_file env seekable fs path on_full s =
    (case path of None \<Rightarrow> (- 1, s) | Some path \<Rightarrow>
       if cp_out s = None then (- 1, s)
       else (case fs path of None \<Rightarrow> (- 1, s) | Some contents \<Rightarrow>
         let (hdr, f) = fread 24 \<lparr>f_data = contents, f_pos = 0\<rparr>; fh = read_file_hdr hdr in
         if length hdr \<noteq> 24 then (- 1, s)
         else if fh_magic fh = PCAPNG_MAGIC then (- 1, s)
         else (case pcap_variant (fh_magic fh) of None \<Rightarrow> (- 1, s)
           | Some (swap, nsec) \<Rightarrow>
               if swapped swap (fh_network fh) \<noteq> DLT_EN10MB then (- 1, s)
               else replay_records env on_full seekable swap nsec f 0 s)))"

end
