(* ===== verification/Capture_Replay.thy ===== *)
theory Capture_Replay
  imports Capture
begin

text \<open>
  What a reader does to the packet queue and its counters over a whole run, as an interface both
  readers provide, and the pcap reader against an encoder of pcap files.
\<close>

section \<open>Accounting of a reader\<close>

definition capture_ok :: "capture_env \<Rightarrow> cf_queue option \<Rightarrow> bool" where
  "capture_ok env out \<longleftrightarrow> qp_inv out \<and> (\<forall>item. policy_args out (ce_item_bytes env item) (ce_item_size env)) \<and>
     only_pops (ce_consumer env) \<and> only_pops (ce_taken env)"

text \<open>A frame as the counters see it.\<close>

record frame_tally =
  ta_copied :: nat
  ta_cut :: bool
  ta_snapped :: bool

text \<open>What a run has done since it began with counters \<open>st0\<close> and queue \<open>out0\<close>, when it read frames
  with tallies \<open>ts\<close> and made the elements \<open>els\<close> of them.\<close>

definition captured :: "capture_env \<Rightarrow> cf_rx_stats \<Rightarrow> cf_queue option \<Rightarrow> frame_tally list \<Rightarrow> bytes list \<Rightarrow> capture \<Rightarrow> bool" where
  "captured env st0 out0 ts els s \<longleftrightarrow> (\<exists>st. cp_stats s = Some st \<and> capture_ok env (cp_out s) \<and>
     rs_packets_received_total st = rs_packets_received_total st0 + length ts \<and>
     rs_rx_bytes_copied_total st = rs_rx_bytes_copied_total st0 + sum_list (map ta_copied ts) \<and>
     rs_packets_truncated_total st = rs_packets_truncated_total st0 + length (filter ta_cut ts) \<and>
     rs_packets_snap_truncated_total st = rs_packets_snap_truncated_total st0 + length (filter ta_snapped ts) \<and>
     subseq (qp_list (cp_out s)) (qp_list out0 @ els) \<and>
     rs_rx_queue_drop_total st0 \<le> rs_rx_queue_drop_total st \<and>
     rs_rx_queue_drop_total st \<le> rs_rx_queue_drop_total st0 + length els \<and>
     (rs_rx_queue_drop_total st = rs_rx_queue_drop_total st0 \<longrightarrow> suffix (qp_list (cp_out s)) (qp_list out0 @ els)))"

lemma captured_refl: "cp_stats s = Some st \<Longrightarrow> capture_ok env (cp_out s) \<Longrightarrow> captured env st (cp_out s) [] [] s"
  by (simp add: captured_def)

lemma capture_push_result:
  assumes out: "capture_ok env (cp_out s)" and st: "cp_stats s = Some st"
  obtains out' n where "capture_push env on_full item s = s\<lparr>cp_out := out', cp_tick := cp_tick s + 1,
      cp_stats := Some (st\<lparr>rs_rx_queue_drop_total := n\<rparr>)\<rparr>"
    "capture_ok env out'" "subseq (qp_list out') (qp_list (cp_out s) @ [ce_item_bytes env item])"
    "n = rs_rx_queue_drop_total st \<and> suffix (qp_list out') (qp_list (cp_out s) @ [ce_item_bytes env item]) \<or>
     n = rs_rx_queue_drop_total st + 1"
proof -
  let ?el = "ce_item_bytes env item" and ?q = "ce_taken env (cp_tick s) (cp_out s)"
  from out have o: "qp_inv (cp_out s)" "\<And>i. policy_args (cp_out s) (ce_item_bytes env i) (ce_item_size env)"
    "only_pops (ce_consumer env)" "only_pops (ce_taken env)" by (auto simp: capture_ok_def)
  note q = only_popsD [OF o(4,1), of "cp_tick s"]
  have args: "policy_args ?q (ce_item_bytes env i) (ce_item_size env)" for i
    using o(2) [of i] q by (simp add: policy_args_def)
  from push_policy_outcome [OF args o(3), of "ce_stop env" item on_full "Some (rs_rx_queue_drop_total st)"]
  obtain rc out' c where p: "cf_queue_push_policy (ce_stop env) (ce_consumer env) ?q (Some ?el) (ce_item_size env) on_full
      (Some (rs_rx_queue_drop_total st)) = (rc, out', c)" "qp_inv out'" "qp_elem out' = qp_elem ?q"
    "subseq (qp_list out') (qp_list ?q @ [?el])"
    "c = Some (rs_rx_queue_drop_total st) \<and> suffix (qp_list out') (qp_list ?q @ [?el]) \<or>
     c = count_drop (Some (rs_rx_queue_drop_total st))" by blast
  have "suffix (qp_list ?q @ [?el]) (qp_list (cp_out s) @ [?el])" using q(2) by simp
  note up = this suffix_imp_subseq [OF this]
  show thesis
  proof (rule that)
    show "capture_push env on_full item s = s\<lparr>cp_out := out', cp_tick := cp_tick s + 1,
        cp_stats := Some (st\<lparr>rs_rx_queue_drop_total := the c\<rparr>)\<rparr>"
      by (simp add: capture_push_def st p(1) rx_count_def)
    show "capture_ok env out'" using args o p(2,3) by (simp add: capture_ok_def policy_args_def)
    show "subseq (qp_list out') (qp_list (cp_out s) @ [?el])" using p(4) up(2) by (rule subseq_order.trans)
    show "the c = rs_rx_queue_drop_total st \<and> suffix (qp_list out') (qp_list (cp_out s) @ [?el]) \<or>
        the c = rs_rx_queue_drop_total st + 1"
      using p(5) suffix_order.trans [OF _ up(1)] by (auto simp: count_drop_def simp del: suffix_snoc)
  qed
qed

text \<open>Counting a frame, then pushing its element.\<close>

lemma captured_step:
  assumes cap: "captured env st0 out0 ts els s"
    and upd: "\<And>st. f st = st\<lparr>rs_packets_received_total := rs_packets_received_total st + 1,
       rs_rx_bytes_copied_total := rs_rx_bytes_copied_total st + ta_copied t,
       rs_packets_truncated_total := rs_packets_truncated_total st + (if ta_cut t then 1 else 0),
       rs_packets_snap_truncated_total := rs_packets_snap_truncated_total st + (if ta_snapped t then 1 else 0)\<rparr>"
  shows "captured env st0 out0 (ts @ [t]) (els @ [ce_item_bytes env item]) (capture_push env on_full item (rx_count f s))"
proof -
  from cap obtain st where a: "cp_stats s = Some st" "capture_ok env (cp_out s)"
    "rs_packets_received_total st = rs_packets_received_total st0 + length ts"
    "rs_rx_bytes_copied_total st = rs_rx_bytes_copied_total st0 + sum_list (map ta_copied ts)"
    "rs_packets_truncated_total st = rs_packets_truncated_total st0 + length (filter ta_cut ts)"
    "rs_packets_snap_truncated_total st = rs_packets_snap_truncated_total st0 + length (filter ta_snapped ts)"
    "subseq (qp_list (cp_out s)) (qp_list out0 @ els)" "rs_rx_queue_drop_total st0 \<le> rs_rx_queue_drop_total st"
    "rs_rx_queue_drop_total st \<le> rs_rx_queue_drop_total st0 + length els"
    "rs_rx_queue_drop_total st = rs_rx_queue_drop_total st0 \<longrightarrow> suffix (qp_list (cp_out s)) (qp_list out0 @ els)"
    by (auto simp: captured_def)
  let ?s = "rx_count f s" and ?el = "ce_item_bytes env item"
  have s: "capture_ok env (cp_out ?s)" "cp_stats ?s = Some (f st)" using a(1,2) by (simp_all add: rx_count_def)
  obtain out' n where p: "capture_push env on_full item ?s = ?s\<lparr>cp_out := out', cp_tick := cp_tick ?s + 1,
      cp_stats := Some ((f st)\<lparr>rs_rx_queue_drop_total := n\<rparr>)\<rparr>"
    "capture_ok env out'" "subseq (qp_list out') (qp_list (cp_out ?s) @ [?el])"
    "n = rs_rx_queue_drop_total (f st) \<and> suffix (qp_list out') (qp_list (cp_out ?s) @ [?el]) \<or>
     n = rs_rx_queue_drop_total (f st) + 1"
    by (rule capture_push_result [OF s])
  have o: "cp_out ?s = cp_out s" by (simp add: rx_count_def)
  have d: "rs_rx_queue_drop_total (f st) = rs_rx_queue_drop_total st" by (simp add: upd)
  have "subseq (qp_list out') ((qp_list out0 @ els) @ [?el])"
    by (rule subseq_order.trans [OF p(3)]) (use a(7) in \<open>simp add: o del: append_assoc\<close>)
  moreover have "n = rs_rx_queue_drop_total st0 \<longrightarrow> suffix (qp_list out') ((qp_list out0 @ els) @ [?el])"
    using p(4) a(8,10) unfolding o d by (auto simp del: suffix_snoc append_assoc intro: suffix_append_mono)
  moreover have "rs_rx_queue_drop_total st0 \<le> n" "n \<le> rs_rx_queue_drop_total st0 + length (els @ [?el])"
    using p(4) a(8,9) unfolding d by auto
  ultimately show ?thesis
    unfolding captured_def p(1) using a(3-6) p(2)
    by (simp add: upd del: suffix_snoc subseq_append_iff)
qed

text \<open>The interface: a handler of single frames that accounts for each.\<close>

locale frame_reader =
  fixes env :: capture_env and handle :: "'f \<Rightarrow> capture \<Rightarrow> capture" and tally_of :: "'f \<Rightarrow> frame_tally"
    and element_of :: "'f \<Rightarrow> bytes \<Rightarrow> bool"
  assumes handle_frame: "captured env st0 out0 ts els s \<Longrightarrow>
    \<exists>el. element_of f el \<and> captured env st0 out0 (ts @ [tally_of f]) (els @ [el]) (handle f s)"
begin

lemma fold_frames:
  assumes "captured env st0 out0 ts els s"
  shows "\<exists>els'. list_all2 element_of fs els' \<and> captured env st0 out0 (ts @ map tally_of fs) (els @ els') (fold handle fs s)"
  using assms
proof (induction fs arbitrary: ts els s)
  case Nil
  then show ?case by simp
next
  case (Cons f fs)
  from handle_frame [OF Cons.prems, of f] obtain el where
    el: "element_of f el" "captured env st0 out0 (ts @ [tally_of f]) (els @ [el]) (handle f s)" by blast
  from Cons.IH [OF el(2)] obtain els' where
    "list_all2 element_of fs els'" "captured env st0 out0 ((ts @ [tally_of f]) @ map tally_of fs) ((els @ [el]) @ els')
      (fold handle fs (handle f s))" by blast
  then show ?case using el(1) by (intro exI [of _ "el # els'"]) simp
qed

lemma frames_accounted:
  assumes "cp_stats s = Some st" "capture_ok env (cp_out s)"
  shows "\<exists>els. list_all2 element_of fs els \<and> captured env st (cp_out s) (map tally_of fs) els (fold handle fs s)"
  using fold_frames [OF captured_refl [OF assms]] by simp

end

definition item_tally :: "cf_packet_item \<Rightarrow> frame_tally" where
  "item_tally item = \<lparr>ta_copied = unat (pi_captured_len item),
     ta_cut = (pi_flags item AND CF_PACKET_FLAG_TRUNCATED \<noteq> 0), ta_snapped = False\<rparr>"

interpretation replay: frame_reader env "replay_frame env on_full" item_tally "\<lambda>item el. el = ce_item_bytes env item"
  for env on_full
proof
  fix st0 out0 ts els s f
  assume "captured env st0 out0 ts els s"
  then show "\<exists>el. el = ce_item_bytes env f \<and>
      captured env st0 out0 (ts @ [item_tally f]) (els @ [el]) (replay_frame env on_full f s)"
    by (auto simp: replay_frame_def item_tally_def intro: captured_step)
qed

section \<open>Encoded files\<close>

text \<open>A record as a capture tool writes it, and the file of a list of records in either byte order.\<close>

record pcap_record =
  pr_sec :: u32
  pr_frac :: u32
  pr_orig_len :: u32
  pr_bytes :: bytes

definition wire32 :: "bool \<Rightarrow> u32 \<Rightarrow> bytes" where
  "wire32 swap w = (let le = [ucast w, ucast (drop_bit 8 w), ucast (drop_bit 16 w), ucast (drop_bit 24 w)]
     in if swap then rev le else le)"

definition wire_rec_hdr :: "bool \<Rightarrow> pcap_record \<Rightarrow> bytes" where
  "wire_rec_hdr swap r = wire32 swap (pr_sec r) @ wire32 swap (pr_frac r) @
     wire32 swap (of_nat (length (pr_bytes r))) @ wire32 swap (pr_orig_len r)"

definition wire_record :: "bool \<Rightarrow> pcap_record \<Rightarrow> bytes" where
  "wire_record swap r = wire_rec_hdr swap r @ pr_bytes r"

text \<open>\<open>mid\<close> is the version, time zone, accuracy and snapshot length, which the reader ignores.\<close>

definition wire_pcap :: "u32 \<Rightarrow> bytes \<Rightarrow> bool \<Rightarrow> pcap_record list \<Rightarrow> bytes" where
  "wire_pcap magic mid swap rs = wire32 False magic @ mid @ wire32 swap DLT_EN10MB @ concat (map (wire_record swap) rs)"

text \<open>The element a record should become.\<close>

definition record_item :: "bool \<Rightarrow> pcap_record \<Rightarrow> cf_packet_item" where
  "record_item nsec r =
    \<lparr>pi_observed_time = uint (pr_sec r) * 10 ^ 9 + uint (pr_frac r) * (if nsec then 1 else 10 ^ 3),
     pi_packet_len = pr_orig_len r, pi_captured_len = of_nat (min 2048 (length (pr_bytes r))),
     pi_flags = (if 2048 < length (pr_bytes r) then CF_PACKET_FLAG_TRUNCATED else 0),
     pi_data = take 2048 (pr_bytes r) @ replicate (2048 - length (pr_bytes r)) 0\<rparr>"

definition record_ok :: "bool \<Rightarrow> pcap_record \<Rightarrow> bool" where
  "record_ok seekable r \<longleftrightarrow> length (pr_bytes r) \<le> 16 * 1024 * 1024 \<and> (2048 < length (pr_bytes r) \<longrightarrow> seekable)"

lemma length_wire32 [simp]: "length (wire32 swap w) = 4"
  by (simp add: wire32_def Let_def)

lemma length_wire_rec_hdr [simp]: "length (wire_rec_hdr swap r) = 16"
  by (simp add: wire_rec_hdr_def)

lemma length_wire_record [simp]: "length (wire_record swap r) = 16 + length (pr_bytes r)"
  by (simp add: wire_record_def)

lemma bswap32_be32: "bswap32 (be32 a b c d) = be32 d c b a"
proof -
  have masks: "(0xff00 :: u32) = push_bit 8 (mask 8)" "(0xff0000 :: u32) = push_bit 16 (mask 8)"
    by (simp_all add: byte_masks32 flip: byte_masks32)
  show ?thesis
    unfolding bswap32_def masks
    by (rule bit_word_eqI) (auto simp: bit_be32 bit_simps split: if_splits dest: bit_imp_le_length)
qed

lemma be32_bytes: "be32 (ucast (drop_bit 24 w)) (ucast (drop_bit 16 w)) (ucast (drop_bit 8 w)) (ucast w) = w"
  by (rule bit_word_eqI) (auto simp: bit_be32 bit_simps not_less split: if_splits dest: bit_imp_le_length)

lemma host32_append: "length pre = i \<Longrightarrow> 4 \<le> length d \<Longrightarrow> host32 (pre @ d) i = host32 d 0"
  by (simp add: host32_def nth_append numeral_2_eq_2)

lemma host32_wire: "swapped swap (host32 (wire32 swap w @ d) 0) = w"
  by (simp add: host32_def wire32_def swapped_def Let_def bswap32_be32 be32_bytes nth_append numeral_2_eq_2 numeral_3_eq_3)

lemma host32_at:
  "length pre = i \<Longrightarrow> swapped swap (host32 (pre @ wire32 swap w @ d) i) = w"
  using host32_append [of pre i "wire32 swap w @ d"] host32_wire by simp

lemma read_wire_rec_hdr:
  fixes r :: pcap_record and swap :: bool
  defines "rh \<equiv> read_rec_hdr (wire_rec_hdr swap r)"
  shows "swapped swap (rh_ts_sec rh) = pr_sec r" "swapped swap (rh_ts_frac rh) = pr_frac r"
    "swapped swap (rh_incl_len rh) = of_nat (length (pr_bytes r))" "swapped swap (rh_orig_len rh) = pr_orig_len r"
  using host32_at [of "[]" 0 swap "pr_sec r"] host32_at [of "wire32 swap (pr_sec r)" 4 swap "pr_frac r"]
    host32_at [of "wire32 swap (pr_sec r) @ wire32 swap (pr_frac r)" 8 swap "of_nat (length (pr_bytes r))"]
    host32_at [of "wire32 swap (pr_sec r) @ wire32 swap (pr_frac r) @ wire32 swap (of_nat (length (pr_bytes r)))" 12 swap
      "pr_orig_len r" "[]"]
  by (simp_all add: rh_def read_rec_hdr_def wire_rec_hdr_def)

section \<open>The loop over encoded records\<close>

lemma fread_at: "f_data f = pre @ d \<Longrightarrow> f_pos f = length pre \<Longrightarrow> n \<le> length d \<Longrightarrow>
    fread n f = (take n d, f\<lparr>f_pos := length pre + n\<rparr>)"
  by (simp add: fread_def)

lemma incl_len_word:
  assumes "n \<le> 16 * 1024 * 1024"
  shows "unat (of_nat n :: u32) = n" "\<not> PCAP_REPLAY_MAX_INCL_LEN < of_nat n"
    "CLOUDFLOW_PACKET_MAX_SIZE < of_nat n \<longleftrightarrow> 2048 < n" "2048 < n \<Longrightarrow> unat (of_nat n - 2048 :: u32) = n - 2048"
proof -
  show u: "unat (of_nat n :: u32) = n" using assms by (simp add: unsigned_of_nat take_bit_nat_eq_self)
  show "\<not> PCAP_REPLAY_MAX_INCL_LEN < of_nat n" "CLOUDFLOW_PACKET_MAX_SIZE < of_nat n \<longleftrightarrow> 2048 < n"
    using assms u by (simp_all add: word_less_nat_alt PCAP_REPLAY_MAX_INCL_LEN_def)
  then show "unat (of_nat n - 2048 :: u32) = n - 2048" if "2048 < n" using that u by (subst unat_sub) (auto simp: word_le_nat_alt)
qed

lemma replay_item_record:
  assumes "record_ok seekable r"
  shows "replay_item swap nsec (read_rec_hdr (wire_rec_hdr swap r)) (take 2048 (pr_bytes r)) = record_item nsec r"
proof -
  from assms have len: "length (pr_bytes r) \<le> 16 * 1024 * 1024" by (simp add: record_ok_def)
  show ?thesis
    unfolding replay_item_def record_item_def read_wire_rec_hdr incl_len_word(3) [OF len]
    by (auto simp: memcpy_at_def min_def)
qed

lemma replay_step:
  assumes ok: "record_ok seekable r" and f: "f_data f = pre @ wire_rec_hdr swap r @ tail" "f_pos f = length pre"
    and tail: "take (min 2048 (length (pr_bytes r))) tail = take 2048 (pr_bytes r)"
  shows "replay_records env on_full seekable swap nsec f n s =
    replay_records env on_full seekable swap nsec (f\<lparr>f_pos := length pre + 16 + length (pr_bytes r)\<rparr>) (n + 1)
      (replay_frame env on_full (record_item nsec r) s)"
proof -
  let ?L = "length (pr_bytes r)"
  from ok have len: "?L \<le> 16 * 1024 * 1024" by (simp add: record_ok_def)
  have tl: "min 2048 ?L \<le> length tail" using arg_cong [OF tail, of length] by simp
  have r1: "fread 16 f = (wire_rec_hdr swap r, f\<lparr>f_pos := length pre + 16\<rparr>)"
    using fread_at [OF f, of 16] by simp
  have r2: "fread (min 2048 ?L) (f\<lparr>f_pos := length pre + 16\<rparr>) =
      (take 2048 (pr_bytes r), f\<lparr>f_pos := length pre + 16 + min 2048 ?L\<rparr>)"
    using fread_at [of "f\<lparr>f_pos := length pre + 16\<rparr>" "pre @ wire_rec_hdr swap r" tail, OF _ _ tl] f tail by simp
  show ?thesis
  proof (cases "2048 < ?L")
    case True
    then have "seekable" using ok by (simp add: record_ok_def)
    moreover have pos: "length pre + 16 + ?L = 16 + (length pre + ?L)" by simp
    ultimately show ?thesis using True r2
      by (subst replay_records.simps)
        (simp add: r1 read_wire_rec_hdr incl_len_word [OF len] replay_item_record [OF ok] fseek_cur_def Let_def pos)
  next
    case False
    then show ?thesis using r2 replay_item_record [OF ok, of swap nsec]
      by (subst replay_records.simps) (simp add: r1 read_wire_rec_hdr incl_len_word [OF len] Let_def)
  qed
qed

lemma replay_all:
  assumes "\<forall>r \<in> set rs. record_ok seekable r" "f_data f = pre @ concat (map (wire_record swap) rs) @ rest" "f_pos f = length pre"
  shows "replay_records env on_full seekable swap nsec f n s =
    replay_records env on_full seekable swap nsec (f\<lparr>f_pos := length (pre @ concat (map (wire_record swap) rs))\<rparr>)
      (n + length rs) (fold (replay_frame env on_full) (map (record_item nsec) rs) s)"
  using assms
proof (induction rs arbitrary: f pre n s)
  case Nil
  then have "f\<lparr>f_pos := length pre\<rparr> = f" by (cases f) simp
  then show ?case by simp
next
  case (Cons r rs)
  let ?f = "f\<lparr>f_pos := length pre + 16 + length (pr_bytes r)\<rparr>"
  have "replay_records env on_full seekable swap nsec f n s =
      replay_records env on_full seekable swap nsec ?f (n + 1) (replay_frame env on_full (record_item nsec r) s)"
    by (rule replay_step [where tail = "pr_bytes r @ concat (map (wire_record swap) rs) @ rest"])
      (use Cons.prems in \<open>auto simp: wire_record_def [of swap r] min_def\<close>)
  moreover have "?f\<lparr>f_pos := length ((pre @ wire_record swap r) @ concat (map (wire_record swap) rs))\<rparr> =
      f\<lparr>f_pos := length (pre @ concat (map (wire_record swap) (r # rs)))\<rparr>" by simp
  ultimately show ?case
    using Cons.IH [of ?f "pre @ wire_record swap r" "n + 1" "replay_frame env on_full (record_item nsec r) s"] Cons.prems by simp
qed

lemma replay_end:
  assumes "f_data f = pre @ rest" "f_pos f = length pre" "length rest < 16"
  shows "replay_records env on_full seekable swap nsec f n s = (int n, s)"
  using assms by (subst replay_records.simps) (simp add: fread_def Let_def split: prod.splits)

text \<open>What follows the complete records of a cut file: part of a header, or a header with part of its bytes.\<close>

lemma replay_cut:
  assumes ok: "record_ok seekable r" and f: "f_data f = pre @ take k (wire_record swap r)" "f_pos f = length pre"
    and k: "k < length (wire_record swap r)"
  shows "fst (replay_records env on_full seekable swap nsec f n s) =
    (if k < 16 then int n else if k < 16 + min 2048 (length (pr_bytes r)) then - 1 else int n + 1)"
proof -
  let ?L = "length (pr_bytes r)"
  from ok have len: "?L \<le> 16 * 1024 * 1024" by (simp add: record_ok_def)
  consider "k < 16" | "16 \<le> k" "k < 16 + min 2048 ?L" | "16 + min 2048 ?L \<le> k" by linarith
  then show ?thesis
  proof cases
    case 1
    then show ?thesis using replay_end [OF f] k by simp
  next
    case 2
    then have d: "f_data f = pre @ wire_rec_hdr swap r @ take (k - 16) (pr_bytes r)"
      using f(1) by (simp add: wire_record_def)
    have r1: "fread 16 f = (wire_rec_hdr swap r, f\<lparr>f_pos := length pre + 16\<rparr>)" using fread_at [OF d f(2), of 16] by simp
    obtain data f2 where r2: "fread (min 2048 ?L) (f\<lparr>f_pos := length pre + 16\<rparr>) = (data, f2)" "length data \<noteq> min 2048 ?L"
      using 2 d by (simp add: fread_def Let_def)
    then show ?thesis using 2
      by (subst replay_records.simps, cases "2048 < ?L") (simp_all add: r1 read_wire_rec_hdr incl_len_word [OF len] Let_def)
  next
    case 3
    let ?f = "f\<lparr>f_pos := length pre + 16 + ?L\<rparr>"
    have "replay_records env on_full seekable swap nsec f n s =
        replay_records env on_full seekable swap nsec ?f (n + 1) (replay_frame env on_full (record_item nsec r) s)"
      by (rule replay_step [OF ok, where tail = "take (k - 16) (pr_bytes r)"])
        (use f 3 in \<open>auto simp: wire_record_def min_def\<close>)
    also have "fst \<dots> = int n + 1"
      using f 3 k by (subst replay_records.simps) (simp add: fread_def Let_def split: prod.split)
    finally show ?thesis using 3 by simp
  qed
qed

section \<open>Whole files\<close>

lemma replay_header:
  assumes "pcap_variant magic = Some (swap, nsec)" "length mid = 16" "fs path = Some (wire_pcap magic mid swap [] @ rest)"
    "cp_out s \<noteq> None"
  shows "pcap_replay_file env seekable fs (Some path) on_full s =
    replay_records env on_full seekable swap nsec \<lparr>f_data = wire_pcap magic mid swap [] @ rest, f_pos = 24\<rparr> 0 s"
proof -
  let ?hdr = "wire32 False magic @ mid @ wire32 swap DLT_EN10MB"
  have m: "host32 (?hdr) 0 = magic" "swapped swap (host32 ?hdr 20) = DLT_EN10MB"
    using host32_at [of "[]" 0 False magic] host32_at [of "wire32 False magic @ mid" 20 swap DLT_EN10MB "[]"] assms(2)
    by (simp_all add: swapped_def)
  have "magic \<noteq> PCAPNG_MAGIC" using assms(1) by (auto simp: pcap_variant_def pcap_consts split: if_splits)
  then show ?thesis
    using assms m fread_at [of "\<lparr>f_data = ?hdr @ rest, f_pos = 0\<rparr>" "[]" "?hdr @ rest" 24]
    by (auto simp: pcap_replay_file_def wire_pcap_def read_file_hdr_def Let_def)
qed

lemma wire_pcap_split: "wire_pcap magic mid swap rs = wire_pcap magic mid swap [] @ concat (map (wire_record swap) rs)"
  by (simp add: wire_pcap_def)

lemma length_wire_pcap: "length mid = 16 \<Longrightarrow> length (wire_pcap magic mid swap []) = 24"
  by (simp add: wire_pcap_def)

lemma replay_records_of_file:
  assumes "pcap_variant magic = Some (swap, nsec)" "length mid = 16" "\<forall>r \<in> set rs. record_ok seekable r"
    "fs path = Some (wire_pcap magic mid swap rs @ rest)" "cp_out s \<noteq> None"
  shows "pcap_replay_file env seekable fs (Some path) on_full s =
    replay_records env on_full seekable swap nsec
      \<lparr>f_data = wire_pcap magic mid swap rs @ rest, f_pos = length (wire_pcap magic mid swap rs)\<rparr> (length rs)
      (fold (replay_frame env on_full) (map (record_item nsec) rs) s)"
  using replay_header [of magic swap nsec mid fs path "concat (map (wire_record swap) rs) @ rest" s env seekable on_full]
    replay_all [OF assms(3), of "\<lparr>f_data = wire_pcap magic mid swap rs @ rest, f_pos = 24\<rparr>" "wire_pcap magic mid swap []" swap rest]
    assms length_wire_pcap [OF assms(2)]
  by (simp add: wire_pcap_split [of magic mid swap rs])

text \<open>
  C15. Replaying the pcap file of any list of records, in any of the five accepted variants (both byte
  orders, microseconds or nanoseconds), under any policy and against a consumer that takes elements
  at any time, returns the number of records; the queue then holds, in order, elements of the earlier
  contents and of the records, and if no drop was counted nothing is missing but what the consumer
  took; the counters count every record, the bytes copied and the records cut at 2048 bytes. Each
  element carries the time in nanoseconds, the original length and the first 2048 bytes.
\<close>

theorem pcap_replay_roundtrip:
  assumes "pcap_variant magic = Some (swap, nsec)" and "length mid = 16" and "\<forall>r \<in> set rs. record_ok seekable r"
    and "fs path = Some (wire_pcap magic mid swap rs)" and "cp_stats s = Some st" and "capture_ok env (cp_out s)"
  shows "\<exists>s'. pcap_replay_file env seekable fs (Some path) on_full s = (int (length rs), s') \<and>
    captured env st (cp_out s) (map (item_tally \<circ> record_item nsec) rs) (map (ce_item_bytes env \<circ> record_item nsec) rs) s'"
proof -
  have out: "cp_out s \<noteq> None" using assms(6) by (auto simp: capture_ok_def qp_inv_def split: option.splits)
  let ?s = "fold (replay_frame env on_full) (map (record_item nsec) rs) s"
  have "pcap_replay_file env seekable fs (Some path) on_full s = (int (length rs), ?s)"
    using replay_records_of_file [OF assms(1-3), of fs path "[]"] assms(4) out
    replay_end [of "\<lparr>f_data = wire_pcap magic mid swap rs, f_pos = length (wire_pcap magic mid swap rs)\<rparr>" _ "[]"] by simp
  moreover from replay.frames_accounted [OF assms(5,6), of "map (record_item nsec) rs" on_full]
  obtain els where "list_all2 (\<lambda>item el. el = ce_item_bytes env item) (map (record_item nsec) rs) els"
    "captured env st (cp_out s) (map item_tally (map (record_item nsec) rs)) els ?s" by blast
  moreover from this(1) have "els = map (ce_item_bytes env \<circ> record_item nsec) rs"
    by (auto simp: list_all2_conv_all_nth intro: nth_equalityI)
  ultimately show ?thesis by simp
qed

text \<open>
  C40. A file that ends inside its last record: the result is the error -1 only when the file ends
  inside the first 2048 bytes of the record's data. A file cut inside a record header, or past
  byte 2048 of a longer record (which is skipped by a seek that succeeds past the end of the file), is
  reported as complete.
\<close>

theorem pcap_replay_cut_file:
  assumes "pcap_variant magic = Some (swap, nsec)" and "length mid = 16" and "\<forall>q \<in> set rs. record_ok seekable q"
    and "record_ok seekable r" and "k < length (wire_record swap r)"
    and "fs path = Some (wire_pcap magic mid swap rs @ take k (wire_record swap r))" and "cp_out s \<noteq> None"
  shows "fst (pcap_replay_file env seekable fs (Some path) on_full s) =
    (if k < 16 then int (length rs)
     else if k < 16 + min 2048 (length (pr_bytes r)) then - 1 else int (length rs) + 1)"
  using replay_records_of_file [OF assms(1-3), where fs = fs and path = path and s = s] replay_cut [OF assms(4) _ _ assms(5)] assms(6,7)
  by simp

section \<open>Witnesses\<close>

definition sample_capture_env :: capture_env where
  "sample_capture_env = \<lparr>ce_item_bytes = \<lambda>item. [ucast (pi_captured_len item)], ce_item_size = 1, ce_stop = \<lambda>_. False,
     ce_consumer = \<lambda>_ q. q, ce_taken = \<lambda>_ q. q\<rparr>"

definition sample_capture :: capture where
  "sample_capture = \<lparr>cp_out = Some \<lparr>q_storage = Some [0, 0, 0], q_element_size = 1, q_capacity = 3, q_head = 0, q_tail = 0\<rparr>,
     cp_stats = Some \<lparr>rs_packets_received_total = 0, rs_packets_dropped_total = 0, rs_rx_queue_drop_total = 0,
       rs_rx_queue_depth = 0, rs_packets_truncated_total = 0, rs_packets_snap_truncated_total = 0,
       rs_rx_bytes_copied_total = 0\<rparr>, cp_tick = 0\<rparr>"

definition sample_record :: pcap_record where
  "sample_record = \<lparr>pr_sec = 5, pr_frac = 7, pr_orig_len = 60, pr_bytes = [1, 2, 3]\<rparr>"

lemma sample_capture_ok: "capture_ok sample_capture_env (cp_out sample_capture)"
  by (simp add: capture_ok_def sample_capture_env_def sample_capture_def policy_args_def qp_defs q_inv_def q_elem_def
      CF_QUEUE_POLICY_MAX_ELEMENT_SIZE_def only_pops_def)

theorem pcap_replay_roundtrip_witness:
  "\<exists>s'. pcap_replay_file sample_capture_env False
      (\<lambda>_. Some (wire_pcap PCAP_MAGIC_NSEC_BE (replicate 16 0) True [sample_record])) (Some ''a.pcap'')
      CF_ONFULL_DROP_NEWEST sample_capture = (1, s') \<and>
    (\<exists>st. cp_stats s' = Some st \<and> rs_packets_received_total st = 1 \<and> rs_rx_bytes_copied_total st = 3)"
proof -
  have v: "pcap_variant PCAP_MAGIC_NSEC_BE = Some (True, True)" by (simp add: pcap_variant_def pcap_consts)
  have r: "\<forall>r \<in> set [sample_record]. record_ok False r" by (simp add: record_ok_def sample_record_def)
  obtain st where st: "cp_stats sample_capture = Some st" "rs_packets_received_total st = 0" "rs_rx_bytes_copied_total st = 0"
    by (simp add: sample_capture_def)
  have "unat (pi_captured_len (record_item True sample_record)) = 3" by (simp add: record_item_def sample_record_def)
  with pcap_replay_roundtrip [OF v _ r _ st(1) sample_capture_ok, where mid = "replicate 16 0" and path = "''a.pcap''" and
      on_full = CF_ONFULL_DROP_NEWEST and fs = "\<lambda>_. Some (wire_pcap PCAP_MAGIC_NSEC_BE (replicate 16 0) True [sample_record])"] st(2,3)
  show ?thesis by (auto simp: captured_def item_tally_def)
qed

theorem pcap_replay_cut_file_witness:
  "fst (pcap_replay_file sample_capture_env True
      (\<lambda>_. Some (wire_pcap PCAP_MAGIC_USEC_LE (replicate 16 0) False [sample_record] @ take 10 (wire_record False sample_record)))
      (Some ''a.pcap'') CF_ONFULL_DROP_NEWEST sample_capture) = 1"
proof -
  have v: "pcap_variant PCAP_MAGIC_USEC_LE = Some (False, False)" by (simp add: pcap_variant_def pcap_consts)
  have r: "record_ok True sample_record" by (simp add: record_ok_def sample_record_def)
  show ?thesis
    using pcap_replay_cut_file [OF v _ _ r, where mid = "replicate 16 0" and rs = "[sample_record]" and k = 10 and
        s = sample_capture and env = sample_capture_env and path = "''a.pcap''" and on_full = CF_ONFULL_DROP_NEWEST and
        fs = "\<lambda>_. Some (wire_pcap PCAP_MAGIC_USEC_LE (replicate 16 0) False [sample_record] @ take 10 (wire_record False sample_record))"] r
    by (simp add: sample_capture_def)
qed

end
