(* ===== verification/Rx_Reader.thy ===== *)
theory Rx_Reader
  imports Capture_Replay Bpf
begin

text \<open>
  The live capture reader \<^verbatim>\<open>libs/cloudflow-capture/cf_rx_reader.c\<close>: the TPACKET_V3 ring shared with
  the kernel, the walk over a block, the wake-up loop, the set-up of the socket and ring with its
  error paths, start and stop.

  Parameters: where the fields of a packet header lie in a block (\<open>re_hdr_at\<close>, \<open>None\<close> outside it), what
  the kernel does to the ring between two looks of the reader, the answers of the system calls,
  and what the stack holds before an element is filled. A read outside a block, a copy
  past the element's buffer, a dangling ring entry and a release of something not held are \<open>None\<close>.
\<close>

section \<open>Blocks and packets\<close>

abbreviation TP_STATUS_KERNEL :: u32 where "TP_STATUS_KERNEL \<equiv> 0"
abbreviation TP_STATUS_USER :: u32 where "TP_STATUS_USER \<equiv> 1"

definition RX_READER_DEFAULT_BLOCK_SIZE :: u32 where "RX_READER_DEFAULT_BLOCK_SIZE = 4 * 1024 * 1024"
definition RX_READER_DEFAULT_BLOCK_COUNT :: u32 where "RX_READER_DEFAULT_BLOCK_COUNT = 12"
definition RX_READER_DEFAULT_FRAME_SIZE :: u32 where "RX_READER_DEFAULT_FRAME_SIZE = 2048"

record tpacket3_hdr =
  tp_next_offset :: u32
  tp_sec :: u32
  tp_nsec :: u32
  tp_snaplen :: u32
  tp_len :: u32
  tp_mac :: u16

record rx_block =
  rb_status :: u32
  rb_num_pkts :: u32
  rb_first :: u32
  rb_mem :: bytes

text \<open>The shared memory; \<open>rm_handed\<close> records the blocks the kernel has handed over so far.\<close>

record rx_mem =
  rm_blocks :: "rx_block list"
  rm_handed :: "rx_block list"

record cf_rx_reader_config =
  rc_interface_name :: "string option"
  rc_block_size :: u32
  rc_block_count :: u32
  rc_frame_size :: u32
  rc_on_full :: cf_queue_full_policy
  rc_copy_snaplen :: u32
  rc_bpf :: "sock_filter list option"

record rx_env =
  re_capture :: capture_env
  re_hdr_at :: "bytes \<Rightarrow> nat \<Rightarrow> tpacket3_hdr option"
  re_kernel :: "nat \<Rightarrow> rx_mem \<Rightarrow> rx_mem"
  re_stack :: "nat \<Rightarrow> bytes"

definition block_is_ready :: "rx_block \<Rightarrow> bool" where
  "block_is_ready block \<longleftrightarrow> rb_status block AND TP_STATUS_USER \<noteq> 0"

definition block_mark_done :: "rx_block \<Rightarrow> rx_block" where
  "block_mark_done block = block\<lparr>rb_status := TP_STATUS_KERNEL\<rparr>"

text \<open>The copy length and the flags of a packet.\<close>

definition rx_copy :: "cf_rx_reader_config \<Rightarrow> u32 \<Rightarrow> u32 \<times> u32" where
  "rx_copy cfg snaplen =
    (let (copy_len, flags) = (if rc_copy_snaplen cfg \<noteq> 0 \<and> rc_copy_snaplen cfg < snaplen
           then (rc_copy_snaplen cfg, CF_PACKET_FLAG_TRUNCATED OR CF_PACKET_FLAG_SNAP_TRUNCATED) else (snaplen, 0)) in
     if CLOUDFLOW_PACKET_MAX_SIZE < copy_len then (CLOUDFLOW_PACKET_MAX_SIZE, flags OR CF_PACKET_FLAG_TRUNCATED)
     else (copy_len, flags))"

definition copy_into :: "bytes \<Rightarrow> bytes \<Rightarrow> bytes option" where
  "copy_into buf src = (if length src \<le> length buf then Some (memcpy_at buf 0 src) else None)"

definition handle_packet ::
  "rx_env \<Rightarrow> cf_rx_reader_config \<Rightarrow> bytes \<Rightarrow> nat \<Rightarrow> tpacket3_hdr \<Rightarrow> capture \<Rightarrow> capture option" where
  "handle_packet env cfg mem off packet s = do {
     let (copy_len, flags) = rx_copy cfg (tp_snaplen packet);
     frame \<leftarrow> rd_bytes mem (off + unat (tp_mac packet)) (unat copy_len);
     data \<leftarrow> copy_into (re_stack env (cp_tick s)) frame;
     let item = \<lparr>pi_observed_time = uint (tp_sec packet) * 1000000000 + uint (tp_nsec packet),
       pi_packet_len = tp_len packet, pi_captured_len = copy_len, pi_flags = flags, pi_data = data\<rparr>;
     Some (capture_push (re_capture env) (rc_on_full cfg) item
       (rx_count (\<lambda>st. st\<lparr>rs_packets_received_total := rs_packets_received_total st + 1,
          rs_rx_bytes_copied_total := rs_rx_bytes_copied_total st + unat copy_len,
          rs_packets_truncated_total := rs_packets_truncated_total st +
            (if flags AND CF_PACKET_FLAG_TRUNCATED \<noteq> 0 then 1 else 0),
          rs_packets_snap_truncated_total := rs_packets_snap_truncated_total st +
            (if flags AND CF_PACKET_FLAG_SNAP_TRUNCATED \<noteq> 0 then 1 else 0)\<rparr>) s)) }"

fun walk_packets ::
  "rx_env \<Rightarrow> cf_rx_reader_config \<Rightarrow> bytes \<Rightarrow> nat \<Rightarrow> nat \<Rightarrow> capture \<Rightarrow> capture option" where
  "walk_packets env cfg mem 0 off s = Some s"
| "walk_packets env cfg mem (Suc n) off s = do {
     packet \<leftarrow> re_hdr_at env mem off;
     s \<leftarrow> handle_packet env cfg mem off packet s;
     walk_packets env cfg mem n (off + unat (tp_next_offset packet)) s }"

definition block_walk :: "rx_env \<Rightarrow> cf_rx_reader_config \<Rightarrow> rx_block \<Rightarrow> capture \<Rightarrow> capture option" where
  "block_walk env cfg block s = walk_packets env cfg (rb_mem block) (unat (rb_num_pkts block)) (unat (rb_first block)) s"

text \<open>\<open>drops\<close> is the answer of \<open>getsockopt(PACKET_STATISTICS)\<close>, \<open>None\<close> when it fails.\<close>

definition sample_kernel_stats :: "nat option \<Rightarrow> capture \<Rightarrow> capture" where
  "sample_kernel_stats drops s =
    (let s = (case drops of None \<Rightarrow> s
         | Some d \<Rightarrow> rx_count (\<lambda>st. st\<lparr>rs_packets_dropped_total := rs_packets_dropped_total st + d\<rparr>) s)
     in rx_count (\<lambda>st. st\<lparr>rs_rx_queue_depth := cf_queue_length (cp_out s)\<rparr>) s)"

section \<open>The ring\<close>

datatype map_ptr = Map_Null | Map_Failed | Map_At

text \<open>An entry of \<open>iov\<close> is the offset of a block in the mapped memory and its length.\<close>

record cf_rx_ring =
  rr_fd :: int
  rr_mem :: map_ptr
  rr_mem_size :: nat
  rr_block_size :: u32
  rr_block_count :: u32
  rr_next_block :: u32
  rr_iov :: "(nat \<times> nat) list option"

definition zero_ring :: cf_rx_ring where
  "zero_ring = \<lparr>rr_fd = - 1, rr_mem = Map_Null, rr_mem_size = 0, rr_block_size = 0, rr_block_count = 0,
     rr_next_block = 0, rr_iov = None\<rparr>"

record rx_state =
  rx_cfg :: cf_rx_reader_config
  rx_ring :: cf_rx_ring
  rx_mem :: rx_mem
  rx_out :: capture
  rx_looks :: nat

text \<open>The number of the block that \<open>iov[next_block].iov_base\<close> points at.\<close>

definition cursor :: "rx_state \<Rightarrow> nat option" where
  "cursor s = do {
     iov \<leftarrow> rr_iov (rx_ring s);
     let i = unat (rr_next_block (rx_ring s));
     let bs = unat (rr_block_size (rx_ring s));
     if i < length iov \<and> rr_mem (rx_ring s) = Map_At \<and> bs dvd fst (iov ! i) \<and>
        fst (iov ! i) div bs < length (rm_blocks (rx_mem s))
     then Some (fst (iov ! i) div bs) else None }"

definition kernel_runs :: "rx_env \<Rightarrow> rx_state \<Rightarrow> rx_state" where
  "kernel_runs env s = s\<lparr>rx_mem := re_kernel env (rx_looks s) (rx_mem s), rx_looks := rx_looks s + 1\<rparr>"

definition block_done :: "nat \<Rightarrow> rx_state \<Rightarrow> rx_state" where
  "block_done i s = s\<lparr>rx_mem := (rx_mem s)\<lparr>rm_blocks := (rm_blocks (rx_mem s))[i := block_mark_done (rm_blocks (rx_mem s) ! i)]\<rparr>,
     rx_ring := (rx_ring s)\<lparr>rr_next_block := (rr_next_block (rx_ring s) + 1) mod rr_block_count (rx_ring s)\<rparr>\<rparr>"

text \<open>The loop over at most \<open>n\<close> ready blocks. The kernel may have run before each look.\<close>

fun scan_blocks :: "rx_env \<Rightarrow> nat \<Rightarrow> rx_state \<Rightarrow> rx_state option" where
  "scan_blocks env 0 s = Some s"
| "scan_blocks env (Suc n) s = do {
     let s = kernel_runs env s;
     i \<leftarrow> cursor s;
     let block = rm_blocks (rx_mem s) ! i;
     if \<not> block_is_ready block then Some s
     else do {
       out \<leftarrow> block_walk env (rx_cfg s) block (rx_out s);
       scan_blocks env n (block_done i (s\<lparr>rx_out := out\<rparr>)) } }"

text \<open>The outcomes of \<open>epoll_wait\<close>; the list of a run ends when the stop flag is seen.\<close>

datatype rx_wake = Wake_Interrupted | Wake_Failed | Wake_Timeout "nat option" | Wake_Other | Wake_Ready

fun rx_wakes :: "rx_env \<Rightarrow> rx_wake list \<Rightarrow> rx_state \<Rightarrow> rx_state option" where
  "rx_wakes env [] s = Some s"
| "rx_wakes env (w # ws) s =
    (case w of
       Wake_Interrupted \<Rightarrow> rx_wakes env ws s
     | Wake_Failed \<Rightarrow> Some s
     | Wake_Timeout drops \<Rightarrow> rx_wakes env ws (s\<lparr>rx_out := sample_kernel_stats drops (rx_out s)\<rparr>)
     | Wake_Other \<Rightarrow> rx_wakes env ws s
     | Wake_Ready \<Rightarrow> do {
         s \<leftarrow> scan_blocks env (unat (rr_block_count (rx_ring s))) s;
         rx_wakes env ws s })"

section \<open>System resources\<close>

datatype rx_resource = Res_Fd int | Res_Map | Res_Iov | Res_Epoll

definition release :: "rx_resource \<Rightarrow> rx_resource list \<Rightarrow> rx_resource list option" where
  "release r held = (if r \<in> set held then Some (remove1 r held) else None)"

record tpacket_req3 =
  tr_block_size :: u32
  tr_block_nr :: u32
  tr_frame_size :: u32
  tr_frame_nr :: u32

text \<open>The answers of the system during one start: the new descriptor, and which calls succeed.\<close>

record rx_os =
  os_socket :: int
  os_ifindex :: bool
  os_bind :: bool
  os_filter :: "sock_filter list \<Rightarrow> bool"
  os_version :: bool
  os_rx_ring :: "tpacket_req3 \<Rightarrow> bool"
  os_mmap :: bool
  os_calloc :: bool
  os_thread :: bool
  os_blocks :: "rx_block list"

definition attach_filter :: "rx_os \<Rightarrow> sock_filter list option \<Rightarrow> int" where
  "attach_filter os bpf = (case bpf of None \<Rightarrow> 0
     | Some prog \<Rightarrow> if prog = [] then 0 else if os_filter os prog then 0 else - 1)"

definition bind_fd_to_iface :: "rx_os \<Rightarrow> string option \<Rightarrow> int" where
  "bind_fd_to_iface os iface = (case iface of None \<Rightarrow> 0
     | Some name \<Rightarrow> if name = [] then 0 else if \<not> os_ifindex os then - 1 else if \<not> os_bind os then - 1 else 0)"

definition rx_ring_teardown :: "cf_rx_ring \<Rightarrow> rx_resource list \<Rightarrow> (cf_rx_ring \<times> rx_resource list) option" where
  "rx_ring_teardown ring held = do {
     held \<leftarrow> (if rr_mem ring = Map_At then release Res_Map held else Some held);
     held \<leftarrow> (if rr_fd ring \<ge> 0 then release (Res_Fd (rr_fd ring)) held else Some held);
     held \<leftarrow> (if rr_iov ring \<noteq> None then release Res_Iov held else Some held);
     Some (zero_ring, held) }"

definition rx_request :: "cf_rx_reader_config \<Rightarrow> cf_rx_ring \<Rightarrow> tpacket_req3" where
  "rx_request cfg ring =
    (let frame_size = (if rc_frame_size cfg \<noteq> 0 then rc_frame_size cfg else RX_READER_DEFAULT_FRAME_SIZE) in
     \<lparr>tr_block_size = rr_block_size ring, tr_block_nr = rr_block_count ring, tr_frame_size = frame_size,
      tr_frame_nr = rr_block_size ring div frame_size * rr_block_count ring\<rparr>)"

definition rx_ring_setup ::
  "rx_os \<Rightarrow> cf_rx_reader_config \<Rightarrow> rx_resource list \<Rightarrow> (int \<times> cf_rx_ring \<times> rx_resource list) option" where
  "rx_ring_setup os cfg held =
    (let ring = zero_ring\<lparr>
           rr_block_size := (if rc_block_size cfg \<noteq> 0 then rc_block_size cfg else RX_READER_DEFAULT_BLOCK_SIZE),
           rr_block_count := (if rc_block_count cfg \<noteq> 0 then rc_block_count cfg else RX_READER_DEFAULT_BLOCK_COUNT)\<rparr>;
         err = (\<lambda>ring held. do { (ring, held) \<leftarrow> rx_ring_teardown ring held; Some (- 1, ring, held) }) in
     if os_socket os < 0 then Some (- 1, ring\<lparr>rr_fd := os_socket os\<rparr>, held)
     else
       let ring = ring\<lparr>rr_fd := os_socket os\<rparr>; held = Res_Fd (os_socket os) # held in
       if bind_fd_to_iface os (rc_interface_name cfg) \<noteq> 0 then err ring held
       else if attach_filter os (rc_bpf cfg) \<noteq> 0 then err ring held
       else if \<not> os_version os then err ring held
       else if \<not> os_rx_ring os (rx_request cfg ring) then err ring held
       else
         let ring = ring\<lparr>rr_mem_size := unat (rr_block_size ring) * unat (rr_block_count ring)\<rparr> in
         if \<not> os_mmap os then err (ring\<lparr>rr_mem := Map_Failed\<rparr>) held
         else
           let ring = ring\<lparr>rr_mem := Map_At\<rparr>; held = Res_Map # held in
           if \<not> os_calloc os then err ring held
           else Some (0, ring\<lparr>rr_iov := Some (map (\<lambda>i. (i * unat (rr_block_size ring), unat (rr_block_size ring)))
                  [0..<unat (rr_block_count ring)])\<rparr>, Res_Iov # held))"

section \<open>The thread\<close>

text \<open>The loop of the thread, with the outcome of \<open>epoll_create1\<close> and \<open>epoll_ctl\<close>.\<close>

definition rx_reader_loop ::
  "rx_env \<Rightarrow> bool \<Rightarrow> bool \<Rightarrow> rx_wake list \<Rightarrow> rx_state \<Rightarrow> rx_resource list \<Rightarrow> (rx_state \<times> rx_resource list) option" where
  "rx_reader_loop env create_ok add_ok ws s held =
    (if \<not> create_ok then Some (s, held)
     else let held = Res_Epoll # held in
       if \<not> add_ok then do { held \<leftarrow> release Res_Epoll held; Some (s, held) }
       else do {
         s \<leftarrow> rx_wakes env ws s;
         held \<leftarrow> release Res_Epoll held;
         Some (s, held) })"

record rx_reader =
  rg_started :: bool
  rg_state :: rx_state

definition cf_rx_reader_start ::
  "rx_os \<Rightarrow> cf_rx_reader_config option \<Rightarrow> cf_queue option \<Rightarrow> cf_rx_stats option \<Rightarrow> rx_reader \<Rightarrow> rx_resource list \<Rightarrow>
   (int \<times> rx_reader \<times> rx_resource list) option" where
  "cf_rx_reader_start os cfg out stats g held =
    (case cfg of None \<Rightarrow> Some (- 1, g, held)
     | Some cfg \<Rightarrow>
         if out = None \<or> stats = None then Some (- 1, g, held)
         else if rg_started g then Some (- 1, g, held)
         else do {
           (rc, ring, held) \<leftarrow> rx_ring_setup os cfg held;
           let g = \<lparr>rg_started = False, rg_state = \<lparr>rx_cfg = cfg, rx_ring = ring,
             rx_mem = \<lparr>rm_blocks = os_blocks os, rm_handed = []\<rparr>,
             rx_out = \<lparr>cp_out = out, cp_stats = stats, cp_tick = 0\<rparr>, rx_looks = 0\<rparr>\<rparr>;
           if rc \<noteq> 0 then Some (- 1, g, held)
           else if \<not> os_thread os then do {
             (ring, held) \<leftarrow> rx_ring_teardown ring held;
             Some (- 1, g\<lparr>rg_state := (rg_state g)\<lparr>rx_ring := ring\<rparr>\<rparr>, held) }
           else Some (0, g\<lparr>rg_started := True\<rparr>, held) })"

text \<open>Stop raises the stop flag, joins the thread (whose run is given by the outcomes it saw) and
  releases the ring.\<close>

definition cf_rx_reader_stop ::
  "rx_env \<Rightarrow> bool \<Rightarrow> bool \<Rightarrow> rx_wake list \<Rightarrow> rx_reader \<Rightarrow> rx_resource list \<Rightarrow> (rx_reader \<times> rx_resource list) option" where
  "cf_rx_reader_stop env create_ok add_ok ws g held =
    (if \<not> rg_started g then Some (g, held)
     else do {
       (s, held) \<leftarrow> rx_reader_loop env create_ok add_ok ws (rg_state g) held;
       (ring, held) \<leftarrow> rx_ring_teardown (rx_ring s) held;
       Some (\<lparr>rg_started = False, rg_state = s\<lparr>rx_ring := ring\<rparr>\<rparr>, held) })"

end
