(* ===== verification/Rx_Reader_Run.thy ===== *)
theory Rx_Reader_Run
  imports Rx_Reader
begin

text \<open>
  The live reader against what the kernel hands over: the frames of a block, the discipline of the
  shared ring as a step relation of the kernel, the invariant that ties the reader's cursor to
  the kernel's history, and whole runs from start to stop.
\<close>

section \<open>Frames of a block\<close>

type_synonym rx_frame = "tpacket3_hdr \<times> bytes"

fun packet_chain :: "(bytes \<Rightarrow> nat \<Rightarrow> tpacket3_hdr option) \<Rightarrow> bytes \<Rightarrow> nat \<Rightarrow> nat \<Rightarrow> rx_frame list option" where
  "packet_chain hdr_at mem 0 off = Some []"
| "packet_chain hdr_at mem (Suc n) off = do {
     p \<leftarrow> hdr_at mem off;
     frame \<leftarrow> rd_bytes mem (off + unat (tp_mac p)) (unat (tp_snaplen p));
     rest \<leftarrow> packet_chain hdr_at mem n (off + unat (tp_next_offset p));
     Some ((p, frame) # rest) }"

text \<open>\<open>None\<close> when a header or a captured frame does not lie inside the block.\<close>

definition block_frames :: "(bytes \<Rightarrow> nat \<Rightarrow> tpacket3_hdr option) \<Rightarrow> rx_block \<Rightarrow> rx_frame list option" where
  "block_frames hdr_at b = packet_chain hdr_at (rb_mem b) (unat (rb_num_pkts b)) (unat (rb_first b))"

text \<open>How many bytes of a frame the configuration lets through, and the element of a frame. What
  follows the copied bytes in the element is what the stack held.\<close>

definition copy_limit :: "cf_rx_reader_config \<Rightarrow> nat" where
  "copy_limit cfg = (if rc_copy_snaplen cfg = 0 then 2048 else min 2048 (unat (rc_copy_snaplen cfg)))"

definition rx_tally :: "cf_rx_reader_config \<Rightarrow> rx_frame \<Rightarrow> frame_tally" where
  "rx_tally cfg f = (let n = unat (tp_snaplen (fst f)) in
     \<lparr>ta_copied = min (copy_limit cfg) n, ta_cut = (copy_limit cfg < n),
      ta_snapped = (rc_copy_snaplen cfg \<noteq> 0 \<and> unat (rc_copy_snaplen cfg) < n)\<rparr>)"

definition rx_item :: "cf_rx_reader_config \<Rightarrow> bytes \<Rightarrow> rx_frame \<Rightarrow> cf_packet_item" where
  "rx_item cfg stack f = (let t = rx_tally cfg f; n = ta_copied t in
     \<lparr>pi_observed_time = uint (tp_sec (fst f)) * 10 ^ 9 + uint (tp_nsec (fst f)), pi_packet_len = tp_len (fst f),
      pi_captured_len = of_nat n,
      pi_flags = (if ta_cut t then CF_PACKET_FLAG_TRUNCATED else 0) OR (if ta_snapped t then CF_PACKET_FLAG_SNAP_TRUNCATED else 0),
      pi_data = take n (snd f) @ drop n stack\<rparr>)"

definition rx_element :: "rx_env \<Rightarrow> cf_rx_reader_config \<Rightarrow> rx_frame \<Rightarrow> bytes \<Rightarrow> bool" where
  "rx_element env cfg f el \<longleftrightarrow> (\<exists>stack. el = ce_item_bytes (re_capture env) (rx_item cfg stack f))"

text \<open>What the reader is meant to do with a frame.\<close>

definition handle_frame :: "rx_env \<Rightarrow> cf_rx_reader_config \<Rightarrow> rx_frame \<Rightarrow> capture \<Rightarrow> capture" where
  "handle_frame env cfg f s =
    capture_push (re_capture env) (rc_on_full cfg) (rx_item cfg (re_stack env (cp_tick s)) f)
     (rx_count (\<lambda>st. st\<lparr>rs_packets_received_total := rs_packets_received_total st + 1,
        rs_rx_bytes_copied_total := rs_rx_bytes_copied_total st + ta_copied (rx_tally cfg f),
        rs_packets_truncated_total := rs_packets_truncated_total st + (if ta_cut (rx_tally cfg f) then 1 else 0),
        rs_packets_snap_truncated_total := rs_packets_snap_truncated_total st + (if ta_snapped (rx_tally cfg f) then 1 else 0)\<rparr>) s)"

interpretation rx: frame_reader "re_capture env" "handle_frame env cfg" "rx_tally cfg" "rx_element env cfg"
  for env cfg
proof
  fix st0 out0 ts els s f
  assume "captured (re_capture env) st0 out0 ts els s"
  then have "captured (re_capture env) st0 out0 (ts @ [rx_tally cfg f])
      (els @ [ce_item_bytes (re_capture env) (rx_item cfg (re_stack env (cp_tick s)) f)]) (handle_frame env cfg f s)"
    unfolding handle_frame_def by (rule captured_step) simp
  then show "\<exists>el. rx_element env cfg f el \<and>
      captured (re_capture env) st0 out0 (ts @ [rx_tally cfg f]) (els @ [el]) (handle_frame env cfg f s)"
    by (auto simp: rx_element_def)
qed

lemma rx_copy_len: "unat (fst (rx_copy cfg n)) = min (copy_limit cfg) (unat n)"
  by (auto simp: rx_copy_def copy_limit_def word_less_nat_alt)

lemma rx_copy_flags:
  "snd (rx_copy cfg n) = (if copy_limit cfg < unat n then CF_PACKET_FLAG_TRUNCATED else 0) OR
    (if rc_copy_snaplen cfg \<noteq> 0 \<and> unat (rc_copy_snaplen cfg) < unat n then CF_PACKET_FLAG_SNAP_TRUNCATED else 0)"
  by (auto simp: rx_copy_def copy_limit_def word_less_nat_alt)

lemma rx_flag_bits:
  "((if a then 1 else 0) OR (if b then 2 else 0) :: u32) AND 1 \<noteq> 0 \<longleftrightarrow> a"
  "((if a then 1 else 0) OR (if b then 2 else 0) :: u32) AND 2 \<noteq> 0 \<longleftrightarrow> b"
  by auto

lemma handle_packet_frame:
  assumes "rd_bytes mem (off + unat (tp_mac p)) (unat (tp_snaplen p)) = Some frame" "length (re_stack env (cp_tick s)) = 2048"
  shows "handle_packet env cfg mem off p s = Some (handle_frame env cfg (p, frame) s)"
proof -
  let ?n = "ta_copied (rx_tally cfg (p, frame))"
  obtain c fl where cf: "rx_copy cfg (tp_snaplen p) = (c, fl)" by fastforce
  have n: "unat c = ?n" using rx_copy_len [of cfg "tp_snaplen p"] by (simp add: cf rx_tally_def Let_def)
  then have c: "of_nat ?n = c" by (simp flip: n)
  have fl: "fl = (if ta_cut (rx_tally cfg (p, frame)) then CF_PACKET_FLAG_TRUNCATED else 0) OR
      (if ta_snapped (rx_tally cfg (p, frame)) then CF_PACKET_FLAG_SNAP_TRUNCATED else 0)"
    using rx_copy_flags [of cfg "tp_snaplen p"] by (simp add: cf rx_tally_def Let_def)
  have le: "?n \<le> unat (tp_snaplen p)" "?n \<le> 2048" by (auto simp: rx_tally_def copy_limit_def Let_def)
  have r: "rd_bytes mem (off + unat (tp_mac p)) ?n = Some (take ?n frame)" "length frame = unat (tp_snaplen p)"
    using assms(1) le(1) by (auto simp: rd_bytes_Some_iff min_def)
  have k: "copy_into (re_stack env (cp_tick s)) (take ?n frame) = Some (take ?n frame @ drop ?n (re_stack env (cp_tick s)))"
    using assms(2) le r(2) by (simp add: copy_into_def memcpy_at_def)
  show ?thesis
    unfolding handle_packet_def handle_frame_def cf prod.case Let_def n r(1) fl rx_flag_bits
    by (simp add: k rx_item_def Let_def c)
qed

lemma walk_frames:
  assumes "packet_chain (re_hdr_at env) mem n off = Some fs" "\<forall>t. length (re_stack env t) = 2048"
  shows "walk_packets env cfg mem n off s = Some (fold (handle_frame env cfg) fs s)"
  using assms(1)
proof (induction n arbitrary: off fs s)
  case 0
  then show ?case by simp
next
  case (Suc n)
  then obtain p frame rest where "re_hdr_at env mem off = Some p"
    "rd_bytes mem (off + unat (tp_mac p)) (unat (tp_snaplen p)) = Some frame"
    "packet_chain (re_hdr_at env) mem n (off + unat (tp_next_offset p)) = Some rest" "fs = (p, frame) # rest"
    by (auto simp: bind_eq_Some_conv)
  then show ?case using Suc.IH assms(2) by (simp add: handle_packet_frame)
qed

lemma block_walk_frames:
  assumes "block_frames (re_hdr_at env) b = Some fs" "\<forall>t. length (re_stack env t) = 2048"
  shows "block_walk env cfg b s = Some (fold (handle_frame env cfg) fs s)"
  using walk_frames assms by (simp add: block_walk_def block_frames_def)

section \<open>The kernel's side of the ring\<close>

text \<open>The kernel fills the blocks in ring order, never one the reader still owns, and every header
  and frame it announces lies inside the block.\<close>

inductive kernel_fill :: "(bytes \<Rightarrow> nat \<Rightarrow> tpacket3_hdr option) \<Rightarrow> rx_mem \<Rightarrow> rx_mem \<Rightarrow> bool" for hdr_at where
  fill: "block_is_ready b \<Longrightarrow> block_frames hdr_at b \<noteq> None \<Longrightarrow>
    \<not> block_is_ready (rm_blocks m ! (length (rm_handed m) mod length (rm_blocks m))) \<Longrightarrow>
    kernel_fill hdr_at m (m\<lparr>rm_blocks := (rm_blocks m)[length (rm_handed m) mod length (rm_blocks m) := b],
      rm_handed := rm_handed m @ [b]\<rparr>)"

inductive_cases kernel_fillE: "kernel_fill hdr_at m m'"

definition kernel_ok :: "rx_env \<Rightarrow> bool" where
  "kernel_ok env \<longleftrightarrow> (\<forall>t m. (kernel_fill (re_hdr_at env))\<^sup>*\<^sup>* m (re_kernel env t m))"

text \<open>After \<open>r\<close> blocks were read, exactly the blocks handed over since are the reader's, in ring order.\<close>

definition ring_view :: "(bytes \<Rightarrow> nat \<Rightarrow> tpacket3_hdr option) \<Rightarrow> rx_mem \<Rightarrow> nat \<Rightarrow> bool" where
  "ring_view hdr_at m r \<longleftrightarrow> (let c = length (rm_blocks m); k = length (rm_handed m) in
     0 < c \<and> r \<le> k \<and> k \<le> r + c \<and> (\<forall>b \<in> set (rm_handed m). block_is_ready b \<and> block_frames hdr_at b \<noteq> None) \<and>
     (\<forall>i. r \<le> i \<longrightarrow> i < r + c \<longrightarrow>
        (if i < k then rm_blocks m ! (i mod c) = rm_handed m ! i else \<not> block_is_ready (rm_blocks m ! (i mod c)))))"

lemma mod_window:
  assumes "r \<le> i" "i < r + c" "r \<le> j" "j < r + c" "i mod c = j mod (c :: nat)"
  shows "i = j"
proof -
  have le: "a = b" if "a \<le> b" "b < a + c" "a mod c = b mod c" for a b
  proof -
    have "c dvd b - a" using that by (simp flip: mod_eq_dvd_iff_nat)
    then show ?thesis using that nat_dvd_not_less [of "b - a" c] by (cases "a = b") auto
  qed
  show ?thesis using le [of i j] le [of j i] assms by (cases "i \<le> j") auto
qed

lemma fill_view:
  assumes "kernel_fill hdr_at m m'" "ring_view hdr_at m r"
  shows "ring_view hdr_at m' r \<and> length (rm_blocks m') = length (rm_blocks m) \<and> take r (rm_handed m') = take r (rm_handed m)"
  using assms(1)
proof (cases rule: kernel_fill.cases)
  case (fill b)
  let ?c = "length (rm_blocks m)" and ?k = "length (rm_handed m)"
  have v: "0 < ?c" "r \<le> ?k" "?k \<le> r + ?c" "\<forall>b \<in> set (rm_handed m). block_is_ready b \<and> block_frames hdr_at b \<noteq> None"
    "\<And>i. r \<le> i \<Longrightarrow> i < r + ?c \<Longrightarrow> i < ?k \<Longrightarrow> rm_blocks m ! (i mod ?c) = rm_handed m ! i"
    "\<And>i. r \<le> i \<Longrightarrow> i < r + ?c \<Longrightarrow> \<not> i < ?k \<Longrightarrow> \<not> block_is_ready (rm_blocks m ! (i mod ?c))"
    using assms(2) unfolding ring_view_def Let_def by (auto split: if_splits)
  have room: "?k < r + ?c"
  proof (rule ccontr)
    assume "\<not> ?k < r + ?c"
    then have k: "?k = r + ?c" using v(3) by simp
    then have "rm_blocks m ! (?k mod ?c) = rm_handed m ! r" using v(5) [of r] v(1) by simp
    then show False using fill(4) v(1,4) k by auto
  qed
  have eq: "rm_blocks m' ! (i mod ?c) = (if i = ?k then b else rm_blocks m ! (i mod ?c))" if "r \<le> i" "i < r + ?c" for i
    using mod_window [OF that v(2) room] v(1) fill(1) by (auto simp: nth_list_update)
  have m': "length (rm_blocks m') = ?c" "rm_handed m' = rm_handed m @ [b]" using fill(1) by simp_all
  have "ring_view hdr_at m' r"
    unfolding ring_view_def Let_def m'
    using v room fill(2,3) by (auto simp: eq nth_append less_Suc_eq)
  then show ?thesis using v(2) m' by simp
qed

lemma kernel_view:
  assumes "(kernel_fill hdr_at)\<^sup>*\<^sup>* m m'" "ring_view hdr_at m r"
  shows "ring_view hdr_at m' r \<and> length (rm_blocks m') = length (rm_blocks m) \<and> take r (rm_handed m') = take r (rm_handed m)"
  using assms by (induction rule: rtranclp_induct) (use fill_view in \<open>fastforce+\<close>)

lemma mark_done_not_ready [simp]: "\<not> block_is_ready (block_mark_done b)"
  by (simp add: block_is_ready_def block_mark_done_def)

text \<open>The reader looks at the block of its cursor: the next one handed over, or one the kernel owns.\<close>

lemma view_look:
  assumes "ring_view hdr_at m r"
  shows "block_is_ready (rm_blocks m ! (r mod length (rm_blocks m))) \<longleftrightarrow> r < length (rm_handed m)"
    "r < length (rm_handed m) \<Longrightarrow> rm_blocks m ! (r mod length (rm_blocks m)) = rm_handed m ! r"
    "r < length (rm_handed m) \<Longrightarrow> \<exists>fs. block_frames hdr_at (rm_handed m ! r) = Some fs"
  using assms unfolding ring_view_def Let_def by (auto dest!: spec [of _ r] split: if_splits)

lemma view_done:
  assumes "ring_view hdr_at m r" "r < length (rm_handed m)"
  shows "ring_view hdr_at (m\<lparr>rm_blocks := (rm_blocks m)[r mod length (rm_blocks m) :=
    block_mark_done (rm_blocks m ! (r mod length (rm_blocks m)))]\<rparr>) (Suc r)"
proof -
  let ?c = "length (rm_blocks m)" and ?k = "length (rm_handed m)"
  define x where "x = block_mark_done (rm_blocks m ! (r mod ?c))"
  have x: "\<not> block_is_ready x" by (simp add: x_def)
  have v: "0 < ?c" "?k \<le> r + ?c" "\<forall>b \<in> set (rm_handed m). block_is_ready b \<and> block_frames hdr_at b \<noteq> None"
    "\<And>i. r \<le> i \<Longrightarrow> i < r + ?c \<Longrightarrow> i < ?k \<Longrightarrow> rm_blocks m ! (i mod ?c) = rm_handed m ! i"
    "\<And>i. r \<le> i \<Longrightarrow> i < r + ?c \<Longrightarrow> \<not> i < ?k \<Longrightarrow> \<not> block_is_ready (rm_blocks m ! (i mod ?c))"
    using assms(1) unfolding ring_view_def Let_def by (auto split: if_splits)
  have eq: "(rm_blocks m)[r mod ?c := x] ! (i mod ?c) = (if i = r + ?c then x else rm_blocks m ! (i mod ?c))"
    if "Suc r \<le> i" "i < Suc (r + ?c)" for i
    using mod_window [of r i ?c r] v(1) that by (auto simp: nth_list_update)
  show ?thesis
    unfolding ring_view_def Let_def x_def [symmetric] using v assms(2) x by (auto simp: eq)
qed

section \<open>The reader's invariant\<close>

definition handed_frames :: "rx_env \<Rightarrow> rx_block list \<Rightarrow> rx_frame list" where
  "handed_frames env bs = concat (map (\<lambda>b. the (block_frames (re_hdr_at env) b)) bs)"

text \<open>The frames of the first \<open>r\<close> blocks are in the queue and the counters.\<close>

definition rx_captured :: "rx_env \<Rightarrow> cf_rx_stats \<Rightarrow> cf_queue option \<Rightarrow> nat \<Rightarrow> rx_state \<Rightarrow> bool" where
  "rx_captured env st0 out0 r s \<longleftrightarrow> (let fs = handed_frames env (take r (rm_handed (rx_mem s))) in
     \<exists>els. list_all2 (rx_element env (rx_cfg s)) fs els \<and>
       captured (re_capture env) st0 out0 (map (rx_tally (rx_cfg s)) fs) els (rx_out s))"

definition ring_geometry :: "cf_rx_ring \<Rightarrow> nat \<Rightarrow> nat \<Rightarrow> bool" where
  "ring_geometry ring c r \<longleftrightarrow> rr_mem ring = Map_At \<and> 0 < unat (rr_block_size ring) \<and> unat (rr_block_count ring) = c \<and>
     rr_iov ring = Some (map (\<lambda>i. (i * unat (rr_block_size ring), unat (rr_block_size ring))) [0..<c]) \<and>
     unat (rr_next_block ring) = r mod c"

definition rx_inv :: "rx_env \<Rightarrow> cf_rx_stats \<Rightarrow> cf_queue option \<Rightarrow> nat \<Rightarrow> rx_state \<Rightarrow> bool" where
  "rx_inv env st0 out0 r s \<longleftrightarrow> ring_geometry (rx_ring s) (length (rm_blocks (rx_mem s))) r \<and>
     ring_view (re_hdr_at env) (rx_mem s) r \<and> rx_captured env st0 out0 r s"

definition env_ok :: "rx_env \<Rightarrow> bool" where
  "env_ok env \<longleftrightarrow> kernel_ok env \<and> (\<forall>t. length (re_stack env t) = 2048)"

text \<open>The parts of the state no step of the loop changes.\<close>

definition same_setup :: "rx_state \<Rightarrow> rx_state \<Rightarrow> bool" where
  "same_setup s s' \<longleftrightarrow> rx_cfg s' = rx_cfg s \<and> rr_fd (rx_ring s') = rr_fd (rx_ring s) \<and>
     rr_mem (rx_ring s') = rr_mem (rx_ring s) \<and> rr_iov (rx_ring s') = rr_iov (rx_ring s) \<and>
     rr_block_count (rx_ring s') = rr_block_count (rx_ring s)"

lemma same_setup_refl [simp]: "same_setup s s"
  by (simp add: same_setup_def)

lemma same_setup_trans: "same_setup s s' \<Longrightarrow> same_setup s' s'' \<Longrightarrow> same_setup s s''"
  by (simp add: same_setup_def)

lemma cursor_inv:
  assumes "rx_inv env st0 out0 r s"
  shows "cursor s = Some (r mod length (rm_blocks (rx_mem s)))"
proof -
  have "0 < length (rm_blocks (rx_mem s))" using assms by (auto simp: rx_inv_def ring_view_def Let_def)
  then show ?thesis using assms by (auto simp: rx_inv_def ring_geometry_def cursor_def)
qed

lemma inv_kernel:
  assumes "env_ok env" "rx_inv env st0 out0 r s"
  shows "rx_inv env st0 out0 r (kernel_runs env s) \<and> same_setup s (kernel_runs env s)"
proof -
  let ?m = "re_kernel env (rx_looks s) (rx_mem s)"
  have "(kernel_fill (re_hdr_at env))\<^sup>*\<^sup>* (rx_mem s) ?m" using assms(1) by (simp add: env_ok_def kernel_ok_def)
  from kernel_view [OF this, of r] assms(2) show ?thesis
    by (simp add: rx_inv_def rx_captured_def kernel_runs_def same_setup_def)
qed

lemma next_block_word:
  assumes "unat (i :: u32) < unat c"
  shows "unat ((i + 1) mod c) = (unat i + 1) mod unat c"
proof -
  have "unat c < 2 ^ 32" using unsigned_less [of c] by simp
  then have "unat (i + 1) = unat i + 1" using assms by (simp add: unat_word_ariths)
  then show ?thesis by (simp add: unat_mod)
qed

lemma inv_block:
  assumes env: "env_ok env" and inv: "rx_inv env st0 out0 r s" and r: "r < length (rm_handed (rx_mem s))"
  defines "i \<equiv> r mod length (rm_blocks (rx_mem s))"
  shows "\<exists>out. block_walk env (rx_cfg s) (rm_blocks (rx_mem s) ! i) (rx_out s) = Some out \<and>
    rx_inv env st0 out0 (Suc r) (block_done i (s\<lparr>rx_out := out\<rparr>)) \<and> same_setup s (block_done i (s\<lparr>rx_out := out\<rparr>))"
proof -
  let ?c = "length (rm_blocks (rx_mem s))" and ?fs = "handed_frames env (take r (rm_handed (rx_mem s)))"
  have v: "ring_view (re_hdr_at env) (rx_mem s) r" and g: "ring_geometry (rx_ring s) ?c r" and "rx_captured env st0 out0 r s"
    using inv by (simp_all add: rx_inv_def)
  then obtain els where els: "list_all2 (rx_element env (rx_cfg s)) ?fs els"
    "captured (re_capture env) st0 out0 (map (rx_tally (rx_cfg s)) ?fs) els (rx_out s)"
    by (auto simp: rx_captured_def Let_def)
  from view_look [OF v] r obtain fs where b: "rm_blocks (rx_mem s) ! i = rm_handed (rx_mem s) ! r"
    "block_frames (re_hdr_at env) (rm_handed (rx_mem s) ! r) = Some fs" by (auto simp: i_def)
  let ?out = "fold (handle_frame env (rx_cfg s)) fs (rx_out s)"
  have walk: "block_walk env (rx_cfg s) (rm_blocks (rx_mem s) ! i) (rx_out s) = Some ?out"
    using block_walk_frames env b by (simp add: env_ok_def)
  have frames: "handed_frames env (take (Suc r) (rm_handed (rx_mem s))) = ?fs @ fs"
    using r b(2) by (simp add: handed_frames_def take_Suc_conv_app_nth)
  from rx.fold_frames [OF els(2), of "rx_cfg s" fs] els(1) have cap: "rx_captured env st0 out0 (Suc r) (block_done i (s\<lparr>rx_out := ?out\<rparr>))"
    by (auto simp: rx_captured_def block_done_def frames Let_def intro: list_all2_appendI)
  have "0 < ?c" using v by (simp add: ring_view_def Let_def)
  then have "ring_geometry (rx_ring (block_done i (s\<lparr>rx_out := ?out\<rparr>))) ?c (Suc r)"
    using g next_block_word [of "rr_next_block (rx_ring s)" "rr_block_count (rx_ring s)"]
    by (simp add: ring_geometry_def block_done_def mod_Suc_eq)
  moreover have "ring_view (re_hdr_at env) (rx_mem (block_done i (s\<lparr>rx_out := ?out\<rparr>))) (Suc r)"
    using view_done [OF v r] by (simp add: block_done_def i_def)
  ultimately show ?thesis using walk cap by (simp add: rx_inv_def block_done_def same_setup_def)
qed

section \<open>The loop\<close>

lemma scan_inv:
  assumes "env_ok env" "rx_inv env st0 out0 r s"
  shows "\<exists>r' s'. scan_blocks env n s = Some s' \<and> rx_inv env st0 out0 r' s' \<and> same_setup s s' \<and> r \<le> r' \<and>
    (r' = r + n \<or> r' = length (rm_handed (rx_mem s')))"
  using assms(2)
proof (induction n arbitrary: r s)
  case 0
  then show ?case by auto
next
  case (Suc n)
  let ?s = "kernel_runs env s"
  from inv_kernel [OF assms(1) Suc.prems] have k: "rx_inv env st0 out0 r ?s" "same_setup s ?s" by auto
  then have v: "ring_view (re_hdr_at env) (rx_mem ?s) r" by (simp add: rx_inv_def)
  show ?case
  proof (cases "r < length (rm_handed (rx_mem ?s))")
    case True
    from inv_block [OF assms(1) k(1) True] obtain out where
      o: "block_walk env (rx_cfg ?s) (rm_blocks (rx_mem ?s) ! (r mod length (rm_blocks (rx_mem ?s)))) (rx_out ?s) = Some out"
      "rx_inv env st0 out0 (Suc r) (block_done (r mod length (rm_blocks (rx_mem ?s))) (?s\<lparr>rx_out := out\<rparr>))"
      "same_setup ?s (block_done (r mod length (rm_blocks (rx_mem ?s))) (?s\<lparr>rx_out := out\<rparr>))" by blast
    from Suc.IH [OF o(2)] obtain r' s' where
      "scan_blocks env n (block_done (r mod length (rm_blocks (rx_mem ?s))) (?s\<lparr>rx_out := out\<rparr>)) = Some s'"
      "rx_inv env st0 out0 r' s'" "same_setup (block_done (r mod length (rm_blocks (rx_mem ?s))) (?s\<lparr>rx_out := out\<rparr>)) s'"
      "Suc r \<le> r'" "r' = Suc r + n \<or> r' = length (rm_handed (rx_mem s'))" by blast
    then show ?thesis
      using True view_look(1) [OF v] cursor_inv [OF k(1)] o(1,3) k(2)
      by (intro exI [of _ r'] exI [of _ s']) (auto simp: Let_def intro: same_setup_trans)
  next
    case False
    then have "r = length (rm_handed (rx_mem ?s))" using v by (simp add: ring_view_def Let_def)
    then show ?thesis using False view_look(1) [OF v] cursor_inv [OF k(1)] k by (auto simp: Let_def)
  qed
qed

lemma sample_inv:
  assumes "rx_inv env st0 out0 r s"
  shows "rx_inv env st0 out0 r (s\<lparr>rx_out := sample_kernel_stats drops (rx_out s)\<rparr>)"
  using assms
  by (cases drops) (auto simp: rx_inv_def rx_captured_def sample_kernel_stats_def rx_count_def captured_def Let_def)

lemma wakes_inv:
  assumes "env_ok env" "rx_inv env st0 out0 r s"
  shows "\<exists>r' s'. rx_wakes env ws s = Some s' \<and> rx_inv env st0 out0 r' s' \<and> same_setup s s' \<and> r \<le> r' \<and>
    (Wake_Failed \<notin> set ws \<and> ws \<noteq> [] \<and> last ws = Wake_Ready \<longrightarrow>
       length (rm_blocks (rx_mem s')) \<le> r' \<or> r' = length (rm_handed (rx_mem s')))"
  using assms(2)
proof (induction ws arbitrary: r s)
  case Nil
  then show ?case by auto
next
  case (Cons w ws)
  have skip: ?case if "rx_wakes env (w # ws) s = rx_wakes env ws s1" "rx_inv env st0 out0 r1 s1" "same_setup s s1" "r \<le> r1"
      "ws = [] \<longrightarrow> w = Wake_Ready \<longrightarrow> length (rm_blocks (rx_mem s1)) \<le> r1 \<or> r1 = length (rm_handed (rx_mem s1))" for r1 s1
  proof (cases "ws = []")
    case True
    then show ?thesis using that by auto
  next
    case False
    from Cons.IH [OF that(2)] obtain r' s' where "rx_wakes env ws s1 = Some s'" "rx_inv env st0 out0 r' s'" "same_setup s1 s'"
      "r1 \<le> r'" "Wake_Failed \<notin> set ws \<and> ws \<noteq> [] \<and> last ws = Wake_Ready \<longrightarrow>
         length (rm_blocks (rx_mem s')) \<le> r' \<or> r' = length (rm_handed (rx_mem s'))" by blast
    then show ?thesis using False that(1,3,4) by (intro exI [of _ r'] exI [of _ s']) (auto intro: same_setup_trans)
  qed
  show ?case
  proof (cases w)
    case Wake_Ready
    let ?n = "unat (rr_block_count (rx_ring s))"
    from scan_inv [OF assms(1) Cons.prems, of ?n] obtain r1 s1 where s1: "scan_blocks env ?n s = Some s1"
      "rx_inv env st0 out0 r1 s1" "same_setup s s1" "r \<le> r1" "r1 = r + ?n \<or> r1 = length (rm_handed (rx_mem s1))" by blast
    have "length (rm_blocks (rx_mem s1)) = ?n"
      using Cons.prems s1(2,3) by (auto simp: rx_inv_def ring_geometry_def same_setup_def)
    with s1 Wake_Ready show ?thesis by (intro skip [of s1 r1]) auto
  next
    case (Wake_Timeout drops)
    then show ?thesis using sample_inv [OF Cons.prems, of drops]
      by (intro skip [of "s\<lparr>rx_out := sample_kernel_stats drops (rx_out s)\<rparr>" r]) (auto simp: same_setup_def)
  qed (use Cons.prems skip [of s r] in auto)
qed

section \<open>Start and stop\<close>

definition ring_resources :: "int \<Rightarrow> rx_resource list" where
  "ring_resources fd = [Res_Iov, Res_Map, Res_Fd fd]"

lemma release_simps [simp]:
  "release r (r # held) = Some held"
  "r \<noteq> q \<Longrightarrow> release r (q # held) = map_option ((#) q) (release r held)"
  by (auto simp: release_def)

lemma rx_defaults [simp]: "RX_READER_DEFAULT_BLOCK_SIZE \<noteq> 0" "RX_READER_DEFAULT_BLOCK_COUNT \<noteq> 0"
  by (simp_all add: RX_READER_DEFAULT_BLOCK_SIZE_def RX_READER_DEFAULT_BLOCK_COUNT_def)

lemma ring_setup_result:
  "\<exists>rc ring held'. rx_ring_setup os cfg held = Some (rc, ring, held') \<and>
    (rc = - 1 \<and> held' = held \<or>
     rc = 0 \<and> held' = ring_resources (rr_fd ring) @ held \<and> rr_fd ring \<ge> 0 \<and>
       ring_geometry ring (unat (rr_block_count ring)) 0 \<and> 0 < unat (rr_block_count ring))"
proof (cases "os_socket os < 0")
  case True
  then show ?thesis by (simp add: rx_ring_setup_def Let_def)
next
  case False
  then show ?thesis
    unfolding rx_ring_setup_def Let_def
    by (simp add: rx_ring_teardown_def zero_ring_def ring_resources_def ring_geometry_def unat_gt_0)
qed

lemma teardown_releases:
  assumes "rr_fd ring \<ge> 0" "rr_mem ring = Map_At" "rr_iov ring \<noteq> None"
  shows "rx_ring_teardown ring (ring_resources (rr_fd ring) @ held) = Some (zero_ring, held)"
  using assms by (simp add: rx_ring_teardown_def ring_resources_def)

text \<open>
  C14. \<open>cf_rx_reader_start\<close> on every path: it returns, and either reports success with the reader started
  and exactly the socket, the mapping and the block table held in addition, or reports an error and holds
  what it held before; an error leaves the started flag as it was.
\<close>

theorem rx_start_holds_or_releases:
  "\<exists>rc g' held'. cf_rx_reader_start os cfg out stats g held = Some (rc, g', held') \<and>
    (rc = 0 \<and> rg_started g' \<and> \<not> rg_started g \<and> held' = ring_resources (rr_fd (rx_ring (rg_state g'))) @ held \<or>
     rc = - 1 \<and> rg_started g' = rg_started g \<and> held' = held)"
proof (cases "cfg = None \<or> out = None \<or> stats = None \<or> rg_started g")
  case True
  then show ?thesis by (auto simp: cf_rx_reader_start_def split: option.split)
next
  case False
  then obtain c where c: "cfg = Some c" by auto
  obtain rc ring held' where r: "rx_ring_setup os c held = Some (rc, ring, held')"
    "rc = - 1 \<and> held' = held \<or> rc = 0 \<and> held' = ring_resources (rr_fd ring) @ held \<and> rr_fd ring \<ge> 0 \<and>
       ring_geometry ring (unat (rr_block_count ring)) 0"
    using ring_setup_result by blast
  then show ?thesis
    using False teardown_releases [of ring held] by (auto simp: cf_rx_reader_start_def c ring_geometry_def Let_def)
qed

text \<open>What the kernel maps: one block per entry, all its own.\<close>

definition fresh_blocks :: "rx_os \<Rightarrow> rx_reader \<Rightarrow> bool" where
  "fresh_blocks os g \<longleftrightarrow> length (os_blocks os) = unat (rr_block_count (rx_ring (rg_state g))) \<and>
     list_all (\<lambda>b. \<not> block_is_ready b) (os_blocks os)"

lemma start_inv:
  assumes start: "cf_rx_reader_start os (Some cfg) out (Some st) g held = Some (0, g1, held1)"
    and out: "capture_ok (re_capture env) out" and fresh: "fresh_blocks os g1"
  shows "rg_started g1" "rx_inv env st out 0 (rg_state g1)" "rx_cfg (rg_state g1) = cfg"
    "held1 = ring_resources (rr_fd (rx_ring (rg_state g1))) @ held" "rr_fd (rx_ring (rg_state g1)) \<ge> 0"
proof -
  have "out \<noteq> None" using out by (auto simp: capture_ok_def qp_inv_def split: option.splits)
  moreover obtain rc ring held' where r: "rx_ring_setup os cfg held = Some (rc, ring, held')"
    "rc = - 1 \<and> held' = held \<or> rc = 0 \<and> held' = ring_resources (rr_fd ring) @ held \<and> rr_fd ring \<ge> 0 \<and>
       ring_geometry ring (unat (rr_block_count ring)) 0 \<and> 0 < unat (rr_block_count ring)"
    using ring_setup_result by blast
  ultimately have g1: "rc = 0" "held1 = held'" "g1 = \<lparr>rg_started = True, rg_state = \<lparr>rx_cfg = cfg, rx_ring = ring,
      rx_mem = \<lparr>rm_blocks = os_blocks os, rm_handed = []\<rparr>, rx_out = \<lparr>cp_out = out, cp_stats = Some st, cp_tick = 0\<rparr>,
      rx_looks = 0\<rparr>\<rparr>"
    using start by (auto simp: cf_rx_reader_start_def Let_def bind_eq_Some_conv split: if_splits)
  then show "rg_started g1" "rx_cfg (rg_state g1) = cfg" "held1 = ring_resources (rr_fd (rx_ring (rg_state g1))) @ held"
    "rr_fd (rx_ring (rg_state g1)) \<ge> 0" using r(2) by auto
  have len: "length (os_blocks os) = unat (rr_block_count ring)" "list_all (\<lambda>b. \<not> block_is_ready b) (os_blocks os)"
    using fresh g1(3) by (auto simp: fresh_blocks_def)
  have "captured (re_capture env) st out [] [] \<lparr>cp_out = out, cp_stats = Some st, cp_tick = 0\<rparr>"
    using captured_refl [of "\<lparr>cp_out = out, cp_stats = Some st, cp_tick = 0\<rparr>" st] out by simp
  then show "rx_inv env st out 0 (rg_state g1)"
    using r(2) g1 len
    by (auto simp: rx_inv_def ring_view_def rx_captured_def handed_frames_def list_all_length Let_def)
qed

text \<open>
  C13. A whole run of the live reader, from a successful start to stop, over any wake-ups, with the
  kernel filling blocks at any moment between two looks: stop returns, everything the reader acquired is
  released exactly once, and for some number \<open>r\<close> of the blocks the kernel handed over, the frames of exactly
  the first \<open>r\<close>, in order, were counted and offered to the queue (each once, cut to the configured and the
  fixed limit); at most one ring of blocks is left unread. When the last wake-up announced packets, the
  reader has caught up with the kernel or read at least a whole ring. No read leaves a block.
\<close>

theorem rx_run_captures_in_order:
  assumes "cf_rx_reader_start os (Some cfg) out (Some st) g held = Some (0, g1, held1)"
    and "capture_ok (re_capture env) out" and "fresh_blocks os g1" and "env_ok env"
  shows "\<exists>g2 r. cf_rx_reader_stop env create_ok add_ok ws g1 held1 = Some (g2, held) \<and> \<not> rg_started g2 \<and>
    rx_captured env st out r (rg_state g2) \<and>
    r \<le> length (rm_handed (rx_mem (rg_state g2))) \<and>
    length (rm_handed (rx_mem (rg_state g2))) \<le> r + length (os_blocks os) \<and>
    (create_ok \<and> add_ok \<and> Wake_Failed \<notin> set ws \<and> ws \<noteq> [] \<and> last ws = Wake_Ready \<longrightarrow>
       length (os_blocks os) \<le> r \<or> r = length (rm_handed (rx_mem (rg_state g2))))"
proof -
  note s = start_inv [OF assms(1-3)]
  let ?s = "rg_state g1"
  have loop: "\<exists>s' r. rx_reader_loop env create_ok add_ok ws ?s held1 = Some (s', held1) \<and> rx_inv env st out r s' \<and> same_setup ?s s' \<and>
      (create_ok \<and> add_ok \<and> Wake_Failed \<notin> set ws \<and> ws \<noteq> [] \<and> last ws = Wake_Ready \<longrightarrow>
       length (rm_blocks (rx_mem s')) \<le> r \<or> r = length (rm_handed (rx_mem s')))"
  proof (cases "create_ok \<and> add_ok")
    case True
    from wakes_inv [OF assms(4) s(2), of ws] obtain r' s' where "rx_wakes env ws ?s = Some s'" "rx_inv env st out r' s'" "same_setup ?s s'"
      "Wake_Failed \<notin> set ws \<and> ws \<noteq> [] \<and> last ws = Wake_Ready \<longrightarrow>
         length (rm_blocks (rx_mem s')) \<le> r' \<or> r' = length (rm_handed (rx_mem s'))" by blast
    then show ?thesis using True by (auto simp: rx_reader_loop_def)
  next
    case False
    then show ?thesis using s(2) by (auto simp: rx_reader_loop_def)
  qed
  then obtain s' r where l: "rx_reader_loop env create_ok add_ok ws ?s held1 = Some (s', held1)" "rx_inv env st out r s'" "same_setup ?s s'"
    "create_ok \<and> add_ok \<and> Wake_Failed \<notin> set ws \<and> ws \<noteq> [] \<and> last ws = Wake_Ready \<longrightarrow>
       length (rm_blocks (rx_mem s')) \<le> r \<or> r = length (rm_handed (rx_mem s'))" by blast
  have t: "rx_ring_teardown (rx_ring s') held1 = Some (zero_ring, held)"
  proof -
    have "rr_mem (rx_ring s') = Map_At" "rr_iov (rx_ring s') \<noteq> None" using l(2) by (simp_all add: rx_inv_def ring_geometry_def)
    then show ?thesis using teardown_releases [of "rx_ring s'" held] l(3) s(4,5) by (simp add: same_setup_def)
  qed
  have n: "length (rm_blocks (rx_mem s')) = length (os_blocks os)"
    using l(2,3) assms(3) by (auto simp: rx_inv_def ring_geometry_def same_setup_def fresh_blocks_def)
  have "ring_view (re_hdr_at env) (rx_mem s') r" "rx_captured env st out r s'" using l(2) by (simp_all add: rx_inv_def)
  then show ?thesis
    using l(1,4) t s(1) n by (auto simp: cf_rx_reader_stop_def ring_view_def rx_captured_def Let_def)
qed

section \<open>Witness\<close>

text \<open>A kernel that hands over the same block, with one frame of three bytes at offset 4, whenever it can.\<close>

definition sample_hdr_at :: "bytes \<Rightarrow> nat \<Rightarrow> tpacket3_hdr option" where
  "sample_hdr_at mem off = (if off + 4 \<le> length mem then Some \<lparr>tp_next_offset = 0, tp_sec = 1, tp_nsec = 2,
     tp_snaplen = 3, tp_len = 60, tp_mac = 4\<rparr> else None)"

definition sample_block :: rx_block where
  "sample_block = \<lparr>rb_status = TP_STATUS_USER, rb_num_pkts = 1, rb_first = 0, rb_mem = [0, 0, 0, 0, 7, 8, 9]\<rparr>"

definition sample_kernel :: "rx_mem \<Rightarrow> rx_mem" where
  "sample_kernel m = (let i = length (rm_handed m) mod length (rm_blocks m) in
     if block_is_ready (rm_blocks m ! i) then m
     else m\<lparr>rm_blocks := (rm_blocks m)[i := sample_block], rm_handed := rm_handed m @ [sample_block]\<rparr>)"

definition sample_rx_env :: rx_env where
  "sample_rx_env = \<lparr>re_capture = sample_capture_env, re_hdr_at = sample_hdr_at, re_kernel = \<lambda>_. sample_kernel,
     re_stack = \<lambda>_. replicate 2048 0\<rparr>"

definition sample_rx_cfg :: cf_rx_reader_config where
  "sample_rx_cfg = \<lparr>rc_interface_name = None, rc_block_size = 4096, rc_block_count = 2, rc_frame_size = 0,
     rc_on_full = CF_ONFULL_DROP_OLDEST, rc_copy_snaplen = 2, rc_bpf = None\<rparr>"

definition sample_os :: rx_os where
  "sample_os = \<lparr>os_socket = 5, os_ifindex = True, os_bind = True, os_filter = \<lambda>_. True, os_version = True,
     os_rx_ring = \<lambda>_. True, os_mmap = True, os_calloc = True, os_thread = True,
     os_blocks = replicate 2 \<lparr>rb_status = 0, rb_num_pkts = 0, rb_first = 0, rb_mem = []\<rparr>\<rparr>"

definition idle_reader :: rx_reader where
  "idle_reader = \<lparr>rg_started = False, rg_state = \<lparr>rx_cfg = sample_rx_cfg, rx_ring = zero_ring,
     rx_mem = \<lparr>rm_blocks = [], rm_handed = []\<rparr>, rx_out = sample_capture, rx_looks = 0\<rparr>\<rparr>"

lemma sample_env_ok: "env_ok sample_rx_env"
proof -
  have "block_frames sample_hdr_at sample_block \<noteq> None" "block_is_ready sample_block"
    by (simp_all add: block_frames_def sample_block_def sample_hdr_at_def block_is_ready_def)
  then have "(kernel_fill sample_hdr_at)\<^sup>*\<^sup>* m (sample_kernel m)" for m
    by (auto simp: sample_kernel_def Let_def intro: kernel_fill.fill)
  then show ?thesis by (simp add: env_ok_def kernel_ok_def sample_rx_env_def)
qed

theorem rx_run_captures_in_order_witness:
  "\<exists>st g1 held1 g2 r. cf_rx_reader_start sample_os (Some sample_rx_cfg) (cp_out sample_capture) (Some st) idle_reader [] =
      Some (0, g1, held1) \<and>
    cf_rx_reader_stop sample_rx_env True True [Wake_Timeout None, Wake_Ready] g1 held1 = Some (g2, []) \<and>
    rx_captured sample_rx_env st (cp_out sample_capture) r (rg_state g2) \<and>
    (2 \<le> r \<or> r = length (rm_handed (rx_mem (rg_state g2))))"
proof -
  obtain st where st: "cp_stats sample_capture = Some st" by (simp add: sample_capture_def)
  obtain q where q: "cp_out sample_capture = Some q" by (simp add: sample_capture_def)
  obtain g1 held1 where s: "cf_rx_reader_start sample_os (Some sample_rx_cfg) (cp_out sample_capture) (Some st) idle_reader [] =
      Some (0, g1, held1)" "rr_block_count (rx_ring (rg_state g1)) = 2"
    by (simp add: q cf_rx_reader_start_def idle_reader_def rx_ring_setup_def sample_os_def sample_rx_cfg_def bind_fd_to_iface_def
        attach_filter_def zero_ring_def Let_def)
  have f: "fresh_blocks sample_os g1" using s(2) by (simp add: fresh_blocks_def sample_os_def block_is_ready_def list_all_iff)
  have o: "capture_ok (re_capture sample_rx_env) (cp_out sample_capture)" using sample_capture_ok by (simp add: sample_rx_env_def)
  have "length (os_blocks sample_os) = 2" by (simp add: sample_os_def)
  with rx_run_captures_in_order [OF s(1) o f sample_env_ok, of True True "[Wake_Timeout None, Wake_Ready]"]
  obtain g2 r where "cf_rx_reader_stop sample_rx_env True True [Wake_Timeout None, Wake_Ready] g1 held1 = Some (g2, [])"
    "rx_captured sample_rx_env st (cp_out sample_capture) r (rg_state g2)"
    "2 \<le> r \<or> r = length (rm_handed (rx_mem (rg_state g2)))" by auto
  with s(1) show ?thesis by blast
qed

end
