(* ===== verification/Spec2Isabelle.thy ===== *)
theory Spec2Isabelle
  imports Queue_Policy Queue_Spsc Event_Id Decap_Roundtrip Dns_Message Correlation_Refine Leg_Classify Sampling Redis_Slot Bpf_Filters Dns_Stage_Flow Sink_Live Dhcpv4_Interp Dhcpv6_Wire Ip_Text Dhcp_Formatter_Thm Redis_Cluster_Thm Rx_Reader_Run
begin

text \<open>
  Verification of cloudflow, a packet-capture pipeline in C. Frames are captured on a network
  interface, decapsulated, parsed (DNS, DHCP), correlated or formatted into events with a
  deterministic id, and shipped through a queue to Redis streams, from which sinks deliver them
  in batches to a store.

  \<^bold>\<open>Flow of data in the program.\<close> The capture reader pushes frames into a bounded
  single-producer single-consumer ring (\<^verbatim>\<open>libs/cloudflow-core/cf_queue.c\<close>) under a policy for a
  full ring (\<^verbatim>\<open>libs/cloudflow-capture/cf_queue_policy.c\<close>). A parsing stage pops frames, strips
  Ethernet, VLAN, IP and UDP/TCP headers (\<^verbatim>\<open>libs/cloudflow-packet/cf_decap.c\<close>), parses the payload
  (\<^verbatim>\<open>cf_dns.c\<close>) with the bounds-checked readers of \<^verbatim>\<open>cf_parse_util.c\<close>, classifies the leg
  (\<^verbatim>\<open>sources/cloudflow-source-dns/src/leg_classify.c\<close>), pairs queries with responses
  (\<^verbatim>\<open>correlation.c\<close>), decides what to emit (\<^verbatim>\<open>sampling.c\<close>) and stamps each event with an id
  (\<^verbatim>\<open>cf_event_id.c\<close> over \<^verbatim>\<open>sha256.c\<close>).

  \<^bold>\<open>Theories.\<close> Paths are relative to \<^verbatim>\<open>src/\<close>.
  \<^item> \<^verbatim>\<open>Prelude\<close>: bytes and words, the checked reader \<open>rd\<close> (an out-of-bounds read is \<open>None\<close>),
    memory copies into lists, ring arithmetic, hexadecimal digits.
  \<^item> \<^verbatim>\<open>Queue\<close>: the ring as a record with its storage bytes; the locale \<open>bounded_fifo\<close> is the contract
    its clients use and \<open>ringq\<close> its interpretation on the C operations.
  \<^item> \<^verbatim>\<open>Queue_Policy\<close>: drop_newest, drop_oldest and block. The consumer and the stop flag seen by the
    blocking loop are arguments; the loop's 500 attempts are the program's own bound.
  \<^item> \<^verbatim>\<open>Queue_Spsc\<close>: the two threads as a step relation with one step per atomic load, copy or store.
    Steps interleave sequentially; the acquire and release orders of the code give at least
    that for the two indices.
  \<^item> \<^verbatim>\<open>Sha256\<close>, \<^verbatim>\<open>Event_Id\<close>: the streaming hash against its block-by-block definition (locale
    \<open>stream_hash\<close>), and the id computed over length-prefixed fields.
  \<^item> \<^verbatim>\<open>Parse_Util\<close>: readers, string helpers, the warning list with allocation failure as an
    argument, address formatting.
  \<^item> \<^verbatim>\<open>Decap\<close>, \<^verbatim>\<open>Decap_Roundtrip\<close>: the header walk; memory safety; the inverse of explicit
    encoders for IPv4 and IPv6.
  \<^item> \<^verbatim>\<open>Dns\<close>, \<^verbatim>\<open>Dns_Names\<close>, \<^verbatim>\<open>Dns_Message\<close>: the DNS parser; name decompression against an inductive
    specification; totality and bounds of the whole parse.
  \<^item> \<^verbatim>\<open>Correlation\<close>, \<^verbatim>\<open>Correlation_Rep\<close>, \<^verbatim>\<open>Correlation_Refine\<close>: the transaction correlator over index
    arrays (a dangling index is \<open>None\<close>, a loop that would not end is \<open>None\<close>), its representation
    invariant, and its refinement of a plain list of pending queries (locale
    \<open>transaction_table\<close>).
  \<^item> \<^verbatim>\<open>Leg_Classify\<close>, \<^verbatim>\<open>Sampling\<close>: address sets, role map, leg classification; emit policy.
  \<^item> \<^verbatim>\<open>Bpf\<close>, \<^verbatim>\<open>Bpf_Filters\<close>: the assembler of the socket filters and its label resolution; the
    interpreter of the instruction set (a program that loops is \<open>None\<close>); the verdict of the DNS
    and DHCP programs on every frame.
  \<^item> \<^verbatim>\<open>Redis_Slot\<close>: the table-driven CRC-16 against its bit-serial definition, hash tags.
  \<^item> \<^verbatim>\<open>Dns_Stage\<close>, \<^verbatim>\<open>Dns_Stage_Run\<close>: the DNS stage \<^verbatim>\<open>dns_stage.c\<close>, from the frame through decoding,
    key building and the correlator to the queued event, with its contexts in an explicit store;
    \<^verbatim>\<open>Dns_Stage_Safe\<close>: the invariant that ties the store to the correlator's abstract table, and
    what each call of the correlator with its callbacks does to store and counters;
    \<^verbatim>\<open>Dns_Stage_Flow\<close>: whole runs, the thread and its shutdown: no leak, no double free, every frame
    and transaction counted, symmetric keys.
  \<^item> \<^verbatim>\<open>Sink_World\<close>: what a sink sees outside: Redis replies and connections, transfers, clock, stop flag,
    allocator, as answers of an arbitrary environment, with the history of effects;
    \<^verbatim>\<open>Sink_Deliver\<close>: batched delivery with retry and bisection (\<^verbatim>\<open>cf_sink_httpdeliver.c\<close>, \<^verbatim>\<open>cf_sink_hec.c\<close>) and
    the interfaces \<open>http_post\<close> and \<open>delivery\<close>; \<^verbatim>\<open>Sink_Consumer\<close>: the Redis consumer
    (\<^verbatim>\<open>cf_sink_consumer.c\<close>, \<^verbatim>\<open>cf_sink_deadletter.c\<close>); \<^verbatim>\<open>Sink_Safe\<close>: no acknowledgement before an entry is
    settled; \<^verbatim>\<open>Sink_Run\<close>: the harness (\<^verbatim>\<open>cf_sink_run.c\<close>) and at-least-once over whole runs;
    \<^verbatim>\<open>Sink_Live\<close>: a stop ends every run, clean runs release their connection, two double releases.
  \<^item> \<^verbatim>\<open>Dhcp_Util\<close>: the helpers both DHCP parsers copy from \<^verbatim>\<open>cf_parse_util.c\<close>, proved equal to it, and
    the RFC 3396 concatenation map behind the interface \<open>option_store\<close>; \<^verbatim>\<open>Ip_Text\<close>: address and
    hexadecimal texts determine what they print;
    \<^verbatim>\<open>Dhcpv4_Decode\<close>, \<^verbatim>\<open>Dhcpv4\<close>: the DHCPv4 parser (\<^verbatim>\<open>cf_dhcpv4*.c\<close>); \<^verbatim>\<open>Dhcpv4_Walk\<close>: its option walk
    computes what a reference parser on byte lists finds; \<^verbatim>\<open>Dhcpv4_Safe\<close>: every decoder returns and
    keeps the decoded options well typed (interface \<open>decoded_invariant\<close>); \<^verbatim>\<open>Dhcpv4_Parse\<close>, \<^verbatim>\<open>Dhcpv4_Wire\<close>,
    \<^verbatim>\<open>Dhcpv4_Interp\<close>: whole messages, round trips, keys; \<^verbatim>\<open>Dhcpv6\<close>, \<^verbatim>\<open>Dhcpv6_Walk\<close>, \<^verbatim>\<open>Dhcpv6_Parse\<close>,
    \<^verbatim>\<open>Dhcpv6_Wire\<close>: the same for DHCPv6 (\<^verbatim>\<open>cf_dhcpv6*.c\<close>).
  \<^item> \<^verbatim>\<open>Total\<close>: the total-correctness calculus of the stateful components over option-valued programs,
    \<open>ends f P\<close>: the program returns and the result satisfies \<open>P\<close>.
  \<^item> \<^verbatim>\<open>Redis_Text\<close>: the C library's number scanners and printers the Redis code uses, over byte strings;
    \<^verbatim>\<open>Redis_Producer\<close>: the producer thread \<^verbatim>\<open>cf_redis_producer.c\<close> with its pipeline, batch retry and drain;
    \<^verbatim>\<open>Redis_Producer_Safe\<close>, \<^verbatim>\<open>Redis_Producer_Run\<close>: each operation ends and accounts for the entries it holds,
    then whole iterations, the drain deadline and the thread; \<^verbatim>\<open>Redis_Producer_Thm\<close>: stop settles every event;
    \<^verbatim>\<open>Redis_Cluster\<close>: the cluster client \<^verbatim>\<open>cf_redis_cluster.c\<close> (node table, slot map, redirects) over an explicit
    set of live connections and replies; \<^verbatim>\<open>Redis_Cluster_Safe\<close>, \<^verbatim>\<open>Redis_Cluster_Thm\<close>: nothing it
    opens is lost or released twice, the slot map is the announced one, redirects are followed.
  \<^item> \<^verbatim>\<open>Dhcp_Formatter\<close>: the DHCP formatter \<^verbatim>\<open>formatter.c\<close> from the queued frame to the queued event;
    \<^verbatim>\<open>Dhcp_Formatter_Safe\<close>: every branch returns and counts its packet; \<^verbatim>\<open>Dhcp_Formatter_Thm\<close>: the event of a frame
    composed from the encoders of the decapsulation and DHCPv4 theories, the thread's shutdown, and
    the formatter stopping before the producer as \<^verbatim>\<open>main.c\<close> composes them.
  \<^item> \<^verbatim>\<open>Capture\<close>: counters and element push shared by the readers, and the pcap reader \<^verbatim>\<open>cf_pcap_replay.c\<close>;
    \<^verbatim>\<open>Capture_Replay\<close>: the accounting of a run (interface \<open>frame_reader\<close>, interpreted for both readers), the
    inverse of an encoder of pcap files, cut files; \<^verbatim>\<open>Rx_Reader\<close>: the live reader \<^verbatim>\<open>cf_rx_reader.c\<close> over the
    ring shared with the kernel; \<^verbatim>\<open>Rx_Reader_Run\<close>: the kernel's discipline as a step relation, the
    invariant tying the reader's cursor to it, and whole runs with their resources.

  \<^bold>\<open>Conventions.\<close> A NULL pointer is \<open>None\<close>; memory that \<open>malloc\<close> leaves undefined is a free
  argument (\<open>junk\<close>, \<open>stale\<close>); an \<open>int64_t\<close> time is an \<open>int\<close> and a counter a \<open>nat\<close> (no run
  of the program is long enough to wrap them); a \<open>size_t\<close> length is a \<open>nat\<close>, protocol fields are
  words. Termination is proved where the model is a total function; for the loops over linked
  entries (\<open>partial_function\<close>) the refinement theorem shows that every operation returns.

  \<^bold>\<open>Not modelled.\<close> Kernel rings, sockets, files, logging, YAML configuration, start-up and thread
  creation, the generated protobuf codec and the third-party libraries the code calls.
\<close>

end
